(* ===== verification/Prelude.thy ===== *)
theory Prelude
  imports Complex_Main "HOL-Library.AList" "HOL-Library.Word" "HOL-Library.Char_ord"
    "HOL-Library.List_Lexorder"
begin

section \<open>Prelude\<close>

text \<open>
  What every component shares: the types that stand for Python's values, Python's insertion-ordered
  dictionaries as association lists, and the generic facts on lists and dictionaries that the
  component proofs use.

  \<^item> A timezone-aware \<open>datetime\<close> is a number of microseconds (\<open>datetime\<close>), and so is a
    \<open>timedelta\<close>: Python's resolution, so comparisons and sums are exact.
  \<^item> A Python \<open>float\<close> is a \<open>real\<close>: rounding, infinities and NaN are not modelled (the models'
    field constraints \<open>ge\<close>/\<open>le\<close> exclude the latter two wherever a bound is stated).
  \<^item> A \<open>str\<close> is a \<open>string\<close> of characters.
  \<^item> A \<open>dict\<close>/\<open>OrderedDict\<close> whose order matters is an association list with distinct keys:
    \<open>d[k] = v\<close> is \<open>AList.update\<close> (it keeps the position of a present key and appends a new one),
    \<open>del d[k]\<close> is \<open>AList.delete\<close>, \<open>popitem(last=False)\<close> is \<open>tl\<close>, and \<open>move_to_end\<close> is
    \<open>od_move_to_end\<close>.
\<close>

type_synonym datetime = int
type_synonym timedelta = int
type_synonym ('k, 'v) odict = "('k \<times> 'v) list"

named_theorems od_simps \<open>ordered-dictionary rewriting\<close>
named_theorems stage_simps \<open>definitions of validation stages\<close>

definition seconds :: "int \<Rightarrow> timedelta" where
  "seconds n = n * 1000000"

lemma seconds_mono [simp]: "seconds a \<le> seconds b \<longleftrightarrow> a \<le> b"
  by (simp add: seconds_def)

lemma seconds_less [simp]: "seconds a < seconds b \<longleftrightarrow> a < b"
  by (simp add: seconds_def)

lemma seconds_pos [simp]: "0 < seconds a \<longleftrightarrow> 0 < a"
  by (simp add: seconds_def)

text \<open>\<open>math.ceil\<close> of a duration's \<open>total_seconds()\<close>.\<close>

definition ceil_seconds :: "timedelta \<Rightarrow> int" where
  "ceil_seconds d = - ((- d) div 1000000)"

lemma ceil_seconds_ge: "d \<le> seconds (ceil_seconds d)"
  by (simp add: ceil_seconds_def seconds_def)

lemma ceil_seconds_least: "d \<le> seconds n \<Longrightarrow> ceil_seconds d \<le> n"
  by (simp add: ceil_seconds_def seconds_def)

text \<open>Python's \<open>round\<close>: to the nearest integer, halves to the even one.\<close>

definition py_round :: "real \<Rightarrow> int" where
  "py_round x =
     (let f = \<lfloor>x\<rfloor>; d = x - of_int f in
      if d < 1/2 then f else if 1/2 < d then f + 1 else if even f then f else f + 1)"

subsection \<open>Strings\<close>

text \<open>\<open>str.isspace\<close> of a Latin-1 character, and \<open>str.strip()\<close>.\<close>

definition is_space :: "char \<Rightarrow> bool" where
  "is_space c \<longleftrightarrow> (of_char c :: nat) \<in> {9, 10, 11, 12, 13, 28, 29, 30, 31, 32, 133, 160}"

definition strip :: "string \<Rightarrow> string" where
  "strip s = rev (dropWhile is_space (rev (dropWhile is_space s)))"

subsection \<open>Ordered dictionaries\<close>

definition od_keys :: "('k, 'v) odict \<Rightarrow> 'k list" where
  "od_keys d = map fst d"

abbreviation od_distinct :: "('k, 'v) odict \<Rightarrow> bool" where
  "od_distinct d \<equiv> distinct (map fst d)"

definition od_move_to_end :: "'k \<Rightarrow> ('k, 'v) odict \<Rightarrow> ('k, 'v) odict" where
  "od_move_to_end k d = (case map_of d k of None \<Rightarrow> d | Some v \<Rightarrow> AList.delete k d @ [(k, v)])"

lemma map_of_od_update [simp, od_simps]: "map_of (AList.update k v d) = (map_of d)(k \<mapsto> v)"
  by (simp add: update_conv')

lemma map_of_od_delete [simp, od_simps]: "map_of (AList.delete k d) = (map_of d)(k := None)"
  by (simp add: delete_conv')

lemma od_distinct_update [simp, intro]: "od_distinct d \<Longrightarrow> od_distinct (AList.update k v d)"
  by (rule distinct_update)

lemma od_distinct_delete [simp, intro]: "od_distinct d \<Longrightarrow> od_distinct (AList.delete k d)"
  by (rule distinct_delete)

lemma od_distinct_tl [simp, intro]: "od_distinct d \<Longrightarrow> od_distinct (tl d)"
  by (cases d) auto

lemma od_fst_update [od_simps]: "fst ` set (AList.update k v d) = insert k (fst ` set d)"
  by (metis dom_map_of_conv_image_fst dom_fun_upd map_of_od_update option.distinct(1))

lemma od_fst_delete [od_simps]: "fst ` set (AList.delete k d) = fst ` set d - {k}"
  by (auto simp: AList.delete_eq)

lemma length_od_update:
  "length (AList.update k v d) = (if k \<in> fst ` set d then length d else Suc (length d))"
  by (induction d) auto

lemma length_od_delete_le: "length (AList.delete k d) \<le> length d"
  by (simp add: AList.delete_eq)

lemma length_od_delete:
  assumes "od_distinct d"
  shows "length (AList.delete k d) = (if k \<in> fst ` set d then length d - 1 else length d)"
proof -
  have card: "length (AList.delete k d) = card (fst ` set (AList.delete k d))"
    using assms by (metis distinct_card distinct_delete length_map set_map)
  have "length d = card (fst ` set d)"
    using assms by (metis distinct_card length_map set_map)
  then show ?thesis
    using card by (simp add: od_fst_delete card_Diff_singleton_if)
qed

lemma map_of_None_iff_key: "map_of d k = None \<longleftrightarrow> k \<notin> fst ` set d"
  by (rule map_of_eq_None_iff)

lemma map_of_Some_key: "map_of d k = Some v \<Longrightarrow> k \<in> fst ` set d"
  by (metis image_eqI fst_conv map_of_SomeD)

lemma od_distinct_move [simp, intro]: "od_distinct d \<Longrightarrow> od_distinct (od_move_to_end k d)"
  by (auto simp: od_move_to_end_def od_fst_delete split: option.splits)

lemma map_of_od_move [simp, od_simps]: "map_of (od_move_to_end k d) = map_of d"
  by (auto simp: od_move_to_end_def fun_eq_iff map_add_def split: option.splits)

lemma od_fst_move [simp, od_simps]: "fst ` set (od_move_to_end k d) = fst ` set d"
  by (metis dom_map_of_conv_image_fst map_of_od_move)

lemma length_od_move [simp]: "od_distinct d \<Longrightarrow> length (od_move_to_end k d) = length d"
  by (metis od_distinct_move od_fst_move distinct_card length_map set_map)

lemma set_od_move: "od_distinct d \<Longrightarrow> set (od_move_to_end k d) = set d"
  using map_of_od_move [of k d] map_of_is_SomeI od_distinct_move
  by (metis map_of_inject_set)

lemma last_od_move: "map_of d k = Some v \<Longrightarrow> last (od_move_to_end k d) = (k, v)"
  by (simp add: od_move_to_end_def)

text \<open>Every value of a dictionary satisfies a predicate.\<close>

definition od_all :: "('v \<Rightarrow> bool) \<Rightarrow> ('k, 'v) odict \<Rightarrow> bool" where
  "od_all P d \<longleftrightarrow> (\<forall>(k, v) \<in> set d. P v)"

lemma od_all_Nil [simp]: "od_all P []"
  by (simp add: od_all_def)

lemma od_all_Cons [simp]: "od_all P ((k, v) # d) \<longleftrightarrow> P v \<and> od_all P d"
  by (simp add: od_all_def)

lemma od_all_update [intro]: "od_all P d \<Longrightarrow> P v \<Longrightarrow> od_all P (AList.update k v d)"
  by (induction d) (auto simp: od_all_def)

lemma od_all_delete [intro]: "od_all P d \<Longrightarrow> od_all P (AList.delete k d)"
  by (auto simp: od_all_def AList.delete_eq)

lemma od_all_tl [intro]: "od_all P d \<Longrightarrow> od_all P (tl d)"
  by (cases d) (auto simp: od_all_def)

lemma od_all_move [intro]: "od_distinct d \<Longrightarrow> od_all P d \<Longrightarrow> od_all P (od_move_to_end k d)"
  by (simp add: od_all_def set_od_move)

lemma od_all_lookup: "od_all P d \<Longrightarrow> map_of d k = Some v \<Longrightarrow> P v"
  by (auto simp: od_all_def dest: map_of_SomeD)

text \<open>A dictionary whose keys are a function of the values: looking up is finding the value.\<close>

lemma keyed_lookup:
  assumes "od_distinct d" "\<And>k v. (k, v) \<in> set d \<Longrightarrow> f v = k"
  shows "map_of d k = Some v \<longleftrightarrow> v \<in> snd ` set d \<and> f v = k"
proof
  assume "map_of d k = Some v"
  then have "(k, v) \<in> set d" by (rule map_of_SomeD)
  then show "v \<in> snd ` set d \<and> f v = k" using assms(2) by (force intro: rev_image_eqI)
next
  assume "v \<in> snd ` set d \<and> f v = k"
  then obtain k' where "(k', v) \<in> set d" "f v = k" by auto
  then show "map_of d k = Some v" using assms by (metis map_of_is_SomeI)
qed

lemma map_keys_keyed: "(\<And>k v. (k, v) \<in> set d \<Longrightarrow> f v = k) \<Longrightarrow> map f (map snd d) = map fst d"
  by (induction d) auto

end
