(* ===== verification/Ipv4.thy ===== *)
theory Ipv4
  imports Prelude
begin

section \<open>IPv4 addresses and networks\<close>

text \<open>
  Python's \<open>ipaddress\<close> as far as the program uses it: an \<open>IPv4Address\<close> is a 32-bit word, an
  \<open>IPv4Network\<close> its network address and prefix length. The operations follow the standard
  library's definitions (\<open>in\<close>, \<open>overlaps\<close>, \<open>supernet_of\<close>, \<open>broadcast_address\<close> and the
  \<open>is_*\<close> predicates of IPv4). The lemmas give their meaning as sets of addresses, which is what
  the validation stages' correctness is stated with.
\<close>

unbundle bit_operations_syntax

type_synonym ipv4_address = "32 word"

record ipv4_network =
  network_address :: ipv4_address
  prefixlen :: nat

definition hostmask :: "nat \<Rightarrow> ipv4_address" where
  "hostmask p = mask (32 - p)"

definition netmask :: "nat \<Rightarrow> ipv4_address" where
  "netmask p = NOT (hostmask p)"

text \<open>What the constructor \<open>IPv4Network(...)\<close> accepts: a prefix of at most 32 and no host bits set.\<close>

definition wf_network :: "ipv4_network \<Rightarrow> bool" where
  "wf_network n \<longleftrightarrow> prefixlen n \<le> 32 \<and> network_address n AND hostmask (prefixlen n) = 0"

definition broadcast_address :: "ipv4_network \<Rightarrow> ipv4_address" where
  "broadcast_address n = network_address n OR hostmask (prefixlen n)"

text \<open>\<open>address in network\<close>.\<close>

definition in_network :: "ipv4_address \<Rightarrow> ipv4_network \<Rightarrow> bool" where
  "in_network a n \<longleftrightarrow> a AND netmask (prefixlen n) = network_address n"

definition overlaps :: "ipv4_network \<Rightarrow> ipv4_network \<Rightarrow> bool" where
  "overlaps n m \<longleftrightarrow> in_network (network_address n) m \<or> in_network (broadcast_address n) m
     \<or> in_network (network_address m) n \<or> in_network (broadcast_address m) n"

definition supernet_of :: "ipv4_network \<Rightarrow> ipv4_network \<Rightarrow> bool" where
  "supernet_of n m \<longleftrightarrow> network_address n \<le> network_address m \<and> broadcast_address m \<le> broadcast_address n"

text \<open>\<open>IPv4Network(f"{ip}/32")\<close>.\<close>

definition host_network :: "ipv4_address \<Rightarrow> ipv4_network" where
  "host_network a = \<lparr>network_address = a, prefixlen = 32\<rparr>"

definition ipv4 :: "nat \<Rightarrow> nat \<Rightarrow> nat \<Rightarrow> nat \<Rightarrow> ipv4_address" where
  "ipv4 a b c d = of_nat (((a * 256 + b) * 256 + c) * 256 + d)"

definition is_unspecified :: "ipv4_address \<Rightarrow> bool" where
  "is_unspecified a \<longleftrightarrow> a = 0"

definition is_loopback :: "ipv4_address \<Rightarrow> bool" where
  "is_loopback a \<longleftrightarrow> in_network a \<lparr>network_address = ipv4 127 0 0 0, prefixlen = 8\<rparr>"

definition is_multicast :: "ipv4_address \<Rightarrow> bool" where
  "is_multicast a \<longleftrightarrow> in_network a \<lparr>network_address = ipv4 224 0 0 0, prefixlen = 4\<rparr>"

definition is_link_local :: "ipv4_address \<Rightarrow> bool" where
  "is_link_local a \<longleftrightarrow> in_network a \<lparr>network_address = ipv4 169 254 0 0, prefixlen = 16\<rparr>"

definition is_reserved :: "ipv4_address \<Rightarrow> bool" where
  "is_reserved a \<longleftrightarrow> in_network a \<lparr>network_address = ipv4 240 0 0 0, prefixlen = 4\<rparr>"

lemmas ip_class_defs = is_unspecified_def is_loopback_def is_multicast_def is_link_local_def
  is_reserved_def

lemmas ip_eval = ip_class_defs in_network_def netmask_def hostmask_def broadcast_address_def
  ipv4_def host_network_def

subsection \<open>Networks as sets of addresses\<close>

lemma hostmask_32 [simp]: "hostmask 32 = 0"
  by (simp add: hostmask_def)

lemma netmask_32 [simp]: "netmask 32 = - 1"
  by (simp add: netmask_def)

lemma in_host_network [simp]: "in_network a (host_network b) \<longleftrightarrow> a = b"
  by (simp add: in_network_def host_network_def)

lemma wf_host_network [simp]: "wf_network (host_network a)"
  by (simp add: wf_network_def host_network_def)

lemma host_network_sel [simp]:
  "network_address (host_network a) = a" "prefixlen (host_network a) = 32"
  "broadcast_address (host_network a) = a"
  by (simp_all add: host_network_def broadcast_address_def)

lemma host_network_inject [simp]: "host_network a = host_network b \<longleftrightarrow> a = b"
  by (simp add: host_network_def)

lemma and_not_disjoint: "(x :: ipv4_address) AND h = 0 \<Longrightarrow> x AND NOT h = x"
  by (simp add: bit_eq_iff bit_simps) blast

lemma in_network_network_address [simp]: "wf_network n \<Longrightarrow> in_network (network_address n) n"
proof -
  assume "wf_network n"
  then have z: "network_address n AND hostmask (prefixlen n) = 0"
    by (simp add: wf_network_def)
  have "network_address n AND NOT (hostmask (prefixlen n)) = network_address n"
    by (rule and_not_disjoint [OF z])
  then show ?thesis by (simp add: in_network_def netmask_def)
qed

lemma in_network_broadcast_address [simp]: "wf_network n \<Longrightarrow> in_network (broadcast_address n) n"
  using in_network_network_address [of n]
  by (simp add: in_network_def netmask_def broadcast_address_def bit.conj_disj_distrib2)

lemma and_not_mask_shift: "(a :: ipv4_address) AND NOT (mask k) = push_bit k (drop_bit k a)"
  by (rule bit_eqI) (auto simp: bit_simps)

lemma unat_and_not_mask:
  assumes "k \<le> 32"
  shows "unat ((a :: ipv4_address) AND NOT (mask k)) = unat a div 2 ^ k * 2 ^ k"
proof -
  have "unat (push_bit k (drop_bit k a)) = take_bit 32 (push_bit k (drop_bit k (unat a)))"
    by (simp add: unsigned_push_bit_eq unat_drop_bit_eq)
  also have "\<dots> = unat a div 2 ^ k * 2 ^ k"
  proof -
    have "unat a div 2 ^ k * 2 ^ k \<le> unat a" by simp
    moreover have "unat a < 2 ^ 32" using unsigned_less [of a] by simp
    ultimately have "unat a div 2 ^ k * 2 ^ k < 2 ^ 32" by linarith
    then show ?thesis
      by (simp add: push_bit_eq_mult drop_bit_eq_div take_bit_nat_eq_self)
  qed
  finally show ?thesis by (simp add: and_not_mask_shift)
qed

lemma unat_mask_32:
  assumes "k \<le> 32"
  shows "unat (mask k :: ipv4_address) = 2 ^ k - 1"
proof -
  have "unat (mask k :: ipv4_address) = unat (of_nat (mask k) :: ipv4_address)"
    by (simp only: of_nat_mask_eq)
  also have "\<dots> = take_bit 32 (mask k)"
    by (simp only: unsigned_of_nat) simp
  also have "\<dots> = mask k"
    using assms by (simp add: take_bit_of_mask min_def)
  finally show ?thesis by (simp add: mask_eq_exp_minus_1)
qed

lemma in_network_iff_range:
  assumes wf: "wf_network n"
  shows "in_network a n \<longleftrightarrow> network_address n \<le> a \<and> a \<le> broadcast_address n"
proof -
  define k where "k = 32 - prefixlen n"
  have k: "k \<le> 32" by (simp add: k_def)
  have nz: "network_address n AND mask k = 0"
    using wf by (simp add: wf_network_def hostmask_def k_def)
  have self: "network_address n AND NOT (mask k) = network_address n"
    using in_network_network_address [OF wf] by (simp add: in_network_def netmask_def hostmask_def k_def)
  have q: "unat (network_address n) = unat (network_address n) div 2 ^ k * 2 ^ k"
    using unat_and_not_mask [OF k, of "network_address n"] self by simp
  have bc: "unat (broadcast_address n) = unat (network_address n) + (2 ^ k - 1)"
  proof -
    have "broadcast_address n = network_address n + mask k"
      using nz by (simp add: broadcast_address_def hostmask_def k_def disjunctive_add_eq_or)
    moreover have "unat (network_address n) + unat (mask k :: ipv4_address) < 2 ^ 32"
    proof -
      have "unat (network_address n) div 2 ^ k < 2 ^ (32 - k)"
        using unsigned_less [of "network_address n"] k
        by (intro less_mult_imp_div_less) (simp add: power_add [symmetric])
      then have "(unat (network_address n) div 2 ^ k + 1) * 2 ^ k \<le> 2 ^ (32 - k) * 2 ^ k"
        by (intro mult_le_mono) auto
      then have "unat (network_address n) + 2 ^ k \<le> 2 ^ 32"
        using q k by (simp add: power_add [symmetric] algebra_simps)
      moreover have "(0 :: nat) < 2 ^ k" by simp
      ultimately show ?thesis using unat_mask_32 [OF k] by linarith
    qed
    ultimately show ?thesis
      using unat_mask_32 [OF k] by (simp add: unat_word_ariths)
  qed
  have "in_network a n \<longleftrightarrow> unat (a AND NOT (mask k)) = unat (network_address n)"
    by (simp add: in_network_def netmask_def hostmask_def k_def word_unat_eq_iff)
  also have "\<dots> \<longleftrightarrow> unat a div 2 ^ k * 2 ^ k = unat (network_address n)"
    by (simp add: unat_and_not_mask k)
  also have "\<dots> \<longleftrightarrow> unat (network_address n) \<le> unat a \<and> unat a \<le> unat (broadcast_address n)"
  proof -
    define Q where "Q = unat (network_address n) div 2 ^ k"
    define M :: nat where "M = 2 ^ k"
    have M: "0 < M" by (simp add: M_def)
    have "unat a div M * M = Q * M \<longleftrightarrow> Q * M \<le> unat a \<and> unat a \<le> Q * M + (M - 1)"
    proof
      assume "unat a div M * M = Q * M"
      moreover have "unat a div M * M + unat a mod M = unat a" by simp
      moreover have "unat a mod M < M" using M by simp
      ultimately show "Q * M \<le> unat a \<and> unat a \<le> Q * M + (M - 1)" by linarith
    next
      assume r: "Q * M \<le> unat a \<and> unat a \<le> Q * M + (M - 1)"
      then have "unat a < Q * M + M" using M by linarith
      then have "unat a div M = Q"
        using r by (intro div_nat_eqI) (simp_all add: algebra_simps)
      then show "unat a div M * M = Q * M" by simp
    qed
    then show ?thesis using q bc by (simp add: Q_def M_def)
  qed
  finally show ?thesis by (simp add: word_le_nat_alt)
qed

lemma supernet_of_iff_subset:
  assumes "wf_network n" "wf_network m"
  shows "supernet_of n m \<longleftrightarrow> (\<forall>a. in_network a m \<longrightarrow> in_network a n)"
proof
  assume "supernet_of n m"
  then show "\<forall>a. in_network a m \<longrightarrow> in_network a n"
    using assms by (auto simp: supernet_of_def in_network_iff_range)
next
  assume sub: "\<forall>a. in_network a m \<longrightarrow> in_network a n"
  then have "in_network (network_address m) n" "in_network (broadcast_address m) n"
    using assms(2) by simp_all
  then show "supernet_of n m"
    using assms(1) by (simp add: supernet_of_def in_network_iff_range)
qed

lemma nested_if_meet:
  assumes "prefixlen n \<le> prefixlen m" "in_network a n" "in_network a m" "in_network b m"
  shows "in_network b n"
proof -
  have le: "32 - prefixlen m \<le> 32 - prefixlen n" using assms(1) by simp
  have absorb: "x AND NOT (mask (32 - prefixlen n)) =
      (x AND NOT (mask (32 - prefixlen m))) AND NOT (mask (32 - prefixlen n))" for x :: ipv4_address
    using le by (intro bit_eqI) (auto simp: bit_simps)
  have "b AND NOT (mask (32 - prefixlen m)) = a AND NOT (mask (32 - prefixlen m))"
    using assms(3,4) by (simp add: in_network_def netmask_def hostmask_def)
  then have "b AND NOT (mask (32 - prefixlen n)) = a AND NOT (mask (32 - prefixlen n))"
    using absorb by metis
  then show ?thesis
    using assms(2) by (simp add: in_network_def netmask_def hostmask_def)
qed

lemma overlaps_iff_meet:
  assumes "wf_network n" "wf_network m"
  shows "overlaps n m \<longleftrightarrow> (\<exists>a. in_network a n \<and> in_network a m)"
proof
  assume "overlaps n m"
  then show "\<exists>a. in_network a n \<and> in_network a m"
    using assms by (auto simp: overlaps_def intro: in_network_network_address in_network_broadcast_address)
next
  assume "\<exists>a. in_network a n \<and> in_network a m"
  then obtain a where a: "in_network a n" "in_network a m" by blast
  show "overlaps n m"
  proof (cases "prefixlen n \<le> prefixlen m")
    case True
    then have "in_network (network_address m) n"
      using nested_if_meet [OF True a] assms(2) by simp
    then show ?thesis by (simp add: overlaps_def)
  next
    case False
    then have "in_network (network_address n) m"
      using nested_if_meet [of m n a "network_address n"] a assms(1) by simp
    then show ?thesis by (simp add: overlaps_def)
  qed
qed

lemma overlaps_host_iff [simp]: "wf_network n \<Longrightarrow> overlaps n (host_network a) \<longleftrightarrow> in_network a n"
  by (simp add: overlaps_iff_meet)

lemma overlaps_host_left_iff [simp]: "wf_network n \<Longrightarrow> overlaps (host_network a) n \<longleftrightarrow> in_network a n"
  by (simp add: overlaps_iff_meet)

end
