(* ===== verification/Enums.thy ===== *)
theory Enums
  imports Prelude
begin

section \<open>The closed vocabularies\<close>

text \<open>
  The enumerations of \<open>core/enums.py\<close> that the modelled components use, \<open>OffenderCode\<close> and its
  guard table from \<open>core/nft_names.py\<close>. Each \<open>StrEnum\<close> class is a datatype whose constructors carry
  a prefix for the class, since the source reuses member names between classes. The \<open>_value\<close>
  functions are the members' string values, for the enumerations whose values the code prints.
  \<open>ThreatLevel\<close> and \<open>FirewallAction\<close> are ordered by severity and by the rank of
  \<open>engine/decision.py\<close>.
\<close>

datatype threat_level = TL_LOW | TL_MEDIUM | TL_HIGH | TL_CRITICAL

datatype firewall_action = FA_ALLOW | FA_MONITOR | FA_RATE_LIMIT | FA_BLOCK

datatype rule_status = RS_CANDIDATE | RS_VALIDATING | RS_REJECTED | RS_SHADOWED | RS_PENDING_APPROVAL
  | RS_APPROVED | RS_DEPLOYED | RS_ACTIVE | RS_EXPIRED | RS_DISABLED | RS_REMOVED

datatype rule_direction = RD_INBOUND | RD_OUTBOUND

datatype protocol = P_TCP | P_UDP | P_ICMP | P_ICMPV6 | P_OTHER | P_ANY

datatype enforcement_mode = EM_SHADOW | EM_ASSISTED | EM_ACTIVE

datatype behavior_pattern_type = BP_REPEATED_CONNECTIONS | BP_HIGH_FREQUENCY | BP_BURST
  | BP_PERSISTENCE | BP_DESTINATION_DIVERSITY | BP_REPEATED_FAILURES | BP_TEMPORAL_PATTERN
  | BP_SCANNING | BP_SLOW_RATE_DOS | BP_FLOOD

datatype rule_rejection_reason = RR_INVALID_SCHEMA | RR_INVALID_NETWORK | RR_ALLOWLISTED | RR_UNSAFE
  | RR_CONFLICT | RR_DUPLICATE | RR_RATE_LIMITED | RR_SHADOWED | RR_MISSING_EXPIRATION
  | RR_UNAUTHORIZED | RR_UNENFORCEABLE | RR_EXPIRATION_TOO_LONG | RR_NO_NEW_EVIDENCE
  | RR_SPOOFED_SOURCE

datatype guard_name = GN_RAW | GN_INPUT | GN_FORWARD

datatype guard_mode = GM_OBSERVE | GM_ENFORCE

datatype binding_source = BS_LEASE | BS_STATIC

datatype d1_detector = D1_VERTICAL_SCAN | D1_HORIZONTAL_SCAN | D1_FAILED_HANDSHAKE | D1_BRUTE_FORCE
  | D1_SLOW_RATE_DOS | D1_FAN_IN | D1_NEW_MAC_RATE | D1_NEW_LEASE_RATE | D1_PORTAL_AUTH_FAILURES

datatype offender_code = OC_SYN_PPS | OC_UDP_LOCAL_PPS | OC_ICMP_PPS | OC_LOCAL_PPS | OC_CLOSED_PORT
  | OC_NEWCONN | OC_NEWCONN_DST | OC_UDP_FWD | OC_UNBOUND | OC_DNS_QPS | OC_DHCP
  | OC_PORTAL_CONCURRENCY

fun offender_code_number :: "offender_code \<Rightarrow> nat" where
  "offender_code_number OC_SYN_PPS = 1"
| "offender_code_number OC_UDP_LOCAL_PPS = 2"
| "offender_code_number OC_ICMP_PPS = 3"
| "offender_code_number OC_LOCAL_PPS = 4"
| "offender_code_number OC_CLOSED_PORT = 5"
| "offender_code_number OC_NEWCONN = 6"
| "offender_code_number OC_NEWCONN_DST = 7"
| "offender_code_number OC_UDP_FWD = 8"
| "offender_code_number OC_UNBOUND = 10"
| "offender_code_number OC_DNS_QPS = 53"
| "offender_code_number OC_DHCP = 67"
| "offender_code_number OC_PORTAL_CONCURRENCY = 8080"

fun offender_guard :: "offender_code \<Rightarrow> guard_name" where
  "offender_guard OC_SYN_PPS = GN_RAW"
| "offender_guard OC_UDP_LOCAL_PPS = GN_RAW"
| "offender_guard OC_ICMP_PPS = GN_RAW"
| "offender_guard OC_LOCAL_PPS = GN_RAW"
| "offender_guard OC_UNBOUND = GN_RAW"
| "offender_guard OC_DHCP = GN_RAW"
| "offender_guard OC_CLOSED_PORT = GN_INPUT"
| "offender_guard OC_DNS_QPS = GN_INPUT"
| "offender_guard OC_PORTAL_CONCURRENCY = GN_INPUT"
| "offender_guard OC_NEWCONN = GN_FORWARD"
| "offender_guard OC_NEWCONN_DST = GN_FORWARD"
| "offender_guard OC_UDP_FWD = GN_FORWARD"

fun offender_code_name :: "offender_code \<Rightarrow> string" where
  "offender_code_name OC_SYN_PPS = ''SYN_PPS''"
| "offender_code_name OC_UDP_LOCAL_PPS = ''UDP_LOCAL_PPS''"
| "offender_code_name OC_ICMP_PPS = ''ICMP_PPS''"
| "offender_code_name OC_LOCAL_PPS = ''LOCAL_PPS''"
| "offender_code_name OC_CLOSED_PORT = ''CLOSED_PORT''"
| "offender_code_name OC_NEWCONN = ''NEWCONN''"
| "offender_code_name OC_NEWCONN_DST = ''NEWCONN_DST''"
| "offender_code_name OC_UDP_FWD = ''UDP_FWD''"
| "offender_code_name OC_UNBOUND = ''UNBOUND''"
| "offender_code_name OC_DNS_QPS = ''DNS_QPS''"
| "offender_code_name OC_DHCP = ''DHCP''"
| "offender_code_name OC_PORTAL_CONCURRENCY = ''PORTAL_CONCURRENCY''"

subsection \<open>String values\<close>

fun firewall_action_value :: "firewall_action \<Rightarrow> string" where
  "firewall_action_value FA_ALLOW = ''allow''"
| "firewall_action_value FA_MONITOR = ''monitor''"
| "firewall_action_value FA_RATE_LIMIT = ''rate_limit''"
| "firewall_action_value FA_BLOCK = ''block''"

fun behavior_pattern_value :: "behavior_pattern_type \<Rightarrow> string" where
  "behavior_pattern_value BP_REPEATED_CONNECTIONS = ''repeated_connections''"
| "behavior_pattern_value BP_HIGH_FREQUENCY = ''high_frequency''"
| "behavior_pattern_value BP_BURST = ''burst''"
| "behavior_pattern_value BP_PERSISTENCE = ''persistence''"
| "behavior_pattern_value BP_DESTINATION_DIVERSITY = ''destination_diversity''"
| "behavior_pattern_value BP_REPEATED_FAILURES = ''repeated_failures''"
| "behavior_pattern_value BP_TEMPORAL_PATTERN = ''temporal_pattern''"
| "behavior_pattern_value BP_SCANNING = ''scanning''"
| "behavior_pattern_value BP_SLOW_RATE_DOS = ''slow_rate_dos''"
| "behavior_pattern_value BP_FLOOD = ''flood''"

fun guard_name_value :: "guard_name \<Rightarrow> string" where
  "guard_name_value GN_RAW = ''raw''"
| "guard_name_value GN_INPUT = ''input''"
| "guard_name_value GN_FORWARD = ''forward''"

fun guard_mode_value :: "guard_mode \<Rightarrow> string" where
  "guard_mode_value GM_OBSERVE = ''observe''"
| "guard_mode_value GM_ENFORCE = ''enforce''"

fun d1_detector_value :: "d1_detector \<Rightarrow> string" where
  "d1_detector_value D1_VERTICAL_SCAN = ''vertical_scan''"
| "d1_detector_value D1_HORIZONTAL_SCAN = ''horizontal_scan''"
| "d1_detector_value D1_FAILED_HANDSHAKE = ''failed_handshake''"
| "d1_detector_value D1_BRUTE_FORCE = ''brute_force''"
| "d1_detector_value D1_SLOW_RATE_DOS = ''slow_rate_dos''"
| "d1_detector_value D1_FAN_IN = ''fan_in''"
| "d1_detector_value D1_NEW_MAC_RATE = ''new_mac_rate''"
| "d1_detector_value D1_NEW_LEASE_RATE = ''new_lease_rate''"
| "d1_detector_value D1_PORTAL_AUTH_FAILURES = ''portal_auth_failures''"

lemma firewall_action_value_inject [simp]:
  "firewall_action_value a = firewall_action_value b \<longleftrightarrow> a = b"
  by (cases a; cases b) simp_all

subsection \<open>Severity orders\<close>

fun threat_level_rank :: "threat_level \<Rightarrow> nat" where
  "threat_level_rank TL_LOW = 0"
| "threat_level_rank TL_MEDIUM = 1"
| "threat_level_rank TL_HIGH = 2"
| "threat_level_rank TL_CRITICAL = 3"

fun action_rank :: "firewall_action \<Rightarrow> nat" where
  "action_rank FA_ALLOW = 0"
| "action_rank FA_MONITOR = 1"
| "action_rank FA_RATE_LIMIT = 2"
| "action_rank FA_BLOCK = 3"

lemma threat_level_rank_inject: "threat_level_rank a = threat_level_rank b \<Longrightarrow> a = b"
  by (cases a; cases b) simp_all

lemma action_rank_inject: "action_rank a = action_rank b \<Longrightarrow> a = b"
  by (cases a; cases b) simp_all

instantiation threat_level :: linorder
begin

definition less_eq_threat_level :: "threat_level \<Rightarrow> threat_level \<Rightarrow> bool" where
  "less_eq_threat_level a b \<longleftrightarrow> threat_level_rank a \<le> threat_level_rank b"

definition less_threat_level :: "threat_level \<Rightarrow> threat_level \<Rightarrow> bool" where
  "less_threat_level a b \<longleftrightarrow> threat_level_rank a < threat_level_rank b"

instance
  by standard (auto simp: less_eq_threat_level_def less_threat_level_def dest: threat_level_rank_inject)

end

instantiation firewall_action :: linorder
begin

definition less_eq_firewall_action :: "firewall_action \<Rightarrow> firewall_action \<Rightarrow> bool" where
  "less_eq_firewall_action a b \<longleftrightarrow> action_rank a \<le> action_rank b"

definition less_firewall_action :: "firewall_action \<Rightarrow> firewall_action \<Rightarrow> bool" where
  "less_firewall_action a b \<longleftrightarrow> action_rank a < action_rank b"

instance
  by standard (auto simp: less_eq_firewall_action_def less_firewall_action_def dest: action_rank_inject)

end

lemmas severity_order_defs = less_eq_threat_level_def less_threat_level_def
  less_eq_firewall_action_def less_firewall_action_def

definition enforcing :: "firewall_action \<Rightarrow> bool" where
  "enforcing a \<longleftrightarrow> a = FA_RATE_LIMIT \<or> a = FA_BLOCK"

lemma enforcing_iff_above_monitor: "enforcing a \<longleftrightarrow> FA_MONITOR < a"
  by (cases a) (simp_all add: enforcing_def severity_order_defs)

lemma enforcing_simps [simp]:
  "enforcing FA_BLOCK" "enforcing FA_RATE_LIMIT" "\<not> enforcing FA_MONITOR" "\<not> enforcing FA_ALLOW"
  by (simp_all add: enforcing_def)

end
