(* ===== verification/Models.thy ===== *)
theory Models
  imports Ipv4 Enums
begin

section \<open>Domain models\<close>

text \<open>
  The records of \<open>core/models/\<close> with the checks their pydantic validators run. A validator that
  raises \<open>ValueError\<close> is a function to \<open>option\<close> (\<open>None\<close> for the raise) when it also normalises
  its input, and a bool-valued predicate when it only checks. MAC addresses are strings; what
  \<open>MacAddress\<close> and \<open>UnicastMacAddress\<close> accept and produce is \<open>normalise_mac\<close> and
  \<open>unicast_mac\<close>.
\<close>

unbundle bit_operations_syntax

type_synonym mac_address = string

subsection \<open>MAC addresses (common.py)\<close>

fun hex_value :: "char \<Rightarrow> nat option" where
  "hex_value c =
     (if CHR ''0'' \<le> c \<and> c \<le> CHR ''9'' then Some (of_char c - 48)
      else if CHR ''a'' \<le> c \<and> c \<le> CHR ''f'' then Some (of_char c - 87)
      else if CHR ''A'' \<le> c \<and> c \<le> CHR ''F'' then Some (of_char c - 55)
      else None)"

definition is_hex :: "char \<Rightarrow> bool" where
  "is_hex c \<longleftrightarrow> hex_value c \<noteq> None"

definition ascii_lower :: "char \<Rightarrow> char" where
  "ascii_lower c = (if CHR ''A'' \<le> c \<and> c \<le> CHR ''Z'' then char_of (of_char c + 32 :: nat) else c)"

text \<open>
  \<open>_MAC_PATTERN.fullmatch\<close>: seventeen characters, one separator of \<open>:\<close> or \<open>-\<close> at every third
  position (the back-reference), hex digits elsewhere.
\<close>

definition mac_pattern :: "string \<Rightarrow> bool" where
  "mac_pattern s \<longleftrightarrow> length s = 17
     \<and> (s ! 2 = CHR '':'' \<or> s ! 2 = CHR ''-'')
     \<and> list_all (\<lambda>i. s ! i = s ! 2) [5, 8, 11, 14]
     \<and> list_all (\<lambda>i. is_hex (s ! i)) [0, 1, 3, 4, 6, 7, 9, 10, 12, 13, 15, 16]"

definition normalise_mac :: "string \<Rightarrow> mac_address option" where
  "normalise_mac s =
     (if \<not> mac_pattern s then None
      else Some (map (\<lambda>c. if c = CHR ''-'' then CHR '':'' else c) (map ascii_lower s)))"

text \<open>\<open>int(value[:2], 16)\<close> of two hex digits.\<close>

definition first_octet :: "mac_address \<Rightarrow> nat" where
  "first_octet m = (case (hex_value (m ! 0), hex_value (m ! 1)) of
     (Some a, Some b) \<Rightarrow> 16 * a + b | _ \<Rightarrow> 0)"

definition require_unicast_identity :: "mac_address \<Rightarrow> mac_address option" where
  "require_unicast_identity m =
     (if first_octet m AND 1 \<noteq> 0 then None
      else if m = ''00:00:00:00:00:00'' then None
      else Some m)"

definition unicast_mac :: "string \<Rightarrow> mac_address option" where
  "unicast_mac s = Option.bind (normalise_mac s) require_unicast_identity"

subsection \<open>Identity (identity.py)\<close>

record rule_target =
  rt_ip :: ipv4_address
  rt_mac :: "mac_address option"

record binding =
  b_ip :: ipv4_address
  b_mac :: mac_address
  b_source :: binding_source
  b_expires_at :: "datetime option"

definition check_expiry_matches_source :: "binding \<Rightarrow> bool" where
  "check_expiry_matches_source b \<longleftrightarrow>
     \<not> (b_source b = BS_LEASE \<and> b_expires_at b = None)
     \<and> \<not> (b_source b = BS_STATIC \<and> b_expires_at b \<noteq> None)"

record binding_change =
  bc_removed :: "binding list"
  bc_added :: "binding list"

subsection \<open>Allowlist entries (allowlist.py)\<close>

record allowlist_entry =
  al_id :: string
  al_target :: ipv4_network
  al_port :: "int option"
  al_protocol :: "protocol option"
  al_reason :: string
  al_created_at :: datetime
  al_created_by :: string
  al_mac :: "mac_address option"

definition check_mac_names_one_device :: "allowlist_entry \<Rightarrow> bool" where
  "check_mac_names_one_device e \<longleftrightarrow> \<not> (al_mac e \<noteq> None \<and> prefixlen (al_target e) \<noteq> 32)"

subsection \<open>Rules (rule.py)\<close>

text \<open>The fields \<open>CandidateRule\<close> and \<open>FirewallRule\<close> share (\<open>_RuleFields\<close>), then each class.\<close>

record rule_fields =
  rf_action :: firewall_action
  rf_direction :: rule_direction
  rf_source :: ipv4_network
  rf_destination :: ipv4_network
  rf_protocol :: protocol
  rf_source_port :: "int option"
  rf_destination_port :: "int option"
  rf_reason :: string
  rf_threat_score :: "real option"
  rf_evidence :: "string list"
  rf_metadata :: "(string \<times> string) list"
  rf_target :: "rule_target option"

record candidate_rule = rule_fields +
  cr_id :: string
  cr_decision_id :: string
  cr_created_at :: datetime
  cr_expires_at :: "datetime option"
  cr_status :: rule_status

record firewall_rule = rule_fields +
  fr_id :: string
  fr_priority :: int
  fr_status :: rule_status
  fr_created_at :: datetime
  fr_expires_at :: "datetime option"
  fr_deployed_at :: "datetime option"

definition check_target_is_the_source :: "'a rule_fields_scheme \<Rightarrow> bool" where
  "check_target_is_the_source r \<longleftrightarrow>
     (case rf_target r of None \<Rightarrow> True | Some t \<Rightarrow> rf_source r = host_network (rt_ip t))"

definition port_ok :: "int option \<Rightarrow> bool" where
  "port_ok p \<longleftrightarrow> (case p of None \<Rightarrow> True | Some n \<Rightarrow> 0 \<le> n \<and> n \<le> 65535)"

text \<open>Everything the pydantic model guarantees of a constructed rule.\<close>

definition valid_rule_fields :: "'a rule_fields_scheme \<Rightarrow> bool" where
  "valid_rule_fields r \<longleftrightarrow> wf_network (rf_source r) \<and> wf_network (rf_destination r)
     \<and> port_ok (rf_source_port r) \<and> port_ok (rf_destination_port r) \<and> rf_reason r \<noteq> []
     \<and> (case rf_threat_score r of None \<Rightarrow> True | Some s \<Rightarrow> 0 \<le> s \<and> s \<le> 100)
     \<and> check_target_is_the_source r"

subsection \<open>Decisions (decision.py, policy.py)\<close>

record firewall_decision =
  fd_id :: string
  fd_threat_assessment_id :: string
  fd_flow_id :: "string option"
  fd_action :: firewall_action
  fd_threat_score :: real
  fd_threat_level :: threat_level
  fd_reason :: string
  fd_evidence :: "string list"
  fd_decided_at :: datetime

definition MAX_ELEMENT_TTL_SECONDS :: int where
  "MAX_ELEMENT_TTL_SECONDS = 3600"

fun threat_level_by_action :: "firewall_action \<Rightarrow> threat_level" where
  "threat_level_by_action FA_ALLOW = TL_LOW"
| "threat_level_by_action FA_MONITOR = TL_MEDIUM"
| "threat_level_by_action FA_RATE_LIMIT = TL_HIGH"
| "threat_level_by_action FA_BLOCK = TL_CRITICAL"

record policy_decision =
  pd_id :: string
  pd_target :: rule_target
  pd_action :: firewall_action
  pd_ttl_seconds :: "int option"
  pd_reasons :: "string list"
  pd_evidence_ids :: "string list"
  pd_requires_approval :: bool
  pd_decided_at :: datetime
  pd_threat_level :: "threat_level option"

text \<open>
  The constructor \<open>PolicyDecision(...)\<close>: the field constraints, then \<open>_check_consistency\<close>, which
  fills in \<open>threat_level\<close>. \<open>None\<close> is a validation error.
\<close>

definition policy_decision_fields_ok :: "policy_decision \<Rightarrow> bool" where
  "policy_decision_fields_ok d \<longleftrightarrow> pd_id d \<noteq> [] \<and> pd_reasons d \<noteq> []
     \<and> (case pd_ttl_seconds d of None \<Rightarrow> True
        | Some t \<Rightarrow> 0 < t \<and> t \<le> MAX_ELEMENT_TTL_SECONDS)"

definition policy_decision_check :: "policy_decision \<Rightarrow> policy_decision option" where
  "policy_decision_check d =
     (let expected = threat_level_by_action (pd_action d) in
      if pd_threat_level d \<noteq> None \<and> pd_threat_level d \<noteq> Some expected then None
      else if enforcing (pd_action d) \<and> pd_ttl_seconds d = None then None
      else if enforcing (pd_action d) \<and> pd_evidence_ids d = [] then None
      else if \<not> enforcing (pd_action d) \<and> pd_ttl_seconds d \<noteq> None then None
      else if pd_requires_approval d \<and> pd_action d \<noteq> FA_BLOCK then None
      else Some (d\<lparr>pd_threat_level := Some expected\<rparr>))"

definition new_policy_decision :: "policy_decision \<Rightarrow> policy_decision option" where
  "new_policy_decision d = (if policy_decision_fields_ok d then policy_decision_check d else None)"

subsection \<open>Version 1 evidence (evidence.py, behavior.py, threat.py)\<close>

record known_evidence =
  ke_flow_id :: string
  ke_predicted_class :: string
  ke_confidence :: real
  ke_class_probabilities :: "(string \<times> real) list"
  ke_operating_threshold :: "real option"
  ke_model_version :: string
  ke_feature_schema_version :: string
  ke_generated_at :: datetime

record anomaly_evidence =
  ae_flow_id :: string
  ae_anomaly_score :: real
  ae_threshold :: real
  ae_is_anomaly :: bool
  ae_model_version :: string
  ae_feature_schema_version :: string
  ae_generated_at :: datetime

record protocol_signature_evidence =
  ps_flow_id :: string
  ps_signature :: string
  ps_confidence :: real
  ps_detail :: string
  ps_generated_at :: datetime

record behavior_assessment =
  ba_source_ip :: ipv4_address
  ba_detected_patterns :: "behavior_pattern_type list"
  ba_confidence :: real
  ba_description :: string
  ba_window_start :: datetime
  ba_window_end :: datetime

definition check_window :: "behavior_assessment \<Rightarrow> bool" where
  "check_window b \<longleftrightarrow> \<not> ba_window_end b < ba_window_start b"

record threat_assessment =
  ta_id :: string
  ta_flow_id :: string
  ta_source_ip :: ipv4_address
  ta_destination_ip :: ipv4_address
  ta_threat_score :: real
  ta_threat_level :: threat_level
  ta_confidence :: real
  ta_enforceable_level :: "threat_level option"
  ta_known_evidence :: "known_evidence option"
  ta_anomaly_evidence :: "anomaly_evidence option"
  ta_behavior_assessment :: "behavior_assessment option"
  ta_protocol_signature_evidence :: "protocol_signature_evidence option"
  ta_explanation :: string
  ta_contributing_evidence :: "string list"
  ta_assessed_at :: datetime

subsection \<open>Version 2 evidence (evidence\_v2.py)\<close>

record kernel_guard_evidence =
  kg_id :: string
  kg_code :: offender_code
  kg_mac :: mac_address
  kg_guard :: guard_name
  kg_guard_mode :: guard_mode
  kg_sustained_polls :: int
  kg_observed_at :: datetime

definition check_guard_matches_code :: "kernel_guard_evidence \<Rightarrow> bool" where
  "check_guard_matches_code k \<longleftrightarrow> kg_guard k = offender_guard (kg_code k)"

record d1_evidence =
  d1_id :: string
  d1_detector :: d1_detector
  d1_window_seconds :: int
  d1_value :: real
  d1_threshold :: real
  d1_mac :: "mac_address option"
  d1_observed_at :: datetime

record classifier_evidence =
  ce_id :: string
  ce_flow_id :: string
  ce_mac :: "mac_address option"
  ce_attack_probability :: real
  ce_operating_threshold :: real
  ce_is_attack :: bool
  ce_family :: "string option"
  ce_family_probability :: "real option"
  ce_model_version :: string
  ce_feature_schema_version :: string
  ce_generated_at :: datetime

definition check_classifier_consistency :: "classifier_evidence \<Rightarrow> bool" where
  "check_classifier_consistency c \<longleftrightarrow>
     ce_is_attack c = (ce_attack_probability c \<ge> ce_operating_threshold c)
     \<and> (ce_family c = None) = (ce_family_probability c = None)"

datatype evidence_v2 = KernelGuard kernel_guard_evidence | D1 d1_evidence
  | Anomaly anomaly_evidence | Classifier classifier_evidence

fun evidence_id :: "evidence_v2 \<Rightarrow> string" where
  "evidence_id (Anomaly a) = ''anomaly:'' @ ae_flow_id a"
| "evidence_id (KernelGuard k) = kg_id k"
| "evidence_id (D1 d) = d1_id d"
| "evidence_id (Classifier c) = ce_id c"

subsection \<open>Facts about MAC addresses\<close>

definition canonical_mac :: "string \<Rightarrow> bool" where
  "canonical_mac m \<longleftrightarrow> mac_pattern m \<and> m ! 2 = CHR '':'' \<and> list_all (\<lambda>c. ascii_lower c = c) m"

lemma of_char_ascii_lower:
  "of_char (ascii_lower c) =
     (if 65 \<le> (of_char c :: nat) \<and> (of_char c :: nat) \<le> 90 then of_char c + 32 else of_char c :: nat)"
  by (simp add: ascii_lower_def less_eq_char_def)

lemma hex_value_alt:
  "hex_value c = (let n = (of_char c :: nat) in
     if 48 \<le> n \<and> n \<le> 57 then Some (n - 48)
     else if 97 \<le> n \<and> n \<le> 102 then Some (n - 87)
     else if 65 \<le> n \<and> n \<le> 70 then Some (n - 55) else None)"
  by (simp add: less_eq_char_def Let_def)

declare hex_value.simps [simp del]

lemma hex_value_lower: "is_hex c \<Longrightarrow> hex_value (ascii_lower c) = hex_value c"
  by (simp add: is_hex_def hex_value_alt of_char_ascii_lower Let_def split: if_splits)

lemma is_hex_lower: "is_hex c \<Longrightarrow> is_hex (ascii_lower c)"
  by (metis hex_value_lower is_hex_def)

lemma ascii_lower_idem: "ascii_lower (ascii_lower c) = ascii_lower c"
  by (subst ascii_lower_def [of "ascii_lower c"])
    (auto simp: less_eq_char_def of_char_ascii_lower)

lemma hex_not_separator: "is_hex c \<Longrightarrow> c \<noteq> CHR ''-'' \<and> c \<noteq> CHR '':''"
  by (auto simp: is_hex_def hex_value_alt)

lemma separator_lower [simp]: "ascii_lower (CHR ''-'') = CHR ''-''" "ascii_lower (CHR '':'') = CHR '':''"
  by (simp_all add: ascii_lower_def less_eq_char_def)

abbreviation sep_colon :: "char \<Rightarrow> char" where
  "sep_colon c \<equiv> (if c = CHR ''-'' then CHR '':'' else c)"

lemma normalise_mac_canonical:
  assumes "normalise_mac s = Some m"
  shows "canonical_mac m"
proof -
  have p: "mac_pattern s" and m: "m = map (\<lambda>c. sep_colon (ascii_lower c)) s"
    using assms by (auto simp: normalise_mac_def comp_def split: if_splits)
  have hex: "is_hex (sep_colon (ascii_lower c))" if "is_hex c" for c
    using that is_hex_lower hex_not_separator by auto
  have "ascii_lower (sep_colon (ascii_lower c)) = sep_colon (ascii_lower c)" for c
    by (auto simp: ascii_lower_idem)
  with p hex show ?thesis
    by (auto simp: canonical_mac_def mac_pattern_def m list_all_iff ascii_lower_idem)
qed

lemma canonical_mac_no_dash:
  assumes "canonical_mac m" "i < 17"
  shows "m ! i \<noteq> CHR ''-''"
proof -
  have "i \<in> set [0, 1, 3, 4, 6, 7, 9, 10, 12, 13, 15, 16] \<or> i \<in> set [2, 5, 8, 11, 14]"
    using assms(2) by simp arith
  then show ?thesis
    using assms(1) hex_not_separator
    by (auto simp: canonical_mac_def mac_pattern_def)
qed

lemma normalise_mac_fixed:
  assumes "canonical_mac m"
  shows "normalise_mac m = Some m"
proof -
  have len: "length m = 17" and p: "mac_pattern m"
    using assms by (simp_all add: canonical_mac_def mac_pattern_def)
  have "map (\<lambda>c. sep_colon (ascii_lower c)) m = m"
  proof (rule nth_equalityI)
    fix i
    assume "i < length (map (\<lambda>c. sep_colon (ascii_lower c)) m)"
    then have i: "i < 17" using len by simp
    then have "ascii_lower (m ! i) = m ! i"
      using assms len by (simp add: canonical_mac_def list_all_length)
    then show "map (\<lambda>c. sep_colon (ascii_lower c)) m ! i = m ! i"
      using canonical_mac_no_dash [OF assms i] i len by simp
  qed simp
  with p show ?thesis by (simp add: normalise_mac_def comp_def)
qed

lemma unicast_mac_fixed: "unicast_mac s = Some m \<Longrightarrow> unicast_mac m = Some m"
  using normalise_mac_fixed [OF normalise_mac_canonical]
  by (fastforce simp: unicast_mac_def require_unicast_identity_def bind_eq_Some_conv
      split: if_splits)

lemma unicast_mac_even: "unicast_mac s = Some m \<Longrightarrow> even (first_octet m)"
  by (auto simp: unicast_mac_def require_unicast_identity_def bind_eq_Some_conv and_one_eq
      split: if_splits)

end
