(* ===== verification/Policy_Table.thy ===== *)
theory Policy_Table
  imports Models
begin

section \<open>The policy table\<close>

text \<open>
  \<open>policy/table.py\<close>: the rows of the reviewable v2 policy table and the checks that keep a table
  file from breaking the D4 ceilings. \<open>tomllib\<close> parses the file; the model starts from what it
  returns (\<open>raw_table\<close>: rows of strings, the two detector lists and the version), and
  \<open>load_policy_table\<close> returns the table or the error the source wraps in \<open>ConfigurationError\<close>.
\<close>

datatype evidence_class = EC_K_OBSERVE | EC_K_ENFORCE_PENDING | EC_K_ENFORCE_SUSTAINED | EC_D1_HIGH
  | EC_D1_STANDARD | EC_D1_ESCALATED | EC_ML_ONLY | EC_ML_WITH_D1

datatype table_action = TA_LOG | TA_MONITOR | TA_RATE_LIMIT | TA_BLOCK | TA_BLOCK_APPROVAL

definition all_evidence_classes :: "evidence_class list" where
  "all_evidence_classes = [EC_K_OBSERVE, EC_K_ENFORCE_PENDING, EC_K_ENFORCE_SUSTAINED, EC_D1_HIGH,
     EC_D1_STANDARD, EC_D1_ESCALATED, EC_ML_ONLY, EC_ML_WITH_D1]"

definition MONITOR_CEILING_CLASSES :: "evidence_class list" where
  "MONITOR_CEILING_CLASSES = [EC_ML_ONLY, EC_K_OBSERVE, EC_K_ENFORCE_PENDING]"

record policy_row =
  pr_evidence :: evidence_class
  pr_shadow :: "table_action list"
  pr_assisted :: "table_action list"
  pr_active :: "table_action list"
  pr_escalate :: bool

definition check_cells :: "policy_row \<Rightarrow> bool" where
  "check_cells r \<longleftrightarrow>
     pr_shadow r = [TA_LOG]
     \<and> \<not> (TA_LOG \<in> set (pr_assisted r)) \<and> \<not> (TA_LOG \<in> set (pr_active r))
     \<and> (pr_evidence r \<in> set MONITOR_CEILING_CLASSES \<longrightarrow>
          list_all (\<lambda>a. a = TA_MONITOR) (pr_assisted r) \<and> list_all (\<lambda>a. a = TA_MONITOR) (pr_active r))
     \<and> \<not> (TA_BLOCK_APPROVAL \<in> set (pr_active r))"

text \<open>The field constraints (\<open>min_length=1\<close> columns) and the validator together.\<close>

definition policy_row_ok :: "policy_row \<Rightarrow> bool" where
  "policy_row_ok r \<longleftrightarrow> pr_shadow r \<noteq> [] \<and> pr_assisted r \<noteq> [] \<and> pr_active r \<noteq> [] \<and> check_cells r"

definition cell :: "policy_row \<Rightarrow> enforcement_mode \<Rightarrow> table_action list" where
  "cell r mode = (if mode = EM_ASSISTED then pr_assisted r else pr_active r)"

record policy_table =
  pt_version :: int
  pt_high :: "d1_detector list"
  pt_standard :: "d1_detector list"
  pt_rows :: "(evidence_class, policy_row) odict"

datatype table_error = TE_Unreadable | TE_BadRow | TE_DuplicateRow | TE_UnknownDetector
  | TE_Version | TE_MissingRows | TE_BothTiers

definition check_complete :: "policy_table \<Rightarrow> table_error option" where
  "check_complete t =
     (if pt_version t \<noteq> 1 then Some TE_Version
      else if list_ex (\<lambda>c. map_of (pt_rows t) c = None) all_evidence_classes then Some TE_MissingRows
      else if set (pt_high t) \<inter> set (pt_standard t) \<noteq> {} then Some TE_BothTiers
      else None)"

subsection \<open>Loading\<close>

record raw_row =
  rr_evidence :: string
  rr_shadow :: "string list"
  rr_assisted :: "string list"
  rr_active :: "string list"
  rr_escalate :: bool

record raw_table =
  rw_version :: int
  rw_high :: "string list"
  rw_standard :: "string list"
  rw_rows :: "raw_row list"

definition evidence_class_values :: "(string \<times> evidence_class) list" where
  "evidence_class_values = [(''k_observe'', EC_K_OBSERVE), (''k_enforce_pending'', EC_K_ENFORCE_PENDING),
     (''k_enforce_sustained'', EC_K_ENFORCE_SUSTAINED), (''d1_high'', EC_D1_HIGH),
     (''d1_standard'', EC_D1_STANDARD), (''d1_escalated'', EC_D1_ESCALATED),
     (''ml_only'', EC_ML_ONLY), (''ml_with_d1'', EC_ML_WITH_D1)]"

definition table_action_values :: "(string \<times> table_action) list" where
  "table_action_values = [(''log'', TA_LOG), (''monitor'', TA_MONITOR), (''rate_limit'', TA_RATE_LIMIT),
     (''block'', TA_BLOCK), (''block_approval'', TA_BLOCK_APPROVAL)]"

definition d1_detectors :: "d1_detector list" where
  "d1_detectors = [D1_VERTICAL_SCAN, D1_HORIZONTAL_SCAN, D1_FAILED_HANDSHAKE, D1_BRUTE_FORCE,
     D1_SLOW_RATE_DOS, D1_FAN_IN, D1_NEW_MAC_RATE, D1_NEW_LEASE_RATE, D1_PORTAL_AUTH_FAILURES]"

definition parse_detector :: "string \<Rightarrow> d1_detector option" where
  "parse_detector s = map_of (map (\<lambda>d. (d1_detector_value d, d)) d1_detectors) s"

text \<open>Convert every element, or fail as the first failing conversion does.\<close>

fun parse_all :: "('a \<Rightarrow> 'b option) \<Rightarrow> 'a list \<Rightarrow> 'b list option" where
  "parse_all f [] = Some []"
| "parse_all f (x # xs) =
     (case f x of None \<Rightarrow> None | Some y \<Rightarrow> map_option ((#) y) (parse_all f xs))"

definition parse_row :: "raw_row \<Rightarrow> policy_row option" where
  "parse_row r =
     (case (map_of evidence_class_values (rr_evidence r),
            parse_all (map_of table_action_values) (rr_shadow r),
            parse_all (map_of table_action_values) (rr_assisted r),
            parse_all (map_of table_action_values) (rr_active r)) of
        (Some e, Some sh, Some asst, Some act) \<Rightarrow>
          let row = \<lparr>pr_evidence = e, pr_shadow = sh, pr_assisted = asst, pr_active = act,
                     pr_escalate = rr_escalate r\<rparr>
          in if policy_row_ok row then Some row else None
      | _ \<Rightarrow> None)"

definition load_policy_table :: "raw_table option \<Rightarrow> table_error + policy_table" where
  "load_policy_table raw =
     (case raw of
        None \<Rightarrow> Inl TE_Unreadable
      | Some r \<Rightarrow>
          (case parse_all parse_row (rw_rows r) of
             None \<Rightarrow> Inl TE_BadRow
           | Some rows \<Rightarrow>
               let by_class = fold (\<lambda>row d. AList.update (pr_evidence row) row d) rows [] in
               if length by_class \<noteq> length rows then Inl TE_DuplicateRow
               else (case (parse_all parse_detector (rw_high r), parse_all parse_detector (rw_standard r)) of
                       (Some high, Some standard) \<Rightarrow>
                         let t = \<lparr>pt_version = rw_version r, pt_high = high, pt_standard = standard,
                                  pt_rows = by_class\<rparr>
                         in (case check_complete t of None \<Rightarrow> Inr t | Some e \<Rightarrow> Inl e)
                     | _ \<Rightarrow> Inl TE_UnknownDetector)))"

subsection \<open>What a loaded table guarantees\<close>

definition valid_table :: "policy_table \<Rightarrow> bool" where
  "valid_table t \<longleftrightarrow> check_complete t = None
     \<and> (\<forall>c r. map_of (pt_rows t) c = Some r \<longrightarrow> pr_evidence r = c \<and> policy_row_ok r)"

lemma all_evidence_classes_complete: "c \<in> set all_evidence_classes"
  by (cases c) (simp_all add: all_evidence_classes_def)

lemma valid_table_row:
  assumes "valid_table t"
  obtains r where "map_of (pt_rows t) c = Some r" "pr_evidence r = c" "policy_row_ok r"
proof -
  have "map_of (pt_rows t) c \<noteq> None"
    using assms all_evidence_classes_complete by (auto simp: valid_table_def check_complete_def list_ex_iff split: if_splits)
  then show thesis using assms that by (auto simp: valid_table_def)
qed

lemma policy_row_ok_ceiling:
  assumes "policy_row_ok r" "pr_evidence r \<in> set MONITOR_CEILING_CLASSES"
  shows "set (cell r mode) \<subseteq> {TA_MONITOR}"
  using assms by (auto simp: policy_row_ok_def check_cells_def cell_def list_all_iff)

lemma policy_row_ok_no_log: "policy_row_ok r \<Longrightarrow> TA_LOG \<notin> set (cell r mode)"
  by (simp add: policy_row_ok_def check_cells_def cell_def)

lemma policy_row_ok_approval:
  "policy_row_ok r \<Longrightarrow> TA_BLOCK_APPROVAL \<in> set (cell r mode) \<Longrightarrow> mode = EM_ASSISTED"
  by (auto simp: policy_row_ok_def check_cells_def cell_def split: if_splits)

lemma policy_row_ok_nonempty: "policy_row_ok r \<Longrightarrow> cell r mode \<noteq> []"
  by (simp add: policy_row_ok_def cell_def)

lemma parse_all_set: "parse_all f xs = Some ys \<Longrightarrow> y \<in> set ys \<Longrightarrow> \<exists>x \<in> set xs. f x = Some y"
  by (induction xs arbitrary: ys) (auto split: option.splits)

lemma fold_rows_lookup:
  "map_of (fold (\<lambda>row d. AList.update (pr_evidence row) row d) rows d) c = Some r \<Longrightarrow>
    (r \<in> set rows \<and> pr_evidence r = c) \<or> map_of d c = Some r"
  by (induction rows arbitrary: d) (fastforce split: if_splits)+

lemma parse_row_ok: "parse_row x = Some r \<Longrightarrow> policy_row_ok r"
  by (auto simp: parse_row_def Let_def split: option.splits if_splits)

text \<open>
  A policy table that loads cannot break the D4 ceilings, whatever its file says: every evidence
  class has a row filed under its own class, ML-only, observe-mode and pending kernel evidence are
  capped at MONITOR in every mode, the approval queue appears in ASSISTED only, and no detector is
  in both certainty tiers.
\<close>

theorem load_policy_table_valid:
  assumes "load_policy_table raw = Inr t"
  shows "valid_table t
    \<and> (\<forall>c \<in> set MONITOR_CEILING_CLASSES. \<forall>mode.
        \<exists>r. map_of (pt_rows t) c = Some r \<and> set (cell r mode) \<subseteq> {TA_MONITOR})
    \<and> (\<forall>c r mode. map_of (pt_rows t) c = Some r \<and> TA_BLOCK_APPROVAL \<in> set (cell r mode)
        \<longrightarrow> mode = EM_ASSISTED)
    \<and> set (pt_high t) \<inter> set (pt_standard t) = {}"
proof -
  obtain x :: raw_table and rows where parsed: "parse_all parse_row (rw_rows x) = Some rows"
      and t: "check_complete t = None" "pt_rows t = fold (\<lambda>row d. AList.update (pr_evidence row) row d) rows []"
    using assms by (auto simp: load_policy_table_def Let_def split: option.splits if_splits)
  have rows: "\<forall>r \<in> set rows. policy_row_ok r"
    using parse_all_set [OF parsed] parse_row_ok by blast
  have rowD: "pr_evidence r = c \<and> policy_row_ok r" if "map_of (pt_rows t) c = Some r" for c r
    using that rows t(2) fold_rows_lookup by force
  then have valid: "valid_table t" using t(1) by (simp add: valid_table_def)
  have "\<exists>r. map_of (pt_rows t) c = Some r \<and> set (cell r mode) \<subseteq> {TA_MONITOR}"
    if "c \<in> set MONITOR_CEILING_CLASSES" for c mode
    using valid_table_row [OF valid, of c] policy_row_ok_ceiling that by metis
  moreover have "set (pt_high t) \<inter> set (pt_standard t) = {}"
    using t(1) by (simp add: check_complete_def split: if_splits)
  ultimately show ?thesis using valid rowD policy_row_ok_approval by blast
qed

text \<open>The table the program ships, \<open>policy/table.toml\<close>, as \<open>tomllib\<close> returns it.\<close>

definition shipped_raw_table :: raw_table where
  "shipped_raw_table = \<lparr>rw_version = 1,
     rw_high = [''vertical_scan'', ''horizontal_scan'', ''brute_force''],
     rw_standard = [''failed_handshake'', ''slow_rate_dos'', ''portal_auth_failures''],
     rw_rows =
      [\<lparr>rr_evidence = ''k_observe'', rr_shadow = [''log''], rr_assisted = [''monitor''], rr_active = [''monitor''], rr_escalate = False\<rparr>,
       \<lparr>rr_evidence = ''k_enforce_pending'', rr_shadow = [''log''], rr_assisted = [''monitor''], rr_active = [''monitor''], rr_escalate = False\<rparr>,
       \<lparr>rr_evidence = ''k_enforce_sustained'', rr_shadow = [''log''], rr_assisted = [''rate_limit''], rr_active = [''rate_limit''], rr_escalate = False\<rparr>,
       \<lparr>rr_evidence = ''d1_high'', rr_shadow = [''log''], rr_assisted = [''rate_limit'', ''block_approval''], rr_active = [''block''], rr_escalate = False\<rparr>,
       \<lparr>rr_evidence = ''d1_standard'', rr_shadow = [''log''], rr_assisted = [''rate_limit''], rr_active = [''rate_limit''], rr_escalate = False\<rparr>,
       \<lparr>rr_evidence = ''d1_escalated'', rr_shadow = [''log''], rr_assisted = [''block_approval''], rr_active = [''block''], rr_escalate = True\<rparr>,
       \<lparr>rr_evidence = ''ml_only'', rr_shadow = [''log''], rr_assisted = [''monitor''], rr_active = [''monitor''], rr_escalate = False\<rparr>,
       \<lparr>rr_evidence = ''ml_with_d1'', rr_shadow = [''log''], rr_assisted = [''rate_limit''], rr_active = [''rate_limit''], rr_escalate = False\<rparr>]\<rparr>"

definition shipped_table :: policy_table where
  "shipped_table = \<lparr>pt_version = 1, pt_high = [D1_VERTICAL_SCAN, D1_HORIZONTAL_SCAN, D1_BRUTE_FORCE],
     pt_standard = [D1_FAILED_HANDSHAKE, D1_SLOW_RATE_DOS, D1_PORTAL_AUTH_FAILURES],
     pt_rows =
      [(EC_K_OBSERVE, \<lparr>pr_evidence = EC_K_OBSERVE, pr_shadow = [TA_LOG], pr_assisted = [TA_MONITOR], pr_active = [TA_MONITOR], pr_escalate = False\<rparr>),
       (EC_K_ENFORCE_PENDING, \<lparr>pr_evidence = EC_K_ENFORCE_PENDING, pr_shadow = [TA_LOG], pr_assisted = [TA_MONITOR], pr_active = [TA_MONITOR], pr_escalate = False\<rparr>),
       (EC_K_ENFORCE_SUSTAINED, \<lparr>pr_evidence = EC_K_ENFORCE_SUSTAINED, pr_shadow = [TA_LOG], pr_assisted = [TA_RATE_LIMIT], pr_active = [TA_RATE_LIMIT], pr_escalate = False\<rparr>),
       (EC_D1_HIGH, \<lparr>pr_evidence = EC_D1_HIGH, pr_shadow = [TA_LOG], pr_assisted = [TA_RATE_LIMIT, TA_BLOCK_APPROVAL], pr_active = [TA_BLOCK], pr_escalate = False\<rparr>),
       (EC_D1_STANDARD, \<lparr>pr_evidence = EC_D1_STANDARD, pr_shadow = [TA_LOG], pr_assisted = [TA_RATE_LIMIT], pr_active = [TA_RATE_LIMIT], pr_escalate = False\<rparr>),
       (EC_D1_ESCALATED, \<lparr>pr_evidence = EC_D1_ESCALATED, pr_shadow = [TA_LOG], pr_assisted = [TA_BLOCK_APPROVAL], pr_active = [TA_BLOCK], pr_escalate = True\<rparr>),
       (EC_ML_ONLY, \<lparr>pr_evidence = EC_ML_ONLY, pr_shadow = [TA_LOG], pr_assisted = [TA_MONITOR], pr_active = [TA_MONITOR], pr_escalate = False\<rparr>),
       (EC_ML_WITH_D1, \<lparr>pr_evidence = EC_ML_WITH_D1, pr_shadow = [TA_LOG], pr_assisted = [TA_RATE_LIMIT], pr_active = [TA_RATE_LIMIT], pr_escalate = False\<rparr>)]\<rparr>"

lemma load_shipped_table: "load_policy_table (Some shipped_raw_table) = Inr shipped_table"
  by code_simp

theorem load_policy_table_valid_witness: "valid_table shipped_table"
  using load_policy_table_valid [OF load_shipped_table] by simp

lemma shipped_table_valid: "valid_table shipped_table"
  by (auto simp: valid_table_def shipped_table_def check_complete_def all_evidence_classes_def
      policy_row_ok_def check_cells_def MONITOR_CEILING_CLASSES_def split: if_splits)

end
