(* ===== verification/Lru.thy ===== *)
theory Lru
  imports Prelude
begin

section \<open>Bounded least-recently-used memories\<close>

text \<open>
  Several components remember something per source or per device in an \<open>OrderedDict\<close> they keep
  below a configured size: a key that is used moves to the end, and inserting a new key beyond the
  bound drops the first. The locale states that contract on the order of the keys and derives what
  the clients need: the bound, and that a key cannot be forgotten before as many other keys as the
  bound have been used. It is interpreted on the policy engine's per-device history and on the
  evidence-maturity tracker.
\<close>

definition lru_keys :: "nat \<Rightarrow> 'k \<Rightarrow> 'k list \<Rightarrow> 'k list" where
  "lru_keys cap k ks = (let ks' = removeAll k ks @ [k] in drop (length ks' - cap) ks')"

lemma lru_keys_present:
  "k \<in> set ks \<Longrightarrow> length ks \<le> cap \<Longrightarrow> lru_keys cap k ks = removeAll k ks @ [k]"
proof -
  assume "k \<in> set ks" "length ks \<le> cap"
  then have "length (removeAll k ks) < cap"
    by (meson length_removeAll_less less_le_trans)
  then show ?thesis by (simp add: lru_keys_def Let_def)
qed

lemma lru_keys_absent:
  "k \<notin> set ks \<Longrightarrow> length ks \<le> cap \<Longrightarrow> 0 < cap \<Longrightarrow>
    lru_keys cap k ks = (if length ks = cap then tl ks @ [k] else ks @ [k])"
  by (cases ks) (auto simp: lru_keys_def Let_def)

lemma distinct_lru_keys: "distinct ks \<Longrightarrow> distinct (lru_keys cap k ks)"
  unfolding lru_keys_def Let_def by (intro distinct_drop) (simp add: distinct_removeAll)

lemma length_lru_keys: "length (lru_keys cap k ks) \<le> cap"
  by (simp add: lru_keys_def Let_def)

lemma set_lru_keys: "set (lru_keys cap k ks) \<subseteq> insert k (set ks)"
  by (auto simp: lru_keys_def Let_def dest: in_set_dropD)

lemma in_lru_keys: "0 < cap \<Longrightarrow> k \<in> set (lru_keys cap k ks)"
proof -
  assume "0 < cap"
  then have "lru_keys cap k ks \<noteq> []" "last (lru_keys cap k ks) = k"
    by (simp_all add: lru_keys_def Let_def)
  then show ?thesis by (metis last_in_set)
qed

text \<open>\<open>recent_enough k A ks\<close>: only keys of \<open>A\<close> were used after \<open>k\<close>.\<close>

definition recent_enough :: "'k \<Rightarrow> 'k set \<Rightarrow> 'k list \<Rightarrow> bool" where
  "recent_enough k A ks \<longleftrightarrow> (\<exists>pre post. ks = pre @ k # post \<and> set post \<subseteq> A)"

lemma recent_enough_touch_self: "0 < cap \<Longrightarrow> recent_enough k A (lru_keys cap k ks)"
proof -
  assume "0 < cap"
  then have "lru_keys cap k ks = butlast (lru_keys cap k ks) @ k # []"
    by (simp add: lru_keys_def Let_def drop_butlast [symmetric])
  then show ?thesis unfolding recent_enough_def by (metis empty_iff list.set(1) subsetI)
qed

lemma recent_enough_drop:
  assumes "recent_enough k A ks" "distinct ks" "finite A" "card (insert k A) \<le> cap"
  shows "recent_enough k A (drop (length ks - cap) ks)"
proof -
  obtain pre post where ks: "ks = pre @ k # post" "set post \<subseteq> A"
    using assms(1) by (auto simp: recent_enough_def)
  have "length (k # post) = card (set (k # post))" using assms(2) ks(1) by (metis distinct_append distinct_card)
  also have "\<dots> \<le> card (insert k A)" using ks(2) assms(3) by (intro card_mono) auto
  finally have "length ks - cap \<le> length pre" using assms(4) ks(1) by simp
  then have "drop (length ks - cap) ks = drop (length ks - cap) pre @ k # post" using ks(1) by simp
  with ks(2) show ?thesis unfolding recent_enough_def by blast
qed

lemma recent_enough_touch_other:
  assumes "recent_enough k A ks" "distinct ks" "j \<noteq> k" "j \<in> A" "finite A" "card A < cap"
  shows "recent_enough k A (lru_keys cap j ks)"
proof -
  obtain pre post where ks: "ks = pre @ k # post" "set post \<subseteq> A"
    using assms(1) by (auto simp: recent_enough_def)
  have "removeAll j ks @ [j] = removeAll j pre @ k # removeAll j post @ [j]" using ks assms(3) by simp
  moreover have "set (removeAll j post @ [j]) \<subseteq> A" using ks(2) assms(4) by auto
  ultimately have "recent_enough k A (removeAll j ks @ [j])" unfolding recent_enough_def by blast
  moreover have "card (insert k A) \<le> cap" using assms(6) card_insert_le_m1 [of cap A k] by simp
  ultimately show ?thesis
    unfolding lru_keys_def Let_def using assms(2,5) by (intro recent_enough_drop) (simp_all add: distinct_removeAll)
qed

locale lru_memory =
  fixes inv :: "'s \<Rightarrow> bool"
    and keys :: "'s \<Rightarrow> 'k list"
    and cap :: "'s \<Rightarrow> nat"
    and touch :: "'k \<Rightarrow> 's \<Rightarrow> 's"
  assumes inv_distinct: "inv s \<Longrightarrow> distinct (keys s)"
    and inv_bound: "inv s \<Longrightarrow> length (keys s) \<le> cap s"
    and inv_cap: "inv s \<Longrightarrow> 0 < cap s"
    and inv_touch: "inv s \<Longrightarrow> inv (touch k s)"
    and cap_touch: "inv s \<Longrightarrow> cap (touch k s) = cap s"
    and keys_touch: "inv s \<Longrightarrow> keys (touch k s) = lru_keys (cap s) k (keys s)"
begin

lemma inv_run: "inv s \<Longrightarrow> inv (fold touch ks s)"
  by (induction ks arbitrary: s) (auto intro: inv_touch)

lemma cap_run: "inv s \<Longrightarrow> cap (fold touch ks s) = cap s"
  by (induction ks arbitrary: s) (auto simp: cap_touch inv_touch)

lemma touched_present: "inv s \<Longrightarrow> k \<in> set (keys (touch k s))"
  by (simp add: keys_touch in_lru_keys inv_cap)

lemma bound_run: "inv s \<Longrightarrow> length (keys (fold touch ks s)) \<le> cap s"
  using inv_bound [OF inv_run] cap_run by metis

lemma recent_enough_run:
  assumes "inv s" "recent_enough k A (keys s)" "set ks - {k} \<subseteq> A" "finite A" "card A < cap s"
  shows "recent_enough k A (keys (fold touch ks s))"
  using assms
proof (induction ks arbitrary: s)
  case (Cons j ks)
  have "recent_enough k A (keys (touch j s))"
  proof (cases "j = k")
    case True
    then show ?thesis using Cons.prems by (simp add: keys_touch recent_enough_touch_self inv_cap)
  next
    case False
    then show ?thesis using Cons.prems
      by (auto simp: keys_touch intro!: recent_enough_touch_other inv_distinct)
  qed
  then show ?case using Cons.prems Cons.IH [of "touch j s"] by (auto simp: inv_touch cap_touch)
qed simp

text \<open>A key survives any uses of other keys that involve fewer distinct keys than the bound.\<close>

lemma retained:
  assumes "inv s" "card (set ks - {k}) < cap s"
  shows "k \<in> set (keys (fold touch ks (touch k s)))"
proof -
  have "recent_enough k (set ks - {k}) (keys (touch k s))"
    using assms by (simp add: keys_touch recent_enough_touch_self inv_cap)
  then have "recent_enough k (set ks - {k}) (keys (fold touch ks (touch k s)))"
    using assms by (intro recent_enough_run) (auto simp: inv_touch cap_touch)
  then show ?thesis by (auto simp: recent_enough_def)
qed

end

end
