(* ===== verification/Text.thy ===== *)
theory Text
  imports Ipv4
begin

section \<open>Python's string functions\<close>

text \<open>
  The string operations the sources use, on Latin-1 text (characters above 255 are not modelled):
  \<open>str.splitlines\<close>, \<open>str.split(sep)\<close>, \<open>sep.join(...)\<close>, \<open>int(str)\<close> and \<open>str(int)\<close>, and
  \<open>IPv4Address(str)\<close> with its inverse \<open>str(IPv4Address)\<close>. The round trips are proved at the end.
\<close>

definition is_linebreak :: "char \<Rightarrow> bool" where
  "is_linebreak c \<longleftrightarrow> (of_char c :: nat) \<in> {10, 11, 12, 13, 28, 29, 30, 133}"

definition after_linebreak :: "string \<Rightarrow> string" where
  "after_linebreak s = (case s of [] \<Rightarrow> [] | c # r \<Rightarrow>
     (case r of [] \<Rightarrow> [] | d # r' \<Rightarrow>
        if (of_char c :: nat) = 13 \<and> (of_char d :: nat) = 10 then r' else r))"

lemma length_after_linebreak: "s \<noteq> [] \<Longrightarrow> length (after_linebreak s) < length s"
  by (auto simp: after_linebreak_def split: list.splits)

function splitlines :: "string \<Rightarrow> string list" where
  "splitlines s =
     (if s = [] then []
      else takeWhile (\<lambda>c. \<not> is_linebreak c) s # splitlines (after_linebreak (dropWhile (\<lambda>c. \<not> is_linebreak c) s)))"
  by auto
termination
proof (relation "measure length")
  fix s :: string
  assume "s \<noteq> []"
  show "(after_linebreak (dropWhile (\<lambda>c. \<not> is_linebreak c) s), s) \<in> measure length"
  proof (cases "dropWhile (\<lambda>c. \<not> is_linebreak c) s = []")
    case True
    then show ?thesis using \<open>s \<noteq> []\<close> unfolding True by (simp add: after_linebreak_def)
  next
    case False
    then show ?thesis
      using length_after_linebreak length_dropWhile_le le_trans
      by (metis in_measure less_le_trans)
  qed
qed simp

declare splitlines.simps [simp del]

fun split_on :: "char \<Rightarrow> string \<Rightarrow> string list" where
  "split_on c [] = [[]]"
| "split_on c (x # xs) =
     (if x = c then [] # split_on c xs
      else (case split_on c xs of [] \<Rightarrow> [[x]] | y # ys \<Rightarrow> (x # y) # ys))"

definition is_digit :: "char \<Rightarrow> bool" where
  "is_digit c \<longleftrightarrow> CHR ''0'' \<le> c \<and> c \<le> CHR ''9''"

definition digits_between :: "nat \<Rightarrow> nat \<Rightarrow> string \<Rightarrow> bool" where
  "digits_between lo hi s \<longleftrightarrow> lo \<le> length s \<and> length s \<le> hi \<and> list_all is_digit s"

text \<open>\<open>int(s)\<close> of a string of decimal digits.\<close>

definition decimal :: "string \<Rightarrow> nat" where
  "decimal s = foldl (\<lambda>n c. 10 * n + (of_char c - 48)) 0 s"

text \<open>\<open>IPv4Address(s)\<close>: four octets, no leading zero, at most 255 each.\<close>

definition parse_octet :: "string \<Rightarrow> nat option" where
  "parse_octet s =
     (if \<not> digits_between 1 3 s then None
      else if s \<noteq> ''0'' \<and> hd s = CHR ''0'' then None
      else if 255 < decimal s then None
      else Some (decimal s))"

definition parse_ipv4 :: "string \<Rightarrow> ipv4_address option" where
  "parse_ipv4 s =
     (case map parse_octet (split_on (CHR ''.'') s) of
        [Some a, Some b, Some c, Some d] \<Rightarrow> Some (ipv4 a b c d)
      | _ \<Rightarrow> None)"

fun join :: "string \<Rightarrow> string list \<Rightarrow> string" where
  "join sep [] = []"
| "join sep [s] = s"
| "join sep (s # t # ss) = s @ sep @ join sep (t # ss)"

fun digits :: "nat \<Rightarrow> string" where
  "digits n = (if n < 10 then [char_of (48 + n)] else digits (n div 10) @ [char_of (48 + n mod 10)])"

declare digits.simps [simp del]

definition show_int :: "int \<Rightarrow> string" where
  "show_int i = (if i < 0 then CHR ''-'' # digits (nat (- i)) else digits (nat i))"

text \<open>\<open>str(IPv4Address)\<close>: the four octets in decimal.\<close>

definition octet :: "ipv4_address \<Rightarrow> nat \<Rightarrow> nat" where
  "octet a i = unat a div 256 ^ (3 - i) mod 256"

definition show_ipv4 :: "ipv4_address \<Rightarrow> string" where
  "show_ipv4 a = join ''.'' (map (\<lambda>i. digits (octet a i)) [0, 1, 2, 3])"

subsection \<open>Splitting\<close>

lemma split_on_Nil [simp]: "split_on c s \<noteq> []"
  by (induction s) (auto split: list.splits)

lemma split_on_plain: "c \<notin> set s \<Longrightarrow> split_on c s = [s]"
  by (induction s) auto

lemma split_on_append: "split_on c (p @ c # s) = split_on c p @ split_on c s"
proof (induction p)
  case (Cons x p)
  then show ?case by (cases "split_on c p") (auto split: list.splits)
qed simp

subsection \<open>Numbers\<close>

lemma foldl_decimal_bound:
  "list_all is_digit s \<Longrightarrow>
    foldl (\<lambda>n c. 10 * n + (of_char c - 48)) a s < (a + 1 :: nat) * 10 ^ length s"
proof (induction s arbitrary: a)
  case (Cons c s)
  have "of_char c - 48 \<le> (9 :: nat)" using Cons.prems by (auto simp: is_digit_def less_eq_char_def)
  then have "(10 * a + (of_char c - 48) + 1) * 10 ^ length s \<le> (10 * a + 10) * 10 ^ length s"
    by (intro mult_le_mono1) simp
  also have "\<dots> = (a + 1) * 10 ^ length (c # s)" by (simp add: algebra_simps)
  finally have "(10 * a + (of_char c - 48) + 1) * 10 ^ length s \<le> (a + 1) * 10 ^ length (c # s)" .
  with Cons show ?case by (fastforce intro: less_le_trans)
qed simp

lemma digits_all: "list_all is_digit (digits n)"
proof (induction n rule: digits.induct)
  case (1 n)
  have "is_digit (char_of (48 + m))" if "m < 10" for m :: nat
    using that by (simp add: is_digit_def less_eq_char_def)
  moreover have "n mod 10 < 10" by simp
  ultimately show ?case using 1 by (subst digits.simps) (auto)
qed

lemma digits_nonempty [simp]: "digits n \<noteq> []"
  by (subst digits.simps) simp

lemma decimal_append: "decimal (s @ [c]) = 10 * decimal s + (of_char c - 48)"
  by (simp add: decimal_def)

lemma decimal_digits: "decimal (digits n) = n"
proof (induction n rule: digits.induct)
  case (1 n)
  show ?case
  proof (cases "n < 10")
    case True
    then have "digits n = [char_of (48 + n)]" by (subst digits.simps) simp
    then show ?thesis using True by (simp add: decimal_def)
  next
    case False
    then have "digits n = digits (n div 10) @ [char_of (48 + n mod 10)]" by (subst digits.simps) simp
    then show ?thesis using 1 False by (simp add: decimal_append)
  qed
qed

lemma zero_char: "char_of (48 :: nat) = CHR ''0''"
  by (simp add: char_of_eq_iff)

lemma hd_digits: "hd (digits n) = CHR ''0'' \<longleftrightarrow> n = 0"
proof (induction n rule: digits.induct)
  case (1 n)
  show ?case
  proof (cases "n < 10")
    case True
    then have "digits n = [char_of (48 + n)]" by (subst digits.simps) simp
    moreover have "char_of (48 + n) = CHR ''0'' \<longleftrightarrow> n = 0"
    proof
      assume "char_of (48 + n) = CHR ''0''"
      then have "(of_char (char_of (48 + n)) :: nat) = of_char (CHR ''0'')" by simp
      then show "n = 0" using True by simp
    qed (simp add: zero_char)
    ultimately show ?thesis by simp
  next
    case False
    then have "digits n = digits (n div 10) @ [char_of (48 + n mod 10)]" by (subst digits.simps) simp
    then show ?thesis using 1 False by simp
  qed
qed

lemma length_digits: "n < 1000 \<Longrightarrow> length (digits n) \<le> 3"
proof -
  assume n: "n < 1000"
  have one: "length (digits m) = 1" if "m < 10" for m using that by (subst digits.simps) simp
  have two: "length (digits m) \<le> 2" if "m < 100" for m
  proof (cases "m < 10")
    case False
    then show ?thesis using one [of "m div 10"] that by (subst digits.simps) simp
  qed (simp add: one)
  show ?thesis
  proof (cases "n < 10")
    case False
    then show ?thesis using two [of "n div 10"] n by (subst digits.simps) simp
  qed (simp add: one)
qed

lemma parse_octet_digits:
  assumes "n < 256"
  shows "parse_octet (digits n) = Some n"
proof -
  have "digits_between 1 3 (digits n)"
    using digits_all [of n] length_digits [of n] assms by (simp add: digits_between_def Suc_le_eq)
  moreover have "n = 0 \<Longrightarrow> digits n = ''0''" by (simp add: digits.simps zero_char)
  ultimately show ?thesis using assms hd_digits [of n] by (auto simp: parse_octet_def decimal_digits)
qed

lemma no_dot_digits: "CHR ''.'' \<notin> set (digits n)"
  using digits_all [of n] by (auto simp: list_all_iff is_digit_def less_eq_char_def)

lemma split_on_join:
  "ss \<noteq> [] \<Longrightarrow> (\<forall>s \<in> set ss. c \<notin> set s) \<Longrightarrow> split_on c (join [c] ss) = ss"
proof (induction ss)
  case (Cons s ss)
  then show ?case by (cases ss) (simp_all add: split_on_plain split_on_append)
qed simp

lemma octets_value: "ipv4 (octet a 0) (octet a 1) (octet a 2) (octet a 3) = a"
proof -
  define n where "n = unat a"
  have "unat a < 2 ^ LENGTH(32)" by (rule unsigned_less)
  then have "n < 2 ^ 32" by (simp add: n_def)
  then have eq: "((n div 256 ^ 3 mod 256 * 256 + n div 256 ^ 2 mod 256) * 256 + n div 256 ^ 1 mod 256) * 256 + n div 256 ^ 0 mod 256 = n"
  proof -
    have d: "n div 256 ^ 2 = n div 256 div 256" "n div 256 ^ 3 = n div 256 div 256 div 256"
      by (simp_all add: div_mult2_eq [symmetric])
    have "n div 256 div 256 div 256 mod 256 = n div 256 div 256 div 256"
      using \<open>n < 2 ^ 32\<close> by (simp add: div_mult2_eq [symmetric] less_mult_imp_div_less)
    then show ?thesis unfolding d by simp
  qed
  moreover have "octet a 0 = n div 256 ^ 3 mod 256" "octet a 1 = n div 256 ^ 2 mod 256"
      "octet a 2 = n div 256 ^ 1 mod 256" "octet a 3 = n div 256 ^ 0 mod 256"
    by (simp_all add: octet_def n_def)
  ultimately have "((octet a 0 * 256 + octet a 1) * 256 + octet a 2) * 256 + octet a 3 = n" by (simp only:)
  then have "ipv4 (octet a 0) (octet a 1) (octet a 2) (octet a 3) = of_nat n" unfolding ipv4_def by (simp only:)
  then show ?thesis by (simp add: n_def)
qed

lemma octet_bound: "octet a i < 256"
  by (simp add: octet_def)

text \<open>Printing an address and reading it back gives the address.\<close>

lemma parse_show_ipv4: "parse_ipv4 (show_ipv4 a) = Some a"
proof -
  have "split_on (CHR ''.'') (show_ipv4 a) = map (\<lambda>i. digits (octet a i)) [0, 1, 2, 3]"
    unfolding show_ipv4_def by (rule split_on_join) (auto simp: no_dot_digits)
  then show ?thesis
    using octets_value [of a] by (simp add: parse_ipv4_def parse_octet_digits octet_bound)
qed

lemma show_ipv4_inject: "show_ipv4 a = show_ipv4 b \<longleftrightarrow> a = b"
  by (metis option.inject parse_show_ipv4)

end
