(* ===== verification/Policy_Engine.thy ===== *)
theory Policy_Engine
  imports Policy_Table Lru Text
begin

section \<open>The policy engine\<close>

text \<open>
  \<open>policy/engine.py\<close>: one device's evidence bundle to policy decisions. The engine's state is the
  per-device history (evidence ids already acted on, and enforcing strikes), an \<open>OrderedDict\<close> bounded
  by \<open>max_tracked_devices\<close>. A \<open>_History\<close> object is shared by reference with the dictionary; the
  model writes the changed history back under its key when the key is still tracked.

  Parameters: \<open>is_protected\<close> (the callable the runtime passes), \<open>uuid\<close> (the ids \<open>uuid4\<close> returns,
  by position in the call) and \<open>fmt\<close> (Python's float formatting in the reasons). \<open>decide\<close> returns
  \<open>None\<close> where the code would raise: a missing table row, or a decision its model refuses.
\<close>

record policy_config =
  pc_rate_limit_ttl_seconds :: int
  pc_block_ttl_seconds :: int
  pc_escalation_ttl_multiplier :: int
  pc_max_ttl_seconds :: int
  pc_sustained_polls :: int
  pc_max_tracked_devices :: nat
  pc_max_evidence_ids_per_device :: nat

definition policy_config_ok :: "policy_config \<Rightarrow> bool" where
  "policy_config_ok c \<longleftrightarrow> 0 < pc_rate_limit_ttl_seconds c \<and> 0 < pc_block_ttl_seconds c
     \<and> 1 \<le> pc_escalation_ttl_multiplier c \<and> 0 < pc_max_ttl_seconds c \<and> pc_max_ttl_seconds c \<le> 3600
     \<and> 2 \<le> pc_sustained_polls c \<and> 0 < pc_max_tracked_devices c \<and> 0 < pc_max_evidence_ids_per_device c
     \<and> \<not> pc_max_ttl_seconds c < max (pc_rate_limit_ttl_seconds c) (pc_block_ttl_seconds c)"

fun strength :: "table_action \<Rightarrow> nat option" where
  "strength TA_MONITOR = Some 1"
| "strength TA_RATE_LIMIT = Some 2"
| "strength TA_BLOCK = Some 3"
| "strength _ = None"

record evidence_bundle =
  eb_target :: rule_target
  eb_evidence :: "evidence_v2 list"

record device_history =
  dh_used :: "string list"
  dh_d1_strikes :: nat

text \<open>The dictionary key: \<open>str(target.mac)\<close> when there is a MAC, else \<open>str(target.ip)\<close>.\<close>

datatype device_id = ByMac mac_address | ByIp ipv4_address

record policy_engine =
  pe_table :: policy_table
  pe_config :: policy_config
  pe_history :: "(device_id, device_history) odict"

definition new_policy_engine :: "policy_table \<Rightarrow> policy_config \<Rightarrow> policy_engine" where
  "new_policy_engine t c = \<lparr>pe_table = t, pe_config = c, pe_history = []\<rparr>"

definition tracked_devices :: "policy_engine \<Rightarrow> nat" where
  "tracked_devices e = length (pe_history e)"

record float_format =
  fmt_g :: "real \<Rightarrow> string"
  fmt_2f :: "real \<Rightarrow> string"
  fmt_3f :: "real \<Rightarrow> string"

subsection \<open>Classification\<close>

fun kernel_items :: "evidence_v2 list \<Rightarrow> kernel_guard_evidence list" where
  "kernel_items [] = []"
| "kernel_items (KernelGuard k # xs) = k # kernel_items xs"
| "kernel_items (_ # xs) = kernel_items xs"

fun d1_items :: "evidence_v2 list \<Rightarrow> d1_evidence list" where
  "d1_items [] = []"
| "d1_items (D1 d # xs) = d # d1_items xs"
| "d1_items (_ # xs) = d1_items xs"

fun is_ml_positive :: "evidence_v2 \<Rightarrow> bool" where
  "is_ml_positive (Anomaly a) = ae_is_anomaly a"
| "is_ml_positive (Classifier c) = ce_is_attack c"
| "is_ml_positive _ = False"

definition kernel_class :: "int \<Rightarrow> kernel_guard_evidence \<Rightarrow> evidence_class" where
  "kernel_class sustained_polls k =
     (if kg_guard_mode k = GM_OBSERVE then EC_K_OBSERVE
      else if kg_sustained_polls k \<ge> sustained_polls then EC_K_ENFORCE_SUSTAINED
      else EC_K_ENFORCE_PENDING)"

definition classify ::
    "evidence_v2 list \<Rightarrow> policy_table \<Rightarrow> int \<Rightarrow> nat \<Rightarrow> string set \<Rightarrow> evidence_class set" where
  "classify bundle t sustained_polls prior_d1_strikes new_ids =
     (let kernel = kernel_items bundle;
          d1 = d1_items bundle;
          ml = filter is_ml_positive bundle;
          kclasses = set (map (kernel_class sustained_polls) kernel);
          sustained = EC_K_ENFORCE_SUSTAINED \<in> kclasses;
          detectors = set (map d1_detector d1);
          acting = set (pt_high t) \<union> set (pt_standard t);
          acting_d1 = (detectors \<inter> acting \<noteq> {});
          new_d1 = list_ex (\<lambda>i. d1_detector i \<in> acting \<and> d1_id i \<in> new_ids) d1
      in kclasses
         \<union> (if detectors \<inter> set (pt_high t) \<noteq> {} then {EC_D1_HIGH} else {})
         \<union> (if detectors \<inter> set (pt_standard t) \<noteq> {} then {EC_D1_STANDARD} else {})
         \<union> (if acting_d1 \<and> new_d1 \<and> (sustained \<or> prior_d1_strikes > 0) then {EC_D1_ESCALATED} else {})
         \<union> (if ml \<noteq> [] then {if acting_d1 then EC_ML_WITH_D1 else EC_ML_ONLY} else {}))"

subsection \<open>History\<close>

definition device_key :: "rule_target \<Rightarrow> device_id" where
  "device_key t = (case rt_mac t of Some m \<Rightarrow> ByMac m | None \<Rightarrow> ByIp (rt_ip t))"

definition empty_history :: device_history where
  "empty_history = \<lparr>dh_used = [], dh_d1_strikes = 0\<rparr>"

definition history_for :: "device_id \<Rightarrow> policy_engine \<Rightarrow> device_history \<times> policy_engine" where
  "history_for key e =
     (case map_of (pe_history e) key of
        None \<Rightarrow>
          let d = AList.update key empty_history (pe_history e);
              d' = (if pc_max_tracked_devices (pe_config e) < length d then tl d else d)
          in (empty_history, e\<lparr>pe_history := d'\<rparr>)
      | Some h \<Rightarrow> (h, e\<lparr>pe_history := od_move_to_end key (pe_history e)\<rparr>))"

text \<open>A mutation of the history object obtained from \<open>history_for\<close>.\<close>

definition store_history :: "device_id \<Rightarrow> device_history \<Rightarrow> policy_engine \<Rightarrow> policy_engine" where
  "store_history key h e =
     (if map_of (pe_history e) key = None then e
      else e\<lparr>pe_history := AList.update key h (pe_history e)\<rparr>)"

definition remember :: "nat \<Rightarrow> string list \<Rightarrow> device_history \<Rightarrow> device_history" where
  "remember max_ids ids h =
     (let used = fold (\<lambda>i u. removeAll i u @ [i]) ids (dh_used h)
      in h\<lparr>dh_used := drop (length used - max_ids) used\<rparr>)"

subsection \<open>Decisions\<close>

definition block_ttl :: "policy_config \<Rightarrow> bool \<Rightarrow> device_history \<Rightarrow> int" where
  "block_ttl c escalate h =
     (let ttl = (if escalate
                 then pc_block_ttl_seconds c * pc_escalation_ttl_multiplier c ^ max (dh_d1_strikes h) 1
                 else pc_block_ttl_seconds c)
      in min ttl (pc_max_ttl_seconds c))"

fun reason :: "float_format \<Rightarrow> evidence_v2 \<Rightarrow> string" where
  "reason fmt (KernelGuard k) =
     ''kernel '' @ guard_name_value (kg_guard k) @ '' guard ('' @ guard_mode_value (kg_guard_mode k)
     @ ''): offender code '' @ offender_code_name (kg_code k) @ '' for ''
     @ show_int (kg_sustained_polls k) @ '' poll(s)''"
| "reason fmt (D1 d) =
     ''D1 '' @ d1_detector_value (d1_detector d) @ '' over '' @ show_int (d1_window_seconds d)
     @ ''s: '' @ fmt_g fmt (d1_value d) @ '' > '' @ fmt_g fmt (d1_threshold d)"
| "reason fmt (Classifier c) =
     ''classifier'' @ (case ce_family c of None \<Rightarrow> '''' | Some f \<Rightarrow> if f = [] then '''' else '' ('' @ f @ '')'')
     @ '': p='' @ fmt_2f fmt (ce_attack_probability c) @ '' (corroboration only)''"
| "reason fmt (Anomaly a) =
     ''anomaly score '' @ fmt_3f fmt (ae_anomaly_score a) @ '' (corroboration only)''"

text \<open>\<open>max((action for action in actions if action in _STRENGTH), key=..., default=None)\<close>.\<close>

definition direct_action :: "table_action set \<Rightarrow> table_action option" where
  "direct_action actions =
     (if TA_BLOCK \<in> actions then Some TA_BLOCK
      else if TA_RATE_LIMIT \<in> actions then Some TA_RATE_LIMIT
      else if TA_MONITOR \<in> actions then Some TA_MONITOR
      else None)"

definition draft_decisions ::
    "(nat \<Rightarrow> string) \<Rightarrow> float_format \<Rightarrow> policy_config \<Rightarrow> evidence_bundle \<Rightarrow> table_action set \<Rightarrow> bool
       \<Rightarrow> device_history \<Rightarrow> string list \<Rightarrow> datetime \<Rightarrow> policy_decision list" where
  "draft_decisions uuid fmt c bundle actions escalate h ids now =
     (let reasons = map (reason fmt) (eb_evidence bundle);
          direct = direct_action actions;
          held = (if TA_BLOCK_APPROVAL \<in> actions \<and> direct \<noteq> Some TA_BLOCK
                  then [\<lparr>pd_id = uuid 0, pd_target = eb_target bundle, pd_action = FA_BLOCK,
                         pd_ttl_seconds = Some (block_ttl c escalate h),
                         pd_reasons = ''BLOCK held for approval (ASSISTED)'' # reasons,
                         pd_evidence_ids = ids, pd_requires_approval = True, pd_decided_at = now,
                         pd_threat_level = None\<rparr>]
                  else []);
          base = \<lparr>pd_id = uuid (length held), pd_target = eb_target bundle, pd_action = FA_MONITOR,
                  pd_ttl_seconds = None, pd_reasons = reasons, pd_evidence_ids = ids,
                  pd_requires_approval = False, pd_decided_at = now, pd_threat_level = None\<rparr>
      in held @
         (if direct = Some TA_BLOCK
          then [base\<lparr>pd_action := FA_BLOCK, pd_ttl_seconds := Some (block_ttl c escalate h)\<rparr>]
          else if direct = Some TA_RATE_LIMIT
          then [base\<lparr>pd_action := FA_RATE_LIMIT,
                     pd_ttl_seconds := Some (min (pc_rate_limit_ttl_seconds c) (pc_max_ttl_seconds c))\<rparr>]
          else if direct = Some TA_MONITOR \<and> held = [] then [base]
          else []))"

text \<open>Each draft goes through the \<open>PolicyDecision\<close> model; \<open>None\<close> if one is refused.\<close>

definition decisions ::
    "(nat \<Rightarrow> string) \<Rightarrow> float_format \<Rightarrow> policy_config \<Rightarrow> evidence_bundle \<Rightarrow> table_action set \<Rightarrow> bool
       \<Rightarrow> device_history \<Rightarrow> string list \<Rightarrow> datetime \<Rightarrow> policy_decision list option" where
  "decisions uuid fmt c bundle actions escalate h ids now =
     parse_all new_policy_decision (draft_decisions uuid fmt c bundle actions escalate h ids now)"

definition new_evidence_ids :: "device_history \<Rightarrow> string list \<Rightarrow> string list" where
  "new_evidence_ids h ids = filter (\<lambda>i. i \<notin> set (dh_used h)) ids"

text \<open>\<open>self._table.rows[evidence_class]\<close> for every class; \<open>None\<close> where a row is missing (KeyError).\<close>

definition rows_of :: "policy_table \<Rightarrow> evidence_class set \<Rightarrow> (evidence_class \<times> policy_row) list option" where
  "rows_of t classes = parse_all (\<lambda>c. map_option (Pair c) (map_of (pt_rows t) c))
     (filter (\<lambda>c. c \<in> classes) all_evidence_classes)"

text \<open>\<open>tuple(dict.fromkeys(...))\<close>: the evidence ids, first occurrences, in order.\<close>

definition bundle_ids :: "evidence_bundle \<Rightarrow> string list" where
  "bundle_ids bundle = rev (remdups (rev (map evidence_id (eb_evidence bundle))))"

text \<open>The classes of the evidence that is new to this device.\<close>

definition fresh_classes :: "policy_engine \<Rightarrow> device_history \<Rightarrow> evidence_bundle \<Rightarrow> evidence_class set" where
  "fresh_classes e h bundle =
     (let new_ids = new_evidence_ids h (bundle_ids bundle);
          fresh = filter (\<lambda>i. evidence_id i \<in> set new_ids) (eb_evidence bundle)
      in classify fresh (pe_table e) (pc_sustained_polls (pe_config e)) (dh_d1_strikes h) (set new_ids))"

definition row_actions :: "enforcement_mode \<Rightarrow> (evidence_class \<times> policy_row) list \<Rightarrow> table_action set" where
  "row_actions mode rows = \<Union> (set (map (\<lambda>(c, r). set (cell r mode)) rows))"

definition row_escalate :: "(evidence_class \<times> policy_row) list \<Rightarrow> bool" where
  "row_escalate rows = list_ex (\<lambda>(c, r). pr_escalate r \<and> c = EC_D1_ESCALATED) rows"

definition decide ::
    "(rule_target \<Rightarrow> bool) \<Rightarrow> (nat \<Rightarrow> string) \<Rightarrow> float_format \<Rightarrow> evidence_bundle \<Rightarrow> enforcement_mode
       \<Rightarrow> datetime \<Rightarrow> policy_engine \<Rightarrow> (policy_decision list \<times> policy_engine) option" where
  "decide is_protected uuid fmt bundle mode now e =
     (if eb_evidence bundle = [] \<or> is_protected (eb_target bundle) then Some ([], e)
      else
        let key = device_key (eb_target bundle);
            (h, e1) = history_for key e;
            ids = bundle_ids bundle
        in if new_evidence_ids h ids = [] then Some ([], e1)
           else
             let classes = fresh_classes e h bundle;
                 h' = remember (pc_max_evidence_ids_per_device (pe_config e)) ids h;
                 e2 = store_history key h' e1
             in if classes = {} then Some ([], e2)
                else (case rows_of (pe_table e) classes of
                        None \<Rightarrow> None
                      | Some rows \<Rightarrow>
                          map_option (\<lambda>ds. (ds, e2))
                            (decisions uuid fmt (pe_config e) bundle (row_actions mode rows)
                               (row_escalate rows) h' ids now)))"

definition record_enforced :: "policy_decision \<Rightarrow> bool \<Rightarrow> policy_engine \<Rightarrow> policy_engine" where
  "record_enforced d had_d1 e =
     (if had_d1 \<and> enforcing (pd_action d)
      then let key = device_key (pd_target d);
               (h, e1) = history_for key e
           in store_history key (h\<lparr>dh_d1_strikes := dh_d1_strikes h + 1\<rparr>) e1
      else e)"


subsection \<open>Classification facts\<close>

lemma kernel_items_iff: "k \<in> set (kernel_items xs) \<longleftrightarrow> KernelGuard k \<in> set xs"
  by (induction xs rule: kernel_items.induct) auto

lemma d1_items_iff: "d \<in> set (d1_items xs) \<longleftrightarrow> D1 d \<in> set xs"
  by (induction xs rule: d1_items.induct) auto

text \<open>What a single piece of evidence may do on its own: an acting-tier D1 detector, or a sustained enforce-mode offender.\<close>

fun can_enforce :: "policy_table \<Rightarrow> int \<Rightarrow> evidence_v2 \<Rightarrow> bool" where
  "can_enforce t polls (KernelGuard k) \<longleftrightarrow> kg_guard_mode k = GM_ENFORCE \<and> polls \<le> kg_sustained_polls k"
| "can_enforce t polls (D1 d) \<longleftrightarrow> d1_detector d \<in> set (pt_high t) \<union> set (pt_standard t)"
| "can_enforce t polls (Anomaly a) \<longleftrightarrow> False"
| "can_enforce t polls (Classifier c) \<longleftrightarrow> False"

lemma kernel_class_not_sustained:
  "\<not> can_enforce t polls (KernelGuard k) \<Longrightarrow> kernel_class polls k \<in> set MONITOR_CEILING_CLASSES"
  by (cases "kg_guard_mode k") (auto simp: kernel_class_def MONITOR_CEILING_CLASSES_def)

lemma classify_ceiling:
  assumes "\<forall>i \<in> set xs. \<not> can_enforce t polls i"
  shows "classify xs t polls strikes new_ids \<subseteq> set MONITOR_CEILING_CLASSES"
proof -
  have k: "kernel_class polls k \<in> set MONITOR_CEILING_CLASSES" if "k \<in> set (kernel_items xs)" for k
    using assms that kernel_class_not_sustained kernel_items_iff by blast
  have "d1_detector d \<notin> set (pt_high t) \<union> set (pt_standard t)" if "d \<in> set (d1_items xs)" for d
    using assms that d1_items_iff can_enforce.simps(2) by blast
  then have no_d1: "d1_detector ` set (d1_items xs) \<inter> (set (pt_high t) \<union> set (pt_standard t)) = {}"
    by blast
  with k show ?thesis
    by (auto simp: classify_def Let_def Int_Un_distrib) (auto simp: MONITOR_CEILING_CLASSES_def)
qed

lemma parse_all_mem: "parse_all f xs = Some ys \<Longrightarrow> x \<in> set xs \<Longrightarrow> \<exists>y \<in> set ys. f x = Some y"
  by (induction xs arbitrary: ys) (auto split: option.splits)

lemma parse_all_length: "parse_all f xs = Some ys \<Longrightarrow> length ys = length xs"
  by (induction xs arbitrary: ys) (auto split: option.splits)

lemma parse_all_total: "(\<And>x. x \<in> set xs \<Longrightarrow> f x \<noteq> None) \<Longrightarrow> \<exists>ys. parse_all f xs = Some ys"
  by (induction xs) (auto split: option.splits)

lemma rows_of_total: "valid_table t \<Longrightarrow> \<exists>rows. rows_of t classes = Some rows"
  unfolding rows_of_def by (rule parse_all_total) (auto elim: valid_table_row)

lemma rows_of_row:
  assumes "valid_table t" "rows_of t classes = Some rows" "(c, r) \<in> set rows"
  shows "c \<in> classes \<and> pr_evidence r = c \<and> policy_row_ok r"
  using assms parse_all_set [of _ _ rows "(c, r)"] valid_table_row
  by (fastforce simp: rows_of_def valid_table_def)

lemma rows_of_ceiling:
  assumes "valid_table t" "rows_of t classes = Some rows" "classes \<subseteq> set MONITOR_CEILING_CLASSES"
  shows "row_actions mode rows \<subseteq> {TA_MONITOR}"
  unfolding row_actions_def using rows_of_row [OF assms(1,2)] policy_row_ok_ceiling assms(3) by fastforce

lemma draft_monitor_only:
  assumes "actions \<subseteq> {TA_MONITOR}" "d \<in> set (draft_decisions uuid fmt c bundle actions escalate h ids now)"
  shows "pd_action d = FA_MONITOR"
proof -
  have "TA_BLOCK_APPROVAL \<notin> actions" "TA_BLOCK \<notin> actions" "TA_RATE_LIMIT \<notin> actions"
    using assms(1) by auto
  with assms(2) show ?thesis
    by (auto simp: draft_decisions_def direct_action_def Let_def split: if_splits)
qed

lemma new_policy_decision_sel:
  "new_policy_decision d = Some d' \<Longrightarrow> d' = d\<lparr>pd_threat_level := Some (threat_level_by_action (pd_action d))\<rparr>"
  by (auto simp: new_policy_decision_def policy_decision_check_def Let_def split: if_splits)

lemma decisions_monitor_only:
  assumes "actions \<subseteq> {TA_MONITOR}" "decisions uuid fmt c bundle actions escalate h ids now = Some ds" "d \<in> set ds"
  shows "pd_action d = FA_MONITOR"
proof -
  obtain x where "x \<in> set (draft_decisions uuid fmt c bundle actions escalate h ids now)"
      "new_policy_decision x = Some d"
    using parse_all_set assms(2,3) unfolding decisions_def by metis
  then show ?thesis
    using draft_monitor_only [OF assms(1)] new_policy_decision_sel by fastforce
qed

text \<open>
  C2: machine-learning evidence never enforces. Whatever an evidence bundle contains, if no item of
  it is an acting-tier D1 detection or an enforce-mode kernel offender sustained for
  \<open>policy.sustained_polls\<close> polls, then every decision the engine makes is MONITOR, in every
  enforcement mode, for any table that passed validation and whatever the device's history.
\<close>

theorem ml_evidence_never_enforces:
  assumes "valid_table (pe_table e)"
    and "\<forall>i \<in> set (eb_evidence bundle). \<not> can_enforce (pe_table e) (pc_sustained_polls (pe_config e)) i"
    and "decide is_protected uuid fmt bundle mode now e = Some (ds, e')"
    and "d \<in> set ds"
  shows "pd_action d = FA_MONITOR"
proof -
  obtain h e1 where h: "history_for (device_key (eb_target bundle)) e = (h, e1)" by fastforce
  have ceiling: "fresh_classes e h bundle \<subseteq> set MONITOR_CEILING_CLASSES"
    unfolding fresh_classes_def Let_def using assms(2) by (intro classify_ceiling) simp
  from assms(3,4) obtain rows h' where rows: "rows_of (pe_table e) (fresh_classes e h bundle) = Some rows"
    and ds: "decisions uuid fmt (pe_config e) bundle (row_actions mode rows) (row_escalate rows) h'
        (bundle_ids bundle) now = Some ds"
    by (auto simp: decide_def h Let_def split: if_splits option.splits)
  show ?thesis
    by (rule decisions_monitor_only [OF rows_of_ceiling [OF assms(1) rows ceiling] ds assms(4)])
qed

definition default_policy_config :: policy_config where
  "default_policy_config = \<lparr>pc_rate_limit_ttl_seconds = 300, pc_block_ttl_seconds = 300,
     pc_escalation_ttl_multiplier = 2, pc_max_ttl_seconds = 3600, pc_sustained_polls = 2,
     pc_max_tracked_devices = 4096, pc_max_evidence_ids_per_device = 256\<rparr>"

definition example_engine :: policy_engine where
  "example_engine = new_policy_engine shipped_table default_policy_config"

definition example_format :: float_format where
  "example_format = \<lparr>fmt_g = \<lambda>_. ''x'', fmt_2f = \<lambda>_. ''x'', fmt_3f = \<lambda>_. ''x''\<rparr>"

definition example_device :: rule_target where
  "example_device = \<lparr>rt_ip = ipv4 192 168 100 20, rt_mac = Some ''02:00:00:00:00:20''\<rparr>"

definition example_anomaly :: evidence_v2 where
  "example_anomaly = Anomaly \<lparr>ae_flow_id = ''f1'', ae_anomaly_score = 9/10, ae_threshold = 1/2,
     ae_is_anomaly = True, ae_model_version = ''m'', ae_feature_schema_version = ''3'', ae_generated_at = 0\<rparr>"

definition example_scan :: evidence_v2 where
  "example_scan = D1 \<lparr>d1_id = ''e1'', d1_detector = D1_VERTICAL_SCAN, d1_window_seconds = 10, d1_value = 40,
     d1_threshold = 15, d1_mac = Some ''02:00:00:00:00:20'', d1_observed_at = 0\<rparr>"

lemmas example_defs = default_policy_config_def example_engine_def example_format_def example_device_def
  example_anomaly_def example_scan_def new_policy_engine_def

definition example_bundle :: evidence_bundle where
  "example_bundle = \<lparr>eb_target = example_device, eb_evidence = [example_anomaly]\<rparr>"

lemma example_decide:
  "\<exists>d e'. decide (\<lambda>_. False) (\<lambda>_. ''id'') example_format example_bundle EM_ACTIVE 0 example_engine
      = Some ([d], e') \<and> pd_evidence_ids d = [''anomaly:f1'']"
  by (simp add: example_bundle_def example_defs decide_def Let_def history_for_def device_key_def
      empty_history_def new_evidence_ids_def fresh_classes_def bundle_ids_def row_actions_def
      classify_def shipped_table_def rows_of_def
      all_evidence_classes_def cell_def decisions_def draft_decisions_def direct_action_def
      new_policy_decision_def policy_decision_fields_ok_def policy_decision_check_def)

theorem ml_evidence_never_enforces_witness:
  "\<exists>d e'. decide (\<lambda>_. False) (\<lambda>_. ''id'') example_format example_bundle EM_ACTIVE 0 example_engine
      = Some ([d], e') \<and> pd_action d = FA_MONITOR"
proof -
  obtain d e' where res: "decide (\<lambda>_. False) (\<lambda>_. ''id'') example_format example_bundle EM_ACTIVE 0 example_engine
      = Some ([d], e')"
    using example_decide by blast
  have "valid_table (pe_table example_engine)"
    by (simp add: example_engine_def new_policy_engine_def shipped_table_valid)
  moreover have "\<forall>i \<in> set (eb_evidence example_bundle).
      \<not> can_enforce (pe_table example_engine) (pc_sustained_polls (pe_config example_engine)) i"
    by (simp add: example_bundle_def example_anomaly_def)
  ultimately have "pd_action d = FA_MONITOR"
    using ml_evidence_never_enforces [OF _ _ res] by simp
  with res show ?thesis by blast
qed

subsection \<open>Every decision is well formed\<close>

lemma block_ttl_bounds:
  assumes "policy_config_ok c"
  shows "0 < block_ttl c escalate h \<and> block_ttl c escalate h \<le> pc_max_ttl_seconds c"
proof -
  have "0 < pc_block_ttl_seconds c * pc_escalation_ttl_multiplier c ^ n" for n
    using assms by (simp add: policy_config_ok_def)
  with assms show ?thesis by (simp add: block_ttl_def policy_config_ok_def Let_def)
qed

definition well_formed_decision :: "policy_config \<Rightarrow> enforcement_mode \<Rightarrow> policy_decision \<Rightarrow> bool" where
  "well_formed_decision c mode d \<longleftrightarrow>
     pd_threat_level d = Some (threat_level_by_action (pd_action d))
     \<and> (if enforcing (pd_action d)
        then \<exists>ttl. pd_ttl_seconds d = Some ttl \<and> 0 < ttl \<and> ttl \<le> pc_max_ttl_seconds c
        else pd_ttl_seconds d = None)
     \<and> pd_evidence_ids d \<noteq> [] \<and> pd_reasons d \<noteq> [] \<and> pd_action d \<noteq> FA_ALLOW
     \<and> (pd_requires_approval d \<longrightarrow> pd_action d = FA_BLOCK \<and> mode = EM_ASSISTED)"

lemma draft_shape:
  assumes "d \<in> set (draft_decisions uuid fmt c bundle actions escalate h ids now)"
  shows "(\<exists>n. pd_id d = uuid n) \<and> (eb_evidence bundle \<noteq> [] \<longrightarrow> pd_reasons d \<noteq> []) \<and> pd_evidence_ids d = ids
    \<and> pd_threat_level d = None
    \<and> (pd_action d = FA_BLOCK \<and> pd_ttl_seconds d = Some (block_ttl c escalate h)
         \<and> (pd_requires_approval d \<longrightarrow> TA_BLOCK_APPROVAL \<in> actions)
       \<or> pd_action d = FA_RATE_LIMIT \<and> \<not> pd_requires_approval d
         \<and> pd_ttl_seconds d = Some (min (pc_rate_limit_ttl_seconds c) (pc_max_ttl_seconds c))
       \<or> pd_action d = FA_MONITOR \<and> \<not> pd_requires_approval d \<and> pd_ttl_seconds d = None)"
  using assms by (auto simp: draft_decisions_def Let_def split: if_splits)

lemma draft_accepted:
  assumes "policy_config_ok c" "\<forall>n. uuid n \<noteq> []" "eb_evidence bundle \<noteq> []" "ids \<noteq> []"
    and "TA_BLOCK_APPROVAL \<in> actions \<longrightarrow> mode = EM_ASSISTED"
    and "d \<in> set (draft_decisions uuid fmt c bundle actions escalate h ids now)"
  shows "\<exists>d'. new_policy_decision d = Some d' \<and> well_formed_decision c mode d'"
proof -
  have ttl: "0 < block_ttl c escalate h" "block_ttl c escalate h \<le> 3600"
      "block_ttl c escalate h \<le> pc_max_ttl_seconds c"
    using block_ttl_bounds [OF assms(1), of escalate h] assms(1) by (auto simp: policy_config_ok_def)
  have rl: "0 < min (pc_rate_limit_ttl_seconds c) (pc_max_ttl_seconds c)"
      "min (pc_rate_limit_ttl_seconds c) (pc_max_ttl_seconds c) \<le> 3600"
    using assms(1) by (auto simp: policy_config_ok_def)
  have "pd_id d \<noteq> []" using draft_shape [OF assms(6)] assms(2) by metis
  moreover have "pd_reasons d \<noteq> []" "pd_evidence_ids d \<noteq> []" "pd_threat_level d = None"
    using draft_shape [OF assms(6)] assms(3,4) by simp_all
  ultimately show ?thesis
    using draft_shape [OF assms(6)] assms(5) ttl rl
    by (elim conjE disjE) (simp_all add: new_policy_decision_def policy_decision_fields_ok_def
        policy_decision_check_def well_formed_decision_def MAX_ELEMENT_TTL_SECONDS_def Let_def)
qed

lemma draft_length: "length (draft_decisions uuid fmt c bundle actions escalate h ids now) \<le> 2"
  by (simp add: draft_decisions_def Let_def)

lemma rows_of_approval:
  assumes "valid_table t" "rows_of t classes = Some rows"
  shows "TA_BLOCK_APPROVAL \<in> row_actions mode rows \<longrightarrow> mode = EM_ASSISTED"
  unfolding row_actions_def using rows_of_row [OF assms] policy_row_ok_approval by fastforce

lemma dedup_nonempty: "xs \<noteq> [] \<Longrightarrow> rev (remdups (rev xs)) \<noteq> []"
  by simp

lemma decisions_well_formed:
  assumes "policy_config_ok c" "\<forall>n. uuid n \<noteq> []" "eb_evidence bundle \<noteq> []" "ids \<noteq> []"
    and "TA_BLOCK_APPROVAL \<in> actions \<longrightarrow> mode = EM_ASSISTED"
  shows "\<exists>ds. decisions uuid fmt c bundle actions escalate h ids now = Some ds \<and> length ds \<le> 2
    \<and> (\<forall>d \<in> set ds. well_formed_decision c mode d)"
proof -
  let ?drafts = "draft_decisions uuid fmt c bundle actions escalate h ids now"
  have acc: "\<exists>d'. new_policy_decision d = Some d' \<and> well_formed_decision c mode d'" if "d \<in> set ?drafts" for d
    by (rule draft_accepted [OF assms that])
  have "\<exists>ds. parse_all new_policy_decision ?drafts = Some ds"
    by (rule parse_all_total) (use acc in fastforce)
  then obtain ds where ds: "parse_all new_policy_decision ?drafts = Some ds" by blast
  have "length ds \<le> 2" using parse_all_length [OF ds] draft_length by metis
  moreover have "well_formed_decision c mode d" if "d \<in> set ds" for d
    using parse_all_set [OF ds that] acc by force
  ultimately show ?thesis unfolding decisions_def using ds by blast
qed

text \<open>
  The engine always answers, and every decision it makes is one the rest of the pipeline may act
  on: at most two per bundle, each naming evidence, an enforcing one with a time to live between 1 s
  and \<open>policy.max_ttl_seconds\<close>, a non-enforcing one with none, and approval requested only for a
  BLOCK in ASSISTED mode. No table row lookup and no \<open>PolicyDecision\<close> constructor can raise.
\<close>

theorem decide_total_and_well_formed:
  assumes "valid_table (pe_table e)" and "policy_config_ok (pe_config e)" and "\<forall>n. uuid n \<noteq> []"
  shows "\<exists>ds e'. decide is_protected uuid fmt bundle mode now e = Some (ds, e') \<and> length ds \<le> 2
    \<and> (\<forall>d \<in> set ds. well_formed_decision (pe_config e) mode d)"
proof (cases "eb_evidence bundle = [] \<or> is_protected (eb_target bundle)")
  case True
  then show ?thesis by (simp add: decide_def)
next
  case False
  obtain h e1 where h: "history_for (device_key (eb_target bundle)) e = (h, e1)" by fastforce
  obtain rows where rows: "rows_of (pe_table e) (fresh_classes e h bundle) = Some rows"
    using rows_of_total [OF assms(1)] by blast
  have ev: "eb_evidence bundle \<noteq> []" using False by simp
  then have ids: "bundle_ids bundle \<noteq> []" by (simp add: bundle_ids_def)
  obtain ds where ds: "decisions uuid fmt (pe_config e) bundle (row_actions mode rows) (row_escalate rows)
      (remember (pc_max_evidence_ids_per_device (pe_config e)) (bundle_ids bundle) h) (bundle_ids bundle) now = Some ds"
      "length ds \<le> 2" "\<forall>d \<in> set ds. well_formed_decision (pe_config e) mode d"
    using decisions_well_formed [OF assms(2,3) ev ids rows_of_approval [OF assms(1) rows], where fmt = fmt
        and escalate = "row_escalate rows" and now = now
        and h = "remember (pc_max_evidence_ids_per_device (pe_config e)) (bundle_ids bundle) h"]
    by blast
  show ?thesis
    by (cases "new_evidence_ids h (bundle_ids bundle) = []"; cases "fresh_classes e h bundle = {}")
      (use False ds in \<open>simp_all add: decide_def h Let_def rows\<close>)
qed

theorem decide_total_and_well_formed_witness:
  "\<exists>ds e'. decide (\<lambda>_. False) (\<lambda>_. ''id'') example_format
      \<lparr>eb_target = example_device, eb_evidence = [example_scan]\<rparr> EM_ASSISTED 0 example_engine = Some (ds, e')
    \<and> (\<forall>d \<in> set ds. well_formed_decision default_policy_config EM_ASSISTED d)"
proof -
  have "valid_table (pe_table example_engine)" "policy_config_ok (pe_config example_engine)"
    by (simp_all add: example_engine_def new_policy_engine_def shipped_table_valid policy_config_ok_def
        default_policy_config_def)
  from decide_total_and_well_formed [OF this, of "\<lambda>_. ''id''"] show ?thesis
    by (fastforce simp: example_engine_def new_policy_engine_def)
qed

subsection \<open>No scores\<close>

text \<open>Evidence with every score, probability and measured value replaced.\<close>

fun rescore :: "(real \<Rightarrow> real) \<Rightarrow> evidence_v2 \<Rightarrow> evidence_v2" where
  "rescore f (KernelGuard k) = KernelGuard k"
| "rescore f (D1 d) = D1 (d\<lparr>d1_value := f (d1_value d), d1_threshold := f (d1_threshold d)\<rparr>)"
| "rescore f (Anomaly a) = Anomaly (a\<lparr>ae_anomaly_score := f (ae_anomaly_score a), ae_threshold := f (ae_threshold a)\<rparr>)"
| "rescore f (Classifier c) = Classifier (c\<lparr>ce_attack_probability := f (ce_attack_probability c),
     ce_operating_threshold := f (ce_operating_threshold c)\<rparr>)"

definition rescore_bundle :: "(real \<Rightarrow> real) \<Rightarrow> evidence_bundle \<Rightarrow> evidence_bundle" where
  "rescore_bundle f b = b\<lparr>eb_evidence := map (rescore f) (eb_evidence b)\<rparr>"

definition strip_reasons :: "policy_decision \<Rightarrow> policy_decision" where
  "strip_reasons d = d\<lparr>pd_reasons := []\<rparr>"

lemma evidence_id_rescore [simp]: "evidence_id (rescore f i) = evidence_id i"
  by (cases i) simp_all

lemma kernel_items_rescore [simp]: "kernel_items (map (rescore f) xs) = kernel_items xs"
  by (induction xs rule: kernel_items.induct) auto

lemma d1_items_rescore:
  "d1_items (map (rescore f) xs) =
     map (\<lambda>d. d\<lparr>d1_value := f (d1_value d), d1_threshold := f (d1_threshold d)\<rparr>) (d1_items xs)"
  by (induction xs rule: d1_items.induct) auto

lemma is_ml_positive_rescore [simp]: "is_ml_positive (rescore f i) = is_ml_positive i"
  by (cases i) simp_all

lemma classify_rescore [simp]:
  "classify (map (rescore f) xs) t polls strikes new_ids = classify xs t polls strikes new_ids"
proof -
  have a: "d1_detector ` set (d1_items (map (rescore f) xs)) = d1_detector ` set (d1_items xs)"
    by (simp add: d1_items_rescore image_image)
  have b: "list_ex (\<lambda>i. d1_detector i \<in> acting \<and> d1_id i \<in> new_ids) (d1_items (map (rescore f) xs))
      = list_ex (\<lambda>i. d1_detector i \<in> acting \<and> d1_id i \<in> new_ids) (d1_items xs)" for acting
    by (simp add: d1_items_rescore list_ex_iff)
  have c: "filter is_ml_positive (map (rescore f) xs) = [] \<longleftrightarrow> filter is_ml_positive xs = []"
    by (simp add: filter_empty_conv)
  show ?thesis
    by (simp only: classify_def Let_def set_map kernel_items_rescore a b c)
qed

lemma bundle_ids_rescore [simp]: "bundle_ids (rescore_bundle f b) = bundle_ids b"
  by (simp add: bundle_ids_def rescore_bundle_def comp_def)

lemma fresh_classes_rescore [simp]: "fresh_classes e h (rescore_bundle f b) = fresh_classes e h b"
proof -
  have "filter (\<lambda>i. evidence_id i \<in> A) (map (rescore f) (eb_evidence b))
      = map (rescore f) (filter (\<lambda>i. evidence_id i \<in> A) (eb_evidence b))" for A
    by (simp add: filter_map comp_def)
  then show ?thesis unfolding fresh_classes_def Let_def bundle_ids_rescore
    by (simp add: rescore_bundle_def)
qed

lemma new_policy_decision_strip:
  assumes "pd_reasons d \<noteq> [] \<longleftrightarrow> pd_reasons d' \<noteq> []" "strip_reasons d = strip_reasons d'"
  shows "map_option strip_reasons (new_policy_decision d) = map_option strip_reasons (new_policy_decision d')"
proof -
  obtain rs where d': "d' = d\<lparr>pd_reasons := rs\<rparr>"
    using assms(2) by (metis (no_types, lifting) policy_decision.surjective policy_decision.update_convs(5)
        strip_reasons_def policy_decision.ext_inject)
  with assms(1) show ?thesis
    by (simp add: new_policy_decision_def policy_decision_fields_ok_def policy_decision_check_def
        strip_reasons_def Let_def)
qed

lemma parse_all_map_cong:
  "list_all2 (\<lambda>x y. map_option g (f x) = map_option g (f y)) xs ys \<Longrightarrow>
    map_option (map g) (parse_all f xs) = map_option (map g) (parse_all f ys)"
proof (induction xs ys rule: list_all2_induct)
  case (Cons x xs y ys)
  then show ?case
    by (cases "f x"; cases "f y"; cases "parse_all f xs"; cases "parse_all f ys") auto
qed simp

lemma drafts_rescore:
  "list_all2 (\<lambda>d d'. (pd_reasons d \<noteq> [] \<longleftrightarrow> pd_reasons d' \<noteq> []) \<and> strip_reasons d = strip_reasons d')
     (draft_decisions uuid fmt c (rescore_bundle f b) actions escalate h ids now)
     (draft_decisions uuid fmt c b actions escalate h ids now)"
  by (simp add: draft_decisions_def Let_def strip_reasons_def rescore_bundle_def)

lemma decisions_rescore:
  "map_option (map strip_reasons) (decisions uuid fmt c (rescore_bundle f b) actions escalate h ids now)
    = map_option (map strip_reasons) (decisions uuid fmt c b actions escalate h ids now)"
  unfolding decisions_def
  by (rule parse_all_map_cong, rule list_all2_mono [OF drafts_rescore])
    (auto intro: new_policy_decision_strip)

text \<open>
  No score chooses an action. Replacing every anomaly score, attack probability, measured value
  and threshold in a bundle by any function of itself changes nothing of the engine's decisions but
  the wording of their reasons: the same actions, times to live, evidence and approvals, and the same
  engine state afterwards.
\<close>

theorem scores_do_not_decide:
  "map_option (\<lambda>(ds, e'). (map strip_reasons ds, e')) (decide is_protected uuid fmt (rescore_bundle f b) mode now e)
    = map_option (\<lambda>(ds, e'). (map strip_reasons ds, e')) (decide is_protected uuid fmt b mode now e)"
proof -
  have target: "eb_target (rescore_bundle f b) = eb_target b"
    and empty: "eb_evidence (rescore_bundle f b) = [] \<longleftrightarrow> eb_evidence b = []"
    by (simp_all add: rescore_bundle_def)
  obtain h e1 where h: "history_for (device_key (eb_target b)) e = (h, e1)" by fastforce
  have pair: "map_option (\<lambda>(ds, e'). (map strip_reasons ds, e')) (map_option (\<lambda>ds. (ds, x)) y)
      = map_option (\<lambda>ds. (ds, x)) (map_option (map strip_reasons) y)" for x y
    by (cases y) simp_all
  show ?thesis
    by (cases "rows_of (pe_table e) (fresh_classes e h b)")
      (simp_all add: decide_def target empty h Let_def pair decisions_rescore)
qed

text \<open>
  The shadow log is honest. In SHADOW mode the engine makes exactly the decisions, and leaves
  exactly the state, that ACTIVE mode would.
\<close>

theorem shadow_decides_as_active:
  "decide is_protected uuid fmt bundle EM_SHADOW now e = decide is_protected uuid fmt bundle EM_ACTIVE now e"
proof -
  have "cell r EM_SHADOW = cell r EM_ACTIVE" for r by (simp add: cell_def)
  then have "row_actions EM_SHADOW = row_actions EM_ACTIVE" by (simp add: row_actions_def fun_eq_iff)
  then show ?thesis unfolding decide_def by (simp only:)
qed

subsection \<open>Memory: bounded, and nothing acts twice\<close>

definition engine_inv :: "policy_engine \<Rightarrow> bool" where
  "engine_inv e \<longleftrightarrow> od_distinct (pe_history e)
     \<and> length (pe_history e) \<le> pc_max_tracked_devices (pe_config e) \<and> 0 < pc_max_tracked_devices (pe_config e)
     \<and> od_all (\<lambda>h. distinct (dh_used h) \<and> length (dh_used h) \<le> pc_max_evidence_ids_per_device (pe_config e)) (pe_history e)"

abbreviation touch_device :: "device_id \<Rightarrow> policy_engine \<Rightarrow> policy_engine" where
  "touch_device k e \<equiv> snd (history_for k e)"

lemma history_for_params [simp]:
  "pe_config (touch_device k e) = pe_config e" "pe_table (touch_device k e) = pe_table e"
  by (simp_all add: history_for_def Let_def split: option.splits)

lemma engine_inv_history_for:
  assumes "engine_inv e"
  shows "engine_inv (touch_device k e)"
proof (cases "map_of (pe_history e) k")
  case None
  let ?d = "AList.update k empty_history (pe_history e)"
  have "od_all (\<lambda>h. distinct (dh_used h) \<and> length (dh_used h) \<le> pc_max_evidence_ids_per_device (pe_config e)) ?d"
    using assms by (auto simp: engine_inv_def empty_history_def)
  moreover have "length ?d = Suc (length (pe_history e))"
    using None by (simp add: length_od_update map_of_None_iff_key)
  ultimately show ?thesis
    using assms None by (auto simp: engine_inv_def history_for_def Let_def intro: od_all_tl)
next
  case (Some h)
  with assms show ?thesis by (auto simp: engine_inv_def history_for_def intro: od_all_move)
qed

lemma update_new_append: "map_of d k = None \<Longrightarrow> AList.update k v d = d @ [(k, v)]"
  by (induction d) (auto split: if_splits)

lemma keys_move_to_end: "map_of d k = Some v \<Longrightarrow> map fst (od_move_to_end k d) = removeAll k (map fst d) @ [k]"
  by (simp add: od_move_to_end_def delete_keys)

lemma keys_history_for:
  assumes "engine_inv e"
  shows "map fst (pe_history (touch_device k e)) =
    lru_keys (pc_max_tracked_devices (pe_config e)) k (map fst (pe_history e))"
proof (cases "map_of (pe_history e) k")
  case None
  let ?d = "pe_history e" and ?n = "pc_max_tracked_devices (pe_config e)"
  have capped: "(if n < length (d @ [x]) then tl (d @ [x]) else d @ [x]) = (if length d = n then tl d @ [x] else d @ [x])"
    if "length d \<le> n" "0 < n" for n and d :: "(device_id, device_history) odict" and x
    using that by (cases d) auto
  have "k \<notin> set (map fst ?d)" using None by (simp add: map_of_None_iff_key)
  then have "lru_keys ?n k (map fst ?d) = (if length ?d = ?n then tl (map fst ?d) @ [k] else map fst ?d @ [k])"
    using assms lru_keys_absent [of k "map fst ?d" ?n] by (simp add: engine_inv_def)
  moreover have "pe_history (touch_device k e) = (if length ?d = ?n then tl ?d @ [(k, empty_history)]
      else ?d @ [(k, empty_history)])"
  proof -
    have "pe_history (touch_device k e) =
        (if ?n < length (?d @ [(k, empty_history)]) then tl (?d @ [(k, empty_history)]) else ?d @ [(k, empty_history)])"
      unfolding history_for_def None update_new_append [OF None] by (simp add: Let_def)
    also have "\<dots> = (if length ?d = ?n then tl ?d @ [(k, empty_history)] else ?d @ [(k, empty_history)])"
    proof (rule capped)
      show "length ?d \<le> ?n" "0 < ?n" using assms by (simp_all add: engine_inv_def)
    qed
    finally show ?thesis .
  qed
  ultimately show ?thesis by (simp add: map_tl)
next
  case (Some h)
  then have "k \<in> set (map fst (pe_history e))" using map_of_Some_key [OF Some] by simp
  with Some assms show ?thesis
    by (simp add: history_for_def keys_move_to_end lru_keys_present engine_inv_def)
qed

interpretation devices: lru_memory engine_inv "\<lambda>e. map fst (pe_history e)"
    "\<lambda>e. pc_max_tracked_devices (pe_config e)" touch_device
  by unfold_locales (simp_all add: engine_inv_history_for keys_history_for, simp_all add: engine_inv_def)

lemma engine_inv_new: "policy_config_ok c \<Longrightarrow> engine_inv (new_policy_engine t c)"
  by (simp add: engine_inv_def new_policy_engine_def policy_config_ok_def)

lemma engine_inv_store:
  "engine_inv e \<Longrightarrow> distinct (dh_used h) \<Longrightarrow> length (dh_used h) \<le> pc_max_evidence_ids_per_device (pe_config e) \<Longrightarrow>
    engine_inv (store_history k h e)"
  by (cases "map_of (pe_history e) k")
    (auto simp: engine_inv_def store_history_def length_od_update map_of_Some_key)

lemma store_history_params [simp]:
  "pe_config (store_history k h e) = pe_config e" "pe_table (store_history k h e) = pe_table e"
  by (simp_all add: store_history_def)

lemma store_history_keys [simp]: "map fst (pe_history (store_history k h e)) = map fst (pe_history e)"
  by (cases "map_of (pe_history e) k") (simp_all add: store_history_def update_keys map_of_Some_key)

lemma store_history_lookup:
  "map_of (pe_history (store_history k h e)) k' =
     (if k' = k \<and> map_of (pe_history e) k \<noteq> None then Some h else map_of (pe_history e) k')"
  by (simp add: store_history_def)

lemma remember_bound: "length (dh_used (remember n ids h)) \<le> n"
  by (simp add: remember_def Let_def)

lemma fold_remember:
  "distinct ids \<Longrightarrow> fold (\<lambda>i u. removeAll i u @ [i]) ids u = filter (\<lambda>x. x \<notin> set ids) u @ ids"
proof (induction ids arbitrary: u)
  case (Cons i ids)
  have "filter (\<lambda>x. x \<notin> set ids) (removeAll i u) = filter (\<lambda>x. x \<notin> set (i # ids)) u"
    by (induction u) auto
  with Cons show ?case by simp
qed simp

lemma distinct_remember: "distinct (dh_used h) \<Longrightarrow> distinct (dh_used (remember n ids h))"
proof -
  have "distinct u \<Longrightarrow> distinct (fold (\<lambda>i u. removeAll i u @ [i]) ids u)" for u :: "string list"
    by (induction ids arbitrary: u) (simp_all add: distinct_removeAll)
  then show "distinct (dh_used h) \<Longrightarrow> distinct (dh_used (remember n ids h))" by (simp add: remember_def Let_def)
qed

text \<open>What a device has used is itself kept in order of use: an id stays while few enough others follow it.\<close>

lemma recent_enough_remember:
  assumes "recent_enough i S (dh_used h) \<or> i \<in> set ids" "distinct (dh_used h)" "distinct ids" "set ids \<subseteq> S"
    and "finite S" "card (insert i S) \<le> n"
  shows "recent_enough i S (dh_used (remember n ids h))"
proof -
  let ?u = "filter (\<lambda>x. x \<notin> set ids) (dh_used h) @ ids"
  have "recent_enough i S ?u"
  proof (cases "i \<in> set ids")
    case True
    then obtain pre post where "ids = pre @ i # post" by (meson split_list)
    then show ?thesis using assms(4) unfolding recent_enough_def by (metis append_assoc le_sup_iff list.simps(15) set_append insert_subset)
  next
    case False
    then obtain pre post where u: "dh_used h = pre @ i # post" "set post \<subseteq> S" using assms(1) by (auto simp: recent_enough_def)
    let ?post = "filter (\<lambda>x. x \<notin> set ids) post @ ids"
    have "?u = filter (\<lambda>x. x \<notin> set ids) pre @ i # ?post" "set ?post \<subseteq> S" using u False assms(4) by auto
    then show ?thesis unfolding recent_enough_def by blast
  qed
  moreover have "distinct ?u" using assms(2,3) by auto
  ultimately have "recent_enough i S (drop (length ?u - n) ?u)" using assms(5,6) by (intro recent_enough_drop)
  then show ?thesis by (simp add: remember_def fold_remember assms(3) Let_def)
qed

lemma distinct_bundle_ids: "distinct (bundle_ids b)"
  by (simp add: bundle_ids_def)

lemma set_bundle_ids: "set (bundle_ids b) = evidence_id ` set (eb_evidence b)"
  by (simp add: bundle_ids_def)

text \<open>The state a decision pass leaves: the device is the most recent one, only its history changed.\<close>

lemma decide_state:
  assumes "decide is_protected uuid fmt b mode now e = Some (ds, e')"
    and "eb_evidence b \<noteq> []" "\<not> is_protected (eb_target b)"
  obtains h where "fst (history_for (device_key (eb_target b)) e) = h"
    and "e' = touch_device (device_key (eb_target b)) e \<and> set (bundle_ids b) \<subseteq> set (dh_used h)
      \<or> e' = store_history (device_key (eb_target b))
              (remember (pc_max_evidence_ids_per_device (pe_config e)) (bundle_ids b) h)
              (touch_device (device_key (eb_target b)) e)"
proof -
  obtain h e1 where h: "history_for (device_key (eb_target b)) e = (h, e1)" by fastforce
  have sub: "new_evidence_ids h (bundle_ids b) = [] \<Longrightarrow> set (bundle_ids b) \<subseteq> set (dh_used h)"
    by (auto simp: new_evidence_ids_def filter_empty_conv)
  show thesis
    using that [of h] assms sub by (auto simp: decide_def h Let_def split: if_splits option.splits)
qed

lemma history_distinct: "engine_inv e \<Longrightarrow> distinct (dh_used (fst (history_for k e)))"
  by (cases "map_of (pe_history e) k")
    (auto simp: history_for_def Let_def empty_history_def engine_inv_def od_all_def dest!: map_of_SomeD)

lemma history_bounded: "engine_inv e \<Longrightarrow> length (dh_used (fst (history_for k e))) \<le> pc_max_evidence_ids_per_device (pe_config e)"
  by (cases "map_of (pe_history e) k")
    (auto simp: history_for_def Let_def empty_history_def engine_inv_def od_all_def dest!: map_of_SomeD)

lemma engine_inv_decide:
  assumes "engine_inv e" "decide is_protected uuid fmt b mode now e = Some (ds, e')"
  shows "engine_inv e' \<and> pe_config e' = pe_config e \<and> pe_table e' = pe_table e"
proof (cases "eb_evidence b = [] \<or> is_protected (eb_target b)")
  case True
  with assms show ?thesis by (simp add: decide_def)
next
  case False
  then show ?thesis
    using decide_state [OF assms(2)] engine_inv_history_for [OF assms(1)] engine_inv_store remember_bound
      distinct_remember [OF history_distinct [OF assms(1)]]
    by (metis history_for_params store_history_params)
qed

lemma record_enforced_state:
  "record_enforced d had_d1 e = e \<or>
   (\<exists>h. dh_used h = dh_used (fst (history_for (device_key (pd_target d)) e))
      \<and> record_enforced d had_d1 e = store_history (device_key (pd_target d)) h (touch_device (device_key (pd_target d)) e))"
proof (cases "had_d1 \<and> enforcing (pd_action d)")
  case True
  let ?k = "device_key (pd_target d)"
  let ?h = "(fst (history_for ?k e))\<lparr>dh_d1_strikes := dh_d1_strikes (fst (history_for ?k e)) + 1\<rparr>"
  have "record_enforced d had_d1 e = store_history ?k ?h (touch_device ?k e)"
    using True by (simp add: record_enforced_def Let_def split: prod.splits)
  then show ?thesis by (intro disjI2 exI [of _ ?h]) simp
next
  case False
  then show ?thesis unfolding record_enforced_def by (simp only: if_False simp_thms)
qed

lemma engine_inv_enforced:
  assumes "engine_inv e"
  shows "engine_inv (record_enforced d had_d1 e) \<and> pe_config (record_enforced d had_d1 e) = pe_config e
    \<and> pe_table (record_enforced d had_d1 e) = pe_table e"
  using record_enforced_state [of d had_d1 e]
proof (elim disjE exE conjE)
  fix h assume h: "dh_used h = dh_used (fst (history_for (device_key (pd_target d)) e))"
    "record_enforced d had_d1 e = store_history (device_key (pd_target d)) h (touch_device (device_key (pd_target d)) e)"
  have "engine_inv (store_history (device_key (pd_target d)) h (touch_device (device_key (pd_target d)) e))"
    by (rule engine_inv_store) (simp_all add: engine_inv_history_for history_distinct history_bounded assms h(1))
  then show ?thesis using h(2) by simp
qed (simp add: assms)

text \<open>
  A run of the engine: decision passes for any devices, each with its own bundle, enforcement mode, time and
  protected targets, and the strikes the runtime records for decisions that were enforced, in any order.
\<close>

datatype engine_op =
    Pass "rule_target \<Rightarrow> bool" "nat \<Rightarrow> string" evidence_bundle enforcement_mode datetime
  | Enforced policy_decision bool

fun engine_step :: "float_format \<Rightarrow> engine_op \<Rightarrow> policy_engine \<Rightarrow> policy_engine option" where
  "engine_step fmt (Pass is_protected uuid b mode now) e = map_option snd (decide is_protected uuid fmt b mode now e)"
| "engine_step fmt (Enforced d had_d1) e = Some (record_enforced d had_d1 e)"

fun engine_run :: "float_format \<Rightarrow> engine_op list \<Rightarrow> policy_engine \<Rightarrow> policy_engine option" where
  "engine_run fmt [] e = Some e"
| "engine_run fmt (x # xs) e = Option.bind (engine_step fmt x e) (engine_run fmt xs)"

fun op_device :: "engine_op \<Rightarrow> device_id" where
  "op_device (Pass is_protected uuid b mode now) = device_key (eb_target b)"
| "op_device (Enforced d had_d1) = device_key (pd_target d)"

fun op_ids :: "device_id \<Rightarrow> engine_op \<Rightarrow> string set" where
  "op_ids k (Pass is_protected uuid b mode now) = (if device_key (eb_target b) = k then evidence_id ` set (eb_evidence b) else {})"
| "op_ids k (Enforced d had_d1) = {}"

text \<open>The other devices a run involves, and the evidence ids it carries for one device.\<close>

definition other_devices :: "device_id \<Rightarrow> engine_op list \<Rightarrow> device_id set" where
  "other_devices k xs = op_device ` set xs - {k}"

definition run_ids :: "device_id \<Rightarrow> engine_op list \<Rightarrow> string set" where
  "run_ids k xs = (\<Union>x \<in> set xs. op_ids k x)"

text \<open>The bundle carries an id its device has not used, so the pass remembers the whole bundle.\<close>

definition brings_new :: "evidence_bundle \<Rightarrow> policy_engine \<Rightarrow> bool" where
  "brings_new b e \<longleftrightarrow> new_evidence_ids (fst (history_for (device_key (eb_target b)) e)) (bundle_ids b) \<noteq> []"

lemma finite_op_ids: "finite (op_ids k x)"
  by (cases x) auto

lemma finite_run [simp]: "finite (other_devices k xs)" "finite (run_ids k xs)"
  by (simp_all add: other_devices_def run_ids_def finite_op_ids)

lemma engine_inv_step:
  "engine_inv e \<Longrightarrow> engine_step fmt x e = Some e' \<Longrightarrow> engine_inv e' \<and> pe_config e' = pe_config e"
  using engine_inv_decide engine_inv_enforced by (cases x) fastforce+

lemma engine_inv_run:
  "engine_inv e \<Longrightarrow> engine_run fmt xs e = Some e' \<Longrightarrow> engine_inv e' \<and> pe_config e' = pe_config e"
proof (induction xs arbitrary: e)
  case (Cons x xs)
  then obtain e1 where "engine_step fmt x e = Some e1" "engine_run fmt xs e1 = Some e'" by (auto split: bind_splits)
  then show ?case using Cons.IH engine_inv_step [OF Cons.prems(1)] by metis
qed simp

lemma engine_run_append:
  "engine_run fmt (xs @ ys) e = Option.bind (engine_run fmt xs e) (engine_run fmt ys)"
proof (induction xs arbitrary: e)
  case (Cons x xs)
  then show ?case by (cases "engine_step fmt x e") auto
qed simp

text \<open>
  \<open>remembers k A i S e\<close>: since the device \<open>k\<close> was last used only devices of \<open>A\<close> were, and since its id \<open>i\<close> was
  last remembered only ids of \<open>S\<close> were.
\<close>

definition remembers :: "device_id \<Rightarrow> device_id set \<Rightarrow> string \<Rightarrow> string set \<Rightarrow> policy_engine \<Rightarrow> bool" where
  "remembers k A i S e \<longleftrightarrow> engine_inv e \<and> recent_enough k A (map fst (pe_history e))
     \<and> (\<exists>h. map_of (pe_history e) k = Some h \<and> recent_enough i S (dh_used h))"

lemma recent_enough_mem: "recent_enough k A ks \<Longrightarrow> k \<in> set ks"
  by (auto simp: recent_enough_def)

lemma history_for_lookup:
  assumes "k \<in> set (map fst (pe_history (touch_device j e)))" "map_of (pe_history e) k = Some h" "engine_inv e"
  shows "map_of (pe_history (touch_device j e)) k = Some h"
proof (cases "map_of (pe_history e) j")
  case None
  then have jk: "j \<noteq> k" using assms(2) by auto
  let ?d = "AList.update j empty_history (pe_history e)"
  have "map_of ?d k = Some h" "od_distinct ?d" using assms(2,3) jk by (auto simp: engine_inv_def)
  moreover have "map_of (tl d) k = Some h" if "map_of d k = Some h" "k \<in> fst ` set (tl d)" "od_distinct d"
    for d :: "(device_id, device_history) odict"
    using that by (cases d) (auto split: if_splits)
  moreover have "pe_history (touch_device j e) =
      (if pc_max_tracked_devices (pe_config e) < length ?d then tl ?d else ?d)"
    using None by (simp add: history_for_def Let_def)
  ultimately show ?thesis
    using assms(1) by (metis set_map)
next
  case (Some h')
  with assms(2) show ?thesis by (simp add: history_for_def)
qed

lemma history_for_fst: "map_of (pe_history e) k = Some h \<Longrightarrow> fst (history_for k e) = h"
  by (simp add: history_for_def)

lemma remembers_touch:
  assumes "remembers k A i S e" "j \<in> insert k A" "finite A" "card A < pc_max_tracked_devices (pe_config e)"
  shows "remembers k A i S (touch_device j e)"
proof -
  have inv: "engine_inv e" using assms(1) by (simp add: remembers_def)
  have re: "recent_enough k A (map fst (pe_history (touch_device j e)))"
    using assms devices.recent_enough_run [of e k A "[j]"] by (auto simp: remembers_def)
  obtain h where h: "map_of (pe_history e) k = Some h" "recent_enough i S (dh_used h)"
    using assms(1) by (auto simp: remembers_def)
  from history_for_lookup [OF recent_enough_mem [OF re] h(1) inv] h(2) re
  show ?thesis using engine_inv_history_for [OF inv] by (auto simp: remembers_def)
qed

lemma remembers_store:
  assumes "remembers k A i S e" "engine_inv (store_history j h e)" "j = k \<Longrightarrow> recent_enough i S (dh_used h)"
  shows "remembers k A i S (store_history j h e)"
  using assms by (auto simp: remembers_def store_history_lookup)

lemma remembers_history: "remembers k A i S e \<Longrightarrow> recent_enough i S (dh_used (fst (history_for k e)))"
  using history_for_fst by (auto simp: remembers_def)

lemma remembers_decide:
  assumes "remembers k A i S e" "device_key (eb_target b) \<in> insert k A" "finite A"
    and "card A < pc_max_tracked_devices (pe_config e)"
    and "device_key (eb_target b) = k \<Longrightarrow> evidence_id ` set (eb_evidence b) \<subseteq> S" "finite S"
    and "card (insert i S) \<le> pc_max_evidence_ids_per_device (pe_config e)"
    and "decide is_protected uuid fmt b mode now e = Some (ds, e')"
  shows "remembers k A i S e'"
proof (cases "eb_evidence b = [] \<or> is_protected (eb_target b)")
  case True
  with assms show ?thesis by (simp add: decide_def)
next
  case False
  let ?j = "device_key (eb_target b)"
  let ?h = "remember (pc_max_evidence_ids_per_device (pe_config e)) (bundle_ids b) (fst (history_for ?j e))"
  have inv: "engine_inv e" using assms(1) by (simp add: remembers_def)
  have t: "remembers k A i S (touch_device ?j e)" using assms(1-4) by (rule remembers_touch)
  have used: "recent_enough i S (dh_used ?h)" if "?j = k"
    using that assms(5) [OF that] assms(6,7) remembers_history [OF assms(1)] history_distinct [OF inv, of ?j]
    by (intro recent_enough_remember) (auto simp: distinct_bundle_ids set_bundle_ids)
  have "e' = touch_device ?j e \<or> e' = store_history ?j ?h (touch_device ?j e)"
    using decide_state [OF assms(8)] False by metis
  then show ?thesis
    using t remembers_store [OF t _ used] engine_inv_decide [OF inv assms(8)] by blast
qed

lemma remembers_step:
  assumes "remembers k A i S e" "op_device x \<in> insert k A" "finite A" "card A < pc_max_tracked_devices (pe_config e)"
    and "op_ids k x \<subseteq> S" "finite S" "card (insert i S) \<le> pc_max_evidence_ids_per_device (pe_config e)"
    and "engine_step fmt x e = Some e'"
  shows "remembers k A i S e'"
proof (cases x)
  case (Pass is_protected uuid b mode now)
  then obtain ds where "decide is_protected uuid fmt b mode now e = Some (ds, e')" using assms(8) by auto
  from remembers_decide [OF assms(1) _ assms(3,4) _ assms(6,7) this] show ?thesis
    using assms(2,5) Pass by (simp split: if_splits)
next
  case (Enforced d had_d1)
  let ?j = "device_key (pd_target d)"
  have inv: "engine_inv e" using assms(1) by (simp add: remembers_def)
  have t: "remembers k A i S (touch_device ?j e)" using assms(1-4) Enforced by (intro remembers_touch) auto
  have e': "e' = record_enforced d had_d1 e" using assms(8) Enforced by simp
  show ?thesis using record_enforced_state [of d had_d1 e]
  proof (elim disjE exE conjE)
    fix h assume h: "dh_used h = dh_used (fst (history_for ?j e))" "record_enforced d had_d1 e = store_history ?j h (touch_device ?j e)"
    have "recent_enough i S (dh_used h)" if "?j = k" using that remembers_history [OF assms(1)] h(1) by simp
    then show ?thesis using remembers_store [OF t, of ?j h] engine_inv_enforced [OF inv, of d had_d1] e' h(2) by simp
  qed (use assms(1) e' in simp)
qed

lemma remembers_run:
  assumes "remembers k A i S e" "other_devices k xs \<subseteq> A" "finite A" "card A < pc_max_tracked_devices (pe_config e)"
    and "run_ids k xs \<subseteq> S" "finite S" "card (insert i S) \<le> pc_max_evidence_ids_per_device (pe_config e)"
    and "engine_run fmt xs e = Some e'"
  shows "remembers k A i S e'"
  using assms
proof (induction xs arbitrary: e)
  case (Cons x xs)
  then obtain e1 where e1: "engine_step fmt x e = Some e1" "engine_run fmt xs e1 = Some e'" by (auto split: bind_splits)
  have "remembers k A i S e1"
    by (rule remembers_step [OF Cons.prems(1) _ Cons.prems(3,4) _ Cons.prems(6,7) e1(1)])
      (use Cons.prems(2,5) in \<open>auto simp: other_devices_def run_ids_def\<close>)
  moreover have "pe_config e1 = pe_config e"
    using engine_inv_step [OF _ e1(1)] Cons.prems(1) by (simp add: remembers_def)
  ultimately show ?case
    using Cons.prems(2-7) e1(2) by (intro Cons.IH) (auto simp: other_devices_def run_ids_def)
qed simp

lemma brings_new_evidence: "brings_new b e \<Longrightarrow> eb_evidence b \<noteq> []"
  by (auto simp: brings_new_def bundle_ids_def new_evidence_ids_def)

lemma remembers_after_decide:
  assumes "engine_inv e" "decide is_protected uuid fmt b mode now e = Some (ds, e')"
    and "\<not> is_protected (eb_target b)" "brings_new b e"
    and "i \<in> evidence_id ` set (eb_evidence b)" "evidence_id ` set (eb_evidence b) \<subseteq> S" "finite S"
    and "card (insert i S) \<le> pc_max_evidence_ids_per_device (pe_config e)"
  shows "remembers (device_key (eb_target b)) A i S e'"
proof -
  let ?k = "device_key (eb_target b)"
  let ?h = "remember (pc_max_evidence_ids_per_device (pe_config e)) (bundle_ids b) (fst (history_for ?k e))"
  have inv': "engine_inv e'" using engine_inv_decide [OF assms(1,2)] by simp
  have "0 < pc_max_tracked_devices (pe_config e)" using assms(1) by (simp add: engine_inv_def)
  then have re: "recent_enough ?k A (map fst (pe_history (touch_device ?k e)))"
    by (simp add: keys_history_for assms(1) recent_enough_touch_self)
  then have present: "map_of (pe_history (touch_device ?k e)) ?k \<noteq> None"
    using recent_enough_mem [OF re] by (simp add: map_of_None_iff_key)
  have e': "e' = store_history ?k ?h (touch_device ?k e)"
    using decide_state [OF assms(2) brings_new_evidence [OF assms(4)] assms(3)] assms(4)
    by (auto simp: brings_new_def new_evidence_ids_def filter_empty_conv)
  have "recent_enough i S (dh_used ?h)"
    using assms(5-8) history_distinct [OF assms(1)]
    by (intro recent_enough_remember) (auto simp: distinct_bundle_ids set_bundle_ids)
  then show ?thesis
    using re inv' present unfolding e' by (auto simp: remembers_def store_history_lookup simp del: not_None_eq)
qed

lemma decide_remembered:
  assumes "\<And>i. i \<in> evidence_id ` set (eb_evidence b) \<Longrightarrow> \<exists>A S. remembers (device_key (eb_target b)) A i S e"
  shows "\<exists>e'. decide is_protected uuid fmt b mode now e = Some ([], e')"
proof (cases "eb_evidence b = []")
  case False
  have "i \<in> set (dh_used (fst (history_for (device_key (eb_target b)) e)))" if "i \<in> evidence_id ` set (eb_evidence b)" for i
    using assms [OF that] remembers_history recent_enough_mem by metis
  then have "new_evidence_ids (fst (history_for (device_key (eb_target b)) e)) (bundle_ids b) = []"
    by (auto simp: new_evidence_ids_def filter_empty_conv set_bundle_ids)
  then show ?thesis by (auto simp: decide_def Let_def split: prod.splits)
qed (simp add: decide_def)

text \<open>The pass on a bundle, any run after it within the memory, and then a bundle with no further id.\<close>

lemma remembers_since_pass:
  assumes "engine_inv e" "decide is_protected uuid fmt b mode now e = Some (ds, e1)" "\<not> is_protected (eb_target b)" "brings_new b e"
    and "engine_run fmt xs e1 = Some e2" "device_key (eb_target b) = k"
    and "card (other_devices k xs) < pc_max_tracked_devices (pe_config e)"
    and "card (evidence_id ` set (eb_evidence b) \<union> run_ids k xs) \<le> pc_max_evidence_ids_per_device (pe_config e)"
    and "i \<in> evidence_id ` set (eb_evidence b)"
  shows "remembers k (other_devices k xs) i (evidence_id ` set (eb_evidence b) \<union> run_ids k xs) e2"
proof -
  let ?S = "evidence_id ` set (eb_evidence b) \<union> run_ids k xs"
  have S: "finite ?S" "insert i ?S = ?S" using assms(9) by auto
  have cfg: "pe_config e1 = pe_config e" using engine_inv_decide [OF assms(1,2)] by simp
  have "remembers k (other_devices k xs) i ?S e1"
    using remembers_after_decide [OF assms(1-4,9), of ?S] assms(6,8) S by simp
  then show ?thesis
    by (rule remembers_run [OF _ _ _ _ _ _ _ assms(5)]) (use assms(7,8) cfg S in auto)
qed

lemma decided_once:
  assumes "policy_config_ok c" "engine_run fmt ys (new_policy_engine table c) = Some e"
    and "decide is_protected uuid fmt b mode now e = Some (ds, e1)" "\<not> is_protected (eb_target b)" "brings_new b e"
    and "engine_run fmt xs e1 = Some e2" "device_key (eb_target b) = k"
    and "card (other_devices k xs) < pc_max_tracked_devices c"
    and "card (evidence_id ` set (eb_evidence b) \<union> run_ids k xs) \<le> pc_max_evidence_ids_per_device c"
    and "device_key (eb_target b') = k" "evidence_id ` set (eb_evidence b') \<subseteq> evidence_id ` set (eb_evidence b)"
  shows "\<exists>e3. decide is_protected' uuid' fmt b' mode' now' e2 = Some ([], e3)"
proof (rule decide_remembered)
  fix i assume "i \<in> evidence_id ` set (eb_evidence b')"
  then have i: "i \<in> evidence_id ` set (eb_evidence b)" using assms(11) by blast
  have e: "engine_inv e" "pe_config e = c"
    using engine_inv_run [OF engine_inv_new [OF assms(1)] assms(2)] by (simp_all add: new_policy_engine_def)
  show "\<exists>A S. remembers (device_key (eb_target b')) A i S e2"
    using remembers_since_pass [OF e(1) assms(3-7) _ _ i] assms(8-10) e(2) by auto
qed

lemma image_covered: "A \<subseteq> B \<union> C \<Longrightarrow> f ` B \<subseteq> f ` D \<Longrightarrow> D \<subseteq> C \<Longrightarrow> f ` A \<subseteq> f ` C"
  by blast

text \<open>
  \<open>already_decided fmt k i xs e\<close>: in the run \<open>xs\<close> from \<open>e\<close>, some pass for the device \<open>k\<close> brought it something new
  in a bundle with \<open>i\<close>, and since then fewer other devices than are tracked were involved and that bundle together
  with everything later carried for \<open>k\<close> fits in the evidence memory of a device.
\<close>

definition already_decided :: "float_format \<Rightarrow> device_id \<Rightarrow> string \<Rightarrow> engine_op list \<Rightarrow> policy_engine \<Rightarrow> bool" where
  "already_decided fmt k i xs e \<longleftrightarrow> (\<exists>pre is_protected uuid b mode now post e0.
     xs = pre @ Pass is_protected uuid b mode now # post \<and> engine_run fmt pre e = Some e0
     \<and> device_key (eb_target b) = k \<and> \<not> is_protected (eb_target b) \<and> brings_new b e0
     \<and> i \<in> evidence_id ` set (eb_evidence b)
     \<and> card (other_devices k post) < pc_max_tracked_devices (pe_config e)
     \<and> card (evidence_id ` set (eb_evidence b) \<union> run_ids k post) \<le> pc_max_evidence_ids_per_device (pe_config e))"

lemma already_decided_remembers:
  assumes "engine_inv e" "engine_run fmt xs e = Some e'" "already_decided fmt k i xs e"
  shows "\<exists>A S. remembers k A i S e'"
proof -
  obtain pre is_protected uuid b mode now post e0 where xs: "xs = pre @ Pass is_protected uuid b mode now # post"
    and pre: "engine_run fmt pre e = Some e0"
    and b: "device_key (eb_target b) = k" "\<not> is_protected (eb_target b)" "brings_new b e0" "i \<in> evidence_id ` set (eb_evidence b)"
    and room: "card (other_devices k post) < pc_max_tracked_devices (pe_config e)"
      "card (evidence_id ` set (eb_evidence b) \<union> run_ids k post) \<le> pc_max_evidence_ids_per_device (pe_config e)"
    using assms(3) unfolding already_decided_def by blast
  obtain ds e1 where d: "decide is_protected uuid fmt b mode now e0 = Some (ds, e1)" "engine_run fmt post e1 = Some e'"
    using assms(2) pre by (auto simp: xs engine_run_append split: bind_splits)
  have e0: "engine_inv e0" "pe_config e0 = pe_config e" using engine_inv_run [OF assms(1) pre] by auto
  show ?thesis using remembers_since_pass [OF e0(1) d(1) b(2,3) d(2) b(1) _ _ b(4)] room e0(2) by auto
qed

text \<open>
  C32: Evidence acts once. Take any run of the engine since it started: passes for any devices, with any bundles, modes,
  times and protected targets, and recorded strikes, in any order. A bundle for a device each of whose evidence ids was
  carried to the device by an earlier pass produces no decision, in any mode and at any time, provided the engine's
  bounded memory reaches back to that pass: the pass brought the device at least one id it had not used (so its ids were
  remembered), fewer other devices than \<open>max_tracked_devices\<close> were involved since, and the ids of that pass and of every
  later pass for the device number at most \<open>max_evidence_ids_per_device\<close>.
\<close>

theorem repeated_evidence_never_acts:
  assumes "policy_config_ok c" "engine_run fmt xs (new_policy_engine table c) = Some e"
    and "\<forall>i \<in> evidence_id ` set (eb_evidence b). already_decided fmt (device_key (eb_target b)) i xs (new_policy_engine table c)"
  shows "\<exists>e'. decide is_protected uuid fmt b mode now e = Some ([], e')"
  using already_decided_remembers [OF engine_inv_new [OF assms(1)] assms(2)] assms(3) by (intro decide_remembered) blast

text \<open>Decided on, then the strike recorded and a pass for another device: the same bundle again decides nothing.\<close>

definition other_bundle :: evidence_bundle where
  "other_bundle = example_bundle\<lparr>eb_target := example_device\<lparr>rt_mac := None\<rparr>\<rparr>"

theorem repeated_evidence_never_acts_witness:
  "\<exists>d e1 e2 e3. decide (\<lambda>_. False) (\<lambda>_. ''id'') example_format example_bundle EM_ACTIVE 0 example_engine = Some ([d], e1)
    \<and> engine_run example_format [Enforced d True, Pass (\<lambda>_. False) (\<lambda>_. ''id'') other_bundle EM_ACTIVE 3] e1 = Some e2
    \<and> decide (\<lambda>_. False) (\<lambda>_. ''id'') example_format example_bundle EM_ACTIVE 7 e2 = Some ([], e3)"
proof -
  let ?k = "device_key (eb_target example_bundle)" and ?c = default_policy_config
  have start: "example_engine = new_policy_engine shipped_table ?c" and c: "policy_config_ok ?c"
    by (simp_all add: example_engine_def policy_config_ok_def default_policy_config_def)
  obtain d e1 where res: "decide (\<lambda>_. False) (\<lambda>_. ''id'') example_format example_bundle EM_ACTIVE 0 example_engine
      = Some ([d], e1)"
    using example_decide by blast
  note inv1 = engine_inv_decide [OF engine_inv_new [OF c] res [unfolded start]]
  note inv2 = engine_inv_enforced [OF conjunct1 [OF inv1], of d True]
  obtain ds e2 where other: "decide (\<lambda>_. False) (\<lambda>_. ''id'') example_format other_bundle EM_ACTIVE 3 (record_enforced d True e1) = Some (ds, e2)"
    using decide_total_and_well_formed [of "record_enforced d True e1" "\<lambda>_. ''id''"] inv1 inv2 c shipped_table_valid
    unfolding new_policy_engine_def by (metis list.distinct(1) policy_engine.select_convs(1,2))
  let ?post = "[Enforced d True, Pass (\<lambda>_. False) (\<lambda>_. ''id'') other_bundle EM_ACTIVE 3]"
  let ?run = "Pass (\<lambda>_. False) (\<lambda>_. ''id'') example_bundle EM_ACTIVE 0 # ?post"
  have run: "engine_run example_format ?post e1 = Some e2" using other by simp
  have full: "engine_run example_format ?run (new_policy_engine shipped_table ?c) = Some e2" using res run start by simp
  have "already_decided example_format ?k i ?run (new_policy_engine shipped_table ?c)"
    if "i \<in> evidence_id ` set (eb_evidence example_bundle)" for i
    unfolding already_decided_def
  proof (intro exI conjI)
    show "?run = [] @ Pass (\<lambda>_. False) (\<lambda>_. ''id'') example_bundle EM_ACTIVE 0 # ?post" by simp
    show "brings_new example_bundle (new_policy_engine shipped_table ?c)"
      by (simp add: brings_new_def history_for_def example_bundle_def example_defs empty_history_def
          new_evidence_ids_def bundle_ids_def Let_def)
    have "other_devices ?k ?post \<subseteq> {device_key (pd_target d), device_key (eb_target other_bundle)}"
      by (auto simp: other_devices_def)
    from card_mono [OF _ this] have "card (other_devices ?k ?post) \<le> card {device_key (pd_target d), device_key (eb_target other_bundle)}"
      by simp
    also have "\<dots> \<le> 2" by (simp add: card_insert_if)
    finally show "card (other_devices ?k ?post) < pc_max_tracked_devices (pe_config (new_policy_engine shipped_table ?c))"
      by (simp add: example_defs)
    have "run_ids ?k ?post = {}"
      by (simp add: run_ids_def other_bundle_def example_bundle_def example_device_def device_key_def)
    then show "card (evidence_id ` set (eb_evidence example_bundle) \<union> run_ids ?k ?post)
        \<le> pc_max_evidence_ids_per_device (pe_config (new_policy_engine shipped_table ?c))"
      by (simp add: example_bundle_def example_defs)
  qed (use that in simp_all)
  then have "\<exists>e3. decide (\<lambda>_. False) (\<lambda>_. ''id'') example_format example_bundle EM_ACTIVE 7 e2 = Some ([], e3)"
    by (intro repeated_evidence_never_acts [OF c full] ballI)
  then show ?thesis using res run by blast
qed

end
