(* ===== verification/Threat_Engine.thy ===== *)
theory Threat_Engine
  imports Models Text Lru
begin

section \<open>Version 1 scoring, assessment and decision\<close>

text \<open>
  \<open>engine/scoring.py\<close>, \<open>engine/threat.py\<close> and \<open>engine/decision.py\<close>, with \<open>ThreatConfig\<close> of
  \<open>config/models.py\<close> and \<open>is_attack_label\<close> of \<open>ml/labels.py\<close>: evidence is scored, the score gives a
  level, the level gives an action, and two gates (the interim ML ceiling and the evidence-maturity
  gate) can only lower it. Text formatting (\<open>repr\<close>, \<open>:.0%\<close>, \<open>:.3f\<close>) and the \<open>uuid4\<close> of a new object
  are parameters.
\<close>

subsection \<open>Configuration\<close>

record threat_config =
  tc_low_threshold :: real
  tc_medium_threshold :: real
  tc_high_threshold :: real
  tc_critical_threshold :: real
  tc_known_attack_weight :: real
  tc_anomaly_weight :: real
  tc_behavior_weight :: real
  tc_behavior_pattern_points :: "(behavior_pattern_type \<times> real) list"
  tc_protocol_signature_weight :: real
  tc_evidence_maturity_consistency_windows :: nat
  tc_max_tracked_maturity_sources :: nat
  tc_ml_evidence_can_enforce :: bool

definition percent :: "real \<Rightarrow> bool" where
  "percent x \<longleftrightarrow> 0 \<le> x \<and> x \<le> 100"

definition check_ascending :: "threat_config \<Rightarrow> bool" where
  "check_ascending c \<longleftrightarrow> tc_low_threshold c < tc_medium_threshold c
     \<and> tc_medium_threshold c < tc_high_threshold c \<and> tc_high_threshold c < tc_critical_threshold c"

definition all_patterns :: "behavior_pattern_type list" where
  "all_patterns = [BP_REPEATED_CONNECTIONS, BP_HIGH_FREQUENCY, BP_BURST, BP_PERSISTENCE,
     BP_DESTINATION_DIVERSITY, BP_REPEATED_FAILURES, BP_TEMPORAL_PATTERN, BP_SCANNING,
     BP_SLOW_RATE_DOS, BP_FLOOD]"

definition check_pattern_points :: "threat_config \<Rightarrow> bool" where
  "check_pattern_points c \<longleftrightarrow>
     list_all (\<lambda>p. map_of (tc_behavior_pattern_points c) p \<noteq> None) all_patterns
     \<and> list_all (\<lambda>(p, v). percent v) (tc_behavior_pattern_points c)"

definition threat_config_ok :: "threat_config \<Rightarrow> bool" where
  "threat_config_ok c \<longleftrightarrow> percent (tc_low_threshold c) \<and> percent (tc_medium_threshold c)
     \<and> percent (tc_high_threshold c) \<and> percent (tc_critical_threshold c)
     \<and> percent (tc_known_attack_weight c) \<and> percent (tc_anomaly_weight c)
     \<and> percent (tc_behavior_weight c) \<and> percent (tc_protocol_signature_weight c)
     \<and> 0 < tc_evidence_maturity_consistency_windows c \<and> 0 < tc_max_tracked_maturity_sources c
     \<and> check_ascending c \<and> check_pattern_points c"

text \<open>The field defaults.\<close>

definition default_threat_config :: threat_config where
  "default_threat_config =
     \<lparr>tc_low_threshold = 25, tc_medium_threshold = 50, tc_high_threshold = 75,
      tc_critical_threshold = 90, tc_known_attack_weight = 60, tc_anomaly_weight = 15,
      tc_behavior_weight = 80,
      tc_behavior_pattern_points =
        [(BP_SCANNING, 55), (BP_REPEATED_FAILURES, 45), (BP_SLOW_RATE_DOS, 45), (BP_FLOOD, 80),
         (BP_BURST, 10), (BP_HIGH_FREQUENCY, 10), (BP_REPEATED_CONNECTIONS, 5),
         (BP_TEMPORAL_PATTERN, 10), (BP_DESTINATION_DIVERSITY, 5), (BP_PERSISTENCE, 0)],
      tc_protocol_signature_weight = 75, tc_evidence_maturity_consistency_windows = 3,
      tc_max_tracked_maturity_sources = 10000, tc_ml_evidence_can_enforce = False\<rparr>"

subsection \<open>Scoring (scoring.py, labels.py)\<close>

definition is_attack_label :: "string \<Rightarrow> bool" where
  "is_attack_label label \<longleftrightarrow> map ascii_lower (strip label) \<notin> {''benign'', ''normal''}"

record score_breakdown =
  sc_total :: real
  sc_known_attack_contribution :: real
  sc_anomaly_contribution :: real
  sc_behavior_contribution :: real
  sc_protocol_signature_contribution :: real

definition non_ml_total :: "score_breakdown \<Rightarrow> real" where
  "non_ml_total b = min 100 (sc_behavior_contribution b + sc_protocol_signature_contribution b)"

text \<open>
  \<open>config.behavior_pattern_points[pattern]\<close>: the configuration check prices every pattern, so the
  missing-key branch is never reached.
\<close>

definition pattern_points :: "threat_config \<Rightarrow> behavior_pattern_type \<Rightarrow> real" where
  "pattern_points c p = (case map_of (tc_behavior_pattern_points c) p of Some v \<Rightarrow> v | None \<Rightarrow> 0)"

definition score_evidence ::
    "threat_config \<Rightarrow> known_evidence option \<Rightarrow> anomaly_evidence option \<Rightarrow> behavior_assessment option
       \<Rightarrow> protocol_signature_evidence option \<Rightarrow> score_breakdown" where
  "score_evidence c known anomaly behavior signature =
     (let k = (case known of
                 Some e \<Rightarrow> if is_attack_label (ke_predicted_class e)
                           then tc_known_attack_weight c * ke_confidence e else 0
               | None \<Rightarrow> 0);
          a = (case anomaly of
                 Some e \<Rightarrow> if ae_is_anomaly e then tc_anomaly_weight c else 0
               | None \<Rightarrow> 0);
          b = (case behavior of
                 Some e \<Rightarrow> if ba_detected_patterns e \<noteq> []
                           then min (tc_behavior_weight c)
                                  (sum_list (map (pattern_points c) (ba_detected_patterns e)))
                           else 0
               | None \<Rightarrow> 0);
          p = (case signature of
                 Some e \<Rightarrow> tc_protocol_signature_weight c * ps_confidence e
               | None \<Rightarrow> 0)
      in \<lparr>sc_total = min 100 (k + a + b + p), sc_known_attack_contribution = k,
          sc_anomaly_contribution = a, sc_behavior_contribution = b,
          sc_protocol_signature_contribution = p\<rparr>)"

subsection \<open>Assessment (threat.py)\<close>

definition determine_level :: "real \<Rightarrow> threat_config \<Rightarrow> threat_level" where
  "determine_level score c =
     (if tc_critical_threshold c \<le> score then TL_CRITICAL
      else if tc_high_threshold c \<le> score then TL_HIGH
      else if tc_medium_threshold c \<le> score then TL_MEDIUM
      else TL_LOW)"

record explain_format =
  xf_repr :: "string \<Rightarrow> string"
  xf_percent :: "real \<Rightarrow> string"
  xf_3f :: "real \<Rightarrow> string"

definition explain ::
    "explain_format \<Rightarrow> score_breakdown \<Rightarrow> known_evidence option \<Rightarrow> anomaly_evidence option
       \<Rightarrow> behavior_assessment option \<Rightarrow> protocol_signature_evidence option \<Rightarrow> string \<times> string list" where
  "explain xf b known anomaly behavior signature =
     (let k = (case known of
                 Some e \<Rightarrow> if 0 < sc_known_attack_contribution b
                   then [(''classified as '' @ xf_repr xf (ke_predicted_class e) @ '' with ''
                            @ xf_percent xf (ke_confidence e) @ '' confidence'',
                          [''known_evidence:'' @ ke_predicted_class e])] else []
               | None \<Rightarrow> []);
          a = (case anomaly of
                 Some e \<Rightarrow> if 0 < sc_anomaly_contribution b
                   then [(''anomalous traffic pattern (score='' @ xf_3f xf (ae_anomaly_score e) @ '')'',
                          [''anomaly_evidence:anomalous''])] else []
               | None \<Rightarrow> []);
          v = (case behavior of
                 Some e \<Rightarrow> if 0 < sc_behavior_contribution b
                   then [(''behavioral patterns: '' @ join '', '' (map behavior_pattern_value (ba_detected_patterns e)),
                          map (\<lambda>p. ''behavior:'' @ behavior_pattern_value p) (ba_detected_patterns e))] else []
               | None \<Rightarrow> []);
          p = (case signature of
                 Some e \<Rightarrow> if 0 < sc_protocol_signature_contribution b
                   then [(''protocol signature match: '' @ ps_detail e,
                          [''protocol_signature:'' @ ps_signature e])] else []
               | None \<Rightarrow> []);
          parts = k @ a @ v @ p
      in (if parts \<noteq> [] then join ''; '' (map fst parts) else ''no significant threat indicators observed'',
          concat (map snd parts)))"

definition overall_confidence ::
    "known_evidence option \<Rightarrow> anomaly_evidence option \<Rightarrow> behavior_assessment option
       \<Rightarrow> protocol_signature_evidence option \<Rightarrow> real" where
  "overall_confidence known anomaly behavior signature =
     fold max
       ((case known of Some e \<Rightarrow> if is_attack_label (ke_predicted_class e) then [ke_confidence e] else [] | None \<Rightarrow> [])
        @ (case anomaly of Some e \<Rightarrow> if ae_is_anomaly e then [7/10] else [] | None \<Rightarrow> [])
        @ (case behavior of Some e \<Rightarrow> if ba_detected_patterns e \<noteq> [] then [ba_confidence e] else [] | None \<Rightarrow> [])
        @ (case signature of Some e \<Rightarrow> [ps_confidence e] | None \<Rightarrow> [])) 0"

definition assess_threat ::
    "string \<Rightarrow> explain_format \<Rightarrow> threat_config \<Rightarrow> string \<Rightarrow> ipv4_address \<Rightarrow> ipv4_address
       \<Rightarrow> known_evidence option \<Rightarrow> anomaly_evidence option \<Rightarrow> behavior_assessment option \<Rightarrow> datetime
       \<Rightarrow> protocol_signature_evidence option \<Rightarrow> threat_assessment" where
  "assess_threat uuid xf c flow_id src dst known anomaly behavior assessed_at signature =
     (let b = score_evidence c known anomaly behavior signature;
          (explanation, contributing) = explain xf b known anomaly behavior signature
      in \<lparr>ta_id = uuid, ta_flow_id = flow_id, ta_source_ip = src, ta_destination_ip = dst,
          ta_threat_score = sc_total b, ta_threat_level = determine_level (sc_total b) c,
          ta_confidence = overall_confidence known anomaly behavior signature,
          ta_enforceable_level =
            (if tc_ml_evidence_can_enforce c then None else Some (determine_level (non_ml_total b) c)),
          ta_known_evidence = known, ta_anomaly_evidence = anomaly,
          ta_behavior_assessment = behavior, ta_protocol_signature_evidence = signature,
          ta_explanation = explanation, ta_contributing_evidence = contributing,
          ta_assessed_at = assessed_at\<rparr>)"

subsection \<open>Decision (decision.py)\<close>

fun action_by_level :: "threat_level \<Rightarrow> firewall_action" where
  "action_by_level TL_LOW = FA_ALLOW"
| "action_by_level TL_MEDIUM = FA_MONITOR"
| "action_by_level TL_HIGH = FA_RATE_LIMIT"
| "action_by_level TL_CRITICAL = FA_BLOCK"

record maturity_tracker =
  mt_consistency_windows :: nat
  mt_max_tracked_sources :: nat
  mt_sources :: "(ipv4_address, nat) odict"

definition tracker_from_config :: "threat_config \<Rightarrow> maturity_tracker" where
  "tracker_from_config c =
     \<lparr>mt_consistency_windows = tc_evidence_maturity_consistency_windows c,
      mt_max_tracked_sources = tc_max_tracked_maturity_sources c, mt_sources = []\<rparr>"

text \<open>\<open>popitem(last=False)\<close> never sees an empty dictionary: the bound is positive.\<close>

definition observe :: "maturity_tracker \<Rightarrow> ipv4_address \<Rightarrow> bool \<times> maturity_tracker" where
  "observe t ip =
     (let count = min ((case map_of (mt_sources t) ip of Some n \<Rightarrow> n | None \<Rightarrow> 0) + 1) (mt_consistency_windows t);
          d = (if map_of (mt_sources t) ip = None \<and> mt_max_tracked_sources t \<le> length (mt_sources t)
               then tl (mt_sources t) else mt_sources t);
          d' = od_move_to_end ip (AList.update ip count d)
      in (mt_consistency_windows t \<le> count, t\<lparr>mt_sources := d'\<rparr>))"

definition ml_ceiling :: "threat_assessment \<Rightarrow> firewall_action option" where
  "ml_ceiling a =
     (case ta_enforceable_level a of
        None \<Rightarrow> None
      | Some l \<Rightarrow>
          let cap = action_by_level l in
          Some (if action_rank FA_MONITOR \<le> action_rank (action_by_level (ta_threat_level a))
                then (if action_rank cap < action_rank FA_MONITOR then FA_MONITOR else cap)
                else cap))"

definition has_mature_evidence ::
    "threat_assessment \<Rightarrow> maturity_tracker option \<Rightarrow> real \<Rightarrow> bool \<times> maturity_tracker option" where
  "has_mature_evidence a tracker threshold =
     (if (case ta_known_evidence a of
            Some k \<Rightarrow> is_attack_label (ke_predicted_class k) \<and> threshold \<le> ke_confidence k
          | None \<Rightarrow> False)
      then (True, tracker)
      else if ta_protocol_signature_evidence a \<noteq> None then (True, tracker)
      else if (case ta_behavior_assessment a of Some b \<Rightarrow> ba_detected_patterns b \<noteq> [] | None \<Rightarrow> False)
      then (True, tracker)
      else (case tracker of
              None \<Rightarrow> (False, None)
            | Some t \<Rightarrow> let (r, t') = observe t (ta_source_ip a) in (r, Some t')))"

definition v1_decide ::
    "string \<Rightarrow> threat_assessment \<Rightarrow> datetime \<Rightarrow> maturity_tracker option \<Rightarrow> real
       \<Rightarrow> firewall_decision \<times> maturity_tracker option" where
  "v1_decide uuid a decided_at tracker threshold =
     (let action = action_by_level (ta_threat_level a);
          reason = ta_explanation a;
          (action, reason) =
            (case ml_ceiling a of
               Some cap \<Rightarrow>
                 if action_rank cap < action_rank action
                 then (cap, reason @ ''; action capped at '' @ firewall_action_value cap
                         @ '' (would be '' @ firewall_action_value action
                         @ ''): ML evidence alone may not enforce (threat.ml_evidence_can_enforce = false)'')
                 else (action, reason)
             | None \<Rightarrow> (action, reason));
          (mature, tracker) =
            (if enforcing action then has_mature_evidence a tracker threshold else (True, tracker));
          action = (if mature then action else FA_MONITOR)
      in (\<lparr>fd_id = uuid, fd_threat_assessment_id = ta_id a, fd_flow_id = Some (ta_flow_id a),
           fd_action = action, fd_threat_score = ta_threat_score a, fd_threat_level = ta_threat_level a,
           fd_reason = reason, fd_evidence = ta_contributing_evidence a, fd_decided_at = decided_at\<rparr>,
          tracker))"

subsection \<open>Score bounds\<close>

definition unit_interval :: "real \<Rightarrow> bool" where
  "unit_interval x \<longleftrightarrow> 0 \<le> x \<and> x \<le> 1"

text \<open>The confidence bounds the evidence models enforce.\<close>

definition evidence_ok ::
    "known_evidence option \<Rightarrow> behavior_assessment option \<Rightarrow> protocol_signature_evidence option \<Rightarrow> bool" where
  "evidence_ok known behavior signature \<longleftrightarrow>
     (case known of Some e \<Rightarrow> unit_interval (ke_confidence e) | None \<Rightarrow> True)
     \<and> (case behavior of Some e \<Rightarrow> unit_interval (ba_confidence e) | None \<Rightarrow> True)
     \<and> (case signature of Some e \<Rightarrow> unit_interval (ps_confidence e) | None \<Rightarrow> True)"

lemma pattern_points_nonneg: "threat_config_ok c \<Longrightarrow> 0 \<le> pattern_points c p"
  by (auto simp: threat_config_ok_def check_pattern_points_def pattern_points_def list_all_iff percent_def
      split: option.splits dest!: map_of_SomeD)

lemma contribution_bounds:
  fixes anomaly :: "anomaly_evidence option"
  assumes "threat_config_ok c" "evidence_ok known behavior signature"
  defines "b \<equiv> score_evidence c known anomaly behavior signature"
  shows "0 \<le> sc_known_attack_contribution b" "sc_known_attack_contribution b \<le> tc_known_attack_weight c"
    "0 \<le> sc_anomaly_contribution b" "sc_anomaly_contribution b \<le> tc_anomaly_weight c"
    "0 \<le> sc_behavior_contribution b" "sc_behavior_contribution b \<le> tc_behavior_weight c"
    "0 \<le> sc_protocol_signature_contribution b" "sc_protocol_signature_contribution b \<le> tc_protocol_signature_weight c"
proof -
  have w: "0 \<le> tc_known_attack_weight c" "0 \<le> tc_anomaly_weight c" "0 \<le> tc_behavior_weight c"
      "0 \<le> tc_protocol_signature_weight c"
    using assms(1) by (simp_all add: threat_config_ok_def percent_def)
  have "0 \<le> sum_list (map (pattern_points c) ps)" for ps
    by (rule sum_list_nonneg) (auto simp: pattern_points_nonneg [OF assms(1)])
  then show "0 \<le> sc_known_attack_contribution b" "sc_known_attack_contribution b \<le> tc_known_attack_weight c"
    "0 \<le> sc_anomaly_contribution b" "sc_anomaly_contribution b \<le> tc_anomaly_weight c"
    "0 \<le> sc_behavior_contribution b" "sc_behavior_contribution b \<le> tc_behavior_weight c"
    "0 \<le> sc_protocol_signature_contribution b" "sc_protocol_signature_contribution b \<le> tc_protocol_signature_weight c"
    using w assms(2) by (auto simp: b_def score_evidence_def Let_def evidence_ok_def unit_interval_def
        mult_left_le split: option.splits)
qed

lemma score_total_eq:
  "sc_total (score_evidence c known anomaly behavior signature) =
    (let b = score_evidence c known anomaly behavior signature in
      min 100 (sc_known_attack_contribution b + sc_anomaly_contribution b + sc_behavior_contribution b
        + sc_protocol_signature_contribution b))"
  by (simp add: score_evidence_def Let_def)

lemma score_bounds:
  fixes anomaly :: "anomaly_evidence option"
  assumes "threat_config_ok c" "evidence_ok known behavior signature"
  defines "b \<equiv> score_evidence c known anomaly behavior signature"
  shows "0 \<le> non_ml_total b" "non_ml_total b \<le> sc_total b" "sc_total b \<le> 100"
  using contribution_bounds [OF assms(1,2), of anomaly]
  by (simp_all add: non_ml_total_def score_total_eq Let_def b_def)

lemma determine_level_mono:
  "threat_config_ok c \<Longrightarrow> s \<le> s' \<Longrightarrow> determine_level s c \<le> determine_level s' c"
  by (simp add: determine_level_def severity_order_defs threat_config_ok_def check_ascending_def)

lemma action_by_level_mono: "l \<le> l' \<Longrightarrow> action_by_level l \<le> action_by_level l'"
  by (cases l; cases l') (simp_all add: severity_order_defs)

lemma overall_confidence_bounds:
  "evidence_ok known behavior signature \<Longrightarrow> unit_interval (overall_confidence known anomaly behavior signature)"
  by (auto simp: evidence_ok_def overall_confidence_def unit_interval_def max_def split: option.splits)

lemma assess_threat_sel [simp]:
  "ta_threat_score (assess_threat uuid xf c fl src dst known anomaly behavior t signature) =
     sc_total (score_evidence c known anomaly behavior signature)"
  "ta_threat_level (assess_threat uuid xf c fl src dst known anomaly behavior t signature) =
     determine_level (sc_total (score_evidence c known anomaly behavior signature)) c"
  "ta_confidence (assess_threat uuid xf c fl src dst known anomaly behavior t signature) =
     overall_confidence known anomaly behavior signature"
  "ta_enforceable_level (assess_threat uuid xf c fl src dst known anomaly behavior t signature) =
     (if tc_ml_evidence_can_enforce c then None
      else Some (determine_level (non_ml_total (score_evidence c known anomaly behavior signature)) c))"
  "ta_known_evidence (assess_threat uuid xf c fl src dst known anomaly behavior t signature) = known"
  "ta_behavior_assessment (assess_threat uuid xf c fl src dst known anomaly behavior t signature) = behavior"
  "ta_protocol_signature_evidence (assess_threat uuid xf c fl src dst known anomaly behavior t signature) = signature"
  "ta_source_ip (assess_threat uuid xf c fl src dst known anomaly behavior t signature) = src"
  by (simp_all add: assess_threat_def Let_def case_prod_unfold)

text \<open>
  Scoring stays in range for every accepted configuration and all evidence: the threat score
  is between 0 and 100 and the confidence between 0 and 1, as the assessment's own field
  constraints demand, so building it never fails; the level that caps enforcement is never above
  the reported level; and it is present exactly when ML evidence may not enforce.
\<close>

theorem assess_threat_in_range:
  assumes "threat_config_ok c" "evidence_ok known behavior signature"
  shows "percent (ta_threat_score (assess_threat uuid xf c fl src dst known anomaly behavior t signature))
    \<and> unit_interval (ta_confidence (assess_threat uuid xf c fl src dst known anomaly behavior t signature))
    \<and> (case ta_enforceable_level (assess_threat uuid xf c fl src dst known anomaly behavior t signature) of
         None \<Rightarrow> tc_ml_evidence_can_enforce c
       | Some l \<Rightarrow> \<not> tc_ml_evidence_can_enforce c
           \<and> l \<le> ta_threat_level (assess_threat uuid xf c fl src dst known anomaly behavior t signature))"
  using score_bounds [OF assms, of anomaly] overall_confidence_bounds [OF assms(2)] determine_level_mono [OF assms(1)]
  by (auto simp: percent_def)

definition example_known :: "real \<Rightarrow> known_evidence" where
  "example_known p = \<lparr>ke_flow_id = ''f'', ke_predicted_class = ''Bot'', ke_confidence = p,
     ke_class_probabilities = [], ke_operating_threshold = None, ke_model_version = ''1'',
     ke_feature_schema_version = ''1'', ke_generated_at = 0\<rparr>"

definition tracked_anomaly :: anomaly_evidence where
  "tracked_anomaly = \<lparr>ae_flow_id = ''f'', ae_anomaly_score = 1, ae_threshold = 1/2, ae_is_anomaly = True,
     ae_model_version = ''1'', ae_feature_schema_version = ''1'', ae_generated_at = 0\<rparr>"

definition example_behavior :: "behavior_pattern_type list \<Rightarrow> behavior_assessment" where
  "example_behavior ps = \<lparr>ba_source_ip = ipv4 10 0 0 5, ba_detected_patterns = ps, ba_confidence = 1,
     ba_description = ''d'', ba_window_start = 0, ba_window_end = 1\<rparr>"

definition example_xf :: explain_format where
  "example_xf = \<lparr>xf_repr = (\<lambda>s. s), xf_percent = (\<lambda>_. []), xf_3f = (\<lambda>_. [])\<rparr>"

lemma default_threat_config_ok: "threat_config_ok default_threat_config"
  by (simp add: threat_config_ok_def default_threat_config_def percent_def check_ascending_def
      check_pattern_points_def all_patterns_def)

lemmas example_evidence_defs = example_known_def tracked_anomaly_def example_behavior_def

lemma example_label [simp]: "is_attack_label ''Bot''"
  by (simp add: is_attack_label_def strip_def is_space_def ascii_lower_def less_eq_char_def)

theorem assess_threat_in_range_witness:
  "percent (ta_threat_score (assess_threat ''id'' example_xf default_threat_config ''f'' 1 2 (Some (example_known 1))
      (Some tracked_anomaly) (Some (example_behavior [BP_FLOOD, BP_SCANNING])) 0 None))"
  using assess_threat_in_range [OF default_threat_config_ok, of "Some (example_known 1)"
      "Some (example_behavior [BP_FLOOD, BP_SCANNING])" None]
  by (simp add: evidence_ok_def unit_interval_def example_evidence_defs)

subsection \<open>What the gates allow\<close>

lemma ml_ceiling_rank:
  assumes "ta_enforceable_level a = Some l"
  shows "\<exists>k. ml_ceiling a = Some k \<and> action_rank k \<le> max (action_rank (action_by_level l)) (action_rank FA_MONITOR)"
  using assms by (auto simp: ml_ceiling_def Let_def)

lemma v1_decide_action:
  fixes a :: threat_assessment
  defines "base \<equiv> action_by_level (ta_threat_level a)"
  defines "capped \<equiv> (case ml_ceiling a of Some k \<Rightarrow> if action_rank k < action_rank base then k else base | None \<Rightarrow> base)"
  shows "fd_action (fst (v1_decide uuid a t tracker thr)) =
      (if enforcing capped \<and> \<not> fst (has_mature_evidence a tracker thr) then FA_MONITOR else capped)"
    and "snd (v1_decide uuid a t tracker thr) =
      (if enforcing capped then snd (has_mature_evidence a tracker thr) else tracker)"
  by (auto simp: v1_decide_def Let_def base_def capped_def case_prod_unfold split: option.splits)

text \<open>
  The ML ceiling. While ML evidence may not enforce, no decision is stronger than the action
  of the level the deterministic evidence (behavior and protocol signature) reaches on its own, or
  MONITOR, whatever the classifier and the anomaly detector say and whatever the tracker holds; in
  particular with no deterministic evidence the decision never throttles or blocks.
\<close>

theorem ml_evidence_capped_at_monitor:
  assumes "\<not> tc_ml_evidence_can_enforce c"
  shows "action_rank (fd_action (fst (v1_decide uuid'
      (assess_threat uuid xf c fl src dst known anomaly behavior t signature) t' tracker thr)))
    \<le> max (action_rank (action_by_level (determine_level
          (non_ml_total (score_evidence c None None behavior signature)) c))) (action_rank FA_MONITOR)"
proof -
  let ?a = "assess_threat uuid xf c fl src dst known anomaly behavior t signature"
  have "non_ml_total (score_evidence c known anomaly behavior signature) =
      non_ml_total (score_evidence c None None behavior signature)"
    by (simp add: non_ml_total_def score_evidence_def Let_def)
  then have l: "ta_enforceable_level ?a = Some (determine_level (non_ml_total (score_evidence c None None behavior signature)) c)"
    using assms by simp
  from ml_ceiling_rank [OF this] obtain k where "ml_ceiling ?a = Some k"
      "action_rank k \<le> max (action_rank (action_by_level (determine_level
          (non_ml_total (score_evidence c None None behavior signature)) c))) (action_rank FA_MONITOR)"
    by blast
  then show ?thesis by (auto simp: v1_decide_action(1))
qed

theorem ml_evidence_capped_at_monitor_witness:
  "fd_action (fst (v1_decide ''d'' (assess_threat ''a'' example_xf default_threat_config ''f'' 1 2
      (Some (example_known 1)) (Some tracked_anomaly) None 0 None) 0 None (4/5))) \<in> {FA_ALLOW, FA_MONITOR}"
proof -
  have "\<not> tc_ml_evidence_can_enforce default_threat_config" by (simp add: default_threat_config_def)
  from ml_evidence_capped_at_monitor [OF this, of "''d''" "''a''" example_xf "''f''" 1 2 "Some (example_known 1)"
      "Some tracked_anomaly" None 0 None 0 None "4/5"]
  have "action_rank (fd_action (fst (v1_decide ''d'' (assess_threat ''a'' example_xf default_threat_config ''f'' 1 2
      (Some (example_known 1)) (Some tracked_anomaly) None 0 None) 0 None (4/5)))) \<le> 1"
    by (simp add: score_evidence_def non_ml_total_def determine_level_def default_threat_config_def)
  then show ?thesis by (cases rule: action_rank.cases) auto
qed

definition mature_without_tracker :: "threat_assessment \<Rightarrow> real \<Rightarrow> bool" where
  "mature_without_tracker a thr \<longleftrightarrow>
     (\<exists>k. ta_known_evidence a = Some k \<and> is_attack_label (ke_predicted_class k) \<and> thr \<le> ke_confidence k)
     \<or> ta_protocol_signature_evidence a \<noteq> None
     \<or> (\<exists>b. ta_behavior_assessment a = Some b \<and> ba_detected_patterns b \<noteq> [])"

lemma has_mature_evidence_eq:
  "has_mature_evidence a tracker thr =
     (if mature_without_tracker a thr then (True, tracker)
      else (case tracker of None \<Rightarrow> (False, None)
            | Some t \<Rightarrow> (fst (observe t (ta_source_ip a)), Some (snd (observe t (ta_source_ip a))))))"
  by (auto simp: has_mature_evidence_def mature_without_tracker_def case_prod_unfold Let_def split: option.splits)

text \<open>
  C33: The evidence-maturity gate. A decision is never stronger than its level's action, and a
  decision to throttle or block always rests on an attack classification at or above the
  confidence threshold, on a protocol-signature match, on a detected behavioral pattern, or on a
  tracker that has just counted enough observations of this source; without a tracker the last
  case does not exist.
\<close>

theorem enforcing_needs_mature_evidence:
  "fd_action (fst (v1_decide uuid a t tracker thr)) \<le> action_by_level (ta_threat_level a)
   \<and> (enforcing (fd_action (fst (v1_decide uuid a t tracker thr))) \<longrightarrow>
        mature_without_tracker a thr
        \<or> (\<exists>tr. tracker = Some tr \<and> fst (observe tr (ta_source_ip a))))"
proof -
  let ?base = "action_by_level (ta_threat_level a)"
  define capped where "capped = (case ml_ceiling a of Some k \<Rightarrow> if action_rank k < action_rank ?base then k else ?base | None \<Rightarrow> ?base)"
  have act: "fd_action (fst (v1_decide uuid a t tracker thr)) =
      (if enforcing capped \<and> \<not> fst (has_mature_evidence a tracker thr) then FA_MONITOR else capped)"
    unfolding capped_def by (rule v1_decide_action(1))
  have "capped \<le> ?base" by (auto simp: capped_def severity_order_defs split: option.splits)
  moreover have "enforcing capped \<Longrightarrow> FA_MONITOR \<le> capped" by (simp add: enforcing_iff_above_monitor)
  ultimately show ?thesis
    unfolding act by (auto simp: has_mature_evidence_eq split: option.splits if_splits)
qed

theorem enforcing_needs_mature_evidence_witness:
  "\<exists>a. fd_action (fst (v1_decide ''d'' a 0 None (4/5))) = FA_RATE_LIMIT \<and> mature_without_tracker a (4/5)"
proof -
  define a where "a = assess_threat ''a'' example_xf default_threat_config ''f'' 1 2 None None
      (Some (example_behavior [BP_FLOOD])) 0 None"
  have "fd_action (fst (v1_decide ''d'' a 0 None (4/5))) = FA_RATE_LIMIT"
    unfolding v1_decide_action(1)
    by (simp add: a_def has_mature_evidence_def ml_ceiling_def score_evidence_def non_ml_total_def determine_level_def
        default_threat_config_def pattern_points_def example_evidence_defs)
  then show ?thesis using enforcing_needs_mature_evidence [of "''d''" a 0 None "4/5"] by auto
qed

subsection \<open>The maturity tracker\<close>

definition tracker_inv :: "maturity_tracker \<Rightarrow> bool" where
  "tracker_inv t \<longleftrightarrow> od_distinct (mt_sources t) \<and> length (mt_sources t) \<le> mt_max_tracked_sources t
     \<and> 0 < mt_max_tracked_sources t"

abbreviation observed :: "ipv4_address \<Rightarrow> maturity_tracker \<Rightarrow> maturity_tracker" where
  "observed ip t \<equiv> snd (observe t ip)"

lemma observed_params [simp]:
  "mt_max_tracked_sources (observed ip t) = mt_max_tracked_sources t"
  "mt_consistency_windows (observed ip t) = mt_consistency_windows t"
  by (simp_all add: observe_def Let_def)

lemma fst_observe:
  "fst (observe t ip) \<longleftrightarrow>
    mt_consistency_windows t \<le> Suc (case map_of (mt_sources t) ip of Some n \<Rightarrow> n | None \<Rightarrow> 0)"
  by (simp add: observe_def Let_def)

lemma keys_update_move: "od_distinct d \<Longrightarrow> map fst (od_move_to_end k (AList.update k v d)) = removeAll k (map fst d) @ [k]"
  by (simp add: od_move_to_end_def delete_keys update_keys)

lemma keys_observed:
  assumes "tracker_inv t"
  shows "map fst (mt_sources (observed ip t)) = lru_keys (mt_max_tracked_sources t) ip (map fst (mt_sources t))"
proof (cases "map_of (mt_sources t) ip")
  case None
  then have ip: "ip \<notin> set (map fst (mt_sources t))" using map_of_None_iff_key [of "mt_sources t" ip] by simp
  let ?d = "if mt_max_tracked_sources t \<le> length (mt_sources t) then tl (mt_sources t) else mt_sources t"
  have "map fst (mt_sources (observed ip t)) = removeAll ip (map fst ?d) @ [ip]"
    unfolding observe_def None using assms by (simp add: Let_def keys_update_move tracker_inv_def)
  moreover have "ip \<notin> set (map fst ?d)" using ip by (cases "mt_sources t") auto
  ultimately have "map fst (mt_sources (observed ip t)) = map fst ?d @ [ip]" by (simp only: removeAll_id not_False_eq_True)
  then show ?thesis
    using ip assms lru_keys_absent [OF ip, of "mt_max_tracked_sources t"] by (simp add: tracker_inv_def map_tl)
next
  case (Some n)
  then have ip: "ip \<in> set (map fst (mt_sources t))" using map_of_Some_key [OF Some] by simp
  have "map fst (mt_sources (observed ip t)) = removeAll ip (map fst (mt_sources t)) @ [ip]"
    unfolding observe_def Some using assms by (simp add: Let_def keys_update_move tracker_inv_def)
  then show ?thesis using ip assms lru_keys_present [OF ip] by (simp add: tracker_inv_def)
qed

lemma tracker_inv_observed:
  assumes "tracker_inv t"
  shows "tracker_inv (observed ip t)"
proof -
  have "length (map fst (mt_sources (observed ip t))) \<le> mt_max_tracked_sources t"
    unfolding keys_observed [OF assms] by (rule length_lru_keys)
  moreover have "distinct (map fst (mt_sources (observed ip t)))"
    unfolding keys_observed [OF assms] using assms by (simp add: distinct_lru_keys tracker_inv_def)
  ultimately show ?thesis using assms by (simp add: tracker_inv_def)
qed

interpretation tracker: lru_memory tracker_inv "\<lambda>t. map fst (mt_sources t)" mt_max_tracked_sources observed
  by unfold_locales (simp_all add: tracker_inv_observed keys_observed, simp_all add: tracker_inv_def)

lemma tracker_inv_from_config: "threat_config_ok c \<Longrightarrow> tracker_inv (tracker_from_config c)"
  by (simp add: tracker_inv_def tracker_from_config_def threat_config_ok_def)

lemma fold_observed_params [simp]:
  "mt_max_tracked_sources (fold observed ips t) = mt_max_tracked_sources t"
  "mt_consistency_windows (fold observed ips t) = mt_consistency_windows t"
  by (induction ips arbitrary: t) simp_all

lemma observed_lookup_room:
  assumes "map_of (mt_sources t) ip \<noteq> None \<or> length (mt_sources t) < mt_max_tracked_sources t"
  shows "map_of (mt_sources (observed ip t)) =
    (map_of (mt_sources t))(ip \<mapsto> min ((case map_of (mt_sources t) ip of Some n \<Rightarrow> n | None \<Rightarrow> 0) + 1) (mt_consistency_windows t))"
  using assms by (auto simp: observe_def Let_def simp del: map_of_eq_None_iff)

lemma tracker_counts_run:
  assumes "threat_config_ok c" "card (set ips) \<le> tc_max_tracked_maturity_sources c"
  shows "map_of (mt_sources (fold observed ips (tracker_from_config c))) =
    (\<lambda>ip. if ip \<in> set ips then Some (min (count_list ips ip) (tc_evidence_maturity_consistency_windows c)) else None)"
  using assms(2)
proof (induction ips rule: rev_induct)
  case Nil
  then show ?case by (simp add: tracker_from_config_def fun_eq_iff)
next
  case (snoc ip ips)
  let ?t = "fold observed ips (tracker_from_config c)"
  have par: "mt_max_tracked_sources ?t = tc_max_tracked_maturity_sources c"
      "mt_consistency_windows ?t = tc_evidence_maturity_consistency_windows c"
    by (simp_all add: tracker_from_config_def)
  have inv: "tracker_inv ?t" using tracker.inv_run tracker_inv_from_config [OF assms(1)] by blast
  have "card (set ips) \<le> tc_max_tracked_maturity_sources c"
    using snoc.prems by (simp add: card_insert_if split: if_splits)
  note IH = snoc.IH [OF this]
  have keys: "fst ` set (mt_sources ?t) = set ips"
    using arg_cong [OF IH, of dom] by (simp add: dom_map_of_conv_image_fst) (auto simp: dom_def)
  then have len: "length (mt_sources ?t) = card (set ips)"
    using inv distinct_card [of "map fst (mt_sources ?t)"] by (simp add: tracker_inv_def)
  have "map_of (mt_sources ?t) ip \<noteq> None \<or> length (mt_sources ?t) < mt_max_tracked_sources ?t"
    using snoc.prems unfolding par len IH by (auto simp: card_insert_if)
  note look = observed_lookup_room [OF this]
  have "map_of (mt_sources (observed ip ?t)) x = (if x \<in> set (ips @ [ip])
      then Some (min (count_list (ips @ [ip]) x) (tc_evidence_maturity_consistency_windows c)) else None)" for x
    unfolding look IH par by (simp add: min_def count_list_0_iff)
  then show ?case by (simp add: fun_eq_iff)
qed

text \<open>
  The maturity tracker counts exactly. After any sequence of observations, an observation of a
  source reports consistency precisely when it is at least the configured number-th observation of
  that source, provided the sources seen fit the configured bound; and the tracker's memory never
  exceeds that bound, however many sources are observed.
\<close>

theorem tracker_counts_observations:
  assumes "threat_config_ok c"
  shows "length (mt_sources (fold observed ips (tracker_from_config c))) \<le> tc_max_tracked_maturity_sources c
    \<and> (card (set (ip # ips)) \<le> tc_max_tracked_maturity_sources c \<longrightarrow>
        (fst (observe (fold observed ips (tracker_from_config c)) ip) \<longleftrightarrow>
          tc_evidence_maturity_consistency_windows c \<le> Suc (count_list ips ip)))"
proof
  let ?t = "fold observed ips (tracker_from_config c)"
  show "length (mt_sources ?t) \<le> tc_max_tracked_maturity_sources c"
    using tracker.bound_run [OF tracker_inv_from_config [OF assms], of ips] by (simp add: tracker_from_config_def)
  show "card (set (ip # ips)) \<le> tc_max_tracked_maturity_sources c \<longrightarrow>
      (fst (observe ?t ip) \<longleftrightarrow> tc_evidence_maturity_consistency_windows c \<le> Suc (count_list ips ip))"
  proof
    assume le: "card (set (ip # ips)) \<le> tc_max_tracked_maturity_sources c"
    have "card (set ips) \<le> card (set (ip # ips))" by (intro card_mono) auto
    then have "card (set ips) \<le> tc_max_tracked_maturity_sources c" using le by (rule le_trans)
    note look = fun_cong [OF tracker_counts_run [OF assms this], of ip]
    have "mt_consistency_windows ?t = tc_evidence_maturity_consistency_windows c" by (simp add: tracker_from_config_def)
    then show "fst (observe ?t ip) \<longleftrightarrow> tc_evidence_maturity_consistency_windows c \<le> Suc (count_list ips ip)"
      unfolding fst_observe look by (simp add: min_def count_list_0_iff)
  qed
qed

theorem tracker_counts_observations_witness:
  "fst (observe (fold observed [1, 2, 1] (tracker_from_config default_threat_config)) 1)
    \<and> \<not> fst (observe (fold observed [1, 2, 1] (tracker_from_config default_threat_config)) 2)"
  using tracker_counts_observations [OF default_threat_config_ok, of "[1, 2, 1]" 1]
    tracker_counts_observations [OF default_threat_config_ok, of "[1, 2, 1]" 2]
  by (simp add: default_threat_config_def card_insert_if)

subsection \<open>The shipped weights\<close>

lemma level_at_least_high: "threat_config_ok c \<Longrightarrow> enforcing (action_by_level (determine_level s c)) \<longleftrightarrow> tc_high_threshold c \<le> s"
  by (auto simp: determine_level_def threat_config_ok_def check_ascending_def)

lemma capped_le_base:
  "enforcing (case ml_ceiling a of Some k \<Rightarrow> if action_rank k < action_rank b then k else b | None \<Rightarrow> b) \<Longrightarrow> enforcing b"
  by (cases b) (auto simp: enforcing_def split: option.splits if_splits)

text \<open>
  With the shipped weights and thresholds the tracker of the maturity gate is never consulted,
  whether or not ML evidence may enforce: every assessment strong enough to throttle or block is
  already mature through a full-confidence classification, a behavioral pattern or a protocol
  signature.
\<close>

theorem shipped_weights_never_consult_tracker:
  assumes "evidence_ok known behavior signature" "thr \<le> 1"
  shows "snd (v1_decide uuid' (assess_threat uuid xf (default_threat_config\<lparr>tc_ml_evidence_can_enforce := ml\<rparr>)
      fl src dst known anomaly behavior t signature) t' tracker thr) = tracker"
proof -
  let ?c = "default_threat_config\<lparr>tc_ml_evidence_can_enforce := ml\<rparr>"
  let ?a = "assess_threat uuid xf ?c fl src dst known anomaly behavior t signature"
  let ?b = "score_evidence ?c known anomaly behavior signature"
  have ok: "threat_config_ok ?c"
    using default_threat_config_ok by (simp add: threat_config_ok_def check_ascending_def check_pattern_points_def)
  have "mature_without_tracker ?a thr" if hi: "enforcing (action_by_level (ta_threat_level ?a))"
  proof (rule ccontr)
    assume no: "\<not> mature_without_tracker ?a thr"
    then have none: "signature = None" "\<And>b. behavior = Some b \<Longrightarrow> ba_detected_patterns b = []"
        "\<And>k. known = Some k \<Longrightarrow> is_attack_label (ke_predicted_class k) \<Longrightarrow> ke_confidence k < thr"
      by (auto simp: mature_without_tracker_def)
    have "sc_known_attack_contribution ?b < 60"
      using none(3) assms(2) by (force simp: score_evidence_def Let_def default_threat_config_def split: option.splits)
    moreover have "sc_anomaly_contribution ?b \<le> 15"
      using contribution_bounds(4) [OF ok assms(1), of anomaly] by (simp add: default_threat_config_def)
    moreover have "sc_behavior_contribution ?b = 0" "sc_protocol_signature_contribution ?b = 0"
      using none(1,2) by (auto simp: score_evidence_def Let_def split: option.splits)
    ultimately have "sc_total ?b < 75" by (simp add: score_total_eq Let_def)
    moreover have "75 \<le> sc_total ?b"
      using hi level_at_least_high [OF ok] by (simp add: default_threat_config_def)
    ultimately show False by simp
  qed
  note mature = this
  show ?thesis
  proof (cases "enforcing (action_by_level (ta_threat_level ?a))")
    case True
    then show ?thesis unfolding v1_decide_action(2) has_mature_evidence_eq using mature [OF True] by (simp only: if_True if_cancel snd_conv)
  next
    case False
    then show ?thesis unfolding v1_decide_action(2) using capped_le_base [where a = ?a and b = "action_by_level (ta_threat_level ?a)"]
      by (simp only: if_False split: if_split) blast
  qed
qed

theorem shipped_weights_never_consult_tracker_witness:
  "snd (v1_decide ''d'' (assess_threat ''a'' example_xf default_threat_config ''f'' 1 2
      (Some (example_known 1)) (Some tracked_anomaly) None 0 None) 0 (Some (tracker_from_config default_threat_config)) (4/5))
    = Some (tracker_from_config default_threat_config)"
  using shipped_weights_never_consult_tracker [of "Some (example_known 1)" None None "4/5" "''d''" "''a''" example_xf False
      "''f''" 1 2 "Some tracked_anomaly" 0 0 "Some (tracker_from_config default_threat_config)"]
  by (simp add: evidence_ok_def unit_interval_def example_evidence_defs default_threat_config_def)

text \<open>
  Behavior alone never blocks. While ML evidence may not enforce and the behavior cap is below
  the critical threshold (as shipped: 80 and 90), an assessment without a protocol-signature match
  leads at most to RATE\_LIMIT, whatever patterns were detected and whatever the models say.
\<close>

theorem behavior_alone_never_blocks:
  assumes "threat_config_ok c" "\<not> tc_ml_evidence_can_enforce c"
    and "tc_behavior_weight c < tc_critical_threshold c" "evidence_ok known behavior None"
  shows "fd_action (fst (v1_decide uuid'
      (assess_threat uuid xf c fl src dst known anomaly behavior t None) t' tracker thr)) \<noteq> FA_BLOCK"
proof -
  let ?a = "assess_threat uuid xf c fl src dst known anomaly behavior t None"
  let ?b = "score_evidence c known anomaly behavior None"
  have "sc_behavior_contribution ?b \<le> tc_behavior_weight c" by (rule contribution_bounds(6) [OF assms(1,4)])
  moreover have "sc_protocol_signature_contribution ?b = 0" by (simp add: score_evidence_def Let_def)
  ultimately have "non_ml_total ?b < tc_critical_threshold c" using assms(3) by (simp add: non_ml_total_def)
  then have "ml_ceiling ?a \<noteq> Some FA_BLOCK" "ml_ceiling ?a \<noteq> None"
    using assms(2) by (auto simp: ml_ceiling_def Let_def determine_level_def)
  then obtain k where k: "ml_ceiling ?a = Some k" "k \<noteq> FA_BLOCK" by auto
  then have "action_rank k < action_rank FA_BLOCK" by (cases k) auto
  with k show ?thesis by (auto simp: v1_decide_action(1))
qed

theorem behavior_alone_never_blocks_witness:
  "fd_action (fst (v1_decide ''d'' (assess_threat ''a'' example_xf default_threat_config ''f'' 1 2
      (Some (example_known 1)) (Some tracked_anomaly) (Some (example_behavior all_patterns)) 0 None) 0 None (4/5))) \<noteq> FA_BLOCK"
  by (rule behavior_alone_never_blocks)
    (simp_all add: default_threat_config_ok, simp_all add: default_threat_config_def evidence_ok_def
      unit_interval_def example_evidence_defs)

end
