(* ===== verification/Throttle.thy ===== *)
theory Throttle
  imports Prelude
begin

section \<open>Failed-login throttling\<close>

text \<open>
  \<open>core/throttle.py\<close>: \<open>FailureWindow\<close> (a sliding-window failure counter per key, with a bounded
  number of keys), \<open>ScopedThrottle\<close> (one window per lockout scope), and the admin login throttle
  of \<open>api/throttle.py\<close> built on it. Every method returns the state it leaves behind, the readers
  included: \<open>_recent\<close> discards expired timestamps as it reads. \<open>record_failure\<close> returns \<open>None\<close>
  where Python would raise (the minimum of no keys, the last element of an empty deque); the
  invariant shows that never happens.
\<close>

record 'k failure_window =
  fw_max_failures :: nat
  fw_window_seconds :: int
  fw_max_tracked_keys :: nat
  fw_failures :: "('k, datetime list) odict"

definition new_failure_window :: "nat \<Rightarrow> int \<Rightarrow> nat \<Rightarrow> 'k failure_window" where
  "new_failure_window m win tracked = \<lparr>fw_max_failures = m, fw_window_seconds = win,
     fw_max_tracked_keys = tracked, fw_failures = []\<rparr>"

text \<open>\<open>deque(maxlen=m).append(x)\<close>: the oldest elements fall out.\<close>

definition deque_append :: "nat \<Rightarrow> 'a list \<Rightarrow> 'a \<Rightarrow> 'a list" where
  "deque_append m xs x = (let ys = xs @ [x] in drop (length ys - m) ys)"

definition fw_cutoff :: "'k failure_window \<Rightarrow> datetime \<Rightarrow> datetime" where
  "fw_cutoff w now = now - seconds (fw_window_seconds w)"

definition recent :: "'k \<Rightarrow> datetime \<Rightarrow> 'k failure_window \<Rightarrow> datetime list \<times> 'k failure_window" where
  "recent key now w =
     (case map_of (fw_failures w) key of
        None \<Rightarrow> ([], w)
      | Some ts \<Rightarrow>
          let ts' = dropWhile (\<lambda>t. t \<le> fw_cutoff w now) ts in
          if ts' = [] then ([], w\<lparr>fw_failures := AList.delete key (fw_failures w)\<rparr>)
          else (ts', w\<lparr>fw_failures := AList.update key ts' (fw_failures w)\<rparr>))"

definition is_locked_out :: "'k \<Rightarrow> datetime \<Rightarrow> 'k failure_window \<Rightarrow> bool \<times> 'k failure_window" where
  "is_locked_out key now w =
     (let (ts, w') = recent key now w in (fw_max_failures w \<le> length ts, w'))"

definition seconds_until_unlocked ::
    "'k \<Rightarrow> datetime \<Rightarrow> 'k failure_window \<Rightarrow> int \<times> 'k failure_window" where
  "seconds_until_unlocked key now w =
     (let (ts, w') = recent key now w in
      if length ts < fw_max_failures w then (0, w')
      else (max 1 (ceil_seconds (hd ts + seconds (fw_window_seconds w) - now)), w'))"

text \<open>
  \<open>min(self._failures, key=lambda tracked: self._failures[tracked][-1])\<close>: the first key with the
  least newest failure; \<open>None\<close> where the expression raises.
\<close>

fun stalest_from :: "'k \<Rightarrow> datetime \<Rightarrow> ('k, datetime list) odict \<Rightarrow> 'k option" where
  "stalest_from k t [] = Some k"
| "stalest_from k t ((k', ts) # d) =
     (if ts = [] then None
      else if last ts < t then stalest_from k' (last ts) d
      else stalest_from k t d)"

fun stalest :: "('k, datetime list) odict \<Rightarrow> 'k option" where
  "stalest [] = None"
| "stalest ((k, ts) # d) = (if ts = [] then None else stalest_from k (last ts) d)"

definition record_failure :: "'k \<Rightarrow> datetime \<Rightarrow> 'k failure_window \<Rightarrow> (bool \<times> 'k failure_window) option" where
  "record_failure key now w =
     (let (was_locked, w1) = is_locked_out key now w;
          evicted =
            (if map_of (fw_failures w1) key = None \<and> fw_max_tracked_keys w1 \<le> length (fw_failures w1)
             then map_option (\<lambda>k. AList.delete k (fw_failures w1)) (stalest (fw_failures w1))
             else Some (fw_failures w1))
      in (case evicted of
            None \<Rightarrow> None
          | Some d \<Rightarrow>
              let old = (case map_of d key of None \<Rightarrow> [] | Some ts \<Rightarrow> ts);
                  w2 = w1\<lparr>fw_failures := AList.update key (deque_append (fw_max_failures w1) old now) d\<rparr>;
                  (locked, w3) = is_locked_out key now w2
              in Some (\<not> was_locked \<and> locked, w3)))"

definition fw_clear :: "'k \<Rightarrow> 'k failure_window \<Rightarrow> 'k failure_window" where
  "fw_clear key w = w\<lparr>fw_failures := AList.delete key (fw_failures w)\<rparr>"

subsection \<open>Several windows: ScopedThrottle\<close>

datatype lockout_scope = LS_SOURCE | LS_ACCOUNT | LS_GLOBAL

record lockout =
  lo_scope :: lockout_scope
  lo_retry_after_seconds :: int

type_synonym scoped_throttle = "(lockout_scope, string failure_window) odict"

definition GLOBAL_KEY :: string where
  "GLOBAL_KEY = ''*''"

definition new_scoped_throttle :: "(lockout_scope, nat) odict \<Rightarrow> int \<Rightarrow> nat \<Rightarrow> scoped_throttle" where
  "new_scoped_throttle limits win tracked =
     map (\<lambda>(scope, lim). (scope, new_failure_window lim win tracked)) limits"

definition throttle_keys :: "scoped_throttle \<Rightarrow> (lockout_scope, string) odict \<Rightarrow> (lockout_scope \<times> string) list" where
  "throttle_keys th keys =
     filter (\<lambda>(scope, key). scope \<in> fst ` set th \<and> scope \<noteq> LS_GLOBAL) keys
     @ (if LS_GLOBAL \<in> fst ` set th then [(LS_GLOBAL, GLOBAL_KEY)] else [])"

text \<open>The loop of \<open>lockout\<close>, over the pairs \<open>_keys\<close> returns.\<close>

fun lockout_loop ::
    "(lockout_scope \<times> string) list \<Rightarrow> datetime \<Rightarrow> lockout option \<Rightarrow> scoped_throttle
       \<Rightarrow> lockout option \<times> scoped_throttle" where
  "lockout_loop [] now worst th = (worst, th)"
| "lockout_loop ((scope, key) # ks) now worst th =
     (case map_of th scope of
        None \<Rightarrow> lockout_loop ks now worst th
      | Some w \<Rightarrow>
          let (wait, w') = seconds_until_unlocked key now w;
              worst' = (if wait \<noteq> 0 \<and> (case worst of None \<Rightarrow> True | Some l \<Rightarrow> lo_retry_after_seconds l < wait)
                        then Some \<lparr>lo_scope = scope, lo_retry_after_seconds = wait\<rparr> else worst)
          in lockout_loop ks now worst' (AList.update scope w' th))"

definition scoped_lockout ::
    "(lockout_scope, string) odict \<Rightarrow> datetime \<Rightarrow> scoped_throttle \<Rightarrow> lockout option \<times> scoped_throttle" where
  "scoped_lockout keys now th = lockout_loop (throttle_keys th keys) now None th"

fun record_loop ::
    "(lockout_scope \<times> string) list \<Rightarrow> datetime \<Rightarrow> scoped_throttle
       \<Rightarrow> (lockout_scope list \<times> scoped_throttle) option" where
  "record_loop [] now th = Some ([], th)"
| "record_loop ((scope, key) # ks) now th =
     (case map_of th scope of
        None \<Rightarrow> record_loop ks now th
      | Some w \<Rightarrow>
          (case record_failure key now w of
             None \<Rightarrow> None
           | Some (newly, w') \<Rightarrow>
               map_option (\<lambda>(scopes, th'). (if newly then scope # scopes else scopes, th'))
                 (record_loop ks now (AList.update scope w' th))))"

definition scoped_record_failure ::
    "(lockout_scope, string) odict \<Rightarrow> datetime \<Rightarrow> scoped_throttle \<Rightarrow> (lockout_scope list \<times> scoped_throttle) option" where
  "scoped_record_failure keys now th = record_loop (throttle_keys th keys) now th"

definition scoped_clear :: "lockout_scope \<Rightarrow> string \<Rightarrow> scoped_throttle \<Rightarrow> scoped_throttle" where
  "scoped_clear scope key th =
     (case map_of th scope of
        None \<Rightarrow> th
      | Some w \<Rightarrow> if scope = LS_GLOBAL then th else AList.update scope (fw_clear key w) th)"

subsection \<open>The admin login throttle (api/throttle.py)\<close>

definition UNKNOWN_CLIENT :: string where
  "UNKNOWN_CLIENT = ''unknown''"

definition client_key :: "string option \<Rightarrow> string" where
  "client_key host = (case host of None \<Rightarrow> UNKNOWN_CLIENT | Some h \<Rightarrow> if h = [] then UNKNOWN_CLIENT else h)"

definition new_admin_throttle :: "nat \<Rightarrow> nat \<Rightarrow> int \<Rightarrow> scoped_throttle" where
  "new_admin_throttle per_ip global win =
     new_scoped_throttle [(LS_SOURCE, per_ip), (LS_GLOBAL, global)] win 4096"

definition admin_lockout :: "string option \<Rightarrow> datetime \<Rightarrow> scoped_throttle \<Rightarrow> lockout option \<times> scoped_throttle" where
  "admin_lockout host now th = scoped_lockout [(LS_SOURCE, client_key host)] now th"

definition admin_record_failure ::
    "string option \<Rightarrow> datetime \<Rightarrow> scoped_throttle \<Rightarrow> (lockout_scope list \<times> scoped_throttle) option" where
  "admin_record_failure host now th = scoped_record_failure [(LS_SOURCE, client_key host)] now th"

definition admin_clear :: "string option \<Rightarrow> scoped_throttle \<Rightarrow> scoped_throttle" where
  "admin_clear host th = scoped_clear LS_SOURCE (client_key host) th"

subsection \<open>The invariant\<close>

definition fw_inv :: "'k failure_window \<Rightarrow> bool" where
  "fw_inv w \<longleftrightarrow> 0 < fw_max_failures w \<and> 0 < fw_max_tracked_keys w
     \<and> od_distinct (fw_failures w) \<and> length (fw_failures w) \<le> fw_max_tracked_keys w
     \<and> od_all (\<lambda>ts. ts \<noteq> [] \<and> length ts \<le> fw_max_failures w) (fw_failures w)"

definition stored :: "'k failure_window \<Rightarrow> 'k \<Rightarrow> datetime list" where
  "stored w key = (case map_of (fw_failures w) key of None \<Rightarrow> [] | Some ts \<Rightarrow> ts)"

lemma recent_fst: "fst (recent key now w) = dropWhile (\<lambda>t. t \<le> fw_cutoff w now) (stored w key)"
  by (auto simp: recent_def stored_def Let_def eq_commute [of "[]"] split: option.splits)

lemma recent_params [simp]:
  "fw_max_failures (snd (recent key now w)) = fw_max_failures w"
  "fw_window_seconds (snd (recent key now w)) = fw_window_seconds w"
  "fw_max_tracked_keys (snd (recent key now w)) = fw_max_tracked_keys w"
  by (simp_all add: recent_def Let_def split: option.splits)

lemma stored_recent:
  "stored (snd (recent key now w)) k =
     (if k = key then dropWhile (\<lambda>t. t \<le> fw_cutoff w now) (stored w key) else stored w k)"
  by (auto simp: recent_def stored_def Let_def eq_commute [of "[]"] split: option.splits)

lemma is_locked_out_snd [simp]: "snd (is_locked_out key now w) = snd (recent key now w)"
  by (simp add: is_locked_out_def Let_def split: prod.splits)

lemma is_locked_out_fst: "fst (is_locked_out key now w) \<longleftrightarrow> fw_max_failures w \<le> length (fst (recent key now w))"
  by (simp add: is_locked_out_def Let_def split: prod.splits)

lemma length_deque_append: "length (deque_append m xs x) = min m (Suc (length xs))"
  by (simp add: deque_append_def Let_def)

lemma deque_append_nonempty: "0 < m \<Longrightarrow> deque_append m xs x \<noteq> []"
  using length_deque_append [of m xs x] by auto

lemma last_deque_append: "0 < m \<Longrightarrow> last (deque_append m xs x) = x"
  by (simp add: deque_append_def Let_def)

lemma fw_inv_stored: "fw_inv w \<Longrightarrow> length (stored w key) \<le> fw_max_failures w"
  by (auto simp: fw_inv_def stored_def dest: od_all_lookup split: option.splits)

lemma fw_inv_new: "0 < m \<Longrightarrow> 0 < tracked \<Longrightarrow> fw_inv (new_failure_window m win tracked)"
  by (simp add: fw_inv_def new_failure_window_def)

lemma fw_inv_delete:
  "fw_inv w \<Longrightarrow> fw_inv (w\<lparr>fw_failures := AList.delete key (fw_failures w)\<rparr>)"
  using length_od_delete_le [of key "fw_failures w"]
  by (auto simp: fw_inv_def)

lemma fw_inv_recent:
  assumes "fw_inv w"
  shows "fw_inv (snd (recent key now w))"
proof (cases "map_of (fw_failures w) key")
  case None
  with assms show ?thesis by (simp add: recent_def)
next
  case (Some ts)
  let ?ts = "dropWhile (\<lambda>t. t \<le> fw_cutoff w now) ts"
  have key: "key \<in> fst ` set (fw_failures w)" using Some by (rule map_of_Some_key)
  have "length ?ts \<le> fw_max_failures w"
    using fw_inv_stored [OF assms, of key] Some length_dropWhile_le [of "\<lambda>t. t \<le> fw_cutoff w now" ts]
    by (simp add: stored_def)
  with assms Some key have "?ts \<noteq> [] \<Longrightarrow> fw_inv (w\<lparr>fw_failures := AList.update key ?ts (fw_failures w)\<rparr>)"
    by (simp add: fw_inv_def length_od_update od_all_update)
  with Some fw_inv_delete [OF assms, of key] show ?thesis
    by (simp add: recent_def Let_def)
qed

lemma fw_inv_clear: "fw_inv w \<Longrightarrow> fw_inv (fw_clear key w)"
  unfolding fw_clear_def by (rule fw_inv_delete)

lemma stalest_from_spec:
  assumes "od_all (\<lambda>ts. ts \<noteq> []) d"
  shows "\<exists>k' t'. stalest_from k t d = Some k' \<and> (k' = k \<and> t' = t \<or> (\<exists>ts. (k', ts) \<in> set d \<and> t' = last ts))
    \<and> t' \<le> t \<and> (\<forall>(k'', ts) \<in> set d. t' \<le> last ts)"
  using assms
proof (induction k t d rule: stalest_from.induct)
  case (1 k t)
  then show ?case by auto
next
  case (2 k t k' ts d)
  show ?case
  proof (cases "last ts < t")
    case True
    with 2(1,3) obtain a b where "stalest_from k' (last ts) d = Some a"
        "a = k' \<and> b = last ts \<or> (\<exists>us. (a, us) \<in> set d \<and> b = last us)"
        "b \<le> last ts" "\<forall>(k'', us) \<in> set d. b \<le> last us"
      by auto
    with True 2(3) show ?thesis by (intro exI [of _ a] exI [of _ b]) auto
  next
    case False
    with 2(2,3) obtain a b where "stalest_from k t d = Some a"
        "a = k \<and> b = t \<or> (\<exists>us. (a, us) \<in> set d \<and> b = last us)"
        "b \<le> t" "\<forall>(k'', us) \<in> set d. b \<le> last us"
      by auto
    with False 2(3) show ?thesis by (intro exI [of _ a] exI [of _ b]) auto
  qed
qed

lemma stalest_spec:
  assumes "od_all (\<lambda>ts. ts \<noteq> []) d" "d \<noteq> []"
  obtains k ts where "stalest d = Some k" "(k, ts) \<in> set d" "\<forall>(k', us) \<in> set d. last ts \<le> last us"
proof -
  obtain k0 ts0 d0 where d: "d = (k0, ts0) # d0" using assms(2) by (cases d) auto
  then have nn: "ts0 \<noteq> []" "od_all (\<lambda>ts. ts \<noteq> []) d0" using assms(1) by simp_all
  obtain k' t' where "stalest_from k0 (last ts0) d0 = Some k'"
      "k' = k0 \<and> t' = last ts0 \<or> (\<exists>us. (k', us) \<in> set d0 \<and> t' = last us)"
      "t' \<le> last ts0" "\<forall>(k'', us) \<in> set d0. t' \<le> last us"
    using stalest_from_spec [OF nn(2)] by blast
  with d nn that show thesis by auto
qed

lemma fw_inv_nonempty: "fw_inv w \<Longrightarrow> od_all (\<lambda>ts. ts \<noteq> []) (fw_failures w)"
  by (auto simp: fw_inv_def od_all_def)

text \<open>The state \<open>record_failure\<close> appends to: after the prune, and the eviction if there was one.\<close>

definition after_eviction :: "'k \<Rightarrow> datetime \<Rightarrow> 'k failure_window \<Rightarrow> ('k, datetime list) odict" where
  "after_eviction key now w =
     (let d = fw_failures (snd (recent key now w)) in
      if map_of d key = None \<and> fw_max_tracked_keys w \<le> length d
      then AList.delete (the (stalest d)) d else d)"

definition appended :: "'k \<Rightarrow> datetime \<Rightarrow> 'k failure_window \<Rightarrow> 'k failure_window" where
  "appended key now w =
     (let w1 = snd (recent key now w); d = after_eviction key now w in
      w1\<lparr>fw_failures := AList.update key
           (deque_append (fw_max_failures w) (case map_of d key of None \<Rightarrow> [] | Some ts \<Rightarrow> ts) now) d\<rparr>)"

lemma record_failure_eq:
  assumes "fw_inv w"
  shows "record_failure key now w =
    Some (\<not> fst (is_locked_out key now w) \<and> fst (is_locked_out key now (appended key now w)),
          snd (recent key now (appended key now w)))"
proof -
  let ?w1 = "snd (recent key now w)"
  have inv1: "fw_inv ?w1" by (rule fw_inv_recent [OF assms])
  have "\<exists>k. stalest (fw_failures ?w1) = Some k"
    if "fw_max_tracked_keys w \<le> length (fw_failures ?w1)"
  proof -
    have "fw_failures ?w1 \<noteq> []" using that assms by (auto simp: fw_inv_def)
    with fw_inv_nonempty [OF inv1] show ?thesis by (metis stalest_spec)
  qed
  then show ?thesis
    by (auto simp: record_failure_def appended_def after_eviction_def Let_def case_prod_unfold
        split: option.splits)
qed

lemma fw_inv_appended:
  assumes "fw_inv w"
  shows "fw_inv (appended key now w)"
proof -
  let ?w1 = "snd (recent key now w)" and ?d = "after_eviction key now w"
  have inv1: "fw_inv ?w1" by (rule fw_inv_recent [OF assms])
  then have d1: "od_distinct (fw_failures ?w1)" "length (fw_failures ?w1) \<le> fw_max_tracked_keys w"
    by (simp_all add: fw_inv_def)
  have "length (AList.update key v ?d) \<le> fw_max_tracked_keys w" for v
  proof (cases "map_of (fw_failures ?w1) key = None \<and> fw_max_tracked_keys w \<le> length (fw_failures ?w1)")
    case True
    then have "fw_failures ?w1 \<noteq> []" using assms by (auto simp: fw_inv_def)
    then obtain k ts where k: "stalest (fw_failures ?w1) = Some k" "(k, ts) \<in> set (fw_failures ?w1)"
      using stalest_spec [OF fw_inv_nonempty [OF inv1]] by metis
    then have "k \<in> fst ` set (fw_failures ?w1)" by force
    then have "length ?d = length (fw_failures ?w1) - 1"
      using True k d1 by (simp add: after_eviction_def Let_def length_od_delete)
    moreover have "0 < fw_max_tracked_keys w" using assms by (simp add: fw_inv_def)
    ultimately show ?thesis using d1 by (auto simp: length_od_update)
  next
    case False
    then have "?d = fw_failures ?w1" by (auto simp: after_eviction_def Let_def)
    with False d1 show ?thesis by (auto simp: length_od_update map_of_None_iff_key)
  qed
  moreover have "od_distinct ?d" "od_all (\<lambda>ts. ts \<noteq> [] \<and> length ts \<le> fw_max_failures w) ?d"
    using inv1 by (auto simp: after_eviction_def Let_def fw_inv_def)
  ultimately show ?thesis
    using assms
    by (auto simp: appended_def fw_inv_def Let_def length_deque_append deque_append_nonempty
        intro!: od_all_update)
qed

lemma fw_inv_record_failure:
  "fw_inv w \<Longrightarrow> record_failure key now w = Some (b, w') \<Longrightarrow> fw_inv w'"
  by (auto simp: record_failure_eq intro: fw_inv_recent fw_inv_appended)

subsection \<open>What a lockout means: the full failure history\<close>

text \<open>
  The abstract counter keeps, per key, every failure since the key was last cleared. The window's
  bounded deque agrees with it on every later lockout question as long as no key had to be evicted.
\<close>

datatype 'k fw_event = Failed 'k datetime | Checked 'k datetime | Cleared 'k

fun fw_step :: "'k fw_event \<Rightarrow> 'k failure_window \<Rightarrow> 'k failure_window" where
  "fw_step (Failed k t) w = (case record_failure k t w of None \<Rightarrow> w | Some (_, w') \<Rightarrow> w')"
| "fw_step (Checked k t) w = snd (seconds_until_unlocked k t w)"
| "fw_step (Cleared k) w = fw_clear k w"

fun history_step :: "'k fw_event \<Rightarrow> ('k \<Rightarrow> datetime list) \<Rightarrow> ('k \<Rightarrow> datetime list)" where
  "history_step (Failed k t) h = h(k := h k @ [t])"
| "history_step (Checked k t) h = h"
| "history_step (Cleared k) h = h(k := [])"

fun event_times :: "'k fw_event list \<Rightarrow> datetime list" where
  "event_times [] = []"
| "event_times (Failed k t # es) = t # event_times es"
| "event_times (Checked k t # es) = t # event_times es"
| "event_times (Cleared k # es) = event_times es"

fun event_keys :: "'k fw_event list \<Rightarrow> 'k set" where
  "event_keys [] = {}"
| "event_keys (Failed k t # es) = insert k (event_keys es)"
| "event_keys (Checked k t # es) = event_keys es"
| "event_keys (Cleared k # es) = event_keys es"

definition history_covers :: "nat \<Rightarrow> datetime \<Rightarrow> datetime list \<Rightarrow> datetime list \<Rightarrow> bool" where
  "history_covers m c st h \<longleftrightarrow> sorted h \<and> (\<exists>pre. h = pre @ st \<and> (length st = m \<or> (\<forall>t \<in> set pre. t \<le> c)))"

lemma sorted_dropWhile_filter: "sorted xs \<Longrightarrow> dropWhile (\<lambda>t. t \<le> c) xs = filter (\<lambda>t. c < t) xs"
  for c :: "'a :: linorder"
proof (induction xs)
  case (Cons x xs)
  then show ?case
    by (cases "x \<le> c") (auto simp: filter_id_conv intro!: sym [OF filter_True])
qed simp

lemma covers_mono: "history_covers m c st h \<Longrightarrow> c \<le> c' \<Longrightarrow> history_covers m c' st h"
  by (fastforce simp: history_covers_def)

lemma covers_prune:
  assumes "history_covers m c st h" "c \<le> c'"
  shows "history_covers m c' (dropWhile (\<lambda>t. t \<le> c') st) h"
proof -
  obtain pre where h: "h = pre @ st" "sorted h" "length st = m \<or> (\<forall>t \<in> set pre. t \<le> c')"
    using covers_mono [OF assms] by (auto simp: history_covers_def)
  let ?tw = "takeWhile (\<lambda>t. t \<le> c') st"
  have tw: "\<forall>t \<in> set ?tw. t \<le> c'" using set_takeWhileD by force
  show ?thesis
  proof (cases "?tw = []")
    case True
    then have "dropWhile (\<lambda>t. t \<le> c') st = st" by (metis append_Nil takeWhile_dropWhile_id)
    with covers_mono [OF assms] show ?thesis by simp
  next
    case False
    then have first: "hd st \<le> c'" "st \<noteq> []"
      by (cases st; auto split: if_splits)+
    have "\<forall>t \<in> set pre. t \<le> hd st" using h first by (auto simp: sorted_append)
    then have "\<forall>t \<in> set (pre @ ?tw). t \<le> c'" using first tw by auto
    with h show ?thesis
      unfolding history_covers_def by (intro conjI exI [of _ "pre @ ?tw"]) auto
  qed
qed

lemma covers_append:
  assumes "history_covers m c st h" "0 < m" "length st \<le> m" "\<forall>t \<in> set h. t \<le> now"
  shows "history_covers m c (deque_append m st now) (h @ [now])"
proof -
  obtain pre where h: "h = pre @ st" "sorted h" "length st = m \<or> (\<forall>t \<in> set pre. t \<le> c)"
    using assms(1) by (auto simp: history_covers_def)
  have sorted: "sorted (h @ [now])" using h assms(4) by (simp add: sorted_append)
  show ?thesis
  proof (cases "length st < m")
    case True
    then have "deque_append m st now = st @ [now]" by (simp add: deque_append_def Let_def)
    with h sorted True show ?thesis by (auto simp: history_covers_def)
  next
    case False
    then have "deque_append m st now = drop (Suc (length st) - m) (st @ [now])"
      by (simp add: deque_append_def Let_def)
    then have "h @ [now] = (pre @ take (Suc (length st) - m) (st @ [now])) @ deque_append m st now"
      using h by (metis append.assoc append_take_drop_id)
    moreover have "length (deque_append m st now) = m"
      using False assms(3) by (simp add: length_deque_append)
    ultimately show ?thesis using sorted unfolding history_covers_def by blast
  qed
qed

lemma covers_count:
  assumes "history_covers m c st h" "length st \<le> m" "c \<le> c'"
  shows "m \<le> length (dropWhile (\<lambda>t. t \<le> c') st) \<longleftrightarrow> m \<le> length (filter (\<lambda>t. c' < t) h)"
proof -
  obtain pre where h: "h = pre @ st" "sorted h" "length st = m \<or> (\<forall>t \<in> set pre. t \<le> c')"
    using covers_mono [OF assms(1,3)] by (auto simp: history_covers_def)
  have st: "dropWhile (\<lambda>t. t \<le> c') st = filter (\<lambda>t. c' < t) st"
    using h by (intro sorted_dropWhile_filter) (simp add: sorted_append)
  show ?thesis
  proof (cases "\<forall>t \<in> set pre. t \<le> c'")
    case True
    then have "filter (\<lambda>t. c' < t) pre = []" by (auto simp: filter_empty_conv)
    with h st show ?thesis by simp
  next
    case False
    then have "length st = m" and "\<forall>t \<in> set st. c' < t"
      using h by (auto simp: sorted_append not_le intro: less_le_trans)
    with h st show ?thesis by (simp add: filter_id_conv)
  qed
qed

definition tracks :: "'k failure_window \<Rightarrow> ('k \<Rightarrow> datetime list) \<Rightarrow> datetime \<Rightarrow> bool" where
  "tracks w h now \<longleftrightarrow> fw_inv w \<and> (\<forall>k. history_covers (fw_max_failures w) (fw_cutoff w now) (stored w k) (h k)
     \<and> (\<forall>t \<in> set (h k). t \<le> now))"

lemma fw_cutoff_mono: "now \<le> t \<Longrightarrow> fw_cutoff w now \<le> fw_cutoff w t"
  by (simp add: fw_cutoff_def)

lemma tracks_recent:
  assumes "tracks w h now" "now \<le> t"
  shows "tracks (snd (recent k t w)) h t"
proof -
  have cov: "history_covers (fw_max_failures w) (fw_cutoff w t) (stored (snd (recent k t w)) k') (h k')" for k'
    using assms covers_mono [OF _ fw_cutoff_mono [OF assms(2), of w]]
      covers_prune [OF _ fw_cutoff_mono [OF assms(2), of w]]
    by (auto simp: tracks_def stored_recent)
  have "fw_cutoff (snd (recent k t w)) t = fw_cutoff w t" by (simp add: fw_cutoff_def)
  with cov assms show ?thesis
    by (fastforce simp: tracks_def fw_inv_recent)
qed

lemma stored_clear: "stored (fw_clear k w) k' = (if k' = k then [] else stored w k')"
  by (simp add: stored_def fw_clear_def)

lemma covers_Nil: "history_covers m c [] []"
  by (simp add: history_covers_def)

lemma fw_clear_params [simp]:
  "fw_max_failures (fw_clear k w) = fw_max_failures w"
  "fw_window_seconds (fw_clear k w) = fw_window_seconds w"
  "fw_max_tracked_keys (fw_clear k w) = fw_max_tracked_keys w"
  by (simp_all add: fw_clear_def)

lemma fw_cutoff_clear [simp]: "fw_cutoff (fw_clear k w) now = fw_cutoff w now"
  by (simp add: fw_cutoff_def)

lemma tracks_clear:
  assumes "tracks w h now"
  shows "tracks (fw_clear k w) (h(k := [])) now"
  unfolding tracks_def
proof (intro conjI allI)
  show "fw_inv (fw_clear k w)" using assms by (simp add: tracks_def fw_inv_clear)
next
  fix k'
  have "history_covers (fw_max_failures w) (fw_cutoff w now) (stored w k') (h k')"
    using assms by (simp add: tracks_def)
  then show "history_covers (fw_max_failures (fw_clear k w)) (fw_cutoff (fw_clear k w) now)
      (stored (fw_clear k w) k') ((h(k := [])) k')"
    by (cases "k' = k") (simp_all add: stored_clear covers_Nil)
next
  fix k'
  have "\<forall>t \<in> set (h k'). t \<le> now" using assms unfolding tracks_def by blast
  then show "\<forall>t \<in> set ((h(k := [])) k'). t \<le> now"
    by (cases "k' = k") simp_all
qed

definition room :: "'k \<Rightarrow> 'k failure_window \<Rightarrow> bool" where
  "room k w \<longleftrightarrow> k \<in> fst ` set (fw_failures w) \<or> length (fw_failures w) < fw_max_tracked_keys w"

lemma stored_appended:
  assumes "room k (snd (recent k t w))"
  shows "stored (appended k t w) k' =
    (if k' = k then deque_append (fw_max_failures w) (stored (snd (recent k t w)) k) t
     else stored (snd (recent k t w)) k')"
proof -
  have "after_eviction k t w = fw_failures (snd (recent k t w))"
    using assms by (auto simp: after_eviction_def room_def Let_def map_of_None_iff_key)
  then show ?thesis by (simp add: appended_def Let_def stored_def)
qed

lemma appended_params [simp]:
  "fw_max_failures (appended k t w) = fw_max_failures w"
  "fw_window_seconds (appended k t w) = fw_window_seconds w"
  "fw_max_tracked_keys (appended k t w) = fw_max_tracked_keys w"
  by (simp_all add: appended_def Let_def)

lemma tracks_appended:
  assumes "tracks w h now" "now \<le> t" "room k (snd (recent k t w))"
  shows "tracks (appended k t w) (h(k := h k @ [t])) t"
proof -
  let ?w1 = "snd (recent k t w)"
  have t1: "tracks ?w1 h t" by (rule tracks_recent [OF assms(1,2)])
  have inv: "fw_inv w" using assms(1) by (simp add: tracks_def)
  have "history_covers (fw_max_failures w) (fw_cutoff w t)
      (deque_append (fw_max_failures w) (stored ?w1 k) t) (h k @ [t])"
    using t1 fw_inv_stored [where key = k, OF fw_inv_recent [where key = k and now = t, OF inv]] inv
    by (intro covers_append) (auto simp: tracks_def fw_cutoff_def fw_inv_def)
  with t1 show ?thesis
    using fw_inv_appended [OF inv] assms(2)
    by (fastforce simp: tracks_def stored_appended [OF assms(3)] fw_cutoff_def)
qed

lemma keys_recent: "fst ` set (fw_failures (snd (recent k t w))) \<subseteq> fst ` set (fw_failures w)"
  by (auto simp: recent_def Let_def od_fst_update od_fst_delete dest: map_of_Some_key split: option.splits)

lemma keys_appended:
  "fst ` set (fw_failures (appended k t w)) \<subseteq> insert k (fst ` set (fw_failures w))"
proof -
  have "fst ` set (after_eviction k t w) \<subseteq> fst ` set (fw_failures w)"
    using keys_recent [of k t w] by (auto simp: after_eviction_def Let_def od_fst_delete)
  then show ?thesis by (auto simp: appended_def Let_def od_fst_update)
qed

lemma room_within:
  assumes "fw_inv w" "finite K" "card K \<le> fw_max_tracked_keys w" "k \<in> K" "fst ` set (fw_failures w) \<subseteq> K"
  shows "room k w"
proof (cases "k \<in> fst ` set (fw_failures w)")
  case False
  then have "fst ` set (fw_failures w) \<subset> K" using assms(4,5) by blast
  then have "card (fst ` set (fw_failures w)) < card K" using assms(2) by (rule psubset_card_mono [rotated])
  moreover have "length (fw_failures w) = card (fst ` set (fw_failures w))"
    using assms(1) by (metis fw_inv_def distinct_card length_map set_map)
  ultimately show ?thesis using assms(3) by (simp add: room_def)
qed (simp add: room_def)

lemma seconds_until_unlocked_snd [simp]: "snd (seconds_until_unlocked k t w) = snd (recent k t w)"
  by (simp add: seconds_until_unlocked_def Let_def split: prod.splits)

definition same_limits :: "'k failure_window \<Rightarrow> 'k failure_window \<Rightarrow> bool" where
  "same_limits v w \<longleftrightarrow> fw_max_failures v = fw_max_failures w
     \<and> fw_window_seconds v = fw_window_seconds w \<and> fw_max_tracked_keys v = fw_max_tracked_keys w"

lemma tracks_step:
  assumes "tracks w h now" "sorted (now # event_times [e])"
    and "finite K" "card K \<le> fw_max_tracked_keys w" "event_keys [e] \<union> fst ` set (fw_failures w) \<subseteq> K"
  shows "tracks (fw_step e w) (history_step e h) (last (now # event_times [e]))
    \<and> same_limits (fw_step e w) w \<and> fst ` set (fw_failures (fw_step e w)) \<subseteq> K"
proof (cases e)
  case (Failed k t)
  have inv: "fw_inv w" using assms(1) by (simp add: tracks_def)
  have t: "now \<le> t" using assms(2) Failed by simp
  have "fst ` set (fw_failures (snd (recent k t w))) \<subseteq> K" "k \<in> K"
    using keys_recent [of k t w] assms(5) Failed by auto
  then have room: "room k (snd (recent k t w))"
    using assms(3,4) by (intro room_within [OF fw_inv_recent [OF inv]]) auto
  have "tracks (snd (recent k t (appended k t w))) (h(k := h k @ [t])) t"
    by (rule tracks_recent [OF tracks_appended [OF assms(1) t room]]) simp
  moreover have "fst ` set (fw_failures (snd (recent k t (appended k t w)))) \<subseteq> K"
    using keys_recent [of k t "appended k t w"] keys_appended [of k t w] assms(5) Failed by auto
  ultimately show ?thesis
    using Failed inv by (simp add: record_failure_eq same_limits_def)
next
  case (Checked k t)
  then show ?thesis
    using assms tracks_recent [OF assms(1), of t k] keys_recent [of k t w] by (auto simp: same_limits_def)
next
  case (Cleared k)
  then show ?thesis
    using assms tracks_clear [OF assms(1)] by (auto simp: fw_clear_def same_limits_def od_fst_delete)
qed

lemma event_times_Cons: "event_times (e # es) = event_times [e] @ event_times es"
  by (cases e) simp_all

lemma event_keys_Cons: "event_keys (e # es) = event_keys [e] \<union> event_keys es"
  by (cases e) simp_all

lemma tracks_run:
  assumes "tracks w h now" "sorted (now # event_times es)" "finite K" "card K \<le> fw_max_tracked_keys w"
    and "event_keys es \<union> fst ` set (fw_failures w) \<subseteq> K"
  shows "tracks (fold fw_step es w) (fold history_step es h) (last (now # event_times es))
    \<and> same_limits (fold fw_step es w) w"
  using assms
proof (induction es arbitrary: w h now)
  case Nil
  then show ?case by (simp add: same_limits_def)
next
  case (Cons e es)
  let ?now = "last (now # event_times [e])"
  have step: "tracks (fw_step e w) (history_step e h) ?now \<and> same_limits (fw_step e w) w
      \<and> fst ` set (fw_failures (fw_step e w)) \<subseteq> K"
    using Cons.prems event_times_Cons [of e es] event_keys_Cons [of e es]
    by (intro tracks_step) (auto simp: sorted_append simp del: event_times.simps)
  have "sorted (?now # event_times es)"
    using Cons.prems(2) by (cases e) auto
  with step Cons.prems event_keys_Cons [of e es]
  have "tracks (fold fw_step es (fw_step e w)) (fold history_step es (history_step e h))
      (last (?now # event_times es)) \<and> same_limits (fold fw_step es (fw_step e w)) (fw_step e w)"
    by (intro Cons.IH) (auto simp: same_limits_def)
  moreover have "last (?now # event_times es) = last (now # event_times (e # es))"
    by (cases e) auto
  ultimately show ?case using step by (simp add: same_limits_def)
qed

lemma tracks_locked:
  assumes "tracks w h now" "now \<le> t"
  shows "fst (is_locked_out k t w) \<longleftrightarrow>
    fw_max_failures w \<le> length (filter (\<lambda>u. t - seconds (fw_window_seconds w) < u) (h k))"
proof -
  have "history_covers (fw_max_failures w) (fw_cutoff w now) (stored w k) (h k)" "length (stored w k) \<le> fw_max_failures w"
    using assms(1) fw_inv_stored by (auto simp: tracks_def)
  from covers_count [OF this fw_cutoff_mono [OF assms(2), of w]]
  show ?thesis by (simp add: is_locked_out_fst recent_fst fw_cutoff_def)
qed

lemma tracks_new:
  "0 < m \<Longrightarrow> 0 < tracked \<Longrightarrow> tracks (new_failure_window m win tracked) (\<lambda>_. []) now"
  by (simp add: tracks_def fw_inv_new stored_def history_covers_def) (simp add: new_failure_window_def)

subsection \<open>Correctness of the window\<close>

lemma event_keys_finite: "finite (event_keys es)"
  by (induction es rule: event_keys.induct) auto

lemma last_times_le:
  "sorted (event_times es) \<Longrightarrow> \<forall>t \<in> set (event_times es). t \<le> now \<Longrightarrow> t0 \<le> now \<Longrightarrow>
    last (t0 # event_times es) \<le> now"
  by (auto simp: last_in_set)

text \<open>
  C27: a key is locked out exactly when it has at least \<open>max_failures\<close> failures, since it was last
  cleared, inside the window: the bounded deque of a \<open>FailureWindow\<close> never loses a failure that
  still counts, over any sequence of failures, checks and clears in time order, as long as no more
  keys fail than are tracked.
\<close>

theorem lockout_matches_history:
  assumes "0 < m" and "sorted (event_times es)" and "\<forall>t \<in> set (event_times es). t \<le> now"
    and "card (event_keys es) \<le> tracked" and "0 < tracked"
  shows "fst (is_locked_out k now (fold fw_step es (new_failure_window m win tracked)))
    \<longleftrightarrow> m \<le> length (filter (\<lambda>t. now - seconds win < t) (fold history_step es (\<lambda>_. []) k))"
proof -
  define t0 where "t0 = (if event_times es = [] then now else hd (event_times es))"
  have t0: "sorted (t0 # event_times es)" "t0 \<le> now"
    using assms(2,3) by (cases "event_times es"; simp add: t0_def)+
  let ?w = "new_failure_window m win tracked :: 'a failure_window"
  have limits: "fw_max_failures ?w = m" "fw_window_seconds ?w = win" "fw_max_tracked_keys ?w = tracked"
    "fw_failures ?w = []"
    by (simp_all add: new_failure_window_def)
  have run: "tracks (fold fw_step es ?w) (fold history_step es (\<lambda>_. [])) (last (t0 # event_times es))
      \<and> same_limits (fold fw_step es ?w) ?w"
    using assms t0 limits
    by (intro tracks_run [where K = "event_keys es"]) (simp_all add: tracks_new event_keys_finite)
  have "last (t0 # event_times es) \<le> now"
    using last_times_le [OF assms(2,3) t0(2)] .
  from tracks_locked [OF conjunct1 [OF run] this] conjunct2 [OF run] limits
  show ?thesis by (simp add: same_limits_def)
qed

theorem lockout_matches_history_witness:
  "fst (is_locked_out ''a'' (seconds 4)
      (fold fw_step [Failed ''a'' (seconds 1), Checked ''a'' (seconds 2), Failed ''a'' (seconds 3)]
        (new_failure_window 2 10 5)))
   \<and> \<not> fst (is_locked_out ''a'' (seconds 11)
      (fold fw_step [Failed ''a'' (seconds 1), Checked ''a'' (seconds 2), Failed ''a'' (seconds 3)]
        (new_failure_window 2 10 5)))"
proof
  show "fst (is_locked_out ''a'' (seconds 4)
      (fold fw_step [Failed ''a'' (seconds 1), Checked ''a'' (seconds 2), Failed ''a'' (seconds 3)]
        (new_failure_window 2 10 5)))"
    by (subst lockout_matches_history) (simp_all add: seconds_def)
  show "\<not> fst (is_locked_out ''a'' (seconds 11)
      (fold fw_step [Failed ''a'' (seconds 1), Checked ''a'' (seconds 2), Failed ''a'' (seconds 3)]
        (new_failure_window 2 10 5)))"
    by (subst lockout_matches_history) (simp_all add: seconds_def)
qed

lemma seconds_less_iff_ceil: "seconds s < d \<longleftrightarrow> s < ceil_seconds d"
  using ceil_seconds_ge [of d] ceil_seconds_least [of d s]
  by (metis linorder_not_le order_trans seconds_mono not_le)

lemma dropWhile_full:
  "xs \<noteq> [] \<Longrightarrow> length xs \<le> length (dropWhile P xs) \<longleftrightarrow> \<not> P (hd xs)"
  by (cases xs) (auto dest: order_trans [OF _ length_dropWhile_le] simp: not_le le_imp_less_Suc length_dropWhile_le)

text \<open>
  \<open>seconds_until_unlocked\<close> is exact. The number it returns is the least whole number of
  seconds after which the key is no longer locked: waiting any fewer is refused, waiting that
  long (a client obeying \<open>Retry-After\<close>) is not, and the answer is 0 exactly when the key is not
  locked now.
\<close>

theorem seconds_until_unlocked_exact:
  assumes "fw_inv w" and "seconds_until_unlocked key now w = (n, w')" and "0 \<le> s"
  shows "fst (is_locked_out key (now + seconds s) w') \<longleftrightarrow> s < n"
proof -
  define ts where "ts = fst (recent key now w)"
  have w': "w' = snd (recent key now w)"
    using assms(2) by (metis seconds_until_unlocked_snd snd_conv)
  have st: "stored w' key = ts" by (simp add: w' stored_recent ts_def recent_fst)
  have len: "length ts \<le> fw_max_failures w" and pos: "0 < fw_max_failures w"
    using fw_inv_stored [where key = key, OF fw_inv_recent [where key = key and now = now, OF assms(1)]] assms(1) st w'
    by (auto simp: fw_inv_def)
  have locked: "fst (is_locked_out key (now + seconds s) w') \<longleftrightarrow>
      fw_max_failures w \<le> length (dropWhile (\<lambda>t. t \<le> now + seconds s - seconds (fw_window_seconds w)) ts)"
    by (simp add: is_locked_out_fst recent_fst st fw_cutoff_def) (simp add: w')
  show ?thesis
  proof (cases "length ts < fw_max_failures w")
    case True
    then have "n = 0" using assms(2)
      by (simp add: seconds_until_unlocked_def Let_def ts_def split: prod.splits)
    with True assms(3) locked show ?thesis
      using length_dropWhile_le [of "\<lambda>t. t \<le> now + seconds s - seconds (fw_window_seconds w)" ts] by simp
  next
    case False
    then have full: "length ts = fw_max_failures w" "ts \<noteq> []" using len pos by auto
    let ?d = "hd ts + seconds (fw_window_seconds w) - now"
    have "now - seconds (fw_window_seconds w) < hd ts"
      using full(2) hd_dropWhile [of "\<lambda>t. t \<le> fw_cutoff w now" "stored w key"]
      by (simp add: ts_def recent_fst fw_cutoff_def)
    then have "seconds 0 < ?d" by (simp add: seconds_def)
    then have "1 \<le> ceil_seconds ?d" unfolding seconds_less_iff_ceil by simp
    moreover have "n = max 1 (ceil_seconds ?d)"
      using assms(2) False by (simp add: seconds_until_unlocked_def Let_def ts_def split: prod.splits)
    ultimately have n: "n = ceil_seconds ?d" by simp
    have "fst (is_locked_out key (now + seconds s) w') \<longleftrightarrow>
        \<not> hd ts \<le> now + seconds s - seconds (fw_window_seconds w)"
      using locked dropWhile_full [OF full(2)] by (simp add: full(1))
    also have "\<dots> \<longleftrightarrow> seconds s < ?d" by auto
    finally show ?thesis using n by (simp add: seconds_less_iff_ceil)
  qed
qed

definition example_window :: "string failure_window" where
  "example_window = \<lparr>fw_max_failures = 1, fw_window_seconds = 10, fw_max_tracked_keys = 2,
     fw_failures = [(''a'', [seconds 5])]\<rparr>"

theorem seconds_until_unlocked_exact_witness:
  "seconds_until_unlocked ''a'' (seconds 7) example_window = (8, example_window)
   \<and> fst (is_locked_out ''a'' (seconds 7 + seconds 7) example_window)
   \<and> \<not> fst (is_locked_out ''a'' (seconds 7 + seconds 8) example_window)"
proof -
  have inv: "fw_inv example_window" by (simp add: fw_inv_def example_window_def)
  have res: "seconds_until_unlocked ''a'' (seconds 7) example_window = (8, example_window)"
    by (simp add: seconds_until_unlocked_def recent_def example_window_def fw_cutoff_def seconds_def
        ceil_seconds_def Let_def)
  from seconds_until_unlocked_exact [OF inv res, of 7] seconds_until_unlocked_exact [OF inv res, of 8] res
  show ?thesis by simp
qed

text \<open>
  \<open>record_failure\<close> never raises, keeps the window bounded (at most \<open>max_tracked_keys\<close> keys, at
  most \<open>max_failures\<close> timestamps each) and reports a lockout exactly at the failure that starts
  it: the key was not locked before and is locked after.
\<close>

theorem record_failure_correct:
  assumes "fw_inv w"
  shows "\<exists>newly w'. record_failure key now w = Some (newly, w') \<and> fw_inv w' \<and> same_limits w' w
    \<and> (newly \<longleftrightarrow> \<not> fst (is_locked_out key now w) \<and> fst (is_locked_out key now w'))"
proof -
  let ?a = "appended key now w"
  have "fst (is_locked_out key now (snd (recent key now ?a))) = fst (is_locked_out key now ?a)"
    by (simp add: is_locked_out_fst recent_fst stored_recent fw_cutoff_def dropWhile_idem)
  with assms show ?thesis
    by (auto simp: record_failure_eq same_limits_def intro: fw_inv_recent fw_inv_appended)
qed

theorem record_failure_correct_witness:
  "\<exists>newly w'. record_failure ''a'' (seconds 6) example_window = Some (newly, w') \<and> fw_inv w'"
  using record_failure_correct [of example_window "''a''" "seconds 6"]
  by (auto simp: fw_inv_def example_window_def)

subsection \<open>Correctness of the scoped throttle\<close>

definition wait_of :: "scoped_throttle \<Rightarrow> datetime \<Rightarrow> lockout_scope \<times> string \<Rightarrow> int" where
  "wait_of th now p = (case map_of th (fst p) of None \<Rightarrow> 0
     | Some w \<Rightarrow> fst (seconds_until_unlocked (snd p) now w))"

definition retry_after :: "lockout option \<Rightarrow> int" where
  "retry_after l = (case l of None \<Rightarrow> 0 | Some x \<Rightarrow> lo_retry_after_seconds x)"

definition better :: "lockout_scope \<Rightarrow> int \<Rightarrow> lockout option \<Rightarrow> lockout option" where
  "better scope wait worst = (if retry_after worst < wait
     then Some \<lparr>lo_scope = scope, lo_retry_after_seconds = wait\<rparr> else worst)"

lemma seconds_until_unlocked_nonneg: "0 \<le> fst (seconds_until_unlocked k now w)"
  by (auto simp: seconds_until_unlocked_def Let_def max_def split: prod.splits)

lemma wait_of_nonneg: "0 \<le> wait_of th now p"
  by (simp add: wait_of_def seconds_until_unlocked_nonneg split: option.splits)

lemma wait_of_update_other: "fst p \<noteq> scope \<Longrightarrow> wait_of (AList.update scope w th) now p = wait_of th now p"
  by (simp add: wait_of_def)

text \<open>With distinct scopes no window is read twice, so the waits are those of the initial state.\<close>

lemma lockout_loop_eq:
  assumes "distinct (map fst ks)" "fst ` set ks \<subseteq> fst ` set th" "case worst of None \<Rightarrow> True | Some l \<Rightarrow> 0 < lo_retry_after_seconds l"
  shows "fst (lockout_loop ks now worst th) = fold (\<lambda>p. better (fst p) (wait_of th now p)) ks worst"
  using assms
proof (induction ks arbitrary: worst th)
  case Nil
  then show ?case by simp
next
  case (Cons p ks)
  obtain scope key where p: "p = (scope, key)" by (cases p)
  have "scope \<in> fst ` set th" using Cons.prems(2) p by simp
  then obtain w where w: "map_of th scope = Some w" by (metis map_of_None_iff_key option.exhaust)
  obtain n w' where r: "seconds_until_unlocked key now w = (n, w')" by fastforce
  have n: "0 \<le> n" "wait_of th now p = n"
    using seconds_until_unlocked_nonneg [of key now w] w r by (simp_all add: wait_of_def p)
  have better: "(if n \<noteq> 0 \<and> (case worst of None \<Rightarrow> True | Some l \<Rightarrow> lo_retry_after_seconds l < n)
      then Some \<lparr>lo_scope = scope, lo_retry_after_seconds = n\<rparr> else worst) = better scope n worst"
    using n(1) Cons.prems(3) by (auto simp: better_def retry_after_def split: option.splits)
  have other: "fst q \<noteq> scope" if "q \<in> set ks" for q
    using Cons.prems(1) that by (auto simp: p)
  have rest: "fold (\<lambda>p. better (fst p) (wait_of (AList.update scope w' th) now p)) ks b =
      fold (\<lambda>p. better (fst p) (wait_of th now p)) ks b" for b
    by (intro fold_cong) (simp_all add: wait_of_update_other other)
  have "fst (lockout_loop ks now (better scope n worst) (AList.update scope w' th))
      = fold (\<lambda>p. better (fst p) (wait_of (AList.update scope w' th) now p)) ks (better scope n worst)"
  proof (rule Cons.IH)
    show "distinct (map fst ks)" using Cons.prems(1) by simp
    show "fst ` set ks \<subseteq> fst ` set (AList.update scope w' th)"
      using Cons.prems(2) by (auto simp: od_fst_update)
    show "case better scope n worst of None \<Rightarrow> True | Some l \<Rightarrow> 0 < lo_retry_after_seconds l"
      using Cons.prems(3) n(1) by (auto simp: better_def retry_after_def split: option.splits)
  qed
  then show ?case using w r n(2) better rest by (simp add: p)
qed

lemma fold_better:
  "let r = fold (\<lambda>p. better (fst p) (f p)) ks worst in
     retry_after worst \<le> retry_after r \<and> (\<forall>p \<in> set ks. f p \<le> retry_after r)
     \<and> (r = worst \<or> (\<exists>p \<in> set ks. r = Some \<lparr>lo_scope = fst p, lo_retry_after_seconds = f p\<rparr>))"
proof (induction ks arbitrary: worst)
  case (Cons p ks)
  have "retry_after worst \<le> retry_after (better (fst p) (f p) worst)"
      "f p \<le> retry_after (better (fst p) (f p) worst)"
      "better (fst p) (f p) worst = worst \<or>
       better (fst p) (f p) worst = Some \<lparr>lo_scope = fst p, lo_retry_after_seconds = f p\<rparr>"
    by (auto simp: better_def retry_after_def)
  with Cons [of "better (fst p) (f p) worst"] show ?case
    by (auto simp: Let_def)
qed simp

lemma throttle_keys_distinct: "od_distinct keys \<Longrightarrow> distinct (map fst (throttle_keys th keys))"
  by (auto simp: throttle_keys_def distinct_map inj_on_def)

lemma throttle_keys_subset: "fst ` set (throttle_keys th keys) \<subseteq> fst ` set th"
  by (fastforce simp: throttle_keys_def)

lemma fold_better_pos:
  "retry_after worst = 0 \<longrightarrow> worst = None \<Longrightarrow> 0 \<le> retry_after worst \<Longrightarrow>
    case fold (\<lambda>p. better (fst p) (f p)) ks worst of None \<Rightarrow> True | Some l \<Rightarrow> 0 < lo_retry_after_seconds l"
proof (induction ks arbitrary: worst)
  case Nil
  then show ?case by (cases worst) (auto simp: retry_after_def)
next
  case (Cons p ks)
  then show ?case by (auto simp: better_def retry_after_def)
qed

text \<open>
  The lockout a \<open>ScopedThrottle\<close> reports is the longest one. An attempt is let through exactly
  when no scope that counts it is locked, and a refusal names a locked scope with its own waiting
  time, at least that of every other scope.
\<close>

theorem scoped_lockout_longest:
  assumes "od_distinct keys"
  shows "case fst (scoped_lockout keys now th) of
      None \<Rightarrow> (\<forall>p \<in> set (throttle_keys th keys). wait_of th now p = 0)
    | Some l \<Rightarrow> 0 < lo_retry_after_seconds l
        \<and> (\<exists>p \<in> set (throttle_keys th keys). fst p = lo_scope l \<and> wait_of th now p = lo_retry_after_seconds l)
        \<and> (\<forall>p \<in> set (throttle_keys th keys). wait_of th now p \<le> lo_retry_after_seconds l)"
proof -
  let ?ks = "throttle_keys th keys"
  let ?r = "fold (\<lambda>p. better (fst p) (wait_of th now p)) ?ks None"
  have r: "fst (scoped_lockout keys now th) = ?r"
    unfolding scoped_lockout_def
    by (rule lockout_loop_eq) (simp_all add: throttle_keys_distinct assms throttle_keys_subset)
  have spec: "\<forall>p \<in> set ?ks. wait_of th now p \<le> retry_after ?r"
      "?r = None \<or> (\<exists>p \<in> set ?ks. ?r = Some \<lparr>lo_scope = fst p, lo_retry_after_seconds = wait_of th now p\<rparr>)"
    using fold_better [of "wait_of th now" ?ks None] by (auto simp: Let_def)
  have pos: "case ?r of None \<Rightarrow> True | Some l \<Rightarrow> 0 < lo_retry_after_seconds l"
    by (rule fold_better_pos) (simp_all add: retry_after_def)
  show ?thesis
  proof (cases ?r)
    case None
    then show ?thesis using spec(1) wait_of_nonneg [of th now] r
      by (auto simp: retry_after_def intro!: antisym)
  next
    case (Some l)
    then obtain p where p: "p \<in> set ?ks" "l = \<lparr>lo_scope = fst p, lo_retry_after_seconds = wait_of th now p\<rparr>"
      using spec(2) by auto
    then have "fst p = lo_scope l \<and> wait_of th now p = lo_retry_after_seconds l" by simp
    then show ?thesis using Some spec(1) pos r p(1) by (auto simp only: retry_after_def option.case)
  qed
qed

theorem scoped_lockout_longest_witness:
  "case fst (admin_lockout (Some ''10.0.0.9'') (seconds 20) (new_admin_throttle 5 20 300)) of
      None \<Rightarrow> (\<forall>p \<in> set (throttle_keys (new_admin_throttle 5 20 300) [(LS_SOURCE, ''10.0.0.9'')]).
                wait_of (new_admin_throttle 5 20 300) (seconds 20) p = 0)
    | Some l \<Rightarrow> 0 < lo_retry_after_seconds l"
  using scoped_lockout_longest [of "[(LS_SOURCE, ''10.0.0.9'')]" "new_admin_throttle 5 20 300" "seconds 20"]
  by (auto simp: admin_lockout_def client_key_def split: option.splits)

end
