(* ===== verification/Flow_Models.thy ===== *)
theory Flow_Models
  imports Models
begin

section \<open>Packets and flows\<close>

text \<open>
  \<open>core/models/common.py\<close> (the statistics records), \<open>core/models/packet.py\<close> and
  \<open>core/models/flow.py\<close>. \<open>NonNegativeInt\<close> fields are \<open>nat\<close>. \<open>Flow\<close>'s constructor runs
  \<open>_check_consistency\<close> after the field constraints; \<open>new_flow\<close> returns \<open>None\<close> where it raises.
\<close>

record packet_size_stats =
  zs_min_bytes :: nat
  zs_max_bytes :: nat
  zs_mean_bytes :: real
  zs_std_bytes :: real

record payload_stats =
  pl_forward_bytes :: nat
  pl_backward_bytes :: nat
  pl_min_bytes :: nat
  pl_max_bytes :: nat
  pl_mean_bytes :: real
  pl_std_bytes :: real

definition total_bytes :: "payload_stats \<Rightarrow> nat" where
  "total_bytes p = pl_forward_bytes p + pl_backward_bytes p"

record inter_arrival_stats =
  ia_min_seconds :: real
  ia_max_seconds :: real
  ia_mean_seconds :: real
  ia_std_seconds :: real

record tcp_flags =
  tf_syn :: bool
  tf_ack :: bool
  tf_fin :: bool
  tf_rst :: bool
  tf_psh :: bool
  tf_urg :: bool

record tcp_flag_counts =
  fc_syn :: nat
  fc_ack :: nat
  fc_fin :: nat
  fc_rst :: nat
  fc_psh :: nat
  fc_urg :: nat
  fc_ece :: nat
  fc_cwr :: nat

text \<open>A packet's address: \<open>IPv4Address | IPv6Address\<close>.\<close>

datatype ip_address = V4 ipv4_address | V6 "128 word"

datatype address_family = AF_IPV4 | AF_IPV6

record packet_metadata =
  pm_timestamp :: datetime
  pm_address_family :: address_family
  pm_source_ip :: ip_address
  pm_destination_ip :: ip_address
  pm_protocol :: protocol
  pm_source_port :: "int option"
  pm_destination_port :: "int option"
  pm_tcp_flags :: "tcp_flags option"
  pm_total_length :: nat
  pm_payload_length :: nat
  pm_source_mac :: "mac_address option"
  pm_destination_mac :: "mac_address option"

record flow =
  fl_flow_id :: string
  fl_source_ip :: ipv4_address
  fl_destination_ip :: ipv4_address
  fl_source_port :: "int option"
  fl_destination_port :: "int option"
  fl_protocol :: protocol
  fl_first_seen :: datetime
  fl_last_seen :: datetime
  fl_packet_count :: nat
  fl_byte_count :: nat
  fl_forward_packet_count :: nat
  fl_backward_packet_count :: nat
  fl_forward_byte_count :: nat
  fl_backward_byte_count :: nat
  fl_tcp_flags :: tcp_flag_counts
  fl_packet_size_stats :: packet_size_stats
  fl_inter_arrival_stats :: inter_arrival_stats
  fl_payload_stats :: "payload_stats option"
  fl_opened_by_initiation :: bool
  fl_source_mac :: "mac_address option"
  fl_destination_mac :: "mac_address option"

text \<open>The field constraints: ports in range, a non-empty id, statistics that are not negative.\<close>

definition flow_fields_ok :: "flow \<Rightarrow> bool" where
  "flow_fields_ok f \<longleftrightarrow> fl_flow_id f \<noteq> [] \<and> port_ok (fl_source_port f) \<and> port_ok (fl_destination_port f)
     \<and> 0 \<le> zs_mean_bytes (fl_packet_size_stats f) \<and> 0 \<le> zs_std_bytes (fl_packet_size_stats f)
     \<and> 0 \<le> ia_min_seconds (fl_inter_arrival_stats f) \<and> 0 \<le> ia_max_seconds (fl_inter_arrival_stats f)
     \<and> 0 \<le> ia_mean_seconds (fl_inter_arrival_stats f) \<and> 0 \<le> ia_std_seconds (fl_inter_arrival_stats f)
     \<and> (case fl_payload_stats f of None \<Rightarrow> True | Some p \<Rightarrow> 0 \<le> pl_mean_bytes p \<and> 0 \<le> pl_std_bytes p)"

definition flow_check_consistency :: "flow \<Rightarrow> bool" where
  "flow_check_consistency f \<longleftrightarrow>
     \<not> fl_last_seen f < fl_first_seen f
     \<and> (case fl_payload_stats f of None \<Rightarrow> True | Some p \<Rightarrow> \<not> fl_byte_count f < total_bytes p)
     \<and> fl_forward_packet_count f + fl_backward_packet_count f = fl_packet_count f
     \<and> fl_forward_byte_count f + fl_backward_byte_count f = fl_byte_count f"

definition new_flow :: "flow \<Rightarrow> flow option" where
  "new_flow f = (if flow_fields_ok f \<and> flow_check_consistency f then Some f else None)"

text \<open>A one-packet TCP flow, for the concrete examples.\<close>

definition example_flow :: flow where
  "example_flow = \<lparr>fl_flow_id = ''f'', fl_source_ip = ipv4 10 0 0 5, fl_destination_ip = ipv4 93 184 216 34,
     fl_source_port = Some 50000, fl_destination_port = Some 443, fl_protocol = P_TCP, fl_first_seen = 0,
     fl_last_seen = 1, fl_packet_count = 1, fl_byte_count = 60, fl_forward_packet_count = 1,
     fl_backward_packet_count = 0, fl_forward_byte_count = 60, fl_backward_byte_count = 0,
     fl_tcp_flags = \<lparr>fc_syn = 1, fc_ack = 0, fc_fin = 0, fc_rst = 0, fc_psh = 0, fc_urg = 0, fc_ece = 0, fc_cwr = 0\<rparr>,
     fl_packet_size_stats = \<lparr>zs_min_bytes = 60, zs_max_bytes = 60, zs_mean_bytes = 60, zs_std_bytes = 0\<rparr>,
     fl_inter_arrival_stats = \<lparr>ia_min_seconds = 0, ia_max_seconds = 0, ia_mean_seconds = 0, ia_std_seconds = 0\<rparr>,
     fl_payload_stats = None, fl_opened_by_initiation = True, fl_source_mac = Some ''02:00:00:00:00:02'',
     fl_destination_mac = None\<rparr>"

end
