(* ===== verification/Generator.thy ===== *)
theory Generator
  imports Flow_Models
begin

section \<open>The candidate-rule generator\<close>

text \<open>
  \<open>firewall/generator.py\<close>: a version 1 decision and its flow to the narrowest candidate rule. The
  resolver argument is the binding table's \<open>resolve_mac\<close>, or nothing. The freshly generated rule
  id is a parameter. \<open>CandidateRule\<close>'s model constraints hold by construction, which
  \<open>generated_rule_narrow\<close> shows.
\<close>

definition unicast_or_none :: "mac_address option \<Rightarrow> mac_address option" where
  "unicast_or_none mac = (case mac of None \<Rightarrow> None | Some m \<Rightarrow> unicast_mac m)"

definition target_mac :: "flow \<Rightarrow> (ipv4_address \<Rightarrow> mac_address option) option \<Rightarrow> mac_address option" where
  "target_mac fl resolve =
     (case (case resolve of Some f \<Rightarrow> f (fl_source_ip fl) | None \<Rightarrow> None) of
        None \<Rightarrow> None
      | Some bound \<Rightarrow>
          (case unicast_or_none (fl_source_mac fl) of
             Some seen \<Rightarrow> if seen \<noteq> bound then Some seen else Some bound
           | None \<Rightarrow> Some bound))"

definition generate_candidate_rule ::
    "string \<Rightarrow> firewall_decision \<Rightarrow> flow \<Rightarrow> datetime \<Rightarrow> int \<Rightarrow> (ipv4_address \<Rightarrow> mac_address option) option
       \<Rightarrow> candidate_rule option" where
  "generate_candidate_rule uuid d fl created_at default_ttl_seconds resolve =
     (if fd_action d = FA_ALLOW then None
      else Some \<lparr>rf_action = fd_action d, rf_direction = RD_INBOUND,
                 rf_source = host_network (fl_source_ip fl), rf_destination = host_network (fl_destination_ip fl),
                 rf_protocol = fl_protocol fl, rf_source_port = None,
                 rf_destination_port = fl_destination_port fl, rf_reason = fd_reason d,
                 rf_threat_score = Some (fd_threat_score d), rf_evidence = fd_evidence d, rf_metadata = [],
                 rf_target = Some \<lparr>rt_ip = fl_source_ip fl, rt_mac = target_mac fl resolve\<rparr>,
                 cr_id = uuid, cr_decision_id = fd_id d, cr_created_at = created_at,
                 cr_expires_at = Some (created_at + seconds default_ttl_seconds), cr_status = RS_CANDIDATE\<rparr>)"

text \<open>
  A generated rule never reaches beyond its evidence. A decision to allow generates nothing;
  any other decision generates a well-formed candidate that matches exactly the flow's source and
  destination address, expires after the configured time to live, and names as its device the
  flow's source address with: no MAC when the address is unbound; the frame's own MAC when it is a
  unicast address other than the bound one (a spoofed source); the bound MAC otherwise. So a bound
  owner is named only when no other device's frame carried the traffic.
\<close>

theorem generated_rule_narrow:
  assumes "port_ok (fl_destination_port fl)" "fd_reason d \<noteq> []" "0 \<le> fd_threat_score d" "fd_threat_score d \<le> 100"
  shows "case generate_candidate_rule uuid d fl created_at ttl resolve of
      None \<Rightarrow> fd_action d = FA_ALLOW
    | Some r \<Rightarrow> fd_action d \<noteq> FA_ALLOW \<and> valid_rule_fields r \<and> rf_action r = fd_action d
        \<and> (\<forall>a. in_network a (rf_source r) \<longleftrightarrow> a = fl_source_ip fl)
        \<and> (\<forall>a. in_network a (rf_destination r) \<longleftrightarrow> a = fl_destination_ip fl)
        \<and> cr_expires_at r = Some (created_at + seconds ttl)
        \<and> (\<exists>t. rf_target r = Some t \<and> rt_ip t = fl_source_ip fl
            \<and> (case Option.bind resolve (\<lambda>f. f (fl_source_ip fl)) of
                 None \<Rightarrow> rt_mac t = None
               | Some bound \<Rightarrow>
                   rt_mac t = (case Option.bind (fl_source_mac fl) unicast_mac of
                                 Some seen \<Rightarrow> Some seen | None \<Rightarrow> Some bound)))"
  using assms
  by (auto simp: generate_candidate_rule_def valid_rule_fields_def check_target_is_the_source_def port_ok_def
      target_mac_def unicast_or_none_def split: option.splits)

definition example_decision :: firewall_decision where
  "example_decision = \<lparr>fd_id = ''d'', fd_threat_assessment_id = ''t'', fd_flow_id = Some ''f'', fd_action = FA_BLOCK,
     fd_threat_score = 95, fd_threat_level = TL_CRITICAL, fd_reason = ''r'', fd_evidence = [''e''], fd_decided_at = 0\<rparr>"

lemma example_mac: "unicast_mac ''02:00:00:00:00:02'' = Some ''02:00:00:00:00:02''"
  by (simp add: unicast_mac_def normalise_mac_def mac_pattern_def is_hex_def hex_value_alt require_unicast_identity_def
      first_octet_def ascii_lower_def less_eq_char_def)

theorem generated_rule_narrow_witness:
  "\<exists>r t. generate_candidate_rule ''r'' example_decision example_flow 0 60 (Some (\<lambda>_. Some ''02:00:00:00:00:01'')) = Some r
     \<and> valid_rule_fields r \<and> rf_target r = Some t \<and> rt_mac t = Some ''02:00:00:00:00:02''"
  using generated_rule_narrow [where fl = example_flow and d = example_decision and uuid = "''r''"
      and created_at = 0 and ttl = 60 and resolve = "Some (\<lambda>_. Some ''02:00:00:00:00:01'')"]
  by (auto simp: example_flow_def example_decision_def port_ok_def example_mac split: option.splits)

end
