(* ===== verification/Rate_Limiter.thy ===== *)
theory Rate_Limiter
  imports Prelude
begin

section \<open>The rule-creation rate cap\<close>

text \<open>
  \<open>firewall/rate_limiter.py\<close>: \<open>RuleCreationRateLimiter\<close> with its deque of timestamps. The window
  is a \<open>timedelta\<close> (the code builds it from the configured number of seconds at every call). The
  validator's rate-cap stage calls \<open>would_allow\<close> and the manager calls \<open>record\<close> once a candidate
  has passed every stage, which is what \<open>admit\<close> composes; the property is the cap this gives.
\<close>

record rate_limiter =
  rl_max_per_window :: int
  rl_window :: timedelta
  rl_timestamps :: "datetime list"

definition new_rate_limiter :: "int \<Rightarrow> timedelta \<Rightarrow> rate_limiter" where
  "new_rate_limiter m w = \<lparr>rl_max_per_window = m, rl_window = w, rl_timestamps = []\<rparr>"

text \<open>\<open>_prune\<close>: the \<open>while\<close> loop pops from the left while the oldest stamp is before the cutoff.\<close>

fun pop_before :: "datetime \<Rightarrow> datetime list \<Rightarrow> datetime list" where
  "pop_before cutoff [] = []"
| "pop_before cutoff (t # ts) = (if t < cutoff then pop_before cutoff ts else t # ts)"

definition rl_prune :: "datetime \<Rightarrow> rate_limiter \<Rightarrow> rate_limiter" where
  "rl_prune now r = r\<lparr>rl_timestamps := pop_before (now - rl_window r) (rl_timestamps r)\<rparr>"

definition would_allow :: "datetime \<Rightarrow> rate_limiter \<Rightarrow> bool \<times> rate_limiter" where
  "would_allow now r =
     (let r' = rl_prune now r in (int (length (rl_timestamps r')) < rl_max_per_window r', r'))"

definition count_in_window :: "datetime \<Rightarrow> rate_limiter \<Rightarrow> int \<times> rate_limiter" where
  "count_in_window now r = (let r' = rl_prune now r in (int (length (rl_timestamps r')), r'))"

definition rl_record :: "datetime \<Rightarrow> rate_limiter \<Rightarrow> rate_limiter" where
  "rl_record now r =
     (let r' = rl_prune now r in r'\<lparr>rl_timestamps := rl_timestamps r' @ [now]\<rparr>)"

text \<open>One candidate that passes every other stage: budget check, then consumption when admitted.\<close>

definition admit :: "datetime \<Rightarrow> rate_limiter \<Rightarrow> bool \<times> rate_limiter" where
  "admit now r = (let (ok, r') = would_allow now r in (ok, if ok then rl_record now r' else r'))"

fun admitted :: "datetime list \<Rightarrow> rate_limiter \<Rightarrow> datetime list \<times> rate_limiter" where
  "admitted [] r = ([], r)"
| "admitted (now # ts) r =
     (let (ok, r') = admit now r; (acc, r'') = admitted ts r' in (if ok then now # acc else acc, r''))"

subsection \<open>The deque is the history inside the window\<close>

definition in_window :: "timedelta \<Rightarrow> datetime \<Rightarrow> datetime list \<Rightarrow> datetime list" where
  "in_window w T ts = filter (\<lambda>t. T - w \<le> t \<and> t \<le> T) ts"

lemma pop_before_sorted: "sorted ts \<Longrightarrow> pop_before c ts = filter (\<lambda>t. c \<le> t) ts"
proof (induction ts)
  case (Cons t ts)
  then have "\<not> t < c \<Longrightarrow> filter (\<lambda>t. c \<le> t) ts = ts" by (intro filter_True) auto
  with Cons show ?case by auto
qed simp

definition rl_tracks :: "datetime list \<Rightarrow> datetime \<Rightarrow> rate_limiter \<Rightarrow> bool" where
  "rl_tracks past t r \<longleftrightarrow> sorted past \<and> (\<forall>x \<in> set past. x \<le> t) \<and> sorted (rl_timestamps r)
     \<and> (\<forall>c. t - rl_window r \<le> c \<longrightarrow> filter ((\<le>) c) (rl_timestamps r) = filter ((\<le>) c) past)"

lemma rl_prune_tracks:
  assumes "rl_tracks past t r" "t \<le> now"
  shows "rl_timestamps (rl_prune now r) = filter ((\<le>) (now - rl_window r)) past"
    and "rl_tracks past now (rl_prune now r)"
proof -
  let ?c = "now - rl_window r"
  have "t - rl_window r \<le> ?c" "sorted (rl_timestamps r)"
    using assms by (simp_all add: rl_tracks_def)
  then show eq: "rl_timestamps (rl_prune now r) = filter ((\<le>) ?c) past"
    using assms(1) by (simp add: rl_prune_def pop_before_sorted rl_tracks_def)
  have "filter ((\<le>) c) (filter ((\<le>) ?c) past) = filter ((\<le>) c) past" if "?c \<le> c" for c
    using that by (auto intro: filter_cong)
  then show "rl_tracks past now (rl_prune now r)"
    using assms eq by (auto simp: rl_tracks_def rl_prune_def sorted_wrt_filter)
qed

lemma rl_prune_window [simp]: "rl_window (rl_prune now r) = rl_window r"
    "rl_max_per_window (rl_prune now r) = rl_max_per_window r"
  by (simp_all add: rl_prune_def)

lemma rl_record_tracks:
  assumes "rl_tracks past now r"
  shows "rl_tracks (past @ [now]) now (rl_record now r)"
  using assms rl_prune_tracks [OF assms order_refl]
  by (auto simp: rl_tracks_def rl_record_def Let_def sorted_append)

lemma admit_tracks:
  assumes "rl_tracks past t r" "t \<le> now" "0 \<le> rl_window r"
  shows "fst (admit now r) \<longleftrightarrow> int (length (in_window (rl_window r) now past)) < rl_max_per_window r"
    and "rl_tracks (if fst (admit now r) then past @ [now] else past) now (snd (admit now r))"
    and "rl_window (snd (admit now r)) = rl_window r"
    and "rl_max_per_window (snd (admit now r)) = rl_max_per_window r"
proof -
  have "in_window (rl_window r) now past = filter ((\<le>) (now - rl_window r)) past"
    using assms(1,2) by (auto simp: in_window_def rl_tracks_def intro!: filter_cong)
  then show "fst (admit now r) \<longleftrightarrow> int (length (in_window (rl_window r) now past)) < rl_max_per_window r"
    using rl_prune_tracks(1) [OF assms(1,2)] by (simp add: admit_def would_allow_def Let_def)
  show "rl_tracks (if fst (admit now r) then past @ [now] else past) now (snd (admit now r))"
    using rl_prune_tracks(2) [OF assms(1,2)] rl_record_tracks by (simp add: admit_def would_allow_def Let_def)
qed (simp_all add: admit_def would_allow_def Let_def rl_record_def)

lemma in_window_append: "in_window w T (xs @ ys) = in_window w T xs @ in_window w T ys"
  by (simp add: in_window_def)

lemma length_filter_subset:
  "(\<And>x. x \<in> set xs \<Longrightarrow> P x \<Longrightarrow> Q x) \<Longrightarrow> length (filter P xs) \<le> length (filter Q xs)"
  by (induction xs) (auto simp: le_SucI)

lemma admitted_capped:
  assumes "rl_tracks past t r" "sorted (t # ts)" "0 \<le> rl_window r" "0 \<le> rl_max_per_window r"
    and "\<forall>T. int (length (in_window (rl_window r) T past)) \<le> rl_max_per_window r"
  shows "int (length (in_window (rl_window r) T (past @ fst (admitted ts r)))) \<le> rl_max_per_window r"
  using assms
proof (induction ts arbitrary: past t r)
  case (Cons now ts)
  let ?w = "rl_window r" and ?ok = "fst (admit now r)"
  let ?past = "if ?ok then past @ [now] else past"
  have le: "t \<le> now" and s: "sorted (now # ts)" using Cons.prems(2) by auto
  note a = admit_tracks [OF Cons.prems(1) le Cons.prems(3)]
  have cap: "int (length (in_window ?w T ?past)) \<le> rl_max_per_window r" for T
  proof (cases "?ok \<and> now \<le> T \<and> T - ?w \<le> now")
    case True
    have "length (in_window ?w T past) \<le> length (in_window ?w now past)"
      unfolding in_window_def using True Cons.prems(1) le by (intro length_filter_subset) (auto simp: rl_tracks_def)
    then show ?thesis using True a(1) by (simp add: in_window_append) (simp add: in_window_def)
  next
    case False
    then have "in_window ?w T ?past = in_window ?w T past" by (auto simp: in_window_def)
    then show ?thesis using Cons.prems(5) by simp
  qed
  have "int (length (in_window ?w T (?past @ fst (admitted ts (snd (admit now r)))))) \<le> rl_max_per_window r"
    using Cons.IH [OF a(2) s] a(3,4) Cons.prems(3,4) cap by simp
  then show ?case by (simp add: Let_def case_prod_unfold split: if_splits)
qed simp

lemma rl_tracks_new: "rl_tracks [] t (new_rate_limiter m w)"
  by (simp add: rl_tracks_def new_rate_limiter_def)

lemma admitted_tracks:
  assumes "rl_tracks past t r" "sorted (t # ts)" "0 \<le> rl_window r"
  shows "rl_tracks (past @ fst (admitted ts r)) (last (t # ts)) (snd (admitted ts r))
    \<and> rl_window (snd (admitted ts r)) = rl_window r
    \<and> rl_max_per_window (snd (admitted ts r)) = rl_max_per_window r"
  using assms
proof (induction ts arbitrary: past t r)
  case (Cons now ts)
  have le: "t \<le> now" and s: "sorted (now # ts)" using Cons.prems(2) by auto
  note a = admit_tracks [OF Cons.prems(1) le Cons.prems(3)]
  show ?case
    using Cons.IH [OF a(2) s] a(3,4) Cons.prems(3) by (auto simp: Let_def case_prod_unfold split: if_splits)
qed simp

text \<open>
  Candidates arrive at times that do not run backwards. No interval of the window's length
  (both ends included) ever contains more admitted rules than the configured maximum, so the cap
  is a sliding window; and it refuses no more than that needs: the next candidate is admitted
  exactly when the window that ends at its time holds fewer than the maximum.
\<close>

theorem admissions_per_window_capped:
  assumes "sorted ts" "0 \<le> w" "0 \<le> m" "\<forall>t \<in> set ts. t \<le> now"
  shows "int (length (in_window w T (fst (admitted ts (new_rate_limiter m w))))) \<le> m
    \<and> (fst (admit now (snd (admitted ts (new_rate_limiter m w)))) \<longleftrightarrow>
         int (length (in_window w now (fst (admitted ts (new_rate_limiter m w))))) < m)"
proof -
  define t where "t = (if ts = [] then now else hd ts)"
  let ?r = "new_rate_limiter m w"
  have s: "sorted (t # ts)" using assms(1) by (cases ts) (auto simp: t_def)
  have last: "last (t # ts) \<le> now"
    using assms(4) by (cases "ts = []") (auto simp: t_def)
  have w: "rl_window ?r = w" "rl_max_per_window ?r = m" by (simp_all add: new_rate_limiter_def)
  have "int (length (in_window w T (fst (admitted ts ?r)))) \<le> m"
    using admitted_capped [OF rl_tracks_new [of t m w] s, of T] assms(2,3) w
    by (simp add: in_window_def)
  moreover have "fst (admit now (snd (admitted ts ?r))) \<longleftrightarrow> int (length (in_window w now (fst (admitted ts ?r)))) < m"
    using admitted_tracks [OF rl_tracks_new s, of m w] admit_tracks(1) [OF _ last] assms(2) w
    by (metis append_Nil)
  ultimately show ?thesis ..
qed

theorem admissions_per_window_capped_witness:
  "fst (admitted [0, 1, 2, 10, 11] (new_rate_limiter 2 9)) = [0, 1, 10, 11]
    \<and> int (length (in_window 9 10 [0, 1, 10, 11])) \<le> 2
    \<and> \<not> fst (admit 12 (snd (admitted [0, 1, 2, 10, 11] (new_rate_limiter 2 9))))"
proof -
  let ?r = "new_rate_limiter 2 9" and ?ts = "[0, 1, 2, 10, 11] :: datetime list"
  have run: "fst (admitted ?ts ?r) = [0, 1, 10, 11]"
    by (simp add: new_rate_limiter_def admit_def would_allow_def rl_prune_def rl_record_def Let_def)
  have "int (length (in_window 9 10 (fst (admitted ?ts ?r)))) \<le> 2
      \<and> (fst (admit 12 (snd (admitted ?ts ?r))) \<longleftrightarrow> int (length (in_window 9 12 (fst (admitted ?ts ?r)))) < 2)"
    by (rule admissions_per_window_capped) simp_all
  then show ?thesis unfolding run by (simp add: in_window_def)
qed

end
