(* ===== verification/Validator.thy ===== *)
theory Validator
  imports Models Rate_Limiter
begin

section \<open>The candidate-rule validation chains\<close>

text \<open>
  \<open>firewall/validator.py\<close>: the ten-stage chain of version 1 (\<open>validate_candidate_rule\<close>) and the
  ten-stage chain of version 2 for set elements (\<open>validate_set_candidate\<close>). A stage is a function of
  the chain's state that returns a rejection reason or nothing; the chain calls the stages in order
  and stops at the first rejection, so a later stage neither runs nor changes the state. The state
  is what stages mutate: the rate limiter (pruned by \<open>would_allow\<close>) and, in version 2, the list
  \<open>upgrade_of\<close>.

  \<open>LocalAddresses\<close> is the argument of the safety stage; reading it from the kernel when it is omitted
  (\<open>cached_local_addresses\<close>) is the parameter \<open>cached\<close>. The configuration is the part of
  \<open>PirewallConfig\<close> the chains read.

  The locale \<open>guarded_validation\<close> is what the manager relies on from either chain; both interpret it.
\<close>

record local_addresses =
  la_host :: "ipv4_address list"
  la_broadcast :: "ipv4_address list"

record validation_config =
  vc_admin_pc_ip :: ipv4_address
  vc_admin_pc_mac :: "mac_address option"
  vc_pirewall_lan_ip :: ipv4_address
  vc_upstream_gateway :: ipv4_address
  vc_protected_network :: ipv4_network
  vc_min_rule_prefix_length :: nat
  vc_max_ttl_seconds :: int

record validation_rejection =
  vr_stage :: string
  vr_reason :: rule_rejection_reason

record validation_outcome =
  vo_approved :: bool
  vo_priority :: "int option"
  vo_rejection :: "validation_rejection option"

subsection \<open>Running a chain\<close>

type_synonym 's check = "'s \<Rightarrow> rule_rejection_reason option \<times> 's"

abbreviation pure_check :: "rule_rejection_reason option \<Rightarrow> 's check" where
  "pure_check r \<equiv> (\<lambda>s. (r, s))"

fun run_checks :: "(string \<times> 's check) list \<Rightarrow> 's \<Rightarrow> validation_rejection option \<times> 's" where
  "run_checks [] s = (None, s)"
| "run_checks ((stage, check) # cs) s =
     (case check s of
        (Some reason, s') \<Rightarrow> (Some \<lparr>vr_stage = stage, vr_reason = reason\<rparr>, s')
      | (None, s') \<Rightarrow> run_checks cs s')"

subsection \<open>The version 1 stages\<close>

definition restrictive :: "firewall_action \<Rightarrow> bool" where
  "restrictive a \<longleftrightarrow> a = FA_BLOCK \<or> a = FA_RATE_LIMIT"

definition whole_internet :: ipv4_network where
  "whole_internet = \<lparr>network_address = 0, prefixlen = 0\<rparr>"

definition validate_schema :: "candidate_rule \<Rightarrow> rule_rejection_reason option" where
  "validate_schema c = (if rf_threat_score c = None then Some RR_INVALID_SCHEMA else None)"

text \<open>
  \<open>_validate_network\<close> tests that both networks are \<open>IPv4Network\<close> objects, which the record's types
  already say, so only \<open>_validate_identity\<close> can reject here.
\<close>

definition validate_identity :: "candidate_rule \<Rightarrow> mac_address option \<Rightarrow> rule_rejection_reason option" where
  "validate_identity c bound_mac =
     (case (Option.bind (rf_target c) rt_mac, bound_mac) of
        (Some m, Some b) \<Rightarrow> if m \<noteq> b then Some RR_SPOOFED_SOURCE else None
      | _ \<Rightarrow> None)"

definition matches_allowlist :: "candidate_rule \<Rightarrow> allowlist_entry \<Rightarrow> bool" where
  "matches_allowlist c e =
     (if al_protocol e \<noteq> None \<and> al_protocol e \<noteq> Some (rf_protocol c) then False
      else
        let source_match = overlaps (rf_source c) (al_target e)
              \<and> (al_port e = None \<or> al_port e = rf_source_port c);
            destination_match = overlaps (rf_destination c) (al_target e)
              \<and> (al_port e = None \<or> al_port e = rf_destination_port c);
            device_match = (al_mac e \<noteq> None \<and> Option.bind (rf_target c) rt_mac = al_mac e
              \<and> (al_port e = None \<or> al_port e = rf_source_port c))
        in source_match \<or> destination_match \<or> device_match)"

definition validate_allowlist :: "candidate_rule \<Rightarrow> allowlist_entry list \<Rightarrow> rule_rejection_reason option" where
  "validate_allowlist c allowlist =
     (if \<not> restrictive (rf_action c) then None
      else if list_ex (matches_allowlist c) allowlist then Some RR_ALLOWLISTED else None)"

definition targetable_address :: "ipv4_address \<Rightarrow> bool" where
  "targetable_address a \<longleftrightarrow> \<not> (is_unspecified a \<or> is_loopback a \<or> is_multicast a \<or> is_link_local a \<or> is_reserved a)"

definition is_targetable_network :: "ipv4_network \<Rightarrow> bool" where
  "is_targetable_network n \<longleftrightarrow> targetable_address (network_address n) \<and> targetable_address (broadcast_address n)"

definition covers :: "ipv4_network \<Rightarrow> ipv4_network \<Rightarrow> bool" where
  "covers n target \<longleftrightarrow> n = target \<or> supernet_of n target"

abbreviation rule_touches :: "candidate_rule \<Rightarrow> ipv4_address \<Rightarrow> bool" where
  "rule_touches c a \<equiv> overlaps (rf_source c) (host_network a) \<or> overlaps (rf_destination c) (host_network a)"

definition validate_safety ::
    "local_addresses \<Rightarrow> candidate_rule \<Rightarrow> validation_config \<Rightarrow> local_addresses option \<Rightarrow> rule_rejection_reason option" where
  "validate_safety cached c cfg local =
     (if \<not> restrictive (rf_action c) then None
      else if \<not> is_targetable_network (rf_source c) \<or> \<not> is_targetable_network (rf_destination c) then Some RR_UNSAFE
      else
        let resolved = (case local of None \<Rightarrow> cached | Some l \<Rightarrow> l) in
        if list_ex (rule_touches c) (la_host resolved @ la_broadcast resolved) then Some RR_UNSAFE
        else if rule_touches c (vc_admin_pc_ip cfg) then Some RR_UNSAFE
        else if rule_touches c (vc_pirewall_lan_ip cfg) then Some RR_UNSAFE
        else if rule_touches c (vc_upstream_gateway cfg) then Some RR_UNSAFE
        else if covers (rf_source c) (vc_protected_network cfg) \<or> covers (rf_destination c) (vc_protected_network cfg)
        then Some RR_UNSAFE
        else if rf_source c = whole_internet \<or> rf_destination c = whole_internet then Some RR_UNSAFE
        else if prefixlen (rf_source c) < vc_min_rule_prefix_length cfg
          \<or> prefixlen (rf_destination c) < vc_min_rule_prefix_length cfg then Some RR_UNSAFE
        else None)"

type_synonym target_key = "rule_direction \<times> ipv4_network \<times> ipv4_network \<times> protocol \<times> int option"

definition target_key :: "'a rule_fields_scheme \<Rightarrow> target_key" where
  "target_key r = (rf_direction r, rf_source r, rf_destination r, rf_protocol r, rf_destination_port r)"

definition full_key :: "'a rule_fields_scheme \<Rightarrow> firewall_action \<times> target_key \<times> int option" where
  "full_key r = (rf_action r, target_key r, rf_source_port r)"

definition validate_conflict :: "candidate_rule \<Rightarrow> firewall_rule list \<Rightarrow> rule_rejection_reason option" where
  "validate_conflict c active =
     (if list_ex (\<lambda>r. fr_status r = RS_ACTIVE \<and> rf_action r \<noteq> rf_action c \<and> target_key r = target_key c) active
      then Some RR_CONFLICT else None)"

definition validate_duplicate :: "candidate_rule \<Rightarrow> firewall_rule list \<Rightarrow> rule_rejection_reason option" where
  "validate_duplicate c active =
     (if list_ex (\<lambda>r. fr_status r = RS_ACTIVE \<and> full_key r = full_key c) active then Some RR_DUPLICATE else None)"

definition validate_rate_cap :: "rate_limiter \<Rightarrow> datetime \<Rightarrow> rule_rejection_reason option \<times> rate_limiter" where
  "validate_rate_cap r now =
     (let (ok, r') = would_allow now r in (if ok then None else Some RR_RATE_LIMITED, r'))"

definition shadows :: "firewall_rule \<Rightarrow> candidate_rule \<Rightarrow> bool" where
  "shadows r c \<longleftrightarrow> fr_status r = RS_ACTIVE \<and> rf_action r = rf_action c \<and> rf_protocol r = rf_protocol c
     \<and> (rf_destination_port r = None \<or> rf_destination_port r = rf_destination_port c)
     \<and> (rf_source r = rf_source c \<or> supernet_of (rf_source r) (rf_source c))
     \<and> (rf_destination r = rf_destination c \<or> supernet_of (rf_destination r) (rf_destination c))"

definition validate_priority :: "candidate_rule \<Rightarrow> firewall_rule list \<Rightarrow> rule_rejection_reason option" where
  "validate_priority c active = (if list_ex (\<lambda>r. shadows r c) active then Some RR_SHADOWED else None)"

definition validate_expiration :: "candidate_rule \<Rightarrow> rule_rejection_reason option" where
  "validate_expiration c = (if cr_expires_at c = None then Some RR_MISSING_EXPIRATION else None)"

definition validate_authorization :: "candidate_rule \<Rightarrow> string list \<Rightarrow> rule_rejection_reason option" where
  "validate_authorization c known = (if cr_decision_id c \<notin> set known then Some RR_UNAUTHORIZED else None)"

definition assign_priority :: "candidate_rule \<Rightarrow> int" where
  "assign_priority c =
     (let score = (case rf_threat_score c of Some s \<Rightarrow> s | None \<Rightarrow> 0)
      in py_round (100 - min (max score 0) 100))"

definition v1_checks ::
    "local_addresses \<Rightarrow> candidate_rule \<Rightarrow> validation_config \<Rightarrow> string list \<Rightarrow> firewall_rule list
       \<Rightarrow> allowlist_entry list \<Rightarrow> datetime \<Rightarrow> local_addresses option \<Rightarrow> mac_address option
       \<Rightarrow> (string \<times> rate_limiter check) list" where
  "v1_checks cached c cfg known active allowlist now local bound_mac =
     [(''schema'', pure_check (validate_schema c)),
      (''network'', pure_check (validate_identity c bound_mac)),
      (''allowlist'', pure_check (validate_allowlist c allowlist)),
      (''safety'', pure_check (validate_safety cached c cfg local)),
      (''conflict'', pure_check (validate_conflict c active)),
      (''duplicate'', pure_check (validate_duplicate c active)),
      (''rate_cap'', (\<lambda>r. validate_rate_cap r now)),
      (''priority'', pure_check (validate_priority c active)),
      (''expiration'', pure_check (validate_expiration c)),
      (''authorization'', pure_check (validate_authorization c known))]"

definition validate_candidate_rule ::
    "local_addresses \<Rightarrow> candidate_rule \<Rightarrow> validation_config \<Rightarrow> string list \<Rightarrow> firewall_rule list
       \<Rightarrow> allowlist_entry list \<Rightarrow> rate_limiter \<Rightarrow> datetime \<Rightarrow> local_addresses option \<Rightarrow> mac_address option
       \<Rightarrow> validation_outcome \<times> rate_limiter" where
  "validate_candidate_rule cached c cfg known active allowlist limiter now local bound_mac =
     (case run_checks (v1_checks cached c cfg known active allowlist now local bound_mac) limiter of
        (Some rej, r) \<Rightarrow> (\<lparr>vo_approved = False, vo_priority = None, vo_rejection = Some rej\<rparr>, r)
      | (None, r) \<Rightarrow> (\<lparr>vo_approved = True, vo_priority = Some (assign_priority c), vo_rejection = None\<rparr>, r))"

subsection \<open>The version 2 stages\<close>

record active_target =
  at_rule :: firewall_rule
  at_target :: rule_target

record set_validation_outcome =
  so_approved :: bool
  so_rejection :: "validation_rejection option"
  so_upgrade_of :: "string option"

definition same_device :: "rule_target \<Rightarrow> rule_target \<Rightarrow> bool" where
  "same_device l r =
     (case (rt_mac l, rt_mac r) of
        (Some m, Some n) \<Rightarrow> m = n
      | _ \<Rightarrow> rt_ip l = rt_ip r)"

definition validate_set_allowlist ::
    "candidate_rule \<Rightarrow> rule_target \<Rightarrow> allowlist_entry list \<Rightarrow> rule_rejection_reason option" where
  "validate_set_allowlist c t allowlist =
     (if \<not> restrictive (rf_action c) then None
      else if list_ex (\<lambda>e. in_network (rt_ip t) (al_target e) \<or> rt_mac t \<noteq> None \<and> al_mac e = rt_mac t) allowlist
      then Some RR_ALLOWLISTED else None)"

definition infrastructure :: "validation_config \<Rightarrow> local_addresses \<Rightarrow> ipv4_address list" where
  "infrastructure cfg l = la_host l @ la_broadcast l @
     [vc_pirewall_lan_ip cfg, vc_upstream_gateway cfg, vc_admin_pc_ip cfg,
      network_address (vc_protected_network cfg), broadcast_address (vc_protected_network cfg)]"

definition validate_set_safety ::
    "local_addresses \<Rightarrow> candidate_rule \<Rightarrow> rule_target \<Rightarrow> validation_config \<Rightarrow> local_addresses option
       \<Rightarrow> rule_rejection_reason option" where
  "validate_set_safety cached c t cfg local =
     (if \<not> restrictive (rf_action c) then None
      else if \<not> is_targetable_network (host_network (rt_ip t)) then Some RR_UNSAFE
      else
        let resolved = (case local of None \<Rightarrow> cached | Some l \<Rightarrow> l) in
        if rt_ip t \<in> set (infrastructure cfg resolved) then Some RR_UNSAFE
        else if vc_admin_pc_mac cfg \<noteq> None \<and> rt_mac t = vc_admin_pc_mac cfg then Some RR_UNSAFE
        else None)"

fun set_conflict_loop ::
    "candidate_rule \<Rightarrow> rule_target \<Rightarrow> active_target list \<Rightarrow> string list \<Rightarrow> rule_rejection_reason option \<times> string list" where
  "set_conflict_loop c t [] ups = (None, ups)"
| "set_conflict_loop c t (e # es) ups =
     (if \<not> same_device (at_target e) t \<or> rf_action (at_rule e) = rf_action c then set_conflict_loop c t es ups
      else if rf_action (at_rule e) = FA_BLOCK \<and> rf_action c = FA_RATE_LIMIT then (Some RR_CONFLICT, ups)
      else if rf_action (at_rule e) = FA_RATE_LIMIT \<and> rf_action c = FA_BLOCK
      then set_conflict_loop c t es (ups @ [fr_id (at_rule e)])
      else set_conflict_loop c t es ups)"

definition validate_set_duplicate ::
    "candidate_rule \<Rightarrow> rule_target \<Rightarrow> active_target list \<Rightarrow> rule_rejection_reason option" where
  "validate_set_duplicate c t active =
     (if list_ex (\<lambda>e. same_device (at_target e) t \<and> rf_action (at_rule e) = rf_action c) active
      then Some RR_DUPLICATE else None)"

definition validate_escalation ::
    "candidate_rule \<Rightarrow> active_target list \<Rightarrow> string list \<Rightarrow> rule_rejection_reason option" where
  "validate_escalation c active ups =
     (if list_ex (\<lambda>e. fr_id (at_rule e) \<in> set ups \<and> set (rf_evidence c) \<subseteq> set (rf_evidence (at_rule e))) active
      then Some RR_NO_NEW_EVIDENCE else None)"

definition validate_set_expiration :: "candidate_rule \<Rightarrow> validation_config \<Rightarrow> datetime \<Rightarrow> rule_rejection_reason option" where
  "validate_set_expiration c cfg now =
     (case cr_expires_at c of
        None \<Rightarrow> Some RR_MISSING_EXPIRATION
      | Some t \<Rightarrow>
          if t \<le> now then Some RR_MISSING_EXPIRATION
          else if seconds (vc_max_ttl_seconds cfg) < t - now then Some RR_EXPIRATION_TOO_LONG
          else None)"

text \<open>
  The stages after \<open>network\<close> call \<open>_require(target)\<close>, whose assertion cannot fail once \<open>network\<close> has
  passed; \<open>on_target\<close> gives them the target and its other case is never reached.
\<close>

definition on_target :: "rule_target option \<Rightarrow> (rule_target \<Rightarrow> rule_rejection_reason option) \<Rightarrow> rule_rejection_reason option" where
  "on_target t f = (case t of Some x \<Rightarrow> f x | None \<Rightarrow> None)"

type_synonym set_state = "rate_limiter \<times> string list"

definition set_checks ::
    "local_addresses \<Rightarrow> candidate_rule \<Rightarrow> rule_target option \<Rightarrow> validation_config \<Rightarrow> string list
       \<Rightarrow> active_target list \<Rightarrow> allowlist_entry list \<Rightarrow> datetime \<Rightarrow> local_addresses option
       \<Rightarrow> (string \<times> set_state check) list" where
  "set_checks cached c target cfg known active allowlist now local =
     [(''schema'', pure_check (validate_schema c)),
      (''network'', pure_check (if target \<noteq> None then None else Some RR_UNENFORCEABLE)),
      (''allowlist'', pure_check (on_target target (\<lambda>t. validate_set_allowlist c t allowlist))),
      (''safety'', pure_check (on_target target (\<lambda>t. validate_set_safety cached c t cfg local))),
      (''conflict'', (\<lambda>(r, ups). case target of
          Some t \<Rightarrow> let (res, ups') = set_conflict_loop c t active ups in (res, r, ups')
        | None \<Rightarrow> (None, r, ups))),
      (''duplicate'', pure_check (on_target target (\<lambda>t. validate_set_duplicate c t active))),
      (''rate_cap'', (\<lambda>(r, ups). let (res, r') = validate_rate_cap r now in (res, r', ups))),
      (''escalation'', (\<lambda>(r, ups). (validate_escalation c active ups, r, ups))),
      (''expiration'', pure_check (validate_set_expiration c cfg now)),
      (''authorization'', pure_check (validate_authorization c known))]"

definition validate_set_candidate ::
    "local_addresses \<Rightarrow> candidate_rule \<Rightarrow> rule_target option \<Rightarrow> validation_config \<Rightarrow> string list
       \<Rightarrow> active_target list \<Rightarrow> allowlist_entry list \<Rightarrow> rate_limiter \<Rightarrow> datetime \<Rightarrow> local_addresses option
       \<Rightarrow> set_validation_outcome \<times> rate_limiter" where
  "validate_set_candidate cached c target cfg known active allowlist limiter now local =
     (case run_checks (set_checks cached c target cfg known active allowlist now local) (limiter, []) of
        (Some rej, r, ups) \<Rightarrow> (\<lparr>so_approved = False, so_rejection = Some rej, so_upgrade_of = None\<rparr>, r)
      | (None, r, ups) \<Rightarrow>
          (\<lparr>so_approved = True, so_rejection = None,
            so_upgrade_of = (case ups of [] \<Rightarrow> None | u # us \<Rightarrow> Some u)\<rparr>, r))"

subsection \<open>When a chain approves\<close>

lemma run_checks_None_iff:
  "fst (run_checks ((n, chk) # cs) s) = None \<longleftrightarrow> fst (chk s) = None \<and> fst (run_checks cs (snd (chk s))) = None"
  by (cases "chk s") (auto split: option.splits)

lemma run_checks_None_Nil: "fst (run_checks [] s) = None"
  by simp

lemmas run_checks_None [stage_simps] = run_checks_None_iff run_checks_None_Nil

declare run_checks.simps(2) [simp del]

lemma validate_rate_cap_fst: "fst (validate_rate_cap r now) = None \<longleftrightarrow> fst (would_allow now r)"
  by (simp add: validate_rate_cap_def case_prod_unfold Let_def)

lemma v1_approved_iff:
  "vo_approved (fst (validate_candidate_rule cached c cfg known active allowlist limiter now local bound_mac)) \<longleftrightarrow>
     validate_schema c = None \<and> validate_identity c bound_mac = None \<and> validate_allowlist c allowlist = None
     \<and> validate_safety cached c cfg local = None \<and> validate_conflict c active = None
     \<and> validate_duplicate c active = None \<and> fst (would_allow now limiter) \<and> validate_priority c active = None
     \<and> validate_expiration c = None \<and> validate_authorization c known = None"
proof -
  have "vo_approved (fst (validate_candidate_rule cached c cfg known active allowlist limiter now local bound_mac)) \<longleftrightarrow>
      fst (run_checks (v1_checks cached c cfg known active allowlist now local bound_mac) limiter) = None"
    by (simp add: validate_candidate_rule_def case_prod_unfold split: option.splits)
  then show ?thesis by (simp add: v1_checks_def run_checks_None validate_rate_cap_fst)
qed

definition v1_infrastructure :: "validation_config \<Rightarrow> local_addresses \<Rightarrow> ipv4_address set" where
  "v1_infrastructure cfg l = set (la_host l) \<union> set (la_broadcast l)
     \<union> {vc_admin_pc_ip cfg, vc_pirewall_lan_ip cfg, vc_upstream_gateway cfg}"

abbreviation resolve_local :: "local_addresses \<Rightarrow> local_addresses option \<Rightarrow> local_addresses" where
  "resolve_local cached local \<equiv> (case local of None \<Rightarrow> cached | Some l \<Rightarrow> l)"

lemma validate_safety_None:
  assumes "validate_safety cached c cfg local = None" "restrictive (rf_action c)"
  shows "is_targetable_network (rf_source c)" "is_targetable_network (rf_destination c)"
    and "a \<in> v1_infrastructure cfg (resolve_local cached local) \<Longrightarrow> \<not> rule_touches c a"
    and "\<not> covers (rf_source c) (vc_protected_network cfg)" "\<not> covers (rf_destination c) (vc_protected_network cfg)"
    and "vc_min_rule_prefix_length cfg \<le> prefixlen (rf_source c)"
    and "vc_min_rule_prefix_length cfg \<le> prefixlen (rf_destination c)"
proof -
  note v = assms(1) [unfolded validate_safety_def Let_def] assms(2)
  show "is_targetable_network (rf_source c)" "is_targetable_network (rf_destination c)"
    "\<not> covers (rf_source c) (vc_protected_network cfg)" "\<not> covers (rf_destination c) (vc_protected_network cfg)"
    "vc_min_rule_prefix_length cfg \<le> prefixlen (rf_source c)"
    "vc_min_rule_prefix_length cfg \<le> prefixlen (rf_destination c)"
    using v by (auto split: if_splits)
  assume "a \<in> v1_infrastructure cfg (resolve_local cached local)"
  moreover have "\<not> rule_touches c (vc_admin_pc_ip cfg)" "\<not> rule_touches c (vc_pirewall_lan_ip cfg)"
    "\<not> rule_touches c (vc_upstream_gateway cfg)"
    "\<not> list_ex (rule_touches c) (la_host (resolve_local cached local) @ la_broadcast (resolve_local cached local))"
    using v by (auto split: if_splits)
  ultimately show "\<not> rule_touches c a" by (auto simp: v1_infrastructure_def list_ex_iff)
qed

text \<open>What a rule reaches, and what the allowlist protects from every protocol and port.\<close>

definition rule_reach :: "candidate_rule \<Rightarrow> ipv4_address set" where
  "rule_reach c = {a. in_network a (rf_source c) \<or> in_network a (rf_destination c)}"

definition fully_allowlisted :: "allowlist_entry list \<Rightarrow> ipv4_address set" where
  "fully_allowlisted allowlist =
     {a. \<exists>e \<in> set allowlist. al_protocol e = None \<and> al_port e = None \<and> in_network a (al_target e)}"

lemma validate_allowlist_None:
  assumes "validate_allowlist c allowlist = None" "restrictive (rf_action c)" "valid_rule_fields c"
    and "\<forall>e \<in> set allowlist. wf_network (al_target e)"
    and "e \<in> set allowlist" "al_protocol e = None \<or> al_protocol e = Some (rf_protocol c)" "in_network a (al_target e)"
  shows "al_port e = None \<or> al_port e = rf_source_port c \<Longrightarrow> \<not> in_network a (rf_source c)"
    and "al_port e = None \<or> al_port e = rf_destination_port c \<Longrightarrow> \<not> in_network a (rf_destination c)"
proof -
  have n: "\<not> matches_allowlist c e"
    using assms(1,2,5) by (auto simp: validate_allowlist_def list_ex_iff split: if_splits)
  have wf: "wf_network (rf_source c)" "wf_network (rf_destination c)" "wf_network (al_target e)"
    using assms(3,4,5) by (auto simp: valid_rule_fields_def)
  show "\<not> in_network a (rf_source c)" if "al_port e = None \<or> al_port e = rf_source_port c"
    using n that assms(6,7) overlaps_iff_meet [OF wf(1,3)] unfolding matches_allowlist_def Let_def by metis
  show "\<not> in_network a (rf_destination c)" if "al_port e = None \<or> al_port e = rf_destination_port c"
    using n that assms(6,7) overlaps_iff_meet [OF wf(2,3)] unfolding matches_allowlist_def Let_def by metis
qed

lemma rule_touches_iff: "valid_rule_fields c \<Longrightarrow> rule_touches c a \<longleftrightarrow> a \<in> rule_reach c"
  by (simp add: valid_rule_fields_def rule_reach_def)

lemma not_covers_iff:
  "wf_network n \<Longrightarrow> wf_network m \<Longrightarrow> \<not> covers n m \<longleftrightarrow> (\<exists>a. in_network a m \<and> \<not> in_network a n)"
  by (auto simp: covers_def supernet_of_iff_subset)

text \<open>
  C28: What version 1 approval of a throttling or blocking rule guarantees, in terms of addresses.
  The rule reaches no address of the host itself, no local broadcast address, not the administrator's
  machine, not the gateway address on the LAN and not the upstream gateway; no address that an
  allowlist entry for every port (and for this or every protocol) covers; and on neither side the
  whole protected network. It is no wider than the configured prefix on either side, carries a
  score and an expiry, stems from a known decision, and no active rule has the same scope.
\<close>

theorem approved_rule_is_safe:
  assumes "vo_approved (fst (validate_candidate_rule cached c cfg known active allowlist limiter now local bound_mac))"
    and "restrictive (rf_action c)" "valid_rule_fields c" "wf_network (vc_protected_network cfg)"
    and "\<forall>e \<in> set allowlist. wf_network (al_target e)"
  shows "rule_reach c \<inter> v1_infrastructure cfg (resolve_local cached local) = {}
    \<and> (\<forall>e \<in> set allowlist. al_port e = None \<and> (al_protocol e = None \<or> al_protocol e = Some (rf_protocol c)) \<longrightarrow>
         (\<forall>a. in_network a (al_target e) \<longrightarrow> a \<notin> rule_reach c))
    \<and> (\<exists>a. in_network a (vc_protected_network cfg) \<and> \<not> in_network a (rf_source c))
    \<and> (\<exists>a. in_network a (vc_protected_network cfg) \<and> \<not> in_network a (rf_destination c))
    \<and> vc_min_rule_prefix_length cfg \<le> prefixlen (rf_source c)
    \<and> vc_min_rule_prefix_length cfg \<le> prefixlen (rf_destination c)
    \<and> rf_threat_score c \<noteq> None \<and> cr_expires_at c \<noteq> None \<and> cr_decision_id c \<in> set known
    \<and> (\<forall>r \<in> set active. fr_status r = RS_ACTIVE \<longrightarrow> target_key r \<noteq> target_key c \<or> rf_action r = rf_action c \<and> rf_source_port r \<noteq> rf_source_port c)"
proof -
  note ok = assms(1) [unfolded v1_approved_iff]
  have s: "validate_safety cached c cfg local = None" and al: "validate_allowlist c allowlist = None" using ok by blast+
  note safety = validate_safety_None [OF s assms(2)]
  have wf: "wf_network (rf_source c)" "wf_network (rf_destination c)" using assms(3) by (simp_all add: valid_rule_fields_def)
  have "rule_reach c \<inter> v1_infrastructure cfg (resolve_local cached local) = {}"
    using safety(3) rule_touches_iff [OF assms(3)] by blast
  moreover have "a \<notin> rule_reach c" if "e \<in> set allowlist" "al_port e = None"
      "al_protocol e = None \<or> al_protocol e = Some (rf_protocol c)" "in_network a (al_target e)" for e a
    using validate_allowlist_None [OF al assms(2,3,5) that(1,3,4)] that(2) by (simp add: rule_reach_def)
  moreover have "rf_threat_score c \<noteq> None" "cr_expires_at c \<noteq> None" "cr_decision_id c \<in> set known"
    using ok by (auto simp: validate_schema_def validate_expiration_def validate_authorization_def split: if_splits)
  moreover have "\<forall>r \<in> set active. fr_status r = RS_ACTIVE \<longrightarrow>
      target_key r \<noteq> target_key c \<or> rf_action r = rf_action c \<and> rf_source_port r \<noteq> rf_source_port c"
    using ok by (auto simp: validate_conflict_def validate_duplicate_def list_ex_iff full_key_def split: if_splits)
  ultimately show ?thesis
    using safety(4-7) not_covers_iff [OF wf(1) assms(4)] not_covers_iff [OF wf(2) assms(4)] by blast
qed

definition example_config :: validation_config where
  "example_config = \<lparr>vc_admin_pc_ip = ipv4 10 0 0 2, vc_admin_pc_mac = None, vc_pirewall_lan_ip = ipv4 10 0 0 1,
     vc_upstream_gateway = ipv4 192 168 1 1,
     vc_protected_network = \<lparr>network_address = ipv4 10 0 0 0, prefixlen = 24\<rparr>,
     vc_min_rule_prefix_length = 24, vc_max_ttl_seconds = 3600\<rparr>"

definition example_candidate :: candidate_rule where
  "example_candidate = \<lparr>rf_action = FA_BLOCK, rf_direction = RD_INBOUND, rf_source = host_network (ipv4 10 0 0 5),
     rf_destination = host_network (ipv4 93 184 216 34), rf_protocol = P_TCP, rf_source_port = None,
     rf_destination_port = Some 443, rf_reason = ''r'', rf_threat_score = Some 95, rf_evidence = [''e''],
     rf_metadata = [], rf_target = Some \<lparr>rt_ip = ipv4 10 0 0 5, rt_mac = None\<rparr>, cr_id = ''c'',
     cr_decision_id = ''d'', cr_created_at = 0, cr_expires_at = Some (seconds 60), cr_status = RS_CANDIDATE\<rparr>"

definition example_entry :: allowlist_entry where
  "example_entry = \<lparr>al_id = ''a'', al_target = host_network (ipv4 10 0 0 9), al_port = None, al_protocol = None,
     al_reason = ''printer'', al_created_at = 0, al_created_by = ''admin'', al_mac = None\<rparr>"

definition no_local :: local_addresses where
  "no_local = \<lparr>la_host = [ipv4 10 0 0 1], la_broadcast = [ipv4 10 0 0 255]\<rparr>"

lemmas example_rule_defs = example_config_def example_candidate_def example_entry_def no_local_def

lemmas network_eval = overlaps_def supernet_of_def ip_eval mask_eq_exp_minus_1

lemma example_valid: "valid_rule_fields example_candidate" "wf_network (vc_protected_network example_config)"
  "restrictive (rf_action example_candidate)"
  by (simp_all add: valid_rule_fields_def example_rule_defs port_ok_def check_target_is_the_source_def restrictive_def
      wf_network_def network_eval)

lemma example_approved:
  "vo_approved (fst (validate_candidate_rule no_local example_candidate example_config [''d''] [] [example_entry]
     (new_rate_limiter 5 (seconds 60)) 0 None None))"
  unfolding v1_approved_iff
  by (simp add: validate_schema_def validate_identity_def validate_allowlist_def restrictive_def matches_allowlist_def
      validate_safety_def validate_conflict_def validate_duplicate_def validate_priority_def
      validate_expiration_def validate_authorization_def is_targetable_network_def targetable_address_def covers_def
      whole_internet_def would_allow_def rl_prune_def new_rate_limiter_def example_rule_defs network_eval)

theorem approved_rule_is_safe_witness:
  "rule_reach example_candidate \<inter> v1_infrastructure example_config no_local = {}
    \<and> ipv4 10 0 0 9 \<notin> rule_reach example_candidate"
  using approved_rule_is_safe [OF example_approved example_valid(3,1,2)]
  by (simp add: example_entry_def)

subsection \<open>Addresses no rule may name\<close>

lemma special_meets_end:
  assumes "wf_network n" "prefixlen m \<le> prefixlen n" "in_network a n" "in_network a m"
  shows "in_network (network_address n) m"
  using nested_if_meet [OF assms(2,4,3)] assms(1) by simp

text \<open>
  Judging a network by its two ends is enough for every prefix of at least 16 bits (the shipped
  floor is 24): if both ends of such a network may be named by a rule, then no address inside it is
  unspecified, loopback, multicast, link-local or reserved.
\<close>

theorem targetable_ends_suffice:
  assumes "wf_network n" "16 \<le> prefixlen n" "is_targetable_network n" "in_network a n"
  shows "targetable_address a"
proof -
  have ends: "targetable_address (network_address n)" using assms(3) by (simp add: is_targetable_network_def)
  have "\<not> in_network a m" if "prefixlen m \<le> 16" "\<not> in_network (network_address n) m" for m
    using special_meets_end [OF assms(1) _ assms(4), of m] that assms(2) by auto
  moreover have "a \<noteq> 0"
  proof
    assume "a = 0"
    then have "network_address n = 0"
      using assms(1,4) in_network_iff_range [OF assms(1), of a] by simp
    with ends show False by (simp add: targetable_address_def is_unspecified_def)
  qed
  ultimately show ?thesis using ends by (simp add: targetable_address_def ip_class_defs)
qed

theorem targetable_ends_suffice_witness:
  "targetable_address (ipv4 10 0 0 77)"
  by (rule targetable_ends_suffice [of "\<lparr>network_address = ipv4 10 0 0 0, prefixlen = 24\<rparr>"])
    (simp_all add: wf_network_def is_targetable_network_def targetable_address_def network_eval)

text \<open>
  Below 16 bits the two ends are not enough, although the function's documentation promises it
  for every address: 169.0.0.0/8 passes the test and contains the link-local address 169.254.1.1.
  Only the configured prefix floor keeps such a rule out.
\<close>

theorem targetable_ends_miss_link_local:
  "is_targetable_network \<lparr>network_address = ipv4 169 0 0 0, prefixlen = 8\<rparr>
   \<and> in_network (ipv4 169 254 1 1) \<lparr>network_address = ipv4 169 0 0 0, prefixlen = 8\<rparr>
   \<and> is_link_local (ipv4 169 254 1 1) \<and> \<not> targetable_address (ipv4 169 254 1 1)"
  by (simp add: is_targetable_network_def targetable_address_def network_eval)

subsection \<open>Priorities\<close>

lemma py_round_bounds: "of_int a \<le> x \<Longrightarrow> x \<le> of_int b \<Longrightarrow> a \<le> py_round x \<and> py_round x \<le> b"
  unfolding py_round_def Let_def by (auto simp: le_floor_iff floor_le_iff) linarith+

lemma py_round_near: "of_int (py_round x) - x \<le> 1/2" "x - of_int (py_round x) \<le> 1/2"
  unfolding py_round_def Let_def by (auto split: if_splits) linarith+

lemma py_round_mono:
  assumes "x \<le> y"
  shows "py_round x \<le> py_round y"
proof (cases "\<lfloor>x\<rfloor> = \<lfloor>y\<rfloor>")
  case True
  then show ?thesis using assms unfolding py_round_def Let_def by auto
next
  case False
  then have "\<lfloor>x\<rfloor> + 1 \<le> \<lfloor>y\<rfloor>" using floor_mono [OF assms] by simp
  moreover have "py_round x \<le> \<lfloor>x\<rfloor> + 1" "\<lfloor>y\<rfloor> \<le> py_round y" by (simp_all add: py_round_def Let_def)
  ultimately show ?thesis by simp
qed

text \<open>
  Priorities of approved rules lie between 0 and 100 and respect severity: a rule with a higher
  score never gets a later (numerically larger) priority.
\<close>

theorem priority_respects_score:
  assumes "rf_threat_score c = Some s" "rf_threat_score c' = Some s'" "s \<le> s'"
  shows "0 \<le> assign_priority c' \<and> assign_priority c' \<le> assign_priority c \<and> assign_priority c \<le> 100"
proof -
  have "py_round (100 - min (max s' 0) 100) \<le> py_round (100 - min (max s 0) 100)"
    using assms(3) by (intro py_round_mono) auto
  moreover have "0 \<le> py_round (100 - min (max s' 0) 100)" using py_round_bounds [of 0 "100 - min (max s' 0) 100" 100] by simp
  moreover have "py_round (100 - min (max s 0) 100) \<le> 100" using py_round_bounds [of 0 "100 - min (max s 0) 100" 100] by simp
  ultimately show ?thesis using assms(1,2) by (simp add: assign_priority_def)
qed

theorem priority_respects_score_witness:
  "assign_priority (example_candidate\<lparr>rf_threat_score := Some 95\<rparr>) \<le>
     assign_priority (example_candidate\<lparr>rf_threat_score := Some (75/2)\<rparr>)"
  using priority_respects_score [of "example_candidate\<lparr>rf_threat_score := Some (75/2)\<rparr>" "75/2"
      "example_candidate\<lparr>rf_threat_score := Some 95\<rparr>" 95] by simp

subsection \<open>The allowlist comes first\<close>

lemma run_checks_stops:
  "fst (chk s) = Some r \<Longrightarrow> run_checks ((n, chk) # cs) s = (Some \<lparr>vr_stage = n, vr_reason = r\<rparr>, snd (chk s))"
  by (cases "chk s") (simp add: run_checks.simps(2))

lemma run_checks_passes: "chk s = (None, s') \<Longrightarrow> run_checks ((n, chk) # cs) s = run_checks cs s'"
  by (simp add: run_checks.simps(2))

text \<open>
  The allowlist outranks every later consideration. A throttling or blocking candidate that an
  allowlist entry matches is rejected whatever the configuration, the active rules, the budget and
  the decision say, at the allowlist stage or before it, and the rejection consumes none of the
  rule-creation budget: the limiter is left exactly as it was.
\<close>

theorem allowlist_outranks_everything:
  assumes "restrictive (rf_action c)" "e \<in> set allowlist" "matches_allowlist c e"
  shows "\<exists>rej. validate_candidate_rule cached c cfg known active allowlist limiter now local bound_mac =
      (\<lparr>vo_approved = False, vo_priority = None, vo_rejection = Some rej\<rparr>, limiter)
    \<and> (vr_stage rej, vr_reason rej) \<in> {(''schema'', RR_INVALID_SCHEMA), (''network'', RR_SPOOFED_SOURCE),
         (''allowlist'', RR_ALLOWLISTED)}"
proof -
  have al: "validate_allowlist c allowlist = Some RR_ALLOWLISTED"
    using assms by (auto simp: validate_allowlist_def list_ex_iff)
  show ?thesis
  proof (cases "validate_schema c")
    case (Some r)
    then have "r = RR_INVALID_SCHEMA" by (simp add: validate_schema_def split: if_splits)
    then show ?thesis using Some by (simp add: validate_candidate_rule_def v1_checks_def run_checks_stops)
  next
    case s: None
    show ?thesis
    proof (cases "validate_identity c bound_mac")
      case (Some r)
      then have "r = RR_SPOOFED_SOURCE" by (auto simp: validate_identity_def split: option.splits if_splits)
      then show ?thesis using Some s
        by (simp add: validate_candidate_rule_def v1_checks_def run_checks_stops run_checks_passes)
    next
      case None
      then show ?thesis using s al
        by (simp add: validate_candidate_rule_def v1_checks_def run_checks_stops run_checks_passes)
    qed
  qed
qed

theorem allowlist_outranks_everything_witness:
  "\<not> vo_approved (fst (validate_candidate_rule no_local (example_candidate\<lparr>rf_source := host_network (ipv4 10 0 0 9), rf_target := None\<rparr>)
      example_config [''d''] [] [example_entry] (new_rate_limiter 5 (seconds 60)) 0 None None))"
proof -
  let ?c = "example_candidate\<lparr>rf_source := host_network (ipv4 10 0 0 9), rf_target := None\<rparr>"
  have r: "restrictive (rf_action ?c)" and m: "matches_allowlist ?c example_entry"
    by (simp_all add: restrictive_def matches_allowlist_def example_rule_defs network_eval)
  show ?thesis using allowlist_outranks_everything [OF r _ m, of "[example_entry]" no_local example_config "[''d'']" "[]"
        "new_rate_limiter 5 (seconds 60)" 0 None None] by auto
qed

subsection \<open>The version 2 chain, exactly\<close>

lemma set_conflict_loop_eq:
  "set_conflict_loop c t es ups =
     (if rf_action c = FA_RATE_LIMIT \<and> list_ex (\<lambda>e. same_device (at_target e) t \<and> rf_action (at_rule e) = FA_BLOCK) es
      then (Some RR_CONFLICT, ups)
      else (None, ups @ (if rf_action c = FA_BLOCK
        then map (fr_id \<circ> at_rule) (filter (\<lambda>e. same_device (at_target e) t \<and> rf_action (at_rule e) = FA_RATE_LIMIT) es)
        else [])))"
  by (induction es arbitrary: ups) auto

definition upgradable :: "candidate_rule \<Rightarrow> rule_target \<Rightarrow> active_target list \<Rightarrow> active_target list" where
  "upgradable c t active = (if rf_action c = FA_BLOCK
     then filter (\<lambda>e. same_device (at_target e) t \<and> rf_action (at_rule e) = FA_RATE_LIMIT) active else [])"

lemma set_conflict_loop_start:
  "set_conflict_loop c t es [] =
     (if rf_action c = FA_RATE_LIMIT \<and> list_ex (\<lambda>e. same_device (at_target e) t \<and> rf_action (at_rule e) = FA_BLOCK) es
      then (Some RR_CONFLICT, []) else (None, map (fr_id \<circ> at_rule) (upgradable c t es)))"
  by (simp add: set_conflict_loop_eq upgradable_def)

lemma set_checks_pass_iff:
  "fst (run_checks (set_checks cached c (Some t) cfg known active allowlist now local) (limiter, [])) = None \<longleftrightarrow>
     validate_schema c = None \<and> validate_set_allowlist c t allowlist = None
     \<and> validate_set_safety cached c t cfg local = None
     \<and> \<not> (rf_action c = FA_RATE_LIMIT \<and> list_ex (\<lambda>e. same_device (at_target e) t \<and> rf_action (at_rule e) = FA_BLOCK) active)
     \<and> validate_set_duplicate c t active = None \<and> fst (would_allow now limiter)
     \<and> validate_escalation c active (map (fr_id \<circ> at_rule) (upgradable c t active)) = None
     \<and> validate_set_expiration c cfg now = None \<and> validate_authorization c known = None"
proof (cases "rf_action c = FA_RATE_LIMIT \<and> list_ex (\<lambda>e. same_device (at_target e) t \<and> rf_action (at_rule e) = FA_BLOCK) active")
  case True
  then have "set_conflict_loop c t active [] = (Some RR_CONFLICT, [])" by (simp add: set_conflict_loop_start)
  then show ?thesis using True by (simp add: set_checks_def run_checks_None on_target_def)
next
  case False
  then have "set_conflict_loop c t active [] = (None, map (fr_id \<circ> at_rule) (upgradable c t active))"
    by (simp only: set_conflict_loop_start if_False)
  then show ?thesis using False
    by (simp add: set_checks_def run_checks_None on_target_def validate_rate_cap_fst case_prod_unfold Let_def del: map_map list.map_comp)
qed

lemma set_approved_iff:
  "so_approved (fst (validate_set_candidate cached c target cfg known active allowlist limiter now local)) \<longleftrightarrow>
     (\<exists>t. target = Some t \<and> validate_schema c = None \<and> validate_set_allowlist c t allowlist = None
       \<and> validate_set_safety cached c t cfg local = None
       \<and> \<not> (rf_action c = FA_RATE_LIMIT \<and> list_ex (\<lambda>e. same_device (at_target e) t \<and> rf_action (at_rule e) = FA_BLOCK) active)
       \<and> validate_set_duplicate c t active = None \<and> fst (would_allow now limiter)
       \<and> validate_escalation c active (map (fr_id \<circ> at_rule) (upgradable c t active)) = None
       \<and> validate_set_expiration c cfg now = None \<and> validate_authorization c known = None)"
proof -
  have "so_approved (fst (validate_set_candidate cached c target cfg known active allowlist limiter now local)) \<longleftrightarrow>
      fst (run_checks (set_checks cached c target cfg known active allowlist now local) (limiter, [])) = None"
    by (auto simp: validate_set_candidate_def case_prod_unfold split: option.splits)
  also have "\<dots> \<longleftrightarrow> (\<exists>t. target = Some t \<and> fst (run_checks (set_checks cached c target cfg known active allowlist now local) (limiter, [])) = None)"
    by (cases target) (simp_all add: set_checks_def run_checks_None)
  finally show ?thesis using set_checks_pass_iff by blast
qed

definition set_protected :: "validation_config \<Rightarrow> local_addresses \<Rightarrow> allowlist_entry list \<Rightarrow> rule_target \<Rightarrow> bool" where
  "set_protected cfg l allowlist t \<longleftrightarrow>
     \<not> targetable_address (rt_ip t) \<or> rt_ip t \<in> set (infrastructure cfg l)
     \<or> (rt_mac t \<noteq> None \<and> rt_mac t = vc_admin_pc_mac cfg)
     \<or> (\<exists>e \<in> set allowlist. in_network (rt_ip t) (al_target e) \<or> rt_mac t \<noteq> None \<and> al_mac e = rt_mac t)"

lemma set_safe_iff:
  "restrictive (rf_action c) \<Longrightarrow>
     validate_set_allowlist c t allowlist = None \<and> validate_set_safety cached c t cfg local = None \<longleftrightarrow>
       \<not> set_protected cfg (resolve_local cached local) allowlist t"
  unfolding validate_set_allowlist_def validate_set_safety_def set_protected_def Let_def is_targetable_network_def
  by (auto simp: list_ex_iff)

lemma set_expiration_iff:
  "validate_set_expiration c cfg now = None \<longleftrightarrow>
     (\<exists>t. cr_expires_at c = Some t \<and> now < t \<and> t \<le> now + seconds (vc_max_ttl_seconds cfg))"
  by (auto simp: validate_set_expiration_def split: option.splits)

lemma escalation_iff:
  assumes "distinct (map (fr_id \<circ> at_rule) active)" "set ups \<subseteq> set active"
  shows "validate_escalation c active (map (fr_id \<circ> at_rule) ups) = None \<longleftrightarrow>
    (\<forall>e \<in> set ups. \<not> set (rf_evidence c) \<subseteq> set (rf_evidence (at_rule e)))"
proof -
  have "e \<in> set ups" if e: "e \<in> set active" "fr_id (at_rule e) \<in> (fr_id \<circ> at_rule) ` set ups" for e
  proof -
    obtain u where u: "u \<in> set ups" "fr_id (at_rule e) = fr_id (at_rule u)" using e(2) by auto
    then have "u \<in> set active" using assms(2) by blast
    then have "e = u" using assms(1) e(1) u(2) by (simp add: distinct_map inj_on_def)
    with u show ?thesis by simp
  qed
  then show ?thesis using assms(2) unfolding validate_escalation_def by (auto simp: list_ex_iff)
qed

text \<open>
  C3: Exactly which throttling or blocking candidates the version 2 chain approves, for active rules
  with distinct ids. It approves if and only if there is a device to key on, with a score; the
  device is neither infrastructure, nor the administrator's, nor covered by any allowlist entry by
  address or MAC, nor at an address no host owns; it is not under the same action already, nor (for
  a rate limit) blocked; every rate limit that a block would replace lacks some of the candidate's
  evidence; the rule expires in the future and within the configured maximum; its decision is known;
  and the creation budget is not spent. The rule an approved block upgrades is the first active
  rate limit on the device, if there is one.
\<close>

theorem set_validation_exact:
  assumes "restrictive (rf_action c)" "distinct (map (fr_id \<circ> at_rule) active)"
  shows "(so_approved (fst (validate_set_candidate cached c target cfg known active allowlist limiter now local)) \<longleftrightarrow>
      (\<exists>t x. target = Some t \<and> rf_threat_score c \<noteq> None
        \<and> \<not> set_protected cfg (resolve_local cached local) allowlist t
        \<and> (\<forall>e \<in> set active. same_device (at_target e) t \<longrightarrow>
              rf_action (at_rule e) \<noteq> rf_action c
              \<and> \<not> (rf_action c = FA_RATE_LIMIT \<and> rf_action (at_rule e) = FA_BLOCK)
              \<and> (rf_action c = FA_BLOCK \<and> rf_action (at_rule e) = FA_RATE_LIMIT \<longrightarrow>
                   \<not> set (rf_evidence c) \<subseteq> set (rf_evidence (at_rule e))))
        \<and> cr_expires_at c = Some x \<and> now < x \<and> x \<le> now + seconds (vc_max_ttl_seconds cfg)
        \<and> cr_decision_id c \<in> set known \<and> fst (would_allow now limiter)))
    \<and> (so_approved (fst (validate_set_candidate cached c target cfg known active allowlist limiter now local)) \<longrightarrow>
        so_upgrade_of (fst (validate_set_candidate cached c target cfg known active allowlist limiter now local)) =
          (case target of None \<Rightarrow> None | Some t \<Rightarrow>
             (case upgradable c t active of [] \<Rightarrow> None | e # es \<Rightarrow> Some (fr_id (at_rule e)))))"
  (is "(?approved \<longleftrightarrow> ?spec) \<and> (?approved \<longrightarrow> ?up)")
proof
  have esc: "validate_escalation c active (map (fr_id \<circ> at_rule) (upgradable c t active)) = None \<longleftrightarrow>
      (\<forall>e \<in> set active. same_device (at_target e) t \<longrightarrow> rf_action c = FA_BLOCK \<and> rf_action (at_rule e) = FA_RATE_LIMIT \<longrightarrow>
        \<not> set (rf_evidence c) \<subseteq> set (rf_evidence (at_rule e)))" for t
    using escalation_iff [OF assms(2), of "upgradable c t active" c] by (auto simp: upgradable_def)
  have dup: "validate_set_duplicate c t active = None \<longleftrightarrow>
      (\<forall>e \<in> set active. same_device (at_target e) t \<longrightarrow> rf_action (at_rule e) \<noteq> rf_action c)" for t
    by (auto simp: validate_set_duplicate_def list_ex_iff)
  have auth: "validate_authorization c known = None \<longleftrightarrow> cr_decision_id c \<in> set known"
      "validate_schema c = None \<longleftrightarrow> rf_threat_score c \<noteq> None"
    by (simp_all add: validate_authorization_def validate_schema_def)
  show "?approved \<longleftrightarrow> ?spec"
    unfolding set_approved_iff set_expiration_iff esc dup auth list_ex_iff
    using set_safe_iff [OF assms(1)] by blast
  show "?approved \<longrightarrow> ?up"
  proof
    assume a: ?approved
    then obtain t where t: "target = Some t" unfolding set_approved_iff by blast
    have c: "set_conflict_loop c t active [] = (None, map (fr_id \<circ> at_rule) (upgradable c t active))"
      using a unfolding set_approved_iff t by (auto simp: set_conflict_loop_start)
    have "snd (snd (run_checks (set_checks cached c target cfg known active allowlist now local) (limiter, []))) =
        map (fr_id \<circ> at_rule) (upgradable c t active)"
      using a c unfolding set_approved_iff t
      by (simp add: set_checks_def run_checks.simps(2) on_target_def validate_rate_cap_def case_prod_unfold Let_def)
    then show ?up using a unfolding t
      by (auto simp: validate_set_candidate_def case_prod_unfold split: option.splits list.splits)
  qed
qed

definition example_active :: active_target where
  "example_active = \<lparr>at_rule = \<lparr>rf_action = FA_RATE_LIMIT, rf_direction = RD_INBOUND,
       rf_source = host_network (ipv4 10 0 0 5), rf_destination = host_network (ipv4 93 184 216 34),
       rf_protocol = P_TCP, rf_source_port = None, rf_destination_port = Some 443, rf_reason = ''r'',
       rf_threat_score = Some 80, rf_evidence = [''old''], rf_metadata = [], rf_target = None,
       fr_id = ''r1'', fr_priority = 20, fr_status = RS_ACTIVE, fr_created_at = 0, fr_expires_at = None,
       fr_deployed_at = None\<rparr>,
     at_target = \<lparr>rt_ip = ipv4 10 0 0 5, rt_mac = None\<rparr>\<rparr>"

theorem set_validation_exact_witness:
  "so_approved (fst (validate_set_candidate no_local example_candidate (rf_target example_candidate) example_config [''d'']
      [example_active] [example_entry] (new_rate_limiter 5 (seconds 60)) 0 None))
   \<and> so_upgrade_of (fst (validate_set_candidate no_local example_candidate (rf_target example_candidate) example_config [''d'']
      [example_active] [example_entry] (new_rate_limiter 5 (seconds 60)) 0 None)) = Some ''r1''"
proof -
  have "distinct (map (fr_id \<circ> at_rule) [example_active])" by simp
  note exact = set_validation_exact [OF example_valid(3) this, of no_local "rf_target example_candidate" example_config
      "[''d'']" "[example_entry]" "new_rate_limiter 5 (seconds 60)" 0 None]
  have "so_approved (fst (validate_set_candidate no_local example_candidate (rf_target example_candidate) example_config [''d'']
      [example_active] [example_entry] (new_rate_limiter 5 (seconds 60)) 0 None))"
    unfolding conjunct1 [OF exact]
    by (simp add: example_rule_defs example_active_def set_protected_def infrastructure_def targetable_address_def
        network_eval would_allow_def rl_prune_def new_rate_limiter_def)
  with conjunct2 [OF exact] show ?thesis
    by (simp add: example_candidate_def example_active_def upgradable_def same_device_def)
qed

subsection \<open>What the manager relies on\<close>

text \<open>
  The interface of a validation chain as its caller sees it: an approved enforcing candidate never
  acts on a protected address, carries an expiry, and stems from a known decision.
\<close>

record validation_context =
  vx_cached :: local_addresses
  vx_config :: validation_config
  vx_known :: "string list"
  vx_allowlist :: "allowlist_entry list"
  vx_limiter :: rate_limiter
  vx_now :: datetime
  vx_local :: "local_addresses option"

definition context_ok :: "validation_context \<Rightarrow> bool" where
  "context_ok x \<longleftrightarrow> wf_network (vc_protected_network (vx_config x)) \<and> (\<forall>e \<in> set (vx_allowlist x). wf_network (al_target e))"

locale guarded_validation =
  fixes approves :: "validation_context \<Rightarrow> 'w \<Rightarrow> candidate_rule \<Rightarrow> bool"
    and acts_on :: "'w \<Rightarrow> candidate_rule \<Rightarrow> ipv4_address set"
  assumes approved_reach: "context_ok x \<Longrightarrow> valid_rule_fields c \<Longrightarrow> approves x w c \<Longrightarrow> restrictive (rf_action c) \<Longrightarrow>
      acts_on w c \<inter> (v1_infrastructure (vx_config x) (resolve_local (vx_cached x) (vx_local x))
        \<union> fully_allowlisted (vx_allowlist x)) = {}"
    and approved_expires: "approves x w c \<Longrightarrow> cr_expires_at c \<noteq> None"
    and approved_known: "approves x w c \<Longrightarrow> cr_decision_id c \<in> set (vx_known x)"
begin

text \<open>A whole batch of approved candidates, whatever each was validated against.\<close>

lemma batch_spares_protected:
  assumes "\<forall>(x, w, c) \<in> set batch. context_ok x \<and> valid_rule_fields c \<and> approves x w c \<and> restrictive (rf_action c)"
    and "\<forall>(x, w, c) \<in> set batch. a \<in> v1_infrastructure (vx_config x) (resolve_local (vx_cached x) (vx_local x))
           \<or> a \<in> fully_allowlisted (vx_allowlist x)"
  shows "a \<notin> (\<Union>(x, w, c) \<in> set batch. acts_on w c)"
proof -
  have "a \<notin> acts_on w c" if "(x, w, c) \<in> set batch" for x w c
    using approved_reach [of x c w] assms that by blast
  then show ?thesis by auto
qed

end

definition v1_approves :: "validation_context \<Rightarrow> firewall_rule list \<times> mac_address option \<Rightarrow> candidate_rule \<Rightarrow> bool" where
  "v1_approves x w c \<longleftrightarrow> vo_approved (fst (validate_candidate_rule (vx_cached x) c (vx_config x) (vx_known x) (fst w)
     (vx_allowlist x) (vx_limiter x) (vx_now x) (vx_local x) (snd w)))"

definition v2_approves :: "validation_context \<Rightarrow> active_target list \<times> rule_target option \<Rightarrow> candidate_rule \<Rightarrow> bool" where
  "v2_approves x w c \<longleftrightarrow> so_approved (fst (validate_set_candidate (vx_cached x) c (snd w) (vx_config x) (vx_known x) (fst w)
     (vx_allowlist x) (vx_limiter x) (vx_now x) (vx_local x)))"

interpretation v1: guarded_validation v1_approves "\<lambda>w. rule_reach"
proof
  fix x w c
  assume ok: "context_ok x" "valid_rule_fields c" "v1_approves x w c" "restrictive (rf_action c)"
  have wf: "wf_network (vc_protected_network (vx_config x))" "\<forall>e \<in> set (vx_allowlist x). wf_network (al_target e)"
    using ok(1) by (simp_all add: context_ok_def)
  have a: "validate_allowlist c (vx_allowlist x) = None" and s: "validate_safety (vx_cached x) c (vx_config x) (vx_local x) = None"
    using ok(3) unfolding v1_approves_def v1_approved_iff by blast+
  have "a \<notin> rule_reach c" if "a \<in> fully_allowlisted (vx_allowlist x)" for a
    using that validate_allowlist_None [OF a ok(4,2) wf(2)] by (auto simp: fully_allowlisted_def rule_reach_def)
  moreover have "a \<notin> rule_reach c" if "a \<in> v1_infrastructure (vx_config x) (resolve_local (vx_cached x) (vx_local x))" for a
    using that validate_safety_None(3) [OF s ok(4)] rule_touches_iff [OF ok(2)] by blast
  ultimately show "rule_reach c \<inter> (v1_infrastructure (vx_config x) (resolve_local (vx_cached x) (vx_local x))
      \<union> fully_allowlisted (vx_allowlist x)) = {}" by blast
qed (auto simp: v1_approves_def v1_approved_iff validate_expiration_def validate_authorization_def split: if_splits)

interpretation v2: guarded_validation v2_approves "\<lambda>w c. case snd w of None \<Rightarrow> {} | Some t \<Rightarrow> {rt_ip t}"
proof
  fix x w c
  assume ok: "context_ok x" "valid_rule_fields c" "v2_approves x w c" "restrictive (rf_action c)"
  obtain t where t: "snd w = Some t" "validate_set_allowlist c t (vx_allowlist x) = None"
      "validate_set_safety (vx_cached x) c t (vx_config x) (vx_local x) = None"
    using ok(3) unfolding v2_approves_def set_approved_iff by blast
  have "\<not> set_protected (vx_config x) (resolve_local (vx_cached x) (vx_local x)) (vx_allowlist x) t"
    using set_safe_iff [OF ok(4)] t(2,3) by blast
  then have "rt_ip t \<notin> v1_infrastructure (vx_config x) (resolve_local (vx_cached x) (vx_local x))
      \<union> fully_allowlisted (vx_allowlist x)"
    by (auto simp: set_protected_def infrastructure_def v1_infrastructure_def fully_allowlisted_def)
  then show "(case snd w of None \<Rightarrow> {} | Some t \<Rightarrow> {rt_ip t}) \<inter> (v1_infrastructure (vx_config x)
      (resolve_local (vx_cached x) (vx_local x)) \<union> fully_allowlisted (vx_allowlist x)) = {}"
    using t(1) by simp
qed (auto simp: v2_approves_def set_approved_iff set_expiration_iff validate_authorization_def split: if_splits)

end
