(* ===== verification/Bindings.thy ===== *)
theory Bindings
  imports Models Text "HOL-Library.Product_Lexorder"
begin

section \<open>IP-MAC bindings: the lease parser and the binding table\<close>

text \<open>
  \<open>core/bindings.py\<close> and the interface it implements, \<open>core/binding_table.py\<close>.

  \<^item> \<open>parse_leases\<close> with the \<open>_LEASE_LINE\<close> pattern and \<open>IPv6Address(str)\<close> (acceptance only), over
    the string functions of \<open>Text\<close>.
  \<^item> \<open>LeaseBindingTable\<close> as the record \<open>lease_binding_table\<close> with \<open>__init__\<close>, \<open>resolve_mac\<close>,
    \<open>resolve_ip\<close>, \<open>snapshot\<close> and \<open>apply_leases\<close>. The lock is not modelled: every method is one
    atomic step.
  \<^item> The locale \<open>binding_table\<close> is the \<open>BindingTable\<close> protocol; \<open>LeaseBindingTable\<close> interprets it.
\<close>

subsection \<open>The lease-file parser\<close>

text \<open>Whether \<open>IPv6Address(s)\<close> accepts \<open>s\<close>.\<close>

definition is_hextet :: "string \<Rightarrow> bool" where
  "is_hextet s \<longleftrightarrow> s \<noteq> [] \<and> length s \<le> 4 \<and> list_all is_hex s"

definition ipv6_parts_ok :: "string list \<Rightarrow> bool" where
  "ipv6_parts_ok parts =
     (let n = length parts;
          empty = filter (\<lambda>i. parts ! i = []) [1..<n - 1] in
      n \<le> 9
      \<and> (case empty of
           [] \<Rightarrow> n = 8 \<and> list_all is_hextet parts
         | [k] \<Rightarrow>
             let hi = (if parts ! 0 = [] then k - 1 else k);
                 lo = (if parts ! (n - 1) = [] then n - k - 2 else n - k - 1) in
             \<not> (parts ! 0 = [] \<and> hi \<noteq> 0) \<and> \<not> (parts ! (n - 1) = [] \<and> lo \<noteq> 0)
             \<and> hi + lo < 8
             \<and> list_all is_hextet (take hi parts) \<and> list_all is_hextet (drop (n - lo) parts)
         | _ \<Rightarrow> False))"

definition ipv6_expand_suffix :: "string list \<Rightarrow> string list option" where
  "ipv6_expand_suffix parts =
     (if CHR ''.'' \<in> set (last parts)
      then (if parse_ipv4 (last parts) = None then None else Some (butlast parts @ [''0'', ''0'']))
      else Some parts)"

definition ipv6_scope_ok :: "string \<Rightarrow> bool" where
  "ipv6_scope_ok s = (case split_on (CHR ''%'') s of [a] \<Rightarrow> True | [a, scope] \<Rightarrow> scope \<noteq> [] | _ \<Rightarrow> False)"

definition is_ipv6 :: "string \<Rightarrow> bool" where
  "is_ipv6 s =
     (CHR ''/'' \<notin> set s \<and> ipv6_scope_ok s
      \<and> (let parts = split_on (CHR '':'') (hd (split_on (CHR ''%'') s)) in
         3 \<le> length parts
         \<and> (case ipv6_expand_suffix parts of None \<Rightarrow> False | Some ps \<Rightarrow> ipv6_parts_ok ps)))"

datatype ignored_lease = IL_MALFORMED | IL_TOO_LONG | IL_IPV6 | IL_INFINITE | IL_OUTSIDE_NETWORK
  | IL_NOT_UNICAST | IL_DUPLICATE | IL_CONFLICT

definition all_ignored :: "ignored_lease list" where
  "all_ignored = [IL_MALFORMED, IL_TOO_LONG, IL_IPV6, IL_INFINITE, IL_OUTSIDE_NETWORK,
     IL_NOT_UNICAST, IL_DUPLICATE, IL_CONFLICT]"

type_synonym lease_counter = "ignored_lease \<Rightarrow> nat"

record lease_parse =
  lp_bindings :: "binding list"
  lp_ignored :: lease_counter

definition ignored_total :: "lease_parse \<Rightarrow> nat" where
  "ignored_total p = sum_list (map (lp_ignored p) all_ignored)"

abbreviation bump :: "ignored_lease \<Rightarrow> lease_counter \<Rightarrow> lease_counter" where
  "bump r f \<equiv> f(r := Suc (f r))"

definition MAX_LINE_CHARS :: nat where
  "MAX_LINE_CHARS = 512"

text \<open>
  \<open>_LEASE_LINE.fullmatch(line)\<close>: the captured expiry, MAC and address. The pattern's fields contain
  no space and are separated by single spaces, so a match is a split into five fields.
\<close>

definition lease_line :: "string \<Rightarrow> (string \<times> string \<times> string) option" where
  "lease_line line =
     (case split_on (CHR '' '') line of
        [expiry, mac, ip, hostname, client_id] \<Rightarrow>
          if digits_between 1 11 expiry \<and> mac_pattern mac \<and> mac ! 2 = CHR '':''
             \<and> length (split_on (CHR ''.'') ip) = 4
             \<and> list_all (digits_between 1 3) (split_on (CHR ''.'') ip)
             \<and> hostname \<noteq> [] \<and> client_id \<noteq> []
          then Some (expiry, mac, ip) else None
      | _ \<Rightarrow> None)"

text \<open>\<open>datetime.fromtimestamp(n, tz=UTC)\<close>: an error after the year 9999.\<close>

definition fromtimestamp :: "nat \<Rightarrow> datetime option" where
  "fromtimestamp n = (if n \<le> 253402300799 then Some (seconds (int n)) else None)"

definition parse_line :: "string \<Rightarrow> ipv4_network \<Rightarrow> ignored_lease + binding" where
  "parse_line line net =
     (case lease_line line of
        None \<Rightarrow>
          (let fields = split_on (CHR '' '') line in
           Inl (if fields ! 0 = ''duid'' \<or> length fields = 5 \<and> is_ipv6 (fields ! 2)
                then IL_IPV6 else IL_MALFORMED))
      | Some (expiry, mac, ip) \<Rightarrow>
          (case parse_ipv4 ip of
             None \<Rightarrow> Inl IL_MALFORMED
           | Some a \<Rightarrow>
               if decimal expiry = 0 then Inl IL_INFINITE
               else if \<not> in_network a net then Inl IL_OUTSIDE_NETWORK
               else (case unicast_mac mac of
                       None \<Rightarrow> Inl IL_NOT_UNICAST
                     | Some m \<Rightarrow>
                         (case fromtimestamp (decimal expiry) of
                            None \<Rightarrow> Inl IL_MALFORMED
                          | Some t \<Rightarrow> Inr \<lparr>b_ip = a, b_mac = m, b_source = BS_LEASE, b_expires_at = Some t\<rparr>))))"

text \<open>
  \<open>_expiry\<close>. The assertion inside it never fires: it is called on lease bindings only, and
  \<open>check_expiry_matches_source\<close> gives them an expiry. The other branch is never evaluated.
\<close>

definition expiry_of :: "binding \<Rightarrow> datetime" where
  "expiry_of b = (case b_expires_at b of Some t \<Rightarrow> t | None \<Rightarrow> 0)"

type_synonym pair_dict = "(ipv4_address \<times> mac_address, binding) odict"

abbreviation pair_of :: "binding \<Rightarrow> ipv4_address \<times> mac_address" where
  "pair_of b \<equiv> (b_ip b, b_mac b)"

fun parse_loop :: "ipv4_network \<Rightarrow> string list \<Rightarrow> lease_counter \<Rightarrow> pair_dict \<Rightarrow> lease_counter \<times> pair_dict" where
  "parse_loop net [] ignored by_pair = (ignored, by_pair)"
| "parse_loop net (line # lines) ignored by_pair =
     (if list_all is_space line then parse_loop net lines ignored by_pair
      else if MAX_LINE_CHARS < length line then parse_loop net lines (bump IL_TOO_LONG ignored) by_pair
      else (case parse_line line net of
              Inl reason \<Rightarrow> parse_loop net lines (bump reason ignored) by_pair
            | Inr b \<Rightarrow>
                (case map_of by_pair (pair_of b) of
                   Some previous \<Rightarrow>
                     parse_loop net lines (bump IL_DUPLICATE ignored)
                       (if expiry_of b \<le> expiry_of previous then by_pair
                        else AList.update (pair_of b) b by_pair)
                 | None \<Rightarrow> parse_loop net lines ignored (AList.update (pair_of b) b by_pair))))"

text \<open>\<open>macs_by_ip[ip]\<close>: the MACs seen with an address.\<close>

definition macs_by_ip :: "pair_dict \<Rightarrow> ipv4_address \<Rightarrow> mac_address list" where
  "macs_by_ip by_pair ip = remdups (map (snd \<circ> fst) (filter (\<lambda>kv. fst (fst kv) = ip) by_pair))"

fun conflict_loop :: "pair_dict \<Rightarrow> pair_dict \<Rightarrow> lease_counter \<Rightarrow> binding list \<times> lease_counter" where
  "conflict_loop by_pair [] ignored = ([], ignored)"
| "conflict_loop by_pair (((ip, mac), b) # items) ignored =
     (if 1 < length (macs_by_ip by_pair ip)
      then conflict_loop by_pair items (bump IL_CONFLICT ignored)
      else (let (bs, ig) = conflict_loop by_pair items ignored in (b # bs, ig)))"

definition parse_leases :: "string \<Rightarrow> ipv4_network \<Rightarrow> lease_parse" where
  "parse_leases text net =
     (let (ignored, by_pair) = parse_loop net (splitlines text) (\<lambda>_. 0) [];
          (bs, ig) = conflict_loop by_pair (sort_key fst by_pair) ignored
      in \<lparr>lp_bindings = bs, lp_ignored = ig\<rparr>)"

subsection \<open>The binding table\<close>

record static_binding_entry =
  sb_ip :: ipv4_address
  sb_mac :: mac_address
  sb_reason :: string

definition check_static_unique :: "static_binding_entry list \<Rightarrow> bool" where
  "check_static_unique es \<longleftrightarrow> distinct (map sb_ip es) \<and> distinct (map sb_mac es)"

definition static_bindings :: "static_binding_entry list \<Rightarrow> binding list" where
  "static_bindings es =
     map (\<lambda>e. \<lparr>b_ip = sb_ip e, b_mac = sb_mac e, b_source = BS_STATIC, b_expires_at = None\<rparr>) es"

record lease_binding_table =
  bt_static :: "(ipv4_address, binding) odict"
  bt_static_macs :: "mac_address list"
  bt_leases :: "(ipv4_address, binding) odict"

text \<open>\<open>__init__\<close>: \<open>None\<close> is the \<open>ValueError\<close> for a binding that is not static.\<close>

definition new_lease_binding_table :: "binding list \<Rightarrow> lease_binding_table option" where
  "new_lease_binding_table static =
     (if list_all (\<lambda>b. b_source b = BS_STATIC) static
      then Some \<lparr>bt_static = fold (\<lambda>b. AList.update (b_ip b) b) static [],
                 bt_static_macs = map b_mac static, bt_leases = []\<rparr>
      else None)"

definition resolve_mac :: "lease_binding_table \<Rightarrow> ipv4_address \<Rightarrow> mac_address option" where
  "resolve_mac t ip =
     (case map_of (bt_static t) ip of
        Some b \<Rightarrow> Some (b_mac b)
      | None \<Rightarrow> map_option b_mac (map_of (bt_leases t) ip))"

text \<open>\<open>max(leases, key=_expiry)\<close>: the first of the latest.\<close>

fun latest :: "binding \<Rightarrow> binding list \<Rightarrow> binding" where
  "latest best [] = best"
| "latest best (b # bs) = latest (if expiry_of best < expiry_of b then b else best) bs"

definition resolve_ip :: "lease_binding_table \<Rightarrow> mac_address \<Rightarrow> ipv4_address option" where
  "resolve_ip t mac =
     (case find (\<lambda>b. b_mac b = mac) (map snd (bt_static t)) of
        Some b \<Rightarrow> Some (b_ip b)
      | None \<Rightarrow>
          (case filter (\<lambda>b. b_mac b = mac) (map snd (bt_leases t)) of
             [] \<Rightarrow> None
           | b # bs \<Rightarrow> Some (b_ip (latest b bs))))"

definition snapshot :: "lease_binding_table \<Rightarrow> binding list" where
  "snapshot t = sort_key b_ip (map snd (bt_static t)) @ sort_key b_ip (map snd (bt_leases t))"

text \<open>
  The loop of \<open>apply_leases\<close> over the new lease set: \<open>None\<close> when an entry is not a lease
  (\<open>ValueError\<close>) or carries no expiry (the assertion in \<open>_expiry\<close>).
\<close>

fun wanted_loop ::
    "lease_binding_table \<Rightarrow> datetime \<Rightarrow> binding list \<Rightarrow> (ipv4_address, binding) odict
       \<Rightarrow> (ipv4_address, binding) odict option" where
  "wanted_loop t now [] wanted = Some wanted"
| "wanted_loop t now (b # bs) wanted =
     (if b_source b \<noteq> BS_LEASE then None
      else if b_expires_at b = None then None
      else if expiry_of b \<le> now then wanted_loop t now bs wanted
      else if map_of (bt_static t) (b_ip b) \<noteq> None \<or> b_mac b \<in> set (bt_static_macs t)
      then wanted_loop t now bs wanted
      else (case map_of wanted (b_ip b) of
              None \<Rightarrow> wanted_loop t now bs (AList.update (b_ip b) b wanted)
            | Some current \<Rightarrow>
                wanted_loop t now bs
                  (if expiry_of current < expiry_of b then AList.update (b_ip b) b wanted else wanted)))"

definition apply_leases ::
    "lease_binding_table \<Rightarrow> binding list \<Rightarrow> datetime \<Rightarrow> (binding_change \<times> lease_binding_table) option" where
  "apply_leases t leases now =
     (case wanted_loop t now leases [] of
        None \<Rightarrow> None
      | Some wanted \<Rightarrow>
          let previous = bt_leases t;
              removed = map snd (filter (\<lambda>(ip, b). map_of wanted ip \<noteq> Some b) previous);
              added = map snd (filter (\<lambda>(ip, b). map_of previous ip \<noteq> Some b) wanted)
          in Some (\<lparr>bc_removed = sort_key b_ip removed, bc_added = sort_key b_ip added\<rparr>,
                   t\<lparr>bt_leases := wanted\<rparr>))"

subsection \<open>What the parser keeps\<close>

lemma fromtimestamp_total: "digits_between 1 11 s \<Longrightarrow> fromtimestamp (decimal s) = Some (seconds (int (decimal s)))"
proof -
  assume s: "digits_between 1 11 s"
  then have "decimal s < 10 ^ length s"
    using foldl_decimal_bound [of s 0] by (simp add: decimal_def digits_between_def)
  also have "(10 :: nat) ^ length s \<le> 10 ^ 11"
    using s by (intro power_increasing) (simp_all add: digits_between_def)
  finally show ?thesis by (simp add: fromtimestamp_def)
qed

definition usable_lease :: "ipv4_network \<Rightarrow> binding \<Rightarrow> bool" where
  "usable_lease net b \<longleftrightarrow> in_network (b_ip b) net \<and> unicast_mac (b_mac b) = Some (b_mac b)
     \<and> b_source b = BS_LEASE \<and> (\<exists>t > 0. b_expires_at b = Some t)"

lemma parse_line_usable: "parse_line line net = Inr b \<Longrightarrow> usable_lease net b"
  by (auto simp: parse_line_def usable_lease_def fromtimestamp_def Let_def seconds_def unicast_mac_fixed
      split: option.splits if_splits)

lemma usable_lease_eqI:
  "usable_lease net b \<Longrightarrow> usable_lease net b' \<Longrightarrow> pair_of b = pair_of b' \<Longrightarrow> expiry_of b = expiry_of b' \<Longrightarrow> b = b'"
  by (auto simp: usable_lease_def expiry_of_def)

text \<open>The bindings of the lines that parse, in order, and the lines that count.\<close>

definition lease_candidates :: "ipv4_network \<Rightarrow> string list \<Rightarrow> binding list" where
  "lease_candidates net lines = List.map_filter
     (\<lambda>l. if list_all is_space l \<or> MAX_LINE_CHARS < length l then None
          else (case parse_line l net of Inl r \<Rightarrow> None | Inr b \<Rightarrow> Some b)) lines"

lemma lease_candidates_simps [simp]:
  "lease_candidates net [] = []"
  "lease_candidates net (l # ls) =
     (if list_all is_space l \<or> MAX_LINE_CHARS < length l then lease_candidates net ls
      else (case parse_line l net of Inl r \<Rightarrow> lease_candidates net ls | Inr b \<Rightarrow> b # lease_candidates net ls))"
  by (simp_all add: lease_candidates_def List.map_filter_simps split: sum.splits)

lemma lease_candidates_usable: "b \<in> set (lease_candidates net ls) \<Longrightarrow> usable_lease net b"
  by (induction ls) (auto split: if_splits sum.splits dest: parse_line_usable)

definition keep_later :: "(binding \<Rightarrow> 'k) \<Rightarrow> binding \<Rightarrow> ('k, binding) odict \<Rightarrow> ('k, binding) odict" where
  "keep_later key b d = (case map_of d (key b) of
     Some p \<Rightarrow> if expiry_of b \<le> expiry_of p then d else AList.update (key b) b d
   | None \<Rightarrow> AList.update (key b) b d)"

lemma parse_loop_dict: "snd (parse_loop net ls ig d) = fold (keep_later pair_of) (lease_candidates net ls) d"
  by (induction ls arbitrary: ig d) (auto simp: keep_later_def split: sum.splits option.splits)

text \<open>The dictionary holds, for every key seen, a latest-expiring binding with that key.\<close>

definition latest_by :: "(binding \<Rightarrow> 'k) \<Rightarrow> binding set \<Rightarrow> ('k, binding) odict \<Rightarrow> bool" where
  "latest_by key B d \<longleftrightarrow> od_distinct d
     \<and> (\<forall>p b. map_of d p = Some b \<longrightarrow> b \<in> B \<and> key b = p \<and> (\<forall>b' \<in> B. key b' = p \<longrightarrow> expiry_of b' \<le> expiry_of b))
     \<and> (\<forall>b \<in> B. map_of d (key b) \<noteq> None)"

lemma latest_by_keep_later:
  assumes "latest_by key B d"
  shows "latest_by key (insert b B) (keep_later key b d)"
proof (cases "map_of d (key b)")
  case None
  then have "\<forall>b' \<in> B. key b' \<noteq> key b" using assms by (auto simp: latest_by_def)
  with None assms show ?thesis by (auto simp: latest_by_def keep_later_def)
next
  case (Some p)
  then have p: "p \<in> B" "key p = key b" "\<forall>b' \<in> B. key b' = key b \<longrightarrow> expiry_of b' \<le> expiry_of p"
    using assms unfolding latest_by_def by blast+
  show ?thesis
  proof (cases "expiry_of b \<le> expiry_of p")
    case True
    with Some p assms show ?thesis unfolding latest_by_def keep_later_def
      by (auto simp del: map_of_eq_Some_iff)
  next
    case False
    then have "keep_later key b d = AList.update (key b) b d" by (simp add: keep_later_def Some)
    moreover have "\<forall>b' \<in> B. key b' = key b \<longrightarrow> expiry_of b' \<le> expiry_of b" using p(3) False by auto
    ultimately show ?thesis using assms unfolding latest_by_def
      by (auto simp del: map_of_eq_Some_iff split: if_splits)
  qed
qed

lemma latest_by_fold:
  "latest_by key B d \<Longrightarrow> latest_by key (B \<union> set bs) (fold (keep_later key) bs d)"
proof (induction bs arbitrary: B d)
  case (Cons b bs)
  then show ?case using Cons.IH [OF latest_by_keep_later [OF Cons.prems, of b]] by simp
qed simp

lemma latest_by_parse:
  "latest_by pair_of (set (lease_candidates net ls)) (snd (parse_loop net ls ig []))"
proof -
  have "latest_by pair_of {} []" by (simp add: latest_by_def)
  from latest_by_fold [OF this, of "lease_candidates net ls"] show ?thesis by (simp add: parse_loop_dict)
qed

lemma conflict_loop_fst:
  "fst (conflict_loop d items ig) = map snd (filter (\<lambda>kv. length (macs_by_ip d (fst (fst kv))) \<le> 1) items)"
proof (induction items arbitrary: ig)
  case (Cons kv items)
  obtain ip mac b where "kv = ((ip, mac), b)" by (metis prod.exhaust)
  with Cons show ?case by (simp add: Let_def case_prod_unfold)
qed simp

lemma set_macs_by_ip: "set (macs_by_ip d ip) = {mac. (ip, mac) \<in> fst ` set d}"
  by (force simp: macs_by_ip_def)

lemma macs_by_ip_single:
  assumes "(ip, mac) \<in> fst ` set d"
  shows "length (macs_by_ip d ip) \<le> 1 \<longleftrightarrow> (\<forall>m. (ip, m) \<in> fst ` set d \<longrightarrow> m = mac)"
proof -
  have "length (macs_by_ip d ip) = card (set (macs_by_ip d ip))"
    by (simp add: macs_by_ip_def length_remdups_card_conv)
  moreover have "mac \<in> set (macs_by_ip d ip)" using assms by (simp add: set_macs_by_ip)
  ultimately have "length (macs_by_ip d ip) \<le> 1 \<longleftrightarrow> set (macs_by_ip d ip) = {mac}"
    by (metis One_nat_def card_1_singletonE card_eq_0_iff empty_iff insertE is_singletonI is_singleton_altdef
        le_Suc_eq le_zero_eq List.finite_set order_refl)
  then show ?thesis using assms by (auto simp: set_macs_by_ip)
qed

lemma sort_pairs_sorted:
  assumes "od_distinct d" "\<forall>kv \<in> set d. pair_of (snd kv) = fst kv"
  shows "sorted (map (\<lambda>kv. b_ip (snd kv)) (sort_key fst d))"
proof -
  have "sorted (map fst (sort_key fst d))" by simp
  then have "sorted_wrt (\<lambda>x y. fst (fst x) \<le> fst (fst y)) (sort_key fst d)"
    unfolding sorted_map by (rule sorted_wrt_mono_rel [rotated]) (auto simp: less_eq_prod_def)
  moreover have "fst (fst kv) = b_ip (snd kv)" if "kv \<in> set (sort_key fst d)" for kv
    using that assms(2) by (metis fst_conv set_sort)
  ultimately show ?thesis unfolding sorted_map using sorted_wrt_mono_rel
    by (metis (no_types, lifting))
qed

lemma sorted_filter_snd:
  assumes "sorted (map (\<lambda>kv. b_ip (snd kv)) xs)"
  shows "sorted (map b_ip (map snd (filter P xs)))"
  using sorted_filter [OF assms, of P] by (simp add: comp_def)

lemma parse_leases_bindings:
  "lp_bindings (parse_leases text net) =
     (let d = snd (parse_loop net (splitlines text) (\<lambda>_. 0) [])
      in map snd (filter (\<lambda>kv. length (macs_by_ip d (fst (fst kv))) \<le> 1) (sort_key fst d)))"
  by (simp add: parse_leases_def Let_def case_prod_unfold conflict_loop_fst)

lemma distinct_kept:
  assumes "latest_by pair_of B d"
  shows "distinct (map b_ip (map snd (filter (\<lambda>kv. length (macs_by_ip d (fst (fst kv))) \<le> 1) (sort_key fst d))))"
proof -
  let ?f = "filter (\<lambda>kv. length (macs_by_ip d (fst (fst kv))) \<le> 1) (sort_key fst d)"
  have d: "od_distinct d" and pr: "\<And>k b. (k, b) \<in> set d \<Longrightarrow> pair_of b = k"
    using assms by (auto simp: latest_by_def)
  have "inj_on (\<lambda>kv. b_ip (snd kv)) (set ?f)"
  proof (rule inj_onI)
    fix x y assume xy: "x \<in> set ?f" "y \<in> set ?f" "b_ip (snd x) = b_ip (snd y)"
    obtain i m b i' m' b' where x: "x = ((i, m), b)" and y: "y = ((i', m'), b')" by (metis prod.exhaust)
    have "i = i'" using xy pr x y by auto
    then have "m = m'" using xy macs_by_ip_single [of i m d] by (force simp: x y)
    with \<open>i = i'\<close> show "x = y" using xy d by (auto simp: x y dest: eq_key_imp_eq_value)
  qed
  moreover have "distinct ?f" using d by (simp add: distinct_map)
  ultimately show ?thesis by (simp add: distinct_map comp_def)
qed

lemma set_kept:
  assumes "latest_by pair_of B d" "\<forall>b \<in> B. usable_lease net b"
  shows "set (map snd (filter (\<lambda>kv. length (macs_by_ip d (fst (fst kv))) \<le> 1) (sort_key fst d))) =
    {b \<in> B. \<forall>b' \<in> B. b_ip b' = b_ip b \<longrightarrow> b_mac b' = b_mac b \<and> expiry_of b' \<le> expiry_of b}" (is "?L = ?R")
proof -
  have d: "od_distinct d" using assms by (simp add: latest_by_def)
  have keys: "fst ` set d = pair_of ` B"
  proof -
    have "k \<in> pair_of ` B" if k: "k \<in> fst ` set d" for k
    proof -
      obtain b where "map_of d k = Some b" using k map_of_None_iff_key [of d k] by blast
      then have "b \<in> B" "pair_of b = k" using assms(1) unfolding latest_by_def by blast+
      then show ?thesis by auto
    qed
    moreover have "pair_of b \<in> fst ` set d" if "b \<in> B" for b
      using that assms(1) map_of_None_iff_key [of d "pair_of b"] unfolding latest_by_def by blast
    ultimately show ?thesis by blast
  qed
  have single: "length (macs_by_ip d (b_ip b)) \<le> 1 \<longleftrightarrow> (\<forall>b' \<in> B. b_ip b' = b_ip b \<longrightarrow> b_mac b' = b_mac b)" if "b \<in> B" for b
  proof -
    have "(b_ip b, b_mac b) \<in> fst ` set d" using that unfolding keys by blast
    from macs_by_ip_single [OF this]
    have "length (macs_by_ip d (b_ip b)) \<le> 1 \<longleftrightarrow> (\<forall>m. (b_ip b, m) \<in> pair_of ` B \<longrightarrow> m = b_mac b)" unfolding keys .
    also have "\<dots> \<longleftrightarrow> (\<forall>b' \<in> B. b_ip b' = b_ip b \<longrightarrow> b_mac b' = b_mac b)" by (simp add: image_iff) metis
    finally show ?thesis .
  qed
  show ?thesis
  proof (rule set_eqI)
    fix b
    have "b \<in> ?L \<longleftrightarrow> (\<exists>k. map_of d k = Some b \<and> length (macs_by_ip d (fst k)) \<le> 1)"
      unfolding map_of_eq_Some_iff [OF d] by (simp add: image_iff)
    also have "\<dots> \<longleftrightarrow> b \<in> ?R"
    proof
      assume "\<exists>k. map_of d k = Some b \<and> length (macs_by_ip d (fst k)) \<le> 1"
      then obtain k where "map_of d k = Some b" "length (macs_by_ip d (fst k)) \<le> 1" by blast
      moreover from this(1) have "b \<in> B" "pair_of b = k"
          "\<forall>b' \<in> B. pair_of b' = k \<longrightarrow> expiry_of b' \<le> expiry_of b"
        using assms(1) unfolding latest_by_def by blast+
      ultimately show "b \<in> ?R" using single [of b] by auto
    next
      assume b: "b \<in> ?R"
      then obtain c where c: "map_of d (pair_of b) = Some c" using assms(1) unfolding latest_by_def by blast
      then have cb: "c \<in> B" "pair_of c = pair_of b" "expiry_of b \<le> expiry_of c"
        using b assms(1) unfolding latest_by_def by blast+
      have "b_ip c = b_ip b" using cb(2) by simp
      then have "expiry_of c \<le> expiry_of b" using b cb(1) by blast
      with cb(3) have "expiry_of c = expiry_of b" by simp
      moreover have "usable_lease net c" "usable_lease net b" using b cb(1) assms(2) by blast+
      ultimately have "c = b" using cb(2) usable_lease_eqI by blast
      moreover have "length (macs_by_ip d (b_ip b)) \<le> 1" using b single [of b] by blast
      ultimately show "\<exists>k. map_of d k = Some b \<and> length (macs_by_ip d (fst k)) \<le> 1"
        using c by (intro exI [of _ "pair_of b"]) simp
    qed
    finally show "b \<in> ?L \<longleftrightarrow> b \<in> ?R" .
  qed
qed

text \<open>
  C30: The exact result of parsing a lease file. A binding is returned if and only if some line
  states it, no line gives its address to another MAC, and no line states the same pair with a
  later expiry. The addresses returned are distinct and in increasing order, and every binding
  returned is a lease in the protected network, on a unicast MAC in canonical form, with an
  expiry after the epoch.
\<close>

theorem parse_leases_exact:
  "set (lp_bindings (parse_leases text net)) =
     {b \<in> set (lease_candidates net (splitlines text)).
        \<forall>b' \<in> set (lease_candidates net (splitlines text)).
          b_ip b' = b_ip b \<longrightarrow> b_mac b' = b_mac b \<and> expiry_of b' \<le> expiry_of b}
   \<and> distinct (map b_ip (lp_bindings (parse_leases text net)))
   \<and> sorted (map b_ip (lp_bindings (parse_leases text net)))
   \<and> list_all (usable_lease net) (lp_bindings (parse_leases text net))"
proof -
  let ?c = "lease_candidates net (splitlines text)"
  define d where "d = snd (parse_loop net (splitlines text) (\<lambda>_. 0) [])"
  have l: "latest_by pair_of (set ?c) d" unfolding d_def by (rule latest_by_parse)
  have u: "\<forall>b \<in> set ?c. usable_lease net b" using lease_candidates_usable by blast
  have "od_distinct d" "\<forall>kv \<in> set d. pair_of (snd kv) = fst kv"
    using l by (auto simp: latest_by_def)
  note s = sorted_filter_snd [OF sort_pairs_sorted [OF this]]
  show ?thesis
    using set_kept [OF l u] distinct_kept [OF l] s u
    unfolding parse_leases_bindings Let_def d_def [symmetric] by (simp add: list_all_iff)
qed

definition example_lease_file :: string where
  "example_lease_file =
     ''9 02:00:00:00:00:01 10.0.0.5 h *'' @ [CHR 0x0A] @
     ''7 02:00:00:00:00:02 10.0.0.6 h *'' @ [CHR 0x0A] @
     ''8 02:00:00:00:00:03 10.0.0.6 h *'' @ [CHR 0x0A]"

definition example_lan :: ipv4_network where
  "example_lan = \<lparr>network_address = ipv4 10 0 0 0, prefixlen = 24\<rparr>"

lemma example_splitlines:
  "splitlines example_lease_file = [''9 02:00:00:00:00:01 10.0.0.5 h *'',
     ''7 02:00:00:00:00:02 10.0.0.6 h *'', ''8 02:00:00:00:00:03 10.0.0.6 h *'']"
  by (simp add: example_lease_file_def splitlines.simps is_linebreak_def after_linebreak_def)

lemmas parse_eval = parse_line_def lease_line_def digits_between_def is_digit_def mac_pattern_def
  is_hex_def hex_value_alt decimal_def parse_ipv4_def parse_octet_def unicast_mac_def normalise_mac_def
  require_unicast_identity_def first_octet_def fromtimestamp_def less_eq_char_def ascii_lower_def

lemma example_lines:
  "lease_candidates example_lan (splitlines example_lease_file) = 
    [\<lparr>b_ip = ipv4 10 0 0 5, b_mac = ''02:00:00:00:00:01'', b_source = BS_LEASE, b_expires_at = Some (seconds 9)\<rparr>,
     \<lparr>b_ip = ipv4 10 0 0 6, b_mac = ''02:00:00:00:00:02'', b_source = BS_LEASE, b_expires_at = Some (seconds 7)\<rparr>,
     \<lparr>b_ip = ipv4 10 0 0 6, b_mac = ''02:00:00:00:00:03'', b_source = BS_LEASE, b_expires_at = Some (seconds 8)\<rparr>]"
  unfolding example_splitlines
  by (simp add: parse_eval is_space_def MAX_LINE_CHARS_def example_lan_def ip_eval mask_eq_exp_minus_1)

theorem parse_leases_exact_witness:
  "set (lp_bindings (parse_leases example_lease_file example_lan)) =
    {\<lparr>b_ip = ipv4 10 0 0 5, b_mac = ''02:00:00:00:00:01'', b_source = BS_LEASE, b_expires_at = Some (seconds 9)\<rparr>}"
  using conjunct1 [OF parse_leases_exact [of example_lease_file example_lan]]
  unfolding example_lines set_filter [symmetric] by (simp add: ipv4_def)

text \<open>Accounting: one count or one dictionary entry for each line, one binding or one count for each entry.\<close>

definition count_total :: "lease_counter \<Rightarrow> nat" where
  "count_total f = sum_list (map f all_ignored)"

lemma count_total_bump [simp]: "count_total (bump r f) = Suc (count_total f)"
  by (cases r) (simp_all add: count_total_def all_ignored_def)

lemma parse_loop_count:
  "count_total (fst (parse_loop net ls ig d)) + length (snd (parse_loop net ls ig d)) =
     count_total ig + length d + length (filter (\<lambda>l. \<not> list_all is_space l) ls)"
proof (induction ls arbitrary: ig d)
  case (Cons l ls)
  show ?case
  proof (cases "parse_line l net")
    case (Inl r)
    with Cons show ?thesis by (simp del: fun_upd_apply)
  next
    case (Inr b)
    show ?thesis
    proof (cases "map_of d (pair_of b)")
      case None
      then have "length (AList.update (pair_of b) b d) = Suc (length d)"
        using map_of_None_iff_key [of d "pair_of b"] by (simp add: length_od_update)
      with Inr None Cons show ?thesis by (simp del: fun_upd_apply)
    next
      case (Some p)
      then have "length (AList.update (pair_of b) b d) = length d"
        using map_of_Some_key [OF Some] by (simp add: length_od_update)
      with Inr Some Cons show ?thesis by (simp del: fun_upd_apply)
    qed
  qed
qed simp

lemma conflict_loop_count:
  "count_total (snd (conflict_loop d items ig)) + length (fst (conflict_loop d items ig)) = count_total ig + length items"
proof (induction items arbitrary: ig)
  case (Cons kv items)
  obtain ip mac b where "kv = ((ip, mac), b)" by (metis prod.exhaust)
  with Cons show ?case by (simp add: Let_def case_prod_unfold del: fun_upd_apply)
qed simp

text \<open>
  No line of the lease file is lost: the bindings returned plus the lines counted as ignored,
  over all reasons, are exactly the lines that are not blank.
\<close>

theorem parse_leases_accounts_for_every_line:
  "length (lp_bindings (parse_leases text net)) + ignored_total (parse_leases text net) =
     length (filter (\<lambda>l. \<not> list_all is_space l) (splitlines text))"
proof -
  define q where "q = parse_loop net (splitlines text) (\<lambda>_. 0) []"
  have "count_total (\<lambda>_. 0) = 0" by (simp add: count_total_def all_ignored_def)
  then have q: "count_total (fst q) + length (snd q) = length (filter (\<lambda>l. \<not> list_all is_space l) (splitlines text))"
    unfolding q_def using parse_loop_count [of net "splitlines text" "\<lambda>_. 0" "[]"] by simp
  have "parse_leases text net =
      \<lparr>lp_bindings = fst (conflict_loop (snd q) (sort_key fst (snd q)) (fst q)),
       lp_ignored = snd (conflict_loop (snd q) (sort_key fst (snd q)) (fst q))\<rparr>"
    by (simp add: parse_leases_def q_def Let_def case_prod_unfold)
  then show ?thesis
    using conflict_loop_count [of "snd q" "sort_key fst (snd q)" "fst q"] q
    by (simp add: ignored_total_def count_total_def)
qed

lemma lease_line_None: "length (split_on (CHR '' '') l) \<noteq> 5 \<Longrightarrow> lease_line l = None"
  by (auto simp: lease_line_def split: list.splits)

text \<open>
  The two fields a DHCP client chooses, hostname and client-id, never influence the result
  of a line: replacing them by any other non-empty words gives the same binding or the same
  reason for ignoring the line, whatever precedes them.
\<close>

theorem client_fields_never_interfere:
  assumes "hostname \<noteq> []" "client_id \<noteq> []" "hostname' \<noteq> []" "client_id' \<noteq> []"
    and "CHR '' '' \<notin> set (hostname @ client_id @ hostname' @ client_id')"
  shows "parse_line (p @ CHR '' '' # hostname @ CHR '' '' # client_id) net =
    parse_line (p @ CHR '' '' # hostname' @ CHR '' '' # client_id') net"
proof -
  have split: "split_on (CHR '' '') (p @ CHR '' '' # h @ CHR '' '' # c) = split_on (CHR '' '') p @ [h, c]"
    if "CHR '' '' \<notin> set h" "CHR '' '' \<notin> set c" for h c
    using that split_on_append [of "CHR '' ''"] by (simp add: split_on_plain)
  obtain f fs where p: "split_on (CHR '' '') p = f # fs" by (metis split_on_Nil neq_Nil_conv)
  show ?thesis
  proof (cases "\<exists>m i. fs = [m, i]")
    case True
    with assms p show ?thesis by (auto simp: parse_line_def lease_line_def split)
  next
    case False
    then have "length fs \<noteq> 2" by (auto simp: length_Suc_conv numeral_2_eq_2)
    with assms p show ?thesis by (simp add: parse_line_def lease_line_None split Let_def)
  qed
qed

theorem client_fields_never_interfere_witness:
  "parse_line (''9 02:00:00:00:00:01 10.0.0.5'' @ CHR '' '' # ''phone'' @ CHR '' '' # ''*'') example_lan =
   parse_line (''9 02:00:00:00:00:01 10.0.0.5'' @ CHR '' '' # ''duid'' @ CHR '' '' # ''01:ff'') example_lan"
  by (rule client_fields_never_interfere) simp_all

subsection \<open>The binding-table interface\<close>

text \<open>A run of lease syncs, and what a mirror that applies the changes in order ends up with.\<close>

fun sync_run ::
    "('s \<Rightarrow> binding list \<Rightarrow> datetime \<Rightarrow> (binding_change \<times> 's) option) \<Rightarrow> (binding list \<times> datetime) list
       \<Rightarrow> 's \<Rightarrow> (binding_change list \<times> 's) option" where
  "sync_run apl [] s = Some ([], s)"
| "sync_run apl ((ls, now) # rest) s =
     (case apl s ls now of None \<Rightarrow> None
      | Some (c, s') \<Rightarrow> map_option (\<lambda>(cs, t). (c # cs, t)) (sync_run apl rest s'))"

definition replay_change :: "binding_change \<Rightarrow> binding set \<Rightarrow> binding set" where
  "replay_change c S = (S - set (bc_removed c)) \<union> set (bc_added c)"

definition all_leases :: "binding list \<Rightarrow> bool" where
  "all_leases ls \<longleftrightarrow> list_all (\<lambda>b. b_source b = BS_LEASE \<and> b_expires_at b \<noteq> None) ls"

locale binding_table =
  fixes inv :: "'s \<Rightarrow> bool"
    and rmac :: "'s \<Rightarrow> ipv4_address \<Rightarrow> mac_address option"
    and rip :: "'s \<Rightarrow> mac_address \<Rightarrow> ipv4_address option"
    and snap :: "'s \<Rightarrow> binding list"
    and apl :: "'s \<Rightarrow> binding list \<Rightarrow> datetime \<Rightarrow> (binding_change \<times> 's) option"
  assumes snap_distinct: "inv s \<Longrightarrow> distinct (map b_ip (snap s))"
    and rmac_iff: "inv s \<Longrightarrow> rmac s ip = Some m \<longleftrightarrow> (\<exists>b \<in> set (snap s). b_ip b = ip \<and> b_mac b = m)"
    and rip_sound: "inv s \<Longrightarrow> rip s m = Some ip \<Longrightarrow> rmac s ip = Some m"
    and rip_complete: "inv s \<Longrightarrow> b \<in> set (snap s) \<Longrightarrow> rip s (b_mac b) \<noteq> None"
    and apl_total: "inv s \<Longrightarrow> all_leases ls \<Longrightarrow> apl s ls now \<noteq> None"
    and apl_inv: "inv s \<Longrightarrow> apl s ls now = Some (c, s') \<Longrightarrow> inv s'"
    and apl_change: "inv s \<Longrightarrow> apl s ls now = Some (c, s') \<Longrightarrow> set (snap s') = replay_change c (set (snap s))"
    and apl_static: "inv s \<Longrightarrow> apl s ls now = Some (c, s') \<Longrightarrow>
      filter (\<lambda>b. b_source b = BS_STATIC) (snap s') = filter (\<lambda>b. b_source b = BS_STATIC) (snap s)"
begin

lemma run_total:
  "inv s \<Longrightarrow> list_all (\<lambda>(ls, now). all_leases ls) rs \<Longrightarrow> \<exists>cs t. sync_run apl rs s = Some (cs, t)"
proof (induction rs arbitrary: s)
  case (Cons r rs)
  obtain ls now where r: "r = (ls, now)" by (cases r)
  obtain c s' where "apl s ls now = Some (c, s')" using Cons.prems apl_total [of s ls now] r by auto
  with Cons r show ?case using apl_inv by fastforce
qed simp

lemma run_mirror:
  assumes "inv s" "sync_run apl rs s = Some (cs, t)"
  shows "inv t \<and> fold replay_change cs (set (snap s)) = set (snap t)
    \<and> filter (\<lambda>b. b_source b = BS_STATIC) (snap t) = filter (\<lambda>b. b_source b = BS_STATIC) (snap s)"
  using assms
proof (induction rs arbitrary: s cs)
  case (Cons r rs)
  obtain ls now where r: "r = (ls, now)" by (cases r)
  obtain c s' cs' where a: "apl s ls now = Some (c, s')" "sync_run apl rs s' = Some (cs', t)" "cs = c # cs'"
    using Cons.prems r by (auto split: option.splits)
  show ?case
    using Cons.IH [OF apl_inv [OF Cons.prems(1) a(1)] a(2)] apl_change [OF Cons.prems(1) a(1)]
      apl_static [OF Cons.prems(1) a(1)] a(3) by simp
qed simp

lemma rip_exact: "inv s \<Longrightarrow> (\<exists>ip. rip s m = Some ip \<and> rmac s ip = Some m) \<longleftrightarrow> m \<in> b_mac ` set (snap s)"
  using rip_sound rip_complete rmac_iff by fastforce

lemma static_resolves:
  assumes "inv s" "sync_run apl rs s = Some (cs, t)" "b \<in> set (snap s)" "b_source b = BS_STATIC"
  shows "rmac t (b_ip b) = Some (b_mac b)"
proof -
  have "b \<in> set (filter (\<lambda>b. b_source b = BS_STATIC) (snap t))"
    using run_mirror [OF assms(1,2)] assms(3,4) by simp
  then have "b \<in> set (snap t)" by simp
  then show ?thesis using run_mirror [OF assms(1,2)] rmac_iff by blast
qed

end

subsection \<open>The lease binding table implements it\<close>

definition table_inv :: "lease_binding_table \<Rightarrow> bool" where
  "table_inv t \<longleftrightarrow> od_distinct (bt_static t) \<and> od_distinct (bt_leases t)
     \<and> (\<forall>(ip, b) \<in> set (bt_static t). b_ip b = ip \<and> b_source b = BS_STATIC \<and> b_mac b \<in> set (bt_static_macs t))
     \<and> (\<forall>(ip, b) \<in> set (bt_leases t). b_ip b = ip \<and> b_source b = BS_LEASE \<and> b_expires_at b \<noteq> None
          \<and> map_of (bt_static t) ip = None \<and> b_mac b \<notin> set (bt_static_macs t))"

lemma table_inv_distinct: "table_inv t \<Longrightarrow> od_distinct (bt_static t)" "table_inv t \<Longrightarrow> od_distinct (bt_leases t)"
  unfolding table_inv_def by blast+

lemma table_inv_leaseD:
  assumes "table_inv t" "(ip, b) \<in> set (bt_leases t)"
  shows "b_ip b = ip \<and> b_source b = BS_LEASE \<and> b_expires_at b \<noteq> None \<and> map_of (bt_static t) ip = None
    \<and> b_mac b \<notin> set (bt_static_macs t)"
proof -
  have "\<forall>(ip, b) \<in> set (bt_leases t). b_ip b = ip \<and> b_source b = BS_LEASE \<and> b_expires_at b \<noteq> None
      \<and> map_of (bt_static t) ip = None \<and> b_mac b \<notin> set (bt_static_macs t)"
    using assms(1) unfolding table_inv_def by (elim conjE)
  from bspec [OF this assms(2)] show ?thesis unfolding prod.case .
qed

lemma table_inv_staticD:
  assumes "table_inv t" "(ip, b) \<in> set (bt_static t)"
  shows "b_ip b = ip \<and> b_source b = BS_STATIC \<and> b_mac b \<in> set (bt_static_macs t)"
proof -
  have "\<forall>(ip, b) \<in> set (bt_static t). b_ip b = ip \<and> b_source b = BS_STATIC \<and> b_mac b \<in> set (bt_static_macs t)"
    using assms(1) unfolding table_inv_def by (elim conjE)
  from bspec [OF this assms(2)] show ?thesis unfolding prod.case .
qed

definition live_lease :: "lease_binding_table \<Rightarrow> datetime \<Rightarrow> binding \<Rightarrow> bool" where
  "live_lease t now b \<longleftrightarrow> now < expiry_of b \<and> map_of (bt_static t) (b_ip b) = None \<and> b_mac b \<notin> set (bt_static_macs t)"

lemma wanted_loop_step:
  "wanted_loop t now (b # bs) w =
     (if b_source b = BS_LEASE \<and> b_expires_at b \<noteq> None
      then wanted_loop t now bs (if live_lease t now b then keep_later b_ip b w else w) else None)"
  by (cases "map_of w (b_ip b)") (auto simp: live_lease_def keep_later_def)

lemma wanted_loop_eq:
  "wanted_loop t now ls w = (if all_leases ls then Some (fold (keep_later b_ip) (filter (live_lease t now) ls) w) else None)"
proof (induction ls arbitrary: w)
  case (Cons b ls)
  then show ?case by (simp add: wanted_loop_step all_leases_def del: wanted_loop.simps(2))
qed (simp add: all_leases_def)

lemma latest_by_wanted:
  assumes "wanted_loop t now ls [] = Some w"
  shows "latest_by b_ip (set (filter (live_lease t now) ls)) w" "all_leases ls"
proof -
  have "latest_by b_ip {} []" by (simp add: latest_by_def)
  from latest_by_fold [OF this, of "filter (live_lease t now) ls"]
  show "latest_by b_ip (set (filter (live_lease t now) ls)) w"
    using assms by (auto simp: wanted_loop_eq split: if_splits)
qed (use assms in \<open>auto simp: wanted_loop_eq split: if_splits\<close>)

lemma latest_byD:
  "latest_by key B d \<Longrightarrow> (k, b) \<in> set d \<Longrightarrow> b \<in> B \<and> key b = k \<and> (\<forall>b' \<in> B. key b' = k \<longrightarrow> expiry_of b' \<le> expiry_of b)"
  unfolding latest_by_def by (metis map_of_eq_Some_iff)

lemma table_inv_apply:
  assumes "table_inv t" "wanted_loop t now ls [] = Some w"
  shows "table_inv (t\<lparr>bt_leases := w\<rparr>)"
proof -
  note l = latest_by_wanted [OF assms(2)]
  have "od_distinct w" using l(1) by (simp add: latest_by_def)
  moreover have "b_ip b = ip \<and> b_source b = BS_LEASE \<and> b_expires_at b \<noteq> None
      \<and> map_of (bt_static t) ip = None \<and> b_mac b \<notin> set (bt_static_macs t)" if "(ip, b) \<in> set w" for ip b
    using latest_byD [OF l(1) that] l(2) by (auto simp: all_leases_def list_all_iff live_lease_def)
  ultimately show ?thesis using assms(1) by (auto simp: table_inv_def)
qed

lemma set_snapshot: "set (snapshot t) = snd ` set (bt_static t) \<union> snd ` set (bt_leases t)"
  by (simp add: snapshot_def)

lemma distinct_map_sort_key: "distinct (map f (sort_key g xs)) \<longleftrightarrow> distinct (map f xs)"
  by (simp add: distinct_map)

lemma table_snapshot_distinct:
  assumes "table_inv t"
  shows "distinct (map b_ip (snapshot t))"
proof -
  have s: "map b_ip (map snd (bt_static t)) = map fst (bt_static t)"
    and l: "map b_ip (map snd (bt_leases t)) = map fst (bt_leases t)"
    using table_inv_staticD [OF assms] table_inv_leaseD [OF assms] by (blast intro!: map_keys_keyed)+
  have "fst ` set (bt_static t) \<inter> fst ` set (bt_leases t) = {}"
  proof -
    have "fst ` set (bt_leases t) \<subseteq> - fst ` set (bt_static t)"
    proof (rule image_subsetI)
      fix x assume "x \<in> set (bt_leases t)"
      then have "map_of (bt_static t) (fst x) = None" using table_inv_leaseD [OF assms, of "fst x" "snd x"] by simp
      then show "fst x \<in> - fst ` set (bt_static t)" unfolding map_of_None_iff_key by blast
    qed
    then show ?thesis by blast
  qed
  moreover have "b_ip ` snd ` set (bt_static t) = fst ` set (bt_static t)"
    "b_ip ` snd ` set (bt_leases t) = fst ` set (bt_leases t)"
    using arg_cong [OF s, of set] arg_cong [OF l, of set] by (simp_all add: image_image)
  moreover have "distinct (map b_ip (map snd (bt_static t)))" "distinct (map b_ip (map snd (bt_leases t)))"
    using assms unfolding s l table_inv_def by auto
  ultimately show ?thesis
    unfolding snapshot_def map_append distinct_append distinct_map_sort_key by simp
qed

lemma table_resolve_mac:
  assumes "table_inv t"
  shows "resolve_mac t ip = Some m \<longleftrightarrow> (\<exists>b \<in> set (snapshot t). b_ip b = ip \<and> b_mac b = m)"
proof -
  have s: "map_of (bt_static t) ip = Some b \<longleftrightarrow> b \<in> snd ` set (bt_static t) \<and> b_ip b = ip" for b
    using table_inv_staticD [OF assms] table_inv_distinct [OF assms] by (intro keyed_lookup) blast+
  have l: "map_of (bt_leases t) ip = Some b \<longleftrightarrow> b \<in> snd ` set (bt_leases t) \<and> b_ip b = ip" for b
    using table_inv_leaseD [OF assms] table_inv_distinct [OF assms] by (intro keyed_lookup) blast+
  have x: "map_of (bt_leases t) ip = Some b \<Longrightarrow> map_of (bt_static t) ip = None" for b
    using table_inv_leaseD [OF assms map_of_SomeD] by blast
  have "resolve_mac t ip = Some m \<longleftrightarrow>
      (\<exists>b. (map_of (bt_static t) ip = Some b \<or> map_of (bt_leases t) ip = Some b) \<and> b_mac b = m)"
  proof (cases "map_of (bt_static t) ip")
    case None
    then show ?thesis unfolding resolve_mac_def None by (simp only: option.case map_option_eq_Some) blast
  next
    case (Some b)
    then have "map_of (bt_leases t) ip = None" using x by (metis option.exhaust option.distinct(1))
    then show ?thesis unfolding resolve_mac_def Some by simp
  qed
  then show ?thesis unfolding s l set_snapshot by blast
qed

lemma latest_in: "latest b bs \<in> insert b (set bs)"
proof (induction bs arbitrary: b)
  case (Cons c bs)
  then show ?case using Cons.IH [of b] Cons.IH [of c] by auto
qed simp

lemma latest_max: "x \<in> insert b (set bs) \<Longrightarrow> expiry_of x \<le> expiry_of (latest b bs)"
proof (induction bs arbitrary: b x)
  case (Cons c bs)
  let ?b = "if expiry_of b < expiry_of c then c else b"
  have "expiry_of b \<le> expiry_of ?b" "expiry_of c \<le> expiry_of ?b" by auto
  moreover have "expiry_of ?b \<le> expiry_of (latest ?b bs)" using Cons.IH by blast
  ultimately show ?case using Cons.prems Cons.IH [of _ ?b] by fastforce
qed simp

lemma table_resolve_ip_cases:
  "resolve_ip t m = Some ip \<Longrightarrow> \<exists>b \<in> set (snapshot t). b_ip b = ip \<and> b_mac b = m"
proof -
  assume r: "resolve_ip t m = Some ip"
  show ?thesis
  proof (cases "find (\<lambda>b. b_mac b = m) (map snd (bt_static t))")
    case None
    then obtain b bs where f: "filter (\<lambda>b. b_mac b = m) (map snd (bt_leases t)) = b # bs"
        "ip = b_ip (latest b bs)"
      using r by (auto simp: resolve_ip_def split: list.splits)
    have "latest b bs \<in> set (filter (\<lambda>b. b_mac b = m) (map snd (bt_leases t)))"
      unfolding f(1) using latest_in [of b bs] by simp
    then show ?thesis using f(2) unfolding set_snapshot set_filter set_map by blast
  next
    case (Some b)
    then have "b \<in> snd ` set (bt_static t)" "b_mac b = m" by (auto simp: find_Some_iff set_conv_nth) 
    then show ?thesis using r Some by (auto simp: resolve_ip_def set_snapshot)
  qed
qed

lemma table_resolve_ip_complete: "b \<in> set (snapshot t) \<Longrightarrow> resolve_ip t (b_mac b) \<noteq> None"
proof
  assume b: "b \<in> set (snapshot t)" and r: "resolve_ip t (b_mac b) = None"
  then have "find (\<lambda>c. b_mac c = b_mac b) (map snd (bt_static t)) = None"
    "filter (\<lambda>c. b_mac c = b_mac b) (map snd (bt_leases t)) = []"
    by (auto simp: resolve_ip_def split: option.splits list.splits)
  then show False using b unfolding set_snapshot find_None_iff filter_empty_conv by auto
qed

lemma table_change:
  assumes "table_inv t" "apply_leases t ls now = Some (c, t')"
  shows "set (bc_removed c) = snd ` set (bt_leases t) - snd ` set (bt_leases t')
    \<and> set (bc_added c) = snd ` set (bt_leases t') - snd ` set (bt_leases t)"
proof -
  obtain w where w: "wanted_loop t now ls [] = Some w" and t': "t' = t\<lparr>bt_leases := w\<rparr>"
    and c: "bc_removed c = sort_key b_ip (map snd (filter (\<lambda>(ip, b). map_of w ip \<noteq> Some b) (bt_leases t)))"
      "bc_added c = sort_key b_ip (map snd (filter (\<lambda>(ip, b). map_of (bt_leases t) ip \<noteq> Some b) w))"
    using assms(2) by (auto simp: apply_leases_def Let_def split: option.splits)
  note inv' = table_inv_apply [OF assms(1) w]
  have old: "od_distinct (bt_leases t)" "\<And>ip b. (ip, b) \<in> set (bt_leases t) \<Longrightarrow> b_ip b = ip"
    using table_inv_distinct(2) [OF assms(1)] table_inv_leaseD [OF assms(1)] by blast+
  have new: "od_distinct w" "\<And>ip b. (ip, b) \<in> set w \<Longrightarrow> b_ip b = ip"
    using table_inv_distinct(2) [OF inv'] table_inv_leaseD [OF inv'] by simp_all
  have "set (filter (\<lambda>(ip, b). map_of w ip \<noteq> Some b) (bt_leases t)) = {(ip, b) \<in> set (bt_leases t). b \<notin> snd ` set w}"
    using keyed_lookup [where d = w and f = b_ip, OF new] old(2) by auto
  moreover have "set (filter (\<lambda>(ip, b). map_of (bt_leases t) ip \<noteq> Some b) w) = {(ip, b) \<in> set w. b \<notin> snd ` set (bt_leases t)}"
    using keyed_lookup [where d = "bt_leases t" and f = b_ip, OF old] new(2) by auto
  moreover have "snd ` {(ip, b) \<in> set L. b \<notin> S} = snd ` set L - S" for L :: "(ipv4_address, binding) odict" and S
    by (auto simp: image_iff)
  ultimately show ?thesis unfolding c t' set_sort set_map by simp
qed

lemma apply_leases_Some:
  assumes "apply_leases t ls now = Some (c, t')"
  obtains w where "wanted_loop t now ls [] = Some w" "t' = t\<lparr>bt_leases := w\<rparr>"
  using assms by (auto simp: apply_leases_def Let_def split: option.splits)

lemma table_apply_inv: "table_inv t \<Longrightarrow> apply_leases t ls now = Some (c, t') \<Longrightarrow> table_inv t'"
  by (metis apply_leases_Some table_inv_apply)

lemma filter_static_snapshot:
  assumes "table_inv t"
  shows "filter (\<lambda>b. b_source b = BS_STATIC) (snapshot t) = sort_key b_ip (map snd (bt_static t))"
proof -
  have "\<forall>b \<in> snd ` set (bt_static t). b_source b = BS_STATIC"
    using table_inv_staticD [OF assms] by auto
  moreover have "\<forall>b \<in> snd ` set (bt_leases t). b_source b \<noteq> BS_STATIC"
    using table_inv_leaseD [OF assms] by fastforce
  ultimately show ?thesis by (simp add: snapshot_def filter_empty_conv)
qed

lemma table_static_not_lease:
  "table_inv t \<Longrightarrow> table_inv t' \<Longrightarrow> snd ` set (bt_static t) \<inter> snd ` set (bt_leases t') = {}"
  using table_inv_staticD table_inv_leaseD by fastforce

lemma table_apply_snapshot:
  assumes "table_inv t" "apply_leases t ls now = Some (c, t')"
  shows "set (snapshot t') = replay_change c (set (snapshot t))"
proof -
  have "bt_static t' = bt_static t" using assms(2) by (rule apply_leases_Some) simp
  then show ?thesis
    using table_change [OF assms] table_static_not_lease [OF assms(1) assms(1)]
    unfolding set_snapshot replay_change_def by auto
qed

interpretation leases: binding_table table_inv resolve_mac resolve_ip snapshot apply_leases
proof
  fix s ls now c s'
  assume s: "table_inv s" "apply_leases s ls now = Some (c, s')"
  have "bt_static s' = bt_static s" using s(2) by (rule apply_leases_Some) simp
  then show "filter (\<lambda>b. b_source b = BS_STATIC) (snapshot s') = filter (\<lambda>b. b_source b = BS_STATIC) (snapshot s)"
    using filter_static_snapshot s(1) table_apply_inv [OF s] by simp
next
  fix s ls now
  assume "table_inv s" "all_leases ls"
  then show "apply_leases s ls now \<noteq> None" by (simp add: apply_leases_def wanted_loop_eq Let_def)
next
  fix s m ip
  assume "table_inv s" "resolve_ip s m = Some ip"
  then show "resolve_mac s ip = Some m" using table_resolve_mac table_resolve_ip_cases by blast
qed (rule table_snapshot_distinct table_resolve_mac table_resolve_ip_complete table_apply_inv
    table_apply_snapshot; assumption)+

lemma fold_update_static:
  assumes "list_all (\<lambda>b. b_source b = BS_STATIC) bs" "od_distinct d"
    and "\<forall>(ip, b) \<in> set d. b_ip b = ip \<and> b_source b = BS_STATIC \<and> b_mac b \<in> M" "b_mac ` set bs \<subseteq> M"
  shows "od_distinct (fold (\<lambda>b. AList.update (b_ip b) b) bs d)
    \<and> (\<forall>(ip, b) \<in> set (fold (\<lambda>b. AList.update (b_ip b) b) bs d). b_ip b = ip \<and> b_source b = BS_STATIC \<and> b_mac b \<in> M)"
  using assms
proof (induction bs arbitrary: d)
  case (Cons b bs)
  have "set (AList.update (b_ip b) b d) \<subseteq> insert (b_ip b, b) (set d)"
    by (induction d) auto
  then have "\<forall>(ip, c) \<in> set (AList.update (b_ip b) b d). b_ip c = ip \<and> b_source c = BS_STATIC \<and> b_mac c \<in> M"
    using Cons.prems by auto
  with Cons.IH [of "AList.update (b_ip b) b d"] Cons.prems show ?case by simp
qed simp

lemma table_inv_new:
  assumes "new_lease_binding_table bs = Some t"
  shows "table_inv t"
proof -
  have "list_all (\<lambda>b. b_source b = BS_STATIC) bs" and t: "t = \<lparr>bt_static = fold (\<lambda>b. AList.update (b_ip b) b) bs [],
      bt_static_macs = map b_mac bs, bt_leases = []\<rparr>"
    using assms by (auto simp: new_lease_binding_table_def split: if_splits)
  then show ?thesis using fold_update_static [of bs "[]" "b_mac ` set bs"] by (simp add: table_inv_def)
qed

lemma fold_update_distinct:
  "distinct (map b_ip bs) \<Longrightarrow> (b_ip ` set bs) \<inter> fst ` set d = {} \<Longrightarrow>
    fold (\<lambda>b. AList.update (b_ip b) b) bs d = d @ map (\<lambda>b. (b_ip b, b)) bs"
proof (induction bs arbitrary: d)
  case (Cons b bs)
  have "AList.update (b_ip b) b d = d @ [(b_ip b, b)]"
    using Cons.prems(2) by (induction d) auto
  then show ?case using Cons.IH [of "d @ [(b_ip b, b)]"] Cons.prems by auto
qed simp

lemma new_static_snapshot:
  assumes "check_static_unique es"
  obtains t where "new_lease_binding_table (static_bindings es) = Some t" "table_inv t"
    "set (snapshot t) = set (static_bindings es)" "set (bt_static_macs t) = sb_mac ` set es"
proof -
  let ?bs = "static_bindings es"
  have "list_all (\<lambda>b. b_source b = BS_STATIC) ?bs" by (simp add: static_bindings_def list_all_iff)
  then obtain t where t: "new_lease_binding_table ?bs = Some t" by (simp add: new_lease_binding_table_def)
  have "distinct (map b_ip ?bs)" using assms by (simp add: static_bindings_def check_static_unique_def comp_def)
  then have "fold (\<lambda>b. AList.update (b_ip b) b) ?bs [] = map (\<lambda>b. (b_ip b, b)) ?bs"
    using fold_update_distinct [of ?bs "[]"] by simp
  then have "set (snapshot t) = set ?bs" "set (bt_static_macs t) = sb_mac ` set es"
    using t by (auto simp: new_lease_binding_table_def set_snapshot image_image static_bindings_def split: if_splits)
  then show thesis using that t table_inv_new [OF t] by blast
qed

text \<open>
  C29: The binding table over any run of lease syncs, from the configured static entries. Every
  sync with well-formed leases succeeds. A mirror that starts from the static bindings and applies
  the reported changes in order (removals, then additions) always holds exactly the table's
  snapshot. Every static entry still resolves to its declared MAC, whatever leases were applied.
\<close>

theorem binding_changes_mirror_the_table:
  assumes "check_static_unique es" "list_all (\<lambda>(ls, now). all_leases ls) rs"
  shows "\<exists>t cs t'. new_lease_binding_table (static_bindings es) = Some t
    \<and> sync_run apply_leases rs t = Some (cs, t')
    \<and> fold replay_change cs (set (static_bindings es)) = set (snapshot t')
    \<and> list_all (\<lambda>e. resolve_mac t' (sb_ip e) = Some (sb_mac e)) es"
proof -
  obtain t where t: "new_lease_binding_table (static_bindings es) = Some t" "table_inv t"
      "set (snapshot t) = set (static_bindings es)"
    using new_static_snapshot [OF assms(1)] by metis
  obtain cs t' where run: "sync_run apply_leases rs t = Some (cs, t')"
    using leases.run_total [OF t(2) assms(2)] by blast
  have "resolve_mac t' (sb_ip e) = Some (sb_mac e)" if "e \<in> set es" for e
  proof -
    let ?b = "\<lparr>b_ip = sb_ip e, b_mac = sb_mac e, b_source = BS_STATIC, b_expires_at = None\<rparr>"
    have "?b \<in> set (snapshot t)" unfolding t(3) using that by (auto simp: static_bindings_def)
    from leases.static_resolves [OF t(2) run this] show ?thesis by simp
  qed
  then show ?thesis using t run leases.run_mirror [OF t(2) run] by (auto simp: list_all_iff)
qed

definition example_static :: static_binding_entry where
  "example_static = \<lparr>sb_ip = ipv4 10 0 0 2, sb_mac = ''02:00:00:00:00:0a'', sb_reason = ''printer''\<rparr>"

definition example_lease :: "nat \<Rightarrow> string \<Rightarrow> int \<Rightarrow> binding" where
  "example_lease n m t = \<lparr>b_ip = ipv4 10 0 0 n, b_mac = m, b_source = BS_LEASE, b_expires_at = Some t\<rparr>"

theorem binding_changes_mirror_the_table_witness:
  "\<exists>t cs t'. new_lease_binding_table (static_bindings [example_static]) = Some t
    \<and> sync_run apply_leases [([example_lease 2 ''02:00:00:00:00:01'' 9, example_lease 5 ''02:00:00:00:00:01'' 9], 0)] t
        = Some (cs, t')
    \<and> resolve_mac t' (ipv4 10 0 0 2) = Some ''02:00:00:00:00:0a''"
  using binding_changes_mirror_the_table [of "[example_static]"
      "[([example_lease 2 ''02:00:00:00:00:01'' 9, example_lease 5 ''02:00:00:00:00:01'' 9], 0)]"]
  by (auto simp: check_static_unique_def all_leases_def example_lease_def example_static_def)

text \<open>
  What one \<open>apply_leases\<close> call leaves and reports. A lease is in the table afterwards exactly
  when it was given, has not expired, names neither a static address nor a static MAC, and no such
  lease for its address expires later (of two that expire together, one is kept). The
  reported removals and additions are exactly the differences, and the static entries are
  untouched.
\<close>

theorem apply_leases_exact:
  assumes "table_inv t" "all_leases ls"
  shows "\<exists>c t'. apply_leases t ls now = Some (c, t')
    \<and> latest_by b_ip {b \<in> set ls. live_lease t now b} (bt_leases t')
    \<and> set (bc_removed c) = snd ` set (bt_leases t) - snd ` set (bt_leases t')
    \<and> set (bc_added c) = snd ` set (bt_leases t') - snd ` set (bt_leases t)
    \<and> bt_static t' = bt_static t \<and> table_inv t'"
proof -
  obtain c t' where a: "apply_leases t ls now = Some (c, t')" using leases.apl_total [OF assms, of now] by auto
  obtain w where w: "wanted_loop t now ls [] = Some w" "t' = t\<lparr>bt_leases := w\<rparr>" by (rule apply_leases_Some [OF a])
  then have "latest_by b_ip {b \<in> set ls. live_lease t now b} (bt_leases t')"
    using latest_by_wanted(1) [OF w(1)] by simp
  then show ?thesis using a w table_change [OF assms(1) a] table_apply_inv [OF assms(1) a] by simp
qed

definition example_table :: lease_binding_table where
  "example_table = \<lparr>bt_static = [(ipv4 10 0 0 2, \<lparr>b_ip = ipv4 10 0 0 2, b_mac = ''02:00:00:00:00:0a'',
     b_source = BS_STATIC, b_expires_at = None\<rparr>)], bt_static_macs = [''02:00:00:00:00:0a''],
     bt_leases = [(ipv4 10 0 0 5, example_lease 5 ''02:00:00:00:00:01'' 4)]\<rparr>"

lemma example_table_inv: "table_inv example_table"
  by (simp add: table_inv_def example_table_def example_lease_def ipv4_def)

theorem apply_leases_exact_witness:
  "\<exists>c t'. apply_leases example_table [example_lease 5 ''02:00:00:00:00:01'' 9, example_lease 2 ''02:00:00:00:00:02'' 9] 3 = Some (c, t')
    \<and> set (bc_removed c) = {example_lease 5 ''02:00:00:00:00:01'' 4}
    \<and> set (bc_added c) = {example_lease 5 ''02:00:00:00:00:01'' 9}"
proof -
  let ?ls = "[example_lease 5 ''02:00:00:00:00:01'' 9, example_lease 2 ''02:00:00:00:00:02'' 9]"
  have "all_leases ?ls" by (simp add: all_leases_def example_lease_def)
  from apply_leases_exact [OF example_table_inv this, of 3] obtain c t'
    where a: "apply_leases example_table ?ls 3 = Some (c, t')"
      and c: "set (bc_removed c) = snd ` set (bt_leases example_table) - snd ` set (bt_leases t')"
      "set (bc_added c) = snd ` set (bt_leases t') - snd ` set (bt_leases example_table)" by blast
  have "bt_leases t' = [(ipv4 10 0 0 5, example_lease 5 ''02:00:00:00:00:01'' 9)]"
    using a by (auto simp: apply_leases_def Let_def example_table_def example_lease_def expiry_of_def ipv4_def)
  with a c show ?thesis by (simp add: example_table_def example_lease_def)
qed

end
