(* ===== verification/Flow_State.thy ===== *)
theory Flow_State
  imports Flow_Models
begin

section \<open>Flow identity and per-flow accumulation\<close>

text \<open>
  \<open>flow/key.py\<close>, \<open>flow/state.py\<close> (\<open>RunningStats\<close> and \<open>FlowState\<close>) and \<open>flow/timeout.py\<close>. A flow's
  accumulator is a record that every packet of the flow updates; \<open>to_flow\<close> turns it into a validated
  \<open>Flow\<close>. The lemmas show that the direction-independent key identifies exactly the two directions
  of a connection, that Welford's one-pass accumulation gives the textbook statistics of the values
  seen, and that the accumulator of any sequence of well-formed packets finalises without an error.
\<close>

subsection \<open>The flow key\<close>

type_synonym endpoint = "ipv4_address \<times> int option"

record flow_key =
  fk_protocol :: protocol
  fk_endpoint_a :: endpoint
  fk_endpoint_b :: endpoint

definition sort_value :: "endpoint \<Rightarrow> int \<times> int" where
  "sort_value e = (uint (fst e), case snd e of Some p \<Rightarrow> p | None \<Rightarrow> - 1)"

text \<open>Python compares tuples lexicographically, and \<open>sorted\<close> is stable.\<close>

definition tuple_less :: "int \<times> int \<Rightarrow> int \<times> int \<Rightarrow> bool" where
  "tuple_less x y \<longleftrightarrow> fst x < fst y \<or> fst x = fst y \<and> snd x < snd y"

definition compute_flow_key ::
  "ipv4_address \<Rightarrow> ipv4_address \<Rightarrow> int option \<Rightarrow> int option \<Rightarrow> protocol \<Rightarrow> flow_key" where
  "compute_flow_key source_ip destination_ip source_port destination_port prot =
     (let forward = (source_ip, source_port);
          backward = (destination_ip, destination_port)
      in if tuple_less (sort_value backward) (sort_value forward)
         then \<lparr>fk_protocol = prot, fk_endpoint_a = backward, fk_endpoint_b = forward\<rparr>
         else \<lparr>fk_protocol = prot, fk_endpoint_a = forward, fk_endpoint_b = backward\<rparr>)"

subsection \<open>Running statistics\<close>

text \<open>
  The initial minimum \<open>math.inf\<close> and maximum \<open>-math.inf\<close>, which every added value replaces, are
  \<open>None\<close>.
\<close>

record running_stats =
  rs_count :: nat
  rs_mean :: real
  rs_m2 :: real
  rs_min :: "real option"
  rs_max :: "real option"

definition new_running_stats :: running_stats where
  "new_running_stats = \<lparr>rs_count = 0, rs_mean = 0, rs_m2 = 0, rs_min = None, rs_max = None\<rparr>"

definition rs_add :: "real \<Rightarrow> running_stats \<Rightarrow> running_stats" where
  "rs_add value r =
     (let count = rs_count r + 1;
          delta = value - rs_mean r;
          mean = rs_mean r + delta / real count
      in \<lparr>rs_count = count, rs_mean = mean, rs_m2 = rs_m2 r + delta * (value - mean),
          rs_min = Some (case rs_min r of None \<Rightarrow> value | Some m \<Rightarrow> min m value),
          rs_max = Some (case rs_max r of None \<Rightarrow> value | Some m \<Rightarrow> max m value)\<rparr>)"

definition stat_mean :: "running_stats \<Rightarrow> real" where
  "stat_mean r = (if rs_count r \<noteq> 0 then rs_mean r else 0)"

definition stat_std :: "running_stats \<Rightarrow> real" where
  "stat_std r = (if rs_count r \<noteq> 0 then sqrt (rs_m2 r / real (rs_count r)) else 0)"

definition sample_std :: "running_stats \<Rightarrow> real" where
  "sample_std r = (if rs_count r > 1 then sqrt (rs_m2 r / (real (rs_count r) - 1)) else 0)"

definition stat_min :: "running_stats \<Rightarrow> real" where
  "stat_min r = (case rs_min r of Some m \<Rightarrow> m | None \<Rightarrow> 0)"

definition stat_max :: "running_stats \<Rightarrow> real" where
  "stat_max r = (case rs_max r of Some m \<Rightarrow> m | None \<Rightarrow> 0)"

subsection \<open>The accumulator of one flow\<close>

definition is_initiation :: "packet_metadata \<Rightarrow> bool" where
  "is_initiation p = (case pm_tcp_flags p of
       None \<Rightarrow> True
     | Some flags \<Rightarrow> pm_protocol p \<noteq> P_TCP \<or> tf_syn flags \<and> \<not> tf_ack flags \<and> \<not> tf_rst flags)"

record flow_state =
  fs_key :: flow_key
  fs_protocol :: protocol
  fs_forward_source_ip :: ipv4_address
  fs_forward_source_port :: "int option"
  fs_forward_destination_ip :: ipv4_address
  fs_forward_destination_port :: "int option"
  fs_forward_source_mac :: "mac_address option"
  fs_forward_destination_mac :: "mac_address option"
  fs_first_seen :: datetime
  fs_last_seen :: datetime
  fs_packet_count :: nat
  fs_byte_count :: nat
  fs_forward_packet_count :: nat
  fs_backward_packet_count :: nat
  fs_forward_byte_count :: nat
  fs_backward_byte_count :: nat
  fs_forward_payload_bytes :: nat
  fs_backward_payload_bytes :: nat
  fs_syn_count :: nat
  fs_ack_count :: nat
  fs_fin_count :: nat
  fs_rst_count :: nat
  fs_psh_count :: nat
  fs_urg_count :: nat
  fs_saw_fin_forward :: bool
  fs_saw_fin_backward :: bool
  fs_saw_rst :: bool
  fs_packet_size_stats :: running_stats
  fs_payload_size_stats :: running_stats
  fs_inter_arrival_stats :: running_stats
  fs_last_packet_time :: "datetime option"
  fs_initiated :: bool

definition new_flow_state ::
  "flow_key \<Rightarrow> protocol \<Rightarrow> ipv4_address \<Rightarrow> int option \<Rightarrow> ipv4_address \<Rightarrow> int option \<Rightarrow> datetime \<Rightarrow>
   mac_address option \<Rightarrow> mac_address option \<Rightarrow> flow_state" where
  "new_flow_state key prot src sport dst dport first_seen smac dmac =
     \<lparr>fs_key = key, fs_protocol = prot, fs_forward_source_ip = src, fs_forward_source_port = sport,
      fs_forward_destination_ip = dst, fs_forward_destination_port = dport,
      fs_forward_source_mac = smac, fs_forward_destination_mac = dmac,
      fs_first_seen = first_seen, fs_last_seen = first_seen, fs_packet_count = 0, fs_byte_count = 0,
      fs_forward_packet_count = 0, fs_backward_packet_count = 0, fs_forward_byte_count = 0,
      fs_backward_byte_count = 0, fs_forward_payload_bytes = 0, fs_backward_payload_bytes = 0,
      fs_syn_count = 0, fs_ack_count = 0, fs_fin_count = 0, fs_rst_count = 0, fs_psh_count = 0,
      fs_urg_count = 0, fs_saw_fin_forward = False, fs_saw_fin_backward = False, fs_saw_rst = False,
      fs_packet_size_stats = new_running_stats, fs_payload_size_stats = new_running_stats,
      fs_inter_arrival_stats = new_running_stats, fs_last_packet_time = None, fs_initiated = True\<rparr>"

definition total_seconds :: "timedelta \<Rightarrow> real" where
  "total_seconds d = real_of_int d / 1000000"

text \<open>
  \<open>FlowState.observe\<close>, in the order of its three parts: the counters and the last time seen, the TCP
  flags, the statistics.
\<close>

definition is_forward :: "packet_metadata \<Rightarrow> flow_state \<Rightarrow> bool" where
  "is_forward p s \<longleftrightarrow> pm_source_ip p = V4 (fs_forward_source_ip s) \<and> pm_source_port p = fs_forward_source_port s"

definition observe_counts :: "packet_metadata \<Rightarrow> flow_state \<Rightarrow> flow_state" where
  "observe_counts p s =
     (let s1 = s\<lparr>fs_last_seen := (if pm_timestamp p > fs_last_seen s then pm_timestamp p else fs_last_seen s),
                 fs_packet_count := fs_packet_count s + 1,
                 fs_byte_count := fs_byte_count s + pm_total_length p\<rparr>
      in if is_forward p s
         then s1\<lparr>fs_forward_packet_count := fs_forward_packet_count s + 1,
                 fs_forward_byte_count := fs_forward_byte_count s + pm_total_length p,
                 fs_forward_payload_bytes := fs_forward_payload_bytes s + pm_payload_length p\<rparr>
         else s1\<lparr>fs_backward_packet_count := fs_backward_packet_count s + 1,
                 fs_backward_byte_count := fs_backward_byte_count s + pm_total_length p,
                 fs_backward_payload_bytes := fs_backward_payload_bytes s + pm_payload_length p\<rparr>)"

definition observe_flags :: "packet_metadata \<Rightarrow> flow_state \<Rightarrow> flow_state" where
  "observe_flags p s = (case pm_tcp_flags p of
       None \<Rightarrow> s
     | Some flags \<Rightarrow>
         s\<lparr>fs_syn_count := fs_syn_count s + of_bool (tf_syn flags),
           fs_ack_count := fs_ack_count s + of_bool (tf_ack flags),
           fs_fin_count := fs_fin_count s + of_bool (tf_fin flags),
           fs_rst_count := fs_rst_count s + of_bool (tf_rst flags),
           fs_psh_count := fs_psh_count s + of_bool (tf_psh flags),
           fs_urg_count := fs_urg_count s + of_bool (tf_urg flags),
           fs_saw_fin_forward := fs_saw_fin_forward s \<or> tf_fin flags \<and> is_forward p s,
           fs_saw_fin_backward := fs_saw_fin_backward s \<or> tf_fin flags \<and> \<not> is_forward p s,
           fs_saw_rst := fs_saw_rst s \<or> tf_rst flags\<rparr>)"

definition observe_stats :: "packet_metadata \<Rightarrow> flow_state \<Rightarrow> flow_state" where
  "observe_stats p s =
     s\<lparr>fs_packet_size_stats := rs_add (real (pm_total_length p)) (fs_packet_size_stats s),
       fs_payload_size_stats := rs_add (real (pm_payload_length p)) (fs_payload_size_stats s),
       fs_inter_arrival_stats :=
         (case fs_last_packet_time s of
            None \<Rightarrow> fs_inter_arrival_stats s
          | Some last_time \<Rightarrow>
              let delta = total_seconds (pm_timestamp p - last_time)
              in if delta \<ge> 0 then rs_add delta (fs_inter_arrival_stats s) else fs_inter_arrival_stats s),
       fs_last_packet_time := Some (pm_timestamp p)\<rparr>"

definition flow_observe :: "packet_metadata \<Rightarrow> flow_state \<Rightarrow> flow_state" where
  "flow_observe p s = observe_stats p (observe_flags p (observe_counts p s))"

definition flow_opening :: "flow_key \<Rightarrow> ipv4_address \<Rightarrow> ipv4_address \<Rightarrow> packet_metadata \<Rightarrow> flow_state" where
  "flow_opening key source_ip destination_ip p =
     flow_observe p
       ((new_flow_state key (pm_protocol p) source_ip (pm_source_port p) destination_ip
           (pm_destination_port p) (pm_timestamp p) (pm_source_mac p) (pm_destination_mac p))
          \<lparr>fs_initiated := is_initiation p\<rparr>)"

definition to_flow :: "string \<Rightarrow> flow_state \<Rightarrow> flow option" where
  "to_flow flow_id s = new_flow
     \<lparr>fl_flow_id = flow_id, fl_source_ip = fs_forward_source_ip s,
      fl_destination_ip = fs_forward_destination_ip s, fl_source_port = fs_forward_source_port s,
      fl_destination_port = fs_forward_destination_port s, fl_protocol = fs_protocol s,
      fl_first_seen = fs_first_seen s, fl_last_seen = fs_last_seen s,
      fl_packet_count = fs_packet_count s, fl_byte_count = fs_byte_count s,
      fl_forward_packet_count = fs_forward_packet_count s,
      fl_backward_packet_count = fs_backward_packet_count s,
      fl_forward_byte_count = fs_forward_byte_count s,
      fl_backward_byte_count = fs_backward_byte_count s,
      fl_tcp_flags = \<lparr>fc_syn = fs_syn_count s, fc_ack = fs_ack_count s, fc_fin = fs_fin_count s,
        fc_rst = fs_rst_count s, fc_psh = fs_psh_count s, fc_urg = fs_urg_count s, fc_ece = 0, fc_cwr = 0\<rparr>,
      fl_packet_size_stats = \<lparr>zs_min_bytes = nat (py_round (stat_min (fs_packet_size_stats s))),
        zs_max_bytes = nat (py_round (stat_max (fs_packet_size_stats s))),
        zs_mean_bytes = stat_mean (fs_packet_size_stats s), zs_std_bytes = stat_std (fs_packet_size_stats s)\<rparr>,
      fl_inter_arrival_stats = \<lparr>ia_min_seconds = stat_min (fs_inter_arrival_stats s),
        ia_max_seconds = stat_max (fs_inter_arrival_stats s),
        ia_mean_seconds = stat_mean (fs_inter_arrival_stats s),
        ia_std_seconds = sample_std (fs_inter_arrival_stats s)\<rparr>,
      fl_payload_stats = Some \<lparr>pl_forward_bytes = fs_forward_payload_bytes s,
        pl_backward_bytes = fs_backward_payload_bytes s,
        pl_min_bytes = nat (py_round (stat_min (fs_payload_size_stats s))),
        pl_max_bytes = nat (py_round (stat_max (fs_payload_size_stats s))),
        pl_mean_bytes = stat_mean (fs_payload_size_stats s), pl_std_bytes = sample_std (fs_payload_size_stats s)\<rparr>,
      fl_opened_by_initiation = fs_initiated s, fl_source_mac = fs_forward_source_mac s,
      fl_destination_mac = fs_forward_destination_mac s\<rparr>"

subsection \<open>When a flow closes\<close>

datatype flow_close_reason = TCP_COMPLETED | ACTIVE_TIMEOUT | INACTIVE_TIMEOUT

definition is_tcp_completed :: "flow_state \<Rightarrow> bool" where
  "is_tcp_completed s \<longleftrightarrow>
     fs_protocol s = P_TCP \<and> (fs_saw_rst s \<or> fs_saw_fin_forward s \<and> fs_saw_fin_backward s)"

definition check_closure :: "flow_state \<Rightarrow> datetime \<Rightarrow> real \<Rightarrow> real \<Rightarrow> flow_close_reason option" where
  "check_closure s now active_timeout_seconds inactive_timeout_seconds =
     (if is_tcp_completed s then Some TCP_COMPLETED
      else if total_seconds (now - fs_first_seen s) \<ge> active_timeout_seconds then Some ACTIVE_TIMEOUT
      else if total_seconds (now - fs_last_seen s) \<ge> inactive_timeout_seconds then Some INACTIVE_TIMEOUT
      else None)"

subsection \<open>The key names a connection\<close>

lemma sort_value_inject:
  assumes "port_ok (snd x)" "port_ok (snd y)"
  shows "sort_value x = sort_value y \<longleftrightarrow> x = y"
  using assms by (cases x; cases y) (auto simp: sort_value_def port_ok_def split: option.splits intro: word_uint_eqI)

lemma tuple_less_antisym: "\<not> tuple_less x y \<Longrightarrow> \<not> tuple_less y x \<Longrightarrow> x = y"
  by (cases x; cases y) (auto simp: tuple_less_def)

lemma tuple_less_asym: "tuple_less x y \<Longrightarrow> \<not> tuple_less y x"
  by (auto simp: tuple_less_def)

lemma compute_flow_key_swap:
  assumes "port_ok sp" "port_ok dp"
  shows "compute_flow_key d s dp sp prot = compute_flow_key s d sp dp prot"
proof -
  let ?x = "sort_value (s, sp)" and ?y = "sort_value (d, dp)"
  consider "tuple_less ?x ?y" | "tuple_less ?y ?x" | "?x = ?y" using tuple_less_antisym by blast
  then show ?thesis
  proof cases
    case 3
    then have "(s, sp) = (d, dp)" using sort_value_inject [of "(s, sp)" "(d, dp)"] assms by simp
    then show ?thesis by simp
  qed (auto simp: compute_flow_key_def Let_def dest: tuple_less_asym)
qed

lemma compute_flow_key_endpoints:
  "fk_protocol (compute_flow_key s d sp dp prot) = prot"
  "{fk_endpoint_a (compute_flow_key s d sp dp prot), fk_endpoint_b (compute_flow_key s d sp dp prot)}
     = {(s, sp), (d, dp)}"
  by (auto simp: compute_flow_key_def Let_def)

text \<open>
  Two packets have the same flow key exactly when they have the same protocol and the same two
  endpoints, in either direction: the two directions of a connection share one key, and different
  connections never do.
\<close>

theorem flow_key_identifies_connection:
  assumes "port_ok sp" "port_ok dp" "port_ok sp'" "port_ok dp'"
  shows "compute_flow_key s d sp dp prot = compute_flow_key s' d' sp' dp' prot' \<longleftrightarrow>
    prot = prot' \<and> ((s, sp) = (s', sp') \<and> (d, dp) = (d', dp') \<or> (s, sp) = (d', dp') \<and> (d, dp) = (s', sp'))"
proof
  assume eq: "compute_flow_key s d sp dp prot = compute_flow_key s' d' sp' dp' prot'"
  then have "{(s, sp), (d, dp)} = {(s', sp'), (d', dp')}" "prot = prot'"
    using compute_flow_key_endpoints by metis+
  then show "prot = prot' \<and> ((s, sp) = (s', sp') \<and> (d, dp) = (d', dp') \<or> (s, sp) = (d', dp') \<and> (d, dp) = (s', sp'))"
    by (auto simp: doubleton_eq_iff)
next
  assume "prot = prot' \<and> ((s, sp) = (s', sp') \<and> (d, dp) = (d', dp') \<or> (s, sp) = (d', dp') \<and> (d, dp) = (s', sp'))"
  then show "compute_flow_key s d sp dp prot = compute_flow_key s' d' sp' dp' prot'"
    using compute_flow_key_swap assms by auto
qed

theorem flow_key_identifies_connection_witness:
  "compute_flow_key 1 2 (Some 40000) (Some 443) P_TCP = compute_flow_key 2 1 (Some 443) (Some 40000) P_TCP"
  using flow_key_identifies_connection [of "Some 40000" "Some 443" "Some 443" "Some 40000" 1 2 P_TCP 2 1 P_TCP]
  by (simp add: port_ok_def)

subsection \<open>Welford's accumulation\<close>

definition running_stats_of :: "real list \<Rightarrow> running_stats" where
  "running_stats_of xs = fold rs_add xs new_running_stats"

lemma running_stats_of_simps [simp]:
  "running_stats_of [] = new_running_stats"
  "running_stats_of [x] = rs_add x new_running_stats"
  "running_stats_of (xs @ [x]) = rs_add x (running_stats_of xs)"
  by (simp_all add: running_stats_of_def)

abbreviation mean_of :: "real list \<Rightarrow> real" where
  "mean_of xs \<equiv> sum_list xs / real (length xs)"

abbreviation squared_deviations :: "real list \<Rightarrow> real" where
  "squared_deviations xs \<equiv> (\<Sum>x\<leftarrow>xs. (x - mean_of xs)\<^sup>2)"

lemma rs_count_of [simp]: "rs_count (running_stats_of xs) = length xs"
  by (induction xs rule: rev_induct) (simp_all add: new_running_stats_def rs_add_def Let_def)

lemma rs_mean_of: "xs \<noteq> [] \<Longrightarrow> rs_mean (running_stats_of xs) = mean_of xs"
proof (induction xs rule: rev_induct)
  case (snoc x xs)
  show ?case
  proof (cases "xs = []")
    case True
    then show ?thesis by (simp add: rs_add_def new_running_stats_def)
  next
    case False
    define n where "n = real (length xs)"
    have n: "n > 0" using False by (simp add: n_def)
    then have n1: "n \<noteq> 0" "n + 1 \<noteq> 0" by auto
    have "rs_mean (running_stats_of xs) = sum_list xs / n" using snoc.IH False by (simp add: n_def)
    then have "rs_mean (running_stats_of (xs @ [x])) = sum_list xs / n + (x - sum_list xs / n) / (n + 1)"
      by (simp add: rs_add_def Let_def n_def add.commute)
    also have "\<dots> = (sum_list xs + x) / (n + 1)" using n n1 by (simp add: divide_simps) (simp add: algebra_simps)
    finally show ?thesis by (simp add: n_def add.commute)
  qed
qed simp

lemma sum_squares_shift: "(\<Sum>x\<leftarrow>xs. (x - m)\<^sup>2) = (\<Sum>x\<leftarrow>xs. x\<^sup>2) - 2 * m * sum_list xs + real (length xs) * m\<^sup>2"
  by (induction xs) (simp_all add: power2_eq_square algebra_simps)

lemma squared_deviations_eq: "xs \<noteq> [] \<Longrightarrow> squared_deviations xs = (\<Sum>x\<leftarrow>xs. x\<^sup>2) - (sum_list xs)\<^sup>2 / real (length xs)"
  unfolding sum_squares_shift by (simp add: power2_eq_square field_simps)

lemma rs_m2_of: "rs_m2 (running_stats_of xs) = squared_deviations xs"
proof (induction xs rule: rev_induct)
  case Nil
  then show ?case by (simp add: new_running_stats_def)
next
  case (snoc x xs)
  show ?case
  proof (cases "xs = []")
    case True
    then show ?thesis by (simp add: rs_add_def new_running_stats_def)
  next
    case False
    define n S Q where "n = real (length xs)" "S = sum_list xs" "Q = (\<Sum>x\<leftarrow>xs. x\<^sup>2)"
    note d = this
    have n: "n > 0" using False by (simp add: d)
    then have n1: "n \<noteq> 0" "n + 1 \<noteq> 0" by auto
    have m2: "rs_m2 (running_stats_of xs) = Q - S\<^sup>2 / n"
      using snoc.IH squared_deviations_eq [OF False] by (simp add: d)
    have mean: "rs_mean (running_stats_of xs) = S / n" using rs_mean_of [OF False] by (simp add: d)
    have "rs_m2 (running_stats_of (xs @ [x]))
        = Q - S\<^sup>2 / n + (x - S / n) * (x - (S / n + (x - S / n) / (n + 1)))"
      using m2 mean by (simp add: rs_add_def Let_def d add.commute)
    also have "\<dots> = Q + x\<^sup>2 - (S + x)\<^sup>2 / (n + 1)"
      using n n1 by (simp add: divide_simps) (simp add: algebra_simps power2_eq_square)
    also have "\<dots> = squared_deviations (xs @ [x])"
      using squared_deviations_eq [of "xs @ [x]"] by (simp add: d add.commute)
    finally show ?thesis .
  qed
qed

lemma rs_min_of: "rs_min (running_stats_of xs) = (if xs = [] then None else Some (Min (set xs)))"
  by (induction xs rule: rev_induct) (auto simp: new_running_stats_def rs_add_def Let_def min.commute)

lemma rs_max_of: "rs_max (running_stats_of xs) = (if xs = [] then None else Some (Max (set xs)))"
  by (induction xs rule: rev_induct) (auto simp: new_running_stats_def rs_add_def Let_def max.commute)

text \<open>
  The constant-memory accumulator computes the textbook statistics. After any non-empty sequence
  of values, in one pass, it reports their minimum, maximum and mean, the population standard
  deviation, and, from two values on, the bias-corrected sample standard deviation.
\<close>

theorem running_stats_exact:
  assumes "xs \<noteq> []"
  shows "stat_min (running_stats_of xs) = Min (set xs) \<and> stat_max (running_stats_of xs) = Max (set xs)
    \<and> stat_mean (running_stats_of xs) = mean_of xs
    \<and> stat_std (running_stats_of xs) = sqrt (squared_deviations xs / real (length xs))
    \<and> sample_std (running_stats_of xs) =
        (if length xs = 1 then 0 else sqrt (squared_deviations xs / (real (length xs) - 1)))"
proof -
  have "length xs \<noteq> 0" using assms by simp
  then have "length xs = 1 \<or> length xs > 1" by linarith
  then show ?thesis using assms
    by (auto simp: stat_min_def stat_max_def stat_mean_def stat_std_def sample_std_def
        rs_mean_of rs_m2_of rs_min_of rs_max_of)
qed

theorem running_stats_exact_witness:
  "stat_mean (running_stats_of [1, 3]) = 2 \<and> stat_std (running_stats_of [1, 3]) = 1
   \<and> sample_std (running_stats_of [1, 3]) = sqrt 2"
  using running_stats_exact [of "[1, 3]"] by (simp add: power2_eq_square)

subsection \<open>The accumulator of a sequence of packets\<close>

text \<open>
  The accumulator a flow has after its opening packet \<open>p\<close> and the later packets \<open>ps\<close>. What the
  packet parser promises of a packet: ports in range (a constraint of \<open>PacketMetadata\<close>) and no more
  payload than the IP-level length.
\<close>

definition flow_of :: "flow_key \<Rightarrow> ipv4_address \<Rightarrow> ipv4_address \<Rightarrow> packet_metadata \<Rightarrow> packet_metadata list \<Rightarrow> flow_state" where
  "flow_of key s d p ps = fold flow_observe ps (flow_opening key s d p)"

definition packet_ok :: "packet_metadata \<Rightarrow> bool" where
  "packet_ok p \<longleftrightarrow> port_ok (pm_source_port p) \<and> port_ok (pm_destination_port p)
     \<and> pm_payload_length p \<le> pm_total_length p"

text \<open>The specification's direction of a packet and the gaps between consecutive packets.\<close>

definition sent_forward :: "ipv4_address \<Rightarrow> packet_metadata \<Rightarrow> packet_metadata \<Rightarrow> bool" where
  "sent_forward s p q \<longleftrightarrow> pm_source_ip q = V4 s \<and> pm_source_port q = pm_source_port p"

definition arrival_gaps :: "datetime list \<Rightarrow> real list" where
  "arrival_gaps ts = [total_seconds (b - a). (a, b) \<leftarrow> zip ts (tl ts), a \<le> b]"

lemma total_seconds_nonneg [simp]: "0 \<le> total_seconds d \<longleftrightarrow> 0 \<le> d"
  by (simp add: total_seconds_def)

lemma zip_tl_snoc: "ts \<noteq> [] \<Longrightarrow> zip (ts @ [t]) (tl (ts @ [t])) = zip ts (tl ts) @ [(last ts, t)]"
  by (induction ts rule: list_nonempty_induct) (auto simp: neq_Nil_conv)

lemma arrival_gaps_snoc:
  "ts \<noteq> [] \<Longrightarrow> arrival_gaps (ts @ [t]) = arrival_gaps ts @ (if last ts \<le> t then [total_seconds (t - last ts)] else [])"
  by (simp add: arrival_gaps_def zip_tl_snoc del: tl_append2)

lemma arrival_gaps_nonneg: "x \<in> set (arrival_gaps ts) \<Longrightarrow> 0 \<le> x"
  by (auto simp: arrival_gaps_def)

lemmas observe_defs = flow_observe_def observe_stats_def observe_flags_def observe_counts_def Let_def

lemma flow_observe_fixed [simp]:
  "fs_key (flow_observe q s) = fs_key s"
  "fs_protocol (flow_observe q s) = fs_protocol s"
  "fs_forward_source_ip (flow_observe q s) = fs_forward_source_ip s"
  "fs_forward_source_port (flow_observe q s) = fs_forward_source_port s"
  "fs_forward_destination_ip (flow_observe q s) = fs_forward_destination_ip s"
  "fs_forward_destination_port (flow_observe q s) = fs_forward_destination_port s"
  "fs_forward_source_mac (flow_observe q s) = fs_forward_source_mac s"
  "fs_forward_destination_mac (flow_observe q s) = fs_forward_destination_mac s"
  "fs_first_seen (flow_observe q s) = fs_first_seen s"
  "fs_initiated (flow_observe q s) = fs_initiated s"
  by (simp_all add: observe_defs split: option.splits)

lemma flow_observe_counts [simp]:
  "fs_packet_count (flow_observe q s) = fs_packet_count s + 1"
  "fs_byte_count (flow_observe q s) = fs_byte_count s + pm_total_length q"
  "fs_last_seen (flow_observe q s) = max (fs_last_seen s) (pm_timestamp q)"
  "fs_forward_packet_count (flow_observe q s) = fs_forward_packet_count s + of_bool (is_forward q s)"
  "fs_backward_packet_count (flow_observe q s) = fs_backward_packet_count s + of_bool (\<not> is_forward q s)"
  "fs_forward_byte_count (flow_observe q s) = fs_forward_byte_count s + (if is_forward q s then pm_total_length q else 0)"
  "fs_backward_byte_count (flow_observe q s) = fs_backward_byte_count s + (if is_forward q s then 0 else pm_total_length q)"
  "fs_forward_payload_bytes (flow_observe q s) = fs_forward_payload_bytes s + (if is_forward q s then pm_payload_length q else 0)"
  "fs_backward_payload_bytes (flow_observe q s) = fs_backward_payload_bytes s + (if is_forward q s then 0 else pm_payload_length q)"
  by (simp_all add: observe_defs split: option.splits)

lemma flow_observe_stats [simp]:
  "fs_packet_size_stats (flow_observe q s) = rs_add (real (pm_total_length q)) (fs_packet_size_stats s)"
  "fs_payload_size_stats (flow_observe q s) = rs_add (real (pm_payload_length q)) (fs_payload_size_stats s)"
  "fs_last_packet_time (flow_observe q s) = Some (pm_timestamp q)"
  "fs_inter_arrival_stats (flow_observe q s) = (case fs_last_packet_time s of
       None \<Rightarrow> fs_inter_arrival_stats s
     | Some t \<Rightarrow> if t \<le> pm_timestamp q then rs_add (total_seconds (pm_timestamp q - t)) (fs_inter_arrival_stats s)
               else fs_inter_arrival_stats s)"
  by (simp_all add: observe_defs split: option.splits)

lemma flow_of_snoc: "flow_of key s d p (ps @ [q]) = flow_observe q (flow_of key s d p ps)"
  by (simp add: flow_of_def)

lemma flow_of_Nil: "flow_of key s d p [] = flow_opening key s d p"
  by (simp add: flow_of_def)

lemma flow_of_fixed [simp]:
  "fs_key (flow_of key s d p ps) = key"
  "fs_protocol (flow_of key s d p ps) = pm_protocol p"
  "fs_forward_source_ip (flow_of key s d p ps) = s"
  "fs_forward_source_port (flow_of key s d p ps) = pm_source_port p"
  "fs_forward_destination_ip (flow_of key s d p ps) = d"
  "fs_forward_destination_port (flow_of key s d p ps) = pm_destination_port p"
  "fs_forward_source_mac (flow_of key s d p ps) = pm_source_mac p"
  "fs_forward_destination_mac (flow_of key s d p ps) = pm_destination_mac p"
  "fs_first_seen (flow_of key s d p ps) = pm_timestamp p"
  "fs_initiated (flow_of key s d p ps) = is_initiation p"
  by (induction ps rule: rev_induct)
     (simp_all add: flow_of_snoc flow_of_Nil flow_opening_def new_flow_state_def)

lemma is_forward_flow_of [simp]: "is_forward q (flow_of key s d p ps) \<longleftrightarrow> sent_forward s p q"
  by (simp add: is_forward_def sent_forward_def)

lemma is_forward_new: "is_forward q (fs\<lparr>fs_initiated := b\<rparr>) \<longleftrightarrow> is_forward q fs"
  by (simp add: is_forward_def)

lemma is_forward_new_flow_state [simp]:
  "is_forward q (new_flow_state key prot s (pm_source_port p) d dp t m m') \<longleftrightarrow> sent_forward s p q"
  by (simp add: is_forward_def sent_forward_def new_flow_state_def)

lemmas flow_of_induct_simps = flow_of_snoc flow_of_Nil flow_opening_def is_forward_new

lemma flow_of_counts:
  "fs_packet_count (flow_of key s d p ps) = length (p # ps)"
  "fs_byte_count (flow_of key s d p ps) = (\<Sum>q\<leftarrow>p # ps. pm_total_length q)"
  "fs_forward_packet_count (flow_of key s d p ps) = length (filter (sent_forward s p) (p # ps))"
  "fs_backward_packet_count (flow_of key s d p ps) = length (filter (\<lambda>q. \<not> sent_forward s p q) (p # ps))"
  "fs_forward_byte_count (flow_of key s d p ps) = (\<Sum>q\<leftarrow>filter (sent_forward s p) (p # ps). pm_total_length q)"
  "fs_backward_byte_count (flow_of key s d p ps) = (\<Sum>q\<leftarrow>filter (\<lambda>q. \<not> sent_forward s p q) (p # ps). pm_total_length q)"
  "fs_forward_payload_bytes (flow_of key s d p ps) = (\<Sum>q\<leftarrow>filter (sent_forward s p) (p # ps). pm_payload_length q)"
  "fs_backward_payload_bytes (flow_of key s d p ps) = (\<Sum>q\<leftarrow>filter (\<lambda>q. \<not> sent_forward s p q) (p # ps). pm_payload_length q)"
  by (induction ps rule: rev_induct)
     (simp_all add: flow_of_induct_simps is_forward_def sent_forward_def new_flow_state_def)

lemma flow_of_last_seen: "fs_last_seen (flow_of key s d p ps) = Max (pm_timestamp ` set (p # ps))"
proof (induction ps rule: rev_induct)
  case Nil
  then show ?case by (simp add: flow_of_induct_simps new_flow_state_def)
next
  case (snoc q ps)
  have "pm_timestamp ` set (p # ps @ [q]) = insert (pm_timestamp q) (pm_timestamp ` set (p # ps))" by auto
  then have "Max (pm_timestamp ` set (p # ps @ [q])) = max (pm_timestamp q) (Max (pm_timestamp ` set (p # ps)))"
    by (metis Max_insert List.finite_set finite_imageI image_is_empty list.simps(15) insert_not_empty)
  then show ?case using snoc by (simp add: flow_of_snoc max.commute)
qed

lemma flow_of_stats:
  "fs_packet_size_stats (flow_of key s d p ps) = running_stats_of (map (\<lambda>q. real (pm_total_length q)) (p # ps))"
  "fs_payload_size_stats (flow_of key s d p ps) = running_stats_of (map (\<lambda>q. real (pm_payload_length q)) (p # ps))"
  unfolding running_stats_of_def
  by (induction ps rule: rev_induct)
     (simp_all add: flow_of_induct_simps new_flow_state_def)

lemma flow_of_last_packet_time: "fs_last_packet_time (flow_of key s d p ps) = Some (pm_timestamp (last (p # ps)))"
  by (induction ps rule: rev_induct) (simp_all add: flow_of_induct_simps)

lemma flow_of_arrival_stats:
  "fs_inter_arrival_stats (flow_of key s d p ps) = running_stats_of (arrival_gaps (map pm_timestamp (p # ps)))"
proof (induction ps rule: rev_induct)
  case Nil
  then show ?case by (simp add: flow_of_induct_simps new_flow_state_def arrival_gaps_def)
next
  case (snoc q ps)
  have "arrival_gaps (map pm_timestamp (p # ps @ [q])) = arrival_gaps (map pm_timestamp (p # ps))
      @ (if pm_timestamp (last (p # ps)) \<le> pm_timestamp q
         then [total_seconds (pm_timestamp q - pm_timestamp (last (p # ps)))] else [])"
    using arrival_gaps_snoc [of "map pm_timestamp (p # ps)" "pm_timestamp q"] last_map [of "p # ps" pm_timestamp]
    by simp
  then show ?case using snoc by (simp add: flow_of_snoc flow_of_last_packet_time)
qed

subsection \<open>Finalising never fails, and the flow summarises its packets\<close>

lemma sum_list_filter_split:
  "(\<Sum>q\<leftarrow>filter P qs. f q) + (\<Sum>q\<leftarrow>filter (\<lambda>q. \<not> P q) qs. f q) = (\<Sum>q\<leftarrow>qs. f q :: nat)"
  by (induction qs) auto

lemma py_round_nat [simp]: "py_round (real n) = int n"
  by (simp add: py_round_def)

lemma running_stats_nonneg:
  assumes "\<forall>x \<in> set xs. 0 \<le> x"
  shows "0 \<le> stat_min (running_stats_of xs)" "0 \<le> stat_max (running_stats_of xs)"
    "0 \<le> stat_mean (running_stats_of xs)" "0 \<le> stat_std (running_stats_of xs)"
    "0 \<le> sample_std (running_stats_of xs)"
proof -
  have mean: "0 \<le> sum_list xs" using assms by (intro sum_list_nonneg) auto
  have m2: "0 \<le> rs_m2 (running_stats_of xs)"
    unfolding rs_m2_of by (intro sum_list_nonneg) auto
  show "0 \<le> stat_min (running_stats_of xs)" using assms by (simp add: stat_min_def rs_min_of)
  show "0 \<le> stat_max (running_stats_of xs)"
    using assms by (auto simp: stat_max_def rs_max_of Max_ge_iff neq_Nil_conv)
  show "0 \<le> stat_mean (running_stats_of xs)" using mean by (simp add: stat_mean_def rs_mean_of)
  show "0 \<le> stat_std (running_stats_of xs)" using m2 by (simp add: stat_std_def)
  show "0 \<le> sample_std (running_stats_of xs)" using m2 by (auto simp: sample_std_def)
qed

lemma Min_real_image: "finite A \<Longrightarrow> A \<noteq> {} \<Longrightarrow> Min ((\<lambda>q. real (f q)) ` A) = real (Min (f ` A))"
  using mono_Min_commute [of real "f ` A"] by (simp add: image_image mono_def)

lemma Max_real_image: "finite A \<Longrightarrow> A \<noteq> {} \<Longrightarrow> Max ((\<lambda>q. real (f q)) ` A) = real (Max (f ` A))"
  using mono_Max_commute [of real "f ` A"] by (simp add: image_image mono_def)

lemma length_stats:
  assumes "qs \<noteq> []"
  shows "stat_min (running_stats_of (map (\<lambda>q. real (f q)) qs)) = real (Min (f ` set qs))"
    "stat_max (running_stats_of (map (\<lambda>q. real (f q)) qs)) = real (Max (f ` set qs))"
  using assms by (simp_all add: stat_min_def stat_max_def rs_min_of rs_max_of Min_real_image Max_real_image)

text \<open>Every accumulator of well-formed packets passes all of \<open>Flow\<close>'s checks.\<close>

lemma to_flow_flow_of:
  assumes "flow_id \<noteq> []" "\<forall>q \<in> set (p # ps). packet_ok q"
  shows "\<exists>f. to_flow flow_id (flow_of key s d p ps) = Some f"
proof -
  let ?s = "flow_of key s d p ps"
  have ports: "port_ok (pm_source_port p)" "port_ok (pm_destination_port p)"
    using assms(2) by (auto simp: packet_ok_def)
  have stats: "\<forall>x \<in> set (map (\<lambda>q. real (pm_total_length q)) (p # ps)). 0 \<le> x"
    "\<forall>x \<in> set (map (\<lambda>q. real (pm_payload_length q)) (p # ps)). 0 \<le> x"
    "\<forall>x \<in> set (arrival_gaps (map pm_timestamp (p # ps))). 0 \<le> x"
    using arrival_gaps_nonneg by auto
  note nonneg = stats [THEN running_stats_nonneg(1)] stats [THEN running_stats_nonneg(2)]
    stats [THEN running_stats_nonneg(3)] stats [THEN running_stats_nonneg(4)] stats [THEN running_stats_nonneg(5)]
  have seen: "fs_first_seen ?s \<le> fs_last_seen ?s" by (simp add: flow_of_last_seen)
  have counts: "fs_forward_packet_count ?s + fs_backward_packet_count ?s = fs_packet_count ?s"
    using sum_length_filter_compl [of "sent_forward s p" "p # ps"] unfolding flow_of_counts .
  have bytes: "fs_forward_byte_count ?s + fs_backward_byte_count ?s = fs_byte_count ?s"
    unfolding flow_of_counts by (rule sum_list_filter_split)
  have "(\<Sum>q\<leftarrow>p # ps. pm_payload_length q) \<le> (\<Sum>q\<leftarrow>p # ps. pm_total_length q)"
    using assms(2) by (intro sum_list_mono) (auto simp: packet_ok_def)
  then have payload: "fs_forward_payload_bytes ?s + fs_backward_payload_bytes ?s \<le> fs_byte_count ?s"
    unfolding flow_of_counts sum_list_filter_split .
  show ?thesis
    using assms(1) ports seen counts bytes payload nonneg
    by (simp add: to_flow_def new_flow_def flow_fields_ok_def flow_check_consistency_def
        total_bytes_def flow_of_stats flow_of_arrival_stats not_less)
qed

lemma to_flow_fields:
  assumes "to_flow flow_id s = Some f"
  shows "fl_source_ip f = fs_forward_source_ip s" "fl_source_port f = fs_forward_source_port s"
    "fl_destination_ip f = fs_forward_destination_ip s" "fl_destination_port f = fs_forward_destination_port s"
    "fl_packet_count f = fs_packet_count s" "fl_byte_count f = fs_byte_count s"
    "fl_forward_packet_count f = fs_forward_packet_count s" "fl_forward_byte_count f = fs_forward_byte_count s"
    "fl_first_seen f = fs_first_seen s" "fl_last_seen f = fs_last_seen s"
    "fl_opened_by_initiation f = fs_initiated s" "fl_protocol f = fs_protocol s"
    "zs_min_bytes (fl_packet_size_stats f) = nat (py_round (stat_min (fs_packet_size_stats s)))"
    "zs_max_bytes (fl_packet_size_stats f) = nat (py_round (stat_max (fs_packet_size_stats s)))"
    "zs_mean_bytes (fl_packet_size_stats f) = stat_mean (fs_packet_size_stats s)"
  using assms by (auto simp: to_flow_def new_flow_def split: if_splits)

text \<open>
  C40: A finished flow is an exact summary of the packets of its connection. From an opening packet
  and any later packets with ports in range and no more payload than total length, in any order of
  timestamps and in both directions, \<open>to_flow\<close> passes every check of \<open>Flow\<close> and never raises; the
  flow has the opening packet's source and destination, counts the packets and bytes of each
  direction, spans the opening packet's time to the latest one, and its size statistics are the
  minimum, maximum and mean of the packets' lengths.
\<close>

theorem flow_summarises_its_packets:
  assumes "flow_id \<noteq> []" "\<forall>q \<in> set (p # ps). packet_ok q"
  shows "\<exists>f. to_flow flow_id (flow_of key s d p ps) = Some f
    \<and> (fl_source_ip f, fl_source_port f) = (s, pm_source_port p)
    \<and> (fl_destination_ip f, fl_destination_port f) = (d, pm_destination_port p)
    \<and> fl_packet_count f = length (p # ps)
    \<and> fl_byte_count f = (\<Sum>q\<leftarrow>p # ps. pm_total_length q)
    \<and> fl_forward_packet_count f = length (filter (sent_forward s p) (p # ps))
    \<and> fl_forward_byte_count f = (\<Sum>q\<leftarrow>filter (sent_forward s p) (p # ps). pm_total_length q)
    \<and> fl_first_seen f = pm_timestamp p \<and> fl_last_seen f = Max (pm_timestamp ` set (p # ps))
    \<and> zs_min_bytes (fl_packet_size_stats f) = Min (pm_total_length ` set (p # ps))
    \<and> zs_max_bytes (fl_packet_size_stats f) = Max (pm_total_length ` set (p # ps))
    \<and> zs_mean_bytes (fl_packet_size_stats f) = mean_of (map (\<lambda>q. real (pm_total_length q)) (p # ps))
    \<and> fl_opened_by_initiation f = is_initiation p"
proof -
  let ?s = "flow_of key s d p ps"
  obtain f where f: "to_flow flow_id ?s = Some f" using to_flow_flow_of [OF assms] by blast
  have mean: "stat_mean (fs_packet_size_stats ?s) = mean_of (map (\<lambda>q. real (pm_total_length q)) (p # ps))"
    unfolding flow_of_stats using running_stats_exact by blast
  have sizes: "stat_min (fs_packet_size_stats ?s) = real (Min (pm_total_length ` set (p # ps)))"
    "stat_max (fs_packet_size_stats ?s) = real (Max (pm_total_length ` set (p # ps)))"
    unfolding flow_of_stats by (rule length_stats, simp)+
  show ?thesis
    using f by (intro exI [of _ f]) (simp only: to_flow_fields [OF f] sizes mean py_round_nat nat_int
      flow_of_counts flow_of_last_seen flow_of_fixed simp_thms)
qed

definition example_packet :: "datetime \<Rightarrow> ip_address \<Rightarrow> ip_address \<Rightarrow> int \<Rightarrow> int \<Rightarrow> packet_metadata" where
  "example_packet t s d sp dp = \<lparr>pm_timestamp = t, pm_address_family = AF_IPV4, pm_source_ip = s,
     pm_destination_ip = d, pm_protocol = P_UDP, pm_source_port = Some sp, pm_destination_port = Some dp,
     pm_tcp_flags = None, pm_total_length = 60, pm_payload_length = 32, pm_source_mac = None,
     pm_destination_mac = None\<rparr>"

theorem flow_summarises_its_packets_witness:
  "\<exists>f. to_flow ''f'' (flow_of (compute_flow_key 1 2 (Some 5000) (Some 53) P_UDP) 1 2
       (example_packet 0 (V4 1) (V4 2) 5000 53) [example_packet 7 (V4 2) (V4 1) 53 5000]) = Some f
     \<and> fl_packet_count f = 2 \<and> fl_byte_count f = 120 \<and> fl_forward_packet_count f = 1 \<and> fl_last_seen f = 7"
  using flow_summarises_its_packets [of "''f''" "example_packet 0 (V4 1) (V4 2) 5000 53"
      "[example_packet 7 (V4 2) (V4 1) 53 5000]" "compute_flow_key 1 2 (Some 5000) (Some 53) P_UDP" 1 2]
  by (auto simp: packet_ok_def port_ok_def example_packet_def sent_forward_def)

end
