(* ===== verification/Flow_Aggregator.thy ===== *)
theory Flow_Aggregator
  imports Flow_State "HOL-Library.Multiset"
begin

section \<open>The flow table and the aggregator\<close>

text \<open>
  \<open>FlowTable\<close> of \<open>flow/state.py\<close> and \<open>flow/aggregator.py\<close>. The table is the \<open>OrderedDict\<close> of open flows;
  the accumulators it holds are updated in place, which is an update of the entry. Each operation
  returns the list of flows it emits, \<open>None\<close> where \<open>to_flow\<close> raises, together with the aggregator it
  leaves. \<open>uuid4\<close> is a parameter: \<open>uuid n\<close> is the text of the \<open>n\<close>-th identifier drawn, and
  \<open>fa_issued\<close> counts the identifiers drawn so far. The calls of the \<open>on_new_flow\<close> callback are
  returned as a list of signals.
\<close>

subsection \<open>FlowTable\<close>

record flow_table =
  ft_max_flows :: nat
  ft_flows :: "(flow_key, flow_state) odict"

definition new_flow_table :: "nat \<Rightarrow> flow_table" where
  "new_flow_table max_flows = \<lparr>ft_max_flows = max_flows, ft_flows = []\<rparr>"

definition ft_get :: "flow_key \<Rightarrow> flow_table \<Rightarrow> flow_state option \<times> flow_table" where
  "ft_get key t = (case map_of (ft_flows t) key of
       None \<Rightarrow> (None, t)
     | Some s \<Rightarrow> (Some s, t\<lparr>ft_flows := od_move_to_end key (ft_flows t)\<rparr>))"

text \<open>
  \<open>popitem\<close> finds an entry whenever the table is at its capacity, which \<open>FlowConfig\<close> makes positive.
\<close>

definition ft_insert :: "flow_key \<Rightarrow> flow_state \<Rightarrow> flow_table \<Rightarrow> flow_state option \<times> flow_table" where
  "ft_insert key s t =
     (if length (ft_flows t) \<ge> ft_max_flows t \<and> ft_flows t \<noteq> []
      then (Some (snd (hd (ft_flows t))), t\<lparr>ft_flows := AList.update key s (tl (ft_flows t))\<rparr>)
      else (None, t\<lparr>ft_flows := AList.update key s (ft_flows t)\<rparr>))"

definition ft_pop :: "flow_key \<Rightarrow> flow_table \<Rightarrow> flow_state option \<times> flow_table" where
  "ft_pop key t = (map_of (ft_flows t) key, t\<lparr>ft_flows := AList.delete key (ft_flows t)\<rparr>)"

definition ft_clear :: "flow_table \<Rightarrow> flow_table" where
  "ft_clear t = t\<lparr>ft_flows := []\<rparr>"

subsection \<open>FlowAggregator\<close>

record flow_config =
  fcf_active_timeout_seconds :: nat
  fcf_inactive_timeout_seconds :: nat
  fcf_max_flows :: nat
  fcf_cleanup_interval_seconds :: nat
  fcf_connection_start_max_tracked :: nat

definition flow_config_ok :: "flow_config \<Rightarrow> bool" where
  "flow_config_ok c \<longleftrightarrow> 0 < fcf_active_timeout_seconds c \<and> 0 < fcf_inactive_timeout_seconds c
     \<and> 0 < fcf_max_flows c \<and> 0 < fcf_cleanup_interval_seconds c \<and> 0 < fcf_connection_start_max_tracked c"

record new_flow_signal =
  ns_source_ip :: ipv4_address
  ns_destination_ip :: ipv4_address
  ns_destination_port :: "int option"
  ns_protocol :: protocol
  ns_timestamp :: datetime
  ns_source_mac :: "mac_address option"
  ns_destination_mac :: "mac_address option"

record flow_aggregator =
  fa_table :: flow_table
  fa_active_timeout_seconds :: real
  fa_inactive_timeout_seconds :: real
  fa_on_new_flow :: bool
  fa_protected_network :: "ipv4_network option"
  fa_issued :: nat

definition new_flow_aggregator :: "flow_config \<Rightarrow> bool \<Rightarrow> ipv4_network option \<Rightarrow> flow_aggregator" where
  "new_flow_aggregator config on_new_flow protected_network =
     \<lparr>fa_table = new_flow_table (fcf_max_flows config),
      fa_active_timeout_seconds = real (fcf_active_timeout_seconds config),
      fa_inactive_timeout_seconds = real (fcf_inactive_timeout_seconds config),
      fa_on_new_flow = on_new_flow, fa_protected_network = protected_network, fa_issued = 0\<rparr>"

definition LIMITED_BROADCAST :: ipv4_address where
  "LIMITED_BROADCAST = ipv4 255 255 255 255"

definition is_routable_unicast :: "ipv4_address \<Rightarrow> ipv4_network option \<Rightarrow> bool" where
  "is_routable_unicast a protected_network =
     (if is_unspecified a \<or> is_loopback a \<or> is_multicast a \<or> is_link_local a \<or> is_reserved a
         \<or> a = LIMITED_BROADCAST
      then False
      else \<not> (case protected_network of
                None \<Rightarrow> False
              | Some n \<Rightarrow> prefixlen n < 31 \<and> a = broadcast_address n))"

definition finalize :: "(nat \<Rightarrow> string) \<Rightarrow> flow_state \<Rightarrow> flow_aggregator \<Rightarrow> flow option \<times> flow_aggregator" where
  "finalize uuid s a = (to_flow (uuid (fa_issued a)) s, a\<lparr>fa_issued := fa_issued a + 1\<rparr>)"

text \<open>The end of \<open>process_packet\<close>: the flow the packet belongs to closes when it is complete or timed out.\<close>

definition close_if_due :: "(nat \<Rightarrow> string) \<Rightarrow> flow_key \<Rightarrow> flow_state \<Rightarrow> datetime \<Rightarrow> flow list \<Rightarrow> flow_aggregator
    \<Rightarrow> flow list option \<times> flow_aggregator" where
  "close_if_due uuid key s now emitted a =
     (case check_closure s now (fa_active_timeout_seconds a) (fa_inactive_timeout_seconds a) of
        None \<Rightarrow> (Some emitted, a)
      | Some _ \<Rightarrow>
          (case finalize uuid s (a\<lparr>fa_table := snd (ft_pop key (fa_table a))\<rparr>) of
             (None, a') \<Rightarrow> (None, a')
           | (Some f, a') \<Rightarrow> (Some (emitted @ [f]), a')))"

definition new_flow_signals :: "flow_aggregator \<Rightarrow> ipv4_address \<Rightarrow> ipv4_address \<Rightarrow> packet_metadata \<Rightarrow> flow_state
    \<Rightarrow> new_flow_signal list" where
  "new_flow_signals a source destination p s =
     (if fa_on_new_flow a \<and> fs_initiated s
      then [\<lparr>ns_source_ip = source, ns_destination_ip = destination,
             ns_destination_port = pm_destination_port p, ns_protocol = pm_protocol p,
             ns_timestamp = pm_timestamp p, ns_source_mac = pm_source_mac p,
             ns_destination_mac = pm_destination_mac p\<rparr>]
      else [])"

definition open_flow :: "(nat \<Rightarrow> string) \<Rightarrow> flow_key \<Rightarrow> flow_state \<Rightarrow> datetime \<Rightarrow> flow_aggregator
    \<Rightarrow> flow list option \<times> flow_aggregator" where
  "open_flow uuid key s now a =
     (case ft_insert key s (fa_table a) of
        (None, t) \<Rightarrow> close_if_due uuid key s now [] (a\<lparr>fa_table := t\<rparr>)
      | (Some evicted, t) \<Rightarrow>
          (case finalize uuid evicted (a\<lparr>fa_table := t\<rparr>) of
             (None, a') \<Rightarrow> (None, a')
           | (Some f, a') \<Rightarrow> close_if_due uuid key s now [f] a'))"

definition process_packet :: "(nat \<Rightarrow> string) \<Rightarrow> packet_metadata \<Rightarrow> flow_aggregator
    \<Rightarrow> (flow list option \<times> new_flow_signal list) \<times> flow_aggregator" where
  "process_packet uuid p a = (case (pm_source_ip p, pm_destination_ip p) of
       (V4 source, V4 destination) \<Rightarrow>
         if \<not> is_routable_unicast source (fa_protected_network a)
            \<or> \<not> is_routable_unicast destination (fa_protected_network a)
         then ((Some [], []), a)
         else
           let key = compute_flow_key source destination (pm_source_port p) (pm_destination_port p) (pm_protocol p)
           in (case ft_get key (fa_table a) of
                 (None, t) \<Rightarrow>
                   let s = flow_opening key source destination p;
                       (emitted, a') = open_flow uuid key s (pm_timestamp p) (a\<lparr>fa_table := t\<rparr>)
                   in ((emitted, new_flow_signals a source destination p s), a')
               | (Some s, t) \<Rightarrow>
                   let s' = flow_observe p s;
                       t' = t\<lparr>ft_flows := AList.update key s' (ft_flows t)\<rparr>;
                       (emitted, a') = close_if_due uuid key s' (pm_timestamp p) [] (a\<lparr>fa_table := t'\<rparr>)
                   in ((emitted, []), a'))
     | _ \<Rightarrow> ((Some [], []), a))"

fun sweep_loop :: "(nat \<Rightarrow> string) \<Rightarrow> datetime \<Rightarrow> (flow_key \<times> flow_state) list \<Rightarrow> flow list \<Rightarrow> flow_aggregator
    \<Rightarrow> flow list option \<times> flow_aggregator" where
  "sweep_loop uuid now [] emitted a = (Some emitted, a)"
| "sweep_loop uuid now ((key, s) # rest) emitted a =
     (case check_closure s now (fa_active_timeout_seconds a) (fa_inactive_timeout_seconds a) of
        None \<Rightarrow> sweep_loop uuid now rest emitted a
      | Some _ \<Rightarrow>
          (case finalize uuid s (a\<lparr>fa_table := snd (ft_pop key (fa_table a))\<rparr>) of
             (None, a') \<Rightarrow> (None, a')
           | (Some f, a') \<Rightarrow> sweep_loop uuid now rest (emitted @ [f]) a'))"

definition sweep_timeouts :: "(nat \<Rightarrow> string) \<Rightarrow> datetime \<Rightarrow> flow_aggregator \<Rightarrow> flow list option \<times> flow_aggregator" where
  "sweep_timeouts uuid now a = sweep_loop uuid now (ft_flows (fa_table a)) [] a"

fun finalize_all :: "(nat \<Rightarrow> string) \<Rightarrow> flow_state list \<Rightarrow> flow_aggregator \<Rightarrow> flow list option \<times> flow_aggregator" where
  "finalize_all uuid [] a = (Some [], a)"
| "finalize_all uuid (s # rest) a = (case finalize uuid s a of
       (None, a') \<Rightarrow> (None, a')
     | (Some f, a') \<Rightarrow> (case finalize_all uuid rest a' of
           (None, a'') \<Rightarrow> (None, a'')
         | (Some fs, a'') \<Rightarrow> (Some (f # fs), a'')))"

definition flush :: "(nat \<Rightarrow> string) \<Rightarrow> flow_aggregator \<Rightarrow> flow list option \<times> flow_aggregator" where
  "flush uuid a = (case finalize_all uuid (map snd (ft_flows (fa_table a))) a of
       (None, a') \<Rightarrow> (None, a')
     | (Some fs, a') \<Rightarrow> (Some fs, a'\<lparr>fa_table := ft_clear (fa_table a')\<rparr>))"

subsection \<open>Slow connections and snapshots\<close>

text \<open>
  \<open>byte_count / duration\<close> raises \<open>ZeroDivisionError\<close> for a duration of zero, which is \<open>None\<close> here; the
  callers' minimum duration is positive.
\<close>

definition is_slow_connection_candidate ::
  "flow_state \<Rightarrow> datetime \<Rightarrow> real \<Rightarrow> real \<Rightarrow> real \<Rightarrow> bool option" where
  "is_slow_connection_candidate s now min_duration_seconds max_bytes_per_second max_idle_seconds =
     (if fs_protocol s \<noteq> P_TCP then Some False
      else if fs_backward_packet_count s < 1 then Some False
      else if fs_saw_fin_forward s \<or> fs_saw_fin_backward s \<or> fs_saw_rst s then Some False
      else let duration = total_seconds (now - fs_first_seen s)
           in if duration < min_duration_seconds then Some False
              else if total_seconds (now - fs_last_seen s) > max_idle_seconds then Some False
              else if duration = 0 then None
              else Some (real (fs_byte_count s) / duration \<le> max_bytes_per_second))"

record slow_connection_cluster =
  sc_source_ip :: ipv4_address
  sc_destination_ip :: ipv4_address
  sc_concurrent_count :: nat
  sc_representative_flow :: flow

type_synonym address_pair = "ipv4_address \<times> ipv4_address"

definition setdefault_append :: "'k \<Rightarrow> 'v \<Rightarrow> ('k, 'v list) odict \<Rightarrow> ('k, 'v list) odict" where
  "setdefault_append k v d = AList.update k ((case map_of d k of None \<Rightarrow> [] | Some vs \<Rightarrow> vs) @ [v]) d"

fun slow_by_pair :: "(flow_state \<Rightarrow> bool option) \<Rightarrow> flow_state list \<Rightarrow> (address_pair, flow_state list) odict
    \<Rightarrow> (address_pair, flow_state list) odict option" where
  "slow_by_pair candidate [] by_pair = Some by_pair"
| "slow_by_pair candidate (s # rest) by_pair = (case candidate s of
       None \<Rightarrow> None
     | Some False \<Rightarrow> slow_by_pair candidate rest by_pair
     | Some True \<Rightarrow> slow_by_pair candidate rest
         (setdefault_append (fs_forward_source_ip s, fs_forward_destination_ip s) s by_pair))"

text \<open>\<open>min(states, key=first_seen)\<close>: the first of the earliest.\<close>

fun earliest :: "flow_state \<Rightarrow> flow_state list \<Rightarrow> flow_state" where
  "earliest best [] = best"
| "earliest best (s # rest) = earliest (if fs_first_seen s < fs_first_seen best then s else best) rest"

fun report_clusters :: "(nat \<Rightarrow> string) \<Rightarrow> nat \<Rightarrow> (address_pair, flow_state list) odict \<Rightarrow> flow_aggregator
    \<Rightarrow> slow_connection_cluster list option \<times> flow_aggregator" where
  "report_clusters uuid threshold [] a = (Some [], a)"
| "report_clusters uuid threshold (((source, destination), states) # rest) a =
     (if length states < threshold then report_clusters uuid threshold rest a
      else (case finalize uuid (earliest (hd states) (tl states)) a of
              (None, a') \<Rightarrow> (None, a')
            | (Some f, a') \<Rightarrow> (case report_clusters uuid threshold rest a' of
                  (None, a'') \<Rightarrow> (None, a'')
                | (Some cs, a'') \<Rightarrow>
                    (Some (\<lparr>sc_source_ip = source, sc_destination_ip = destination,
                            sc_concurrent_count = length states, sc_representative_flow = f\<rparr> # cs), a''))))"

definition snapshot_slow_connection_clusters ::
  "(nat \<Rightarrow> string) \<Rightarrow> datetime \<Rightarrow> real \<Rightarrow> real \<Rightarrow> nat \<Rightarrow> real \<Rightarrow> flow_aggregator
    \<Rightarrow> slow_connection_cluster list option \<times> flow_aggregator" where
  "snapshot_slow_connection_clusters uuid now min_duration_seconds max_bytes_per_second concurrent_threshold
      max_idle_seconds a =
     (case slow_by_pair
             (\<lambda>s. is_slow_connection_candidate s now min_duration_seconds max_bytes_per_second max_idle_seconds)
             (map snd (ft_flows (fa_table a))) [] of
        None \<Rightarrow> (None, a)
      | Some by_pair \<Rightarrow> report_clusters uuid concurrent_threshold by_pair a)"

fun newest_from :: "ipv4_address \<Rightarrow> flow_state list \<Rightarrow> flow_state option \<Rightarrow> flow_state option" where
  "newest_from source [] newest = newest"
| "newest_from source (s # rest) newest =
     (if fs_forward_source_ip s \<noteq> source then newest_from source rest newest
      else (case newest of
              None \<Rightarrow> newest_from source rest (Some s)
            | Some n \<Rightarrow> newest_from source rest (if fs_last_seen s > fs_last_seen n then Some s else Some n)))"

text \<open>The outer \<open>None\<close> is an exception of \<open>to_flow\<close>, the inner one no open flow.\<close>

definition snapshot_open_flow_from :: "(nat \<Rightarrow> string) \<Rightarrow> ipv4_address \<Rightarrow> flow_aggregator
    \<Rightarrow> flow option option \<times> flow_aggregator" where
  "snapshot_open_flow_from uuid source a = (case newest_from source (map snd (ft_flows (fa_table a))) None of
       None \<Rightarrow> (Some None, a)
     | Some s \<Rightarrow> (case finalize uuid s a of (None, a') \<Rightarrow> (None, a') | (Some f, a') \<Rightarrow> (Some (Some f), a')))"

subsection \<open>Dictionaries as multisets of entries\<close>

lemma mset_od_move: "od_distinct d \<Longrightarrow> mset (od_move_to_end k d) = mset d"
proof -
  assume d: "od_distinct d"
  then have "distinct (od_move_to_end k d)" "distinct d"
    using od_distinct_move [OF d] by (metis distinct_map)+
  then show ?thesis using d by (simp add: set_eq_iff_mset_eq_distinct [symmetric] set_od_move)
qed

lemma mset_od_delete:
  assumes "od_distinct d" "map_of d k = Some v"
  shows "add_mset (k, v) (mset (AList.delete k d)) = mset d"
  using assms
proof (induction d)
  case (Cons e d)
  show ?case
  proof (cases "fst e = k")
    case True
    with Cons.prems have "k \<notin> fst ` set d" "e = (k, v)" by auto
    then show ?thesis by (simp add: delete_id del: image_iff)
  next
    case False
    with Cons show ?thesis by (cases e) (auto simp: add_mset_commute)
  qed
qed simp

lemma mset_od_update_absent: "map_of d k = None \<Longrightarrow> mset (AList.update k v d) = add_mset (k, v) (mset d)"
  by (induction d) (auto split: if_splits)

lemma mset_od_update_present:
  assumes "od_distinct d" "map_of d k = Some w"
  shows "mset (AList.update k v d) = add_mset (k, v) (mset (AList.delete k d))"
  using assms
proof (induction d)
  case (Cons e d)
  show ?case
  proof (cases "fst e = k")
    case True
    with Cons.prems have "k \<notin> fst ` set d" by auto
    with True show ?thesis by (cases e) (simp add: delete_id del: image_iff)
  next
    case False
    with Cons show ?thesis by (cases e) (auto simp: add_mset_commute)
  qed
qed simp

subsection \<open>Conversations: what the aggregator tracks\<close>

text \<open>
  The specification of the aggregator keeps packets instead of counters: a conversation is the
  addresses of its opening packet, that packet and the later ones in arrival order. An aggregator
  represents a multiset of open conversations when its table holds the accumulator of each.
\<close>

record conversation =
  cv_key :: flow_key
  cv_source :: ipv4_address
  cv_destination :: ipv4_address
  cv_opening :: packet_metadata
  cv_later :: "packet_metadata list"

definition summary :: "conversation \<Rightarrow> flow_state" where
  "summary c = flow_of (cv_key c) (cv_source c) (cv_destination c) (cv_opening c) (cv_later c)"

abbreviation cv_packets :: "conversation \<Rightarrow> packet_metadata list" where
  "cv_packets c \<equiv> cv_opening c # cv_later c"

definition packet_key :: "packet_metadata \<Rightarrow> flow_key option" where
  "packet_key p = (case (pm_source_ip p, pm_destination_ip p) of
       (V4 s, V4 d) \<Rightarrow> Some (compute_flow_key s d (pm_source_port p) (pm_destination_port p) (pm_protocol p))
     | _ \<Rightarrow> None)"

definition conversation_ok :: "conversation \<Rightarrow> bool" where
  "conversation_ok c \<longleftrightarrow> (\<forall>q \<in> set (cv_packets c). packet_ok q \<and> packet_key q = Some (cv_key c))
     \<and> pm_source_ip (cv_opening c) = V4 (cv_source c) \<and> pm_destination_ip (cv_opening c) = V4 (cv_destination c)"

definition packets_of :: "conversation multiset \<Rightarrow> packet_metadata multiset" where
  "packets_of C = (\<Sum>c \<in># C. mset (cv_packets c))"

lemma packets_of_simps [simp]:
  "packets_of {#} = {#}" "packets_of (add_mset c C) = mset (cv_packets c) + packets_of C"
  "packets_of (C + D) = packets_of C + packets_of D"
  by (simp_all add: packets_of_def)

text \<open>A packet the aggregator folds into a flow.\<close>

definition accepted :: "flow_aggregator \<Rightarrow> packet_metadata \<Rightarrow> bool" where
  "accepted a p \<longleftrightarrow> (case (pm_source_ip p, pm_destination_ip p) of
       (V4 s, V4 d) \<Rightarrow> is_routable_unicast s (fa_protected_network a) \<and> is_routable_unicast d (fa_protected_network a)
     | _ \<Rightarrow> False)"

definition flows_represent :: "conversation multiset \<Rightarrow> (flow_key, flow_state) odict \<Rightarrow> bool" where
  "flows_represent C d \<longleftrightarrow> od_distinct d \<and> mset d = image_mset (\<lambda>c. (cv_key c, summary c)) C
     \<and> (\<forall>c \<in># C. conversation_ok c)"

definition represents :: "conversation multiset \<Rightarrow> flow_aggregator \<Rightarrow> bool" where
  "represents C a \<longleftrightarrow> flows_represent C (ft_flows (fa_table a))
     \<and> length (ft_flows (fa_table a)) \<le> ft_max_flows (fa_table a) \<and> 0 < ft_max_flows (fa_table a)"

lemma flows_represent_move: "flows_represent C d \<Longrightarrow> flows_represent C (od_move_to_end k d)"
  by (simp add: flows_represent_def mset_od_move)

lemma flows_represent_lookup:
  assumes "flows_represent C d" "map_of d k = Some s"
  obtains c C' where "C = add_mset c C'" "cv_key c = k" "summary c = s" "conversation_ok c"
    "flows_represent C' (AList.delete k d)"
proof -
  have "(k, s) \<in># mset d" using assms(2) by (simp add: map_of_SomeD)
  then obtain c where c: "c \<in># C" "(k, s) = (cv_key c, summary c)"
    using assms(1) unfolding flows_represent_def by (metis (no_types, lifting) msed_map_invR multi_member_split union_single_eq_member)
  then obtain C' where C': "C = add_mset c C'" by (metis mset_add)
  have "add_mset (k, s) (mset (AList.delete k d)) = mset d"
    using assms by (intro mset_od_delete) (simp_all add: flows_represent_def)
  then have "mset (AList.delete k d) = image_mset (\<lambda>c. (cv_key c, summary c)) C'"
    using assms(1) c C' by (simp add: flows_represent_def)
  then show ?thesis using assms(1) c C' by (intro that [of c C']) (auto simp: flows_represent_def)
qed

lemma flows_represent_add:
  assumes "flows_represent C d" "map_of d (cv_key c) = None" "conversation_ok c"
  shows "flows_represent (add_mset c C) (AList.update (cv_key c) (summary c) d)"
  using assms by (simp add: flows_represent_def mset_od_update_absent del: map_of_eq_None_iff)

lemma flows_represent_replace:
  assumes "flows_represent C (AList.delete (cv_key c) d)" "map_of d (cv_key c) = Some s" "od_distinct d" "conversation_ok c"
  shows "flows_represent (add_mset c C) (AList.update (cv_key c) (summary c) d)"
  using assms by (simp add: flows_represent_def mset_od_update_present del: map_of_eq_Some_iff)

lemma flows_represent_tl:
  assumes "flows_represent C ((k, s) # d)"
  obtains c C' where "C = add_mset c C'" "cv_key c = k" "summary c = s" "conversation_ok c"
    "flows_represent C' d" "map_of d k = None"
proof -
  have k: "k \<notin> fst ` set d" using assms by (simp add: flows_represent_def)
  then have "AList.delete k ((k, s) # d) = d" by (simp add: delete_id del: image_iff)
  moreover have "map_of d k = None" using k by (simp add: map_of_None_iff_key)
  ultimately show ?thesis using flows_represent_lookup [OF assms, of k s] that by (metis map_of_Cons_code(2))
qed

subsection \<open>Every operation accounts for every packet\<close>

definition emits :: "flow \<Rightarrow> conversation \<Rightarrow> bool" where
  "emits f c \<longleftrightarrow> (\<exists>flow_id. flow_id \<noteq> [] \<and> to_flow flow_id (summary c) = Some f) \<and> conversation_ok c"

definition same_settings :: "flow_aggregator \<Rightarrow> flow_aggregator \<Rightarrow> bool" where
  "same_settings a a' \<longleftrightarrow> ft_max_flows (fa_table a') = ft_max_flows (fa_table a)
     \<and> fa_active_timeout_seconds a' = fa_active_timeout_seconds a
     \<and> fa_inactive_timeout_seconds a' = fa_inactive_timeout_seconds a
     \<and> fa_on_new_flow a' = fa_on_new_flow a \<and> fa_protected_network a' = fa_protected_network a"

text \<open>
  An operation turns an aggregator of the open conversations \<open>C\<close> into \<open>a'\<close>, adding the packets \<open>P\<close>
  and emitting the flows \<open>em\<close>.
\<close>

definition advances :: "conversation multiset \<Rightarrow> flow_aggregator \<Rightarrow> packet_metadata multiset \<Rightarrow> flow list
    \<Rightarrow> conversation multiset \<Rightarrow> conversation list \<Rightarrow> flow_aggregator \<Rightarrow> bool" where
  "advances C a P em C' D a' \<longleftrightarrow> represents C' a' \<and> same_settings a a' \<and> list_all2 emits em D
     \<and> packets_of (mset D) + packets_of C' = packets_of C + P"

lemma same_settings_refl [simp]: "same_settings a a"
  by (simp add: same_settings_def)

lemma advances_trans:
  assumes "advances C a P em C1 E1 a1" "advances C1 a1 P' em' C2 E2 a2"
  shows "advances C a (P + P') (em @ em') C2 (E1 @ E2) a2"
proof -
  have "packets_of (mset E1) + packets_of C1 = packets_of C + P"
    "packets_of (mset E2) + packets_of C2 = packets_of C1 + P'"
    using assms by (simp_all add: advances_def)
  then have "packets_of (mset E1) + (packets_of (mset E2) + packets_of C2) = packets_of C + P + P'"
    by (metis add.assoc)
  then show ?thesis using assms
    by (simp add: advances_def same_settings_def list_all2_appendI add.assoc)
qed

lemma advances_refl: "represents C a \<Longrightarrow> advances C a {#} [] C [] a"
  by (simp add: advances_def)

lemma to_flow_summary:
  assumes "conversation_ok c" "flow_id \<noteq> []"
  obtains f where "to_flow flow_id (summary c) = Some f" "emits f c"
  using to_flow_flow_of [OF assms(2), of "cv_opening c" "cv_later c"] assms
  unfolding emits_def conversation_ok_def summary_def by blast

lemma finalize_summary:
  assumes "conversation_ok c" "summary c = s" "\<And>n. uuid n \<noteq> []"
  obtains f where "finalize uuid s a = (Some f, a\<lparr>fa_issued := fa_issued a + 1\<rparr>)" "emits f c"
proof -
  obtain f where "to_flow (uuid (fa_issued a)) (summary c) = Some f" "emits f c"
    by (rule to_flow_summary [OF assms(1,3)])
  then show ?thesis using assms(2) by (intro that) (simp_all add: finalize_def)
qed

lemma represents_issued [simp]: "represents C (a\<lparr>fa_issued := n\<rparr>) \<longleftrightarrow> represents C a"
  by (simp add: represents_def)

text \<open>Taking a finished conversation out of the table.\<close>

lemma advances_close:
  assumes rep: "represents C a" and s: "map_of (ft_flows (fa_table a)) k = Some s" and uuid: "\<And>n. uuid n \<noteq> []"
  obtains f C' c where "finalize uuid s (a\<lparr>fa_table := snd (ft_pop k (fa_table a))\<rparr>)
      = (Some f, a\<lparr>fa_table := snd (ft_pop k (fa_table a)), fa_issued := fa_issued a + 1\<rparr>)"
    "advances C a {#} [f] C' [c] (a\<lparr>fa_table := snd (ft_pop k (fa_table a)), fa_issued := fa_issued a + 1\<rparr>)"
proof -
  from rep have "flows_represent C (ft_flows (fa_table a))" by (simp add: represents_def)
  then obtain c C' where c: "C = add_mset c C'" "cv_key c = k" "summary c = s" "conversation_ok c"
      "flows_represent C' (AList.delete k (ft_flows (fa_table a)))"
    using s by (rule flows_represent_lookup)
  let ?a = "a\<lparr>fa_table := snd (ft_pop k (fa_table a))\<rparr>"
  obtain f where f: "finalize uuid s ?a = (Some f, ?a\<lparr>fa_issued := fa_issued ?a + 1\<rparr>)" "emits f c"
    by (rule finalize_summary [OF c(4,3) uuid])
  have "represents C' ?a" using rep c(5) length_od_delete_le [of k "ft_flows (fa_table a)"]
    by (auto simp: represents_def ft_pop_def)
  then show ?thesis using f c(1)
    by (intro that [of f C' c]) (simp_all add: advances_def same_settings_def ft_pop_def represents_def)
qed

lemma advances_close_if_due:
  assumes rep: "represents C a" and s: "map_of (ft_flows (fa_table a)) k = Some s" and uuid: "\<And>n. uuid n \<noteq> []"
  obtains em C' D a' where "close_if_due uuid k s now emitted a = (Some (emitted @ em), a')"
    "advances C a {#} em C' D a'"
proof (cases "check_closure s now (fa_active_timeout_seconds a) (fa_inactive_timeout_seconds a)")
  case None
  then show ?thesis using that [of "[]" a C "[]"] advances_refl [OF rep] by (simp add: close_if_due_def)
next
  case (Some r)
  obtain f C' c where f: "finalize uuid s (a\<lparr>fa_table := snd (ft_pop k (fa_table a))\<rparr>)
      = (Some f, a\<lparr>fa_table := snd (ft_pop k (fa_table a)), fa_issued := fa_issued a + 1\<rparr>)"
    and adv: "advances C a {#} [f] C' [c] (a\<lparr>fa_table := snd (ft_pop k (fa_table a)), fa_issued := fa_issued a + 1\<rparr>)"
    using rep s uuid by (rule advances_close)
  have "close_if_due uuid k s now emitted a
      = (Some (emitted @ [f]), a\<lparr>fa_table := snd (ft_pop k (fa_table a)), fa_issued := fa_issued a + 1\<rparr>)"
    unfolding close_if_due_def Some option.case f prod.case ..
  then show ?thesis using adv by (rule that)
qed

text \<open>Opening a conversation, evicting the least recently used one from a full table.\<close>

lemma advances_open_flow:
  assumes rep: "represents C a" and new: "map_of (ft_flows (fa_table a)) (cv_key c) = None"
    and c: "conversation_ok c" and uuid: "\<And>n. uuid n \<noteq> []"
  obtains em C' D a' where "open_flow uuid (cv_key c) (summary c) now a = (Some em, a')"
    "advances C a (mset (cv_packets c)) em C' D a'"
proof (cases "length (ft_flows (fa_table a)) \<ge> ft_max_flows (fa_table a)")
  case True
  then obtain k s d where d: "ft_flows (fa_table a) = (k, s) # d"
    using rep by (cases "ft_flows (fa_table a)") (auto simp: represents_def)
  let ?a = "a\<lparr>fa_table := (fa_table a)\<lparr>ft_flows := AList.update (cv_key c) (summary c) d\<rparr>\<rparr>"
  let ?a' = "?a\<lparr>fa_issued := fa_issued ?a + 1\<rparr>"
  from rep have "flows_represent C ((k, s) # d)" by (simp add: represents_def d)
  then obtain e C1 where e: "C = add_mset e C1" "summary e = s" "conversation_ok e" "flows_represent C1 d"
    by (rule flows_represent_tl)
  have "flows_represent (add_mset c C1) (AList.update (cv_key c) (summary c) d)"
    using e new c d by (intro flows_represent_add) (auto split: if_splits)
  moreover have "cv_key c \<notin> fst ` set d" using new d by (auto simp: map_of_None_iff_key split: if_splits)
  ultimately have "represents (add_mset c C1) ?a'"
    using rep d True by (simp add: represents_def length_od_update)
  moreover obtain f where f: "finalize uuid s ?a = (Some f, ?a')" "emits f e"
    by (rule finalize_summary [OF e(3,2) uuid])
  ultimately have adv: "advances C a (mset (cv_packets c)) [f] (add_mset c C1) [e] ?a'"
    using e(1) by (simp add: advances_def same_settings_def union_ac)
  have "map_of (ft_flows (fa_table ?a')) (cv_key c) = Some (summary c)" by simp
  with \<open>represents (add_mset c C1) ?a'\<close> obtain em C' D a' where
    close: "close_if_due uuid (cv_key c) (summary c) now [f] ?a' = (Some ([f] @ em), a')"
    and adv': "advances (add_mset c C1) ?a' {#} em C' D a'"
    using uuid by (rule advances_close_if_due)
  have "ft_insert (cv_key c) (summary c) (fa_table a) = (Some s, fa_table ?a)"
    using True d by (simp add: ft_insert_def)
  then have "open_flow uuid (cv_key c) (summary c) now a = (Some ([f] @ em), a')"
    using f(1) close by (simp add: open_flow_def)
  then show ?thesis using advances_trans [OF adv adv'] by (intro that) simp_all
next
  case False
  let ?a = "a\<lparr>fa_table := (fa_table a)\<lparr>ft_flows := AList.update (cv_key c) (summary c) (ft_flows (fa_table a))\<rparr>\<rparr>"
  have "flows_represent (add_mset c C) (AList.update (cv_key c) (summary c) (ft_flows (fa_table a)))"
    using rep new c by (intro flows_represent_add) (simp_all add: represents_def)
  then have r: "represents (add_mset c C) ?a"
    using rep new False by (simp add: represents_def length_od_update)
  then have adv: "advances C a (mset (cv_packets c)) [] (add_mset c C) [] ?a"
    by (simp add: advances_def same_settings_def union_ac)
  have "map_of (ft_flows (fa_table ?a)) (cv_key c) = Some (summary c)" by simp
  with r obtain em C' D a' where
    close: "close_if_due uuid (cv_key c) (summary c) now [] ?a = (Some ([] @ em), a')"
    and adv': "advances (add_mset c C) ?a {#} em C' D a'"
    using uuid by (rule advances_close_if_due)
  have "open_flow uuid (cv_key c) (summary c) now a = (Some ([] @ em), a')"
    using False close by (simp add: open_flow_def ft_insert_def)
  then show ?thesis using advances_trans [OF adv adv'] by (intro that) simp_all
qed

lemma ft_get_None: "map_of (ft_flows t) k = None \<Longrightarrow> ft_get k t = (None, t)"
  by (simp add: ft_get_def del: map_of_eq_None_iff)

lemma ft_get_Some:
  "map_of (ft_flows t) k = Some s \<Longrightarrow> ft_get k t = (Some s, t\<lparr>ft_flows := od_move_to_end k (ft_flows t)\<rparr>)"
  by (simp add: ft_get_def del: map_of_eq_Some_iff)

text \<open>Folding a packet into an open conversation.\<close>

lemma advances_extend:
  assumes rep: "represents C a" and s: "map_of (ft_flows (fa_table a)) k = Some s"
    and p: "packet_ok p" "packet_key p = Some k" and uuid: "\<And>n. uuid n \<noteq> []"
  defines "t \<equiv> (fa_table a)\<lparr>ft_flows := AList.update k (flow_observe p s) (od_move_to_end k (ft_flows (fa_table a)))\<rparr>"
  obtains em C' D a' where "close_if_due uuid k (flow_observe p s) now [] (a\<lparr>fa_table := t\<rparr>) = (Some em, a')"
    "advances C a {#p#} em C' D a'"
proof -
  let ?d = "od_move_to_end k (ft_flows (fa_table a))"
  have rep_d: "flows_represent C ?d" and s': "map_of ?d k = Some s"
    using rep s flows_represent_move by (auto simp: represents_def simp del: map_of_eq_Some_iff)
  obtain c C1 where c: "C = add_mset c C1" "cv_key c = k" "summary c = s" "conversation_ok c"
      "flows_represent C1 (AList.delete k ?d)"
    using rep_d s' by (rule flows_represent_lookup)
  let ?c = "c\<lparr>cv_later := cv_later c @ [p]\<rparr>"
  have sum: "summary ?c = flow_observe p s" using c(3) by (simp add: summary_def flow_of_snoc)
  have ok: "conversation_ok ?c" using c(2,4) p by (auto simp: conversation_ok_def)
  have "flows_represent (add_mset ?c C1) (AList.update (cv_key ?c) (summary ?c) ?d)"
    using c(2,5) s' rep_d ok by (intro flows_represent_replace [where s = s]) (simp_all add: flows_represent_def)
  then have fr: "flows_represent (add_mset ?c C1) (AList.update k (flow_observe p s) ?d)"
    using sum c(2) by simp
  have "k \<in> fst ` set ?d" using s' by (rule map_of_Some_key)
  then have "length (AList.update k (flow_observe p s) ?d) = length (ft_flows (fa_table a))"
    using rep by (simp add: length_od_update represents_def flows_represent_def)
  then have r: "represents (add_mset ?c C1) (a\<lparr>fa_table := t\<rparr>)"
    using fr rep by (simp add: represents_def t_def)
  then have adv: "advances C a {#p#} [] (add_mset ?c C1) [] (a\<lparr>fa_table := t\<rparr>)"
    using c(1) by (simp add: advances_def same_settings_def t_def)
  have "map_of (ft_flows (fa_table (a\<lparr>fa_table := t\<rparr>))) k = Some (flow_observe p s)" by (simp add: t_def)
  with r obtain em C' D a' where close: "close_if_due uuid k (flow_observe p s) now [] (a\<lparr>fa_table := t\<rparr>) = (Some ([] @ em), a')"
    and adv': "advances (add_mset ?c C1) (a\<lparr>fa_table := t\<rparr>) {#} em C' D a'"
    using uuid by (rule advances_close_if_due)
  show ?thesis using close advances_trans [OF adv adv'] by (intro that) simp_all
qed

lemma advances_process_packet:
  assumes rep: "represents C a" and p: "packet_ok p" and uuid: "\<And>n. uuid n \<noteq> []"
  obtains em sg C' D a' where "process_packet uuid p a = ((Some em, sg), a')"
    "advances C a (if accepted a p then {#p#} else {#}) em C' D a'"
proof (cases "accepted a p")
  case False
  then have "process_packet uuid p a = ((Some [], []), a)"
    by (auto simp: process_packet_def accepted_def split: ip_address.splits)
  then show ?thesis using False advances_refl [OF rep] by (intro that) simp_all
next
  case True
  then obtain s d where sd: "pm_source_ip p = V4 s" "pm_destination_ip p = V4 d"
      "is_routable_unicast s (fa_protected_network a)" "is_routable_unicast d (fa_protected_network a)"
    by (auto simp: accepted_def split: ip_address.splits)
  let ?k = "compute_flow_key s d (pm_source_port p) (pm_destination_port p) (pm_protocol p)"
  have key: "packet_key p = Some ?k" using sd by (simp add: packet_key_def)
  show ?thesis
  proof (cases "map_of (ft_flows (fa_table a)) ?k")
    case None
    let ?c = "\<lparr>cv_key = ?k, cv_source = s, cv_destination = d, cv_opening = p, cv_later = []\<rparr>"
    have sum: "summary ?c = flow_opening ?k s d p" by (simp add: summary_def flow_of_def)
    have "conversation_ok ?c" using p key sd by (simp add: conversation_ok_def)
    moreover have "map_of (ft_flows (fa_table a)) (cv_key ?c) = None" using None by simp
    ultimately obtain em C' D a' where open':
      "open_flow uuid (cv_key ?c) (summary ?c) (pm_timestamp p) a = (Some em, a')"
      and adv: "advances C a (mset (cv_packets ?c)) em C' D a'"
      using rep uuid by (metis advances_open_flow)
    have "process_packet uuid p a = ((Some em, new_flow_signals a s d p (flow_opening ?k s d p)), a')"
      using sd open' sum by (simp add: process_packet_def Let_def ft_get_None [OF None])
    then show ?thesis using adv True by (intro that) simp_all
  next
    case (Some fs)
    obtain em C' D a' where close: "close_if_due uuid ?k (flow_observe p fs) (pm_timestamp p) []
        (a\<lparr>fa_table := (fa_table a)\<lparr>ft_flows := AList.update ?k (flow_observe p fs)
           (od_move_to_end ?k (ft_flows (fa_table a)))\<rparr>\<rparr>) = (Some em, a')"
      and adv: "advances C a {#p#} em C' D a'"
      using rep Some p key uuid by (rule advances_extend)
    have "process_packet uuid p a = ((Some em, []), a')"
      using sd close by (simp add: process_packet_def Let_def ft_get_Some [OF Some])
    then show ?thesis using adv True by (intro that) simp_all
  qed
qed

lemma advances_sweep_loop:
  assumes "represents C a" "\<And>n. uuid n \<noteq> []" "distinct (map fst rest)"
    "\<And>k s. (k, s) \<in> set rest \<Longrightarrow> map_of (ft_flows (fa_table a)) k = Some s"
  shows "\<exists>em C' D a'. sweep_loop uuid now rest emitted a = (Some (emitted @ em), a') \<and> advances C a {#} em C' D a'"
  using assms
proof (induction rest arbitrary: emitted a C)
  case Nil
  then show ?case using advances_refl by fastforce
next
  case (Cons e rest)
  obtain k s where e: "e = (k, s)" by fastforce
  show ?case
  proof (cases "check_closure s now (fa_active_timeout_seconds a) (fa_inactive_timeout_seconds a)")
    case None
    moreover have "\<exists>em C' D a'. sweep_loop uuid now rest emitted a = (Some (emitted @ em), a') \<and> advances C a {#} em C' D a'"
      using Cons.prems by (intro Cons.IH) auto
    ultimately show ?thesis by (simp add: e)
  next
    case (Some r)
    let ?a = "a\<lparr>fa_table := snd (ft_pop k (fa_table a)), fa_issued := fa_issued a + 1\<rparr>"
    have s: "map_of (ft_flows (fa_table a)) k = Some s" using Cons.prems(4) e by simp
    obtain f C1 c where f: "finalize uuid s (a\<lparr>fa_table := snd (ft_pop k (fa_table a))\<rparr>) = (Some f, ?a)"
      and adv: "advances C a {#} [f] C1 [c] ?a"
      using Cons.prems(1) s Cons.prems(2) by (rule advances_close)
    have "map_of (ft_flows (fa_table ?a)) k' = Some s'" if "(k', s') \<in> set rest" for k' s'
    proof -
      have "k' \<noteq> k" using that Cons.prems(3) e by force
      then show ?thesis using Cons.prems(4) [of k' s'] that
        by (simp add: ft_pop_def del: map_of_eq_Some_iff)
    qed
    then obtain em C' D a' where rest: "sweep_loop uuid now rest (emitted @ [f]) ?a = (Some ((emitted @ [f]) @ em), a')"
        "advances C1 ?a {#} em C' D a'"
      using Cons.IH [of C1 ?a "emitted @ [f]"] Cons.prems(2,3) adv by (auto simp: advances_def)
    have "advances C a {#} ([f] @ em) C' ([c] @ D) a'" using advances_trans [OF adv rest(2)] by simp
    moreover have "sweep_loop uuid now (e # rest) emitted a = (Some (emitted @ ([f] @ em)), a')"
      using rest(1) f Some by (simp add: e)
    ultimately show ?thesis by blast
  qed
qed

lemma advances_sweep_timeouts:
  assumes "represents C a" "\<And>n. uuid n \<noteq> []"
  shows "\<exists>em C' D a'. sweep_timeouts uuid now a = (Some em, a') \<and> advances C a {#} em C' D a'"
  using advances_sweep_loop [OF assms, where rest = "ft_flows (fa_table a)" and emitted = "[]"] assms(1)
  by (auto simp: sweep_timeouts_def represents_def flows_represent_def)

lemma finalize_all_ok:
  assumes "\<And>n. uuid n \<noteq> []" "list_all2 (\<lambda>s c. summary c = s \<and> conversation_ok c) ss cs"
  shows "\<exists>em. finalize_all uuid ss a = (Some em, a\<lparr>fa_issued := fa_issued a + length ss\<rparr>) \<and> list_all2 emits em cs"
  using assms(2)
proof (induction ss cs arbitrary: a rule: list_all2_induct)
  case Nil
  then show ?case by simp
next
  case (Cons s ss c cs)
  obtain f where f: "finalize uuid s a = (Some f, a\<lparr>fa_issued := fa_issued a + 1\<rparr>)" "emits f c"
    using Cons.hyps assms(1) finalize_summary by metis
  obtain em where "finalize_all uuid ss (a\<lparr>fa_issued := fa_issued a + 1\<rparr>)
      = (Some em, a\<lparr>fa_issued := fa_issued a + 1 + length ss\<rparr>)" "list_all2 emits em cs"
    using Cons.IH [of "a\<lparr>fa_issued := fa_issued a + 1\<rparr>"] by auto
  then show ?case using f by simp
qed

lemma mset_map_split: "mset xs = image_mset f M \<Longrightarrow> \<exists>ys. xs = map f ys \<and> mset ys = M"
proof (induction xs arbitrary: M)
  case (Cons x xs)
  then obtain y N where "M = add_mset y N" "f y = x" "mset xs = image_mset f N"
    by (metis mset.simps(2) msed_map_invR)
  then show ?case using Cons.IH by (metis list.simps(9) mset.simps(2))
qed simp

lemma advances_flush:
  assumes "represents C a" "\<And>n. uuid n \<noteq> []"
  shows "\<exists>em D a'. flush uuid a = (Some em, a') \<and> advances C a {#} em {#} D a'"
proof -
  obtain cs where cs: "ft_flows (fa_table a) = map (\<lambda>c. (cv_key c, summary c)) cs" "mset cs = C"
    using mset_map_split [of "ft_flows (fa_table a)" "\<lambda>c. (cv_key c, summary c)" C] assms(1)
    unfolding represents_def flows_represent_def by blast
  have ok: "conversation_ok c" if "c \<in> set cs" for c
    using that assms(1) cs(2) by (auto simp: represents_def flows_represent_def)
  have "list_all2 (\<lambda>s c. summary c = s \<and> conversation_ok c) (map snd (ft_flows (fa_table a))) cs"
    unfolding cs(1) using ok by (simp add: list_all2_conv_all_nth)
  from finalize_all_ok [where uuid = uuid and a = a, OF assms(2) this]
  obtain em where em: "finalize_all uuid (map snd (ft_flows (fa_table a))) a
      = (Some em, a\<lparr>fa_issued := fa_issued a + length (ft_flows (fa_table a))\<rparr>)" "list_all2 emits em cs"
    unfolding length_map by blast
  have "advances C a {#} em {#} cs (a\<lparr>fa_issued := fa_issued a + length (ft_flows (fa_table a)),
      fa_table := ft_clear (fa_table a)\<rparr>)"
    using assms(1) em(2) cs(2)
    by (simp add: advances_def represents_def flows_represent_def same_settings_def ft_clear_def)
  then show ?thesis using em(1) by (auto simp: flush_def)
qed

lemma report_clusters_only_issues:
  "snd (report_clusters uuid n by_pair a) = a\<lparr>fa_issued := fa_issued (snd (report_clusters uuid n by_pair a))\<rparr>"
proof (induction uuid n by_pair a rule: report_clusters.induct)
  case (2 uuid n src dst ss rest a)
  show ?case
  proof (cases "length ss < n")
    case True
    then show ?thesis using 2 by simp
  next
    case False
    obtain o' a' where fin: "finalize uuid (earliest (hd ss) (tl ss)) a = (o', a')" by fastforce
    then have a': "a' = a\<lparr>fa_issued := fa_issued a'\<rparr>" by (auto simp: finalize_def)
    show ?thesis
    proof (cases o')
      case None
      then show ?thesis using False fin a' by simp
    next
      case (Some f)
      obtain r a'' where rest: "report_clusters uuid n rest a' = (r, a'')" by fastforce
      then have "a'' = a'\<lparr>fa_issued := fa_issued a''\<rparr>" using 2(2) [OF False fin [symmetric] Some] by simp
      then have "a'' = a\<lparr>fa_issued := fa_issued a''\<rparr>" by (subst (asm) a') simp
      then show ?thesis using False fin Some rest by (cases r) simp_all
    qed
  qed
qed simp

lemma snapshot_clusters_only_issues:
  assumes "snapshot_slow_connection_clusters uuid now d b n i a = (r, a')"
  shows "a' = a\<lparr>fa_issued := fa_issued a'\<rparr>"
  using assms report_clusters_only_issues [of uuid n _ a]
  by (auto simp: snapshot_slow_connection_clusters_def split: option.splits) (metis snd_conv)

lemma snapshot_open_flow_only_issues:
  assumes "snapshot_open_flow_from uuid src a = (r, a')"
  shows "a' = a\<lparr>fa_issued := fa_issued a'\<rparr>"
  using assms by (auto simp: snapshot_open_flow_from_def finalize_def split: option.splits)

subsection \<open>Runs of the aggregator\<close>

text \<open>
  \<open>agg_run uuid a\<^sub>0 ps fs a\<close>: from \<open>a\<^sub>0\<close>, some interleaving of packets, time-out sweeps, flushes and
  snapshots consumed the packets \<open>ps\<close>, emitted the flows \<open>fs\<close> and left \<open>a\<close>. The packets are ones the
  parser produces. No clock is assumed: timestamps and sweep times may run in any order.
\<close>

inductive agg_run :: "(nat \<Rightarrow> string) \<Rightarrow> flow_aggregator \<Rightarrow> packet_metadata list \<Rightarrow> flow list \<Rightarrow> flow_aggregator \<Rightarrow> bool"
  for uuid :: "nat \<Rightarrow> string" and a\<^sub>0 :: flow_aggregator where
  start: "agg_run uuid a\<^sub>0 [] [] a\<^sub>0"
| packet: "agg_run uuid a\<^sub>0 ps fs a \<Longrightarrow> packet_ok p \<Longrightarrow> process_packet uuid p a = ((Some em, sg), a') \<Longrightarrow>
    agg_run uuid a\<^sub>0 (ps @ [p]) (fs @ em) a'"
| sweep: "agg_run uuid a\<^sub>0 ps fs a \<Longrightarrow> sweep_timeouts uuid now a = (Some em, a') \<Longrightarrow> agg_run uuid a\<^sub>0 ps (fs @ em) a'"
| flush: "agg_run uuid a\<^sub>0 ps fs a \<Longrightarrow> flush uuid a = (Some em, a') \<Longrightarrow> agg_run uuid a\<^sub>0 ps (fs @ em) a'"
| clusters: "agg_run uuid a\<^sub>0 ps fs a \<Longrightarrow> snapshot_slow_connection_clusters uuid now d b n i a = (r, a') \<Longrightarrow>
    agg_run uuid a\<^sub>0 ps fs a'"
| snapshot: "agg_run uuid a\<^sub>0 ps fs a \<Longrightarrow> snapshot_open_flow_from uuid src a = (r', a') \<Longrightarrow> agg_run uuid a\<^sub>0 ps fs a'"

lemma represents_new: "flow_config_ok config \<Longrightarrow> represents {#} (new_flow_aggregator config sink net)"
  by (simp add: represents_def flows_represent_def new_flow_aggregator_def new_flow_table_def flow_config_ok_def)

lemma same_settings_accepted: "same_settings a a' \<Longrightarrow> accepted a' = accepted a"
  by (auto simp: same_settings_def accepted_def fun_eq_iff split: ip_address.splits)

lemma advances_issued:
  assumes "advances C a P em C' D a1" "a2 = a1\<lparr>fa_issued := n\<rparr>"
  shows "advances C a P em C' D a2"
  using assms by (simp add: advances_def same_settings_def)

lemma agg_run_advances:
  assumes "agg_run uuid a\<^sub>0 ps fs a" "\<And>n. uuid n \<noteq> []" "represents {#} a\<^sub>0"
  shows "\<exists>C D. advances {#} a\<^sub>0 (mset (filter (accepted a\<^sub>0) ps)) fs C D a"
  using assms
proof (induction rule: agg_run.induct)
  case start
  then show ?case using advances_refl by force
next
  case (packet ps fs a p em sg a')
  then obtain C D where adv: "advances {#} a\<^sub>0 (mset (filter (accepted a\<^sub>0) ps)) fs C D a" by blast
  then have rep: "represents C a" and acc: "accepted a = accepted a\<^sub>0"
    using same_settings_accepted by (auto simp: advances_def)
  obtain em' sg' C' D' a'' where "process_packet uuid p a = ((Some em', sg'), a'')"
    "advances C a (if accepted a p then {#p#} else {#}) em' C' D' a''"
    using rep packet.hyps(2) packet.prems(1) by (rule advances_process_packet)
  then have "advances C a (if accepted a\<^sub>0 p then {#p#} else {#}) em C' D' a'" using packet.hyps(3) acc by simp
  from advances_trans [OF adv this] show ?case by (auto split: if_splits)
next
  case (sweep ps fs a now em a')
  then obtain C D where adv: "advances {#} a\<^sub>0 (mset (filter (accepted a\<^sub>0) ps)) fs C D a" by blast
  then have "represents C a" by (simp add: advances_def)
  from advances_sweep_timeouts [where uuid = uuid and now = now, OF this sweep.prems(1)] sweep.hyps(2)
  obtain C' D' where "advances C a {#} em C' D' a'" by auto
  from advances_trans [OF adv this] show ?case by auto
next
  case (flush ps fs a em a')
  then obtain C D where adv: "advances {#} a\<^sub>0 (mset (filter (accepted a\<^sub>0) ps)) fs C D a" by blast
  then have "represents C a" by (simp add: advances_def)
  from advances_flush [where uuid = uuid, OF this flush.prems(1)] flush.hyps(2)
  obtain D' where "advances C a {#} em {#} D' a'" by auto
  from advances_trans [OF adv this] show ?case by auto
next
  case (clusters ps fs a now d b n i r a')
  from snapshot_clusters_only_issues [OF clusters.hyps(2)] clusters.IH [OF clusters.prems]
  show ?case using advances_issued by blast
next
  case (snapshot ps fs a src r' a')
  from snapshot_open_flow_only_issues [OF snapshot.hyps(2)] snapshot.IH [OF snapshot.prems]
  show ?case using advances_issued by blast
qed

lemma sum_image_mset_list: "(\<Sum>x\<in>#mset xs. f x) = (\<Sum>x\<leftarrow>xs. f x)"
  by (induction xs) simp_all

lemma summary_counts:
  "fs_packet_count (summary c) = size (mset (cv_packets c))"
  "fs_byte_count (summary c) = (\<Sum>q\<in>#mset (cv_packets c). pm_total_length q)"
  by (simp_all add: summary_def flow_of_counts sum_image_mset_list)

lemma emits_counts:
  assumes "emits f c"
  shows "fl_packet_count f = size (mset (cv_packets c))"
    "fl_byte_count f = (\<Sum>q\<in>#mset (cv_packets c). pm_total_length q)"
  using assms to_flow_fields(5,6) summary_counts unfolding emits_def by metis+

lemma emitted_counts:
  assumes "list_all2 emits fs D"
  shows "(\<Sum>f\<leftarrow>fs. fl_packet_count f) = size (packets_of (mset D))"
    "(\<Sum>f\<leftarrow>fs. fl_byte_count f) = (\<Sum>q\<in>#packets_of (mset D). pm_total_length q)"
  using assms by (induction fs D rule: list_all2_induct) (simp_all add: emits_counts del: size_mset)

lemma summaries_counts:
  "(\<Sum>c\<in>#C. fs_packet_count (summary c)) = size (packets_of C)"
  "(\<Sum>c\<in>#C. fs_byte_count (summary c)) = (\<Sum>q\<in>#packets_of C. pm_total_length q)"
  by (induction C) (simp_all add: summary_counts del: size_mset)

lemma open_counts:
  assumes "flows_represent C d"
  shows "(\<Sum>(k, s)\<leftarrow>d. g s) = (\<Sum>c\<in>#C. g (summary c) :: nat)"
proof -
  have "(\<Sum>(k, s)\<leftarrow>d. g s) = (\<Sum>e\<in>#mset d. g (snd e))"
    by (simp add: sum_image_mset_list case_prod_unfold)
  then show ?thesis using assms by (simp add: flows_represent_def image_mset.compositionality comp_def)
qed

definition open_flows :: "flow_aggregator \<Rightarrow> (flow_key, flow_state) odict" where
  "open_flows a = ft_flows (fa_table a)"

text \<open>
  C8: The aggregator is a bounded partition of traffic into conversations. However packets, sweeps,
  flushes and snapshots interleave, there are conversations \<open>D\<close> (closed) and \<open>C\<close> (open) such that the
  flows emitted are the finalised summaries of \<open>D\<close> in order, the table holds one accumulator per
  conversation of \<open>C\<close> and never more than \<open>max_flows\<close>, all packets of a conversation share one flow
  key, and every routable IPv4 packet received is in exactly one conversation: evictions and
  time-outs lose none and duplicate none.
\<close>

theorem aggregator_tracks_conversations:
  assumes "agg_run uuid (new_flow_aggregator config sink net) ps fs a" "\<forall>n. uuid n \<noteq> []" "flow_config_ok config"
  shows "\<exists>C D. list_all2 emits fs D \<and> mset (open_flows a) = image_mset (\<lambda>c. (cv_key c, summary c)) C
    \<and> length (open_flows a) \<le> fcf_max_flows config
    \<and> (\<forall>c \<in># C + mset D. \<forall>q \<in> set (cv_packets c). packet_key q = Some (cv_key c))
    \<and> packets_of (mset D) + packets_of C = mset (filter (accepted (new_flow_aggregator config sink net)) ps)"
proof -
  let ?a = "new_flow_aggregator config sink net"
  have u: "\<And>n. uuid n \<noteq> []" using assms(2) by simp
  obtain C D where adv: "advances {#} ?a (mset (filter (accepted ?a) ps)) fs C D a"
    using agg_run_advances [where uuid = uuid, OF assms(1) u represents_new [OF assms(3)]] by blast
  have "conversation_ok c" if "c \<in># C + mset D" for c
    using adv that
    by (auto simp: advances_def represents_def flows_represent_def emits_def list_all2_conv_all_nth in_set_conv_nth)
  moreover have "ft_max_flows (fa_table a) = fcf_max_flows config"
    using adv by (simp add: advances_def same_settings_def new_flow_aggregator_def new_flow_table_def)
  ultimately show ?thesis using adv
    by (intro exI [of _ C] exI [of _ D])
       (auto simp: advances_def represents_def flows_represent_def open_flows_def conversation_ok_def)
qed

text \<open>
  Packets and bytes are conserved. After any run, the packet counts of all flows emitted so far
  and of the flows still open add up to the number of routable IPv4 packets received, and the byte
  counts to their total length.
\<close>

theorem aggregator_conserves_traffic:
  assumes "agg_run uuid (new_flow_aggregator config sink net) ps fs a" "\<forall>n. uuid n \<noteq> []" "flow_config_ok config"
  shows "(\<Sum>f\<leftarrow>fs. fl_packet_count f) + (\<Sum>(k, s)\<leftarrow>open_flows a. fs_packet_count s)
      = length (filter (accepted (new_flow_aggregator config sink net)) ps)
    \<and> (\<Sum>f\<leftarrow>fs. fl_byte_count f) + (\<Sum>(k, s)\<leftarrow>open_flows a. fs_byte_count s)
      = (\<Sum>p\<leftarrow>filter (accepted (new_flow_aggregator config sink net)) ps. pm_total_length p)"
proof -
  let ?a = "new_flow_aggregator config sink net"
  have u: "\<And>n. uuid n \<noteq> []" using assms(2) by simp
  obtain C D where adv: "advances {#} ?a (mset (filter (accepted ?a) ps)) fs C D a"
    using agg_run_advances [where uuid = uuid, OF assms(1) u represents_new [OF assms(3)]] by blast
  then have fs: "list_all2 emits fs D" and rep: "flows_represent C (open_flows a)"
    and eq: "packets_of (mset D) + packets_of C = mset (filter (accepted ?a) ps)"
    by (simp_all add: advances_def represents_def open_flows_def)
  have "(\<Sum>f\<leftarrow>fs. fl_packet_count f) + (\<Sum>(k, s)\<leftarrow>open_flows a. fs_packet_count s) = size (packets_of (mset D) + packets_of C)"
    unfolding emitted_counts [OF fs] open_counts [OF rep] summaries_counts by simp
  moreover have "(\<Sum>f\<leftarrow>fs. fl_byte_count f) + (\<Sum>(k, s)\<leftarrow>open_flows a. fs_byte_count s)
      = (\<Sum>q\<in>#packets_of (mset D) + packets_of C. pm_total_length q)"
    unfolding emitted_counts [OF fs] open_counts [OF rep] summaries_counts by simp
  ultimately show ?thesis unfolding eq sum_image_mset_list size_mset by simp
qed

text \<open>
  The aggregator never fails. In every reachable state, processing any packet the parser can
  produce, sweeping at any time and flushing all return their flows: no accumulator can violate a
  check of \<open>Flow\<close>; and after a flush no flow is open.
\<close>

theorem aggregator_never_raises:
  assumes "agg_run uuid (new_flow_aggregator config sink net) ps fs a" "\<forall>n. uuid n \<noteq> []" "flow_config_ok config"
    "packet_ok p"
  shows "fst (fst (process_packet uuid p a)) \<noteq> None \<and> fst (sweep_timeouts uuid now a) \<noteq> None
    \<and> fst (flush uuid a) \<noteq> None \<and> open_flows (snd (flush uuid a)) = []"
proof -
  have u: "\<And>n. uuid n \<noteq> []" using assms(2) by simp
  obtain C D where "advances {#} (new_flow_aggregator config sink net)
      (mset (filter (accepted (new_flow_aggregator config sink net)) ps)) fs C D a"
    using agg_run_advances [where uuid = uuid, OF assms(1) u represents_new [OF assms(3)]] by blast
  then have rep: "represents C a" by (simp add: advances_def)
  obtain em sg C1 E a1 where 1: "process_packet uuid p a = ((Some em, sg), a1)"
    using rep assms(4) u by (rule advances_process_packet)
  obtain em2 C2 E2 a2 where 2: "sweep_timeouts uuid now a = (Some em2, a2)"
    using advances_sweep_timeouts [where uuid = uuid and now = now, OF rep u] by blast
  obtain em3 E3 a3 where 3: "flush uuid a = (Some em3, a3)" "advances C a {#} em3 {#} E3 a3"
    using advances_flush [where uuid = uuid, OF rep u] by blast
  then have "open_flows a3 = []" by (simp add: advances_def represents_def flows_represent_def open_flows_def)
  then show ?thesis using 1 2 3 by simp
qed

subsection \<open>What a sweep closes\<close>

definition due :: "flow_aggregator \<Rightarrow> datetime \<Rightarrow> flow_state \<Rightarrow> bool" where
  "due a now s \<longleftrightarrow> is_tcp_completed s
     \<or> fa_active_timeout_seconds a \<le> total_seconds (now - fs_first_seen s)
     \<or> fa_inactive_timeout_seconds a \<le> total_seconds (now - fs_last_seen s)"

lemma due_closure:
  "due a now s \<longleftrightarrow> check_closure s now (fa_active_timeout_seconds a) (fa_inactive_timeout_seconds a) \<noteq> None"
  by (simp add: check_closure_def due_def)

lemma sweep_loop_result:
  assumes "sweep_loop uuid now rest emitted a = (Some em, a')"
  shows "ft_flows (fa_table a') = filter (\<lambda>x. fst x \<notin> fst ` {e \<in> set rest. due a now (snd e)}) (ft_flows (fa_table a))
    \<and> (\<exists>em'. em = emitted @ em' \<and> list_all2 (\<lambda>f e. \<exists>flow_id. to_flow flow_id (snd e) = Some f) em' (filter (\<lambda>e. due a now (snd e)) rest))"
  using assms
proof (induction uuid now rest emitted a rule: sweep_loop.induct)
  case (1 uuid now emitted a)
  then show ?case by simp
next
  case (2 uuid now key s rest emitted a)
  show ?case
  proof (cases "check_closure s now (fa_active_timeout_seconds a) (fa_inactive_timeout_seconds a)")
    case None
    have keys: "{e \<in> set ((key, s) # rest). due a now (snd e)} = {e \<in> set rest. due a now (snd e)}"
      using None by (auto simp: due_closure)
    have "filter (\<lambda>e. due a now (snd e)) ((key, s) # rest) = filter (\<lambda>e. due a now (snd e)) rest"
      using None by (simp add: due_closure)
    moreover have "sweep_loop uuid now rest emitted a = (Some em, a')" using 2(3) None by simp
    ultimately show ?thesis using 2(1) [OF None] unfolding keys by simp
  next
    case (Some r)
    let ?a1 = "a\<lparr>fa_table := snd (ft_pop key (fa_table a))\<rparr>"
    obtain f where f: "to_flow (uuid (fa_issued a)) s = Some f"
      using 2(3) Some by (auto simp: finalize_def split: option.splits)
    let ?a2 = "?a1\<lparr>fa_issued := fa_issued ?a1 + 1\<rparr>"
    have fin: "finalize uuid s ?a1 = (Some f, ?a2)" using f by (simp add: finalize_def)
    have run: "sweep_loop uuid now rest (emitted @ [f]) ?a2 = (Some em, a')" using 2(3) Some fin by simp
    have due2: "due ?a2 now = due a now" by (simp add: fun_eq_iff due_def)
    from 2(2) [OF Some fin [symmetric] refl run] obtain em' where
      tab: "ft_flows (fa_table a') = filter (\<lambda>x. fst x \<notin> fst ` {e \<in> set rest. due a now (snd e)}) (ft_flows (fa_table ?a2))"
      and em': "em = (emitted @ [f]) @ em'"
        "list_all2 (\<lambda>f e. \<exists>flow_id. to_flow flow_id (snd e) = Some f) em' (filter (\<lambda>e. due a now (snd e)) rest)"
      unfolding due2 by blast
    have keys: "fst ` {e \<in> set ((key, s) # rest). due a now (snd e)} = insert key (fst ` {e \<in> set rest. due a now (snd e)})"
    proof -
      have "due a now s" using Some by (simp add: due_closure)
      then have "{e \<in> set ((key, s) # rest). due a now (snd e)} = insert (key, s) {e \<in> set rest. due a now (snd e)}"
        by auto
      then show ?thesis by simp
    qed
    have "ft_flows (fa_table a') = filter (\<lambda>x. fst x \<notin> fst ` {e \<in> set ((key, s) # rest). due a now (snd e)}) (ft_flows (fa_table a))"
      unfolding tab keys by (auto simp: ft_pop_def AList.delete_eq intro!: filter_cong)
    moreover have "list_all2 (\<lambda>f e. \<exists>flow_id. to_flow flow_id (snd e) = Some f) (f # em') (filter (\<lambda>e. due a now (snd e)) ((key, s) # rest))"
      using em'(2) f Some by (auto simp: due_closure)
    ultimately show ?thesis using em'(1) by (intro conjI exI [of _ "f # em'"]) simp_all
  qed
qed

text \<open>
  A sweep closes exactly what is due. In every reachable state it emits, in table order, one flow
  for each open flow that is TCP-complete, has lived for the active time-out or has been idle for the
  inactive time-out, and leaves precisely the others, untouched and in order.
\<close>

theorem sweep_timeouts_exact:
  assumes "agg_run uuid (new_flow_aggregator config sink net) ps fs a" "\<forall>n. uuid n \<noteq> []" "flow_config_ok config"
  shows "\<exists>em a'. sweep_timeouts uuid now a = (Some em, a')
    \<and> open_flows a' = filter (\<lambda>(k, s). \<not> due a now s) (open_flows a)
    \<and> list_all2 (\<lambda>f e. \<exists>flow_id. to_flow flow_id (snd e) = Some f) em (filter (\<lambda>e. due a now (snd e)) (open_flows a))"
proof -
  have u: "\<And>n. uuid n \<noteq> []" using assms(2) by simp
  obtain C D where "advances {#} (new_flow_aggregator config sink net)
      (mset (filter (accepted (new_flow_aggregator config sink net)) ps)) fs C D a"
    using agg_run_advances [where uuid = uuid, OF assms(1) u represents_new [OF assms(3)]] by blast
  then have rep: "represents C a" by (simp add: advances_def)
  then have d: "od_distinct (open_flows a)" by (simp add: represents_def flows_represent_def open_flows_def)
  obtain em a' where sw: "sweep_timeouts uuid now a = (Some em, a')"
    using advances_sweep_timeouts [where uuid = uuid and now = now, OF rep u] by blast
  from sweep_loop_result [OF sw [unfolded sweep_timeouts_def]]
  have tab: "open_flows a' = filter (\<lambda>x. fst x \<notin> fst ` {e \<in> set (open_flows a). due a now (snd e)}) (open_flows a)"
    and em: "list_all2 (\<lambda>f e. \<exists>flow_id. to_flow flow_id (snd e) = Some f) em (filter (\<lambda>e. due a now (snd e)) (open_flows a))"
    by (auto simp: open_flows_def)
  have "fst x \<notin> fst ` {e \<in> set (open_flows a). due a now (snd e)} \<longleftrightarrow> \<not> due a now (snd x)" if x: "x \<in> set (open_flows a)" for x
  proof -
    have "inj_on fst (set (open_flows a))" using d by (simp add: distinct_map)
    from inj_on_image_mem_iff [OF this x, of "{e \<in> set (open_flows a). due a now (snd e)}"]
    show ?thesis using x by simp
  qed
  then have "open_flows a' = filter (\<lambda>(k, s). \<not> due a now s) (open_flows a)"
    unfolding tab by (intro filter_cong refl) (simp add: case_prod_unfold del: image_iff)
  then show ?thesis using sw em by blast
qed

subsection \<open>A concrete run\<close>

definition example_flow_config :: flow_config where
  "example_flow_config = \<lparr>fcf_active_timeout_seconds = 120, fcf_inactive_timeout_seconds = 60, fcf_max_flows = 2,
     fcf_cleanup_interval_seconds = 30, fcf_connection_start_max_tracked = 10\<rparr>"

definition example_uuid :: "nat \<Rightarrow> string" where
  "example_uuid n = replicate (Suc n) CHR ''u''"

definition example_request :: packet_metadata where
  "example_request = example_packet 0 (V4 (ipv4 10 0 0 1)) (V4 (ipv4 10 0 0 2)) 5000 53"

definition example_aggregator :: flow_aggregator where
  "example_aggregator = snd (process_packet example_uuid example_request
     (new_flow_aggregator example_flow_config True None))"

lemma example_request_ok: "packet_ok example_request"
  by (simp add: packet_ok_def port_ok_def example_request_def example_packet_def)

lemma example_config_ok: "flow_config_ok example_flow_config" "\<forall>n. example_uuid n \<noteq> []"
  by (simp_all add: flow_config_ok_def example_flow_config_def example_uuid_def)

lemma example_routable: "is_routable_unicast (ipv4 10 0 0 1) None" "is_routable_unicast (ipv4 10 0 0 2) None"
  by (simp_all add: is_routable_unicast_def LIMITED_BROADCAST_def ip_eval mask_eq_exp_minus_1)

lemma example_processed:
  "fst (fst (process_packet example_uuid example_request (new_flow_aggregator example_flow_config True None))) = Some []"
  using example_routable
  by (simp add: process_packet_def open_flow_def close_if_due_def ft_get_def ft_insert_def
      new_flow_aggregator_def new_flow_table_def check_closure_def is_tcp_completed_def total_seconds_def
      example_flow_config_def example_request_def example_packet_def flow_opening_def new_flow_state_def Let_def)

lemma example_run:
  "agg_run example_uuid (new_flow_aggregator example_flow_config True None) [example_request] [] example_aggregator"
proof -
  obtain sg where "process_packet example_uuid example_request (new_flow_aggregator example_flow_config True None)
      = ((Some [], sg), example_aggregator)"
    using example_processed unfolding example_aggregator_def by (metis prod.collapse)
  from agg_run.packet [OF agg_run.start example_request_ok this] show ?thesis by simp
qed

lemma example_accepted: "accepted (new_flow_aggregator example_flow_config True None) example_request"
  using example_routable by (simp add: accepted_def new_flow_aggregator_def example_request_def example_packet_def)

lemmas example_run_ok = example_run example_config_ok(2) example_config_ok(1)

theorem aggregator_tracks_conversations_witness:
  "\<exists>C D. list_all2 emits [] D \<and> mset (open_flows example_aggregator) = image_mset (\<lambda>c. (cv_key c, summary c)) C
    \<and> length (open_flows example_aggregator) \<le> 2 \<and> packets_of (mset D) + packets_of C = {#example_request#}"
  using aggregator_tracks_conversations [OF example_run_ok] example_accepted
  by (auto simp: example_flow_config_def)

theorem aggregator_conserves_traffic_witness:
  "(\<Sum>(k, s)\<leftarrow>open_flows example_aggregator. fs_packet_count s) = 1
   \<and> (\<Sum>(k, s)\<leftarrow>open_flows example_aggregator. fs_byte_count s) = 60"
  using aggregator_conserves_traffic [OF example_run_ok] example_accepted
  by (simp add: example_request_def example_packet_def)

theorem aggregator_never_raises_witness:
  "fst (fst (process_packet example_uuid example_request example_aggregator)) \<noteq> None
   \<and> fst (sweep_timeouts example_uuid 1000 example_aggregator) \<noteq> None
   \<and> open_flows (snd (flush example_uuid example_aggregator)) = []"
  using aggregator_never_raises [OF example_run_ok example_request_ok, of 1000] by simp

theorem sweep_timeouts_exact_witness:
  "\<exists>em a'. sweep_timeouts example_uuid (seconds 60) example_aggregator = (Some em, a')
     \<and> open_flows a' = filter (\<lambda>(k, s). \<not> due example_aggregator (seconds 60) s) (open_flows example_aggregator)"
  using sweep_timeouts_exact [OF example_run_ok, of "seconds 60"] by blast

subsection \<open>Which slow-connection clusters are reported\<close>

definition entry_list :: "'v list option \<Rightarrow> 'v list" where
  "entry_list e = (case e of None \<Rightarrow> [] | Some vs \<Rightarrow> vs)"

abbreviation address_pair :: "flow_state \<Rightarrow> address_pair" where
  "address_pair s \<equiv> (fs_forward_source_ip s, fs_forward_destination_ip s)"

lemma setdefault_append_lookup:
  "entry_list (map_of (setdefault_append k v d) k') = entry_list (map_of d k') @ (if k' = k then [v] else [])"
  by (auto simp: setdefault_append_def entry_list_def split: option.splits)

lemma setdefault_append_inv:
  "od_distinct d \<and> od_all (\<lambda>vs. vs \<noteq> []) d \<Longrightarrow>
   od_distinct (setdefault_append k v d) \<and> od_all (\<lambda>vs. vs \<noteq> []) (setdefault_append k v d)"
  by (auto simp: setdefault_append_def)

lemma slow_by_pair_result:
  assumes "\<forall>s \<in> set states. cand s \<noteq> None" "od_distinct acc \<and> od_all (\<lambda>vs. vs \<noteq> []) acc"
  shows "\<exists>r. slow_by_pair cand states acc = Some r \<and> od_distinct r \<and> od_all (\<lambda>vs. vs \<noteq> []) r
    \<and> (\<forall>pr. entry_list (map_of r pr)
          = entry_list (map_of acc pr) @ filter (\<lambda>s. cand s = Some True \<and> address_pair s = pr) states)"
  using assms
proof (induction states arbitrary: acc)
  case (Cons s states)
  obtain b where b: "cand s = Some b" using Cons.prems(1) by auto
  show ?case
  proof (cases b)
    case True
    have "\<forall>s \<in> set states. cand s \<noteq> None" using Cons.prems(1) by simp
    from Cons.IH [OF this setdefault_append_inv [OF Cons.prems(2), of "address_pair s" s]]
    obtain r where "slow_by_pair cand states (setdefault_append (address_pair s) s acc) = Some r"
      "od_distinct r \<and> od_all (\<lambda>vs. vs \<noteq> []) r"
      "\<forall>pr. entry_list (map_of r pr) = entry_list (map_of (setdefault_append (address_pair s) s acc) pr)
         @ filter (\<lambda>s. cand s = Some True \<and> address_pair s = pr) states"
      by blast
    then show ?thesis using b True by (intro exI [of _ r]) (auto simp: setdefault_append_lookup)
  next
    case False
    then show ?thesis using Cons b by simp
  qed
qed simp

lemma earliest_in: "earliest s ss \<in> set (s # ss)"
proof (induction ss arbitrary: s)
  case (Cons x ss)
  then show ?case using Cons [of x] Cons [of s] by auto
qed simp

lemma earliest_first: "t \<in> set (s # ss) \<Longrightarrow> fs_first_seen (earliest s ss) \<le> fs_first_seen t"
proof (induction ss arbitrary: s t)
  case (Cons x ss)
  have le: "fs_first_seen (earliest s' ss) \<le> fs_first_seen s'" for s' using Cons.IH [of s' s'] by simp
  show ?case
  proof (cases "t \<in> set ss")
    case True
    then show ?thesis using Cons.IH [of t] by simp
  next
    case False
    then show ?thesis using Cons.prems le [of x] le [of s] by auto
  qed
qed simp

abbreviation cluster_pair :: "slow_connection_cluster \<Rightarrow> address_pair" where
  "cluster_pair c \<equiv> (sc_source_ip c, sc_destination_ip c)"

lemma report_clusters_result:
  assumes "\<And>n. uuid n \<noteq> []" "od_all (\<lambda>ss. ss \<noteq> [] \<and> (\<forall>s \<in> set ss. \<exists>c. summary c = s \<and> conversation_ok c)) by_pair"
  shows "\<exists>cl a'. report_clusters uuid n by_pair a = (Some cl, a')
    \<and> map (\<lambda>c. (cluster_pair c, sc_concurrent_count c)) cl
        = map (\<lambda>(pr, ss). (pr, length ss)) (filter (\<lambda>(pr, ss). \<not> length ss < n) by_pair)"
  using assms(2)
proof (induction by_pair arbitrary: a)
  case (Cons e rest)
  obtain src dst ss where e: "e = ((src, dst), ss)" by (metis prod.collapse)
  note ss = Cons.prems [unfolded e od_all_Cons]
  show ?case
  proof (cases "length ss < n")
    case True
    then show ?thesis using Cons.IH [of a] ss by (simp add: e)
  next
    case False
    have "earliest (hd ss) (tl ss) \<in> set ss" using earliest_in [of "hd ss" "tl ss"] ss by simp
    then obtain c where c: "conversation_ok c" "summary c = earliest (hd ss) (tl ss)" using ss by blast
    obtain f where f: "finalize uuid (earliest (hd ss) (tl ss)) a = (Some f, a\<lparr>fa_issued := fa_issued a + 1\<rparr>)"
      using c assms(1) by (rule finalize_summary)
    obtain cl a' where "report_clusters uuid n rest (a\<lparr>fa_issued := fa_issued a + 1\<rparr>) = (Some cl, a')"
      "map (\<lambda>c. (cluster_pair c, sc_concurrent_count c)) cl
        = map (\<lambda>(pr, ss). (pr, length ss)) (filter (\<lambda>(pr, ss). \<not> length ss < n) rest)"
      using Cons.IH ss by blast
    then show ?thesis using f False by (simp add: e)
  qed
qed simp

text \<open>The shape of a held-open connection that still trickles.\<close>

definition trickling :: "datetime \<Rightarrow> real \<Rightarrow> real \<Rightarrow> real \<Rightarrow> flow_state \<Rightarrow> bool" where
  "trickling now min_duration_seconds max_bytes_per_second max_idle_seconds s \<longleftrightarrow>
     fs_protocol s = P_TCP \<and> 1 \<le> fs_backward_packet_count s
     \<and> \<not> fs_saw_fin_forward s \<and> \<not> fs_saw_fin_backward s \<and> \<not> fs_saw_rst s
     \<and> min_duration_seconds \<le> total_seconds (now - fs_first_seen s)
     \<and> total_seconds (now - fs_last_seen s) \<le> max_idle_seconds
     \<and> real (fs_byte_count s) \<le> max_bytes_per_second * total_seconds (now - fs_first_seen s)"

lemma slow_candidate_trickling:
  assumes "0 < d"
  shows "is_slow_connection_candidate s now d b i = Some (trickling now d b i s)"
  using assms by (auto simp: is_slow_connection_candidate_def trickling_def Let_def pos_divide_le_eq)

lemma report_pairs_iff:
  assumes "od_distinct bp" "od_all (\<lambda>vs. vs \<noteq> []) bp"
    "map (\<lambda>c. (cluster_pair c, sc_concurrent_count c)) cl = map (\<lambda>(pr, ss). (pr, length ss)) (filter (\<lambda>(pr, ss). \<not> length ss < t) bp)"
  shows "distinct (map cluster_pair cl)"
    "(\<exists>c \<in> set cl. cluster_pair c = pr \<and> sc_concurrent_count c = n) \<longleftrightarrow> n = length (entry_list (map_of bp pr)) \<and> t \<le> n \<and> 0 < n"
proof -
  have "map cluster_pair cl = map fst (map (\<lambda>c. (cluster_pair c, sc_concurrent_count c)) cl)" by simp
  also have "\<dots> = map fst (filter (\<lambda>(pr, ss). \<not> length ss < t) bp)" unfolding assms(3) by (simp add: case_prod_unfold)
  finally show "distinct (map cluster_pair cl)" using assms(1) by (simp add: distinct_map_filter)
  have "(\<exists>c \<in> set cl. cluster_pair c = pr \<and> sc_concurrent_count c = n)
      \<longleftrightarrow> (pr, n) \<in> set (map (\<lambda>c. (cluster_pair c, sc_concurrent_count c)) cl)" by auto
  also have "\<dots> \<longleftrightarrow> (\<exists>ss. (pr, ss) \<in> set bp \<and> n = length ss \<and> t \<le> n)" unfolding assms(3) by (auto simp: not_less)
  also have "\<dots> \<longleftrightarrow> (\<exists>ss. map_of bp pr = Some ss \<and> n = length ss \<and> t \<le> n)"
    using assms(1) by (metis map_of_SomeD map_of_is_SomeI)
  also have "\<dots> \<longleftrightarrow> n = length (entry_list (map_of bp pr)) \<and> t \<le> n \<and> 0 < n"
    using od_all_lookup [OF assms(2), of pr] by (auto simp: entry_list_def split: option.splits)
  finally show "(\<exists>c \<in> set cl. cluster_pair c = pr \<and> sc_concurrent_count c = n)
      \<longleftrightarrow> n = length (entry_list (map_of bp pr)) \<and> t \<le> n \<and> 0 < n" .
qed

lemma represents_states:
  assumes "represents C a" "s \<in> set (map snd (open_flows a))"
  shows "\<exists>c. summary c = s \<and> conversation_ok c"
proof -
  have "mset (open_flows a) = image_mset (\<lambda>c. (cv_key c, summary c)) C" and ok: "\<forall>c \<in># C. conversation_ok c"
    using assms(1) by (simp_all add: represents_def flows_represent_def open_flows_def)
  then have "set (open_flows a) = (\<lambda>c. (cv_key c, summary c)) ` set_mset C"
    by (metis set_mset_mset set_image_mset)
  then show ?thesis using assms(2) ok by auto
qed

lemma od_all_filtered:
  assumes "od_distinct d" "od_all (\<lambda>vs. vs \<noteq> []) d" "\<And>k. entry_list (map_of d k) = filter (P k) xs"
  shows "od_all (\<lambda>vs. vs \<noteq> [] \<and> (\<forall>v \<in> set vs. v \<in> set xs)) d"
proof -
  have "set vs \<subseteq> set xs" if "(k, vs) \<in> set d" for k vs
  proof -
    have "map_of d k = Some vs" using that assms(1) by (rule map_of_is_SomeI [rotated])
    then have "vs = filter (P k) xs" using assms(3) [of k] by (simp add: entry_list_def)
    then show ?thesis by auto
  qed
  then show ?thesis using assms(2) by (fastforce simp: od_all_def)
qed

text \<open>
  The slow-connection report is exact and read-only. In every reachable state a (source,
  destination) pair is reported if and only if at least \<open>concurrent_threshold\<close> (and at least one) of
  the open flows from that source to that destination are established TCP connections, not being torn
  down, open for at least the minimum duration, active within \<open>max_idle_seconds\<close> and averaging at most
  \<open>max_bytes_per_second\<close>; each pair is reported once, with exactly the number of such flows; and the
  flow table is left as it was.
\<close>

theorem slow_clusters_exact:
  assumes "agg_run uuid (new_flow_aggregator config sink net) ps fs a" "\<forall>n. uuid n \<noteq> []" "flow_config_ok config"
    "0 < min_duration_seconds"
  shows "\<exists>cl a'. snapshot_slow_connection_clusters uuid now min_duration_seconds max_bytes_per_second
        concurrent_threshold max_idle_seconds a = (Some cl, a')
    \<and> open_flows a' = open_flows a \<and> distinct (map cluster_pair cl)
    \<and> (\<forall>pr n. (\<exists>c \<in> set cl. cluster_pair c = pr \<and> sc_concurrent_count c = n) \<longleftrightarrow>
          n = length (filter (\<lambda>s. trickling now min_duration_seconds max_bytes_per_second max_idle_seconds s
                                   \<and> address_pair s = pr) (map snd (open_flows a)))
          \<and> concurrent_threshold \<le> n \<and> 0 < n)"
proof -
  let ?slow = "trickling now min_duration_seconds max_bytes_per_second max_idle_seconds"
  let ?cand = "\<lambda>s. is_slow_connection_candidate s now min_duration_seconds max_bytes_per_second max_idle_seconds"
  have u: "\<And>n. uuid n \<noteq> []" using assms(2) by simp
  obtain C D where "advances {#} (new_flow_aggregator config sink net)
      (mset (filter (accepted (new_flow_aggregator config sink net)) ps)) fs C D a"
    using agg_run_advances [where uuid = uuid, OF assms(1) u represents_new [OF assms(3)]] by blast
  then have rep: "represents C a" by (simp add: advances_def)
  have cand: "?cand s = Some (?slow s)" for s using assms(4) by (rule slow_candidate_trickling)
  obtain bp where bp: "slow_by_pair ?cand (map snd (open_flows a)) [] = Some bp" "od_distinct bp"
      "od_all (\<lambda>vs. vs \<noteq> []) bp"
    and look: "\<And>pr. entry_list (map_of bp pr) = filter (\<lambda>s. ?slow s \<and> address_pair s = pr) (map snd (open_flows a))"
    using slow_by_pair_result [of "map snd (open_flows a)" ?cand "[]"] unfolding cand by (auto simp: entry_list_def)
  have "od_all (\<lambda>ss. ss \<noteq> [] \<and> (\<forall>s \<in> set ss. \<exists>c. summary c = s \<and> conversation_ok c)) bp"
    using od_all_filtered [OF bp(2,3) look] represents_states [OF rep] by (fastforce simp: od_all_def)
  from report_clusters_result [where uuid = uuid and a = a and n = concurrent_threshold, OF u this] obtain cl a' where
    cl: "report_clusters uuid concurrent_threshold bp a = (Some cl, a')"
      "map (\<lambda>c. (cluster_pair c, sc_concurrent_count c)) cl
        = map (\<lambda>(pr, ss). (pr, length ss)) (filter (\<lambda>(pr, ss). \<not> length ss < concurrent_threshold) bp)"
    by blast
  have "snapshot_slow_connection_clusters uuid now min_duration_seconds max_bytes_per_second
        concurrent_threshold max_idle_seconds a = (Some cl, a')"
    using bp(1) cl(1) by (simp add: snapshot_slow_connection_clusters_def open_flows_def)
  moreover have "open_flows a' = open_flows a"
  proof -
    obtain n where "a' = a\<lparr>fa_issued := n\<rparr>" using snapshot_clusters_only_issues [OF calculation] by blast
    then show ?thesis by (simp add: open_flows_def)
  qed
  ultimately show ?thesis
    using report_pairs_iff [OF bp(2,3) cl(2)] unfolding look by blast
qed

theorem slow_clusters_exact_witness:
  "\<exists>cl a'. snapshot_slow_connection_clusters example_uuid (seconds 90) 60 100 3 10 example_aggregator = (Some cl, a')
     \<and> open_flows a' = open_flows example_aggregator \<and> distinct (map cluster_pair cl)"
proof -
  have "0 < (60 :: real)" by simp
  from slow_clusters_exact [OF example_run_ok this, of "seconds 90" 100 3 10] show ?thesis by blast
qed

end
