(* ===== verification/Connection_Start.thy ===== *)
theory Connection_Start
  imports Flow_Models Lru
begin

section \<open>Connection starts\<close>

text \<open>
  \<open>flow/connection_start.py\<close>: the bounded memory of five-tuples that decides which flow record
  starts a connection. It is one more least-recently-used memory, so the retention facts of the locale
  \<open>lru_memory\<close> apply to it.
\<close>

type_synonym five_tuple = "ipv4_address \<times> ipv4_address \<times> int option \<times> int option"

record connection_start_tracker =
  cs_max_tracked :: nat
  cs_seen :: "(five_tuple, unit) odict"
  cs_evictions :: nat

text \<open>The constructor raises \<open>ValueError\<close> for a bound that is not positive.\<close>

definition new_connection_start_tracker :: "int \<Rightarrow> connection_start_tracker option" where
  "new_connection_start_tracker max_tracked =
     (if max_tracked \<le> 0 then None
      else Some \<lparr>cs_max_tracked = nat max_tracked, cs_seen = [], cs_evictions = 0\<rparr>)"

definition flow_tuple :: "flow \<Rightarrow> five_tuple" where
  "flow_tuple f = (fl_source_ip f, fl_destination_ip f, fl_source_port f, fl_destination_port f)"

text \<open>\<open>observe\<close>: how it updates the memory for a five-tuple, and its result.\<close>

definition cs_touch :: "five_tuple \<Rightarrow> connection_start_tracker \<Rightarrow> connection_start_tracker" where
  "cs_touch key t =
     (if key \<notin> fst ` set (cs_seen t)
      then let seen = AList.update key () (cs_seen t)
           in if length seen > cs_max_tracked t
              then t\<lparr>cs_seen := tl seen, cs_evictions := cs_evictions t + 1\<rparr>
              else t\<lparr>cs_seen := seen\<rparr>
      else t\<lparr>cs_seen := od_move_to_end key (cs_seen t)\<rparr>)"

definition cs_observe :: "flow \<Rightarrow> connection_start_tracker \<Rightarrow> bool \<times> connection_start_tracker" where
  "cs_observe f t =
     (if fl_protocol f \<noteq> P_TCP then (False, t)
      else let key = flow_tuple f; first = key \<notin> fst ` set (cs_seen t)
           in (first \<and> fl_opened_by_initiation f, cs_touch key t))"

definition cs_run :: "flow list \<Rightarrow> connection_start_tracker \<Rightarrow> connection_start_tracker" where
  "cs_run fs t = fold (\<lambda>f t. snd (cs_observe f t)) fs t"

subsection \<open>The tracker is a least-recently-used memory\<close>

definition cs_inv :: "connection_start_tracker \<Rightarrow> bool" where
  "cs_inv t \<longleftrightarrow> od_distinct (cs_seen t) \<and> length (cs_seen t) \<le> cs_max_tracked t \<and> 0 < cs_max_tracked t"

lemma cs_observe_touch: "fl_protocol f = P_TCP \<Longrightarrow> snd (cs_observe f t) = cs_touch (flow_tuple f) t"
  by (simp add: cs_observe_def Let_def)

lemma cs_observe_other: "fl_protocol f \<noteq> P_TCP \<Longrightarrow> cs_observe f t = (False, t)"
  by (simp add: cs_observe_def)

lemma od_keys_move: "k \<in> fst ` set d \<Longrightarrow> map fst (od_move_to_end k d) = removeAll k (map fst d) @ [k]"
proof -
  assume "k \<in> fst ` set d"
  then obtain v where "map_of d k = Some v" by (metis map_of_None_iff_key option.exhaust)
  then show ?thesis by (simp add: od_move_to_end_def delete_keys del: map_of_eq_Some_iff)
qed

lemma od_keys_append: "k \<notin> fst ` set d \<Longrightarrow> map fst (AList.update k v d) = map fst d @ [k]"
  by (induction d) auto

lemma cs_touch_seen:
  assumes "cs_inv t"
  shows "map fst (cs_seen (cs_touch k t)) = lru_keys (cs_max_tracked t) k (map fst (cs_seen t))"
    and "cs_max_tracked (cs_touch k t) = cs_max_tracked t"
proof -
  let ?ks = "map fst (cs_seen t)"
  have len: "length ?ks \<le> cs_max_tracked t" and pos: "0 < cs_max_tracked t"
    using assms by (simp_all add: cs_inv_def)
  show "map fst (cs_seen (cs_touch k t)) = lru_keys (cs_max_tracked t) k ?ks"
  proof (cases "k \<in> fst ` set (cs_seen t)")
    case True
    then show ?thesis using lru_keys_present [of k ?ks "cs_max_tracked t"] len
      by (simp add: cs_touch_def Let_def od_keys_move)
  next
    case False
    then show ?thesis using lru_keys_absent [of k ?ks "cs_max_tracked t"] len pos
      by (auto simp: cs_touch_def Let_def od_keys_append
          length_od_update map_tl tl_append split: list.splits)
  qed
  show "cs_max_tracked (cs_touch k t) = cs_max_tracked t"
    by (simp add: cs_touch_def Let_def)
qed

lemma cs_inv_touch: "cs_inv t \<Longrightarrow> cs_inv (cs_touch k t)"
proof -
  assume t: "cs_inv t"
  have "distinct (map fst (cs_seen (cs_touch k t)))"
    unfolding cs_touch_seen(1) [OF t] using t by (simp add: distinct_lru_keys cs_inv_def)
  moreover have "length (map fst (cs_seen (cs_touch k t))) \<le> cs_max_tracked t"
    unfolding cs_touch_seen(1) [OF t] by (rule length_lru_keys)
  ultimately show ?thesis using t by (simp add: cs_inv_def cs_touch_seen(2))
qed

interpretation starts: lru_memory cs_inv "\<lambda>t. map fst (cs_seen t)" cs_max_tracked cs_touch
  by unfold_locales (simp_all add: cs_inv_touch cs_touch_seen, simp_all add: cs_inv_def)

definition tcp_tuples :: "flow list \<Rightarrow> five_tuple list" where
  "tcp_tuples fs = map flow_tuple (filter (\<lambda>f. fl_protocol f = P_TCP) fs)"

lemma cs_run_touches: "cs_run fs t = fold cs_touch (tcp_tuples fs) t"
  by (induction fs arbitrary: t) (simp_all add: cs_run_def tcp_tuples_def cs_observe_touch cs_observe_other)

lemma cs_inv_new: "new_connection_start_tracker m = Some t \<Longrightarrow> cs_inv t \<and> cs_seen t = [] \<and> int (cs_max_tracked t) = m"
  by (auto simp: new_connection_start_tracker_def cs_inv_def split: if_splits)

lemma cs_seen_subset: "cs_inv t \<Longrightarrow> set (map fst (cs_seen (fold cs_touch ks t))) \<subseteq> set (map fst (cs_seen t)) \<union> set ks"
proof (induction ks arbitrary: t)
  case (Cons k ks)
  have "set (map fst (cs_seen (cs_touch k t))) \<subseteq> insert k (set (map fst (cs_seen t)))"
    unfolding cs_touch_seen(1) [OF Cons.prems] by (rule set_lru_keys)
  moreover have "set (map fst (cs_seen (fold cs_touch ks (cs_touch k t)))) \<subseteq> set (map fst (cs_seen (cs_touch k t))) \<union> set ks"
    by (rule Cons.IH [OF cs_inv_touch [OF Cons.prems]])
  ultimately show ?case unfolding fold_Cons comp_apply list.set(2) by blast
qed simp

lemma cs_observe_result:
  "fst (cs_observe f t) \<longleftrightarrow> fl_protocol f = P_TCP \<and> flow_tuple f \<notin> set (map fst (cs_seen t)) \<and> fl_opened_by_initiation f"
  by (simp add: cs_observe_def Let_def)

text \<open>
  A connection is counted once. After any history of records, a record whose five-tuple no
  earlier TCP record had is a start exactly when it is TCP and opened by an initiation; a record whose
  five-tuple was recorded before, with fewer than \<open>max_tracked\<close> other TCP five-tuples seen since, is
  never a start, however often the active time-out splits the connection; and the memory never exceeds
  its bound.
\<close>

theorem connection_counted_once:
  assumes "new_connection_start_tracker max_tracked = Some t"
  shows "(flow_tuple f \<notin> set (tcp_tuples history) \<longrightarrow>
      (fst (cs_observe f (cs_run history t)) \<longleftrightarrow> fl_protocol f = P_TCP \<and> fl_opened_by_initiation f))
    \<and> (\<forall>before since. tcp_tuples history = before @ flow_tuple f # since
        \<and> int (card (set since - {flow_tuple f})) < max_tracked \<longrightarrow> \<not> fst (cs_observe f (cs_run history t)))
    \<and> int (length (cs_seen (cs_run history t))) \<le> max_tracked"
proof (intro conjI allI impI)
  have t: "cs_inv t" "cs_seen t = []" "int (cs_max_tracked t) = max_tracked"
    using cs_inv_new [OF assms] by auto
  show "int (length (cs_seen (cs_run history t))) \<le> max_tracked"
    using starts.bound_run [OF t(1), of "tcp_tuples history"] t(3) by (simp add: cs_run_touches)
  show "fst (cs_observe f (cs_run history t)) \<longleftrightarrow> fl_protocol f = P_TCP \<and> fl_opened_by_initiation f"
    if "flow_tuple f \<notin> set (tcp_tuples history)"
    using cs_seen_subset [OF t(1), of "tcp_tuples history"] t(2) that
    by (auto simp: cs_observe_result cs_run_touches)
  fix before since
  assume h: "tcp_tuples history = before @ flow_tuple f # since
    \<and> int (card (set since - {flow_tuple f})) < max_tracked"
  have "flow_tuple f \<in> set (map fst (cs_seen (fold cs_touch since (cs_touch (flow_tuple f) (fold cs_touch before t)))))"
    using h t by (intro starts.retained starts.inv_run) (simp_all add: starts.cap_run)
  then have "flow_tuple f \<in> set (map fst (cs_seen (cs_run history t)))"
    using h by (simp add: cs_run_touches)
  then show "\<not> fst (cs_observe f (cs_run history t))" unfolding cs_observe_result by blast
qed

theorem connection_counted_once_witness:
  "fst (cs_observe example_flow \<lparr>cs_max_tracked = 4, cs_seen = [], cs_evictions = 0\<rparr>)
   \<and> \<not> fst (cs_observe example_flow (cs_run [example_flow] \<lparr>cs_max_tracked = 4, cs_seen = [], cs_evictions = 0\<rparr>))"
proof -
  let ?t = "\<lparr>cs_max_tracked = 4, cs_seen = [], cs_evictions = 0\<rparr>"
  have t: "new_connection_start_tracker 4 = Some ?t" by (simp add: new_connection_start_tracker_def)
  have "tcp_tuples [example_flow] = [] @ flow_tuple example_flow # []"
    by (simp add: tcp_tuples_def example_flow_def)
  then have "\<not> fst (cs_observe example_flow (cs_run [example_flow] ?t))"
    using connection_counted_once [OF t, of example_flow "[example_flow]"] by force
  moreover have "fst (cs_observe example_flow (cs_run [] ?t))"
    using connection_counted_once [OF t, of example_flow "[]"] by (simp add: tcp_tuples_def example_flow_def)
  ultimately show ?thesis by (simp add: cs_run_def)
qed

end
