(* ===== verification/Sets.thy ===== *)
theory Sets
  imports Validator Text
begin

section \<open>Set elements\<close>

text \<open>
  \<open>firewall/sets.py\<close> with the names of \<open>core/nft_names.py\<close> it uses: which kernel sets core may write
  (\<open>MANAGER_WRITABLE_SETS\<close>), the check every backend applies to an operation (\<open>validate_element\<close>),
  and how a validated rule becomes one element. A \<open>FirewallError\<close> is a value of \<open>set_error\<close>.
\<close>

subsection \<open>Names (nft\_names.py)\<close>

definition STATIC_TABLE :: string where "STATIC_TABLE = ''pirewall_static''"
definition ADAPTIVE_TABLE :: string where "ADAPTIVE_TABLE = ''pirewall_adaptive''"
definition STATIC_ARP_TABLE :: string where "STATIC_ARP_TABLE = ''pirewall_static_arp''"
definition INET_FAMILY :: string where "INET_FAMILY = ''inet''"
definition ARP_FAMILY :: string where "ARP_FAMILY = ''arp''"
definition BASE_TABLE :: string where "BASE_TABLE = ''pirewall_base''"
definition PORTAL_TABLE :: string where "PORTAL_TABLE = ''pirewall_portal''"
definition SET_BOUND4 :: string where "SET_BOUND4 = ''bound4''"
definition SET_MACBIND :: string where "SET_MACBIND = ''macbind''"
definition SET_ALLOW_BOUND :: string where "SET_ALLOW_BOUND = ''allow_bound''"
definition SET_OFFENDERS :: string where "SET_OFFENDERS = ''offenders''"
definition SET_INFRA4 :: string where "SET_INFRA4 = ''infra4''"
definition SET_BLOCK_MAC :: string where "SET_BLOCK_MAC = ''block_mac''"
definition SET_BLOCK4 :: string where "SET_BLOCK4 = ''block4''"
definition SET_RATELIMIT_MAC :: string where "SET_RATELIMIT_MAC = ''ratelimit_mac''"
definition SET_RATELIMIT4 :: string where "SET_RATELIMIT4 = ''ratelimit4''"

definition PANIC_TABLES :: "(string \<times> string) list" where
  "PANIC_TABLES = [(INET_FAMILY, ADAPTIVE_TABLE), (INET_FAMILY, STATIC_TABLE), (ARP_FAMILY, STATIC_ARP_TABLE)]"

definition ADAPTIVE_ENFORCEMENT_SETS :: "string list" where
  "ADAPTIVE_ENFORCEMENT_SETS = [SET_BLOCK_MAC, SET_BLOCK4, SET_RATELIMIT_MAC, SET_RATELIMIT4]"

lemmas nft_name_defs = STATIC_TABLE_def ADAPTIVE_TABLE_def STATIC_ARP_TABLE_def INET_FAMILY_def ARP_FAMILY_def
  BASE_TABLE_def PORTAL_TABLE_def SET_BOUND4_def SET_MACBIND_def SET_ALLOW_BOUND_def SET_OFFENDERS_def
  SET_INFRA4_def SET_BLOCK_MAC_def SET_BLOCK4_def SET_RATELIMIT_MAC_def SET_RATELIMIT4_def

subsection \<open>Elements and operations\<close>

datatype set_key = Single string | Concat string string

datatype key_type = KT_IPV4 | KT_MAC | KT_IPV4_MAC | KT_MAC_IPV4

record writable_set =
  ws_key_type :: key_type
  ws_timeout_required :: bool

definition MANAGER_WRITABLE_SETS :: "((string \<times> string \<times> string) \<times> writable_set) list" where
  "MANAGER_WRITABLE_SETS =
     [((INET_FAMILY, ADAPTIVE_TABLE, SET_BLOCK_MAC), \<lparr>ws_key_type = KT_MAC, ws_timeout_required = True\<rparr>),
      ((INET_FAMILY, ADAPTIVE_TABLE, SET_BLOCK4), \<lparr>ws_key_type = KT_IPV4, ws_timeout_required = True\<rparr>),
      ((INET_FAMILY, ADAPTIVE_TABLE, SET_RATELIMIT_MAC), \<lparr>ws_key_type = KT_MAC, ws_timeout_required = True\<rparr>),
      ((INET_FAMILY, ADAPTIVE_TABLE, SET_RATELIMIT4), \<lparr>ws_key_type = KT_IPV4, ws_timeout_required = True\<rparr>),
      ((INET_FAMILY, ADAPTIVE_TABLE, SET_ALLOW_BOUND), \<lparr>ws_key_type = KT_MAC_IPV4, ws_timeout_required = False\<rparr>),
      ((INET_FAMILY, STATIC_TABLE, SET_ALLOW_BOUND), \<lparr>ws_key_type = KT_MAC_IPV4, ws_timeout_required = False\<rparr>),
      ((INET_FAMILY, STATIC_TABLE, SET_BOUND4), \<lparr>ws_key_type = KT_IPV4, ws_timeout_required = False\<rparr>),
      ((INET_FAMILY, STATIC_TABLE, SET_MACBIND), \<lparr>ws_key_type = KT_IPV4_MAC, ws_timeout_required = False\<rparr>),
      ((ARP_FAMILY, STATIC_ARP_TABLE, SET_BOUND4), \<lparr>ws_key_type = KT_IPV4, ws_timeout_required = False\<rparr>),
      ((ARP_FAMILY, STATIC_ARP_TABLE, SET_MACBIND), \<lparr>ws_key_type = KT_IPV4_MAC, ws_timeout_required = False\<rparr>)]"

definition MAX_ELEMENT_TIMEOUT_SECONDS :: int where
  "MAX_ELEMENT_TIMEOUT_SECONDS = 3600"

datatype set_op_kind = SO_ADD | SO_DELETE

record set_op =
  op_kind :: set_op_kind
  op_set_name :: string
  op_key :: set_key
  op_timeout_seconds :: "int option"
  op_table :: string
  op_family :: string

datatype set_error = SE_NOT_WRITER | SE_BAD_KEY | SE_NOT_NORMALISED | SE_NO_TIMEOUT | SE_NOT_POSITIVE
  | SE_TOO_LONG

definition ipv4_key :: "string \<Rightarrow> string option" where
  "ipv4_key s = map_option show_ipv4 (parse_ipv4 s)"

text \<open>\<open>normalise_key\<close>: \<open>None\<close> is the \<open>FirewallError\<close> for a key that is not of the type.\<close>

fun normalise_key :: "key_type \<Rightarrow> set_key \<Rightarrow> set_key option" where
  "normalise_key KT_IPV4 (Single s) = map_option Single (ipv4_key s)"
| "normalise_key KT_IPV4 (Concat a b) = None"
| "normalise_key KT_MAC (Single s) = map_option Single (unicast_mac s)"
| "normalise_key KT_MAC (Concat a b) = None"
| "normalise_key KT_IPV4_MAC (Single s) = None"
| "normalise_key KT_IPV4_MAC (Concat a b) =
     (case (ipv4_key a, unicast_mac b) of (Some x, Some y) \<Rightarrow> Some (Concat x y) | _ \<Rightarrow> None)"
| "normalise_key KT_MAC_IPV4 (Single s) = None"
| "normalise_key KT_MAC_IPV4 (Concat a b) =
     (case (unicast_mac a, ipv4_key b) of (Some x, Some y) \<Rightarrow> Some (Concat x y) | _ \<Rightarrow> None)"

definition validate_element :: "set_op \<Rightarrow> set_error option" where
  "validate_element op =
     (case map_of MANAGER_WRITABLE_SETS (op_family op, op_table op, op_set_name op) of
        None \<Rightarrow> Some SE_NOT_WRITER
      | Some shape \<Rightarrow>
          (case normalise_key (ws_key_type shape) (op_key op) of
             None \<Rightarrow> Some SE_BAD_KEY
           | Some k \<Rightarrow>
               if k \<noteq> op_key op then Some SE_NOT_NORMALISED
               else if op_kind op \<noteq> SO_ADD then None
               else (case op_timeout_seconds op of
                       None \<Rightarrow> if ws_timeout_required shape then Some SE_NO_TIMEOUT else None
                     | Some t \<Rightarrow>
                         if t \<le> 0 then Some SE_NOT_POSITIVE
                         else if ws_timeout_required shape \<and> MAX_ELEMENT_TIMEOUT_SECONDS < t then Some SE_TOO_LONG
                         else None)))"

subsection \<open>From a rule to its element\<close>

text \<open>
  \<open>device_target\<close>: the outer \<open>None\<close> is the \<open>ValidationError\<close> a MAC that identifies no device raises,
  the inner one the result for a rule with no device to key on.
\<close>

definition device_target ::
    "'a rule_fields_scheme \<Rightarrow> ipv4_network \<Rightarrow> mac_address option \<Rightarrow> rule_target option option" where
  "device_target r protected mac =
     (if prefixlen (rf_source r) \<noteq> 32 \<or> \<not> supernet_of protected (rf_source r) then Some None
      else (case mac of
              None \<Rightarrow> Some (Some \<lparr>rt_ip = network_address (rf_source r), rt_mac = None\<rparr>)
            | Some m \<Rightarrow>
                (case unicast_mac m of
                   None \<Rightarrow> None
                 | Some n \<Rightarrow> Some (Some \<lparr>rt_ip = network_address (rf_source r), rt_mac = Some n\<rparr>))))"

definition enforcement_set_for :: "firewall_action \<Rightarrow> rule_target \<Rightarrow> string option" where
  "enforcement_set_for a t =
     (if a = FA_BLOCK then Some (if rt_mac t \<noteq> None then SET_BLOCK_MAC else SET_BLOCK4)
      else if a = FA_RATE_LIMIT then Some (if rt_mac t \<noteq> None then SET_RATELIMIT_MAC else SET_RATELIMIT4)
      else None)"

definition element_key :: "string \<Rightarrow> rule_target \<Rightarrow> string option" where
  "element_key set_name t =
     (case map_of MANAGER_WRITABLE_SETS (INET_FAMILY, ADAPTIVE_TABLE, set_name) of
        None \<Rightarrow> None
      | Some shape \<Rightarrow> if ws_key_type shape = KT_MAC then rt_mac t else Some (show_ipv4 (rt_ip t)))"

text \<open>\<open>int(x.total_seconds())\<close> truncates towards zero.\<close>

definition whole_seconds :: "timedelta \<Rightarrow> int" where
  "whole_seconds d = (if 0 \<le> d then d div 1000000 else - ((- d) div 1000000))"

definition element_timeout_seconds :: "datetime \<Rightarrow> datetime \<Rightarrow> int \<Rightarrow> int" where
  "element_timeout_seconds expires_at now max_ttl_seconds =
     max 1 (min (whole_seconds (expires_at - now)) (min max_ttl_seconds MAX_ELEMENT_TIMEOUT_SECONDS))"

text \<open>The operation that enforces an action on a target in the adaptive table.\<close>

definition enforcement_op :: "firewall_action \<Rightarrow> rule_target \<Rightarrow> datetime \<Rightarrow> datetime \<Rightarrow> int \<Rightarrow> set_op option" where
  "enforcement_op a t expires_at now max_ttl_seconds =
     Option.bind (enforcement_set_for a t) (\<lambda>s. Option.bind (element_key s t) (\<lambda>k.
       Some \<lparr>op_kind = SO_ADD, op_set_name = s, op_key = Single k,
             op_timeout_seconds = Some (element_timeout_seconds expires_at now max_ttl_seconds),
             op_table = ADAPTIVE_TABLE, op_family = INET_FAMILY\<rparr>))"

subsection \<open>What the check guarantees\<close>

lemma ipv4_key_show [simp]: "ipv4_key (show_ipv4 a) = Some (show_ipv4 a)"
  by (simp add: ipv4_key_def parse_show_ipv4)

lemma ipv4_key_fixed: "ipv4_key s = Some k \<Longrightarrow> ipv4_key k = Some k"
  by (auto simp: ipv4_key_def parse_show_ipv4)

text \<open>
  Normalising a key is idempotent: the canonical form it returns is accepted unchanged by a
  second normalisation, for every key type. So "already normalised" is a property of the key alone.
\<close>

theorem normalise_key_idempotent:
  assumes "normalise_key ty k = Some k'"
  shows "normalise_key ty k' = Some k'"
proof (cases k)
  case (Single s)
  then show ?thesis using assms ipv4_key_fixed unicast_mac_fixed by (cases ty) auto
next
  case (Concat a b)
  have "(\<exists>x y. ipv4_key a = Some x \<and> unicast_mac b = Some y \<and> k' = Concat x y \<and> ty = KT_IPV4_MAC)
      \<or> (\<exists>x y. unicast_mac a = Some x \<and> ipv4_key b = Some y \<and> k' = Concat x y \<and> ty = KT_MAC_IPV4)"
    using assms Concat by (cases ty) (auto split: option.splits)
  then show ?thesis
  proof (elim disjE exE conjE)
    fix x y assume "ipv4_key a = Some x" "unicast_mac b = Some y" "k' = Concat x y" "ty = KT_IPV4_MAC"
    then show ?thesis using ipv4_key_fixed [of a x] unicast_mac_fixed [of b y] by simp
  next
    fix x y assume "unicast_mac a = Some x" "ipv4_key b = Some y" "k' = Concat x y" "ty = KT_MAC_IPV4"
    then show ?thesis using ipv4_key_fixed [of b y] unicast_mac_fixed [of a x] by simp
  qed
qed

theorem normalise_key_idempotent_witness:
  "normalise_key KT_IPV4 (Single (show_ipv4 (ipv4 10 0 0 5))) = Some (Single (show_ipv4 (ipv4 10 0 0 5)))"
  by (rule normalise_key_idempotent [of KT_IPV4 "Single (show_ipv4 (ipv4 10 0 0 5))"]) simp

text \<open>A key that its set's type accepts as it is.\<close>

fun key_ok :: "key_type \<Rightarrow> set_key \<Rightarrow> bool" where
  "key_ok KT_IPV4 (Single s) \<longleftrightarrow> (\<exists>a. s = show_ipv4 a)"
| "key_ok KT_MAC (Single s) \<longleftrightarrow> unicast_mac s = Some s"
| "key_ok KT_IPV4_MAC (Concat s m) \<longleftrightarrow> (\<exists>a. s = show_ipv4 a) \<and> unicast_mac m = Some m"
| "key_ok KT_MAC_IPV4 (Concat m s) \<longleftrightarrow> unicast_mac m = Some m \<and> (\<exists>a. s = show_ipv4 a)"
| "key_ok _ _ \<longleftrightarrow> False"

lemma key_ok_iff: "key_ok ty k \<longleftrightarrow> normalise_key ty k = Some k"
  by (cases "(ty, k)" rule: normalise_key.cases)
    (auto simp: ipv4_key_def parse_show_ipv4 split: option.splits)

text \<open>
  The single-writer check, exactly. An operation is accepted if and only if it names one of the
  ten manager-writable sets with a canonical key of that set's type (every MAC in it unicast), and,
  for an addition, its timeout is positive when present and, in the four enforcement sets, present
  and at most one hour. So no backend ever writes a kernel-owned set, an enforcement element that
  does not expire within the hour, or an element keyed by a group address.
\<close>

theorem validate_element_exact:
  "validate_element op = None \<longleftrightarrow>
     (\<exists>shape. ((op_family op, op_table op, op_set_name op), shape) \<in> set MANAGER_WRITABLE_SETS
        \<and> key_ok (ws_key_type shape) (op_key op)
        \<and> (op_kind op = SO_ADD \<longrightarrow>
             (case op_timeout_seconds op of
                None \<Rightarrow> \<not> ws_timeout_required shape
              | Some t \<Rightarrow> 0 < t \<and> (ws_timeout_required shape \<longrightarrow> t \<le> 3600))))"
proof -
  have d: "distinct (map fst MANAGER_WRITABLE_SETS)" by (simp add: MANAGER_WRITABLE_SETS_def nft_name_defs)
  show ?thesis
    unfolding validate_element_def map_of_eq_Some_iff [OF d, symmetric] key_ok_iff
    by (auto simp: MAX_ELEMENT_TIMEOUT_SECONDS_def split: option.splits)
qed

theorem validate_element_exact_witness:
  "validate_element \<lparr>op_kind = SO_ADD, op_set_name = SET_OFFENDERS, op_key = Single (show_ipv4 1),
     op_timeout_seconds = Some 60, op_table = STATIC_TABLE, op_family = INET_FAMILY\<rparr> \<noteq> None
   \<and> validate_element \<lparr>op_kind = SO_ADD, op_set_name = SET_BLOCK4, op_key = Single (show_ipv4 1),
     op_timeout_seconds = Some 60, op_table = ADAPTIVE_TABLE, op_family = INET_FAMILY\<rparr> = None"
  unfolding validate_element_exact by (auto simp: MANAGER_WRITABLE_SETS_def nft_name_defs)

lemma element_timeout_bounds:
  "0 < m \<Longrightarrow> 1 \<le> element_timeout_seconds e now m \<and> element_timeout_seconds e now m \<le> min m 3600"
  by (auto simp: element_timeout_seconds_def MAX_ELEMENT_TIMEOUT_SECONDS_def)

lemma whole_seconds_le: "seconds (whole_seconds d) \<le> max d 0"
  by (auto simp: whole_seconds_def seconds_def mult.commute [of _ 1000000])

text \<open>
  C10: From an approved rule to the kernel. Whenever the version 2 chain approves a throttling or
  blocking candidate for the device the rule keys on, the operation that enforces it exists and every
  backend's check accepts it; the element's timeout is between one second and the configured
  maximum and never outlasts the rule by a second or more.
\<close>

theorem approved_rule_becomes_accepted_element:
  assumes "device_target c (vc_protected_network cfg) mac = Some target"
    and "so_approved (fst (validate_set_candidate cached c target cfg known active allowlist limiter now local))"
    and "restrictive (rf_action c)" "0 < vc_max_ttl_seconds cfg"
  shows "\<exists>t x op n. target = Some t \<and> cr_expires_at c = Some x
    \<and> enforcement_op (rf_action c) t x now (vc_max_ttl_seconds cfg) = Some op
    \<and> validate_element op = None \<and> op_timeout_seconds op = Some n
    \<and> 1 \<le> n \<and> n \<le> vc_max_ttl_seconds cfg \<and> now + seconds n < x + seconds 1"
proof -
  obtain t x where t: "target = Some t" and x: "cr_expires_at c = Some x" "now < x"
    using assms(2) unfolding set_approved_iff set_expiration_iff by blast
  let ?n = "element_timeout_seconds x now (vc_max_ttl_seconds cfg)"
  have mac: "rt_mac t = None \<or> (\<exists>m. rt_mac t = Some m \<and> unicast_mac m = Some m)"
    using assms(1) unfolding t device_target_def by (auto split: if_splits option.splits dest: unicast_mac_fixed)
  have n: "1 \<le> ?n" "?n \<le> min (vc_max_ttl_seconds cfg) 3600" using element_timeout_bounds [OF assms(4)] by auto
  have "?n \<le> max 1 (whole_seconds (x - now))" by (simp add: element_timeout_seconds_def)
  then have "seconds ?n \<le> max (seconds 1) (seconds (whole_seconds (x - now)))" by (simp add: seconds_def max_def split: if_splits)
  moreover have "seconds (whole_seconds (x - now)) \<le> x - now" using whole_seconds_le [of "x - now"] x(2) by simp
  ultimately have late: "now + seconds ?n < x + seconds 1" using x(2) by (auto simp: seconds_def max_def split: if_splits)
  have act: "rf_action c = FA_BLOCK \<or> rf_action c = FA_RATE_LIMIT" using assms(3) by (simp add: restrictive_def)
  obtain op where op: "enforcement_op (rf_action c) t x now (vc_max_ttl_seconds cfg) = Some op"
      "validate_element op = None" "op_timeout_seconds op = Some ?n"
    using act mac n that
    by (auto simp: enforcement_op_def enforcement_set_for_def element_key_def MANAGER_WRITABLE_SETS_def nft_name_defs
        validate_element_def MAX_ELEMENT_TIMEOUT_SECONDS_def)
  show ?thesis using t x op n late by auto
qed

lemma example_set_approved:
  "so_approved (fst (validate_set_candidate no_local example_candidate (Some \<lparr>rt_ip = ipv4 10 0 0 5, rt_mac = None\<rparr>)
     example_config [''d''] [] [example_entry] (new_rate_limiter 5 (seconds 60)) 0 None))"
  unfolding set_approved_iff
  by (simp add: validate_schema_def validate_set_allowlist_def validate_set_safety_def validate_set_duplicate_def
      validate_escalation_def set_expiration_iff validate_authorization_def is_targetable_network_def
      targetable_address_def infrastructure_def restrictive_def would_allow_def rl_prune_def new_rate_limiter_def
      example_rule_defs network_eval)

theorem approved_rule_becomes_accepted_element_witness:
  "\<exists>op n. enforcement_op FA_BLOCK \<lparr>rt_ip = ipv4 10 0 0 5, rt_mac = None\<rparr> (seconds 60) 0 3600 = Some op
     \<and> validate_element op = None \<and> op_timeout_seconds op = Some n \<and> seconds n < seconds 61"
proof -
  have d: "device_target example_candidate (vc_protected_network example_config) None
      = Some (Some \<lparr>rt_ip = ipv4 10 0 0 5, rt_mac = None\<rparr>)"
    by (simp add: device_target_def example_rule_defs network_eval)
  from approved_rule_becomes_accepted_element [OF d example_set_approved] show ?thesis
    by (auto simp: example_rule_defs restrictive_def seconds_def)
qed

end
