(* ===== verification/Fake_Sets.thy ===== *)
theory Fake_Sets
  imports Sets
begin

section \<open>The set backend\<close>

text \<open>
  \<open>firewall/backend/fake_sets.py\<close>: the program's own model of the kernel's sets, which the manager's
  set path is written against (the protocol \<open>SetBackend\<close> of \<open>firewall/sets.py\<close>). Every operation takes
  the time its injected clock \<open>now_fn\<close> returns and gives the backend it leaves, together with the
  \<open>FirewallError\<close> it raises, if any. The contract of the protocol is the locale \<open>kernel_sets\<close> below,
  stated on the live elements of every set and interpreted on this backend.
\<close>

subsection \<open>State\<close>

type_synonym location = "string \<times> string"
type_synonym set_address = "string \<times> string \<times> string"
type_synonym elements = "(set_key, datetime option) odict"

record fake_set =
  ks_size :: "nat option"
  ks_elements :: elements

datatype backend_call = Applied "set_op list" | Flushed "string list"
  | GuardsSet "(guard_name \<times> guard_mode) list" | Panicked "location list"

record set_backend =
  sb_adaptive_size :: nat
  sb_binding_size :: nat
  sb_tables :: "(location, (string, fake_set) odict) odict"
  sb_guards :: "(guard_name, guard_mode) odict"
  sb_counters :: "(location, (string, nat) odict) odict"
  sb_ops :: "backend_call list"
  sb_fail_next :: bool
  sb_calls :: nat
  sb_failures :: nat

datatype backend_error = BE_SIMULATED | BE_ELEMENT set_error | BE_FULL string
  | BE_NO_TABLE location | BE_NO_SET set_address | BE_NOT_WRITABLE string

definition STATIC_METER_SETS :: "string list" where
  "STATIC_METER_SETS = [''dhcp_meter'', ''unbound_meter'', ''syn_meter'', ''udp_meter'', ''icmp_meter'', ''pps_meter'',
     ''dns_meter'', ''closed_meter'', ''portal_conc'', ''newconn_meter'', ''newconn_dst_meter'', ''udp_fwd_meter'']"

definition GUARDS :: "guard_name list" where
  "GUARDS = [GN_RAW, GN_INPUT, GN_FORWARD]"

fun default_guard_mode :: "guard_name \<Rightarrow> guard_mode" where
  "default_guard_mode GN_RAW = GM_ENFORCE"
| "default_guard_mode GN_INPUT = GM_ENFORCE"
| "default_guard_mode GN_FORWARD = GM_OBSERVE"

definition od_setdefault :: "'k \<Rightarrow> 'v \<Rightarrow> ('k, 'v) odict \<Rightarrow> ('k, 'v) odict" where
  "od_setdefault k v d = (if map_of d k = None then AList.update k v d else d)"

definition new_fake_set :: "nat \<Rightarrow> fake_set" where
  "new_fake_set capacity = \<lparr>ks_size = Some capacity, ks_elements = []\<rparr>"

text \<open>\<open>load_tables\<close>: every table and set that is missing is created, present ones are kept.\<close>

definition ensure_sets :: "nat \<Rightarrow> string list \<Rightarrow> (string, fake_set) odict \<Rightarrow> (string, fake_set) odict" where
  "ensure_sets capacity names sets = fold (\<lambda>n d. od_setdefault n (new_fake_set capacity) d) names sets"

definition ensure_table :: "location \<Rightarrow> ((string, fake_set) odict \<Rightarrow> (string, fake_set) odict)
    \<Rightarrow> (location, (string, fake_set) odict) odict \<Rightarrow> (location, (string, fake_set) odict) odict" where
  "ensure_table loc f tables =
     AList.update loc (f (case map_of tables loc of None \<Rightarrow> [] | Some sets \<Rightarrow> sets)) tables"

definition load_guards :: "(guard_name, guard_mode) odict option \<Rightarrow> (guard_name, guard_mode) odict
    \<Rightarrow> (guard_name, guard_mode) odict" where
  "load_guards guard_modes guards =
     fold (\<lambda>g d. case Option.bind guard_modes (\<lambda>ms. map_of ms g) of
                   Some m \<Rightarrow> AList.update g m d
                 | None \<Rightarrow> od_setdefault g (default_guard_mode g) d) GUARDS guards"

definition load_tables :: "(guard_name, guard_mode) odict option \<Rightarrow> set_backend \<Rightarrow> set_backend" where
  "load_tables guard_modes b =
     b\<lparr>sb_tables :=
         ensure_table (ARP_FAMILY, STATIC_ARP_TABLE) (ensure_sets (sb_binding_size b) [SET_BOUND4, SET_MACBIND])
         (ensure_table (INET_FAMILY, STATIC_TABLE)
            (ensure_sets (sb_adaptive_size b) (SET_OFFENDERS # sort STATIC_METER_SETS)
             \<circ> ensure_sets (sb_binding_size b) [SET_BOUND4, SET_MACBIND, SET_ALLOW_BOUND])
         (ensure_table (INET_FAMILY, ADAPTIVE_TABLE)
            (ensure_sets (sb_binding_size b) [SET_ALLOW_BOUND]
             \<circ> ensure_sets (sb_adaptive_size b) ADAPTIVE_ENFORCEMENT_SETS)
         (ensure_table (INET_FAMILY, PORTAL_TABLE) id
         (ensure_table (INET_FAMILY, BASE_TABLE) id (sb_tables b))))),
       sb_guards := load_guards guard_modes (sb_guards b)\<rparr>"

definition new_set_backend :: "nat \<Rightarrow> nat \<Rightarrow> (guard_name, guard_mode) odict option \<Rightarrow> set_backend" where
  "new_set_backend adaptive_size binding_size guard_modes =
     load_tables guard_modes
       \<lparr>sb_adaptive_size = adaptive_size, sb_binding_size = binding_size, sb_tables = [], sb_guards = [],
        sb_counters = [], sb_ops = [], sb_fail_next = False, sb_calls = 0, sb_failures = 0\<rparr>"

subsection \<open>Writes\<close>

definition expiry_live :: "datetime \<Rightarrow> datetime option \<Rightarrow> bool" where
  "expiry_live now e \<longleftrightarrow> (case e of None \<Rightarrow> True | Some t \<Rightarrow> t > now)"

definition live_elements :: "datetime \<Rightarrow> elements \<Rightarrow> elements" where
  "live_elements now es = filter (\<lambda>(k, e). expiry_live now e) es"

definition sb_begin :: "set_backend \<Rightarrow> backend_error option \<times> set_backend" where
  "sb_begin b =
     (let b' = b\<lparr>sb_calls := sb_calls b + 1\<rparr>
      in if sb_fail_next b
         then (Some BE_SIMULATED, b'\<lparr>sb_fail_next := False, sb_failures := sb_failures b + 1\<rparr>)
         else (None, b'))"

definition sb_set :: "set_address \<Rightarrow> set_backend \<Rightarrow> (backend_error + fake_set) \<times> set_backend" where
  "sb_set addr b = (case addr of (family, table, set_name) \<Rightarrow>
     (case map_of (sb_tables b) (family, table) of
        None \<Rightarrow> (Inl (BE_NO_TABLE (family, table)), b\<lparr>sb_failures := sb_failures b + 1\<rparr>)
      | Some sets \<Rightarrow>
          (case map_of sets set_name of
             None \<Rightarrow> (Inl (BE_NO_SET addr), b)
           | Some s \<Rightarrow> (Inr s, b))))"

fun first_element_error :: "set_op list \<Rightarrow> set_error option" where
  "first_element_error [] = None"
| "first_element_error (op # ops) = (case validate_element op of Some e \<Rightarrow> Some e | None \<Rightarrow> first_element_error ops)"

definition op_address :: "set_op \<Rightarrow> set_address" where
  "op_address op = (op_family op, op_table op, op_set_name op)"

text \<open>One operation on a staged set: its size, its staged elements; \<open>None\<close> when the set is full.\<close>

definition stage_op :: "datetime \<Rightarrow> set_op \<Rightarrow> nat option \<Rightarrow> elements \<Rightarrow> elements option" where
  "stage_op now op capacity es =
     (if op_kind op = SO_DELETE then Some (AList.delete (op_key op) es)
      else if map_of es (op_key op) \<noteq> None then Some es
      else if (case capacity of None \<Rightarrow> False | Some n \<Rightarrow> length es \<ge> n) then None
      else Some (AList.update (op_key op)
                   (case op_timeout_seconds op of None \<Rightarrow> None | Some t \<Rightarrow> Some (now + seconds t)) es))"

type_synonym staged_sets = "(set_address, elements) odict"

fun stage_ops :: "datetime \<Rightarrow> set_op list \<Rightarrow> staged_sets \<Rightarrow> set_backend \<Rightarrow> (backend_error + staged_sets) \<times> set_backend" where
  "stage_ops now [] staged b = (Inr staged, b)"
| "stage_ops now (op # ops) staged b = (case sb_set (op_address op) b of
       (Inl e, b') \<Rightarrow> (Inl e, b')
     | (Inr s, b') \<Rightarrow>
         let es = (case map_of staged (op_address op) of
                     Some es \<Rightarrow> es | None \<Rightarrow> live_elements now (ks_elements s))
         in (case stage_op now op (ks_size s) es of
               None \<Rightarrow> (Inl (BE_FULL (op_set_name op)), b'\<lparr>sb_failures := sb_failures b' + 1\<rparr>)
             | Some es' \<Rightarrow> stage_ops now ops (AList.update (op_address op) es' staged) b'))"

definition store_elements :: "set_address \<Rightarrow> elements \<Rightarrow> set_backend \<Rightarrow> set_backend" where
  "store_elements addr es b = (case addr of (family, table, set_name) \<Rightarrow>
     (case map_of (sb_tables b) (family, table) of
        None \<Rightarrow> b
      | Some sets \<Rightarrow>
          (case map_of sets set_name of
             None \<Rightarrow> b
           | Some s \<Rightarrow>
               b\<lparr>sb_tables := AList.update (family, table)
                   (AList.update set_name (s\<lparr>ks_elements := es\<rparr>) sets) (sb_tables b)\<rparr>)))"

definition sb_apply :: "datetime \<Rightarrow> set_op list \<Rightarrow> set_backend \<Rightarrow> backend_error option \<times> set_backend" where
  "sb_apply now ops b =
     (if ops = [] then (None, b)
      else (case sb_begin b of
              (Some e, b1) \<Rightarrow> (Some e, b1)
            | (None, b1) \<Rightarrow>
                (case first_element_error ops of
                   Some e \<Rightarrow> (Some (BE_ELEMENT e), b1)
                 | None \<Rightarrow>
                     (case stage_ops now ops [] b1 of
                        (Inl e, b2) \<Rightarrow> (Some e, b2)
                      | (Inr staged, b2) \<Rightarrow>
                          let b3 = fold (\<lambda>(addr, es) b. store_elements addr es b) staged b2
                          in (None, b3\<lparr>sb_ops := sb_ops b3 @ [Applied ops]\<rparr>)))))"

definition sb_add_element :: "datetime \<Rightarrow> string \<Rightarrow> set_key \<Rightarrow> int option \<Rightarrow> set_backend \<Rightarrow> backend_error option \<times> set_backend" where
  "sb_add_element now set_name key timeout b =
     sb_apply now [\<lparr>op_kind = SO_ADD, op_set_name = set_name, op_key = key, op_timeout_seconds = timeout,
                    op_table = ADAPTIVE_TABLE, op_family = INET_FAMILY\<rparr>] b"

definition sb_delete_element :: "datetime \<Rightarrow> string \<Rightarrow> set_key \<Rightarrow> set_backend \<Rightarrow> backend_error option \<times> set_backend" where
  "sb_delete_element now set_name key b =
     sb_apply now [\<lparr>op_kind = SO_DELETE, op_set_name = set_name, op_key = key, op_timeout_seconds = None,
                    op_table = ADAPTIVE_TABLE, op_family = INET_FAMILY\<rparr>] b"

fun adaptive_writable :: "string list \<Rightarrow> set_backend \<Rightarrow> backend_error option \<times> set_backend" where
  "adaptive_writable [] b = (None, b)"
| "adaptive_writable (n # ns) b =
     (if map_of MANAGER_WRITABLE_SETS (INET_FAMILY, ADAPTIVE_TABLE, n) = None then (Some (BE_NOT_WRITABLE n), b)
      else (case sb_set (INET_FAMILY, ADAPTIVE_TABLE, n) b of
              (Inl e, b') \<Rightarrow> (Some e, b')
            | (Inr s, b') \<Rightarrow> adaptive_writable ns b'))"

definition sb_flush_sets :: "string list \<Rightarrow> set_backend \<Rightarrow> backend_error option \<times> set_backend" where
  "sb_flush_sets set_names b =
     (let names = sort (remdups set_names) in
      case sb_begin b of
        (Some e, b1) \<Rightarrow> (Some e, b1)
      | (None, b1) \<Rightarrow>
          (case adaptive_writable names b1 of
             (Some e, b2) \<Rightarrow> (Some e, b2)
           | (None, b2) \<Rightarrow>
               let b3 = fold (\<lambda>n b. store_elements (INET_FAMILY, ADAPTIVE_TABLE, n) [] b) names b2
               in (None, b3\<lparr>sb_ops := sb_ops b3 @ [Flushed names]\<rparr>)))"

definition sb_set_guard_modes :: "(guard_name, guard_mode) odict \<Rightarrow> set_backend \<Rightarrow> backend_error option \<times> set_backend" where
  "sb_set_guard_modes modes b = (case sb_begin b of
       (Some e, b1) \<Rightarrow> (Some e, b1)
     | (None, b1) \<Rightarrow>
         (case map_of (sb_tables b1) (INET_FAMILY, STATIC_TABLE) of
            None \<Rightarrow> (Some (BE_NO_TABLE (INET_FAMILY, STATIC_TABLE)), b1\<lparr>sb_failures := sb_failures b1 + 1\<rparr>)
          | Some _ \<Rightarrow> (None, b1\<lparr>sb_guards := fold (\<lambda>(g, m) d. AList.update g m d) modes (sb_guards b1),
                               sb_ops := sb_ops b1 @ [GuardsSet modes]\<rparr>)))"

definition sb_panic :: "set_backend \<Rightarrow> (backend_error + location list) \<times> set_backend" where
  "sb_panic b = (case sb_begin b of
       (Some e, b1) \<Rightarrow> (Inl e, b1)
     | (None, b1) \<Rightarrow> (Inr PANIC_TABLES,
         b1\<lparr>sb_tables := fold AList.delete PANIC_TABLES (sb_tables b1), sb_ops := sb_ops b1 @ [Panicked PANIC_TABLES]\<rparr>))"

subsection \<open>Reads\<close>

record element_state =
  es_key :: set_key
  es_expires_in_seconds :: "int option"

record set_fill =
  sf_count :: nat
  sf_size :: "nat option"

definition set_fill_ratio :: "set_fill \<Rightarrow> real option" where
  "set_fill_ratio f = (case sf_size f of None \<Rightarrow> None
     | Some n \<Rightarrow> if n = 0 then None else Some (real (sf_count f) / real n))"

text \<open>\<open>str\<close> of a key: the value itself, or the text of the pair.\<close>

fun key_text :: "set_key \<Rightarrow> string" where
  "key_text (Single s) = s"
| "key_text (Concat a b) = [CHR ''('', CHR 0x27] @ a @ [CHR 0x27, CHR '','', CHR '' '', CHR 0x27] @ b @ [CHR 0x27, CHR '')'']"

definition sb_list_set :: "datetime \<Rightarrow> set_address \<Rightarrow> set_backend \<Rightarrow> (backend_error + element_state list) \<times> set_backend" where
  "sb_list_set now addr b = (case sb_set addr b of
       (Inl e, b') \<Rightarrow> (Inl e, b')
     | (Inr s, b') \<Rightarrow>
         let es = live_elements now (ks_elements s)
         in (Inr (map (\<lambda>(k, e). \<lparr>es_key = k,
                    es_expires_in_seconds = map_option (\<lambda>t. max 0 (whole_seconds (t - now))) e\<rparr>)
                   (sort_key (\<lambda>x. key_text (fst x)) es)),
             store_elements addr es b'))"

definition sb_set_fill :: "datetime \<Rightarrow> set_address \<Rightarrow> set_backend \<Rightarrow> (backend_error + set_fill) \<times> set_backend" where
  "sb_set_fill now addr b = (case sb_set addr b of
       (Inl e, b') \<Rightarrow> (Inl e, b')
     | (Inr s, b') \<Rightarrow>
         let es = live_elements now (ks_elements s)
         in (Inr \<lparr>sf_count = length es, sf_size = ks_size s\<rparr>, store_elements addr es b'))"

definition sb_read_counters :: "string list \<Rightarrow> location \<Rightarrow> set_backend \<Rightarrow> (string \<times> nat) list" where
  "sb_read_counters names loc b =
     (if map_of (sb_tables b) loc = None then []
      else let counters = (case map_of (sb_counters b) loc of None \<Rightarrow> [] | Some c \<Rightarrow> c)
           in fold (\<lambda>n d. case map_of counters n of None \<Rightarrow> d | Some v \<Rightarrow> AList.update n v d) names [])"

definition sb_record_offender :: "datetime \<Rightarrow> string \<Rightarrow> string \<Rightarrow> int \<Rightarrow> set_backend \<Rightarrow> backend_error option \<times> set_backend" where
  "sb_record_offender now mac code timeout b =
     (let addr = (INET_FAMILY, STATIC_TABLE, SET_OFFENDERS) in
      case sb_set addr b of
        (Inl e, b') \<Rightarrow> (Some e, b')
      | (Inr s, b') \<Rightarrow>
          (None, store_elements addr (AList.update (Concat mac code) (Some (now + seconds timeout)) (ks_elements s)) b'))"

definition sb_guard_mode :: "guard_name \<Rightarrow> set_backend \<Rightarrow> guard_mode option" where
  "sb_guard_mode g b =
     (if map_of (sb_tables b) (INET_FAMILY, STATIC_TABLE) = None then None else map_of (sb_guards b) g)"

definition sb_table_exists :: "location \<Rightarrow> set_backend \<Rightarrow> bool" where
  "sb_table_exists loc b \<longleftrightarrow> map_of (sb_tables b) loc \<noteq> None"

subsection \<open>The contract of a set backend\<close>

text \<open>
  What a client sees of a backend: the live elements of every set. \<open>op_effect\<close> is one operation on
  that view: deleting is idempotent, and re-adding a live element keeps its expiry.
\<close>

type_synonym set_view = "set_address \<Rightarrow> set_key \<Rightarrow> datetime option option"

definition op_expiry :: "datetime \<Rightarrow> set_op \<Rightarrow> datetime option" where
  "op_expiry now op = map_option (\<lambda>t. now + seconds t) (op_timeout_seconds op)"

definition op_effect :: "datetime \<Rightarrow> set_op \<Rightarrow> set_view \<Rightarrow> set_view" where
  "op_effect now op v =
     (if op_kind op = SO_DELETE then v(op_address op := (v (op_address op))(op_key op := None))
      else if v (op_address op) (op_key op) \<noteq> None then v
      else v(op_address op := (v (op_address op))(op_key op \<mapsto> op_expiry now op)))"

definition enforcement_address :: "set_address \<Rightarrow> bool" where
  "enforcement_address addr \<longleftrightarrow>
     (case map_of MANAGER_WRITABLE_SETS addr of None \<Rightarrow> False | Some shape \<Rightarrow> ws_timeout_required shape)"

text \<open>Every live element of an enforcement set expires within an hour of \<open>now\<close>.\<close>

definition lapses_within_the_hour :: "datetime \<Rightarrow> set_view \<Rightarrow> bool" where
  "lapses_within_the_hour now v \<longleftrightarrow>
     (\<forall>addr k e. enforcement_address addr \<longrightarrow> v addr k = Some e \<longrightarrow>
        (\<exists>t. e = Some t \<and> t \<le> now + seconds MAX_ELEMENT_TIMEOUT_SECONDS))"

lemma lapsesD:
  "lapses_within_the_hour now v \<Longrightarrow> enforcement_address addr \<Longrightarrow> v addr k = Some e \<Longrightarrow>
     \<exists>t. e = Some t \<and> t \<le> now + seconds MAX_ELEMENT_TIMEOUT_SECONDS"
  unfolding lapses_within_the_hour_def by blast

lemma op_effect_other: "addr \<noteq> op_address op \<or> k \<noteq> op_key op \<Longrightarrow> op_effect now op v addr k = v addr k"
  by (auto simp: op_effect_def)

lemma fold_op_effect_other:
  "\<forall>op \<in> set ops. addr \<noteq> op_address op \<or> k \<noteq> op_key op \<Longrightarrow> fold (op_effect now) ops v addr k = v addr k"
proof (induction ops arbitrary: v)
  case (Cons op ops)
  then show ?case using op_effect_other [of addr op k now v] by simp
qed simp

lemma validate_element_timeout:
  assumes "validate_element op = None" "op_kind op = SO_ADD" "enforcement_address (op_address op)"
  shows "\<exists>t. op_timeout_seconds op = Some t \<and> 0 < t \<and> t \<le> MAX_ELEMENT_TIMEOUT_SECONDS"
  using assms
  by (auto simp: validate_element_def enforcement_address_def op_address_def split: option.splits if_splits)

lemma op_effect_lapses:
  assumes "validate_element op = None" "lapses_within_the_hour now v"
  shows "lapses_within_the_hour now (op_effect now op v)"
proof (unfold lapses_within_the_hour_def, intro allI impI)
  fix addr k e assume enf: "enforcement_address addr" and e: "op_effect now op v addr k = Some e"
  show "\<exists>t. e = Some t \<and> t \<le> now + seconds MAX_ELEMENT_TIMEOUT_SECONDS"
  proof (cases "v addr k = Some e")
    case True
    then show ?thesis using lapsesD [OF assms(2) enf] by blast
  next
    case False
    with e have "op_kind op \<noteq> SO_DELETE" "addr = op_address op" "e = op_expiry now op"
      by (auto simp: op_effect_def split: if_splits)
    then show ?thesis using validate_element_timeout [OF assms(1)] enf
      by (cases "op_kind op") (auto simp: op_expiry_def)
  qed
qed

lemma fold_op_effect_lapses:
  "\<forall>op \<in> set ops. validate_element op = None \<Longrightarrow> lapses_within_the_hour now v \<Longrightarrow>
     lapses_within_the_hour now (fold (op_effect now) ops v)"
  by (induction ops arbitrary: v) (simp_all add: op_effect_lapses)

locale kernel_sets =
  fixes inv :: "'s \<Rightarrow> bool"
    and live :: "datetime \<Rightarrow> 's \<Rightarrow> set_view"
    and apply_batch :: "datetime \<Rightarrow> set_op list \<Rightarrow> 's \<Rightarrow> 'e option \<times> 's"
  assumes apply_ok: "inv s \<Longrightarrow> apply_batch now ops s = (None, s') \<Longrightarrow>
      inv s' \<and> live now s' = fold (op_effect now) ops (live now s) \<and> (\<forall>op \<in> set ops. validate_element op = None)"
    and apply_error: "inv s \<Longrightarrow> apply_batch now ops s = (Some e, s') \<Longrightarrow> inv s' \<and> live t s' = live t s"
    and live_later: "inv s \<Longrightarrow> now \<le> t \<Longrightarrow>
      live t s addr k = (case live now s addr k of None \<Rightarrow> None | Some e \<Rightarrow> if expiry_live t e then Some e else None)"
begin

lemma apply_inv: "inv s \<Longrightarrow> inv (snd (apply_batch now ops s))"
  using apply_ok apply_error by (metis option.exhaust prod.collapse)

text \<open>A set no batch may write keeps its live elements through any batch.\<close>

lemma apply_frame:
  assumes "inv s" "map_of MANAGER_WRITABLE_SETS addr = None"
  shows "live now (snd (apply_batch now ops s)) addr = live now s addr"
proof (cases "fst (apply_batch now ops s)")
  case None
  then obtain s' where s': "apply_batch now ops s = (None, s')" by (metis prod.collapse)
  have "addr \<noteq> op_address op" if "op \<in> set ops" for op
  proof -
    have "validate_element op = None" using apply_ok [OF assms(1) s'] that by blast
    then have "map_of MANAGER_WRITABLE_SETS (op_address op) \<noteq> None"
      by (auto simp: validate_element_def op_address_def split: option.splits)
    then show ?thesis using assms(2) by auto
  qed
  then have "fold (op_effect now) ops (live now s) addr k = live now s addr k" for k
    by (intro fold_op_effect_other) blast
  then have "fold (op_effect now) ops (live now s) addr = live now s addr" ..
  then show ?thesis using apply_ok [OF assms(1) s'] s' by simp
next
  case (Some e)
  then show ?thesis using apply_error [OF assms(1)] by (metis prod.collapse)
qed

lemma lapses_later:
  assumes "inv s" "lapses_within_the_hour now (live now s)" "now \<le> t"
  shows "lapses_within_the_hour t (live t s)"
proof (unfold lapses_within_the_hour_def, intro allI impI)
  fix addr k e assume enf: "enforcement_address addr" and e: "live t s addr k = Some e"
  then have "live now s addr k = Some e"
    using live_later [OF assms(1,3), of addr k] by (auto split: option.splits if_splits)
  from lapsesD [OF assms(2) enf this] show "\<exists>x. e = Some x \<and> x \<le> t + seconds MAX_ELEMENT_TIMEOUT_SECONDS"
    using assms(3) by auto
qed

lemma apply_lapses:
  assumes "inv s" "lapses_within_the_hour now (live now s)"
  shows "lapses_within_the_hour now (live now (snd (apply_batch now ops s)))"
proof (cases "fst (apply_batch now ops s)")
  case None
  then obtain s' where s': "apply_batch now ops s = (None, s')" by (metis prod.collapse)
  then show ?thesis using apply_ok [OF assms(1) s'] fold_op_effect_lapses assms(2) by simp
next
  case (Some e)
  then show ?thesis using apply_error [OF assms(1)] assms(2) by (metis prod.collapse)
qed

text \<open>An hour after the last write nothing is enforced any more.\<close>

lemma nothing_enforced_after_an_hour:
  assumes "inv s" "lapses_within_the_hour now (live now s)" "now + seconds MAX_ELEMENT_TIMEOUT_SECONDS \<le> t"
    "enforcement_address addr"
  shows "live t s addr k = None"
proof -
  have "now \<le> t" using assms(3) by (simp add: MAX_ELEMENT_TIMEOUT_SECONDS_def seconds_def)
  from live_later [OF assms(1) this, of addr k] show ?thesis
    using lapsesD [OF assms(2,4), of k] assms(3) by (force simp: expiry_live_def split: option.splits)
qed

end

subsection \<open>The in-memory backend keeps the contract\<close>

definition fake_set_of :: "set_address \<Rightarrow> set_backend \<Rightarrow> fake_set option" where
  "fake_set_of addr b = (case addr of (family, table, set_name) \<Rightarrow>
     Option.bind (map_of (sb_tables b) (family, table)) (\<lambda>sets. map_of sets set_name))"

definition live_view :: "datetime \<Rightarrow> set_backend \<Rightarrow> set_view" where
  "live_view now b addr k = Option.bind (fake_set_of addr b) (\<lambda>s. map_of (live_elements now (ks_elements s)) k)"

definition elements_fit :: "nat option \<Rightarrow> elements \<Rightarrow> bool" where
  "elements_fit capacity es \<longleftrightarrow> od_distinct es \<and> (case capacity of None \<Rightarrow> True | Some n \<Rightarrow> length es \<le> n)"

definition backend_inv :: "set_backend \<Rightarrow> bool" where
  "backend_inv b \<longleftrightarrow> (\<forall>addr s. fake_set_of addr b = Some s \<longrightarrow> elements_fit (ks_size s) (ks_elements s))"

lemma backend_invD: "backend_inv b \<Longrightarrow> fake_set_of addr b = Some s \<Longrightarrow> elements_fit (ks_size s) (ks_elements s)"
  unfolding backend_inv_def by blast

lemma fake_set_of_tables: "sb_tables b' = sb_tables b \<Longrightarrow> fake_set_of addr b' = fake_set_of addr b"
  by (simp add: fake_set_of_def)

lemma same_tables:
  assumes "sb_tables b' = sb_tables b"
  shows "live_view now b' = live_view now b" "backend_inv b' = backend_inv b"
  unfolding live_view_def backend_inv_def fake_set_of_tables [OF assms] by (rule refl)+

lemma sb_begin_tables: "sb_begin b = (r, b') \<Longrightarrow> sb_tables b' = sb_tables b \<and> sb_guards b' = sb_guards b"
  by (auto simp: sb_begin_def Let_def split: if_splits)

lemma sb_set_tables: "sb_set addr b = (r, b') \<Longrightarrow> sb_tables b' = sb_tables b \<and> sb_guards b' = sb_guards b"
  by (auto simp: sb_set_def split: option.splits prod.splits)

lemma sb_set_Inr: "sb_set addr b = (Inr s, b') \<longleftrightarrow> fake_set_of addr b = Some s \<and> b' = b"
  by (auto simp: sb_set_def fake_set_of_def split: option.splits prod.splits bind_splits)

lemma map_of_live_elements:
  assumes "od_distinct es"
  shows "map_of (live_elements now es) k = (case map_of es k of None \<Rightarrow> None | Some e \<Rightarrow> if expiry_live now e then Some e else None)"
  using assms
proof (induction es)
  case (Cons x es)
  obtain k' e where x: "x = (k', e)" by fastforce
  have "map_of es k' = None" using Cons.prems x by (simp add: map_of_None_iff_key)
  with Cons show ?case by (auto simp: x live_elements_def)
qed (simp add: live_elements_def)

lemma live_elements_fit: "elements_fit n es \<Longrightarrow> elements_fit n (live_elements now es)"
proof -
  assume fit: "elements_fit n es"
  have "length (live_elements now es) \<le> length es" unfolding live_elements_def by (rule length_filter_le)
  moreover have "od_distinct (live_elements now es)"
    using fit unfolding live_elements_def elements_fit_def by (auto intro: distinct_map_filter)
  ultimately show ?thesis using fit by (auto simp: elements_fit_def split: option.splits)
qed

lemma live_elements_all: "od_all (expiry_live now) (live_elements now es)"
  by (auto simp: od_all_def live_elements_def)

lemma live_elements_id: "od_all (expiry_live now) es \<Longrightarrow> live_elements now es = es"
  unfolding live_elements_def od_all_def by (rule filter_True) auto

lemma fake_set_of_store:
  "fake_set_of a (store_elements addr es b) =
     (if a = addr then map_option (\<lambda>s. s\<lparr>ks_elements := es\<rparr>) (fake_set_of addr b) else fake_set_of a b)"
  by (cases a; cases addr) (auto simp: store_elements_def fake_set_of_def split: option.splits)

lemma fake_set_of_commit:
  assumes "od_distinct staged"
  shows "fake_set_of a (fold (\<lambda>(addr, es) b. store_elements addr es b) staged b) =
    (case map_of staged a of
       None \<Rightarrow> fake_set_of a b
     | Some es \<Rightarrow> map_option (\<lambda>s. s\<lparr>ks_elements := es\<rparr>) (fake_set_of a b))"
  using assms
proof (induction staged arbitrary: b)
  case (Cons x staged)
  obtain addr es where x: "x = (addr, es)" by fastforce
  have "map_of staged addr = None" using Cons.prems x by (simp add: map_of_None_iff_key)
  with Cons.IH [of "store_elements addr es b"] Cons.prems show ?case
    by (cases "a = addr"; cases "map_of staged a") (simp_all add: x fake_set_of_store del: map_of_eq_None_iff)
qed simp

text \<open>What a stage holds for a set: its staged elements, or the live ones.\<close>

definition staged_elements :: "datetime \<Rightarrow> staged_sets \<Rightarrow> set_backend \<Rightarrow> set_address \<Rightarrow> elements option" where
  "staged_elements now staged b addr = (case map_of staged addr of
       Some es \<Rightarrow> Some es
     | None \<Rightarrow> map_option (\<lambda>s. live_elements now (ks_elements s)) (fake_set_of addr b))"

definition staged_view :: "datetime \<Rightarrow> staged_sets \<Rightarrow> set_backend \<Rightarrow> set_view" where
  "staged_view now staged b addr k = Option.bind (staged_elements now staged b addr) (\<lambda>es. map_of es k)"

definition stage_ok :: "datetime \<Rightarrow> staged_sets \<Rightarrow> set_backend \<Rightarrow> bool" where
  "stage_ok now staged b \<longleftrightarrow> od_distinct staged \<and>
     (\<forall>addr es. map_of staged addr = Some es \<longrightarrow> od_all (expiry_live now) es \<and>
        (\<exists>s. fake_set_of addr b = Some s \<and> elements_fit (ks_size s) es))"

lemma stage_op_ok:
  assumes "stage_op now op n es = Some es'" "elements_fit n es" "od_all (expiry_live now) es" "validate_element op = None"
  shows "elements_fit n es' \<and> od_all (expiry_live now) es'"
proof (cases "op_kind op = SO_DELETE")
  case True
  then show ?thesis using assms length_od_delete_le [of "op_key op" es]
    by (auto simp: stage_op_def elements_fit_def split: option.splits intro: order_trans)
next
  case False
  then have "op_kind op = SO_ADD" by (cases "op_kind op") auto
  then have "expiry_live now (op_expiry now op)"
    using assms(4) by (auto simp: validate_element_def expiry_live_def op_expiry_def split: option.splits if_splits)
  then show ?thesis using assms False
    by (auto simp: stage_op_def elements_fit_def op_expiry_def length_od_update expiry_live_def
        split: option.splits if_splits intro!: od_all_update)
qed

lemma stage_op_view:
  assumes "stage_op now op n es = Some es'"
  shows "map_of es' = (if op_kind op = SO_DELETE then (map_of es)(op_key op := None)
     else if map_of es (op_key op) \<noteq> None then map_of es else (map_of es)(op_key op \<mapsto> op_expiry now op))"
  using assms by (auto simp: stage_op_def op_expiry_def map_option_case split: if_splits simp del: map_of_eq_None_iff)

lemma stage_ops_ok:
  assumes "stage_ops now ops staged b = (Inr staged', b')" "backend_inv b" "stage_ok now staged b"
    "\<forall>op \<in> set ops. validate_element op = None"
  shows "b' = b \<and> stage_ok now staged' b \<and> staged_view now staged' b = fold (op_effect now) ops (staged_view now staged b)"
  using assms
proof (induction ops arbitrary: staged)
  case (Cons op ops)
  let ?a = "op_address op"
  obtain s where s: "fake_set_of ?a b = Some s" "sb_set ?a b = (Inr s, b)"
    using Cons.prems(1) by (auto simp: sb_set_Inr split: sum.splits prod.splits)
  define es where "es = (case map_of staged ?a of Some es \<Rightarrow> es | None \<Rightarrow> live_elements now (ks_elements s))"
  obtain es' where es': "stage_op now op (ks_size s) es = Some es'"
    and run: "stage_ops now ops (AList.update ?a es' staged) b = (Inr staged', b')"
    using Cons.prems(1) s(2) unfolding es_def by (auto simp: Let_def split: option.splits)
  have fit: "elements_fit (ks_size s) es \<and> od_all (expiry_live now) es"
  proof (cases "map_of staged ?a")
    case None
    then show ?thesis using backend_invD [OF Cons.prems(2) s(1)] live_elements_fit live_elements_all by (simp add: es_def del: map_of_eq_None_iff)
  next
    case (Some x)
    then show ?thesis using Cons.prems(3) s(1) unfolding es_def stage_ok_def by fastforce
  qed
  have ok: "elements_fit (ks_size s) es' \<and> od_all (expiry_live now) es'"
    using stage_op_ok [OF es'] fit Cons.prems(4) by simp
  have stage: "stage_ok now (AList.update ?a es' staged) b"
    unfolding stage_ok_def
  proof (intro conjI allI impI)
    show "od_distinct (AList.update ?a es' staged)" using Cons.prems(3) by (simp add: stage_ok_def)
    fix addr x assume "map_of (AList.update ?a es' staged) addr = Some x"
    then have "addr = ?a \<and> x = es' \<or> map_of staged addr = Some x" by (auto split: if_splits)
    then show "od_all (expiry_live now) x" "\<exists>s. fake_set_of addr b = Some s \<and> elements_fit (ks_size s) x"
      using ok s(1) Cons.prems(3) unfolding stage_ok_def by blast+
  qed
  have old: "staged_elements now staged b ?a = Some es"
    using s(1) by (simp add: staged_elements_def es_def split: option.splits)
  have "staged_view now (AList.update ?a es' staged) b addr k = op_effect now op (staged_view now staged b) addr k" for addr k
  proof (cases "addr = ?a")
    case True
    then have "staged_view now (AList.update ?a es' staged) b addr k = map_of es' k"
      by (simp add: staged_view_def staged_elements_def)
    also have "\<dots> = op_effect now op (staged_view now staged b) addr k"
      unfolding stage_op_view [OF es'] True by (simp add: op_effect_def staged_view_def old)
    finally show ?thesis .
  next
    case False
    then show ?thesis using op_effect_other [of addr op k now "staged_view now staged b"]
      by (simp add: staged_view_def staged_elements_def)
  qed
  then have "staged_view now (AList.update ?a es' staged) b = op_effect now op (staged_view now staged b)"
    by (intro ext)
  then show ?case using Cons.IH [OF run Cons.prems(2) stage] Cons.prems(4) by simp
qed simp

lemma stage_ops_error_tables: "stage_ops now ops staged b = (Inl e, b') \<Longrightarrow> sb_tables b' = sb_tables b"
proof (induction now ops staged b rule: stage_ops.induct)
  case (2 now op ops staged b)
  then show ?case using sb_set_tables by (auto simp: sb_set_Inr Let_def split: sum.splits prod.splits option.splits)
qed simp

lemma first_element_error_None: "first_element_error ops = None \<longleftrightarrow> (\<forall>op \<in> set ops. validate_element op = None)"
  by (induction ops) (auto split: option.splits)

lemma commit_view:
  assumes "stage_ok now staged b" "backend_inv b"
  defines "b' \<equiv> fold (\<lambda>(addr, es) b. store_elements addr es b) staged b"
  shows "backend_inv b'" "live_view now b' = staged_view now staged b"
proof -
  have commit: "fake_set_of a b' = (case map_of staged a of None \<Rightarrow> fake_set_of a b
      | Some es \<Rightarrow> map_option (\<lambda>s. s\<lparr>ks_elements := es\<rparr>) (fake_set_of a b))" for a
    using assms(1) unfolding b'_def stage_ok_def by (intro fake_set_of_commit) blast
  show "backend_inv b'"
    unfolding backend_inv_def
  proof (intro allI impI)
    fix a s assume s: "fake_set_of a b' = Some s"
    show "elements_fit (ks_size s) (ks_elements s)"
    proof (cases "map_of staged a")
      case None
      then show ?thesis using s commit [of a] backend_invD [OF assms(2)] by (simp del: map_of_eq_None_iff)
    next
      case (Some es)
      then obtain s' where "fake_set_of a b = Some s'" "elements_fit (ks_size s') es"
        using assms(1) unfolding stage_ok_def by blast
      then show ?thesis using s commit [of a] Some by auto
    qed
  qed
  have "live_view now b' a k = staged_view now staged b a k" for a k
  proof (cases "map_of staged a")
    case None
    then show ?thesis using commit [of a]
      by (simp add: live_view_def staged_view_def staged_elements_def del: map_of_eq_None_iff split: bind_splits)
  next
    case (Some es)
    then obtain s where "fake_set_of a b = Some s" "od_all (expiry_live now) es"
      using assms(1) unfolding stage_ok_def by blast
    then show ?thesis using commit [of a] Some
      by (simp add: live_view_def staged_view_def staged_elements_def live_elements_id del: map_of_eq_Some_iff)
  qed
  then show "live_view now b' = staged_view now staged b" by (intro ext)
qed

lemma staged_view_Nil: "staged_view now [] b = live_view now b"
  by (intro ext) (simp add: staged_view_def staged_elements_def live_view_def split: bind_splits)

lemma sb_apply_ok:
  assumes "backend_inv b" "sb_apply now ops b = (None, b')"
  shows "backend_inv b'" "live_view now b' = fold (op_effect now) ops (live_view now b)"
    "\<forall>op \<in> set ops. validate_element op = None"
proof -
  consider "ops = []" "b' = b" | b1 staged b2 where "sb_begin b = (None, b1)" "first_element_error ops = None"
      "stage_ops now ops [] b1 = (Inr staged, b2)"
      "b' = (fold (\<lambda>(addr, es) b. store_elements addr es b) staged b2)
        \<lparr>sb_ops := sb_ops (fold (\<lambda>(addr, es) b. store_elements addr es b) staged b2) @ [Applied ops]\<rparr>"
    using assms(2) by (auto simp: sb_apply_def Let_def split: if_splits option.splits sum.splits prod.splits)
  then have "backend_inv b' \<and> live_view now b' = fold (op_effect now) ops (live_view now b)
    \<and> (\<forall>op \<in> set ops. validate_element op = None)"
  proof cases
    case 1
    then show ?thesis using assms(1) by simp
  next
    case (2 b1 staged b2)
    have tab: "sb_tables b1 = sb_tables b" using sb_begin_tables [OF 2(1)] by simp
    have inv1: "backend_inv b1" using assms(1) same_tables(2) [OF tab] by simp
    have valid: "\<forall>op \<in> set ops. validate_element op = None" using 2(2) by (simp add: first_element_error_None)
    have "stage_ok now [] b1" by (simp add: stage_ok_def)
    from stage_ops_ok [OF 2(3) inv1 this valid]
    have st: "b2 = b1" "stage_ok now staged b1" "staged_view now staged b1 = fold (op_effect now) ops (live_view now b1)"
      by (simp_all add: staged_view_Nil)
    let ?b3 = "fold (\<lambda>(addr, es) b. store_elements addr es b) staged b1"
    have tab': "sb_tables b' = sb_tables ?b3" using 2(4) st(1) by simp
    show ?thesis
      using commit_view [OF st(2) inv1] st(3) valid same_tables [OF tab'] same_tables(1) [OF tab] by simp
  qed
  then show "backend_inv b'" "live_view now b' = fold (op_effect now) ops (live_view now b)"
    "\<forall>op \<in> set ops. validate_element op = None" by blast+
qed

lemma sb_apply_error: "sb_apply now ops b = (Some e, b') \<Longrightarrow> sb_tables b' = sb_tables b"
  by (auto simp: sb_apply_def Let_def split: if_splits option.splits sum.splits prod.splits
      dest!: sb_begin_tables stage_ops_error_tables)

lemma live_view_later:
  assumes "backend_inv b" "now \<le> t"
  shows "live_view t b addr k = (case live_view now b addr k of None \<Rightarrow> None | Some e \<Rightarrow> if expiry_live t e then Some e else None)"
proof (cases "fake_set_of addr b")
  case (Some s)
  have "od_distinct (ks_elements s)" using backend_invD [OF assms(1) Some] by (simp add: elements_fit_def)
  moreover have "expiry_live t e \<Longrightarrow> expiry_live now e" for e using assms(2) by (auto simp: expiry_live_def split: option.splits)
  ultimately show ?thesis using Some by (auto simp: live_view_def map_of_live_elements split: option.splits)
qed (simp add: live_view_def)

interpretation kernel: kernel_sets backend_inv live_view sb_apply
proof unfold_locales
  show "backend_inv s' \<and> live_view now s' = fold (op_effect now) ops (live_view now s) \<and> (\<forall>op \<in> set ops. validate_element op = None)"
    if "backend_inv s" "sb_apply now ops s = (None, s')" for s now ops s'
    using sb_apply_ok [OF that] by blast
  show "backend_inv s' \<and> live_view t s' = live_view t s" if "backend_inv s" "sb_apply now ops s = (Some e, s')" for s now ops e s' t
    using same_tables [OF sb_apply_error [OF that(2)]] that(1) by simp
qed (rule live_view_later)

subsection \<open>Loading, flushing, panic\<close>

lemma sb_apply_guards: "sb_guards (snd (sb_apply now ops b)) = sb_guards b"
proof -
  have store: "sb_guards (store_elements a es b) = sb_guards b" for a es b
    by (auto simp: store_elements_def split: option.splits prod.splits)
  then have commit: "sb_guards (fold (\<lambda>(addr, es) b. store_elements addr es b) staged b) = sb_guards b" for staged b
    by (induction staged arbitrary: b) (auto simp: case_prod_unfold)
  have stage: "stage_ops now ops staged b = (r, b') \<Longrightarrow> sb_guards b' = sb_guards b" for ops staged b r b'
    by (induction now ops staged b rule: stage_ops.induct)
       (auto simp: Let_def split: sum.splits prod.splits option.splits dest!: sb_set_tables)
  show ?thesis
    by (auto simp: sb_apply_def Let_def commit split: option.splits sum.splits prod.splits
        dest!: sb_begin_tables stage)
qed

lemma adaptive_writable_tables: "adaptive_writable names b = (r, b') \<Longrightarrow> sb_tables b' = sb_tables b \<and> sb_guards b' = sb_guards b"
  by (induction names b rule: adaptive_writable.induct)
     (auto split: if_splits sum.splits prod.splits dest!: sb_set_tables)

lemma store_elements_guards [simp]: "sb_guards (store_elements a es b) = sb_guards b"
  by (auto simp: store_elements_def split: option.splits prod.splits)

lemma fake_set_of_flush:
  "fake_set_of a (fold (\<lambda>n b. store_elements (f, t, n) [] b) names b) =
     (if \<exists>n \<in> set names. a = (f, t, n) then map_option (\<lambda>s. s\<lparr>ks_elements := []\<rparr>) (fake_set_of a b) else fake_set_of a b)"
  by (induction names arbitrary: b) (auto simp: fake_set_of_store option.map_comp comp_def)

lemma flush_guards: "sb_guards (fold (\<lambda>n b. store_elements (f, t, n) [] b) names b) = sb_guards b"
  by (induction names arbitrary: b) simp_all

lemma flushed_inv: "backend_inv b \<Longrightarrow> backend_inv (fold (\<lambda>n b. store_elements (f, t, n) [] b) names b)"
  unfolding backend_inv_def fake_set_of_flush by (auto simp: elements_fit_def split: option.splits if_splits)

lemma sb_flush_sets_result:
  assumes "sb_flush_sets names b = (r, b')" "backend_inv b"
  shows "backend_inv b' \<and> sb_guards b' = sb_guards b
    \<and> (r = None \<longrightarrow> (\<forall>t addr k. live_view t b' addr k =
          (if \<exists>n \<in> set names. addr = (INET_FAMILY, ADAPTIVE_TABLE, n) then None else live_view t b addr k)))
    \<and> (r \<noteq> None \<longrightarrow> sb_tables b' = sb_tables b)"
proof -
  let ?flush = "\<lambda>b. fold (\<lambda>n b. store_elements (INET_FAMILY, ADAPTIVE_TABLE, n) [] b) (sort (remdups names)) b"
  consider e where "r = Some e" "sb_tables b' = sb_tables b" "sb_guards b' = sb_guards b"
    | b2 where "r = None" "sb_tables b2 = sb_tables b" "sb_guards b2 = sb_guards b" "sb_tables b' = sb_tables (?flush b2)"
        "sb_guards b' = sb_guards (?flush b2)"
    using assms(1)
    by (auto simp: sb_flush_sets_def Let_def split: option.splits prod.splits
        dest!: sb_begin_tables adaptive_writable_tables)
  then show ?thesis
  proof cases
    case 1
    then show ?thesis using assms(2) same_tables [OF 1(2)] by simp
  next
    case (2 b2)
    have inv: "backend_inv b2" using assms(2) same_tables(2) [OF 2(2)] by simp
    have "live_view t b' addr k = (if \<exists>n \<in> set names. addr = (INET_FAMILY, ADAPTIVE_TABLE, n) then None else live_view t b addr k)" for t addr k
      unfolding same_tables(1) [OF 2(4)] unfolding live_view_def fake_set_of_flush fake_set_of_tables [OF 2(2)]
      by (auto simp: live_elements_def split: option.splits bind_splits)
    moreover have "backend_inv b'" using flushed_inv [OF inv] same_tables(2) [OF 2(4)] by blast
    ultimately show ?thesis using 2 flush_guards by simp
  qed
qed

lemma fold_delete_lookup: "map_of (fold AList.delete ks d) k = (if k \<in> set ks then None else map_of d k)"
  by (induction ks arbitrary: d) auto

lemma sb_panic_result:
  assumes "sb_panic b = (r, b')"
  shows "case r of
      Inl e \<Rightarrow> sb_tables b' = sb_tables b
    | Inr ts \<Rightarrow> ts = PANIC_TABLES \<and> (\<forall>loc. map_of (sb_tables b') loc = (if loc \<in> set PANIC_TABLES then None else map_of (sb_tables b) loc))"
  using assms by (auto simp: sb_panic_def fold_delete_lookup split: option.splits prod.splits dest!: sb_begin_tables)

lemma panic_inv:
  assumes "sb_panic b = (r, b')" "backend_inv b"
  shows "backend_inv b'"
proof (cases r)
  case (Inl e)
  then show ?thesis using sb_panic_result [OF assms(1)] same_tables(2) [of b' b] assms(2) by simp
next
  case (Inr ts)
  then have "fake_set_of addr b' = Some s \<Longrightarrow> fake_set_of addr b = Some s" for addr s
    using sb_panic_result [OF assms(1)]
    by (cases addr) (auto simp: fake_set_of_def split: bind_splits if_splits)
  then show ?thesis using assms(2) unfolding backend_inv_def by blast
qed

text \<open>A freshly loaded backend: every set empty.\<close>

definition blank_sets :: "(string, fake_set) odict \<Rightarrow> bool" where
  "blank_sets sets \<longleftrightarrow> od_all (\<lambda>s. ks_elements s = []) sets"

lemma blank_setdefault: "blank_sets sets \<Longrightarrow> blank_sets (od_setdefault n (new_fake_set c) sets)"
  unfolding blank_sets_def od_setdefault_def new_fake_set_def by (simp add: od_all_update)

lemma blank_ensure_sets: "blank_sets sets \<Longrightarrow> blank_sets (ensure_sets n names sets)"
  unfolding ensure_sets_def by (induction names arbitrary: sets) (simp_all add: blank_setdefault)

lemma blank_ensure_table:
  assumes "od_all blank_sets tables" "\<And>sets. blank_sets sets \<Longrightarrow> blank_sets (f sets)"
  shows "od_all blank_sets (ensure_table loc f tables)"
proof -
  have "blank_sets (case map_of tables loc of None \<Rightarrow> [] | Some sets \<Rightarrow> sets)"
    using od_all_lookup [OF assms(1)] by (auto simp: blank_sets_def split: option.splits)
  then show ?thesis unfolding ensure_table_def using assms by (intro od_all_update) blast+
qed

lemma new_set_backend_blank: "od_all blank_sets (sb_tables (new_set_backend n m gs))"
  unfolding new_set_backend_def load_tables_def
  by (simp, intro blank_ensure_table) (auto intro!: blank_ensure_sets)

lemma blank_empty:
  assumes "od_all blank_sets (sb_tables b)"
  shows "live_view t b addr k = None" "backend_inv b"
proof -
  have e: "ks_elements s = []" if fs: "fake_set_of addr b = Some s" for addr s
  proof -
    obtain f t n where addr: "addr = (f, t, n)" by (cases addr) auto
    then obtain sets where sets: "map_of (sb_tables b) (f, t) = Some sets" "map_of sets n = Some s"
      using fs by (auto simp: fake_set_of_def split: bind_splits)
    then have "od_all (\<lambda>s. ks_elements s = []) sets" using od_all_lookup [OF assms] by (simp add: blank_sets_def)
    from od_all_lookup [OF this sets(2)] show ?thesis .
  qed
  then show "live_view t b addr k = None"
    by (auto simp: live_view_def live_elements_def split: bind_splits)
  show "backend_inv b" unfolding backend_inv_def using e by (auto simp: elements_fit_def split: option.splits)
qed

lemmas new_set_backend_empty = blank_empty [OF new_set_backend_blank]

subsection \<open>What the backend guarantees\<close>

text \<open>
  C31: A batch is all or nothing. Whatever the operations and the backend's state, either the batch
  raises and every set holds the same elements as before at every time, or each operation passed the
  single-writer check and the live elements are exactly the old ones with the operations applied in
  order (a re-added element keeps its expiry, a missing one is deleted silently). Either way no set
  exceeds its declared size, and no set another writer owns changes.
\<close>

theorem set_batch_atomic:
  assumes "backend_inv b" "map_of MANAGER_WRITABLE_SETS other = None"
  shows "(case sb_apply now ops b of
      (Some e, b') \<Rightarrow> \<forall>t. live_view t b' = live_view t b
    | (None, b') \<Rightarrow> live_view now b' = fold (op_effect now) ops (live_view now b) \<and> (\<forall>op \<in> set ops. validate_element op = None))
    \<and> backend_inv (snd (sb_apply now ops b))
    \<and> live_view now (snd (sb_apply now ops b)) other = live_view now b other"
proof (intro conjI)
  show "case sb_apply now ops b of
      (Some e, b') \<Rightarrow> \<forall>t. live_view t b' = live_view t b
    | (None, b') \<Rightarrow> live_view now b' = fold (op_effect now) ops (live_view now b) \<and> (\<forall>op \<in> set ops. validate_element op = None)"
    using kernel.apply_ok [OF assms(1)] kernel.apply_error [OF assms(1)] by (auto split: prod.splits option.splits)
qed (use kernel.apply_inv [OF assms(1)] kernel.apply_frame [OF assms] in blast)+

definition example_block_op :: set_op where
  "example_block_op = \<lparr>op_kind = SO_ADD, op_set_name = SET_BLOCK4, op_key = Single (show_ipv4 (ipv4 10 0 0 5)),
     op_timeout_seconds = Some 600, op_table = ADAPTIVE_TABLE, op_family = INET_FAMILY\<rparr>"

theorem set_batch_atomic_witness:
  "backend_inv (snd (sb_apply 0 [example_block_op] (new_set_backend 4 4 None)))
   \<and> live_view 0 (snd (sb_apply 0 [example_block_op] (new_set_backend 4 4 None))) (INET_FAMILY, STATIC_TABLE, SET_OFFENDERS)
     = live_view 0 (new_set_backend 4 4 None) (INET_FAMILY, STATIC_TABLE, SET_OFFENDERS)"
proof -
  have "map_of MANAGER_WRITABLE_SETS (INET_FAMILY, STATIC_TABLE, SET_OFFENDERS) = None"
    by (simp add: MANAGER_WRITABLE_SETS_def nft_name_defs)
  from set_batch_atomic [OF new_set_backend_empty(2) this] show ?thesis by blast
qed

definition run_batches :: "(datetime \<times> set_op list) list \<Rightarrow> set_backend \<Rightarrow> set_backend" where
  "run_batches batches b = fold (\<lambda>(now, ops) b. snd (sb_apply now ops b)) batches b"

lemma run_batches_lapses:
  assumes "backend_inv b" "lapses_within_the_hour now (live_view now b)" "sorted (map fst batches)"
    "\<forall>x \<in> set batches. now \<le> fst x" "now \<le> last_time" "\<forall>x \<in> set batches. fst x \<le> last_time"
  shows "backend_inv (run_batches batches b) \<and> lapses_within_the_hour last_time (live_view last_time (run_batches batches b))"
  using assms
proof (induction batches arbitrary: b now)
  case Nil
  then show ?case using kernel.lapses_later [OF Nil.prems(1,2,5)] by (simp add: run_batches_def)
next
  case (Cons x batches)
  obtain t ops where x: "x = (t, ops)" by fastforce
  have t: "now \<le> t" "t \<le> last_time" "\<forall>y \<in> set batches. t \<le> fst y" using Cons.prems(3-6) by (simp_all add: x)
  have "lapses_within_the_hour t (live_view t b)" using Cons.prems(1,2) t(1) by (rule kernel.lapses_later)
  then have "lapses_within_the_hour t (live_view t (snd (sb_apply t ops b)))"
    using Cons.prems(1) by (intro kernel.apply_lapses)
  from Cons.IH [OF kernel.apply_inv [OF Cons.prems(1)] this _ t(3,2)] Cons.prems(3,6)
  show ?case by (simp add: run_batches_def x)
qed

text \<open>
  C9: A block cannot outlive its writer by more than an hour. Start from freshly loaded tables and let
  any batches, valid or not, be submitted at times that do not run backwards: an hour after the last
  one (and for ever after, if nothing more is written) every enforcement set is empty, whatever was
  added, re-added or upgraded in between.
\<close>

theorem enforcement_ends_within_an_hour:
  assumes "sorted (map fst batches)" "\<forall>x \<in> set batches. fst x \<le> last_time"
    "last_time + seconds MAX_ELEMENT_TIMEOUT_SECONDS \<le> t" "enforcement_address addr"
  shows "live_view t (run_batches batches (new_set_backend n m modes)) addr k = None"
proof -
  define start where "start = Min (insert last_time (fst ` set batches))"
  have "lapses_within_the_hour start (live_view start (new_set_backend n m modes))"
    by (simp add: lapses_within_the_hour_def new_set_backend_empty)
  moreover have "\<forall>x \<in> set batches. start \<le> fst x" "start \<le> last_time" by (simp_all add: start_def)
  ultimately have "backend_inv (run_batches batches (new_set_backend n m modes))
      \<and> lapses_within_the_hour last_time (live_view last_time (run_batches batches (new_set_backend n m modes)))"
    using run_batches_lapses [OF new_set_backend_empty(2) _ assms(1) _ _ assms(2)] by blast
  then show ?thesis using kernel.nothing_enforced_after_an_hour assms(3,4) by blast
qed

theorem enforcement_ends_within_an_hour_witness:
  "live_view (seconds 3700) (run_batches [(seconds 0, [example_block_op]), (seconds 100, [example_block_op])] (new_set_backend 4 4 None))
     (INET_FAMILY, ADAPTIVE_TABLE, SET_BLOCK4) (Single (show_ipv4 (ipv4 10 0 0 5))) = None"
  by (rule enforcement_ends_within_an_hour [where last_time = "seconds 100"])
     (simp_all add: MAX_ELEMENT_TIMEOUT_SECONDS_def seconds_def enforcement_address_def MANAGER_WRITABLE_SETS_def nft_name_defs)

end
