(* ===== verification/Fake_Backend.thy ===== *)
theory Fake_Backend
  imports Models
begin

section \<open>The version 1 firewall backend\<close>

text \<open>
  \<open>firewall/backend/fake.py\<close>: the in-memory implementation of the protocol \<open>FirewallBackend\<close>
  (\<open>firewall/interface.py\<close>): deployed rules by identifier and the captive portal's authorised set. Every
  operation returns whether it raised a \<open>FirewallError\<close>.
\<close>

record firewall_backend =
  fb_deployed_rules :: "(string, firewall_rule) odict"
  fb_fail_on_apply :: bool
  fb_fail_on_remove :: bool
  fb_fail_on_portal :: bool
  fb_apply_calls :: nat
  fb_remove_calls :: nat
  fb_portal_clients :: "(ipv4_address, datetime option) odict"
  fb_portal_macs :: "(ipv4_address, mac_address option) odict"
  fb_portal_authorize_calls :: nat
  fb_portal_deauthorize_calls :: nat
  fb_now :: "datetime option"

definition new_firewall_backend :: "bool \<Rightarrow> bool \<Rightarrow> bool \<Rightarrow> firewall_backend" where
  "new_firewall_backend fail_on_apply fail_on_remove fail_on_portal =
     \<lparr>fb_deployed_rules = [], fb_fail_on_apply = fail_on_apply, fb_fail_on_remove = fail_on_remove,
      fb_fail_on_portal = fail_on_portal, fb_apply_calls = 0, fb_remove_calls = 0, fb_portal_clients = [],
      fb_portal_macs = [], fb_portal_authorize_calls = 0, fb_portal_deauthorize_calls = 0, fb_now = None\<rparr>"

definition fb_set_clock :: "datetime \<Rightarrow> firewall_backend \<Rightarrow> firewall_backend" where
  "fb_set_clock now b = b\<lparr>fb_now := Some now\<rparr>"

definition fb_apply_rule :: "firewall_rule \<Rightarrow> firewall_backend \<Rightarrow> bool \<times> firewall_backend" where
  "fb_apply_rule r b =
     (let b1 = b\<lparr>fb_apply_calls := fb_apply_calls b + 1\<rparr>
      in if fb_fail_on_apply b then (False, b1)
         else (True, b1\<lparr>fb_deployed_rules := AList.update (fr_id r) r (fb_deployed_rules b)\<rparr>))"

definition fb_remove_rule :: "string \<Rightarrow> firewall_backend \<Rightarrow> bool \<times> firewall_backend" where
  "fb_remove_rule rule_id b =
     (let b1 = b\<lparr>fb_remove_calls := fb_remove_calls b + 1\<rparr>
      in if fb_fail_on_remove b then (False, b1)
         else (True, b1\<lparr>fb_deployed_rules := AList.delete rule_id (fb_deployed_rules b)\<rparr>))"

definition fb_list_active_rule_ids :: "firewall_backend \<Rightarrow> string list" where
  "fb_list_active_rule_ids b = map fst (fb_deployed_rules b)"

definition fb_authorize :: "ipv4_address \<Rightarrow> int \<Rightarrow> mac_address option \<Rightarrow> firewall_backend \<Rightarrow> bool \<times> firewall_backend" where
  "fb_authorize ip timeout mac b =
     (let b1 = b\<lparr>fb_portal_authorize_calls := fb_portal_authorize_calls b + 1\<rparr>
      in if fb_fail_on_portal b then (False, b1)
         else (True, b1\<lparr>fb_portal_clients := AList.update ip (map_option (\<lambda>n. n + seconds timeout) (fb_now b)) (fb_portal_clients b),
                        fb_portal_macs := AList.update ip mac (fb_portal_macs b)\<rparr>))"

text \<open>\<open>portal_macs.get(ip) == mac\<close>: an address without an entry reads as \<open>None\<close>.\<close>

definition fb_deauthorize :: "ipv4_address \<Rightarrow> mac_address option \<Rightarrow> firewall_backend \<Rightarrow> bool \<times> firewall_backend" where
  "fb_deauthorize ip mac b =
     (let b1 = b\<lparr>fb_portal_deauthorize_calls := fb_portal_deauthorize_calls b + 1\<rparr>
      in if fb_fail_on_portal b then (False, b1)
         else if (case map_of (fb_portal_macs b) ip of None \<Rightarrow> None | Some m \<Rightarrow> m) = mac
         then (True, b1\<lparr>fb_portal_clients := AList.delete ip (fb_portal_clients b),
                        fb_portal_macs := AList.delete ip (fb_portal_macs b)\<rparr>)
         else (True, b1))"

definition fb_list_portal_clients :: "firewall_backend \<Rightarrow> ipv4_address list \<times> firewall_backend" where
  "fb_list_portal_clients b = (case fb_now b of
       None \<Rightarrow> (map fst (fb_portal_clients b), b)
     | Some now \<Rightarrow>
         let clients = filter (\<lambda>(ip, e). case e of None \<Rightarrow> True | Some t \<Rightarrow> t > now) (fb_portal_clients b);
             live = map fst clients
         in (live, b\<lparr>fb_portal_clients := clients,
                     fb_portal_macs := filter (\<lambda>(ip, m). ip \<in> set live) (fb_portal_macs b)\<rparr>))"

definition fb_list_portal_grants :: "firewall_backend \<Rightarrow> (ipv4_address \<times> mac_address option) list \<times> firewall_backend" where
  "fb_list_portal_grants b =
     (let (live, b') = fb_list_portal_clients b
      in (map (\<lambda>ip. (ip, case map_of (fb_portal_macs b') ip of None \<Rightarrow> None | Some m \<Rightarrow> m)) live, b'))"

end
