(* ===== verification/Manager.thy ===== *)
theory Manager
  imports Fake_Sets Fake_Backend Bindings "HOL-Library.Product_Lexorder"
begin

section \<open>The firewall manager\<close>

text \<open>
  \<open>firewall/manager.py\<close>: \<open>FirewallManager\<close> with its rule store, its audit trail and the two enforcement
  paths, the version 1 backend and, when it was built with one, the set backend. Each operation takes the
  time \<open>now\<close>, which is also what the set backend's clock reads. The set backend's \<open>FirewallError\<close> is a
  value, so every \<open>try\<close> and every \<open>contextlib.suppress\<close> of the source is a case of the model; where an
  exception leaves an operation, the result says so. The wording of reasons (in events and in the audit
  trail) is not modelled. The serialising wrapper \<open>_SerializedSetBackend\<close> only adds a lock.
\<close>

subsection \<open>State\<close>

datatype event_severity = ES_INFO | ES_WARNING | ES_ERROR | ES_CRITICAL

datatype security_event_type = SET_THREAT_DETECTED | SET_FIREWALL_BLOCK | SET_FIREWALL_ALLOW | SET_RULE_CREATED
  | SET_RULE_DEPLOYED | SET_RULE_REJECTED | SET_RULE_EXPIRED | SET_MODEL_ERROR | SET_CAPTURE_ERROR | SET_FLOW_ERROR
  | SET_FIREWALL_ERROR | SET_AUTHENTICATION_FAILURE | SET_SYSTEM_WARNING | SET_POLICY_DECISION

record security_event =
  ev_timestamp :: datetime
  ev_severity :: event_severity
  ev_type :: security_event_type
  ev_rule_id :: "string option"
  ev_threat_score :: "real option"
  ev_decision :: "firewall_action option"

definition system_event :: "datetime \<Rightarrow> event_severity \<Rightarrow> security_event" where
  "system_event now sev = \<lparr>ev_timestamp = now, ev_severity = sev, ev_type = SET_SYSTEM_WARNING, ev_rule_id = None,
     ev_threat_score = None, ev_decision = None\<rparr>"

record rule_transition =
  tr_rule_id :: string
  tr_from_status :: "rule_status option"
  tr_to_status :: rule_status
  tr_at :: datetime

record submission_result =
  sr_rule :: "firewall_rule option"
  sr_event :: security_event

record manager_config =
  mc_validation :: validation_config
  mc_enforcement_mode :: enforcement_mode
  mc_assisted_review_threshold :: real
  mc_max_adaptive_rules_per_window :: int
  mc_rate_window_seconds :: int
  mc_allowlist :: "allowlist_entry list"
  mc_grace_seconds :: int

text \<open>\<open>AllowlistStore\<close>: the persisted entries; writing the file is left out.\<close>

type_synonym allowlist_store = "(string, allowlist_entry) odict"

definition list_entries :: "allowlist_store \<Rightarrow> allowlist_entry list" where
  "list_entries s = sort_key al_id (map snd s)"

definition store_add :: "allowlist_entry \<Rightarrow> allowlist_store \<Rightarrow> allowlist_store" where
  "store_add e s = AList.update (al_id e) e s"

definition store_remove :: "string \<Rightarrow> allowlist_store \<Rightarrow> bool \<times> allowlist_store" where
  "store_remove entry_id s = (if map_of s entry_id = None then (False, s) else (True, AList.delete entry_id s))"

record firewall_manager =
  fm_config :: manager_config
  fm_local_addresses :: "local_addresses option"
  fm_backend :: firewall_backend
  fm_sets :: "set_backend option"
  fm_mac_resolver :: "(ipv4_address \<Rightarrow> mac_address option) option"
  fm_targets :: "(string, rule_target) odict"
  fm_rules :: "(string, firewall_rule) odict"
  fm_known_decision_ids :: "string list"
  fm_transitions :: "rule_transition list"
  fm_rate_limiter :: rate_limiter
  fm_enforcement_mode :: enforcement_mode
  fm_allowlist_store :: "allowlist_store option"
  fm_allowlist :: "allowlist_entry list"

definition new_firewall_manager :: "manager_config \<Rightarrow> firewall_backend \<Rightarrow> allowlist_store option \<Rightarrow> set_backend option
    \<Rightarrow> (ipv4_address \<Rightarrow> mac_address option) option \<Rightarrow> local_addresses option \<Rightarrow> firewall_manager" where
  "new_firewall_manager config backend store sets resolver local_addrs =
     \<lparr>fm_config = config, fm_local_addresses = local_addrs, fm_backend = backend, fm_sets = sets,
      fm_mac_resolver = resolver, fm_targets = [], fm_rules = [], fm_known_decision_ids = [], fm_transitions = [],
      fm_rate_limiter = new_rate_limiter (mc_max_adaptive_rules_per_window config) (seconds (mc_rate_window_seconds config)),
      fm_enforcement_mode = mc_enforcement_mode config, fm_allowlist_store = store,
      fm_allowlist = mc_allowlist config @ (case store of None \<Rightarrow> [] | Some s \<Rightarrow> list_entries s)\<rparr>"

abbreviation fm_protected :: "firewall_manager \<Rightarrow> ipv4_network" where
  "fm_protected m \<equiv> vc_protected_network (mc_validation (fm_config m))"

subsection \<open>Rules and the audit trail\<close>

definition record_transition :: "string \<Rightarrow> rule_status option \<Rightarrow> rule_status \<Rightarrow> datetime \<Rightarrow> firewall_manager \<Rightarrow> firewall_manager" where
  "record_transition rule_id from_status to_status at' m =
     m\<lparr>fm_transitions := fm_transitions m @
        [\<lparr>tr_rule_id = rule_id, tr_from_status = from_status, tr_to_status = to_status, tr_at = at'\<rparr>]\<rparr>"

definition put_rule :: "firewall_rule \<Rightarrow> firewall_manager \<Rightarrow> firewall_manager" where
  "put_rule r m = m\<lparr>fm_rules := AList.update (fr_id r) r (fm_rules m)\<rparr>"

definition active_rules :: "firewall_manager \<Rightarrow> firewall_rule list" where
  "active_rules m = filter (\<lambda>r. fr_status r = RS_ACTIVE) (map snd (fm_rules m))"

text \<open>Where a version 2 rule's element lives, from its metadata.\<close>

definition META_SET :: string where "META_SET = ''v2_set''"
definition META_KEY :: string where "META_KEY = ''v2_key''"

definition element_of :: "'a rule_fields_scheme \<Rightarrow> (string \<times> string) option" where
  "element_of r = (case (map_of (rf_metadata r) META_SET, map_of (rf_metadata r) META_KEY) of
       (Some set_name, Some key) \<Rightarrow> Some (set_name, key)
     | _ \<Rightarrow> None)"

definition adaptive_op :: "set_op_kind \<Rightarrow> string \<Rightarrow> set_key \<Rightarrow> int option \<Rightarrow> set_op" where
  "adaptive_op kind set_name key timeout = \<lparr>op_kind = kind, op_set_name = set_name, op_key = key,
     op_timeout_seconds = timeout, op_table = ADAPTIVE_TABLE, op_family = INET_FAMILY\<rparr>"

definition delete_ops :: "firewall_rule \<Rightarrow> set_op list" where
  "delete_ops r = (case element_of r of
       None \<Rightarrow> []
     | Some (set_name, key) \<Rightarrow> [adaptive_op SO_DELETE set_name (Single key) None])"

text \<open>\<open>_delete_element\<close>, and removing a rule from whichever backend enforces it with the error suppressed.\<close>

definition delete_element :: "datetime \<Rightarrow> firewall_rule \<Rightarrow> set_backend \<Rightarrow> backend_error option \<times> set_backend" where
  "delete_element now r sets = (let ops = delete_ops r in if ops \<noteq> [] then sb_apply now ops sets else (None, sets))"

definition withdraw :: "datetime \<Rightarrow> firewall_rule \<Rightarrow> firewall_manager \<Rightarrow> firewall_manager" where
  "withdraw now r m = (case fm_sets m of
       Some sets \<Rightarrow> m\<lparr>fm_sets := Some (snd (delete_element now r sets))\<rparr>
     | None \<Rightarrow> m\<lparr>fm_backend := snd (fb_remove_rule (fr_id r) (fm_backend m))\<rparr>)"

definition retire_rule :: "string \<Rightarrow> rule_status \<Rightarrow> datetime \<Rightarrow> firewall_manager \<Rightarrow> firewall_rule option \<times> firewall_manager" where
  "retire_rule rule_id to_status now m = (case map_of (fm_rules m) rule_id of
       None \<Rightarrow> (None, m)
     | Some r \<Rightarrow>
         if fr_status r \<noteq> RS_ACTIVE then (None, m)
         else let r' = r\<lparr>fr_status := to_status\<rparr>;
                  m1 = withdraw now r m;
                  m2 = m1\<lparr>fm_rules := AList.update rule_id r' (fm_rules m1)\<rparr>
              in (Some r', record_transition rule_id (Some RS_ACTIVE) to_status now m2))"

definition disable_rule :: "string \<Rightarrow> datetime \<Rightarrow> firewall_manager \<Rightarrow> firewall_rule option \<times> firewall_manager" where
  "disable_rule rule_id now m = retire_rule rule_id RS_DISABLED now m"

definition remove_rule :: "string \<Rightarrow> datetime \<Rightarrow> firewall_manager \<Rightarrow> firewall_rule option \<times> firewall_manager" where
  "remove_rule rule_id now m = retire_rule rule_id RS_REMOVED now m"

fun expire_loop :: "datetime \<Rightarrow> firewall_rule list \<Rightarrow> firewall_rule list \<Rightarrow> firewall_manager \<Rightarrow> firewall_rule list \<times> firewall_manager" where
  "expire_loop now [] expired m = (expired, m)"
| "expire_loop now (r # rs) expired m =
     (if fr_status r \<noteq> RS_ACTIVE then expire_loop now rs expired m
      else (case fr_expires_at r of
              None \<Rightarrow> expire_loop now rs expired m
            | Some t \<Rightarrow>
                if t > now then expire_loop now rs expired m
                else (case retire_rule (fr_id r) RS_EXPIRED now m of
                        (None, m') \<Rightarrow> expire_loop now rs expired m'
                      | (Some r', m') \<Rightarrow> expire_loop now rs (expired @ [r']) m')))"

definition expire_rules :: "datetime \<Rightarrow> firewall_manager \<Rightarrow> firewall_rule list \<times> firewall_manager" where
  "expire_rules now m = expire_loop now (map snd (fm_rules m)) [] m"

subsection \<open>Allowlist entries\<close>

definition allow_bound_pair :: "allowlist_entry \<Rightarrow> (string \<times> string) option" where
  "allow_bound_pair e = (case al_mac e of
       None \<Rightarrow> None
     | Some mac \<Rightarrow> if prefixlen (al_target e) \<noteq> 32 then None else Some (mac, show_ipv4 (network_address (al_target e))))"

text \<open>The set of pairs is a list without repetition.\<close>

definition allow_bound_pairs :: "string option \<Rightarrow> allowlist_entry list \<Rightarrow> (string \<times> string) list" where
  "allow_bound_pairs exclude entries =
     remdups (List.map_filter (\<lambda>e. if Some (al_id e) \<noteq> exclude then allow_bound_pair e else None) entries)"

definition ALLOW_BOUND_TABLES :: "string list" where
  "ALLOW_BOUND_TABLES = [STATIC_TABLE, ADAPTIVE_TABLE]"

definition allow_bound_op :: "set_op_kind \<Rightarrow> string \<Rightarrow> string \<times> string \<Rightarrow> set_op" where
  "allow_bound_op kind table pair = \<lparr>op_kind = kind, op_set_name = SET_ALLOW_BOUND,
     op_key = Concat (fst pair) (snd pair), op_timeout_seconds = None, op_table = table, op_family = INET_FAMILY\<rparr>"

definition allow_bound_ops :: "set_op_kind \<Rightarrow> string \<times> string \<Rightarrow> set_op list" where
  "allow_bound_ops kind pair = map (\<lambda>table. allow_bound_op kind table pair) ALLOW_BOUND_TABLES"

definition add_allowlist_entry :: "datetime \<Rightarrow> allowlist_entry \<Rightarrow> firewall_manager \<Rightarrow> backend_error option \<times> firewall_manager" where
  "add_allowlist_entry now e m =
     (let m1 = m\<lparr>fm_allowlist := fm_allowlist m @ [e], fm_allowlist_store := map_option (store_add e) (fm_allowlist_store m)\<rparr>
      in (case (allow_bound_pair e, fm_sets m) of
            (Some pair, Some sets) \<Rightarrow>
              if pair \<in> set (allow_bound_pairs (Some (al_id e)) (fm_allowlist m1)) then (None, m1)
              else (case sb_apply now (allow_bound_ops SO_ADD pair) sets of
                      (err, sets') \<Rightarrow> (err, m1\<lparr>fm_sets := Some sets'\<rparr>))
          | _ \<Rightarrow> (None, m1)))"

fun take_entry :: "string \<Rightarrow> allowlist_entry list \<Rightarrow> (allowlist_entry \<times> allowlist_entry list) option" where
  "take_entry entry_id [] = None"
| "take_entry entry_id (e # es) =
     (if al_id e = entry_id then Some (e, es)
      else map_option (\<lambda>(x, rest). (x, e # rest)) (take_entry entry_id es))"

definition remove_allowlist_entry :: "datetime \<Rightarrow> string \<Rightarrow> firewall_manager \<Rightarrow> bool \<times> firewall_manager" where
  "remove_allowlist_entry now entry_id m = (case take_entry entry_id (fm_allowlist m) of
       None \<Rightarrow> (False, m)
     | Some (e, rest) \<Rightarrow>
         let m1 = m\<lparr>fm_allowlist := rest, fm_allowlist_store := map_option (\<lambda>s. snd (store_remove entry_id s)) (fm_allowlist_store m)\<rparr>
         in (case (allow_bound_pair e, fm_sets m) of
               (Some pair, Some sets) \<Rightarrow>
                 if pair \<in> set (allow_bound_pairs None rest) then (True, m1)
                 else (True, m1\<lparr>fm_sets := Some (snd (sb_apply now (allow_bound_ops SO_DELETE pair) sets))\<rparr>)
             | _ \<Rightarrow> (True, m1)))"

definition pair_keys :: "element_state list \<Rightarrow> (string \<times> string) list" where
  "pair_keys es = List.map_filter (\<lambda>e. case es_key e of Concat a b \<Rightarrow> Some (a, b) | Single s \<Rightarrow> None) es"

text \<open>The operations for each table: removals, then additions, each sorted.\<close>

fun allowlist_ops :: "datetime \<Rightarrow> (string \<times> string) list \<Rightarrow> string list \<Rightarrow> set_backend \<Rightarrow> (backend_error + set_op list) \<times> set_backend" where
  "allowlist_ops now wanted [] sets = (Inr [], sets)"
| "allowlist_ops now wanted (table # tables) sets =
     (case sb_list_set now (INET_FAMILY, table, SET_ALLOW_BOUND) sets of
        (Inl e, sets') \<Rightarrow> (Inl e, sets')
      | (Inr es, sets') \<Rightarrow>
          let have = remdups (pair_keys es);
              gone = map (allow_bound_op SO_DELETE table) (sort (filter (\<lambda>p. p \<notin> set wanted) have));
              added = map (allow_bound_op SO_ADD table) (sort (filter (\<lambda>p. p \<notin> set have) wanted))
          in (case allowlist_ops now wanted tables sets' of
                (Inl e, sets'') \<Rightarrow> (Inl e, sets'')
              | (Inr ops, sets'') \<Rightarrow> (Inr (gone @ added @ ops), sets'')))"

definition sync_allowlist :: "datetime \<Rightarrow> firewall_manager \<Rightarrow> (backend_error + nat) \<times> firewall_manager" where
  "sync_allowlist now m = (case fm_sets m of
       None \<Rightarrow> (Inr 0, m)
     | Some sets \<Rightarrow>
         (case allowlist_ops now (allow_bound_pairs None (fm_allowlist m)) ALLOW_BOUND_TABLES sets of
            (Inl e, sets') \<Rightarrow> (Inl e, m\<lparr>fm_sets := Some sets'\<rparr>)
          | (Inr ops, sets') \<Rightarrow>
              (case sb_apply now ops sets' of
                 (Some e, sets'') \<Rightarrow> (Inl e, m\<lparr>fm_sets := Some sets''\<rparr>)
               | (None, sets'') \<Rightarrow> (Inr (length ops), m\<lparr>fm_sets := Some sets''\<rparr>))))"

subsection \<open>Bindings\<close>

definition BINDING_TABLES :: "location list" where
  "BINDING_TABLES = [(INET_FAMILY, STATIC_TABLE), (ARP_FAMILY, STATIC_ARP_TABLE)]"

definition binding_ops :: "set_op_kind \<Rightarrow> binding \<Rightarrow> int option \<Rightarrow> set_op list" where
  "binding_ops kind b timeout = concat (map (\<lambda>(family, table).
     [\<lparr>op_kind = kind, op_set_name = SET_BOUND4, op_key = Single (show_ipv4 (b_ip b)), op_timeout_seconds = timeout,
       op_table = table, op_family = family\<rparr>,
      \<lparr>op_kind = kind, op_set_name = SET_MACBIND, op_key = Concat (show_ipv4 (b_ip b)) (b_mac b),
       op_timeout_seconds = timeout, op_table = table, op_family = family\<rparr>]) BINDING_TABLES)"

definition binding_timeout :: "int \<Rightarrow> datetime \<Rightarrow> binding \<Rightarrow> int option" where
  "binding_timeout grace now b =
     (if b_source b = BS_STATIC then None
      else (case b_expires_at b of None \<Rightarrow> None | Some t \<Rightarrow> Some (max 1 (whole_seconds (t - now) + grace))))"

definition sync_ops :: "int \<Rightarrow> datetime \<Rightarrow> binding_change \<Rightarrow> set_op list" where
  "sync_ops grace now change =
     concat (map (\<lambda>b. binding_ops SO_DELETE b None) (bc_removed change))
     @ concat (map (\<lambda>b. binding_ops SO_ADD b (binding_timeout grace now b)) (bc_added change))"

definition apply_or_fail :: "datetime \<Rightarrow> set_op list \<Rightarrow> set_backend \<Rightarrow> firewall_manager \<Rightarrow> (backend_error + nat) \<times> firewall_manager" where
  "apply_or_fail now ops sets m = (case sb_apply now ops sets of
       (Some e, sets') \<Rightarrow> (Inl e, m\<lparr>fm_sets := Some sets'\<rparr>)
     | (None, sets') \<Rightarrow> (Inr (length ops), m\<lparr>fm_sets := Some sets'\<rparr>))"

definition sync_bindings :: "binding_change \<Rightarrow> datetime \<Rightarrow> firewall_manager \<Rightarrow> (backend_error + nat) \<times> firewall_manager" where
  "sync_bindings change now m = (case fm_sets m of
       None \<Rightarrow> (Inr 0, m)
     | Some sets \<Rightarrow>
         if bc_removed change = [] \<and> bc_added change = [] then (Inr 0, m)
         else apply_or_fail now (sync_ops (mc_grace_seconds (fm_config m)) now change) sets m)"

definition stale_op :: "location \<Rightarrow> string \<Rightarrow> set_key \<Rightarrow> set_op" where
  "stale_op loc set_name key = \<lparr>op_kind = SO_DELETE, op_set_name = set_name, op_key = key, op_timeout_seconds = None,
     op_table = snd loc, op_family = fst loc\<rparr>"

fun stale_ops :: "datetime \<Rightarrow> binding list \<Rightarrow> (location \<times> string) list \<Rightarrow> set_backend \<Rightarrow> (backend_error + set_op list) \<times> set_backend" where
  "stale_ops now bindings [] sets = (Inr [], sets)"
| "stale_ops now bindings ((loc, set_name) # rest) sets =
     (case sb_list_set now (fst loc, snd loc, set_name) sets of
        (Inl e, sets') \<Rightarrow> (Inl e, sets')
      | (Inr es, sets') \<Rightarrow>
          let wanted = (if set_name = SET_MACBIND then map (\<lambda>b. Concat (show_ipv4 (b_ip b)) (b_mac b)) bindings
                        else map (\<lambda>b. Single (show_ipv4 (b_ip b))) bindings);
              stale = map (\<lambda>e. stale_op loc set_name (es_key e)) (filter (\<lambda>e. es_key e \<notin> set wanted) es)
          in (case stale_ops now bindings rest sets' of
                (Inl e, sets'') \<Rightarrow> (Inl e, sets'')
              | (Inr ops, sets'') \<Rightarrow> (Inr (stale @ ops), sets'')))"

definition binding_sets :: "(location \<times> string) list" where
  "binding_sets = concat (map (\<lambda>loc. [(loc, SET_MACBIND), (loc, SET_BOUND4)]) BINDING_TABLES)"

definition replace_bindings :: "binding list \<Rightarrow> datetime \<Rightarrow> firewall_manager \<Rightarrow> (backend_error + nat) \<times> firewall_manager" where
  "replace_bindings bindings now m = (case fm_sets m of
       None \<Rightarrow> (Inr 0, m)
     | Some sets \<Rightarrow>
         (case stale_ops now bindings binding_sets sets of
            (Inl e, sets') \<Rightarrow> (Inl e, m\<lparr>fm_sets := Some sets'\<rparr>)
          | (Inr ops, sets') \<Rightarrow>
              apply_or_fail now
                (ops @ sync_ops (mc_grace_seconds (fm_config m)) now \<lparr>bc_removed = bindings, bc_added = bindings\<rparr>) sets' m))"

definition resolve_client_mac :: "firewall_manager \<Rightarrow> ipv4_address \<Rightarrow> mac_address option" where
  "resolve_client_mac m ip = Option.bind (fm_mac_resolver m) (\<lambda>f. f ip)"

subsection \<open>Portal clients\<close>

definition authorize_portal_client :: "ipv4_address \<Rightarrow> int \<Rightarrow> mac_address option \<Rightarrow> firewall_manager \<Rightarrow> bool \<times> firewall_manager" where
  "authorize_portal_client ip timeout mac m =
     (if \<not> in_network ip (fm_protected m) then (False, m)
      else (case fb_authorize ip timeout mac (fm_backend m) of (ok, b) \<Rightarrow> (ok, m\<lparr>fm_backend := b\<rparr>)))"

fun deauthorize_all :: "ipv4_address \<Rightarrow> mac_address option list \<Rightarrow> firewall_backend \<Rightarrow> bool \<times> firewall_backend" where
  "deauthorize_all ip [] b = (True, b)"
| "deauthorize_all ip (mac # macs) b = (case fb_deauthorize ip mac b of
       (False, b') \<Rightarrow> (False, b') | (True, b') \<Rightarrow> deauthorize_all ip macs b')"

definition deauthorize_portal_client :: "ipv4_address \<Rightarrow> mac_address option \<Rightarrow> firewall_manager \<Rightarrow> bool \<times> firewall_manager" where
  "deauthorize_portal_client ip mac m = (case mac of
       Some x \<Rightarrow> (case fb_deauthorize ip (Some x) (fm_backend m) of (ok, b) \<Rightarrow> (ok, m\<lparr>fm_backend := b\<rparr>))
     | None \<Rightarrow>
         let (grants, b) = fb_list_portal_grants (fm_backend m);
             macs = map snd (filter (\<lambda>g. fst g = ip) grants)
         in (case deauthorize_all ip (if macs = [] then [None] else macs) b of
               (ok, b') \<Rightarrow> (ok, m\<lparr>fm_backend := b'\<rparr>)))"

subsection \<open>Which rules restrict a client\<close>

definition rules_targeting :: "firewall_rule list \<Rightarrow> ipv4_address \<Rightarrow> ipv4_network \<Rightarrow> firewall_rule list" where
  "rules_targeting rules client_ip protected =
     (let targets = (\<lambda>n. in_network client_ip n \<and> supernet_of protected n)
      in filter (\<lambda>r. rf_action r \<in> {FA_BLOCK, FA_RATE_LIMIT} \<and> (targets (rf_source r) \<or> targets (rf_destination r))) rules)"

definition blocking_rules_targeting :: "firewall_rule list \<Rightarrow> ipv4_address \<Rightarrow> ipv4_network \<Rightarrow> firewall_rule list" where
  "blocking_rules_targeting rules client_ip protected =
     filter (\<lambda>r. rf_action r = FA_BLOCK) (rules_targeting rules client_ip protected)"

definition IP_KEYED_SETS :: "string list" where
  "IP_KEYED_SETS = [SET_BLOCK4, SET_RATELIMIT4]"

definition element_restricts :: "firewall_manager \<Rightarrow> firewall_rule \<Rightarrow> ipv4_address \<Rightarrow> mac_address option \<Rightarrow> bool" where
  "element_restricts m r client_ip client_mac = (case element_of r of
       None \<Rightarrow> rules_targeting [r] client_ip (fm_protected m) \<noteq> []
     | Some (set_name, key) \<Rightarrow>
         if set_name \<in> set IP_KEYED_SETS then key = show_ipv4 client_ip
         else (case client_mac of
                 Some mac \<Rightarrow> key = mac
               | None \<Rightarrow> (case map_of (fm_targets m) (fr_id r) of None \<Rightarrow> False | Some t \<Rightarrow> rt_ip t = client_ip)))"

definition restrictive_rules_matching :: "ipv4_address \<Rightarrow> firewall_manager \<Rightarrow> firewall_rule list" where
  "restrictive_rules_matching client_ip m =
     (if fm_sets m = None then rules_targeting (active_rules m) client_ip (fm_protected m)
      else filter (\<lambda>r. rf_action r \<in> {FA_BLOCK, FA_RATE_LIMIT}
                       \<and> element_restricts m r client_ip (resolve_client_mac m client_ip)) (active_rules m))"

definition blocking_rules_matching :: "ipv4_address \<Rightarrow> firewall_manager \<Rightarrow> firewall_rule list" where
  "blocking_rules_matching client_ip m = filter (\<lambda>r. rf_action r = FA_BLOCK) (restrictive_rules_matching client_ip m)"

subsection \<open>Submitting candidates\<close>

definition register_decision :: "firewall_decision \<Rightarrow> firewall_manager \<Rightarrow> firewall_manager" where
  "register_decision d m = m\<lparr>fm_known_decision_ids := List.insert (fd_id d) (fm_known_decision_ids m)\<rparr>"

definition rule_event :: "datetime \<Rightarrow> event_severity \<Rightarrow> security_event_type \<Rightarrow> string \<Rightarrow> real option \<Rightarrow> firewall_action option \<Rightarrow> security_event" where
  "rule_event now sev ty rule_id score decision = \<lparr>ev_timestamp = now, ev_severity = sev, ev_type = ty,
     ev_rule_id = Some rule_id, ev_threat_score = score, ev_decision = decision\<rparr>"

text \<open>\<open>FirewallRule(...)\<close> from a candidate, in the status VALIDATING.\<close>

definition rule_of_candidate :: "candidate_rule \<Rightarrow> int \<Rightarrow> rule_target option \<Rightarrow> firewall_rule" where
  "rule_of_candidate c priority target =
     \<lparr>rf_action = rf_action c, rf_direction = rf_direction c, rf_source = rf_source c, rf_destination = rf_destination c,
      rf_protocol = rf_protocol c, rf_source_port = rf_source_port c, rf_destination_port = rf_destination_port c,
      rf_reason = rf_reason c, rf_threat_score = rf_threat_score c, rf_evidence = rf_evidence c,
      rf_metadata = rf_metadata c, rf_target = target, fr_id = cr_id c, fr_priority = priority,
      fr_status = RS_VALIDATING, fr_created_at = cr_created_at c, fr_expires_at = cr_expires_at c, fr_deployed_at = None\<rparr>"

definition needs_review :: "firewall_manager \<Rightarrow> candidate_rule \<Rightarrow> bool" where
  "needs_review m c \<longleftrightarrow> rf_action c = FA_BLOCK
     \<and> (case rf_threat_score c of Some s \<Rightarrow> s | None \<Rightarrow> 0) \<ge> mc_assisted_review_threshold (fm_config m)"

definition rejected_result :: "datetime \<Rightarrow> candidate_rule \<Rightarrow> submission_result" where
  "rejected_result now c = \<lparr>sr_rule = None,
     sr_event = rule_event now ES_INFO SET_RULE_REJECTED (cr_id c) (rf_threat_score c) (Some (rf_action c))\<rparr>"

definition shadow :: "firewall_rule \<Rightarrow> datetime \<Rightarrow> firewall_manager \<Rightarrow> submission_result \<times> firewall_manager" where
  "shadow r now m =
     (let r' = r\<lparr>fr_status := RS_SHADOWED\<rparr>
      in (\<lparr>sr_rule = Some r', sr_event = rule_event now ES_INFO SET_RULE_CREATED (fr_id r) (rf_threat_score r) (Some (rf_action r))\<rparr>,
          record_transition (fr_id r) (Some RS_VALIDATING) RS_SHADOWED now (put_rule r' m)))"

definition hold_for_approval :: "firewall_rule \<Rightarrow> datetime \<Rightarrow> firewall_manager \<Rightarrow> submission_result \<times> firewall_manager" where
  "hold_for_approval r now m =
     (let r' = r\<lparr>fr_status := RS_PENDING_APPROVAL\<rparr>
      in (\<lparr>sr_rule = Some r', sr_event = rule_event now ES_WARNING SET_RULE_CREATED (fr_id r) (rf_threat_score r) (Some (rf_action r))\<rparr>,
          record_transition (fr_id r) (Some RS_VALIDATING) RS_PENDING_APPROVAL now (put_rule r' m)))"

text \<open>What both deployments do when the backend refused, and when it accepted.\<close>

definition deploy_failed :: "event_severity \<Rightarrow> firewall_rule \<Rightarrow> datetime \<Rightarrow> firewall_manager \<Rightarrow> submission_result \<times> firewall_manager" where
  "deploy_failed sev r now m =
     (let r' = r\<lparr>fr_status := RS_REJECTED\<rparr>
      in (\<lparr>sr_rule = Some r', sr_event = rule_event now sev SET_FIREWALL_ERROR (fr_id r) None None\<rparr>,
          record_transition (fr_id r) (Some (fr_status r)) RS_REJECTED now (put_rule r' m)))"

definition deployed :: "firewall_rule \<Rightarrow> (string \<times> string) list \<Rightarrow> datetime \<Rightarrow> firewall_manager \<Rightarrow> submission_result \<times> firewall_manager" where
  "deployed r metadata now m =
     (let r' = r\<lparr>fr_status := RS_ACTIVE, fr_deployed_at := Some now, rf_metadata := metadata\<rparr>;
          m1 = record_transition (fr_id r) (Some (fr_status r)) RS_DEPLOYED now (put_rule r' m);
          m2 = record_transition (fr_id r) (Some RS_DEPLOYED) RS_ACTIVE now m1;
          is_block = (rf_action r = FA_BLOCK)
      in (\<lparr>sr_rule = Some r',
           sr_event = rule_event now (if is_block then ES_WARNING else ES_INFO)
             (if is_block then SET_FIREWALL_BLOCK else SET_RULE_DEPLOYED) (fr_id r) (rf_threat_score r) (Some (rf_action r))\<rparr>, m2))"

definition deploy :: "firewall_rule \<Rightarrow> datetime \<Rightarrow> firewall_manager \<Rightarrow> submission_result \<times> firewall_manager" where
  "deploy r now m = (case fb_apply_rule r (fm_backend m) of
       (False, b) \<Rightarrow> deploy_failed ES_ERROR r now (m\<lparr>fm_backend := b\<rparr>)
     | (True, b) \<Rightarrow> deployed r (rf_metadata r) now (m\<lparr>fm_backend := b\<rparr>))"

definition bound_mac_of :: "firewall_manager \<Rightarrow> 'a rule_fields_scheme \<Rightarrow> mac_address option" where
  "bound_mac_of m r =
     (if prefixlen (rf_source r) \<noteq> 32 then None else resolve_client_mac m (network_address (rf_source r)))"

definition target_for :: "firewall_manager \<Rightarrow> 'a rule_fields_scheme \<Rightarrow> rule_target option option" where
  "target_for m r =
     (let own = Option.bind (rf_target r) rt_mac;
          mac = (case own of Some x \<Rightarrow> Some x | None \<Rightarrow> bound_mac_of m r)
      in device_target r (fm_protected m) mac)"

definition active_targets :: "firewall_manager \<Rightarrow> active_target list" where
  "active_targets m = List.map_filter
     (\<lambda>r. map_option (\<lambda>t. \<lparr>at_rule = r, at_target = t\<rparr>) (map_of (fm_targets m) (fr_id r))) (active_rules m)"

definition rate_limit_to_upgrade :: "firewall_manager \<Rightarrow> firewall_rule \<Rightarrow> string option" where
  "rate_limit_to_upgrade m r = (case map_of (fm_targets m) (fr_id r) of
       None \<Rightarrow> None
     | Some t \<Rightarrow>
         if rf_action r \<noteq> FA_BLOCK then None
         else map_option (\<lambda>e. fr_id (at_rule e))
                (find (\<lambda>e. rf_action (at_rule e) = FA_RATE_LIMIT \<and> same_device (at_target e) t) (active_targets m)))"

definition METADATA_UPDATE :: "string \<Rightarrow> string \<Rightarrow> (string \<times> string) list \<Rightarrow> (string \<times> string) list" where
  "METADATA_UPDATE set_name key md = AList.update META_KEY key (AList.update META_SET set_name md)"

text \<open>
  \<open>_deploy_to_sets\<close>: the operations (the superseded rule's element out, the new one in), then the
  batch. \<open>element_key\<close> cannot raise for the set \<open>enforcement_set_for\<close> chooses, and the expiration
  stage guarantees the expiry the source asserts; a rule without a
  target, for which the source's lookup raises, is \<open>None\<close>.
\<close>

definition superseded_rule :: "firewall_manager \<Rightarrow> string option \<Rightarrow> firewall_rule option" where
  "superseded_rule m upgrade_of = (case Option.bind upgrade_of (map_of (fm_rules m)) of
       Some r \<Rightarrow> if fr_status r = RS_ACTIVE then Some r else None
     | None \<Rightarrow> None)"

definition deploy_ops :: "firewall_manager \<Rightarrow> firewall_rule \<Rightarrow> rule_target \<Rightarrow> datetime \<Rightarrow> string option \<Rightarrow> set_op list \<times> (string \<times> string) list" where
  "deploy_ops m r t now upgrade_of =
     (let gone = (case superseded_rule m upgrade_of of None \<Rightarrow> [] | Some s \<Rightarrow> delete_ops s)
      in (case Option.bind (enforcement_set_for (rf_action r) t) (\<lambda>s. map_option (\<lambda>k. (s, k)) (element_key s t)) of
            None \<Rightarrow> (gone, rf_metadata r)
          | Some (set_name, key) \<Rightarrow>
              (gone @ [adaptive_op SO_ADD set_name (Single key)
                 (map_option (\<lambda>e. element_timeout_seconds e now (vc_max_ttl_seconds (mc_validation (fm_config m)))) (fr_expires_at r))],
               METADATA_UPDATE set_name key (rf_metadata r))))"

definition retire_superseded :: "firewall_rule option \<Rightarrow> datetime \<Rightarrow> firewall_manager \<Rightarrow> firewall_manager" where
  "retire_superseded s now m = (case s of
       None \<Rightarrow> m
     | Some r \<Rightarrow> record_transition (fr_id r) (Some RS_ACTIVE) RS_REMOVED now (put_rule (r\<lparr>fr_status := RS_REMOVED\<rparr>) m))"

definition deploy_to_sets :: "set_backend \<Rightarrow> firewall_rule \<Rightarrow> datetime \<Rightarrow> string option \<Rightarrow> firewall_manager
    \<Rightarrow> submission_result option \<times> firewall_manager" where
  "deploy_to_sets sets r now upgrade_of m = (case map_of (fm_targets m) (fr_id r) of
       None \<Rightarrow> (None, m)
     | Some t \<Rightarrow>
         let (ops, metadata) = deploy_ops m r t now upgrade_of;
             (err, sets') = sb_apply now ops sets;
             m1 = m\<lparr>fm_sets := Some sets'\<rparr>
         in (case err of
               Some _ \<Rightarrow> map_prod Some id (deploy_failed ES_CRITICAL r now m1)
             | None \<Rightarrow> map_prod Some id (deployed r metadata now (retire_superseded (superseded_rule m upgrade_of) now m1))))"

definition display_priority :: "real option \<Rightarrow> int" where
  "display_priority score = py_round (100 - min (max (case score of Some s \<Rightarrow> s | None \<Rightarrow> 0) 0) 100)"

text \<open>
  \<open>cached\<close> is what reading the kernel's address table gives when no addresses are pinned. The outer
  \<open>None\<close> is the \<open>ValidationError\<close> of a target MAC that names no device.
\<close>

definition submit_to_sets :: "local_addresses \<Rightarrow> set_backend \<Rightarrow> candidate_rule \<Rightarrow> datetime \<Rightarrow> firewall_manager
    \<Rightarrow> submission_result option \<times> firewall_manager" where
  "submit_to_sets cached sets c now m = (case target_for m c of
       None \<Rightarrow> (None, m)
     | Some target \<Rightarrow>
         let (outcome, rl) = validate_set_candidate cached c target (mc_validation (fm_config m)) (fm_known_decision_ids m)
               (active_targets m) (fm_allowlist m) (fm_rate_limiter m) now (fm_local_addresses m)
         in (case target of
               None \<Rightarrow> (Some (rejected_result now c), m\<lparr>fm_rate_limiter := rl\<rparr>)
             | Some t \<Rightarrow>
                 if \<not> so_approved outcome then (Some (rejected_result now c), m\<lparr>fm_rate_limiter := rl\<rparr>)
                 else
                   let r = rule_of_candidate c (display_priority (rf_threat_score c)) (Some t);
                       m1 = m\<lparr>fm_rate_limiter := rl_record now rl, fm_targets := AList.update (fr_id r) t (fm_targets m)\<rparr>;
                       m2 = record_transition (fr_id r) None RS_VALIDATING now m1
                   in if fm_enforcement_mode m = EM_SHADOW then map_prod Some id (shadow r now m2)
                      else if fm_enforcement_mode m = EM_ASSISTED \<and> needs_review m c
                      then map_prod Some id (hold_for_approval r now m2)
                      else deploy_to_sets sets r now (so_upgrade_of outcome) m2))"

definition submit_to_backend :: "local_addresses \<Rightarrow> candidate_rule \<Rightarrow> datetime \<Rightarrow> firewall_manager
    \<Rightarrow> submission_result option \<times> firewall_manager" where
  "submit_to_backend cached c now m =
     (let (outcome, rl) = validate_candidate_rule cached c (mc_validation (fm_config m)) (fm_known_decision_ids m)
            (active_rules m) (fm_allowlist m) (fm_rate_limiter m) now (fm_local_addresses m) (bound_mac_of m c)
      in (case vo_priority outcome of
            None \<Rightarrow> (Some (rejected_result now c), m\<lparr>fm_rate_limiter := rl\<rparr>)
          | Some priority \<Rightarrow>
              if \<not> vo_approved outcome then (Some (rejected_result now c), m\<lparr>fm_rate_limiter := rl\<rparr>)
              else
                let r = rule_of_candidate c priority (rf_target c);
                    m1 = m\<lparr>fm_rate_limiter := rl_record now rl\<rparr>;
                    m2 = record_transition (fr_id r) None RS_VALIDATING now m1
                in if fm_enforcement_mode m = EM_SHADOW then map_prod Some id (shadow r now m2)
                   else if fm_enforcement_mode m = EM_ASSISTED \<and> needs_review m c
                   then map_prod Some id (hold_for_approval r now m2)
                   else map_prod Some id (deploy r now m2)))"

definition submit_candidate :: "local_addresses \<Rightarrow> candidate_rule \<Rightarrow> datetime \<Rightarrow> firewall_manager
    \<Rightarrow> submission_result option \<times> firewall_manager" where
  "submit_candidate cached c now m = (case fm_sets m of
       Some sets \<Rightarrow> submit_to_sets cached sets c now m
     | None \<Rightarrow> submit_to_backend cached c now m)"

definition approve_pending :: "string \<Rightarrow> datetime \<Rightarrow> firewall_manager \<Rightarrow> submission_result option \<times> firewall_manager" where
  "approve_pending rule_id now m = (case map_of (fm_rules m) rule_id of
       None \<Rightarrow> (None, m)
     | Some r \<Rightarrow>
         if fr_status r \<noteq> RS_PENDING_APPROVAL then (None, m)
         else let r' = r\<lparr>fr_status := RS_APPROVED\<rparr>;
                  m1 = record_transition rule_id (Some RS_PENDING_APPROVAL) RS_APPROVED now m
              in (case fm_sets m of
                    Some sets \<Rightarrow> deploy_to_sets sets r' now (rate_limit_to_upgrade m1 r') m1
                  | None \<Rightarrow> map_prod Some id (deploy r' now m1)))"

definition reject_pending :: "string \<Rightarrow> datetime \<Rightarrow> firewall_manager \<Rightarrow> firewall_rule option \<times> firewall_manager" where
  "reject_pending rule_id now m = (case map_of (fm_rules m) rule_id of
       None \<Rightarrow> (None, m)
     | Some r \<Rightarrow>
         if fr_status r \<noteq> RS_PENDING_APPROVAL then (None, m)
         else let r' = r\<lparr>fr_status := RS_REJECTED\<rparr>
              in (Some r', record_transition rule_id (Some RS_PENDING_APPROVAL) RS_REJECTED now
                    (m\<lparr>fm_rules := AList.update rule_id r' (fm_rules m)\<rparr>)))"

subsection \<open>Emergency paths\<close>

fun retire_loop :: "datetime \<Rightarrow> firewall_rule list \<Rightarrow> nat \<Rightarrow> firewall_manager \<Rightarrow> nat \<times> firewall_manager" where
  "retire_loop now [] removed m = (removed, m)"
| "retire_loop now (r # rs) removed m =
     (if fr_status r \<noteq> RS_ACTIVE then retire_loop now rs removed m
      else retire_loop now rs (removed + 1)
             (record_transition (fr_id r) (Some RS_ACTIVE) RS_REMOVED now (put_rule (r\<lparr>fr_status := RS_REMOVED\<rparr>) m)))"

definition retire_all_active :: "datetime \<Rightarrow> firewall_manager \<Rightarrow> nat \<times> firewall_manager" where
  "retire_all_active now m = retire_loop now (map snd (fm_rules m)) 0 m"

definition ALL_OBSERVE :: "(guard_name, guard_mode) odict" where
  "ALL_OBSERVE = map (\<lambda>g. (g, GM_OBSERVE)) GUARDS"

definition kill_switch_sets :: "set_backend \<Rightarrow> datetime \<Rightarrow> firewall_manager \<Rightarrow> security_event \<times> firewall_manager" where
  "kill_switch_sets sets now m =
     (let (e1, sets1) = sb_flush_sets ADAPTIVE_ENFORCEMENT_SETS sets;
          (e2, sets2) = sb_set_guard_modes ALL_OBSERVE sets1;
          (removed, m') = retire_all_active now (m\<lparr>fm_enforcement_mode := EM_SHADOW, fm_sets := Some sets2\<rparr>)
      in (system_event now (if e1 \<noteq> None \<or> e2 \<noteq> None then ES_CRITICAL else ES_WARNING), m'))"

fun revert_loop :: "datetime \<Rightarrow> firewall_rule list \<Rightarrow> nat \<Rightarrow> firewall_manager \<Rightarrow> nat \<times> firewall_manager" where
  "revert_loop now [] removed m = (removed, m)"
| "revert_loop now (r # rs) removed m =
     (if fr_status r \<noteq> RS_ACTIVE then revert_loop now rs removed m
      else let m1 = m\<lparr>fm_backend := snd (fb_remove_rule (fr_id r) (fm_backend m))\<rparr>
           in revert_loop now rs (removed + 1)
                (record_transition (fr_id r) (Some RS_ACTIVE) RS_REMOVED now (put_rule (r\<lparr>fr_status := RS_REMOVED\<rparr>) m1)))"

definition revert_to_base :: "datetime \<Rightarrow> firewall_manager \<Rightarrow> security_event \<times> firewall_manager" where
  "revert_to_base now m = (case fm_sets m of
       Some sets \<Rightarrow> kill_switch_sets sets now m
     | None \<Rightarrow>
         let (removed, m') = revert_loop now (map snd (fm_rules m)) 0 (m\<lparr>fm_enforcement_mode := EM_SHADOW\<rparr>)
         in (system_event now ES_WARNING, m'))"

definition fail_open_shutdown :: "datetime \<Rightarrow> firewall_manager \<Rightarrow> security_event \<times> firewall_manager" where
  "fail_open_shutdown now m = (case fm_sets m of
       None \<Rightarrow> revert_to_base now m
     | Some sets \<Rightarrow>
         let (e, sets') = sb_flush_sets ADAPTIVE_ENFORCEMENT_SETS sets;
             (removed, m') = retire_all_active now (m\<lparr>fm_sets := Some sets'\<rparr>)
         in (system_event now (if e \<noteq> None then ES_ERROR else ES_INFO), m'))"

record panic_result =
  pr_deleted_tables :: "location list"
  pr_actor :: string
  pr_performed_at :: datetime

text \<open>Without a set backend, and when the kernel refuses, \<open>panic\<close> raises: \<open>None\<close>.\<close>

definition panic :: "string \<Rightarrow> datetime \<Rightarrow> firewall_manager \<Rightarrow> (panic_result \<times> security_event) option \<times> firewall_manager" where
  "panic actor now m = (case fm_sets m of
       None \<Rightarrow> (None, m)
     | Some sets \<Rightarrow>
         (case sb_panic sets of
            (Inl e, sets') \<Rightarrow> (None, m\<lparr>fm_sets := Some sets'\<rparr>)
          | (Inr tables, sets') \<Rightarrow>
              let (removed, m') = retire_all_active now (m\<lparr>fm_enforcement_mode := EM_SHADOW, fm_sets := Some sets'\<rparr>)
              in (Some (\<lparr>pr_deleted_tables = tables, pr_actor = actor, pr_performed_at = now\<rparr>, system_event now ES_CRITICAL), m')))"

definition manager_set_guard_mode :: "guard_name \<Rightarrow> guard_mode \<Rightarrow> datetime \<Rightarrow> firewall_manager \<Rightarrow> security_event option \<times> firewall_manager" where
  "manager_set_guard_mode guard mode now m = (case fm_sets m of
       None \<Rightarrow> (None, m)
     | Some sets \<Rightarrow>
         (case sb_set_guard_modes [(guard, mode)] sets of
            (Some e, sets') \<Rightarrow> (None, m\<lparr>fm_sets := Some sets'\<rparr>)
          | (None, sets') \<Rightarrow> (Some (system_event now ES_WARNING), m\<lparr>fm_sets := Some sets'\<rparr>)))"

definition guard_modes :: "firewall_manager \<Rightarrow> (guard_name \<times> guard_mode) list option" where
  "guard_modes m = Option.bind (fm_sets m) (\<lambda>sets.
     if \<exists>g \<in> set GUARDS. sb_guard_mode g sets = None then None
     else Some (map (\<lambda>g. (g, the (sb_guard_mode g sets))) GUARDS))"

definition missing_tables :: "firewall_manager \<Rightarrow> location list" where
  "missing_tables m = (case fm_sets m of
       None \<Rightarrow> []
     | Some sets \<Rightarrow> filter (\<lambda>loc. \<not> sb_table_exists loc sets) PANIC_TABLES)"

subsection \<open>Reconciling with the kernel at startup\<close>

record reconcile_report =
  rr_adopted :: "string list"
  rr_retired :: "string list"
  rr_unattributed :: "(string \<times> string) list"
  rr_missing_tables :: "location list"

type_synonym live_map = "(string \<times> set_key, int option) odict"

fun list_live :: "datetime \<Rightarrow> string list \<Rightarrow> live_map \<Rightarrow> set_backend \<Rightarrow> (backend_error + live_map) \<times> set_backend" where
  "list_live now [] live sets = (Inr live, sets)"
| "list_live now (n # ns) live sets = (case sb_list_set now (INET_FAMILY, ADAPTIVE_TABLE, n) sets of
       (Inl e, sets') \<Rightarrow> (Inl e, sets')
     | (Inr es, sets') \<Rightarrow> list_live now ns (fold (\<lambda>e d. AList.update (n, es_key e) (es_expires_in_seconds e) d) es live) sets')"

fun retire_missing :: "datetime \<Rightarrow> live_map \<Rightarrow> firewall_rule list \<Rightarrow> (string \<times> string) list \<Rightarrow> string list \<Rightarrow> firewall_manager
    \<Rightarrow> (string \<times> string) list \<times> string list \<times> firewall_manager" where
  "retire_missing now live [] known retired m = (known, retired, m)"
| "retire_missing now live (r # rs) known retired m = (case element_of r of
       None \<Rightarrow> retire_missing now live rs known retired m
     | Some (set_name, key) \<Rightarrow>
         if map_of live (set_name, Single key) \<noteq> None
         then retire_missing now live rs (List.insert (set_name, key) known) retired m
         else retire_missing now live rs known (retired @ [fr_id r])
                (record_transition (fr_id r) (Some RS_ACTIVE) RS_REMOVED now (put_rule (r\<lparr>fr_status := RS_REMOVED\<rparr>) m)))"

fun action_for_set :: "string \<Rightarrow> firewall_action" where
  "action_for_set n = (if n = SET_BLOCK_MAC \<or> n = SET_BLOCK4 then FA_BLOCK else FA_RATE_LIMIT)"

definition adopted_rule :: "string \<Rightarrow> string \<Rightarrow> ipv4_address \<Rightarrow> int \<Rightarrow> datetime \<Rightarrow> firewall_rule" where
  "adopted_rule set_name key ip ttl now =
     \<lparr>rf_action = action_for_set set_name, rf_direction = RD_INBOUND, rf_source = host_network ip,
      rf_destination = whole_internet, rf_protocol = P_ANY, rf_source_port = None, rf_destination_port = None,
      rf_reason = ''reconciled from the kernel at startup'', rf_threat_score = None, rf_evidence = [],
      rf_metadata = [(META_SET, set_name), (META_KEY, key)], rf_target = None,
      fr_id = ''reconciled:'' @ set_name @ '':'' @ key, fr_priority = 0, fr_status = RS_ACTIVE, fr_created_at = now,
      fr_expires_at = Some (now + seconds ttl), fr_deployed_at = Some now\<rparr>"

text \<open>\<open>IPv4Network(key/32)\<close> raises for a key that is no address: \<open>None\<close>.\<close>

definition adopt :: "string \<Rightarrow> string \<Rightarrow> int option \<Rightarrow> datetime \<Rightarrow> firewall_manager \<Rightarrow> (string \<times> firewall_manager) option" where
  "adopt set_name key expires_in now m = (case parse_ipv4 key of
       None \<Rightarrow> None
     | Some ip \<Rightarrow>
         let ttl = (case expires_in of Some s \<Rightarrow> s | None \<Rightarrow> vc_max_ttl_seconds (mc_validation (fm_config m)));
             r = adopted_rule set_name key ip ttl now;
             m1 = put_rule r m;
             m2 = m1\<lparr>fm_targets := AList.update (fr_id r) \<lparr>rt_ip = ip, rt_mac = None\<rparr> (fm_targets m1)\<rparr>
         in Some (fr_id r, record_transition (fr_id r) None RS_ACTIVE now m2))"

fun adopt_unknown :: "datetime \<Rightarrow> (string \<times> string) list \<Rightarrow> live_map \<Rightarrow> reconcile_report \<Rightarrow> firewall_manager
    \<Rightarrow> reconcile_report option \<times> firewall_manager" where
  "adopt_unknown now known [] report m = (Some report, m)"
| "adopt_unknown now known (((set_name, key), expires_in) # rest) report m = (case key of
       Concat a b \<Rightarrow>
         adopt_unknown now known rest (report\<lparr>rr_unattributed := rr_unattributed report @ [(set_name, key_text key)]\<rparr>) m
     | Single k \<Rightarrow>
         if (set_name, k) \<in> set known then adopt_unknown now known rest report m
         else if set_name \<notin> set IP_KEYED_SETS
         then adopt_unknown now known rest (report\<lparr>rr_unattributed := rr_unattributed report @ [(set_name, k)]\<rparr>) m
         else (case adopt set_name k expires_in now m of
                 None \<Rightarrow> (None, m)
               | Some (rule_id, m') \<Rightarrow> adopt_unknown now known rest (report\<lparr>rr_adopted := rr_adopted report @ [rule_id]\<rparr>) m'))"

text \<open>The outer \<open>None\<close> is an exception (a set that cannot be listed).\<close>

definition reconcile :: "datetime \<Rightarrow> firewall_manager \<Rightarrow> reconcile_report option \<times> firewall_manager" where
  "reconcile now m =
     (let report = \<lparr>rr_adopted = [], rr_retired = [], rr_unattributed = [], rr_missing_tables = missing_tables m\<rparr>
      in (case fm_sets m of
            None \<Rightarrow> (Some report, m)
          | Some sets \<Rightarrow>
              if (INET_FAMILY, ADAPTIVE_TABLE) \<in> set (rr_missing_tables report) then (Some report, m)
              else (case list_live now (sort ADAPTIVE_ENFORCEMENT_SETS) [] sets of
                      (Inl e, sets') \<Rightarrow> (None, m\<lparr>fm_sets := Some sets'\<rparr>)
                    | (Inr live, sets') \<Rightarrow>
                        let m1 = m\<lparr>fm_sets := Some sets'\<rparr>;
                            (known, retired, m2) = retire_missing now live (active_rules m1) [] [] m1
                        in adopt_unknown now known (sort_key (\<lambda>e. (fst (fst e), key_text (snd (fst e)))) live)
                             (report\<lparr>rr_retired := retired\<rparr>) m2)))"

subsection \<open>The rule store is keyed by identifier\<close>

definition keyed_rules :: "firewall_manager \<Rightarrow> bool" where
  "keyed_rules m \<longleftrightarrow> od_distinct (fm_rules m) \<and> (\<forall>k r. (k, r) \<in> set (fm_rules m) \<longrightarrow> fr_id r = k)"

lemma keyed_lookup_rule: "keyed_rules m \<Longrightarrow> map_of (fm_rules m) k = Some r \<longleftrightarrow> r \<in> snd ` set (fm_rules m) \<and> fr_id r = k"
  unfolding keyed_rules_def by (intro keyed_lookup) blast+

lemma set_od_update: "od_distinct d \<Longrightarrow> set (AList.update k v d) = insert (k, v) {e \<in> set d. fst e \<noteq> k}"
proof -
  assume d: "od_distinct d"
  have "(a, b) \<in> set (AList.update k v d) \<longleftrightarrow> (a, b) \<in> insert (k, v) {e \<in> set d. fst e \<noteq> k}" for a b
  proof -
    have "(a, b) \<in> set (AList.update k v d) \<longleftrightarrow> map_of (AList.update k v d) a = Some b"
      by (rule map_of_eq_Some_iff [symmetric]) (rule od_distinct_update [OF d])
    also have "\<dots> \<longleftrightarrow> a = k \<and> b = v \<or> a \<noteq> k \<and> map_of d a = Some b" by (auto split: if_splits)
    also have "\<dots> \<longleftrightarrow> (a, b) \<in> insert (k, v) {e \<in> set d. fst e \<noteq> k}"
      using map_of_eq_Some_iff [OF d] by auto
    finally show ?thesis .
  qed
  then show ?thesis by auto
qed

lemma keyed_update:
  assumes "keyed_rules m" "fr_id r = k"
  shows "keyed_rules (m\<lparr>fm_rules := AList.update k r (fm_rules m)\<rparr>)"
  using assms by (auto simp: keyed_rules_def set_od_update)

lemma keyed_put: "keyed_rules m \<Longrightarrow> keyed_rules (put_rule r m)"
  unfolding put_rule_def by (rule keyed_update) auto

lemma keyed_other:
  "keyed_rules (record_transition i f t now m) = keyed_rules m"
  "keyed_rules (m\<lparr>fm_sets := s\<rparr>) = keyed_rules m"
  "keyed_rules (m\<lparr>fm_backend := b\<rparr>) = keyed_rules m"
  "keyed_rules (m\<lparr>fm_targets := ts\<rparr>) = keyed_rules m"
  "keyed_rules (m\<lparr>fm_rate_limiter := rl\<rparr>) = keyed_rules m"
  "keyed_rules (m\<lparr>fm_enforcement_mode := md\<rparr>) = keyed_rules m"
  by (simp_all add: keyed_rules_def record_transition_def)

lemma record_transition_sel [simp]:
  "fm_rules (record_transition i f t now m) = fm_rules m"
  "fm_sets (record_transition i f t now m) = fm_sets m"
  "fm_backend (record_transition i f t now m) = fm_backend m"
  "fm_targets (record_transition i f t now m) = fm_targets m"
  "fm_enforcement_mode (record_transition i f t now m) = fm_enforcement_mode m"
  "fm_config (record_transition i f t now m) = fm_config m"
  "fm_allowlist (record_transition i f t now m) = fm_allowlist m"
  "fm_mac_resolver (record_transition i f t now m) = fm_mac_resolver m"
  by (simp_all add: record_transition_def)

lemma put_rule_sel [simp]:
  "fm_rules (put_rule r m) = AList.update (fr_id r) r (fm_rules m)"
  "fm_sets (put_rule r m) = fm_sets m" "fm_backend (put_rule r m) = fm_backend m"
  "fm_targets (put_rule r m) = fm_targets m" "fm_enforcement_mode (put_rule r m) = fm_enforcement_mode m"
  "fm_config (put_rule r m) = fm_config m" "fm_transitions (put_rule r m) = fm_transitions m"
  "fm_allowlist (put_rule r m) = fm_allowlist m" "fm_mac_resolver (put_rule r m) = fm_mac_resolver m"
  by (simp_all add: put_rule_def)

subsection \<open>Retiring every active rule\<close>

definition retired :: "datetime \<Rightarrow> firewall_rule \<Rightarrow> firewall_manager \<Rightarrow> firewall_manager" where
  "retired now r m = record_transition (fr_id r) (Some RS_ACTIVE) RS_REMOVED now (put_rule (r\<lparr>fr_status := RS_REMOVED\<rparr>) m)"

lemma active_rules_set: "set (active_rules m) = {r \<in> snd ` set (fm_rules m). fr_status r = RS_ACTIVE}"
  by (auto simp: active_rules_def)

lemma active_after_retired:
  assumes "keyed_rules m" "r \<in> set (active_rules m)"
  shows "set (active_rules (retired now r m)) = set (active_rules m) - {r}"
proof -
  have d: "od_distinct (fm_rules m)" and key: "\<And>k x. (k, x) \<in> set (fm_rules m) \<Longrightarrow> fr_id x = k"
    using assms(1) by (auto simp: keyed_rules_def)
  have "(fr_id r, r) \<in> set (fm_rules m)" using assms(2) key by (force simp: active_rules_set)
  then have same: "x = r" if "(fr_id r, x) \<in> set (fm_rules m)" for x
    using that d by (metis eq_key_imp_eq_value)
  have rules: "set (fm_rules (retired now r m)) = insert (fr_id r, r\<lparr>fr_status := RS_REMOVED\<rparr>) {e \<in> set (fm_rules m). fst e \<noteq> fr_id r}"
    using set_od_update [OF d, of "fr_id r"] by (simp add: retired_def)
  have "x \<in> set (active_rules (retired now r m)) \<longleftrightarrow> x \<in> set (active_rules m) \<and> fr_id x \<noteq> fr_id r" for x
  proof -
    have "x \<in> set (active_rules (retired now r m))
        \<longleftrightarrow> fr_status x = RS_ACTIVE \<and> (\<exists>k. (k, x) \<in> set (fm_rules m) \<and> k \<noteq> fr_id r)"
      unfolding active_rules_set rules by force
    also have "\<dots> \<longleftrightarrow> fr_status x = RS_ACTIVE \<and> (\<exists>k. (k, x) \<in> set (fm_rules m)) \<and> fr_id x \<noteq> fr_id r"
      using key by blast
    also have "\<dots> \<longleftrightarrow> x \<in> set (active_rules m) \<and> fr_id x \<noteq> fr_id r"
      unfolding active_rules_set by force
    finally show ?thesis .
  qed
  moreover have "fr_id x \<noteq> fr_id r \<longleftrightarrow> x \<noteq> r" if x: "x \<in> set (active_rules m)" for x
  proof -
    obtain k where "(k, x) \<in> set (fm_rules m)" using x by (auto simp: active_rules_set)
    then show ?thesis using key same by metis
  qed
  ultimately show ?thesis by blast
qed

lemma retire_loop_result:
  assumes "keyed_rules m" "set (active_rules m) \<subseteq> set rs" "distinct rs" "\<forall>r \<in> set rs. fr_status r = RS_ACTIVE \<longrightarrow> r \<in> set (active_rules m)"
    "retire_loop now rs n m = (n', m')"
  shows "active_rules m' = [] \<and> keyed_rules m' \<and> fm_sets m' = fm_sets m \<and> fm_enforcement_mode m' = fm_enforcement_mode m
    \<and> fm_backend m' = fm_backend m"
  using assms
proof (induction rs arbitrary: n m)
  case Nil
  then show ?case by simp
next
  case (Cons r rs)
  show ?case
  proof (cases "fr_status r = RS_ACTIVE")
    case False
    then have "r \<notin> set (active_rules m)" by (simp add: active_rules_set)
    then have "set (active_rules m) \<subseteq> set rs" using Cons.prems(2) by auto
    then show ?thesis using Cons.IH [of m n] Cons.prems False by simp
  next
    case True
    then have r: "r \<in> set (active_rules m)" using Cons.prems(4) by simp
    note act = active_after_retired [OF Cons.prems(1) r, of now]
    have keyed: "keyed_rules (retired now r m)"
      unfolding retired_def keyed_other by (rule keyed_put [OF Cons.prems(1)])
    have run: "retire_loop now rs (n + 1) (retired now r m) = (n', m')"
      using Cons.prems(5) True by (simp add: retired_def)
    have "active_rules m' = [] \<and> keyed_rules m' \<and> fm_sets m' = fm_sets (retired now r m)
        \<and> fm_enforcement_mode m' = fm_enforcement_mode (retired now r m) \<and> fm_backend m' = fm_backend (retired now r m)"
      using Cons.prems(2,3,4) act by (intro Cons.IH [OF keyed _ _ _ run]) auto
    then show ?thesis by (simp add: retired_def)
  qed
qed

lemma retire_all_active_result:
  assumes "keyed_rules m" "retire_all_active now m = (n, m')"
  shows "active_rules m' = [] \<and> keyed_rules m' \<and> fm_sets m' = fm_sets m \<and> fm_enforcement_mode m' = fm_enforcement_mode m
    \<and> fm_backend m' = fm_backend m"
proof -
  have "map fr_id (map snd (fm_rules m)) = map fst (fm_rules m)"
    using assms(1) by (intro map_keys_keyed) (auto simp: keyed_rules_def)
  then have "distinct (map snd (fm_rules m))"
    using assms(1) by (metis distinct_map keyed_rules_def)
  then show ?thesis
    using assms by (intro retire_loop_result) (auto simp: retire_all_active_def active_rules_set)
qed

subsection \<open>Emergency paths disarm and touch nothing else\<close>

lemma enforcement_address_iff:
  "enforcement_address addr \<longleftrightarrow> (\<exists>n \<in> set ADAPTIVE_ENFORCEMENT_SETS. addr = (INET_FAMILY, ADAPTIVE_TABLE, n))"
  by (auto simp: enforcement_address_def MANAGER_WRITABLE_SETS_def ADAPTIVE_ENFORCEMENT_SETS_def nft_name_defs
      split: if_splits option.splits)

lemma fold_update_lookup:
  "map_of (fold (\<lambda>(g, m) d. AList.update g m d) ms d) g =
     (case map_of (rev ms) g of Some m \<Rightarrow> Some m | None \<Rightarrow> map_of d g)"
  by (induction ms arbitrary: d) (auto simp: map_add_def split: option.splits)

lemma all_observe_lookup: "map_of (rev ALL_OBSERVE) g = Some GM_OBSERVE"
  by (cases g) (simp_all add: ALL_OBSERVE_def GUARDS_def)

lemma set_guard_modes_result:
  assumes "sb_set_guard_modes ms b = (r, b')"
  shows "sb_tables b' = sb_tables b"
    "r = None \<Longrightarrow> ms = ALL_OBSERVE \<Longrightarrow> sb_guard_mode g b' = Some GM_OBSERVE"
    "r \<noteq> None \<Longrightarrow> sb_guards b' = sb_guards b"
  using assms
  by (auto simp: sb_set_guard_modes_def sb_guard_mode_def fold_update_lookup all_observe_lookup
      split: option.splits prod.splits dest!: sb_begin_tables)

text \<open>The tables are loaded as \<open>pirewall-start\<close> leaves them, and the backend is not about to fail.\<close>

definition backend_ready :: "set_backend \<Rightarrow> bool" where
  "backend_ready b \<longleftrightarrow> \<not> sb_fail_next b \<and> map_of (sb_tables b) (INET_FAMILY, STATIC_TABLE) \<noteq> None
     \<and> (\<forall>n \<in> set ADAPTIVE_ENFORCEMENT_SETS. fake_set_of (INET_FAMILY, ADAPTIVE_TABLE, n) b \<noteq> None)"

lemma adaptive_writable_ready:
  "\<forall>n \<in> set ns. map_of MANAGER_WRITABLE_SETS (INET_FAMILY, ADAPTIVE_TABLE, n) \<noteq> None
     \<and> fake_set_of (INET_FAMILY, ADAPTIVE_TABLE, n) b \<noteq> None \<Longrightarrow> adaptive_writable ns b = (None, b)"
proof (induction ns)
  case (Cons n ns)
  then obtain s where "fake_set_of (INET_FAMILY, ADAPTIVE_TABLE, n) b = Some s" by auto
  then have "sb_set (INET_FAMILY, ADAPTIVE_TABLE, n) b = (Inr s, b)" by (simp add: sb_set_Inr)
  then show ?case using Cons by simp
qed simp

lemma writable_enforcement: "n \<in> set ADAPTIVE_ENFORCEMENT_SETS \<Longrightarrow> map_of MANAGER_WRITABLE_SETS (INET_FAMILY, ADAPTIVE_TABLE, n) \<noteq> None"
  using enforcement_address_iff [of "(INET_FAMILY, ADAPTIVE_TABLE, n)"]
  by (auto simp: enforcement_address_def split: option.splits)

lemma flush_enforcement:
  assumes "sb_flush_sets ADAPTIVE_ENFORCEMENT_SETS b = (r, b')" "backend_inv b"
  shows "backend_inv b'" "sb_guards b' = sb_guards b"
    "\<not> enforcement_address addr \<Longrightarrow> live_view t b' addr = live_view t b addr"
    "r = None \<Longrightarrow> enforcement_address addr \<Longrightarrow> live_view t b' addr k = None"
proof -
  note flush = sb_flush_sets_result [OF assms]
  show "backend_inv b'" "sb_guards b' = sb_guards b" using flush by blast+
  have ok: "live_view t b' addr k = (if enforcement_address addr then None else live_view t b addr k)" if "r = None" for t addr k
    using flush that unfolding enforcement_address_iff by blast
  show "live_view t b' addr = live_view t b addr" if "\<not> enforcement_address addr"
  proof (cases r)
    case None
    then show ?thesis using ok that by (intro ext) (simp del: split_paired_All)
  next
    case (Some e)
    then show ?thesis using flush same_tables(1) [of b' b] by simp
  qed
  show "live_view t b' addr k = None" if "r = None" "enforcement_address addr" using ok that by simp
qed

lemma store_elements_fail [simp]: "sb_fail_next (store_elements a es b) = sb_fail_next b"
  by (auto simp: store_elements_def split: option.splits prod.splits)

lemma store_elements_table:
  "map_of (sb_tables (store_elements a es b)) loc \<noteq> None \<longleftrightarrow> map_of (sb_tables b) loc \<noteq> None"
  by (auto simp: store_elements_def split: option.splits prod.splits)

lemma flush_ready:
  assumes "backend_ready b"
  shows "\<exists>b'. sb_flush_sets ADAPTIVE_ENFORCEMENT_SETS b = (None, b') \<and> \<not> sb_fail_next b'
    \<and> map_of (sb_tables b') (INET_FAMILY, STATIC_TABLE) \<noteq> None"
proof -
  let ?b = "b\<lparr>sb_calls := sb_calls b + 1\<rparr>" and ?ns = "sort (remdups ADAPTIVE_ENFORCEMENT_SETS)"
  let ?f = "fold (\<lambda>n b. store_elements (INET_FAMILY, ADAPTIVE_TABLE, n) [] b)"
  have "sb_begin b = (None, ?b)" using assms by (simp add: sb_begin_def backend_ready_def)
  moreover have "adaptive_writable ?ns ?b = (None, ?b)"
    using assms writable_enforcement fake_set_of_tables [of ?b b] unfolding backend_ready_def
    by (intro adaptive_writable_ready) simp
  moreover have "sb_fail_next (?f ns x) = sb_fail_next x" for ns x by (induction ns arbitrary: x) simp_all
  moreover have "map_of (sb_tables (?f ns x)) loc \<noteq> None \<longleftrightarrow> map_of (sb_tables x) loc \<noteq> None" for ns x loc
    by (induction ns arbitrary: x) (simp_all add: store_elements_table del: not_None_eq)
  ultimately show ?thesis using assms by (simp add: sb_flush_sets_def Let_def backend_ready_def del: not_None_eq)
qed

lemma guards_ready:
  assumes "\<not> sb_fail_next b" "map_of (sb_tables b) (INET_FAMILY, STATIC_TABLE) \<noteq> None"
  shows "fst (sb_set_guard_modes ms b) = None"
  using assms by (auto simp: sb_set_guard_modes_def sb_begin_def split: option.splits)

text \<open>
  C5: The kill switch disarms the set path. Afterwards the mode is SHADOW and no rule is ACTIVE,
  whatever the backend did; the elements of every set outside the four enforcement sets (bindings,
  allowlist pairs, the kernel's own sets) are what they were, at every time; and unless the event is
  CRITICAL every enforcement set is empty and every guard observes. With the tables loaded and no
  backend failure the event is not CRITICAL.
\<close>

theorem kill_switch_disarms:
  assumes "keyed_rules m" "fm_sets m = Some sets" "backend_inv sets" "revert_to_base now m = (ev, m')"
  shows "fm_enforcement_mode m' = EM_SHADOW \<and> active_rules m' = []
    \<and> (\<exists>sets'. fm_sets m' = Some sets' \<and> backend_inv sets'
        \<and> (\<forall>t addr. \<not> enforcement_address addr \<longrightarrow> live_view t sets' addr = live_view t sets addr)
        \<and> (ev_severity ev \<noteq> ES_CRITICAL \<longrightarrow>
             (\<forall>t addr k. enforcement_address addr \<longrightarrow> live_view t sets' addr k = None)
             \<and> (\<forall>g. sb_guard_mode g sets' = Some GM_OBSERVE))
        \<and> (backend_ready sets \<longrightarrow> ev_severity ev \<noteq> ES_CRITICAL))"
proof -
  obtain e1 s1 where f: "sb_flush_sets ADAPTIVE_ENFORCEMENT_SETS sets = (e1, s1)" by fastforce
  obtain e2 s2 where g: "sb_set_guard_modes ALL_OBSERVE s1 = (e2, s2)" by fastforce
  obtain n where run: "retire_all_active now (m\<lparr>fm_enforcement_mode := EM_SHADOW, fm_sets := Some s2\<rparr>) = (n, m')"
    and ev: "ev = system_event now (if e1 \<noteq> None \<or> e2 \<noteq> None then ES_CRITICAL else ES_WARNING)"
    using assms(2,4) f g by (auto simp: revert_to_base_def kill_switch_sets_def Let_def split: prod.splits)
  have keyed: "keyed_rules (m\<lparr>fm_enforcement_mode := EM_SHADOW, fm_sets := Some s2\<rparr>)"
    using assms(1) by (simp add: keyed_rules_def)
  note retire = retire_all_active_result [OF keyed run]
  note flush = flush_enforcement [OF f assms(3)]
  note guards = set_guard_modes_result [OF g]
  have view: "live_view t s2 = live_view t s1" "backend_inv s2 = backend_inv s1" for t
    using same_tables [OF guards(1)] by blast+
  have sev: "ev_severity ev \<noteq> ES_CRITICAL \<longleftrightarrow> e1 = None \<and> e2 = None" by (simp add: ev system_event_def)
  have ready: "e1 = None \<and> e2 = None" if "backend_ready sets"
    using flush_ready [OF that] f guards_ready [of s1 ALL_OBSERVE] g by auto
  show ?thesis
    using retire flush(1) view sev ready guards(2)
    by (intro conjI exI [of _ s2] allI impI) (simp_all add: flush(3,4) del: split_paired_All)
qed

text \<open>The fail-open shutdown flushes the same sets and leaves the guards and the mode alone.\<close>

lemma fail_open_shutdown_result:
  assumes "keyed_rules m" "fm_sets m = Some sets" "backend_inv sets" "fail_open_shutdown now m = (ev, m')"
  shows "\<exists>sets'. fm_sets m' = Some sets' \<and> sb_guards sets' = sb_guards sets \<and> active_rules m' = []
    \<and> fm_enforcement_mode m' = fm_enforcement_mode m
    \<and> (ev_severity ev = ES_INFO \<longrightarrow> (\<forall>t addr k. enforcement_address addr \<longrightarrow> live_view t sets' addr k = None))"
proof -
  obtain e s where f: "sb_flush_sets ADAPTIVE_ENFORCEMENT_SETS sets = (e, s)" by fastforce
  obtain n where run: "retire_all_active now (m\<lparr>fm_sets := Some s\<rparr>) = (n, m')"
    and ev: "ev = system_event now (if e \<noteq> None then ES_ERROR else ES_INFO)"
    using assms(2,4) f by (auto simp: fail_open_shutdown_def Let_def split: prod.splits)
  have "keyed_rules (m\<lparr>fm_sets := Some s\<rparr>)" using assms(1) by (simp add: keyed_rules_def)
  note retire = retire_all_active_result [OF this run]
  note flush = flush_enforcement [OF f assms(3)]
  show ?thesis using retire flush(2) ev
    by (intro exI [of _ s] conjI allI impI) (simp_all add: system_event_def flush(4) split: if_splits del: split_paired_All)
qed

subsection \<open>What deploying a rule leaves in the kernel\<close>

definition device_text :: "rule_target \<Rightarrow> string" where
  "device_text t = (case rt_mac t of Some mac \<Rightarrow> mac | None \<Rightarrow> show_ipv4 (rt_ip t))"

lemma element_key_enforcement:
  "enforcement_set_for a t = Some s \<Longrightarrow> element_key s t = Some (device_text t)"
  by (auto simp: enforcement_set_for_def element_key_def device_text_def MANAGER_WRITABLE_SETS_def nft_name_defs
      split: if_splits option.splits)

lemma enforcement_set_for_restrictive: "a \<in> {FA_BLOCK, FA_RATE_LIMIT} \<Longrightarrow> \<exists>s. enforcement_set_for a t = Some s"
  by (auto simp: enforcement_set_for_def)

lemma element_of_METADATA_UPDATE:
  "rf_metadata r = METADATA_UPDATE s k md \<Longrightarrow> element_of r = Some (s, k)"
  by (simp add: element_of_def METADATA_UPDATE_def META_SET_def META_KEY_def)

lemma deploy_ops_restrictive:
  assumes "enforcement_set_for (rf_action r) t = Some s"
  shows "\<exists>timeout. deploy_ops m r t now up =
    ((case superseded_rule m up of None \<Rightarrow> [] | Some x \<Rightarrow> delete_ops x) @ [adaptive_op SO_ADD s (Single (device_text t)) timeout],
     METADATA_UPDATE s (device_text t) (rf_metadata r))"
  using assms element_key_enforcement [OF assms] by (auto simp: deploy_ops_def Let_def)

lemma op_effect_add_present: "op_kind op = SO_ADD \<Longrightarrow> op_effect now op v (op_address op) (op_key op) \<noteq> None"
  by (auto simp: op_effect_def)

lemma fold_deletes_absent:
  assumes "\<forall>op \<in> set ops. op_kind op = SO_DELETE" "op \<in> set ops"
  shows "fold (op_effect now) ops v (op_address op) (op_key op) = None"
  using assms
proof (induction ops rule: rev_induct)
  case (snoc x ops)
  then show ?case by (cases "x = op") (auto simp: op_effect_def)
qed simp

lemma delete_ops_kind: "op \<in> set (delete_ops r) \<Longrightarrow> op_kind op = SO_DELETE"
  by (auto simp: delete_ops_def adaptive_op_def split: option.splits)

lemma map_prod_Some_iff [simp]: "map_prod Some id x = (Some a, b) \<longleftrightarrow> x = (a, b)"
  by (cases x) auto

lemma map_prod_Some_None [simp]: "map_prod Some id x \<noteq> (None, b)"
  by (cases x) auto

text \<open>The result of a deployment in status ACTIVE: which batch was applied, and what it did.\<close>

lemma deploy_to_sets_active:
  assumes "deploy_to_sets sets r now up m = (Some res, m')" "sr_rule res = Some r'" "fr_status r' = RS_ACTIVE"
    "rf_action r \<in> {FA_BLOCK, FA_RATE_LIMIT}"
  obtains t s timeout sets' where "map_of (fm_targets m) (fr_id r) = Some t" "enforcement_set_for (rf_action r) t = Some s"
    "sb_apply now ((case superseded_rule m up of None \<Rightarrow> [] | Some x \<Rightarrow> delete_ops x)
       @ [adaptive_op SO_ADD s (Single (device_text t)) timeout]) sets = (None, sets')"
    "fm_sets m' = Some sets'" "element_of r' = Some (s, device_text t)" "fr_id r' = fr_id r"
    "fm_rules m' = AList.update (fr_id r) r' (fm_rules (retire_superseded (superseded_rule m up) now m))"
proof -
  obtain t where t: "map_of (fm_targets m) (fr_id r) = Some t"
    using assms(1) by (auto simp: deploy_to_sets_def simp del: map_of_eq_Some_iff split: option.splits)
  obtain s where s: "enforcement_set_for (rf_action r) t = Some s"
    using enforcement_set_for_restrictive [OF assms(4)] by blast
  obtain timeout where ops: "deploy_ops m r t now up =
    ((case superseded_rule m up of None \<Rightarrow> [] | Some x \<Rightarrow> delete_ops x) @ [adaptive_op SO_ADD s (Single (device_text t)) timeout],
     METADATA_UPDATE s (device_text t) (rf_metadata r))"
    using deploy_ops_restrictive [OF s] by blast
  let ?ops = "(case superseded_rule m up of None \<Rightarrow> [] | Some x \<Rightarrow> delete_ops x) @ [adaptive_op SO_ADD s (Single (device_text t)) timeout]"
  obtain err sets' where app: "sb_apply now ?ops sets = (err, sets')" by fastforce
  have "err = None"
    using assms(1-3) t ops app
    by (auto simp: deploy_to_sets_def deploy_failed_def Let_def simp del: map_of_eq_Some_iff split: option.splits)
  with assms(1,2) t ops app have
    d: "(res, m') = deployed r (METADATA_UPDATE s (device_text t) (rf_metadata r)) now
          (retire_superseded (superseded_rule m up) now (m\<lparr>fm_sets := Some sets'\<rparr>))"
    by (auto simp: deploy_to_sets_def Let_def simp del: map_of_eq_Some_iff)
  have keep: "fm_sets (retire_superseded x now y) = fm_sets y"
    "fm_rules (retire_superseded x now (y\<lparr>fm_sets := z\<rparr>)) = fm_rules (retire_superseded x now y)" for x y z
    by (simp_all add: retire_superseded_def split: option.splits)
  show ?thesis
  proof (rule that [OF t s])
    show "sb_apply now ?ops sets = (None, sets')" using app \<open>err = None\<close> by simp
  qed (use d assms(2) keep in \<open>auto simp: deployed_def Let_def element_of_METADATA_UPDATE\<close>)
qed

lemma submit_to_sets_active:
  assumes "submit_to_sets cached sets c now m = (Some res, m')" "sr_rule res = Some r'" "fr_status r' = RS_ACTIVE"
  obtains t up m2 where "target_for m c = Some (Some t)"
    "deploy_to_sets sets (rule_of_candidate c (display_priority (rf_threat_score c)) (Some t)) now up m2 = (Some res, m')"
    "fm_rules m2 = fm_rules m" "map_of (fm_targets m2) (cr_id c) = Some t" "fm_enforcement_mode m \<noteq> EM_SHADOW"
proof -
  obtain target where target: "target_for m c = Some target" using assms(1) by (auto simp: submit_to_sets_def split: option.splits)
  obtain outcome rl where v: "validate_set_candidate cached c target (mc_validation (fm_config m)) (fm_known_decision_ids m)
      (active_targets m) (fm_allowlist m) (fm_rate_limiter m) now (fm_local_addresses m) = (outcome, rl)" by fastforce
  obtain t where t: "target = Some t"
    using assms target v by (cases target) (auto simp: submit_to_sets_def rejected_result_def)
  let ?r = "rule_of_candidate c (display_priority (rf_threat_score c)) (Some t)"
  let ?m2 = "record_transition (fr_id ?r) None RS_VALIDATING now
    (m\<lparr>fm_rate_limiter := rl_record now rl, fm_targets := AList.update (fr_id ?r) t (fm_targets m)\<rparr>)"
  have "fm_enforcement_mode m \<noteq> EM_SHADOW" "deploy_to_sets sets ?r now (so_upgrade_of outcome) ?m2 = (Some res, m')"
    using assms target v t
    by (auto simp: submit_to_sets_def rejected_result_def shadow_def hold_for_approval_def Let_def split: if_splits)
  moreover have "fm_rules ?m2 = fm_rules m" "map_of (fm_targets ?m2) (cr_id c) = Some t"
    by (simp_all add: record_transition_def rule_of_candidate_def update_conv' del: map_of_eq_Some_iff)
  ultimately show ?thesis using target t
    by (intro that [where t = t and up = "so_upgrade_of outcome" and ?m2.0 = ?m2]) simp_all
qed

lemma superseded_rules:
  assumes "keyed_rules m" "superseded_rule m up = Some x"
  shows "x \<in> set (active_rules m)" "map_of (fm_rules m) (fr_id x) = Some x"
proof -
  obtain i where i: "map_of (fm_rules m) i = Some x" "fr_status x = RS_ACTIVE"
    using assms(2) by (auto simp: superseded_rule_def simp del: map_of_eq_Some_iff split: option.splits if_splits bind_splits)
  then show "map_of (fm_rules m) (fr_id x) = Some x" using keyed_lookup_rule [OF assms(1)] by metis
  then show "x \<in> set (active_rules m)" using i(2) keyed_lookup_rule [OF assms(1)] by (auto simp: active_rules_set simp del: map_of_eq_Some_iff)
qed

text \<open>The only other rule a deployment retires is the one it supersedes.\<close>

lemma retired_is_superseded:
  assumes "keyed_rules m" "x \<in> set (active_rules m)" "fr_id x \<noteq> i"
    "map_of (AList.update i r (fm_rules (retire_superseded (superseded_rule m up) now m))) (fr_id x) = Some x'"
    "fr_status x' = RS_REMOVED"
  shows "superseded_rule m up = Some x"
proof (rule ccontr)
  assume ne: "superseded_rule m up \<noteq> Some x"
  have old: "map_of (fm_rules m) (fr_id x) = Some x"
    using assms(2) keyed_lookup_rule [OF assms(1)] by (auto simp: active_rules_set simp del: map_of_eq_Some_iff)
  have "map_of (fm_rules (retire_superseded (superseded_rule m up) now m)) (fr_id x) = Some x"
  proof (cases "superseded_rule m up")
    case None
    then show ?thesis using old by (simp add: retire_superseded_def del: map_of_eq_Some_iff)
  next
    case (Some y)
    have "fr_id y \<noteq> fr_id x" using superseded_rules(2) [OF assms(1) Some] old ne Some by (metis option.inject)
    then show ?thesis using old Some by (simp add: retire_superseded_def del: map_of_eq_Some_iff)
  qed
  then have "fr_status x = RS_REMOVED" using assms(3-5) by simp
  then show False using assms(2) by (simp add: active_rules_set)
qed

lemma swapped_in_present:
  assumes "backend_inv sets" "sb_apply now (gone @ [adaptive_op SO_ADD s (Single e) timeout]) sets = (None, sets')"
  shows "live_view now sets' (INET_FAMILY, ADAPTIVE_TABLE, s) (Single e) \<noteq> None"
proof -
  let ?add = "adaptive_op SO_ADD s (Single e) timeout"
  have addr: "op_address ?add = (INET_FAMILY, ADAPTIVE_TABLE, s)" "op_key ?add = Single e" "op_kind ?add = SO_ADD"
    by (simp_all add: adaptive_op_def op_address_def)
  have "live_view now sets' = op_effect now ?add (fold (op_effect now) gone (live_view now sets))"
    using kernel.apply_ok [OF assms] by simp
  then have "live_view now sets' (op_address ?add) (op_key ?add) \<noteq> None"
    using op_effect_add_present [OF addr(3), of now] by metis
  then show ?thesis unfolding addr .
qed

lemma swapped_out_absent:
  assumes "backend_inv sets"
    "sb_apply now ([adaptive_op SO_DELETE n (Single k) None] @ [adaptive_op SO_ADD s (Single e) timeout]) sets = (None, sets')"
    "(n, k) \<noteq> (s, e)"
  shows "live_view now sets' (INET_FAMILY, ADAPTIVE_TABLE, n) (Single k) = None"
proof -
  let ?add = "adaptive_op SO_ADD s (Single e) timeout" and ?del = "adaptive_op SO_DELETE n (Single k) None"
  have addr: "op_address ?add = (INET_FAMILY, ADAPTIVE_TABLE, s)" "op_key ?add = Single e"
    by (simp_all add: adaptive_op_def op_address_def)
  have d: "op_address ?del = (INET_FAMILY, ADAPTIVE_TABLE, n)" "op_key ?del = Single k" "op_kind ?del = SO_DELETE"
    by (simp_all add: adaptive_op_def op_address_def)
  have view: "live_view now sets' = op_effect now ?add (fold (op_effect now) [?del] (live_view now sets))"
    using kernel.apply_ok [OF assms(1,2)] by simp
  have "fold (op_effect now) [?del] (live_view now sets) (INET_FAMILY, ADAPTIVE_TABLE, n) (Single k) = None"
    using fold_deletes_absent [of "[?del]" ?del now "live_view now sets"] unfolding d by (simp add: d(3))
  then show ?thesis unfolding view
    using op_effect_other [of "(INET_FAMILY, ADAPTIVE_TABLE, n)" ?add "Single k" now] addr assms(3) by auto
qed

text \<open>
  C4: A rule reported ACTIVE is enforced. When submitting a throttling or blocking candidate on the set
  path yields an ACTIVE rule, the kernel holds, from that moment, an element for it in the set of its
  action, keyed on the candidate's device (its MAC when one is known, its address otherwise), which the
  rule's own record names; the mode was not SHADOW; every enforcement element still expires within an
  hour; and any other rule that this step moved from ACTIVE to REMOVED (the rate limit a block replaces)
  has no element left.
\<close>

theorem active_rule_is_enforced:
  assumes "keyed_rules m" "fm_sets m = Some sets" "backend_inv sets" "lapses_within_the_hour now (live_view now sets)"
    "submit_candidate cached c now m = (Some res, m')" "sr_rule res = Some r" "fr_status r = RS_ACTIVE"
    "rf_action c \<in> {FA_BLOCK, FA_RATE_LIMIT}"
  shows "fm_enforcement_mode m \<noteq> EM_SHADOW \<and> (\<exists>sets' t s. fm_sets m' = Some sets' \<and> backend_inv sets'
    \<and> target_for m c = Some (Some t) \<and> enforcement_set_for (rf_action c) t = Some s
    \<and> element_of r = Some (s, device_text t)
    \<and> live_view now sets' (INET_FAMILY, ADAPTIVE_TABLE, s) (Single (device_text t)) \<noteq> None
    \<and> lapses_within_the_hour now (live_view now sets')
    \<and> (\<forall>x x' n k. x \<in> set (active_rules m) \<and> fr_id x \<noteq> cr_id c \<and> map_of (fm_rules m') (fr_id x) = Some x'
          \<and> fr_status x' = RS_REMOVED \<and> element_of x = Some (n, k) \<and> (n, k) \<noteq> (s, device_text t)
          \<longrightarrow> live_view now sets' (INET_FAMILY, ADAPTIVE_TABLE, n) (Single k) = None))"
proof -
  have "submit_to_sets cached sets c now m = (Some res, m')" using assms(2,5) by (simp add: submit_candidate_def)
  then obtain t up m2 where t: "target_for m c = Some (Some t)" "fm_enforcement_mode m \<noteq> EM_SHADOW"
    and dep: "deploy_to_sets sets (rule_of_candidate c (display_priority (rf_threat_score c)) (Some t)) now up m2 = (Some res, m')"
    and m2: "fm_rules m2 = fm_rules m" "map_of (fm_targets m2) (cr_id c) = Some t"
    using assms(6,7) by (rule submit_to_sets_active)
  let ?r = "rule_of_candidate c (display_priority (rf_threat_score c)) (Some t)"
  have r: "rf_action ?r = rf_action c" "fr_id ?r = cr_id c" by (simp_all add: rule_of_candidate_def)
  obtain t' s timeout sets' where t': "map_of (fm_targets m2) (fr_id ?r) = Some t'"
    and s: "enforcement_set_for (rf_action ?r) t' = Some s"
    and app: "sb_apply now ((case superseded_rule m2 up of None \<Rightarrow> [] | Some x \<Rightarrow> delete_ops x)
       @ [adaptive_op SO_ADD s (Single (device_text t')) timeout]) sets = (None, sets')"
    and m': "fm_sets m' = Some sets'" "element_of r = Some (s, device_text t')" "fr_id r = fr_id ?r"
    "fm_rules m' = AList.update (fr_id ?r) r (fm_rules (retire_superseded (superseded_rule m2 up) now m2))"
    using dep assms(6,7) assms(8) unfolding r(1) [symmetric] by (rule deploy_to_sets_active)
  have "t' = t" using t' m2(2) r(2) by simp
  define gone where "gone = (case superseded_rule m2 up of None \<Rightarrow> [] | Some x \<Rightarrow> delete_ops x)"
  have app': "sb_apply now (gone @ [adaptive_op SO_ADD s (Single (device_text t)) timeout]) sets = (None, sets')"
    using app \<open>t' = t\<close> by (simp add: gone_def)
  note present = swapped_in_present [OF assms(3) app']
  have lapses: "lapses_within_the_hour now (live_view now sets')"
    using kernel.apply_lapses [OF assms(3,4), of "gone @ [adaptive_op SO_ADD s (Single (device_text t)) timeout]"] app' by simp
  have removed: "live_view now sets' (INET_FAMILY, ADAPTIVE_TABLE, n) (Single k) = None"
    if x: "x \<in> set (active_rules m)" "fr_id x \<noteq> cr_id c" "map_of (fm_rules m') (fr_id x) = Some x'" "fr_status x' = RS_REMOVED"
      "element_of x = Some (n, k)" "(n, k) \<noteq> (s, device_text t)" for x x' n k
  proof -
    have same: "keyed_rules m2" "x \<in> set (active_rules m2)"
      using assms(1) x(1) m2(1) by (simp_all add: keyed_rules_def active_rules_def)
    have "superseded_rule m2 up = Some x"
      using retired_is_superseded [OF same] x(2-4) m'(4) r(2) by simp
    then have "gone = [adaptive_op SO_DELETE n (Single k) None]" using x(5) by (simp add: gone_def delete_ops_def)
    then show ?thesis using swapped_out_absent [OF assms(3) _ x(6)] app' by simp
  qed
  have set: "enforcement_set_for (rf_action c) t = Some s" using s unfolding r(1) \<open>t' = t\<close> .
  have named: "element_of r = Some (s, device_text t)" using m'(2) unfolding \<open>t' = t\<close> .
  have inv: "backend_inv sets'" using kernel.apply_ok [OF assms(3) app'] by blast
  show ?thesis
    apply (intro conjI exI [of _ sets'] exI [of _ t] exI [of _ s] allI impI)
    using t m'(1) inv set named present lapses apply (simp_all only: simp_thms)
    by (elim conjE) (rule removed)
qed

definition example_manager :: firewall_manager where
  "example_manager = (new_firewall_manager
     \<lparr>mc_validation = example_config, mc_enforcement_mode = EM_ACTIVE, mc_assisted_review_threshold = 90,
      mc_max_adaptive_rules_per_window = 5, mc_rate_window_seconds = 60, mc_allowlist = [example_entry], mc_grace_seconds = 60\<rparr>
     (new_firewall_backend False False False) None (Some (new_set_backend 4 4 None)) None None)
     \<lparr>fm_known_decision_ids := [''d'']\<rparr>"

lemma example_target:
  "target_for example_manager example_candidate = Some (Some \<lparr>rt_ip = ipv4 10 0 0 5, rt_mac = None\<rparr>)"
  by (simp add: target_for_def bound_mac_of_def resolve_client_mac_def device_target_def example_manager_def
      new_firewall_manager_def example_rule_defs network_eval)

lemma apply_add_succeeds:
  assumes "\<not> sb_fail_next b" "validate_element op = None" "fake_set_of (op_address op) b = Some s"
    "\<forall>n. ks_size s = Some n \<longrightarrow> length (ks_elements s) < n"
  shows "\<exists>b'. sb_apply now [op] b = (None, b')"
proof -
  let ?b = "b\<lparr>sb_calls := sb_calls b + 1\<rparr>"
  have "sb_set (op_address op) ?b = (Inr s, ?b)" using assms(3) fake_set_of_tables [of ?b b] by (simp add: sb_set_Inr)
  moreover have "length (live_elements now (ks_elements s)) \<le> length (ks_elements s)" by (simp add: live_elements_def)
  then have "stage_op now op (ks_size s) (live_elements now (ks_elements s)) \<noteq> None"
    using assms(4) by (force simp: stage_op_def split: option.splits)
  ultimately show ?thesis using assms(1,2) by (auto simp: sb_apply_def sb_begin_def Let_def)
qed

text \<open>A fresh backend has every table loaded and every enforcement set empty.\<close>

lemma fresh_enforcement_set:
  "n \<in> set ADAPTIVE_ENFORCEMENT_SETS \<Longrightarrow>
     fake_set_of (INET_FAMILY, ADAPTIVE_TABLE, n) (new_set_backend size_a size_b gs) = Some (new_fake_set size_a)"
  by (auto simp: fake_set_of_def new_set_backend_def load_tables_def ensure_table_def ensure_sets_def od_setdefault_def
      ADAPTIVE_ENFORCEMENT_SETS_def nft_name_defs)

lemma fresh_backend_ready: "backend_ready (new_set_backend size_a size_b gs)"
  by (simp add: backend_ready_def fresh_enforcement_set)
     (simp add: new_set_backend_def load_tables_def ensure_table_def nft_name_defs)

lemma example_apply:
  "\<exists>b'. sb_apply 0 [adaptive_op SO_ADD SET_BLOCK4 (Single (show_ipv4 (ipv4 10 0 0 5))) (Some 60)] (new_set_backend 4 4 None) = (None, b')"
proof (rule apply_add_succeeds)
  let ?op = "adaptive_op SO_ADD SET_BLOCK4 (Single (show_ipv4 (ipv4 10 0 0 5))) (Some 60)"
  show "\<not> sb_fail_next (new_set_backend 4 4 None)" using fresh_backend_ready by (auto simp: backend_ready_def)
  show "fake_set_of (op_address ?op) (new_set_backend 4 4 None) = Some (new_fake_set 4)"
    using fresh_enforcement_set [of SET_BLOCK4 4 4 None] by (simp add: adaptive_op_def op_address_def ADAPTIVE_ENFORCEMENT_SETS_def)
  show "validate_element ?op = None"
    by (simp add: adaptive_op_def validate_element_def MANAGER_WRITABLE_SETS_def nft_name_defs MAX_ELEMENT_TIMEOUT_SECONDS_def)
qed (simp add: new_fake_set_def)

abbreviation example_target :: rule_target where
  "example_target \<equiv> \<lparr>rt_ip = ipv4 10 0 0 5, rt_mac = None\<rparr>"

lemma example_manager_sel:
  "fm_sets example_manager = Some (new_set_backend 4 4 None)" "fm_enforcement_mode example_manager = EM_ACTIVE"
  "fm_rules example_manager = []" "fm_known_decision_ids example_manager = [''d'']" "fm_allowlist example_manager = [example_entry]"
  "fm_rate_limiter example_manager = new_rate_limiter 5 (seconds 60)" "mc_validation (fm_config example_manager) = example_config"
  "fm_local_addresses example_manager = None" "active_targets example_manager = []" "keyed_rules example_manager"
  "fm_targets example_manager = []"
  by (simp_all add: example_manager_def new_firewall_manager_def active_targets_def active_rules_def keyed_rules_def List.map_filter_simps)

lemma example_deploys:
  "\<exists>res m' r. submit_candidate no_local example_candidate 0 example_manager = (Some res, m')
     \<and> sr_rule res = Some r \<and> fr_status r = RS_ACTIVE \<and> map_of (fm_rules m') (cr_id example_candidate) = Some r"
proof -
  obtain outcome rl where v: "validate_set_candidate no_local example_candidate (Some example_target) example_config
      [''d''] [] [example_entry] (new_rate_limiter 5 (seconds 60)) 0 None = (outcome, rl)" by fastforce
  have ok: "so_approved outcome"
    using example_set_approved v by simp
  let ?r = "rule_of_candidate example_candidate (display_priority (rf_threat_score example_candidate)) (Some example_target)"
  let ?m = "record_transition (fr_id ?r) None RS_VALIDATING 0 (example_manager
      \<lparr>fm_rate_limiter := rl_record 0 rl, fm_targets := [(fr_id ?r, example_target)]\<rparr>)"
  obtain b' where app: "sb_apply 0 [adaptive_op SO_ADD SET_BLOCK4 (Single (show_ipv4 (ipv4 10 0 0 5))) (Some 60)]
      (new_set_backend 4 4 None) = (None, b')" using example_apply by blast
  have "submit_candidate no_local example_candidate 0 example_manager =
      deploy_to_sets (new_set_backend 4 4 None) ?r 0 (so_upgrade_of outcome) ?m"
    using ok v by (simp add: submit_candidate_def submit_to_sets_def Let_def example_manager_sel example_target)
  moreover have "superseded_rule ?m up = None" for up
    by (cases up) (simp_all add: superseded_rule_def example_manager_sel)
  moreover have "deploy_ops ?m ?r example_target 0 up =
      ([adaptive_op SO_ADD SET_BLOCK4 (Single (show_ipv4 (ipv4 10 0 0 5))) (Some 60)], METADATA_UPDATE SET_BLOCK4 (show_ipv4 (ipv4 10 0 0 5)) [])"
    if "superseded_rule ?m up = None" for up
    using that by (simp add: deploy_ops_def enforcement_set_for_def element_key_def rule_of_candidate_def example_rule_defs
        MANAGER_WRITABLE_SETS_def nft_name_defs element_timeout_seconds_def example_manager_sel whole_seconds_def seconds_def MAX_ELEMENT_TIMEOUT_SECONDS_def)
  ultimately show ?thesis
    using app by (simp add: deploy_to_sets_def deployed_def retire_superseded_def Let_def rule_of_candidate_def)
qed

theorem active_rule_is_enforced_witness:
  "\<exists>res m' sets'. submit_candidate no_local example_candidate 0 example_manager = (Some res, m') \<and> fm_sets m' = Some sets'
     \<and> live_view 0 sets' (INET_FAMILY, ADAPTIVE_TABLE, SET_BLOCK4) (Single (show_ipv4 (ipv4 10 0 0 5))) \<noteq> None"
proof -
  obtain res m' r where run: "submit_candidate no_local example_candidate 0 example_manager = (Some res, m')"
    "sr_rule res = Some r" "fr_status r = RS_ACTIVE" using example_deploys by blast
  have "lapses_within_the_hour 0 (live_view 0 (new_set_backend 4 4 None))"
    by (simp add: lapses_within_the_hour_def new_set_backend_empty)
  moreover have "rf_action example_candidate \<in> {FA_BLOCK, FA_RATE_LIMIT}" by (simp add: example_rule_defs)
  moreover have "enforcement_set_for (rf_action example_candidate) example_target = Some SET_BLOCK4"
    by (simp add: enforcement_set_for_def example_rule_defs)
  ultimately show ?thesis
    using active_rule_is_enforced [OF example_manager_sel(10,1) new_set_backend_empty(2) _ run] run(1) example_target
    by (fastforce simp: device_text_def)
qed

theorem kill_switch_disarms_witness:
  "fm_enforcement_mode (snd (revert_to_base 5 example_manager)) = EM_SHADOW
   \<and> (\<exists>sets'. fm_sets (snd (revert_to_base 5 example_manager)) = Some sets' \<and> (\<forall>g. sb_guard_mode g sets' = Some GM_OBSERVE))"
proof -
  obtain ev m' where run: "revert_to_base 5 example_manager = (ev, m')" by fastforce
  from kill_switch_disarms [OF example_manager_sel(10,1) new_set_backend_empty(2) run] fresh_backend_ready
  show ?thesis unfolding run by fastforce
qed

end
