(* ===== verification/Lifecycle.thy ===== *)
theory Lifecycle
  imports Manager Generator "HOL-Library.Sublist"
begin

section \<open>The life of a rule\<close>

text \<open>
  The rule lifecycle as a state machine over \<open>FirewallManager\<close>. \<open>manager_step\<close> is one public operation of
  \<open>firewall/manager.py\<close>; its reachable states are every history of the manager. The audit trail
  (\<open>transitions\<close>) is read, rule by rule, as a walk along the edges of the lifecycle.
\<close>

subsection \<open>The lifecycle and walks along it\<close>

definition lifecycle_edges :: "(rule_status option \<times> rule_status) list" where
  "lifecycle_edges =
     [(None, RS_VALIDATING), (None, RS_ACTIVE),
      (Some RS_VALIDATING, RS_REJECTED), (Some RS_VALIDATING, RS_SHADOWED), (Some RS_VALIDATING, RS_PENDING_APPROVAL),
      (Some RS_VALIDATING, RS_DEPLOYED),
      (Some RS_PENDING_APPROVAL, RS_APPROVED), (Some RS_PENDING_APPROVAL, RS_REJECTED),
      (Some RS_APPROVED, RS_DEPLOYED), (Some RS_APPROVED, RS_REJECTED), (Some RS_DEPLOYED, RS_ACTIVE),
      (Some RS_ACTIVE, RS_EXPIRED), (Some RS_ACTIVE, RS_DISABLED), (Some RS_ACTIVE, RS_REMOVED)]"

definition lifecycle_edge :: "rule_status option \<Rightarrow> rule_status \<Rightarrow> bool" where
  "lifecycle_edge f t \<longleftrightarrow> (f, t) \<in> set lifecycle_edges"

definition terminal_status :: "rule_status \<Rightarrow> bool" where
  "terminal_status s \<longleftrightarrow> s \<in> {RS_REJECTED, RS_SHADOWED, RS_EXPIRED, RS_DISABLED, RS_REMOVED}"

fun walk :: "rule_status option \<Rightarrow> (rule_status option \<times> rule_status) list \<Rightarrow> rule_status option option" where
  "walk s [] = Some s"
| "walk s ((f, t) # es) = (if f = s \<and> lifecycle_edge f t then walk (Some t) es else None)"

lemma walk_append: "walk s (es @ es') = Option.bind (walk s es) (\<lambda>s'. walk s' es')"
  by (induction s es rule: walk.induct) auto

lemma terminal_no_edge: "terminal_status s \<Longrightarrow> \<not> lifecycle_edge (Some s) t"
  by (auto simp: terminal_status_def lifecycle_edge_def lifecycle_edges_def)

lemma walk_terminal: "terminal_status s \<Longrightarrow> walk (Some s) es = Some s' \<Longrightarrow> s' = Some s"
  by (cases es) (auto simp: terminal_no_edge split: if_splits)

subsection \<open>The trail of a rule\<close>

definition trail :: "string \<Rightarrow> firewall_manager \<Rightarrow> (rule_status option \<times> rule_status) list" where
  "trail i m = map (\<lambda>t. (tr_from_status t, tr_to_status t)) (filter (\<lambda>t. tr_rule_id t = i) (fm_transitions m))"

definition status_map :: "firewall_manager \<Rightarrow> string \<Rightarrow> rule_status option" where
  "status_map m i = map_option fr_status (map_of (fm_rules m) i)"

definition targets_known :: "firewall_manager \<Rightarrow> bool" where
  "targets_known m \<longleftrightarrow> fm_sets m = None \<or> (\<forall>i. map_of (fm_rules m) i \<noteq> None \<longrightarrow> map_of (fm_targets m) i \<noteq> None)"

text \<open>The state invariant: \<open>S\<close> is where each rule's walk has arrived, and the trail only ever extends \<open>T\<close>.\<close>

definition audited_as :: "rule_transition list \<Rightarrow> (string \<Rightarrow> rule_status option) \<Rightarrow> firewall_manager \<Rightarrow> bool" where
  "audited_as T S m \<longleftrightarrow> keyed_rules m \<and> targets_known m \<and> prefix T (fm_transitions m)
     \<and> (\<forall>i. walk None (trail i m) = Some (S i))"

abbreviation audited :: "rule_transition list \<Rightarrow> firewall_manager \<Rightarrow> bool" where
  "audited T m \<equiv> audited_as T (status_map m) m"

text \<open>The rule \<open>i\<close> is on its way: its walk has arrived at \<open>s\<close>, which the store may not show yet.\<close>

abbreviation limbo :: "rule_transition list \<Rightarrow> string \<Rightarrow> rule_status \<Rightarrow> firewall_manager \<Rightarrow> bool" where
  "limbo T i s m \<equiv> audited_as T ((status_map m)(i \<mapsto> s)) m"

lemma status_map_put [simp]: "status_map (put_rule r m) = (status_map m)(fr_id r \<mapsto> fr_status r)"
  by (auto simp: status_map_def)

lemma status_map_record [simp]: "status_map (record_transition i f t now m) = status_map m"
  by (simp add: status_map_def fun_eq_iff)

lemma trail_put [simp]: "trail i (put_rule r m) = trail i m"
  by (simp add: trail_def)

lemma trail_record [simp]:
  "trail i (record_transition j f t now m) = trail i m @ (if i = j then [(f, t)] else [])"
  by (simp add: trail_def record_transition_def)

lemma transitions_record:
  "fm_transitions (record_transition i f t now m) = fm_transitions m @
     [\<lparr>tr_rule_id = i, tr_from_status = f, tr_to_status = t, tr_at = now\<rparr>]"
  by (simp add: record_transition_def)

lemma audited_record:
  assumes "audited_as T S m" "lifecycle_edge (S i) t"
  shows "audited_as T (S(i \<mapsto> t)) (record_transition i (S i) t now m)"
  using assms
  by (auto simp: audited_as_def keyed_other targets_known_def walk_append transitions_record)

lemma audited_put:
  assumes "audited_as T S m" "fm_sets m = None \<or> map_of (fm_targets m) (fr_id r) \<noteq> None"
  shows "audited_as T S (put_rule r m)"
  using assms by (auto simp: audited_as_def keyed_put targets_known_def)

lemma audited_frame:
  assumes "audited_as T S m" "fm_rules m' = fm_rules m" "fm_transitions m' = fm_transitions m"
    "fm_sets m' \<noteq> None \<Longrightarrow> fm_sets m \<noteq> None"
    "\<And>i. map_of (fm_targets m) i \<noteq> None \<Longrightarrow> map_of (fm_targets m') i \<noteq> None"
  shows "audited_as T S m'"
proof -
  have "targets_known m'" using assms(1,2,4,5) unfolding audited_as_def targets_known_def by metis
  then show ?thesis using assms(1-3) by (simp add: audited_as_def keyed_rules_def trail_def)
qed

lemma status_map_frame: "fm_rules m' = fm_rules m \<Longrightarrow> status_map m' = status_map m"
  by (simp add: status_map_def fun_eq_iff)

lemma audited_same:
  assumes "audited T m" "fm_rules m' = fm_rules m" "fm_transitions m' = fm_transitions m"
    "fm_targets m' = fm_targets m" "fm_sets m' \<noteq> None \<Longrightarrow> fm_sets m \<noteq> None"
  shows "audited T m'"
  unfolding status_map_frame [OF assms(2)] by (rule audited_frame [OF assms(1-3)]) (use assms(4,5) in auto)

lemma limbo_start:
  "audited T m \<Longrightarrow> status_map m i = None \<Longrightarrow> lifecycle_edge None t \<Longrightarrow> limbo T i t (record_transition i None t now m)"
  using audited_record [of T "status_map m" m i t now] by simp

lemma audited_limbo: "audited T m \<Longrightarrow> status_map m i = Some s \<Longrightarrow> limbo T i s m"
  by (metis fun_upd_triv)

lemma limbo_record:
  "limbo T i s m \<Longrightarrow> lifecycle_edge (Some s) t \<Longrightarrow> limbo T i t (record_transition i (Some s) t now m)"
  using audited_record [of T "(status_map m)(i \<mapsto> s)" m i t now] by simp

lemma limbo_put:
  assumes "limbo T i s m" "fr_id r = i" "fm_sets m = None \<or> map_of (fm_targets m) i \<noteq> None"
  shows "limbo T i s (put_rule r m)"
  using audited_put [OF assms(1), of r] assms(2,3) by simp

lemma limbo_done: "limbo T i s m \<Longrightarrow> status_map m i = Some s \<Longrightarrow> audited T m"
  by (metis fun_upd_triv)

lemma limbo_finish:
  assumes "limbo T i s m" "lifecycle_edge (Some s) (fr_status r)" "fr_id r = i"
    "fm_sets m = None \<or> map_of (fm_targets m) i \<noteq> None"
  shows "audited T (record_transition i (Some s) (fr_status r) now (put_rule r m))"
  by (rule limbo_done [where i = i and s = "fr_status r"], rule limbo_record [OF limbo_put [OF assms(1,3,4)] assms(2)])
     (simp add: assms(3))

lemma limbo_frame:
  assumes "limbo T i s m" "fm_rules m' = fm_rules m" "fm_transitions m' = fm_transitions m"
    "fm_sets m' \<noteq> None \<Longrightarrow> fm_sets m \<noteq> None"
    "\<And>i. map_of (fm_targets m) i \<noteq> None \<Longrightarrow> map_of (fm_targets m') i \<noteq> None"
  shows "limbo T i s m'"
  unfolding status_map_frame [OF assms(2)] by (rule audited_frame [OF assms]) auto

lemmas lifecycle_defs = lifecycle_edge_def lifecycle_edges_def

lemma status_mapD: "status_map m i = Some s \<Longrightarrow> \<exists>r. map_of (fm_rules m) i = Some r \<and> fr_status r = s"
  by (auto simp: status_map_def simp del: map_of_eq_Some_iff)

lemma stored_target: "audited_as T S m \<Longrightarrow> map_of (fm_rules m) i = Some r \<Longrightarrow> fm_sets m = None \<or> map_of (fm_targets m) i \<noteq> None"
  by (auto simp: audited_as_def targets_known_def simp del: map_of_eq_Some_iff)

subsection \<open>Retiring\<close>

definition retired_to :: "rule_status \<Rightarrow> bool" where
  "retired_to s \<longleftrightarrow> s \<in> {RS_EXPIRED, RS_DISABLED, RS_REMOVED}"

lemma audited_retire:
  assumes "audited T m" "map_of (fm_rules m) (fr_id r) = Some r" "fr_status r = RS_ACTIVE" "retired_to s"
  shows "audited T (record_transition (fr_id r) (Some RS_ACTIVE) s now (put_rule (r\<lparr>fr_status := s\<rparr>) m))"
proof -
  have "status_map m (fr_id r) = Some RS_ACTIVE" using assms(2,3) by (simp add: status_map_def)
  from limbo_finish [OF audited_limbo [OF assms(1) this], of "r\<lparr>fr_status := s\<rparr>" now] show ?thesis
    using assms(4) stored_target [OF assms(1,2)] by (auto simp: lifecycle_defs retired_to_def)
qed

lemma withdraw_frame [simp]:
  "fm_rules (withdraw now r m) = fm_rules m" "fm_transitions (withdraw now r m) = fm_transitions m"
  "fm_targets (withdraw now r m) = fm_targets m" "(fm_sets (withdraw now r m) = None) = (fm_sets m = None)"
  by (simp_all add: withdraw_def split: option.splits)

lemma audited_withdraw: "audited T m \<Longrightarrow> audited T (withdraw now r m)"
  by (rule audited_same) simp_all

lemma audited_retire_rule:
  assumes "audited T m" "retired_to s" "retire_rule i s now m = (res, m')"
  shows "audited T m'"
proof (cases "res")
  case None
  then have "m' = m" using assms(3) by (auto simp: retire_rule_def Let_def split: option.splits if_splits)
  then show ?thesis using assms(1) by simp
next
  case (Some x)
  obtain r where r: "map_of (fm_rules m) i = Some r" "fr_status r = RS_ACTIVE"
    and m': "m' = record_transition i (Some RS_ACTIVE) s now
      ((withdraw now r m)\<lparr>fm_rules := AList.update i (r\<lparr>fr_status := s\<rparr>) (fm_rules m)\<rparr>)"
    using assms(3) Some
    by (auto simp: retire_rule_def Let_def simp del: map_of_eq_Some_iff split: option.splits if_splits)
  have i: "fr_id r = i" using keyed_lookup_rule [of m i r] r(1) assms(1) by (simp add: audited_as_def del: map_of_eq_Some_iff)
  have "m' = record_transition (fr_id r) (Some RS_ACTIVE) s now (put_rule (r\<lparr>fr_status := s\<rparr>) (withdraw now r m))"
    unfolding m' i by (simp add: put_rule_def i)
  then show ?thesis
    using audited_retire [OF audited_withdraw [OF assms(1)], where r = r and s = s] r i assms(2) by simp
qed

lemma audited_expire_loop:
  "audited T m \<Longrightarrow> expire_loop now rs es m = (res, m') \<Longrightarrow> audited T m'"
proof (induction now rs es m rule: expire_loop.induct)
  case (2 now r rs es m)
  show ?case
  proof (cases "fr_status r = RS_ACTIVE \<and> (\<exists>t. fr_expires_at r = Some t \<and> t \<le> now)")
    case False
    then show ?thesis using 2 by (auto split: option.splits if_splits)
  next
    case True
    then obtain t where t: "fr_status r = RS_ACTIVE" "fr_expires_at r = Some t" "\<not> now < t" by auto
    obtain x m1 where run: "retire_rule (fr_id r) RS_EXPIRED now m = (x, m1)" by fastforce
    have "audited T m1" by (rule audited_retire_rule [OF "2.prems"(1) _ run]) (simp add: retired_to_def)
    then show ?thesis using 2 t run by (cases x) auto
  qed
qed auto

text \<open>Loops over a snapshot of the store retire each of its active rules once.\<close>

definition to_retire :: "firewall_rule list \<Rightarrow> firewall_manager \<Rightarrow> bool" where
  "to_retire rs m \<longleftrightarrow> distinct (map fr_id rs)
     \<and> (\<forall>r \<in> set rs. fr_status r = RS_ACTIVE \<longrightarrow> map_of (fm_rules m) (fr_id r) = Some r)"

lemma to_retire_frame: "fm_rules m' = fm_rules m \<Longrightarrow> to_retire rs m' = to_retire rs m"
  by (simp add: to_retire_def)

lemma to_retire_tl: "to_retire (r # rs) m \<Longrightarrow> to_retire rs m"
  by (simp add: to_retire_def)

lemma to_retire_store:
  assumes "keyed_rules m" shows "to_retire (map snd (fm_rules m)) m"
proof -
  have keys: "map fr_id (map snd (fm_rules m)) = map fst (fm_rules m)"
    using assms by (intro map_keys_keyed) (auto simp: keyed_rules_def)
  have "distinct (map fr_id (map snd (fm_rules m)))" unfolding keys using assms by (simp add: keyed_rules_def)
  then show ?thesis using keyed_lookup_rule [OF assms] by (auto simp: to_retire_def simp del: map_of_eq_Some_iff)
qed

lemma to_retire_retired:
  assumes "to_retire (r # rs) m" shows "to_retire rs (retired now r m)"
proof -
  have "fr_id x \<noteq> fr_id r" if "x \<in> set rs" for x
    using that assms unfolding to_retire_def by (metis distinct.simps(2) image_eqI list.set_map list.simps(9))
  then show ?thesis using assms unfolding to_retire_def retired_def by simp
qed

lemma retire_next:
  assumes "audited T m" "to_retire (r # rs) m" "fr_status r = RS_ACTIVE"
  shows "audited T (retired now r m)" "to_retire rs (retired now r m)"
proof -
  show "audited T (retired now r m)" unfolding retired_def
    by (rule audited_retire [OF assms(1)]) (use assms(2,3) in \<open>simp_all add: to_retire_def retired_to_def\<close>)
  show "to_retire rs (retired now r m)" by (rule to_retire_retired [OF assms(2)])
qed

lemma audited_retire_loop:
  "audited T m \<Longrightarrow> to_retire rs m \<Longrightarrow> retire_loop now rs n m = (n', m') \<Longrightarrow> audited T m'"
proof (induction rs arbitrary: n m)
  case (Cons r rs)
  show ?case
  proof (cases "fr_status r = RS_ACTIVE")
    case True
    note next_rule = retire_next [OF Cons.prems(1,2) True, of now]
    show ?thesis by (rule Cons.IH [OF next_rule]) (use Cons.prems(3) True in \<open>simp add: retired_def\<close>)
  qed (use Cons.IH [OF Cons.prems(1) to_retire_tl [OF Cons.prems(2)]] Cons.prems(3) in simp)
qed simp

lemma audited_revert_loop:
  "audited T m \<Longrightarrow> to_retire rs m \<Longrightarrow> revert_loop now rs n m = (n', m') \<Longrightarrow> audited T m'"
proof (induction rs arbitrary: n m)
  case (Cons r rs)
  show ?case
  proof (cases "fr_status r = RS_ACTIVE")
    case True
    let ?m = "m\<lparr>fm_backend := snd (fb_remove_rule (fr_id r) (fm_backend m))\<rparr>"
    have m: "audited T ?m" by (rule audited_same [OF Cons.prems(1)]) simp_all
    have rs: "to_retire (r # rs) ?m" using Cons.prems(2) to_retire_frame [of ?m m] by simp
    show ?thesis by (rule Cons.IH [OF retire_next [OF m rs True, of now]]) (use Cons.prems(3) True in \<open>simp add: Let_def retired_def\<close>)
  qed (use Cons.IH [OF Cons.prems(1) to_retire_tl [OF Cons.prems(2)]] Cons.prems(3) in simp)
qed simp

lemma audited_retire_missing:
  "audited T m \<Longrightarrow> to_retire rs m \<Longrightarrow> \<forall>r \<in> set rs. fr_status r = RS_ACTIVE \<Longrightarrow>
     retire_missing now live rs known gone m = (known', gone', m') \<Longrightarrow> audited T m'"
proof (induction rs arbitrary: known gone m)
  case (Cons r rs)
  have act: "fr_status r = RS_ACTIVE" using Cons.prems(3) by simp
  note next_rule = retire_next [OF Cons.prems(1,2) act, of now]
  note keep = Cons.IH [OF Cons.prems(1) to_retire_tl [OF Cons.prems(2)]]
  show ?case
  proof (cases "element_of r")
    case None
    then show ?thesis using keep Cons.prems(3,4) by simp
  next
    case (Some e)
    then show ?thesis using keep Cons.IH [OF next_rule] Cons.prems(3,4) by (cases e) (simp add: retired_def split: if_splits)
  qed
qed simp

subsection \<open>Submitting and approving\<close>

lemma audited_shadow:
  assumes "limbo T (fr_id r) RS_VALIDATING m" "fm_sets m = None \<or> map_of (fm_targets m) (fr_id r) \<noteq> None"
  shows "audited T (snd (shadow r now m))" "audited T (snd (hold_for_approval r now m))"
  using limbo_finish [OF assms(1), of "r\<lparr>fr_status := RS_SHADOWED\<rparr>" now]
    limbo_finish [OF assms(1), of "r\<lparr>fr_status := RS_PENDING_APPROVAL\<rparr>" now] assms(2)
  by (simp_all add: shadow_def hold_for_approval_def Let_def lifecycle_defs)

lemma audited_deploy_failed:
  assumes "limbo T (fr_id r) (fr_status r) m" "fr_status r \<in> {RS_VALIDATING, RS_APPROVED}"
    "fm_sets m = None \<or> map_of (fm_targets m) (fr_id r) \<noteq> None"
  shows "audited T (snd (deploy_failed sev r now m))"
  using limbo_finish [OF assms(1), of "r\<lparr>fr_status := RS_REJECTED\<rparr>" now] assms(2,3)
  by (auto simp: deploy_failed_def Let_def lifecycle_defs)

lemma audited_deployed:
  assumes "limbo T (fr_id r) (fr_status r) m" "fr_status r \<in> {RS_VALIDATING, RS_APPROVED}"
    "fm_sets m = None \<or> map_of (fm_targets m) (fr_id r) \<noteq> None"
  shows "audited T (snd (deployed r md now m))"
proof -
  let ?r = "r\<lparr>fr_status := RS_ACTIVE, fr_deployed_at := Some now, rf_metadata := md\<rparr>"
  have "limbo T (fr_id r) (fr_status r) (put_rule ?r m)" using limbo_put [OF assms(1), of ?r] assms(3) by simp
  then have "limbo T (fr_id r) RS_DEPLOYED (record_transition (fr_id r) (Some (fr_status r)) RS_DEPLOYED now (put_rule ?r m))"
    using assms(2) by (intro limbo_record) (auto simp: lifecycle_defs)
  then have "limbo T (fr_id r) RS_ACTIVE (record_transition (fr_id r) (Some RS_DEPLOYED) RS_ACTIVE now
      (record_transition (fr_id r) (Some (fr_status r)) RS_DEPLOYED now (put_rule ?r m)))"
    by (rule limbo_record) (simp add: lifecycle_defs)
  then have "audited T (record_transition (fr_id r) (Some RS_DEPLOYED) RS_ACTIVE now
      (record_transition (fr_id r) (Some (fr_status r)) RS_DEPLOYED now (put_rule ?r m)))"
    by (rule limbo_done) simp
  then show ?thesis by (simp add: deployed_def Let_def)
qed

lemma audited_deploy:
  assumes "limbo T (fr_id r) (fr_status r) m" "fr_status r \<in> {RS_VALIDATING, RS_APPROVED}" "fm_sets m = None"
  shows "audited T (snd (deploy r now m))"
proof -
  obtain ok b where b: "fb_apply_rule r (fm_backend m) = (ok, b)" by fastforce
  have "limbo T (fr_id r) (fr_status r) (m\<lparr>fm_backend := b\<rparr>)" by (rule limbo_frame [OF assms(1)]) simp_all
  from audited_deployed [OF this assms(2)] audited_deploy_failed [OF this assms(2)] show ?thesis
    using b assms(3) by (cases ok) (simp_all add: deploy_def)
qed

text \<open>While \<open>i\<close> is on its way, retiring another rule keeps both walks.\<close>

lemma limbo_retire_other:
  assumes "limbo T i s m" "map_of (fm_rules m) (fr_id x) = Some x" "fr_status x = RS_ACTIVE" "fr_id x \<noteq> i"
  shows "limbo T i s (retired now x m)"
proof -
  let ?S = "(status_map m)(i \<mapsto> s)" and ?x = "x\<lparr>fr_status := RS_REMOVED\<rparr>"
  have "?S (fr_id x) = Some RS_ACTIVE" using assms(2-4) by (simp add: status_map_def)
  then have "audited_as T (?S(fr_id x \<mapsto> RS_REMOVED)) (record_transition (fr_id x) (Some RS_ACTIVE) RS_REMOVED now (put_rule ?x m))"
    using audited_record [OF audited_put [OF assms(1), of ?x], of "fr_id x" RS_REMOVED now] stored_target [OF assms(1,2)]
    by (simp add: lifecycle_defs)
  moreover have "?S(fr_id x \<mapsto> RS_REMOVED) = (status_map (retired now x m))(i \<mapsto> s)"
    using assms(4) by (auto simp: retired_def)
  ultimately show ?thesis by (simp add: retired_def)
qed

lemma superseded_other:
  assumes "keyed_rules m" "superseded_rule m up = Some x" "status_map m i \<noteq> Some RS_ACTIVE"
  shows "map_of (fm_rules m) (fr_id x) = Some x" "fr_status x = RS_ACTIVE" "fr_id x \<noteq> i"
proof -
  show x: "map_of (fm_rules m) (fr_id x) = Some x" by (rule superseded_rules(2) [OF assms(1,2)])
  show a: "fr_status x = RS_ACTIVE" using superseded_rules(1) [OF assms(1,2)] by (simp add: active_rules_set)
  show "fr_id x \<noteq> i" using x a assms(3) by (auto simp: status_map_def simp del: map_of_eq_Some_iff)
qed

lemma audited_deploy_to_sets:
  assumes "limbo T (fr_id r) (fr_status r) m" "fr_status r \<in> {RS_VALIDATING, RS_APPROVED}" "fm_sets m \<noteq> None"
    "map_of (fm_targets m) (fr_id r) \<noteq> None" "status_map m (fr_id r) \<noteq> Some RS_ACTIVE"
  shows "audited T (snd (deploy_to_sets sets r now up m))"
proof -
  obtain t where t: "map_of (fm_targets m) (fr_id r) = Some t" using assms(4) by (auto simp del: map_of_eq_Some_iff)
  obtain ops md where ops: "deploy_ops m r t now up = (ops, md)" by fastforce
  obtain err sets' where app: "sb_apply now ops sets = (err, sets')" by fastforce
  let ?m = "m\<lparr>fm_sets := Some sets'\<rparr>"
  have lim: "limbo T (fr_id r) (fr_status r) ?m" by (rule limbo_frame [OF assms(1)]) (use assms(3) in simp_all)
  have keyed: "keyed_rules m" using assms(1) by (simp add: audited_as_def)
  have lim2: "limbo T (fr_id r) (fr_status r) (retire_superseded (superseded_rule m up) now ?m)"
  proof (cases "superseded_rule m up")
    case None
    then show ?thesis using lim by (simp add: retire_superseded_def)
  next
    case (Some x)
    have "limbo T (fr_id r) (fr_status r) (retired now x ?m)"
      by (rule limbo_retire_other [OF lim]) (use superseded_other [OF keyed Some assms(5)] in simp_all)
    then show ?thesis using Some by (simp add: retire_superseded_def retired_def)
  qed
  have targets: "fm_targets (retire_superseded y now ?m) = fm_targets m" for y
    by (simp add: retire_superseded_def split: option.splits)
  show ?thesis
  proof (cases err)
    case None
    then show ?thesis using audited_deployed [OF lim2 assms(2), of md now] t ops app targets
      by (simp add: deploy_to_sets_def Let_def del: map_of_eq_Some_iff)
  next
    case (Some e)
    then show ?thesis using audited_deploy_failed [OF lim assms(2), of ES_CRITICAL now] t ops app
      by (simp add: deploy_to_sets_def Let_def del: map_of_eq_Some_iff)
  qed
qed

lemma rule_of_candidate_sel [simp]:
  "fr_id (rule_of_candidate c p t) = cr_id c" "fr_status (rule_of_candidate c p t) = RS_VALIDATING"
  "rf_action (rule_of_candidate c p t) = rf_action c" "fr_expires_at (rule_of_candidate c p t) = cr_expires_at c"
  by (simp_all add: rule_of_candidate_def)

lemma audited_submit_to_sets:
  assumes "audited T m" "fm_sets m = Some sets" "map_of (fm_rules m) (cr_id c) = None"
  shows "audited T (snd (submit_to_sets cached sets c now m))"
proof (cases "target_for m c")
  case None
  then show ?thesis using assms(1) by (simp add: submit_to_sets_def)
next
  case (Some target)
  obtain outcome rl where v: "validate_set_candidate cached c target (mc_validation (fm_config m)) (fm_known_decision_ids m)
      (active_targets m) (fm_allowlist m) (fm_rate_limiter m) now (fm_local_addresses m) = (outcome, rl)" by fastforce
  have rejected: "audited T (m\<lparr>fm_rate_limiter := rl\<rparr>)" by (rule audited_same [OF assms(1)]) simp_all
  show ?thesis
  proof (cases "\<exists>t. target = Some t \<and> so_approved outcome")
    case False
    then show ?thesis using Some v rejected by (auto simp: submit_to_sets_def split: option.splits)
  next
    case True
    then obtain t where t: "target = Some t" "so_approved outcome" by blast
    let ?r = "rule_of_candidate c (display_priority (rf_threat_score c)) (Some t)"
    let ?m1 = "m\<lparr>fm_rate_limiter := rl_record now rl, fm_targets := AList.update (cr_id c) t (fm_targets m)\<rparr>"
    let ?m2 = "record_transition (cr_id c) None RS_VALIDATING now ?m1"
    have status: "status_map ?m1 = status_map m" by (rule status_map_frame) simp
    have "audited T ?m1"
      unfolding status by (rule audited_frame [OF assms(1)]) (use assms(2) in \<open>auto simp del: map_of_eq_Some_iff\<close>)
    moreover have none: "status_map ?m1 (cr_id c) = None" using assms(3) by (simp add: status_map_def)
    ultimately have lim: "limbo T (fr_id ?r) RS_VALIDATING ?m2"
      unfolding rule_of_candidate_sel by (rule limbo_start) (simp add: lifecycle_defs)
    have known: "fm_sets ?m2 = None \<or> map_of (fm_targets ?m2) (fr_id ?r) \<noteq> None" by simp
    have deployed: "audited T (snd (deploy_to_sets sets ?r now (so_upgrade_of outcome) ?m2))"
      by (rule audited_deploy_to_sets) (use lim none assms(2) in simp_all)
    show ?thesis
      using Some v t audited_shadow [OF lim known] deployed by (simp add: submit_to_sets_def Let_def)
  qed
qed

lemma audited_submit_to_backend:
  assumes "audited T m" "fm_sets m = None" "map_of (fm_rules m) (cr_id c) = None"
  shows "audited T (snd (submit_to_backend cached c now m))"
proof -
  obtain outcome rl where v: "validate_candidate_rule cached c (mc_validation (fm_config m)) (fm_known_decision_ids m)
      (active_rules m) (fm_allowlist m) (fm_rate_limiter m) now (fm_local_addresses m) (bound_mac_of m c) = (outcome, rl)" by fastforce
  have rejected: "audited T (m\<lparr>fm_rate_limiter := rl\<rparr>)" by (rule audited_same [OF assms(1)]) simp_all
  show ?thesis
  proof (cases "\<exists>p. vo_priority outcome = Some p \<and> vo_approved outcome")
    case False
    then show ?thesis using v rejected by (auto simp: submit_to_backend_def split: option.splits)
  next
    case True
    then obtain p where p: "vo_priority outcome = Some p" "vo_approved outcome" by blast
    let ?r = "rule_of_candidate c p (rf_target c)"
    let ?m1 = "m\<lparr>fm_rate_limiter := rl_record now rl\<rparr>"
    let ?m2 = "record_transition (cr_id c) None RS_VALIDATING now ?m1"
    have "audited T ?m1" by (rule audited_same [OF assms(1)]) simp_all
    moreover have "status_map ?m1 (cr_id c) = None" using assms(3) by (simp add: status_map_def)
    ultimately have lim: "limbo T (fr_id ?r) RS_VALIDATING ?m2"
      unfolding rule_of_candidate_sel by (rule limbo_start) (simp add: lifecycle_defs)
    have known: "fm_sets ?m2 = None \<or> map_of (fm_targets ?m2) (fr_id ?r) \<noteq> None" using assms(2) by simp
    have deployed: "audited T (snd (deploy ?r now ?m2))" by (rule audited_deploy) (use lim assms(2) in simp_all)
    show ?thesis
      using v p audited_shadow [OF lim known] deployed by (simp add: submit_to_backend_def Let_def)
  qed
qed

lemma audited_submit:
  "audited T m \<Longrightarrow> map_of (fm_rules m) (cr_id c) = None \<Longrightarrow> audited T (snd (submit_candidate cached c now m))"
  by (cases "fm_sets m") (simp_all add: submit_candidate_def audited_submit_to_sets audited_submit_to_backend)

lemma keyed_id: "audited_as T S m \<Longrightarrow> map_of (fm_rules m) i = Some r \<Longrightarrow> fr_id r = i"
  using keyed_lookup_rule [of m i r] by (simp add: audited_as_def del: map_of_eq_Some_iff)

lemma audited_approve:
  assumes "audited T m"
  shows "audited T (snd (approve_pending i now m))"
proof (cases "\<exists>r. map_of (fm_rules m) i = Some r \<and> fr_status r = RS_PENDING_APPROVAL")
  case False
  then show ?thesis using assms by (auto simp: approve_pending_def simp del: map_of_eq_Some_iff split: option.splits)
next
  case True
  then obtain r where r: "map_of (fm_rules m) i = Some r" "fr_status r = RS_PENDING_APPROVAL" by blast
  let ?r = "r\<lparr>fr_status := RS_APPROVED\<rparr>" and ?m = "record_transition i (Some RS_PENDING_APPROVAL) RS_APPROVED now m"
  have id: "fr_id ?r = i" using keyed_id [OF assms r(1)] by simp
  have pending: "status_map m i = Some RS_PENDING_APPROVAL" using r by (simp add: status_map_def)
  have lim: "limbo T (fr_id ?r) (fr_status ?r) ?m"
    using limbo_record [OF audited_limbo [OF assms pending], of RS_APPROVED now] id by (simp add: lifecycle_defs)
  show ?thesis
  proof (cases "fm_sets m")
    case None
    then show ?thesis using audited_deploy [OF lim] r by (simp add: approve_pending_def Let_def)
  next
    case (Some sets)
    have "map_of (fm_targets m) i \<noteq> None" using stored_target [OF assms r(1)] Some by simp
    then show ?thesis using audited_deploy_to_sets [OF lim] r Some id pending by (simp add: approve_pending_def Let_def)
  qed
qed

lemma audited_reject:
  assumes "audited T m"
  shows "audited T (snd (reject_pending i now m))"
proof (cases "\<exists>r. map_of (fm_rules m) i = Some r \<and> fr_status r = RS_PENDING_APPROVAL")
  case False
  then show ?thesis using assms by (auto simp: reject_pending_def simp del: map_of_eq_Some_iff split: option.splits)
next
  case True
  then obtain r where r: "map_of (fm_rules m) i = Some r" "fr_status r = RS_PENDING_APPROVAL" by blast
  let ?r = "r\<lparr>fr_status := RS_REJECTED\<rparr>"
  have id: "fr_id ?r = i" using keyed_id [OF assms r(1)] by simp
  have "limbo T i RS_PENDING_APPROVAL m" by (rule audited_limbo [OF assms]) (use r in \<open>simp add: status_map_def\<close>)
  from limbo_finish [OF this _ id, of now] show ?thesis
    using r id stored_target [OF assms r(1)] by (simp add: reject_pending_def Let_def lifecycle_defs put_rule_def)
qed

subsection \<open>Emergency paths, the other writers, reconciliation\<close>

lemma audited_keyed: "audited_as T S m \<Longrightarrow> keyed_rules m"
  by (simp add: audited_as_def)

lemma audited_retire_all:
  assumes "audited T m" "fm_rules m' = fm_rules m" "fm_transitions m' = fm_transitions m" "fm_targets m' = fm_targets m"
    "fm_sets m' \<noteq> None \<Longrightarrow> fm_sets m \<noteq> None" "retire_all_active now m' = (n, m'')"
  shows "audited T m''"
proof -
  have m': "audited T m'" by (rule audited_same [OF assms(1-5)])
  show ?thesis
    by (rule audited_retire_loop [OF m' to_retire_store [OF audited_keyed [OF m']]])
       (use assms(6) in \<open>simp add: retire_all_active_def\<close>)
qed

lemma audited_revert:
  assumes "audited T m" shows "audited T (snd (revert_to_base now m))"
proof (cases "fm_sets m")
  case None
  let ?m = "m\<lparr>fm_enforcement_mode := EM_SHADOW\<rparr>"
  have m: "audited T ?m" by (rule audited_same [OF assms]) simp_all
  obtain n m' where run: "revert_loop now (map snd (fm_rules ?m)) 0 ?m = (n, m')" by fastforce
  have "audited T m'" by (rule audited_revert_loop [OF m to_retire_store [OF audited_keyed [OF m]] run])
  then show ?thesis using None run by (simp add: revert_to_base_def)
next
  case (Some sets)
  obtain e1 s1 where f: "sb_flush_sets ADAPTIVE_ENFORCEMENT_SETS sets = (e1, s1)" by fastforce
  obtain e2 s2 where g: "sb_set_guard_modes ALL_OBSERVE s1 = (e2, s2)" by fastforce
  obtain n m' where run: "retire_all_active now (m\<lparr>fm_enforcement_mode := EM_SHADOW, fm_sets := Some s2\<rparr>) = (n, m')" by fastforce
  have "audited T m'" by (rule audited_retire_all [OF assms _ _ _ _ run]) (use Some in simp_all)
  then show ?thesis using Some f g run by (simp add: revert_to_base_def kill_switch_sets_def)
qed

lemma audited_shutdown:
  assumes "audited T m" shows "audited T (snd (fail_open_shutdown now m))"
proof (cases "fm_sets m")
  case None
  then show ?thesis using audited_revert [OF assms] by (simp add: fail_open_shutdown_def)
next
  case (Some sets)
  obtain e s where f: "sb_flush_sets ADAPTIVE_ENFORCEMENT_SETS sets = (e, s)" by fastforce
  obtain n m' where run: "retire_all_active now (m\<lparr>fm_sets := Some s\<rparr>) = (n, m')" by fastforce
  have "audited T m'" by (rule audited_retire_all [OF assms _ _ _ _ run]) (use Some in simp_all)
  then show ?thesis using Some f run by (simp add: fail_open_shutdown_def)
qed

lemma audited_panic:
  assumes "audited T m" shows "audited T (snd (panic actor now m))"
proof (cases "fm_sets m")
  case None
  then show ?thesis using assms by (simp add: panic_def)
next
  case (Some sets)
  obtain res s where p: "sb_panic sets = (res, s)" by fastforce
  obtain n m' where run: "retire_all_active now (m\<lparr>fm_enforcement_mode := EM_SHADOW, fm_sets := Some s\<rparr>) = (n, m')" by fastforce
  have "audited T m'" by (rule audited_retire_all [OF assms _ _ _ _ run]) (use Some in simp_all)
  moreover have "audited T (m\<lparr>fm_sets := Some s\<rparr>)" by (rule audited_same [OF assms]) (use Some in simp_all)
  ultimately show ?thesis using Some p run by (cases res) (simp_all add: panic_def)
qed

text \<open>The writers of allowlist, bindings, portal grants and guards leave rules and audit trail alone.\<close>

definition rules_untouched :: "firewall_manager \<Rightarrow> firewall_manager \<Rightarrow> bool" where
  "rules_untouched m m' \<longleftrightarrow> fm_rules m' = fm_rules m \<and> fm_transitions m' = fm_transitions m \<and> fm_targets m' = fm_targets m
     \<and> (fm_sets m' \<noteq> None \<longrightarrow> fm_sets m \<noteq> None)"

lemma audited_untouched: "audited T m \<Longrightarrow> rules_untouched m m' \<Longrightarrow> audited T m'"
  unfolding rules_untouched_def by (blast intro: audited_same)

lemma rules_untouched_simps [simp]:
  "rules_untouched m m" "fm_sets m \<noteq> None \<Longrightarrow> rules_untouched m (m\<lparr>fm_sets := s\<rparr>)" "rules_untouched m (m\<lparr>fm_backend := b\<rparr>)"
  "rules_untouched m (m\<lparr>fm_known_decision_ids := ids\<rparr>)"
  "rules_untouched m (m\<lparr>fm_allowlist := es, fm_allowlist_store := st\<rparr>)"
  "fm_sets m \<noteq> None \<Longrightarrow> rules_untouched m (m\<lparr>fm_allowlist := es, fm_allowlist_store := st, fm_sets := s\<rparr>)"
  by (simp_all add: rules_untouched_def)

lemma untouched_writers:
  "rules_untouched m (register_decision d m)"
  "rules_untouched m (snd (add_allowlist_entry now e m))" "rules_untouched m (snd (remove_allowlist_entry now i m))"
  "rules_untouched m (snd (sync_allowlist now m))" "rules_untouched m (snd (sync_bindings change now m))"
  "rules_untouched m (snd (replace_bindings bs now m))" "rules_untouched m (snd (authorize_portal_client ip secs mac m))"
  "rules_untouched m (snd (deauthorize_portal_client ip mac m))" "rules_untouched m (snd (manager_set_guard_mode g md now m))"
  by (auto simp: register_decision_def add_allowlist_entry_def remove_allowlist_entry_def sync_allowlist_def
      sync_bindings_def replace_bindings_def apply_or_fail_def authorize_portal_client_def deauthorize_portal_client_def
      manager_set_guard_mode_def Let_def split: option.splits prod.splits sum.splits)

abbreviation adopted_id :: "string \<Rightarrow> string \<Rightarrow> string" where
  "adopted_id set_name key \<equiv> ''reconciled:'' @ set_name @ '':'' @ key"

lemma adopted_id_inject:
  "s \<in> set IP_KEYED_SETS \<Longrightarrow> s' \<in> set IP_KEYED_SETS \<Longrightarrow> adopted_id s k = adopted_id s' k' \<longleftrightarrow> s = s' \<and> k = k'"
  by (auto simp: IP_KEYED_SETS_def nft_name_defs)

lemma audited_adopt:
  assumes "audited T m" "map_of (fm_rules m) (adopted_id s k) = None" "adopt s k e now m = Some (i, m')"
  shows "audited T m'" "fm_rules m' = AList.update (adopted_id s k) (the (map_of (fm_rules m') (adopted_id s k))) (fm_rules m)"
proof -
  obtain r ip where r: "r = adopted_rule s k ip (case e of Some n \<Rightarrow> n | None \<Rightarrow> vc_max_ttl_seconds (mc_validation (fm_config m))) now"
    and m': "m' = record_transition (fr_id r) None RS_ACTIVE now
      ((put_rule r m)\<lparr>fm_targets := AList.update (fr_id r) \<lparr>rt_ip = ip, rt_mac = None\<rparr> (fm_targets m)\<rparr>)"
    using assms(3) by (auto simp: adopt_def Let_def split: option.splits)
  have id: "fr_id r = adopted_id s k" "fr_status r = RS_ACTIVE" by (simp_all add: r adopted_rule_def)
  let ?m = "m\<lparr>fm_targets := AList.update (fr_id r) \<lparr>rt_ip = ip, rt_mac = None\<rparr> (fm_targets m)\<rparr>"
  have status: "status_map ?m = status_map m" by (rule status_map_frame) simp
  have "audited_as T (status_map m) ?m"
    by (rule audited_frame [OF assms(1)]) (auto simp del: map_of_eq_Some_iff)
  then have "audited_as T (status_map m) (put_rule r ?m)" by (rule audited_put) simp
  moreover have "status_map m (fr_id r) = None" using assms(2) id by (simp add: status_map_def)
  ultimately have "audited_as T ((status_map m)(fr_id r \<mapsto> RS_ACTIVE)) (record_transition (fr_id r) None RS_ACTIVE now (put_rule r ?m))"
    using audited_record [of T "status_map m" "put_rule r ?m" "fr_id r" RS_ACTIVE now] by (simp add: lifecycle_defs)
  moreover have eq: "m' = record_transition (fr_id r) None RS_ACTIVE now (put_rule r ?m)"
    by (cases m) (simp add: m' put_rule_def)
  ultimately show "audited T m'" using id(2) status by simp
  show "fm_rules m' = AList.update (adopted_id s k) (the (map_of (fm_rules m') (adopted_id s k))) (fm_rules m)"
    using id(1) by (simp add: eq)
qed

lemma audited_adopt_unknown:
  assumes "audited T m" "distinct (map fst live)"
    "\<forall>s k. (s, Single k) \<in> fst ` set live \<and> s \<in> set IP_KEYED_SETS \<longrightarrow> map_of (fm_rules m) (adopted_id s k) = None"
  shows "audited T (snd (adopt_unknown now known live report m))"
  using assms
proof (induction now known live report m rule: adopt_unknown.induct)
  case (2 now known set_name key expires_in rest report m)
  have rest: "distinct (map fst rest)"
    "\<forall>s k. (s, Single k) \<in> fst ` set rest \<and> s \<in> set IP_KEYED_SETS \<longrightarrow> map_of (fm_rules m) (adopted_id s k) = None"
    using "2.prems"(2,3) by (auto simp del: map_of_eq_None_iff)
  show ?case
  proof (cases key)
    case (Concat a b)
    then show ?thesis using "2.IH"(4) [OF Concat "2.prems"(1) rest] by simp
  next
    case (Single k)
    show ?thesis
    proof (cases "(set_name, k) \<in> set known \<or> set_name \<notin> set IP_KEYED_SETS")
      case True
      then show ?thesis using "2.IH"(1,2) [OF Single] "2.prems"(1) rest Single by auto
    next
      case False
      then have new: "map_of (fm_rules m) (adopted_id set_name k) = None"
        using "2.prems"(3) Single by (simp del: map_of_eq_None_iff)
      show ?thesis
      proof (cases "adopt set_name k expires_in now m")
        case None
        then show ?thesis using False Single "2.prems"(1) by simp
      next
        case (Some x)
        obtain i m' where x: "x = (i, m')" by fastforce
        note adopted = audited_adopt [OF "2.prems"(1) new Some [unfolded x]]
        have "\<forall>s k'. (s, Single k') \<in> fst ` set rest \<and> s \<in> set IP_KEYED_SETS \<longrightarrow> map_of (fm_rules m') (adopted_id s k') = None"
        proof (intro allI impI, elim conjE)
          fix s k' assume s: "(s, Single k') \<in> fst ` set rest" "s \<in> set IP_KEYED_SETS"
          then have "adopted_id s k' \<noteq> adopted_id set_name k"
            using "2.prems"(2) Single False adopted_id_inject [of s set_name k' k] by auto
          then show "map_of (fm_rules m') (adopted_id s k') = None"
            using rest(2) s by (subst adopted(2)) (simp del: map_of_eq_None_iff)
        qed
        from "2.IH"(3) [OF Single _ _ Some x [symmetric] adopted(1) rest(1) this] show ?thesis
          using False Single Some x by simp
      qed
    qed
  qed
qed simp

lemma od_distinct_fold_update: "od_distinct d \<Longrightarrow> od_distinct (fold (\<lambda>e d. AList.update (f e) (g e) d) es d)"
  by (induction es arbitrary: d) auto

lemma list_live_distinct:
  "od_distinct live \<Longrightarrow> list_live now ns live sets = (Inr live', sets') \<Longrightarrow> od_distinct live'"
proof (induction now ns live sets rule: list_live.induct)
  case (2 now n ns live sets)
  then show ?case
    using od_distinct_fold_update [OF "2.prems"(1), where f = "\<lambda>e. (n, es_key e)" and g = es_expires_in_seconds]
    by (auto split: prod.splits sum.splits)
qed auto

lemma retire_missing_keys:
  "to_retire rs m \<Longrightarrow> \<forall>r \<in> set rs. fr_status r = RS_ACTIVE \<Longrightarrow> map_of (fm_rules m) i = None \<Longrightarrow>
     retire_missing now live rs known gone m = (known', gone', m') \<Longrightarrow> map_of (fm_rules m') i = None"
proof (induction rs arbitrary: known gone m)
  case (Cons r rs)
  have r: "fr_status r = RS_ACTIVE" "map_of (fm_rules m) (fr_id r) = Some r"
    using Cons.prems(1,2) by (simp_all add: to_retire_def)
  then have "fr_id r \<noteq> i" using Cons.prems(3) by auto
  then have still: "map_of (fm_rules (retired now r m)) i = None" using Cons.prems(3) by (simp add: retired_def)
  have tl: "to_retire rs m" "to_retire rs (retired now r m)"
    using to_retire_tl [OF Cons.prems(1)] to_retire_retired [OF Cons.prems(1)] by blast+
  show ?case
  proof (cases "element_of r")
    case None
    then show ?thesis using Cons.IH [OF tl(1)] Cons.prems(2-4) by simp
  next
    case (Some e)
    then show ?thesis using Cons.IH [OF tl(1)] Cons.IH [OF tl(2) _ still] Cons.prems(2-4)
      by (cases e) (simp add: retired_def split: if_splits)
  qed
qed simp

lemma audited_reconcile:
  assumes "audited T m" "\<forall>i. prefix ''reconciled:'' i \<longrightarrow> map_of (fm_rules m) i = None"
  shows "audited T (snd (reconcile now m))"
proof (cases "fm_sets m = None \<or> (INET_FAMILY, ADAPTIVE_TABLE) \<in> set (missing_tables m)")
  case True
  then show ?thesis using assms(1) by (auto simp: reconcile_def Let_def split: option.splits)
next
  case False
  then obtain sets where s: "fm_sets m = Some sets" by auto
  obtain res sets' where l: "list_live now (sort ADAPTIVE_ENFORCEMENT_SETS) [] sets = (res, sets')" by fastforce
  let ?m = "m\<lparr>fm_sets := Some sets'\<rparr>"
  have m: "audited T ?m" by (rule audited_same [OF assms(1)]) (use s in simp_all)
  show ?thesis
  proof (cases res)
    case (Inl e)
    then show ?thesis using s l False m by (simp add: reconcile_def Let_def)
  next
    case (Inr live)
    obtain known gone m2 where r: "retire_missing now live (active_rules ?m) [] [] ?m = (known, gone, m2)" by (metis prod.collapse)
    have todo: "to_retire (active_rules ?m) ?m"
      using to_retire_store [OF audited_keyed [OF m]]
      by (auto simp: to_retire_def active_rules_def distinct_map inj_on_def)
    have act: "\<forall>r \<in> set (active_rules ?m). fr_status r = RS_ACTIVE" by (simp add: active_rules_def)
    have m2: "audited T m2" by (rule audited_retire_missing [OF m todo act r])
    have "od_distinct live" using list_live_distinct [OF _ l [unfolded Inr]] by simp
    then have "distinct (map fst (sort_key f live))" for f :: "(string \<times> set_key) \<times> int option \<Rightarrow> string \<times> string"
      by (simp add: distinct_map)
    moreover have "map_of (fm_rules m2) (adopted_id x k) = None" for x k
      by (rule retire_missing_keys [OF todo act _ r]) (use assms(2) in simp)
    ultimately show ?thesis
      using s l False Inr r audited_adopt_unknown [OF m2] by (simp add: reconcile_def Let_def)
  qed
qed

subsection \<open>Every history of the manager\<close>

text \<open>
  One public operation of the manager, at any time. A submitted candidate's id is new (it is a fresh
  \<open>uuid4\<close>), and \<open>reconcile\<close> runs before any element was adopted (the core calls it once, at startup).
  The host's own addresses come and go with its leases: every submission reads a table of them, one of
  \<open>tables\<close>, and the MAC resolver (a lookup in the binding table) may answer differently from one operation to the next.
\<close>

inductive manager_step :: "local_addresses set \<Rightarrow> firewall_manager \<Rightarrow> firewall_manager \<Rightarrow> bool" for tables where
  submit: "cached \<in> tables \<Longrightarrow> map_of (fm_rules m) (cr_id c) = None \<Longrightarrow>
    manager_step tables m (snd (submit_candidate cached c now m))"
| register: "manager_step tables m (register_decision d m)"
| approve: "manager_step tables m (snd (approve_pending i now m))"
| reject: "manager_step tables m (snd (reject_pending i now m))"
| disable: "manager_step tables m (snd (disable_rule i now m))"
| remove: "manager_step tables m (snd (remove_rule i now m))"
| expire: "manager_step tables m (snd (expire_rules now m))"
| kill_switch: "manager_step tables m (snd (revert_to_base now m))"
| shutdown: "manager_step tables m (snd (fail_open_shutdown now m))"
| panic: "manager_step tables m (snd (panic actor now m))"
| guard: "manager_step tables m (snd (manager_set_guard_mode g mode now m))"
| add_allowlist: "manager_step tables m (snd (add_allowlist_entry now e m))"
| remove_allowlist: "manager_step tables m (snd (remove_allowlist_entry now i m))"
| sync_allowlist: "manager_step tables m (snd (sync_allowlist now m))"
| sync_bindings: "manager_step tables m (snd (sync_bindings change now m))"
| replace_bindings: "manager_step tables m (snd (replace_bindings bs now m))"
| authorize: "manager_step tables m (snd (authorize_portal_client ip secs mac m))"
| deauthorize: "manager_step tables m (snd (deauthorize_portal_client ip mac m))"
| reconcile: "\<forall>i. prefix ''reconciled:'' i \<longrightarrow> map_of (fm_rules m) i = None \<Longrightarrow>
    manager_step tables m (snd (reconcile now m))"
| resolver: "fm_mac_resolver m \<noteq> None \<Longrightarrow> manager_step tables m (m\<lparr>fm_mac_resolver := Some f\<rparr>)"

abbreviation manager_runs :: "local_addresses set \<Rightarrow> firewall_manager \<Rightarrow> firewall_manager \<Rightarrow> bool" where
  "manager_runs tables \<equiv> (manager_step tables)\<^sup>*\<^sup>*"

lemma audited_step: "manager_step tables m m' \<Longrightarrow> audited T m \<Longrightarrow> audited T m'"
proof (induction rule: manager_step.induct)
  case (disable m i now)
  then show ?case using audited_retire_rule [of T m RS_DISABLED i now]
    by (metis disable_rule_def insertI1 insertI2 prod.collapse retired_to_def)
next
  case (remove m i now)
  then show ?case using audited_retire_rule [of T m RS_REMOVED i now]
    by (metis remove_rule_def insertI1 insertI2 prod.collapse retired_to_def)
next
  case (resolver m f)
  show ?case by (rule audited_same [OF resolver(2)]) simp_all
next
  case (expire m now)
  then show ?case using audited_expire_loop [of T m now] by (metis expire_rules_def prod.collapse)
qed (blast intro: audited_submit audited_approve audited_reject audited_revert audited_shutdown audited_panic
    audited_reconcile audited_untouched untouched_writers)+

lemma audited_runs: "manager_runs tables m m' \<Longrightarrow> audited T m \<Longrightarrow> audited T m'"
  by (induction rule: rtranclp_induct) (auto intro: audited_step)

lemma audited_new: "audited [] (new_firewall_manager config backend store sets resolver local_addrs)"
  by (simp add: audited_as_def new_firewall_manager_def keyed_rules_def targets_known_def trail_def status_map_def)

text \<open>
  C6: The audit trail is complete. After any history of the manager (candidates with fresh ids, as the program
  generates them, and reconciliation before anything was adopted, as at startup), what the trail records about a rule
  is a walk along the lifecycle that starts with its creation and ends in the status the rule store
  shows; a rule the store does not hold has no entry. Approving a rule that is pending always has an answer.
\<close>

theorem audit_trail_complete:
  assumes "manager_runs tables (new_firewall_manager config backend store sets resolver local_addrs) m"
  shows "walk None (trail i m) = Some (map_option fr_status (map_of (fm_rules m) i))
    \<and> (map_option fr_status (map_of (fm_rules m) i) = Some RS_PENDING_APPROVAL \<longrightarrow> fst (approve_pending i now m) \<noteq> None)"
proof -
  have m: "audited [] m" by (rule audited_runs [OF assms audited_new])
  then have "walk None (trail i m) = Some (status_map m i)" by (simp add: audited_as_def)
  moreover have "fst (approve_pending i now m) \<noteq> None" if pending: "map_of (fm_rules m) i = Some r" "fr_status r = RS_PENDING_APPROVAL" for r
  proof (cases "fm_sets m")
    case (Some sets)
    have "map_of (fm_targets m) (fr_id r) \<noteq> None"
      using stored_target [OF m pending(1)] Some keyed_id [OF m pending(1)] by simp
    then show ?thesis using pending Some
      by (auto simp: approve_pending_def deploy_to_sets_def Let_def simp del: map_of_eq_Some_iff split: prod.splits option.splits)
  qed (use pending in \<open>simp add: approve_pending_def Let_def\<close>)
  ultimately show ?thesis by (auto simp: status_map_def simp del: map_of_eq_Some_iff)
qed

lemma example_manager_runs:
  "manager_runs {no_local} (new_firewall_manager
     \<lparr>mc_validation = example_config, mc_enforcement_mode = EM_ACTIVE, mc_assisted_review_threshold = 90,
      mc_max_adaptive_rules_per_window = 5, mc_rate_window_seconds = 60, mc_allowlist = [example_entry], mc_grace_seconds = 60\<rparr>
     (new_firewall_backend False False False) None (Some (new_set_backend 4 4 None)) None None)
   (snd (submit_candidate no_local example_candidate 0 example_manager))" (is "manager_runs _ ?new _")
proof -
  have "register_decision example_decision ?new = example_manager"
    by (simp add: register_decision_def example_manager_def new_firewall_manager_def example_decision_def)
  then have "manager_step {no_local} ?new example_manager" using register [of "{no_local}" ?new example_decision] by simp
  moreover have "manager_step {no_local} example_manager (snd (submit_candidate no_local example_candidate 0 example_manager))"
    by (rule submit) (simp_all add: example_manager_sel)
  ultimately show ?thesis by (meson rtranclp.rtrancl_into_rtrancl rtranclp.rtrancl_refl)
qed

theorem audit_trail_complete_witness:
  "walk None (trail ''c'' (snd (submit_candidate no_local example_candidate 0 example_manager))) = Some (Some RS_ACTIVE)"
  using audit_trail_complete [OF example_manager_runs, of "''c''"] example_deploys
  by (fastforce simp: example_candidate_def)

text \<open>
  C7: Retirement is final. After any history of the manager (candidates with fresh ids, as the program generates them, and
  reconciliation before anything was adopted, as at startup), once a rule is rejected, shadowed, expired, disabled
  or removed, no later operation changes its status: nothing re-activates it.
\<close>

theorem retired_stays_retired:
  assumes "manager_runs tables (new_firewall_manager config backend store sets resolver local_addrs) m"
    "manager_runs tables m m'" "map_of (fm_rules m) i = Some r" "terminal_status (fr_status r)"
  shows "\<exists>r'. map_of (fm_rules m') i = Some r' \<and> fr_status r' = fr_status r"
proof -
  have m: "audited [] m" by (rule audited_runs [OF assms(1) audited_new])
  then have "audited (fm_transitions m) m" by (simp add: audited_as_def)
  then have m': "audited (fm_transitions m) m'" by (rule audited_runs [OF assms(2)])
  then obtain ts where ts: "fm_transitions m' = fm_transitions m @ ts" unfolding audited_as_def by (metis prefixE)
  let ?es = "map (\<lambda>t. (tr_from_status t, tr_to_status t)) (filter (\<lambda>t. tr_rule_id t = i) ts)"
  have "trail i m' = trail i m @ ?es" by (simp add: trail_def ts)
  moreover have "walk None (trail i m) = Some (Some (fr_status r))"
    using m assms(3) by (simp add: audited_as_def status_map_def)
  moreover have "walk None (trail i m') = Some (status_map m' i)" using m' by (simp add: audited_as_def)
  ultimately have "walk (Some (fr_status r)) ?es = Some (status_map m' i)" by (simp add: walk_append)
  then have "status_map m' i = Some (fr_status r)" by (rule walk_terminal [OF assms(4)])
  then show ?thesis by (rule status_mapD)
qed

theorem retired_stays_retired_witness:
  "\<exists>m r r'. map_of (fm_rules m) ''c'' = Some r \<and> fr_status r = RS_DISABLED
     \<and> map_of (fm_rules (snd (expire_rules 100 m))) ''c'' = Some r' \<and> fr_status r' = RS_DISABLED"
proof -
  let ?m1 = "snd (submit_candidate no_local example_candidate 0 example_manager)"
  obtain r where r: "map_of (fm_rules ?m1) ''c'' = Some r" "fr_status r = RS_ACTIVE"
    using example_deploys by (fastforce simp: example_candidate_def)
  let ?m = "snd (disable_rule ''c'' 5 ?m1)"
  have d: "map_of (fm_rules ?m) ''c'' = Some (r\<lparr>fr_status := RS_DISABLED\<rparr>)"
    using r by (simp add: disable_rule_def retire_rule_def Let_def)
  note run = rtranclp.rtrancl_into_rtrancl [OF example_manager_runs disable [of "{no_local}" ?m1 "''c''" 5]]
  have next_run: "manager_runs {no_local} ?m (snd (expire_rules 100 ?m))" by (rule r_into_rtranclp [of "manager_step {no_local}", OF expire])
  have "\<exists>r'. map_of (fm_rules (snd (expire_rules 100 ?m))) ''c'' = Some r' \<and> fr_status r' = RS_DISABLED"
    using retired_stays_retired [OF run next_run d] by (simp add: terminal_status_def)
  then show ?thesis using d by (intro exI [of _ ?m]) auto
qed

end
