(* ===== verification/Protection.thy ===== *)
theory Protection
  imports Lifecycle
begin

section \<open>Protected devices are never enforced against\<close>

text \<open>
  The safety property of the set path as a whole: whatever is submitted, approved, synchronised or
  reconciled, the kernel's enforcement sets never hold the configured addresses of the host, the gateway and the
  administrator's machine, an address the host holds throughout, or an address no host can own. The validator's safety stage (\<open>Validator\<close>) rejects such
  targets; here the rest of the manager (\<open>Manager\<close>) is shown to add no other way in.
\<close>

subsection \<open>What is stored in the kernel's sets\<close>

definition holds_only :: "(set_address \<Rightarrow> set_key \<Rightarrow> bool) \<Rightarrow> set_backend \<Rightarrow> bool" where
  "holds_only P b \<longleftrightarrow> (\<forall>addr s. fake_set_of addr b = Some s \<longrightarrow> (\<forall>k \<in> fst ` set (ks_elements s). P addr k))"

lemma holds_onlyD: "holds_only P b \<Longrightarrow> fake_set_of addr b = Some s \<Longrightarrow> k \<in> fst ` set (ks_elements s) \<Longrightarrow> P addr k"
  unfolding holds_only_def by blast

lemma holds_only_tables: "sb_tables b' = sb_tables b \<Longrightarrow> holds_only P b' = holds_only P b"
  unfolding holds_only_def fake_set_of_def by simp

lemma holds_only_live:
  assumes "holds_only P b" "\<not> P addr k" shows "live_view t b addr k = None"
proof (cases "fake_set_of addr b")
  case (Some s)
  then have "k \<notin> fst ` set (ks_elements s)" using assms unfolding holds_only_def by blast
  then have "k \<notin> fst ` set (live_elements t (ks_elements s))" by (auto simp: live_elements_def)
  then show ?thesis using Some by (simp add: live_view_def map_of_eq_None_iff)
qed (simp add: live_view_def)

lemma holds_only_store:
  assumes "holds_only P b" "\<forall>k \<in> fst ` set es. P addr k"
  shows "holds_only P (store_elements addr es b)"
  using assms unfolding holds_only_def fake_set_of_store by (auto split: if_splits)

lemma stage_op_keys:
  assumes "stage_op now op n es = Some es'"
  shows "fst ` set es' \<subseteq> fst ` set es \<union> (if op_kind op = SO_ADD then {op_key op} else {})"
proof (cases "op_kind op")
  case SO_ADD
  then have "es' = es \<or> (\<exists>v. es' = AList.update (op_key op) v es)"
    using assms by (auto simp: stage_op_def split: if_splits)
  then have "fst ` set es' \<subseteq> insert (op_key op) (fst ` set es)" by (elim disjE exE) (simp_all add: od_fst_update subset_insertI)
  then show ?thesis using SO_ADD by simp
next
  case SO_DELETE
  then have "es' = AList.delete (op_key op) es" using assms by (simp add: stage_op_def)
  then have "fst ` set es' = fst ` set es - {op_key op}" by (simp only: od_fst_delete)
  then show ?thesis by blast
qed

lemma stage_ops_keys:
  assumes "stage_ops now ops staged b = (Inr staged', b')" "holds_only P b"
    "\<forall>op \<in> set ops. op_kind op = SO_ADD \<longrightarrow> P (op_address op) (op_key op)"
    "od_distinct staged" "\<forall>(addr, es) \<in> set staged. \<forall>k \<in> fst ` set es. P addr k"
  shows "b' = b \<and> od_distinct staged' \<and> (\<forall>(addr, es) \<in> set staged'. \<forall>k \<in> fst ` set es. P addr k)"
  using assms
proof (induction ops arbitrary: staged)
  case (Cons op ops)
  obtain s where s: "sb_set (op_address op) b = (Inr s, b)" "fake_set_of (op_address op) b = Some s"
    using Cons.prems(1) by (auto simp: sb_set_Inr split: sum.splits prod.splits)
  define es where "es = (case map_of staged (op_address op) of Some es \<Rightarrow> es | None \<Rightarrow> live_elements now (ks_elements s))"
  obtain es' where es': "stage_op now op (ks_size s) es = Some es'"
    and run: "stage_ops now ops (AList.update (op_address op) es' staged) b = (Inr staged', b')"
    using Cons.prems(1) s(1) by (auto simp: es_def Let_def split: option.splits)
  have "\<forall>k \<in> fst ` set es. P (op_address op) k"
  proof (cases "map_of staged (op_address op)")
    case None
    then show ?thesis using holds_onlyD [OF Cons.prems(2) s(2)] by (auto simp: es_def live_elements_def simp del: map_of_eq_None_iff)
  next
    case (Some x)
    then have "(op_address op, x) \<in> set staged" by (rule map_of_SomeD)
    then show ?thesis using Cons.prems(5) Some by (auto simp: es_def simp del: map_of_eq_Some_iff)
  qed
  then have new: "\<forall>k \<in> fst ` set es'. P (op_address op) k"
    using stage_op_keys [OF es'] Cons.prems(3) by (fastforce split: if_splits)
  have "\<forall>(addr, es) \<in> set (AList.update (op_address op) es' staged). \<forall>k \<in> fst ` set es. P addr k"
    using Cons.prems(4,5) new by (auto simp: set_od_update)
  then show ?case
    using Cons.IH [OF run Cons.prems(2)] Cons.prems(3,4) by simp
qed simp

lemma holds_only_commit:
  assumes "holds_only P b" "od_distinct staged" "\<forall>(addr, es) \<in> set staged. \<forall>k \<in> fst ` set es. P addr k"
  shows "holds_only P (fold (\<lambda>(addr, es) b. store_elements addr es b) staged b)"
  using assms
proof (induction staged arbitrary: b)
  case (Cons x staged)
  then show ?case by (cases x) (auto intro!: Cons.IH holds_only_store)
qed simp

lemma holds_only_apply:
  assumes "holds_only P b" "sb_apply now ops b = (r, b')"
    "\<forall>op \<in> set ops. op_kind op = SO_ADD \<longrightarrow> P (op_address op) (op_key op)"
  shows "holds_only P b'"
proof (cases r)
  case (Some e)
  have "sb_tables b' = sb_tables b"
    using assms(2) Some stage_ops_error_tables sb_begin_tables
    by (fastforce simp: sb_apply_def Let_def split: if_splits prod.splits option.splits sum.splits)
  then show ?thesis using assms(1) holds_only_tables by blast
next
  case None
  show ?thesis
  proof (cases "ops = []")
    case True
    then show ?thesis using assms(1,2) by (simp add: sb_apply_def)
  next
    case False
    obtain b1 b2 staged where b1: "sb_begin b = (None, b1)" and run: "stage_ops now ops [] b1 = (Inr staged, b2)"
      and b': "sb_tables b' = sb_tables (fold (\<lambda>(addr, es) b. store_elements addr es b) staged b2)"
      using assms(2) None False by (auto simp: sb_apply_def Let_def split: prod.splits option.splits sum.splits)
    have "holds_only P b1" using assms(1) sb_begin_tables [OF b1] holds_only_tables by blast
    then have "holds_only P (fold (\<lambda>(addr, es) b. store_elements addr es b) staged b2)"
      using stage_ops_keys [OF run _ assms(3)] holds_only_commit by auto
    then show ?thesis using holds_only_tables [OF b'] by blast
  qed
qed

lemma holds_only_flush:
  assumes "holds_only P b" "sb_flush_sets ns b = (r, b')" shows "holds_only P b'"
proof -
  have stored: "holds_only P x \<Longrightarrow> holds_only P (fold (\<lambda>n b. store_elements (INET_FAMILY, ADAPTIVE_TABLE, n) [] b) ms x)" for ms x
    by (induction ms arbitrary: x) (simp_all add: holds_only_store)
  obtain e1 b1 where b1: "sb_begin b = (e1, b1)" by fastforce
  obtain e2 b2 where b2: "adaptive_writable (sort (remdups ns)) b1 = (e2, b2)" by fastforce
  have h: "holds_only P b1" "holds_only P b2"
    using assms(1) sb_begin_tables [OF b1] adaptive_writable_tables [OF b2] holds_only_tables by blast+
  show ?thesis
  proof (cases "e1 = None \<and> e2 = None")
    case True
    then have "sb_tables b' = sb_tables (fold (\<lambda>n b. store_elements (INET_FAMILY, ADAPTIVE_TABLE, n) [] b) (sort (remdups ns)) b2)"
      using assms(2) b1 b2 by (auto simp: sb_flush_sets_def Let_def)
    then show ?thesis using stored [OF h(2)] holds_only_tables by blast
  next
    case False
    then have "b' = b1 \<or> b' = b2" using assms(2) b1 b2 by (auto simp: sb_flush_sets_def Let_def split: option.splits)
    then show ?thesis using h by auto
  qed
qed

lemma holds_only_list:
  assumes "holds_only P b" "sb_list_set now addr b = (r, b')" shows "holds_only P b'"
proof (cases "fst (sb_set addr b)")
  case (Inl e)
  then have "sb_tables b' = sb_tables b"
    using assms(2) sb_set_tables by (fastforce simp: sb_list_set_def split: prod.splits sum.splits)
  then show ?thesis using assms(1) holds_only_tables by blast
next
  case (Inr s)
  then have s: "fake_set_of addr b = Some s" "b' = store_elements addr (live_elements now (ks_elements s)) b"
    using assms(2) by (auto simp: sb_list_set_def Let_def sb_set_Inr split: prod.splits sum.splits)
  show ?thesis unfolding s(2)
    by (rule holds_only_store [OF assms(1)]) (use holds_onlyD [OF assms(1) s(1)] in \<open>auto simp: live_elements_def\<close>)
qed

lemma holds_only_panic:
  assumes "holds_only P b" "sb_panic b = (r, b')" shows "holds_only P b'"
proof (cases r)
  case (Inl e)
  then have "sb_tables b' = sb_tables b" using sb_panic_result [OF assms(2)] by simp
  then show ?thesis using holds_only_tables assms(1) by blast
next
  case (Inr ts)
  then have "\<forall>loc. map_of (sb_tables b') loc = (if loc \<in> set PANIC_TABLES then None else map_of (sb_tables b) loc)"
    using sb_panic_result [OF assms(2)] by (simp del: split_paired_All)
  then have "map_of (sb_tables b') loc = None \<or> map_of (sb_tables b') loc = map_of (sb_tables b) loc" for loc by metis
  then have "fake_set_of a b' = None \<or> fake_set_of a b' = fake_set_of a b" for a
    unfolding fake_set_of_def by (metis (no_types, lifting) bind.bind_lzero prod.case_eq_if)
  then show ?thesis using assms(1) unfolding holds_only_def by (metis option.distinct(1))
qed

lemma holds_only_guards:
  assumes "holds_only P b" "sb_set_guard_modes ms b = (r, b')" shows "holds_only P b'"
  using holds_only_tables [OF set_guard_modes_result(1) [OF assms(2)]] assms(1) by blast

lemma holds_only_fresh: "holds_only P (new_set_backend size_a size_b gs)"
proof -
  have "ks_elements s = []" if "fake_set_of addr (new_set_backend size_a size_b gs) = Some s" for addr s
    using that new_set_backend_blank [of size_a size_b gs]
    by (fastforce simp: fake_set_of_def od_all_def blank_sets_def dest!: map_of_SomeD split: prod.splits bind_splits)
  then show ?thesis unfolding holds_only_def by (metis empty_iff empty_set image_empty)
qed

subsection \<open>Which elements are permitted\<close>

text \<open>
  The addresses protected throughout a history: those the safety stage refuses under every table of the host's own
  addresses that was read during it. The configured ones are among them whatever the tables say.
\<close>

definition always_protected :: "validation_config \<Rightarrow> local_addresses set \<Rightarrow> local_addresses option \<Rightarrow> ipv4_address set" where
  "always_protected cfg tables local_addrs = {a. \<forall>cached \<in> tables. a \<in> set (infrastructure cfg (resolve_local cached local_addrs))}"

definition protected_address :: "ipv4_address set \<Rightarrow> ipv4_address \<Rightarrow> bool" where
  "protected_address A a \<longleftrightarrow> \<not> targetable_address a \<or> a \<in> A"

definition unprotected :: "validation_config \<Rightarrow> ipv4_address set \<Rightarrow> rule_target \<Rightarrow> bool" where
  "unprotected cfg A t \<longleftrightarrow> \<not> protected_address A (rt_ip t) \<and> (rt_mac t = None \<or> rt_mac t \<noteq> vc_admin_pc_mac cfg)"

definition permitted :: "validation_config \<Rightarrow> ipv4_address set \<Rightarrow> set_address \<Rightarrow> set_key \<Rightarrow> bool" where
  "permitted cfg A addr k \<longleftrightarrow>
     (addr \<in> {(INET_FAMILY, ADAPTIVE_TABLE, SET_BLOCK4), (INET_FAMILY, ADAPTIVE_TABLE, SET_RATELIMIT4)} \<longrightarrow>
        (\<forall>a. protected_address A a \<longrightarrow> k \<noteq> Single (show_ipv4 a)))
     \<and> (addr \<in> {(INET_FAMILY, ADAPTIVE_TABLE, SET_BLOCK_MAC), (INET_FAMILY, ADAPTIVE_TABLE, SET_RATELIMIT_MAC)} \<longrightarrow>
        (\<forall>mac. vc_admin_pc_mac cfg = Some mac \<longrightarrow> k \<noteq> Single mac))"

lemma permitted_other: "\<not> enforcement_address addr \<Longrightarrow> permitted cfg A addr k"
  unfolding permitted_def enforcement_address_iff ADAPTIVE_ENFORCEMENT_SETS_def by auto

lemma approved_unprotected:
  assumes "so_approved (fst (validate_set_candidate cached c (Some t) cfg known active allowlist limiter now local))"
    "restrictive (rf_action c)"
    "A \<subseteq> set (infrastructure cfg (resolve_local cached local))"
  shows "unprotected cfg A t"
  using assms(1,3) set_safe_iff [OF assms(2), of t allowlist cached cfg local] unfolding set_approved_iff
  by (auto simp: unprotected_def protected_address_def set_protected_def)

lemma enforcement_permitted:
  assumes "unprotected cfg A t" "enforcement_set_for a t = Some s" "element_key s t = Some k"
  shows "permitted cfg A (INET_FAMILY, ADAPTIVE_TABLE, s) (Single k)"
proof (cases "rt_mac t")
  case None
  then have s: "s = SET_BLOCK4 \<or> s = SET_RATELIMIT4" "k = show_ipv4 (rt_ip t)"
    using assms(2) element_key_enforcement [OF assms(2)] assms(3)
    by (auto simp: enforcement_set_for_def device_text_def split: if_splits)
  then have "s \<noteq> SET_BLOCK_MAC \<and> s \<noteq> SET_RATELIMIT_MAC" by (auto simp: nft_name_defs)
  then show ?thesis using s(2) assms(1) by (auto simp: permitted_def unprotected_def show_ipv4_inject)
next
  case (Some mac)
  then have s: "s = SET_BLOCK_MAC \<or> s = SET_RATELIMIT_MAC" "k = mac"
    using assms(2) element_key_enforcement [OF assms(2)] assms(3)
    by (auto simp: enforcement_set_for_def device_text_def split: if_splits)
  then have "s \<noteq> SET_BLOCK4 \<and> s \<noteq> SET_RATELIMIT4" by (auto simp: nft_name_defs)
  then show ?thesis using s(2) Some assms(1) by (auto simp: permitted_def unprotected_def)
qed

lemma enforcement_restrictive: "enforcement_set_for a t = Some s \<Longrightarrow> restrictive a"
  by (auto simp: enforcement_set_for_def restrictive_def split: if_splits)

lemma deploy_ops_permitted:
  assumes "restrictive (rf_action r) \<Longrightarrow> unprotected cfg A t" "op \<in> set (fst (deploy_ops m r t now up))" "op_kind op = SO_ADD"
  shows "permitted cfg A (op_address op) (op_key op)"
proof -
  have "op_kind x = SO_DELETE" if "x \<in> set (case superseded_rule m up of None \<Rightarrow> [] | Some s \<Rightarrow> delete_ops s)" for x
    using that delete_ops_kind by (auto split: option.splits)
  then obtain s k n where s: "enforcement_set_for (rf_action r) t = Some s" "element_key s t = Some k"
    and op: "op = adaptive_op SO_ADD s (Single k) n"
    using assms(2,3) by (fastforce simp: deploy_ops_def Let_def split: option.splits prod.splits bind_splits)
  show ?thesis
    using enforcement_permitted [OF assms(1) s] enforcement_restrictive [OF s(1)] by (simp add: op adaptive_op_def op_address_def)
qed

subsection \<open>Through every operation of the manager\<close>

text \<open>
  \<open>calm m m'\<close>: the operation keeps the configuration, and every rule that awaits approval afterwards
  awaited it before, with the same target.
\<close>

definition calm :: "firewall_manager \<Rightarrow> firewall_manager \<Rightarrow> bool" where
  "calm m m' \<longleftrightarrow> fm_config m' = fm_config m \<and> fm_local_addresses m' = fm_local_addresses m
     \<and> (\<forall>i r. map_of (fm_rules m') i = Some r \<longrightarrow> fr_status r = RS_PENDING_APPROVAL \<longrightarrow>
          map_of (fm_rules m) i = Some r \<and> map_of (fm_targets m') i = map_of (fm_targets m) i)"

lemma calm_refl [simp]: "calm m m"
  by (simp add: calm_def)

lemma calm_trans: "calm m m' \<Longrightarrow> calm m' m'' \<Longrightarrow> calm m m''"
  unfolding calm_def by metis

lemma calm_frame:
  "fm_rules m' = fm_rules m \<Longrightarrow> fm_targets m' = fm_targets m \<Longrightarrow> fm_config m' = fm_config m \<Longrightarrow>
     fm_local_addresses m' = fm_local_addresses m \<Longrightarrow> calm m m'"
  by (simp add: calm_def)

lemma calm_put:
  "calm m m' \<Longrightarrow> fr_status r \<noteq> RS_PENDING_APPROVAL \<Longrightarrow> calm m (put_rule r m')"
  by (auto simp: calm_def put_rule_def simp del: map_of_eq_Some_iff split: if_splits)

lemma calm_record [simp]: "calm m (record_transition i f t now m') = calm m m'"
  by (simp add: calm_def record_transition_def)

lemma calm_updates [simp]:
  "calm m (m'\<lparr>fm_sets := s\<rparr>) = calm m m'" "calm m (m'\<lparr>fm_backend := b\<rparr>) = calm m m'"
  "calm m (m'\<lparr>fm_enforcement_mode := md\<rparr>) = calm m m'" "calm m (m'\<lparr>fm_rate_limiter := rl\<rparr>) = calm m m'"
  "calm m (m'\<lparr>fm_allowlist := es\<rparr>) = calm m m'" "calm m (m'\<lparr>fm_allowlist_store := st\<rparr>) = calm m m'"
  "calm m (m'\<lparr>fm_known_decision_ids := ids\<rparr>) = calm m m'"
  by (simp_all add: calm_def)

definition kernel_permitted :: "validation_config \<Rightarrow> ipv4_address set \<Rightarrow> firewall_manager \<Rightarrow> bool" where
  "kernel_permitted cfg A m \<longleftrightarrow> (\<exists>sets. fm_sets m = Some sets \<and> holds_only (permitted cfg A) sets)"

definition protective :: "local_addresses set \<Rightarrow> validation_config \<Rightarrow> ipv4_address set \<Rightarrow> firewall_manager \<Rightarrow> bool" where
  "protective tables cfg A m \<longleftrightarrow> mc_validation (fm_config m) = cfg \<and> A \<subseteq> always_protected cfg tables (fm_local_addresses m)
     \<and> kernel_permitted cfg A m
     \<and> (\<forall>i r t. map_of (fm_rules m) i = Some r \<longrightarrow> fr_status r = RS_PENDING_APPROVAL \<longrightarrow> restrictive (rf_action r) \<longrightarrow>
          map_of (fm_targets m) i = Some t \<longrightarrow> unprotected cfg A t)"

lemma protective_calm:
  assumes "protective tables cfg A m" "calm m m'" "kernel_permitted cfg A m'"
  shows "protective tables cfg A m'"
  unfolding protective_def
proof (intro conjI allI impI)
  fix i r t
  assume r: "map_of (fm_rules m') i = Some r" "fr_status r = RS_PENDING_APPROVAL" "restrictive (rf_action r)"
    "map_of (fm_targets m') i = Some t"
  then have "map_of (fm_rules m) i = Some r" "map_of (fm_targets m) i = Some t" using assms(2) unfolding calm_def by metis+
  then show "unprotected cfg A t" using assms(1) r(2,3) unfolding protective_def by blast
qed (use assms in \<open>simp_all add: protective_def calm_def\<close>)

text \<open>Retiring rules, one or all, is calm and never adds an element.\<close>

lemma calm_retired: "calm m m' \<Longrightarrow> calm m (retired now r m')"
  unfolding retired_def by (simp add: calm_put)

lemma calm_retire_rule:
  assumes "s \<noteq> RS_PENDING_APPROVAL" "retire_rule i s now m = (res, m')" shows "calm m m'"
proof -
  have "m' = m \<or> (\<exists>r. m' = record_transition i (Some RS_ACTIVE) s now
      ((withdraw now r m)\<lparr>fm_rules := AList.update i (r\<lparr>fr_status := s\<rparr>) (fm_rules m)\<rparr>))"
    using assms(2) by (auto simp: retire_rule_def Let_def split: option.splits if_splits)
  moreover have "fm_config (withdraw now r m) = fm_config m \<and> fm_local_addresses (withdraw now r m) = fm_local_addresses m" for r
    by (simp add: withdraw_def split: option.splits)
  ultimately show ?thesis using assms(1)
    by (auto simp: calm_def record_transition_def simp del: map_of_eq_Some_iff split: if_splits)
qed

lemma calm_retire_loop: "calm m m' \<Longrightarrow> retire_loop now rs n m' = (n', m'') \<Longrightarrow> calm m m''"
proof (induction rs arbitrary: n m')
  case (Cons r rs)
  show ?case
  proof (cases "fr_status r = RS_ACTIVE")
    case True
    then have "retire_loop now rs (n + 1) (retired now r m') = (n', m'')" using Cons.prems(2) by (simp add: retired_def)
    then show ?thesis by (rule Cons.IH [OF calm_retired [OF Cons.prems(1)]])
  qed (use Cons in simp)
qed simp

lemma retire_loop_sets: "retire_loop now rs n m = (n', m') \<Longrightarrow> fm_sets m' = fm_sets m"
  by (induction now rs n m rule: retire_loop.induct) (auto split: if_splits)

lemma calm_revert_loop: "calm m m' \<Longrightarrow> revert_loop now rs n m' = (n', m'') \<Longrightarrow> calm m m''"
proof (induction rs arbitrary: n m')
  case (Cons r rs)
  show ?case
  proof (cases "fr_status r = RS_ACTIVE")
    case True
    let ?m = "m'\<lparr>fm_backend := snd (fb_remove_rule (fr_id r) (fm_backend m'))\<rparr>"
    have "calm m ?m" using Cons.prems(1) by simp
    moreover have "revert_loop now rs (n + 1) (retired now r ?m) = (n', m'')"
      using Cons.prems(2) True by (simp add: retired_def Let_def)
    ultimately show ?thesis by (rule Cons.IH [OF calm_retired])
  qed (use Cons in simp)
qed simp

lemma revert_loop_sets: "revert_loop now rs n m = (n', m') \<Longrightarrow> fm_sets m' = fm_sets m"
  by (induction now rs n m rule: revert_loop.induct) (auto simp: Let_def split: if_splits)

lemma kernel_sets: "kernel_permitted cfg A m \<Longrightarrow> fm_sets m' = fm_sets m \<Longrightarrow> kernel_permitted cfg A m'"
  by (simp add: kernel_permitted_def)

lemma kernel_withdraw: "kernel_permitted cfg A m \<Longrightarrow> kernel_permitted cfg A (withdraw now r m)"
proof (cases "fm_sets m")
  case (Some sets)
  assume k: "kernel_permitted cfg A m"
  have "holds_only (permitted cfg A) (snd (delete_element now r sets))"
  proof (cases "delete_ops r = []")
    case True
    then show ?thesis using k Some by (simp add: delete_element_def kernel_permitted_def)
  next
    case False
    obtain e b where "sb_apply now (delete_ops r) sets = (e, b)" by fastforce
    moreover from this have "holds_only (permitted cfg A) b"
      by (rule holds_only_apply [rotated]) (use k Some delete_ops_kind in \<open>fastforce simp: kernel_permitted_def\<close>)+
    ultimately show ?thesis using False by (simp add: delete_element_def Let_def)
  qed
  then show ?thesis using Some by (simp add: kernel_permitted_def withdraw_def)
qed (simp add: kernel_permitted_def withdraw_def)

lemma kernel_retire_rule:
  assumes "kernel_permitted cfg A m" "retire_rule i s now m = (res, m')" shows "kernel_permitted cfg A m'"
proof -
  have "m' = m \<or> (\<exists>r. fm_sets m' = fm_sets (withdraw now r m))"
    using assms(2) by (auto simp: retire_rule_def Let_def split: option.splits if_splits)
  then show ?thesis using assms(1) kernel_withdraw kernel_sets by metis
qed

lemma protective_retire_rule:
  "protective tables cfg A m \<Longrightarrow> s \<noteq> RS_PENDING_APPROVAL \<Longrightarrow> retire_rule i s now m = (res, m') \<Longrightarrow> protective tables cfg A m'"
  by (rule protective_calm) (auto intro: calm_retire_rule kernel_retire_rule simp: protective_def)

lemma protective_expire_loop:
  "protective tables cfg A m \<Longrightarrow> expire_loop now rs es m = (res, m') \<Longrightarrow> protective tables cfg A m'"
proof (induction now rs es m rule: expire_loop.induct)
  case (2 now r rs es m)
  obtain x m1 where run: "retire_rule (fr_id r) RS_EXPIRED now m = (x, m1)" by fastforce
  have "protective tables cfg A m1" by (rule protective_retire_rule [OF "2.prems"(1) _ run]) simp
  then show ?case using 2 run by (auto split: if_splits option.splits)
qed auto

text \<open>Deploying adds the element of an unprotected target only.\<close>

lemma calm_deployments:
  "calm x m \<Longrightarrow> calm x (snd (deployed r md now m))" "calm x m \<Longrightarrow> calm x (snd (deploy_failed sev r now m))"
  "calm x m \<Longrightarrow> calm x (snd (shadow r now m))" "calm x m \<Longrightarrow> calm x (snd (deploy r now m))"
  "calm x m \<Longrightarrow> calm x (retire_superseded s now m)"
  by (auto simp: deployed_def deploy_failed_def shadow_def deploy_def retire_superseded_def Let_def calm_put
      split: option.splits prod.splits bool.splits)

lemma deployments_sets [simp]:
  "fm_sets (snd (deployed r md now m)) = fm_sets m" "fm_sets (snd (deploy_failed sev r now m)) = fm_sets m"
  "fm_sets (snd (shadow r now m)) = fm_sets m" "fm_sets (snd (hold_for_approval r now m)) = fm_sets m"
  "fm_sets (retire_superseded s now m) = fm_sets m"
  by (simp_all add: deployed_def deploy_failed_def shadow_def hold_for_approval_def retire_superseded_def Let_def split: option.splits)

lemma protective_deploy_to_sets:
  assumes "fm_sets m = Some sets" "kernel_permitted cfg A m"
    "\<And>t. map_of (fm_targets m) (fr_id r) = Some t \<Longrightarrow> restrictive (rf_action r) \<Longrightarrow> unprotected cfg A t"
  shows "calm m (snd (deploy_to_sets sets r now up m))" "kernel_permitted cfg A (snd (deploy_to_sets sets r now up m))"
proof -
  have "calm m (snd (deploy_to_sets sets r now up m)) \<and> kernel_permitted cfg A (snd (deploy_to_sets sets r now up m))"
  proof (cases "map_of (fm_targets m) (fr_id r)")
    case None
    then show ?thesis using assms(2) by (simp add: deploy_to_sets_def del: map_of_eq_None_iff)
  next
    case (Some t)
    obtain ops md where ops: "deploy_ops m r t now up = (ops, md)" by fastforce
    obtain err sets' where app: "sb_apply now ops sets = (err, sets')" by fastforce
    have "holds_only (permitted cfg A) sets'"
    proof (rule holds_only_apply [OF _ app])
      show "holds_only (permitted cfg A) sets" using assms(1,2) by (simp add: kernel_permitted_def)
      show "\<forall>op \<in> set ops. op_kind op = SO_ADD \<longrightarrow> permitted cfg A (op_address op) (op_key op)"
        using deploy_ops_permitted [OF assms(3) [OF Some]] ops by (metis fst_conv)
    qed
    then show ?thesis using Some ops app
      by (cases err) (simp_all add: deploy_to_sets_def Let_def calm_deployments kernel_permitted_def del: map_of_eq_Some_iff)
  qed
  then show "calm m (snd (deploy_to_sets sets r now up m))" "kernel_permitted cfg A (snd (deploy_to_sets sets r now up m))"
    by blast+
qed

lemma calm_new_target:
  assumes "map_of (fm_rules m) i = None"
  shows "calm m (m\<lparr>fm_rate_limiter := rl, fm_targets := AList.update i t (fm_targets m)\<rparr>)"
  using assms by (auto simp: calm_def simp del: map_of_eq_Some_iff map_of_eq_None_iff)

lemma protective_hold:
  assumes "protective tables cfg A m" "restrictive (rf_action r) \<Longrightarrow> map_of (fm_targets m) (fr_id r) = Some t \<Longrightarrow> unprotected cfg A t"
    "map_of (fm_targets m) (fr_id r) = Some t \<or> fm_sets m = None"
  shows "fm_sets m \<noteq> None \<Longrightarrow> protective tables cfg A (snd (hold_for_approval r now m))"
  using assms
  by (auto simp: protective_def kernel_permitted_def hold_for_approval_def Let_def put_rule_def record_transition_def
      simp del: map_of_eq_Some_iff split: if_splits)

lemma protective_submit:
  assumes "protective tables cfg A m" "fm_sets m = Some sets" "map_of (fm_rules m) (cr_id c) = None" "cached \<in> tables"
  shows "protective tables cfg A (snd (submit_candidate cached c now m))"
proof (cases "target_for m c")
  case None
  then show ?thesis using assms by (simp add: submit_candidate_def submit_to_sets_def)
next
  case (Some target)
  have cfg: "mc_validation (fm_config m) = cfg" "A \<subseteq> set (infrastructure cfg (resolve_local cached (fm_local_addresses m)))"
    "kernel_permitted cfg A m"
    using assms(1,4) by (auto simp: protective_def always_protected_def)
  obtain outcome rl where v: "validate_set_candidate cached c target cfg (fm_known_decision_ids m)
      (active_targets m) (fm_allowlist m) (fm_rate_limiter m) now (fm_local_addresses m) = (outcome, rl)" by fastforce
  show ?thesis
  proof (cases "\<exists>t. target = Some t \<and> so_approved outcome")
    case False
    have "protective tables cfg A (m\<lparr>fm_rate_limiter := rl\<rparr>)"
      by (rule protective_calm [OF assms(1)]) (use kernel_sets [OF cfg(3)] in simp_all)
    then show ?thesis using Some v False assms(2) cfg(1)
      by (auto simp: submit_candidate_def submit_to_sets_def split: option.splits)
  next
    case True
    then obtain t where t: "target = Some t" "so_approved outcome" by blast
    have safe: "unprotected cfg A t" if "restrictive (rf_action c)"
      using approved_unprotected [of cached c t cfg "fm_known_decision_ids m" "active_targets m" "fm_allowlist m"
          "fm_rate_limiter m" now "fm_local_addresses m"] that v t cfg(2) by simp
    let ?r = "rule_of_candidate c (display_priority (rf_threat_score c)) (Some t)"
    let ?m1 = "m\<lparr>fm_rate_limiter := rl_record now rl, fm_targets := AList.update (cr_id c) t (fm_targets m)\<rparr>"
    let ?m2 = "record_transition (cr_id c) None RS_VALIDATING now ?m1"
    have calm2: "calm m ?m2" using calm_new_target [OF assms(3)] by simp
    have k2: "kernel_permitted cfg A ?m2" by (rule kernel_sets [OF cfg(3)]) simp
    have m2: "protective tables cfg A ?m2" by (rule protective_calm [OF assms(1) calm2 k2])
    have target2: "map_of (fm_targets ?m2) (fr_id ?r) = Some t" by simp
    note deployed = protective_deploy_to_sets [of ?m2 sets cfg A ?r now "so_upgrade_of outcome"]
    have dep: "protective tables cfg A (snd (deploy_to_sets sets ?r now (so_upgrade_of outcome) ?m2))"
      by (rule protective_calm [OF m2]) (use deployed assms(2) k2 safe in auto)
    have shad: "protective tables cfg A (snd (shadow ?r now ?m2))"
      by (rule protective_calm [OF m2]) (simp_all add: calm_deployments kernel_sets [OF k2])
    have hold: "protective tables cfg A (snd (hold_for_approval ?r now ?m2))"
      by (rule protective_hold [OF m2]) (use safe assms(2) in auto)
    show ?thesis using Some v t assms(2) cfg(1) dep shad hold
      by (simp add: submit_candidate_def submit_to_sets_def Let_def)
  qed
qed

lemma protective_approve:
  assumes "protective tables cfg A m" "audited T m"
  shows "protective tables cfg A (snd (approve_pending i now m))"
proof (cases "\<exists>r. map_of (fm_rules m) i = Some r \<and> fr_status r = RS_PENDING_APPROVAL")
  case False
  then show ?thesis using assms(1) by (auto simp: approve_pending_def simp del: map_of_eq_Some_iff split: option.splits)
next
  case True
  then obtain r where r: "map_of (fm_rules m) i = Some r" "fr_status r = RS_PENDING_APPROVAL" by blast
  let ?r = "r\<lparr>fr_status := RS_APPROVED\<rparr>" and ?m = "record_transition i (Some RS_PENDING_APPROVAL) RS_APPROVED now m"
  have k: "kernel_permitted cfg A m" using assms(1) by (simp add: protective_def)
  then obtain sets where sets: "fm_sets m = Some sets" by (auto simp: kernel_permitted_def)
  have km: "kernel_permitted cfg A ?m" by (rule kernel_sets [OF k]) simp
  have m: "protective tables cfg A ?m" by (rule protective_calm [OF assms(1) _ km]) simp
  have "unprotected cfg A t" if "map_of (fm_targets ?m) (fr_id ?r) = Some t" "restrictive (rf_action ?r)" for t
    using that assms(1) r keyed_id [OF assms(2) r(1)] unfolding protective_def by simp
  note deployed = protective_deploy_to_sets [where r = ?r and m = ?m and sets = sets and now = now and up = "rate_limit_to_upgrade ?m ?r", OF _ km this]
  have "protective tables cfg A (snd (deploy_to_sets sets ?r now (rate_limit_to_upgrade ?m ?r) ?m))"
    by (rule protective_calm [OF m]) (use deployed sets in simp_all)
  then show ?thesis using r sets by (simp add: approve_pending_def Let_def)
qed

lemma protective_reject:
  assumes "protective tables cfg A m" shows "protective tables cfg A (snd (reject_pending i now m))"
proof (rule protective_calm [OF assms])
  show "calm m (snd (reject_pending i now m))"
    by (auto simp: reject_pending_def Let_def calm_def record_transition_def simp del: map_of_eq_Some_iff split: option.splits if_splits)
  have "fm_sets (snd (reject_pending i now m)) = fm_sets m"
    by (auto simp: reject_pending_def Let_def split: option.splits)
  then show "kernel_permitted cfg A (snd (reject_pending i now m))"
    using assms by (auto simp: protective_def intro: kernel_sets)
qed

text \<open>The emergency paths only ever remove elements.\<close>

lemma protective_retire_all:
  assumes "protective tables cfg A m" "calm m m1" "fm_sets m1 = Some sets" "holds_only (permitted cfg A) sets"
    "retire_all_active now m1 = (n, m')"
  shows "protective tables cfg A m'"
proof (rule protective_calm [OF assms(1)])
  show "calm m m'" using calm_retire_loop [OF assms(2)] assms(5) by (simp add: retire_all_active_def)
  have "fm_sets m' = fm_sets m1" using retire_loop_sets assms(5) by (simp add: retire_all_active_def)
  then show "kernel_permitted cfg A m'" using assms(3,4) by (simp add: kernel_permitted_def)
qed

lemma protective_revert:
  assumes "protective tables cfg A m" shows "protective tables cfg A (snd (revert_to_base now m))"
proof -
  obtain sets where sets: "fm_sets m = Some sets" "holds_only (permitted cfg A) sets"
    using assms by (auto simp: protective_def kernel_permitted_def)
  obtain e1 s1 where f: "sb_flush_sets ADAPTIVE_ENFORCEMENT_SETS sets = (e1, s1)" by fastforce
  obtain e2 s2 where g: "sb_set_guard_modes ALL_OBSERVE s1 = (e2, s2)" by fastforce
  obtain n m' where run: "retire_all_active now (m\<lparr>fm_enforcement_mode := EM_SHADOW, fm_sets := Some s2\<rparr>) = (n, m')" by fastforce
  have "holds_only (permitted cfg A) s2" by (rule holds_only_guards [OF holds_only_flush [OF sets(2) f] g])
  then have "protective tables cfg A m'" by (intro protective_retire_all [OF assms _ _ _ run]) simp_all
  then show ?thesis using sets f g run by (simp add: revert_to_base_def kill_switch_sets_def)
qed

lemma protective_shutdown:
  assumes "protective tables cfg A m" shows "protective tables cfg A (snd (fail_open_shutdown now m))"
proof -
  obtain sets where sets: "fm_sets m = Some sets" "holds_only (permitted cfg A) sets"
    using assms by (auto simp: protective_def kernel_permitted_def)
  obtain e s where f: "sb_flush_sets ADAPTIVE_ENFORCEMENT_SETS sets = (e, s)" by fastforce
  obtain n m' where run: "retire_all_active now (m\<lparr>fm_sets := Some s\<rparr>) = (n, m')" by fastforce
  have "protective tables cfg A m'"
    by (rule protective_retire_all [OF assms _ _ holds_only_flush [OF sets(2) f] run]) simp_all
  then show ?thesis using sets f run by (simp add: fail_open_shutdown_def)
qed

lemma protective_panic:
  assumes "protective tables cfg A m" shows "protective tables cfg A (snd (panic actor now m))"
proof -
  obtain sets where sets: "fm_sets m = Some sets" "holds_only (permitted cfg A) sets"
    using assms by (auto simp: protective_def kernel_permitted_def)
  obtain res s where p: "sb_panic sets = (res, s)" by fastforce
  obtain n m' where run: "retire_all_active now (m\<lparr>fm_enforcement_mode := EM_SHADOW, fm_sets := Some s\<rparr>) = (n, m')" by fastforce
  note s = holds_only_panic [OF sets(2) p]
  have "protective tables cfg A m'" by (rule protective_retire_all [OF assms _ _ s run]) simp_all
  moreover have "protective tables cfg A (m\<lparr>fm_sets := Some s\<rparr>)"
    by (rule protective_calm [OF assms]) (use s in \<open>simp_all add: kernel_permitted_def\<close>)
  ultimately show ?thesis using sets p run by (cases res) (simp_all add: panic_def)
qed

text \<open>Allowlist pairs and bindings live in other sets.\<close>

definition harmless_op :: "set_op \<Rightarrow> bool" where
  "harmless_op op \<longleftrightarrow> op_kind op = SO_DELETE \<or> \<not> enforcement_address (op_address op)"

lemma holds_only_harmless:
  assumes "holds_only (permitted cfg A) b" "sb_apply now ops b = (r, b')" "\<forall>op \<in> set ops. harmless_op op"
  shows "holds_only (permitted cfg A) b'"
  by (rule holds_only_apply [OF assms(1,2)]) (use assms(3) permitted_other in \<open>fastforce simp: harmless_op_def\<close>)

lemma harmless_set: "op_set_name op \<notin> set ADAPTIVE_ENFORCEMENT_SETS \<Longrightarrow> harmless_op op"
  by (auto simp: harmless_op_def enforcement_address_iff op_address_def)

lemma other_sets: "{SET_BOUND4, SET_MACBIND, SET_ALLOW_BOUND} \<inter> set ADAPTIVE_ENFORCEMENT_SETS = {}"
  by (simp add: ADAPTIVE_ENFORCEMENT_SETS_def nft_name_defs)

lemma harmless_ops:
  "harmless_op (allow_bound_op kind table pair)"
  "op \<in> set (allow_bound_ops kind pair) \<Longrightarrow> harmless_op op"
  "op \<in> set (binding_ops kind b n) \<Longrightarrow> harmless_op op"
proof -
  show 1: "harmless_op (allow_bound_op kind table pair)" for table
    by (rule harmless_set) (use other_sets in \<open>auto simp: allow_bound_op_def\<close>)
  show "op \<in> set (allow_bound_ops kind pair) \<Longrightarrow> harmless_op op" using 1 by (auto simp: allow_bound_ops_def)
  assume "op \<in> set (binding_ops kind b n)"
  then have "op_set_name op \<in> {SET_BOUND4, SET_MACBIND}" by (auto simp: binding_ops_def)
  then show "harmless_op op" using other_sets by (intro harmless_set) auto
qed

lemma harmless_sync: "op \<in> set (sync_ops grace now change) \<Longrightarrow> harmless_op op"
  using harmless_ops(3) unfolding sync_ops_def by auto

lemma allowlist_ops_harmless:
  assumes "holds_only P b" "allowlist_ops now wanted tables b = (r, b')"
  shows "holds_only P b' \<and> (\<forall>ops. r = Inr ops \<longrightarrow> (\<forall>op \<in> set ops. harmless_op op))"
  using assms
proof (induction now wanted tables b arbitrary: r b' rule: allowlist_ops.induct)
  case (2 now wanted table tables b)
  obtain x b1 where x: "sb_list_set now (INET_FAMILY, table, SET_ALLOW_BOUND) b = (x, b1)" by fastforce
  obtain y b2 where y: "allowlist_ops now wanted tables b1 = (y, b2)" by fastforce
  have b1: "holds_only P b1" by (rule holds_only_list [OF "2.prems"(1) x])
  show ?case
  proof (cases x)
    case (Inl e)
    then show ?thesis using "2.prems"(2) x b1 by auto
  next
    case (Inr es)
    then show ?thesis
      using "2.IH" [OF x [symmetric] Inr refl refl refl b1 y] "2.prems"(2) x y
      by (auto simp: Let_def harmless_ops split: sum.splits)
  qed
qed auto

lemma stale_ops_harmless:
  assumes "holds_only P b" "stale_ops now bs locs b = (r, b')"
  shows "holds_only P b' \<and> (\<forall>ops. r = Inr ops \<longrightarrow> (\<forall>op \<in> set ops. harmless_op op))"
  using assms
proof (induction now bs locs b arbitrary: r b' rule: stale_ops.induct)
  case (2 now bs loc set_name rest b)
  obtain x b1 where x: "sb_list_set now (fst loc, snd loc, set_name) b = (x, b1)" by fastforce
  obtain y b2 where y: "stale_ops now bs rest b1 = (y, b2)" by fastforce
  have b1: "holds_only P b1" by (rule holds_only_list [OF "2.prems"(1) x])
  show ?case
  proof (cases x)
    case (Inl e)
    then show ?thesis using "2.prems"(2) x b1 by auto
  next
    case (Inr es)
    then show ?thesis
      using "2.IH" [OF x [symmetric] Inr refl refl b1 y] "2.prems"(2) x y
      by (auto simp: Let_def harmless_op_def stale_op_def split: sum.splits)
  qed
qed auto

lemma protective_writer:
  assumes "protective tables cfg A m" "calm m m'" "fm_sets m = Some sets"
    "holds_only (permitted cfg A) sets \<Longrightarrow> \<exists>sets'. fm_sets m' = Some sets' \<and> holds_only (permitted cfg A) sets'"
  shows "protective tables cfg A m'"
  by (rule protective_calm [OF assms(1,2)]) (use assms in \<open>auto simp: protective_def kernel_permitted_def\<close>)

lemma protective_add_entry:
  assumes "protective tables cfg A m" shows "protective tables cfg A (snd (add_allowlist_entry now e m))"
proof -
  obtain sets where sets: "fm_sets m = Some sets" using assms by (auto simp: protective_def kernel_permitted_def)
  have "holds_only (permitted cfg A) sets \<Longrightarrow> sb_apply now (allow_bound_ops SO_ADD p) sets = (e, b)
      \<Longrightarrow> holds_only (permitted cfg A) b" for p e b
    by (rule holds_only_harmless) (use harmless_ops(2) in blast)+
  then show ?thesis
    by (intro protective_writer [OF assms _ sets])
       (auto simp: add_allowlist_entry_def Let_def sets split: option.splits prod.splits)
qed

lemma protective_remove_entry:
  assumes "protective tables cfg A m" shows "protective tables cfg A (snd (remove_allowlist_entry now i m))"
proof -
  obtain sets where sets: "fm_sets m = Some sets" using assms by (auto simp: protective_def kernel_permitted_def)
  have "holds_only (permitted cfg A) sets \<Longrightarrow> holds_only (permitted cfg A) (snd (sb_apply now (allow_bound_ops SO_DELETE p) sets))" for p
    by (rule holds_only_harmless [OF _ prod.collapse [symmetric]]) (use harmless_ops(2) in blast)+
  then show ?thesis
    by (intro protective_writer [OF assms _ sets])
       (auto simp: remove_allowlist_entry_def Let_def sets split: option.splits)
qed

lemma protective_sync_allowlist:
  assumes "protective tables cfg A m" shows "protective tables cfg A (snd (sync_allowlist now m))"
proof -
  obtain sets where sets: "fm_sets m = Some sets" using assms by (auto simp: protective_def kernel_permitted_def)
  obtain r b where ops: "allowlist_ops now (allow_bound_pairs None (fm_allowlist m)) ALLOW_BOUND_TABLES sets = (r, b)" by fastforce
  note b = allowlist_ops_harmless [OF _ ops, of "permitted cfg A"]
  show ?thesis
  proof (rule protective_writer [OF assms _ sets])
    show "calm m (snd (sync_allowlist now m))"
      by (auto simp: sync_allowlist_def split: option.splits prod.splits sum.splits)
    assume h: "holds_only (permitted cfg A) sets"
    show "\<exists>sets'. fm_sets (snd (sync_allowlist now m)) = Some sets' \<and> holds_only (permitted cfg A) sets'"
    proof (cases r)
      case (Inl e)
      then show ?thesis using b [OF h] ops sets by (simp add: sync_allowlist_def)
    next
      case (Inr xs)
      obtain e b2 where app: "sb_apply now xs b = (e, b2)" by fastforce
      have "holds_only (permitted cfg A) b2" using b [OF h] Inr by (intro holds_only_harmless [OF _ app]) simp_all
      then show ?thesis using ops sets Inr app by (cases e) (simp_all add: sync_allowlist_def)
    qed
  qed
qed

lemma protective_apply_or_fail:
  assumes "protective tables cfg A m" "fm_sets m = Some sets" "holds_only (permitted cfg A) sets'" "\<forall>op \<in> set ops. harmless_op op"
  shows "protective tables cfg A (snd (apply_or_fail now ops sets' m))"
proof -
  obtain r b where app: "sb_apply now ops sets' = (r, b)" by fastforce
  have "holds_only (permitted cfg A) b" by (rule holds_only_harmless [OF assms(3) app assms(4)])
  then show ?thesis
    by (intro protective_writer [OF assms(1) _ assms(2)]) (auto simp: apply_or_fail_def app split: option.splits)
qed

lemma protective_bindings:
  assumes "protective tables cfg A m"
  shows "protective tables cfg A (snd (sync_bindings change now m))" "protective tables cfg A (snd (replace_bindings bs now m))"
proof -
  obtain sets where sets: "fm_sets m = Some sets" "holds_only (permitted cfg A) sets"
    using assms by (auto simp: protective_def kernel_permitted_def)
  have "protective tables cfg A (snd (apply_or_fail now (sync_ops (mc_grace_seconds (fm_config m)) now change) sets m))"
    by (rule protective_apply_or_fail [OF assms sets]) (use harmless_sync in blast)
  then show "protective tables cfg A (snd (sync_bindings change now m))" using assms sets by (simp add: sync_bindings_def)
  obtain r b where ops: "stale_ops now bs binding_sets sets = (r, b)" by fastforce
  note b = stale_ops_harmless [OF sets(2) ops]
  show "protective tables cfg A (snd (replace_bindings bs now m))"
  proof (cases r)
    case (Inl e)
    then have "snd (replace_bindings bs now m) = m\<lparr>fm_sets := Some b\<rparr>" using sets ops by (simp add: replace_bindings_def)
    then show ?thesis using b by (intro protective_writer [OF assms _ sets(1)]) simp_all
  next
    case (Inr xs)
    have "protective tables cfg A (snd (apply_or_fail now
        (xs @ sync_ops (mc_grace_seconds (fm_config m)) now \<lparr>bc_removed = bs, bc_added = bs\<rparr>) b m))"
      by (rule protective_apply_or_fail [OF assms sets(1)]) (use b Inr harmless_sync in auto)
    then show ?thesis using sets ops Inr by (simp add: replace_bindings_def)
  qed
qed

lemma protective_guard:
  assumes "protective tables cfg A m" shows "protective tables cfg A (snd (manager_set_guard_mode g md now m))"
proof -
  obtain sets where sets: "fm_sets m = Some sets" using assms by (auto simp: protective_def kernel_permitted_def)
  obtain r b where app: "sb_set_guard_modes [(g, md)] sets = (r, b)" by fastforce
  show ?thesis using holds_only_guards [OF _ app]
    by (intro protective_writer [OF assms _ sets]) (auto simp: manager_set_guard_mode_def sets app split: option.splits)
qed

lemma protective_other:
  assumes "protective tables cfg A m"
  shows "protective tables cfg A (register_decision d m)" "protective tables cfg A (snd (authorize_portal_client ip secs mac m))"
    "protective tables cfg A (snd (deauthorize_portal_client ip mac m))"
proof -
  obtain sets where sets: "fm_sets m = Some sets" using assms by (auto simp: protective_def kernel_permitted_def)
  show "protective tables cfg A (register_decision d m)"
    by (rule protective_writer [OF assms _ sets]) (auto simp: register_decision_def sets)
  show "protective tables cfg A (snd (authorize_portal_client ip secs mac m))"
    by (rule protective_writer [OF assms _ sets]) (auto simp: authorize_portal_client_def sets split: prod.splits)
  show "protective tables cfg A (snd (deauthorize_portal_client ip mac m))"
    by (rule protective_writer [OF assms _ sets])
       (auto simp: deauthorize_portal_client_def Let_def sets split: prod.splits option.splits)
qed

text \<open>Reconciling reads the sets and adds rules in status ACTIVE only.\<close>

lemma list_live_holds: "holds_only P b \<Longrightarrow> list_live now ns live b = (r, b') \<Longrightarrow> holds_only P b'"
proof (induction now ns live b rule: list_live.induct)
  case (2 now n ns live b)
  then show ?case using holds_only_list [OF "2.prems"(1)] by (auto split: prod.splits sum.splits)
qed simp

lemma calm_retire_missing: "calm m m' \<Longrightarrow> retire_missing now live rs known gone m' = (known', gone', m'') \<Longrightarrow> calm m m'' \<and> fm_sets m'' = fm_sets m'"
proof (induction rs arbitrary: known gone m')
  case (Cons r rs)
  show ?case
  proof (cases "\<exists>s k. element_of r = Some (s, k) \<and> map_of live (s, Single k) = None")
    case True
    then have "retire_missing now live rs known (gone @ [fr_id r]) (retired now r m') = (known', gone', m'')"
      using Cons.prems(2) by (auto simp: retired_def)
    from Cons.IH [OF calm_retired [OF Cons.prems(1)] this] show ?thesis by (simp add: retired_def)
  next
    case False
    then obtain known2 where "retire_missing now live rs known2 gone m' = (known', gone', m'')"
      using Cons.prems(2) by (auto split: option.splits)
    from Cons.IH [OF Cons.prems(1) this] show ?thesis .
  qed
qed simp

lemma calm_adopt:
  assumes "calm m m'" "adopt s k e now m' = Some (i, m'')"
  shows "calm m m'' \<and> fm_sets m'' = fm_sets m'"
proof -
  obtain r ip ttl where r: "r = adopted_rule s k ip ttl now"
    and m'': "m'' = record_transition (fr_id r) None RS_ACTIVE now
      ((put_rule r m')\<lparr>fm_targets := AList.update (fr_id r) \<lparr>rt_ip = ip, rt_mac = None\<rparr> (fm_targets m')\<rparr>)"
    using assms(2) by (auto simp: adopt_def Let_def split: option.splits)
  have "fr_status r = RS_ACTIVE" by (simp add: r adopted_rule_def)
  then show ?thesis using assms(1) m''
    by (auto simp: calm_def put_rule_def record_transition_def simp del: map_of_eq_Some_iff split: if_splits)
qed

lemma calm_adopt_unknown:
  "calm m m' \<Longrightarrow> adopt_unknown now known live report m' = (res, m'') \<Longrightarrow> calm m m'' \<and> fm_sets m'' = fm_sets m'"
proof (induction now known live report m' rule: adopt_unknown.induct)
  case (2 now known set_name key expires_in rest report m')
  show ?case
  proof (cases "\<exists>k x. key = Single k \<and> (set_name, k) \<notin> set known \<and> set_name \<in> set IP_KEYED_SETS
      \<and> adopt set_name k expires_in now m' = Some x")
    case True
    then obtain k i m1 where k: "key = Single k" "(set_name, k) \<notin> set known" "\<not> set_name \<notin> set IP_KEYED_SETS"
      and a: "adopt set_name k expires_in now m' = Some (i, m1)" by auto
    note c = calm_adopt [OF "2.prems"(1) a]
    have "adopt_unknown now known rest (report\<lparr>rr_adopted := rr_adopted report @ [i]\<rparr>) m1 = (res, m'')"
      using "2.prems"(2) k a by simp
    from "2.IH"(3) [OF k a refl _ this] show ?thesis using c by simp
  next
    case False
    then show ?thesis using 2 by (auto split: set_key.splits if_splits option.splits prod.splits)
  qed
qed simp

lemma protective_reconcile:
  assumes "protective tables cfg A m" shows "protective tables cfg A (snd (reconcile now m))"
proof -
  obtain sets where sets: "fm_sets m = Some sets" "holds_only (permitted cfg A) sets"
    using assms by (auto simp: protective_def kernel_permitted_def)
  obtain r b where run: "list_live now (sort ADAPTIVE_ENFORCEMENT_SETS) [] sets = (r, b)" by fastforce
  have b: "holds_only (permitted cfg A) b" by (rule list_live_holds [OF sets(2) run])
  let ?m = "m\<lparr>fm_sets := Some b\<rparr>"
  have m: "protective tables cfg A ?m" by (rule protective_writer [OF assms _ sets(1)]) (use b in simp_all)
  have adopted: "protective tables cfg A m3"
    if r1: "retire_missing now live (active_rules ?m) [] [] ?m = (known, gone, m2)"
      and r2: "adopt_unknown now known live' report m2 = (res, m3)" for live known gone m2 live' report res m3
  proof -
    have "calm ?m m2 \<and> fm_sets m2 = fm_sets ?m" by (rule calm_retire_missing [OF calm_refl r1])
    moreover from this have "calm ?m m3 \<and> fm_sets m3 = fm_sets m2" using calm_adopt_unknown [OF _ r2] by blast
    ultimately show ?thesis using b by (intro protective_writer [OF m]) auto
  qed
  show ?thesis
  proof (cases r)
    case (Inl e)
    then show ?thesis using sets(1) run assms m by (simp add: reconcile_def Let_def)
  next
    case (Inr live)
    obtain known gone m2 where r1: "retire_missing now live (active_rules ?m) [] [] ?m = (known, gone, m2)" by (metis prod.collapse)
    show ?thesis using sets(1) run Inr assms r1 adopted [OF r1 prod.collapse [symmetric]] by (simp add: reconcile_def Let_def)
  qed
qed

lemma protective_step:
  "manager_step tables m m' \<Longrightarrow> audited T m \<Longrightarrow> protective tables cfg A m \<Longrightarrow> protective tables cfg A m'"
proof (induction rule: manager_step.induct)
  case (submit cached m c now)
  then obtain sets where "fm_sets m = Some sets" by (auto simp: protective_def kernel_permitted_def)
  then show ?case using submit protective_submit by blast
next
  case (resolver m f)
  then show ?case by (intro protective_calm [OF resolver(3)] calm_frame) (simp_all add: protective_def kernel_permitted_def)
next
  case (disable m i now)
  then show ?case using protective_retire_rule [of tables cfg A m RS_DISABLED i now] by (metis disable_rule_def prod.collapse rule_status.distinct)
next
  case (remove m i now)
  then show ?case using protective_retire_rule [of tables cfg A m RS_REMOVED i now] by (metis remove_rule_def prod.collapse rule_status.distinct)
next
  case (expire m now)
  then show ?case using protective_expire_loop by (metis expire_rules_def prod.collapse)
qed (blast intro: protective_approve protective_reject protective_revert protective_shutdown protective_panic protective_guard
    protective_add_entry protective_remove_entry protective_sync_allowlist protective_bindings protective_other
    protective_reconcile)+

lemma protective_runs:
  "manager_runs tables m m' \<Longrightarrow> audited T m \<Longrightarrow> protective tables cfg A m \<Longrightarrow> protective tables cfg A m' \<and> audited T m'"
  by (induction rule: rtranclp_induct) (auto intro: protective_step audited_step)

lemma protective_new:
  assumes "holds_only (permitted (mc_validation config) (always_protected (mc_validation config) tables local_addrs)) sets"
  shows "protective tables (mc_validation config) (always_protected (mc_validation config) tables local_addrs)
    (new_firewall_manager config backend store (Some sets) resolver local_addrs)"
  using assms by (simp add: protective_def kernel_permitted_def new_firewall_manager_def)

lemma configured_protected:
  "a \<in> {vc_pirewall_lan_ip cfg, vc_upstream_gateway cfg, vc_admin_pc_ip cfg, network_address (vc_protected_network cfg),
      broadcast_address (vc_protected_network cfg)} \<Longrightarrow> a \<in> always_protected cfg tables local_addrs"
  by (auto simp: always_protected_def infrastructure_def)

lemma own_protected:
  assumes "\<forall>cached \<in> tables. a \<in> set (la_host (resolve_local cached local_addrs)) \<union> set (la_broadcast (resolve_local cached local_addrs))"
  shows "a \<in> always_protected cfg tables local_addrs"
  using assms by (auto simp: always_protected_def infrastructure_def)

text \<open>
  C1: Protected devices are never enforced against. Start the manager on kernel sets without a protected element and take
  any history of its operations: candidates from anywhere (with fresh ids), approvals, synchronisations, reconciliation
  before anything was adopted (as at startup), emergency paths, failing backends. Each submission may read another table
  of the host's own addresses, one of \<open>tables\<close>, and the MAC resolver may change its answers. Then at any time none of
  these is a live element of an address-keyed enforcement set: an address no host can own; the configured
  address of the host, the gateway or the administrator's machine, the network and its broadcast address; an address that
  every table in \<open>tables\<close> shows as the host's own or a local broadcast address. The administrator's MAC is
  none of a MAC-keyed set. Nothing is claimed of an address the host acquires later: a rule queued or deployed before is
  not validated again.
\<close>

theorem protected_devices_never_enforced:
  assumes "holds_only (permitted (mc_validation config) (always_protected (mc_validation config) tables local_addrs)) start"
    "manager_runs tables (new_firewall_manager config backend store (Some start) resolver local_addrs) m"
    "cfg = mc_validation config"
  shows "\<exists>sets. fm_sets m = Some sets
    \<and> (\<forall>a t n. \<not> targetable_address a
         \<or> a \<in> {vc_pirewall_lan_ip cfg, vc_upstream_gateway cfg, vc_admin_pc_ip cfg,
              network_address (vc_protected_network cfg), broadcast_address (vc_protected_network cfg)}
         \<or> (\<forall>cached \<in> tables. a \<in> set (la_host (resolve_local cached local_addrs)) \<union> set (la_broadcast (resolve_local cached local_addrs))) \<longrightarrow>
         n \<in> {SET_BLOCK4, SET_RATELIMIT4} \<longrightarrow> live_view t sets (INET_FAMILY, ADAPTIVE_TABLE, n) (Single (show_ipv4 a)) = None)
    \<and> (\<forall>mac t n. vc_admin_pc_mac cfg = Some mac \<longrightarrow>
         n \<in> {SET_BLOCK_MAC, SET_RATELIMIT_MAC} \<longrightarrow> live_view t sets (INET_FAMILY, ADAPTIVE_TABLE, n) (Single mac) = None)"
proof -
  let ?A = "always_protected cfg tables local_addrs"
  have "protective tables cfg ?A m"
    using protective_runs [OF assms(2) audited_new protective_new [OF assms(1)]] unfolding assms(3) by blast
  then obtain sets where sets: "fm_sets m = Some sets" "holds_only (permitted cfg ?A) sets"
    by (auto simp: protective_def kernel_permitted_def)
  note absent = holds_only_live [OF sets(2)]
  show ?thesis
  proof (intro exI [of _ sets] conjI allI impI)
    fix a t n assume a: "\<not> targetable_address a
         \<or> a \<in> {vc_pirewall_lan_ip cfg, vc_upstream_gateway cfg, vc_admin_pc_ip cfg,
              network_address (vc_protected_network cfg), broadcast_address (vc_protected_network cfg)}
         \<or> (\<forall>cached \<in> tables. a \<in> set (la_host (resolve_local cached local_addrs)) \<union> set (la_broadcast (resolve_local cached local_addrs)))"
      and n: "n \<in> {SET_BLOCK4, SET_RATELIMIT4}"
    from a have "protected_address ?A a"
      unfolding protected_address_def using configured_protected [of a cfg tables local_addrs] own_protected by blast
    then show "live_view t sets (INET_FAMILY, ADAPTIVE_TABLE, n) (Single (show_ipv4 a)) = None"
      using n by (intro absent) (auto simp: permitted_def)
  next
    fix mac t n assume "vc_admin_pc_mac cfg = Some mac" "n \<in> {SET_BLOCK_MAC, SET_RATELIMIT_MAC}"
    then show "live_view t sets (INET_FAMILY, ADAPTIVE_TABLE, n) (Single mac) = None"
      by (intro absent) (auto simp: permitted_def)
  qed (rule sets(1))
qed

theorem protected_devices_never_enforced_witness:
  "\<exists>sets. fm_sets (snd (submit_candidate no_local example_candidate 0 example_manager)) = Some sets
     \<and> live_view 0 sets (INET_FAMILY, ADAPTIVE_TABLE, SET_BLOCK4) (Single (show_ipv4 (vc_upstream_gateway example_config))) = None
     \<and> live_view 0 sets (INET_FAMILY, ADAPTIVE_TABLE, SET_BLOCK4) (Single (show_ipv4 (ipv4 10 0 0 1))) = None"
proof -
  have "\<forall>cached \<in> {no_local}. ipv4 10 0 0 1 \<in> set (la_host (resolve_local cached None)) \<union> set (la_broadcast (resolve_local cached None))"
    by (simp add: no_local_def)
  then show ?thesis
    using protected_devices_never_enforced [OF holds_only_fresh example_manager_runs refl] by fastforce
qed

text \<open>
  Approving does not validate again: an approved rule is enforced whatever the host's own addresses have become since the
  candidate was checked.
\<close>

lemma approval_not_revalidated:
  assumes "fm_sets m = Some sets" "backend_inv sets" "map_of (fm_rules m) i = Some r" "fr_id r = i"
    and "fr_status r = RS_PENDING_APPROVAL" "rf_action r \<in> {FA_BLOCK, FA_RATE_LIMIT}"
    and "approve_pending i now m = (Some res, m')" "sr_rule res = Some r'" "fr_status r' = RS_ACTIVE"
  shows "\<exists>t s sets'. map_of (fm_targets m) i = Some t \<and> fm_sets m' = Some sets'
    \<and> live_view now sets' (INET_FAMILY, ADAPTIVE_TABLE, s) (Single (device_text t)) \<noteq> None"
proof -
  let ?r = "r\<lparr>fr_status := RS_APPROVED\<rparr>" and ?m = "record_transition i (Some RS_PENDING_APPROVAL) RS_APPROVED now m"
  have dep: "deploy_to_sets sets ?r now (rate_limit_to_upgrade ?m ?r) ?m = (Some res, m')"
    using assms(1,3,5,7) by (simp add: approve_pending_def Let_def)
  have "rf_action ?r \<in> {FA_BLOCK, FA_RATE_LIMIT}" using assms(6) by simp
  from deploy_to_sets_active [OF dep assms(8,9) this] obtain t s timeout sets' where t: "map_of (fm_targets ?m) (fr_id ?r) = Some t"
    and app: "sb_apply now ((case superseded_rule ?m (rate_limit_to_upgrade ?m ?r) of None \<Rightarrow> [] | Some x \<Rightarrow> delete_ops x)
       @ [adaptive_op SO_ADD s (Single (device_text t)) timeout]) sets = (None, sets')"
    and m': "fm_sets m' = Some sets'" by metis
  have "map_of (fm_targets m) i = Some t" using t assms(4) by simp
  then show ?thesis using swapped_in_present [OF assms(2) app] m' by blast
qed

end
