(* ===== verification/Features.thy ===== *)
theory Features
  imports Flow_State
begin

section \<open>Features of a flow\<close>

text \<open>
  \<open>features/schema.py\<close>, \<open>features/extractor.py\<close> and \<open>core/models/feature_vector.py\<close>: the two frozen schemas,
  the coarse port categories, the vector with its shape check and the extraction of a flow's vector.
  \<open>extract_features\<close> raises \<open>FeatureExtractionError\<close> for an unknown version and for a flow without payload
  statistics; the model returns the error as a value.
\<close>

datatype feature_type = FT_DURATION | FT_COUNT | FT_RATE | FT_SIZE | FT_RATIO | FT_FLAG | FT_PORT | FT_CATEGORY

datatype port_category = PC_NONE | PC_WEB | PC_DNS | PC_SSH | PC_MAIL | PC_OTHER_WELL_KNOWN | PC_EPHEMERAL

fun port_category_code :: "port_category \<Rightarrow> int" where
  "port_category_code PC_NONE = 0"
| "port_category_code PC_WEB = 1"
| "port_category_code PC_DNS = 2"
| "port_category_code PC_SSH = 3"
| "port_category_code PC_MAIL = 4"
| "port_category_code PC_OTHER_WELL_KNOWN = 5"
| "port_category_code PC_EPHEMERAL = 6"

definition WEB_PORTS :: "int list" where
  "WEB_PORTS = [80, 443, 8080, 8443]"

definition DNS_PORTS :: "int list" where
  "DNS_PORTS = [53]"

definition SSH_PORTS :: "int list" where
  "SSH_PORTS = [22]"

definition MAIL_PORTS :: "int list" where
  "MAIL_PORTS = [25, 110, 143, 465, 587, 993, 995]"

definition port_category :: "int option \<Rightarrow> port_category" where
  "port_category port =
     (case port of
        None \<Rightarrow> PC_NONE
      | Some p \<Rightarrow>
          if p \<in> set WEB_PORTS then PC_WEB
          else if p \<in> set DNS_PORTS then PC_DNS
          else if p \<in> set SSH_PORTS then PC_SSH
          else if p \<in> set MAIL_PORTS then PC_MAIL
          else if p \<le> 1023 then PC_OTHER_WELL_KNOWN
          else PC_EPHEMERAL)"

subsection \<open>Schemas\<close>

definition SCHEMA_VERSION :: string where
  "SCHEMA_VERSION = ''3.0.0''"

definition LEGACY_SCHEMA_VERSION :: string where
  "LEGACY_SCHEMA_VERSION = ''2.0.0''"

record feature_definition =
  fd_name :: string
  fd_feature_type :: feature_type
  fd_unit :: string
  fd_description :: string

definition FEATURE_TABLE_V2 :: "(string \<times> feature_type \<times> string \<times> string) list" where
  "FEATURE_TABLE_V2 =
    [(''duration_seconds'', FT_DURATION, ''seconds'', ''Time between the flow's first/last packet.''),
     (''packet_count'', FT_COUNT, ''packets'', ''Total packets observed in the flow.''),
     (''forward_packet_count'', FT_COUNT, ''packets'', ''Packets in the initiating direction.''),
     (''backward_packet_count'', FT_COUNT, ''packets'', ''Packets in the response direction.''),
     (''payload_byte_count'', FT_SIZE, ''bytes'', ''L4 payload bytes, both directions.''),
     (''forward_payload_byte_count'', FT_SIZE, ''bytes'', ''L4 payload bytes, initiating direction.''),
     (''backward_payload_byte_count'', FT_SIZE, ''bytes'', ''L4 payload bytes, response direction.''),
     (''packets_per_second'', FT_RATE, ''packets/second'', ''packet_count / duration (0 if 0).''),
     (''payload_bytes_per_second'', FT_RATE, ''bytes/second'', ''payload_byte_count / duration (0 if 0).''),
     (''mean_payload_size'', FT_SIZE, ''bytes'', ''Mean per-packet L4 payload size.''),
     (''std_payload_size'', FT_SIZE, ''bytes'', ''Sample std (n-1) of per-packet payload size.''),
     (''min_payload_size'', FT_SIZE, ''bytes'', ''Smallest per-packet payload (0 for a bare ACK).''),
     (''max_payload_size'', FT_SIZE, ''bytes'', ''Largest per-packet payload.''),
     (''mean_inter_arrival_seconds'', FT_DURATION, ''seconds'', ''Mean inter-packet time.''),
     (''std_inter_arrival_seconds'', FT_DURATION, ''seconds'', ''Sample std (n-1) of inter-packet time.''),
     (''min_inter_arrival_seconds'', FT_DURATION, ''seconds'', ''Smallest inter-packet time.''),
     (''max_inter_arrival_seconds'', FT_DURATION, ''seconds'', ''Largest inter-packet time.''),
     (''forward_backward_payload_ratio'', FT_RATIO, ''ratio'', ''Forward/backward payload (0 if 0).''),
     (''destination_port'', FT_PORT, ''port'', ''Destination port, or -1 if none (e.g. ICMP).''),
     (''protocol_is_tcp'', FT_FLAG, ''boolean'', ''1.0 if the flow's protocol is TCP, else 0.0.''),
     (''protocol_is_udp'', FT_FLAG, ''boolean'', ''1.0 if the flow's protocol is UDP, else 0.0.''),
     (''protocol_is_icmp'', FT_FLAG, ''boolean'', ''1.0 if the flow's protocol is ICMP, else 0.0.''),
     (''protocol_is_other'', FT_FLAG, ''boolean'', ''1.0 if the protocol is none of TCP/UDP/ICMP.'')]"

definition FEATURE_TABLE_V3 :: "(string \<times> feature_type \<times> string \<times> string) list" where
  "FEATURE_TABLE_V3 =
    [(''duration_seconds'', FT_DURATION, ''seconds'', ''Time between the flow's first/last packet.''),
     (''packet_count'', FT_COUNT, ''packets'', ''Total packets observed in the flow.''),
     (''forward_packet_count'', FT_COUNT, ''packets'', ''Packets in the initiating direction.''),
     (''backward_packet_count'', FT_COUNT, ''packets'', ''Packets in the response direction.''),
     (''payload_byte_count'', FT_SIZE, ''bytes'', ''L4 payload bytes, both directions.''),
     (''forward_payload_byte_count'', FT_SIZE, ''bytes'', ''L4 payload bytes, initiating direction.''),
     (''backward_payload_byte_count'', FT_SIZE, ''bytes'', ''L4 payload bytes, response direction.''),
     (''packets_per_second'', FT_RATE, ''packets/second'', ''packet_count / duration (0 if 0).''),
     (''payload_bytes_per_second'', FT_RATE, ''bytes/second'', ''payload_byte_count / duration (0 if 0).''),
     (''mean_payload_size'', FT_SIZE, ''bytes'', ''Mean per-packet L4 payload size.''),
     (''std_payload_size'', FT_SIZE, ''bytes'', ''Sample std (n-1) of per-packet payload size.''),
     (''min_payload_size'', FT_SIZE, ''bytes'', ''Smallest per-packet payload (0 for a bare ACK).''),
     (''max_payload_size'', FT_SIZE, ''bytes'', ''Largest per-packet payload.''),
     (''mean_inter_arrival_seconds'', FT_DURATION, ''seconds'', ''Mean inter-packet time.''),
     (''std_inter_arrival_seconds'', FT_DURATION, ''seconds'', ''Sample std (n-1) of inter-packet time.''),
     (''min_inter_arrival_seconds'', FT_DURATION, ''seconds'', ''Smallest inter-packet time.''),
     (''max_inter_arrival_seconds'', FT_DURATION, ''seconds'', ''Largest inter-packet time.''),
     (''forward_backward_payload_ratio'', FT_RATIO, ''ratio'', ''Forward/backward payload (0 if 0).''),
     (''destination_port_category'', FT_CATEGORY, ''category code'', ''Coarse destination-service bucket: 0 none, 1 web, 2 dns, 3 ssh, 4 mail, 5 other well-known (0..1023), 6 ephemeral (>=1024).''),
     (''protocol_is_tcp'', FT_FLAG, ''boolean'', ''1.0 if the flow's protocol is TCP, else 0.0.''),
     (''protocol_is_udp'', FT_FLAG, ''boolean'', ''1.0 if the flow's protocol is UDP, else 0.0.''),
     (''protocol_is_icmp'', FT_FLAG, ''boolean'', ''1.0 if the flow's protocol is ICMP, else 0.0.''),
     (''protocol_is_other'', FT_FLAG, ''boolean'', ''1.0 if the protocol is none of TCP/UDP/ICMP.'')]"

definition definitions_of :: "(string \<times> feature_type \<times> string \<times> string) list \<Rightarrow> feature_definition list" where
  "definitions_of table =
     map (\<lambda>(name, t, unit, description). \<lparr>fd_name = name, fd_feature_type = t, fd_unit = unit, fd_description = description\<rparr>) table"

definition DEFINITIONS_BY_VERSION :: "(string, feature_definition list) odict" where
  "DEFINITIONS_BY_VERSION =
     [(SCHEMA_VERSION, definitions_of FEATURE_TABLE_V3), (LEGACY_SCHEMA_VERSION, definitions_of FEATURE_TABLE_V2)]"

definition supports_schema_version :: "string \<Rightarrow> bool" where
  "supports_schema_version version \<longleftrightarrow> version \<in> fst ` set DEFINITIONS_BY_VERSION"

definition feature_definitions :: "string \<Rightarrow> feature_definition list option" where
  "feature_definitions version = map_of DEFINITIONS_BY_VERSION version"

definition feature_names :: "string \<Rightarrow> string list option" where
  "feature_names version = map_option (map fd_name) (feature_definitions version)"

subsection \<open>Vectors\<close>

record feature_vector =
  fv_flow_id :: string
  fv_schema_version :: string
  fv_feature_names :: "string list"
  fv_values :: "real list"
  fv_computed_at :: datetime

definition fv_check_shape :: "feature_vector \<Rightarrow> bool" where
  "fv_check_shape v \<longleftrightarrow> length (fv_feature_names v) = length (fv_values v) \<and> distinct (fv_feature_names v)"

definition new_feature_vector :: "feature_vector \<Rightarrow> feature_vector option" where
  "new_feature_vector v =
     (if fv_flow_id v \<noteq> [] \<and> fv_schema_version v \<noteq> [] \<and> fv_feature_names v \<noteq> [] \<and> fv_check_shape v
      then Some v else None)"

subsection \<open>Extraction\<close>

definition flow_duration_seconds :: "flow \<Rightarrow> real" where
  "flow_duration_seconds f = total_seconds (fl_last_seen f - fl_first_seen f)"

definition flag :: "bool \<Rightarrow> real" where
  "flag b = (if b then 1 else 0)"

definition values_by_name :: "flow \<Rightarrow> payload_stats \<Rightarrow> (string, real) odict" where
  "values_by_name f payload =
     (let duration = flow_duration_seconds f;
          payload_total = real (total_bytes payload);
          ia = fl_inter_arrival_stats f
      in [(''duration_seconds'', duration),
          (''packet_count'', real (fl_packet_count f)),
          (''forward_packet_count'', real (fl_forward_packet_count f)),
          (''backward_packet_count'', real (fl_backward_packet_count f)),
          (''payload_byte_count'', payload_total),
          (''forward_payload_byte_count'', real (pl_forward_bytes payload)),
          (''backward_payload_byte_count'', real (pl_backward_bytes payload)),
          (''packets_per_second'', if duration > 0 then real (fl_packet_count f) / duration else 0),
          (''payload_bytes_per_second'', if duration > 0 then payload_total / duration else 0),
          (''mean_payload_size'', pl_mean_bytes payload),
          (''std_payload_size'', pl_std_bytes payload),
          (''min_payload_size'', real (pl_min_bytes payload)),
          (''max_payload_size'', real (pl_max_bytes payload)),
          (''mean_inter_arrival_seconds'', ia_mean_seconds ia),
          (''std_inter_arrival_seconds'', ia_std_seconds ia),
          (''min_inter_arrival_seconds'', ia_min_seconds ia),
          (''max_inter_arrival_seconds'', ia_max_seconds ia),
          (''forward_backward_payload_ratio'',
             if pl_backward_bytes payload > 0 then real (pl_forward_bytes payload) / real (pl_backward_bytes payload) else 0),
          (''destination_port'', case fl_destination_port f of None \<Rightarrow> - 1 | Some p \<Rightarrow> of_int p),
          (''destination_port_category'', of_int (port_category_code (port_category (fl_destination_port f)))),
          (''protocol_is_tcp'', flag (fl_protocol f = P_TCP)),
          (''protocol_is_udp'', flag (fl_protocol f = P_UDP)),
          (''protocol_is_icmp'', flag (fl_protocol f = P_ICMP)),
          (''protocol_is_other'', flag (fl_protocol f \<notin> {P_TCP, P_UDP, P_ICMP}))])"

datatype feature_error = FE_UNKNOWN_VERSION | FE_NO_PAYLOAD_STATS | FE_UNEXPECTED

text \<open>\<open>values_by_name[name]\<close> for every name: a missing name raises \<open>KeyError\<close>.\<close>

definition look_up_all :: "(string, real) odict \<Rightarrow> string list \<Rightarrow> real list option" where
  "look_up_all d names =
     (if list_all (\<lambda>n. map_of d n \<noteq> None) names then Some (map (\<lambda>n. the (map_of d n)) names) else None)"

definition extract_features :: "flow \<Rightarrow> string \<Rightarrow> feature_error + feature_vector" where
  "extract_features f schema_version =
     (case feature_names schema_version of
        None \<Rightarrow> Inl FE_UNKNOWN_VERSION
      | Some names \<Rightarrow>
          (case fl_payload_stats f of
             None \<Rightarrow> Inl FE_NO_PAYLOAD_STATS
           | Some payload \<Rightarrow>
               (case look_up_all (values_by_name f payload) names of
                  None \<Rightarrow> Inl FE_UNEXPECTED
                | Some vs \<Rightarrow>
                    (case new_feature_vector \<lparr>fv_flow_id = fl_flow_id f, fv_schema_version = schema_version,
                            fv_feature_names = names, fv_values = vs, fv_computed_at = fl_last_seen f\<rparr> of
                       None \<Rightarrow> Inl FE_UNEXPECTED
                     | Some v \<Rightarrow> Inr v))))"

subsection \<open>What extraction returns\<close>

lemma schema_names:
  "feature_names SCHEMA_VERSION = Some (map fst FEATURE_TABLE_V3)"
  "feature_names LEGACY_SCHEMA_VERSION = Some (map fst FEATURE_TABLE_V2)"
  by (simp_all add: feature_names_def feature_definitions_def DEFINITIONS_BY_VERSION_def definitions_of_def
      SCHEMA_VERSION_def LEGACY_SCHEMA_VERSION_def comp_def split_def)

lemma feature_names_unknown: "\<not> supports_schema_version v \<Longrightarrow> feature_names v = None"
  by (auto simp: supports_schema_version_def feature_names_def feature_definitions_def map_of_eq_None_iff)

lemma supports_iff: "supports_schema_version v \<longleftrightarrow> v = SCHEMA_VERSION \<or> v = LEGACY_SCHEMA_VERSION"
  by (auto simp: supports_schema_version_def DEFINITIONS_BY_VERSION_def)

text \<open>The names of both schemas are columns the extractor computes, without repetition.\<close>

lemma schema_computed:
  "set (map fst FEATURE_TABLE_V3) \<subseteq> fst ` set (values_by_name f p)"
  "set (map fst FEATURE_TABLE_V2) \<subseteq> fst ` set (values_by_name f p)"
  by (simp_all add: values_by_name_def Let_def FEATURE_TABLE_V3_def FEATURE_TABLE_V2_def)

lemma schema_distinct: "distinct (map fst FEATURE_TABLE_V3)" "distinct (map fst FEATURE_TABLE_V2)"
  by (simp_all add: FEATURE_TABLE_V3_def FEATURE_TABLE_V2_def)

lemma look_up_all_present:
  "set names \<subseteq> fst ` set d \<Longrightarrow> look_up_all d names = Some (map (\<lambda>n. the (map_of d n)) names)"
  by (auto simp: look_up_all_def list_all_iff map_of_eq_None_iff)

definition schema_table :: "string \<Rightarrow> (string \<times> feature_type \<times> string \<times> string) list" where
  "schema_table v = (if v = SCHEMA_VERSION then FEATURE_TABLE_V3 else FEATURE_TABLE_V2)"

text \<open>
  Extraction fails in exactly two cases. On a flow with an identifier it reports an unknown
  version for every version but the two frozen ones, missing payload statistics for a flow without
  them, and otherwise returns the vector whose names are the schema's columns in their order and whose
  values are the computed columns of these names. The guard for unexpected errors is never reached.
\<close>

theorem extract_features_exact:
  assumes "fl_flow_id f \<noteq> []"
  shows "extract_features f version =
    (if \<not> supports_schema_version version then Inl FE_UNKNOWN_VERSION
     else case fl_payload_stats f of
        None \<Rightarrow> Inl FE_NO_PAYLOAD_STATS
      | Some p \<Rightarrow> Inr \<lparr>fv_flow_id = fl_flow_id f, fv_schema_version = version,
          fv_feature_names = map fst (schema_table version),
          fv_values = map (\<lambda>(n, _). the (map_of (values_by_name f p) n)) (schema_table version),
          fv_computed_at = fl_last_seen f\<rparr>)"
proof (cases "supports_schema_version version")
  case True
  have len: "schema_table version \<noteq> []" "version \<noteq> []"
    using True by (auto simp: schema_table_def FEATURE_TABLE_V3_def FEATURE_TABLE_V2_def supports_iff
        SCHEMA_VERSION_def LEGACY_SCHEMA_VERSION_def)
  have "feature_names version = Some (map fst (schema_table version))" "distinct (map fst (schema_table version))"
      "set (map fst (schema_table version)) \<subseteq> fst ` set (values_by_name f p)" for p
    using True schema_names schema_distinct schema_computed
    by (auto simp: supports_iff schema_table_def simp del: set_map)
  then show ?thesis
    using True len assms look_up_all_present
    by (auto simp: extract_features_def new_feature_vector_def fv_check_shape_def comp_def split_def
        split: option.split)
qed (simp add: extract_features_def feature_names_unknown)

theorem extract_features_exact_witness:
  "extract_features example_flow SCHEMA_VERSION =
    (if \<not> supports_schema_version SCHEMA_VERSION then Inl FE_UNKNOWN_VERSION
     else case fl_payload_stats example_flow of
        None \<Rightarrow> Inl FE_NO_PAYLOAD_STATS
      | Some p \<Rightarrow> Inr \<lparr>fv_flow_id = fl_flow_id example_flow, fv_schema_version = SCHEMA_VERSION,
          fv_feature_names = map fst (schema_table SCHEMA_VERSION),
          fv_values = map (\<lambda>(n, _). the (map_of (values_by_name example_flow p) n)) (schema_table SCHEMA_VERSION),
          fv_computed_at = fl_last_seen example_flow\<rparr>)"
  by (rule extract_features_exact) (simp add: example_flow_def)

lemma schema_nonempty: "SCHEMA_VERSION \<noteq> []" "FEATURE_TABLE_V3 \<noteq> []"
  by (simp_all add: SCHEMA_VERSION_def FEATURE_TABLE_V3_def)

lemma extract_current:
  assumes "fl_flow_id f \<noteq> []" "fl_payload_stats f = Some p"
  shows "\<exists>v. extract_features f SCHEMA_VERSION = Inr v
    \<and> zip (fv_feature_names v) (fv_values v) = map (\<lambda>(n, _). (n, the (map_of (values_by_name f p) n))) FEATURE_TABLE_V3
    \<and> fv_values v = map (\<lambda>(n, _). the (map_of (values_by_name f p) n)) FEATURE_TABLE_V3"
  using assms
  by (simp add: extract_features_def schema_names look_up_all_present [OF schema_computed(1)]
      new_feature_vector_def fv_check_shape_def schema_distinct schema_nonempty
      zip_map_map zip_same_conv_map split_def comp_def)

text \<open>What a model may see of a flow: counts, sizes, times, protocol and the coarse port category.\<close>

definition same_measurements :: "flow \<Rightarrow> flow \<Rightarrow> bool" where
  "same_measurements f g \<longleftrightarrow> flow_duration_seconds f = flow_duration_seconds g
     \<and> fl_packet_count f = fl_packet_count g \<and> fl_forward_packet_count f = fl_forward_packet_count g
     \<and> fl_backward_packet_count f = fl_backward_packet_count g
     \<and> fl_inter_arrival_stats f = fl_inter_arrival_stats g \<and> fl_payload_stats f = fl_payload_stats g
     \<and> fl_protocol f = fl_protocol g
     \<and> port_category (fl_destination_port f) = port_category (fl_destination_port g)"

lemma v3_values_blind:
  assumes "same_measurements f g" "fl_payload_stats f = Some p" "n \<in> fst ` set FEATURE_TABLE_V3"
  shows "map_of (values_by_name f p) n = map_of (values_by_name g p) n"
proof -
  have "n \<noteq> ''destination_port''" using assms(3) by (auto simp: FEATURE_TABLE_V3_def)
  then show ?thesis using assms(1) by (simp add: same_measurements_def values_by_name_def Let_def)
qed

text \<open>
  C38: the current schema is blind to identity. Two flows with the same counts, sizes, times and
  protocol and with destination ports of the same category get the same values, whatever their
  addresses, MACs, source ports, raw destination ports, identifiers, IP-level byte counts and
  TCP flags are; so no model fed by this schema can learn or use any of them.
\<close>

theorem features_identity_blind:
  assumes "fl_flow_id f \<noteq> []" "fl_flow_id g \<noteq> []" "same_measurements f g"
  shows "map_sum id fv_values (extract_features f SCHEMA_VERSION) = map_sum id fv_values (extract_features g SCHEMA_VERSION)"
proof (cases "fl_payload_stats f")
  case None
  then show ?thesis using assms by (simp add: extract_features_def schema_names same_measurements_def)
next
  case (Some p)
  then have "fl_payload_stats g = Some p" using assms(3) by (simp add: same_measurements_def)
  then show ?thesis
    using extract_current [OF assms(1) Some] extract_current [OF assms(2)] v3_values_blind [OF assms(3) Some]
    by (force simp: split_def)
qed

theorem features_identity_blind_witness:
  "map_sum id fv_values (extract_features (example_flow\<lparr>fl_payload_stats := Some \<lparr>pl_forward_bytes = 0, pl_backward_bytes = 0,
      pl_min_bytes = 0, pl_max_bytes = 0, pl_mean_bytes = 0, pl_std_bytes = 0\<rparr>\<rparr>) SCHEMA_VERSION) =
   map_sum id fv_values (extract_features (example_flow\<lparr>fl_payload_stats := Some \<lparr>pl_forward_bytes = 0, pl_backward_bytes = 0,
      pl_min_bytes = 0, pl_max_bytes = 0, pl_mean_bytes = 0, pl_std_bytes = 0\<rparr>,
      fl_destination_port := Some 80, fl_source_ip := ipv4 10 0 0 9, fl_flow_id := ''g''\<rparr>) SCHEMA_VERSION)"
  by (rule features_identity_blind)
    (simp_all add: example_flow_def same_measurements_def flow_duration_seconds_def port_category_def WEB_PORTS_def)

end
