(* ===== verification/Thresholds.thy ===== *)
theory Thresholds
  imports Text Enums "HOL-Library.Product_Lexorder"
begin

section \<open>Detector thresholds\<close>

text \<open>
  \<open>detection_v2/thresholds.py\<close>: the names of thresholds and the parser of names, the security priors,
  the quantile of benign samples with its clamping, the file of thresholds with its validators, and
  the constructors of such files. The canonical JSON text of the entries and its SHA-256 are the
  argument \<open>digest\<close>; reading the file's bytes and the TOML syntax are not modelled, a read file is
  the document \<open>threshold_document\<close> it denotes. \<open>int(str)\<close> is modelled as Python defines it: white
  space around, one sign, single underscores between digits, at most 4300 digits.
\<close>

subsection \<open>Python's integers as text\<close>

definition MAX_STR_DIGITS :: nat where
  "MAX_STR_DIGITS = 4300"

definition py_digits :: "string \<Rightarrow> nat option" where
  "py_digits s =
     (let parts = split_on (CHR ''_'') s in
      if list_all (\<lambda>p. p \<noteq> [] \<and> list_all is_digit p) parts \<and> length (concat parts) \<le> MAX_STR_DIGITS
      then Some (decimal (concat parts)) else None)"

definition py_int :: "string \<Rightarrow> int option" where
  "py_int s =
     (case strip s of
        [] \<Rightarrow> None
      | c # r \<Rightarrow>
          if c = CHR ''-'' then map_option (\<lambda>n. - int n) (py_digits r)
          else if c = CHR ''+'' then map_option int (py_digits r)
          else map_option int (py_digits (c # r)))"

subsection \<open>Names\<close>

datatype scope = SC_DEVICE | SC_DESTINATION | SC_ACCOUNT | SC_GLOBAL

fun scope_value :: "scope \<Rightarrow> string" where
  "scope_value SC_DEVICE = ''device''"
| "scope_value SC_DESTINATION = ''destination''"
| "scope_value SC_ACCOUNT = ''account''"
| "scope_value SC_GLOBAL = ''global''"

record threshold_key =
  tk_detector :: d1_detector
  tk_scope :: scope
  tk_window_seconds :: int

abbreviation threshold_key :: "d1_detector \<Rightarrow> scope \<Rightarrow> int \<Rightarrow> threshold_key" where
  "threshold_key d s w \<equiv> \<lparr>tk_detector = d, tk_scope = s, tk_window_seconds = w\<rparr>"

definition show_key :: "threshold_key \<Rightarrow> string" where
  "show_key k =
     join ''/'' [d1_detector_value (tk_detector k), scope_value (tk_scope k), show_int (tk_window_seconds k)]"

definition D1_DETECTORS :: "d1_detector list" where
  "D1_DETECTORS = [D1_VERTICAL_SCAN, D1_HORIZONTAL_SCAN, D1_FAILED_HANDSHAKE, D1_BRUTE_FORCE,
     D1_SLOW_RATE_DOS, D1_FAN_IN, D1_NEW_MAC_RATE, D1_NEW_LEASE_RATE, D1_PORTAL_AUTH_FAILURES]"

text \<open>\<open>D1Detector(value)\<close>.\<close>

definition d1_detector_of :: "string \<Rightarrow> d1_detector option" where
  "d1_detector_of s = find (\<lambda>d. d1_detector_value d = s) D1_DETECTORS"

definition scope_of :: "string \<Rightarrow> scope option" where
  "scope_of s = find (\<lambda>c. scope_value c = s) [SC_DEVICE, SC_DESTINATION, SC_ACCOUNT, SC_GLOBAL]"

definition parse_key :: "string \<Rightarrow> threshold_key option" where
  "parse_key name =
     (case split_on (CHR ''/'') name of
        [detector, scope, window] \<Rightarrow>
          (case scope_of scope of
             None \<Rightarrow> None
           | Some s \<Rightarrow>
               (case d1_detector_of detector of
                  None \<Rightarrow> None
                | Some d \<Rightarrow>
                    (case py_int window of
                       None \<Rightarrow> None
                     | Some w \<Rightarrow> Some (threshold_key d s w))))
      | _ \<Rightarrow> None)"

subsection \<open>Priors\<close>

record prior =
  pr_floor :: real
  pr_ceiling :: real

text \<open>\<open>_priors\<close>: one row per detector, scope and window, in the order of the source.\<close>

definition put :: "d1_detector \<Rightarrow> scope \<Rightarrow> (int \<times> real \<times> real) list \<Rightarrow> (threshold_key, prior) odict \<Rightarrow> (threshold_key, prior) odict" where
  "put d s rows table =
     fold (\<lambda>(w, lo, hi) t. AList.update (threshold_key d s w) \<lparr>pr_floor = lo, pr_ceiling = hi\<rparr> t) rows table"

definition DEFAULT_PRIORS :: "(threshold_key, prior) odict" where
  "DEFAULT_PRIORS =
     (put D1_PORTAL_AUTH_FAILURES SC_GLOBAL [(10, 15, 50), (60, 30, 100), (3600, 100, 400)]
     (put D1_PORTAL_AUTH_FAILURES SC_ACCOUNT [(10, 5, 20), (60, 10, 30), (3600, 30, 100)]
     (put D1_NEW_LEASE_RATE SC_GLOBAL [(10, 5, 20), (60, 10, 30), (3600, 40, 200)]
     (put D1_NEW_MAC_RATE SC_GLOBAL [(10, 5, 20), (60, 10, 30), (3600, 40, 200)]
     (put D1_FAN_IN SC_DESTINATION [(10, 10, 64), (60, 20, 128), (3600, 40, 256)]
     (put D1_SLOW_RATE_DOS SC_DEVICE [(10, 8, 50), (60, 8, 50), (3600, 8, 50)]
     (put D1_BRUTE_FORCE SC_DEVICE [(10, 10, 30), (60, 20, 60), (3600, 60, 300)]
     (put D1_FAILED_HANDSHAKE SC_DEVICE [(10, 6/10, 95/100), (60, 5/10, 9/10), (3600, 5/10, 9/10)]
     (put D1_HORIZONTAL_SCAN SC_DEVICE [(10, 20, 64), (60, 40, 128), (3600, 100, 512)]
     (put D1_VERTICAL_SCAN SC_DEVICE [(10, 15, 50), (60, 25, 100), (3600, 60, 300)] []))))))))))"

subsection \<open>Entries and files\<close>

record threshold_entry =
  te_name :: string
  te_value :: real
  te_floor :: real
  te_ceiling :: real
  te_benign_p999 :: "real option"
  te_margin :: "real option"
  te_samples :: int

definition check_clamped :: "threshold_entry \<Rightarrow> bool" where
  "check_clamped e \<longleftrightarrow> \<not> te_floor e > te_ceiling e \<and> te_floor e \<le> te_value e \<and> te_value e \<le> te_ceiling e"

definition entry_fields_ok :: "threshold_entry \<Rightarrow> bool" where
  "entry_fields_ok e \<longleftrightarrow> te_name e \<noteq> [] \<and> 0 \<le> te_value e \<and> 0 \<le> te_floor e \<and> 0 \<le> te_ceiling e
     \<and> (case te_benign_p999 e of None \<Rightarrow> True | Some p \<Rightarrow> 0 \<le> p)
     \<and> (case te_margin e of None \<Rightarrow> True | Some m \<Rightarrow> 0 < m) \<and> 0 \<le> te_samples e"

definition new_threshold_entry :: "threshold_entry \<Rightarrow> threshold_entry option" where
  "new_threshold_entry e = (if entry_fields_ok e \<and> check_clamped e then Some e else None)"

definition THRESHOLD_FILE_VERSION :: int where
  "THRESHOLD_FILE_VERSION = 1"

datatype provenance_value = PV_Str string | PV_Int int | PV_Float real | PV_Bool bool | PV_List "string list"

record d1_threshold_file =
  tf_version :: int
  tf_frozen :: bool
  tf_sha256 :: string
  tf_provenance :: "(string, provenance_value) odict"
  tf_thresholds :: "(string, threshold_entry) odict"

definition entries_sha256 :: "(threshold_entry list \<Rightarrow> string) \<Rightarrow> threshold_entry list \<Rightarrow> string" where
  "entries_sha256 digest entries = digest (sort_key te_name entries)"

definition check_hash :: "(threshold_entry list \<Rightarrow> string) \<Rightarrow> d1_threshold_file \<Rightarrow> bool" where
  "check_hash digest f \<longleftrightarrow> tf_version f = THRESHOLD_FILE_VERSION
     \<and> list_all (\<lambda>(name, e). te_name e = name \<and> parse_key name \<noteq> None) (tf_thresholds f)
     \<and> tf_sha256 f = entries_sha256 digest (map snd (tf_thresholds f))"

definition new_threshold_file :: "(threshold_entry list \<Rightarrow> string) \<Rightarrow> d1_threshold_file \<Rightarrow> d1_threshold_file option" where
  "new_threshold_file digest f = (if length (tf_sha256 f) = 64 \<and> check_hash digest f then Some f else None)"

definition threshold_value :: "d1_threshold_file \<Rightarrow> threshold_key \<Rightarrow> real option" where
  "threshold_value f k = map_option te_value (map_of (tf_thresholds f) (show_key k))"

text \<open>The dictionary \<open>{entry.name: entry for entry in entries}\<close>.\<close>

definition by_name :: "threshold_entry list \<Rightarrow> (string, threshold_entry) odict" where
  "by_name entries = fold (\<lambda>e d. AList.update (te_name e) e d) entries []"

definition assemble :: "(threshold_entry list \<Rightarrow> string) \<Rightarrow> threshold_entry list \<Rightarrow> bool \<Rightarrow>
    (string, provenance_value) odict \<Rightarrow> d1_threshold_file option" where
  "assemble digest entries frozen provenance =
     new_threshold_file digest \<lparr>tf_version = THRESHOLD_FILE_VERSION, tf_frozen = frozen,
       tf_sha256 = entries_sha256 digest entries, tf_provenance = provenance,
       tf_thresholds = by_name entries\<rparr>"

definition assemble_thresholds :: "(threshold_entry list \<Rightarrow> string) \<Rightarrow> threshold_entry list \<Rightarrow> bool \<Rightarrow>
    (string, provenance_value) odict \<Rightarrow> d1_threshold_file option" where
  "assemble_thresholds digest entries frozen provenance = assemble digest entries frozen provenance"

text \<open>The rows of the priors in the order of their keys: the dataclass compares field by field, the
  detector as the string it is.\<close>

definition key_order :: "threshold_key \<Rightarrow> string \<times> string \<times> int" where
  "key_order k = (d1_detector_value (tk_detector k), scope_value (tk_scope k), tk_window_seconds k)"

definition sorted_priors :: "(threshold_key, prior) odict" where
  "sorted_priors = sort_key (key_order \<circ> fst) DEFAULT_PRIORS"

definition floor_entry :: "threshold_key \<Rightarrow> prior \<Rightarrow> threshold_entry" where
  "floor_entry k p = \<lparr>te_name = show_key k, te_value = pr_floor p, te_floor = pr_floor p,
     te_ceiling = pr_ceiling p, te_benign_p999 = None, te_margin = None, te_samples = 0\<rparr>"

text \<open>A list of constructor calls: the first that raises ends it.\<close>

fun new_entries :: "threshold_entry list \<Rightarrow> threshold_entry list option" where
  "new_entries [] = Some []"
| "new_entries (e # es) =
     (case new_threshold_entry e of
        None \<Rightarrow> None
      | Some e' \<Rightarrow> map_option ((#) e') (new_entries es))"

definition floors_file :: "(threshold_entry list \<Rightarrow> string) \<Rightarrow> int list \<Rightarrow> (string, provenance_value) odict \<Rightarrow>
    d1_threshold_file option" where
  "floors_file digest windows provenance =
     Option.bind
       (new_entries (map (\<lambda>(k, p). floor_entry k p)
          (filter (\<lambda>(k, p). tk_window_seconds k \<in> set windows) sorted_priors)))
       (\<lambda>entries. assemble digest entries False
          (fold (\<lambda>(n, v) d. AList.update n v d) provenance [(''source'', PV_Str ''floors'')]))"

subsection \<open>Quantiles\<close>

text \<open>Indexing a list as Python does: a negative index counts from the end, out of range raises.\<close>

definition py_index :: "'a list \<Rightarrow> int \<Rightarrow> 'a option" where
  "py_index xs i =
     (if 0 \<le> i \<and> i < int (length xs) then Some (xs ! nat i)
      else if - int (length xs) \<le> i \<and> i < 0 then Some (xs ! nat (int (length xs) + i))
      else None)"

definition percentile :: "real list \<Rightarrow> real \<Rightarrow> real option" where
  "percentile values q =
     (if values = [] then Some 0
      else
        let ordered = sort values;
            position = q * real (length ordered - 1);
            low = \<lfloor>position\<rfloor>;
            high = \<lceil>position\<rceil>
        in if low = high then py_index ordered low
           else (case (py_index ordered low, py_index ordered high) of
                   (Some l, Some h) \<Rightarrow> Some (l + (h - l) * (position - of_int low))
                 | _ \<Rightarrow> None))"

definition threshold_from_benign :: "real list \<Rightarrow> real \<Rightarrow> prior \<Rightarrow> (real \<times> real) option" where
  "threshold_from_benign values margin p =
     map_option (\<lambda>p999. (min (max (p999 * margin) (pr_floor p)) (pr_ceiling p), p999))
       (percentile values (999/1000))"

subsection \<open>Loading\<close>

text \<open>The document a thresholds file denotes: the table \<open>[[threshold]]\<close> as entries whose name may be
  missing, and the file's own keys, each of which may be missing.\<close>

record threshold_document =
  td_version :: "int option"
  td_frozen :: "bool option"
  td_sha256 :: "string option"
  td_provenance :: "(string, provenance_value) odict option"
  td_threshold :: "(string option \<times> threshold_entry) list option"

datatype load_error = LE_NOT_FOUND | LE_UNREADABLE | LE_INVALID

datatype read_outcome = RO_NOT_FOUND | RO_UNREADABLE | RO_DOCUMENT threshold_document

fun valid_items :: "(string, string option \<times> threshold_entry) odict \<Rightarrow> (string, threshold_entry) odict option" where
  "valid_items [] = Some []"
| "valid_items ((key, (name, e)) # items) =
     (case name of
        None \<Rightarrow> None
      | Some n \<Rightarrow>
          (case new_threshold_entry (e\<lparr>te_name := n\<rparr>) of
             None \<Rightarrow> None
           | Some e' \<Rightarrow> map_option ((#) (key, e')) (valid_items items)))"

definition load_thresholds :: "(threshold_entry list \<Rightarrow> string) \<Rightarrow> read_outcome \<Rightarrow> load_error + d1_threshold_file" where
  "load_thresholds digest read =
     (case read of
        RO_NOT_FOUND \<Rightarrow> Inl LE_NOT_FOUND
      | RO_UNREADABLE \<Rightarrow> Inl LE_UNREADABLE
      | RO_DOCUMENT raw \<Rightarrow>
          (let entries = (case td_threshold raw of None \<Rightarrow> [] | Some es \<Rightarrow> es);
               items = fold (\<lambda>(name, e) d. AList.update (case name of None \<Rightarrow> ''None'' | Some n \<Rightarrow> n) (name, e) d) entries []
           in case (td_sha256 raw, valid_items items) of
                (Some sha, Some thresholds) \<Rightarrow>
                  (case new_threshold_file digest
                     \<lparr>tf_version = (case td_version raw of None \<Rightarrow> THRESHOLD_FILE_VERSION | Some v \<Rightarrow> v),
                      tf_frozen = (case td_frozen raw of None \<Rightarrow> False | Some b \<Rightarrow> b),
                      tf_sha256 = sha,
                      tf_provenance = (case td_provenance raw of None \<Rightarrow> [] | Some p \<Rightarrow> p),
                      tf_thresholds = thresholds\<rparr> of
                     None \<Rightarrow> Inl LE_INVALID
                   | Some f \<Rightarrow> Inr f)
              | _ \<Rightarrow> Inl LE_INVALID))"

subsection \<open>Names read back\<close>

lemma length_digits_le: "0 < k \<Longrightarrow> n < 10 ^ k \<Longrightarrow> length (digits n) \<le> k"
proof (induction n arbitrary: k rule: digits.induct)
  case (1 n)
  show ?case
  proof (cases "n < 10")
    case True
    then show ?thesis using 1 by (subst digits.simps) (simp add: Suc_le_eq)
  next
    case False
    then have "k \<noteq> 1" using 1 by auto
    then obtain j where j: "k = Suc j" "0 < j" using 1 by (cases k) auto
    then have "n div 10 < 10 ^ j" using 1 by (simp add: less_mult_imp_div_less mult.commute)
    then have "length (digits (n div 10)) \<le> j" using 1 False j by blast
    then show ?thesis using False j by (subst digits.simps) simp
  qed
qed

lemma not_in_digits: "\<not> is_digit c \<Longrightarrow> c \<notin> set (digits n)"
  using digits_all [of n] by (auto simp: list_all_iff)

lemma strip_no_space: "\<forall>c \<in> set s. \<not> is_space c \<Longrightarrow> strip s = s"
proof -
  assume *: "\<forall>c \<in> set s. \<not> is_space c"
  then have "dropWhile is_space s = s" "dropWhile is_space (rev s) = rev s"
    using hd_in_set [of s] last_in_set [of s] by (auto simp: dropWhile_eq_self_iff hd_rev)
  then show ?thesis by (simp add: strip_def)
qed

lemma digit_not_space: "is_digit c \<Longrightarrow> \<not> is_space c"
  by (auto simp: is_digit_def is_space_def less_eq_char_def)

lemma strip_show_int: "strip (show_int i) = show_int i"
proof (rule strip_no_space, rule ballI)
  fix c assume "c \<in> set (show_int i)"
  then have "is_digit c \<or> c = CHR ''-''"
    using digits_all by (auto simp: show_int_def list_all_iff split: if_splits)
  then show "\<not> is_space c" using digit_not_space by (auto simp: is_space_def)
qed

lemma py_digits_digits:
  "length (digits n) \<le> MAX_STR_DIGITS \<Longrightarrow> py_digits (digits n) = Some n"
proof -
  have "split_on (CHR ''_'') (digits n) = [digits n]"
    by (rule split_on_plain) (simp add: not_in_digits is_digit_def less_eq_char_def)
  then show "length (digits n) \<le> MAX_STR_DIGITS \<Longrightarrow> py_digits (digits n) = Some n"
    by (simp add: py_digits_def digits_all decimal_digits)
qed

lemma max_str_digits: "4 \<le> MAX_STR_DIGITS"
  by (simp add: MAX_STR_DIGITS_def)

lemma max_str_digits_pos: "0 < MAX_STR_DIGITS"
  by (simp add: MAX_STR_DIGITS_def)

lemma py_int_show_int:
  assumes "\<bar>i\<bar> < 10 ^ MAX_STR_DIGITS"
  shows "py_int (show_int i) = Some i"
proof -
  have "nat \<bar>i\<bar> < 10 ^ MAX_STR_DIGITS" using assms by (simp add: nat_less_iff)
  then have len: "length (digits (nat \<bar>i\<bar>)) \<le> MAX_STR_DIGITS"
    using length_digits_le [OF max_str_digits_pos] by blast
  show ?thesis
  proof (cases "i < 0")
    case True
    then show ?thesis
      using py_digits_digits [OF len] unfolding py_int_def strip_show_int
      by (simp add: show_int_def)
  next
    case False
    obtain c r where cr: "digits (nat i) = c # r" by (cases "digits (nat i)") auto
    have "is_digit c" using digits_all [of "nat i"] cr by simp
    then have "c \<noteq> CHR ''-''" "c \<noteq> CHR ''+''" by (auto simp: is_digit_def less_eq_char_def)
    then show ?thesis
      using py_digits_digits [OF len] False cr unfolding py_int_def strip_show_int
      by (simp add: show_int_def)
  qed
qed

lemma d1_detector_of_value [simp]: "d1_detector_of (d1_detector_value d) = Some d"
  by (cases d) (simp_all add: d1_detector_of_def D1_DETECTORS_def)

lemma scope_of_value [simp]: "scope_of (scope_value s) = Some s"
  by (cases s) (simp_all add: scope_of_def)

lemma no_slash_show_int: "CHR ''/'' \<notin> set (show_int i)"
  by (simp add: show_int_def not_in_digits is_digit_def less_eq_char_def)

lemma split_show_key:
  "split_on (CHR ''/'') (show_key k) =
     [d1_detector_value (tk_detector k), scope_value (tk_scope k), show_int (tk_window_seconds k)]"
proof -
  have "CHR ''/'' \<notin> set (d1_detector_value (tk_detector k))" by (cases "tk_detector k") simp_all
  moreover have "CHR ''/'' \<notin> set (scope_value (tk_scope k))" by (cases "tk_scope k") simp_all
  ultimately show ?thesis
    unfolding show_key_def by (intro split_on_join) (auto simp: no_slash_show_int)
qed

text \<open>
  Reading a threshold's name back gives the key it was printed from: \<open>str(key)\<close> and \<open>_parse_key\<close>
  are inverse for every detector, every scope and every window whose decimal form Python can convert
  (fewer than 4300 digits, negative windows included).
\<close>

theorem threshold_name_roundtrip:
  assumes "\<bar>tk_window_seconds k\<bar> < 10 ^ MAX_STR_DIGITS"
  shows "parse_key (show_key k) = Some k"
  using py_int_show_int [OF assms] by (simp add: parse_key_def split_show_key)

lemma digits_small: "\<bar>i\<bar> < 10 ^ 4 \<Longrightarrow> \<bar>i :: int\<bar> < 10 ^ MAX_STR_DIGITS"
  using power_increasing [OF max_str_digits, of "10 :: int"] by linarith

theorem threshold_name_roundtrip_witness:
  "parse_key (show_key (threshold_key D1_FAN_IN SC_DESTINATION 3600)) = Some (threshold_key D1_FAN_IN SC_DESTINATION 3600)"
  by (rule threshold_name_roundtrip, rule digits_small) simp

text \<open>Other spellings of a window are accepted too, but no key prints as one of them.\<close>

lemma accepted_name_not_canonical:
  "parse_key ''fan_in/global/+6_0'' = Some (threshold_key D1_FAN_IN SC_GLOBAL 60)
   \<and> show_key (threshold_key D1_FAN_IN SC_GLOBAL 60) = ''fan_in/global/60''"
  by code_simp

lemma show_int_inject [simp]: "show_int i = show_int j \<longleftrightarrow> i = j"
proof
  assume eq: "show_int i = show_int j"
  have neg: "hd (show_int i) = CHR ''-'' \<longleftrightarrow> i < 0" for i
  proof (cases "i < 0")
    case False
    have "hd (digits (nat i)) \<in> set (digits (nat i))" by simp
    moreover have "CHR ''-'' \<notin> set (digits (nat i))"
      by (simp add: not_in_digits is_digit_def less_eq_char_def)
    ultimately have "hd (digits (nat i)) \<noteq> CHR ''-''" by metis
    then show ?thesis using False by (simp add: show_int_def)
  qed (simp add: show_int_def)
  then have same: "i < 0 \<longleftrightarrow> j < 0" using eq by metis
  then have "decimal (digits (nat \<bar>i\<bar>)) = decimal (digits (nat \<bar>j\<bar>))"
    using eq by (auto simp: show_int_def split: if_splits)
  then show "i = j" using same by (auto simp: decimal_digits abs_if split: if_splits)
qed simp

lemma show_key_inject [simp]: "show_key k = show_key k' \<longleftrightarrow> k = k'"
proof
  assume "show_key k = show_key k'"
  then have "[d1_detector_value (tk_detector k), scope_value (tk_scope k), show_int (tk_window_seconds k)] =
      [d1_detector_value (tk_detector k'), scope_value (tk_scope k'), show_int (tk_window_seconds k')]"
    by (metis split_show_key)
  then show "k = k'"
    by (metis d1_detector_of_value scope_of_value show_int_inject list.inject option.inject threshold_key.equality unit.exhaust)
qed simp

subsection \<open>Quantiles and clamping\<close>

lemma py_index_nat: "i < length xs \<Longrightarrow> py_index xs (int i) = Some (xs ! i)"
  by (simp add: py_index_def)

lemma length_filter_sort: "length (filter P (sort xs)) = length (filter P xs)"
  by (simp add: filter_sort)

lemma count_le_nth:
  assumes "sorted xs" "i < length xs" "xs ! i \<le> p"
  shows "Suc i \<le> length (filter (\<lambda>v. v \<le> p) xs)"
proof -
  have "v \<le> p" if v: "v \<in> set (take (Suc i) xs)" for v
  proof -
    obtain j where "j \<le> i" "v = xs ! j" using v by (auto simp: in_set_conv_nth less_Suc_eq_le)
    then have "v \<le> xs ! i" using assms by (simp add: sorted_nth_mono)
    then show ?thesis using assms by simp
  qed
  then have "filter (\<lambda>v. v \<le> p) (take (Suc i) xs) = take (Suc i) xs" by (simp add: filter_id_conv)
  then have "Suc i \<le> length (filter (\<lambda>v. v \<le> p) (take (Suc i) xs))" using assms by simp
  also have "\<dots> \<le> length (filter (\<lambda>v. v \<le> p) (take (Suc i) xs @ drop (Suc i) xs))"
    by (simp only: filter_append length_append)
  finally show ?thesis by simp
qed

lemma count_ge_nth:
  assumes "sorted xs" "i < length xs" "p \<le> xs ! i"
  shows "length xs - i \<le> length (filter (\<lambda>v. p \<le> v) xs)"
proof -
  have "p \<le> v" if v: "v \<in> set (drop i xs)" for v
  proof -
    obtain j where "j < length xs - i" "v = xs ! (i + j)" using v by (auto simp: in_set_conv_nth)
    then have "xs ! i \<le> v" using assms by (simp add: sorted_nth_mono)
    then show ?thesis using assms by simp
  qed
  then have "filter (\<lambda>v. p \<le> v) (drop i xs) = drop i xs" by (simp add: filter_id_conv)
  then have "length xs - i \<le> length (filter (\<lambda>v. p \<le> v) (drop i xs))" by simp
  also have "\<dots> \<le> length (filter (\<lambda>v. p \<le> v) (take i xs @ drop i xs))"
    by (simp only: filter_append length_append)
  finally show ?thesis by simp
qed

text \<open>The value lies between two neighbours of the sorted list, around the position asked for.\<close>

lemma percentile_between:
  assumes "values \<noteq> []" "0 \<le> q" "q \<le> 1"
  obtains p lo hi where "percentile values q = Some p" "lo \<le> hi" "hi < length values"
    "sort values ! lo \<le> p" "p \<le> sort values ! hi"
    "q * real (length values - 1) < real lo + 1" "real hi - 1 < q * real (length values - 1)"
proof -
  let ?xs = "sort values" and ?pos = "q * real (length values - 1)"
  have pos: "0 \<le> ?pos" "?pos \<le> real (length values - 1)"
    using assms by (simp_all add: mult_left_le_one_le)
  define lo hi where "lo = nat \<lfloor>?pos\<rfloor>" and "hi = nat \<lceil>?pos\<rceil>"
  have int: "int lo = \<lfloor>?pos\<rfloor>" "int hi = \<lceil>?pos\<rceil>" using pos(1) by (simp_all add: lo_def hi_def)
  have "\<lceil>?pos\<rceil> \<le> int (length values - 1)" using pos(2) by (simp add: ceiling_le_iff)
  then have hi: "hi < length values" using int assms(1) by (cases "values") auto
  have le: "lo \<le> hi" using int by (metis floor_le_ceiling of_nat_le_iff)
  have index: "py_index ?xs \<lfloor>?pos\<rfloor> = Some (?xs ! lo)" "py_index ?xs \<lceil>?pos\<rceil> = Some (?xs ! hi)"
    using hi le py_index_nat [of lo ?xs] py_index_nat [of hi ?xs] int by simp_all
  have mono: "?xs ! lo \<le> ?xs ! hi" using le hi by (simp add: sorted_nth_mono)
  let ?f = "?pos - of_int \<lfloor>?pos\<rfloor>"
  define p where "p = (if \<lfloor>?pos\<rfloor> = \<lceil>?pos\<rceil> then ?xs ! lo else ?xs ! lo + (?xs ! hi - ?xs ! lo) * ?f)"
  have f: "0 \<le> ?f" "?f \<le> 1" by linarith+
  then have "(?xs ! hi - ?xs ! lo) * ?f \<le> ?xs ! hi - ?xs ! lo" "0 \<le> (?xs ! hi - ?xs ! lo) * ?f"
    using mono by (simp_all add: mult_left_le)
  then have p: "?xs ! lo \<le> p" "p \<le> ?xs ! hi" using mono by (auto simp: p_def)
  have val: "percentile values q = Some p"
    using assms(1) index int by (auto simp: percentile_def p_def Let_def)
  have "?pos < real lo + 1" using int by (metis floor_less_iff less_add_one of_int_of_nat_eq of_int_1 of_int_add)
  moreover have "real hi - 1 < ?pos" using int by (metis ceiling_correct of_int_of_nat_eq)
  ultimately show thesis using that [OF val le hi p] by simp
qed

text \<open>
  The quantile of a non-empty sample is a quantile. For every \<open>q\<close> between 0 and 1 \<open>percentile\<close>
  returns a value within the sample's range, more than \<open>q (n - 1)\<close> of the \<open>n\<close> samples are at most that
  value and more than \<open>(1 - q) (n - 1)\<close> of them at least it.
\<close>

theorem percentile_is_quantile:
  assumes "values \<noteq> []" "0 \<le> q" "q \<le> 1"
  shows "\<exists>p. percentile values q = Some p \<and> Min (set values) \<le> p \<and> p \<le> Max (set values)
    \<and> q * real (length values - 1) < real (length (filter (\<lambda>v. v \<le> p) values))
    \<and> (1 - q) * real (length values - 1) < real (length (filter (\<lambda>v. p \<le> v) values))"
proof -
  obtain p lo hi where p: "percentile values q = Some p" "lo \<le> hi" "hi < length values"
      "sort values ! lo \<le> p" "p \<le> sort values ! hi"
      "q * real (length values - 1) < real lo + 1" "real hi - 1 < q * real (length values - 1)"
    using percentile_between [OF assms] by blast
  have "sort values ! lo \<in> set values" "sort values ! hi \<in> set values"
    using p nth_mem [of lo "sort values"] nth_mem [of hi "sort values"] by simp_all
  then have "Min (set values) \<le> p" "p \<le> Max (set values)"
    using p(4,5) by (meson List.finite_set Min_le Max_ge order_trans)+
  moreover have "Suc lo \<le> length (filter (\<lambda>v. v \<le> p) values)"
    using count_le_nth [of "sort values" lo p] p by (simp add: length_filter_sort)
  moreover have "length values - hi \<le> length (filter (\<lambda>v. p \<le> v) values)"
    using count_ge_nth [of "sort values" hi p] p by (simp add: length_filter_sort)
  moreover have "(1 - q) * real (length values - 1) = real (length values) - 1 - q * real (length values - 1)"
    using p(3) by (simp add: algebra_simps of_nat_diff)
  ultimately show ?thesis using p by (intro exI [of _ p]) auto
qed

theorem percentile_is_quantile_witness:
  "\<exists>p. percentile [5, 1, 4, 2, 3] (1/2) = Some p \<and> Min (set [5, 1, 4, 2, 3]) \<le> p \<and> p \<le> Max (set [5, 1, 4, 2, 3])
    \<and> 1/2 * real (length [5 :: real, 1, 4, 2, 3] - 1) < real (length (filter (\<lambda>v. v \<le> p) [5, 1, 4, 2, 3]))
    \<and> (1 - 1/2) * real (length [5 :: real, 1, 4, 2, 3] - 1) < real (length (filter (\<lambda>v. p \<le> v) [5, 1, 4, 2, 3]))"
  by (rule percentile_is_quantile) simp_all

lemma threshold_from_benign_clamped:
  assumes "pr_floor p \<le> pr_ceiling p"
  obtains t p999 where "threshold_from_benign values margin p = Some (t, p999)"
    "pr_floor p \<le> t" "t \<le> pr_ceiling p" "t = min (max (p999 * margin) (pr_floor p)) (pr_ceiling p)"
    "(\<forall>v \<in> set values. 0 \<le> v) \<Longrightarrow> 0 \<le> p999"
proof -
  obtain p999 where p999: "percentile values (999/1000) = Some p999" "(\<forall>v \<in> set values. 0 \<le> v) \<longrightarrow> 0 \<le> p999"
  proof (cases "values = []")
    case True
    then show ?thesis using that [of 0] by (simp add: percentile_def)
  next
    case False
    then obtain x lo hi where x: "percentile values (999/1000) = Some x" "lo \<le> hi" "hi < length values"
        "sort values ! lo \<le> x"
      by (rule percentile_between [of "values" "999/1000"]) simp_all
    then have "sort values ! lo \<in> set values" using nth_mem [of lo "sort values"] by simp
    then show ?thesis using that [of x] x by force
  qed
  show thesis
    by (rule that [of "min (max (p999 * margin) (pr_floor p)) (pr_ceiling p)" p999])
      (use assms p999 in \<open>auto simp: threshold_from_benign_def\<close>)
qed

subsection \<open>Files\<close>

lemma od_update_new: "k \<notin> fst ` set d \<Longrightarrow> AList.update k v d = d @ [(k, v)]"
  by (induction d) auto

lemma fold_by_name_append:
  "distinct (map te_name es) \<Longrightarrow> \<forall>e \<in> set es. te_name e \<notin> fst ` set d \<Longrightarrow>
    fold (\<lambda>e d. AList.update (te_name e) e d) es d = d @ map (\<lambda>e. (te_name e, e)) es"
proof (induction es arbitrary: d)
  case (Cons e es)
  have "AList.update (te_name e) e d = d @ [(te_name e, e)]"
    using Cons.prems(2) by (intro od_update_new) simp
  then show ?case using Cons.prems Cons.IH [of "d @ [(te_name e, e)]"] by (force simp: image_iff)
qed simp

lemma by_name_distinct: "distinct (map te_name es) \<Longrightarrow> by_name es = map (\<lambda>e. (te_name e, e)) es"
  by (simp add: by_name_def fold_by_name_append)

lemma sort_key_names: "entries_sha256 digest (map snd (map (\<lambda>e. (te_name e, e)) es)) = entries_sha256 digest es"
  by (simp add: comp_def)

text \<open>Files assembled from entries with different, well-formed names are accepted.\<close>

lemma assemble_distinct:
  assumes "distinct (map te_name es)" "\<forall>e \<in> set es. parse_key (te_name e) \<noteq> None" "\<And>xs. length (digest xs) = 64"
  shows "assemble digest es frozen prov = Some \<lparr>tf_version = THRESHOLD_FILE_VERSION, tf_frozen = frozen,
    tf_sha256 = entries_sha256 digest es, tf_provenance = prov, tf_thresholds = map (\<lambda>e. (te_name e, e)) es\<rparr>"
  using assms
  by (simp add: assemble_def new_threshold_file_def check_hash_def by_name_distinct list_all_iff
      sort_key_names entries_sha256_def comp_def)

lemma threshold_value_keyed:
  assumes "distinct (map te_name es)" "e \<in> set es" "te_name e = show_key k"
  shows "threshold_value (f\<lparr>tf_thresholds := map (\<lambda>e. (te_name e, e)) es\<rparr>) k = Some (te_value e)"
proof -
  have "map_of (map (\<lambda>e. (te_name e, e)) es) (te_name e) = Some e"
    using assms(1,2) by (intro map_of_is_SomeI) (auto simp: comp_def)
  then show ?thesis using assms(3) by (simp add: threshold_value_def)
qed

lemma new_entries_Some: "\<forall>e \<in> set es. entry_fields_ok e \<and> check_clamped e \<Longrightarrow> new_entries es = Some es"
  by (induction es) (auto simp: new_threshold_entry_def)

subsection \<open>The priors\<close>

text \<open>What every row of the priors satisfies: a window of at most an hour, a floor that is not negative
  and not above the ceiling; and no key has two rows.\<close>

definition prior_ok :: "threshold_key \<times> prior \<Rightarrow> bool" where
  "prior_ok r \<longleftrightarrow> tk_window_seconds (fst r) \<in> {10, 60, 3600} \<and> 0 \<le> pr_floor (snd r) \<and> pr_floor (snd r) \<le> pr_ceiling (snd r)"

lemma put_ok: "list_all prior_ok t \<Longrightarrow> list_all (\<lambda>(w, lo, hi). w \<in> {10, 60, 3600} \<and> 0 \<le> lo \<and> lo \<le> hi) rows \<Longrightarrow>
    list_all prior_ok (put d s rows t)"
proof (induction rows arbitrary: t)
  case (Cons r rows)
  obtain w lo hi where r: "r = (w, lo, hi)" by (cases r) auto
  have "list_all prior_ok (AList.update (threshold_key d s w) \<lparr>pr_floor = lo, pr_ceiling = hi\<rparr> t)"
    using Cons.prems r by (induction t) (auto simp: prior_ok_def)
  then show ?case using Cons r by (simp add: put_def)
qed (simp add: put_def)

lemma put_distinct: "od_distinct t \<Longrightarrow> od_distinct (put d s rows t)"
  by (induction rows arbitrary: t) (auto simp: put_def)

lemma priors_ok: "list_all prior_ok DEFAULT_PRIORS"
  unfolding DEFAULT_PRIORS_def by (intro put_ok) simp_all

lemma priors_distinct: "od_distinct DEFAULT_PRIORS"
  unfolding DEFAULT_PRIORS_def by (intro put_distinct) simp

lemma sorted_priors_set: "set sorted_priors = set DEFAULT_PRIORS"
  by (simp add: sorted_priors_def)

lemma sorted_priors_distinct: "od_distinct sorted_priors"
  using priors_distinct by (simp add: sorted_priors_def distinct_map)

lemma parse_key_small: "\<bar>tk_window_seconds k\<bar> < 10 ^ 4 \<Longrightarrow> parse_key (show_key k) = Some k"
  using py_int_show_int [OF digits_small, of "tk_window_seconds k"]
  by (simp add: parse_key_def split_show_key)

lemma prior_name_parses: "prior_ok (k, p) \<Longrightarrow> parse_key (show_key k) = Some k"
  by (rule parse_key_small) (auto simp: prior_ok_def)

text \<open>A family of entries, one per prior of the enabled windows, each named after its key and within
  its prior's band: what both constructors of files build.\<close>

definition banded :: "(threshold_key \<times> prior \<Rightarrow> threshold_entry) \<Rightarrow> bool" where
  "banded entry \<longleftrightarrow> (\<forall>r \<in> set DEFAULT_PRIORS. te_name (entry r) = show_key (fst r)
     \<and> te_floor (entry r) = pr_floor (snd r) \<and> te_ceiling (entry r) = pr_ceiling (snd r)
     \<and> entry_fields_ok (entry r) \<and> check_clamped (entry r))"

abbreviation enabled_priors :: "int list \<Rightarrow> (threshold_key, prior) odict" where
  "enabled_priors windows \<equiv> filter (\<lambda>(k, p). tk_window_seconds k \<in> set windows) sorted_priors"

lemma banded_file:
  assumes "banded entry" "\<And>xs. length (digest xs) = 64"
  obtains f where
    "Option.bind (new_entries (map entry (enabled_priors windows)))
       (\<lambda>entries. assemble digest entries frozen prov) = Some f"
    "tf_frozen f = frozen" "check_hash digest f"
    "\<forall>e \<in> snd ` set (tf_thresholds f). entry_fields_ok e \<and> check_clamped e"
    "\<And>k p. (k, p) \<in> set DEFAULT_PRIORS \<Longrightarrow> tk_window_seconds k \<in> set windows \<Longrightarrow>
      threshold_value f k = Some (te_value (entry (k, p)))"
proof -
  let ?es = "map entry (enabled_priors windows)"
  have sub: "r \<in> set DEFAULT_PRIORS" if "r \<in> set (enabled_priors windows)" for r
    using that by (simp add: sorted_priors_set)
  have new: "new_entries ?es = Some ?es"
    by (rule new_entries_Some) (use assms(1) sub in \<open>auto simp: banded_def\<close>)
  have names: "map te_name ?es = map (show_key \<circ> fst) (enabled_priors windows)"
    using assms(1) sub by (simp add: banded_def)
  have "distinct (map fst (enabled_priors windows))"
    using sorted_priors_distinct by (simp add: distinct_map_filter)
  then have dist: "distinct (map te_name ?es)"
    unfolding names map_map [symmetric] by (subst distinct_map) (auto intro: inj_onI)
  have parse: "\<forall>e \<in> set ?es. parse_key (te_name e) \<noteq> None"
  proof
    fix e assume "e \<in> set ?es"
    then obtain k p where "e = entry (k, p)" "(k, p) \<in> set DEFAULT_PRIORS" using sub by fastforce
    then show "parse_key (te_name e) \<noteq> None"
      using assms(1) priors_ok prior_name_parses by (auto simp: banded_def list_all_iff)
  qed
  define f where "f = \<lparr>tf_version = THRESHOLD_FILE_VERSION, tf_frozen = frozen,
    tf_sha256 = entries_sha256 digest ?es, tf_provenance = prov, tf_thresholds = map (\<lambda>e. (te_name e, e)) ?es\<rparr>"
  have asm: "assemble digest ?es frozen prov = Some f"
    unfolding f_def by (rule assemble_distinct [OF dist parse assms(2)])
  show thesis
  proof (rule that)
    show "Option.bind (new_entries ?es) (\<lambda>entries. assemble digest entries frozen prov) = Some f"
      using asm by (simp add: new)
    show "tf_frozen f = frozen" by (simp add: f_def)
    show "check_hash digest f"
      using asm by (auto simp: assemble_def new_threshold_file_def split: if_splits)
    show "\<forall>e \<in> snd ` set (tf_thresholds f). entry_fields_ok e \<and> check_clamped e"
      using assms(1) sub by (auto simp: f_def banded_def)
    fix k p assume k: "(k, p) \<in> set DEFAULT_PRIORS" "tk_window_seconds k \<in> set windows"
    then have "entry (k, p) \<in> set ?es" by (force simp: sorted_priors_set)
    moreover have "te_name (entry (k, p)) = show_key k" using assms(1) k by (auto simp: banded_def)
    moreover have "f = f\<lparr>tf_thresholds := map (\<lambda>e. (te_name e, e)) ?es\<rparr>" by (simp add: f_def)
    ultimately show "threshold_value f k = Some (te_value (entry (k, p)))"
      using threshold_value_keyed [OF dist, of "entry (k, p)" k f] by simp
  qed
qed

lemma prior_ok_member: "(k, p) \<in> set DEFAULT_PRIORS \<Longrightarrow> prior_ok (k, p)"
  using priors_ok by (simp add: list_all_iff)

lemma show_key_nonempty: "show_key k \<noteq> []"
  by (cases "tk_detector k") (simp_all add: show_key_def)

lemma floor_entry_banded: "banded (\<lambda>(k, p). floor_entry k p)"
proof -
  have "te_name (floor_entry k p) = show_key k \<and> te_floor (floor_entry k p) = pr_floor p
      \<and> te_ceiling (floor_entry k p) = pr_ceiling p \<and> entry_fields_ok (floor_entry k p) \<and> check_clamped (floor_entry k p)"
    if "(k, p) \<in> set DEFAULT_PRIORS" for k p
    using prior_ok_member [OF that]
    by (simp add: floor_entry_def entry_fields_ok_def check_clamped_def prior_ok_def show_key_nonempty)
  then show ?thesis by (auto simp: banded_def)
qed

lemma floors_file_exists:
  assumes "\<And>xs. length (digest xs) = 64"
  obtains f where "floors_file digest windows prov = Some f" "\<not> tf_frozen f" "check_hash digest f"
    "\<And>k p. (k, p) \<in> set DEFAULT_PRIORS \<Longrightarrow> tk_window_seconds k \<in> set windows \<Longrightarrow>
      threshold_value f k = Some (te_value (floor_entry k p))"
proof -
  let ?prov = "fold (\<lambda>(n, v) d. AList.update n v d) prov [(''source'', PV_Str ''floors'')]"
  show thesis
  proof (rule banded_file [OF floor_entry_banded, of digest windows False ?prov])
    show "length (digest xs) = 64" for xs by (rule assms)
    fix f
    assume "Option.bind (new_entries (map (\<lambda>(k, p). floor_entry k p) (enabled_priors windows)))
        (\<lambda>entries. assemble digest entries False ?prov) = Some f"
      and frozen: "tf_frozen f = False" and hash: "check_hash digest f"
      and "\<forall>e \<in> snd ` set (tf_thresholds f). entry_fields_ok e \<and> check_clamped e"
      and val: "\<And>k p. (k, p) \<in> set DEFAULT_PRIORS \<Longrightarrow> tk_window_seconds k \<in> set windows \<Longrightarrow>
        threshold_value f k = Some (te_value (case (k, p) of (k, p) \<Rightarrow> floor_entry k p))"
    then have "floors_file digest windows prov = Some f" by (simp only: floors_file_def)
    then show thesis
    proof (rule that)
      show "\<not> tf_frozen f" using frozen by simp
      show "check_hash digest f" by (rule hash)
      show "threshold_value f k = Some (te_value (floor_entry k p))"
        if "(k, p) \<in> set DEFAULT_PRIORS" "tk_window_seconds k \<in> set windows" for k p
        using val [OF that] by simp
    qed
  qed
qed

text \<open>
  The floors file is always a valid file. For every choice of windows and of provenance the
  constructor accepts what it builds, the file is not frozen, and every documented prior of an enabled
  window has a threshold equal to its floor.
\<close>

theorem floors_file_valid:
  assumes "\<And>xs. length (digest xs) = 64"
  shows "\<exists>f. floors_file digest windows prov = Some f \<and> \<not> tf_frozen f \<and> check_hash digest f
    \<and> (\<forall>(k, p) \<in> set DEFAULT_PRIORS. tk_window_seconds k \<in> set windows \<longrightarrow> threshold_value f k = Some (pr_floor p))"
proof -
  obtain f where "floors_file digest windows prov = Some f" "\<not> tf_frozen f" "check_hash digest f"
      "\<And>k p. (k, p) \<in> set DEFAULT_PRIORS \<Longrightarrow> tk_window_seconds k \<in> set windows \<Longrightarrow>
        threshold_value f k = Some (te_value (floor_entry k p))"
    using floors_file_exists [of digest windows prov] assms by blast
  then show ?thesis by (intro exI [of _ f]) (auto simp: floor_entry_def)
qed

theorem floors_file_valid_witness:
  "\<exists>f. floors_file (\<lambda>_. replicate 64 (CHR ''0'')) [10, 60] [] = Some f \<and> \<not> tf_frozen f
    \<and> check_hash (\<lambda>_. replicate 64 (CHR ''0'')) f
    \<and> (\<forall>(k, p) \<in> set DEFAULT_PRIORS. tk_window_seconds k \<in> set [10, 60] \<longrightarrow> threshold_value f k = Some (pr_floor p))"
  by (rule floors_file_valid) simp

subsection \<open>Written files read back\<close>

text \<open>The document that the text of \<open>dump_thresholds\<close> denotes: the file's own keys, the provenance in the
  order of its keys and one \<open>[[threshold]]\<close> table per entry in the order of the names, each with the
  fields that are not \<open>None\<close>.\<close>

definition dump_document :: "d1_threshold_file \<Rightarrow> threshold_document" where
  "dump_document f = \<lparr>td_version = Some (tf_version f), td_frozen = Some (tf_frozen f),
     td_sha256 = Some (tf_sha256 f), td_provenance = Some (sort_key fst (tf_provenance f)),
     td_threshold = Some (map (\<lambda>(name, e). (Some (te_name e), e)) (sort_key fst (tf_thresholds f)))\<rparr>"

text \<open>What a constructed file satisfies: its dictionary has distinct keys and valid entries, and its
  validator accepted it.\<close>

definition threshold_file_ok :: "(threshold_entry list \<Rightarrow> string) \<Rightarrow> d1_threshold_file \<Rightarrow> bool" where
  "threshold_file_ok digest f \<longleftrightarrow> od_distinct (tf_thresholds f) \<and> new_threshold_file digest f = Some f
     \<and> (\<forall>e \<in> snd ` set (tf_thresholds f). entry_fields_ok e \<and> check_clamped e)"

lemma fold_items_append:
  "od_distinct items \<Longrightarrow> \<forall>(n, e) \<in> set items. te_name e = n \<and> n \<notin> fst ` set d \<Longrightarrow>
    fold (\<lambda>(name, e) d. AList.update (case name of None \<Rightarrow> ''None'' | Some n \<Rightarrow> n) (name, e) d)
      (map (\<lambda>(n, e). (Some (te_name e), e)) items) d = d @ map (\<lambda>(n, e). (n, (Some n, e))) items"
proof (induction items arbitrary: d)
  case (Cons r items)
  obtain n e where r: "r = (n, e)" by (cases r)
  have "AList.update n (Some n, e) d = d @ [(n, (Some n, e))]"
    using Cons.prems(2) r by (intro od_update_new) auto
  moreover have "\<forall>(n', e') \<in> set items. te_name e' = n' \<and> n' \<notin> fst ` set (d @ [(n, (Some n, e))])"
    using Cons.prems r by (force simp: image_iff)
  ultimately show ?case using Cons.prems r Cons.IH [of "d @ [(n, (Some n, e))]"] by simp
qed simp

lemma valid_items_all:
  "\<forall>(n, e) \<in> set items. te_name e = n \<and> entry_fields_ok e \<and> check_clamped e \<Longrightarrow>
    valid_items (map (\<lambda>(n, e). (n, (Some n, e))) items) = Some items"
proof (induction items)
  case (Cons r items)
  obtain n e where r: "r = (n, e)" by (cases r)
  then have "e\<lparr>te_name := n\<rparr> = e" using Cons.prems by (cases e) auto
  then show ?case using Cons r by (auto simp: new_threshold_entry_def)
qed simp

lemma sort_key_te_name:
  assumes "od_distinct items" "\<forall>(n, e) \<in> set items. te_name e = n"
  shows "sort_key te_name (map snd (sort_key fst items)) = sort_key te_name (map snd items)"
proof -
  let ?s = "sort_key fst items"
  have names: "map te_name (map snd items) = map fst items" using assms(2) by auto
  have "map te_name (map snd ?s) = map fst ?s" using assms(2) by auto
  then have "sorted (map te_name (map snd ?s))" by (simp only: sorted_sort_key)
  then have "sort_key te_name (map snd ?s) = map snd ?s" by (rule sort_key_id_if_sorted)
  moreover have "sort_key te_name (map snd items) = map snd ?s"
  proof (rule map_sorted_distinct_set_unique [where f = te_name])
    have dist: "distinct (map te_name (map snd items))" using assms(1) by (simp only: names)
    then show "distinct (map te_name (sort_key te_name (map snd items)))"
      unfolding distinct_map [of te_name] by simp
    show "distinct (map te_name (map snd ?s))"
      using assms(1) unfolding \<open>map te_name (map snd ?s) = map fst ?s\<close> by (simp add: distinct_map)
    show "inj_on te_name (set (sort_key te_name (map snd items)) \<union> set (map snd ?s))"
      using dist unfolding distinct_map [of te_name] by simp
  qed (simp_all add: \<open>sorted (map te_name (map snd ?s))\<close> [simplified])
  ultimately show ?thesis by simp
qed

lemma map_of_sort_key:
  assumes "od_distinct items"
  shows "map_of (sort_key fst items) = map_of items"
  using assms by (intro map_of_inject_set [THEN iffD2]) (simp_all add: distinct_map)

text \<open>
  Loading what was dumped gives the file back: for every valid thresholds file, reading the
  document that \<open>dump_thresholds\<close> writes is accepted by the validator (the hash over the entries still
  matches although they are now in the order of their names), and the loaded file has the same
  version, frozen flag and hash, the same provenance values and the same threshold for every key.
\<close>

theorem dump_load_roundtrip:
  assumes "threshold_file_ok digest f" "od_distinct (tf_provenance f)"
  shows "\<exists>g. load_thresholds digest (RO_DOCUMENT (dump_document f)) = Inr g
    \<and> tf_version g = tf_version f \<and> tf_frozen g = tf_frozen f \<and> tf_sha256 g = tf_sha256 f
    \<and> map_of (tf_provenance g) = map_of (tf_provenance f)
    \<and> map_of (tf_thresholds g) = map_of (tf_thresholds f) \<and> threshold_value g = threshold_value f"
proof -
  let ?items = "sort_key fst (tf_thresholds f)"
  have ok: "od_distinct (tf_thresholds f)" "length (tf_sha256 f) = 64" "check_hash digest f"
    "\<forall>e \<in> snd ` set (tf_thresholds f). entry_fields_ok e \<and> check_clamped e"
    using assms(1) by (auto simp: threshold_file_ok_def new_threshold_file_def split: if_splits)
  have named: "\<forall>(n, e) \<in> set ?items. te_name e = n \<and> parse_key n \<noteq> None"
    using ok(3) by (auto simp: check_hash_def list_all_iff)
  have dist: "od_distinct ?items" using ok(1) by (simp add: distinct_map)
  let ?g = "\<lparr>tf_version = tf_version f, tf_frozen = tf_frozen f, tf_sha256 = tf_sha256 f,
    tf_provenance = sort_key fst (tf_provenance f), tf_thresholds = ?items\<rparr>"
  have "entries_sha256 digest (map snd ?items) = entries_sha256 digest (map snd (tf_thresholds f))"
    using sort_key_te_name [OF ok(1)] named by (fastforce simp: entries_sha256_def)
  then have "new_threshold_file digest ?g = Some ?g"
    using ok(2,3) by (simp add: new_threshold_file_def check_hash_def list_all_iff)
  moreover have "valid_items (map (\<lambda>(n, e). (n, (Some n, e))) ?items) = Some ?items"
    using named ok(4) by (intro valid_items_all) force
  moreover have "fold (\<lambda>(name, e) d. AList.update (case name of None \<Rightarrow> ''None'' | Some n \<Rightarrow> n) (name, e) d)
      (map (\<lambda>(n, e). (Some (te_name e), e)) ?items) [] = map (\<lambda>(n, e). (n, (Some n, e))) ?items"
    using fold_items_append [OF dist, of "[]"] named by fastforce
  ultimately have "load_thresholds digest (RO_DOCUMENT (dump_document f)) = Inr ?g"
    by (simp add: load_thresholds_def dump_document_def Let_def)
  then show ?thesis
    using map_of_sort_key [OF ok(1)] map_of_sort_key [OF assms(2)]
    by (intro exI [of _ ?g]) (simp add: threshold_value_def fun_eq_iff)
qed

text \<open>A file with two thresholds out of order, with a constant digest.\<close>

definition example_thresholds :: d1_threshold_file where
  "example_thresholds = \<lparr>tf_version = 1, tf_frozen = False, tf_sha256 = replicate 64 (CHR ''0''),
     tf_provenance = [(''source'', PV_Str ''floors'')],
     tf_thresholds = map (\<lambda>e. (te_name e, e))
       [floor_entry (threshold_key D1_VERTICAL_SCAN SC_DEVICE 10) \<lparr>pr_floor = 15, pr_ceiling = 50\<rparr>,
        floor_entry (threshold_key D1_FAN_IN SC_DESTINATION 10) \<lparr>pr_floor = 10, pr_ceiling = 64\<rparr>]\<rparr>"

lemma example_thresholds_ok: "threshold_file_ok (\<lambda>_. replicate 64 (CHR ''0'')) example_thresholds"
  by (simp add: parse_key_small threshold_file_ok_def example_thresholds_def new_threshold_file_def check_hash_def
      entries_sha256_def floor_entry_def entry_fields_ok_def check_clamped_def
      show_key_nonempty THRESHOLD_FILE_VERSION_def)

theorem dump_load_roundtrip_witness:
  "\<exists>g. load_thresholds (\<lambda>_. replicate 64 (CHR ''0'')) (RO_DOCUMENT (dump_document example_thresholds)) = Inr g
    \<and> tf_version g = tf_version example_thresholds \<and> tf_frozen g = tf_frozen example_thresholds
    \<and> tf_sha256 g = tf_sha256 example_thresholds
    \<and> map_of (tf_provenance g) = map_of (tf_provenance example_thresholds)
    \<and> map_of (tf_thresholds g) = map_of (tf_thresholds example_thresholds)
    \<and> threshold_value g = threshold_value example_thresholds"
  by (rule dump_load_roundtrip [OF example_thresholds_ok]) (simp add: example_thresholds_def)

end
