(* ===== verification/D1_State.thy ===== *)
theory D1_State
  imports Features Thresholds Connection_Start
begin

section \<open>The deterministic detectors\<close>

text \<open>
  \<open>detection_v2/d1.py\<close>: connection starts from completed flows and from creation-time signals, the bounded
  per-device, per-destination, per-account and network-wide state, and the detectors measured over its
  sliding windows. A \<open>deque\<close> with a maximal length is a list to which \<open>deque_append\<close> appends; an
  \<open>OrderedDict\<close> is an \<open>odict\<close>, and the pattern by which the source looks a key up, inserts it, evicts the
  oldest one or moves it to the end is \<open>lru_enter\<close>. The objects the source mutates after looking them up
  are values in the dictionaries, changed in place by \<open>AList.map_entry\<close>. Constructing an evidence item
  validates it: where that raises, the outcome is \<open>None\<close>.
\<close>

subsection \<open>Configuration\<close>

record d1_config =
  dc_thresholds_path :: string
  dc_windows_seconds :: "int list"
  dc_max_tracked_macs :: nat
  dc_max_tracked_destinations :: nat
  dc_max_events_per_mac :: nat
  dc_max_tracked_accounts :: nat
  dc_evaluation_cooldown_seconds :: real
  dc_brute_force_ports :: "int list"
  dc_brute_force_max_duration_seconds :: real
  dc_brute_force_size_tolerance :: real
  dc_failed_handshake_min_starts :: nat
  dc_kernel_poll_interval_seconds :: real
  dc_set_fill_warning_ratio :: real
  dc_max_known_macs :: nat

definition check_windows :: "d1_config \<Rightarrow> bool" where
  "check_windows c \<longleftrightarrow> {10, 60} \<subseteq> set (dc_windows_seconds c) \<and> \<not> (\<exists>w \<in> set (dc_windows_seconds c). w \<le> 0)"

definition d1_config_ok :: "d1_config \<Rightarrow> bool" where
  "d1_config_ok c \<longleftrightarrow> dc_thresholds_path c \<noteq> [] \<and> 0 < dc_max_tracked_macs c \<and> 0 < dc_max_tracked_destinations c
     \<and> 0 < dc_max_events_per_mac c \<and> 0 < dc_max_tracked_accounts c \<and> 0 \<le> dc_evaluation_cooldown_seconds c
     \<and> 0 < dc_brute_force_max_duration_seconds c
     \<and> 0 < dc_brute_force_size_tolerance c \<and> dc_brute_force_size_tolerance c \<le> 1
     \<and> 0 < dc_failed_handshake_min_starts c \<and> 0 < dc_kernel_poll_interval_seconds c
     \<and> 0 < dc_set_fill_warning_ratio c \<and> dc_set_fill_warning_ratio c \<le> 1 \<and> 0 < dc_max_known_macs c
     \<and> check_windows c"

definition default_d1_config :: d1_config where
  "default_d1_config = \<lparr>dc_thresholds_path = ''config/d1_thresholds.toml'', dc_windows_seconds = [10, 60],
     dc_max_tracked_macs = 4096, dc_max_tracked_destinations = 4096, dc_max_events_per_mac = 4096,
     dc_max_tracked_accounts = 1024, dc_evaluation_cooldown_seconds = 1,
     dc_brute_force_ports = [22, 80, 443, 8080], dc_brute_force_max_duration_seconds = 5,
     dc_brute_force_size_tolerance = 25/100, dc_failed_handshake_min_starts = 10,
     dc_kernel_poll_interval_seconds = 1, dc_set_fill_warning_ratio = 8/10, dc_max_known_macs = 16384\<rparr>"

subsection \<open>Connection starts\<close>

record connection_start =
  cn_mac :: mac_address
  cn_source_ip :: ipv4_address
  cn_destination_ip :: ipv4_address
  cn_destination_port :: "int option"
  cn_at :: datetime
  cn_failed :: "bool option"
  cn_duration_seconds :: "real option"
  cn_byte_count :: "int option"

definition has_outcome :: "connection_start \<Rightarrow> bool" where
  "has_outcome e \<longleftrightarrow> cn_failed e \<noteq> None"

text \<open>\<open>unicast_mac\<close> of an optional value.\<close>

definition unicast_mac_option :: "string option \<Rightarrow> mac_address option" where
  "unicast_mac_option v = Option.bind v unicast_mac"

text \<open>\<open>int(x)\<close> of a float.\<close>

definition py_trunc :: "real \<Rightarrow> int" where
  "py_trunc x = (if 0 \<le> x then \<lfloor>x\<rfloor> else \<lceil>x\<rceil>)"

datatype start_error = SE_FEATURES feature_error | SE_KEY

definition start_from_features :: "bool \<Rightarrow> string option \<Rightarrow> ipv4_address \<Rightarrow> ipv4_address \<Rightarrow> int option \<Rightarrow> datetime \<Rightarrow>
    (string, real) odict \<Rightarrow> start_error + connection_start option" where
  "start_from_features is_start source_mac source_ip destination_ip destination_port first_seen features =
     (case unicast_mac_option source_mac of
        None \<Rightarrow> Inr None
      | Some mac \<Rightarrow>
          if \<not> is_start then Inr None
          else (case (map_of features ''packet_count'', map_of features ''payload_byte_count'',
                      map_of features ''backward_packet_count'', map_of features ''duration_seconds'') of
                  (Some packets, Some payload, Some backward, Some duration) \<Rightarrow>
                    Inr (Some \<lparr>cn_mac = mac, cn_source_ip = source_ip, cn_destination_ip = destination_ip,
                      cn_destination_port = destination_port, cn_at = first_seen,
                      cn_failed = Some (backward = 0 \<or> packets \<le> 3 \<and> payload = 0),
                      cn_duration_seconds = Some (max duration 0), cn_byte_count = Some (py_trunc payload)\<rparr>)
                | _ \<Rightarrow> Inl SE_KEY))"

definition start_from_record :: "flow \<Rightarrow> bool \<Rightarrow> start_error + connection_start option" where
  "start_from_record f is_start =
     (if \<not> is_start \<or> unicast_mac_option (fl_source_mac f) = None then Inr None
      else (case extract_features f SCHEMA_VERSION of
              Inl e \<Rightarrow> Inl (SE_FEATURES e)
            | Inr v \<Rightarrow> start_from_features True (fl_source_mac f) (fl_source_ip f) (fl_destination_ip f)
                (fl_destination_port f) (fl_first_seen f) (zip (fv_feature_names v) (fv_values v))))"

definition start_from_signal :: "string option \<Rightarrow> ipv4_address \<Rightarrow> ipv4_address \<Rightarrow> int option \<Rightarrow> protocol \<Rightarrow> datetime \<Rightarrow>
    connection_start option" where
  "start_from_signal source_mac source_ip destination_ip destination_port protocol at' =
     (case unicast_mac_option source_mac of
        None \<Rightarrow> None
      | Some mac \<Rightarrow>
          if protocol \<noteq> P_TCP then None
          else Some \<lparr>cn_mac = mac, cn_source_ip = source_ip, cn_destination_ip = destination_ip,
                 cn_destination_port = destination_port, cn_at = at', cn_failed = None,
                 cn_duration_seconds = None, cn_byte_count = None\<rparr>)"

subsection \<open>State\<close>

record d1_counters =
  k_macs_evicted :: nat
  k_destinations_evicted :: nat
  k_events_dropped :: nat
  k_accounts_evicted :: nat
  k_known_macs_evicted :: nat

record d1_device =
  dv_last_ip :: ipv4_address
  dv_events :: "connection_start list"
  dv_slow :: "(ipv4_address, nat \<times> datetime) odict"

record d1_state =
  ds_config :: d1_config
  ds_thresholds :: d1_threshold_file
  ds_windows :: "int list"
  ds_horizon :: timedelta
  ds_brute_ports :: "int list"
  ds_devices :: "(mac_address, d1_device) odict"
  ds_destinations :: "(ipv4_address, (datetime \<times> mac_address) list) odict"
  ds_known_macs :: "(mac_address, unit) odict"
  ds_known_leases :: "(ipv4_address \<times> mac_address, unit) odict"
  ds_new_macs :: "datetime list"
  ds_new_leases :: "datetime list"
  ds_accounts :: "(string, (datetime \<times> mac_address option) list) odict"
  ds_portal_failures :: "datetime list"
  ds_leases_seeded :: bool
  ds_counters :: d1_counters

definition sorted_windows :: "int list \<Rightarrow> int list" where
  "sorted_windows ws = sort (remdups ws)"

definition new_d1_state :: "d1_config \<Rightarrow> d1_threshold_file \<Rightarrow> int list \<Rightarrow> d1_state" where
  "new_d1_state c thresholds extra_brute_force_ports =
     \<lparr>ds_config = c, ds_thresholds = thresholds, ds_windows = sorted_windows (dc_windows_seconds c),
      ds_horizon = seconds (Max (set (sorted_windows (dc_windows_seconds c)))),
      ds_brute_ports = dc_brute_force_ports c @ extra_brute_force_ports,
      ds_devices = [], ds_destinations = [], ds_known_macs = [], ds_known_leases = [], ds_new_macs = [],
      ds_new_leases = [], ds_accounts = [], ds_portal_failures = [], ds_leases_seeded = False,
      ds_counters = \<lparr>k_macs_evicted = 0, k_destinations_evicted = 0, k_events_dropped = 0,
        k_accounts_evicted = 0, k_known_macs_evicted = 0\<rparr>\<rparr>"

definition deque_append :: "nat \<Rightarrow> 'a \<Rightarrow> 'a list \<Rightarrow> 'a list" where
  "deque_append maxlen x xs = (let xs' = xs @ [x] in drop (length xs' - maxlen) xs')"

text \<open>Look up \<open>k\<close>; when absent insert it with \<open>v\<close> and drop the first entry beyond the bound, when present
  move it to the end. The first component says whether an entry was dropped.\<close>

definition lru_enter :: "nat \<Rightarrow> 'k \<Rightarrow> 'v \<Rightarrow> ('k, 'v) odict \<Rightarrow> bool \<times> ('k, 'v) odict" where
  "lru_enter cap k v d =
     (case map_of d k of
        None \<Rightarrow> (let d' = AList.update k v d in if length d' > cap then (True, tl d') else (False, d'))
      | Some _ \<Rightarrow> (False, od_move_to_end k d))"

abbreviation bump :: "bool \<Rightarrow> nat \<Rightarrow> nat" where
  "bump b n \<equiv> (if b then n + 1 else n)"

definition replace_thresholds :: "d1_threshold_file \<Rightarrow> d1_state \<Rightarrow> d1_state" where
  "replace_thresholds t s = s\<lparr>ds_thresholds := t\<rparr>"

definition enter_device :: "mac_address \<Rightarrow> ipv4_address \<Rightarrow> d1_state \<Rightarrow> d1_state" where
  "enter_device mac source_ip s =
     (let (evicted, d) = lru_enter (dc_max_tracked_macs (ds_config s)) mac
            \<lparr>dv_last_ip = source_ip, dv_events = [], dv_slow = []\<rparr> (ds_devices s)
      in s\<lparr>ds_devices := AList.map_entry mac (\<lambda>v. v\<lparr>dv_last_ip := source_ip\<rparr>) d,
           ds_counters := (ds_counters s)\<lparr>k_macs_evicted := bump evicted (k_macs_evicted (ds_counters s))\<rparr>\<rparr>)"

definition note_mac :: "mac_address \<Rightarrow> datetime \<Rightarrow> d1_state \<Rightarrow> d1_state" where
  "note_mac mac at' s =
     (let (evicted, d) = lru_enter (dc_max_known_macs (ds_config s)) mac () (ds_known_macs s)
      in if map_of (ds_known_macs s) mac \<noteq> None then s\<lparr>ds_known_macs := d\<rparr>
         else s\<lparr>ds_known_macs := d,
                ds_counters := (ds_counters s)\<lparr>k_known_macs_evicted := bump evicted (k_known_macs_evicted (ds_counters s))\<rparr>,
                ds_new_macs := deque_append (dc_max_events_per_mac (ds_config s)) at' (ds_new_macs s)\<rparr>)"

definition add_event :: "connection_start \<Rightarrow> d1_state \<Rightarrow> d1_state" where
  "add_event e s =
     (let maxlen = dc_max_events_per_mac (ds_config s);
          full = (case map_of (ds_devices s) (cn_mac e) of None \<Rightarrow> False | Some v \<Rightarrow> length (dv_events v) = maxlen)
      in s\<lparr>ds_counters := (ds_counters s)\<lparr>k_events_dropped := bump full (k_events_dropped (ds_counters s))\<rparr>,
           ds_devices := AList.map_entry (cn_mac e) (\<lambda>v. v\<lparr>dv_events := deque_append maxlen e (dv_events v)\<rparr>) (ds_devices s)\<rparr>)"

definition add_arrival :: "connection_start \<Rightarrow> d1_state \<Rightarrow> d1_state" where
  "add_arrival e s =
     (let (evicted, d) = lru_enter (dc_max_tracked_destinations (ds_config s)) (cn_destination_ip e) [] (ds_destinations s)
      in s\<lparr>ds_counters := (ds_counters s)\<lparr>k_destinations_evicted := bump evicted (k_destinations_evicted (ds_counters s))\<rparr>,
           ds_destinations := AList.map_entry (cn_destination_ip e)
             (deque_append (dc_max_events_per_mac (ds_config s)) (cn_at e, cn_mac e)) d\<rparr>)"

definition d1_observe :: "connection_start \<Rightarrow> d1_state \<Rightarrow> d1_state" where
  "d1_observe e s = add_arrival e (note_mac (cn_mac e) (cn_at e) (add_event e (enter_device (cn_mac e) (cn_source_ip e) s)))"

text \<open>\<open>min(slow, key=...)\<close>: the first destination observed longest ago.\<close>

definition oldest_slow :: "(ipv4_address, nat \<times> datetime) odict \<Rightarrow> ipv4_address" where
  "oldest_slow d = fst (arg_min_list (\<lambda>(_, _, at'). at') d)"

definition observe_slow_cluster :: "string option \<Rightarrow> ipv4_address \<Rightarrow> ipv4_address \<Rightarrow> nat \<Rightarrow> datetime \<Rightarrow> d1_state \<Rightarrow> d1_state" where
  "observe_slow_cluster mac source_ip destination_ip count at' s =
     (case unicast_mac_option mac of
        None \<Rightarrow> s
      | Some m \<Rightarrow>
          (let s1 = enter_device m source_ip s;
               cap = dc_max_tracked_destinations (ds_config s);
               slow = (case map_of (ds_devices s1) m of None \<Rightarrow> [] | Some v \<Rightarrow> AList.update destination_ip (count, at') (dv_slow v));
               full = cap < length slow;
               slow' = (if full then AList.delete (oldest_slow slow) slow else slow)
           in s1\<lparr>ds_devices := AList.map_entry m (\<lambda>v. v\<lparr>dv_slow := slow'\<rparr>) (ds_devices s1),
                 ds_counters := (ds_counters s1)\<lparr>k_destinations_evicted := bump full (k_destinations_evicted (ds_counters s1))\<rparr>\<rparr>))"

definition observe_binding :: "datetime \<Rightarrow> binding \<Rightarrow> d1_state \<Rightarrow> d1_state" where
  "observe_binding at' b s =
     (let key = (b_ip b, b_mac b);
          (_, d) = lru_enter (dc_max_known_macs (ds_config s)) key () (ds_known_leases s)
      in if map_of (ds_known_leases s) key \<noteq> None \<or> \<not> ds_leases_seeded s then s\<lparr>ds_known_leases := d\<rparr>
         else s\<lparr>ds_known_leases := d,
                ds_new_leases := deque_append (dc_max_events_per_mac (ds_config s)) at' (ds_new_leases s)\<rparr>)"

definition observe_bindings :: "binding list \<Rightarrow> datetime \<Rightarrow> d1_state \<Rightarrow> d1_state" where
  "observe_bindings bindings at' s = (fold (observe_binding at') bindings s)\<lparr>ds_leases_seeded := True\<rparr>"

definition observe_portal_failure :: "string \<Rightarrow> string option \<Rightarrow> datetime \<Rightarrow> d1_state \<Rightarrow> d1_state" where
  "observe_portal_failure account mac at' s =
     (let maxlen = dc_max_events_per_mac (ds_config s);
          (evicted, d) = lru_enter (dc_max_tracked_accounts (ds_config s)) account [] (ds_accounts s)
      in s\<lparr>ds_counters := (ds_counters s)\<lparr>k_accounts_evicted := bump evicted (k_accounts_evicted (ds_counters s))\<rparr>,
           ds_accounts := AList.map_entry account (deque_append maxlen (at', unicast_mac_option mac)) d,
           ds_portal_failures := deque_append maxlen at' (ds_portal_failures s)\<rparr>)"

definition last_ip :: "mac_address \<Rightarrow> d1_state \<Rightarrow> ipv4_address option" where
  "last_ip mac s = map_option dv_last_ip (map_of (ds_devices s) mac)"

definition tracked_macs :: "d1_state \<Rightarrow> nat" where
  "tracked_macs s = length (ds_devices s)"

definition destinations :: "d1_state \<Rightarrow> ipv4_address list" where
  "destinations s = map fst (ds_destinations s)"

subsection \<open>Measurements\<close>

definition in_window :: "int \<Rightarrow> datetime \<Rightarrow> datetime \<Rightarrow> bool" where
  "in_window window now at' \<longleftrightarrow> now - seconds window \<le> at' \<and> at' \<le> now"

definition prune_events :: "d1_state \<Rightarrow> datetime \<Rightarrow> ('a \<Rightarrow> datetime) \<Rightarrow> 'a list \<Rightarrow> 'a list" where
  "prune_events s now at_of events = dropWhile (\<lambda>e. at_of e < now - ds_horizon s) events"

definition max_default :: "nat list \<Rightarrow> nat" where
  "max_default xs = foldr max xs 0"

text \<open>\<open>buckets.setdefault(group, set()).add(member)\<close>, a set being a list without repetition.\<close>

definition bucket_add :: "'k \<Rightarrow> 'v \<Rightarrow> ('k, 'v list) odict \<Rightarrow> ('k, 'v list) odict" where
  "bucket_add k v d =
     (case map_of d k of
        None \<Rightarrow> AList.update k [v] d
      | Some vs \<Rightarrow> AList.update k (List.insert v vs) d)"

definition max_distinct :: "connection_start list \<Rightarrow> (connection_start \<Rightarrow> 'k) \<Rightarrow> (connection_start \<Rightarrow> 'v) \<Rightarrow> real" where
  "max_distinct events grp member =
     real (max_default (map (\<lambda>(k, vs). length vs) (fold (\<lambda>e. bucket_add (grp e) (member e)) events [])))"

definition failed_ratio :: "d1_state \<Rightarrow> connection_start list \<Rightarrow> real option" where
  "failed_ratio s events =
     (let completed = filter has_outcome events in
      if length completed < dc_failed_handshake_min_starts (ds_config s) then None
      else Some (real (length (filter (\<lambda>e. cn_failed e = Some True) completed)) / real (length completed)))"

definition brute_force_candidate :: "d1_state \<Rightarrow> connection_start \<Rightarrow> ((ipv4_address \<times> int) \<times> int) option" where
  "brute_force_candidate s e =
     (case (cn_destination_port e, cn_duration_seconds e, cn_byte_count e) of
        (Some port, Some duration, Some bytes) \<Rightarrow>
          if port \<in> set (ds_brute_ports s) \<and> duration \<le> dc_brute_force_max_duration_seconds (ds_config s)
             \<and> cn_failed e \<noteq> Some True
          then Some ((cn_destination_ip e, port), bytes) else None
      | _ \<Rightarrow> None)"

definition group_append :: "'k \<Rightarrow> 'v \<Rightarrow> ('k, 'v list) odict \<Rightarrow> ('k, 'v list) odict" where
  "group_append k v d = AList.update k ((case map_of d k of None \<Rightarrow> [] | Some vs \<Rightarrow> vs) @ [v]) d"

text \<open>\<open>statistics.median\<close> of a non-empty list of integers.\<close>

definition median :: "int list \<Rightarrow> real" where
  "median xs =
     (let ys = sort xs; n = length ys in
      if odd n then of_int (ys ! (n div 2)) else of_int (ys ! (n div 2 - 1) + ys ! (n div 2)) / 2)"

definition similar_sizes :: "d1_state \<Rightarrow> int list \<Rightarrow> nat" where
  "similar_sizes s sizes =
     (let centre = median sizes in
      length (filter (\<lambda>size. \<bar>of_int size - centre\<bar> \<le> dc_brute_force_size_tolerance (ds_config s) * max centre 1) sizes))"

definition brute_force :: "d1_state \<Rightarrow> connection_start list \<Rightarrow> real" where
  "brute_force s events =
     real (max_default (map (\<lambda>(k, sizes). similar_sizes s sizes)
       (fold (\<lambda>(k, bytes). group_append k bytes) (List.map_filter (brute_force_candidate s) events) [])))"

definition slow_value :: "int \<Rightarrow> datetime \<Rightarrow> d1_device \<Rightarrow> real" where
  "slow_value window now v =
     real (max_default (map (\<lambda>(_, count, _). count) (filter (\<lambda>(_, _, at'). in_window window now at') (dv_slow v))))"

definition device_window :: "d1_state \<Rightarrow> d1_device \<Rightarrow> datetime \<Rightarrow> int \<Rightarrow> (threshold_key, real) odict" where
  "device_window s v now window =
     (let events = filter (\<lambda>e. in_window window now (cn_at e)) (dv_events v) in
      map (\<lambda>(detector, value). (threshold_key detector SC_DEVICE window, value))
       ([(D1_VERTICAL_SCAN, max_distinct events cn_destination_ip cn_destination_port),
         (D1_HORIZONTAL_SCAN, max_distinct events cn_destination_port cn_destination_ip),
         (D1_BRUTE_FORCE, brute_force s events),
         (D1_SLOW_RATE_DOS, slow_value window now v)]
        @ (case failed_ratio s events of None \<Rightarrow> [] | Some ratio \<Rightarrow> [(D1_FAILED_HANDSHAKE, ratio)])))"

definition measure_device :: "mac_address \<Rightarrow> datetime \<Rightarrow> d1_state \<Rightarrow> (threshold_key, real) odict \<times> d1_state" where
  "measure_device mac now s =
     (case map_of (ds_devices s) mac of
        None \<Rightarrow> ([], s)
      | Some v \<Rightarrow>
          (let v' = v\<lparr>dv_events := prune_events s now cn_at (dv_events v)\<rparr>
           in (concat (map (device_window s v' now) (ds_windows s)),
               s\<lparr>ds_devices := AList.map_entry mac (\<lambda>_. v') (ds_devices s)\<rparr>)))"

definition measure_destination :: "ipv4_address \<Rightarrow> datetime \<Rightarrow> d1_state \<Rightarrow> (threshold_key, real) odict \<times> d1_state" where
  "measure_destination destination now s =
     (case map_of (ds_destinations s) destination of
        None \<Rightarrow> ([], s)
      | Some arrivals \<Rightarrow>
          (let arrivals' = prune_events s now fst arrivals
           in (map (\<lambda>window. (threshold_key D1_FAN_IN SC_DESTINATION window,
                 real (length (remdups (map snd (filter (\<lambda>(at', mac). in_window window now at') arrivals')))))) (ds_windows s),
               s\<lparr>ds_destinations := AList.map_entry destination (\<lambda>_. arrivals') (ds_destinations s)\<rparr>)))"

definition measure_global :: "datetime \<Rightarrow> d1_state \<Rightarrow> (threshold_key, real) odict" where
  "measure_global now s =
     concat (map (\<lambda>window.
       map (\<lambda>(detector, series). (threshold_key detector SC_GLOBAL window, real (length (filter (in_window window now) series))))
         [(D1_NEW_MAC_RATE, ds_new_macs s), (D1_NEW_LEASE_RATE, ds_new_leases s),
          (D1_PORTAL_AUTH_FAILURES, ds_portal_failures s)]) (ds_windows s))"

subsection \<open>Evidence\<close>

definition d1_evidence_ok :: "d1_evidence \<Rightarrow> bool" where
  "d1_evidence_ok e \<longleftrightarrow> d1_id e \<noteq> [] \<and> 0 < d1_window_seconds e \<and> 0 \<le> d1_value e \<and> 0 \<le> d1_threshold e"

text \<open>The constructor normalises the MAC and raises when a field is out of range.\<close>

definition new_d1_evidence :: "d1_evidence \<Rightarrow> d1_evidence option" where
  "new_d1_evidence e =
     (if \<not> d1_evidence_ok e then None
      else (case d1_mac e of
              None \<Rightarrow> Some e
            | Some m \<Rightarrow> map_option (\<lambda>m'. e\<lparr>d1_mac := Some m'\<rparr>) (unicast_mac m)))"

definition evidence_bucket :: "datetime \<Rightarrow> int \<Rightarrow> int" where
  "evidence_bucket now window = now div seconds window"

definition d1_evidence_id :: "d1_detector \<Rightarrow> scope \<Rightarrow> int \<Rightarrow> string \<Rightarrow> int \<Rightarrow> string" where
  "d1_evidence_id detector scope window subject bucket =
     join '':'' [''d1'', d1_detector_value detector, scope_value scope, show_int window, subject, show_int bucket]"

text \<open>\<open>_fire\<close>: \<open>None\<close> when the constructor raises, \<open>Some None\<close> when the threshold is not exceeded.\<close>

definition d1_fire :: "d1_state \<Rightarrow> d1_detector \<Rightarrow> scope \<Rightarrow> int \<Rightarrow> real \<Rightarrow> mac_address option \<Rightarrow> string \<Rightarrow> datetime \<Rightarrow>
    d1_evidence option option" where
  "d1_fire s detector scope window value mac subject now =
     (case threshold_value (ds_thresholds s) (threshold_key detector scope window) of
        None \<Rightarrow> Some None
      | Some threshold \<Rightarrow>
          if value \<le> threshold then Some None
          else map_option Some (new_d1_evidence
            \<lparr>d1_id = d1_evidence_id detector scope window subject (evidence_bucket now window),
             d1_detector = detector, d1_window_seconds = window, d1_value = value, d1_threshold = threshold,
             d1_mac = mac, d1_observed_at = now\<rparr>))"

text \<open>A loop that fires one detector after the other and collects the evidence.\<close>

fun collect :: "d1_evidence option option list \<Rightarrow> d1_evidence list option" where
  "collect [] = Some []"
| "collect (None # rs) = None"
| "collect (Some None # rs) = collect rs"
| "collect (Some (Some e) # rs) = map_option ((#) e) (collect rs)"

definition fire_measured :: "d1_state \<Rightarrow> mac_address option \<Rightarrow> string \<Rightarrow> datetime \<Rightarrow> (threshold_key, real) odict \<Rightarrow>
    d1_evidence option option list" where
  "fire_measured s mac subject now measured =
     map (\<lambda>(key, value). d1_fire s (tk_detector key) (tk_scope key) (tk_window_seconds key) value mac subject now) measured"

definition evaluate_device :: "mac_address \<Rightarrow> datetime \<Rightarrow> d1_state \<Rightarrow> d1_evidence list option \<times> d1_state" where
  "evaluate_device mac now s =
     (let (measured, s') = measure_device mac now s in (collect (fire_measured s' (Some mac) mac now measured), s'))"

definition evaluate_destination :: "ipv4_address \<Rightarrow> datetime \<Rightarrow> d1_state \<Rightarrow> d1_evidence list option \<times> d1_state" where
  "evaluate_destination destination now s =
     (let (measured, s') = measure_destination destination now s
      in (collect (fire_measured s' None (show_ipv4 destination) now measured), s'))"

text \<open>One device behind every failure: the evidence can name it.\<close>

definition culprit :: "mac_address option list \<Rightarrow> mac_address option" where
  "culprit recent = (case remdups recent of [m] \<Rightarrow> m | _ \<Rightarrow> None)"

definition fire_account :: "d1_state \<Rightarrow> datetime \<Rightarrow> int \<Rightarrow> string \<times> (datetime \<times> mac_address option) list \<Rightarrow> d1_evidence option option" where
  "fire_account s now window r =
     (let recent = map snd (filter (\<lambda>(at', mac). in_window window now at') (snd r)) in
      d1_fire s D1_PORTAL_AUTH_FAILURES SC_ACCOUNT window (real (length recent)) (culprit recent)
        (''account='' @ fst r) now)"

definition evaluate_global :: "datetime \<Rightarrow> d1_state \<Rightarrow> d1_evidence list option" where
  "evaluate_global now s =
     collect (fire_measured s None ''lan'' now (measure_global now s)
       @ concat (map (\<lambda>window. map (fire_account s now window) (ds_accounts s)) (ds_windows s)))"

definition thresholds_by_name :: "d1_threshold_file \<Rightarrow> (string, real) odict" where
  "thresholds_by_name f = map (\<lambda>(name, e). (name, te_value e)) (tf_thresholds f)"

end
