(* ===== verification/D1_Bounds.thy ===== *)
theory D1_Bounds
  imports D1_State
begin

section \<open>The detectors' state is bounded and their evaluation total\<close>

text \<open>
  The invariant of \<open>D1State\<close>: every table is a dictionary within its configured size, every deque within
  its length, device keys are normalised unicast MACs. It holds initially and after every operation, in any
  order (\<open>d1_reachable\<close>), and in every state that satisfies it the three evaluations return evidence and
  never raise.
\<close>

subsection \<open>The table pattern\<close>

lemma length_d1_append: "length (deque_append n x xs) \<le> n"
  by (simp add: deque_append_def Let_def)

lemma set_deque_append: "set (deque_append n x xs) \<subseteq> insert x (set xs)"
  by (auto simp: deque_append_def Let_def dest: in_set_dropD)

text \<open>The entries of the table after entering \<open>k\<close>: the old ones, possibly without the first, and \<open>k\<close>.\<close>

lemma lru_enter_keys:
  assumes "od_distinct d" "length d \<le> cap" "0 < cap"
  shows "map fst (snd (lru_enter cap k v d)) = lru_keys cap k (map fst d)"
proof (cases "k \<in> fst ` set d")
  case True
  then obtain x where "map_of d k = Some x" by (metis map_of_None_iff_key option.exhaust)
  then show ?thesis using True assms lru_keys_present [of k "map fst d" cap]
    by (simp add: lru_enter_def od_keys_move del: map_of_eq_Some_iff)
next
  case False
  then have "map_of d k = None" by (simp add: map_of_eq_None_iff)
  then show ?thesis using False assms lru_keys_absent [of k "map fst d" cap]
    by (auto simp: lru_enter_def Let_def od_keys_append length_od_update map_tl tl_append split: list.splits)
qed

lemma lru_enter_bounds:
  assumes "od_distinct d" "length d \<le> cap" "0 < cap" "lru_enter cap k v d = (b, d')"
  shows "od_distinct d'" "length d' \<le> cap" "k \<in> fst ` set d'"
proof -
  have keys: "map fst d' = lru_keys cap k (map fst d)" using lru_enter_keys [OF assms(1-3)] assms(4) by (metis snd_conv)
  show "od_distinct d'" unfolding keys using assms(1) by (rule distinct_lru_keys)
  show "length d' \<le> cap" using length_lru_keys [of cap k "map fst d"] keys by (metis length_map)
  have "k \<in> set (map fst d')" unfolding keys using assms(3) by (rule in_lru_keys)
  then show "k \<in> fst ` set d'" by simp
qed

lemma od_all_enter: "od_distinct d \<Longrightarrow> od_all P d \<Longrightarrow> P v \<Longrightarrow> lru_enter cap k v d = (b, d') \<Longrightarrow> od_all P d'"
  by (auto simp: lru_enter_def Let_def split: option.splits if_splits)

lemma od_all_map_entry: "od_all P d \<Longrightarrow> (\<And>v. P v \<Longrightarrow> P (f v)) \<Longrightarrow> od_all P (AList.map_entry k f d)"
  by (induction d) auto

lemma od_all_map_entry_at: "od_all P d \<Longrightarrow> P w \<Longrightarrow> od_all P (AList.map_entry k (\<lambda>_. w) d)"
  by (rule od_all_map_entry)

lemma length_map_entry [simp]: "length (AList.map_entry k f d) = length d"
  by (induction d) auto

lemma keys_map_entry [simp]: "map fst (AList.map_entry k f d) = map fst d"
  by (induction d) auto

lemma keys_enter_all:
  assumes "\<forall>j \<in> fst ` set d. Q j" "Q k" "lru_enter cap k v d = (b, d')"
  shows "\<forall>j \<in> fst ` set d'. Q j"
proof -
  have "fst ` set d' \<subseteq> insert k (fst ` set d)"
  proof (cases "map_of d k")
    case (Some x)
    then have "d' = od_move_to_end k d" using assms(3) by (simp add: lru_enter_def)
    then show ?thesis using od_fst_move [of k d] by blast
  next
    case None
    have "set (tl (AList.update k v d)) \<subseteq> set (AList.update k v d)" by (cases "AList.update k v d") auto
    then have "fst ` set d' \<subseteq> fst ` set (AList.update k v d)"
      using assms(3) None by (auto simp: lru_enter_def Let_def split: if_splits)
    then show ?thesis by (simp add: od_fst_update)
  qed
  then show ?thesis using assms(1,2) by blast
qed

subsection \<open>The invariant\<close>

definition identity :: "mac_address \<Rightarrow> bool" where
  "identity m \<longleftrightarrow> unicast_mac m = Some m"

lemma identity_unicast: "unicast_mac_option v = Some m \<Longrightarrow> identity m"
  by (auto simp: unicast_mac_option_def identity_def bind_eq_Some_conv intro: unicast_mac_fixed)

definition identities :: "(mac_address, 'v) odict \<Rightarrow> bool" where
  "identities d \<longleftrightarrow> (\<forall>m \<in> fst ` set d. identity m)"

lemma identities_map_entry [simp]: "identities (AList.map_entry k f d) = identities d"
  by (simp only: identities_def dom_map_entry)

definition device_ok :: "d1_config \<Rightarrow> d1_device \<Rightarrow> bool" where
  "device_ok c v \<longleftrightarrow> length (dv_events v) \<le> dc_max_events_per_mac c \<and> length (dv_slow v) \<le> dc_max_tracked_destinations c"

definition account_ok :: "d1_config \<Rightarrow> (datetime \<times> mac_address option) list \<Rightarrow> bool" where
  "account_ok c fs \<longleftrightarrow> length fs \<le> dc_max_events_per_mac c \<and> (\<forall>(t, m) \<in> set fs. case m of None \<Rightarrow> True | Some x \<Rightarrow> identity x)"

definition d1_bounded :: "d1_state \<Rightarrow> bool" where
  "d1_bounded s \<longleftrightarrow> (let c = ds_config s in
     length (ds_devices s) \<le> dc_max_tracked_macs c
     \<and> length (ds_destinations s) \<le> dc_max_tracked_destinations c
     \<and> length (ds_known_macs s) \<le> dc_max_known_macs c \<and> length (ds_known_leases s) \<le> dc_max_known_macs c
     \<and> length (ds_accounts s) \<le> dc_max_tracked_accounts c
     \<and> length (ds_new_macs s) \<le> dc_max_events_per_mac c \<and> length (ds_new_leases s) \<le> dc_max_events_per_mac c
     \<and> length (ds_portal_failures s) \<le> dc_max_events_per_mac c
     \<and> od_all (device_ok c) (ds_devices s)
     \<and> od_all (\<lambda>a. length a \<le> dc_max_events_per_mac c) (ds_destinations s)
     \<and> od_all (account_ok c) (ds_accounts s))"

definition d1_inv :: "d1_state \<Rightarrow> bool" where
  "d1_inv s \<longleftrightarrow> d1_config_ok (ds_config s) \<and> ds_windows s = sorted_windows (dc_windows_seconds (ds_config s))
     \<and> ds_horizon s = seconds (Max (set (ds_windows s)))
     \<and> od_distinct (ds_devices s) \<and> od_distinct (ds_destinations s) \<and> od_distinct (ds_known_macs s)
     \<and> od_distinct (ds_known_leases s) \<and> od_distinct (ds_accounts s)
     \<and> identities (ds_devices s) \<and> d1_bounded s"

lemmas d1_inv_simps = d1_inv_def d1_bounded_def Let_def d1_config_ok_def

lemma d1_inv_new: "d1_config_ok c \<Longrightarrow> d1_inv (new_d1_state c t extra)"
  by (simp add: d1_inv_simps new_d1_state_def identities_def)

lemma d1_inv_thresholds: "d1_inv s \<Longrightarrow> d1_inv (replace_thresholds t s)"
  by (simp add: d1_inv_simps replace_thresholds_def)

lemma d1_inv_enter_device:
  assumes "d1_inv s" "identity m"
  shows "d1_inv (enter_device m ip s)"
proof -
  let ?c = "ds_config s"
  obtain b d where e: "lru_enter (dc_max_tracked_macs ?c) m \<lparr>dv_last_ip = ip, dv_events = [], dv_slow = []\<rparr> (ds_devices s) = (b, d)"
    by (cases "lru_enter (dc_max_tracked_macs ?c) m \<lparr>dv_last_ip = ip, dv_events = [], dv_slow = []\<rparr> (ds_devices s)")
  have pre: "od_distinct (ds_devices s)" "length (ds_devices s) \<le> dc_max_tracked_macs ?c" "0 < dc_max_tracked_macs ?c"
    "od_all (device_ok ?c) (ds_devices s)" "identities (ds_devices s)"
    using assms by (auto simp: d1_inv_simps)
  have d: "od_distinct d" "length d \<le> dc_max_tracked_macs ?c" by (rule lru_enter_bounds [OF pre(1-3) e])+
  have "od_all (device_ok ?c) d" by (rule od_all_enter [OF pre(1,4) _ e]) (simp add: device_ok_def)
  then have "od_all (device_ok ?c) (AList.map_entry m (\<lambda>v. v\<lparr>dv_last_ip := ip\<rparr>) d)"
    by (rule od_all_map_entry) (simp add: device_ok_def)
  moreover have "identities d"
    using keys_enter_all [where Q = identity, OF _ assms(2) e] pre(5) unfolding identities_def by blast
  ultimately show ?thesis
    using assms(1) d e by (simp add: d1_inv_simps enter_device_def)
qed

lemma d1_inv_note_mac: "d1_inv s \<Longrightarrow> d1_inv (note_mac m t s)"
proof -
  assume s: "d1_inv s"
  obtain b d where e: "lru_enter (dc_max_known_macs (ds_config s)) m () (ds_known_macs s) = (b, d)"
    by (cases "lru_enter (dc_max_known_macs (ds_config s)) m () (ds_known_macs s)")
  have "od_distinct d" "length d \<le> dc_max_known_macs (ds_config s)"
    using s by (auto simp: d1_inv_simps intro: lru_enter_bounds [OF _ _ _ e])
  then show ?thesis using s e by (simp add: note_mac_def d1_inv_simps length_d1_append del: map_of_eq_Some_iff)
qed

lemma d1_inv_add_event: "d1_inv s \<Longrightarrow> d1_inv (add_event e s)"
proof -
  assume s: "d1_inv s"
  then have "od_all (device_ok (ds_config s)) (AList.map_entry (cn_mac e)
      (\<lambda>v. v\<lparr>dv_events := deque_append (dc_max_events_per_mac (ds_config s)) e (dv_events v)\<rparr>) (ds_devices s))"
    by (intro od_all_map_entry) (auto simp: d1_inv_simps device_ok_def length_d1_append)
  then show ?thesis using s by (simp add: add_event_def d1_inv_simps)
qed

lemma d1_inv_add_arrival: "d1_inv s \<Longrightarrow> d1_inv (add_arrival e s)"
proof -
  assume s: "d1_inv s"
  let ?c = "ds_config s"
  obtain b d where e: "lru_enter (dc_max_tracked_destinations ?c) (cn_destination_ip e) [] (ds_destinations s) = (b, d)"
    by (cases "lru_enter (dc_max_tracked_destinations ?c) (cn_destination_ip e) [] (ds_destinations s)")
  have d: "od_distinct d" "length d \<le> dc_max_tracked_destinations ?c"
    using s by (auto simp: d1_inv_simps intro: lru_enter_bounds [OF _ _ _ e])
  have "od_all (\<lambda>a. length a \<le> dc_max_events_per_mac ?c) d"
    using s by (intro od_all_enter [OF _ _ _ e]) (auto simp: d1_inv_simps)
  then have "od_all (\<lambda>a. length a \<le> dc_max_events_per_mac ?c)
      (AList.map_entry (cn_destination_ip e) (deque_append (dc_max_events_per_mac ?c) (cn_at e, cn_mac e)) d)"
    by (rule od_all_map_entry) (simp add: length_d1_append)
  then show ?thesis using s d e by (simp add: add_arrival_def d1_inv_simps)
qed

lemma d1_inv_observe: "d1_inv s \<Longrightarrow> identity (cn_mac e) \<Longrightarrow> d1_inv (d1_observe e s)"
  unfolding d1_observe_def by (intro d1_inv_add_arrival d1_inv_note_mac d1_inv_add_event d1_inv_enter_device)

lemma arg_min_list_member: "xs \<noteq> [] \<Longrightarrow> arg_min_list f xs \<in> set xs"
  by (rule arg_min_list_in)

lemma d1_inv_slow: "d1_inv s \<Longrightarrow> d1_inv (observe_slow_cluster mac ip dst n t s)"
proof (cases "unicast_mac_option mac")
  case (Some m)
  assume s: "d1_inv s"
  let ?s1 = "enter_device m ip s" and ?cap = "dc_max_tracked_destinations (ds_config s)"
  have s1: "d1_inv ?s1" by (rule d1_inv_enter_device [OF s identity_unicast [OF Some]])
  have cfg: "ds_config ?s1 = ds_config s" by (simp add: enter_device_def split: prod.split)
  define slow where "slow = (case map_of (ds_devices ?s1) m of None \<Rightarrow> [] | Some v \<Rightarrow> AList.update dst (n, t) (dv_slow v))"
  define slow' where "slow' = (if ?cap < length slow then AList.delete (oldest_slow slow) slow else slow)"
  have "length slow \<le> Suc ?cap"
  proof (cases "map_of (ds_devices ?s1) m")
    case (Some v)
    then have "device_ok (ds_config s) v" using s1 cfg by (metis (no_types, lifting) d1_bounded_def d1_inv_def od_all_lookup)
    then show ?thesis using Some by (simp add: slow_def device_ok_def length_od_update del: map_of_eq_Some_iff)
  qed (simp add: slow_def)
  moreover have "length (AList.delete (oldest_slow slow) slow) < length slow" if "slow \<noteq> []"
  proof -
    have "oldest_slow slow \<in> fst ` set slow"
      unfolding oldest_slow_def using arg_min_list_member [OF that] by blast
    then show ?thesis by (auto simp: AList.delete_eq image_iff intro!: length_filter_less)
  qed
  ultimately have "length slow' \<le> ?cap" by (cases "slow = []") (auto simp: slow'_def)
  then have "od_all (device_ok (ds_config s)) (AList.map_entry m (\<lambda>v. v\<lparr>dv_slow := slow'\<rparr>) (ds_devices ?s1))"
    using s1 cfg by (intro od_all_map_entry) (auto simp: d1_inv_simps device_ok_def)
  moreover have "ds_devices (observe_slow_cluster mac ip dst n t s) = AList.map_entry m (\<lambda>v. v\<lparr>dv_slow := slow'\<rparr>) (ds_devices ?s1)"
    by (simp add: observe_slow_cluster_def Some Let_def slow'_def slow_def)
  moreover have "d1_inv (observe_slow_cluster mac ip dst n t s) \<longleftrightarrow>
      d1_inv (?s1\<lparr>ds_devices := ds_devices (observe_slow_cluster mac ip dst n t s)\<rparr>)"
    by (simp add: observe_slow_cluster_def Some Let_def d1_inv_simps)
  ultimately show ?thesis using s1 cfg by (simp add: d1_inv_simps)
qed (simp add: observe_slow_cluster_def)

lemma d1_inv_binding: "d1_inv s \<Longrightarrow> d1_inv (observe_binding t b s)"
proof -
  assume s: "d1_inv s"
  let ?k = "(b_ip b, b_mac b)"
  obtain x d where e: "lru_enter (dc_max_known_macs (ds_config s)) ?k () (ds_known_leases s) = (x, d)"
    by (cases "lru_enter (dc_max_known_macs (ds_config s)) ?k () (ds_known_leases s)")
  have "od_distinct d" "length d \<le> dc_max_known_macs (ds_config s)"
    using s by (auto simp: d1_inv_simps intro: lru_enter_bounds [OF _ _ _ e])
  then show ?thesis
    using s e by (simp add: observe_binding_def d1_inv_simps length_d1_append del: map_of_eq_Some_iff)
qed

lemma d1_inv_bindings: "d1_inv s \<Longrightarrow> d1_inv (observe_bindings bs t s)"
proof -
  have "d1_inv s \<Longrightarrow> d1_inv (fold (observe_binding t) bs s)" for s
    by (induction bs arbitrary: s) (simp_all add: d1_inv_binding)
  then show "d1_inv s \<Longrightarrow> ?thesis" by (simp add: observe_bindings_def d1_inv_simps)
qed

lemma d1_inv_portal: "d1_inv s \<Longrightarrow> d1_inv (observe_portal_failure account mac t s)"
proof -
  assume s: "d1_inv s"
  let ?c = "ds_config s"
  obtain b d where e: "lru_enter (dc_max_tracked_accounts ?c) account [] (ds_accounts s) = (b, d)"
    by (cases "lru_enter (dc_max_tracked_accounts ?c) account [] (ds_accounts s)")
  have d: "od_distinct d" "length d \<le> dc_max_tracked_accounts ?c"
    using s by (auto simp: d1_inv_simps intro: lru_enter_bounds [OF _ _ _ e])
  have "od_all (account_ok ?c) d"
    using s by (intro od_all_enter [OF _ _ _ e]) (auto simp: d1_inv_simps account_ok_def)
  moreover have "account_ok ?c (deque_append (dc_max_events_per_mac ?c) (t, unicast_mac_option mac) v)" if "account_ok ?c v" for v
  proof -
    have "case m of None \<Rightarrow> True | Some x \<Rightarrow> identity x"
      if "(t', m) \<in> set (deque_append (dc_max_events_per_mac ?c) (t, unicast_mac_option mac) v)" for t' m
    proof -
      have "(t', m) \<in> set v \<or> m = unicast_mac_option mac"
        using that set_deque_append [of "dc_max_events_per_mac ?c" "(t, unicast_mac_option mac)" v] by blast
      then show ?thesis
        using \<open>account_ok ?c v\<close> identity_unicast by (auto simp: account_ok_def split: option.splits)
    qed
    then show ?thesis by (auto simp: account_ok_def length_d1_append)
  qed
  ultimately have "od_all (account_ok ?c)
      (AList.map_entry account (deque_append (dc_max_events_per_mac ?c) (t, unicast_mac_option mac)) d)"
    by (rule od_all_map_entry)
  then show ?thesis
    using s d e by (simp add: observe_portal_failure_def d1_inv_simps length_d1_append)
qed

lemma length_prune: "length (prune_events s now f es) \<le> length es"
  by (simp add: prune_events_def length_dropWhile_le)

lemma d1_inv_measure_device: "d1_inv s \<Longrightarrow> measure_device m now s = (r, s') \<Longrightarrow> d1_inv s'"
proof (cases "map_of (ds_devices s) m")
  case (Some v)
  assume s: "d1_inv s" "measure_device m now s = (r, s')"
  then have "device_ok (ds_config s) v" using Some by (metis (no_types, lifting) d1_bounded_def d1_inv_def od_all_lookup)
  then have "device_ok (ds_config s) (v\<lparr>dv_events := prune_events s now cn_at (dv_events v)\<rparr>)"
    using length_prune [of s now cn_at "dv_events v"] by (simp add: device_ok_def)
  then have "od_all (device_ok (ds_config s))
      (AList.map_entry m (\<lambda>_. v\<lparr>dv_events := prune_events s now cn_at (dv_events v)\<rparr>) (ds_devices s))"
    using s(1) by (intro od_all_map_entry_at) (auto simp: d1_inv_simps)
  then show ?thesis
    using s Some by (auto simp: measure_device_def d1_inv_simps simp del: map_of_eq_Some_iff)
qed (simp add: measure_device_def)

lemma d1_inv_measure_destination: "d1_inv s \<Longrightarrow> measure_destination d now s = (r, s') \<Longrightarrow> d1_inv s'"
proof (cases "map_of (ds_destinations s) d")
  case (Some a)
  assume s: "d1_inv s" "measure_destination d now s = (r, s')"
  then have "length a \<le> dc_max_events_per_mac (ds_config s)" using Some by (metis (no_types, lifting) d1_bounded_def d1_inv_def od_all_lookup)
  then have "length (prune_events s now fst a) \<le> dc_max_events_per_mac (ds_config s)"
    using length_prune [of s now fst a] by simp
  then have "od_all (\<lambda>a. length a \<le> dc_max_events_per_mac (ds_config s))
      (AList.map_entry d (\<lambda>_. prune_events s now fst a) (ds_destinations s))"
    using s(1) by (intro od_all_map_entry_at) (auto simp: d1_inv_simps)
  then show ?thesis
    using s Some by (auto simp: measure_destination_def d1_inv_simps simp del: map_of_eq_Some_iff)
qed (simp add: measure_destination_def)

subsection \<open>Firing\<close>

definition thresholds_ok :: "d1_threshold_file \<Rightarrow> bool" where
  "thresholds_ok f \<longleftrightarrow> (\<forall>e \<in> snd ` set (tf_thresholds f). entry_fields_ok e \<and> check_clamped e)"

lemma threshold_value_nonneg: "thresholds_ok f \<Longrightarrow> threshold_value f k = Some t \<Longrightarrow> 0 \<le> t"
  by (force simp: thresholds_ok_def threshold_value_def entry_fields_ok_def dest: map_of_SomeD)

definition fired :: "d1_state \<Rightarrow> d1_detector \<Rightarrow> scope \<Rightarrow> int \<Rightarrow> real \<Rightarrow> mac_address option \<Rightarrow> string \<Rightarrow> datetime \<Rightarrow> d1_evidence \<Rightarrow> bool" where
  "fired s detector scope window value mac subject now e \<longleftrightarrow>
     threshold_value (ds_thresholds s) (threshold_key detector scope window) = Some (d1_threshold e)
     \<and> d1_threshold e < value \<and> d1_value e = value \<and> d1_detector e = detector \<and> d1_window_seconds e = window
     \<and> d1_mac e = mac \<and> d1_observed_at e = now
     \<and> d1_id e = d1_evidence_id detector scope window subject (evidence_bucket now window)"

text \<open>A detector fires exactly when there is a threshold and the value exceeds it.\<close>

lemma d1_fire_exact:
  assumes "thresholds_ok (ds_thresholds s)" "0 < w" "0 \<le> v" "case mac of None \<Rightarrow> True | Some m \<Rightarrow> identity m"
  shows "\<exists>r. d1_fire s d sc w v mac sub now = Some r \<and> (\<forall>e. r = Some e \<longrightarrow> fired s d sc w v mac sub now e)
    \<and> (r = None \<longleftrightarrow> (\<forall>t. threshold_value (ds_thresholds s) (threshold_key d sc w) = Some t \<longrightarrow> v \<le> t))"
proof (cases "threshold_value (ds_thresholds s) (threshold_key d sc w)")
  case (Some t)
  then have "0 \<le> t" by (rule threshold_value_nonneg [OF assms(1)])
  moreover have "d1_evidence_id d sc w sub b \<noteq> []" for b by (simp add: d1_evidence_id_def)
  ultimately show ?thesis
    using assms(2-4) Some
    by (cases mac) (auto simp: d1_fire_def new_d1_evidence_def d1_evidence_ok_def fired_def identity_def)
qed (simp add: d1_fire_def)

lemma collect_all: "None \<notin> set rs \<Longrightarrow> \<exists>ev. collect rs = Some ev \<and> (\<forall>e. e \<in> set ev \<longleftrightarrow> Some (Some e) \<in> set rs)"
  by (induction rs rule: collect.induct) auto

lemma fire_measured_total:
  assumes "thresholds_ok (ds_thresholds s)" "case mac of None \<Rightarrow> True | Some m \<Rightarrow> identity m"
    and "\<forall>(k, v) \<in> set measured. 0 < tk_window_seconds k \<and> 0 \<le> v"
  shows "None \<notin> set (fire_measured s mac sub now measured)"
proof
  assume "None \<in> set (fire_measured s mac sub now measured)"
  then obtain k v where k: "(k, v) \<in> set measured"
      "d1_fire s (tk_detector k) (tk_scope k) (tk_window_seconds k) v mac sub now = None"
    by (auto simp: fire_measured_def)
  then have "0 < tk_window_seconds k" "0 \<le> v" using assms(3) by auto
  then show False using d1_fire_exact [OF assms(1) _ _ assms(2)] k(2) by (metis option.distinct(1))
qed

lemma fire_measured_member:
  assumes "thresholds_ok (ds_thresholds s)" "case mac of None \<Rightarrow> True | Some m \<Rightarrow> identity m"
    and "\<forall>(k, v) \<in> set measured. 0 < tk_window_seconds k \<and> 0 \<le> v"
  shows "Some (Some e) \<in> set (fire_measured s mac sub now measured) \<longleftrightarrow>
    (\<exists>(k, v) \<in> set measured. fired s (tk_detector k) (tk_scope k) (tk_window_seconds k) v mac sub now e)"
proof -
  have *: "d1_fire s (tk_detector k) (tk_scope k) (tk_window_seconds k) v mac sub now = Some (Some e)
      \<longleftrightarrow> fired s (tk_detector k) (tk_scope k) (tk_window_seconds k) v mac sub now e" if "(k, v) \<in> set measured" for k v
  proof -
    have k: "0 < tk_window_seconds k" "0 \<le> v" using assms(3) that by auto
    obtain r where r: "d1_fire s (tk_detector k) (tk_scope k) (tk_window_seconds k) v mac sub now = Some r"
        "\<forall>e. r = Some e \<longrightarrow> fired s (tk_detector k) (tk_scope k) (tk_window_seconds k) v mac sub now e"
        "r = None \<longleftrightarrow> (\<forall>t. threshold_value (ds_thresholds s) (threshold_key (tk_detector k) (tk_scope k) (tk_window_seconds k)) = Some t \<longrightarrow> v \<le> t)"
      using d1_fire_exact [OF assms(1) k assms(2)] by blast
    show ?thesis
    proof
      assume f: "fired s (tk_detector k) (tk_scope k) (tk_window_seconds k) v mac sub now e"
      then obtain e' where e': "r = Some e'" using r(3) by (cases r) (auto simp: fired_def)
      then have "e' = e" using f r(2) by (auto simp: fired_def intro!: d1_evidence.equality)
      then show "d1_fire s (tk_detector k) (tk_scope k) (tk_window_seconds k) v mac sub now = Some (Some e)" using r(1) e' by simp
    qed (use r in auto)
  qed
  show ?thesis
  proof
    assume "Some (Some e) \<in> set (fire_measured s mac sub now measured)"
    then obtain k v where "(k, v) \<in> set measured"
        "d1_fire s (tk_detector k) (tk_scope k) (tk_window_seconds k) v mac sub now = Some (Some e)"
      by (auto simp: fire_measured_def)
    then show "\<exists>(k, v) \<in> set measured. fired s (tk_detector k) (tk_scope k) (tk_window_seconds k) v mac sub now e"
      using * by blast
  next
    assume "\<exists>(k, v) \<in> set measured. fired s (tk_detector k) (tk_scope k) (tk_window_seconds k) v mac sub now e"
    then obtain k v where "(k, v) \<in> set measured"
        "d1_fire s (tk_detector k) (tk_scope k) (tk_window_seconds k) v mac sub now = Some (Some e)"
      using * by blast
    then show "Some (Some e) \<in> set (fire_measured s mac sub now measured)"
      unfolding fire_measured_def by (metis (no_types, lifting) case_prod_conv image_eqI set_map)
  qed
qed

subsection \<open>Measured values\<close>

lemma window_pos: "d1_inv s \<Longrightarrow> w \<in> set (ds_windows s) \<Longrightarrow> 0 < w"
  by (auto simp: d1_inv_simps sorted_windows_def check_windows_def)

lemma failed_ratio_range: "failed_ratio s es = Some r \<Longrightarrow> 0 \<le> r \<and> r \<le> 1"
proof -
  assume "failed_ratio s es = Some r"
  then have "r = real (length (filter (\<lambda>e. cn_failed e = Some True) (filter has_outcome es))) / real (length (filter has_outcome es))"
    by (auto simp: failed_ratio_def Let_def split: if_splits)
  moreover have "length (filter (\<lambda>e. cn_failed e = Some True) (filter has_outcome es)) \<le> length (filter has_outcome es)"
    by (rule length_filter_le)
  ultimately show ?thesis by (cases "length (filter has_outcome es) = 0") (simp_all del: filter_filter)
qed

lemma device_window_nonneg: "(k, v) \<in> set (device_window s d now w) \<Longrightarrow> 0 \<le> v \<and> tk_scope k = SC_DEVICE \<and> tk_window_seconds k = w"
  using failed_ratio_range
  by (auto simp: device_window_def Let_def max_distinct_def brute_force_def slow_value_def split: option.splits)

lemma measure_device_ok:
  assumes "d1_inv s" "measure_device m now s = (r, s')"
  shows "\<forall>(k, v) \<in> set r. 0 < tk_window_seconds k \<and> 0 \<le> v" "r \<noteq> [] \<Longrightarrow> identity m" "ds_thresholds s' = ds_thresholds s"
proof -
  show "\<forall>(k, v) \<in> set r. 0 < tk_window_seconds k \<and> 0 \<le> v"
    using assms(2) device_window_nonneg window_pos [OF assms(1)]
    by (fastforce simp: measure_device_def Let_def simp del: map_of_eq_Some_iff split: option.splits)
  show "identity m" if "r \<noteq> []"
  proof -
    have "m \<in> fst ` set (ds_devices s)"
      using that assms(2) by (auto simp: measure_device_def simp del: map_of_eq_Some_iff split: option.splits dest: map_of_Some_key)
    then show ?thesis using assms(1) by (auto simp: d1_inv_def identities_def)
  qed
  show "ds_thresholds s' = ds_thresholds s"
    using assms(2) by (auto simp: measure_device_def Let_def simp del: map_of_eq_Some_iff split: option.splits)
qed

lemma measure_destination_ok:
  assumes "d1_inv s" "measure_destination d now s = (r, s')"
  shows "\<forall>(k, v) \<in> set r. 0 < tk_window_seconds k \<and> 0 \<le> v" "ds_thresholds s' = ds_thresholds s"
  using assms window_pos [OF assms(1)]
  by (auto simp: measure_destination_def Let_def simp del: map_of_eq_Some_iff split: option.splits)

lemma measure_global_ok: "d1_inv s \<Longrightarrow> \<forall>(k, v) \<in> set (measure_global now s). 0 < tk_window_seconds k \<and> 0 \<le> v"
  by (auto simp: measure_global_def intro: window_pos)

lemma culprit_identity:
  assumes "account_ok c fs"
  shows "case culprit (map snd (filter P fs)) of None \<Rightarrow> True | Some m \<Rightarrow> identity m"
proof (cases "culprit (map snd (filter P fs))")
  case (Some m)
  then have "remdups (map snd (filter P fs)) = [Some m]"
    by (auto simp: culprit_def split: list.splits)
  then have "Some m \<in> set (map snd (filter P fs))" by (metis list.set_intros(1) set_remdups)
  then have "identity m" using assms by (auto simp: account_ok_def)
  then show ?thesis using Some by simp
qed simp

subsection \<open>Runs\<close>

text \<open>The states the detection thread can bring the detectors into: any sequence of observations,
  evaluations and threshold reloads.\<close>

inductive d1_reachable :: "d1_config \<Rightarrow> d1_state \<Rightarrow> bool" for c :: d1_config where
  d1_start: "d1_config_ok c \<Longrightarrow> thresholds_ok t \<Longrightarrow> d1_reachable c (new_d1_state c t extra)"
| d1_record: "d1_reachable c s \<Longrightarrow> start_from_record f is_start = Inr (Some e) \<Longrightarrow> d1_reachable c (d1_observe e s)"
| d1_signal: "d1_reachable c s \<Longrightarrow> start_from_signal m sip dip port prot t = Some e \<Longrightarrow> d1_reachable c (d1_observe e s)"
| d1_slow: "d1_reachable c s \<Longrightarrow> d1_reachable c (observe_slow_cluster m sip dip n t s)"
| d1_bindings: "d1_reachable c s \<Longrightarrow> d1_reachable c (observe_bindings bs t s)"
| d1_portal: "d1_reachable c s \<Longrightarrow> d1_reachable c (observe_portal_failure a m t s)"
| d1_reload: "d1_reachable c s \<Longrightarrow> thresholds_ok t \<Longrightarrow> d1_reachable c (replace_thresholds t s)"
| d1_device: "d1_reachable c s \<Longrightarrow> d1_reachable c (snd (evaluate_device m now s))"
| d1_destination: "d1_reachable c s \<Longrightarrow> d1_reachable c (snd (evaluate_destination d now s))"

lemma start_from_record_identity: "start_from_record f b = Inr (Some e) \<Longrightarrow> identity (cn_mac e)"
  by (auto simp: start_from_record_def start_from_features_def identity_unicast
      split: sum.splits option.splits if_splits)

lemma start_from_signal_identity: "start_from_signal m sip dip port prot t = Some e \<Longrightarrow> identity (cn_mac e)"
  by (auto simp: start_from_signal_def identity_unicast split: option.splits if_splits)

lemma d1_inv_evaluate_device: "d1_inv s \<Longrightarrow> d1_inv (snd (evaluate_device m now s))"
  using d1_inv_measure_device by (simp add: evaluate_device_def split: prod.split)

lemma d1_inv_evaluate_destination: "d1_inv s \<Longrightarrow> d1_inv (snd (evaluate_destination d now s))"
  using d1_inv_measure_destination by (simp add: evaluate_destination_def split: prod.split)

text \<open>No observation changes the configuration or the thresholds.\<close>

definition same_rules :: "d1_state \<Rightarrow> d1_state \<Rightarrow> bool" where
  "same_rules s s' \<longleftrightarrow> ds_config s' = ds_config s \<and> ds_thresholds s' = ds_thresholds s"

lemma same_rules_trans: "same_rules s s' \<Longrightarrow> same_rules s' s'' \<Longrightarrow> same_rules s s''"
  by (simp add: same_rules_def)

lemma enter_device_rules: "same_rules s (enter_device m ip s)"
  by (simp add: same_rules_def enter_device_def split: prod.split)

lemma note_mac_rules: "same_rules s (note_mac m t s)"
  by (cases "lru_enter (dc_max_known_macs (ds_config s)) m () (ds_known_macs s)")
    (simp add: same_rules_def note_mac_def del: map_of_eq_Some_iff)

lemma add_event_rules: "same_rules s (add_event e s)"
  by (simp add: same_rules_def add_event_def Let_def)

lemma add_arrival_rules: "same_rules s (add_arrival e s)"
  by (simp add: same_rules_def add_arrival_def Let_def split: prod.split)

lemma observe_rules: "same_rules s (d1_observe e s)"
  unfolding d1_observe_def
  by (meson same_rules_trans enter_device_rules note_mac_rules add_event_rules add_arrival_rules)

lemma slow_rules: "same_rules s (observe_slow_cluster m sip dip n t s)"
  using enter_device_rules [of s] by (simp add: same_rules_def observe_slow_cluster_def Let_def split: option.split)

lemma bindings_rules: "same_rules s (observe_bindings bs t s)"
proof -
  have "same_rules s (fold (observe_binding t) bs s)" for s
  proof (induction bs arbitrary: s)
    case (Cons b bs)
    have "same_rules s (observe_binding t b s)"
      by (simp add: same_rules_def observe_binding_def Let_def del: map_of_eq_Some_iff split: prod.split)
    then show ?case using Cons same_rules_trans by simp
  qed (simp add: same_rules_def)
  then show ?thesis by (simp add: observe_bindings_def same_rules_def)
qed

lemma portal_rules: "same_rules s (observe_portal_failure a m t s)"
  by (simp add: same_rules_def observe_portal_failure_def Let_def split: prod.split)

lemma evaluate_rules: "same_rules s (snd (evaluate_device m now s))" "same_rules s (snd (evaluate_destination d now s))"
  by (simp_all add: same_rules_def evaluate_device_def evaluate_destination_def measure_device_def measure_destination_def
      Let_def del: map_of_eq_Some_iff split: prod.split option.split)

lemma same_rules_ok: "same_rules s s' \<Longrightarrow> thresholds_ok (ds_thresholds s) \<Longrightarrow> ds_config s = c \<Longrightarrow> thresholds_ok (ds_thresholds s') \<and> ds_config s' = c"
  by (simp add: same_rules_def)

lemma reachable_inv: "d1_reachable c s \<Longrightarrow> d1_inv s"
proof (induction rule: d1_reachable.induct)
  case (d1_record s f is_start e)
  then show ?case using d1_inv_observe start_from_record_identity by blast
next
  case (d1_signal s m sip dip port prot t e)
  then show ?case using d1_inv_observe start_from_signal_identity by blast
qed (simp_all add: d1_inv_new d1_inv_slow d1_inv_bindings d1_inv_portal d1_inv_thresholds
    d1_inv_evaluate_device d1_inv_evaluate_destination)

lemma reachable_rules: "d1_reachable c s \<Longrightarrow> thresholds_ok (ds_thresholds s) \<and> ds_config s = c"
proof (induction rule: d1_reachable.induct)
  case (d1_start t extra)
  then show ?case by (simp add: new_d1_state_def)
next
  case (d1_reload s t)
  then show ?case by (simp add: replace_thresholds_def)
qed (metis same_rules_ok observe_rules slow_rules bindings_rules portal_rules evaluate_rules)+

text \<open>
  C17: the detectors' memory is bounded by the configuration, whatever the traffic. After any sequence
  of observed connections, slow clusters, lease tables, portal failures, evaluations and threshold
  reloads, the tables of devices, destinations, known MACs, known leases and accounts, every deque in
  them and the three network-wide series are within the sizes of the \<open>[d1]\<close> section.
\<close>

theorem d1_state_bounded:
  assumes "d1_reachable c s"
  shows "d1_bounded s \<and> ds_config s = c"
  using reachable_inv [OF assms] reachable_rules [OF assms] by (simp add: d1_inv_def)

lemma default_d1_config_ok: "d1_config_ok default_d1_config"
  by (simp add: d1_config_ok_def default_d1_config_def check_windows_def)

lemma example_thresholds_valid: "thresholds_ok example_thresholds"
  using example_thresholds_ok by (simp add: threshold_file_ok_def thresholds_ok_def)

lemma example_reachable:
  "d1_reachable default_d1_config (observe_portal_failure ''alice'' None 5
     (snd (evaluate_device ''02:00:00:00:00:02'' 4 (new_d1_state default_d1_config example_thresholds [8443]))))"
  by (intro d1_portal d1_device d1_start default_d1_config_ok example_thresholds_valid)

theorem d1_state_bounded_witness:
  "d1_bounded (observe_portal_failure ''alice'' None 5
     (snd (evaluate_device ''02:00:00:00:00:02'' 4 (new_d1_state default_d1_config example_thresholds [8443]))))
   \<and> ds_config (observe_portal_failure ''alice'' None 5
     (snd (evaluate_device ''02:00:00:00:00:02'' 4 (new_d1_state default_d1_config example_thresholds [8443])))) = default_d1_config"
  by (rule d1_state_bounded [OF example_reachable])

lemma fired_rules: "ds_thresholds s' = ds_thresholds s \<Longrightarrow> fired s' = fired s"
  by (intro ext) (simp add: fired_def)

lemma evaluate_device_exact:
  assumes "d1_inv s" "thresholds_ok (ds_thresholds s)"
  shows "\<exists>ev. fst (evaluate_device mac now s) = Some ev
    \<and> (\<forall>e. e \<in> set ev \<longleftrightarrow> (\<exists>(k, v) \<in> set (fst (measure_device mac now s)).
          fired s (tk_detector k) (tk_scope k) (tk_window_seconds k) v (Some mac) mac now e))"
proof -
  obtain r s' where m: "measure_device mac now s = (r, s')" by (cases "measure_device mac now s")
  note mo = measure_device_ok [OF assms(1) m]
  show ?thesis
  proof (cases "r = []")
    case False
    then have id: "case Some mac of None \<Rightarrow> True | Some m \<Rightarrow> identity m" using mo(2) by simp
    have ok: "thresholds_ok (ds_thresholds s')" using assms(2) mo(3) by simp
    show ?thesis
      using collect_all [OF fire_measured_total [OF ok id mo(1)]] fire_measured_member [OF ok id mo(1)] m fired_rules [OF mo(3)]
      by (simp add: evaluate_device_def)
  qed (use m in \<open>simp add: evaluate_device_def fire_measured_def\<close>)
qed

lemma evaluate_destination_exact:
  assumes "d1_inv s" "thresholds_ok (ds_thresholds s)"
  shows "\<exists>ev. fst (evaluate_destination d now s) = Some ev
    \<and> (\<forall>e. e \<in> set ev \<longleftrightarrow> (\<exists>(k, v) \<in> set (fst (measure_destination d now s)).
          fired s (tk_detector k) (tk_scope k) (tk_window_seconds k) v None (show_ipv4 d) now e))"
proof -
  obtain r s' where m: "measure_destination d now s = (r, s')" by (cases "measure_destination d now s")
  note mo = measure_destination_ok [OF assms(1) m]
  have ok: "thresholds_ok (ds_thresholds s')" using assms(2) mo(2) by simp
  show ?thesis
    using collect_all [OF fire_measured_total [OF ok _ mo(1)]] fire_measured_member [OF ok _ mo(1)] m fired_rules [OF mo(2)]
    by (simp add: evaluate_destination_def)
qed

lemma evaluate_global_total:
  assumes inv: "d1_inv s" and ok: "thresholds_ok (ds_thresholds s)"
  shows "\<exists>ev. evaluate_global now s = Some ev"
proof -
  have "None \<notin> set (fire_measured s None ''lan'' now (measure_global now s))"
    by (rule fire_measured_total [OF ok _ measure_global_ok [OF inv]]) simp
  moreover have "fire_account s now w r \<noteq> None" if "w \<in> set (ds_windows s)" "r \<in> set (ds_accounts s)" for w r
  proof -
    have "account_ok (ds_config s) (snd r)" using inv that(2) by (auto simp: d1_inv_simps od_all_def)
    then show ?thesis
      unfolding fire_account_def Let_def
      using d1_fire_exact [OF ok window_pos [OF inv that(1)] of_nat_0_le_iff culprit_identity] by (metis option.distinct(1))
  qed
  ultimately show ?thesis
    using collect_all [of "fire_measured s None ''lan'' now (measure_global now s)
       @ concat (map (\<lambda>window. map (fire_account s now window) (ds_accounts s)) (ds_windows s))"]
    by (force simp: evaluate_global_def)
qed

text \<open>
  C39: evaluation never raises and fires exactly on exceeded thresholds. In every reachable state the
  device, destination and network evaluations return: the evidence of a device names that device and
  consists of the items for the measured values above their threshold, no more and no fewer, each with the
  value, threshold, window and identifier it was fired with; the evidence about a destination names no device.
\<close>

theorem d1_evaluation_exact:
  assumes "d1_reachable c s"
  shows "(\<exists>ev. fst (evaluate_device mac now s) = Some ev
      \<and> (\<forall>e. e \<in> set ev \<longleftrightarrow> (\<exists>(k, v) \<in> set (fst (measure_device mac now s)).
            fired s (tk_detector k) (tk_scope k) (tk_window_seconds k) v (Some mac) mac now e)))
    \<and> (\<exists>ev. fst (evaluate_destination d now s) = Some ev
      \<and> (\<forall>e. e \<in> set ev \<longleftrightarrow> (\<exists>(k, v) \<in> set (fst (measure_destination d now s)).
            fired s (tk_detector k) (tk_scope k) (tk_window_seconds k) v None (show_ipv4 d) now e)))
    \<and> (\<exists>ev. evaluate_global now s = Some ev)"
  using evaluate_device_exact evaluate_destination_exact evaluate_global_total
    reachable_inv [OF assms] reachable_rules [OF assms] by simp

text \<open>A device that tried one port, with a threshold of zero: the vertical scan detector fires.\<close>

definition zero_thresholds :: d1_threshold_file where
  "zero_thresholds = example_thresholds\<lparr>tf_thresholds :=
     [(show_key (threshold_key D1_VERTICAL_SCAN SC_DEVICE 10),
       floor_entry (threshold_key D1_VERTICAL_SCAN SC_DEVICE 10) \<lparr>pr_floor = 0, pr_ceiling = 50\<rparr>)]\<rparr>"

definition example_signal :: connection_start where
  "example_signal = \<lparr>cn_mac = ''02:00:00:00:00:02'', cn_source_ip = ipv4 10 0 0 5, cn_destination_ip = ipv4 10 0 0 9,
     cn_destination_port = Some 22, cn_at = 5, cn_failed = None, cn_duration_seconds = None, cn_byte_count = None\<rparr>"

definition example_watch :: d1_state where
  "example_watch = d1_observe example_signal (new_d1_state default_d1_config zero_thresholds [])"

definition example_firing :: "datetime \<Rightarrow> d1_evidence" where
  "example_firing now = \<lparr>d1_id = d1_evidence_id D1_VERTICAL_SCAN SC_DEVICE 10 ''02:00:00:00:00:02'' 0,
     d1_detector = D1_VERTICAL_SCAN, d1_window_seconds = 10, d1_value = 1, d1_threshold = 0,
     d1_mac = Some ''02:00:00:00:00:02'', d1_observed_at = now\<rparr>"

lemma example_unicast: "unicast_mac ''02:00:00:00:00:02'' = Some ''02:00:00:00:00:02''"
  by code_simp

lemma example_watch_reachable: "d1_reachable default_d1_config example_watch"
  unfolding example_watch_def
proof (rule d1_signal)
  have "thresholds_ok zero_thresholds"
    by (simp add: thresholds_ok_def zero_thresholds_def floor_entry_def entry_fields_ok_def check_clamped_def show_key_nonempty)
  then show "d1_reachable default_d1_config (new_d1_state default_d1_config zero_thresholds [])"
    by (intro d1_start default_d1_config_ok)
  show "start_from_signal (Some ''02:00:00:00:00:02'') (ipv4 10 0 0 5) (ipv4 10 0 0 9) (Some 22) P_TCP 5 = Some example_signal"
    by (simp add: start_from_signal_def unicast_mac_option_def example_unicast example_signal_def)
qed

lemmas d1_evaluate_simps = d1_observe_def enter_device_def lru_enter_def note_mac_def add_event_def add_arrival_def
  new_d1_state_def default_d1_config_def deque_append_def Let_def sorted_windows_def measure_device_def
  prune_events_def seconds_def device_window_def in_window_def max_distinct_def bucket_add_def max_default_def
  failed_ratio_def has_outcome_def slow_value_def brute_force_def brute_force_candidate_def map_filter_def

lemma example_measured:
  assumes "now \<in> {7, 8}"
  shows "fst (measure_device ''02:00:00:00:00:02'' now example_watch) =
    [(threshold_key D1_VERTICAL_SCAN SC_DEVICE 10, 1), (threshold_key D1_HORIZONTAL_SCAN SC_DEVICE 10, 1),
     (threshold_key D1_BRUTE_FORCE SC_DEVICE 10, 0), (threshold_key D1_SLOW_RATE_DOS SC_DEVICE 10, 0),
     (threshold_key D1_VERTICAL_SCAN SC_DEVICE 60, 1), (threshold_key D1_HORIZONTAL_SCAN SC_DEVICE 60, 1),
     (threshold_key D1_BRUTE_FORCE SC_DEVICE 60, 0), (threshold_key D1_SLOW_RATE_DOS SC_DEVICE 60, 0)]"
  using assms by (auto simp: example_watch_def example_signal_def d1_evaluate_simps)

theorem d1_evaluation_exact_witness:
  "\<exists>ev. fst (evaluate_device ''02:00:00:00:00:02'' 7 example_watch) = Some ev \<and> example_firing 7 \<in> set ev"
proof -
  have m: "(threshold_key D1_VERTICAL_SCAN SC_DEVICE 10, 1) \<in> set (fst (measure_device ''02:00:00:00:00:02'' 7 example_watch))"
    by (simp add: example_measured)
  have "ds_thresholds example_watch = zero_thresholds"
    using observe_rules by (simp add: example_watch_def same_rules_def new_d1_state_def)
  then have "fired example_watch D1_VERTICAL_SCAN SC_DEVICE 10 1 (Some ''02:00:00:00:00:02'') ''02:00:00:00:00:02'' 7 (example_firing 7)"
    by (simp add: fired_def example_firing_def threshold_value_def zero_thresholds_def floor_entry_def evidence_bucket_def seconds_def)
  then show ?thesis
    using d1_evaluation_exact [OF example_watch_reachable, of "''02:00:00:00:00:02''" 7, THEN conjunct1] m by force
qed

end
