(* ===== verification/D1_Detection.thy ===== *)
theory D1_Detection
  imports D1_Bounds Policy_Engine
begin

section \<open>What the deterministic detectors measure\<close>

text \<open>
  Facts about \<open>detection_v2/d1.py\<close>: the measured values are the cardinalities they are documented to be,
  creation-time signals are never counted a second time, the state keeps its bounds, evaluation never
  raises, and an evidence identifier names its detector, window and time bucket, so that re-evaluating
  within a bucket cannot make the policy engine act again.
\<close>

subsection \<open>Counting\<close>

lemma max_default_le: "max_default xs \<le> n \<longleftrightarrow> (\<forall>x \<in> set xs. x \<le> n)"
  by (induction xs) (auto simp: max_default_def)

lemma max_default_Max: "max_default xs = Max (insert 0 (set xs))"
proof (rule antisym)
  show "max_default xs \<le> Max (insert 0 (set xs))" by (simp add: max_default_le)
  have "x \<le> max_default xs" if "x \<in> set xs" for x using max_default_le [of xs "max_default xs"] that by blast
  then show "Max (insert 0 (set xs)) \<le> max_default xs" by simp
qed

lemma bucket_add_lookup:
  "map_of (bucket_add k v d) = (map_of d)(k \<mapsto> (case map_of d k of None \<Rightarrow> [v] | Some vs \<Rightarrow> List.insert v vs))"
  by (cases "map_of d k") (simp_all add: bucket_add_def del: map_of_eq_Some_iff map_of_eq_None_iff)

lemma od_distinct_bucket_add: "od_distinct d \<Longrightarrow> od_distinct (bucket_add k v d)"
  by (auto simp: bucket_add_def split: option.split)

text \<open>The buckets built from a list of events hold, per group, the members of that group.\<close>

lemma buckets_lookup:
  "case map_of (fold (\<lambda>e. bucket_add (g e) (m e)) es []) k of
     None \<Rightarrow> k \<notin> g ` set es
   | Some vs \<Rightarrow> k \<in> g ` set es \<and> distinct vs \<and> set vs = m ` {e \<in> set es. g e = k}"
proof (induction es rule: rev_induct)
  case (snoc e es)
  show ?case
  proof (cases "g e = k")
    case True
    then have "{e' \<in> set (es @ [e]). g e' = k} = insert e {e' \<in> set es. g e' = k}" by auto
    moreover have "{e' \<in> set es. g e' = k} = {}" if "k \<notin> g ` set es" using that by auto
    ultimately show ?thesis using True snoc
      by (auto simp: bucket_add_lookup distinct_insert split: option.splits)
  next
    case False
    then have "{e' \<in> set (es @ [e]). g e' = k} = {e' \<in> set es. g e' = k}" by auto
    then show ?thesis using False snoc by (auto simp: bucket_add_lookup split: option.splits)
  qed
qed simp

lemma buckets_distinct: "od_distinct (fold (\<lambda>e. bucket_add (g e) (m e)) es [])"
  by (rule fold_invariant [where P = od_distinct and Q = "\<lambda>_. True"]) (simp_all add: od_distinct_bucket_add)

text \<open>
  The scan detectors count exactly. The value of \<open>_max_distinct\<close> is the largest number of
  different members of any one group: over destinations the most different ports tried on one host,
  over ports the most different hosts tried on one port, and zero without events.
\<close>

theorem max_distinct_exact:
  "max_distinct es g m = real (Max (insert 0 ((\<lambda>k. card (m ` {e \<in> set es. g e = k})) ` g ` set es)))"
proof -
  let ?d = "fold (\<lambda>e. bucket_add (g e) (m e)) es []"
  have len: "k \<in> g ` set es \<and> length vs = card (m ` {e \<in> set es. g e = k})" if "(k, vs) \<in> set ?d" for k vs
    using buckets_lookup [where g = g and m = m and es = es and k = k] map_of_is_SomeI [OF buckets_distinct that] by (auto dest: distinct_card)
  have all: "\<exists>vs. (k, vs) \<in> set ?d" if "k \<in> g ` set es" for k
    using buckets_lookup [where g = g and m = m and es = es and k = k] that by (auto split: option.splits dest: map_of_SomeD)
  have "(\<lambda>(k, vs). length vs) ` set ?d = (\<lambda>k. card (m ` {e \<in> set es. g e = k})) ` g ` set es"
  proof (intro set_eqI iffI)
    fix n assume "n \<in> (\<lambda>(k, vs). length vs) ` set ?d"
    then obtain k vs where "(k, vs) \<in> set ?d" "n = length vs" by auto
    then show "n \<in> (\<lambda>k. card (m ` {e \<in> set es. g e = k})) ` g ` set es" using len by blast
  next
    fix n assume "n \<in> (\<lambda>k. card (m ` {e \<in> set es. g e = k})) ` g ` set es"
    then obtain k where k: "k \<in> g ` set es" "n = card (m ` {e \<in> set es. g e = k})" by blast
    then obtain vs where "(k, vs) \<in> set ?d" using all by blast
    then show "n \<in> (\<lambda>(k, vs). length vs) ` set ?d" using k(2) len by (intro image_eqI [of _ _ "(k, vs)"]) auto
  qed
  then show ?thesis by (simp add: max_distinct_def max_default_Max)
qed

lemma max_distinct_cong:
  assumes "(\<lambda>e. (g e, m e)) ` set es = (\<lambda>e. (g e, m e)) ` set es'"
  shows "max_distinct es g m = max_distinct es' g m"
proof -
  have "m ` {e \<in> set es. g e = k} = {v. (k, v) \<in> (\<lambda>e. (g e, m e)) ` set es}" for k es by force
  moreover have "g ` set es = fst ` (\<lambda>e. (g e, m e)) ` set es" for es by force
  ultimately show ?thesis using assms by (simp add: max_distinct_exact)
qed

subsection \<open>Signals\<close>

lemma failed_ratio_outcomes: "failed_ratio s (filter has_outcome es) = failed_ratio s es"
  by (simp add: failed_ratio_def)

lemma failed_ratio_signal: "\<not> has_outcome e \<Longrightarrow> failed_ratio s (xs @ e # ys) = failed_ratio s (xs @ ys)"
  by (subst (1 2) failed_ratio_outcomes [symmetric]) simp

lemma brute_force_signal: "cn_duration_seconds e = None \<Longrightarrow> brute_force s (xs @ e # ys) = brute_force s (xs @ ys)"
  by (simp add: brute_force_def brute_force_candidate_def map_filter_def split: option.split)

lemma max_distinct_seen:
  assumes "e' \<in> set (xs @ ys)" "P e'" "g e = g e'" "m e = m e'"
  shows "max_distinct (filter P (xs @ e # ys)) g m = max_distinct (filter P (xs @ ys)) g m"
  by (rule max_distinct_cong) (use assms in \<open>auto simp: image_iff\<close>)

text \<open>
  A creation-time signal never counts a connection a second time. Adding the start made from a
  signal, at any place among a device's events, leaves every detector's value in a window unchanged as
  soon as some event in that window names the same destination and port; the failed-handshake ratio
  and the brute-force count ignore it in any case.
\<close>

theorem signal_not_double_counted:
  assumes sig: "start_from_signal mac sip dip port prot t = Some e"
    and seen: "e' \<in> set (xs @ ys)" "cn_destination_ip e' = dip" "cn_destination_port e' = port" "in_window w now (cn_at e')"
  shows "device_window s (v\<lparr>dv_events := xs @ e # ys\<rparr>) now w = device_window s (v\<lparr>dv_events := xs @ ys\<rparr>) now w"
proof -
  have e: "\<not> has_outcome e" "cn_duration_seconds e = None" "cn_destination_ip e = dip" "cn_destination_port e = port"
    using sig by (auto simp: start_from_signal_def has_outcome_def split: option.splits if_splits)
  let ?F = "filter (\<lambda>e. in_window w now (cn_at e))"
  have "max_distinct (?F (xs @ e # ys)) cn_destination_ip cn_destination_port = max_distinct (?F (xs @ ys)) cn_destination_ip cn_destination_port"
      "max_distinct (?F (xs @ e # ys)) cn_destination_port cn_destination_ip = max_distinct (?F (xs @ ys)) cn_destination_port cn_destination_ip"
    using e seen by (intro max_distinct_seen [of e']; simp)+
  moreover have "brute_force s (?F (xs @ e # ys)) = brute_force s (?F (xs @ ys))"
      "failed_ratio s (?F (xs @ e # ys)) = failed_ratio s (?F (xs @ ys))"
    using e brute_force_signal failed_ratio_signal by simp_all
  ultimately show ?thesis
    using e seen unfolding device_window_def by (simp add: slow_value_def Let_def del: filter_append filter.simps)
qed

definition example_start :: "int \<Rightarrow> datetime \<Rightarrow> connection_start" where
  "example_start port t = \<lparr>cn_mac = ''02:00:00:00:00:02'', cn_source_ip = ipv4 10 0 0 5, cn_destination_ip = ipv4 10 0 0 9,
     cn_destination_port = Some port, cn_at = t, cn_failed = Some True, cn_duration_seconds = Some 0, cn_byte_count = Some 0\<rparr>"

definition example_d1 :: d1_state where
  "example_d1 = new_d1_state default_d1_config example_thresholds []"

definition example_d1_device :: d1_device where
  "example_d1_device = \<lparr>dv_last_ip = ipv4 10 0 0 5, dv_events = [], dv_slow = []\<rparr>"

theorem signal_not_double_counted_witness:
  "\<exists>e. start_from_signal (Some ''02:00:00:00:00:02'') (ipv4 10 0 0 5) (ipv4 10 0 0 9) (Some 22) P_TCP 0 = Some e
    \<and> device_window example_d1 (example_d1_device\<lparr>dv_events := [] @ e # [example_start 22 5]\<rparr>) 10 10
        = device_window example_d1 (example_d1_device\<lparr>dv_events := [] @ [example_start 22 5]\<rparr>) 10 10"
proof -
  have "unicast_mac ''02:00:00:00:00:02'' = Some ''02:00:00:00:00:02''" by code_simp
  then obtain e where e: "start_from_signal (Some ''02:00:00:00:00:02'') (ipv4 10 0 0 5) (ipv4 10 0 0 9) (Some 22) P_TCP 0 = Some e"
    by (simp add: start_from_signal_def unicast_mac_option_def)
  show ?thesis
    using e signal_not_double_counted [OF e, of "example_start 22 5" "[]" "[example_start 22 5]" 10 10]
    by (auto simp: example_start_def in_window_def seconds_def)
qed

subsection \<open>Evidence identifiers\<close>

lemma join_split_on: "join [c] (split_on c s) = s"
proof (induction s)
  case (Cons x s)
  then show ?case by (cases "split_on c s"; cases "tl (split_on c s)") auto
qed simp

lemma split_on_inject [simp]: "split_on c s = split_on c s' \<longleftrightarrow> s = s'"
  by (metis join_split_on)

lemma split_evidence_id:
  "split_on (CHR '':'') (d1_evidence_id d sc w sub b) =
     [''d1'', d1_detector_value d, scope_value sc, show_int w] @ split_on (CHR '':'') sub @ [show_int b]"
proof -
  have plain: "CHR '':'' \<notin> set (d1_detector_value d)" by (cases d) simp_all
  have plain2: "CHR '':'' \<notin> set (scope_value sc)" by (cases sc) simp_all
  have plain3: "CHR '':'' \<notin> set (show_int i)" for i
    by (simp add: show_int_def not_in_digits is_digit_def less_eq_char_def)
  have app: "split_on c (p @ [c] @ r) = p # split_on c r" if "c \<notin> set p" for c p r
    using that by (simp add: split_on_append split_on_plain)
  show ?thesis
    unfolding d1_evidence_id_def join.simps
    by (subst app, simp, subst app [OF plain], subst app [OF plain2], subst app [OF plain3])
      (simp add: split_on_append split_on_plain plain3)
qed

text \<open>
  An evidence identifier names its firing: two identifiers are equal exactly when detector, scope,
  window, subject and time bucket are, even though subjects (MACs, account names) may contain the
  separator. So two firings of one detector for one subject within a bucket are the same evidence, and no
  two different firings share an identifier.
\<close>

theorem evidence_id_identifies:
  "d1_evidence_id d sc w sub b = d1_evidence_id d' sc' w' sub' b' \<longleftrightarrow>
     d = d' \<and> sc = sc' \<and> w = w' \<and> sub = sub' \<and> b = b'"
proof
  assume "d1_evidence_id d sc w sub b = d1_evidence_id d' sc' w' sub' b'"
  then have "[''d1'', d1_detector_value d, scope_value sc, show_int w] @ split_on (CHR '':'') sub @ [show_int b] =
      [''d1'', d1_detector_value d', scope_value sc', show_int w'] @ split_on (CHR '':'') sub' @ [show_int b']"
    by (metis split_evidence_id)
  then have "d1_detector_value d = d1_detector_value d'" "scope_value sc = scope_value sc'" "w = w'" "sub = sub'" "b = b'"
    by simp_all
  then show "d = d' \<and> sc = sc' \<and> w = w' \<and> sub = sub' \<and> b = b'"
    by (metis d1_detector_of_value scope_of_value option.inject)
qed simp

subsection \<open>Re-evaluation\<close>

lemma evaluate_device_id:
  assumes "d1_reachable c s" "evaluate_device mac now s = (Some ev, s')" "e \<in> set ev"
  shows "d1_id e = d1_evidence_id (d1_detector e) SC_DEVICE (d1_window_seconds e) mac (evidence_bucket now (d1_window_seconds e))"
proof -
  have "d1_inv s" "thresholds_ok (ds_thresholds s)" using assms(1) reachable_inv reachable_rules by blast+
  from evaluate_device_exact [OF this, of mac now] assms(2,3)
  obtain k v where kv: "(k, v) \<in> set (fst (measure_device mac now s))"
      "fired s (tk_detector k) (tk_scope k) (tk_window_seconds k) v (Some mac) mac now e" by auto
  then have "tk_scope k = SC_DEVICE"
    using device_window_nonneg by (fastforce simp: measure_device_def Let_def simp del: map_of_eq_Some_iff split: option.splits)
  then show ?thesis using kv(2) by (simp add: fired_def)
qed

text \<open>
  C15: Re-evaluating a device cannot escalate. At any point in the life of the policy engine, let it decide on a bundle
  that carries the evidence of an evaluation of a device and something new to that device. After any further run of the
  engine (passes for this and other devices, strikes) and any further life of the detectors (connections, thresholds), an
  evaluation of the same device that finds no further detector and window, with every window still in its time bucket,
  yields evidence on which the engine decides nothing, in any mode, alone or together with items of the first bundle.
  The engine's memory is bounded, so the run in between may involve only fewer other devices than
  \<open>max_tracked_devices\<close>, and the ids of the first bundle and of the device's passes since must number at
  most \<open>max_evidence_ids_per_device\<close>.
\<close>

theorem reevaluation_never_escalates:
  assumes "d1_reachable c s" "evaluate_device mac now s = (Some ev, s1)"
    and "d1_reachable c' s'" "evaluate_device mac now' s' = (Some ev', s2)"
    and "(\<lambda>e. (d1_detector e, d1_window_seconds e)) ` set ev' \<subseteq> (\<lambda>e. (d1_detector e, d1_window_seconds e)) ` set ev"
    and "\<forall>e \<in> set ev. evidence_bucket now' (d1_window_seconds e) = evidence_bucket now (d1_window_seconds e)"
    and "policy_config_ok pc" "engine_run fmt ys (new_policy_engine table pc) = Some p"
    and "decide is_protected uuid fmt b mode now p = Some (ds, p1)" "\<not> is_protected (eb_target b)" "brings_new b p"
    and "D1 ` set ev \<subseteq> set (eb_evidence b)"
    and "engine_run fmt xs p1 = Some p2" "device_key (eb_target b) = k"
    and "card (other_devices k xs) < pc_max_tracked_devices pc"
    and "card (evidence_id ` set (eb_evidence b) \<union> run_ids k xs) \<le> pc_max_evidence_ids_per_device pc"
    and "device_key (eb_target b') = k" "set (eb_evidence b') \<subseteq> D1 ` set ev' \<union> set (eb_evidence b)"
  shows "\<exists>p3. decide is_protected' uuid' fmt b' mode' now' p2 = Some ([], p3)"
proof (rule decided_once [OF assms(7-11,13-17)])
  have "d1_id e' \<in> d1_id ` set ev" if e': "e' \<in> set ev'" for e'
  proof -
    obtain e where e: "e \<in> set ev" "d1_detector e = d1_detector e'" "d1_window_seconds e = d1_window_seconds e'"
      using assms(5) e' by fastforce
    then have "d1_id e' = d1_id e"
      using evaluate_device_id [OF assms(1,2) e(1)] evaluate_device_id [OF assms(3,4) e'] assms(6) by metis
    then show ?thesis using e(1) by blast
  qed
  then have "d1_id ` set ev' \<subseteq> d1_id ` set ev" by blast
  then have "evidence_id ` D1 ` set ev' \<subseteq> evidence_id ` D1 ` set ev" by (simp add: image_image)
  from image_covered [OF assms(18) this assms(12)] show "evidence_id ` set (eb_evidence b') \<subseteq> evidence_id ` set (eb_evidence b)" .
qed

lemma example_evaluated:
  assumes "now \<in> {7, 8}"
  shows "fst (evaluate_device ''02:00:00:00:00:02'' now example_watch) = Some [example_firing now]"
proof -
  obtain r s' where m: "measure_device ''02:00:00:00:00:02'' now example_watch = (r, s')" by fastforce
  then have t: "ds_thresholds s' = zero_thresholds"
    using measure_device_ok(3) [OF reachable_inv [OF example_watch_reachable] m] observe_rules
    by (simp add: example_watch_def same_rules_def new_d1_state_def)
  have "d1_evidence_id d sc w sub b \<noteq> []" for d sc w sub b by (simp add: d1_evidence_id_def)
  moreover have "evidence_bucket now 10 = 0" using assms by (auto simp: evidence_bucket_def seconds_def)
  ultimately show ?thesis
    using m example_measured [OF assms] t
    by (simp add: evaluate_device_def fire_measured_def d1_fire_def threshold_value_def zero_thresholds_def
        new_d1_evidence_def d1_evidence_ok_def example_unicast example_firing_def floor_entry_def)
qed

lemma example_scan_decided:
  "\<exists>d p. decide (\<lambda>_. False) (\<lambda>_. ''id'') example_format
     \<lparr>eb_target = example_device, eb_evidence = map D1 [example_firing 7]\<rparr> EM_ACTIVE 7 example_engine = Some ([d], p)"
  by (simp add: example_firing_def example_defs decide_def Let_def history_for_def device_key_def
      empty_history_def new_evidence_ids_def fresh_classes_def bundle_ids_def row_actions_def row_escalate_def
      classify_def shipped_table_def rows_of_def all_evidence_classes_def cell_def decisions_def
      draft_decisions_def direct_action_def block_ttl_def MAX_ELEMENT_TTL_SECONDS_def
      new_policy_decision_def policy_decision_fields_ok_def policy_decision_check_def)

theorem reevaluation_never_escalates_witness:
  "\<exists>d p p'. decide (\<lambda>_. False) (\<lambda>_. ''id'') example_format
     \<lparr>eb_target = example_device, eb_evidence = map D1 [example_firing 7]\<rparr> EM_ACTIVE 7 example_engine = Some ([d], p)
   \<and> decide (\<lambda>_. False) (\<lambda>_. ''id'') example_format
     \<lparr>eb_target = example_device, eb_evidence = map D1 [example_firing 8]\<rparr> EM_ACTIVE 8 (record_enforced d True p) = Some ([], p')"
proof -
  let ?b = "\<lparr>eb_target = example_device, eb_evidence = map D1 [example_firing 7]\<rparr>" and ?c = default_policy_config
  let ?b' = "\<lparr>eb_target = example_device, eb_evidence = map D1 [example_firing 8]\<rparr>"
  obtain d p where p: "decide (\<lambda>_. False) (\<lambda>_. ''id'') example_format ?b EM_ACTIVE 7 example_engine = Some ([d], p)"
    using example_scan_decided by blast
  obtain s1 s2 where ev: "evaluate_device ''02:00:00:00:00:02'' 7 example_watch = (Some [example_firing 7], s1)"
      "evaluate_device ''02:00:00:00:00:02'' 8 example_watch = (Some [example_firing 8], s2)"
    using example_evaluated [of 7] example_evaluated [of 8] by (metis insertI1 insertI2 prod.collapse)
  have c: "policy_config_ok ?c" by (simp add: policy_config_ok_def default_policy_config_def)
  have start: "engine_run example_format [] (new_policy_engine shipped_table ?c) = Some example_engine" by (simp add: example_engine_def)
  have new: "brings_new ?b example_engine"
    by (simp add: brings_new_def history_for_def example_defs empty_history_def new_evidence_ids_def bundle_ids_def Let_def)
  have run: "engine_run example_format [Enforced d True] p = Some (record_enforced d True p)" by simp
  have room: "card (other_devices (device_key example_device) [Enforced d True]) < pc_max_tracked_devices ?c"
    "card (evidence_id ` set (eb_evidence ?b) \<union> run_ids (device_key example_device) [Enforced d True]) \<le> pc_max_evidence_ids_per_device ?c"
    by (simp_all add: other_devices_def run_ids_def default_policy_config_def insert_Diff_if)
  have "\<exists>p'. decide (\<lambda>_. False) (\<lambda>_. ''id'') example_format ?b' EM_ACTIVE 8 (record_enforced d True p) = Some ([], p')"
    by (rule reevaluation_never_escalates [OF example_watch_reachable ev(1) example_watch_reachable ev(2) _ _ c start p _ new _ run _ room])
      (simp_all add: example_firing_def evidence_bucket_def seconds_def)
  then show ?thesis using p by blast
qed

end
