(* ===== verification/Kernel_Poller.thy ===== *)
theory Kernel_Poller
  imports D1_State Sets
begin

section \<open>The kernel poller\<close>

text \<open>
  \<open>detection_v2/kernel.py\<close>: one poll of the kernel's offender set, guard modes, verdict counters and set sizes, with
  the state kept between polls (offender episodes, last counters, warned sets). What the reader's methods
  return at a poll is a record in which \<open>None\<close> is a method that raises; \<open>datetime.isoformat\<close> is the argument
  \<open>isof\<close> and the text of an alert the argument \<open>alert_text\<close>. An evidence item is built without its validators:
  that they accept it is part of the first theorem.
\<close>

definition STATIC_METER_SETS :: "string list" where
  "STATIC_METER_SETS = [''dhcp_meter'', ''unbound_meter'', ''syn_meter'', ''udp_meter'', ''icmp_meter'', ''pps_meter'',
     ''dns_meter'', ''closed_meter'', ''portal_conc'', ''newconn_meter'', ''newconn_dst_meter'', ''udp_fwd_meter'']"

definition WATCHED_SETS :: "(string \<times> string) list" where
  "WATCHED_SETS = map (Pair ADAPTIVE_TABLE) (sort ADAPTIVE_ENFORCEMENT_SETS) @ map (Pair STATIC_TABLE) (sort STATIC_METER_SETS)
     @ [(STATIC_TABLE, SET_OFFENDERS), (STATIC_TABLE, SET_MACBIND)]"

definition GUARD_VERDICT_COUNTERS :: "(guard_name, string) odict" where
  "GUARD_VERDICT_COUNTERS = [(GN_RAW, ''c_verdict_raw''), (GN_INPUT, ''c_verdict_input''), (GN_FORWARD, ''c_verdict_forward'')]"

definition OFFENDER_CODES :: "offender_code list" where
  "OFFENDER_CODES = [OC_SYN_PPS, OC_UDP_LOCAL_PPS, OC_ICMP_PPS, OC_LOCAL_PPS, OC_CLOSED_PORT, OC_NEWCONN,
     OC_NEWCONN_DST, OC_UDP_FWD, OC_UNBOUND, OC_DNS_QPS, OC_DHCP, OC_PORTAL_CONCURRENCY]"

text \<open>\<open>OffenderCode(value)\<close>.\<close>

definition offender_code_of :: "int \<Rightarrow> offender_code option" where
  "offender_code_of n = find (\<lambda>c. int (offender_code_number c) = n) OFFENDER_CODES"

record kernel_read =
  kr_static_table_present :: "bool option"
  kr_offenders :: "(string \<times> int) list option"
  kr_guard_modes :: "(guard_name, guard_mode) odict option"
  kr_counters :: "(string, int) odict option"
  kr_set_fill :: "string \<times> string \<Rightarrow> (nat \<times> nat option) option"

record kernel_poll_result =
  kpr_evidence :: "kernel_guard_evidence list"
  kpr_started_at :: "(string, datetime) odict"
  kpr_guard_hits :: "(guard_name, int) odict"
  kpr_offender_count :: nat
  kpr_max_set_fill_ratio :: real
  kpr_alerts :: "string list"
  kpr_table_present :: bool
  kpr_error :: bool

definition empty_poll_result :: kernel_poll_result where
  "empty_poll_result = \<lparr>kpr_evidence = [], kpr_started_at = [], kpr_guard_hits = [], kpr_offender_count = 0,
     kpr_max_set_fill_ratio = 0, kpr_alerts = [], kpr_table_present = True, kpr_error = False\<rparr>"

record episode =
  ep_started_at :: datetime
  ep_polls :: int

record kernel_poller =
  kp_sustained_polls :: int
  kp_warning_ratio :: real
  kp_episodes :: "(offender_code \<times> mac_address, episode) odict"
  kp_last_counters :: "(guard_name, int) odict"
  kp_warned :: "(string \<times> string) list"

definition new_kernel_poller :: "int \<Rightarrow> real \<Rightarrow> kernel_poller" where
  "new_kernel_poller sustained_polls set_fill_warning_ratio =
     \<lparr>kp_sustained_polls = sustained_polls, kp_warning_ratio = set_fill_warning_ratio, kp_episodes = [],
      kp_last_counters = [], kp_warned = []\<rparr>"

subsection \<open>Episodes\<close>

text \<open>The elements that name a device and a known code.\<close>

definition offender_key :: "string \<times> int \<Rightarrow> (offender_code \<times> mac_address) option" where
  "offender_key r =
     (case (offender_code_of (snd r), unicast_mac (fst r)) of
        (Some code, Some mac) \<Rightarrow> Some (code, mac)
      | _ \<Rightarrow> None)"

definition present_keys :: "(string \<times> int) list \<Rightarrow> (offender_code \<times> mac_address) list" where
  "present_keys offenders =
     sort_key (\<lambda>(code, mac). (offender_code_number code, mac)) (remdups (List.map_filter offender_key offenders))"

definition poll_stage :: "kernel_poller \<Rightarrow> guard_mode \<Rightarrow> int \<Rightarrow> string" where
  "poll_stage p mode polls =
     (if mode = GM_OBSERVE then ''observe'' else if kp_sustained_polls p \<le> polls then ''sustained'' else ''new'')"

definition guard_mode_of :: "(guard_name, guard_mode) odict \<Rightarrow> offender_code \<Rightarrow> guard_mode" where
  "guard_mode_of modes code = (case map_of modes (offender_guard code) of None \<Rightarrow> GM_OBSERVE | Some m \<Rightarrow> m)"

definition kernel_evidence_id :: "(datetime \<Rightarrow> string) \<Rightarrow> offender_code \<Rightarrow> mac_address \<Rightarrow> datetime \<Rightarrow> guard_mode \<Rightarrow> string \<Rightarrow> string" where
  "kernel_evidence_id isof code mac started mode stage =
     join '':'' [''k'', digits (offender_code_number code), mac, isof started, guard_mode_value mode, stage]"

definition offender_evidence :: "(datetime \<Rightarrow> string) \<Rightarrow> kernel_poller \<Rightarrow> (guard_name, guard_mode) odict \<Rightarrow> datetime \<Rightarrow>
    offender_code \<times> mac_address \<Rightarrow> episode \<Rightarrow> kernel_guard_evidence" where
  "offender_evidence isof p modes now key ep =
     (let (code, mac) = key; mode = guard_mode_of modes code in
      \<lparr>kg_id = kernel_evidence_id isof code mac (ep_started_at ep) mode (poll_stage p mode (ep_polls ep)),
       kg_code = code, kg_mac = mac, kg_guard = offender_guard code, kg_guard_mode = mode,
       kg_sustained_polls = ep_polls ep, kg_observed_at = now\<rparr>)"

definition bump_episode :: "datetime \<Rightarrow> (offender_code \<times> mac_address, episode) odict \<Rightarrow> offender_code \<times> mac_address \<Rightarrow> episode" where
  "bump_episode now episodes key =
     (let ep = (case map_of episodes key of None \<Rightarrow> \<lparr>ep_started_at = now, ep_polls = 0\<rparr> | Some e \<Rightarrow> e)
      in ep\<lparr>ep_polls := ep_polls ep + 1\<rparr>)"

fun track_loop :: "(datetime \<Rightarrow> string) \<Rightarrow> (guard_name, guard_mode) odict \<Rightarrow> datetime \<Rightarrow> (offender_code \<times> mac_address) list \<Rightarrow>
    kernel_poller \<Rightarrow> kernel_guard_evidence list \<times> kernel_poller" where
  "track_loop isof modes now [] p = ([], p)"
| "track_loop isof modes now (key # keys) p =
     (let ep = bump_episode now (kp_episodes p) key;
          p' = p\<lparr>kp_episodes := AList.update key ep (kp_episodes p)\<rparr>;
          (found, p'') = track_loop isof modes now keys p'
      in (offender_evidence isof p modes now key ep # found, p''))"

definition track :: "(datetime \<Rightarrow> string) \<Rightarrow> (string \<times> int) list \<Rightarrow> (guard_name, guard_mode) odict \<Rightarrow> datetime \<Rightarrow> kernel_poller \<Rightarrow>
    kernel_guard_evidence list \<times> kernel_poller" where
  "track isof offenders modes now p =
     (let present = present_keys offenders in
      track_loop isof modes now present
        (p\<lparr>kp_episodes := filter (\<lambda>(key, ep). key \<in> set present) (kp_episodes p)\<rparr>))"

subsection \<open>Counters and fill levels\<close>

fun deltas_loop :: "(guard_name, string) odict \<Rightarrow> (string, int) odict \<Rightarrow> kernel_poller \<Rightarrow> (guard_name, int) odict \<times> kernel_poller" where
  "deltas_loop [] counters p = ([], p)"
| "deltas_loop ((guard, name) # rest) counters p =
     (case map_of counters name of
        None \<Rightarrow> deltas_loop rest counters p
      | Some value \<Rightarrow>
          (let delta = (case map_of (kp_last_counters p) guard of
                          None \<Rightarrow> value
                        | Some previous \<Rightarrow> if value < previous then value else value - previous);
               (deltas, p') = deltas_loop rest counters (p\<lparr>kp_last_counters := AList.update guard value (kp_last_counters p)\<rparr>)
           in ((guard, delta) # deltas, p')))"

definition deltas :: "(string, int) odict \<Rightarrow> kernel_poller \<Rightarrow> (guard_name, int) odict \<times> kernel_poller" where
  "deltas counters p = deltas_loop GUARD_VERDICT_COUNTERS counters p"

text \<open>\<open>count / size if size else 0.0\<close>.\<close>

definition fill_ratio :: "nat \<times> nat option \<Rightarrow> real" where
  "fill_ratio f = (case snd f of None \<Rightarrow> 0 | Some n \<Rightarrow> if n = 0 then 0 else real (fst f) / real n)"

fun fill_alerts :: "(string \<times> string \<Rightarrow> nat \<times> nat option \<Rightarrow> string) \<Rightarrow> ((string \<times> string) \<times> nat \<times> nat option) list \<Rightarrow>
    kernel_poller \<Rightarrow> string list \<times> kernel_poller" where
  "fill_alerts alert_text [] p = ([], p)"
| "fill_alerts alert_text ((location, fill) # fills) p =
     (if kp_warning_ratio p < fill_ratio fill \<and> location \<notin> set (kp_warned p)
      then (let (alerts, p') = fill_alerts alert_text fills (p\<lparr>kp_warned := List.insert location (kp_warned p)\<rparr>)
            in (alert_text location fill # alerts, p'))
      else if fill_ratio fill \<le> kp_warning_ratio p
      then fill_alerts alert_text fills (p\<lparr>kp_warned := removeAll location (kp_warned p)\<rparr>)
      else fill_alerts alert_text fills p)"

fun read_fills :: "(string \<times> string \<Rightarrow> (nat \<times> nat option) option) \<Rightarrow> (string \<times> string) list \<Rightarrow>
    ((string \<times> string) \<times> nat \<times> nat option) list option" where
  "read_fills f [] = Some []"
| "read_fills f (l # ls) =
     (case f l of None \<Rightarrow> None | Some x \<Rightarrow> map_option ((#) (l, x)) (read_fills f ls))"

definition poll :: "(datetime \<Rightarrow> string) \<Rightarrow> (string \<times> string \<Rightarrow> nat \<times> nat option \<Rightarrow> string) \<Rightarrow> kernel_read \<Rightarrow> datetime \<Rightarrow>
    kernel_poller \<Rightarrow> kernel_poll_result \<times> kernel_poller" where
  "poll isof alert_text r now p =
     (case kr_static_table_present r of
        None \<Rightarrow> (empty_poll_result\<lparr>kpr_error := True\<rparr>, p)
      | Some present \<Rightarrow>
          if \<not> present then (empty_poll_result\<lparr>kpr_table_present := False\<rparr>, p\<lparr>kp_episodes := []\<rparr>)
          else (case (kr_offenders r, kr_guard_modes r, kr_counters r, read_fills (kr_set_fill r) WATCHED_SETS) of
                  (Some offenders, Some modes, Some counters, Some fills) \<Rightarrow>
                    (let (evidence, p1) = track isof offenders modes now p;
                         started_at = fold (\<lambda>e d. AList.update (kg_id e)
                           (case map_of (kp_episodes p1) (kg_code e, kg_mac e) of None \<Rightarrow> now | Some ep \<Rightarrow> ep_started_at ep) d) evidence [];
                         (guard_hits, p2) = deltas counters p1;
                         (alerts, p3) = fill_alerts alert_text fills p2
                     in (\<lparr>kpr_evidence = evidence, kpr_started_at = started_at, kpr_guard_hits = guard_hits,
                          kpr_offender_count = length offenders,
                          kpr_max_set_fill_ratio = foldr max (map (\<lambda>(_, fill). fill_ratio fill) fills) 0,
                          kpr_alerts = alerts, kpr_table_present = True, kpr_error = False\<rparr>, p3))
                | _ \<Rightarrow> (empty_poll_result\<lparr>kpr_error := True\<rparr>, p)))"

subsection \<open>One pass over the offenders\<close>

lemma set_present_keys: "k \<in> set (present_keys os) \<longleftrightarrow> (\<exists>r \<in> set os. offender_key r = Some k)"
  by (force simp: present_keys_def map_filter_def)

lemma distinct_present_keys: "distinct (present_keys os)"
  by (simp add: present_keys_def)

lemma offender_key_valid: "offender_key r = Some (c, m) \<Longrightarrow> unicast_mac m = Some m"
  by (auto simp: offender_key_def split: option.splits intro: unicast_mac_fixed)

lemma track_loop_params:
  "track_loop isof modes now keys p = (ev, p') \<Longrightarrow> kp_sustained_polls p' = kp_sustained_polls p
     \<and> kp_warning_ratio p' = kp_warning_ratio p \<and> kp_last_counters p' = kp_last_counters p \<and> kp_warned p' = kp_warned p"
  by (induction keys arbitrary: p ev p') (auto simp: Let_def split: prod.splits)

lemma track_loop_exact:
  assumes "distinct keys" "track_loop isof modes now keys p = (ev, p')"
  shows "ev = map (\<lambda>k. offender_evidence isof p modes now k (bump_episode now (kp_episodes p) k)) keys
    \<and> map_of (kp_episodes p') = (\<lambda>k. if k \<in> set keys then Some (bump_episode now (kp_episodes p) k) else map_of (kp_episodes p) k)"
  using assms
proof (induction keys arbitrary: p ev p')
  case (Cons key keys)
  let ?q = "p\<lparr>kp_episodes := AList.update key (bump_episode now (kp_episodes p) key) (kp_episodes p)\<rparr>"
  obtain ev' where t: "track_loop isof modes now keys ?q = (ev', p')"
      "ev = offender_evidence isof p modes now key (bump_episode now (kp_episodes p) key) # ev'"
    using Cons.prems(2) by (auto simp: Let_def split: prod.splits)
  have other: "bump_episode now (kp_episodes ?q) k = bump_episode now (kp_episodes p) k" if "k \<noteq> key" for k
    using that by (simp add: bump_episode_def)
  have same: "offender_evidence isof ?q modes now = offender_evidence isof p modes now"
    by (intro ext) (simp add: offender_evidence_def poll_stage_def Let_def split: prod.split)
  have d: "distinct keys" using Cons.prems(1) by simp
  note IH = Cons.IH [OF d t(1)]
  have "ev' = map (\<lambda>k. offender_evidence isof p modes now k (bump_episode now (kp_episodes ?q) k)) keys"
    using IH unfolding same by blast
  also have "\<dots> = map (\<lambda>k. offender_evidence isof p modes now k (bump_episode now (kp_episodes p) k)) keys"
  proof (rule map_cong [OF refl])
    fix k assume "k \<in> set keys"
    then have "k \<noteq> key" using Cons.prems(1) by auto
    then show "offender_evidence isof p modes now k (bump_episode now (kp_episodes ?q) k) =
        offender_evidence isof p modes now k (bump_episode now (kp_episodes p) k)" using other [of k] by simp
  qed
  finally have "ev' = map (\<lambda>k. offender_evidence isof p modes now k (bump_episode now (kp_episodes p) k)) keys" .
  moreover have "map_of (kp_episodes p') k = (if k \<in> set (key # keys) then Some (bump_episode now (kp_episodes p) k) else map_of (kp_episodes p) k)" for k
    using IH other [of k] Cons.prems(1) by (cases "k = key") simp_all
  ultimately show ?case using t(2) by (simp add: fun_eq_iff)
qed auto

lemma map_of_filter_keys: "map_of (filter (\<lambda>(k, v). P k) d) k = (if P k then map_of d k else None)"
  by (induction d) auto

text \<open>The effect of a pass: every present key's episode grows by one poll or begins, every other ends.\<close>

lemma track_exact:
  assumes "track isof os modes now p = (ev, p')"
  shows "ev = map (\<lambda>k. offender_evidence isof p modes now k (bump_episode now (kp_episodes p) k)) (present_keys os)"
    and "map_of (kp_episodes p') = (\<lambda>k. if k \<in> set (present_keys os) then Some (bump_episode now (kp_episodes p) k) else None)"
    and "kp_sustained_polls p' = kp_sustained_polls p" "kp_warning_ratio p' = kp_warning_ratio p"
      "kp_last_counters p' = kp_last_counters p" "kp_warned p' = kp_warned p"
proof -
  let ?q = "p\<lparr>kp_episodes := filter (\<lambda>(key, ep). key \<in> set (present_keys os)) (kp_episodes p)\<rparr>"
  have t: "track_loop isof modes now (present_keys os) ?q = (ev, p')" using assms by (simp add: track_def Let_def)
  have bump: "bump_episode now (kp_episodes ?q) k = bump_episode now (kp_episodes p) k" if "k \<in> set (present_keys os)" for k
    using that by (simp add: bump_episode_def map_of_filter_keys)
  have same: "offender_evidence isof ?q modes now = offender_evidence isof p modes now"
    by (intro ext) (simp add: offender_evidence_def poll_stage_def Let_def split: prod.split)
  note e = track_loop_exact [OF distinct_present_keys t]
  have "ev = map (\<lambda>k. offender_evidence isof p modes now k (bump_episode now (kp_episodes ?q) k)) (present_keys os)"
    using e unfolding same by blast
  then show "ev = map (\<lambda>k. offender_evidence isof p modes now k (bump_episode now (kp_episodes p) k)) (present_keys os)"
    using bump by (simp cong: map_cong)
  show "map_of (kp_episodes p') = (\<lambda>k. if k \<in> set (present_keys os) then Some (bump_episode now (kp_episodes p) k) else None)"
  proof
    fix k
    show "map_of (kp_episodes p') k = (if k \<in> set (present_keys os) then Some (bump_episode now (kp_episodes p) k) else None)"
      using e bump [of k] map_of_filter_keys [of "\<lambda>k. k \<in> set (present_keys os)" "kp_episodes p" k] by simp
  qed
qed (use track_loop_params [of isof modes now "present_keys os" _ ev p'] assms in \<open>auto simp: track_def Let_def\<close>)

subsection \<open>Polls\<close>

text \<open>What a poll learns about the offenders: nothing when a read fails, that the table is gone, or the
  set of devices and codes present.\<close>

datatype poll_outcome = PO_FAILED | PO_ABSENT | PO_SEEN "(offender_code \<times> mac_address) set"

definition outcome_of :: "kernel_read \<Rightarrow> poll_outcome" where
  "outcome_of r =
     (case kr_static_table_present r of
        None \<Rightarrow> PO_FAILED
      | Some False \<Rightarrow> PO_ABSENT
      | Some True \<Rightarrow>
          (case (kr_offenders r, kr_guard_modes r, kr_counters r, read_fills (kr_set_fill r) WATCHED_SETS) of
             (Some offenders, Some modes, Some counters, Some fills) \<Rightarrow> PO_SEEN (set (present_keys offenders))
           | _ \<Rightarrow> PO_FAILED))"

text \<open>The specification of an episode: since when, and in how many successful polls without interruption, a
  key has been present.\<close>

fun streak_step :: "offender_code \<times> mac_address \<Rightarrow> kernel_read \<times> datetime \<Rightarrow> (datetime \<times> int) option \<Rightarrow> (datetime \<times> int) option" where
  "streak_step k (r, now) x =
     (case outcome_of r of
        PO_FAILED \<Rightarrow> x
      | PO_ABSENT \<Rightarrow> None
      | PO_SEEN S \<Rightarrow> if k \<in> S then Some (case x of None \<Rightarrow> (now, 1) | Some (t, n) \<Rightarrow> (t, n + 1)) else None)"

definition streak :: "offender_code \<times> mac_address \<Rightarrow> (kernel_read \<times> datetime) list \<Rightarrow> (datetime \<times> int) option" where
  "streak k rs = fold (streak_step k) rs None"

definition poll_run :: "(datetime \<Rightarrow> string) \<Rightarrow> (string \<times> string \<Rightarrow> nat \<times> nat option \<Rightarrow> string) \<Rightarrow> (kernel_read \<times> datetime) list \<Rightarrow>
    kernel_poller \<Rightarrow> kernel_poller" where
  "poll_run isof alert rs p = fold (\<lambda>(r, now) p. snd (poll isof alert r now p)) rs p"

lemma deltas_episodes: "deltas_loop gs cs p = (d, p') \<Longrightarrow> kp_episodes p' = kp_episodes p \<and> kp_sustained_polls p' = kp_sustained_polls p
    \<and> kp_warned p' = kp_warned p \<and> kp_warning_ratio p' = kp_warning_ratio p"
proof (induction gs arbitrary: p d p')
  case (Cons g gs)
  obtain guard name where g: "g = (guard, name)" by (cases g)
  show ?case
  proof (cases "map_of cs name")
    case (Some v)
    let ?q = "p\<lparr>kp_last_counters := AList.update guard v (kp_last_counters p)\<rparr>"
    obtain d' q' where q: "deltas_loop gs cs ?q = (d', q')" by fastforce
    then have "q' = p'" using Cons.prems g Some by (simp add: Let_def del: map_of_eq_Some_iff)
    then show ?thesis using Cons.IH [OF q] by simp
  qed (use Cons g in simp)
qed simp

lemma alerts_episodes: "fill_alerts alert fs p = (d, p') \<Longrightarrow> kp_episodes p' = kp_episodes p \<and> kp_sustained_polls p' = kp_sustained_polls p
    \<and> kp_warning_ratio p' = kp_warning_ratio p"
proof (induction fs arbitrary: p d p')
  case (Cons f fs)
  obtain l fill where f: "f = (l, fill)" by (cases f)
  obtain d' q where q: "fill_alerts alert fs q = (d', p')" "kp_episodes q = kp_episodes p \<and> kp_sustained_polls q = kp_sustained_polls p
      \<and> kp_warning_ratio q = kp_warning_ratio p"
  proof (cases "kp_warning_ratio p < fill_ratio fill \<and> l \<notin> set (kp_warned p)")
    case True
    let ?q = "p\<lparr>kp_warned := List.insert l (kp_warned p)\<rparr>"
    obtain d' q' where "fill_alerts alert fs ?q = (d', q')" by fastforce
    then show ?thesis using that [of ?q d'] Cons.prems f True by (simp add: Let_def)
  next
    case False
    then show ?thesis
      using that [of "p\<lparr>kp_warned := removeAll l (kp_warned p)\<rparr>" d] that [of p d] Cons.prems f by (auto split: if_splits)
  qed
  then show ?case using Cons.IH [OF q(1)] by simp
qed simp

lemma poll_seen:
  assumes "outcome_of r = PO_SEEN S"
  obtains os modes cs fills where "kr_static_table_present r = Some True" "kr_offenders r = Some os" "kr_guard_modes r = Some modes"
    "kr_counters r = Some cs" "read_fills (kr_set_fill r) WATCHED_SETS = Some fills" "S = set (present_keys os)"
  using assms by (auto simp: outcome_of_def split: option.splits bool.splits)

lemma poll_seen_track:
  assumes "outcome_of r = PO_SEEN S" "kr_offenders r = Some os" "kr_guard_modes r = Some modes" "poll isof alert r now p = (res, p')"
  shows "kpr_evidence res = fst (track isof os modes now p) \<and> kp_episodes p' = kp_episodes (snd (track isof os modes now p))
    \<and> kp_sustained_polls p' = kp_sustained_polls p \<and> \<not> kpr_error res"
proof -
  obtain cs fills where r: "kr_static_table_present r = Some True" "kr_counters r = Some cs"
      "read_fills (kr_set_fill r) WATCHED_SETS = Some fills" using poll_seen [OF assms(1)] by metis
  obtain ev p1 where t: "track isof os modes now p = (ev, p1)" by fastforce
  obtain hits p2 where d: "deltas cs p1 = (hits, p2)" by fastforce
  obtain alerts p3 where a: "fill_alerts alert fills p2 = (alerts, p3)" by fastforce
  show ?thesis
    using assms(2-4) r t d a deltas_episodes [OF d [unfolded deltas_def]] alerts_episodes [OF a] track_exact(3) [OF t]
    by (auto simp: poll_def Let_def)
qed

lemma poll_not_seen:
  assumes "poll isof alert r now p = (res, p')"
  shows "outcome_of r = PO_FAILED \<Longrightarrow> p' = p" "outcome_of r = PO_ABSENT \<Longrightarrow> p' = p\<lparr>kp_episodes := []\<rparr>"
  using assms by (auto simp: poll_def outcome_of_def Let_def split: option.splits bool.splits if_splits prod.splits)

text \<open>The poller's episodes are the specified streaks, after any polls.\<close>

definition streak_of :: "episode \<Rightarrow> datetime \<times> int" where
  "streak_of e = (ep_started_at e, ep_polls e)"

lemma poll_step_streak:
  assumes "poll isof alert r now p = (res, p')"
  shows "map_option streak_of (map_of (kp_episodes p') k) = streak_step k (r, now) (map_option streak_of (map_of (kp_episodes p) k))"
proof (cases "outcome_of r")
  case (PO_SEEN S)
  then obtain os modes where o: "kr_offenders r = Some os" "kr_guard_modes r = Some modes" "S = set (present_keys os)"
    using poll_seen by metis
  obtain ev p1 where t: "track isof os modes now p = (ev, p1)" by fastforce
  have "map_of (kp_episodes p') k = (if k \<in> S then Some (bump_episode now (kp_episodes p) k) else None)"
    using poll_seen_track [OF PO_SEEN o(1,2) assms] track_exact(2) [OF t] t o(3) by simp
  then show ?thesis
    using PO_SEEN by (cases "map_of (kp_episodes p) k") (auto simp: streak_of_def bump_episode_def simp del: map_of_eq_Some_iff map_of_eq_None_iff)
qed (use poll_not_seen [OF assms] in \<open>simp_all\<close>)

lemma poll_run_streak:
  "map_option streak_of (map_of (kp_episodes (poll_run isof alert rs (new_kernel_poller n w))) k) = streak k rs"
proof (induction rs rule: rev_induct)
  case (snoc rn rs)
  obtain r now where rn: "rn = (r, now)" by (cases rn)
  let ?p = "poll_run isof alert rs (new_kernel_poller n w)"
  obtain res p' where pl: "poll isof alert r now ?p = (res, p')" by fastforce
  then have "poll_run isof alert (rs @ [rn]) (new_kernel_poller n w) = p'" by (simp add: poll_run_def rn)
  moreover have "streak k (rs @ [rn]) = streak_step k (r, now) (streak k rs)"
    by (simp add: streak_def rn del: streak_step.simps)
  ultimately show ?case using snoc poll_step_streak [OF pl, of k] by simp
qed (simp add: poll_run_def streak_def new_kernel_poller_def)

lemma poll_run_params: "kp_sustained_polls (poll_run isof alert rs p) = kp_sustained_polls p"
proof (induction rs arbitrary: p)
  case (Cons rn rs)
  obtain r now where rn: "rn = (r, now)" by (cases rn)
  obtain res p' where pl: "poll isof alert r now p = (res, p')" by fastforce
  have "kp_sustained_polls p' = kp_sustained_polls p"
  proof (cases "outcome_of r")
    case (PO_SEEN S)
    then show ?thesis using poll_seen_track [OF PO_SEEN _ _ pl] poll_seen [OF PO_SEEN] by metis
  qed (use poll_not_seen [OF pl] in simp_all)
  then show ?case using Cons [of p'] pl by (simp add: poll_run_def rn)
qed (simp add: poll_run_def)

subsection \<open>Evidence\<close>

text \<open>The evidence a key has at a poll, from its streak and the guard's mode.\<close>

definition specified_evidence :: "(datetime \<Rightarrow> string) \<Rightarrow> int \<Rightarrow> (guard_name, guard_mode) odict \<Rightarrow> datetime \<Rightarrow>
    offender_code \<times> mac_address \<Rightarrow> datetime \<times> int \<Rightarrow> kernel_guard_evidence" where
  "specified_evidence isof sustained modes now k x =
     \<lparr>kg_id = kernel_evidence_id isof (fst k) (snd k) (fst x) (guard_mode_of modes (fst k))
        (if guard_mode_of modes (fst k) = GM_OBSERVE then ''observe'' else if sustained \<le> snd x then ''sustained'' else ''new''),
      kg_code = fst k, kg_mac = snd k, kg_guard = offender_guard (fst k), kg_guard_mode = guard_mode_of modes (fst k),
      kg_sustained_polls = snd x, kg_observed_at = now\<rparr>"

definition kernel_guard_evidence_ok :: "kernel_guard_evidence \<Rightarrow> bool" where
  "kernel_guard_evidence_ok e \<longleftrightarrow> kg_id e \<noteq> [] \<and> unicast_mac (kg_mac e) = Some (kg_mac e) \<and> 1 \<le> kg_sustained_polls e
     \<and> check_guard_matches_code e"

lemma poll_evidence:
  assumes "outcome_of r = PO_SEEN S" "kr_guard_modes r = Some modes" "kr_offenders r = Some os" "poll isof alert r now p = (res, p')"
  shows "kpr_evidence res = map (\<lambda>k. specified_evidence isof (kp_sustained_polls p) modes now k (streak_of (bump_episode now (kp_episodes p) k))) (present_keys os)"
proof -
  obtain ev p1 where t: "track isof os modes now p = (ev, p1)" by fastforce
  have "offender_evidence isof p modes now k ep = specified_evidence isof (kp_sustained_polls p) modes now k (streak_of ep)" for k ep
    by (cases k) (simp add: offender_evidence_def specified_evidence_def poll_stage_def streak_of_def Let_def)
  then show ?thesis using poll_seen_track [OF assms(1,3,2,4)] track_exact(1) [OF t] t by simp
qed

lemma streak_nonneg: "streak k rs = Some x \<Longrightarrow> 0 \<le> snd x"
proof -
  have "case streak k rs of None \<Rightarrow> True | Some (t, n) \<Rightarrow> 0 \<le> n"
    by (induction rs rule: rev_induct) (auto simp: streak_def split: option.splits poll_outcome.splits prod.splits if_splits)
  then show "streak k rs = Some x \<Longrightarrow> 0 \<le> snd x" by (cases x) simp
qed

lemma streak_poll:
  assumes "outcome_of r = PO_SEEN S" "k \<in> S"
  shows "streak k (rs @ [(r, now)]) =
    Some (streak_of (bump_episode now (kp_episodes (poll_run isof alert rs (new_kernel_poller n w))) k))"
proof -
  let ?eps = "kp_episodes (poll_run isof alert rs (new_kernel_poller n w))"
  have "streak k (rs @ [(r, now)]) = streak_step k (r, now) (streak k rs)" by (simp add: streak_def del: streak_step.simps)
  also have "\<dots> = streak_step k (r, now) (map_option streak_of (map_of ?eps k))" by (simp only: poll_run_streak)
  also have "\<dots> = Some (streak_of (bump_episode now ?eps k))"
    using assms by (cases "map_of ?eps k") (simp_all add: bump_episode_def streak_of_def del: map_of_eq_Some_iff map_of_eq_None_iff)
  finally show ?thesis .
qed

lemma bumped_polls: "1 \<le> ep_polls (bump_episode now (kp_episodes (poll_run isof alert rs (new_kernel_poller n w))) k)"
proof (cases "map_of (kp_episodes (poll_run isof alert rs (new_kernel_poller n w))) k")
  case (Some a)
  then have "streak k rs = Some (streak_of a)" using poll_run_streak [of isof alert rs n w k] by simp
  then show ?thesis using streak_nonneg [of k rs] Some by (simp add: bump_episode_def streak_of_def del: map_of_eq_Some_iff)
qed (simp add: bump_episode_def)

text \<open>
  C13: kernel evidence is exactly the offender set. After any sequence of polls (failed reads and missing
  tables included), a successful poll yields one item per device and code present in \<open>@offenders\<close> and
  nothing for meter sets, unknown codes or group addresses; each item is well formed, carries the mode
  its guard has at this poll, and its \<open>sustained_polls\<close> and identifier are those of the streak of
  successful polls in which the element has been present without interruption.
\<close>

theorem kernel_evidence_exact:
  assumes "outcome_of r = PO_SEEN S" "kr_guard_modes r = Some modes"
    and "poll isof alert r now (poll_run isof alert rs (new_kernel_poller sustained ratio)) = (res, p')"
  shows "distinct (map (\<lambda>e. (kg_code e, kg_mac e)) (kpr_evidence res))
    \<and> (\<lambda>e. (kg_code e, kg_mac e)) ` set (kpr_evidence res) = S
    \<and> (\<forall>e \<in> set (kpr_evidence res). kernel_guard_evidence_ok e
         \<and> (\<exists>x. streak (kg_code e, kg_mac e) (rs @ [(r, now)]) = Some x
              \<and> e = specified_evidence isof sustained modes now (kg_code e, kg_mac e) x))"
proof -
  let ?p = "poll_run isof alert rs (new_kernel_poller sustained ratio)"
  obtain os where o: "kr_offenders r = Some os" "S = set (present_keys os)" using poll_seen [OF assms(1)] by metis
  have sus: "kp_sustained_polls ?p = sustained" by (simp add: poll_run_params) (simp add: new_kernel_poller_def)
  have ev: "kpr_evidence res = map (\<lambda>k. specified_evidence isof sustained modes now k (streak_of (bump_episode now (kp_episodes ?p) k))) (present_keys os)"
    using poll_evidence [OF assms(1,2) o(1) assms(3)] sus by simp
  have keys: "map (\<lambda>e. (kg_code e, kg_mac e)) (kpr_evidence res) = present_keys os"
    by (simp add: ev specified_evidence_def comp_def)
  note st = streak_poll [OF assms(1), of _ rs now isof alert sustained ratio]
  note pos = bumped_polls [of now isof alert rs sustained ratio]
  have each: "kernel_guard_evidence_ok e \<and> (\<exists>x. streak (kg_code e, kg_mac e) (rs @ [(r, now)]) = Some x
      \<and> e = specified_evidence isof sustained modes now (kg_code e, kg_mac e) x)" if "e \<in> set (kpr_evidence res)" for e
  proof -
    have "e \<in> (\<lambda>k. specified_evidence isof sustained modes now k (streak_of (bump_episode now (kp_episodes ?p) k))) ` S"
      using that unfolding ev o(2) by simp
    then obtain k where k: "k \<in> S" "e = specified_evidence isof sustained modes now k (streak_of (bump_episode now (kp_episodes ?p) k))"
      by blast
    then have "unicast_mac (snd k) = Some (snd k)" using o(2) set_present_keys offender_key_valid by (cases k) fastforce
    then have "kernel_guard_evidence_ok e"
      using k(2) pos [of k] by (simp add: kernel_guard_evidence_ok_def specified_evidence_def check_guard_matches_code_def
          kernel_evidence_id_def streak_of_def)
    moreover have "(kg_code e, kg_mac e) = k" using k(2) by (simp add: specified_evidence_def)
    ultimately show ?thesis using st [OF k(1)] k(2) by metis
  qed
  have "(\<lambda>e. (kg_code e, kg_mac e)) ` set (kpr_evidence res) = S" unfolding o(2) keys [symmetric] set_map ..
  moreover have "distinct (map (\<lambda>e. (kg_code e, kg_mac e)) (kpr_evidence res))" unfolding keys by (rule distinct_present_keys)
  ultimately show ?thesis using each by blast
qed

definition example_read :: kernel_read where
  "example_read = \<lparr>kr_static_table_present = Some True, kr_offenders = Some [(''02:00:00:00:00:02'', 5)],
     kr_guard_modes = Some [(GN_INPUT, GM_ENFORCE)], kr_counters = Some [], kr_set_fill = (\<lambda>_. Some (0, Some 10))\<rparr>"

lemma read_fills_total: "(\<And>l. f l \<noteq> None) \<Longrightarrow> \<exists>fills. read_fills f ls = Some fills \<and> map fst fills = ls"
  by (induction ls) (auto split: option.split)

lemma example_read_seen: "outcome_of example_read = PO_SEEN {(OC_CLOSED_PORT, ''02:00:00:00:00:02'')}"
proof -
  have "unicast_mac ''02:00:00:00:00:02'' = Some ''02:00:00:00:00:02''" by code_simp
  then have "present_keys [(''02:00:00:00:00:02'', 5)] = [(OC_CLOSED_PORT, ''02:00:00:00:00:02'')]"
    by (simp add: present_keys_def offender_key_def offender_code_of_def OFFENDER_CODES_def map_filter_def)
  then show ?thesis
    using read_fills_total [of "kr_set_fill example_read" WATCHED_SETS] by (auto simp: outcome_of_def example_read_def)
qed

theorem kernel_evidence_exact_witness:
  "\<exists>e. kpr_evidence (fst (poll (\<lambda>_. ''t'') (\<lambda>_ _. ''full'') example_read 7
       (poll_run (\<lambda>_. ''t'') (\<lambda>_ _. ''full'') [(example_read, 6)] (new_kernel_poller 2 (8/10))))) = [e]
     \<and> kg_code e = OC_CLOSED_PORT \<and> kg_sustained_polls e = 2"
proof -
  obtain res p' where pl: "poll (\<lambda>_. ''t'') (\<lambda>_ _. ''full'') example_read 7
       (poll_run (\<lambda>_. ''t'') (\<lambda>_ _. ''full'') [(example_read, 6)] (new_kernel_poller 2 (8/10))) = (res, p')" by fastforce
  have "kr_guard_modes example_read = Some [(GN_INPUT, GM_ENFORCE)]" by (simp add: example_read_def)
  note exact = kernel_evidence_exact [OF example_read_seen this pl]
  let ?keys = "map (\<lambda>e. (kg_code e, kg_mac e)) (kpr_evidence res)"
  have "set ?keys = {(OC_CLOSED_PORT, ''02:00:00:00:00:02'')}" "distinct ?keys" using exact by (simp_all only: set_map)
  then have "length ?keys = 1" using distinct_card [of ?keys] by simp
  then have "length (kpr_evidence res) = 1" by simp
  then obtain e where e: "kpr_evidence res = [e]" by (auto simp: length_Suc_conv)
  then have k: "(kg_code e, kg_mac e) = (OC_CLOSED_PORT, ''02:00:00:00:00:02'')" using exact by simp
  have "streak (OC_CLOSED_PORT, ''02:00:00:00:00:02'') ([(example_read, 6)] @ [(example_read, 7)]) = Some (6, 2)"
    by (simp add: streak_def example_read_seen)
  moreover obtain x where x: "streak (kg_code e, kg_mac e) ([(example_read, 6)] @ [(example_read, 7)]) = Some x"
      "e = specified_evidence (\<lambda>_. ''t'') 2 [(GN_INPUT, GM_ENFORCE)] 7 (kg_code e, kg_mac e) x"
    using exact e by auto
  ultimately have "x = (6, 2)" using k by simp
  then have "kg_sustained_polls e = 2" using arg_cong [OF x(2), of kg_sustained_polls] by (simp add: specified_evidence_def)
  then show ?thesis using e k pl by simp
qed

subsection \<open>Fill alerts\<close>

lemma fill_alerts_exact:
  assumes "od_distinct fills" "fill_alerts alert fills p = (alerts, p')"
  shows "alerts = map (\<lambda>(l, f). alert l f) (filter (\<lambda>(l, f). kp_warning_ratio p < fill_ratio f \<and> l \<notin> set (kp_warned p)) fills)
    \<and> (\<forall>l. l \<in> set (kp_warned p') \<longleftrightarrow> (case map_of fills l of None \<Rightarrow> l \<in> set (kp_warned p) | Some f \<Rightarrow> kp_warning_ratio p < fill_ratio f))"
  using assms
proof (induction fills arbitrary: p alerts p')
  case (Cons x fills)
  obtain l f where x: "x = (l, f)" by (cases x)
  have d: "od_distinct fills" "l \<notin> fst ` set fills" using Cons.prems(1) x by auto
  define above where "above = (kp_warning_ratio p < fill_ratio f)"
  define q where "q = p\<lparr>kp_warned := (if above \<and> l \<notin> set (kp_warned p) then List.insert l (kp_warned p)
    else if above then kp_warned p else removeAll l (kp_warned p))\<rparr>"
  obtain rest q' where r: "fill_alerts alert fills q = (rest, q')" by fastforce
  have step: "p' = q'" "alerts = (if above \<and> l \<notin> set (kp_warned p) then [alert l f] else []) @ rest"
    using Cons.prems(2) r x by (auto simp: q_def above_def Let_def split: if_splits)
  have w: "kp_warning_ratio q = kp_warning_ratio p" "\<forall>j. j \<noteq> l \<longrightarrow> (j \<in> set (kp_warned q) \<longleftrightarrow> j \<in> set (kp_warned p))"
      "l \<in> set (kp_warned q) \<longleftrightarrow> above"
    by (auto simp: q_def)
  have ne: "j \<noteq> l" if "(j, g) \<in> set fills" for j g using that d(2) by force
  note IH = Cons.IH [OF d(1) r]
  have "filter (\<lambda>(j, g). kp_warning_ratio p < fill_ratio g \<and> j \<notin> set (kp_warned q)) fills =
      filter (\<lambda>(j, g). kp_warning_ratio p < fill_ratio g \<and> j \<notin> set (kp_warned p)) fills"
    using w(2) ne by (intro filter_cong) auto
  then have "alerts = map (\<lambda>(l, f). alert l f) (filter (\<lambda>(l, f). kp_warning_ratio p < fill_ratio f \<and> l \<notin> set (kp_warned p)) (x # fills))"
    using IH w(1) step(2) x by (simp add: above_def)
  moreover have "j \<in> set (kp_warned p') \<longleftrightarrow> (case map_of (x # fills) j of None \<Rightarrow> j \<in> set (kp_warned p) | Some g \<Rightarrow> kp_warning_ratio p < fill_ratio g)" for j
  proof (cases "j = l")
    case True
    have "map_of fills l = None" using d(2) by (simp add: map_of_eq_None_iff)
    then show ?thesis using IH [THEN conjunct2, rule_format, of l] w True step(1) x by (simp add: above_def)
  next
    case False
    then show ?thesis using IH [THEN conjunct2, rule_format, of j] w(1) w(2) [rule_format, OF False] step(1) x by (cases "map_of fills j") (simp_all del: map_of_eq_Some_iff map_of_eq_None_iff)
  qed
  ultimately show ?case by blast
qed simp

lemma read_fills_map: "read_fills f ls = Some fills \<Longrightarrow> fills = map (\<lambda>l. (l, the (f l))) ls"
  by (induction ls arbitrary: fills) (auto split: option.splits)

lemma watched_distinct: "distinct WATCHED_SETS"
  by (auto simp: WATCHED_SETS_def distinct_map inj_on_def ADAPTIVE_ENFORCEMENT_SETS_def STATIC_METER_SETS_def nft_name_defs)

text \<open>A successful poll: who is alerted about, and who is warned about afterwards.\<close>

lemma poll_alerts:
  assumes "outcome_of r = PO_SEEN S" "poll isof alert r now p = (res, p')"
  shows "kpr_alerts res = map (\<lambda>l. alert l (the (kr_set_fill r l)))
      (filter (\<lambda>l. kp_warning_ratio p < fill_ratio (the (kr_set_fill r l)) \<and> l \<notin> set (kp_warned p)) WATCHED_SETS)"
    and "l \<in> set WATCHED_SETS \<Longrightarrow> l \<in> set (kp_warned p') \<longleftrightarrow> kp_warning_ratio p < fill_ratio (the (kr_set_fill r l))"
    and "kp_warning_ratio p' = kp_warning_ratio p"
proof -
  obtain os modes cs fills where r: "kr_static_table_present r = Some True" "kr_offenders r = Some os" "kr_guard_modes r = Some modes"
      "kr_counters r = Some cs" "read_fills (kr_set_fill r) WATCHED_SETS = Some fills" using poll_seen [OF assms(1)] by metis
  have fills: "fills = map (\<lambda>l. (l, the (kr_set_fill r l))) WATCHED_SETS" by (rule read_fills_map [OF r(5)])
  then have dist: "od_distinct fills" using watched_distinct by (simp add: comp_def)
  obtain ev p1 where t: "track isof os modes now p = (ev, p1)" by fastforce
  obtain hits p2 where d: "deltas cs p1 = (hits, p2)" by fastforce
  obtain alerts p3 where a: "fill_alerts alert fills p2 = (alerts, p3)" by fastforce
  have p2: "kp_warned p2 = kp_warned p" "kp_warning_ratio p2 = kp_warning_ratio p"
    using deltas_episodes [OF d [unfolded deltas_def]] track_exact(4,6) [OF t] by simp_all
  have res: "kpr_alerts res = alerts" "p' = p3" using assms(2) r t d a by (auto simp: poll_def Let_def)
  note e = fill_alerts_exact [OF dist a, unfolded p2]
  show "kpr_alerts res = map (\<lambda>l. alert l (the (kr_set_fill r l)))
      (filter (\<lambda>l. kp_warning_ratio p < fill_ratio (the (kr_set_fill r l)) \<and> l \<notin> set (kp_warned p)) WATCHED_SETS)"
    using e res(1) by (simp add: fills filter_map comp_def)
  show "l \<in> set (kp_warned p') \<longleftrightarrow> kp_warning_ratio p < fill_ratio (the (kr_set_fill r l))" if "l \<in> set WATCHED_SETS"
  proof -
    have "map_of fills l = Some (the (kr_set_fill r l))" unfolding fills
      using that by (intro map_of_is_SomeI) (simp_all add: comp_def watched_distinct)
    then show ?thesis using e [THEN conjunct2, rule_format, of l] res(2) by (simp del: map_of_eq_Some_iff)
  qed
  show "kp_warning_ratio p' = kp_warning_ratio p" using alerts_episodes [OF a] p2(2) res(2) by simp
qed

text \<open>
  Fill warnings are edge triggered. Between two successful polls the second warns about exactly those
  watched sets, each once and in their fixed order, whose fill ratio is above the configured ratio now and
  was not above it at the first: a set that stays full is reported once, and the warning is armed
  again only by draining to the ratio or below.
\<close>

theorem fill_alert_on_crossing:
  assumes "outcome_of r1 = PO_SEEN S1" "poll isof alert r1 now1 p = (res1, p1)"
    and "outcome_of r2 = PO_SEEN S2" "poll isof alert r2 now2 p1 = (res2, p2)"
  shows "kpr_alerts res2 = map (\<lambda>l. alert l (the (kr_set_fill r2 l)))
    (filter (\<lambda>l. kp_warning_ratio p < fill_ratio (the (kr_set_fill r2 l))
       \<and> fill_ratio (the (kr_set_fill r1 l)) \<le> kp_warning_ratio p) WATCHED_SETS)"
proof -
  have "filter (\<lambda>l. kp_warning_ratio p1 < fill_ratio (the (kr_set_fill r2 l)) \<and> l \<notin> set (kp_warned p1)) WATCHED_SETS =
      filter (\<lambda>l. kp_warning_ratio p < fill_ratio (the (kr_set_fill r2 l)) \<and> fill_ratio (the (kr_set_fill r1 l)) \<le> kp_warning_ratio p) WATCHED_SETS"
    using poll_alerts(2,3) [OF assms(1,2)] by (intro filter_cong) auto
  then show ?thesis using poll_alerts(1) [OF assms(3,4)] by simp
qed

theorem fill_alert_on_crossing_witness:
  "kpr_alerts (fst (poll (\<lambda>_. ''t'') (\<lambda>_ _. ''full'') (example_read\<lparr>kr_set_fill := \<lambda>_. Some (9, Some 10)\<rparr>) 7
       (snd (poll (\<lambda>_. ''t'') (\<lambda>_ _. ''full'') example_read 6 (new_kernel_poller 2 (8/10)))))) = replicate (length WATCHED_SETS) ''full''"
proof -
  obtain res1 p1 where p1: "poll (\<lambda>_. ''t'') (\<lambda>_ _. ''full'') example_read 6 (new_kernel_poller 2 (8/10)) = (res1, p1)" by fastforce
  let ?r2 = "example_read\<lparr>kr_set_fill := \<lambda>_. Some (9, Some 10)\<rparr>"
  obtain res2 p2 where p2: "poll (\<lambda>_. ''t'') (\<lambda>_ _. ''full'') ?r2 7 p1 = (res2, p2)" by fastforce
  have "\<exists>S. outcome_of ?r2 = PO_SEEN S"
    using read_fills_total [of "kr_set_fill ?r2" WATCHED_SETS] by (auto simp: outcome_of_def example_read_def)
  then obtain S where "outcome_of ?r2 = PO_SEEN S" by blast
  from fill_alert_on_crossing [OF example_read_seen p1 this p2] show ?thesis
    using p1 p2 by (simp add: new_kernel_poller_def fill_ratio_def example_read_def map_replicate_const)
qed

end
