(* ===== verification/Escalation.thy ===== *)
theory Escalation
  imports D1_Detection Kernel_Poller
begin

section \<open>Polling again does not escalate\<close>

text \<open>
  The composition of the kernel poller with the policy engine: an offender that simply stays in the kernel's set is
  the same evidence at the next poll, on which the engine has already decided.
\<close>

definition device_items :: "mac_address \<Rightarrow> kernel_poll_result \<Rightarrow> kernel_guard_evidence list" where
  "device_items m res = filter (\<lambda>e. kg_mac e = m) (kpr_evidence res)"

text \<open>The stage in an offender's identifier: only an enforce-mode episode has two of them.\<close>

definition same_stage :: "int \<Rightarrow> kernel_guard_evidence \<Rightarrow> bool" where
  "same_stage sustained e \<longleftrightarrow> kg_guard_mode e = GM_OBSERVE \<or> sustained \<le> kg_sustained_polls e \<or> kg_sustained_polls e + 1 < sustained"

lemma repolled_item:
  assumes "outcome_of r1 = PO_SEEN S1" "kr_guard_modes r1 = Some modes1" "poll isof alert r1 now1 p = (res1, p1)"
    and "outcome_of r2 = PO_SEEN S2" "kr_guard_modes r2 = Some modes2" "poll isof alert r2 now2 p1 = (res2, p2)"
    and "e2 \<in> set (kpr_evidence res2)" "e1 \<in> set (kpr_evidence res1)" "kg_code e1 = kg_code e2" "kg_mac e1 = kg_mac e2"
    and "kg_guard_mode e1 = kg_guard_mode e2" "same_stage (kp_sustained_polls p) e1"
  shows "kg_id e2 = kg_id e1"
proof -
  obtain os1 where o1: "kr_offenders r1 = Some os1" "S1 = set (present_keys os1)" using poll_seen [OF assms(1)] by metis
  obtain os2 where o2: "kr_offenders r2 = Some os2" using poll_seen [OF assms(4)] by metis
  note ev1 = poll_evidence [OF assms(1,2) o1(1) assms(3)] and ev2 = poll_evidence [OF assms(4,5) o2 assms(6)]
  obtain k1 where k1: "k1 \<in> S1" "e1 = specified_evidence isof (kp_sustained_polls p) modes1 now1 k1 (streak_of (bump_episode now1 (kp_episodes p) k1))"
    using assms(8) unfolding ev1 set_map o1(2) by blast
  obtain k2 where k2: "e2 = specified_evidence isof (kp_sustained_polls p1) modes2 now2 k2 (streak_of (bump_episode now2 (kp_episodes p1) k2))"
    using assms(7) unfolding ev2 set_map by blast
  have k: "k2 = k1" using k1(2) k2 assms(9,10) by (cases k1; cases k2) (simp add: specified_evidence_def)
  obtain ev q where t: "track isof os1 modes1 now1 p = (ev, q)" by fastforce
  have p1: "kp_sustained_polls p1 = kp_sustained_polls p" "kp_episodes p1 = kp_episodes q"
    using poll_seen_track [OF assms(1) o1(1) assms(2,3)] t by simp_all
  have "map_of (kp_episodes p1) k1 = Some (bump_episode now1 (kp_episodes p) k1)"
    using track_exact(2) [OF t] k1(1) o1(2) p1(2) by simp
  then have b: "bump_episode now2 (kp_episodes p1) k1 =
      (bump_episode now1 (kp_episodes p) k1)\<lparr>ep_polls := ep_polls (bump_episode now1 (kp_episodes p) k1) + 1\<rparr>"
    by (simp add: bump_episode_def [of now2] Let_def del: map_of_eq_Some_iff)
  show ?thesis
    using k1(2) k2 k p1(1) b assms(11,12) by (auto simp: specified_evidence_def streak_of_def same_stage_def)
qed

text \<open>
  C14: An offender that stays is decided on once. At any point in the life of the policy engine, let it decide on a
  bundle that carries a device's kernel evidence of one poll and something new to the device. After any further run of the
  engine (passes for this and other devices, strikes), when the next poll finds no further code for the device, with the
  guards in the same modes and no episode just reaching the sustained bar, the engine decides nothing on that poll's
  evidence, in any mode, alone or together with items of the first bundle. The engine's memory is bounded, so
  the run in between may involve only fewer other devices than \<open>max_tracked_devices\<close>, and the ids of the first bundle
  and of the device's passes since must number at most \<open>max_evidence_ids_per_device\<close>.
\<close>

theorem repoll_never_escalates:
  assumes "outcome_of r1 = PO_SEEN S1" "kr_guard_modes r1 = Some modes1" "poll isof alert r1 now1 p = (res1, p1)"
    and "outcome_of r2 = PO_SEEN S2" "kr_guard_modes r2 = Some modes2" "poll isof alert r2 now2 p1 = (res2, p2)"
    and "\<forall>e2 \<in> set (device_items m res2). \<exists>e1 \<in> set (device_items m res1). kg_code e1 = kg_code e2
      \<and> kg_guard_mode e1 = kg_guard_mode e2 \<and> same_stage (kp_sustained_polls p) e1"
    and "policy_config_ok pc" "engine_run fmt ys (new_policy_engine table pc) = Some g"
    and "decide is_protected uuid fmt b mode now1 g = Some (ds, g1)" "\<not> is_protected (eb_target b)" "brings_new b g"
    and "KernelGuard ` set (device_items m res1) \<subseteq> set (eb_evidence b)"
    and "engine_run fmt xs g1 = Some g2" "device_key (eb_target b) = k"
    and "card (other_devices k xs) < pc_max_tracked_devices pc"
    and "card (evidence_id ` set (eb_evidence b) \<union> run_ids k xs) \<le> pc_max_evidence_ids_per_device pc"
    and "device_key (eb_target b') = k" "set (eb_evidence b') \<subseteq> KernelGuard ` set (device_items m res2) \<union> set (eb_evidence b)"
  shows "\<exists>g3. decide is_protected' uuid' fmt b' mode' now2 g2 = Some ([], g3)"
proof (rule decided_once [OF assms(8-12,14-18)])
  have "kg_id e2 \<in> kg_id ` set (device_items m res1)" if e2: "e2 \<in> set (device_items m res2)" for e2
  proof -
    obtain e1 where e1: "e1 \<in> set (device_items m res1)" "kg_code e1 = kg_code e2" "kg_guard_mode e1 = kg_guard_mode e2"
        "same_stage (kp_sustained_polls p) e1" using assms(7) e2 by blast
    have "kg_id e2 = kg_id e1"
      by (rule repolled_item [OF assms(1-6) _ _ e1(2) _ e1(3,4)]) (use e1(1) e2 in \<open>simp_all add: device_items_def\<close>)
    then show ?thesis using e1(1) by blast
  qed
  then have "kg_id ` set (device_items m res2) \<subseteq> kg_id ` set (device_items m res1)" by blast
  then have "evidence_id ` KernelGuard ` set (device_items m res2) \<subseteq> evidence_id ` KernelGuard ` set (device_items m res1)"
    by (simp add: image_image)
  from image_covered [OF assms(19) this assms(13)] show "evidence_id ` set (eb_evidence b') \<subseteq> evidence_id ` set (eb_evidence b)" .
qed

definition example_offence :: "datetime \<Rightarrow> int \<Rightarrow> kernel_guard_evidence" where
  "example_offence now polls = specified_evidence (\<lambda>_. ''t'') 1 [(GN_INPUT, GM_ENFORCE)] now (OC_CLOSED_PORT, ''02:00:00:00:00:02'') (6, polls)"

lemma example_present: "kr_offenders example_read = Some [(''02:00:00:00:00:02'', 5)]"
    "kr_guard_modes example_read = Some [(GN_INPUT, GM_ENFORCE)]"
    "present_keys [(''02:00:00:00:00:02'', 5)] = [(OC_CLOSED_PORT, ''02:00:00:00:00:02'')]"
proof -
  show "present_keys [(''02:00:00:00:00:02'', 5)] = [(OC_CLOSED_PORT, ''02:00:00:00:00:02'')]"
    by (simp add: present_keys_def offender_key_def offender_code_of_def OFFENDER_CODES_def map_filter_def example_unicast)
qed (simp_all add: example_read_def)

lemma example_offence_decided:
  "\<exists>d g. decide (\<lambda>_. False) (\<lambda>_. ''id'') example_format
     \<lparr>eb_target = example_device, eb_evidence = map KernelGuard [example_offence 6 1]\<rparr> EM_ACTIVE 6 example_engine = Some ([d], g)"
  by (simp add: example_offence_def specified_evidence_def guard_mode_of_def example_defs decide_def Let_def history_for_def device_key_def
      empty_history_def new_evidence_ids_def fresh_classes_def bundle_ids_def row_actions_def row_escalate_def
      classify_def kernel_class_def shipped_table_def rows_of_def all_evidence_classes_def cell_def decisions_def
      draft_decisions_def direct_action_def block_ttl_def MAX_ELEMENT_TTL_SECONDS_def
      new_policy_decision_def policy_decision_fields_ok_def policy_decision_check_def)

theorem repoll_never_escalates_witness:
  "\<exists>res1 p1 res2 p2 d g g'. poll (\<lambda>_. ''t'') (\<lambda>_ _. ''full'') example_read 6 (new_kernel_poller 1 (8/10)) = (res1, p1)
    \<and> poll (\<lambda>_. ''t'') (\<lambda>_ _. ''full'') example_read 7 p1 = (res2, p2) \<and> device_items ''02:00:00:00:00:02'' res2 \<noteq> []
    \<and> decide (\<lambda>_. False) (\<lambda>_. ''id'') example_format
       \<lparr>eb_target = example_device, eb_evidence = map KernelGuard (device_items ''02:00:00:00:00:02'' res1)\<rparr> EM_ACTIVE 6 example_engine = Some ([d], g)
    \<and> decide (\<lambda>_. False) (\<lambda>_. ''id'') example_format
       \<lparr>eb_target = example_device, eb_evidence = map KernelGuard (device_items ''02:00:00:00:00:02'' res2)\<rparr> EM_ACTIVE 7 (record_enforced d True g) = Some ([], g')"
proof -
  let ?isof = "\<lambda>_ :: datetime. ''t''" and ?alert = "\<lambda>_ _. ''full''" and ?p = "new_kernel_poller 1 (8/10)"
    and ?k = "(OC_CLOSED_PORT, ''02:00:00:00:00:02'')"
  obtain res1 p1 where p1: "poll ?isof ?alert example_read 6 ?p = (res1, p1)" by fastforce
  obtain res2 p2 where p2: "poll ?isof ?alert example_read 7 p1 = (res2, p2)" by fastforce
  note seen = example_read_seen and pr = example_present
  have e1: "kpr_evidence res1 = [example_offence 6 1]"
    using poll_evidence [OF seen pr(2,1) p1]
    by (simp add: pr(3) new_kernel_poller_def bump_episode_def streak_of_def example_offence_def)
  obtain ev q where t: "track ?isof [(''02:00:00:00:00:02'', 5)] [(GN_INPUT, GM_ENFORCE)] 6 ?p = (ev, q)" by fastforce
  have "kp_sustained_polls p1 = 1" "map_of (kp_episodes p1) ?k = Some \<lparr>ep_started_at = 6, ep_polls = 1\<rparr>"
    using poll_seen_track [OF seen pr(1,2) p1] track_exact(2) [OF t] t
    by (simp_all add: pr(3) new_kernel_poller_def bump_episode_def)
  then have e2: "kpr_evidence res2 = [example_offence 7 2]"
    using poll_evidence [OF seen pr(2,1) p2] by (simp add: pr(3) bump_episode_def streak_of_def example_offence_def Let_def)
  have items: "device_items ''02:00:00:00:00:02'' res1 = [example_offence 6 1]" "device_items ''02:00:00:00:00:02'' res2 = [example_offence 7 2]"
    by (simp_all add: device_items_def e1 e2 example_offence_def specified_evidence_def)
  obtain d g where g: "decide (\<lambda>_. False) (\<lambda>_. ''id'') example_format
     \<lparr>eb_target = example_device, eb_evidence = map KernelGuard (device_items ''02:00:00:00:00:02'' res1)\<rparr> EM_ACTIVE 6 example_engine = Some ([d], g)"
    using example_offence_decided unfolding items by blast
  let ?b = "\<lparr>eb_target = example_device, eb_evidence = map KernelGuard (device_items ''02:00:00:00:00:02'' res1)\<rparr>"
    and ?b' = "\<lparr>eb_target = example_device, eb_evidence = map KernelGuard (device_items ''02:00:00:00:00:02'' res2)\<rparr>"
    and ?c = default_policy_config
  have c: "policy_config_ok ?c" by (simp add: policy_config_ok_def default_policy_config_def)
  have start: "engine_run example_format [] (new_policy_engine shipped_table ?c) = Some example_engine" by (simp add: example_engine_def)
  have new: "brings_new ?b example_engine"
    by (simp add: items brings_new_def history_for_def example_defs empty_history_def new_evidence_ids_def bundle_ids_def Let_def)
  have run: "engine_run example_format [Enforced d True] g = Some (record_enforced d True g)" by simp
  have room: "card (other_devices (device_key example_device) [Enforced d True]) < pc_max_tracked_devices ?c"
    "card (evidence_id ` set (eb_evidence ?b) \<union> run_ids (device_key example_device) [Enforced d True]) \<le> pc_max_evidence_ids_per_device ?c"
    by (simp_all add: items other_devices_def run_ids_def default_policy_config_def insert_Diff_if)
  have "\<exists>g'. decide (\<lambda>_. False) (\<lambda>_. ''id'') example_format ?b' EM_ACTIVE 7 (record_enforced d True g) = Some ([], g')"
    by (rule repoll_never_escalates [where m = "''02:00:00:00:00:02''", OF seen pr(2) p1 seen pr(2) p2 _ c start g _ new _ run _ room])
      (simp_all add: items example_offence_def specified_evidence_def same_stage_def new_kernel_poller_def)
  moreover have "device_items ''02:00:00:00:00:02'' res2 \<noteq> []" by (simp add: items(2))
  ultimately show ?thesis using p1 p2 g by blast
qed

end
