(* ===== verification/D1_History.thy ===== *)
theory D1_History
  imports D1_Bounds
begin

section \<open>The sliding windows count the whole history\<close>

text \<open>
  The detectors keep bounded, pruned tables instead of all the connections they have seen. This theory
  relates them to the full history of observed connection starts: as long as the eviction and drop
  counters read zero, every measurement of a device equals the measurement over all of its starts.
  \<open>d1_run\<close> pairs a history with the state it leads to and the time of the last evaluation; evaluations
  happen in the order of their times.
\<close>

abbreviation nothing_lost :: "d1_state \<Rightarrow> bool" where
  "nothing_lost s \<equiv> k_macs_evicted (ds_counters s) = 0 \<and> k_events_dropped (ds_counters s) = 0"

definition starts_of :: "mac_address \<Rightarrow> connection_start list \<Rightarrow> connection_start list" where
  "starts_of m h = filter (\<lambda>e. cn_mac e = m) h"

definition recent_from :: "d1_state \<Rightarrow> datetime \<Rightarrow> connection_start list \<Rightarrow> connection_start list" where
  "recent_from s now es = filter (\<lambda>e. now - ds_horizon s \<le> cn_at e) es"

definition tracks_one :: "connection_start list \<Rightarrow> datetime \<Rightarrow> d1_state \<Rightarrow> mac_address \<Rightarrow> bool" where
  "tracks_one h t s m \<longleftrightarrow> (map_of (ds_devices s) m = None \<longrightarrow> starts_of m h = [])
     \<and> (\<forall>v. map_of (ds_devices s) m = Some v \<longrightarrow>
          (\<forall>now \<ge> t. recent_from s now (dv_events v) = recent_from s now (starts_of m h)))"

definition tracks :: "connection_start list \<Rightarrow> datetime \<Rightarrow> d1_state \<Rightarrow> bool" where
  "tracks h t s \<longleftrightarrow> (\<forall>m. tracks_one h t s m)"

lemmas tracks_simps = tracks_one_def recent_from_def

lemma tracks_cong: "ds_devices s' = ds_devices s \<Longrightarrow> ds_horizon s' = ds_horizon s \<Longrightarrow> tracks h t s \<Longrightarrow> tracks h t s'"
  unfolding tracks_def tracks_simps by simp

subsection \<open>One operation\<close>

lemma lru_enter_kept:
  assumes "lru_enter cap k v d = (False, d')"
  shows "map_of d' = (map_of d)(k \<mapsto> (case map_of d k of None \<Rightarrow> v | Some x \<Rightarrow> x))"
  using assms
  by (cases "map_of d k") (auto simp: lru_enter_def Let_def fun_upd_idem split: if_splits
      simp del: map_of_eq_Some_iff map_of_eq_None_iff)

lemma map_of_entry: "map_of (AList.map_entry k f d) = (case map_of d k of None \<Rightarrow> map_of d | Some v \<Rightarrow> (map_of d)(k \<mapsto> f v))"
  by (auto simp: map_of_map_entry fun_upd_idem split: option.split)

text \<open>Looking a device up without evicting another keeps every device's events and creates an empty one.\<close>

lemma enter_device_lookup:
  assumes "nothing_lost (enter_device m ip s)"
  shows "nothing_lost s"
    and "map_of (ds_devices (enter_device m ip s)) =
      (map_of (ds_devices s))(m \<mapsto> (case map_of (ds_devices s) m of
          None \<Rightarrow> \<lparr>dv_last_ip = ip, dv_events = [], dv_slow = []\<rparr> | Some v \<Rightarrow> v\<lparr>dv_last_ip := ip\<rparr>))"
proof -
  obtain b d where e: "lru_enter (dc_max_tracked_macs (ds_config s)) m \<lparr>dv_last_ip = ip, dv_events = [], dv_slow = []\<rparr> (ds_devices s) = (b, d)"
    by fastforce
  then have b: "\<not> b" "nothing_lost s" using assms by (auto simp: enter_device_def split: if_splits)
  then show "nothing_lost s" by simp
  show "map_of (ds_devices (enter_device m ip s)) =
      (map_of (ds_devices s))(m \<mapsto> (case map_of (ds_devices s) m of
          None \<Rightarrow> \<lparr>dv_last_ip = ip, dv_events = [], dv_slow = []\<rparr> | Some v \<Rightarrow> v\<lparr>dv_last_ip := ip\<rparr>))"
    using e b lru_enter_kept [of _ m _ "ds_devices s" d]
    by (cases "map_of (ds_devices s) m")
      (simp_all add: enter_device_def map_of_entry del: map_of_eq_Some_iff map_of_eq_None_iff)
qed

lemma enter_device_horizon [simp]: "ds_horizon (enter_device m ip s) = ds_horizon s"
  by (simp add: enter_device_def split: prod.split)

lemma tracks_enter:
  assumes "tracks h t s" "nothing_lost (enter_device m ip s)"
  shows "tracks h t (enter_device m ip s)"
proof -
  note e = enter_device_lookup [OF assms(2)]
  show ?thesis
    unfolding tracks_def
  proof
    fix j
    show "tracks_one h t (enter_device m ip s) j"
      using assms(1) [unfolded tracks_def, rule_format, of j]
      by (cases "map_of (ds_devices s) j") (auto simp: e(2) tracks_simps simp del: map_of_eq_Some_iff map_of_eq_None_iff)
  qed
qed

lemma deque_append_room: "length xs < n \<Longrightarrow> deque_append n x xs = xs @ [x]"
  by (simp add: deque_append_def)

lemma starts_of_append: "starts_of m (h @ [e]) = starts_of m h @ (if cn_mac e = m then [e] else [])"
  by (simp add: starts_of_def)

lemma add_event_lookup:
  assumes "d1_inv s" "nothing_lost (add_event e s)" "map_of (ds_devices s) (cn_mac e) = Some v"
  shows "map_of (ds_devices (add_event e s)) = (map_of (ds_devices s))(cn_mac e \<mapsto> v\<lparr>dv_events := dv_events v @ [e]\<rparr>)"
    and "nothing_lost s" and "ds_horizon (add_event e s) = ds_horizon s"
proof -
  have "length (dv_events v) \<noteq> dc_max_events_per_mac (ds_config s)" "nothing_lost s"
    using assms(2,3) by (auto simp: add_event_def Let_def split: if_splits simp del: map_of_eq_Some_iff)
  moreover have "device_ok (ds_config s) v"
    using assms(1,3) by (metis (no_types, lifting) d1_bounded_def d1_inv_def od_all_lookup)
  ultimately show "map_of (ds_devices (add_event e s)) = (map_of (ds_devices s))(cn_mac e \<mapsto> v\<lparr>dv_events := dv_events v @ [e]\<rparr>)"
      "nothing_lost s"
    using assms(3) by (simp_all add: add_event_def Let_def map_of_entry deque_append_room device_ok_def
        del: map_of_eq_Some_iff)
  show "ds_horizon (add_event e s) = ds_horizon s" by (simp add: add_event_def Let_def)
qed

lemma rest_of_observe:
  fixes s e
  defines "s' \<equiv> add_arrival e (note_mac (cn_mac e) (cn_at e) s)"
  shows "ds_devices s' = ds_devices s" "ds_horizon s' = ds_horizon s" "nothing_lost s' \<longleftrightarrow> nothing_lost s"
  unfolding s'_def
  by (cases "lru_enter (dc_max_known_macs (ds_config s)) (cn_mac e) () (ds_known_macs s)";
      simp add: add_arrival_def note_mac_def split: prod.split del: map_of_eq_Some_iff)+

lemma tracks_observe:
  assumes "d1_inv s" "identity (cn_mac e)" "nothing_lost s \<longrightarrow> tracks h t s" "nothing_lost (d1_observe e s)"
  shows "tracks (h @ [e]) t (d1_observe e s)"
proof -
  let ?s1 = "enter_device (cn_mac e) (cn_source_ip e) s" and ?m = "cn_mac e"
  let ?s2 = "add_event e ?s1"
  have inv1: "d1_inv ?s1" by (rule d1_inv_enter_device [OF assms(1,2)])
  have n2: "nothing_lost ?s2" using assms(4) rest_of_observe(3) by (simp add: d1_observe_def)
  have "nothing_lost ?s1" using n2 by (auto simp: add_event_def Let_def split: if_splits)
  note n1 = this
  have t1: "tracks h t ?s1" using tracks_enter [OF _ n1] assms(3) enter_device_lookup(1) [OF n1] by blast
  obtain v where v: "map_of (ds_devices ?s1) ?m = Some v" using enter_device_lookup(2) [OF n1] by simp
  note a = add_event_lookup [OF inv1 n2 v]
  have "tracks (h @ [e]) t ?s2"
    unfolding tracks_def
  proof
    fix j
    show "tracks_one (h @ [e]) t ?s2 j"
      using t1 [unfolded tracks_def, rule_format, of j] v
      by (auto simp: a tracks_simps starts_of_append simp del: map_of_eq_Some_iff map_of_eq_None_iff)
  qed
  then show ?thesis unfolding d1_observe_def by (rule tracks_cong [OF rest_of_observe(1,2)])
qed

lemma filter_dropWhile_recent:
  "t \<le> now \<Longrightarrow> filter (\<lambda>e. now - h \<le> f e) (dropWhile (\<lambda>e. f e < t - h) es) = filter (\<lambda>e. now - (h :: int) \<le> f e) es"
  by (induction es) auto

lemma tracks_measure:
  assumes "tracks h t s" "t \<le> now"
  shows "tracks h now (snd (measure_device m now s))"
proof (cases "map_of (ds_devices s) m")
  case None
  then show ?thesis using assms by (simp add: measure_device_def tracks_def tracks_one_def)
next
  case (Some v)
  let ?s' = "snd (measure_device m now s)"
  have d: "map_of (ds_devices ?s') = (map_of (ds_devices s))(m \<mapsto> v\<lparr>dv_events := prune_events s now cn_at (dv_events v)\<rparr>)"
      "ds_horizon ?s' = ds_horizon s"
    using Some by (simp_all add: measure_device_def Let_def map_of_entry del: map_of_eq_Some_iff)
  show ?thesis
    unfolding tracks_def
  proof
    fix j
    show "tracks_one h now ?s' j"
      using assms(1) [unfolded tracks_def, rule_format, of j] assms(2) Some
      by (auto simp: d tracks_simps prune_events_def filter_dropWhile_recent simp del: map_of_eq_Some_iff map_of_eq_None_iff)
  qed
qed

lemma tracks_slow:
  assumes "tracks h t s" "nothing_lost (observe_slow_cluster mac ip dst n at' s)"
  shows "tracks h t (observe_slow_cluster mac ip dst n at' s)"
proof (cases "unicast_mac_option mac")
  case (Some m)
  let ?s1 = "enter_device m ip s" and ?s' = "observe_slow_cluster mac ip dst n at' s"
  have n1: "nothing_lost ?s1" using assms(2) Some by (auto simp: observe_slow_cluster_def Let_def)
  have t1: "tracks h t ?s1" by (rule tracks_enter [OF assms(1) n1])
  obtain v where v: "map_of (ds_devices ?s1) m = Some v" using enter_device_lookup(2) [OF n1] by simp
  then obtain slow where d: "map_of (ds_devices ?s') = (map_of (ds_devices ?s1))(m \<mapsto> v\<lparr>dv_slow := slow\<rparr>)" "ds_horizon ?s' = ds_horizon ?s1"
    using Some by (auto simp: observe_slow_cluster_def Let_def map_of_entry simp del: map_of_eq_Some_iff)
  show ?thesis
    unfolding tracks_def
  proof
    fix j
    show "tracks_one h t ?s' j"
      using t1 [unfolded tracks_def, rule_format, of j] v d(2)
      by (auto simp: d(1) tracks_simps simp del: map_of_eq_Some_iff map_of_eq_None_iff)
  qed
qed (simp add: observe_slow_cluster_def assms(1))

lemma slow_nothing_lost: "nothing_lost (observe_slow_cluster mac ip dst n at' s) \<Longrightarrow> nothing_lost s"
proof (cases "unicast_mac_option mac")
  case (Some m)
  assume "nothing_lost (observe_slow_cluster mac ip dst n at' s)"
  then have "nothing_lost (enter_device m ip s)" using Some by (simp add: observe_slow_cluster_def Let_def)
  then show ?thesis by (rule enter_device_lookup(1))
qed (simp add: observe_slow_cluster_def)

lemma observe_nothing_lost: "nothing_lost (d1_observe e s) \<Longrightarrow> nothing_lost s"
proof -
  let ?s1 = "enter_device (cn_mac e) (cn_source_ip e) s"
  assume "nothing_lost (d1_observe e s)"
  then have "nothing_lost (add_event e ?s1)" unfolding d1_observe_def rest_of_observe(3) .
  then have "nothing_lost ?s1" by (auto simp: add_event_def Let_def split: if_splits)
  then show "nothing_lost s" by (rule enter_device_lookup(1))
qed

subsection \<open>Runs\<close>

text \<open>Operations that do not touch the devices: they change other tables or the thresholds only.\<close>

definition devices_kept :: "d1_state \<Rightarrow> d1_state \<Rightarrow> bool" where
  "devices_kept s s' \<longleftrightarrow> ds_devices s' = ds_devices s \<and> ds_horizon s' = ds_horizon s \<and> (nothing_lost s' \<longleftrightarrow> nothing_lost s)"

lemma devices_kept_trans: "devices_kept s s' \<Longrightarrow> devices_kept s' s'' \<Longrightarrow> devices_kept s s''"
  by (simp add: devices_kept_def)

lemma bindings_kept: "devices_kept s (observe_bindings bs t s)"
proof -
  have "devices_kept s (fold (observe_binding t) bs s)" for s
  proof (induction bs arbitrary: s)
    case (Cons b bs)
    have "devices_kept s (observe_binding t b s)"
      by (cases "lru_enter (dc_max_known_macs (ds_config s)) (b_ip b, b_mac b) () (ds_known_leases s)")
        (simp add: devices_kept_def observe_binding_def del: map_of_eq_Some_iff)
    then show ?case using Cons devices_kept_trans by simp
  qed (simp add: devices_kept_def)
  then show ?thesis by (simp add: observe_bindings_def devices_kept_def)
qed

lemma others_kept:
  "devices_kept s (observe_portal_failure a m t s)"
  "devices_kept s (replace_thresholds th s)"
  "devices_kept s (snd (evaluate_destination d now s))"
  by (simp_all add: devices_kept_def observe_portal_failure_def replace_thresholds_def evaluate_destination_def
      measure_destination_def Let_def split: prod.split option.split del: map_of_eq_Some_iff)

inductive d1_run :: "d1_config \<Rightarrow> connection_start list \<Rightarrow> datetime \<Rightarrow> d1_state \<Rightarrow> bool" for c :: d1_config where
  run_start: "d1_config_ok c \<Longrightarrow> d1_run c [] t (new_d1_state c th extra)"
| run_observe: "d1_run c h t s \<Longrightarrow> identity (cn_mac e) \<Longrightarrow> d1_run c (h @ [e]) t (d1_observe e s)"
| run_slow: "d1_run c h t s \<Longrightarrow> d1_run c h t (observe_slow_cluster m sip dip n at' s)"
| run_bindings: "d1_run c h t s \<Longrightarrow> d1_run c h t (observe_bindings bs at' s)"
| run_portal: "d1_run c h t s \<Longrightarrow> d1_run c h t (observe_portal_failure a m at' s)"
| run_reload: "d1_run c h t s \<Longrightarrow> d1_run c h t (replace_thresholds th s)"
| run_device: "d1_run c h t s \<Longrightarrow> t \<le> now \<Longrightarrow> d1_run c h now (snd (evaluate_device m now s))"
| run_destination: "d1_run c h t s \<Longrightarrow> d1_run c h t (snd (evaluate_destination d now s))"

lemma run_inv: "d1_run c h t s \<Longrightarrow> d1_inv s"
  by (induction rule: d1_run.induct)
    (simp_all add: d1_inv_new d1_inv_observe d1_inv_slow d1_inv_bindings d1_inv_portal d1_inv_thresholds
      d1_inv_evaluate_device d1_inv_evaluate_destination)

lemma tracks_kept: "devices_kept s s' \<Longrightarrow> (nothing_lost s \<longrightarrow> tracks h t s) \<Longrightarrow> nothing_lost s' \<longrightarrow> tracks h t s'"
  using tracks_cong by (auto simp: devices_kept_def)

lemma run_tracks: "d1_run c h t s \<Longrightarrow> nothing_lost s \<longrightarrow> tracks h t s"
proof (induction rule: d1_run.induct)
  case (run_start t th extra)
  then show ?case by (simp add: tracks_def tracks_one_def new_d1_state_def starts_of_def)
next
  case (run_observe h t s e)
  then show ?case using tracks_observe [OF run_inv] by blast
next
  case (run_slow h t s m sip dip n at')
  then show ?case using tracks_slow slow_nothing_lost by blast
next
  case (run_device h t s now m)
  have "snd (evaluate_device m now s) = snd (measure_device m now s)" by (simp add: evaluate_device_def split: prod.split)
  moreover have "nothing_lost (snd (measure_device m now s)) \<longleftrightarrow> nothing_lost s"
    by (simp add: measure_device_def Let_def split: option.split del: map_of_eq_Some_iff)
  ultimately show ?case using run_device tracks_measure by auto
qed (use tracks_kept bindings_kept others_kept in \<open>blast+\<close>)

lemma in_window_recent: "d1_inv s \<Longrightarrow> w \<in> set (ds_windows s) \<Longrightarrow> in_window w now t \<Longrightarrow> now - ds_horizon s \<le> t"
proof -
  assume s: "d1_inv s" "w \<in> set (ds_windows s)" "in_window w now t"
  then have "seconds w \<le> ds_horizon s" by (simp add: d1_inv_def)
  then show ?thesis using s(3) by (simp add: in_window_def)
qed

lemma filter_window_recent:
  "d1_inv s \<Longrightarrow> w \<in> set (ds_windows s) \<Longrightarrow>
    filter (\<lambda>e. in_window w now (cn_at e)) (recent_from s now es) = filter (\<lambda>e. in_window w now (cn_at e)) es"
  using in_window_recent by (auto simp: recent_from_def filter_filter intro!: filter_cong)

lemma recent_prune: "recent_from s now (prune_events s now cn_at es) = recent_from s now es"
  by (simp add: recent_from_def prune_events_def filter_dropWhile_recent)

lemma device_window_cong:
  assumes "d1_inv s" "w \<in> set (ds_windows s)" "recent_from s now es = recent_from s now es'"
  shows "device_window s (v\<lparr>dv_events := es\<rparr>) now w = device_window s (v\<lparr>dv_events := es'\<rparr>) now w"
proof -
  have "filter (\<lambda>e. in_window w now (cn_at e)) es = filter (\<lambda>e. in_window w now (cn_at e)) es'"
    using filter_window_recent [OF assms(1,2)] assms(3) by metis
  then show ?thesis by (simp add: device_window_def slow_value_def)
qed

text \<open>
  C11: the bounded state counts like the unbounded history. After any run of observations and of
  evaluations at non-decreasing times, if the counters report no evicted device and no dropped event,
  then measuring a device gives exactly the values computed from the list of all connection starts it
  has ever made: pruning, reordering of devices and interleaved traffic of others change nothing; and a
  device without a record has made no start.
\<close>

theorem windows_count_history:
  assumes "d1_run c h t s" "nothing_lost s" "t \<le> now"
  shows "(map_of (ds_devices s) m = None \<longrightarrow> starts_of m h = [] \<and> fst (measure_device m now s) = [])
    \<and> (\<forall>v. map_of (ds_devices s) m = Some v \<longrightarrow> fst (measure_device m now s) =
         concat (map (device_window s (v\<lparr>dv_events := starts_of m h\<rparr>) now) (ds_windows s)))"
proof -
  have one: "tracks_one h t s m" using run_tracks [OF assms(1)] assms(2) by (simp add: tracks_def)
  have inv: "d1_inv s" by (rule run_inv [OF assms(1)])
  have "fst (measure_device m now s) =
      concat (map (device_window s (v\<lparr>dv_events := starts_of m h\<rparr>) now) (ds_windows s))"
    if v: "map_of (ds_devices s) m = Some v" for v
  proof -
    have "recent_from s now (prune_events s now cn_at (dv_events v)) = recent_from s now (starts_of m h)"
      using one v assms(3) by (simp add: recent_prune tracks_one_def del: map_of_eq_Some_iff)
    then have eq: "map (device_window s (v\<lparr>dv_events := prune_events s now cn_at (dv_events v)\<rparr>) now) (ds_windows s) =
        map (device_window s (v\<lparr>dv_events := starts_of m h\<rparr>) now) (ds_windows s)"
      by (intro map_cong refl device_window_cong [OF inv])
    have "fst (measure_device m now s) =
        concat (map (device_window s (v\<lparr>dv_events := prune_events s now cn_at (dv_events v)\<rparr>) now) (ds_windows s))"
      using v by (simp add: measure_device_def Let_def del: map_of_eq_Some_iff)
    then show ?thesis unfolding eq .
  qed
  moreover have "starts_of m h = [] \<and> fst (measure_device m now s) = []" if "map_of (ds_devices s) m = None"
    using that one by (simp add: tracks_one_def measure_device_def)
  ultimately show ?thesis by blast
qed

definition example_port :: "int \<Rightarrow> connection_start" where
  "example_port p = \<lparr>cn_mac = ''02:00:00:00:00:02'', cn_source_ip = ipv4 10 0 0 5, cn_destination_ip = ipv4 10 0 0 9,
     cn_destination_port = Some p, cn_at = 5, cn_failed = None, cn_duration_seconds = None, cn_byte_count = None\<rparr>"

theorem windows_count_history_witness:
  "\<exists>s v. d1_run default_d1_config [example_port 22] 0 s \<and> map_of (ds_devices s) ''02:00:00:00:00:02'' = Some v
    \<and> fst (measure_device ''02:00:00:00:00:02'' 9 s) =
         concat (map (device_window s (v\<lparr>dv_events := starts_of ''02:00:00:00:00:02'' [example_port 22]\<rparr>) 9) (ds_windows s))"
proof -
  let ?s = "d1_observe (example_port 22) (new_d1_state default_d1_config example_thresholds [])"
  have "unicast_mac ''02:00:00:00:00:02'' = Some ''02:00:00:00:00:02''" by code_simp
  then have "identity (cn_mac (example_port 22))" by (simp add: identity_def example_port_def)
  then have run: "d1_run default_d1_config [example_port 22] 0 ?s"
    using run_observe [OF run_start [OF default_d1_config_ok], of "example_port 22" 0 example_thresholds "[]"] by simp
  have "nothing_lost ?s" "\<exists>v. map_of (ds_devices ?s) ''02:00:00:00:00:02'' = Some v"
    by (simp_all add: d1_observe_def enter_device_def lru_enter_def note_mac_def add_event_def add_arrival_def
        new_d1_state_def default_d1_config_def example_port_def Let_def)
  then obtain v where "map_of (ds_devices ?s) ''02:00:00:00:00:02'' = Some v" by blast
  then show ?thesis
    using run windows_count_history [OF run \<open>nothing_lost ?s\<close>, of 9 "''02:00:00:00:00:02''"]
    by (intro exI [of _ ?s] exI [of _ v]) simp
qed

end
