(* ===== verification/D1_Fitting.thy ===== *)
theory D1_Fitting
  imports D1_Bounds
begin

section \<open>Fitting the thresholds\<close>

text \<open>
  \<open>scripts/train/fit_d1_thresholds.py\<close> from the rows on: the training block, the replay of its connection starts
  through the same state the core runs, and the thresholds clamped by the priors. Reading the CSV and JSON
  files is not modelled: an input directory is the pair of its description and its benign TCP rows. A
  refusal (\<open>FitError\<close>), a missing feature column and a failed validation are error values.
\<close>

record fit_input =
  fi_directory_name :: string
  fi_manifest_sha256 :: string
  fi_env_tag :: string

record fit_row =
  fx_at_us :: int
  fx_source_mac :: "string option"
  fx_source_ip :: ipv4_address
  fx_destination_ip :: ipv4_address
  fx_destination_port :: "int option"
  fx_connection_start :: bool
  fx_features :: "(string, real) odict"

datatype fit_error = FE_MIXED_TAGS | FE_NO_ROWS | FE_EMPTY_BLOCK | FE_ROW start_error | FE_INVALID

definition fit_block :: "fit_row list \<Rightarrow> real \<Rightarrow> real option \<Rightarrow> real option \<Rightarrow> int \<times> int" where
  "fit_block rows fraction start' end' =
     (case (start', end') of
        (Some a, Some b) \<Rightarrow> (py_trunc (a * 1000000), py_trunc (b * 1000000))
      | _ \<Rightarrow>
          (let first = Min (set (map fx_at_us rows)); last' = Max (set (map fx_at_us rows))
           in (first, first + py_trunc (of_int (last' - first) * fraction) + 1)))"

definition add_sample :: "threshold_key \<times> real \<Rightarrow> (threshold_key, real list) odict \<Rightarrow> (threshold_key, real list) odict" where
  "add_sample r samples = group_append (fst r) (snd r) samples"

text \<open>\<open>{**a, **b}\<close>.\<close>

definition od_merge :: "('k, 'v) odict \<Rightarrow> ('k, 'v) odict \<Rightarrow> ('k, 'v) odict" where
  "od_merge a b = fold (\<lambda>(k, v) d. AList.update k v d) b a"

definition measure_start :: "connection_start \<Rightarrow> d1_state \<Rightarrow> (threshold_key, real) odict \<times> d1_state" where
  "measure_start e s =
     (let s1 = d1_observe e s;
          (device, s2) = measure_device (cn_mac e) (cn_at e) s1;
          (destination, s3) = measure_destination (cn_destination_ip e) (cn_at e) s2
      in (od_merge (od_merge device destination) (measure_global (cn_at e) s3), s3))"

fun measure_rows :: "fit_row list \<Rightarrow> d1_state \<Rightarrow> (threshold_key, real list) odict \<Rightarrow>
    start_error + (threshold_key, real list) odict" where
  "measure_rows [] s samples = Inr samples"
| "measure_rows (row # rows) s samples =
     (case start_from_features (fx_connection_start row) (fx_source_mac row) (fx_source_ip row)
             (fx_destination_ip row) (fx_destination_port row) (fx_at_us row) (fx_features row) of
        Inl e \<Rightarrow> Inl e
      | Inr None \<Rightarrow> measure_rows rows s samples
      | Inr (Some e) \<Rightarrow>
          (let (measured, s') = measure_start e s in measure_rows rows s' (fold add_sample measured samples)))"

definition UNMEASURABLE :: "d1_detector list" where
  "UNMEASURABLE = [D1_NEW_LEASE_RATE, D1_PORTAL_AUTH_FAILURES, D1_SLOW_RATE_DOS]"

text \<open>The constructor call for one prior; \<open>None\<close> where a quantile cannot be read.\<close>

definition fitted_entry :: "(threshold_key, real list) odict \<Rightarrow> real \<Rightarrow> threshold_key \<times> prior \<Rightarrow> threshold_entry option" where
  "fitted_entry samples margin r =
     (let (k, p) = r; vs = (case map_of samples k of None \<Rightarrow> [] | Some vs \<Rightarrow> vs) in
      if vs = [] \<or> tk_detector k \<in> set UNMEASURABLE then Some (floor_entry k p)
      else map_option (\<lambda>(t, p999). \<lparr>te_name = show_key k, te_value = t, te_floor = pr_floor p, te_ceiling = pr_ceiling p,
             te_benign_p999 = Some p999, te_margin = Some margin, te_samples = int (length vs)\<rparr>)
           (threshold_from_benign vs margin p))"

definition sort_rows :: "fit_row list \<Rightarrow> fit_row list" where
  "sort_rows rows = sort_key (\<lambda>r. (fx_at_us r, show_ipv4 (fx_source_ip r),
     case fx_destination_port r of None \<Rightarrow> 0 | Some p \<Rightarrow> p)) rows"

fun all_entries :: "threshold_entry option list \<Rightarrow> threshold_entry list option" where
  "all_entries [] = Some []"
| "all_entries (None # es) = None"
| "all_entries (Some e # es) =
     (case new_threshold_entry e of None \<Rightarrow> None | Some e' \<Rightarrow> map_option ((#) e') (all_entries es))"

definition fit :: "(threshold_entry list \<Rightarrow> string) \<Rightarrow> (fit_input \<times> fit_row list) list \<Rightarrow> d1_config \<Rightarrow> real \<Rightarrow> real \<Rightarrow>
    real option \<Rightarrow> real option \<Rightarrow> string list \<Rightarrow> bool \<Rightarrow> fit_error + d1_threshold_file" where
  "fit digest directories c margin train_fraction block_start block_end exclude freeze =
     (let inputs = map fst directories;
          rows = sort_rows (concat (map snd directories));
          tags = remdups (map fi_env_tag inputs);
          (low, high) = fit_block rows train_fraction block_start block_end;
          block = filter (\<lambda>r. low \<le> fx_at_us r \<and> fx_at_us r < high) rows
      in if length tags \<noteq> 1 then Inl FE_MIXED_TAGS
         else if rows = [] then Inl FE_NO_ROWS
         else if block = [] then Inl FE_EMPTY_BLOCK
         else (case floors_file digest (dc_windows_seconds c) [] of
                 None \<Rightarrow> Inl FE_INVALID
               | Some floors \<Rightarrow>
                   (case measure_rows block (new_d1_state c floors []) [] of
                      Inl e \<Rightarrow> Inl (FE_ROW e)
                    | Inr samples \<Rightarrow>
                        (case Option.bind
                                (all_entries (map (fitted_entry samples margin)
                                   (filter (\<lambda>(k, p). tk_window_seconds k \<in> set (dc_windows_seconds c)) sorted_priors)))
                                (\<lambda>entries. assemble_thresholds digest entries freeze
                                   [(''source'', PV_Str ''fitted''), (''env_tag'', PV_Str (hd tags)),
                                    (''inputs'', PV_List (map (\<lambda>i. fi_directory_name i @ '':'' @ fi_manifest_sha256 i) inputs)),
                                    (''block_start_us'', PV_Int low), (''block_end_us'', PV_Int high),
                                    (''block_rows'', PV_Int (int (length block))), (''margin'', PV_Float margin),
                                    (''excluded_macs'', PV_List (sort (remdups (map (map ascii_lower) exclude))))]) of
                           None \<Rightarrow> Inl FE_INVALID
                         | Some f \<Rightarrow> Inr f))))"

subsection \<open>Samples\<close>

lemma start_from_features_identity:
  "start_from_features b m sip dip port t fs = Inr (Some e) \<Longrightarrow> identity (cn_mac e)"
  by (auto simp: start_from_features_def identity_unicast split: option.splits if_splits)

abbreviation nonneg_values :: "('k, real) odict \<Rightarrow> bool" where
  "nonneg_values d \<equiv> od_all (\<lambda>v. 0 \<le> v) d"

abbreviation nonneg_samples :: "('k, real list) odict \<Rightarrow> bool" where
  "nonneg_samples d \<equiv> od_all (\<lambda>vs. \<forall>v \<in> set vs. 0 \<le> v) d"

lemma nonneg_merge: "nonneg_values a \<Longrightarrow> nonneg_values b \<Longrightarrow> nonneg_values (od_merge a b)"
  unfolding od_merge_def by (induction b arbitrary: a) (auto simp: od_all_update)

lemma measure_start_ok:
  assumes "d1_inv s" "identity (cn_mac e)" "measure_start e s = (r, s')"
  shows "d1_inv s' \<and> nonneg_values r"
proof -
  have s1: "d1_inv (d1_observe e s)" by (rule d1_inv_observe [OF assms(1,2)])
  obtain a s2 where a: "measure_device (cn_mac e) (cn_at e) (d1_observe e s) = (a, s2)" by fastforce
  obtain b s3 where b: "measure_destination (cn_destination_ip e) (cn_at e) s2 = (b, s3)" by fastforce
  have s2: "d1_inv s2" by (rule d1_inv_measure_device [OF s1 a])
  have s3: "d1_inv s3" by (rule d1_inv_measure_destination [OF s2 b])
  have "nonneg_values a" "nonneg_values b" "nonneg_values (measure_global (cn_at e) s3)"
    using measure_device_ok(1) [OF s1 a] measure_destination_ok(1) [OF s2 b] measure_global_ok [OF s3]
    unfolding od_all_def by blast+
  then show ?thesis using assms(3) a b s3 by (auto simp: measure_start_def Let_def intro: nonneg_merge)
qed

lemma nonneg_lookup: "nonneg_samples d \<Longrightarrow> \<forall>v \<in> set (case map_of d k of None \<Rightarrow> [] | Some vs \<Rightarrow> vs). 0 \<le> v"
proof (cases "map_of d k")
  case (Some vs)
  then show "nonneg_samples d \<Longrightarrow> ?thesis" using od_all_lookup [of "\<lambda>vs. \<forall>v \<in> set vs. 0 \<le> v" d k vs] by simp
qed simp

lemma nonneg_add_sample: "nonneg_samples d \<Longrightarrow> 0 \<le> snd r \<Longrightarrow> nonneg_samples (add_sample r d)"
proof -
  assume d: "nonneg_samples d" "0 \<le> snd r"
  have "\<forall>v \<in> set (case map_of d (fst r) of None \<Rightarrow> [] | Some vs \<Rightarrow> vs). 0 \<le> v"
    by (rule nonneg_lookup [OF d(1)])
  then show ?thesis using d unfolding add_sample_def group_append_def by (intro od_all_update) auto
qed

lemma nonneg_fold_samples: "nonneg_values r \<Longrightarrow> nonneg_samples d \<Longrightarrow> nonneg_samples (fold add_sample r d)"
  by (induction r arbitrary: d) (auto simp: nonneg_add_sample od_all_def [of _ "_ # _"] od_all_def [of "\<lambda>v. 0 \<le> v"])

lemma measure_rows_nonneg:
  "d1_inv s \<Longrightarrow> nonneg_samples d \<Longrightarrow> measure_rows rows s d = Inr d' \<Longrightarrow> nonneg_samples d'"
proof (induction rows s d rule: measure_rows.induct)
  case (2 row rows s d)
  show ?case
  proof (cases "start_from_features (fx_connection_start row) (fx_source_mac row) (fx_source_ip row)
      (fx_destination_ip row) (fx_destination_port row) (fx_at_us row) (fx_features row)")
    case (Inr r)
    show ?thesis
    proof (cases r)
      case (Some e)
      obtain m s' where m: "measure_start e s = (m, s')" by fastforce
      have "d1_inv s' \<and> nonneg_values m"
        by (rule measure_start_ok [OF 2(3) start_from_features_identity [OF Inr [unfolded Some]] m])
      then show ?thesis using 2 Inr Some m nonneg_fold_samples by simp
    qed (use 2 Inr in simp)
  qed (use 2 in simp)
qed simp

subsection \<open>Fitted entries\<close>

lemma fitted_entry_banded:
  assumes "nonneg_samples samples" "0 < margin"
  shows "banded (\<lambda>r. the (fitted_entry samples margin r)) \<and> (\<forall>r \<in> set DEFAULT_PRIORS. fitted_entry samples margin r \<noteq> None)"
proof -
  have "\<exists>e. fitted_entry samples margin (k, p) = Some e \<and> te_name e = show_key k \<and> te_floor e = pr_floor p
      \<and> te_ceiling e = pr_ceiling p \<and> entry_fields_ok e \<and> check_clamped e" if kp: "(k, p) \<in> set DEFAULT_PRIORS" for k p
  proof -
    let ?vs = "case map_of samples k of None \<Rightarrow> [] | Some vs \<Rightarrow> vs"
    have p: "0 \<le> pr_floor p" "pr_floor p \<le> pr_ceiling p" using prior_ok_member [OF kp] by (auto simp: prior_ok_def)
    have vs: "\<forall>v \<in> set ?vs. 0 \<le> v"
      by (rule nonneg_lookup [OF assms(1)])
    show ?thesis
    proof (cases "?vs = [] \<or> tk_detector k \<in> set UNMEASURABLE")
      case True
      then show ?thesis using floor_entry_banded kp by (auto simp: fitted_entry_def banded_def floor_entry_def Let_def)
    next
      case False
      obtain t p999 where t: "threshold_from_benign ?vs margin p = Some (t, p999)" "pr_floor p \<le> t" "t \<le> pr_ceiling p" "0 \<le> p999"
        using threshold_from_benign_clamped [OF p(2), of ?vs margin] vs by blast
      show ?thesis
        using False t p assms(2)
        by (simp add: fitted_entry_def Let_def entry_fields_ok_def check_clamped_def show_key_nonempty)
    qed
  qed
  then show ?thesis unfolding banded_def by fastforce
qed

lemma all_entries_total: "\<forall>r \<in> set rs. f r \<noteq> None \<Longrightarrow> all_entries (map f rs) = new_entries (map (\<lambda>r. the (f r)) rs)"
proof (induction rs)
  case (Cons r rs)
  then obtain e where "f r = Some e" by auto
  then show ?case using Cons by (simp split: option.split)
qed simp

subsection \<open>The fitted file\<close>

text \<open>What \<open>fit\<close> returns when it does not refuse: the file assembled from the entries of the samples.\<close>

lemma fit_result:
  assumes "d1_config_ok c" "0 < margin" "\<And>xs. length (digest xs) = 64"
    and "fit digest dirs c margin fraction a b exclude freeze = Inr f"
  obtains samples where "nonneg_samples samples" "tf_frozen f = freeze" "check_hash digest f" "thresholds_ok f"
    "\<And>k p. (k, p) \<in> set DEFAULT_PRIORS \<Longrightarrow> tk_window_seconds k \<in> set (dc_windows_seconds c) \<Longrightarrow>
      threshold_value f k = Some (te_value (the (fitted_entry samples margin (k, p))))"
proof -
  let ?windows = "dc_windows_seconds c"
  obtain block floors samples prov where m: "measure_rows block (new_d1_state c floors []) [] = Inr samples"
      "Option.bind (all_entries (map (fitted_entry samples margin) (enabled_priors ?windows)))
        (\<lambda>entries. assemble_thresholds digest entries freeze prov) = Some f"
    using assms(4) unfolding fit_def Let_def
    by (auto split: if_splits option.splits sum.splits prod.splits)
  have nn: "nonneg_samples samples" by (rule measure_rows_nonneg [OF d1_inv_new [OF assms(1)] _ m(1)]) simp
  note band = fitted_entry_banded [OF nn assms(2)]
  have "all_entries (map (fitted_entry samples margin) (enabled_priors ?windows)) =
      new_entries (map (\<lambda>r. the (fitted_entry samples margin r)) (enabled_priors ?windows))"
    using band by (intro all_entries_total) (auto simp: sorted_priors_set)
  then have f: "Option.bind (new_entries (map (\<lambda>r. the (fitted_entry samples margin r)) (enabled_priors ?windows)))
      (\<lambda>entries. assemble digest entries freeze prov) = Some f"
    using m(2) by (simp add: assemble_thresholds_def)
  obtain f' where f': "Option.bind (new_entries (map (\<lambda>r. the (fitted_entry samples margin r)) (enabled_priors ?windows)))
      (\<lambda>entries. assemble digest entries freeze prov) = Some f'" "tf_frozen f' = freeze" "check_hash digest f'"
      "\<forall>e \<in> snd ` set (tf_thresholds f'). entry_fields_ok e \<and> check_clamped e"
      "\<And>k p. (k, p) \<in> set DEFAULT_PRIORS \<Longrightarrow> tk_window_seconds k \<in> set ?windows \<Longrightarrow>
        threshold_value f' k = Some (te_value (the (fitted_entry samples margin (k, p))))"
    using banded_file [of "\<lambda>r. the (fitted_entry samples margin r)" digest ?windows freeze prov] band assms(3) by blast
  then have "f' = f" using f by simp
  then show thesis using that [OF nn] f'(2-5) by (simp add: thresholds_ok_def)
qed

text \<open>
  No benign data can push a threshold out of its security band. Whatever rows the thresholds are
  fitted from (a poisoned soak included), with whatever margin, training block and exclusions, if the
  fit produces a file then its validator accepts it and the threshold of every documented prior of an
  enabled window lies between that prior's floor and ceiling.
\<close>

theorem fitted_thresholds_banded:
  assumes "d1_config_ok c" "0 < margin" "\<And>xs. length (digest xs) = 64"
    and "fit digest dirs c margin fraction a b exclude freeze = Inr f"
  shows "check_hash digest f \<and> tf_frozen f = freeze
    \<and> (\<forall>(k, p) \<in> set DEFAULT_PRIORS. tk_window_seconds k \<in> set (dc_windows_seconds c) \<longrightarrow>
         (\<exists>t. threshold_value f k = Some t \<and> pr_floor p \<le> t \<and> t \<le> pr_ceiling p))"
proof -
  obtain samples where s: "nonneg_samples samples" "tf_frozen f = freeze" "check_hash digest f" "thresholds_ok f"
    "\<And>k p. (k, p) \<in> set DEFAULT_PRIORS \<Longrightarrow> tk_window_seconds k \<in> set (dc_windows_seconds c) \<Longrightarrow>
      threshold_value f k = Some (te_value (the (fitted_entry samples margin (k, p))))"
    using fit_result [OF assms] by blast
  have "\<exists>t. threshold_value f k = Some t \<and> pr_floor p \<le> t \<and> t \<le> pr_ceiling p"
    if k: "(k, p) \<in> set DEFAULT_PRIORS" "tk_window_seconds k \<in> set (dc_windows_seconds c)" for k p
    using s(5) [OF k] fitted_entry_banded [OF s(1) assms(2)] k(1) by (force simp: banded_def check_clamped_def)
  then show ?thesis using s(2,3) by blast
qed

subsection \<open>Fitting returns\<close>

definition row_complete :: "fit_row \<Rightarrow> bool" where
  "row_complete r \<longleftrightarrow> {''packet_count'', ''payload_byte_count'', ''backward_packet_count'', ''duration_seconds''} \<subseteq> fst ` set (fx_features r)"

lemma start_from_features_complete:
  assumes "{''packet_count'', ''payload_byte_count'', ''backward_packet_count'', ''duration_seconds''} \<subseteq> fst ` set fs"
  shows "\<exists>r. start_from_features b m sip dip port t fs = Inr r"
proof -
  have "\<exists>v. map_of fs n = Some v" if "n \<in> fst ` set fs" for n using that by (metis map_of_None_iff_key option.exhaust)
  then obtain w x y z where "map_of fs ''packet_count'' = Some w" "map_of fs ''payload_byte_count'' = Some x"
      "map_of fs ''backward_packet_count'' = Some y" "map_of fs ''duration_seconds'' = Some z"
    using assms by (metis insert_subset)
  then show ?thesis by (simp add: start_from_features_def del: map_of_eq_Some_iff split: option.split)
qed

lemma measure_rows_total: "list_all row_complete rows \<Longrightarrow> \<exists>d'. measure_rows rows s d = Inr d'"
proof (induction rows s d rule: measure_rows.induct)
  case (2 row rows s d)
  obtain r where r: "start_from_features (fx_connection_start row) (fx_source_mac row) (fx_source_ip row)
      (fx_destination_ip row) (fx_destination_port row) (fx_at_us row) (fx_features row) = Inr r"
    using start_from_features_complete 2(3) by (fastforce simp: row_complete_def)
  show ?case
  proof (cases r)
    case (Some e)
    obtain m s' where "measure_start e s = (m, s')" by fastforce
    then show ?thesis using 2 r Some by simp
  qed (use 2 r in simp)
qed simp

lemma fit_total:
  assumes "d1_config_ok c" "0 < margin" "\<And>xs. length (digest xs) = 64"
    and "length (remdups (map (fi_env_tag \<circ> fst) dirs)) = 1"
    and "rows = sort_rows (concat (map snd dirs))" "rows \<noteq> []" "list_all row_complete rows"
    and "fit_block rows fraction a b = (low, high)" "\<exists>r \<in> set rows. low \<le> fx_at_us r \<and> fx_at_us r < high"
  shows "\<exists>f. fit digest dirs c margin fraction a b exclude freeze = Inr f"
proof -
  let ?block = "filter (\<lambda>r. low \<le> fx_at_us r \<and> fx_at_us r < high) rows"
  obtain floors where floors: "floors_file digest (dc_windows_seconds c) [] = Some floors"
    by (rule floors_file_exists [of digest "dc_windows_seconds c" "[]"]) (simp add: assms(3), blast)
  obtain samples where samples: "measure_rows ?block (new_d1_state c floors []) [] = Inr samples"
    using measure_rows_total [of ?block "new_d1_state c floors []" "[]"] assms(7) by (auto simp: list_all_iff)
  have nn: "nonneg_samples samples" by (rule measure_rows_nonneg [OF d1_inv_new [OF assms(1)] _ samples]) simp
  note band = fitted_entry_banded [OF nn assms(2)]
  have all: "all_entries (map (fitted_entry samples margin) (enabled_priors ws)) =
      new_entries (map (\<lambda>r. the (fitted_entry samples margin r)) (enabled_priors ws))" for ws
    using band by (intro all_entries_total) (auto simp: sorted_priors_set)
  have "\<exists>f. Option.bind (new_entries (map (\<lambda>r. the (fitted_entry samples margin r)) (enabled_priors ws)))
      (\<lambda>entries. assemble digest entries freeze prov) = Some f" for ws prov
    using banded_file [of "\<lambda>r. the (fitted_entry samples margin r)" digest ws freeze prov] band assms(3) by blast
  then have "\<exists>f. Option.bind (all_entries (map (fitted_entry samples margin) (enabled_priors ws)))
      (\<lambda>entries. assemble_thresholds digest entries freeze prov) = Some f" for ws prov
    unfolding all assemble_thresholds_def .
  moreover have "?block \<noteq> []" using assms(9) by (auto simp: filter_empty_conv)
  ultimately show ?thesis
    using assms(4-6,8) floors samples
    by (auto simp: fit_def Let_def split: option.split)
qed

definition example_row :: fit_row where
  "example_row = \<lparr>fx_at_us = 5, fx_source_mac = Some ''02:00:00:00:00:02'', fx_source_ip = ipv4 10 0 0 5,
     fx_destination_ip = ipv4 10 0 0 9, fx_destination_port = Some 22, fx_connection_start = True,
     fx_features = [(''packet_count'', 2), (''payload_byte_count'', 0), (''backward_packet_count'', 1), (''duration_seconds'', 1)]\<rparr>"

definition example_input :: fit_input where
  "example_input = \<lparr>fi_directory_name = ''day1'', fi_manifest_sha256 = ''00'', fi_env_tag = ''sandbox''\<rparr>"

theorem fitted_thresholds_banded_witness:
  "\<exists>f. fit (\<lambda>_. replicate 64 (CHR ''0'')) [(example_input, [example_row])] default_d1_config (3/2) (3/4) None None [] False = Inr f
    \<and> (\<forall>(k, p) \<in> set DEFAULT_PRIORS. tk_window_seconds k \<in> set (dc_windows_seconds default_d1_config) \<longrightarrow>
         (\<exists>t. threshold_value f k = Some t \<and> pr_floor p \<le> t \<and> t \<le> pr_ceiling p))"
proof -
  obtain f where f: "fit (\<lambda>_. replicate 64 (CHR ''0'')) [(example_input, [example_row])] default_d1_config (3/2) (3/4) None None [] False = Inr f"
    using fit_total [OF default_d1_config_ok, of "3/2" "\<lambda>_. replicate 64 (CHR ''0'')" "[(example_input, [example_row])]"
        "[example_row]" "3/4" None None 5 6 "[]" False]
    by (auto simp: sort_rows_def fit_block_def py_trunc_def example_row_def row_complete_def)
  then show ?thesis using fitted_thresholds_banded [OF default_d1_config_ok _ _ f] by simp
qed

subsection \<open>Detection despite any training data\<close>

lemma fit_thresholds_ok:
  assumes "d1_config_ok c" "0 < margin" "\<And>xs. length (digest xs) = 64"
    and "fit digest dirs c margin fraction a b exclude freeze = Inr f"
  shows "thresholds_ok f"
  using fit_result [OF assms] by blast

lemma fit_below_ceiling:
  assumes "d1_config_ok c" "0 < margin" "\<And>xs. length (digest xs) = 64"
    and "fit digest dirs c margin fraction a b exclude freeze = Inr f"
    and "(k, p) \<in> set DEFAULT_PRIORS" "tk_window_seconds k \<in> set (dc_windows_seconds c)"
  obtains t where "threshold_value f k = Some t" "pr_floor p \<le> t" "t \<le> pr_ceiling p"
proof -
  obtain samples where s: "nonneg_samples samples"
    "\<And>k p. (k, p) \<in> set DEFAULT_PRIORS \<Longrightarrow> tk_window_seconds k \<in> set (dc_windows_seconds c) \<Longrightarrow>
      threshold_value f k = Some (te_value (the (fitted_entry samples margin (k, p))))"
    using fit_result [OF assms(1-4)] by blast
  have "banded (\<lambda>r. the (fitted_entry samples margin r))" using fitted_entry_banded [OF s(1) assms(2)] by blast
  then have "pr_floor p \<le> te_value (the (fitted_entry samples margin (k, p)))"
      "te_value (the (fitted_entry samples margin (k, p))) \<le> pr_ceiling p"
    using assms(5) by (force simp: banded_def check_clamped_def)+
  then show thesis using that s(2) [OF assms(5,6)] by blast
qed

text \<open>
  C12: An attack above the documented ceiling is detected whatever the detectors were trained on. If the thresholds in
  force were fitted from any rows at all, under any valid configuration of the fit, then in every reachable state
  of detectors under any configuration a device whose measured value for a detector and a window that the fit covered
  exceeds that prior's ceiling gets evidence of exactly that detector and window, naming the device; so
  poisoning the benign soak cannot hide such an attack. The fit covers the windows of the configuration it was given (a
  fit without one covers 10 and 60 seconds); a window enabled in the detectors only has no threshold and is not claimed.
\<close>

theorem ceiling_always_detected:
  assumes "d1_config_ok fit_config" "0 < margin" "\<And>xs. length (digest xs) = 64"
    and "fit digest dirs fit_config margin fraction a b exclude freeze = Inr f"
    and "d1_reachable c s" "ds_thresholds s = f"
    and "(k, p) \<in> set DEFAULT_PRIORS" "tk_window_seconds k \<in> set (dc_windows_seconds fit_config)"
    and "(k, v) \<in> set (fst (measure_device mac now s))" "pr_ceiling p < v"
  shows "\<exists>ev e. fst (evaluate_device mac now s) = Some ev \<and> e \<in> set ev \<and> d1_detector e = tk_detector k
    \<and> d1_window_seconds e = tk_window_seconds k \<and> d1_mac e = Some mac \<and> d1_value e = v"
proof -
  obtain t where t: "threshold_value f k = Some t" "t \<le> pr_ceiling p"
    using fit_below_ceiling [OF assms(1-4,7,8)] by blast
  have "d1_inv s" "thresholds_ok (ds_thresholds s)" using assms(5) reachable_inv reachable_rules by blast+
  from evaluate_device_exact [OF this, of mac now] obtain ev where ev: "fst (evaluate_device mac now s) = Some ev"
      "\<forall>e. e \<in> set ev \<longleftrightarrow> (\<exists>(k, v) \<in> set (fst (measure_device mac now s)).
          fired s (tk_detector k) (tk_scope k) (tk_window_seconds k) v (Some mac) mac now e)" by blast
  let ?e = "\<lparr>d1_id = d1_evidence_id (tk_detector k) (tk_scope k) (tk_window_seconds k) mac (evidence_bucket now (tk_window_seconds k)),
    d1_detector = tk_detector k, d1_window_seconds = tk_window_seconds k, d1_value = v, d1_threshold = t,
    d1_mac = Some mac, d1_observed_at = now\<rparr>"
  have "fired s (tk_detector k) (tk_scope k) (tk_window_seconds k) v (Some mac) mac now ?e"
    using t assms(6,10) by (cases k) (simp add: fired_def)
  then have "?e \<in> set ev" using ev(2) assms(9) by blast
  then show ?thesis using ev(1) by (intro exI [of _ ev] exI [of _ ?e]) simp
qed

text \<open>One failed handshake with a minimum of one start: a ratio of 1, above the ceiling of 0.95.\<close>

definition hasty_config :: d1_config where
  "hasty_config = default_d1_config\<lparr>dc_failed_handshake_min_starts := 1\<rparr>"

definition failed_flow :: flow where
  "failed_flow = example_flow\<lparr>fl_payload_stats := Some \<lparr>pl_forward_bytes = 0, pl_backward_bytes = 0,
     pl_min_bytes = 0, pl_max_bytes = 0, pl_mean_bytes = 0, pl_std_bytes = 0\<rparr>\<rparr>"

lemma hasty_config_ok: "d1_config_ok hasty_config"
  using default_d1_config_ok by (simp add: hasty_config_def d1_config_ok_def check_windows_def)

lemma failed_start:
  "\<exists>e. start_from_record failed_flow True = Inr (Some e) \<and> cn_mac e = ''02:00:00:00:00:02'' \<and> cn_failed e = Some True
    \<and> cn_at e = 0 \<and> has_outcome e"
proof -
  have mac: "unicast_mac ''02:00:00:00:00:02'' = Some ''02:00:00:00:00:02''" by code_simp
  have f: "fl_flow_id failed_flow \<noteq> []" "fl_payload_stats failed_flow = Some \<lparr>pl_forward_bytes = 0, pl_backward_bytes = 0,
     pl_min_bytes = 0, pl_max_bytes = 0, pl_mean_bytes = 0, pl_std_bytes = 0\<rparr>"
    by (simp_all add: failed_flow_def example_flow_def)
  from extract_current [OF f] show ?thesis
    by (auto simp: start_from_record_def start_from_features_def unicast_mac_option_def mac failed_flow_def example_flow_def
        has_outcome_def FEATURE_TABLE_V3_def values_by_name_def Let_def)
qed

lemma failed_measured:
  assumes "start_from_record failed_flow True = Inr (Some e)" "cn_mac e = ''02:00:00:00:00:02''"
    "cn_failed e = Some True" "cn_at e = 0" "has_outcome e"
  shows "(threshold_key D1_FAILED_HANDSHAKE SC_DEVICE 10, 1)
    \<in> set (fst (measure_device ''02:00:00:00:00:02'' 1 (d1_observe e (new_d1_state hasty_config f []))))"
proof -
  let ?s = "d1_observe e (new_d1_state hasty_config f [])"
  have dev: "map_of (ds_devices ?s) ''02:00:00:00:00:02'' = Some \<lparr>dv_last_ip = cn_source_ip e, dv_events = [e], dv_slow = []\<rparr>"
    using assms(2) by (simp add: d1_observe_def enter_device_def lru_enter_def note_mac_def add_event_def
        add_arrival_def new_d1_state_def hasty_config_def default_d1_config_def deque_append_def Let_def)
  have "ds_config ?s = hasty_config" "ds_windows ?s = sorted_windows [10, 60]" "ds_horizon ?s = seconds 60"
    by (simp_all add: d1_observe_def enter_device_def lru_enter_def note_mac_def add_event_def add_arrival_def
        new_d1_state_def hasty_config_def default_d1_config_def Let_def sorted_windows_def)
  then show ?thesis
    using dev assms(3-5)
    by (simp add: measure_device_def Let_def prune_events_def seconds_def device_window_def in_window_def
        sorted_windows_def failed_ratio_def hasty_config_def)
qed

lemma handshake_prior: "(threshold_key D1_FAILED_HANDSHAKE SC_DEVICE 10, \<lparr>pr_floor = 6/10, pr_ceiling = 95/100\<rparr>) \<in> set DEFAULT_PRIORS"
  by (simp add: DEFAULT_PRIORS_def put_def)

theorem ceiling_always_detected_witness:
  "\<exists>f e ev x. fit (\<lambda>_. replicate 64 (CHR ''0'')) [(example_input, [example_row])] default_d1_config (3/2) (3/4) None None [] False = Inr f
    \<and> start_from_record failed_flow True = Inr (Some e)
    \<and> fst (evaluate_device ''02:00:00:00:00:02'' 1 (d1_observe e (new_d1_state hasty_config f []))) = Some ev
    \<and> x \<in> set ev \<and> d1_detector x = D1_FAILED_HANDSHAKE \<and> d1_value x = 1"
proof -
  let ?digest = "\<lambda>_. replicate 64 (CHR ''0'')"
  obtain f where f: "fit ?digest [(example_input, [example_row])] default_d1_config (3/2) (3/4) None None [] False = Inr f"
    using fit_total [OF default_d1_config_ok, of "3/2" ?digest "[(example_input, [example_row])]"
        "[example_row]" "3/4" None None 5 6 "[]" False]
    by (auto simp: sort_rows_def fit_block_def py_trunc_def example_row_def row_complete_def)
  obtain e where e: "start_from_record failed_flow True = Inr (Some e)" "cn_mac e = ''02:00:00:00:00:02''"
      "cn_failed e = Some True" "cn_at e = 0" "has_outcome e" using failed_start by blast
  let ?s = "d1_observe e (new_d1_state hasty_config f [])"
  have "thresholds_ok f" using fit_thresholds_ok [OF default_d1_config_ok _ _ f] by simp
  then have r: "d1_reachable hasty_config ?s" by (intro d1_record [OF _ e(1)] d1_start hasty_config_ok)
  have t: "ds_thresholds ?s = f" using observe_rules by (simp add: same_rules_def new_d1_state_def)
  from ceiling_always_detected [OF default_d1_config_ok _ _ f r t handshake_prior _ failed_measured [OF e]]
  show ?thesis using f e(1) by (force simp: hasty_config_def default_d1_config_def)
qed

end
