(* ===== verification/Packet_Parser.thy ===== *)
theory Packet_Parser
  imports Flow_State Text
begin

unbundle bit_operations_syntax

section \<open>The packet parser\<close>

text \<open>
  \<open>capture/parser.py\<close>: Ethernet, IPv4 or IPv6 and TCP, UDP or ICMP headers into \<open>PacketMetadata\<close>, and the separate
  extractor of a TCP payload. A frame is a list of bytes (\<open>8 word\<close>). Reading outside it is a value: \<open>raw[i]\<close>
  and \<open>struct.unpack\<close> of a short slice give \<open>None\<close>, which the callers turn into the error that the guards around
  both parsers catch (\<open>PE_UNEXPECTED\<close>, \<open>None\<close>); so does a packet the model's constructor refuses. A slice never
  raises. The messages of the errors are their constructors.
\<close>

type_synonym bytes = "8 word list"

datatype parse_error = PE_TRUNCATED_ETHERNET | PE_UNSUPPORTED_ETHERTYPE | PE_TRUNCATED_IPV4 | PE_IPV4_VERSION
  | PE_BAD_IHL | PE_TRUNCATED_IPV4_OPTIONS | PE_TOTAL_LENGTH_TOO_SHORT | PE_TOTAL_LENGTH_EXCEEDS_CAPTURE
  | PE_IPV4_PAYLOAD | PE_TRUNCATED_IPV6 | PE_IPV6_VERSION | PE_IPV6_PAYLOAD | PE_TRUNCATED_TCP
  | PE_BAD_TCP_OFFSET | PE_TRUNCATED_TCP_OPTIONS | PE_TRUNCATED_UDP | PE_TRUNCATED_ICMP | PE_UNEXPECTED

subsection \<open>Bytes\<close>

definition u8 :: "bytes \<Rightarrow> nat \<Rightarrow> 8 word option" where
  "u8 raw i = (if i < length raw then Some (raw ! i) else None)"

definition byte_slice :: "bytes \<Rightarrow> nat \<Rightarrow> nat \<Rightarrow> bytes" where
  "byte_slice raw a b = take (b - a) (drop a raw)"

text \<open>A big-endian number.\<close>

definition big_endian :: "bytes \<Rightarrow> nat" where
  "big_endian bs = foldl (\<lambda>n b. 256 * n + unat b) 0 bs"

text \<open>\<open>struct.unpack("!H", raw[i:i + 2])\<close>, and an address from four or sixteen bytes.\<close>

definition u16 :: "bytes \<Rightarrow> nat \<Rightarrow> nat option" where
  "u16 raw i = (let s = byte_slice raw i (i + 2) in if length s = 2 then Some (big_endian s) else None)"

definition ipv4_at :: "bytes \<Rightarrow> nat \<Rightarrow> ipv4_address option" where
  "ipv4_at raw i = (let s = byte_slice raw i (i + 4) in if length s = 4 then Some (of_nat (big_endian s)) else None)"

definition ipv6_at :: "bytes \<Rightarrow> nat \<Rightarrow> 128 word option" where
  "ipv6_at raw i = (let s = byte_slice raw i (i + 16) in if length s = 16 then Some (of_nat (big_endian s)) else None)"

text \<open>\<open>bytes.hex(":")\<close>.\<close>

definition hex_digit :: "nat \<Rightarrow> char" where
  "hex_digit n = (if n < 10 then char_of (48 + n) else char_of (87 + n))"

definition hex_byte :: "8 word \<Rightarrow> string" where
  "hex_byte b = [hex_digit (unat b div 16), hex_digit (unat b mod 16)]"

definition hex_colon :: "bytes \<Rightarrow> string" where
  "hex_colon bs = join '':'' (map hex_byte bs)"

definition need :: "'a option \<Rightarrow> ('a \<Rightarrow> parse_error + 'b) \<Rightarrow> parse_error + 'b" where
  "need x k = (case x of None \<Rightarrow> Inl PE_UNEXPECTED | Some v \<Rightarrow> k v)"

subsection \<open>Transport headers\<close>

record l4_info =
  l4_protocol :: protocol
  l4_source_port :: "int option"
  l4_destination_port :: "int option"
  l4_tcp_flags :: "tcp_flags option"
  l4_header_length :: nat

definition parse_tcp :: "bytes \<Rightarrow> nat \<Rightarrow> nat \<Rightarrow> parse_error + l4_info" where
  "parse_tcp raw offset available =
     (if available < 20 \<or> length raw < offset + 20 then Inl PE_TRUNCATED_TCP
      else need (u16 raw offset) (\<lambda>source_port.
        need (u16 raw (offset + 2)) (\<lambda>destination_port.
        need (u8 raw (offset + 12)) (\<lambda>b.
        let data_offset = unat (drop_bit 4 b) * 4 in
        if data_offset < 20 then Inl PE_BAD_TCP_OFFSET
        else if available < data_offset \<or> length raw < offset + data_offset then Inl PE_TRUNCATED_TCP_OPTIONS
        else need (u8 raw (offset + 13)) (\<lambda>flags.
          Inr \<lparr>l4_protocol = P_TCP, l4_source_port = Some (int source_port),
               l4_destination_port = Some (int destination_port),
               l4_tcp_flags = Some \<lparr>tf_syn = flags AND 0x02 \<noteq> 0, tf_ack = flags AND 0x10 \<noteq> 0,
                 tf_fin = flags AND 0x01 \<noteq> 0, tf_rst = flags AND 0x04 \<noteq> 0, tf_psh = flags AND 0x08 \<noteq> 0,
                 tf_urg = flags AND 0x20 \<noteq> 0\<rparr>,
               l4_header_length = data_offset\<rparr>)))))"

definition parse_udp :: "bytes \<Rightarrow> nat \<Rightarrow> nat \<Rightarrow> parse_error + l4_info" where
  "parse_udp raw offset available =
     (if available < 8 \<or> length raw < offset + 8 then Inl PE_TRUNCATED_UDP
      else need (u16 raw offset) (\<lambda>source_port.
        need (u16 raw (offset + 2)) (\<lambda>destination_port.
          Inr \<lparr>l4_protocol = P_UDP, l4_source_port = Some (int source_port),
               l4_destination_port = Some (int destination_port), l4_tcp_flags = None, l4_header_length = 8\<rparr>)))"

definition parse_icmp :: "bytes \<Rightarrow> nat \<Rightarrow> nat \<Rightarrow> protocol \<Rightarrow> parse_error + l4_info" where
  "parse_icmp raw offset available protocol =
     (if available < 4 \<or> length raw < offset + 4 then Inl PE_TRUNCATED_ICMP
      else Inr \<lparr>l4_protocol = protocol, l4_source_port = None, l4_destination_port = None, l4_tcp_flags = None,
        l4_header_length = 4\<rparr>)"

definition parse_l4 :: "bytes \<Rightarrow> nat \<Rightarrow> nat \<Rightarrow> nat \<Rightarrow> parse_error + l4_info" where
  "parse_l4 raw offset ip_protocol available =
     (if ip_protocol = 6 then parse_tcp raw offset available
      else if ip_protocol = 17 then parse_udp raw offset available
      else if ip_protocol = 1 then parse_icmp raw offset available P_ICMP
      else if ip_protocol = 58 then parse_icmp raw offset available P_ICMPV6
      else Inr \<lparr>l4_protocol = P_OTHER, l4_source_port = None, l4_destination_port = None, l4_tcp_flags = None,
        l4_header_length = 0\<rparr>)"

subsection \<open>Network headers\<close>

record macs =
  mc_source :: string
  mc_destination :: string

text \<open>The constructor of \<open>PacketMetadata\<close>: ports in range, MACs normalised.\<close>

definition new_packet_metadata :: "packet_metadata \<Rightarrow> packet_metadata option" where
  "new_packet_metadata p =
     (if \<not> port_ok (pm_source_port p) \<or> \<not> port_ok (pm_destination_port p) then None
      else (case (pm_source_mac p, pm_destination_mac p) of
              (Some a, Some b) \<Rightarrow>
                (case (normalise_mac a, normalise_mac b) of
                   (Some a', Some b') \<Rightarrow> Some (p\<lparr>pm_source_mac := Some a', pm_destination_mac := Some b'\<rparr>)
                 | _ \<Rightarrow> None)
            | (Some a, None) \<Rightarrow> map_option (\<lambda>a'. p\<lparr>pm_source_mac := Some a'\<rparr>) (normalise_mac a)
            | (None, Some b) \<Rightarrow> map_option (\<lambda>b'. p\<lparr>pm_destination_mac := Some b'\<rparr>) (normalise_mac b)
            | (None, None) \<Rightarrow> Some p))"

definition build_packet :: "datetime \<Rightarrow> macs \<Rightarrow> address_family \<Rightarrow> ip_address \<Rightarrow> ip_address \<Rightarrow> l4_info \<Rightarrow> nat \<Rightarrow> nat \<Rightarrow>
    parse_error + packet_metadata" where
  "build_packet captured_at m family source destination l4 total_length payload_length =
     need (new_packet_metadata \<lparr>pm_timestamp = captured_at, pm_address_family = family, pm_source_ip = source,
       pm_destination_ip = destination, pm_protocol = l4_protocol l4, pm_source_port = l4_source_port l4,
       pm_destination_port = l4_destination_port l4, pm_tcp_flags = l4_tcp_flags l4, pm_total_length = total_length,
       pm_payload_length = payload_length, pm_source_mac = Some (mc_source m), pm_destination_mac = Some (mc_destination m)\<rparr>) Inr"

definition parse_ipv4_packet :: "bytes \<Rightarrow> nat \<Rightarrow> datetime \<Rightarrow> macs \<Rightarrow> parse_error + packet_metadata" where
  "parse_ipv4_packet raw offset captured_at m =
     (if length raw < offset + 20 then Inl PE_TRUNCATED_IPV4
      else need (u8 raw offset) (\<lambda>b.
        if drop_bit 4 b \<noteq> 4 then Inl PE_IPV4_VERSION
        else let ihl = unat (b AND 0x0F) * 4 in
        if ihl < 20 then Inl PE_BAD_IHL
        else if length raw < offset + ihl then Inl PE_TRUNCATED_IPV4_OPTIONS
        else need (u16 raw (offset + 2)) (\<lambda>total_length.
        if total_length < ihl then Inl PE_TOTAL_LENGTH_TOO_SHORT
        else if length raw < offset + total_length then Inl PE_TOTAL_LENGTH_EXCEEDS_CAPTURE
        else need (u8 raw (offset + 9)) (\<lambda>ip_protocol.
        need (ipv4_at raw (offset + 12)) (\<lambda>source_ip.
        need (ipv4_at raw (offset + 16)) (\<lambda>destination_ip.
        let l4_available = total_length - ihl in
        case parse_l4 raw (offset + ihl) (unat ip_protocol) l4_available of
          Inl e \<Rightarrow> Inl e
        | Inr l4 \<Rightarrow>
            if l4_available < l4_header_length l4 then Inl PE_IPV4_PAYLOAD
            else build_packet captured_at m AF_IPV4 (V4 source_ip) (V4 destination_ip) l4 total_length
                   (l4_available - l4_header_length l4)))))))"

definition parse_ipv6_packet :: "bytes \<Rightarrow> nat \<Rightarrow> datetime \<Rightarrow> macs \<Rightarrow> parse_error + packet_metadata" where
  "parse_ipv6_packet raw offset captured_at m =
     (if length raw < offset + 40 then Inl PE_TRUNCATED_IPV6
      else need (u8 raw offset) (\<lambda>b.
        if drop_bit 4 b \<noteq> 6 then Inl PE_IPV6_VERSION
        else need (u16 raw (offset + 4)) (\<lambda>declared_payload_length.
        need (u8 raw (offset + 6)) (\<lambda>next_header.
        need (ipv6_at raw (offset + 8)) (\<lambda>source_ip.
        need (ipv6_at raw (offset + 24)) (\<lambda>destination_ip.
        let l4_offset = offset + 40;
            available = length raw - l4_offset;
            l4_available = min declared_payload_length available in
        case parse_l4 raw l4_offset (unat next_header) l4_available of
          Inl e \<Rightarrow> Inl e
        | Inr l4 \<Rightarrow>
            if l4_available < l4_header_length l4 then Inl PE_IPV6_PAYLOAD
            else build_packet captured_at m AF_IPV6 (V6 source_ip) (V6 destination_ip) l4
                   (40 + declared_payload_length) (l4_available - l4_header_length l4)))))))"

definition parse_packet :: "bytes \<Rightarrow> datetime \<Rightarrow> parse_error + packet_metadata" where
  "parse_packet raw captured_at =
     (if length raw < 14 then Inl PE_TRUNCATED_ETHERNET
      else need (u16 raw 12) (\<lambda>ethertype.
        let m = \<lparr>mc_source = hex_colon (byte_slice raw 6 12), mc_destination = hex_colon (byte_slice raw 0 6)\<rparr> in
        if ethertype = 0x0800 then parse_ipv4_packet raw 14 captured_at m
        else if ethertype = 0x86DD then parse_ipv6_packet raw 14 captured_at m
        else Inl PE_UNSUPPORTED_ETHERTYPE))"

subsection \<open>The payload of a TCP packet\<close>

text \<open>\<open>extract_tcp_payload\<close>: \<open>None\<close> for everything that is not a complete IPv4 TCP header, and where the guard
  around it catches an error.\<close>

definition extract_tcp_payload :: "bytes \<Rightarrow> bytes option" where
  "extract_tcp_payload raw =
     (if length raw < 14 + 20 then None
      else if u16 raw 12 \<noteq> Some 0x0800 then None
      else Option.bind (u8 raw 14) (\<lambda>b.
        if drop_bit 4 b \<noteq> 4 then None
        else let ihl = unat (b AND 0x0F) * 4 in
        if ihl < 20 \<or> length raw < 14 + ihl then None
        else Option.bind (u8 raw (14 + 9)) (\<lambda>protocol.
        if unat protocol \<noteq> 6 then None
        else Option.bind (u16 raw (14 + 2)) (\<lambda>total_length.
        let l4_offset = 14 + ihl in
        if length raw < l4_offset + 20 then None
        else Option.bind (u8 raw (l4_offset + 12)) (\<lambda>d.
        let data_offset = unat (drop_bit 4 d) * 4 in
        if data_offset < 20 \<or> length raw < l4_offset + data_offset then None
        else let payload_offset = l4_offset + data_offset;
                 payload_end = min (14 + total_length) (length raw) in
             if payload_end < payload_offset then None
             else Some (byte_slice raw payload_offset payload_end))))))"

subsection \<open>Reading\<close>

lemma u8_in: "i < length raw \<Longrightarrow> u8 raw i = Some (raw ! i)"
  by (simp add: u8_def)

lemma length_slice: "b \<le> length raw \<Longrightarrow> length (byte_slice raw a b) = b - a"
  by (simp add: byte_slice_def)

lemma big_endian_bound: "big_endian bs < 256 ^ length bs"
proof (induction bs rule: rev_induct)
  case (snoc b bs)
  have "unat b < 2 ^ LENGTH(8)" by (rule unsigned_less)
  then have "unat b < 256" by simp
  moreover have "big_endian bs + 1 \<le> 256 ^ length bs" using snoc by simp
  ultimately have "256 * big_endian bs + unat b < 256 * 256 ^ length bs" by linarith
  then show ?case by (simp add: big_endian_def)
qed (simp add: big_endian_def)

lemma u16_in: "i + 2 \<le> length raw \<Longrightarrow> \<exists>n. u16 raw i = Some n \<and> n < 65536"
  using big_endian_bound [of "byte_slice raw i (i + 2)"] by (simp add: u16_def length_slice)

lemma ipv4_at_in: "i + 4 \<le> length raw \<Longrightarrow> \<exists>a. ipv4_at raw i = Some a"
  by (simp add: ipv4_at_def length_slice)

lemma ipv6_at_in: "i + 16 \<le> length raw \<Longrightarrow> \<exists>a. ipv6_at raw i = Some a"
  by (simp add: ipv6_at_def length_slice)

lemma need_Some [simp]: "need (Some v) k = k v"
  by (simp add: need_def)

subsection \<open>Addresses in text\<close>

lemma hex_digit_ok: "n < 16 \<Longrightarrow> is_hex (hex_digit n) \<and> ascii_lower (hex_digit n) = hex_digit n"
  by (simp add: is_hex_def hex_value_alt hex_digit_def ascii_lower_def less_eq_char_def Let_def)

lemma unat_byte: "unat (b :: 8 word) < 256"
  using unsigned_less [of b] by simp

lemma hex_byte_ok: "list_all (\<lambda>c. is_hex c \<and> ascii_lower c = c) (hex_byte b) \<and> length (hex_byte b) = 2"
  using hex_digit_ok unat_byte [of b] by (simp add: hex_byte_def less_mult_imp_div_less)

lemma hex_colon_canonical:
  assumes "length bs = 6"
  shows "canonical_mac (hex_colon bs)"
proof -
  obtain a b c d e f where bs: "bs = [a, b, c, d, e, f]"
    using assms by (auto simp: numeral_eq_Suc length_Suc_conv)
  have hex: "is_hex (hex_digit (unat x div 16)) \<and> ascii_lower (hex_digit (unat x div 16)) = hex_digit (unat x div 16)"
      "is_hex (hex_digit (unat x mod 16)) \<and> ascii_lower (hex_digit (unat x mod 16)) = hex_digit (unat x mod 16)" for x :: "8 word"
    using hex_digit_ok unat_byte [of x] by (simp_all add: less_mult_imp_div_less)
  have "hex_colon bs = hex_byte a @ '':'' @ hex_byte b @ '':'' @ hex_byte c @ '':'' @ hex_byte d @ '':'' @ hex_byte e @ '':'' @ hex_byte f"
    by (simp add: bs hex_colon_def)
  then show ?thesis using hex by (simp add: hex_byte_def canonical_mac_def mac_pattern_def)
qed

lemma frame_macs:
  assumes "14 \<le> length raw"
  shows "canonical_mac (hex_colon (byte_slice raw 6 12))" "canonical_mac (hex_colon (byte_slice raw 0 6))"
  using assms by (auto intro!: hex_colon_canonical simp: length_slice)

subsection \<open>Every failure is a check\<close>

lemma build_packet_ok:
  assumes "port_ok (l4_source_port l4)" "port_ok (l4_destination_port l4)"
    and "canonical_mac (mc_source m)" "canonical_mac (mc_destination m)"
  shows "build_packet t m fam s d l4 len payload = Inr \<lparr>pm_timestamp = t, pm_address_family = fam, pm_source_ip = s,
    pm_destination_ip = d, pm_protocol = l4_protocol l4, pm_source_port = l4_source_port l4,
    pm_destination_port = l4_destination_port l4, pm_tcp_flags = l4_tcp_flags l4, pm_total_length = len,
    pm_payload_length = payload, pm_source_mac = Some (mc_source m), pm_destination_mac = Some (mc_destination m)\<rparr>"
  using assms by (simp add: build_packet_def new_packet_metadata_def normalise_mac_fixed)

text \<open>What a transport header yields: ports exactly for TCP and UDP, flags exactly for TCP, a header that
  fits in the bytes available.\<close>

definition l4_ok :: "nat \<Rightarrow> l4_info \<Rightarrow> bool" where
  "l4_ok available l4 \<longleftrightarrow> port_ok (l4_source_port l4) \<and> port_ok (l4_destination_port l4) \<and> l4_header_length l4 \<le> available
     \<and> (l4_source_port l4 \<noteq> None \<longleftrightarrow> l4_protocol l4 \<in> {P_TCP, P_UDP})
     \<and> (l4_destination_port l4 \<noteq> None \<longleftrightarrow> l4_protocol l4 \<in> {P_TCP, P_UDP})
     \<and> (l4_tcp_flags l4 \<noteq> None \<longleftrightarrow> l4_protocol l4 = P_TCP)"

definition l4_outcome_ok :: "nat \<Rightarrow> parse_error + l4_info \<Rightarrow> bool" where
  "l4_outcome_ok available r \<longleftrightarrow> (case r of Inl e \<Rightarrow> e \<noteq> PE_UNEXPECTED | Inr l4 \<Rightarrow> l4_ok available l4)"

lemma l4_outcome_simps [simp]:
  "l4_outcome_ok n (Inl e) \<longleftrightarrow> e \<noteq> PE_UNEXPECTED" "l4_outcome_ok n (Inr l4) \<longleftrightarrow> l4_ok n l4"
  by (simp_all add: l4_outcome_ok_def)

lemma ports_in:
  assumes "offset + 4 \<le> length raw"
  obtains a b where "u16 raw offset = Some a" "a < 65536" "u16 raw (offset + 2) = Some b" "b < 65536"
  using u16_in [of offset raw] u16_in [of "offset + 2" raw] assms by auto

lemma parse_tcp_ok: "l4_outcome_ok n (parse_tcp raw offset n)"
proof (cases "n < 20 \<or> length raw < offset + 20")
  case False
  then have "offset + 4 \<le> length raw" by simp
  then obtain a b where "u16 raw offset = Some a" "a < 65536" "u16 raw (offset + 2) = Some b" "b < 65536"
    by (rule ports_in)
  then show ?thesis using False by (simp add: parse_tcp_def u8_in Let_def l4_ok_def port_ok_def)
qed (simp add: parse_tcp_def)

lemma parse_udp_ok: "l4_outcome_ok n (parse_udp raw offset n)"
proof (cases "n < 8 \<or> length raw < offset + 8")
  case False
  then have "offset + 4 \<le> length raw" by simp
  then obtain a b where "u16 raw offset = Some a" "a < 65536" "u16 raw (offset + 2) = Some b" "b < 65536"
    by (rule ports_in)
  then show ?thesis using False by (simp add: parse_udp_def l4_ok_def port_ok_def)
qed (simp add: parse_udp_def)

lemma parse_icmp_ok: "p \<notin> {P_TCP, P_UDP} \<Longrightarrow> l4_outcome_ok n (parse_icmp raw offset n p)"
  by (simp add: parse_icmp_def l4_ok_def port_ok_def)

lemma parse_l4_ok: "l4_outcome_ok n (parse_l4 raw offset proto n)"
  by (simp add: parse_l4_def parse_tcp_ok parse_udp_ok parse_icmp_ok) (simp add: l4_ok_def port_ok_def)

text \<open>What a parsed packet promises to the stages behind the parser.\<close>

definition parsed_ok :: "bytes \<Rightarrow> datetime \<Rightarrow> packet_metadata \<Rightarrow> bool" where
  "parsed_ok raw t p \<longleftrightarrow> packet_ok p \<and> pm_timestamp p = t
     \<and> pm_source_mac p = Some (hex_colon (byte_slice raw 6 12)) \<and> pm_destination_mac p = Some (hex_colon (byte_slice raw 0 6))
     \<and> (case pm_address_family p of
          AF_IPV4 \<Rightarrow> (\<exists>a b. pm_source_ip p = V4 a \<and> pm_destination_ip p = V4 b) \<and> 14 + pm_total_length p \<le> length raw
        | AF_IPV6 \<Rightarrow> (\<exists>a b. pm_source_ip p = V6 a \<and> pm_destination_ip p = V6 b))
     \<and> (pm_source_port p \<noteq> None \<longleftrightarrow> pm_protocol p \<in> {P_TCP, P_UDP})
     \<and> (pm_destination_port p \<noteq> None \<longleftrightarrow> pm_protocol p \<in> {P_TCP, P_UDP})
     \<and> (pm_tcp_flags p \<noteq> None \<longleftrightarrow> pm_protocol p = P_TCP)"

definition outcome_ok :: "bytes \<Rightarrow> datetime \<Rightarrow> parse_error + packet_metadata \<Rightarrow> bool" where
  "outcome_ok raw t r \<longleftrightarrow> (case r of Inl e \<Rightarrow> e \<noteq> PE_UNEXPECTED | Inr p \<Rightarrow> parsed_ok raw t p)"

lemma outcome_simps [simp]:
  "outcome_ok raw t (Inl e) \<longleftrightarrow> e \<noteq> PE_UNEXPECTED" "outcome_ok raw t (Inr p) \<longleftrightarrow> parsed_ok raw t p"
  by (simp_all add: outcome_ok_def)

abbreviation frame_addresses :: "bytes \<Rightarrow> macs" where
  "frame_addresses raw \<equiv> \<lparr>mc_source = hex_colon (byte_slice raw 6 12), mc_destination = hex_colon (byte_slice raw 0 6)\<rparr>"

lemma build_outcome:
  assumes "14 \<le> length raw" "l4_ok n l4" "payload \<le> len"
    and "case fam of AF_IPV4 \<Rightarrow> (\<exists>a b. s = V4 a \<and> d = V4 b) \<and> 14 + len \<le> length raw
      | AF_IPV6 \<Rightarrow> (\<exists>a b. s = V6 a \<and> d = V6 b)"
  shows "outcome_ok raw t (build_packet t (frame_addresses raw) fam s d l4 len payload)"
proof -
  have "port_ok (l4_source_port l4)" "port_ok (l4_destination_port l4)" using assms(2) by (simp_all add: l4_ok_def)
  note b = build_packet_ok [OF this, of "frame_addresses raw"]
  show ?thesis using assms frame_macs [OF assms(1)]
    by (simp add: b parsed_ok_def packet_ok_def l4_ok_def split: address_family.splits)
qed

text \<open>The rest of an IPv4 frame of at least the smallest size, once its fields are read.\<close>

definition ipv4_rest :: "bytes \<Rightarrow> datetime \<Rightarrow> macs \<Rightarrow> nat \<Rightarrow> nat \<Rightarrow> parse_error + l4_info \<Rightarrow> ipv4_address \<Rightarrow> ipv4_address \<Rightarrow>
    parse_error + packet_metadata" where
  "ipv4_rest raw t m len ihl r s d =
     (if drop_bit 4 (raw ! 14) \<noteq> 4 then Inl PE_IPV4_VERSION else if ihl < 20 then Inl PE_BAD_IHL
      else if length raw < 14 + ihl then Inl PE_TRUNCATED_IPV4_OPTIONS
      else if len < ihl then Inl PE_TOTAL_LENGTH_TOO_SHORT
      else if length raw < 14 + len then Inl PE_TOTAL_LENGTH_EXCEEDS_CAPTURE
      else case r of Inl e \<Rightarrow> Inl e | Inr l4 \<Rightarrow> if len - ihl < l4_header_length l4 then Inl PE_IPV4_PAYLOAD
        else build_packet t m AF_IPV4 (V4 s) (V4 d) l4 len (len - ihl - l4_header_length l4))"

lemma parse_ipv4_reads:
  assumes "34 \<le> length raw" "u16 raw 16 = Some len" "ihl = unat (raw ! 14 AND 0x0F) * 4"
    and "r = parse_l4 raw (14 + ihl) (unat (raw ! 23)) (len - ihl)"
  shows "\<exists>s d. parse_ipv4_packet raw 14 t m = ipv4_rest raw t m len ihl r s d"
proof -
  obtain s d where "ipv4_at raw 26 = Some s" "ipv4_at raw 30 = Some d"
    using ipv4_at_in [of 26 raw] ipv4_at_in [of 30 raw] assms(1) by auto
  then have "parse_ipv4_packet raw 14 t m = ipv4_rest raw t m len ihl r s d"
    using assms(1,2) unfolding assms(3,4) by (simp add: parse_ipv4_packet_def ipv4_rest_def u8_in Let_def)
  then show ?thesis by blast
qed

lemma ipv4_rest_outcome:
  assumes "14 \<le> length raw" "l4_outcome_ok (len - ihl) r"
  shows "outcome_ok raw t (ipv4_rest raw t (frame_addresses raw) len ihl r s d)"
proof (cases r)
  case (Inl e)
  then show ?thesis using assms by (simp add: ipv4_rest_def)
next
  case (Inr l4)
  then show ?thesis using assms by (simp add: ipv4_rest_def) (auto intro!: build_outcome)
qed

lemma parse_ipv4_outcome:
  assumes "14 \<le> length raw"
  shows "outcome_ok raw t (parse_ipv4_packet raw 14 t (frame_addresses raw))"
proof (cases "length raw < 14 + 20")
  case False
  then obtain len where "34 \<le> length raw" "u16 raw 16 = Some len" using u16_in [of 16 raw] by auto
  then show ?thesis
    using parse_ipv4_reads [OF _ _ refl refl, where t = t and m = "frame_addresses raw"] ipv4_rest_outcome [OF assms parse_l4_ok]
    by metis
qed (simp add: parse_ipv4_packet_def)

lemma parse_ipv6_outcome:
  assumes "14 \<le> length raw"
  shows "outcome_ok raw t (parse_ipv6_packet raw 14 t (frame_addresses raw))"
proof (cases "length raw < 14 + 40")
  case False
  obtain len where len: "u16 raw 18 = Some len" using u16_in [of 18 raw] False by auto
  obtain s d where sd: "ipv6_at raw 22 = Some s" "ipv6_at raw 38 = Some d"
    using ipv6_at_in [of 22 raw] ipv6_at_in [of 38 raw] False by auto
  define n where "n = min len (length raw - 54)"
  define r where "r = parse_l4 raw 54 (unat (raw ! 20)) n"
  have r: "l4_outcome_ok n r" unfolding r_def by (rule parse_l4_ok)
  have eq: "parse_ipv6_packet raw 14 t (frame_addresses raw) =
     (if drop_bit 4 (raw ! 14) \<noteq> 6 then Inl PE_IPV6_VERSION
      else case r of Inl e \<Rightarrow> Inl e | Inr l4 \<Rightarrow> if n < l4_header_length l4 then Inl PE_IPV6_PAYLOAD
        else build_packet t (frame_addresses raw) AF_IPV6 (V6 s) (V6 d) l4 (40 + len) (n - l4_header_length l4))"
    using False unfolding r_def n_def by (simp add: parse_ipv6_packet_def u8_in len sd Let_def)
  show ?thesis
  proof (cases r)
    case (Inl e)
    then show ?thesis using r by (simp add: eq)
  next
    case (Inr l4)
    then show ?thesis using r assms by (simp add: eq) (auto intro!: build_outcome simp: n_def)
  qed
qed (simp add: parse_ipv6_packet_def)

lemma parse_packet_outcome: "outcome_ok raw t (parse_packet raw t)"
proof (cases "length raw < 14")
  case False
  obtain e where "u16 raw 12 = Some e" using u16_in [of 12 raw] False by auto
  then show ?thesis using False parse_ipv4_outcome [of raw t] parse_ipv6_outcome [of raw t]
    by (simp add: parse_packet_def Let_def)
qed (simp add: parse_packet_def)

text \<open>
  The parser never falls through to its guard. For every byte string and every capture time,
  \<open>parse_packet\<close> either returns a packet or raises the \<open>PacketParseError\<close> of one of its own checks: no
  read is out of range, no \<open>struct.unpack\<close> meets a short slice and no field is refused by
  \<open>PacketMetadata\<close>, so the error that the last \<open>except Exception\<close> would build never occurs.
\<close>
theorem parse_packet_never_unexpected: "parse_packet raw t \<noteq> Inl PE_UNEXPECTED"
  using parse_packet_outcome [of raw t] by auto

text \<open>
  C34: A parsed packet keeps the promises its consumers build on. Whatever bytes arrive, a packet
  \<open>parse_packet\<close> returns carries the capture time, the two addresses of the Ethernet header in
  canonical text, addresses of the family it names (and then both of it), ports exactly when it is TCP or UDP, all of them in
  range, TCP flags exactly when it is TCP, a payload no longer than its total length, and for IPv4 a
  total length that was really captured: the conditions under which the flow aggregator's summaries are exact.
\<close>
theorem parsed_packet_well_formed:
  assumes "parse_packet raw t = Inr p"
  shows "packet_ok p \<and> pm_timestamp p = t
     \<and> pm_source_mac p = Some (hex_colon (byte_slice raw 6 12)) \<and> pm_destination_mac p = Some (hex_colon (byte_slice raw 0 6))
     \<and> canonical_mac (hex_colon (byte_slice raw 6 12)) \<and> canonical_mac (hex_colon (byte_slice raw 0 6))
     \<and> (case pm_address_family p of
          AF_IPV4 \<Rightarrow> (\<exists>a b. pm_source_ip p = V4 a \<and> pm_destination_ip p = V4 b) \<and> 14 + pm_total_length p \<le> length raw
        | AF_IPV6 \<Rightarrow> (\<exists>a b. pm_source_ip p = V6 a \<and> pm_destination_ip p = V6 b))
     \<and> (pm_source_port p \<noteq> None \<longleftrightarrow> pm_protocol p \<in> {P_TCP, P_UDP})
     \<and> (pm_destination_port p \<noteq> None \<longleftrightarrow> pm_protocol p \<in> {P_TCP, P_UDP})
     \<and> (pm_tcp_flags p \<noteq> None \<longleftrightarrow> pm_protocol p = P_TCP)"
proof -
  have "14 \<le> length raw" using assms by (auto simp: parse_packet_def split: if_splits)
  then show ?thesis
    using parse_packet_outcome [of raw t] frame_macs [of raw] assms by (simp add: parsed_ok_def)
qed

subsection \<open>Frames as they are sent\<close>

text \<open>The specification of an IPv4 TCP frame on the wire, with options in both headers and the padding an
  Ethernet driver appends; the fields the parser does not read are arbitrary.\<close>

definition be16 :: "nat \<Rightarrow> bytes" where
  "be16 n = [of_nat (n div 256), of_nat n]"

record wire_frame =
  wf_destination_mac :: bytes
  wf_source_mac :: bytes
  wf_tos :: "8 word"
  wf_identification :: bytes
  wf_checksum :: bytes
  wf_source :: bytes
  wf_destination :: bytes
  wf_ip_options :: bytes
  wf_source_port :: nat
  wf_destination_port :: nat
  wf_numbers :: bytes
  wf_flags :: "8 word"
  wf_window :: bytes
  wf_tcp_options :: bytes
  wf_payload :: bytes
  wf_padding :: bytes

definition wf_ihl :: "wire_frame \<Rightarrow> nat" where
  "wf_ihl f = 5 + length (wf_ip_options f) div 4"

definition wf_data_offset :: "wire_frame \<Rightarrow> nat" where
  "wf_data_offset f = 5 + length (wf_tcp_options f) div 4"

definition wf_total :: "wire_frame \<Rightarrow> nat" where
  "wf_total f = 4 * wf_ihl f + 4 * wf_data_offset f + length (wf_payload f)"

definition wf_ok :: "wire_frame \<Rightarrow> bool" where
  "wf_ok f \<longleftrightarrow> length (wf_destination_mac f) = 6 \<and> length (wf_source_mac f) = 6 \<and> length (wf_identification f) = 5
     \<and> length (wf_checksum f) = 2 \<and> length (wf_source f) = 4 \<and> length (wf_destination f) = 4
     \<and> 4 dvd length (wf_ip_options f) \<and> length (wf_ip_options f) \<le> 40 \<and> wf_source_port f < 65536
     \<and> wf_destination_port f < 65536 \<and> length (wf_numbers f) = 8 \<and> length (wf_window f) = 6
     \<and> 4 dvd length (wf_tcp_options f) \<and> length (wf_tcp_options f) \<le> 40 \<and> wf_total f < 65536"

definition wire :: "wire_frame \<Rightarrow> bytes" where
  "wire f = wf_destination_mac f @ wf_source_mac f @ be16 0x0800
     @ [0x40 + of_nat (wf_ihl f), wf_tos f] @ be16 (wf_total f) @ wf_identification f @ [6] @ wf_checksum f
     @ wf_source f @ wf_destination f @ wf_ip_options f
     @ be16 (wf_source_port f) @ be16 (wf_destination_port f) @ wf_numbers f
     @ [0x10 * of_nat (wf_data_offset f), wf_flags f] @ wf_window f @ wf_tcp_options f
     @ wf_payload f @ wf_padding f"

lemma big_endian_be16: "n < 65536 \<Longrightarrow> big_endian (be16 n) = n"
  by (simp add: big_endian_def be16_def unat_of_nat less_mult_imp_div_less mult.commute)

lemma length_be16 [simp]: "length (be16 n) = 2"
  by (simp add: be16_def)

lemma u16_append: "i = length a \<Longrightarrow> n < 65536 \<Longrightarrow> u16 (a @ be16 n @ c) i = Some n"
  by (simp add: u16_def byte_slice_def big_endian_be16)

lemma u8_append: "i = length a \<Longrightarrow> u8 (a @ x # c) i = Some x"
  by (simp add: u8_def)

lemma ipv4_at_append: "i = length a \<Longrightarrow> length b = 4 \<Longrightarrow> ipv4_at (a @ b @ c) i = Some (of_nat (big_endian b))"
  by (simp add: ipv4_at_def byte_slice_def)

lemma nibbles:
  assumes "5 \<le> k" "k \<le> 15"
  shows "drop_bit 4 (0x40 + of_nat k :: 8 word) = 4" "unat ((0x40 + of_nat k :: 8 word) AND 0x0F) = k"
    "unat (drop_bit 4 (0x10 * of_nat k :: 8 word)) = k"
proof -
  have "k = 5 \<or> k = 6 \<or> k = 7 \<or> k = 8 \<or> k = 9 \<or> k = 10 \<or> k = 11 \<or> k = 12 \<or> k = 13 \<or> k = 14 \<or> k = 15"
    using assms by presburger
  then show "drop_bit 4 (0x40 + of_nat k :: 8 word) = 4" "unat ((0x40 + of_nat k :: 8 word) AND 0x0F) = k"
    "unat (drop_bit 4 (0x10 * of_nat k :: 8 word)) = k"
    by auto
qed

lemma header_sizes:
  assumes "wf_ok f"
  shows "wf_ihl f \<le> 15" "wf_data_offset f \<le> 15" "4 * wf_ihl f = 20 + length (wf_ip_options f)"
    "4 * wf_data_offset f = 20 + length (wf_tcp_options f)" "5 \<le> wf_ihl f" "5 \<le> wf_data_offset f"
  using assms by (auto simp: wf_ok_def wf_ihl_def wf_data_offset_def)

lemma length_wire:
  assumes "wf_ok f"
  shows "length (wire f) = 14 + wf_total f + length (wf_padding f)"
  using assms header_sizes [OF assms] by (simp add: wire_def wf_ok_def wf_total_def)

lemma wire_reads:
  assumes "wf_ok f"
  defines "l4 \<equiv> 14 + 4 * wf_ihl f"
  shows "u16 (wire f) 12 = Some 0x0800" "u8 (wire f) 14 = Some (0x40 + of_nat (wf_ihl f))"
    "u16 (wire f) 16 = Some (wf_total f)" "u8 (wire f) 23 = Some 6"
    "ipv4_at (wire f) 26 = Some (of_nat (big_endian (wf_source f)))"
    "ipv4_at (wire f) 30 = Some (of_nat (big_endian (wf_destination f)))"
    "u16 (wire f) l4 = Some (wf_source_port f)" "u16 (wire f) (l4 + 2) = Some (wf_destination_port f)"
    "u8 (wire f) (l4 + 12) = Some (0x10 * of_nat (wf_data_offset f))" "u8 (wire f) (l4 + 13) = Some (wf_flags f)"
proof -
  note ok = assms(1) [unfolded wf_ok_def] header_sizes(3) [OF assms(1)]
  let ?eth = "wf_destination_mac f @ wf_source_mac f"
  let ?ip = "?eth @ be16 0x0800 @ [0x40 + of_nat (wf_ihl f), wf_tos f]"
  let ?ip2 = "?ip @ be16 (wf_total f) @ wf_identification f"
  let ?ip3 = "?ip2 @ 6 # wf_checksum f"
  let ?tcp = "?ip3 @ wf_source f @ wf_destination f @ wf_ip_options f"
  let ?tcp2 = "?tcp @ be16 (wf_source_port f) @ be16 (wf_destination_port f) @ wf_numbers f"
  show "u16 (wire f) 12 = Some 0x0800"
    using u16_append [of 12 ?eth] ok by (simp add: wire_def)
  show "u8 (wire f) 14 = Some (0x40 + of_nat (wf_ihl f))"
    using u8_append [of 14 "?eth @ be16 0x0800"] ok by (simp add: wire_def)
  show "u16 (wire f) 16 = Some (wf_total f)"
    using u16_append [of 16 ?ip] ok by (simp add: wire_def)
  show "u8 (wire f) 23 = Some 6"
    using u8_append [of 23 ?ip2] ok by (simp add: wire_def)
  show "ipv4_at (wire f) 26 = Some (of_nat (big_endian (wf_source f)))"
    using ipv4_at_append [of 26 ?ip3 "wf_source f"] ok by (simp add: wire_def)
  show "ipv4_at (wire f) 30 = Some (of_nat (big_endian (wf_destination f)))"
    using ipv4_at_append [of 30 "?ip3 @ wf_source f" "wf_destination f"] ok by (simp add: wire_def)
  show "u16 (wire f) l4 = Some (wf_source_port f)"
    using u16_append [of l4 ?tcp] ok by (simp add: wire_def l4_def)
  show "u16 (wire f) (l4 + 2) = Some (wf_destination_port f)"
    using u16_append [of "l4 + 2" "?tcp @ be16 (wf_source_port f)"] ok by (simp add: wire_def l4_def)
  show "u8 (wire f) (l4 + 12) = Some (0x10 * of_nat (wf_data_offset f))"
    using u8_append [of "l4 + 12" ?tcp2] ok by (simp add: wire_def l4_def)
  show "u8 (wire f) (l4 + 13) = Some (wf_flags f)"
    using u8_append [of "l4 + 13" "?tcp2 @ [0x10 * of_nat (wf_data_offset f)]"] ok by (simp add: wire_def l4_def)
qed

lemma wire_macs:
  assumes "wf_ok f"
  shows "byte_slice (wire f) 0 6 = wf_destination_mac f" "byte_slice (wire f) 6 12 = wf_source_mac f"
  using assms by (simp_all add: byte_slice_def wire_def wf_ok_def)

lemma slice_append: "i = length a \<Longrightarrow> j = i + length b \<Longrightarrow> byte_slice (a @ b @ c) i j = b"
  by (simp add: byte_slice_def)

lemma wire_payload:
  assumes "wf_ok f"
  shows "byte_slice (wire f) (14 + 4 * wf_ihl f + 4 * wf_data_offset f) (14 + wf_total f) = wf_payload f"
proof -
  let ?headers = "wf_destination_mac f @ wf_source_mac f @ be16 0x0800
     @ [0x40 + of_nat (wf_ihl f), wf_tos f] @ be16 (wf_total f) @ wf_identification f @ [6] @ wf_checksum f
     @ wf_source f @ wf_destination f @ wf_ip_options f
     @ be16 (wf_source_port f) @ be16 (wf_destination_port f) @ wf_numbers f
     @ [0x10 * of_nat (wf_data_offset f), wf_flags f] @ wf_window f @ wf_tcp_options f"
  have "wire f = ?headers @ wf_payload f @ wf_padding f" by (simp add: wire_def)
  moreover have "14 + 4 * wf_ihl f + 4 * wf_data_offset f = length ?headers"
    using assms header_sizes(3,4) [OF assms] by (simp add: wf_ok_def)
  ultimately show ?thesis by (metis (no_types, lifting) slice_append wf_total_def add.assoc)
qed

definition wire_tcp_flags :: "8 word \<Rightarrow> tcp_flags" where
  "wire_tcp_flags w = \<lparr>tf_syn = bit w 1, tf_ack = bit w 4, tf_fin = bit w 0, tf_rst = bit w 2, tf_psh = bit w 3,
     tf_urg = bit w 5\<rparr>"

lemma flag_bits:
  fixes w :: "8 word"
  shows "w AND 0x02 \<noteq> 0 \<longleftrightarrow> bit w 1" "w AND 0x10 \<noteq> 0 \<longleftrightarrow> bit w 4" "w AND 0x01 \<noteq> 0 \<longleftrightarrow> bit w 0"
    "w AND 0x04 \<noteq> 0 \<longleftrightarrow> bit w 2" "w AND 0x08 \<noteq> 0 \<longleftrightarrow> bit w 3" "w AND 0x20 \<noteq> 0 \<longleftrightarrow> bit w 5"
  using and_exp_eq_0_iff_not_bit [of w 1] and_exp_eq_0_iff_not_bit [of w 4] and_exp_eq_0_iff_not_bit [of w 0]
    and_exp_eq_0_iff_not_bit [of w 2] and_exp_eq_0_iff_not_bit [of w 3] and_exp_eq_0_iff_not_bit [of w 5]
  by simp_all

text \<open>What the frame means.\<close>

definition meant :: "wire_frame \<Rightarrow> datetime \<Rightarrow> packet_metadata" where
  "meant f t = \<lparr>pm_timestamp = t, pm_address_family = AF_IPV4, pm_source_ip = V4 (of_nat (big_endian (wf_source f))),
     pm_destination_ip = V4 (of_nat (big_endian (wf_destination f))), pm_protocol = P_TCP,
     pm_source_port = Some (int (wf_source_port f)), pm_destination_port = Some (int (wf_destination_port f)),
     pm_tcp_flags = Some (wire_tcp_flags (wf_flags f)), pm_total_length = wf_total f,
     pm_payload_length = length (wf_payload f), pm_source_mac = Some (hex_colon (wf_source_mac f)),
     pm_destination_mac = Some (hex_colon (wf_destination_mac f))\<rparr>"

lemma parse_tcp_reads:
  assumes "u16 raw i = Some a" "u16 raw (i + 2) = Some b" "u8 raw (i + 12) = Some (0x10 * of_nat k)"
    and "u8 raw (i + 13) = Some w" "5 \<le> k" "k \<le> 15" "4 * k \<le> n" "i + 4 * k \<le> length raw"
  shows "parse_tcp raw i n = Inr \<lparr>l4_protocol = P_TCP, l4_source_port = Some (int a),
    l4_destination_port = Some (int b), l4_tcp_flags = Some (wire_tcp_flags w), l4_header_length = 4 * k\<rparr>"
proof -
  have "\<not> (n < 20 \<or> length raw < i + 20)" using assms(5,7,8) by linarith
  then show ?thesis unfolding parse_tcp_def assms(1-4) need_Some nibbles(3) [OF assms(5,6)] Let_def flag_bits wire_tcp_flags_def
    using assms(5-8) by simp
qed

lemma parse_wire_ipv4:
  assumes "wf_ok f" "canonical_mac (mc_source m)" "canonical_mac (mc_destination m)"
  shows "parse_ipv4_packet (wire f) 14 t m =
    Inr ((meant f t)\<lparr>pm_source_mac := Some (mc_source m), pm_destination_mac := Some (mc_destination m)\<rparr>)"
proof -
  note sizes = header_sizes(1,2,5,6) [OF assms(1)] length_wire [OF assms(1)]
  have le: "4 * wf_ihl f \<le> wf_total f" "4 * wf_data_offset f \<le> wf_total f - 4 * wf_ihl f"
    "14 + wf_total f \<le> length (wire f)" "14 + 4 * wf_ihl f + 4 * wf_data_offset f \<le> length (wire f)"
    "wf_total f - 4 * wf_ihl f - 4 * wf_data_offset f = length (wf_payload f)" "34 \<le> length (wire f)"
    using sizes by (simp_all add: wf_total_def)
  have ports: "port_ok (Some (int (wf_source_port f)))" "port_ok (Some (int (wf_destination_port f)))"
    using assms(1) by (simp_all add: wf_ok_def port_ok_def)
  have tcp: "parse_tcp (wire f) (14 + 4 * wf_ihl f) (wf_total f - 4 * wf_ihl f) = Inr \<lparr>l4_protocol = P_TCP,
    l4_source_port = Some (int (wf_source_port f)), l4_destination_port = Some (int (wf_destination_port f)),
    l4_tcp_flags = Some (wire_tcp_flags (wf_flags f)), l4_header_length = 4 * wf_data_offset f\<rparr>"
    using wire_reads(7-10) [OF assms(1)] sizes le by (intro parse_tcp_reads) simp_all
  show ?thesis
    using le sizes tcp ports assms(2,3)
    by (simp add: parse_ipv4_packet_def wire_reads(2-6) [OF assms(1)] nibbles Let_def parse_l4_def build_packet_ok meant_def
        mult.commute [of _ 4])
qed

lemma parse_wire:
  assumes "wf_ok f"
  shows "parse_packet (wire f) t = Inr (meant f t)"
proof -
  have "14 \<le> length (wire f)" using length_wire [OF assms] by simp
  then show ?thesis
    using frame_macs [of "wire f"] wire_macs [OF assms]
    by (simp add: parse_packet_def wire_reads [OF assms] Let_def parse_wire_ipv4 [OF assms]) (simp add: meant_def)
qed

lemma extract_wire:
  assumes "wf_ok f"
  shows "extract_tcp_payload (wire f) = Some (wf_payload f)"
proof -
  note sizes = header_sizes(1,2,5,6) [OF assms] length_wire [OF assms]
  have "34 \<le> length (wire f)" "14 + 4 * wf_ihl f + 20 \<le> length (wire f)" "14 + wf_total f \<le> length (wire f)"
    "14 + 4 * wf_ihl f + 4 * wf_data_offset f \<le> 14 + wf_total f"
    using sizes by (simp_all add: wf_total_def)
  then show ?thesis
    using sizes wire_payload [OF assms]
    by (simp add: extract_tcp_payload_def wire_reads [OF assms] wire_reads(9) [OF assms, simplified] nibbles Let_def
        mult.commute [of _ 4])
qed

text \<open>A frame of six bytes of payload, with a time-stamp option in the TCP header and two bytes of padding.\<close>

definition example_wire :: wire_frame where
  "example_wire = \<lparr>wf_destination_mac = [2, 0, 0, 0, 0, 1], wf_source_mac = [2, 0, 0, 0, 0, 2], wf_tos = 0,
     wf_identification = [0, 1, 64, 0, 64], wf_checksum = [0, 0], wf_source = [192, 168, 4, 10], wf_destination = [1, 1, 1, 1],
     wf_ip_options = [], wf_source_port = 40000, wf_destination_port = 443, wf_numbers = [0, 0, 0, 1, 0, 0, 0, 0],
     wf_flags = 24, wf_window = [1, 0, 0, 0, 0, 0], wf_tcp_options = [8, 10, 0, 0], wf_payload = [22, 3, 1, 0, 1, 1],
     wf_padding = [0, 0]\<rparr>"

lemma example_wire_ok: "wf_ok example_wire"
  by (simp add: wf_ok_def example_wire_def wf_total_def wf_ihl_def wf_data_offset_def flip: numeral_eq_Suc) presburger

theorem parsed_packet_well_formed_witness:
  "parse_packet (wire example_wire) 7 = Inr (meant example_wire 7) \<and> packet_ok (meant example_wire 7)
   \<and> pm_timestamp (meant example_wire 7) = 7"
  using parsed_packet_well_formed [OF parse_wire [OF example_wire_ok, of 7]] parse_wire [OF example_wire_ok, of 7] by blast

text \<open>
  C16: Frames are read back as they were sent, padding excluded. For every IPv4 TCP frame on the wire, whatever
  its addresses, ports, flags, options, payload and the padding of the Ethernet driver, \<open>parse_packet\<close> returns
  exactly the packet the frame means, and \<open>extract_tcp_payload\<close> exactly its payload bytes.
\<close>
theorem parse_wire_roundtrip:
  assumes "wf_ok f"
  shows "parse_packet (wire f) t = Inr (meant f t) \<and> extract_tcp_payload (wire f) = Some (wf_payload f)"
  using parse_wire [OF assms] extract_wire [OF assms] by blast

theorem parse_wire_roundtrip_witness:
  "wf_ok example_wire \<and> parse_packet (wire example_wire) 7 = Inr (meant example_wire 7)
   \<and> extract_tcp_payload (wire example_wire) = Some [22, 3, 1, 0, 1, 1]"
  using parse_wire_roundtrip [OF example_wire_ok, of 7] example_wire_ok by (simp add: example_wire_def)

end
