(* ===== verification/Portal_Sessions.thy ===== *)
theory Portal_Sessions
  imports Models Text Throttle
begin

section \<open>Portal sessions\<close>

text \<open>
  \<open>portal/sessions.py\<close> and the session model of \<open>core/models/portal.py\<close>: the registry of captive-portal
  sessions (by token, indexed by address, bounded) and the login throttle of the portal. Identifiers
  and tokens are arguments; where the source raises, the result is \<open>None\<close>. The throttle's source keys are printed
  addresses, which is injective, and \<open>str.casefold\<close> is an argument.
\<close>

record portal_session =
  ps_id :: string
  ps_token :: string
  ps_username :: string
  ps_client_ip :: ipv4_address
  ps_issued_at :: datetime
  ps_expires_at :: datetime
  ps_client_mac :: "mac_address option"

text \<open>The constructor: identifier, token and user name are not empty, the MAC names one device.\<close>

definition new_portal_session :: "portal_session \<Rightarrow> portal_session option" where
  "new_portal_session s =
     (if ps_id s = [] \<or> ps_token s = [] \<or> ps_username s = [] then None
      else (case ps_client_mac s of
              None \<Rightarrow> Some s
            | Some m \<Rightarrow> map_option (\<lambda>m'. s\<lparr>ps_client_mac := Some m'\<rparr>) (unicast_mac m)))"

record portal_sessions =
  pr_token_expiry_seconds :: int
  pr_max_sessions :: nat
  pr_by_token :: "(string, portal_session) odict"
  pr_token_by_ip :: "(ipv4_address, string) odict"

definition new_portal_sessions :: "int \<Rightarrow> nat \<Rightarrow> portal_sessions" where
  "new_portal_sessions expiry max_sessions = \<lparr>pr_token_expiry_seconds = expiry, pr_max_sessions = max_sessions,
     pr_by_token = [], pr_token_by_ip = []\<rparr>"

subsection \<open>Operations\<close>

definition invalidate :: "string \<Rightarrow> portal_sessions \<Rightarrow> portal_session option \<times> portal_sessions" where
  "invalidate token r = (case map_of (pr_by_token r) token of
       None \<Rightarrow> (None, r)
     | Some s \<Rightarrow>
         let r' = r\<lparr>pr_by_token := AList.delete token (pr_by_token r)\<rparr>
         in (Some s, if map_of (pr_token_by_ip r) (ps_client_ip s) = Some token
                     then r'\<lparr>pr_token_by_ip := AList.delete (ps_client_ip s) (pr_token_by_ip r)\<rparr> else r'))"

definition invalidate_ip :: "ipv4_address \<Rightarrow> portal_sessions \<Rightarrow> portal_session option \<times> portal_sessions" where
  "invalidate_ip client_ip r = (case map_of (pr_token_by_ip r) client_ip of
       None \<Rightarrow> (None, r) | Some token \<Rightarrow> invalidate token r)"

abbreviation drop_session :: "portal_session \<Rightarrow> portal_sessions \<Rightarrow> portal_sessions" where
  "drop_session s r \<equiv> snd (invalidate (ps_token s) r)"

definition purge_expired :: "datetime \<Rightarrow> portal_sessions \<Rightarrow> portal_session list \<times> portal_sessions" where
  "purge_expired now r =
     (let expired = filter (\<lambda>s. ps_expires_at s \<le> now) (map snd (pr_by_token r))
      in (expired, fold drop_session expired r))"

text \<open>\<open>min(values, key=...)\<close>: the first with the least key.\<close>

fun first_min :: "('a \<Rightarrow> datetime) \<Rightarrow> 'a \<Rightarrow> 'a list \<Rightarrow> 'a" where
  "first_min f x [] = x"
| "first_min f x (y # ys) = first_min f (if f y < f x then y else x) ys"

text \<open>Room for one more: the session closest to expiry goes; \<open>min\<close> of no session raises.\<close>

definition make_room :: "portal_sessions \<Rightarrow> portal_sessions option" where
  "make_room r =
     (if length (pr_by_token r) < pr_max_sessions r then Some r
      else (case map snd (pr_by_token r) of
              [] \<Rightarrow> None
            | s # ss \<Rightarrow> Some (drop_session (first_min ps_expires_at s ss) r)))"

definition create_session :: "string \<Rightarrow> string \<Rightarrow> ipv4_address \<Rightarrow> string \<Rightarrow> datetime \<Rightarrow> mac_address option \<Rightarrow> portal_sessions
    \<Rightarrow> portal_session option \<times> portal_sessions" where
  "create_session uuid username client_ip token now client_mac r =
     (let r1 = snd (purge_expired now r);
          r2 = snd (invalidate_ip client_ip r1)
      in case make_room r2 of
           None \<Rightarrow> (None, r2)
         | Some r3 \<Rightarrow>
             (case new_portal_session \<lparr>ps_id = uuid, ps_token = token, ps_username = username, ps_client_ip = client_ip,
                 ps_issued_at = now, ps_expires_at = now + seconds (pr_token_expiry_seconds r), ps_client_mac = client_mac\<rparr> of
                None \<Rightarrow> (None, r3)
              | Some s \<Rightarrow>
                  (Some s, r3\<lparr>pr_by_token := AList.update token s (pr_by_token r3),
                             pr_token_by_ip := AList.update client_ip token (pr_token_by_ip r3)\<rparr>)))"

definition validate_session :: "string \<Rightarrow> ipv4_address \<Rightarrow> datetime \<Rightarrow> portal_sessions \<Rightarrow> portal_session option \<times> portal_sessions" where
  "validate_session token client_ip now r = (case map_of (pr_by_token r) token of
       None \<Rightarrow> (None, r)
     | Some s \<Rightarrow>
         if ps_expires_at s \<le> now then (None, snd (invalidate token r))
         else if ps_client_ip s \<noteq> client_ip then (None, r)
         else (Some s, r))"

definition session_by_ip :: "ipv4_address \<Rightarrow> datetime \<Rightarrow> portal_sessions \<Rightarrow> portal_session option \<times> portal_sessions" where
  "session_by_ip client_ip now r = (case map_of (pr_token_by_ip r) client_ip of
       None \<Rightarrow> (None, r) | Some token \<Rightarrow> validate_session token client_ip now r)"

definition list_sessions :: "datetime \<Rightarrow> portal_sessions \<Rightarrow> portal_session list \<times> portal_sessions" where
  "list_sessions now r =
     (let r' = snd (purge_expired now r) in (sort_key ps_expires_at (map snd (pr_by_token r')), r'))"

subsection \<open>The portal's login throttle\<close>

definition MAX_USERNAME_KEY_LENGTH :: nat where
  "MAX_USERNAME_KEY_LENGTH = 64"

definition account_key :: "(string \<Rightarrow> string) \<Rightarrow> string \<Rightarrow> string" where
  "account_key casefold username = take MAX_USERNAME_KEY_LENGTH (casefold username)"

definition portal_keys :: "(string \<Rightarrow> string) \<Rightarrow> ipv4_address \<Rightarrow> string option \<Rightarrow> (lockout_scope, string) odict" where
  "portal_keys casefold client_ip username =
     (LS_SOURCE, show_ipv4 client_ip)
     # (case username of None \<Rightarrow> [] | Some u \<Rightarrow> [(LS_ACCOUNT, account_key casefold u)])"

definition new_login_throttle :: "nat \<Rightarrow> int \<Rightarrow> nat \<Rightarrow> nat option \<Rightarrow> nat option \<Rightarrow> scoped_throttle" where
  "new_login_throttle max_failures window_seconds max_tracked per_account overall =
     new_scoped_throttle
       ((LS_SOURCE, max_failures) # (case per_account of None \<Rightarrow> [] | Some n \<Rightarrow> [(LS_ACCOUNT, n)])
        @ (case overall of None \<Rightarrow> [] | Some n \<Rightarrow> [(LS_GLOBAL, n)])) window_seconds max_tracked"

definition login_lockout :: "(string \<Rightarrow> string) \<Rightarrow> ipv4_address \<Rightarrow> string option \<Rightarrow> datetime \<Rightarrow> scoped_throttle
    \<Rightarrow> lockout option \<times> scoped_throttle" where
  "login_lockout casefold client_ip username now th = scoped_lockout (portal_keys casefold client_ip username) now th"

definition login_is_locked_out :: "(string \<Rightarrow> string) \<Rightarrow> ipv4_address \<Rightarrow> datetime \<Rightarrow> scoped_throttle \<Rightarrow> bool \<times> scoped_throttle" where
  "login_is_locked_out casefold client_ip now th =
     (case login_lockout casefold client_ip None now th of (l, th') \<Rightarrow> (l \<noteq> None, th'))"

definition login_seconds_until_unlocked :: "(string \<Rightarrow> string) \<Rightarrow> ipv4_address \<Rightarrow> datetime \<Rightarrow> scoped_throttle
    \<Rightarrow> int \<times> scoped_throttle" where
  "login_seconds_until_unlocked casefold client_ip now th =
     (case login_lockout casefold client_ip None now th of
        (None, th') \<Rightarrow> (0, th') | (Some l, th') \<Rightarrow> (lo_retry_after_seconds l, th'))"

definition login_record_failure :: "(string \<Rightarrow> string) \<Rightarrow> ipv4_address \<Rightarrow> datetime \<Rightarrow> string option \<Rightarrow> scoped_throttle
    \<Rightarrow> (lockout_scope list \<times> scoped_throttle) option" where
  "login_record_failure casefold client_ip now username th =
     scoped_record_failure (portal_keys casefold client_ip username) now th"

definition login_clear :: "(string \<Rightarrow> string) \<Rightarrow> ipv4_address \<Rightarrow> string option \<Rightarrow> scoped_throttle \<Rightarrow> scoped_throttle" where
  "login_clear casefold client_ip username th =
     (let th' = scoped_clear LS_SOURCE (show_ipv4 client_ip) th
      in case username of None \<Rightarrow> th' | Some u \<Rightarrow> scoped_clear LS_ACCOUNT (account_key casefold u) th')"

subsection \<open>The two indexes agree\<close>

text \<open>The two indexes as maps.\<close>

definition by_token :: "portal_sessions \<Rightarrow> string \<Rightarrow> portal_session option" where
  "by_token r = map_of (pr_by_token r)"

definition token_of :: "portal_sessions \<Rightarrow> ipv4_address \<Rightarrow> string option" where
  "token_of r = map_of (pr_token_by_ip r)"

definition reg_inv :: "portal_sessions \<Rightarrow> bool" where
  "reg_inv r \<longleftrightarrow> od_distinct (pr_by_token r) \<and> od_distinct (pr_token_by_ip r)
     \<and> length (pr_by_token r) \<le> pr_max_sessions r \<and> 0 < pr_max_sessions r
     \<and> (\<forall>t s. by_token r t = Some s \<longrightarrow> ps_token s = t \<and> token_of r (ps_client_ip s) = Some t)
     \<and> (\<forall>ip t. token_of r ip = Some t \<longrightarrow> (\<exists>s. by_token r t = Some s \<and> ps_client_ip s = ip))"

lemma reg_inv_start: "0 < n \<Longrightarrow> reg_inv (new_portal_sessions e n)"
  by (simp add: reg_inv_def new_portal_sessions_def by_token_def token_of_def)

lemma reg_inv_token: "reg_inv r \<Longrightarrow> by_token r t = Some s \<Longrightarrow> ps_token s = t \<and> token_of r (ps_client_ip s) = Some t"
  by (simp add: reg_inv_def)

lemma reg_inv_ip: "reg_inv r \<Longrightarrow> token_of r ip = Some t \<Longrightarrow> \<exists>s. by_token r t = Some s \<and> ps_client_ip s = ip"
  by (simp add: reg_inv_def)

text \<open>The sessions of a registry, and the one an address holds.\<close>

definition sessions_of :: "portal_sessions \<Rightarrow> portal_session set" where
  "sessions_of r = ran (by_token r)"

definition held :: "portal_sessions \<Rightarrow> ipv4_address \<Rightarrow> portal_session option" where
  "held r ip = Option.bind (token_of r ip) (by_token r)"

lemma in_sessions: "reg_inv r \<Longrightarrow> s \<in> sessions_of r \<longleftrightarrow> by_token r (ps_token s) = Some s"
  by (auto simp: sessions_of_def ran_def dest: reg_inv_token)

lemma held_iff:
  assumes "reg_inv r"
  shows "held r ip = Some s \<longleftrightarrow> s \<in> sessions_of r \<and> ps_client_ip s = ip"
proof
  assume "held r ip = Some s"
  then obtain t where t: "token_of r ip = Some t" "by_token r t = Some s" by (auto simp: held_def bind_eq_Some_conv)
  then show "s \<in> sessions_of r \<and> ps_client_ip s = ip"
    using reg_inv_ip [OF assms t(1)] reg_inv_token [OF assms t(2)] in_sessions [OF assms, of s] by simp
next
  assume s: "s \<in> sessions_of r \<and> ps_client_ip s = ip"
  then have b: "by_token r (ps_token s) = Some s" using in_sessions [OF assms] by simp
  then show "held r ip = Some s" using reg_inv_token [OF assms b] s by (simp add: held_def)
qed

lemma one_session_per_address:
  "reg_inv r \<Longrightarrow> s \<in> sessions_of r \<Longrightarrow> s' \<in> sessions_of r \<Longrightarrow> ps_client_ip s = ps_client_ip s' \<Longrightarrow> s = s'"
  by (metis held_iff option.inject)

lemma one_session_per_token:
  "reg_inv r \<Longrightarrow> s \<in> sessions_of r \<Longrightarrow> s' \<in> sessions_of r \<Longrightarrow> ps_token s = ps_token s' \<Longrightarrow> s = s'"
  by (metis in_sessions option.inject)

lemma sessions_set: "reg_inv r \<Longrightarrow> sessions_of r = snd ` set (pr_by_token r)"
  by (simp add: sessions_of_def by_token_def reg_inv_def ran_distinct)

lemma card_sessions:
  assumes "reg_inv r"
  shows "card (sessions_of r) = length (pr_by_token r)"
proof -
  have "map ps_token (map snd (pr_by_token r)) = map fst (pr_by_token r)"
    using assms reg_inv_token [OF assms] unfolding by_token_def reg_inv_def by (intro map_keys_keyed) (metis map_of_is_SomeI)
  then have "distinct (map ps_token (map snd (pr_by_token r)))" using assms by (simp only: reg_inv_def)
  then have "distinct (map snd (pr_by_token r))" unfolding distinct_map by blast
  then show ?thesis using distinct_card [of "map snd (pr_by_token r)"] by (simp add: sessions_set [OF assms])
qed

lemma invalidate_params [simp]:
  "pr_max_sessions (snd (invalidate t r)) = pr_max_sessions r"
  "pr_token_expiry_seconds (snd (invalidate t r)) = pr_token_expiry_seconds r"
  "pr_by_token (snd (invalidate t r)) = AList.delete t (pr_by_token r)"
  by (auto simp: invalidate_def Let_def delete_id map_of_eq_None_iff split: option.splits)

lemma invalidate_tokens: "by_token (snd (invalidate t r)) = (by_token r)(t := None)"
  by (simp add: by_token_def)

lemma invalidate_index:
  assumes "reg_inv r"
  shows "token_of (snd (invalidate t r)) ip = (if token_of r ip = Some t then None else token_of r ip)"
proof (cases "by_token r t")
  case None
  then have "token_of r ip \<noteq> Some t" using reg_inv_ip [OF assms, of ip t] by auto
  then show ?thesis using None by (simp add: invalidate_def flip: by_token_def)
next
  case (Some s)
  have t: "token_of r (ps_client_ip s) = Some t" using reg_inv_token [OF assms Some] by blast
  have "token_of (snd (invalidate t r)) = (token_of r)(ps_client_ip s := None)"
    using Some t by (simp add: invalidate_def Let_def by_token_def token_of_def del: map_of_eq_Some_iff)
  moreover have "token_of r ip = Some t \<longleftrightarrow> ip = ps_client_ip s" using reg_inv_ip [OF assms, of ip t] Some t by auto
  ultimately show ?thesis by simp
qed

lemma reg_inv_invalidate:
  assumes "reg_inv r"
  shows "reg_inv (snd (invalidate t r))"
proof -
  have "od_distinct (pr_token_by_ip (snd (invalidate t r)))"
    using assms by (auto simp: invalidate_def Let_def reg_inv_def split: option.splits)
  moreover have "length (AList.delete t (pr_by_token r)) \<le> pr_max_sessions r"
    using assms length_od_delete_le [of t "pr_by_token r"] by (simp add: reg_inv_def)
  moreover have "od_distinct (pr_by_token r)" "0 < pr_max_sessions r" using assms by (simp_all add: reg_inv_def)
  moreover have "ps_token s = u \<and> token_of (snd (invalidate t r)) (ps_client_ip s) = Some u"
    if "by_token (snd (invalidate t r)) u = Some s" for u s
    using that reg_inv_token [OF assms, of u s] by (simp add: invalidate_index [OF assms] invalidate_tokens split: if_splits)
  moreover have "\<exists>s. by_token (snd (invalidate t r)) u = Some s \<and> ps_client_ip s = ip"
    if "token_of (snd (invalidate t r)) ip = Some u" for ip u
    using that reg_inv_ip [OF assms, of ip u]
    by (auto simp: invalidate_index [OF assms] invalidate_tokens split: if_splits)
  ultimately show ?thesis unfolding reg_inv_def by simp
qed

lemma sessions_invalidate: "reg_inv r \<Longrightarrow> sessions_of (snd (invalidate t r)) = {s \<in> sessions_of r. ps_token s \<noteq> t}"
  by (auto simp: in_sessions reg_inv_invalidate invalidate_tokens split: if_splits)

lemma fst_invalidate: "fst (invalidate t r) = by_token r t"
  by (simp add: invalidate_def by_token_def Let_def split: option.splits)

lemma reg_inv_invalidate_ip: "reg_inv r \<Longrightarrow> reg_inv (snd (invalidate_ip ip r))"
  by (simp add: invalidate_ip_def reg_inv_invalidate split: option.splits)

lemma invalidate_ip_params [simp]:
  "pr_max_sessions (snd (invalidate_ip ip r)) = pr_max_sessions r"
  "pr_token_expiry_seconds (snd (invalidate_ip ip r)) = pr_token_expiry_seconds r"
  by (simp_all add: invalidate_ip_def split: option.splits)

lemma fst_invalidate_ip: "fst (invalidate_ip ip r) = held r ip"
  by (simp add: invalidate_ip_def held_def fst_invalidate token_of_def split: option.splits)

lemma sessions_invalidate_ip:
  assumes "reg_inv r"
  shows "sessions_of (snd (invalidate_ip ip r)) = {s \<in> sessions_of r. ps_client_ip s \<noteq> ip}"
proof (cases "token_of r ip")
  case None
  then have "held r ip = None" by (simp add: held_def)
  then have "\<forall>s \<in> sessions_of r. ps_client_ip s \<noteq> ip" using held_iff [OF assms, of ip] by force
  then show ?thesis using None by (auto simp: invalidate_ip_def simp flip: token_of_def)
next
  case (Some t)
  obtain h where h: "by_token r t = Some h" "ps_client_ip h = ip" using reg_inv_ip [OF assms Some] by blast
  have "ps_token s = t \<longleftrightarrow> ps_client_ip s = ip" if "s \<in> sessions_of r" for s
  proof -
    have s: "by_token r (ps_token s) = Some s" using that in_sessions [OF assms] by simp
    then show ?thesis using h Some reg_inv_token [OF assms s] by auto
  qed
  then show ?thesis using Some sessions_invalidate [OF assms, of t] by (auto simp: invalidate_ip_def simp flip: token_of_def)
qed

lemma fold_drop:
  assumes "reg_inv r"
  shows "reg_inv (fold drop_session ss r)"
    and "sessions_of (fold drop_session ss r) = {s \<in> sessions_of r. ps_token s \<notin> ps_token ` set ss}"
    and "pr_max_sessions (fold drop_session ss r) = pr_max_sessions r"
    and "pr_token_expiry_seconds (fold drop_session ss r) = pr_token_expiry_seconds r"
  using assms
  by (induction ss arbitrary: r) (auto simp: sessions_invalidate reg_inv_invalidate)

lemma expired_sessions: "reg_inv r \<Longrightarrow> set (fst (purge_expired now r)) = {s \<in> sessions_of r. ps_expires_at s \<le> now}"
  by (auto simp: purge_expired_def sessions_set Let_def)

lemma purge_facts:
  assumes "reg_inv r"
  shows "reg_inv (snd (purge_expired now r))"
    and "sessions_of (snd (purge_expired now r)) = {s \<in> sessions_of r. now < ps_expires_at s}"
    and "pr_max_sessions (snd (purge_expired now r)) = pr_max_sessions r"
    and "pr_token_expiry_seconds (snd (purge_expired now r)) = pr_token_expiry_seconds r"
proof -
  let ?gone = "fst (purge_expired now r)"
  have eq: "snd (purge_expired now r) = fold drop_session ?gone r" by (simp add: purge_expired_def Let_def)
  show "reg_inv (snd (purge_expired now r))" "pr_max_sessions (snd (purge_expired now r)) = pr_max_sessions r"
    "pr_token_expiry_seconds (snd (purge_expired now r)) = pr_token_expiry_seconds r"
    unfolding eq by (simp_all add: fold_drop [OF assms])
  have "ps_token s \<in> ps_token ` set ?gone \<longleftrightarrow> ps_expires_at s \<le> now" if "s \<in> sessions_of r" for s
    using that by (auto simp: expired_sessions [OF assms] in_sessions [OF assms])
  then show "sessions_of (snd (purge_expired now r)) = {s \<in> sessions_of r. now < ps_expires_at s}"
    unfolding eq fold_drop(2) [OF assms] by (simp add: not_le cong: conj_cong)
qed

lemma first_min_in: "first_min f x ys \<in> insert x (set ys)"
  by (induction ys arbitrary: x) (fastforce split: if_splits)+

lemma first_min_least: "y \<in> insert x (set ys) \<Longrightarrow> f (first_min f x ys) \<le> f y"
proof (induction ys arbitrary: x y)
  case (Cons z zs)
  have "f (first_min f x (z # zs)) \<le> f (if f z < f x then z else x)" using Cons.IH by simp
  moreover have "f (if f z < f x then z else x) \<le> f x" "f (if f z < f x then z else x) \<le> f z" by auto
  ultimately show ?case using Cons.prems Cons.IH [of y "if f z < f x then z else x"] by fastforce
qed simp

lemma make_room_facts:
  assumes "reg_inv r"
  obtains r' gone where "make_room r = Some r'" "reg_inv r'" "length (pr_by_token r') < pr_max_sessions r"
    "pr_max_sessions r' = pr_max_sessions r" "sessions_of r' = sessions_of r - gone"
    "if length (pr_by_token r) < pr_max_sessions r then gone = {}
     else \<exists>s \<in> sessions_of r. gone = {s} \<and> (\<forall>s' \<in> sessions_of r. ps_expires_at s \<le> ps_expires_at s')"
proof (cases "length (pr_by_token r) < pr_max_sessions r")
  case True
  then show ?thesis using assms by (intro that [of r "{}"]) (auto simp: make_room_def)
next
  case False
  then obtain s ss where ss: "map snd (pr_by_token r) = s # ss"
    using assms by (cases "pr_by_token r") (auto simp: reg_inv_def)
  define m where "m = first_min ps_expires_at s ss"
  have all: "sessions_of r = insert s (set ss)"
    using arg_cong [OF ss, of set] by (simp add: sessions_set [OF assms])
  have m: "m \<in> sessions_of r" "\<forall>s' \<in> sessions_of r. ps_expires_at m \<le> ps_expires_at s'"
    using first_min_in [of ps_expires_at s ss] first_min_least [of _ s ss ps_expires_at] by (simp_all add: all m_def)
  then have only: "{x \<in> sessions_of r. ps_token x \<noteq> ps_token m} = sessions_of r - {m}"
    using one_session_per_token [OF assms] by blast
  have "ps_token m \<in> fst ` set (pr_by_token r)"
    using m(1) in_sessions [OF assms, of m] map_of_Some_key unfolding by_token_def by metis
  moreover have "0 < length (pr_by_token r)" using arg_cong [OF ss, of length] by simp
  moreover have "od_distinct (pr_by_token r)" "length (pr_by_token r) \<le> pr_max_sessions r" using assms by (simp_all add: reg_inv_def)
  ultimately have "length (AList.delete (ps_token m) (pr_by_token r)) < pr_max_sessions r"
    unfolding length_od_delete [OF \<open>od_distinct (pr_by_token r)\<close>] by (cases "pr_by_token r") simp_all
  moreover have "make_room r = Some (drop_session m r)" using False ss by (simp add: make_room_def m_def)
  ultimately show ?thesis using False m only assms
    by (intro that [of "drop_session m r" "{m}"]) (auto simp: reg_inv_invalidate sessions_invalidate)
qed

lemma reg_inv_insert:
  assumes "reg_inv r" "length (pr_by_token r) < pr_max_sessions r" "by_token r (ps_token s) = None"
    and "\<forall>x \<in> sessions_of r. ps_client_ip x \<noteq> ps_client_ip s"
  defines "r' \<equiv> r\<lparr>pr_by_token := AList.update (ps_token s) s (pr_by_token r),
    pr_token_by_ip := AList.update (ps_client_ip s) (ps_token s) (pr_token_by_ip r)\<rparr>"
  shows "reg_inv r'" "sessions_of r' = insert s (sessions_of r)"
proof -
  have lookups: "by_token r' = (by_token r)(ps_token s \<mapsto> s)" "token_of r' = (token_of r)(ps_client_ip s \<mapsto> ps_token s)"
    by (simp_all add: by_token_def token_of_def r'_def)
  have fresh: "token_of r (ps_client_ip s) = None"
    using assms(4) reg_inv_ip [OF assms(1), of "ps_client_ip s"] in_sessions [OF assms(1)]
    by (metis not_None_eq reg_inv_token [OF assms(1)])
  have "ps_token x = t \<and> token_of r' (ps_client_ip x) = Some t" if "by_token r' t = Some x" for t x
    using that reg_inv_token [OF assms(1), of t x] fresh unfolding lookups by (auto split: if_splits)
  moreover have "\<exists>x. by_token r' t = Some x \<and> ps_client_ip x = ip" if "token_of r' ip = Some t" for ip t
    using that reg_inv_ip [OF assms(1), of ip t] assms(3) unfolding lookups by (auto split: if_splits)
  moreover have "od_distinct (pr_by_token r')" "od_distinct (pr_token_by_ip r')" "0 < pr_max_sessions r'"
    "length (pr_by_token r') \<le> pr_max_sessions r'"
    using assms(1,2) by (simp_all add: r'_def reg_inv_def length_od_update)
  ultimately show inv: "reg_inv r'" unfolding reg_inv_def by blast
  have "s \<notin> sessions_of r" using assms(4) by blast
  then show "sessions_of r' = insert s (sessions_of r)"
    using assms(3) unfolding sessions_of_def lookups by (simp add: ran_map_upd)
qed

text \<open>A login's session, and which others survive it.\<close>

lemma create_facts:
  assumes "reg_inv r" "by_token r token = None" "new_portal_session \<lparr>ps_id = uuid, ps_token = token,
      ps_username = username, ps_client_ip = client_ip, ps_issued_at = now,
      ps_expires_at = now + seconds (pr_token_expiry_seconds r), ps_client_mac = mac\<rparr> = Some s"
  defines "others \<equiv> {x \<in> sessions_of r. now < ps_expires_at x \<and> ps_client_ip x \<noteq> client_ip}"
  obtains r' gone where "create_session uuid username client_ip token now mac r = (Some s, r')" "reg_inv r'"
    "pr_max_sessions r' = pr_max_sessions r" "pr_token_expiry_seconds r' = pr_token_expiry_seconds r"
    "sessions_of r' = insert s (others - gone)" "gone \<subseteq> others" "finite gone" "card gone \<le> 1"
    "\<forall>x \<in> gone. card others = pr_max_sessions r \<and> (\<forall>y \<in> others. ps_expires_at x \<le> ps_expires_at y)"
proof -
  let ?r1 = "snd (purge_expired now r)"
  let ?r2 = "snd (invalidate_ip client_ip ?r1)"
  note r1 = purge_facts [OF assms(1), of now]
  have r2: "reg_inv ?r2" "sessions_of ?r2 = others" "pr_max_sessions ?r2 = pr_max_sessions r"
      "pr_token_expiry_seconds ?r2 = pr_token_expiry_seconds r"
    using r1 by (auto simp: reg_inv_invalidate_ip sessions_invalidate_ip others_def)
  obtain r3 gone where r3: "make_room ?r2 = Some r3" "reg_inv r3" "length (pr_by_token r3) < pr_max_sessions r"
      "pr_max_sessions r3 = pr_max_sessions r" "sessions_of r3 = others - gone" and gone:
      "if length (pr_by_token ?r2) < pr_max_sessions r then gone = {}
       else \<exists>s \<in> others. gone = {s} \<and> (\<forall>s' \<in> others. ps_expires_at s \<le> ps_expires_at s')"
    using make_room_facts [OF r2(1)] unfolding r2(2,3) by metis
  have expiry: "pr_token_expiry_seconds r3 = pr_token_expiry_seconds r"
    using r3(1) r2(4) by (auto simp: make_room_def split: if_splits list.splits)
  have s: "ps_token s = token" "ps_client_ip s = client_ip"
    using assms(3) by (auto simp: new_portal_session_def split: if_splits option.splits)
  have sub: "sessions_of r3 \<subseteq> sessions_of r" unfolding r3(5) others_def by blast
  have none: "by_token r3 (ps_token s) = None"
  proof (rule ccontr)
    assume "by_token r3 (ps_token s) \<noteq> None"
    then obtain x where x: "by_token r3 token = Some x" using s(1) by auto
    then have "ps_token x = token" "x \<in> sessions_of r3" using reg_inv_token [OF r3(2) x] in_sessions [OF r3(2)] by auto
    then show False using sub in_sessions [OF assms(1), of x] assms(2) by auto
  qed
  let ?r4 = "r3\<lparr>pr_by_token := AList.update (ps_token s) s (pr_by_token r3),
    pr_token_by_ip := AList.update (ps_client_ip s) (ps_token s) (pr_token_by_ip r3)\<rparr>"
  have "\<forall>x \<in> sessions_of r3. ps_client_ip x \<noteq> ps_client_ip s" unfolding r3(5) s(2) by (auto simp: others_def)
  then have r4: "reg_inv ?r4" "sessions_of ?r4 = insert s (others - gone)"
    using reg_inv_insert [OF r3(2) _ none] r3(3-5) by simp_all
  have "create_session uuid username client_ip token now mac r = (Some s, ?r4)"
    using r3(1) assms(3) s by (simp add: create_session_def Let_def)
  moreover have "card others \<le> pr_max_sessions r" "card others = length (pr_by_token ?r2)"
    using card_sessions [OF r2(1)] r2 by (simp_all add: reg_inv_def)
  ultimately show thesis using r4 r3(4) expiry gone
    by (intro that [of ?r4 gone]) (auto split: if_splits)
qed

subsection \<open>Reading\<close>

lemma validate_facts:
  assumes "reg_inv r"
  shows "reg_inv (snd (validate_session token ip now r))"
    and "fst (validate_session token ip now r) = Some s \<longleftrightarrow>
      s \<in> sessions_of r \<and> ps_token s = token \<and> ps_client_ip s = ip \<and> now < ps_expires_at s"
    and "sessions_of (snd (validate_session token ip now r)) =
      {s \<in> sessions_of r. ps_token s = token \<longrightarrow> now < ps_expires_at s}"
    and "pr_max_sessions (snd (validate_session token ip now r)) = pr_max_sessions r"
proof -
  have found: "by_token r token = Some s \<longleftrightarrow> s \<in> sessions_of r \<and> ps_token s = token" for s
    using in_sessions [OF assms] reg_inv_token [OF assms] by blast
  have eq: "validate_session token ip now r = (case by_token r token of None \<Rightarrow> (None, r)
     | Some s \<Rightarrow> if ps_expires_at s \<le> now then (None, snd (invalidate token r))
         else if ps_client_ip s \<noteq> ip then (None, r) else (Some s, r))"
    by (simp add: validate_session_def by_token_def)
  show "reg_inv (snd (validate_session token ip now r))" "pr_max_sessions (snd (validate_session token ip now r)) = pr_max_sessions r"
    unfolding eq using assms by (auto simp: reg_inv_invalidate split: option.splits)
  show "fst (validate_session token ip now r) = Some s \<longleftrightarrow>
      s \<in> sessions_of r \<and> ps_token s = token \<and> ps_client_ip s = ip \<and> now < ps_expires_at s"
    unfolding eq using found [of s] by (cases "by_token r token") auto
  show "sessions_of (snd (validate_session token ip now r)) = {s \<in> sessions_of r. ps_token s = token \<longrightarrow> now < ps_expires_at s}"
  proof (cases "by_token r token")
    case None
    then show ?thesis using found unfolding eq by auto
  next
    case (Some x)
    then have x: "s = x" if "s \<in> sessions_of r" "ps_token s = token" for s using that found [of s] by simp
    have "sessions_of (snd (validate_session token ip now r)) =
        (if ps_expires_at x \<le> now then {s \<in> sessions_of r. ps_token s \<noteq> token} else sessions_of r)"
      unfolding eq using Some by (simp add: sessions_invalidate [OF assms])
    also have "\<dots> = {s \<in> sessions_of r. ps_token s = token \<longrightarrow> now < ps_expires_at s}"
      using x by (cases "ps_expires_at x \<le> now") fastforce+
    finally show ?thesis .
  qed
qed

lemma session_by_ip_facts:
  assumes "reg_inv r"
  shows "reg_inv (snd (session_by_ip ip now r))"
    and "fst (session_by_ip ip now r) = Some s \<longleftrightarrow> s \<in> sessions_of r \<and> ps_client_ip s = ip \<and> now < ps_expires_at s"
    and "{s \<in> sessions_of r. now < ps_expires_at s} \<subseteq> sessions_of (snd (session_by_ip ip now r))"
    and "sessions_of (snd (session_by_ip ip now r)) \<subseteq> sessions_of r"
    and "pr_max_sessions (snd (session_by_ip ip now r)) = pr_max_sessions r"
proof -
  have "token_of r ip = Some t \<longleftrightarrow> (\<exists>s \<in> sessions_of r. ps_token s = t \<and> ps_client_ip s = ip)" for t
    using reg_inv_ip [OF assms, of ip t] reg_inv_token [OF assms] in_sessions [OF assms] by metis
  moreover have eq: "session_by_ip ip now r = (case token_of r ip of None \<Rightarrow> (None, r)
      | Some token \<Rightarrow> validate_session token ip now r)"
    by (simp add: session_by_ip_def token_of_def)
  ultimately show "fst (session_by_ip ip now r) = Some s \<longleftrightarrow> s \<in> sessions_of r \<and> ps_client_ip s = ip \<and> now < ps_expires_at s"
    using one_session_per_address [OF assms] validate_facts(2) [OF assms]
    by (cases "token_of r ip") auto
  show "reg_inv (snd (session_by_ip ip now r))" "pr_max_sessions (snd (session_by_ip ip now r)) = pr_max_sessions r"
    "{s \<in> sessions_of r. now < ps_expires_at s} \<subseteq> sessions_of (snd (session_by_ip ip now r))"
    "sessions_of (snd (session_by_ip ip now r)) \<subseteq> sessions_of r"
    unfolding eq using assms validate_facts(1,3,4) [OF assms] by (auto split: option.splits)
qed

subsection \<open>Every run of the registry\<close>

inductive registry :: "portal_sessions \<Rightarrow> bool" where
  registry_start: "0 < n \<Longrightarrow> registry (new_portal_sessions e n)"
| registry_create: "registry r \<Longrightarrow> map_of (pr_by_token r) token = None
    \<Longrightarrow> registry (snd (create_session uuid username ip token now mac r))"
| registry_validate: "registry r \<Longrightarrow> registry (snd (validate_session token ip now r))"
| registry_by_ip: "registry r \<Longrightarrow> registry (snd (session_by_ip ip now r))"
| registry_invalidate: "registry r \<Longrightarrow> registry (snd (invalidate token r))"
| registry_invalidate_ip: "registry r \<Longrightarrow> registry (snd (invalidate_ip ip r))"
| registry_purge: "registry r \<Longrightarrow> registry (snd (purge_expired now r))"
| registry_list: "registry r \<Longrightarrow> registry (snd (list_sessions now r))"

lemma create_refused:
  assumes "reg_inv r" "new_portal_session \<lparr>ps_id = uuid, ps_token = token,
      ps_username = username, ps_client_ip = client_ip, ps_issued_at = now,
      ps_expires_at = now + seconds (pr_token_expiry_seconds r), ps_client_mac = mac\<rparr> = None"
  shows "fst (create_session uuid username client_ip token now mac r) = None"
    "reg_inv (snd (create_session uuid username client_ip token now mac r))"
    "sessions_of (snd (create_session uuid username client_ip token now mac r)) \<subseteq> sessions_of r"
proof -
  let ?r2 = "snd (invalidate_ip client_ip (snd (purge_expired now r)))"
  have r2: "reg_inv ?r2" "sessions_of ?r2 \<subseteq> sessions_of r"
    using purge_facts [OF assms(1), of now] by (auto simp: reg_inv_invalidate_ip sessions_invalidate_ip)
  obtain r3 gone where "make_room ?r2 = Some r3" "reg_inv r3" "sessions_of r3 = sessions_of ?r2 - gone"
    using make_room_facts [OF r2(1)] by metis
  then show "fst (create_session uuid username client_ip token now mac r) = None"
    "reg_inv (snd (create_session uuid username client_ip token now mac r))"
    "sessions_of (snd (create_session uuid username client_ip token now mac r)) \<subseteq> sessions_of r"
    using assms(2) r2(2) by (auto simp: create_session_def Let_def)
qed

lemma reg_inv_create:
  assumes "reg_inv r" "by_token r token = None"
  shows "reg_inv (snd (create_session uuid username ip token now mac r))"
proof (cases "new_portal_session \<lparr>ps_id = uuid, ps_token = token, ps_username = username, ps_client_ip = ip,
    ps_issued_at = now, ps_expires_at = now + seconds (pr_token_expiry_seconds r), ps_client_mac = mac\<rparr>")
  case None
  then show ?thesis using create_refused(2) [OF assms(1)] by blast
next
  case (Some s)
  then show ?thesis using create_facts [OF assms Some] by (metis snd_conv)
qed

lemma registry_inv: "registry r \<Longrightarrow> reg_inv r"
proof (induction rule: registry.induct)
  case (registry_create r token uuid username ip now mac)
  then show ?case by (intro reg_inv_create) (simp_all add: by_token_def)
qed (simp_all add: reg_inv_start validate_facts session_by_ip_facts reg_inv_invalidate reg_inv_invalidate_ip
    purge_facts list_sessions_def Let_def)

text \<open>
  C20: A portal token is worth exactly one address until one moment. In every state the session registry
  can reach, with tokens drawn fresh, it holds at most \<open>max_sessions\<close> sessions and at most one per address; a token
  validates precisely for the address its session was issued to and precisely before its expiry, so a token
  replayed from another address, an expired one and an unknown one are all refused, and looking up by
  address finds precisely that address's live session.
\<close>
theorem session_registry_exact:
  assumes "registry r"
  shows "card (sessions_of r) \<le> pr_max_sessions r
    \<and> (\<forall>s \<in> sessions_of r. \<forall>s' \<in> sessions_of r. ps_client_ip s = ps_client_ip s' \<longrightarrow> s = s')
    \<and> (\<forall>token ip now s. fst (validate_session token ip now r) = Some s \<longleftrightarrow>
         s \<in> sessions_of r \<and> ps_token s = token \<and> ps_client_ip s = ip \<and> now < ps_expires_at s)
    \<and> (\<forall>ip now s. fst (session_by_ip ip now r) = Some s \<longleftrightarrow>
         s \<in> sessions_of r \<and> ps_client_ip s = ip \<and> now < ps_expires_at s)"
proof -
  note inv = registry_inv [OF assms]
  show ?thesis
    using card_sessions [OF inv] inv one_session_per_address [OF inv] validate_facts(2) [OF inv] session_by_ip_facts(2) [OF inv]
    by (simp add: reg_inv_def)
qed

theorem session_registry_exact_witness:
  "let r = snd (create_session ''i'' ''ada'' 1 ''t'' 0 None (new_portal_sessions 60 1)) in
   registry r \<and> fst (validate_session ''t'' 1 59 r) \<noteq> None \<and> fst (validate_session ''t'' 2 59 r) = None
   \<and> (\<forall>s \<in> sessions_of r. \<forall>s' \<in> sessions_of r. ps_client_ip s = ps_client_ip s' \<longrightarrow> s = s')"
proof -
  let ?r = "snd (create_session ''i'' ''ada'' 1 ''t'' 0 None (new_portal_sessions 60 1))"
  have r: "registry ?r" by (intro registry_create registry_start) (simp_all add: new_portal_sessions_def)
  moreover have "fst (validate_session ''t'' 1 59 ?r) \<noteq> None" "fst (validate_session ''t'' 2 59 ?r) = None"
    by (simp_all add: validate_session_def create_session_def purge_expired_def invalidate_ip_def make_room_def
        new_portal_session_def new_portal_sessions_def seconds_def Let_def)
  moreover note session_registry_exact [OF r, THEN conjunct2, THEN conjunct1]
  ultimately show ?thesis unfolding Let_def by (intro conjI)
qed

lemma expiry_kept [simp]:
  "pr_token_expiry_seconds (snd (purge_expired now r)) = pr_token_expiry_seconds r"
  "pr_token_expiry_seconds (snd (validate_session token ip now r)) = pr_token_expiry_seconds r"
  "pr_token_expiry_seconds (snd (session_by_ip ip now r)) = pr_token_expiry_seconds r"
  "pr_token_expiry_seconds (snd (list_sessions now r)) = pr_token_expiry_seconds r"
  "pr_token_expiry_seconds (snd (create_session uuid username ip token now mac r)) = pr_token_expiry_seconds r"
proof -
  have fold: "pr_token_expiry_seconds (fold drop_session ss r) = pr_token_expiry_seconds r" for ss r
    by (induction ss arbitrary: r) simp_all
  show purge: "pr_token_expiry_seconds (snd (purge_expired now r)) = pr_token_expiry_seconds r" for r
    by (simp add: purge_expired_def Let_def fold)
  show validate: "pr_token_expiry_seconds (snd (validate_session token ip now r)) = pr_token_expiry_seconds r" for token
    by (simp add: validate_session_def split: option.splits)
  show "pr_token_expiry_seconds (snd (session_by_ip ip now r)) = pr_token_expiry_seconds r"
    by (simp add: session_by_ip_def validate split: option.splits)
  show "pr_token_expiry_seconds (snd (list_sessions now r)) = pr_token_expiry_seconds r"
    by (simp add: list_sessions_def Let_def purge)
  have room: "make_room r = Some r' \<Longrightarrow> pr_token_expiry_seconds r' = pr_token_expiry_seconds r" for r r'
    by (auto simp: make_room_def split: if_splits list.splits)
  show "pr_token_expiry_seconds (snd (create_session uuid username ip token now mac r)) = pr_token_expiry_seconds r"
    by (auto simp: create_session_def Let_def purge dest!: room split: option.splits)
qed

end
