(* ===== verification/Passwords.thy ===== *)
theory Passwords
  imports Packet_Parser
begin

section \<open>Passwords\<close>

text \<open>
  \<open>core/passwords.py\<close>. The key derivation \<open>hashlib.scrypt\<close>, with the cost parameters the source fixes, is an argument
  (password, salt and key length to a key); the salt of a new hash and the random text of a generated password
  are arguments too.
\<close>

type_synonym kdf = "string \<Rightarrow> bytes \<Rightarrow> nat \<Rightarrow> bytes"

definition KEY_LENGTH :: nat where
  "KEY_LENGTH = 32"

text \<open>\<open>bytes.hex()\<close> and \<open>bytes.fromhex\<close>, which skips white space between bytes.\<close>

definition to_hex :: "bytes \<Rightarrow> string" where
  "to_hex bs = concat (map hex_byte bs)"

definition hex_space :: "char \<Rightarrow> bool" where
  "hex_space c \<longleftrightarrow> (of_char c :: nat) \<in> {9, 10, 11, 12, 13, 32}"

fun from_hex :: "string \<Rightarrow> bytes option" where
  "from_hex [] = Some []"
| "from_hex [c] = (if hex_space c then Some [] else None)"
| "from_hex (c # d # s) =
     (if hex_space c then from_hex (d # s)
      else (case (hex_value c, hex_value d) of
              (Some a, Some b) \<Rightarrow> map_option ((#) (of_nat (16 * a + b))) (from_hex s)
            | _ \<Rightarrow> None))"

definition hash_password :: "kdf \<Rightarrow> bytes \<Rightarrow> string \<Rightarrow> string" where
  "hash_password scrypt salt password = to_hex salt @ ''$'' @ to_hex (scrypt password salt KEY_LENGTH)"

text \<open>\<open>stored_hash.split("$", 1)\<close> unpacked into two parts.\<close>

definition split_hash :: "string \<Rightarrow> (string \<times> string) option" where
  "split_hash s = (case dropWhile (\<lambda>c. c \<noteq> CHR ''$'') s of
       [] \<Rightarrow> None | _ # rest \<Rightarrow> Some (takeWhile (\<lambda>c. c \<noteq> CHR ''$'') s, rest))"

definition verify_password :: "kdf \<Rightarrow> string \<Rightarrow> string \<Rightarrow> bool" where
  "verify_password scrypt password stored_hash = (case split_hash stored_hash of
       None \<Rightarrow> False
     | Some (salt_hex, hash_hex) \<Rightarrow>
         (case (from_hex salt_hex, from_hex hash_hex) of
            (Some salt, Some expected) \<Rightarrow> expected \<noteq> [] \<and> scrypt password salt (length expected) = expected
          | _ \<Rightarrow> False))"

text \<open>\<open>generate_password\<close>: the text is what \<open>secrets.token_urlsafe(length)\<close> returns; a length below eight raises.\<close>

definition generate_password :: "(nat \<Rightarrow> string) \<Rightarrow> nat \<Rightarrow> string option" where
  "generate_password token_urlsafe n = (if n < 8 then None else Some (take n (token_urlsafe n)))"

subsection \<open>Round trip\<close>

lemma hex_value_digit: "n < 16 \<Longrightarrow> hex_value (hex_digit n) = Some n"
  by (auto simp: hex_value_alt hex_digit_def less_eq_char_def Let_def)

lemma hex_digit_not: "n < 16 \<Longrightarrow> \<not> hex_space (hex_digit n)" "n < 16 \<Longrightarrow> hex_digit n \<noteq> CHR ''$''"
  using hex_value_digit [of n] by (auto simp: hex_space_def hex_digit_def hex_value_alt Let_def)

lemma byte_digits: "unat (b :: 8 word) div 16 < 16" "unat b mod 16 < 16" "of_nat (16 * (unat b div 16) + unat b mod 16) = b"
  using unat_byte [of b] by (simp_all add: less_mult_imp_div_less)

lemma from_to_hex: "from_hex (to_hex bs) = Some bs"
proof (induction bs)
  case (Cons b bs)
  have "to_hex (b # bs) = hex_digit (unat b div 16) # hex_digit (unat b mod 16) # to_hex bs"
    by (simp add: to_hex_def hex_byte_def)
  then show ?case using Cons byte_digits [of b] by (simp add: hex_digit_not hex_value_digit del: of_nat_add of_nat_mult)
qed (simp add: to_hex_def)

lemma to_hex_no_dollar: "c \<in> set (to_hex bs) \<Longrightarrow> c \<noteq> CHR ''$''"
  by (auto simp: to_hex_def hex_byte_def dest!: sym [of "CHR ''$''"] simp: hex_digit_not byte_digits)

lemma split_hash_join:
  assumes "\<And>c. c \<in> set a \<Longrightarrow> c \<noteq> CHR ''$''"
  shows "split_hash (a @ CHR ''$'' # b) = Some (a, b)"
  using assms by (simp add: split_hash_def dropWhile_append2 takeWhile_append2)

text \<open>
  A stored hash accepts its own password and nothing that derives another key. For every derivation
  function that returns keys of the requested length, every salt and password, verifying a password against the hash
  made by \<open>hash_password\<close> succeeds exactly when both passwords derive the same key from that salt; in particular the
  original password always verifies. A stored text without a separator never verifies anything.
\<close>
theorem password_roundtrip:
  assumes "\<And>password salt n. length (scrypt password salt n) = n"
  shows "(verify_password scrypt password' (hash_password scrypt salt password)
      \<longleftrightarrow> scrypt password' salt 32 = scrypt password salt 32)
    \<and> verify_password scrypt password (hash_password scrypt salt password)
    \<and> (CHR ''$'' \<notin> set text \<longrightarrow> \<not> verify_password scrypt password text)"
proof -
  let ?key = "scrypt password salt 32"
  have "split_hash (hash_password scrypt salt password) = Some (to_hex salt, to_hex ?key)"
    using split_hash_join [of "to_hex salt" "to_hex ?key"] to_hex_no_dollar by (simp add: hash_password_def KEY_LENGTH_def)
  moreover have "length ?key = 32" "?key \<noteq> []" using assms [of password salt 32] by auto
  moreover have "split_hash text = None" if "CHR ''$'' \<notin> set text"
  proof -
    have "dropWhile (\<lambda>c. c \<noteq> CHR ''$'') text = []" using that by (auto simp: dropWhile_eq_Nil_conv)
    then show ?thesis unfolding split_hash_def by (simp only: list.case)
  qed
  ultimately show ?thesis by (auto simp: verify_password_def from_to_hex)
qed

theorem password_roundtrip_witness:
  "let scrypt = (\<lambda>password salt n. replicate n (of_nat (length password) :: 8 word)) in
   verify_password scrypt ''secret'' (hash_password scrypt [1, 255] ''secret'')
   \<and> \<not> verify_password scrypt ''guess'' (hash_password scrypt [1, 255] ''secret'')"
  using password_roundtrip [of "\<lambda>password salt n. replicate n (of_nat (length password) :: 8 word)"
      "''guess''" "[1, 255]" "''secret''"]
  by (simp add: replicate_eq_replicate)

end
