(* ===== verification/Portal_Store.thy ===== *)
theory Portal_Store
  imports Passwords "HOL-Library.List_Lexorder"
begin

section \<open>Portal accounts\<close>

text \<open>
  \<open>portal/store.py\<close> with the account model of \<open>core/models/portal.py\<close>, and the startup rule of
  \<open>portal/demo_policy.py\<close>. The file is a value of the store: what reading it yields (missing, unreadable, not a list,
  or a list whose ill-formed items are \<open>None\<close>), and what the last successful write left. Whether the operating
  system completes a write is an argument (\<open>written\<close>); a failed one leaves the file as it was, because the
  source writes beside it and renames. Derivation and salts are as in \<open>Passwords\<close>.
\<close>

record portal_user =
  pu_username :: string
  pu_password_hash :: string
  pu_created_at :: datetime
  pu_created_by :: string
  pu_note :: string
  pu_is_demo :: bool

text \<open>The field constraints: \<open>^[A-Za-z0-9._-]+$\<close> and the lengths.\<close>

definition username_char :: "char \<Rightarrow> bool" where
  "username_char c \<longleftrightarrow> CHR ''A'' \<le> c \<and> c \<le> CHR ''Z'' \<or> CHR ''a'' \<le> c \<and> c \<le> CHR ''z'' \<or> is_digit c
     \<or> c \<in> {CHR ''.'', CHR ''_'', CHR ''-''}"

definition portal_user_ok :: "portal_user \<Rightarrow> bool" where
  "portal_user_ok u \<longleftrightarrow> pu_username u \<noteq> [] \<and> length (pu_username u) \<le> 64 \<and> list_all username_char (pu_username u)
     \<and> pu_password_hash u \<noteq> [] \<and> pu_created_by u \<noteq> [] \<and> length (pu_note u) \<le> 200"

datatype user_file = UF_MISSING | UF_UNREADABLE | UF_NOT_LIST | UF_ITEMS "portal_user option list"

datatype store_error = SE_UNREADABLE | SE_NOT_LIST | SE_INVALID_USER | SE_EXISTS | SE_UNKNOWN_USER | SE_WRITE_FAILED

record portal_user_store =
  us_users :: "(string, portal_user) odict"
  us_file :: user_file

subsection \<open>Reading\<close>

fun load_users :: "portal_user option list \<Rightarrow> (string, portal_user) odict \<Rightarrow> (string, portal_user) odict option" where
  "load_users [] users = Some users"
| "load_users (item # items) users = (case item of
       None \<Rightarrow> None
     | Some u \<Rightarrow> if portal_user_ok u then load_users items (AList.update (pu_username u) u users) else None)"

definition reload :: "portal_user_store \<Rightarrow> (store_error + unit) \<times> portal_user_store" where
  "reload st = (case us_file st of
       UF_MISSING \<Rightarrow> (Inr (), st\<lparr>us_users := []\<rparr>)
     | UF_UNREADABLE \<Rightarrow> (Inl SE_UNREADABLE, st)
     | UF_NOT_LIST \<Rightarrow> (Inl SE_NOT_LIST, st)
     | UF_ITEMS items \<Rightarrow> (case load_users items [] of
           None \<Rightarrow> (Inl SE_INVALID_USER, st) | Some users \<Rightarrow> (Inr (), st\<lparr>us_users := users\<rparr>)))"

definition open_store :: "user_file \<Rightarrow> store_error + portal_user_store" where
  "open_store file = (case reload \<lparr>us_users = [], us_file = file\<rparr> of (Inl e, _) \<Rightarrow> Inl e | (Inr _, st) \<Rightarrow> Inr st)"

definition list_users :: "portal_user_store \<Rightarrow> portal_user list" where
  "list_users st = sort_key pu_username (map snd (us_users st))"

definition get_user :: "portal_user_store \<Rightarrow> string \<Rightarrow> portal_user option" where
  "get_user st username = map_of (us_users st) username"

definition has_demo_accounts :: "portal_user_store \<Rightarrow> bool" where
  "has_demo_accounts st \<longleftrightarrow> list_ex pu_is_demo (map snd (us_users st))"

definition demo_usernames :: "portal_user_store \<Rightarrow> string list" where
  "demo_usernames st = sort (map pu_username (filter pu_is_demo (map snd (us_users st))))"

text \<open>An unknown name is checked against a decoy hash, for its time only.\<close>

definition verify_user :: "kdf \<Rightarrow> portal_user_store \<Rightarrow> string \<Rightarrow> string \<Rightarrow> bool" where
  "verify_user scrypt st username password = (case get_user st username of
       None \<Rightarrow> False | Some u \<Rightarrow> verify_password scrypt password (pu_password_hash u))"

subsection \<open>Writing\<close>

definition persist :: "bool \<Rightarrow> portal_user_store \<Rightarrow> store_error option \<times> portal_user_store" where
  "persist written st =
     (if written then (None, st\<lparr>us_file := UF_ITEMS (map Some (list_users st))\<rparr>) else (Some SE_WRITE_FAILED, st))"

definition persisted :: "bool \<Rightarrow> 'a \<Rightarrow> portal_user_store \<Rightarrow> (store_error + 'a) \<times> portal_user_store" where
  "persisted written x st = (case persist written st of (None, st') \<Rightarrow> (Inr x, st') | (Some e, st') \<Rightarrow> (Inl e, st'))"

definition DEMO_USERNAME_PREFIX :: string where
  "DEMO_USERNAME_PREFIX = ''demo-''"

definition doomed_demos :: "portal_user_store \<Rightarrow> string list" where
  "doomed_demos st = sort (map fst (filter (\<lambda>(name, u). pu_is_demo u \<or> take 5 name = DEMO_USERNAME_PREFIX) (us_users st)))"

definition remove_demo_accounts :: "bool \<Rightarrow> portal_user_store \<Rightarrow> (store_error + string list) \<times> portal_user_store" where
  "remove_demo_accounts written st =
     (let doomed = doomed_demos st
      in if doomed = [] then (Inr [], st)
         else persisted written doomed (st\<lparr>us_users := fold AList.delete doomed (us_users st)\<rparr>))"

definition add_user :: "kdf \<Rightarrow> bytes \<Rightarrow> bool \<Rightarrow> string \<Rightarrow> string \<Rightarrow> datetime \<Rightarrow> string \<Rightarrow> string \<Rightarrow> bool \<Rightarrow> portal_user_store
    \<Rightarrow> (store_error + portal_user) \<times> portal_user_store" where
  "add_user scrypt salt written username password created_at created_by note is_demo st =
     (if get_user st username \<noteq> None then (Inl SE_EXISTS, st)
      else let u = \<lparr>pu_username = username, pu_password_hash = hash_password scrypt salt password,
                   pu_created_at = created_at, pu_created_by = created_by, pu_note = note, pu_is_demo = is_demo\<rparr>
           in if \<not> portal_user_ok u then (Inl SE_INVALID_USER, st)
              else persisted written u (st\<lparr>us_users := AList.update username u (us_users st)\<rparr>))"

definition set_password :: "kdf \<Rightarrow> bytes \<Rightarrow> bool \<Rightarrow> string \<Rightarrow> string \<Rightarrow> portal_user_store
    \<Rightarrow> (store_error + portal_user) \<times> portal_user_store" where
  "set_password scrypt salt written username password st = (case get_user st username of
       None \<Rightarrow> (Inl SE_UNKNOWN_USER, st)
     | Some u \<Rightarrow>
         let u' = u\<lparr>pu_password_hash := hash_password scrypt salt password, pu_is_demo := False\<rparr>
         in persisted written u' (st\<lparr>us_users := AList.update username u' (us_users st)\<rparr>))"

definition remove_user :: "bool \<Rightarrow> string \<Rightarrow> portal_user_store \<Rightarrow> (store_error + bool) \<times> portal_user_store" where
  "remove_user written username st =
     (if get_user st username = None then (Inr False, st)
      else persisted written True (st\<lparr>us_users := AList.delete username (us_users st)\<rparr>))"

subsection \<open>Starting with demo accounts\<close>

text \<open>\<open>refuse_demo_accounts_when_enforcing\<close>: the error it raises, or \<open>None\<close>.\<close>

datatype startup_refusal = SR_STORE store_error | SR_DEMO_ACCOUNTS "string list"

definition refuse_demo_accounts_when_enforcing :: "bool \<Rightarrow> bool \<Rightarrow> enforcement_mode \<Rightarrow> user_file \<Rightarrow> startup_refusal option" where
  "refuse_demo_accounts_when_enforcing enabled allow_demo mode file =
     (if \<not> enabled \<or> allow_demo then None
      else if mode = EM_SHADOW then None
      else (case open_store file of
              Inl e \<Rightarrow> Some (SR_STORE e)
            | Inr st \<Rightarrow> let demo = demo_usernames st in if demo = [] then None else Some (SR_DEMO_ACCOUNTS demo)))"

subsection \<open>What a restart reads\<close>

definition users_ok :: "(string, portal_user) odict \<Rightarrow> bool" where
  "users_ok d \<longleftrightarrow> od_distinct d \<and> od_all portal_user_ok d \<and> map fst d = map pu_username (map snd d)"

definition store_inv :: "portal_user_store \<Rightarrow> bool" where
  "store_inv st \<longleftrightarrow> users_ok (us_users st)"

lemma names_update: "map fst d = map pu_username (map snd d) \<Longrightarrow> pu_username u = name
    \<Longrightarrow> map fst (AList.update name u d) = map pu_username (map snd (AList.update name u d))"
  by (induction d) auto

lemma names_delete: "map fst d = map pu_username (map snd d)
    \<Longrightarrow> map fst (AList.delete name d) = map pu_username (map snd (AList.delete name d))"
  by (induction d) auto

lemma users_ok_update: "users_ok d \<Longrightarrow> portal_user_ok u \<Longrightarrow> pu_username u = name \<Longrightarrow> users_ok (AList.update name u d)"
  unfolding users_ok_def by (blast intro: names_update od_all_update od_distinct_update)

lemma users_ok_delete: "users_ok d \<Longrightarrow> users_ok (AList.delete name d)"
  unfolding users_ok_def by (blast intro: names_delete od_all_delete od_distinct_delete)

lemma users_ok_deletes: "users_ok d \<Longrightarrow> users_ok (fold AList.delete names d)"
  by (induction names arbitrary: d) (auto intro: users_ok_delete)

lemma load_users_Some:
  assumes "list_all portal_user_ok us"
  shows "load_users (map Some us) d = Some (fold (\<lambda>u. AList.update (pu_username u) u) us d)"
  using assms by (induction us arbitrary: d) auto

lemma load_users_ok: "load_users items d = Some d' \<Longrightarrow> users_ok d \<Longrightarrow> users_ok d'"
  by (induction items arbitrary: d) (auto intro: users_ok_update split: option.splits if_splits)

lemma open_store_inv: "open_store file = Inr st \<Longrightarrow> store_inv st \<and> us_file st = file"
proof -
  have empty: "users_ok []" by (simp add: users_ok_def)
  assume "open_store file = Inr st"
  then show ?thesis using load_users_ok [OF _ empty] empty
    by (auto simp: open_store_def reload_def store_inv_def split: user_file.splits option.splits prod.splits sum.splits)
qed

lemma map_of_loaded:
  assumes "distinct (map pu_username us)"
  shows "map_of (fold (\<lambda>u. AList.update (pu_username u) u) us d) name =
    (case List.find (\<lambda>u. pu_username u = name) us of None \<Rightarrow> map_of d name | Some u \<Rightarrow> Some u)"
  using assms
proof (induction us arbitrary: d)
  case (Cons u us)
  have "List.find (\<lambda>v. pu_username v = pu_username u) us = None" 
    using Cons.prems unfolding find_None_iff by (metis distinct.simps(2) image_eqI list.simps(9) set_map)
  then show ?case using Cons by (auto split: option.splits)
qed simp

lemma get_user_iff:
  assumes "store_inv st"
  shows "get_user st name = Some u \<longleftrightarrow> u \<in> set (list_users st) \<and> pu_username u = name"
proof -
  have "\<And>k v. (k, v) \<in> set (us_users st) \<Longrightarrow> pu_username v = k"
    using assms by (auto simp: store_inv_def users_ok_def)
  then show ?thesis
    using keyed_lookup [of "us_users st" pu_username name u] assms
    by (simp add: get_user_def list_users_def store_inv_def users_ok_def)
qed

lemma list_users_props:
  assumes "store_inv st"
  shows "list_all portal_user_ok (list_users st)" "distinct (map pu_username (list_users st))"
    "sorted (map pu_username (list_users st))"
proof -
  have names: "map pu_username (map snd (us_users st)) = map fst (us_users st)" "od_distinct (us_users st)"
    using assms by (simp_all add: store_inv_def users_ok_def)
  show "list_all portal_user_ok (list_users st)"
    using assms by (auto simp: list_users_def store_inv_def users_ok_def od_all_def list_all_iff)
  have "distinct (map pu_username (map snd (us_users st)))" using names(2) by (simp only: names(1))
  then show "distinct (map pu_username (list_users st))"
    by (simp add: list_users_def distinct_map del: map_map)
  show "sorted (map pu_username (list_users st))" by (simp add: list_users_def)
qed

lemma same_listing:
  assumes "store_inv st" "store_inv st'" "get_user st = get_user st'"
  shows "list_users st = list_users st'"
proof -
  have "u \<in> set (list_users st) \<longleftrightarrow> u \<in> set (list_users st')" for u
    using get_user_iff [OF assms(1), of "pu_username u" u] get_user_iff [OF assms(2), of "pu_username u" u] assms(3) by simp
  then have "set (list_users st) = set (list_users st')" by blast
  moreover have "inj_on pu_username (set (list_users st))" using list_users_props [OF assms(1)] by (simp add: distinct_map)
  ultimately show ?thesis using list_users_props [OF assms(1)] list_users_props [OF assms(2)]
    by (intro map_sorted_distinct_set_unique [of pu_username]) (simp_all add: inj_on_Un)
qed

lemma reopen:
  assumes "store_inv st"
  obtains st' where "open_store (UF_ITEMS (map Some (list_users st))) = Inr st'" "get_user st' = get_user st"
    "list_users st' = list_users st" "store_inv st'"
proof -
  let ?us = "list_users st"
  define st' where "st' = \<lparr>us_users = fold (\<lambda>u. AList.update (pu_username u) u) ?us [], us_file = UF_ITEMS (map Some ?us)\<rparr>"
  have o: "open_store (UF_ITEMS (map Some ?us)) = Inr st'"
    using load_users_Some [OF list_users_props(1) [OF assms], of "[]"] by (simp add: open_store_def reload_def st'_def)
  have "get_user st' name = get_user st name" for name
  proof (cases "get_user st name")
    case None
    then have "List.find (\<lambda>u. pu_username u = name) ?us = None"
      using get_user_iff [OF assms, of name] by (auto simp: find_None_iff)
    then show ?thesis using None map_of_loaded [OF list_users_props(2) [OF assms], of "[]" name]
      by (simp add: get_user_def st'_def)
  next
    case (Some u)
    then obtain v where v: "List.find (\<lambda>u. pu_username u = name) ?us = Some v"
      using get_user_iff [OF assms, of name u] by (metis (mono_tags, lifting) find_None_iff not_Some_eq)
    then have "get_user st name = Some v"
      using get_user_iff [OF assms, of name v] by (metis (mono_tags, lifting) find_Some_iff nth_mem)
    then show ?thesis using v map_of_loaded [OF list_users_props(2) [OF assms], of "[]" name]
      by (simp add: get_user_def st'_def)
  qed
  then have g: "get_user st' = get_user st" by blast
  have i: "store_inv st'" using open_store_inv [OF o] by blast
  show thesis using that [OF o g same_listing [OF i assms g] i] .
qed

text \<open>
  The life of a store. The flag says that memory and file are in step: no write has failed, and no other process has
  replaced the file, since the file was last read.
\<close>

definition still_saved :: "bool \<Rightarrow> store_error + 'a \<Rightarrow> bool" where
  "still_saved saved r \<longleftrightarrow> saved \<and> (case r of Inl e \<Rightarrow> e \<noteq> SE_WRITE_FAILED | Inr _ \<Rightarrow> True)"

inductive user_store :: "bool \<Rightarrow> portal_user_store \<Rightarrow> bool" where
  user_store_open: "open_store file = Inr st \<Longrightarrow> user_store True st"
| user_store_reload: "user_store saved st \<Longrightarrow> reload st = (r, st') \<Longrightarrow> user_store (saved \<or> (\<exists>x. r = Inr x)) st'"
| user_store_add: "user_store saved st \<Longrightarrow> add_user scrypt salt written name pw t author memo demo st = (r, st') \<Longrightarrow>
    user_store (still_saved saved r) st'"
| user_store_set: "user_store saved st \<Longrightarrow> set_password scrypt salt written name pw st = (r', st') \<Longrightarrow>
    user_store (still_saved saved r') st'"
| user_store_remove: "user_store saved st \<Longrightarrow> remove_user written name st = (b, st') \<Longrightarrow> user_store (still_saved saved b) st'"
| user_store_demo: "user_store saved st \<Longrightarrow> remove_demo_accounts written st = (ns, st') \<Longrightarrow> user_store (still_saved saved ns) st'"
| user_store_replaced: "user_store saved st \<Longrightarrow> user_store False (st\<lparr>us_file := contents\<rparr>)"

text \<open>What a restart would read: the accounts by name, when the file opens.\<close>

definition accounts_on_disk :: "user_file \<Rightarrow> (string \<Rightarrow> portal_user option) option" where
  "accounts_on_disk file = (case open_store file of Inl e \<Rightarrow> None | Inr st \<Rightarrow> Some (get_user st))"

lemma hash_nonempty: "hash_password scrypt salt pw \<noteq> []"
  by (simp add: hash_password_def)

lemma us_users_persisted [simp]: "us_users (snd (persisted written x st)) = us_users st"
  by (simp add: persisted_def persist_def)

lemma get_user_ok: "store_inv st \<Longrightarrow> get_user st name = Some u \<Longrightarrow> portal_user_ok u \<and> pu_username u = name"
  using get_user_iff list_users_props(1) by (fastforce simp: list_all_iff)

lemma store_inv_add: "store_inv st \<Longrightarrow> store_inv (snd (add_user scrypt salt written name pw t author memo demo st))"
  by (auto simp: add_user_def Let_def store_inv_def intro: users_ok_update)

lemma store_inv_set_password:
  assumes "store_inv st"
  shows "store_inv (snd (set_password scrypt salt written name pw st))"
proof (cases "get_user st name")
  case (Some u)
  then have "portal_user_ok u" "pu_username u = name" using get_user_ok [OF assms] by auto
  then show ?thesis using Some assms
    by (auto simp: set_password_def Let_def store_inv_def portal_user_ok_def hash_nonempty intro!: users_ok_update)
qed (simp add: set_password_def assms)

lemma store_inv_remove: "store_inv st \<Longrightarrow> store_inv (snd (remove_user written name st))"
  by (auto simp: remove_user_def store_inv_def intro: users_ok_delete)

lemma store_inv_reload: "store_inv st \<Longrightarrow> store_inv (snd (reload st))"
proof -
  have "users_ok []" by (simp add: users_ok_def)
  then show "store_inv st \<Longrightarrow> store_inv (snd (reload st))" using load_users_ok
    by (auto simp: reload_def store_inv_def split: user_file.splits option.splits)
qed

lemma store_inv_demo: "store_inv st \<Longrightarrow> store_inv (snd (remove_demo_accounts written st))"
  by (auto simp: remove_demo_accounts_def Let_def store_inv_def intro: users_ok_deletes)

lemma user_store_inv: "user_store saved st \<Longrightarrow> store_inv st"
proof (induction rule: user_store.induct)
  case (user_store_replaced saved st contents)
  then show ?case by (simp add: store_inv_def)
qed (metis open_store_inv store_inv_reload store_inv_add store_inv_set_password store_inv_remove store_inv_demo snd_conv)+

lemma persisted_Inr: "persisted written x st = (Inr y, st') \<Longrightarrow> y = x \<and> st' = st\<lparr>us_file := UF_ITEMS (map Some (list_users st))\<rparr>"
  by (auto simp: persisted_def persist_def split: if_splits)

lemma get_user_file [simp]: "get_user (st\<lparr>us_file := f\<rparr>) = get_user st" "list_users (st\<lparr>us_file := f\<rparr>) = list_users st"
  by (auto simp: get_user_def list_users_def)

text \<open>A successful write leaves a file that reopens as the store in memory.\<close>

lemma persisted_reopens:
  assumes "persisted written x st = (Inr y, st')" "store_inv st"
  obtains st'' where "open_store (us_file st') = Inr st''" "get_user st'' = get_user st" "list_users st'' = list_users st"
  using reopen [OF assms(2)] persisted_Inr [OF assms(1)]
  by (metis portal_user_store.select_convs(2) portal_user_store.surjective portal_user_store.update_convs(2))

lemma persisted_on_disk:
  assumes "persisted written x st = (Inr y, st')" "store_inv st"
  shows "accounts_on_disk (us_file st') = Some (get_user st)"
  using persisted_reopens [OF assms] unfolding accounts_on_disk_def by (metis sum.case(2))

text \<open>A write either saves the memory or fails, reports so and leaves the file.\<close>

lemma persisted_saved:
  assumes "persisted written x st = (r, st')" "store_inv st"
  shows "get_user st' = get_user st" "still_saved saved r \<Longrightarrow> accounts_on_disk (us_file st') = Some (get_user st)"
    "r = Inl e \<Longrightarrow> e = SE_WRITE_FAILED \<and> us_file st' = us_file st"
proof -
  show "get_user st' = get_user st" using assms(1) by (auto simp: persisted_def persist_def split: if_splits)
  show "r = Inl e \<Longrightarrow> e = SE_WRITE_FAILED \<and> us_file st' = us_file st"
    using assms(1) by (auto simp: persisted_def persist_def split: if_splits)
  assume "still_saved saved r"
  then obtain y where "r = Inr y" using assms(1) by (auto simp: persisted_def persist_def still_saved_def split: if_splits)
  then show "accounts_on_disk (us_file st') = Some (get_user st)" using persisted_on_disk [of written x st y st'] assms by simp
qed

text \<open>Every operation that writes is an error or no change at all, or changes the memory and persists it.\<close>

definition in_step :: "portal_user_store \<Rightarrow> bool" where
  "in_step st \<longleftrightarrow> accounts_on_disk (us_file st) = Some (get_user st)"

lemma in_step_persisted:
  assumes "persisted written x st = (r, st')" "store_inv st" "still_saved saved r" shows "in_step st'"
  using persisted_saved(1,2) [OF assms(1,2)] assms(3) by (simp add: in_step_def)

lemma in_step_reload: "reload st = (Inr x, st') \<Longrightarrow> in_step st'"
  by (auto simp: in_step_def accounts_on_disk_def open_store_def reload_def get_user_def fun_eq_iff
      split: user_file.splits option.splits)

lemma reload_error: "reload st = (Inl e, st') \<Longrightarrow> st' = st"
  by (auto simp: reload_def split: user_file.splits option.splits)

lemma in_step_open:
  assumes "open_store file = Inr st" shows "in_step st"
  using assms open_store_inv [OF assms] by (simp add: in_step_def accounts_on_disk_def)

lemma in_step_add:
  assumes "in_step st" "store_inv st" "add_user scrypt salt written name pw t author memo demo st = (r, st')" "still_saved True r"
  shows "in_step st'"
proof -
  let ?u = "\<lparr>pu_username = name, pu_password_hash = hash_password scrypt salt pw, pu_created_at = t, pu_created_by = author,
     pu_note = memo, pu_is_demo = demo\<rparr>"
  let ?st = "st\<lparr>us_users := AList.update name ?u (us_users st)\<rparr>"
  have "st' = st \<or> portal_user_ok ?u \<and> persisted written ?u ?st = (r, st')"
    using assms(3) by (auto simp: add_user_def Let_def split: if_splits)
  moreover have "portal_user_ok ?u \<Longrightarrow> store_inv ?st" using assms(2) by (auto simp: store_inv_def intro: users_ok_update)
  ultimately show ?thesis using in_step_persisted [of written ?u ?st r st' True] assms(1,4) by metis
qed

lemma in_step_set:
  assumes "in_step st" "store_inv st" "set_password scrypt salt written name pw st = (r, st')" "still_saved True r"
  shows "in_step st'"
proof (cases "get_user st name")
  case (Some v)
  let ?u = "v\<lparr>pu_password_hash := hash_password scrypt salt pw, pu_is_demo := False\<rparr>"
  have "portal_user_ok ?u" "pu_username ?u = name" using get_user_ok [OF assms(2) Some] by (auto simp: portal_user_ok_def hash_nonempty)
  then have "store_inv (st\<lparr>us_users := AList.update name ?u (us_users st)\<rparr>)"
    using assms(2) by (auto simp: store_inv_def intro: users_ok_update)
  then show ?thesis using in_step_persisted [OF _ _ assms(4)] assms(3) Some by (simp add: set_password_def Let_def)
qed (use assms in \<open>simp add: set_password_def\<close>)

lemma in_step_remove:
  assumes "in_step st" "store_inv st" "remove_user written name st = (r, st')" "still_saved True r"
  shows "in_step st'"
proof (cases "get_user st name")
  case (Some v)
  have "store_inv (st\<lparr>us_users := AList.delete name (us_users st)\<rparr>)"
    using assms(2) by (auto simp: store_inv_def intro: users_ok_delete)
  then show ?thesis using in_step_persisted [OF _ _ assms(4)] assms(3) Some by (simp add: remove_user_def)
qed (use assms in \<open>simp add: remove_user_def\<close>)

lemma in_step_demo:
  assumes "in_step st" "store_inv st" "remove_demo_accounts written st = (r, st')" "still_saved True r"
  shows "in_step st'"
proof (cases "doomed_demos st = []")
  case False
  have "store_inv (st\<lparr>us_users := fold AList.delete (doomed_demos st) (us_users st)\<rparr>)"
    using assms(2) by (auto simp: store_inv_def intro: users_ok_deletes)
  then show ?thesis using in_step_persisted [OF _ _ assms(4)] assms(3) False by (simp add: remove_demo_accounts_def Let_def)
qed (use assms in \<open>simp add: remove_demo_accounts_def\<close>)

lemma still_saved_True: "still_saved saved r \<Longrightarrow> saved \<and> still_saved True r"
  by (simp add: still_saved_def)

lemma user_store_in_step: "user_store saved st \<Longrightarrow> saved \<Longrightarrow> in_step st"
proof (induction rule: user_store.induct)
  case (user_store_open f st)
  then show ?case by (intro in_step_open)
next
  case (user_store_reload saved st r st')
  show ?case
  proof (cases r)
    case (Inl e)
    then show ?thesis using user_store_reload reload_error [of st e st'] by auto
  next
    case (Inr x)
    then show ?thesis using user_store_reload in_step_reload [of st x st'] by simp
  qed
next
  case (user_store_add saved st scrypt salt written name pw t author memo demo r st')
  then show ?case using in_step_add [OF _ user_store_inv user_store_add(2)] still_saved_True by blast
next
  case (user_store_set saved st scrypt salt written name pw r st')
  then show ?case using in_step_set [OF _ user_store_inv user_store_set(2)] still_saved_True by blast
next
  case (user_store_remove saved st written name r st')
  then show ?case using in_step_remove [OF _ user_store_inv user_store_remove(2)] still_saved_True by blast
next
  case (user_store_demo saved st written r st')
  then show ?case using in_step_demo [OF _ user_store_inv user_store_demo(2)] still_saved_True by blast
qed simp

lemma add_user_reopens:
  assumes "store_inv st" "add_user scrypt salt written name pw t author memo demo st = (Inr u, st')"
  shows "accounts_on_disk (us_file st') = Some ((get_user st)(name \<mapsto> u)) \<and> get_user st' = (get_user st)(name \<mapsto> u)
    \<and> pu_password_hash u = hash_password scrypt salt pw"
proof -
  let ?u = "\<lparr>pu_username = name, pu_password_hash = hash_password scrypt salt pw, pu_created_at = t, pu_created_by = author,
     pu_note = memo, pu_is_demo = demo\<rparr>"
  let ?st = "st\<lparr>us_users := AList.update name ?u (us_users st)\<rparr>"
  have ok: "portal_user_ok ?u" and p: "persisted written ?u ?st = (Inr u, st')"
    using assms(2) by (auto simp: add_user_def Let_def split: if_splits)
  have "store_inv ?st" using assms(1) ok by (auto simp: store_inv_def intro: users_ok_update)
  then show ?thesis using persisted_on_disk [OF p] persisted_Inr [OF p] by (auto simp: get_user_def fun_eq_iff)
qed

lemma set_password_reopens:
  assumes "store_inv st" "set_password scrypt salt written name pw st = (Inr u, st')"
  shows "accounts_on_disk (us_file st') = Some ((get_user st)(name \<mapsto> u)) \<and> get_user st' = (get_user st)(name \<mapsto> u)
    \<and> pu_password_hash u = hash_password scrypt salt pw \<and> \<not> pu_is_demo u"
proof -
  obtain v where v: "get_user st name = Some v" using assms(2) by (auto simp: set_password_def split: option.splits)
  let ?u = "v\<lparr>pu_password_hash := hash_password scrypt salt pw, pu_is_demo := False\<rparr>"
  let ?st = "st\<lparr>us_users := AList.update name ?u (us_users st)\<rparr>"
  have ok: "portal_user_ok ?u" "pu_username ?u = name"
    using get_user_ok [OF assms(1) v] by (auto simp: portal_user_ok_def hash_nonempty)
  have p: "persisted written ?u ?st = (Inr u, st')" using assms(2) v by (simp add: set_password_def Let_def)
  have "store_inv ?st" using assms(1) ok by (auto simp: store_inv_def intro: users_ok_update)
  then show ?thesis using persisted_on_disk [OF p] persisted_Inr [OF p] by (auto simp: get_user_def fun_eq_iff)
qed

lemma remove_user_reopens:
  assumes "store_inv st" "remove_user written name st = (Inr True, st')"
  shows "accounts_on_disk (us_file st') = Some ((get_user st)(name := None)) \<and> get_user st' = (get_user st)(name := None)"
proof -
  let ?st = "st\<lparr>us_users := AList.delete name (us_users st)\<rparr>"
  have p: "persisted written True ?st = (Inr True, st')" using assms(2) by (auto simp: remove_user_def split: if_splits)
  have "store_inv ?st" using assms(1) by (auto simp: store_inv_def intro: users_ok_delete)
  then show ?thesis using persisted_on_disk [OF p] persisted_Inr [OF p] by (auto simp: get_user_def fun_eq_iff)
qed

lemma key_length:
  assumes "\<And>password salt n. length (scrypt password salt n) = n"
  shows "verify_password scrypt pw (hash_password scrypt salt pw)"
proof -
  have "split_hash (hash_password scrypt salt pw) = Some (to_hex salt, to_hex (scrypt pw salt KEY_LENGTH))"
    using split_hash_join [of "to_hex salt"] to_hex_no_dollar by (simp add: hash_password_def)
  moreover have "length (scrypt pw salt KEY_LENGTH) = KEY_LENGTH" "KEY_LENGTH \<noteq> 0" using assms by (simp_all add: KEY_LENGTH_def)
  ultimately show ?thesis by (auto simp: verify_password_def from_to_hex)
qed

lemma failed_operation_keeps_file:
  "add_user scrypt salt written name pw t author memo demo st = (Inl e, st') \<Longrightarrow> us_file st' = us_file st"
  "set_password scrypt salt written name pw st = (Inl e, st') \<Longrightarrow> us_file st' = us_file st"
  "remove_user written name st = (Inl e, st') \<Longrightarrow> us_file st' = us_file st"
  by (auto simp: add_user_def set_password_def remove_user_def persisted_def persist_def Let_def split: if_splits option.splits)

lemma restart_verifies:
  assumes "\<And>password salt n. length (scrypt password salt n) = n"
    and "accounts_on_disk f = Some accounts \<and> accounts = us(name \<mapsto> u) \<and> pu_password_hash u = hash_password scrypt salt pw"
  shows "\<exists>restarted. open_store f = Inr restarted \<and> get_user restarted = accounts \<and> verify_user scrypt restarted name pw"
  using assms(2) key_length [OF assms(1), where pw = pw and salt = salt]
  by (cases "open_store f") (auto simp: accounts_on_disk_def verify_user_def)

text \<open>
  C22: Accounts survive a restart as the operator left them. Take any state of the store in which no write has failed and no
  other process has replaced the file since it was last read, reached through any additions, password changes, removals and
  reloads. The file opens and holds exactly the accounts in memory. An addition, password change or removal that reports
  success has left a file which opens again and differs from the file before in that account only; the new
  password verifies there, and a changed account is no longer a demo account. In every state, after failed writes
  too, an operation that reports an error has left the file as it was, and an addition or password change that reports
  success has written what memory then holds (after a failed write that includes the change reported as failed).
\<close>
theorem accounts_survive_restart:
  assumes "user_store saved st" "\<And>password salt n. length (scrypt password salt n) = n"
  shows "(saved \<longrightarrow> (\<exists>before. accounts_on_disk (us_file st) = Some before \<and> before = get_user st
       \<and> (\<forall>u st'. add_user scrypt salt written name pw t author memo demo st = (Inr u, st') \<longrightarrow>
            accounts_on_disk (us_file st') = Some (before(name \<mapsto> u)) \<and> before name = None)
       \<and> (\<forall>u st'. set_password scrypt salt written name pw st = (Inr u, st') \<longrightarrow>
            accounts_on_disk (us_file st') = Some (before(name \<mapsto> u)) \<and> before name \<noteq> None \<and> \<not> pu_is_demo u)
       \<and> (\<forall>st'. remove_user written name st = (Inr True, st') \<longrightarrow>
            accounts_on_disk (us_file st') = Some (before(name := None)) \<and> before name \<noteq> None)))
    \<and> (\<forall>u st'. add_user scrypt salt written name pw t author memo demo st = (Inr u, st')
         \<or> set_password scrypt salt written name pw st = (Inr u, st') \<longrightarrow>
         (\<exists>restarted. open_store (us_file st') = Inr restarted \<and> get_user restarted = get_user st'
            \<and> verify_user scrypt restarted name pw))
    \<and> (\<forall>e st'. add_user scrypt salt written name pw t author memo demo st = (Inl e, st')
        \<or> set_password scrypt salt written name pw st = (Inl e, st') \<or> remove_user written name st = (Inl e, st')
        \<longrightarrow> us_file st' = us_file st)"
proof -
  note inv = user_store_inv [OF assms(1)]
  note add = add_user_reopens [OF inv] and change = set_password_reopens [OF inv] and remove = remove_user_reopens [OF inv]
  have fresh: "add_user scrypt salt written name pw t author memo demo st = (Inr u, st') \<Longrightarrow> get_user st name = None" for u st'
    by (auto simp: add_user_def split: if_splits)
  have known: "set_password scrypt salt written name pw st = (Inr u, st') \<Longrightarrow> get_user st name \<noteq> None" for u st'
    by (auto simp: set_password_def split: option.splits)
  have there: "remove_user written name st = (Inr True, st') \<Longrightarrow> get_user st name \<noteq> None" for st'
    by (auto simp: remove_user_def split: if_splits)
  have disk: "saved \<Longrightarrow> accounts_on_disk (us_file st) = Some (get_user st)"
    using user_store_in_step [OF assms(1)] by (simp add: in_step_def)
  have added: "\<forall>u st'. add_user scrypt salt written name pw t author memo demo st = (Inr u, st') \<longrightarrow>
      accounts_on_disk (us_file st') = Some ((get_user st)(name \<mapsto> u)) \<and> get_user st name = None"
    using add fresh by blast
  have changed: "\<forall>u st'. set_password scrypt salt written name pw st = (Inr u, st') \<longrightarrow>
      accounts_on_disk (us_file st') = Some ((get_user st)(name \<mapsto> u)) \<and> get_user st name \<noteq> None \<and> \<not> pu_is_demo u"
    using change known by blast
  have removed: "\<forall>st'. remove_user written name st = (Inr True, st') \<longrightarrow>
      accounts_on_disk (us_file st') = Some ((get_user st)(name := None)) \<and> get_user st name \<noteq> None"
    using remove there by blast
  have reopened: "\<forall>u st'. add_user scrypt salt written name pw t author memo demo st = (Inr u, st')
      \<or> set_password scrypt salt written name pw st = (Inr u, st') \<longrightarrow>
      (\<exists>restarted. open_store (us_file st') = Inr restarted \<and> get_user restarted = get_user st' \<and> verify_user scrypt restarted name pw)"
  proof (intro allI impI)
    fix u st'
    assume "add_user scrypt salt written name pw t author memo demo st = (Inr u, st') \<or> set_password scrypt salt written name pw st = (Inr u, st')"
    then have "accounts_on_disk (us_file st') = Some (get_user st') \<and> get_user st' = (get_user st)(name \<mapsto> u)
        \<and> pu_password_hash u = hash_password scrypt salt pw"
      using add [of scrypt salt written name pw t author memo demo u st'] change [of scrypt salt written name pw u st'] by auto
    then show "\<exists>restarted. open_store (us_file st') = Inr restarted \<and> get_user restarted = get_user st' \<and> verify_user scrypt restarted name pw"
      by (rule restart_verifies [OF assms(2)])
  qed
  have kept: "\<forall>e st'. add_user scrypt salt written name pw t author memo demo st = (Inl e, st')
      \<or> set_password scrypt salt written name pw st = (Inl e, st') \<or> remove_user written name st = (Inl e, st')
      \<longrightarrow> us_file st' = us_file st"
    by (intro allI impI, elim disjE) (erule failed_operation_keeps_file)+
  show ?thesis by (intro conjI impI exI [of _ "get_user st"] refl disk added changed removed reopened kept)
qed

abbreviation example_scrypt :: kdf where
  "example_scrypt \<equiv> \<lambda>password salt n. replicate n (of_nat (length password))"

theorem accounts_survive_restart_witness:
  "let (r, st') = add_user example_scrypt [1] True ''ada'' ''secret'' 0 ''admin'' [] False \<lparr>us_users = [], us_file = UF_MISSING\<rparr> in
   \<exists>u restarted. r = Inr u \<and> accounts_on_disk (us_file st') = Some [''ada'' \<mapsto> u]
     \<and> open_store (us_file st') = Inr restarted \<and> verify_user example_scrypt restarted ''ada'' ''secret''"
proof -
  let ?st = "\<lparr>us_users = [], us_file = UF_MISSING\<rparr>"
  let ?r = "add_user example_scrypt [1] True ''ada'' ''secret'' 0 ''admin'' [] False ?st"
  have st: "user_store True ?st" by (rule user_store_open [of UF_MISSING]) (simp add: open_store_def reload_def)
  have "fst ?r = Inr \<lparr>pu_username = ''ada'', pu_password_hash = hash_password example_scrypt [1] ''secret'',
     pu_created_at = 0, pu_created_by = ''admin'', pu_note = [], pu_is_demo = False\<rparr>"
    by (simp add: add_user_def get_user_def Let_def portal_user_ok_def hash_nonempty username_char_def less_eq_char_def
        persisted_def persist_def)
  then obtain u st' where r: "?r = (Inr u, st')" by (metis prod.collapse)
  note all = accounts_survive_restart [OF st, of example_scrypt "[1]" True "''ada''" "''secret''" 0 "''admin''" "[]" False]
  have "accounts_on_disk (us_file st') = Some ((get_user ?st)(''ada'' \<mapsto> u))" using all r by force
  moreover obtain restarted where "open_store (us_file st') = Inr restarted" "verify_user example_scrypt restarted ''ada'' ''secret''"
    using all r by force
  moreover have "get_user ?st = Map.empty" by (simp add: get_user_def fun_eq_iff)
  ultimately show ?thesis using r by (auto simp: Let_def)
qed

subsection \<open>Demo accounts\<close>

lemma demo_usernames_empty: "demo_usernames st = [] \<longleftrightarrow> \<not> has_demo_accounts st"
proof -
  have "demo_usernames st = [] \<longleftrightarrow> set (demo_usernames st) = {}" by blast
  then show ?thesis by (auto simp: demo_usernames_def has_demo_accounts_def list_ex_iff simp del: set_empty)
qed

lemma has_demo_iff: "has_demo_accounts st \<longleftrightarrow> (\<exists>u \<in> set (list_users st). pu_is_demo u)"
  by (simp add: has_demo_accounts_def list_users_def list_ex_iff)

lemma doomed_names: "set (doomed_demos st) = {name. \<exists>u. (name, u) \<in> set (us_users st) \<and> (pu_is_demo u \<or> take 5 name = DEMO_USERNAME_PREFIX)}"
  by (auto simp: doomed_demos_def image_iff)

lemma set_deletes: "set (fold AList.delete names d) = {e \<in> set d. fst e \<notin> set names}"
  by (induction names arbitrary: d) (auto simp: AList.delete_eq)

lemma no_demos_left: "\<not> has_demo_accounts (st\<lparr>us_users := fold AList.delete (doomed_demos st) (us_users st)\<rparr>)"
  by (auto simp: has_demo_iff list_users_def set_deletes doomed_names)

text \<open>
  The published demo passwords never reach an enforcing network by accident. Unless the operator allows them in
  the configuration or the portal is off, the program starts in a mode other than SHADOW exactly when the account file
  opens and holds no demo account; and after \<open>remove_demo_accounts\<close> has succeeded on a store that was read from its
  file, that start is not refused.
\<close>
theorem enforcing_needs_no_demo_accounts:
  assumes "mode \<noteq> EM_SHADOW"
  shows "(refuse_demo_accounts_when_enforcing True False mode file = None \<longleftrightarrow>
      (\<exists>st. open_store file = Inr st \<and> \<not> has_demo_accounts st))
    \<and> (open_store file = Inr st \<and> remove_demo_accounts written st = (Inr names, st') \<longrightarrow>
      refuse_demo_accounts_when_enforcing True False mode (us_file st') = None)"
proof -
  have start: "refuse_demo_accounts_when_enforcing True False mode f = None \<longleftrightarrow>
      (\<exists>st. open_store f = Inr st \<and> \<not> has_demo_accounts st)" for f
    using assms by (auto simp: refuse_demo_accounts_when_enforcing_def demo_usernames_empty Let_def split: sum.splits)
  have "\<exists>st''. open_store (us_file st') = Inr st'' \<and> \<not> has_demo_accounts st''"
    if o: "open_store file = Inr st" and r: "remove_demo_accounts written st = (Inr names, st')"
  proof (cases "doomed_demos st = []")
    case True
    then have "us_users st = us_users st \<and> \<not> has_demo_accounts st" using no_demos_left [of st] by simp
    then show ?thesis using True r o open_store_inv [OF o] by (auto simp: remove_demo_accounts_def)
  next
    case False
    let ?st = "st\<lparr>us_users := fold AList.delete (doomed_demos st) (us_users st)\<rparr>"
    have p: "persisted written (doomed_demos st) ?st = (Inr names, st')"
      using False r by (simp add: remove_demo_accounts_def Let_def)
    have "store_inv ?st" using open_store_inv [OF o] by (auto simp: store_inv_def intro: users_ok_deletes)
    then obtain st'' where "open_store (us_file st') = Inr st''" "list_users st'' = list_users ?st"
      using persisted_reopens [OF p] by blast
    then show ?thesis using no_demos_left [of st] by (auto simp: has_demo_iff)
  qed
  then show ?thesis using start by blast
qed

definition example_demo :: portal_user where
  "example_demo = \<lparr>pu_username = ''demo-1'', pu_password_hash = ''0$0'', pu_created_at = 0, pu_created_by = ''seed'',
     pu_note = [], pu_is_demo = True\<rparr>"

theorem enforcing_needs_no_demo_accounts_witness:
  "refuse_demo_accounts_when_enforcing True False EM_ACTIVE (UF_ITEMS [Some example_demo]) \<noteq> None
   \<and> refuse_demo_accounts_when_enforcing True False EM_ACTIVE UF_MISSING = None"
proof -
  have "open_store (UF_ITEMS [Some example_demo]) = Inr \<lparr>us_users = [(''demo-1'', example_demo)], us_file = UF_ITEMS [Some example_demo]\<rparr>"
    by (simp add: open_store_def reload_def example_demo_def portal_user_ok_def username_char_def less_eq_char_def is_digit_def)
  moreover have "open_store UF_MISSING = Inr \<lparr>us_users = [], us_file = UF_MISSING\<rparr>" by (simp add: open_store_def reload_def)
  ultimately show ?thesis
    using enforcing_needs_no_demo_accounts [of EM_ACTIVE "UF_ITEMS [Some example_demo]", THEN conjunct1]
      enforcing_needs_no_demo_accounts [of EM_ACTIVE UF_MISSING, THEN conjunct1]
    by (simp add: has_demo_accounts_def example_demo_def)
qed

text \<open>A write that fails leaves the memory changed: the account that could not be saved is usable until the next
  restart, though the caller was told of an error.\<close>

lemma failed_write_still_adds:
  assumes "fst (add_user scrypt salt False name pw t author memo demo st) = Inl SE_WRITE_FAILED"
  shows "\<exists>u. get_user (snd (add_user scrypt salt False name pw t author memo demo st)) name = Some u
    \<and> pu_password_hash u = hash_password scrypt salt pw"
  using assms by (auto simp: add_user_def Let_def persisted_def persist_def get_user_def split: if_splits)

end
