(* ===== verification/Portal_Service.thy ===== *)
theory Portal_Service
  imports Portal_Sessions Portal_Store Manager
begin

section \<open>The portal service\<close>

text \<open>
  \<open>ipc/portal_service.py\<close>: logins, keepalives, logouts, the administrator's account and session operations and the
  reconciliation of kernel grants with sessions, over the session registry, the login throttle, the account store, the
  binding table and the firewall manager. One clock reading serves a whole operation. Events keep their severity and
  type; \<open>sv_login_failures\<close> is what the \<open>on_login_failure\<close> callback received. The texts shown to clients are
  left out, the reasons for refusing a login are constructors; \<open>LX_RAISED\<close> is an exception of another kind.
\<close>

record portal_config =
  po_session_timeout_seconds :: int
  po_max_sessions :: nat
  po_max_failed_logins_per_ip :: nat
  po_failed_login_window_seconds :: int
  po_max_failed_logins_per_account :: nat
  po_max_failed_logins_global :: nat

definition portal_config_ok :: "portal_config \<Rightarrow> bool" where
  "portal_config_ok c \<longleftrightarrow> 0 < po_session_timeout_seconds c \<and> 0 < po_max_sessions c \<and> 0 < po_max_failed_logins_per_ip c
     \<and> 0 < po_failed_login_window_seconds c \<and> 0 < po_max_failed_logins_per_account c \<and> 0 < po_max_failed_logins_global c"

record portal_service =
  sv_config :: portal_config
  sv_manager :: firewall_manager
  sv_store :: portal_user_store
  sv_bindings :: "lease_binding_table option"
  sv_sessions :: portal_sessions
  sv_throttle :: scoped_throttle
  sv_events :: "(event_severity \<times> security_event_type) list"
  sv_login_failures :: "(string \<times> ipv4_address \<times> mac_address option \<times> datetime) list"

definition new_portal_service :: "portal_config \<Rightarrow> firewall_manager \<Rightarrow> portal_user_store \<Rightarrow> lease_binding_table option \<Rightarrow> portal_service" where
  "new_portal_service c m st bindings = \<lparr>sv_config = c, sv_manager = m, sv_store = st, sv_bindings = bindings,
     sv_sessions = new_portal_sessions (po_session_timeout_seconds c) (po_max_sessions c),
     sv_throttle = new_login_throttle (po_max_failed_logins_per_ip c) (po_failed_login_window_seconds c) 4096
       (Some (po_max_failed_logins_per_account c)) (Some (po_max_failed_logins_global c)),
     sv_events = [], sv_login_failures = []\<rparr>"

definition emit :: "event_severity \<Rightarrow> security_event_type \<Rightarrow> portal_service \<Rightarrow> portal_service" where
  "emit sev ty sv = sv\<lparr>sv_events := sv_events sv @ [(sev, ty)]\<rparr>"

subsection \<open>Grants in the kernel\<close>

definition sv_deauthorize :: "ipv4_address \<Rightarrow> mac_address option \<Rightarrow> portal_service \<Rightarrow> portal_service" where
  "sv_deauthorize client_ip client_mac sv =
     (case deauthorize_portal_client client_ip client_mac (sv_manager sv) of
        (True, m) \<Rightarrow> sv\<lparr>sv_manager := m\<rparr>
      | (False, m) \<Rightarrow> emit ES_ERROR SET_FIREWALL_ERROR (sv\<lparr>sv_manager := m\<rparr>))"

definition revoke :: "ipv4_address \<Rightarrow> portal_service \<Rightarrow> portal_service" where
  "revoke client_ip sv =
     (case invalidate_ip client_ip (sv_sessions sv) of
        (None, r) \<Rightarrow> sv_deauthorize client_ip None (sv\<lparr>sv_sessions := r\<rparr>)
      | (Some s, r) \<Rightarrow> emit ES_WARNING SET_SYSTEM_WARNING
          (sv_deauthorize client_ip (ps_client_mac s) (sv\<lparr>sv_sessions := r\<rparr>)))"

definition bound_mac :: "portal_service \<Rightarrow> ipv4_address \<Rightarrow> mac_address option" where
  "bound_mac sv client_ip = Option.bind (sv_bindings sv) (\<lambda>t. resolve_mac t client_ip)"

definition same_device :: "portal_service \<Rightarrow> portal_session \<Rightarrow> ipv4_address \<Rightarrow> bool" where
  "same_device sv s client_ip \<longleftrightarrow> (case sv_bindings sv of
       None \<Rightarrow> True | Some t \<Rightarrow> ps_client_mac s = None \<or> resolve_mac t client_ip = ps_client_mac s)"

subsection \<open>Clients\<close>

datatype login_refusal = LX_THROTTLED int | LX_BLOCKED | LX_NO_BINDING | LX_CREDENTIALS | LX_NO_GRANT | LX_RAISED

definition failed_login :: "(string \<Rightarrow> string) \<Rightarrow> string \<Rightarrow> ipv4_address \<Rightarrow> mac_address option \<Rightarrow> datetime \<Rightarrow> portal_service
    \<Rightarrow> (login_refusal + portal_session) \<times> portal_service" where
  "failed_login casefold username client_ip client_mac now sv =
     (case login_record_failure casefold client_ip now (Some username) (sv_throttle sv) of
        None \<Rightarrow> (Inl LX_RAISED, sv)
      | Some (newly_locked, th) \<Rightarrow>
          (Inl LX_CREDENTIALS,
           fold (\<lambda>_. emit ES_WARNING SET_AUTHENTICATION_FAILURE) newly_locked
             (emit ES_WARNING SET_AUTHENTICATION_FAILURE
               (sv\<lparr>sv_throttle := th,
                   sv_login_failures := sv_login_failures sv @ [(username, client_ip, client_mac, now)]\<rparr>))))"

definition grant_login :: "(string \<Rightarrow> string) \<Rightarrow> string \<Rightarrow> string \<Rightarrow> string \<Rightarrow> ipv4_address \<Rightarrow> mac_address option \<Rightarrow> datetime
    \<Rightarrow> portal_service \<Rightarrow> (login_refusal + portal_session) \<times> portal_service" where
  "grant_login casefold uuid token username client_ip client_mac now sv =
     (case create_session uuid username client_ip token now client_mac (sv_sessions sv) of
        (None, r) \<Rightarrow> (Inl LX_RAISED, sv\<lparr>sv_sessions := r\<rparr>)
      | (Some s, r) \<Rightarrow>
          (case authorize_portal_client client_ip (po_session_timeout_seconds (sv_config sv)) client_mac (sv_manager sv) of
             (False, m) \<Rightarrow>
               (Inl LX_NO_GRANT, emit ES_ERROR SET_FIREWALL_ERROR
                 (sv\<lparr>sv_sessions := snd (invalidate token r), sv_manager := m\<rparr>))
           | (True, m) \<Rightarrow>
               (Inr s, emit ES_INFO SET_FIREWALL_ALLOW
                 (sv\<lparr>sv_sessions := r, sv_manager := m,
                     sv_throttle := login_clear casefold client_ip (Some username) (sv_throttle sv)\<rparr>))))"

definition login :: "kdf \<Rightarrow> (string \<Rightarrow> string) \<Rightarrow> string \<Rightarrow> string \<Rightarrow> string \<Rightarrow> string \<Rightarrow> ipv4_address \<Rightarrow> datetime \<Rightarrow> portal_service
    \<Rightarrow> (login_refusal + portal_session) \<times> portal_service" where
  "login scrypt casefold uuid token username password client_ip now sv =
     (case login_lockout casefold client_ip (Some username) now (sv_throttle sv) of
        (Some l, th) \<Rightarrow>
          (Inl (LX_THROTTLED (lo_retry_after_seconds l)), emit ES_WARNING SET_AUTHENTICATION_FAILURE (sv\<lparr>sv_throttle := th\<rparr>))
      | (None, th) \<Rightarrow>
          let sv1 = sv\<lparr>sv_throttle := th\<rparr> in
          if blocking_rules_matching client_ip (sv_manager sv1) \<noteq> [] then (Inl LX_BLOCKED, sv1)
          else let client_mac = bound_mac sv1 client_ip in
          if sv_bindings sv1 \<noteq> None \<and> client_mac = None
          then (Inl LX_NO_BINDING, emit ES_INFO SET_AUTHENTICATION_FAILURE sv1)
          else if \<not> verify_user scrypt (sv_store sv1) username password
          then failed_login casefold username client_ip client_mac now sv1
          else grant_login casefold uuid token username client_ip client_mac now sv1)"

datatype portal_client_status = CS_UNAUTHENTICATED | CS_AUTHENTICATED | CS_EXPIRED | CS_BLOCKED

record portal_client_state =
  cs_status :: portal_client_status
  cs_username :: "string option"
  cs_client_ip :: ipv4_address
  cs_seconds_remaining :: int
  cs_expires_at :: "datetime option"

definition client_state :: "portal_client_status \<Rightarrow> ipv4_address \<Rightarrow> portal_client_state" where
  "client_state status client_ip = \<lparr>cs_status = status, cs_username = None, cs_client_ip = client_ip,
     cs_seconds_remaining = 0, cs_expires_at = None\<rparr>"

definition keepalive :: "string option \<Rightarrow> ipv4_address \<Rightarrow> datetime \<Rightarrow> portal_service \<Rightarrow> portal_client_state \<times> portal_service" where
  "keepalive token client_ip now sv =
     (if blocking_rules_matching client_ip (sv_manager sv) \<noteq> [] then (client_state CS_BLOCKED client_ip, revoke client_ip sv)
      else case (if token = None \<or> token = Some [] then (None, sv_sessions sv)
                 else validate_session (the token) client_ip now (sv_sessions sv)) of
        (None, r) \<Rightarrow>
          (let sv1 = sv\<lparr>sv_sessions := r\<rparr>
           in if token = None \<or> token = Some [] then (client_state CS_UNAUTHENTICATED client_ip, sv1)
              else (client_state CS_EXPIRED client_ip, revoke client_ip sv1))
      | (Some s, r) \<Rightarrow>
          (let sv1 = sv\<lparr>sv_sessions := r\<rparr>
           in if \<not> same_device sv1 s client_ip then (client_state CS_EXPIRED client_ip, revoke client_ip sv1)
              else (\<lparr>cs_status = CS_AUTHENTICATED, cs_username = Some (ps_username s), cs_client_ip = client_ip,
                     cs_seconds_remaining = max 0 (whole_seconds (ps_expires_at s - now)),
                     cs_expires_at = Some (ps_expires_at s)\<rparr>, sv1)))"

definition logout :: "string \<Rightarrow> ipv4_address \<Rightarrow> datetime \<Rightarrow> portal_service \<Rightarrow> bool \<times> portal_service" where
  "logout token client_ip now sv = (case validate_session token client_ip now (sv_sessions sv) of
       (None, r) \<Rightarrow> (False, sv\<lparr>sv_sessions := r\<rparr>)
     | (Some s, r) \<Rightarrow>
         let sv1 = sv\<lparr>sv_sessions := r\<rparr> in
         if \<not> same_device sv1 s client_ip then (False, revoke client_ip sv1)
         else (True, emit ES_INFO SET_FIREWALL_ALLOW
                 (sv_deauthorize client_ip (ps_client_mac s) (sv1\<lparr>sv_sessions := snd (invalidate token r)\<rparr>))))"

subsection \<open>Administration\<close>

text \<open>A password that is missing or empty is generated; the generated one is returned.\<close>

definition chosen_password :: "string \<Rightarrow> string option \<Rightarrow> string \<times> string option" where
  "chosen_password generated password = (case password of
       None \<Rightarrow> (generated, Some generated) | Some p \<Rightarrow> if p = [] then (generated, Some generated) else (p, None))"

definition sv_add_user :: "kdf \<Rightarrow> bytes \<Rightarrow> bool \<Rightarrow> string \<Rightarrow> string \<Rightarrow> string option \<Rightarrow> string \<Rightarrow> string \<Rightarrow> datetime \<Rightarrow> portal_service
    \<Rightarrow> (store_error + portal_user \<times> string option) \<times> portal_service" where
  "sv_add_user scrypt salt written generated username password created_by note now sv =
     (let (pw, shown) = chosen_password generated password
      in case add_user scrypt salt written username pw now created_by note False (sv_store sv) of
           (Inl e, st) \<Rightarrow> (Inl e, sv\<lparr>sv_store := st\<rparr>)
         | (Inr u, st) \<Rightarrow>
             (Inr (u, shown), emit ES_INFO (if pu_is_demo u then SET_SYSTEM_WARNING else SET_FIREWALL_ALLOW) (sv\<lparr>sv_store := st\<rparr>)))"

definition end_session :: "string \<Rightarrow> portal_session \<Rightarrow> portal_service \<Rightarrow> portal_service" where
  "end_session username s sv =
     (if ps_username s \<noteq> username then sv
      else emit ES_INFO SET_SYSTEM_WARNING
        (sv_deauthorize (ps_client_ip s) (ps_client_mac s)
          (sv\<lparr>sv_sessions := snd (invalidate (ps_token s) (sv_sessions sv))\<rparr>)))"

definition end_sessions_for :: "string \<Rightarrow> datetime \<Rightarrow> portal_service \<Rightarrow> portal_service" where
  "end_sessions_for username now sv =
     (let (live, r) = list_sessions now (sv_sessions sv) in fold (end_session username) live (sv\<lparr>sv_sessions := r\<rparr>))"

definition sv_set_password :: "kdf \<Rightarrow> bytes \<Rightarrow> bool \<Rightarrow> string \<Rightarrow> string \<Rightarrow> string option \<Rightarrow> datetime \<Rightarrow> portal_service
    \<Rightarrow> (store_error + portal_user \<times> string option) \<times> portal_service" where
  "sv_set_password scrypt salt written generated username password now sv =
     (let (pw, shown) = chosen_password generated password
      in case set_password scrypt salt written username pw (sv_store sv) of
           (Inl e, st) \<Rightarrow> (Inl e, sv\<lparr>sv_store := st\<rparr>)
         | (Inr u, st) \<Rightarrow> (Inr (u, shown), end_sessions_for username now (sv\<lparr>sv_store := st\<rparr>)))"

definition sv_remove_user :: "bool \<Rightarrow> string \<Rightarrow> datetime \<Rightarrow> portal_service \<Rightarrow> (store_error + bool) \<times> portal_service" where
  "sv_remove_user written username now sv =
     (case remove_user written username (sv_store sv) of
        (Inl e, st) \<Rightarrow> (Inl e, sv\<lparr>sv_store := st\<rparr>)
      | (Inr False, st) \<Rightarrow> (Inr False, sv\<lparr>sv_store := st\<rparr>)
      | (Inr True, st) \<Rightarrow> (Inr True, emit ES_INFO SET_SYSTEM_WARNING (end_sessions_for username now (sv\<lparr>sv_store := st\<rparr>))))"

definition sv_list_sessions :: "datetime \<Rightarrow> portal_service \<Rightarrow> portal_session list \<times> portal_service" where
  "sv_list_sessions now sv = (case list_sessions now (sv_sessions sv) of (ss, r) \<Rightarrow> (ss, sv\<lparr>sv_sessions := r\<rparr>))"

definition force_logout :: "ipv4_address \<Rightarrow> portal_service \<Rightarrow> bool \<times> portal_service" where
  "force_logout client_ip sv = (case invalidate_ip client_ip (sv_sessions sv) of
       (s, r) \<Rightarrow>
         let sv1 = sv_deauthorize client_ip None (sv\<lparr>sv_sessions := r\<rparr>)
         in (s \<noteq> None, if s = None then sv1 else emit ES_WARNING SET_SYSTEM_WARNING sv1))"

definition warn_about_demo_accounts :: "portal_service \<Rightarrow> portal_service" where
  "warn_about_demo_accounts sv =
     (if has_demo_accounts (sv_store sv) then emit ES_WARNING SET_SYSTEM_WARNING sv else sv)"

subsection \<open>Reconciliation\<close>

text \<open>\<open>authorized_portal_grants\<close> of the manager.\<close>

definition authorized_portal_grants :: "firewall_manager \<Rightarrow> (ipv4_address \<times> mac_address option) list \<times> firewall_manager" where
  "authorized_portal_grants m = (case fb_list_portal_grants (fm_backend m) of (gs, b) \<Rightarrow> (gs, m\<lparr>fm_backend := b\<rparr>))"

definition grant_has_session :: "datetime \<Rightarrow> ipv4_address \<times> mac_address option \<Rightarrow> portal_sessions \<Rightarrow> bool \<times> portal_sessions" where
  "grant_has_session now g r = (case session_by_ip (fst g) now r of
       (None, r') \<Rightarrow> (False, r') | (Some s, r') \<Rightarrow> (ps_client_mac s = snd g, r'))"

fun find_orphans :: "datetime \<Rightarrow> (ipv4_address \<times> mac_address option) list \<Rightarrow> portal_sessions
    \<Rightarrow> (ipv4_address \<times> mac_address option) list \<times> portal_sessions" where
  "find_orphans now [] r = ([], r)"
| "find_orphans now (g # gs) r =
     (let (ok, r1) = grant_has_session now g r;
          (orphans, r2) = find_orphans now gs r1
      in (if ok then orphans else g # orphans, r2))"

text \<open>\<open>sorted(orphans, key=lambda grant: (grant[0], grant[1] or ""))\<close>: the order of one address's grants among
  themselves follows the MAC.\<close>

definition orphan_order :: "(ipv4_address \<times> mac_address option) list \<Rightarrow> (ipv4_address \<times> mac_address option) list" where
  "orphan_order gs = sort_key fst (sort_key (\<lambda>g. case snd g of None \<Rightarrow> [] | Some m \<Rightarrow> m) gs)"

definition drop_orphan :: "ipv4_address \<times> mac_address option \<Rightarrow> portal_service \<Rightarrow> portal_service" where
  "drop_orphan g sv = emit ES_WARNING SET_SYSTEM_WARNING (sv_deauthorize (fst g) (snd g) sv)"

definition sv_reconcile :: "datetime \<Rightarrow> portal_service \<Rightarrow> nat \<times> portal_service" where
  "sv_reconcile now sv =
     (let (gs, m) = authorized_portal_grants (sv_manager sv);
          (orphans, r) = find_orphans now gs (sv_sessions sv)
      in (length orphans, fold drop_orphan (orphan_order orphans) (sv\<lparr>sv_manager := m, sv_sessions := r\<rparr>)))"

definition sweep :: "datetime \<Rightarrow> portal_service \<Rightarrow> nat \<times> portal_service" where
  "sweep now sv =
     (let (expired, r) = purge_expired now (sv_sessions sv);
          sv1 = fold (\<lambda>s. sv_deauthorize (ps_client_ip s) (ps_client_mac s)) expired (sv\<lparr>sv_sessions := r\<rparr>);
          (n, sv2) = sv_reconcile now sv1
      in (length expired + n, sv2))"

subsection \<open>What the kernel grants\<close>

text \<open>The MAC an address is granted with, if it is granted at the backend's time.\<close>

definition live_client :: "firewall_backend \<Rightarrow> ipv4_address \<Rightarrow> bool" where
  "live_client b ip \<longleftrightarrow> (\<exists>e. map_of (fb_portal_clients b) ip = Some e
     \<and> (\<forall>now t. fb_now b = Some now \<longrightarrow> e = Some t \<longrightarrow> now < t))"

definition mac_entry :: "firewall_backend \<Rightarrow> ipv4_address \<Rightarrow> mac_address option" where
  "mac_entry b ip = (case map_of (fb_portal_macs b) ip of None \<Rightarrow> None | Some m \<Rightarrow> m)"

definition granted :: "firewall_backend \<Rightarrow> ipv4_address \<Rightarrow> mac_address option option" where
  "granted b ip = (if live_client b ip then Some (mac_entry b ip) else None)"

definition backend_ok :: "firewall_backend \<Rightarrow> bool" where
  "backend_ok b \<longleftrightarrow> od_distinct (fb_portal_clients b) \<and> od_distinct (fb_portal_macs b)"

lemma deauthorize_view:
  assumes "\<not> fb_fail_on_portal b" "mac_entry b ip = mac"
  shows "live_client (snd (fb_deauthorize ip mac b)) x \<longleftrightarrow> live_client b x \<and> x \<noteq> ip"
    "x \<noteq> ip \<Longrightarrow> mac_entry (snd (fb_deauthorize ip mac b)) x = mac_entry b x"
  using assms by (simp_all add: fb_deauthorize_def live_client_def mac_entry_def Let_def del: map_of_eq_Some_iff)

lemma deauthorize_other:
  assumes "\<not> fb_fail_on_portal b" "mac_entry b ip \<noteq> mac"
  shows "live_client (snd (fb_deauthorize ip mac b)) = live_client b" "mac_entry (snd (fb_deauthorize ip mac b)) = mac_entry b"
  using assms by (auto simp: fb_deauthorize_def live_client_def mac_entry_def Let_def fun_eq_iff simp del: map_of_eq_Some_iff)

lemma deauthorize_granted:
  assumes "\<not> fb_fail_on_portal b"
  shows "granted (snd (fb_deauthorize ip mac b)) = (if granted b ip = Some mac then (granted b)(ip := None) else granted b)"
proof (cases "mac_entry b ip = mac")
  case True
  then show ?thesis using deauthorize_view [OF assms True] by (auto simp: granted_def fun_eq_iff)
next
  case False
  then show ?thesis using deauthorize_other [OF assms False] by (auto simp: granted_def fun_eq_iff)
qed

lemma authorize_granted:
  assumes "\<not> fb_fail_on_portal b" "0 < timeout"
  shows "granted (snd (fb_authorize ip timeout mac b)) = (granted b)(ip \<mapsto> mac)"
proof -
  have "live_client (snd (fb_authorize ip timeout mac b)) x \<longleftrightarrow> x = ip \<or> live_client b x"
    "mac_entry (snd (fb_authorize ip timeout mac b)) x = (if x = ip then mac else mac_entry b x)" for x
    using assms by (auto simp: fb_authorize_def live_client_def mac_entry_def Let_def seconds_def simp del: map_of_eq_Some_iff)
  then show ?thesis by (auto simp: granted_def fun_eq_iff)
qed

lemma map_of_filter_key: "map_of (filter (\<lambda>(k, v). P k) d) x = (if P x then map_of d x else None)"
  by (induction d) auto

lemma live_client_iff:
  "backend_ok b \<Longrightarrow> live_client b ip \<longleftrightarrow> (\<exists>e. (ip, e) \<in> set (fb_portal_clients b) \<and> (\<forall>now t. fb_now b = Some now \<longrightarrow> e = Some t \<longrightarrow> now < t))"
  by (simp add: live_client_def backend_ok_def)

lemma live_client_at:
  assumes "backend_ok b" "fb_now b = Some now"
  shows "live_client b ip \<longleftrightarrow> (\<exists>e. (ip, e) \<in> set (fb_portal_clients b) \<and> (case e of None \<Rightarrow> True | Some t \<Rightarrow> t > now))"
proof -
  have "(\<forall>now' t. fb_now b = Some now' \<longrightarrow> e = Some t \<longrightarrow> now' < t) \<longleftrightarrow> (case e of None \<Rightarrow> True | Some t \<Rightarrow> t > now)" for e
    using assms(2) by (cases e) simp_all
  then show ?thesis unfolding live_client_iff [OF assms(1)] by simp
qed

lemma list_clients_view:
  assumes "backend_ok b"
  shows "set (fst (fb_list_portal_clients b)) = Collect (live_client b)
    \<and> live_client (snd (fb_list_portal_clients b)) = live_client b
    \<and> (\<forall>x. live_client b x \<longrightarrow> mac_entry (snd (fb_list_portal_clients b)) x = mac_entry b x)
    \<and> backend_ok (snd (fb_list_portal_clients b))
    \<and> fb_fail_on_portal (snd (fb_list_portal_clients b)) = fb_fail_on_portal b"
proof (cases "fb_now b")
  case None
  then show ?thesis using assms by (force simp: fb_list_portal_clients_def live_client_iff)
next
  case (Some now)
  define cs where "cs = filter (\<lambda>(ip, e). case e of None \<Rightarrow> True | Some t \<Rightarrow> t > now) (fb_portal_clients b)"
  define b' where "b' = b\<lparr>fb_portal_clients := cs, fb_portal_macs := filter (\<lambda>(ip, m). ip \<in> set (map fst cs)) (fb_portal_macs b)\<rparr>"
  have l: "fb_list_portal_clients b = (map fst cs, b')"
    using Some by (simp add: fb_list_portal_clients_def Let_def cs_def b'_def)
  have ok: "backend_ok b'" using assms by (simp add: backend_ok_def b'_def cs_def distinct_map_filter)
  have now: "fb_now b' = Some now" using Some by (simp add: b'_def)
  have live: "live_client b ip \<longleftrightarrow> ip \<in> fst ` set cs" for ip
    unfolding live_client_at [OF assms Some] cs_def by (force simp: image_iff)
  moreover have "live_client b' ip \<longleftrightarrow> ip \<in> fst ` set cs" for ip
    unfolding live_client_at [OF ok now] by (simp add: b'_def) (force simp: cs_def image_iff)
  ultimately show ?thesis using ok by (auto simp: l mac_entry_def map_of_filter_key b'_def)
qed

lemma list_grants_view:
  assumes "backend_ok b"
  shows "(ip, mac) \<in> set (fst (fb_list_portal_grants b)) \<longleftrightarrow> granted b ip = Some mac"
    and "granted (snd (fb_list_portal_grants b)) = granted b"
    and "backend_ok (snd (fb_list_portal_grants b))"
    and "fb_fail_on_portal (snd (fb_list_portal_grants b)) = fb_fail_on_portal b"
  using list_clients_view [OF assms]
  by (auto simp: fb_list_portal_grants_def Let_def granted_def fun_eq_iff image_iff split_beta simp flip: mac_entry_def)

lemma backend_ok_portal: "backend_ok b \<Longrightarrow> backend_ok (snd (fb_deauthorize ip mac b))"
    "backend_ok b \<Longrightarrow> backend_ok (snd (fb_authorize ip timeout mac b))"
    "fb_fail_on_portal (snd (fb_deauthorize ip mac b)) = fb_fail_on_portal b"
    "fb_fail_on_portal (snd (fb_authorize ip timeout mac b)) = fb_fail_on_portal b"
    "fst (fb_deauthorize ip mac b) \<longleftrightarrow> \<not> fb_fail_on_portal b"
    "fst (fb_authorize ip timeout mac b) \<longleftrightarrow> \<not> fb_fail_on_portal b"
  by (auto simp: fb_deauthorize_def fb_authorize_def backend_ok_def Let_def)

lemma deauthorize_all_view:
  assumes "backend_ok b" "\<not> fb_fail_on_portal b"
  shows "granted (snd (deauthorize_all ip macs b)) = (if granted b ip \<in> Some ` set macs then (granted b)(ip := None) else granted b)
    \<and> backend_ok (snd (deauthorize_all ip macs b)) \<and> \<not> fb_fail_on_portal (snd (deauthorize_all ip macs b)) \<and> fst (deauthorize_all ip macs b)"
  using assms
proof (induction macs arbitrary: b)
  case (Cons mac macs)
  obtain b' where b': "fb_deauthorize ip mac b = (True, b')" using backend_ok_portal(5) [where ip = ip and mac = mac and b = b] Cons.prems
    by (metis prod.collapse)
  then have "backend_ok b'" "\<not> fb_fail_on_portal b'"
      "granted b' = (if granted b ip = Some mac then (granted b)(ip := None) else granted b)"
    using backend_ok_portal(1,3) [where ip = ip and mac = mac and b = b] deauthorize_granted [where ip = ip and mac = mac and b = b] Cons.prems by simp_all
  then show ?case using Cons.IH [of b'] b' by auto
qed simp

subsection \<open>The service's view\<close>

abbreviation sv_backend :: "portal_service \<Rightarrow> firewall_backend" where
  "sv_backend sv \<equiv> fm_backend (sv_manager sv)"

definition sv_granted :: "portal_service \<Rightarrow> ipv4_address \<Rightarrow> mac_address option option" where
  "sv_granted sv = granted (sv_backend sv)"

definition working :: "portal_service \<Rightarrow> bool" where
  "working sv \<longleftrightarrow> backend_ok (sv_backend sv) \<and> \<not> fb_fail_on_portal (sv_backend sv)"

lemma emit_fields [simp]:
  "sv_config (emit a c sv) = sv_config sv" "sv_manager (emit a c sv) = sv_manager sv" "sv_store (emit a c sv) = sv_store sv"
  "sv_bindings (emit a c sv) = sv_bindings sv" "sv_sessions (emit a c sv) = sv_sessions sv"
  "sv_throttle (emit a c sv) = sv_throttle sv" "sv_login_failures (emit a c sv) = sv_login_failures sv"
  "sv_granted (emit a c sv) = sv_granted sv" "working (emit a c sv) = working sv"
  by (simp_all add: emit_def sv_granted_def working_def)

lemma sv_deauthorize_fields [simp]:
  "sv_config (sv_deauthorize ip mac sv) = sv_config sv" "sv_store (sv_deauthorize ip mac sv) = sv_store sv"
  "sv_bindings (sv_deauthorize ip mac sv) = sv_bindings sv" "sv_sessions (sv_deauthorize ip mac sv) = sv_sessions sv"
  "sv_throttle (sv_deauthorize ip mac sv) = sv_throttle sv"
  by (auto simp: sv_deauthorize_def split: prod.splits bool.splits)

lemma sv_manager_deauthorize: "sv_manager (sv_deauthorize ip mac sv) = snd (deauthorize_portal_client ip mac (sv_manager sv))"
  by (auto simp: sv_deauthorize_def split: prod.splits bool.splits)

lemma sv_fields_update [simp]:
  "sv_granted (sv\<lparr>sv_sessions := r\<rparr>) = sv_granted sv" "working (sv\<lparr>sv_sessions := r\<rparr>) = working sv"
  "sv_granted (sv\<lparr>sv_throttle := th\<rparr>) = sv_granted sv" "working (sv\<lparr>sv_throttle := th\<rparr>) = working sv"
  "sv_granted (sv\<lparr>sv_store := st\<rparr>) = sv_granted sv" "working (sv\<lparr>sv_store := st\<rparr>) = working sv"
  "sv_granted (sv\<lparr>sv_login_failures := l\<rparr>) = sv_granted sv" "working (sv\<lparr>sv_login_failures := l\<rparr>) = working sv"
  by (simp_all add: sv_granted_def working_def)

text \<open>Deauthorising a pair removes exactly that pair; deauthorising an address removes whatever it holds.\<close>

lemma deauthorize_pair:
  assumes "working sv"
  shows "sv_granted (sv_deauthorize ip (Some m) sv) =
      (if sv_granted sv ip = Some (Some m) then (sv_granted sv)(ip := None) else sv_granted sv)"
    and "working (sv_deauthorize ip (Some m) sv)"
proof -
  have "sv_backend (sv_deauthorize ip (Some m) sv) = snd (fb_deauthorize ip (Some m) (sv_backend sv))"
    by (simp add: sv_manager_deauthorize deauthorize_portal_client_def split: prod.splits)
  then show "working (sv_deauthorize ip (Some m) sv)" "sv_granted (sv_deauthorize ip (Some m) sv) =
      (if sv_granted sv ip = Some (Some m) then (sv_granted sv)(ip := None) else sv_granted sv)"
    using assms deauthorize_granted backend_ok_portal by (simp_all add: working_def sv_granted_def)
qed

lemma deauthorize_address:
  assumes "working sv"
  shows "sv_granted (sv_deauthorize ip None sv) = (sv_granted sv)(ip := None)" "working (sv_deauthorize ip None sv)"
proof -
  let ?b = "sv_backend sv"
  let ?gs = "fst (fb_list_portal_grants ?b)"
  let ?macs = "map snd (filter (\<lambda>g. fst g = ip) ?gs)"
  let ?b1 = "snd (fb_list_portal_grants ?b)"
  have ok: "backend_ok ?b" "\<not> fb_fail_on_portal ?b" using assms by (simp_all add: working_def)
  note b1 = list_grants_view [OF ok(1)]
  define M where "M = (if ?macs = [] then [None] else ?macs)"
  let ?r = "deauthorize_all ip M ?b1"
  have eq: "sv_backend (sv_deauthorize ip None sv) = snd ?r"
    by (simp add: sv_manager_deauthorize deauthorize_portal_client_def Let_def M_def split: prod.splits)
  have v: "granted (snd ?r) = (if granted ?b ip \<in> Some ` set M then (granted ?b)(ip := None) else granted ?b)"
      "backend_ok (snd ?r)" "\<not> fb_fail_on_portal (snd ?r)"
    using deauthorize_all_view [of ?b1 ip M] b1 ok by simp_all
  show "working (sv_deauthorize ip None sv)" unfolding working_def eq using v(2,3) by simp
  have "mac \<in> set M" if "granted ?b ip = Some mac" for mac
  proof -
    have "mac \<in> set ?macs" using that b1(1) [of ip mac] by force
    moreover from this have "?macs \<noteq> []" by force
    ultimately show ?thesis by (simp add: M_def)
  qed
  then have "granted ?b ip = None \<or> granted ?b ip \<in> Some ` set M"
    by (cases "granted ?b ip") simp_all
  then show "sv_granted (sv_deauthorize ip None sv) = (sv_granted sv)(ip := None)"
    unfolding sv_granted_def eq v(1) by auto
qed

lemma deauthorize_effect:
  assumes "working sv"
  shows "working (sv_deauthorize ip mac sv)"
    and "x \<noteq> ip \<Longrightarrow> sv_granted (sv_deauthorize ip mac sv) x = sv_granted sv x"
    and "sv_granted (sv_deauthorize ip mac sv) ip \<in> {None, sv_granted sv ip}"
    and "sv_granted sv ip = Some mac \<Longrightarrow> sv_granted (sv_deauthorize ip mac sv) ip = None"
  using deauthorize_pair [OF assms] deauthorize_address [OF assms] by (cases mac; simp)+

definition drop_grant :: "portal_session \<Rightarrow> portal_service \<Rightarrow> portal_service" where
  "drop_grant s = sv_deauthorize (ps_client_ip s) (ps_client_mac s)"

lemma drop_grants_effect:
  assumes "working sv"
  shows "working (fold drop_grant ss sv) \<and> sv_sessions (fold drop_grant ss sv) = sv_sessions sv
    \<and> sv_store (fold drop_grant ss sv) = sv_store sv
    \<and> (\<forall>x. sv_granted (fold drop_grant ss sv) x \<in> {None, sv_granted sv x})
    \<and> (\<forall>x. x \<notin> ps_client_ip ` set ss \<longrightarrow> sv_granted (fold drop_grant ss sv) x = sv_granted sv x)
    \<and> (\<forall>s \<in> set ss. sv_granted (fold drop_grant ss sv) (ps_client_ip s) \<noteq> Some (ps_client_mac s))"
  using assms
proof (induction ss arbitrary: sv)
  case (Cons s ss)
  let ?sv = "drop_grant s sv"
  have w: "working ?sv" using Cons.prems by (simp add: drop_grant_def deauthorize_effect)
  have g: "sv_granted ?sv x \<in> {None, sv_granted sv x}" "x \<noteq> ps_client_ip s \<longrightarrow> sv_granted ?sv x = sv_granted sv x"
      "sv_granted ?sv (ps_client_ip s) \<noteq> Some (ps_client_mac s)" for x
    using deauthorize_effect(2-4) [OF Cons.prems, where ip = "ps_client_ip s" and mac = "ps_client_mac s"]
    by (cases "x = ps_client_ip s"; force simp: drop_grant_def)+
  have fields: "sv_sessions ?sv = sv_sessions sv" "sv_store ?sv = sv_store sv" by (simp_all add: drop_grant_def)
  have "sv_granted (fold drop_grant ss ?sv) x \<in> {None, sv_granted sv x}" for x
    using Cons.IH [OF w] g(1) [of x] by (metis insert_iff singletonD)
  moreover have "sv_granted (fold drop_grant ss ?sv) (ps_client_ip s) \<noteq> Some (ps_client_mac s)"
    using Cons.IH [OF w] g(3) by (metis empty_iff insert_iff option.distinct(1))
  ultimately show ?case using Cons.IH [OF w] g(2) fields by simp
qed simp

lemma drop_orphans_effect:
  assumes "working sv" "\<forall>g \<in> set gs. sv_granted sv (fst g) \<in> {None, Some (snd g)}"
  shows "working (fold drop_orphan gs sv) \<and> sv_sessions (fold drop_orphan gs sv) = sv_sessions sv
    \<and> sv_store (fold drop_orphan gs sv) = sv_store sv
    \<and> (\<forall>x. sv_granted (fold drop_orphan gs sv) x = (if x \<in> fst ` set gs then None else sv_granted sv x))"
  using assms
proof (induction gs arbitrary: sv)
  case (Cons g gs)
  let ?sv = "drop_orphan g sv"
  have w: "working ?sv" using Cons.prems(1) by (simp add: drop_orphan_def deauthorize_effect)
  have g: "sv_granted ?sv x = (if x = fst g then None else sv_granted sv x)" for x
    using deauthorize_effect(2-4) [OF Cons.prems(1), where ip = "fst g" and mac = "snd g"] Cons.prems(2)
    by (auto simp: drop_orphan_def)
  have "\<forall>h \<in> set gs. sv_granted ?sv (fst h) \<in> {None, Some (snd h)}" using Cons.prems(2) by (simp add: g)
  then show ?case using Cons.IH [OF w] by (auto simp: g) (simp_all add: drop_orphan_def)
qed simp

lemma find_orphans_exact:
  assumes "reg_inv r" "\<forall>s \<in> sessions_of r. now < ps_expires_at s"
  shows "fst (find_orphans now gs r) = filter (\<lambda>g. \<forall>s \<in> sessions_of r. (ps_client_ip s, ps_client_mac s) \<noteq> g) gs
    \<and> reg_inv (snd (find_orphans now gs r)) \<and> sessions_of (snd (find_orphans now gs r)) = sessions_of r
    \<and> pr_max_sessions (snd (find_orphans now gs r)) = pr_max_sessions r"
  using assms
proof (induction gs arbitrary: r)
  case (Cons g gs)
  obtain ok r1 where g: "grant_has_session now g r = (ok, r1)" by fastforce
  note by_ip = session_by_ip_facts [OF Cons.prems(1), where ip = "fst g" and now = now]
  have r1: "r1 = snd (session_by_ip (fst g) now r)" using g by (auto simp: grant_has_session_def split: prod.splits option.splits)
  have "sessions_of r1 = sessions_of r" using by_ip(3,4) Cons.prems(2) unfolding r1 by blast
  moreover have "ok \<longleftrightarrow> (\<exists>s \<in> sessions_of r. (ps_client_ip s, ps_client_mac s) = g)"
  proof (cases "fst (session_by_ip (fst g) now r)")
    case None
    then have "\<not> ok" using g by (auto simp: grant_has_session_def split: prod.splits option.splits)
    moreover have "\<forall>s \<in> sessions_of r. ps_client_ip s \<noteq> fst g" using None by_ip(2) Cons.prems(2) by (metis option.distinct(1))
    ultimately show ?thesis by auto
  next
    case (Some s)
    then have "ok \<longleftrightarrow> ps_client_mac s = snd g" using g by (auto simp: grant_has_session_def split: prod.splits option.splits)
    moreover have s: "s \<in> sessions_of r" "ps_client_ip s = fst g" using Some by_ip(2) by blast+
    moreover have "s' = s" if "s' \<in> sessions_of r" "ps_client_ip s' = fst g" for s'
      using one_session_per_address [OF Cons.prems(1)] that s by metis
    ultimately show ?thesis by (metis fst_conv prod.collapse snd_conv)
  qed
  ultimately show ?case using Cons.IH [of r1] Cons.prems by_ip(1,5) g r1 by (auto simp: Let_def split_beta)
qed simp

subsection \<open>Every operation keeps the service well formed\<close>

definition portal_inv :: "portal_service \<Rightarrow> bool" where
  "portal_inv sv \<longleftrightarrow> reg_inv (sv_sessions sv) \<and> store_inv (sv_store sv) \<and> backend_ok (sv_backend sv)
     \<and> 0 < po_session_timeout_seconds (sv_config sv)
     \<and> pr_token_expiry_seconds (sv_sessions sv) = po_session_timeout_seconds (sv_config sv)"

lemma portal_inv_update [simp]:
  "portal_inv (emit a c sv) = portal_inv sv" "portal_inv (sv\<lparr>sv_throttle := th\<rparr>) = portal_inv sv"
  "portal_inv (sv\<lparr>sv_login_failures := l\<rparr>) = portal_inv sv"
  by (simp_all add: portal_inv_def)

lemma portal_inv_store: "portal_inv sv \<Longrightarrow> store_inv st \<Longrightarrow> portal_inv (sv\<lparr>sv_store := st\<rparr>)"
  by (simp add: portal_inv_def)

lemma portal_inv_registry:
  "portal_inv sv \<Longrightarrow> reg_inv r \<Longrightarrow> pr_token_expiry_seconds r = pr_token_expiry_seconds (sv_sessions sv) \<Longrightarrow> portal_inv (sv\<lparr>sv_sessions := r\<rparr>)"
  by (simp add: portal_inv_def)

text \<open>What the registry operations leave is a registry again.\<close>

lemmas registry_kept = reg_inv_invalidate reg_inv_invalidate_ip purge_facts(1) validate_facts(1) session_by_ip_facts(1)

lemma portal_inv_invalidate: "portal_inv sv \<Longrightarrow> portal_inv (sv\<lparr>sv_sessions := snd (invalidate t (sv_sessions sv))\<rparr>)"
    "portal_inv sv \<Longrightarrow> portal_inv (sv\<lparr>sv_sessions := snd (invalidate_ip ip (sv_sessions sv))\<rparr>)"
    "portal_inv sv \<Longrightarrow> portal_inv (sv\<lparr>sv_sessions := snd (validate_session t ip now (sv_sessions sv))\<rparr>)"
    "portal_inv sv \<Longrightarrow> portal_inv (sv\<lparr>sv_sessions := snd (list_sessions now (sv_sessions sv))\<rparr>)"
    "portal_inv sv \<Longrightarrow> portal_inv (sv\<lparr>sv_sessions := snd (purge_expired now (sv_sessions sv))\<rparr>)"
  by (simp_all add: portal_inv_def registry_kept list_sessions_def Let_def)

lemma backend_ok_deauthorize_all: "backend_ok b \<Longrightarrow> backend_ok (snd (deauthorize_all ip macs b))"
proof (induction macs arbitrary: b)
  case (Cons mac macs)
  then show ?case using backend_ok_portal(1) [of b ip mac]
    by (cases "fb_deauthorize ip mac b") (auto split: bool.splits)
qed simp

lemma portal_inv_deauthorize: "portal_inv sv \<Longrightarrow> portal_inv (sv_deauthorize ip mac sv)"
proof -
  assume inv: "portal_inv sv"
  then have ok: "backend_ok (sv_backend sv)" by (simp add: portal_inv_def)
  have "backend_ok (sv_backend (sv_deauthorize ip mac sv))"
    using ok backend_ok_portal(1) [OF ok] backend_ok_deauthorize_all list_grants_view(3) [OF ok]
    by (cases mac) (simp_all add: sv_manager_deauthorize deauthorize_portal_client_def Let_def split_beta)
  then show ?thesis using inv by (simp add: portal_inv_def)
qed

lemma portal_inv_revoke: "portal_inv sv \<Longrightarrow> portal_inv (revoke ip sv)"
  using portal_inv_invalidate(2) [of sv ip] by (auto simp: revoke_def intro!: portal_inv_deauthorize split: prod.splits option.splits)

lemma portal_inv_keepalive: "portal_inv sv \<Longrightarrow> portal_inv (snd (keepalive token ip now sv))"
  using portal_inv_invalidate(3) [of sv "the token" ip now] portal_inv_revoke
  by (auto simp: keepalive_def Let_def split: prod.splits option.splits)

lemma portal_inv_logout: "portal_inv sv \<Longrightarrow> portal_inv (snd (logout token ip now sv))"
  using portal_inv_invalidate(3) [of sv token ip now] portal_inv_invalidate(1) portal_inv_revoke portal_inv_deauthorize
  by (force simp: logout_def Let_def split: prod.splits option.splits)

lemma portal_inv_end_session: "portal_inv sv \<Longrightarrow> portal_inv (end_session username s sv)"
  by (simp add: end_session_def portal_inv_deauthorize portal_inv_invalidate)

lemma portal_inv_end_sessions: "portal_inv sv \<Longrightarrow> portal_inv (end_sessions_for username now sv)"
proof -
  have "portal_inv sv \<Longrightarrow> portal_inv (fold (end_session username) ss sv)" for ss sv
    by (induction ss arbitrary: sv) (auto intro: portal_inv_end_session)
  then show "portal_inv sv \<Longrightarrow> ?thesis" using portal_inv_invalidate(4) [of sv now] by (simp add: end_sessions_for_def split_beta)
qed

lemma portal_inv_drop: "portal_inv sv \<Longrightarrow> portal_inv (fold drop_grant ss sv)" "portal_inv sv \<Longrightarrow> portal_inv (fold drop_orphan gs sv)"
  by (induction ss arbitrary: sv, simp_all add: drop_grant_def portal_inv_deauthorize)
    (induction gs arbitrary: sv, simp_all add: drop_orphan_def portal_inv_deauthorize)

lemma find_orphans_kept: "reg_inv r \<Longrightarrow> reg_inv (snd (find_orphans now gs r))
    \<and> pr_token_expiry_seconds (snd (find_orphans now gs r)) = pr_token_expiry_seconds r"
proof (induction gs arbitrary: r)
  case (Cons g gs)
  have "snd (grant_has_session now g r) = snd (session_by_ip (fst g) now r)"
    by (simp add: grant_has_session_def split: prod.splits option.splits)
  then show ?case using Cons.IH [of "snd (session_by_ip (fst g) now r)"] Cons.prems by (simp add: split_beta Let_def registry_kept)
qed simp

lemma portal_inv_reconcile: "portal_inv sv \<Longrightarrow> portal_inv (snd (sv_reconcile now sv))"
proof -
  assume inv: "portal_inv sv"
  then have "backend_ok (snd (fb_list_portal_grants (sv_backend sv)))" by (simp add: portal_inv_def list_grants_view)
  then show ?thesis using inv find_orphans_kept
    by (auto simp: sv_reconcile_def authorized_portal_grants_def Let_def split_beta portal_inv_def
        intro!: portal_inv_drop(2) [unfolded portal_inv_def])
qed

lemma portal_inv_sweep: "portal_inv sv \<Longrightarrow> portal_inv (snd (sweep now sv))"
  using portal_inv_reconcile portal_inv_drop(1) portal_inv_invalidate(5) [of sv now]
  by (simp add: sweep_def Let_def split_beta drop_grant_def [abs_def])

lemma reconcile_exact:
  assumes "working sv" "reg_inv (sv_sessions sv)" "\<forall>s \<in> sessions_of (sv_sessions sv). now < ps_expires_at s"
  defines "sv' \<equiv> snd (sv_reconcile now sv)"
  shows "working sv' \<and> reg_inv (sv_sessions sv') \<and> sessions_of (sv_sessions sv') = sessions_of (sv_sessions sv)
    \<and> sv_store sv' = sv_store sv
    \<and> (\<forall>ip mac. sv_granted sv' ip = Some mac \<longleftrightarrow> sv_granted sv ip = Some mac
        \<and> (\<exists>s \<in> sessions_of (sv_sessions sv). ps_client_ip s = ip \<and> ps_client_mac s = mac))"
proof -
  have ok: "backend_ok (sv_backend sv)" using assms(1) by (simp add: working_def)
  obtain gs m where gm: "authorized_portal_grants (sv_manager sv) = (gs, m)" by fastforce
  obtain orphans r where o: "find_orphans now gs (sv_sessions sv) = (orphans, r)" by fastforce
  have gs: "gs = fst (fb_list_portal_grants (sv_backend sv))" and m: "m = (sv_manager sv)\<lparr>fm_backend := snd (fb_list_portal_grants (sv_backend sv))\<rparr>"
    using gm by (auto simp: authorized_portal_grants_def split: prod.splits)
  let ?sv = "sv\<lparr>sv_manager := m, sv_sessions := r\<rparr>"
  note view = list_grants_view [OF ok]
  note fo = find_orphans_exact [OF assms(2,3), of gs, unfolded o fst_conv snd_conv]
  have w: "working ?sv" and g: "sv_granted ?sv = sv_granted sv"
    using view assms(1) by (simp_all add: working_def sv_granted_def m)
  have in_gs: "(ip, mac) \<in> set gs \<longleftrightarrow> sv_granted sv ip = Some mac" for ip mac
    using view(1) by (simp add: gs sv_granted_def)
  have set_o: "set (orphan_order orphans) = set orphans" by (simp add: orphan_order_def)
  have orphan: "g \<in> set orphans \<longleftrightarrow> sv_granted sv (fst g) = Some (snd g)
      \<and> (\<forall>s \<in> sessions_of (sv_sessions sv). (ps_client_ip s, ps_client_mac s) \<noteq> g)" for g
    using fo in_gs [of "fst g" "snd g"] by auto
  then have pre: "\<forall>g \<in> set (orphan_order orphans). sv_granted ?sv (fst g) \<in> {None, Some (snd g)}" unfolding set_o g by auto
  have "sv' = fold drop_orphan (orphan_order orphans) ?sv" using gm o by (simp add: sv'_def sv_reconcile_def)
  note eff = drop_orphans_effect [OF w pre, folded this, unfolded set_o g]
  have "ip \<in> fst ` set orphans \<longleftrightarrow> (\<exists>mac. sv_granted sv ip = Some mac
      \<and> (\<forall>s \<in> sessions_of (sv_sessions sv). \<not> (ps_client_ip s = ip \<and> ps_client_mac s = mac)))" for ip
    unfolding image_iff Bex_def orphan by (metis fst_conv prod.collapse snd_conv)
  then show ?thesis using eff fo by auto
qed

lemma sweep_facts:
  fixes now :: datetime
  assumes "working sv" "reg_inv (sv_sessions sv)"
  defines "sv' \<equiv> snd (sweep now sv)"
    and "live \<equiv> {s \<in> sessions_of (sv_sessions sv). now < ps_expires_at s}"
  shows "working sv' \<and> reg_inv (sv_sessions sv') \<and> sessions_of (sv_sessions sv') = live
    \<and> (\<forall>ip mac. sv_granted sv' ip = Some mac \<longleftrightarrow> sv_granted sv ip = Some mac
        \<and> (\<exists>s \<in> live. ps_client_ip s = ip \<and> ps_client_mac s = mac))"
proof -
  obtain expired r where p: "purge_expired now (sv_sessions sv) = (expired, r)" by fastforce
  note purge = purge_facts [OF assms(2), of now, unfolded p snd_conv, folded live_def]
  have expired: "set expired = {s \<in> sessions_of (sv_sessions sv). ps_expires_at s \<le> now}"
    using expired_sessions [OF assms(2), of now] p by simp
  let ?sv1 = "fold drop_grant expired (sv\<lparr>sv_sessions := r\<rparr>)"
  have "working (sv\<lparr>sv_sessions := r\<rparr>)" using assms(1) by simp
  note d = drop_grants_effect [OF this, of expired]
  have sv': "sv' = snd (sv_reconcile now ?sv1)"
    by (simp add: sv'_def sweep_def p Let_def drop_grant_def [abs_def] split_beta)
  have live: "\<forall>s \<in> sessions_of (sv_sessions ?sv1). now < ps_expires_at s" using d purge(2) by (simp add: live_def)
  have inv1: "reg_inv (sv_sessions ?sv1)" using d purge(1) by simp
  note rec = reconcile_exact [OF conjunct1 [OF d] inv1 live, folded sv']
  have same: "sv_granted ?sv1 (ps_client_ip s) = sv_granted sv (ps_client_ip s)" if "s \<in> live" for s
  proof -
    have "ps_client_ip s \<notin> ps_client_ip ` set expired"
      using that one_session_per_address [OF assms(2), of s] unfolding expired live_def by fastforce
    then show ?thesis using d by simp
  qed
  have "sessions_of (sv_sessions ?sv1) = live" using d purge(2) by simp
  then show ?thesis using rec same by auto
qed

subsection \<open>Logging in\<close>

lemma authorize_effect:
  assumes "backend_ok (fm_backend m)" "0 < timeout"
  shows "fst (authorize_portal_client ip timeout mac m) \<longleftrightarrow> in_network ip (fm_protected m) \<and> \<not> fb_fail_on_portal (fm_backend m)"
    and "granted (fm_backend (snd (authorize_portal_client ip timeout mac m))) =
      (if fst (authorize_portal_client ip timeout mac m) then (granted (fm_backend m))(ip \<mapsto> mac) else granted (fm_backend m))"
    and "backend_ok (fm_backend (snd (authorize_portal_client ip timeout mac m)))"
proof -
  have "granted (snd (fb_authorize ip timeout mac (fm_backend m))) = granted (fm_backend m)" if "fb_fail_on_portal (fm_backend m)"
    using that by (auto simp: fb_authorize_def granted_def live_client_def mac_entry_def fun_eq_iff)
  then show "fst (authorize_portal_client ip timeout mac m) \<longleftrightarrow> in_network ip (fm_protected m) \<and> \<not> fb_fail_on_portal (fm_backend m)"
    "granted (fm_backend (snd (authorize_portal_client ip timeout mac m))) =
      (if fst (authorize_portal_client ip timeout mac m) then (granted (fm_backend m))(ip \<mapsto> mac) else granted (fm_backend m))"
    "backend_ok (fm_backend (snd (authorize_portal_client ip timeout mac m)))"
    using assms backend_ok_portal(2,6) [where ip = ip and timeout = timeout and mac = mac and b = "fm_backend m"]
      authorize_granted [where ip = ip and timeout = timeout and mac = mac and b = "fm_backend m"]
    by (auto simp: authorize_portal_client_def split: prod.splits)
qed

lemma emits_effect [simp]:
  "sv_granted (fold (\<lambda>_. emit a c) xs sv) = sv_granted sv" "sv_sessions (fold (\<lambda>_. emit a c) xs sv) = sv_sessions sv"
  by (induction xs arbitrary: sv) auto

lemma failed_login_effect:
  "fst (failed_login casefold username ip mac now sv) \<noteq> Inr s"
  "sv_granted (snd (failed_login casefold username ip mac now sv)) = sv_granted sv"
  "sv_sessions (snd (failed_login casefold username ip mac now sv)) = sv_sessions sv"
  by (auto simp: failed_login_def split: option.splits)

definition issued :: "string \<Rightarrow> string \<Rightarrow> string \<Rightarrow> ipv4_address \<Rightarrow> datetime \<Rightarrow> int \<Rightarrow> mac_address option \<Rightarrow> portal_session" where
  "issued uuid token username ip now timeout mac = \<lparr>ps_id = uuid, ps_token = token, ps_username = username, ps_client_ip = ip,
     ps_issued_at = now, ps_expires_at = now + seconds timeout, ps_client_mac = mac\<rparr>"

lemma grant_login_effect:
  fixes ip :: ipv4_address and now :: datetime and casefold :: "string \<Rightarrow> string"
  assumes "reg_inv (sv_sessions sv)" "by_token (sv_sessions sv) token = None" "backend_ok (sv_backend sv)"
    and "uuid \<noteq> []" "token \<noteq> []" "username \<noteq> []" "\<forall>m. mac = Some m \<longrightarrow> unicast_mac m = Some m"
    and "0 < po_session_timeout_seconds (sv_config sv)"
    and "pr_token_expiry_seconds (sv_sessions sv) = po_session_timeout_seconds (sv_config sv)"
  defines "s \<equiv> issued uuid token username ip now (po_session_timeout_seconds (sv_config sv)) mac"
    and "res \<equiv> grant_login casefold uuid token username ip mac now sv"
  shows "if in_network ip (fm_protected (sv_manager sv)) \<and> \<not> fb_fail_on_portal (sv_backend sv)
    then fst res = Inr s \<and> s \<in> sessions_of (sv_sessions (snd res)) \<and> sv_granted (snd res) = (sv_granted sv)(ip \<mapsto> mac)
    else fst res = Inl LX_NO_GRANT \<and> sv_granted (snd res) = sv_granted sv
      \<and> sessions_of (sv_sessions (snd res)) \<subseteq> sessions_of (sv_sessions sv)"
proof -
  have new: "new_portal_session \<lparr>ps_id = uuid, ps_token = token, ps_username = username, ps_client_ip = ip, ps_issued_at = now,
      ps_expires_at = now + seconds (pr_token_expiry_seconds (sv_sessions sv)), ps_client_mac = mac\<rparr> = Some s"
    using assms(4-7,9) by (auto simp: new_portal_session_def s_def issued_def split: option.splits)
  obtain r gone where r: "create_session uuid username ip token now mac (sv_sessions sv) = (Some s, r)"
      "reg_inv r" "sessions_of r = insert s ({x \<in> sessions_of (sv_sessions sv). now < ps_expires_at x \<and> ps_client_ip x \<noteq> ip} - gone)"
    by (rule create_facts [OF assms(1,2) new]) (use that in blast)
  note a = authorize_effect [OF assms(3,8), where ip = ip and mac = mac]
  have "ps_token s = token" by (simp add: s_def issued_def)
  then have "sessions_of (snd (invalidate token r)) \<subseteq> sessions_of (sv_sessions sv)"
    unfolding sessions_invalidate [OF r(2)] r(3) by auto
  then show ?thesis using a r
    by (cases "authorize_portal_client ip (po_session_timeout_seconds (sv_config sv)) mac (sv_manager sv)")
      (auto simp: res_def grant_login_def sv_granted_def split: bool.splits)
qed

lemma verified_name:
  assumes "store_inv st" "verify_user scrypt st username password"
  shows "username \<noteq> []"
  using assms get_user_ok [OF assms(1), of username] by (auto simp: verify_user_def portal_user_ok_def split: option.splits)

lemma portal_inv_login:
  assumes "portal_inv sv" "map_of (pr_by_token (sv_sessions sv)) token = None"
  shows "portal_inv (snd (login scrypt casefold uuid token username password ip now sv))"
proof -
  have failed: "portal_inv (snd (failed_login casefold username ip mac now sv'))" if "portal_inv sv'" for mac sv'
  proof -
    have "portal_inv (fold (\<lambda>_. emit a c) xs sv) = portal_inv sv" for a c sv and xs :: "lockout_scope list"
      by (induction xs arbitrary: sv) auto
    then show ?thesis using that by (auto simp: failed_login_def split: option.splits)
  qed
  have granted: "portal_inv (snd (grant_login casefold uuid token username ip mac now sv'))"
    if "portal_inv sv'" "sv_sessions sv' = sv_sessions sv" for mac sv'
  proof -
    obtain created r where c: "create_session uuid username ip token now mac (sv_sessions sv') = (created, r)" by fastforce
    have "by_token (sv_sessions sv') token = None" using assms(2) that(2) by (simp add: by_token_def)
    then have r: "reg_inv r" "pr_token_expiry_seconds r = pr_token_expiry_seconds (sv_sessions sv')"
      using that(1) reg_inv_create [where r = "sv_sessions sv'" and token = token and uuid = uuid and username = username
          and ip = ip and now = now and mac = mac] expiry_kept(5) [of uuid username ip token now mac "sv_sessions sv'"]
      by (simp_all add: portal_inv_def c)
    have "backend_ok (fm_backend (snd (authorize_portal_client ip (po_session_timeout_seconds (sv_config sv')) mac (sv_manager sv'))))"
      using that(1) by (intro authorize_effect(3)) (simp_all add: portal_inv_def)
    then show ?thesis using that(1) r reg_inv_invalidate [OF r(1)] c
      by (auto simp: grant_login_def portal_inv_def split: prod.splits option.splits bool.splits)
  qed
  show ?thesis using assms(1) failed granted
    by (auto simp: login_def Let_def split: prod.splits option.splits)
qed

text \<open>Every state of the service, with the rest of the program (the manager's rules, the clock of the kernel, failures, the
  binding table) changing freely between operations.\<close>

inductive portal_run :: "portal_service \<Rightarrow> bool" where
  portal_start: "portal_config_ok c \<Longrightarrow> open_store f = Inr st \<Longrightarrow> backend_ok (fm_backend m)
    \<Longrightarrow> portal_run (new_portal_service c m st bindings)"
| portal_login: "portal_run sv \<Longrightarrow> map_of (pr_by_token (sv_sessions sv)) token = None
    \<Longrightarrow> portal_run (snd (login scrypt casefold uuid token username password ip now sv))"
| portal_keepalive: "portal_run sv \<Longrightarrow> portal_run (snd (keepalive tok ip now sv))"
| portal_logout: "portal_run sv \<Longrightarrow> portal_run (snd (logout token ip now sv))"
| portal_add_user: "portal_run sv \<Longrightarrow> portal_run (snd (sv_add_user scrypt salt written generated name pw author memo now sv))"
| portal_set_password: "portal_run sv \<Longrightarrow> portal_run (snd (sv_set_password scrypt salt written generated name pw now sv))"
| portal_remove_user: "portal_run sv \<Longrightarrow> portal_run (snd (sv_remove_user written name now sv))"
| portal_list: "portal_run sv \<Longrightarrow> portal_run (snd (sv_list_sessions now sv))"
| portal_force: "portal_run sv \<Longrightarrow> portal_run (snd (force_logout ip sv))"
| portal_reconcile: "portal_run sv \<Longrightarrow> portal_run (snd (sv_reconcile now sv))"
| portal_sweep: "portal_run sv \<Longrightarrow> portal_run (snd (sweep now sv))"
| portal_other: "portal_run sv \<Longrightarrow> backend_ok (fm_backend m) \<Longrightarrow> portal_run (sv\<lparr>sv_manager := m, sv_bindings := bindings\<rparr>)"

lemma portal_run_inv: "portal_run sv \<Longrightarrow> portal_inv sv"
proof (induction rule: portal_run.induct)
  case (portal_start c f st m bindings)
  then show ?case
    by (auto simp: portal_inv_def new_portal_service_def portal_config_ok_def reg_inv_start dest: open_store_inv)
      (simp add: new_portal_sessions_def)
next
  case (portal_add_user sv scrypt salt written generated name pw author memo now)
  then have "portal_inv (sv\<lparr>sv_store := snd (add_user scrypt salt written name p now author memo False (sv_store sv))\<rparr>)" for p
    by (intro portal_inv_store store_inv_add) (simp_all add: portal_inv_def)
  then show ?case
    by (auto simp: sv_add_user_def Let_def split_beta split: sum.splits)
next
  case (portal_set_password sv scrypt salt written generated name pw now)
  then have "portal_inv (sv\<lparr>sv_store := snd (set_password scrypt salt written name p (sv_store sv))\<rparr>)" for p
    by (intro portal_inv_store store_inv_set_password) (simp_all add: portal_inv_def)
  then show ?case
    by (auto simp: sv_set_password_def Let_def split: prod.splits sum.splits intro!: portal_inv_end_sessions) (metis snd_conv)+
next
  case (portal_remove_user sv written name now)
  then have "portal_inv (sv\<lparr>sv_store := snd (remove_user written name (sv_store sv))\<rparr>)"
    by (intro portal_inv_store store_inv_remove) (simp_all add: portal_inv_def)
  then show ?case
    by (auto simp: sv_remove_user_def split: prod.splits sum.splits bool.splits intro!: portal_inv_end_sessions)
next
  case (portal_list sv now)
  then show ?case using portal_inv_invalidate(4) [of sv now] by (simp add: sv_list_sessions_def split_beta)
next
  case (portal_force ip sv)
  then show ?case using portal_inv_invalidate(2) portal_inv_deauthorize by (simp add: force_logout_def Let_def split_beta)
next
  case (portal_other sv m bindings)
  then show ?case by (simp add: portal_inv_def)
qed (simp_all add: portal_inv_login portal_inv_keepalive portal_inv_logout portal_inv_reconcile portal_inv_sweep)

text \<open>
  C18: The portal's invariant: after a sweep, who is forwarded is exactly who is signed in. Starting from any
  registry and any set of kernel grants, however they diverged (a restart, an evicted session, an address
  that changed hands, a login whose answer was lost), one sweep with a working backend leaves precisely the grants that had a live
  session with the same address and the same MAC behind them; it removes every other grant, adds none, and
  keeps exactly the live sessions.
\<close>
theorem sweep_leaves_no_orphan_grant:
  assumes "portal_run sv" "\<not> fb_fail_on_portal (sv_backend sv)"
  shows "sessions_of (sv_sessions (snd (sweep now sv))) = {s \<in> sessions_of (sv_sessions sv). now < ps_expires_at s}
    \<and> (\<forall>ip mac. sv_granted (snd (sweep now sv)) ip = Some mac \<longleftrightarrow> sv_granted sv ip = Some mac
        \<and> (\<exists>s \<in> sessions_of (sv_sessions sv). now < ps_expires_at s \<and> ps_client_ip s = ip \<and> ps_client_mac s = mac))"
  using sweep_facts [of sv now] portal_run_inv [OF assms(1)] assms(2) by (auto simp: working_def portal_inv_def)

definition example_service :: portal_service where
  "example_service = new_portal_service \<lparr>po_session_timeout_seconds = 60, po_max_sessions = 2, po_max_failed_logins_per_ip = 5,
     po_failed_login_window_seconds = 300, po_max_failed_logins_per_account = 10, po_max_failed_logins_global = 50\<rparr>
     (example_manager\<lparr>fm_backend := (new_firewall_backend False False False)\<lparr>fb_portal_clients := [(7, None)],
        fb_portal_macs := [(7, None)]\<rparr>\<rparr>) \<lparr>us_users = [], us_file = UF_MISSING\<rparr> None"

lemma example_service_sel:
  "sv_sessions example_service = new_portal_sessions 60 2"
  "sv_backend example_service = (new_firewall_backend False False False)\<lparr>fb_portal_clients := [(7, None)], fb_portal_macs := [(7, None)]\<rparr>"
  by (simp_all add: example_service_def new_portal_service_def)

theorem sweep_leaves_no_orphan_grant_witness:
  "sv_granted example_service 7 = Some None \<and> sv_granted (snd (sweep 0 example_service)) 7 = None"
proof -
  have "portal_run example_service" unfolding example_service_def
    by (rule portal_start [of _ UF_MISSING]) (simp_all add: portal_config_ok_def open_store_def reload_def backend_ok_def new_firewall_backend_def)
  moreover have "\<not> fb_fail_on_portal (sv_backend example_service)"
    by (simp_all add: example_service_sel new_firewall_backend_def)
  moreover have "sessions_of (sv_sessions example_service) = {}"
    by (simp add: example_service_sel sessions_of_def by_token_def new_portal_sessions_def)
  ultimately have "sv_granted (snd (sweep 0 example_service)) 7 \<noteq> Some mac" for mac
    using sweep_leaves_no_orphan_grant [of example_service 0] by simp
  then have "sv_granted (snd (sweep 0 example_service)) 7 = None" by (metis not_Some_eq)
  then show ?thesis by (simp add: sv_granted_def granted_def live_client_def mac_entry_def example_service_sel new_firewall_backend_def)
qed

text \<open>
  C19: A login succeeds exactly when it should, and a refused one gives nothing. With a fresh token, a login
  succeeds if and only if no lockout of the address, the account or the portal is in force, no blocking rule matches
  the client, the address is bound to a MAC wherever bindings are in use, the password verifies against
  the account's stored hash, the address lies in the protected network and the kernel accepts the grant. The
  session then names that user, that address and that MAC and ends after the configured time; it is registered and the kernel's grant
  is exactly that pair, every other grant unchanged. A refused login, whatever the reason, changes no
  grant and registers no session.
\<close>
theorem login_exact:
  fixes sv :: portal_service
  assumes "login scrypt casefold uuid token username password ip now sv = (res, sv')"
    and "portal_run sv" and "map_of (pr_by_token (sv_sessions sv)) token = None" "uuid \<noteq> []" "token \<noteq> []"
    and "\<forall>m. bound_mac sv ip = Some m \<longrightarrow> unicast_mac m = Some m"
  shows "((\<exists>s. res = Inr s) \<longleftrightarrow>
      fst (login_lockout casefold ip (Some username) now (sv_throttle sv)) = None
      \<and> blocking_rules_matching ip (sv_manager sv) = [] \<and> (sv_bindings sv = None \<or> bound_mac sv ip \<noteq> None)
      \<and> verify_user scrypt (sv_store sv) username password
      \<and> in_network ip (fm_protected (sv_manager sv)) \<and> \<not> fb_fail_on_portal (sv_backend sv))
    \<and> (\<forall>s. res = Inr s \<longrightarrow> s = issued uuid token username ip now (po_session_timeout_seconds (sv_config sv)) (bound_mac sv ip)
        \<and> s \<in> sessions_of (sv_sessions sv') \<and> sv_granted sv' = (sv_granted sv)(ip \<mapsto> bound_mac sv ip))
    \<and> (\<forall>e. res = Inl e \<longrightarrow> sv_granted sv' = sv_granted sv \<and> sessions_of (sv_sessions sv') \<subseteq> sessions_of (sv_sessions sv))"
proof (cases "login_lockout casefold ip (Some username) now (sv_throttle sv)")
  case (Pair l th)
  note inv = portal_run_inv [OF assms(2)]
  have st: "store_inv (sv_store sv)" using inv by (simp add: portal_inv_def)
  let ?sv = "sv\<lparr>sv_throttle := th\<rparr>"
  let ?mac = "bound_mac sv ip"
  have mac: "bound_mac ?sv ip = ?mac" by (simp add: bound_mac_def)
  show ?thesis
  proof (cases "l = None \<and> blocking_rules_matching ip (sv_manager sv) = [] \<and> (sv_bindings sv = None \<or> ?mac \<noteq> None)
      \<and> verify_user scrypt (sv_store sv) username password")
    case True
    then have res: "grant_login casefold uuid token username ip ?mac now ?sv = (res, sv')"
      using Pair mac assms(1) by (auto simp: login_def Let_def)
    have "username \<noteq> []" using True verified_name [OF st] by blast
    then have "if in_network ip (fm_protected (sv_manager sv)) \<and> \<not> fb_fail_on_portal (sv_backend sv)
      then res = Inr (issued uuid token username ip now (po_session_timeout_seconds (sv_config sv)) ?mac)
        \<and> issued uuid token username ip now (po_session_timeout_seconds (sv_config sv)) ?mac \<in> sessions_of (sv_sessions sv')
        \<and> sv_granted sv' = (sv_granted sv)(ip \<mapsto> ?mac)
      else res = Inl LX_NO_GRANT \<and> sv_granted sv' = sv_granted sv \<and> sessions_of (sv_sessions sv') \<subseteq> sessions_of (sv_sessions sv)"
      using grant_login_effect [where sv = ?sv and token = token and uuid = uuid and username = username and mac = ?mac
          and ip = ip and now = now and casefold = casefold, unfolded res fst_conv snd_conv] inv [unfolded portal_inv_def] assms(3-6)
      by (auto simp: by_token_def split: if_splits)
    then show ?thesis using True Pair by (simp split: if_splits)
  next
    case False
    have "(\<exists>e. res = Inl e) \<and> sv_granted sv' = sv_granted sv \<and> sv_sessions sv' = sv_sessions sv"
    proof (cases "l = None \<and> blocking_rules_matching ip (sv_manager sv) = [] \<and> (sv_bindings sv = None \<or> ?mac \<noteq> None)")
      case True
      then have f: "failed_login casefold username ip ?mac now ?sv = (res, sv')"
        using Pair mac assms(1) False by (auto simp: login_def Let_def)
      note failed_login_effect [where casefold = casefold and username = username and sv = ?sv and ip = ip and mac = ?mac
          and now = now, unfolded f fst_conv snd_conv]
      then show ?thesis by (cases res) auto
    next
      case refused: False
      then show ?thesis using Pair mac assms(1) by (auto simp: login_def Let_def split: option.splits if_splits)
    qed
    then show ?thesis using False Pair by auto
  qed
qed

definition example_portal :: portal_service where
  "example_portal = new_portal_service \<lparr>po_session_timeout_seconds = 60, po_max_sessions = 2, po_max_failed_logins_per_ip = 5,
     po_failed_login_window_seconds = 300, po_max_failed_logins_per_account = 10, po_max_failed_logins_global = 50\<rparr>
     example_manager (snd (add_user example_scrypt [1] True ''ada'' ''secret'' 0 ''admin'' [] False \<lparr>us_users = [], us_file = UF_MISSING\<rparr>)) None"

lemma example_portal_sel:
  "sv_sessions example_portal = new_portal_sessions 60 2" "sv_manager example_portal = example_manager"
  "sv_config example_portal = \<lparr>po_session_timeout_seconds = 60, po_max_sessions = 2, po_max_failed_logins_per_ip = 5,
     po_failed_login_window_seconds = 300, po_max_failed_logins_per_account = 10, po_max_failed_logins_global = 50\<rparr>"
  "sv_store example_portal = snd (add_user example_scrypt [1] True ''ada'' ''secret'' 0 ''admin'' [] False \<lparr>us_users = [], us_file = UF_MISSING\<rparr>)"
  "sv_bindings example_portal = None"
  "sv_throttle example_portal = new_login_throttle 5 300 4096 (Some 10) (Some 50)"
  "fm_backend example_manager = new_firewall_backend False False False"
  by (simp_all add: example_portal_def new_portal_service_def example_manager_def new_firewall_manager_def)

lemma example_portal_run: "portal_run example_portal"
proof -
  obtain st where "open_store (us_file (sv_store example_portal)) = Inr st" "st = sv_store example_portal"
    by (simp add: example_portal_sel add_user_def get_user_def Let_def portal_user_ok_def hash_nonempty
        username_char_def less_eq_char_def persisted_def persist_def list_users_def open_store_def reload_def)
  then show ?thesis using portal_start [of "sv_config example_portal" "us_file (sv_store example_portal)" st example_manager None]
    by (simp add: example_portal_def new_portal_service_def portal_config_ok_def backend_ok_def example_portal_sel new_firewall_backend_def)
qed

theorem login_exact_witness:
  "let (res, sv') = login example_scrypt id ''i'' ''t'' ''ada'' ''secret'' (ipv4 10 0 0 5) 0 example_portal in
   (\<exists>s. res = Inr s \<and> ps_username s = ''ada'' \<and> s \<in> sessions_of (sv_sessions sv'))
   \<and> sv_granted sv' (ipv4 10 0 0 5) = Some None"
proof -
  let ?sv = example_portal and ?ip = "ipv4 10 0 0 5"
  obtain res sv' where l: "login example_scrypt id ''i'' ''t'' ''ada'' ''secret'' ?ip 0 ?sv = (res, sv')" by fastforce
  have mac: "bound_mac ?sv ?ip = None" by (simp add: bound_mac_def example_portal_sel)
  note r = example_portal_run
  have "verify_user example_scrypt (sv_store ?sv) ''ada'' ''secret''"
    using key_length [of example_scrypt "''secret''" "[1]"]
    by (simp add: example_portal_sel verify_user_def add_user_def get_user_def Let_def portal_user_ok_def hash_nonempty
        username_char_def less_eq_char_def persisted_def persist_def)
  moreover have "fst (login_lockout id ?ip (Some ''ada'') 0 (sv_throttle ?sv)) = None"
    by (simp add: login_lockout_def scoped_lockout_def throttle_keys_def portal_keys_def example_portal_sel new_login_throttle_def
        new_scoped_throttle_def new_failure_window_def seconds_until_unlocked_def recent_def Let_def)
  moreover have "blocking_rules_matching ?ip (sv_manager ?sv) = []" "in_network ?ip (fm_protected (sv_manager ?sv))"
    by (simp_all add: example_portal_sel blocking_rules_matching_def restrictive_rules_matching_def active_rules_def
        rules_targeting_def example_manager_def new_firewall_manager_def example_rule_defs network_eval)
  moreover note exact = login_exact [OF l r, unfolded mac]
  ultimately obtain s where s: "res = Inr s" by (auto simp: example_portal_sel new_portal_sessions_def new_firewall_backend_def)
  then have "s = issued ''i'' ''t'' ''ada'' ?ip 0 60 None" "s \<in> sessions_of (sv_sessions sv')"
      "sv_granted sv' = (sv_granted ?sv)(?ip \<mapsto> None)"
    using exact by (auto simp: example_portal_sel new_portal_sessions_def)
  then show ?thesis using l s by (simp add: issued_def)
qed

subsection \<open>Ending a user's sessions\<close>

definition dropped :: "portal_session \<Rightarrow> firewall_manager \<Rightarrow> firewall_manager" where
  "dropped s m = snd (deauthorize_portal_client (ps_client_ip s) (ps_client_mac s) m)"

lemma manager_drop_grants: "sv_manager (fold drop_grant ss sv) = fold dropped ss (sv_manager sv)"
  by (induction ss arbitrary: sv) (simp_all add: drop_grant_def sv_manager_deauthorize dropped_def)

lemma end_session_folds:
  "sv_sessions (fold (end_session u) ss sv) = fold drop_session (filter (\<lambda>s. ps_username s = u) ss) (sv_sessions sv)"
  "sv_manager (fold (end_session u) ss sv) = fold dropped (filter (\<lambda>s. ps_username s = u) ss) (sv_manager sv)"
  by (induction ss arbitrary: sv) (simp_all add: end_session_def sv_manager_deauthorize dropped_def)

lemma end_sessions_effect:
  fixes now :: datetime and username :: string
  assumes "portal_inv sv" "\<not> fb_fail_on_portal (sv_backend sv)"
  defines "sv' \<equiv> end_sessions_for username now sv"
  shows "sessions_of (sv_sessions sv') = {s \<in> sessions_of (sv_sessions sv). now < ps_expires_at s \<and> ps_username s \<noteq> username}
    \<and> (\<forall>s \<in> sessions_of (sv_sessions sv). now < ps_expires_at s \<longrightarrow>
        (if ps_username s = username then sv_granted sv' (ps_client_ip s) \<noteq> Some (ps_client_mac s)
         else sv_granted sv' (ps_client_ip s) = sv_granted sv (ps_client_ip s)))"
proof -
  have reg: "reg_inv (sv_sessions sv)" and w: "working sv" using assms(1,2) by (simp_all add: portal_inv_def working_def)
  obtain ss r where l: "list_sessions now (sv_sessions sv) = (ss, r)" by fastforce
  note p = purge_facts [OF reg, of now]
  have r: "r = snd (purge_expired now (sv_sessions sv))" using l by (simp add: list_sessions_def Let_def)
  have ss: "set ss = {s \<in> sessions_of (sv_sessions sv). now < ps_expires_at s}"
    using l p(2) sessions_set [OF p(1)] by (simp add: list_sessions_def Let_def) (metis image_set set_sort)
  define ended where "ended = filter (\<lambda>s. ps_username s = username) ss"
  have sv': "sv' = fold (end_session username) ss (sv\<lparr>sv_sessions := r\<rparr>)" by (simp add: sv'_def end_sessions_for_def l)
  have sessions: "sv_sessions sv' = fold drop_session ended r" by (simp add: sv' end_session_folds ended_def)
  have "sv_manager sv' = sv_manager (fold drop_grant ended sv)"
    by (simp add: sv' end_session_folds manager_drop_grants ended_def)
  then have granted: "sv_granted sv' = sv_granted (fold drop_grant ended sv)" by (simp add: sv_granted_def)
  note d = drop_grants_effect [OF w, of ended, folded granted]
  have reg_r: "reg_inv r" "sessions_of r = set ss" using p r ss by simp_all
  have "ps_token s \<in> ps_token ` set ended \<longleftrightarrow> ps_username s = username" if "s \<in> set ss" for s
  proof
    assume "ps_token s \<in> ps_token ` set ended"
    then obtain x where "x \<in> set ss" "ps_username x = username" "ps_token s = ps_token x" by (auto simp: ended_def)
    then show "ps_username s = username" using one_session_per_token [OF reg_r(1), of s x] that reg_r(2) by simp
  qed (use that in \<open>simp add: ended_def\<close>)
  then have "sessions_of (sv_sessions sv') = {s \<in> set ss. ps_username s \<noteq> username}"
    unfolding sessions fold_drop(2) [OF reg_r(1)] reg_r(2) by auto
  moreover have "sv_granted sv' (ps_client_ip s) = sv_granted sv (ps_client_ip s)" if "s \<in> set ss" "ps_username s \<noteq> username" for s
  proof -
    have "ps_client_ip s \<notin> ps_client_ip ` set ended"
    proof
      assume "ps_client_ip s \<in> ps_client_ip ` set ended"
      then obtain x where "x \<in> set ss" "ps_username x = username" "ps_client_ip s = ps_client_ip x" by (auto simp: ended_def)
      then show False using one_session_per_address [OF reg_r(1), of s x] that reg_r(2) by simp
    qed
    then show ?thesis using d by simp
  qed
  moreover have "sv_granted sv' (ps_client_ip s) \<noteq> Some (ps_client_mac s)" if "s \<in> set ss" "ps_username s = username" for s
    using d that by (simp add: ended_def)
  ultimately show ?thesis unfolding ss by auto
qed

text \<open>
  C21: Changing a password or removing an account puts its owner's devices off the network at once. With a
  working backend, when \<open>set_password\<close> or \<open>remove_user\<close> reports success, no session of that user is left and
  the kernel no longer holds the grant of any live session the user had; live sessions of everybody else stay, with
  their grants unchanged.
\<close>
theorem credentials_change_ends_sessions:
  assumes "portal_run sv" "\<not> fb_fail_on_portal (sv_backend sv)"
    and "sv_set_password scrypt salt written generated username password now sv = (Inr shown, sv')
      \<or> sv_remove_user written username now sv = (Inr True, sv')"
  shows "(\<forall>s \<in> sessions_of (sv_sessions sv'). ps_username s \<noteq> username)
    \<and> (\<forall>s \<in> sessions_of (sv_sessions sv). now < ps_expires_at s \<longrightarrow>
        (if ps_username s = username then sv_granted sv' (ps_client_ip s) \<noteq> Some (ps_client_mac s)
         else s \<in> sessions_of (sv_sessions sv') \<and> sv_granted sv' (ps_client_ip s) = sv_granted sv (ps_client_ip s)))"
proof -
  note inv = portal_run_inv [OF assms(1)]
  obtain st where st: "store_inv st" and view: "sv_sessions sv' = sv_sessions (end_sessions_for username now (sv\<lparr>sv_store := st\<rparr>))"
      "sv_granted sv' = sv_granted (end_sessions_for username now (sv\<lparr>sv_store := st\<rparr>))"
    using assms(3)
  proof
    assume "sv_set_password scrypt salt written generated username password now sv = (Inr shown, sv')"
    then obtain p u st where "set_password scrypt salt written username p (sv_store sv) = (Inr u, st)"
        "sv' = end_sessions_for username now (sv\<lparr>sv_store := st\<rparr>)"
      by (auto simp: sv_set_password_def Let_def split: prod.splits sum.splits)
    then show thesis using that [of st] store_inv_set_password [of "sv_store sv"] inv by (metis portal_inv_def snd_conv)
  next
    assume "sv_remove_user written username now sv = (Inr True, sv')"
    then obtain st where "remove_user written username (sv_store sv) = (Inr True, st)"
        "sv' = emit ES_INFO SET_SYSTEM_WARNING (end_sessions_for username now (sv\<lparr>sv_store := st\<rparr>))"
      by (auto simp: sv_remove_user_def split: prod.splits sum.splits bool.splits)
    then show thesis using that [of st] store_inv_remove [of "sv_store sv"] inv by (metis emit_fields(5,8) portal_inv_def snd_conv)
  qed
  have "portal_inv (sv\<lparr>sv_store := st\<rparr>)" using inv st by (rule portal_inv_store)
  then show ?thesis using end_sessions_effect [of "sv\<lparr>sv_store := st\<rparr>" username now] assms(2) by (auto simp: view)
qed

lemma login_keeps:
  "sv_store (snd (login scrypt casefold uuid token username password ip now sv)) = sv_store sv"
  "fb_fail_on_portal (sv_backend (snd (login scrypt casefold uuid token username password ip now sv))) = fb_fail_on_portal (sv_backend sv)"
proof -
  have emits: "sv_store (fold (\<lambda>_. emit a c) xs sv) = sv_store sv \<and> sv_manager (fold (\<lambda>_. emit a c) xs sv) = sv_manager sv"
    for a c sv and xs :: "lockout_scope list" by (induction xs arbitrary: sv) auto
  have auth: "fb_fail_on_portal (fm_backend (snd (authorize_portal_client ip timeout mac m))) = fb_fail_on_portal (fm_backend m)" for timeout mac m
    using backend_ok_portal(4) by (auto simp: authorize_portal_client_def split: prod.splits) (metis snd_conv)+
  show "sv_store (snd (login scrypt casefold uuid token username password ip now sv)) = sv_store sv"
    by (auto simp: login_def failed_login_def grant_login_def emits Let_def split: prod.splits option.splits bool.splits)
  show "fb_fail_on_portal (sv_backend (snd (login scrypt casefold uuid token username password ip now sv))) = fb_fail_on_portal (sv_backend sv)"
    using auth by (auto simp: login_def failed_login_def grant_login_def emits Let_def split: prod.splits option.splits bool.splits)
      (metis snd_conv)+
qed

theorem credentials_change_ends_sessions_witness:
  "let sv = snd (login example_scrypt id ''i'' ''t'' ''ada'' ''secret'' (ipv4 10 0 0 5) 0 example_portal);
       sv' = snd (sv_remove_user True ''ada'' 0 sv)
   in \<forall>s \<in> sessions_of (sv_sessions sv'). ps_username s \<noteq> ''ada''"
proof -
  let ?sv = "snd (login example_scrypt id ''i'' ''t'' ''ada'' ''secret'' (ipv4 10 0 0 5) 0 example_portal)"
  have run: "portal_run ?sv"
    by (intro portal_login example_portal_run) (simp add: example_portal_sel new_portal_sessions_def)
  have fail: "\<not> fb_fail_on_portal (sv_backend ?sv)" "fst (sv_remove_user True ''ada'' 0 ?sv) = Inr True"
    by (simp_all add: login_keeps sv_remove_user_def remove_user_def persisted_def persist_def example_portal_sel add_user_def
        get_user_def Let_def portal_user_ok_def hash_nonempty username_char_def less_eq_char_def new_firewall_backend_def)
  obtain sv' where sv': "sv_remove_user True ''ada'' 0 ?sv = (Inr True, sv')" using fail(2) by (metis prod.collapse)
  then show ?thesis using credentials_change_ends_sessions [OF run fail(1), of _ _ True _ "''ada''" _ 0 _ sv'] by simp
qed

end
