(* ===== verification/Behavior_State.thy ===== *)
theory Behavior_State
  imports Threat_Engine D1_Bounds
begin

section \<open>Behaviour analysis: the tracked state\<close>

text \<open>
  \<open>detection/behavior.py\<close>: the bounded, time-windowed state of one source (\<open>SourceBehaviorState\<close>), the analyzer
  that keeps one per source, and the assessment of the patterns. A live connection carries the flags that say which
  index admitted it, so that expiring it takes back exactly what it added. An exception (\<open>deque\<close> indexing, a
  refused \<open>BehaviorAssessment\<close>) is an \<open>Inl\<close>. The second half proves the invariant that ties every index to the
  live connections, and that no operation raises.
\<close>

subsection \<open>Configuration\<close>

record detection_config =
  dt_known_attack_confidence_threshold :: real
  dt_anomaly_score_threshold :: real
  dt_behavior_window_seconds :: int
  dt_max_tracked_sources :: nat
  dt_max_tracked_destinations_per_source :: nat
  dt_max_tracked_ports_per_source :: nat
  dt_max_tracked_connections_per_source :: nat
  dt_recent_connections_window :: nat
  dt_repeated_connections_threshold :: nat
  dt_high_frequency_per_second_threshold :: real
  dt_burst_window_seconds :: real
  dt_burst_count_threshold :: nat
  dt_persistence_seconds_threshold :: real
  dt_destination_diversity_threshold :: nat
  dt_scanning_port_threshold :: nat
  dt_repeated_failures_threshold :: nat
  dt_temporal_pattern_cv_threshold :: real
  dt_flood_connections_per_second_threshold :: real
  dt_concurrent_slow_connections_threshold :: nat

text \<open>The field constraints of the fields above.\<close>

definition detection_config_ok :: "detection_config \<Rightarrow> bool" where
  "detection_config_ok c \<longleftrightarrow> 0 \<le> dt_known_attack_confidence_threshold c \<and> dt_known_attack_confidence_threshold c \<le> 1
     \<and> 0 < dt_behavior_window_seconds c \<and> 0 < dt_max_tracked_sources c \<and> 0 < dt_max_tracked_destinations_per_source c
     \<and> 0 < dt_max_tracked_ports_per_source c \<and> 0 < dt_max_tracked_connections_per_source c
     \<and> 0 < dt_recent_connections_window c \<and> 0 < dt_repeated_connections_threshold c
     \<and> 0 < dt_high_frequency_per_second_threshold c \<and> 0 < dt_burst_window_seconds c \<and> 0 < dt_burst_count_threshold c
     \<and> 0 < dt_persistence_seconds_threshold c \<and> 0 < dt_destination_diversity_threshold c
     \<and> 0 < dt_scanning_port_threshold c \<and> 0 < dt_repeated_failures_threshold c
     \<and> 0 < dt_temporal_pattern_cv_threshold c \<and> 0 < dt_flood_connections_per_second_threshold c
     \<and> 0 < dt_concurrent_slow_connections_threshold c"

definition default_detection_config :: detection_config where
  "default_detection_config = \<lparr>dt_known_attack_confidence_threshold = 8/10, dt_anomaly_score_threshold = 0,
     dt_behavior_window_seconds = 300, dt_max_tracked_sources = 10000, dt_max_tracked_destinations_per_source = 200,
     dt_max_tracked_ports_per_source = 200, dt_max_tracked_connections_per_source = 2000, dt_recent_connections_window = 50,
     dt_repeated_connections_threshold = 20, dt_high_frequency_per_second_threshold = 2, dt_burst_window_seconds = 5,
     dt_burst_count_threshold = 10, dt_persistence_seconds_threshold = 1800, dt_destination_diversity_threshold = 15,
     dt_scanning_port_threshold = 10, dt_repeated_failures_threshold = 10, dt_temporal_pattern_cv_threshold = 15/100,
     dt_flood_connections_per_second_threshold = 100, dt_concurrent_slow_connections_threshold = 8\<rparr>"

subsection \<open>One source\<close>

record connection_event =
  ce_timestamp :: datetime
  ce_destination_ip :: ipv4_address
  ce_destination_port :: "int option"
  ce_destination_tracked :: bool
  ce_port_tracked :: bool
  ce_global_port_tracked :: bool
  ce_pair_tracked :: bool

record source_behavior_state =
  bs_first_seen :: datetime
  bs_last_seen :: datetime
  bs_streak_started :: datetime
  bs_window_seconds :: real
  bs_max_events :: nat
  bs_max_destinations :: nat
  bs_max_ports :: nat
  bs_max_recent :: nat
  bs_events :: "connection_event list"
  bs_failures :: "(datetime \<times> ipv4_address \<times> bool) list"
  bs_destination_counts :: "(ipv4_address, nat) odict"
  bs_ports :: "(int, nat) odict"
  bs_ports_per_destination :: "(ipv4_address, (int, nat) odict) odict"
  bs_connections_per_destination :: "(ipv4_address \<times> int option, nat) odict"
  bs_failures_per_destination :: "(ipv4_address, nat) odict"
  bs_recent_connection_times :: "datetime list"
  bs_slow_connection_counts :: "(ipv4_address, nat \<times> datetime) odict"
  bs_flood_window_seconds :: real
  bs_max_flood_entries :: nat
  bs_recent_per_destination :: "(ipv4_address, datetime list) odict"

datatype behavior_error = BE_INDEX | BE_ASSESSMENT

definition new_source_state :: "datetime \<Rightarrow> nat \<Rightarrow> nat \<Rightarrow> nat \<Rightarrow> real \<Rightarrow> nat \<Rightarrow> real \<Rightarrow> nat \<Rightarrow> source_behavior_state" where
  "new_source_state first_seen max_destinations max_ports max_recent window_seconds max_events flood_window_seconds max_flood_entries =
     \<lparr>bs_first_seen = first_seen, bs_last_seen = first_seen, bs_streak_started = first_seen,
      bs_window_seconds = window_seconds, bs_max_events = max_events, bs_max_destinations = max_destinations,
      bs_max_ports = max_ports, bs_max_recent = max_recent, bs_events = [], bs_failures = [],
      bs_destination_counts = [], bs_ports = [], bs_ports_per_destination = [], bs_connections_per_destination = [],
      bs_failures_per_destination = [], bs_recent_connection_times = [], bs_slow_connection_counts = [],
      bs_flood_window_seconds = flood_window_seconds, bs_max_flood_entries = max_flood_entries,
      bs_recent_per_destination = []\<rparr>"

text \<open>\<open>timedelta(seconds=x)\<close> of a float, rounded to a microsecond.\<close>

definition timedelta_seconds :: "real \<Rightarrow> timedelta" where
  "timedelta_seconds x = py_round (x * 1000000)"

text \<open>Counting dictionaries: \<open>counts[k] = counts.get(k, 0) + 1\<close>, \<open>_decrement\<close>, and the test by which a capped one
  admits a key.\<close>

definition count_in :: "('k, nat) odict \<Rightarrow> 'k \<Rightarrow> nat" where
  "count_in d k = (case map_of d k of None \<Rightarrow> 0 | Some n \<Rightarrow> n)"

definition increment :: "'k \<Rightarrow> ('k, nat) odict \<Rightarrow> ('k, nat) odict" where
  "increment k d = AList.update k (count_in d k + 1) d"

definition decrement :: "'k \<Rightarrow> ('k, nat) odict \<Rightarrow> ('k, nat) odict" where
  "decrement k d = (let remaining = int (count_in d k) - 1
                    in if 0 < remaining then AList.update k (nat remaining) d else AList.delete k d)"

definition admits :: "nat \<Rightarrow> 'k \<Rightarrow> ('k, 'v) odict \<Rightarrow> bool" where
  "admits cap k d \<longleftrightarrow> map_of d k \<noteq> None \<or> length d < cap"

definition expire_event :: "connection_event \<Rightarrow> source_behavior_state \<Rightarrow> source_behavior_state" where
  "expire_event e s =
     s\<lparr>bs_destination_counts := (if ce_destination_tracked e then decrement (ce_destination_ip e) (bs_destination_counts s)
                                 else bs_destination_counts s),
       bs_ports := (case ce_destination_port e of
                      Some p \<Rightarrow> if ce_global_port_tracked e then decrement p (bs_ports s) else bs_ports s
                    | None \<Rightarrow> bs_ports s),
       bs_ports_per_destination :=
         (case ce_destination_port e of
            Some p \<Rightarrow>
              if ce_port_tracked e
              then (case map_of (bs_ports_per_destination s) (ce_destination_ip e) of
                      None \<Rightarrow> bs_ports_per_destination s
                    | Some ports_here \<Rightarrow>
                        let here = decrement p ports_here
                        in if here = [] then AList.delete (ce_destination_ip e) (bs_ports_per_destination s)
                           else AList.update (ce_destination_ip e) here (bs_ports_per_destination s))
              else bs_ports_per_destination s
          | None \<Rightarrow> bs_ports_per_destination s),
       bs_connections_per_destination :=
         (if ce_pair_tracked e then decrement (ce_destination_ip e, ce_destination_port e) (bs_connections_per_destination s)
          else bs_connections_per_destination s)\<rparr>"

definition expire_failure :: "datetime \<times> ipv4_address \<times> bool \<Rightarrow> source_behavior_state \<Rightarrow> source_behavior_state" where
  "expire_failure f s =
     (if snd (snd f) then s\<lparr>bs_failures_per_destination := decrement (fst (snd f)) (bs_failures_per_destination s)\<rparr> else s)"

text \<open>The two loops of \<open>_advance\<close> that pop expired entries, called on the deque itself.\<close>

fun expire_events :: "datetime \<Rightarrow> connection_event list \<Rightarrow> source_behavior_state \<Rightarrow> source_behavior_state" where
  "expire_events horizon [] s = s"
| "expire_events horizon (e # es) s =
     (if ce_timestamp e < horizon then expire_events horizon es (expire_event e (s\<lparr>bs_events := es\<rparr>)) else s)"

fun expire_failures :: "datetime \<Rightarrow> (datetime \<times> ipv4_address \<times> bool) list \<Rightarrow> source_behavior_state \<Rightarrow> source_behavior_state" where
  "expire_failures horizon [] s = s"
| "expire_failures horizon (f # fs) s =
     (if fst f < horizon then expire_failures horizon fs (expire_failure f (s\<lparr>bs_failures := fs\<rparr>)) else s)"

definition move_clock :: "datetime \<Rightarrow> source_behavior_state \<Rightarrow> source_behavior_state" where
  "move_clock t s =
     (if bs_last_seen s < t
      then s\<lparr>bs_streak_started := (if bs_window_seconds s < total_seconds (t - bs_last_seen s) then t else bs_streak_started s),
             bs_last_seen := t\<rparr>
      else s)"

definition horizon_of :: "source_behavior_state \<Rightarrow> datetime" where
  "horizon_of s = bs_last_seen s - timedelta_seconds (bs_window_seconds s)"

definition flood_horizon_of :: "source_behavior_state \<Rightarrow> datetime" where
  "flood_horizon_of s = bs_last_seen s - timedelta_seconds (bs_flood_window_seconds s)"

text \<open>\<open>times[-1]\<close> of an empty deque raises.\<close>

definition advance :: "datetime \<Rightarrow> source_behavior_state \<Rightarrow> behavior_error + source_behavior_state" where
  "advance t s =
     (let s1 = move_clock t s;
          s2 = expire_events (horizon_of s1) (bs_events s1) s1;
          s3 = expire_failures (horizon_of s1) (bs_failures s2) s2
      in if list_ex (\<lambda>(ip, moments). moments = []) (bs_recent_per_destination s3) then Inl BE_INDEX
         else Inr (s3\<lparr>bs_recent_per_destination :=
                        filter (\<lambda>(ip, moments). \<not> last moments < flood_horizon_of s1) (bs_recent_per_destination s3),
                      bs_slow_connection_counts :=
                        filter (\<lambda>(ip, count, taken). \<not> taken < horizon_of s1) (bs_slow_connection_counts s3)\<rparr>))"

text \<open>At the cap the oldest live connection, or failure, makes room; \<open>popleft\<close> of an empty deque raises.\<close>

definition cap_events :: "source_behavior_state \<Rightarrow> behavior_error + source_behavior_state" where
  "cap_events s =
     (if bs_max_events s \<le> length (bs_events s)
      then (case bs_events s of [] \<Rightarrow> Inl BE_INDEX | e # es \<Rightarrow> Inr (expire_event e (s\<lparr>bs_events := es\<rparr>)))
      else Inr s)"

definition cap_failures :: "source_behavior_state \<Rightarrow> behavior_error + source_behavior_state" where
  "cap_failures s =
     (if bs_max_events s \<le> length (bs_failures s)
      then (case bs_failures s of [] \<Rightarrow> Inl BE_INDEX | f # fs \<Rightarrow> Inr (expire_failure f (s\<lparr>bs_failures := fs\<rparr>)))
      else Inr s)"

definition remember_flood :: "ipv4_address \<Rightarrow> datetime \<Rightarrow> source_behavior_state \<Rightarrow> (ipv4_address, datetime list) odict" where
  "remember_flood ip t s =
     (case map_of (bs_recent_per_destination s) ip of
        None \<Rightarrow> if length (bs_recent_per_destination s) < bs_max_destinations s
                then AList.update ip (deque_append (bs_max_flood_entries s) t []) (bs_recent_per_destination s)
                else bs_recent_per_destination s
      | Some moments \<Rightarrow> AList.update ip (deque_append (bs_max_flood_entries s) t moments) (bs_recent_per_destination s))"

definition ports_on :: "source_behavior_state \<Rightarrow> ipv4_address \<Rightarrow> (int, nat) odict" where
  "ports_on s ip = (case map_of (bs_ports_per_destination s) ip of None \<Rightarrow> [] | Some ports_here \<Rightarrow> ports_here)"

definition record_connection :: "ipv4_address \<Rightarrow> int option \<Rightarrow> datetime \<Rightarrow> source_behavior_state \<Rightarrow> source_behavior_state" where
  "record_connection ip port t s =
     (let destination_tracked = admits (bs_max_destinations s) ip (bs_destination_counts s);
          global_port_tracked = (case port of None \<Rightarrow> False | Some p \<Rightarrow> admits (bs_max_ports s) p (bs_ports s));
          port_tracked = (case port of None \<Rightarrow> False
                          | Some p \<Rightarrow> destination_tracked \<and> admits (bs_max_ports s) p (ports_on s ip));
          pair_tracked = admits (bs_max_destinations s) (ip, port) (bs_connections_per_destination s)
      in s\<lparr>bs_destination_counts := (if destination_tracked then increment ip (bs_destination_counts s) else bs_destination_counts s),
           bs_ports := (case port of None \<Rightarrow> bs_ports s
                        | Some p \<Rightarrow> if global_port_tracked then increment p (bs_ports s) else bs_ports s),
           bs_ports_per_destination :=
             (case port of
                None \<Rightarrow> bs_ports_per_destination s
              | Some p \<Rightarrow>
                  if destination_tracked
                  then AList.update ip (if port_tracked then increment p (ports_on s ip) else ports_on s ip)
                         (bs_ports_per_destination s)
                  else bs_ports_per_destination s),
           bs_connections_per_destination :=
             (if pair_tracked then increment (ip, port) (bs_connections_per_destination s) else bs_connections_per_destination s),
           bs_events := bs_events s @
             [\<lparr>ce_timestamp = t, ce_destination_ip = ip, ce_destination_port = port,
               ce_destination_tracked = destination_tracked, ce_port_tracked = port_tracked,
               ce_global_port_tracked = global_port_tracked, ce_pair_tracked = pair_tracked\<rparr>],
           bs_recent_connection_times := deque_append (bs_max_recent s) t (bs_recent_connection_times s),
           bs_recent_per_destination := remember_flood ip t s\<rparr>)"

definition bind_sum :: "'e + 'a \<Rightarrow> ('a \<Rightarrow> 'e + 'b) \<Rightarrow> 'e + 'b" where
  "bind_sum r f = (case r of Inl e \<Rightarrow> Inl e | Inr x \<Rightarrow> f x)"

definition observe_new_connection :: "ipv4_address \<Rightarrow> int option \<Rightarrow> datetime \<Rightarrow> source_behavior_state \<Rightarrow> behavior_error + source_behavior_state" where
  "observe_new_connection ip port t s =
     bind_sum (advance t s) (\<lambda>s1. bind_sum (cap_events s1) (\<lambda>s2. Inr (record_connection ip port t s2)))"

definition is_failed_connection_attempt :: "flow \<Rightarrow> bool" where
  "is_failed_connection_attempt f \<longleftrightarrow>
     (if fl_protocol f \<noteq> P_TCP then False
      else if fl_backward_packet_count f \<noteq> 0 then False
      else 1 \<le> fc_syn (fl_tcp_flags f))"

definition record_failed :: "ipv4_address \<Rightarrow> datetime \<Rightarrow> source_behavior_state \<Rightarrow> source_behavior_state" where
  "record_failed ip t s =
     (let tracked = admits (bs_max_destinations s) ip (bs_failures_per_destination s)
      in s\<lparr>bs_failures_per_destination := (if tracked then increment ip (bs_failures_per_destination s)
                                          else bs_failures_per_destination s),
           bs_failures := bs_failures s @ [(t, ip, tracked)]\<rparr>)"

definition observe_completion :: "flow \<Rightarrow> source_behavior_state \<Rightarrow> behavior_error + source_behavior_state" where
  "observe_completion f s =
     bind_sum (advance (fl_last_seen f) s) (\<lambda>s1.
       if \<not> is_failed_connection_attempt f then Inr s1
       else bind_sum (cap_failures s1) (\<lambda>s2. Inr (record_failed (fl_destination_ip f) (fl_last_seen f) s2)))"

definition observe :: "flow \<Rightarrow> source_behavior_state \<Rightarrow> behavior_error + source_behavior_state" where
  "observe f s =
     bind_sum (observe_new_connection (fl_destination_ip f) (fl_destination_port f) (fl_first_seen f) s) (observe_completion f)"

definition note_slow_connections :: "ipv4_address \<Rightarrow> nat \<Rightarrow> datetime \<Rightarrow> source_behavior_state \<Rightarrow> behavior_error + source_behavior_state" where
  "note_slow_connections ip count t s =
     bind_sum (advance t s) (\<lambda>s1.
       Inr (if admits (bs_max_destinations s1) ip (bs_slow_connection_counts s1)
            then s1\<lparr>bs_slow_connection_counts := AList.update ip (count, t) (bs_slow_connection_counts s1)\<rparr>
            else s1))"

definition prune :: "datetime \<Rightarrow> source_behavior_state \<Rightarrow> behavior_error + source_behavior_state" where
  "prune now s = advance now s"

subsection \<open>What is measured\<close>

text \<open>\<open>max(xs, default=0)\<close>.\<close>

definition max_default :: "nat list \<Rightarrow> nat" where
  "max_default xs = foldr max xs 0"

definition max_failures_to_single_destination :: "source_behavior_state \<Rightarrow> nat" where
  "max_failures_to_single_destination s = max_default (map snd (bs_failures_per_destination s))"

definition scanned_port_breadth :: "source_behavior_state \<Rightarrow> nat" where
  "scanned_port_breadth s = max_default (map (\<lambda>(ip, ports_here). length ports_here) (bs_ports_per_destination s))"

definition max_connections_to_single_destination :: "source_behavior_state \<Rightarrow> nat" where
  "max_connections_to_single_destination s = max_default (map snd (bs_connections_per_destination s))"

definition max_concurrent_slow_connections :: "source_behavior_state \<Rightarrow> nat" where
  "max_concurrent_slow_connections s = max_default (map (\<lambda>(ip, count, taken). count) (bs_slow_connection_counts s))"

definition max_recent_connections_to_single_destination :: "source_behavior_state \<Rightarrow> nat" where
  "max_recent_connections_to_single_destination s =
     max_default (map (\<lambda>(ip, moments). length (filter (\<lambda>moment. flood_horizon_of s \<le> moment) moments)) (bs_recent_per_destination s))"

definition streak_seconds :: "source_behavior_state \<Rightarrow> real" where
  "streak_seconds s = total_seconds (bs_last_seen s - bs_streak_started s)"

definition inter_arrival_seconds :: "datetime list \<Rightarrow> real list" where
  "inter_arrival_seconds moments =
     (let ordered = sort moments in map (\<lambda>(earlier, later). total_seconds (later - earlier)) (zip ordered (tl ordered)))"

definition fmean :: "real list \<Rightarrow> real" where
  "fmean xs = sum_list xs / real (length xs)"

definition pstdev :: "real list \<Rightarrow> real" where
  "pstdev xs = sqrt (fmean (map (\<lambda>x. (x - fmean xs)\<^sup>2) xs))"

definition recent_frequency :: "source_behavior_state \<Rightarrow> real" where
  "recent_frequency s =
     (if length (bs_recent_connection_times s) < 2 then 0
      else real (length (bs_recent_connection_times s))
             / max (total_seconds (bs_last_seen s - hd (bs_recent_connection_times s))) 1)"

definition burst_count :: "detection_config \<Rightarrow> source_behavior_state \<Rightarrow> nat" where
  "burst_count c s =
     length (filter (\<lambda>t. total_seconds (bs_last_seen s - t) \<le> dt_burst_window_seconds c) (bs_recent_connection_times s))"

record behavior_format =
  bf_0f :: "real \<Rightarrow> string"
  bf_2f :: "real \<Rightarrow> string"
  bf_3f :: "real \<Rightarrow> string"

text \<open>The patterns of \<open>_assess_state\<close> with their reasons, in its order.\<close>

definition patterns_of :: "behavior_format \<Rightarrow> detection_config \<Rightarrow> source_behavior_state \<Rightarrow> (behavior_pattern_type \<times> string) list" where
  "patterns_of xf c s =
     (let found = (\<lambda>cond pattern reason. if cond then [(pattern, reason)] else []);
          intervals = inter_arrival_seconds (bs_recent_connection_times s);
          cv = pstdev intervals / fmean intervals
      in found (dt_repeated_connections_threshold c \<le> max_connections_to_single_destination s) BP_REPEATED_CONNECTIONS
           (digits (max_connections_to_single_destination s) @ '' connections to a single destination'')
       @ found (dt_high_frequency_per_second_threshold c \<le> recent_frequency s) BP_HIGH_FREQUENCY
           (''connection frequency '' @ bf_2f xf (recent_frequency s) @ ''/s'')
       @ found (dt_burst_count_threshold c \<le> burst_count c s) BP_BURST
           (digits (burst_count c s) @ '' connections within '' @ bf_0f xf (dt_burst_window_seconds c) @ ''s'')
       @ found (dt_persistence_seconds_threshold c \<le> streak_seconds s \<and> 2 \<le> length (bs_events s)) BP_PERSISTENCE
           (''continuously active for '' @ bf_0f xf (streak_seconds s) @ ''s'')
       @ found (dt_destination_diversity_threshold c \<le> length (bs_destination_counts s)) BP_DESTINATION_DIVERSITY
           (digits (length (bs_destination_counts s)) @ '' distinct destinations'')
       @ found (dt_scanning_port_threshold c \<le> scanned_port_breadth s) BP_SCANNING
           (digits (scanned_port_breadth s) @ '' distinct ports on a single destination'')
       @ found (dt_repeated_failures_threshold c \<le> max_failures_to_single_destination s) BP_REPEATED_FAILURES
           (digits (max_failures_to_single_destination s) @ '' unanswered connection attempts to a single destination'')
       @ found (dt_concurrent_slow_connections_threshold c \<le> max_concurrent_slow_connections s) BP_SLOW_RATE_DOS
           (digits (max_concurrent_slow_connections s) @ '' concurrent slow connections to one destination'')
       @ found (dt_flood_connections_per_second_threshold c * dt_burst_window_seconds c
                  \<le> real (max_recent_connections_to_single_destination s)) BP_FLOOD
           (digits (max_recent_connections_to_single_destination s) @ '' new connections to a single destination within ''
              @ bf_0f xf (dt_burst_window_seconds c) @ ''s'')
       @ found (3 \<le> length intervals \<and> 0 < fmean intervals \<and> cv \<le> dt_temporal_pattern_cv_threshold c) BP_TEMPORAL_PATTERN
           (''regular connection timing (cv='' @ bf_3f xf cv @ '')''))"

definition new_behavior_assessment :: "behavior_assessment \<Rightarrow> behavior_assessment option" where
  "new_behavior_assessment b =
     (if 0 \<le> ba_confidence b \<and> ba_confidence b \<le> 1 \<and> ba_description b \<noteq> [] \<and> check_window b then Some b else None)"

definition assess_state :: "behavior_format \<Rightarrow> ipv4_address \<Rightarrow> source_behavior_state \<Rightarrow> detection_config \<Rightarrow> behavior_error + behavior_assessment" where
  "assess_state xf source_ip s c =
     (let found = patterns_of xf c s;
          reasons = map snd found
      in case new_behavior_assessment
              \<lparr>ba_source_ip = source_ip, ba_detected_patterns = map fst found,
               ba_confidence = min 1 (real (length found) / real (length all_patterns)),
               ba_description = (if reasons = [] then ''no notable behavioral patterns observed'' else join ''; '' reasons),
               ba_window_start = max (bs_first_seen s) (bs_last_seen s - seconds (dt_behavior_window_seconds c)),
               ba_window_end = bs_last_seen s\<rparr> of
           None \<Rightarrow> Inl BE_ASSESSMENT | Some b \<Rightarrow> Inr b)"

subsection \<open>The analyzer\<close>

record behavior_analyzer =
  an_config :: detection_config
  an_sources :: "(ipv4_address, source_behavior_state) odict"

definition new_behavior_analyzer :: "detection_config \<Rightarrow> behavior_analyzer" where
  "new_behavior_analyzer c = \<lparr>an_config = c, an_sources = []\<rparr>"

definition configured_state :: "detection_config \<Rightarrow> datetime \<Rightarrow> source_behavior_state" where
  "configured_state c first_seen =
     new_source_state first_seen (dt_max_tracked_destinations_per_source c) (dt_max_tracked_ports_per_source c)
       (dt_recent_connections_window c) (real_of_int (dt_behavior_window_seconds c)) (dt_max_tracked_connections_per_source c)
       (dt_burst_window_seconds c)
       (nat \<lceil>dt_flood_connections_per_second_threshold c * dt_burst_window_seconds c\<rceil> + 1)"

definition get_or_create :: "ipv4_address \<Rightarrow> datetime \<Rightarrow> behavior_analyzer \<Rightarrow> behavior_analyzer" where
  "get_or_create source_ip first_seen a =
     (case map_of (an_sources a) source_ip of
        None \<Rightarrow>
          let sources = (if dt_max_tracked_sources (an_config a) \<le> length (an_sources a) then tl (an_sources a) else an_sources a)
          in a\<lparr>an_sources := AList.update source_ip (configured_state (an_config a) first_seen) sources\<rparr>
      | Some _ \<Rightarrow> a\<lparr>an_sources := od_move_to_end source_ip (an_sources a)\<rparr>)"

text \<open>Changing the state of a source in place.\<close>

definition on_source :: "ipv4_address \<Rightarrow> (source_behavior_state \<Rightarrow> behavior_error + source_behavior_state) \<Rightarrow> behavior_analyzer
    \<Rightarrow> behavior_error + behavior_analyzer" where
  "on_source ip f a =
     (case map_of (an_sources a) ip of
        None \<Rightarrow> Inr a
      | Some s \<Rightarrow> bind_sum (f s) (\<lambda>s'. Inr (a\<lparr>an_sources := AList.update ip s' (an_sources a)\<rparr>)))"

definition an_observe_new_connection :: "ipv4_address \<Rightarrow> ipv4_address \<Rightarrow> int option \<Rightarrow> datetime \<Rightarrow> behavior_analyzer
    \<Rightarrow> behavior_error + behavior_analyzer" where
  "an_observe_new_connection source_ip ip port t a =
     on_source source_ip (observe_new_connection ip port t) (get_or_create source_ip t a)"

definition an_note_slow_connections :: "ipv4_address \<Rightarrow> ipv4_address \<Rightarrow> nat \<Rightarrow> datetime \<Rightarrow> behavior_analyzer
    \<Rightarrow> behavior_error + behavior_analyzer" where
  "an_note_slow_connections source_ip ip count t a =
     on_source source_ip (note_slow_connections ip count t) (get_or_create source_ip t a)"

definition an_observe_completion :: "flow \<Rightarrow> behavior_analyzer \<Rightarrow> behavior_error + behavior_analyzer" where
  "an_observe_completion f a =
     (case map_of (an_sources a) (fl_source_ip f) of
        None \<Rightarrow> if \<not> fl_opened_by_initiation f then Inr a
                else on_source (fl_source_ip f) (observe f) (get_or_create (fl_source_ip f) (fl_first_seen f) a)
      | Some _ \<Rightarrow> on_source (fl_source_ip f) (observe_completion f)
                    (a\<lparr>an_sources := od_move_to_end (fl_source_ip f) (an_sources a)\<rparr>))"

definition an_observe_flow :: "flow \<Rightarrow> behavior_analyzer \<Rightarrow> behavior_error + behavior_analyzer" where
  "an_observe_flow f a = on_source (fl_source_ip f) (observe f) (get_or_create (fl_source_ip f) (fl_first_seen f) a)"

definition assess :: "behavior_format \<Rightarrow> ipv4_address \<Rightarrow> behavior_analyzer \<Rightarrow> behavior_error + behavior_assessment option" where
  "assess xf source_ip a =
     (case map_of (an_sources a) source_ip of
        None \<Rightarrow> Inr None
      | Some s \<Rightarrow> bind_sum (assess_state xf source_ip s (an_config a)) (\<lambda>b. Inr (Some b)))"

definition assess_at :: "behavior_format \<Rightarrow> ipv4_address \<Rightarrow> datetime \<Rightarrow> behavior_analyzer
    \<Rightarrow> behavior_error + (behavior_assessment option \<times> behavior_analyzer)" where
  "assess_at xf source_ip now a =
     bind_sum (on_source source_ip (prune now) a) (\<lambda>a'. bind_sum (assess xf source_ip a') (\<lambda>b. Inr (b, a')))"

subsection \<open>Indexes count the entries that were admitted to them\<close>

definition hits :: "('e \<Rightarrow> 'k option) \<Rightarrow> 'e list \<Rightarrow> 'k \<Rightarrow> nat" where
  "hits sel es k = length (filter (\<lambda>e. sel e = Some k) es)"

definition index_of :: "('e \<Rightarrow> 'k option) \<Rightarrow> 'e list \<Rightarrow> ('k, nat) odict \<Rightarrow> bool" where
  "index_of sel es d \<longleftrightarrow> od_distinct d \<and> (\<forall>k. map_of d k = (if hits sel es k = 0 then None else Some (hits sel es k)))"

lemma hits_simps [simp]:
  "hits sel [] k = 0"
  "hits sel (e # es) k = (if sel e = Some k then Suc (hits sel es k) else hits sel es k)"
  "hits sel (es @ es') k = hits sel es k + hits sel es' k"
  by (simp_all add: hits_def)

lemma hits_zero_iff: "hits sel es k = 0 \<longleftrightarrow> (\<forall>e \<in> set es. sel e \<noteq> Some k)"
  by (auto simp: hits_def filter_empty_conv)

lemma index_ofI:
  "od_distinct d \<Longrightarrow> (\<And>k. map_of d k = (if hits sel es k = 0 then None else Some (hits sel es k))) \<Longrightarrow> index_of sel es d"
  by (simp add: index_of_def)

lemma index_lookup: "index_of sel es d \<Longrightarrow> map_of d k = (if hits sel es k = 0 then None else Some (hits sel es k))"
  by (simp add: index_of_def)

lemma index_distinct: "index_of sel es d \<Longrightarrow> od_distinct d"
  by (simp add: index_of_def)

lemma index_count: "index_of sel es d \<Longrightarrow> count_in d k = hits sel es k"
  by (simp add: count_in_def index_lookup)

lemma index_Nil [simp]: "index_of sel [] []"
  by (simp add: index_of_def)

lemma index_push: "index_of sel es d \<Longrightarrow> sel e = Some k \<Longrightarrow> index_of sel (es @ [e]) (increment k d)"
  by (rule index_ofI) (auto simp: increment_def index_count index_lookup dest: index_distinct)

lemma index_push_skip: "index_of sel es d \<Longrightarrow> sel e = None \<Longrightarrow> index_of sel (es @ [e]) d"
  by (simp add: index_of_def)

lemma index_pop: "index_of sel (e # es) d \<Longrightarrow> sel e = Some k \<Longrightarrow> index_of sel es (decrement k d)"
  by (rule index_ofI) (auto simp: decrement_def index_count index_lookup Let_def dest: index_distinct)

lemma index_pop_skip: "index_of sel (e # es) d \<Longrightarrow> sel e = None \<Longrightarrow> index_of sel es d"
  by (simp add: index_of_def)

lemma index_keys: "index_of sel es d \<Longrightarrow> fst ` set d = {k. \<exists>e \<in> set es. sel e = Some k}"
proof -
  assume i: "index_of sel es d"
  have "k \<in> fst ` set d \<longleftrightarrow> hits sel es k \<noteq> 0" for k
    using index_lookup [OF i, of k] by (metis map_of_None_iff_key option.distinct(1))
  then show ?thesis by (auto simp: hits_zero_iff)
qed

lemma index_length: "index_of sel es d \<Longrightarrow> length d = card {k. \<exists>e \<in> set es. sel e = Some k}"
  using distinct_card [of "map fst d"] by (simp add: index_keys index_distinct)

lemma index_empty_iff: "index_of sel es d \<Longrightarrow> d = [] \<longleftrightarrow> (\<forall>e \<in> set es. sel e = None)"
proof -
  assume "index_of sel es d"
  from index_keys [OF this] have "d = [] \<longleftrightarrow> {k. \<exists>e \<in> set es. sel e = Some k} = {}" by auto
  then show ?thesis unfolding Collect_empty_eq by (metis option.exhaust option.distinct(1))
qed

lemma index_values: "index_of sel es d \<Longrightarrow> (k, n) \<in> set d \<longleftrightarrow> n = hits sel es k \<and> 0 < n"
proof -
  assume i: "index_of sel es d"
  have "(k, n) \<in> set d \<longleftrightarrow> map_of d k = Some n" using index_distinct [OF i] by simp
  then show ?thesis by (auto simp: index_lookup [OF i])
qed

lemma length_increment: "length (increment k d) = (if map_of d k = None then Suc (length d) else length d)"
  by (simp add: increment_def length_od_update map_of_None_iff_key)

lemma length_increment_capped: "length d \<le> cap \<Longrightarrow> admits cap k d \<Longrightarrow> length (increment k d) \<le> cap"
  by (auto simp: length_increment admits_def)

lemma length_decrement: "length (decrement k d) \<le> length d"
proof -
  have "map_of d k \<noteq> None" if "1 < count_in d k" using that by (auto simp: count_in_def split: option.splits)
  then show ?thesis
    by (auto simp: decrement_def Let_def length_od_update map_of_None_iff_key intro: length_od_delete_le)
qed

lemma increment_nonempty [simp]: "increment k d \<noteq> []"
  by (metis length_increment length_0_conv nat.distinct(1) map_of.simps(1))

text \<open>A counting dictionary of counting dictionaries: the inner one of every outer key is an index, and none is empty.\<close>

definition nested_at :: "('i, ('k, nat) odict) odict \<Rightarrow> 'i \<Rightarrow> ('k, nat) odict" where
  "nested_at m i = (case map_of m i of None \<Rightarrow> [] | Some d \<Rightarrow> d)"

definition nested_index :: "('i \<Rightarrow> 'e \<Rightarrow> 'k option) \<Rightarrow> 'e list \<Rightarrow> ('i, ('k, nat) odict) odict \<Rightarrow> bool" where
  "nested_index sel es m \<longleftrightarrow> od_distinct m \<and> (\<forall>i. index_of (sel i) es (nested_at m i)) \<and> (\<forall>i. map_of m i \<noteq> Some [])"

lemma nested_Nil [simp]: "nested_index sel [] []"
  by (simp add: nested_index_def nested_at_def)

lemma nested_at_update [simp]: "nested_at (AList.update i d m) j = (if j = i then d else nested_at m j)"
  by (simp add: nested_at_def)

lemma nested_at_delete [simp]: "nested_at (AList.delete i m) j = (if j = i then [] else nested_at m j)"
  by (simp add: nested_at_def)

lemma nested_push:
  assumes n: "nested_index sel es m" and sel: "sel i e = Some k" "\<And>j. j \<noteq> i \<Longrightarrow> sel j e = None"
  shows "nested_index sel (es @ [e]) (AList.update i (increment k (nested_at m i)) m)"
proof -
  have i: "index_of (sel i) (es @ [e]) (increment k (nested_at m i))" using n sel by (auto simp: nested_index_def intro: index_push)
  have o: "index_of (sel j) (es @ [e]) (nested_at m j)" if "j \<noteq> i" for j
    using n sel(2) [OF that] by (auto simp: nested_index_def intro: index_push_skip)
  show ?thesis using n i o unfolding nested_index_def by (simp del: map_of_eq_Some_iff)
qed

lemma nested_push_skip:
  "nested_index sel es m \<Longrightarrow> (\<And>j. sel j e = None) \<Longrightarrow> nested_index sel (es @ [e]) m"
  by (simp add: nested_index_def index_push_skip)

lemma nested_pop:
  assumes n: "nested_index sel (e # es) m" and sel: "sel i e = Some k" "\<And>j. j \<noteq> i \<Longrightarrow> sel j e = None"
  shows "nested_index sel es (if decrement k (nested_at m i) = [] then AList.delete i m else AList.update i (decrement k (nested_at m i)) m)"
proof -
  have i: "index_of (sel i) es (decrement k (nested_at m i))" using n sel by (auto simp: nested_index_def intro: index_pop)
  have o: "index_of (sel j) es (nested_at m j)" if "j \<noteq> i" for j
    using n sel(2) [OF that] by (auto simp: nested_index_def intro: index_pop_skip)
  show ?thesis
    using n i o by (cases "decrement k (nested_at m i) = []") (simp_all add: nested_index_def del: map_of_eq_Some_iff)
qed

lemma nested_pop_skip:
  "nested_index sel (e # es) m \<Longrightarrow> (\<And>j. sel j e = None) \<Longrightarrow> nested_index sel es m"
  by (auto simp: nested_index_def intro: index_pop_skip)

lemma nested_present: "nested_index sel es m \<Longrightarrow> e \<in> set es \<Longrightarrow> sel i e \<noteq> None \<Longrightarrow> map_of m i = Some (nested_at m i)"
proof -
  assume n: "nested_index sel es m" "e \<in> set es" "sel i e \<noteq> None"
  then have "nested_at m i \<noteq> []" using index_empty_iff [of "sel i" es "nested_at m i"] by (auto simp: nested_index_def)
  then show ?thesis by (auto simp: nested_at_def split: option.splits)
qed

subsection \<open>The invariant of one source\<close>

definition sel_destination :: "connection_event \<Rightarrow> ipv4_address option" where
  "sel_destination e = (if ce_destination_tracked e then Some (ce_destination_ip e) else None)"

definition sel_port :: "connection_event \<Rightarrow> int option" where
  "sel_port e = (if ce_global_port_tracked e then ce_destination_port e else None)"

definition sel_port_on :: "ipv4_address \<Rightarrow> connection_event \<Rightarrow> int option" where
  "sel_port_on ip e = (if ce_port_tracked e \<and> ce_destination_ip e = ip then ce_destination_port e else None)"

definition sel_pair :: "connection_event \<Rightarrow> (ipv4_address \<times> int option) option" where
  "sel_pair e = (if ce_pair_tracked e then Some (ce_destination_ip e, ce_destination_port e) else None)"

definition sel_failed :: "datetime \<times> ipv4_address \<times> bool \<Rightarrow> ipv4_address option" where
  "sel_failed f = (if snd (snd f) then Some (fst (snd f)) else None)"

lemmas sel_defs = sel_destination_def sel_port_def sel_port_on_def sel_pair_def sel_failed_def

text \<open>Every index counts exactly the live entries it admitted.\<close>

definition indexes_exact :: "source_behavior_state \<Rightarrow> bool" where
  "indexes_exact s \<longleftrightarrow>
     index_of sel_destination (bs_events s) (bs_destination_counts s)
     \<and> index_of sel_port (bs_events s) (bs_ports s)
     \<and> nested_index sel_port_on (bs_events s) (bs_ports_per_destination s)
     \<and> index_of sel_pair (bs_events s) (bs_connections_per_destination s)
     \<and> index_of sel_failed (bs_failures s) (bs_failures_per_destination s)"

text \<open>Every collection is within its cap.\<close>

definition within_caps :: "source_behavior_state \<Rightarrow> bool" where
  "within_caps s \<longleftrightarrow>
     length (bs_events s) \<le> bs_max_events s \<and> length (bs_failures s) \<le> bs_max_events s
     \<and> length (bs_destination_counts s) \<le> bs_max_destinations s \<and> length (bs_ports s) \<le> bs_max_ports s
     \<and> length (bs_ports_per_destination s) \<le> bs_max_destinations s
     \<and> od_all (\<lambda>d. length d \<le> bs_max_ports s) (bs_ports_per_destination s)
     \<and> length (bs_connections_per_destination s) \<le> bs_max_destinations s
     \<and> length (bs_failures_per_destination s) \<le> bs_max_destinations s
     \<and> length (bs_recent_connection_times s) \<le> bs_max_recent s
     \<and> length (bs_slow_connection_counts s) \<le> bs_max_destinations s
     \<and> length (bs_recent_per_destination s) \<le> bs_max_destinations s
     \<and> od_all (\<lambda>moments. moments \<noteq> [] \<and> length moments \<le> bs_max_flood_entries s) (bs_recent_per_destination s)"

definition state_shape :: "source_behavior_state \<Rightarrow> bool" where
  "state_shape s \<longleftrightarrow> 0 < bs_max_events s \<and> 0 < bs_max_ports s \<and> 0 < bs_max_flood_entries s
     \<and> bs_first_seen s \<le> bs_last_seen s \<and> bs_streak_started s \<le> bs_last_seen s
     \<and> (\<forall>e \<in> set (bs_events s). ce_port_tracked e \<longrightarrow> ce_destination_tracked e \<and> ce_destination_port e \<noteq> None)
     \<and> (\<forall>e \<in> set (bs_events s). ce_global_port_tracked e \<longrightarrow> ce_destination_port e \<noteq> None)
     \<and> od_distinct (bs_recent_per_destination s) \<and> od_distinct (bs_slow_connection_counts s)"

definition source_inv :: "source_behavior_state \<Rightarrow> bool" where
  "source_inv s \<longleftrightarrow> indexes_exact s \<and> within_caps s \<and> state_shape s"

lemma source_inv_new:
  "0 < max_events \<Longrightarrow> 0 < max_ports \<Longrightarrow> 0 < max_flood_entries \<Longrightarrow>
     source_inv (new_source_state first_seen max_destinations max_ports max_recent w max_events fw max_flood_entries)"
  by (simp add: source_inv_def indexes_exact_def within_caps_def state_shape_def new_source_state_def)

text \<open>Expiring the oldest live connection takes it out of every index that had admitted it.\<close>

lemma expire_event_params [simp]:
  "bs_events (expire_event e s) = bs_events s" "bs_failures (expire_event e s) = bs_failures s"
  "bs_last_seen (expire_event e s) = bs_last_seen s" "bs_first_seen (expire_event e s) = bs_first_seen s"
  "bs_streak_started (expire_event e s) = bs_streak_started s" "bs_window_seconds (expire_event e s) = bs_window_seconds s"
  "bs_max_events (expire_event e s) = bs_max_events s" "bs_max_destinations (expire_event e s) = bs_max_destinations s"
  "bs_max_ports (expire_event e s) = bs_max_ports s" "bs_max_recent (expire_event e s) = bs_max_recent s"
  "bs_failures_per_destination (expire_event e s) = bs_failures_per_destination s"
  "bs_recent_connection_times (expire_event e s) = bs_recent_connection_times s"
  "bs_slow_connection_counts (expire_event e s) = bs_slow_connection_counts s"
  "bs_flood_window_seconds (expire_event e s) = bs_flood_window_seconds s"
  "bs_max_flood_entries (expire_event e s) = bs_max_flood_entries s"
  "bs_recent_per_destination (expire_event e s) = bs_recent_per_destination s"
  by (simp_all add: expire_event_def)

lemma expire_failure_params [simp]:
  "bs_events (expire_failure f s) = bs_events s" "bs_failures (expire_failure f s) = bs_failures s"
  "bs_last_seen (expire_failure f s) = bs_last_seen s" "bs_first_seen (expire_failure f s) = bs_first_seen s"
  "bs_streak_started (expire_failure f s) = bs_streak_started s" "bs_window_seconds (expire_failure f s) = bs_window_seconds s"
  "bs_max_events (expire_failure f s) = bs_max_events s" "bs_max_destinations (expire_failure f s) = bs_max_destinations s"
  "bs_max_ports (expire_failure f s) = bs_max_ports s" "bs_max_recent (expire_failure f s) = bs_max_recent s"
  "bs_destination_counts (expire_failure f s) = bs_destination_counts s" "bs_ports (expire_failure f s) = bs_ports s"
  "bs_ports_per_destination (expire_failure f s) = bs_ports_per_destination s"
  "bs_connections_per_destination (expire_failure f s) = bs_connections_per_destination s"
  "bs_recent_connection_times (expire_failure f s) = bs_recent_connection_times s"
  "bs_slow_connection_counts (expire_failure f s) = bs_slow_connection_counts s"
  "bs_flood_window_seconds (expire_failure f s) = bs_flood_window_seconds s"
  "bs_max_flood_entries (expire_failure f s) = bs_max_flood_entries s"
  "bs_recent_per_destination (expire_failure f s) = bs_recent_per_destination s"
  by (simp_all add: expire_failure_def)

lemma pop_destination:
  "index_of sel_destination (e # es) (bs_destination_counts s) \<Longrightarrow>
     index_of sel_destination es (bs_destination_counts (expire_event e s))"
  by (auto simp: expire_event_def sel_destination_def intro: index_pop index_pop_skip)

lemma pop_port: "index_of sel_port (e # es) (bs_ports s) \<Longrightarrow> index_of sel_port es (bs_ports (expire_event e s))"
  by (auto simp: expire_event_def sel_port_def split: option.splits intro: index_pop index_pop_skip)

lemma pop_pair:
  "index_of sel_pair (e # es) (bs_connections_per_destination s) \<Longrightarrow>
     index_of sel_pair es (bs_connections_per_destination (expire_event e s))"
  by (auto simp: expire_event_def sel_pair_def intro: index_pop index_pop_skip)

lemma pop_port_on:
  assumes "nested_index sel_port_on (e # es) (bs_ports_per_destination s)"
  shows "nested_index sel_port_on es (bs_ports_per_destination (expire_event e s))"
proof (cases "ce_port_tracked e \<and> ce_destination_port e \<noteq> None")
  case True
  then obtain p where p: "ce_destination_port e = Some p" "ce_port_tracked e" by auto
  then have "map_of (bs_ports_per_destination s) (ce_destination_ip e) = Some (nested_at (bs_ports_per_destination s) (ce_destination_ip e))"
    by (intro nested_present [OF assms, of e]) (auto simp: sel_port_on_def)
  then have "bs_ports_per_destination (expire_event e s) =
      (if decrement p (nested_at (bs_ports_per_destination s) (ce_destination_ip e)) = []
       then AList.delete (ce_destination_ip e) (bs_ports_per_destination s)
       else AList.update (ce_destination_ip e) (decrement p (nested_at (bs_ports_per_destination s) (ce_destination_ip e)))
              (bs_ports_per_destination s))"
    using p by (simp add: expire_event_def Let_def)
  then show ?thesis using nested_pop [OF assms, of "ce_destination_ip e" p] p by (simp add: sel_port_on_def)
next
  case False
  then have "bs_ports_per_destination (expire_event e s) = bs_ports_per_destination s"
    by (auto simp: expire_event_def split: option.splits)
  then show ?thesis using nested_pop_skip [OF assms] False by (auto simp: sel_port_on_def)
qed

lemma pop_failed:
  "index_of sel_failed (f # fs) (bs_failures_per_destination s) \<Longrightarrow>
     index_of sel_failed fs (bs_failures_per_destination (expire_failure f s))"
  by (auto simp: expire_failure_def sel_failed_def intro: index_pop index_pop_skip)

lemma od_all_mono: "od_all P d \<Longrightarrow> (\<And>v. P v \<Longrightarrow> Q v) \<Longrightarrow> od_all Q d"
  by (auto simp: od_all_def)

lemma expire_event_shrinks:
  "length (bs_destination_counts (expire_event e s)) \<le> length (bs_destination_counts s)"
  "length (bs_ports (expire_event e s)) \<le> length (bs_ports s)"
  "length (bs_connections_per_destination (expire_event e s)) \<le> length (bs_connections_per_destination s)"
  by (simp_all add: expire_event_def length_decrement split: option.splits)

lemma expire_event_caps:
  assumes "length (bs_ports_per_destination s) \<le> n" "od_all (\<lambda>d. length d \<le> m) (bs_ports_per_destination s)"
  shows "length (bs_ports_per_destination (expire_event e s)) \<le> n"
    "od_all (\<lambda>d. length d \<le> m) (bs_ports_per_destination (expire_event e s))"
proof -
  show "length (bs_ports_per_destination (expire_event e s)) \<le> n"
    using assms(1) by (auto simp: expire_event_def Let_def length_od_update intro: order_trans [OF length_od_delete_le]
        dest: map_of_Some_key split: option.splits)
  have "length (decrement p d) \<le> m" if "map_of (bs_ports_per_destination s) ip = Some d" for p d ip
    using length_decrement [of p d] od_all_lookup [OF assms(2) that] by simp
  then show "od_all (\<lambda>d. length d \<le> m) (bs_ports_per_destination (expire_event e s))"
    using assms(2) by (auto simp: expire_event_def Let_def simp del: map_of_eq_Some_iff split: option.splits)
qed

lemma expire_event_inv:
  assumes "source_inv s" "bs_events s = e # es"
  shows "source_inv (expire_event e (s\<lparr>bs_events := es\<rparr>))"
proof -
  let ?s = "s\<lparr>bs_events := es\<rparr>"
  have x: "indexes_exact s" "within_caps s" "state_shape s" using assms by (auto simp: source_inv_def)
  have "indexes_exact (expire_event e ?s)"
    using x(1) assms(2) pop_destination [of e es ?s] pop_port [of e es ?s] pop_pair [of e es ?s] pop_port_on [of e es ?s]
    by (simp add: indexes_exact_def)
  moreover have "within_caps (expire_event e ?s)"
    using x(2) assms(2) expire_event_caps [of ?s "bs_max_destinations s" "bs_max_ports s" e] expire_event_shrinks [of e ?s]
    by (simp add: within_caps_def)
  moreover have "state_shape (expire_event e ?s)" using x(3) assms(2) by (auto simp: state_shape_def)
  ultimately show ?thesis by (simp add: source_inv_def)
qed

lemma expire_failure_inv:
  assumes "source_inv s" "bs_failures s = f # fs"
  shows "source_inv (expire_failure f (s\<lparr>bs_failures := fs\<rparr>))"
proof -
  let ?s = "s\<lparr>bs_failures := fs\<rparr>"
  have x: "indexes_exact s" "within_caps s" "state_shape s" using assms by (auto simp: source_inv_def)
  have "length (bs_failures_per_destination (expire_failure f ?s)) \<le> length (bs_failures_per_destination s)"
    by (simp add: expire_failure_def length_decrement)
  then have "within_caps (expire_failure f ?s)" using x(2) assms(2) by (simp add: within_caps_def)
  moreover have "indexes_exact (expire_failure f ?s)"
    using x(1) assms(2) pop_failed [of f fs ?s] by (simp add: indexes_exact_def)
  moreover have "state_shape (expire_failure f ?s)" using x(3) by (simp add: state_shape_def)
  ultimately show ?thesis by (simp add: source_inv_def)
qed

text \<open>The loops of \<open>_advance\<close> keep the invariant and pop exactly the expired prefix.\<close>

lemma expire_events_inv: "source_inv s \<Longrightarrow> bs_events s = es \<Longrightarrow> source_inv (expire_events h es s)"
  by (induction h es s rule: expire_events.induct) (auto intro: expire_event_inv)

lemma expire_failures_inv: "source_inv s \<Longrightarrow> bs_failures s = fs \<Longrightarrow> source_inv (expire_failures h fs s)"
  by (induction h fs s rule: expire_failures.induct) (auto intro: expire_failure_inv)

lemma expire_events_params:
  assumes "bs_events s = es"
  shows "bs_events (expire_events h es s) = dropWhile (\<lambda>e. ce_timestamp e < h) es"
    "bs_failures (expire_events h es s) = bs_failures s" "bs_last_seen (expire_events h es s) = bs_last_seen s"
    "bs_first_seen (expire_events h es s) = bs_first_seen s" "bs_window_seconds (expire_events h es s) = bs_window_seconds s"
    "bs_max_events (expire_events h es s) = bs_max_events s" "bs_max_destinations (expire_events h es s) = bs_max_destinations s"
    "bs_max_ports (expire_events h es s) = bs_max_ports s" "bs_max_recent (expire_events h es s) = bs_max_recent s"
    "bs_max_flood_entries (expire_events h es s) = bs_max_flood_entries s"
    "bs_flood_window_seconds (expire_events h es s) = bs_flood_window_seconds s"
    "bs_recent_per_destination (expire_events h es s) = bs_recent_per_destination s"
    "bs_slow_connection_counts (expire_events h es s) = bs_slow_connection_counts s"
    "bs_recent_connection_times (expire_events h es s) = bs_recent_connection_times s"
  using assms by (induction h es s rule: expire_events.induct) simp_all

lemma expire_failures_params:
  assumes "bs_failures s = fs"
  shows "bs_failures (expire_failures h fs s) = dropWhile (\<lambda>f. fst f < h) fs"
    "bs_events (expire_failures h fs s) = bs_events s" "bs_last_seen (expire_failures h fs s) = bs_last_seen s"
    "bs_first_seen (expire_failures h fs s) = bs_first_seen s" "bs_window_seconds (expire_failures h fs s) = bs_window_seconds s"
    "bs_max_events (expire_failures h fs s) = bs_max_events s" "bs_max_destinations (expire_failures h fs s) = bs_max_destinations s"
    "bs_max_ports (expire_failures h fs s) = bs_max_ports s" "bs_max_recent (expire_failures h fs s) = bs_max_recent s"
    "bs_max_flood_entries (expire_failures h fs s) = bs_max_flood_entries s"
    "bs_flood_window_seconds (expire_failures h fs s) = bs_flood_window_seconds s"
    "bs_recent_per_destination (expire_failures h fs s) = bs_recent_per_destination s"
    "bs_slow_connection_counts (expire_failures h fs s) = bs_slow_connection_counts s"
    "bs_recent_connection_times (expire_failures h fs s) = bs_recent_connection_times s"
  using assms by (induction h fs s rule: expire_failures.induct) simp_all

lemma move_clock_params [simp]:
  "bs_last_seen (move_clock t s) = max t (bs_last_seen s)" "bs_events (move_clock t s) = bs_events s"
  "bs_failures (move_clock t s) = bs_failures s" "bs_first_seen (move_clock t s) = bs_first_seen s"
  "bs_window_seconds (move_clock t s) = bs_window_seconds s" "bs_max_events (move_clock t s) = bs_max_events s"
  "bs_max_destinations (move_clock t s) = bs_max_destinations s" "bs_max_ports (move_clock t s) = bs_max_ports s"
  "bs_max_recent (move_clock t s) = bs_max_recent s" "bs_max_flood_entries (move_clock t s) = bs_max_flood_entries s"
  "bs_flood_window_seconds (move_clock t s) = bs_flood_window_seconds s"
  "bs_recent_per_destination (move_clock t s) = bs_recent_per_destination s"
  "bs_slow_connection_counts (move_clock t s) = bs_slow_connection_counts s"
  "bs_recent_connection_times (move_clock t s) = bs_recent_connection_times s"
  by (simp_all add: move_clock_def max_def)

lemma move_clock_inv: "source_inv s \<Longrightarrow> source_inv (move_clock t s)"
  by (auto simp: source_inv_def indexes_exact_def within_caps_def state_shape_def move_clock_def)

text \<open>What \<open>_advance\<close> leaves.\<close>

definition advanced :: "datetime \<Rightarrow> source_behavior_state \<Rightarrow> source_behavior_state" where
  "advanced t s =
     (let s1 = move_clock t s;
          s2 = expire_events (horizon_of s1) (bs_events s1) s1;
          s3 = expire_failures (horizon_of s1) (bs_failures s2) s2
      in s3\<lparr>bs_recent_per_destination := filter (\<lambda>(ip, moments). \<not> last moments < flood_horizon_of s1) (bs_recent_per_destination s3),
            bs_slow_connection_counts := filter (\<lambda>(ip, count, taken). \<not> taken < horizon_of s1) (bs_slow_connection_counts s3)\<rparr>)"

lemma advanced_params [simp]:
  "bs_last_seen (advanced t s) = max t (bs_last_seen s)" "bs_first_seen (advanced t s) = bs_first_seen s"
  "bs_window_seconds (advanced t s) = bs_window_seconds s" "bs_max_events (advanced t s) = bs_max_events s"
  "bs_max_destinations (advanced t s) = bs_max_destinations s" "bs_max_ports (advanced t s) = bs_max_ports s"
  "bs_max_recent (advanced t s) = bs_max_recent s" "bs_max_flood_entries (advanced t s) = bs_max_flood_entries s"
  "bs_flood_window_seconds (advanced t s) = bs_flood_window_seconds s"
  "bs_recent_connection_times (advanced t s) = bs_recent_connection_times s"
  by (simp_all add: advanced_def Let_def expire_events_params expire_failures_params)

lemma advanced_events:
  "bs_events (advanced t s) =
     dropWhile (\<lambda>e. ce_timestamp e < max t (bs_last_seen s) - timedelta_seconds (bs_window_seconds s)) (bs_events s)"
  "bs_failures (advanced t s) =
     dropWhile (\<lambda>f. fst f < max t (bs_last_seen s) - timedelta_seconds (bs_window_seconds s)) (bs_failures s)"
  by (simp_all add: advanced_def Let_def expire_events_params expire_failures_params horizon_of_def)

lemma distinct_map_fst_filter: "od_distinct d \<Longrightarrow> od_distinct (filter P d)"
  by (rule distinct_map_filter)

lemma od_all_filter: "od_all P d \<Longrightarrow> od_all P (filter Q d)"
  by (auto simp: od_all_def)

lemma filtered_inv:
  "source_inv s \<Longrightarrow> source_inv (s\<lparr>bs_recent_per_destination := filter P (bs_recent_per_destination s),
                                 bs_slow_connection_counts := filter Q (bs_slow_connection_counts s)\<rparr>)"
  by (simp add: source_inv_def indexes_exact_def within_caps_def state_shape_def distinct_map_fst_filter od_all_filter
      order_trans [OF length_filter_le])

lemma advanced_inv: "source_inv s \<Longrightarrow> source_inv (advanced t s)"
  by (simp add: advanced_def Let_def filtered_inv expire_failures_inv expire_events_inv move_clock_inv)

lemma advance_ok: "source_inv s \<Longrightarrow> advance t s = Inr (advanced t s)"
proof -
  assume i: "source_inv s"
  then have "\<not> list_ex (\<lambda>(ip, moments). moments = []) (bs_recent_per_destination s)"
    by (auto simp: source_inv_def within_caps_def od_all_def list_ex_iff)
  then show ?thesis by (simp add: advance_def advanced_def Let_def expire_events_params expire_failures_params)
qed

text \<open>Recording a connection or a failure.\<close>

definition opened :: "ipv4_address \<Rightarrow> int option \<Rightarrow> datetime \<Rightarrow> source_behavior_state \<Rightarrow> connection_event" where
  "opened ip port t s =
     (let destination_tracked = admits (bs_max_destinations s) ip (bs_destination_counts s)
      in \<lparr>ce_timestamp = t, ce_destination_ip = ip, ce_destination_port = port, ce_destination_tracked = destination_tracked,
          ce_port_tracked = (case port of None \<Rightarrow> False
                             | Some p \<Rightarrow> destination_tracked \<and> admits (bs_max_ports s) p (ports_on s ip)),
          ce_global_port_tracked = (case port of None \<Rightarrow> False | Some p \<Rightarrow> admits (bs_max_ports s) p (bs_ports s)),
          ce_pair_tracked = admits (bs_max_destinations s) (ip, port) (bs_connections_per_destination s)\<rparr>)"

lemma opened_sel [simp]:
  "ce_timestamp (opened ip port t s) = t" "ce_destination_ip (opened ip port t s) = ip"
  "ce_destination_port (opened ip port t s) = port"
  "ce_destination_tracked (opened ip port t s) = admits (bs_max_destinations s) ip (bs_destination_counts s)"
  "ce_port_tracked (opened ip port t s) = (case port of None \<Rightarrow> False
     | Some p \<Rightarrow> admits (bs_max_destinations s) ip (bs_destination_counts s) \<and> admits (bs_max_ports s) p (ports_on s ip))"
  "ce_global_port_tracked (opened ip port t s) = (case port of None \<Rightarrow> False | Some p \<Rightarrow> admits (bs_max_ports s) p (bs_ports s))"
  "ce_pair_tracked (opened ip port t s) = admits (bs_max_destinations s) (ip, port) (bs_connections_per_destination s)"
  by (simp_all add: opened_def Let_def)

lemma record_connection_params [simp]:
  "bs_events (record_connection ip port t s) = bs_events s @ [opened ip port t s]"
  "bs_failures (record_connection ip port t s) = bs_failures s"
  "bs_failures_per_destination (record_connection ip port t s) = bs_failures_per_destination s"
  "bs_last_seen (record_connection ip port t s) = bs_last_seen s" "bs_first_seen (record_connection ip port t s) = bs_first_seen s"
  "bs_streak_started (record_connection ip port t s) = bs_streak_started s"
  "bs_window_seconds (record_connection ip port t s) = bs_window_seconds s"
  "bs_max_events (record_connection ip port t s) = bs_max_events s"
  "bs_max_destinations (record_connection ip port t s) = bs_max_destinations s"
  "bs_max_ports (record_connection ip port t s) = bs_max_ports s" "bs_max_recent (record_connection ip port t s) = bs_max_recent s"
  "bs_max_flood_entries (record_connection ip port t s) = bs_max_flood_entries s"
  "bs_flood_window_seconds (record_connection ip port t s) = bs_flood_window_seconds s"
  "bs_slow_connection_counts (record_connection ip port t s) = bs_slow_connection_counts s"
  "bs_recent_connection_times (record_connection ip port t s) = deque_append (bs_max_recent s) t (bs_recent_connection_times s)"
  "bs_recent_per_destination (record_connection ip port t s) = remember_flood ip t s"
  by (simp_all add: record_connection_def opened_def Let_def)

lemma ports_on_nested: "ports_on s ip = nested_at (bs_ports_per_destination s) ip"
  by (simp add: ports_on_def nested_at_def)

lemma record_destination:
  "bs_destination_counts (record_connection ip port t s) =
     (case sel_destination (opened ip port t s) of None \<Rightarrow> bs_destination_counts s | Some k \<Rightarrow> increment k (bs_destination_counts s))"
  by (simp add: record_connection_def sel_destination_def Let_def)

lemma record_port:
  "bs_ports (record_connection ip port t s) =
     (case sel_port (opened ip port t s) of None \<Rightarrow> bs_ports s | Some k \<Rightarrow> increment k (bs_ports s))"
  by (simp add: record_connection_def sel_port_def Let_def split: option.splits)

lemma record_pair:
  "bs_connections_per_destination (record_connection ip port t s) =
     (case sel_pair (opened ip port t s) of None \<Rightarrow> bs_connections_per_destination s
      | Some k \<Rightarrow> increment k (bs_connections_per_destination s))"
  by (simp add: record_connection_def sel_pair_def Let_def)

lemma index_case:
  "index_of sel es d \<Longrightarrow> index_of sel (es @ [e]) (case sel e of None \<Rightarrow> d | Some k \<Rightarrow> increment k d)"
  by (auto intro: index_push index_push_skip split: option.split)

text \<open>A destination whose counter is admitted has room for its first port, so no empty dictionary is left behind.\<close>

lemma admits_first: "0 < cap \<Longrightarrow> admits cap k []"
  by (simp add: admits_def)

lemma record_port_on:
  assumes "nested_index sel_port_on (bs_events s) (bs_ports_per_destination s)" "0 < bs_max_ports s"
  shows "nested_index sel_port_on (bs_events s @ [opened ip port t s]) (bs_ports_per_destination (record_connection ip port t s))"
proof -
  let ?e = "opened ip port t s" and ?m = "bs_ports_per_destination s"
  have other: "sel_port_on j ?e = None" if "j \<noteq> ip" for j using that by (simp add: sel_port_on_def)
  show ?thesis
  proof (cases "sel_port_on ip ?e")
    case (Some p)
    then have "bs_ports_per_destination (record_connection ip port t s) = AList.update ip (increment p (nested_at ?m ip)) ?m"
      by (auto simp: sel_port_on_def record_connection_def Let_def ports_on_nested split: if_splits option.splits)
    then show ?thesis using nested_push [OF assms(1) Some other] by simp
  next
    case None
    have skip: "nested_index sel_port_on (bs_events s @ [?e]) ?m" using None other by (intro nested_push_skip [OF assms(1)]) metis
    have nonempty: "nested_at ?m ip \<noteq> []" if "port = Some p" "ce_destination_tracked ?e" for p
      using None that admits_first [OF assms(2), of p]
      by (auto simp: sel_port_on_def ports_on_nested Let_def split: if_splits)
    then have "nested_index sel_port_on (bs_events s @ [?e]) (AList.update ip (nested_at ?m ip) ?m)"
      if "port = Some p" "ce_destination_tracked ?e" for p
      using that skip nonempty [OF that] by (simp add: nested_index_def del: map_of_eq_Some_iff)
    then show ?thesis using None skip
      by (auto simp: sel_port_on_def record_connection_def Let_def ports_on_nested split: if_splits option.splits)
  qed
qed

lemma record_indexes: "indexes_exact s \<Longrightarrow> 0 < bs_max_ports s \<Longrightarrow> indexes_exact (record_connection ip port t s)"
  by (simp add: indexes_exact_def record_destination record_port record_pair index_case record_port_on)

lemma nested_keys_tracked:
  assumes "nested_index sel_port_on (bs_events s) (bs_ports_per_destination s)"
    "index_of sel_destination (bs_events s) (bs_destination_counts s)"
    "\<forall>e \<in> set (bs_events s). ce_port_tracked e \<longrightarrow> ce_destination_tracked e \<and> ce_destination_port e \<noteq> None"
  shows "length (bs_ports_per_destination s) \<le> length (bs_destination_counts s)"
proof -
  have "fst ` set (bs_ports_per_destination s) \<subseteq> fst ` set (bs_destination_counts s)"
  proof
    fix ip assume "ip \<in> fst ` set (bs_ports_per_destination s)"
    then obtain d where d: "map_of (bs_ports_per_destination s) ip = Some d" by (metis map_of_None_iff_key option.exhaust)
    then have "nested_at (bs_ports_per_destination s) ip \<noteq> []"
      using assms(1) by (auto simp: nested_index_def nested_at_def simp del: map_of_eq_Some_iff)
    moreover have "index_of (sel_port_on ip) (bs_events s) (nested_at (bs_ports_per_destination s) ip)"
      using assms(1) by (simp add: nested_index_def)
    ultimately obtain e where "e \<in> set (bs_events s)" "sel_port_on ip e \<noteq> None" by (metis index_empty_iff)
    then have "e \<in> set (bs_events s)" "sel_destination e = Some ip" using assms(3)
      by (auto simp: sel_port_on_def sel_destination_def split: if_splits)
    then show "ip \<in> fst ` set (bs_destination_counts s)" by (auto simp: index_keys [OF assms(2)])
  qed
  then have "card (fst ` set (bs_ports_per_destination s)) \<le> card (fst ` set (bs_destination_counts s))"
    by (intro card_mono) auto
  moreover have "od_distinct (bs_ports_per_destination s)" "od_distinct (bs_destination_counts s)"
    using assms(1,2) by (auto simp: nested_index_def index_of_def)
  ultimately show ?thesis by (metis distinct_card length_map set_map)
qed

lemma remember_flood_ok:
  assumes "od_distinct (bs_recent_per_destination s)" "length (bs_recent_per_destination s) \<le> bs_max_destinations s"
    "od_all (\<lambda>moments. moments \<noteq> [] \<and> length moments \<le> bs_max_flood_entries s) (bs_recent_per_destination s)"
    "0 < bs_max_flood_entries s"
  shows "od_distinct (remember_flood ip t s)" "length (remember_flood ip t s) \<le> bs_max_destinations s"
    "od_all (\<lambda>moments. moments \<noteq> [] \<and> length moments \<le> bs_max_flood_entries s) (remember_flood ip t s)"
proof -
  have d: "deque_append (bs_max_flood_entries s) t ms \<noteq> [] \<and> length (deque_append (bs_max_flood_entries s) t ms) \<le> bs_max_flood_entries s" for ms
    using assms(4) by (auto simp: deque_append_def Let_def)
  show "od_distinct (remember_flood ip t s)" using assms(1) by (simp add: remember_flood_def split: option.splits)
  show "length (remember_flood ip t s) \<le> bs_max_destinations s"
    using assms(2) by (auto simp: remember_flood_def length_od_update simp del: map_of_eq_Some_iff split: option.splits dest: map_of_Some_key)
  show "od_all (\<lambda>moments. moments \<noteq> [] \<and> length moments \<le> bs_max_flood_entries s) (remember_flood ip t s)"
    using assms(3) d by (auto simp: remember_flood_def simp del: map_of_eq_Some_iff intro!: od_all_update split: option.splits)
qed

lemma length_case_increment:
  "length d \<le> cap \<Longrightarrow> (\<And>k. r = Some k \<Longrightarrow> admits cap k d) \<Longrightarrow>
     length (case r of None \<Rightarrow> d | Some k \<Rightarrow> increment k d) \<le> cap"
  by (cases r) (auto intro: length_increment_capped)

lemma record_port_on_caps:
  assumes "od_all (\<lambda>d. length d \<le> bs_max_ports s) (bs_ports_per_destination s)"
  shows "od_all (\<lambda>d. length d \<le> bs_max_ports s) (bs_ports_per_destination (record_connection ip port t s))"
proof -
  have "length (ports_on s ip) \<le> bs_max_ports s"
    using assms by (auto simp: ports_on_def simp del: map_of_eq_Some_iff dest: od_all_lookup split: option.splits)
  then show ?thesis using assms
    by (auto simp: record_connection_def Let_def length_increment_capped intro!: od_all_update split: option.splits)
qed

lemma record_inv:
  assumes "source_inv s" "length (bs_events s) < bs_max_events s"
  shows "source_inv (record_connection ip port t s)"
proof -
  let ?s = "record_connection ip port t s"
  have x: "indexes_exact s" "within_caps s" "state_shape s" using assms by (auto simp: source_inv_def)
  have shape: "state_shape ?s" using x(2,3) remember_flood_ok [of s ip t]
    by (auto simp: state_shape_def within_caps_def split: option.splits)
  have exact: "indexes_exact ?s" using record_indexes x by (simp add: state_shape_def)
  have "length (bs_destination_counts ?s) \<le> bs_max_destinations s"
    using x(2) unfolding record_destination
    by (intro length_case_increment) (auto simp: within_caps_def sel_destination_def split: if_splits)
  moreover have "length (bs_ports ?s) \<le> bs_max_ports s"
    using x(2) unfolding record_port
    by (intro length_case_increment) (auto simp: within_caps_def sel_port_def split: if_splits option.splits)
  moreover have "length (bs_connections_per_destination ?s) \<le> bs_max_destinations s"
    using x(2) unfolding record_pair
    by (intro length_case_increment) (auto simp: within_caps_def sel_pair_def split: if_splits)
  moreover have "length (bs_ports_per_destination ?s) \<le> length (bs_destination_counts ?s)"
    using exact shape by (intro nested_keys_tracked) (auto simp: indexes_exact_def state_shape_def)
  moreover have "od_all (\<lambda>d. length d \<le> bs_max_ports s) (bs_ports_per_destination ?s)"
    using x(2) by (intro record_port_on_caps) (simp add: within_caps_def)
  ultimately have "within_caps ?s"
    using x(2,3) assms(2) remember_flood_ok [of s ip t] length_d1_append [of "bs_max_recent s"]
    by (simp add: within_caps_def state_shape_def)
  then show ?thesis using exact shape by (simp add: source_inv_def)
qed

lemma record_failed_inv:
  assumes "source_inv s" "length (bs_failures s) < bs_max_events s"
  shows "source_inv (record_failed ip t s)"
proof -
  have "length (increment ip (bs_failures_per_destination s)) \<le> bs_max_destinations s"
    if "admits (bs_max_destinations s) ip (bs_failures_per_destination s)"
    using that assms(1) by (auto simp: source_inv_def within_caps_def intro: length_increment_capped)
  moreover have "index_of sel_failed (bs_failures (record_failed ip t s)) (bs_failures_per_destination (record_failed ip t s))"
    using assms(1) index_case [of sel_failed "bs_failures s" "bs_failures_per_destination s"
        "(t, ip, admits (bs_max_destinations s) ip (bs_failures_per_destination s))"]
    by (simp add: source_inv_def indexes_exact_def record_failed_def Let_def sel_failed_def split: if_splits)
  ultimately show ?thesis using assms
    by (simp add: source_inv_def indexes_exact_def within_caps_def state_shape_def record_failed_def Let_def)
qed

text \<open>Room at the cap: the oldest entry is expired, nothing raises.\<close>

definition capped_events :: "source_behavior_state \<Rightarrow> source_behavior_state" where
  "capped_events s = (if bs_max_events s \<le> length (bs_events s) then expire_event (hd (bs_events s)) (s\<lparr>bs_events := tl (bs_events s)\<rparr>) else s)"

definition capped_failures :: "source_behavior_state \<Rightarrow> source_behavior_state" where
  "capped_failures s = (if bs_max_events s \<le> length (bs_failures s) then expire_failure (hd (bs_failures s)) (s\<lparr>bs_failures := tl (bs_failures s)\<rparr>) else s)"

lemma cap_events_ok:
  assumes "source_inv s"
  shows "cap_events s = Inr (capped_events s)" "source_inv (capped_events s)"
    "length (bs_events (capped_events s)) < bs_max_events (capped_events s)"
proof -
  have m: "0 < bs_max_events s" "length (bs_events s) \<le> bs_max_events s"
    using assms by (auto simp: source_inv_def state_shape_def within_caps_def)
  show "cap_events s = Inr (capped_events s)"
    using m by (cases "bs_events s") (auto simp: cap_events_def capped_events_def)
  show "source_inv (capped_events s)"
    using m assms expire_event_inv [OF assms] by (cases "bs_events s") (auto simp: capped_events_def)
  show "length (bs_events (capped_events s)) < bs_max_events (capped_events s)"
    using m by (cases "bs_events s") (auto simp: capped_events_def)
qed

lemma cap_failures_ok:
  assumes "source_inv s"
  shows "cap_failures s = Inr (capped_failures s)" "source_inv (capped_failures s)"
    "length (bs_failures (capped_failures s)) < bs_max_events (capped_failures s)"
proof -
  have m: "0 < bs_max_events s" "length (bs_failures s) \<le> bs_max_events s"
    using assms by (auto simp: source_inv_def state_shape_def within_caps_def)
  show "cap_failures s = Inr (capped_failures s)"
    using m by (cases "bs_failures s") (auto simp: cap_failures_def capped_failures_def)
  show "source_inv (capped_failures s)"
    using m assms expire_failure_inv [OF assms] by (cases "bs_failures s") (auto simp: capped_failures_def)
  show "length (bs_failures (capped_failures s)) < bs_max_events (capped_failures s)"
    using m by (cases "bs_failures s") (auto simp: capped_failures_def)
qed

subsection \<open>Every operation on one source succeeds and keeps the invariant\<close>

definition opened_state :: "ipv4_address \<Rightarrow> int option \<Rightarrow> datetime \<Rightarrow> source_behavior_state \<Rightarrow> source_behavior_state" where
  "opened_state ip port t s = record_connection ip port t (capped_events (advanced t s))"

definition completed_state :: "flow \<Rightarrow> source_behavior_state \<Rightarrow> source_behavior_state" where
  "completed_state f s =
     (if is_failed_connection_attempt f
      then record_failed (fl_destination_ip f) (fl_last_seen f) (capped_failures (advanced (fl_last_seen f) s))
      else advanced (fl_last_seen f) s)"

definition slowed_state :: "ipv4_address \<Rightarrow> nat \<Rightarrow> datetime \<Rightarrow> source_behavior_state \<Rightarrow> source_behavior_state" where
  "slowed_state ip count t s =
     (let s1 = advanced t s
      in if admits (bs_max_destinations s1) ip (bs_slow_connection_counts s1)
         then s1\<lparr>bs_slow_connection_counts := AList.update ip (count, t) (bs_slow_connection_counts s1)\<rparr> else s1)"

lemma bind_sum_simps [simp]: "bind_sum (Inr x) f = f x" "bind_sum (Inl e) f = Inl e"
  by (simp_all add: bind_sum_def)

lemma observe_new_connection_ok:
  assumes "source_inv s"
  shows "observe_new_connection ip port t s = Inr (opened_state ip port t s)" "source_inv (opened_state ip port t s)"
  using cap_events_ok [OF advanced_inv [OF assms, of t]] record_inv
  by (auto simp: observe_new_connection_def opened_state_def advance_ok [OF assms])

lemma observe_completion_ok:
  assumes "source_inv s"
  shows "observe_completion f s = Inr (completed_state f s)" "source_inv (completed_state f s)"
  using cap_failures_ok [OF advanced_inv [OF assms, of "fl_last_seen f"]] record_failed_inv advanced_inv [OF assms]
  by (auto simp: observe_completion_def completed_state_def advance_ok [OF assms])

lemma observe_ok:
  assumes "source_inv s"
  shows "\<exists>s'. observe f s = Inr s' \<and> source_inv s'"
  using observe_new_connection_ok [OF assms] observe_completion_ok by (simp add: observe_def)

lemma note_slow_connections_ok:
  assumes "source_inv s"
  shows "note_slow_connections ip count t s = Inr (slowed_state ip count t s)" "source_inv (slowed_state ip count t s)"
proof -
  show "note_slow_connections ip count t s = Inr (slowed_state ip count t s)"
    by (simp add: note_slow_connections_def slowed_state_def advance_ok [OF assms] Let_def)
  have "length (AList.update ip v d) \<le> cap" if "admits cap ip d" "length d \<le> cap" for v cap and d :: "(ipv4_address, nat \<times> datetime) odict"
    using that by (auto simp: admits_def length_od_update dest: map_of_Some_key)
  then show "source_inv (slowed_state ip count t s)"
    using advanced_inv [OF assms, of t]
    by (auto simp: slowed_state_def Let_def source_inv_def indexes_exact_def within_caps_def state_shape_def)
qed

lemma prune_ok:
  assumes "source_inv s"
  shows "prune t s = Inr (advanced t s)" "source_inv (advanced t s)"
  using advance_ok [OF assms] advanced_inv [OF assms] by (simp_all add: prune_def)

text \<open>An assessment is always accepted by its model.\<close>

lemma length_patterns_of: "length (patterns_of xf c s) \<le> 10"
  by (simp add: patterns_of_def Let_def)

lemma digits_append_nonempty: "digits n @ xs \<noteq> []"
  by (simp add: digits_nonempty)

lemma patterns_of_reasons: "(p, r) \<in> set (patterns_of xf c s) \<Longrightarrow> r \<noteq> []"
  unfolding patterns_of_def Let_def by (auto split: if_splits simp: digits_nonempty)

lemma join_nonempty: "rs \<noteq> [] \<Longrightarrow> [] \<notin> set rs \<Longrightarrow> join sep rs \<noteq> []"
  by (induction sep rs rule: join.induct) auto

lemma assess_state_ok:
  assumes "source_inv s" "detection_config_ok c"
  shows "\<exists>b. assess_state xf ip s c = Inr b \<and> ba_source_ip b = ip
    \<and> ba_detected_patterns b = map fst (patterns_of xf c s) \<and> new_behavior_assessment b = Some b"
proof -
  have "join ''; '' (map snd (patterns_of xf c s)) \<noteq> []" if "patterns_of xf c s \<noteq> []"
    using that patterns_of_reasons by (intro join_nonempty) fastforce+
  moreover have "bs_first_seen s \<le> bs_last_seen s" using assms(1) by (simp add: source_inv_def state_shape_def)
  moreover have "0 \<le> seconds (dt_behavior_window_seconds c)" using assms(2) by (simp add: detection_config_ok_def seconds_def)
  ultimately show ?thesis
    by (auto simp: assess_state_def new_behavior_assessment_def check_window_def Let_def)
qed

subsection \<open>The analyzer\<close>

definition analyzer_inv :: "behavior_analyzer \<Rightarrow> bool" where
  "analyzer_inv a \<longleftrightarrow> detection_config_ok (an_config a) \<and> od_distinct (an_sources a)
     \<and> length (an_sources a) \<le> dt_max_tracked_sources (an_config a) \<and> od_all source_inv (an_sources a)"

lemma configured_inv: "detection_config_ok c \<Longrightarrow> source_inv (configured_state c t)"
  unfolding configured_state_def by (rule source_inv_new) (simp_all add: detection_config_ok_def)

lemma analyzer_inv_new: "detection_config_ok c \<Longrightarrow> analyzer_inv (new_behavior_analyzer c)"
  by (simp add: analyzer_inv_def new_behavior_analyzer_def)

lemma get_or_create_config [simp]: "an_config (get_or_create ip t a) = an_config a"
  by (simp add: get_or_create_def Let_def split: option.splits)

lemma get_or_create_keys:
  assumes "analyzer_inv a"
  shows "map fst (an_sources (get_or_create ip t a)) = lru_keys (dt_max_tracked_sources (an_config a)) ip (map fst (an_sources a))"
proof -
  let ?cap = "dt_max_tracked_sources (an_config a)" and ?d = "an_sources a"
  have x: "od_distinct ?d" "length ?d \<le> ?cap" "0 < ?cap" using assms by (auto simp: analyzer_inv_def detection_config_ok_def)
  show ?thesis
  proof (cases "map_of ?d ip")
    case None
    then have k: "ip \<notin> set (map fst ?d)" by (simp add: map_of_None_iff_key)
    then have "ip \<notin> set (map fst (tl ?d))" by (cases ?d) auto
    then have "map fst (AList.update ip v (tl ?d)) = tl (map fst ?d) @ [ip]" for v by (simp only: update_keys map_tl if_False)
    moreover have "map fst (AList.update ip v ?d) = map fst ?d @ [ip]" for v using k by (simp only: update_keys if_False)
    moreover have "?cap \<le> length ?d \<longleftrightarrow> length ?d = ?cap" using x(2) by auto
    ultimately show ?thesis
      unfolding get_or_create_def None option.case Let_def
      using lru_keys_absent [OF k, of ?cap] x by simp
  next
    case (Some s)
    then have "ip \<in> set (map fst ?d)" using map_of_Some_key [OF Some] by simp
    then have "lru_keys ?cap ip (map fst ?d) = removeAll ip (map fst ?d) @ [ip]" using x by (intro lru_keys_present) simp_all
    moreover have "map fst (od_move_to_end ip ?d) = removeAll ip (map fst ?d) @ [ip]"
      unfolding od_move_to_end_def Some by (simp add: delete_keys)
    ultimately show ?thesis unfolding get_or_create_def Some by simp
  qed
qed

lemma get_or_create_inv: "analyzer_inv a \<Longrightarrow> analyzer_inv (get_or_create ip t a)"
proof -
  assume i: "analyzer_inv a"
  let ?a = "get_or_create ip t a"
  have "map fst (an_sources ?a) = lru_keys (dt_max_tracked_sources (an_config a)) ip (map fst (an_sources a))"
    by (rule get_or_create_keys [OF i])
  moreover have "distinct (lru_keys (dt_max_tracked_sources (an_config a)) ip (map fst (an_sources a)))"
    using i by (simp add: analyzer_inv_def distinct_lru_keys)
  moreover have "length (an_sources ?a) \<le> dt_max_tracked_sources (an_config a)"
    using length_lru_keys get_or_create_keys [OF i, of ip t] by (metis length_map)
  moreover have "od_all source_inv (an_sources ?a)"
    using i by (auto simp: analyzer_inv_def get_or_create_def Let_def configured_inv split: option.splits intro!: od_all_update od_all_tl od_all_move)
  ultimately show ?thesis using i by (simp add: analyzer_inv_def)
qed

text \<open>The analyzer's sources are a least-recently-used memory.\<close>

interpretation an_lru: lru_memory analyzer_inv "\<lambda>a. map fst (an_sources a)" "\<lambda>a. dt_max_tracked_sources (an_config a)"
    "\<lambda>ip. get_or_create ip 0"
proof unfold_locales
  show "0 < dt_max_tracked_sources (an_config s)" if "analyzer_inv s" for s
    using that by (simp add: analyzer_inv_def detection_config_ok_def)
  show "analyzer_inv (get_or_create k 0 s)" if "analyzer_inv s" for s k using that by (rule get_or_create_inv)
  show "map fst (an_sources (get_or_create k 0 s)) = lru_keys (dt_max_tracked_sources (an_config s)) k (map fst (an_sources s))"
    if "analyzer_inv s" for s k using that by (rule get_or_create_keys)
qed (simp_all add: analyzer_inv_def)

lemma get_or_create_present:
  "analyzer_inv a \<Longrightarrow> \<exists>s. map_of (an_sources (get_or_create ip t a)) ip = Some s \<and> source_inv s"
proof -
  assume i: "analyzer_inv a"
  have "map_of (an_sources (get_or_create ip t a)) ip \<noteq> None"
    by (auto simp: get_or_create_def Let_def split: option.splits)
  then show ?thesis using get_or_create_inv [OF i, of ip t] by (auto simp: analyzer_inv_def simp del: map_of_eq_Some_iff dest: od_all_lookup)
qed

text \<open>An operation that keeps the invariant of one source keeps the analyzer's.\<close>

lemma on_source_ok:
  assumes "analyzer_inv a" "\<And>s. source_inv s \<Longrightarrow> \<exists>s'. f s = Inr s' \<and> source_inv s'"
  shows "\<exists>a'. on_source ip f a = Inr a' \<and> analyzer_inv a' \<and> an_config a' = an_config a
    \<and> (\<forall>j. j \<noteq> ip \<longrightarrow> map_of (an_sources a') j = map_of (an_sources a) j)
    \<and> (\<forall>s. map_of (an_sources a) ip = Some s \<longrightarrow> (\<exists>s'. f s = Inr s' \<and> map_of (an_sources a') ip = Some s'))"
proof (cases "map_of (an_sources a) ip")
  case None
  then show ?thesis using assms(1) by (simp add: on_source_def)
next
  case (Some s)
  then have "source_inv s" using assms(1) by (auto simp: analyzer_inv_def simp del: map_of_eq_Some_iff dest: od_all_lookup)
  then obtain s' where s': "f s = Inr s'" "source_inv s'" using assms(2) by blast
  have "analyzer_inv (a\<lparr>an_sources := AList.update ip s' (an_sources a)\<rparr>)"
    using assms(1) s' map_of_Some_key [OF Some] by (auto simp: analyzer_inv_def length_od_update)
  then show ?thesis using Some s' by (simp add: on_source_def del: map_of_eq_Some_iff)
qed

inductive analyzer :: "detection_config \<Rightarrow> behavior_analyzer \<Rightarrow> bool" for c where
  analyzer_new: "analyzer c (new_behavior_analyzer c)"
| analyzer_open: "analyzer c a \<Longrightarrow> an_observe_new_connection src ip port t a = Inr a' \<Longrightarrow> analyzer c a'"
| analyzer_slow: "analyzer c a \<Longrightarrow> an_note_slow_connections src ip n t a = Inr a' \<Longrightarrow> analyzer c a'"
| analyzer_completion: "analyzer c a \<Longrightarrow> an_observe_completion f a = Inr a' \<Longrightarrow> analyzer c a'"
| analyzer_flow: "analyzer c a \<Longrightarrow> an_observe_flow f a = Inr a' \<Longrightarrow> analyzer c a'"
| analyzer_assess: "analyzer c a \<Longrightarrow> assess_at xf ip t a = Inr (b, a') \<Longrightarrow> analyzer c a'"

definition kept :: "behavior_error + behavior_analyzer \<Rightarrow> behavior_analyzer \<Rightarrow> bool" where
  "kept r a \<longleftrightarrow> (\<exists>a'. r = Inr a' \<and> analyzer_inv a' \<and> an_config a' = an_config a)"

lemma on_source_kept:
  "analyzer_inv a \<Longrightarrow> (\<And>s. source_inv s \<Longrightarrow> \<exists>s'. f s = Inr s' \<and> source_inv s') \<Longrightarrow> kept (on_source ip f a) a"
  using on_source_ok [of a f ip] unfolding kept_def by blast

lemma on_created_kept:
  "analyzer_inv a \<Longrightarrow> (\<And>s. source_inv s \<Longrightarrow> \<exists>s'. f s = Inr s' \<and> source_inv s') \<Longrightarrow> kept (on_source ip f (get_or_create ip t a)) a"
  using on_source_kept [OF get_or_create_inv, of a f ip ip t] by (simp add: kept_def)

lemma analyzer_open_kept: "analyzer_inv a \<Longrightarrow> kept (an_observe_new_connection src ip port t a) a"
  unfolding an_observe_new_connection_def by (rule on_created_kept) (simp_all add: observe_new_connection_ok)

lemma analyzer_slow_kept: "analyzer_inv a \<Longrightarrow> kept (an_note_slow_connections src ip n t a) a"
  unfolding an_note_slow_connections_def by (rule on_created_kept) (simp_all add: note_slow_connections_ok)

lemma analyzer_flow_kept: "analyzer_inv a \<Longrightarrow> kept (an_observe_flow f a) a"
  unfolding an_observe_flow_def by (rule on_created_kept) (simp_all add: observe_ok)

lemma analyzer_moved: "analyzer_inv a \<Longrightarrow> analyzer_inv (a\<lparr>an_sources := od_move_to_end ip (an_sources a)\<rparr>)"
  by (auto simp: analyzer_inv_def)

lemma analyzer_completion_kept: "analyzer_inv a \<Longrightarrow> kept (an_observe_completion f a) a"
proof -
  assume i: "analyzer_inv a"
  have "kept (on_source ip (observe f) (get_or_create ip t a)) a" for ip t
    by (rule on_created_kept [OF i]) (rule observe_ok)
  moreover have "kept (on_source ip (observe_completion f) (a\<lparr>an_sources := od_move_to_end ip (an_sources a)\<rparr>)) a" for ip
    using on_source_kept [OF analyzer_moved [OF i], of "observe_completion f" ip] by (auto simp: kept_def observe_completion_ok)
  ultimately show ?thesis using i by (auto simp: an_observe_completion_def kept_def [of "Inr a"] split: option.splits)
qed

lemma analyzer_prune_kept: "analyzer_inv a \<Longrightarrow> kept (on_source ip (prune t) a) a"
  by (rule on_source_kept) (simp_all add: prune_ok)

lemma assess_ok: "analyzer_inv a \<Longrightarrow> \<exists>r. assess xf ip a = Inr r"
proof (cases "map_of (an_sources a) ip")
  case (Some s)
  assume i: "analyzer_inv a"
  then have "source_inv s" using Some by (auto simp: analyzer_inv_def simp del: map_of_eq_Some_iff dest: od_all_lookup)
  then obtain b where "assess_state xf ip s (an_config a) = Inr b"
    using assess_state_ok [of s "an_config a" xf ip] i unfolding analyzer_inv_def by blast
  then show ?thesis by (simp add: assess_def Some del: map_of_eq_Some_iff)
qed (simp add: assess_def)

lemma analyzer_reachable_inv: "analyzer c a \<Longrightarrow> detection_config_ok c \<Longrightarrow> analyzer_inv a \<and> an_config a = c"
proof (induction rule: analyzer.induct)
  case (analyzer_assess a xf ip t b a')
  then have "analyzer_inv a" "an_config a = c" by auto
  then obtain a1 where "on_source ip (prune t) a = Inr a1" "analyzer_inv a1" "an_config a1 = c"
    using analyzer_prune_kept [of a ip t] by (auto simp: kept_def)
  then show ?case using analyzer_assess.hyps(2) assess_ok [of a1 xf ip] by (auto simp: assess_at_def)
next
  case analyzer_new
  then show ?case by (simp add: analyzer_inv_new) (simp add: new_behavior_analyzer_def)
next
  case (analyzer_open a src ip port t a')
  then show ?case using analyzer_open_kept [of a src ip port t] by (simp add: kept_def)
next
  case (analyzer_slow a src ip n t a')
  then show ?case using analyzer_slow_kept [of a src ip n t] by (simp add: kept_def)
next
  case (analyzer_completion a f a')
  then show ?case using analyzer_completion_kept [of a f] by (simp add: kept_def)
next
  case (analyzer_flow a f a')
  then show ?case using analyzer_flow_kept [of a f] by (simp add: kept_def)
qed

text \<open>
  C24: Behaviour analysis never raises and its memory is bounded. From an accepted configuration, after any sequence of
  new connections, slow-connection reports, completed flows and assessments, at most the configured number of sources
  is tracked; for each of them every list and dictionary is within its cap, and the counter of every destination, port,
  port per destination, destination/port pair and failing destination is exactly the number of live connections (or
  failures) that were admitted to it; and the next operation of any kind succeeds.
\<close>

theorem behavior_state_exact:
  assumes "detection_config_ok c" "analyzer c a"
  shows "length (an_sources a) \<le> dt_max_tracked_sources c
    \<and> (\<forall>ip s. map_of (an_sources a) ip = Some s \<longrightarrow> within_caps s \<and> indexes_exact s)
    \<and> (\<exists>a'. an_observe_new_connection src ip port t a = Inr a') \<and> (\<exists>a'. an_note_slow_connections src ip n t a = Inr a')
    \<and> (\<exists>a'. an_observe_completion f a = Inr a') \<and> (\<exists>a'. an_observe_flow f a = Inr a')
    \<and> (\<exists>r. assess xf ip a = Inr r) \<and> (\<exists>r. assess_at xf ip t a = Inr r)"
proof -
  have i: "analyzer_inv a" "an_config a = c" using analyzer_reachable_inv assms by auto
  have "source_inv s" if "map_of (an_sources a) ip = Some s" for ip s
    using i(1) that by (auto simp: analyzer_inv_def simp del: map_of_eq_Some_iff dest: od_all_lookup)
  moreover obtain a1 where "on_source ip (prune t) a = Inr a1" "analyzer_inv a1"
    using analyzer_prune_kept [OF i(1), of ip t] by (auto simp: kept_def)
  moreover from this obtain r where "assess xf ip a1 = Inr r" using assess_ok by blast
  ultimately have "\<exists>r. assess_at xf ip t a = Inr r" by (simp add: assess_at_def)
  moreover have "\<exists>r. assess xf ip a = Inr r" by (rule assess_ok [OF i(1)])
  ultimately show ?thesis
    using i analyzer_open_kept [OF i(1), of src ip port t] analyzer_slow_kept [OF i(1), of src ip n t]
      analyzer_completion_kept [OF i(1), of f] analyzer_flow_kept [OF i(1), of f]
      \<open>\<And>ip s. map_of (an_sources a) ip = Some s \<Longrightarrow> source_inv s\<close>
    by (simp add: kept_def analyzer_inv_def source_inv_def del: map_of_eq_Some_iff) blast
qed

lemma default_detection_config_ok: "detection_config_ok default_detection_config"
  by (simp add: detection_config_ok_def default_detection_config_def)

abbreviation plain_format :: behavior_format where
  "plain_format \<equiv> \<lparr>bf_0f = (\<lambda>x. ''?''), bf_2f = (\<lambda>x. ''?''), bf_3f = (\<lambda>x. ''?'')\<rparr>"

theorem behavior_state_exact_witness:
  "\<exists>a. an_observe_new_connection (ipv4 10 0 0 5) (ipv4 10 0 0 9) (Some 22) 0 (new_behavior_analyzer default_detection_config) = Inr a
     \<and> length (an_sources a) \<le> 10000 \<and> (\<exists>r. assess plain_format (ipv4 10 0 0 5) a = Inr r)"
proof -
  let ?n = "new_behavior_analyzer default_detection_config"
  obtain a where a: "an_observe_new_connection (ipv4 10 0 0 5) (ipv4 10 0 0 9) (Some 22) 0 ?n = Inr a"
    using behavior_state_exact [OF default_detection_config_ok analyzer_new] by blast
  then have "analyzer default_detection_config a" by (rule analyzer_open [OF analyzer_new])
  then have "length (an_sources a) \<le> dt_max_tracked_sources default_detection_config \<and> (\<exists>r. assess plain_format (ipv4 10 0 0 5) a = Inr r)"
    using behavior_state_exact [OF default_detection_config_ok, of a] by blast
  then show ?thesis using a by (simp add: default_detection_config_def)
qed

end
