(* ===== verification/Behavior_History.thy ===== *)
theory Behavior_History
  imports Behavior_State
begin

section \<open>Behaviour analysis against the history of a source\<close>

text \<open>
  What the bounded state of \<open>Behavior_State\<close> says about the connections a source really made: a sequence of
  operations on one source, in the order of their times, is compared with the plain list of its connections and
  failed attempts restricted to the window.
\<close>

datatype behavior_op = BO_OPEN ipv4_address "int option" datetime | BO_COMPLETE flow
  | BO_SLOW ipv4_address nat datetime | BO_PRUNE datetime

fun op_time :: "behavior_op \<Rightarrow> datetime" where
  "op_time (BO_OPEN ip port t) = t"
| "op_time (BO_COMPLETE f) = fl_last_seen f"
| "op_time (BO_SLOW ip n t) = t"
| "op_time (BO_PRUNE t) = t"

fun apply_op :: "behavior_op \<Rightarrow> source_behavior_state \<Rightarrow> behavior_error + source_behavior_state" where
  "apply_op (BO_OPEN ip port t) s = observe_new_connection ip port t s"
| "apply_op (BO_COMPLETE f) s = observe_completion f s"
| "apply_op (BO_SLOW ip n t) s = note_slow_connections ip n t s"
| "apply_op (BO_PRUNE t) s = prune t s"

fun run_ops :: "behavior_op list \<Rightarrow> source_behavior_state \<Rightarrow> behavior_error + source_behavior_state" where
  "run_ops [] s = Inr s"
| "run_ops (x # xs) s = bind_sum (apply_op x s) (run_ops xs)"

lemma run_ops_snoc: "run_ops (xs @ [x]) s = bind_sum (run_ops xs s) (apply_op x)"
proof (induction xs arbitrary: s)
  case (Cons y ys)
  then show ?case by (cases "apply_op y s") simp_all
qed (simp add: bind_sum_def split: sum.splits)

text \<open>The connections and the failed attempts of a sequence, with their times.\<close>

fun connections :: "behavior_op list \<Rightarrow> (ipv4_address \<times> int option \<times> datetime) list" where
  "connections [] = []"
| "connections (BO_OPEN ip port t # xs) = (ip, port, t) # connections xs"
| "connections (x # xs) = connections xs"

fun failed_attempts :: "behavior_op list \<Rightarrow> (ipv4_address \<times> datetime) list" where
  "failed_attempts [] = []"
| "failed_attempts (BO_COMPLETE f # xs) =
     (if is_failed_connection_attempt f then (fl_destination_ip f, fl_last_seen f) # failed_attempts xs else failed_attempts xs)"
| "failed_attempts (x # xs) = failed_attempts xs"

lemma connections_append [simp]: "connections (xs @ ys) = connections xs @ connections ys"
  by (induction xs rule: connections.induct) simp_all

lemma failed_attempts_append [simp]: "failed_attempts (xs @ ys) = failed_attempts xs @ failed_attempts ys"
  by (induction xs rule: failed_attempts.induct) simp_all

text \<open>The time of the last operation, and what lies within the window then.\<close>

definition clock_of :: "datetime \<Rightarrow> behavior_op list \<Rightarrow> datetime" where
  "clock_of start xs = (if xs = [] then start else op_time (last xs))"

definition recent_connections :: "int \<Rightarrow> datetime \<Rightarrow> behavior_op list \<Rightarrow> (ipv4_address \<times> int option \<times> datetime) list" where
  "recent_connections w start xs = filter (\<lambda>(ip, port, t). clock_of start xs - seconds w \<le> t) (connections xs)"

definition recent_failed_attempts :: "int \<Rightarrow> datetime \<Rightarrow> behavior_op list \<Rightarrow> (ipv4_address \<times> datetime) list" where
  "recent_failed_attempts w start xs = filter (\<lambda>(ip, t). clock_of start xs - seconds w \<le> t) (failed_attempts xs)"

text \<open>What a pattern means on the plain lists.\<close>

fun window_shows :: "detection_config \<Rightarrow> (ipv4_address \<times> int option \<times> datetime) list \<Rightarrow> (ipv4_address \<times> datetime) list
    \<Rightarrow> behavior_pattern_type \<Rightarrow> bool" where
  "window_shows c conns fails BP_SCANNING \<longleftrightarrow>
     (\<exists>ip. dt_scanning_port_threshold c \<le> card {p. \<exists>t. (ip, Some p, t) \<in> set conns})"
| "window_shows c conns fails BP_REPEATED_CONNECTIONS \<longleftrightarrow>
     (\<exists>ip port. dt_repeated_connections_threshold c \<le> length (filter (\<lambda>(i, p, t). i = ip \<and> p = port) conns))"
| "window_shows c conns fails BP_DESTINATION_DIVERSITY \<longleftrightarrow> dt_destination_diversity_threshold c \<le> card (fst ` set conns)"
| "window_shows c conns fails BP_REPEATED_FAILURES \<longleftrightarrow>
     (\<exists>ip. dt_repeated_failures_threshold c \<le> length (filter (\<lambda>(i, t). i = ip) fails))"
| "window_shows c conns fails _ \<longleftrightarrow> False"

definition windowed_patterns :: "behavior_pattern_type set" where
  "windowed_patterns = {BP_SCANNING, BP_REPEATED_CONNECTIONS, BP_DESTINATION_DIVERSITY, BP_REPEATED_FAILURES}"

text \<open>The window fits the configured caps.\<close>

definition roomy :: "detection_config \<Rightarrow> (ipv4_address \<times> int option \<times> datetime) list \<Rightarrow> (ipv4_address \<times> datetime) list \<Rightarrow> bool" where
  "roomy c conns fails \<longleftrightarrow>
     length conns \<le> dt_max_tracked_connections_per_source c \<and> length fails \<le> dt_max_tracked_connections_per_source c
     \<and> card (fst ` set conns) \<le> dt_max_tracked_destinations_per_source c
     \<and> card ((\<lambda>(ip, port, t). (ip, port)) ` set conns) \<le> dt_max_tracked_destinations_per_source c
     \<and> card {p. \<exists>ip t. (ip, Some p, t) \<in> set conns} \<le> dt_max_tracked_ports_per_source c
     \<and> card (fst ` set fails) \<le> dt_max_tracked_destinations_per_source c"

subsection \<open>Live entries and the window\<close>

definition conn_of :: "connection_event \<Rightarrow> ipv4_address \<times> int option \<times> datetime" where
  "conn_of e = (ce_destination_ip e, ce_destination_port e, ce_timestamp e)"

definition fail_of :: "datetime \<times> ipv4_address \<times> bool \<Rightarrow> ipv4_address \<times> datetime" where
  "fail_of f = (fst (snd f), fst f)"

lemma timedelta_whole_seconds [simp]: "timedelta_seconds (real_of_int n) = seconds n"
proof -
  have "real_of_int n * 1000000 = real_of_int (n * 1000000)" by simp
  then show ?thesis by (simp only: timedelta_seconds_def py_round_def seconds_def floor_of_int Let_def) simp
qed

lemma dropWhile_before: "sorted (map f xs) \<Longrightarrow> dropWhile (\<lambda>x. f x < h) xs = filter (\<lambda>x. h \<le> f x) xs"
proof (induction xs)
  case (Cons x xs)
  then have "\<forall>y \<in> set xs. h \<le> f y" if "h \<le> f x" using that by auto
  then show ?case using Cons by (auto simp: filter_id_conv)
qed simp

text \<open>The live entries are a suffix of the window; the missing prefix are the entries the cap pushed out.\<close>

definition suffix_of :: "'a list \<Rightarrow> 'a list \<Rightarrow> bool" where
  "suffix_of ys xs \<longleftrightarrow> (\<exists>zs. xs = zs @ ys)"

lemma suffix_of_filter: "suffix_of ys xs \<Longrightarrow> suffix_of (filter P ys) (filter P xs)"
  by (auto simp: suffix_of_def)

lemma suffix_of_tl: "suffix_of ys xs \<Longrightarrow> ys \<noteq> [] \<Longrightarrow> suffix_of (tl ys) xs"
  by (cases ys) (auto simp: suffix_of_def)

lemma suffix_of_snoc: "suffix_of ys xs \<Longrightarrow> suffix_of (ys @ [x]) (xs @ [x])"
  by (auto simp: suffix_of_def)

lemma suffix_of_Nil [simp]: "suffix_of [] xs"
  by (simp add: suffix_of_def)

lemma suffix_of_set: "suffix_of ys xs \<Longrightarrow> set ys \<subseteq> set xs"
  by (auto simp: suffix_of_def)

lemma suffix_of_count: "suffix_of ys xs \<Longrightarrow> length (filter P ys) \<le> length (filter P xs)"
  by (auto simp: suffix_of_def)

lemma suffix_of_sorted: "suffix_of ys xs \<Longrightarrow> sorted (map f xs) \<Longrightarrow> sorted (map f ys)"
  by (auto simp: suffix_of_def sorted_append)

lemma filter_later: "(h::int) \<le> h' \<Longrightarrow> filter (\<lambda>x. h' \<le> f x) (filter (\<lambda>x. h \<le> f x) xs) = filter (\<lambda>x. h' \<le> f x) xs"
  by (auto intro: filter_cong)

text \<open>Advancing the clock restricts both lists to the new window.\<close>

lemma advance_suffix:
  assumes "suffix_of (map g es) (filter (\<lambda>x. h \<le> f x) xs)" "sorted (map f xs)" "h \<le> (h' :: int)" "\<And>e. f (g e) = k e"
  shows "suffix_of (map g (dropWhile (\<lambda>e. k e < h') es)) (filter (\<lambda>x. h' \<le> f x) xs)"
proof -
  have "sorted (map f (map g es))" using assms(1,2) by (intro suffix_of_sorted [OF assms(1)]) (simp add: sorted_filter)
  then have "sorted (map k es)" using assms(4) by (simp add: comp_def)
  then have "map g (dropWhile (\<lambda>e. k e < h') es) = filter (\<lambda>x. h' \<le> f x) (map g es)"
    using assms(4) by (simp add: dropWhile_before filter_map comp_def)
  then show ?thesis using suffix_of_filter [OF assms(1), of "\<lambda>x. h' \<le> f x"] filter_later [OF assms(3), of f xs] by simp
qed

definition time_of :: "ipv4_address \<times> int option \<times> datetime \<Rightarrow> datetime" where
  "time_of x = snd (snd x)"

lemma recent_connections_alt: "recent_connections w t0 xs = filter (\<lambda>x. clock_of t0 xs - seconds w \<le> time_of x) (connections xs)"
  by (simp add: recent_connections_def time_of_def case_prod_unfold)

lemma recent_failed_alt: "recent_failed_attempts w t0 xs = filter (\<lambda>x. clock_of t0 xs - seconds w \<le> snd x) (failed_attempts xs)"
  by (simp add: recent_failed_attempts_def case_prod_unfold)

lemma connections_times: "set (map time_of (connections xs)) \<subseteq> set (map op_time xs)"
  by (induction xs rule: connections.induct) (auto simp: time_of_def)

lemma failed_times: "set (map snd (failed_attempts xs)) \<subseteq> set (map op_time xs)"
  by (induction xs rule: failed_attempts.induct) auto

lemma connections_sorted: "sorted (map op_time xs) \<Longrightarrow> sorted (map time_of (connections xs))"
proof (induction xs rule: connections.induct)
  case (2 ip port t xs)
  then have "\<forall>y \<in> set (map time_of (connections xs)). t \<le> y" using connections_times [of xs] by auto
  then show ?case using 2 by (simp add: time_of_def)
qed auto

lemma failed_sorted: "sorted (map op_time xs) \<Longrightarrow> sorted (map snd (failed_attempts xs))"
proof (induction xs rule: failed_attempts.induct)
  case (2 f xs)
  then have "\<forall>y \<in> set (map snd (failed_attempts xs)). fl_last_seen f \<le> y" using failed_times [of xs] by auto
  then show ?case using 2 by simp
qed auto

subsection \<open>A run keeps suffixes of the window\<close>

definition configured :: "detection_config \<Rightarrow> source_behavior_state \<Rightarrow> bool" where
  "configured c s \<longleftrightarrow> bs_window_seconds s = real_of_int (dt_behavior_window_seconds c)
     \<and> bs_max_events s = dt_max_tracked_connections_per_source c
     \<and> bs_max_destinations s = dt_max_tracked_destinations_per_source c \<and> bs_max_ports s = dt_max_tracked_ports_per_source c"

definition follows :: "detection_config \<Rightarrow> datetime \<Rightarrow> behavior_op list \<Rightarrow> source_behavior_state \<Rightarrow> bool" where
  "follows c t0 xs s \<longleftrightarrow> source_inv s \<and> configured c s \<and> bs_last_seen s = clock_of t0 xs
     \<and> suffix_of (map conn_of (bs_events s)) (recent_connections (dt_behavior_window_seconds c) t0 xs)
     \<and> suffix_of (map fail_of (bs_failures s)) (recent_failed_attempts (dt_behavior_window_seconds c) t0 xs)"

text \<open>The operations in chronological order, none before the state was created.\<close>

definition chronological :: "datetime \<Rightarrow> behavior_op list \<Rightarrow> bool" where
  "chronological t0 xs \<longleftrightarrow> sorted (t0 # map op_time xs)"

lemma chronological_snoc:
  "chronological t0 (xs @ [x]) \<Longrightarrow> chronological t0 xs \<and> clock_of t0 xs \<le> op_time x"
  by (auto simp: chronological_def clock_of_def sorted_append)

lemma chronological_connections: "chronological t0 xs \<Longrightarrow> sorted (map time_of (connections xs))"
  by (rule connections_sorted) (simp add: chronological_def)

lemma chronological_failed: "chronological t0 xs \<Longrightarrow> sorted (map snd (failed_attempts xs))"
  by (rule failed_sorted) (simp add: chronological_def)

lemma advanced_follows:
  assumes "follows c t0 xs s" "chronological t0 xs" "clock_of t0 xs \<le> t"
  shows "source_inv (advanced t s)" "configured c (advanced t s)" "bs_last_seen (advanced t s) = t"
    "suffix_of (map conn_of (bs_events (advanced t s))) (filter (\<lambda>x. t - seconds (dt_behavior_window_seconds c) \<le> time_of x) (connections xs))"
    "suffix_of (map fail_of (bs_failures (advanced t s))) (filter (\<lambda>x. t - seconds (dt_behavior_window_seconds c) \<le> snd x) (failed_attempts xs))"
proof -
  let ?h = "clock_of t0 xs - seconds (dt_behavior_window_seconds c)" and ?h' = "t - seconds (dt_behavior_window_seconds c)"
  have f: "source_inv s" "configured c s" "bs_last_seen s = clock_of t0 xs" using assms(1) by (auto simp: follows_def)
  show "source_inv (advanced t s)" using f(1) by (rule advanced_inv)
  show "configured c (advanced t s)" using f(2) by (simp add: configured_def)
  show "bs_last_seen (advanced t s) = t" using f(3) assms(3) by simp
  have h: "max t (bs_last_seen s) - timedelta_seconds (bs_window_seconds s) = ?h'"
    using f(2,3) assms(3) by (simp add: configured_def)
  have e: "suffix_of (map conn_of (bs_events s)) (filter (\<lambda>x. ?h \<le> time_of x) (connections xs))"
    "suffix_of (map fail_of (bs_failures s)) (filter (\<lambda>x. ?h \<le> snd x) (failed_attempts xs))"
    using assms(1) by (simp_all add: follows_def recent_connections_alt recent_failed_alt)
  show "suffix_of (map conn_of (bs_events (advanced t s))) (filter (\<lambda>x. ?h' \<le> time_of x) (connections xs))"
    unfolding advanced_events h
    by (rule advance_suffix [OF e(1) chronological_connections [OF assms(2)]]) (use assms(3) in \<open>simp_all add: time_of_def conn_of_def\<close>)
  show "suffix_of (map fail_of (bs_failures (advanced t s))) (filter (\<lambda>x. ?h' \<le> snd x) (failed_attempts xs))"
    unfolding advanced_events h
    by (rule advance_suffix [OF e(2) chronological_failed [OF assms(2)]]) (use assms(3) in \<open>simp_all add: fail_of_def\<close>)
qed

lemma capped_events_params [simp]:
  "bs_failures (capped_events s) = bs_failures s" "bs_last_seen (capped_events s) = bs_last_seen s"
  "bs_window_seconds (capped_events s) = bs_window_seconds s" "bs_max_events (capped_events s) = bs_max_events s"
  "bs_max_destinations (capped_events s) = bs_max_destinations s" "bs_max_ports (capped_events s) = bs_max_ports s"
  "bs_events (capped_events s) = (if bs_max_events s \<le> length (bs_events s) then tl (bs_events s) else bs_events s)"
  by (simp_all add: capped_events_def)

lemma capped_failures_params [simp]:
  "bs_events (capped_failures s) = bs_events s" "bs_last_seen (capped_failures s) = bs_last_seen s"
  "bs_window_seconds (capped_failures s) = bs_window_seconds s" "bs_max_events (capped_failures s) = bs_max_events s"
  "bs_max_destinations (capped_failures s) = bs_max_destinations s" "bs_max_ports (capped_failures s) = bs_max_ports s"
  "bs_failures (capped_failures s) = (if bs_max_events s \<le> length (bs_failures s) then tl (bs_failures s) else bs_failures s)"
  by (simp_all add: capped_failures_def)

lemma record_failed_params [simp]:
  "bs_events (record_failed ip t s) = bs_events s" "bs_last_seen (record_failed ip t s) = bs_last_seen s"
  "bs_window_seconds (record_failed ip t s) = bs_window_seconds s" "bs_max_events (record_failed ip t s) = bs_max_events s"
  "bs_max_destinations (record_failed ip t s) = bs_max_destinations s" "bs_max_ports (record_failed ip t s) = bs_max_ports s"
  "bs_failures (record_failed ip t s) =
     bs_failures s @ [(t, ip, admits (bs_max_destinations s) ip (bs_failures_per_destination s))]"
  by (simp_all add: record_failed_def Let_def)

lemma slowed_params [simp]:
  "bs_events (slowed_state ip n t s) = bs_events (advanced t s)" "bs_failures (slowed_state ip n t s) = bs_failures (advanced t s)"
  "bs_last_seen (slowed_state ip n t s) = bs_last_seen (advanced t s)"
  "bs_window_seconds (slowed_state ip n t s) = bs_window_seconds s" "bs_max_events (slowed_state ip n t s) = bs_max_events s"
  "bs_max_destinations (slowed_state ip n t s) = bs_max_destinations s" "bs_max_ports (slowed_state ip n t s) = bs_max_ports s"
  by (simp_all add: slowed_state_def Let_def)

lemma clock_snoc [simp]: "clock_of t0 (xs @ [x]) = op_time x"
  by (simp add: clock_of_def)

lemma window_nonneg: "detection_config_ok c \<Longrightarrow> 0 \<le> seconds (dt_behavior_window_seconds c)"
  by (simp add: detection_config_ok_def seconds_def)

lemma capped_suffix: "suffix_of (map g xs) ws \<Longrightarrow> 0 < n \<Longrightarrow> suffix_of (map g (if n \<le> length xs then tl xs else xs)) ws"
  using suffix_of_tl [of "map g xs" ws] by (cases xs) auto

lemma step_follows:
  assumes "detection_config_ok c" "follows c t0 xs s" "chronological t0 (xs @ [x])"
  shows "\<exists>s'. apply_op x s = Inr s' \<and> follows c t0 (xs @ [x]) s'"
proof -
  let ?t = "op_time x" and ?w = "dt_behavior_window_seconds c"
  have ch: "chronological t0 xs" "clock_of t0 xs \<le> ?t" using chronological_snoc [OF assms(3)] by auto
  note adv = advanced_follows [OF assms(2) ch]
  have i: "source_inv s" and m: "0 < bs_max_events s"
    using assms(2) by (auto simp: follows_def source_inv_def state_shape_def)
  show ?thesis
  proof (cases x)
    case (BO_OPEN ip port t)
    have "suffix_of (map conn_of (bs_events (opened_state ip port t s)))
        (filter (\<lambda>x. t - seconds ?w \<le> time_of x) (connections xs) @ [(ip, port, t)])"
      using suffix_of_snoc [OF capped_suffix [OF adv(4) m], of "(ip, port, t)"] BO_OPEN
      by (simp add: opened_state_def conn_of_def split: if_split_asm)
    then have "follows c t0 (xs @ [x]) (opened_state ip port t s)"
      using observe_new_connection_ok(2) [OF i, of ip port t] adv BO_OPEN window_nonneg [OF assms(1)]
      by (simp add: follows_def recent_connections_alt recent_failed_alt time_of_def configured_def opened_state_def)
    then show ?thesis using BO_OPEN observe_new_connection_ok(1) [OF i] by simp
  next
    case (BO_COMPLETE f)
    have "suffix_of (map fail_of (bs_failures (completed_state f s)))
        (filter (\<lambda>x. ?t - seconds ?w \<le> snd x) (failed_attempts xs)
          @ (if is_failed_connection_attempt f then [(fl_destination_ip f, fl_last_seen f)] else []))"
      using suffix_of_snoc [OF capped_suffix [OF adv(5) m], of "(fl_destination_ip f, fl_last_seen f)"] adv(5) BO_COMPLETE
      by (simp add: completed_state_def fail_of_def split: if_split_asm)
    then have "follows c t0 (xs @ [x]) (completed_state f s)"
      using observe_completion_ok(2) [OF i, of f] adv BO_COMPLETE window_nonneg [OF assms(1)]
      by (auto simp: follows_def recent_connections_alt recent_failed_alt configured_def completed_state_def)
    then show ?thesis using BO_COMPLETE observe_completion_ok(1) [OF i] by simp
  next
    case (BO_SLOW ip n t)
    then have "follows c t0 (xs @ [x]) (slowed_state ip n t s)"
      using adv note_slow_connections_ok(2) [OF i, of ip n t]
      by (simp add: follows_def recent_connections_alt recent_failed_alt configured_def)
    then show ?thesis using BO_SLOW note_slow_connections_ok(1) [OF i] by simp
  next
    case (BO_PRUNE t)
    then have "follows c t0 (xs @ [x]) (advanced t s)"
      using adv by (simp add: follows_def recent_connections_alt recent_failed_alt)
    then show ?thesis using BO_PRUNE prune_ok(1) [OF i] by simp
  qed
qed

lemma run_follows:
  assumes "detection_config_ok c" "chronological t0 xs"
  shows "\<exists>s. run_ops xs (configured_state c t0) = Inr s \<and> follows c t0 xs s"
  using assms(2)
proof (induction xs rule: rev_induct)
  case Nil
  then show ?case using configured_inv [OF assms(1), of t0]
    by (simp add: follows_def configured_def configured_state_def new_source_state_def clock_of_def)
next
  case (snoc x xs)
  then obtain s where "run_ops xs (configured_state c t0) = Inr s" "follows c t0 xs s"
    using chronological_snoc by blast
  then show ?case using step_follows [OF assms(1) _ snoc.prems] by (simp add: run_ops_snoc)
qed

subsection \<open>Patterns as counts of live entries\<close>

lemma le_max_default: "n \<le> max_default xs \<longleftrightarrow> n = 0 \<or> (\<exists>x \<in> set xs. n \<le> x)"
  by (induction xs) (auto simp: max_default_def le_max_iff_disj)

lemma pattern_found:
  "BP_SCANNING \<in> fst ` set (patterns_of xf c s) \<longleftrightarrow> dt_scanning_port_threshold c \<le> scanned_port_breadth s"
  "BP_REPEATED_CONNECTIONS \<in> fst ` set (patterns_of xf c s) \<longleftrightarrow>
     dt_repeated_connections_threshold c \<le> max_connections_to_single_destination s"
  "BP_DESTINATION_DIVERSITY \<in> fst ` set (patterns_of xf c s) \<longleftrightarrow>
     dt_destination_diversity_threshold c \<le> length (bs_destination_counts s)"
  "BP_REPEATED_FAILURES \<in> fst ` set (patterns_of xf c s) \<longleftrightarrow>
     dt_repeated_failures_threshold c \<le> max_failures_to_single_destination s"
  unfolding patterns_of_def Let_def by (auto split: if_splits)

lemma index_max:
  assumes "index_of sel es d" "0 < n"
  shows "n \<le> max_default (map snd d) \<longleftrightarrow> (\<exists>k. n \<le> hits sel es k)"
proof -
  have "(\<exists>x \<in> set (map snd d). n \<le> x) \<longleftrightarrow> (\<exists>k m. (k, m) \<in> set d \<and> n \<le> m)" by force
  then show ?thesis using assms(2) by (auto simp: le_max_default index_values [OF assms(1)] intro: order.strict_trans2)
qed

lemma scan_breadth:
  assumes "nested_index sel_port_on (bs_events s) (bs_ports_per_destination s)" "0 < n"
  shows "n \<le> scanned_port_breadth s \<longleftrightarrow> (\<exists>ip. n \<le> card {p. \<exists>e \<in> set (bs_events s). sel_port_on ip e = Some p})"
proof -
  let ?m = "bs_ports_per_destination s"
  have len: "length (nested_at ?m ip) = card {p. \<exists>e \<in> set (bs_events s). sel_port_on ip e = Some p}" for ip
    using assms(1) by (intro index_length) (simp add: nested_index_def)
  have "n \<le> scanned_port_breadth s \<longleftrightarrow> (\<exists>(ip, d) \<in> set ?m. n \<le> length d)"
    using assms(2) by (force simp: scanned_port_breadth_def le_max_default)
  also have "\<dots> \<longleftrightarrow> (\<exists>ip d. map_of ?m ip = Some d \<and> n \<le> length d)"
    using assms(1) by (auto simp: nested_index_def)
  also have "\<dots> \<longleftrightarrow> (\<exists>ip. n \<le> length (nested_at ?m ip))"
    using assms(2) by (auto simp: nested_at_def simp del: map_of_eq_Some_iff split: option.splits)
  finally show ?thesis by (simp add: len)
qed

text \<open>What an index admitted lies in the window.\<close>

lemma live_connection: "e \<in> set (bs_events s) \<Longrightarrow> follows c t0 xs s \<Longrightarrow>
    (ce_destination_ip e, ce_destination_port e, ce_timestamp e) \<in> set (recent_connections (dt_behavior_window_seconds c) t0 xs)"
  using suffix_of_set [of "map conn_of (bs_events s)"] by (auto simp: follows_def conn_of_def)

lemma hits_le_filter:
  "(\<And>e. sel e = Some k \<Longrightarrow> P (g e)) \<Longrightarrow> hits sel es k \<le> length (filter P (map g es))"
  by (induction es) auto

lemma hits_eq_filter:
  "(\<And>e. e \<in> set es \<Longrightarrow> sel e = Some k \<longleftrightarrow> P (g e)) \<Longrightarrow> hits sel es k = length (filter P (map g es))"
  by (induction es) auto

lemma finite_ports_on: "finite {p. \<exists>t. (ip, Some p, t) \<in> set conns}"
proof (rule finite_subset)
  show "{p. \<exists>t. (ip, Some p, t) \<in> set conns} \<subseteq> (\<lambda>(i, p, t). the p) ` set conns" by force
qed simp

lemma window_sound:
  assumes f: "follows c t0 xs s" and c: "detection_config_ok c" and p: "p \<in> windowed_patterns"
    and found: "p \<in> fst ` set (patterns_of xf c s)"
  shows "window_shows c (recent_connections (dt_behavior_window_seconds c) t0 xs)
           (recent_failed_attempts (dt_behavior_window_seconds c) t0 xs) p"
proof -
  let ?conns = "recent_connections (dt_behavior_window_seconds c) t0 xs"
  let ?fails = "recent_failed_attempts (dt_behavior_window_seconds c) t0 xs"
  have ix: "indexes_exact s" and suf: "suffix_of (map conn_of (bs_events s)) ?conns" "suffix_of (map fail_of (bs_failures s)) ?fails"
    using f by (auto simp: follows_def source_inv_def)
  have pos: "0 < dt_scanning_port_threshold c" "0 < dt_repeated_connections_threshold c" "0 < dt_repeated_failures_threshold c"
    using c by (auto simp: detection_config_ok_def)
  have live: "(ce_destination_ip e, ce_destination_port e, ce_timestamp e) \<in> set ?conns" if "e \<in> set (bs_events s)" for e
    using live_connection [OF that f] .
  consider "p = BP_SCANNING" | "p = BP_REPEATED_CONNECTIONS" | "p = BP_DESTINATION_DIVERSITY" | "p = BP_REPEATED_FAILURES"
    using p by (auto simp: windowed_patterns_def)
  then show ?thesis
  proof cases
    case 1
    then obtain ip where ip: "dt_scanning_port_threshold c \<le> card {q. \<exists>e \<in> set (bs_events s). sel_port_on ip e = Some q}"
      using found scan_breadth [OF _ pos(1), of s] ix by (auto simp: pattern_found indexes_exact_def)
    have "{q. \<exists>e \<in> set (bs_events s). sel_port_on ip e = Some q} \<subseteq> {q. \<exists>t. (ip, Some q, t) \<in> set ?conns}"
      using live by (fastforce simp: sel_port_on_def split: if_splits)
    then have "card {q. \<exists>e \<in> set (bs_events s). sel_port_on ip e = Some q} \<le> card {q. \<exists>t. (ip, Some q, t) \<in> set ?conns}"
      by (rule card_mono [OF finite_ports_on])
    then show ?thesis using ip 1 by (auto intro: order_trans)
  next
    case 2
    then obtain k where k: "dt_repeated_connections_threshold c \<le> hits sel_pair (bs_events s) k"
      using found index_max [OF _ pos(2), of sel_pair "bs_events s" "bs_connections_per_destination s"] ix
      by (auto simp: pattern_found indexes_exact_def max_connections_to_single_destination_def)
    have "hits sel_pair (bs_events s) k \<le> length (filter (\<lambda>(i, q, t). i = fst k \<and> q = snd k) (map conn_of (bs_events s)))"
      by (rule hits_le_filter) (auto simp: sel_pair_def conn_of_def split: if_splits)
    also have "\<dots> \<le> length (filter (\<lambda>(i, q, t). i = fst k \<and> q = snd k) ?conns)" by (rule suffix_of_count [OF suf(1)])
    finally show ?thesis using k 2 by (auto intro: order_trans)
  next
    case 3
    have "length (bs_destination_counts s) = card {k. \<exists>e \<in> set (bs_events s). sel_destination e = Some k}"
      using ix by (intro index_length) (simp add: indexes_exact_def)
    also have "\<dots> \<le> card (fst ` set ?conns)"
      using live by (intro card_mono) (force simp: sel_destination_def split: if_splits)+
    finally show ?thesis using found 3 by (simp add: pattern_found)
  next
    case 4
    then obtain k where k: "dt_repeated_failures_threshold c \<le> hits sel_failed (bs_failures s) k"
      using found index_max [OF _ pos(3), of sel_failed "bs_failures s" "bs_failures_per_destination s"] ix
      by (auto simp: pattern_found indexes_exact_def max_failures_to_single_destination_def)
    have "hits sel_failed (bs_failures s) k \<le> length (filter (\<lambda>(i, t). i = k) (map fail_of (bs_failures s)))"
      by (rule hits_le_filter) (auto simp: sel_failed_def fail_of_def split: if_splits)
    also have "\<dots> \<le> length (filter (\<lambda>(i, t). i = k) ?fails)" by (rule suffix_of_count [OF suf(2)])
    finally show ?thesis using k 4 by (auto intro: order_trans)
  qed
qed

subsection \<open>When the window fits the caps, nothing is missed\<close>

definition tracked_everywhere :: "source_behavior_state \<Rightarrow> bool" where
  "tracked_everywhere s \<longleftrightarrow>
     (\<forall>e \<in> set (bs_events s). ce_destination_tracked e \<and> ce_pair_tracked e \<and> (ce_destination_port e \<noteq> None \<longrightarrow> ce_port_tracked e))
     \<and> (\<forall>f \<in> set (bs_failures s). snd (snd f))"

definition mirrors :: "detection_config \<Rightarrow> datetime \<Rightarrow> behavior_op list \<Rightarrow> source_behavior_state \<Rightarrow> bool" where
  "mirrors c t0 xs s \<longleftrightarrow> follows c t0 xs s \<and> tracked_everywhere s
     \<and> map conn_of (bs_events s) = recent_connections (dt_behavior_window_seconds c) t0 xs
     \<and> map fail_of (bs_failures s) = recent_failed_attempts (dt_behavior_window_seconds c) t0 xs"

abbreviation roomy_at :: "detection_config \<Rightarrow> datetime \<Rightarrow> behavior_op list \<Rightarrow> bool" where
  "roomy_at c t0 xs \<equiv> roomy c (recent_connections (dt_behavior_window_seconds c) t0 xs)
     (recent_failed_attempts (dt_behavior_window_seconds c) t0 xs)"

lemma admits_roomy:
  assumes "index_of sel es d" "{k. \<exists>e \<in> set es. sel e = Some k} \<subseteq> A" "k \<in> A" "finite A" "card A \<le> cap"
  shows "admits cap k d"
proof (cases "k \<in> fst ` set d")
  case True
  then show ?thesis by (metis admits_def map_of_None_iff_key)
next
  case False
  then have "fst ` set d \<subset> A" using index_keys [OF assms(1)] assms(2,3) by auto
  then have "card (fst ` set d) < card A" using assms(4) by (rule psubset_card_mono [rotated])
  then show ?thesis using assms(5) distinct_card [of "map fst d"] index_distinct [OF assms(1)] by (simp add: admits_def)
qed

lemma advance_exact:
  assumes "map g es = filter (\<lambda>x. h \<le> f x) xs" "sorted (map f xs)" "h \<le> (h' :: int)" "\<And>e. f (g e) = k e"
  shows "map g (dropWhile (\<lambda>e. k e < h') es) = filter (\<lambda>x. h' \<le> f x) xs"
proof -
  have "sorted (map f (map g es))" using assms(1,2) by (simp add: sorted_filter)
  then have "sorted (map k es)" using assms(4) by (simp add: comp_def)
  then have "map g (dropWhile (\<lambda>e. k e < h') es) = filter (\<lambda>x. h' \<le> f x) (map g es)"
    using assms(4) by (simp add: dropWhile_before filter_map comp_def)
  then show ?thesis using filter_later [OF assms(3), of f xs] assms(1) by simp
qed

lemma advanced_mirrors:
  assumes "mirrors c t0 xs s" "chronological t0 xs" "clock_of t0 xs \<le> t"
  shows "map conn_of (bs_events (advanced t s)) = filter (\<lambda>x. t - seconds (dt_behavior_window_seconds c) \<le> time_of x) (connections xs)"
    "map fail_of (bs_failures (advanced t s)) = filter (\<lambda>x. t - seconds (dt_behavior_window_seconds c) \<le> snd x) (failed_attempts xs)"
    "tracked_everywhere (advanced t s)"
proof -
  let ?h' = "t - seconds (dt_behavior_window_seconds c)"
  have h: "max t (bs_last_seen s) - timedelta_seconds (bs_window_seconds s) = ?h'"
    using assms by (simp add: mirrors_def follows_def configured_def)
  show "map conn_of (bs_events (advanced t s)) = filter (\<lambda>x. ?h' \<le> time_of x) (connections xs)"
    unfolding advanced_events h
    by (rule advance_exact [OF _ chronological_connections [OF assms(2)], where h = "clock_of t0 xs - seconds (dt_behavior_window_seconds c)"])
      (use assms in \<open>simp_all add: mirrors_def recent_connections_alt time_of_def conn_of_def\<close>)
  show "map fail_of (bs_failures (advanced t s)) = filter (\<lambda>x. ?h' \<le> snd x) (failed_attempts xs)"
    unfolding advanced_events h
    by (rule advance_exact [OF _ chronological_failed [OF assms(2)], where h = "clock_of t0 xs - seconds (dt_behavior_window_seconds c)"])
      (use assms in \<open>simp_all add: mirrors_def recent_failed_alt fail_of_def\<close>)
  show "tracked_everywhere (advanced t s)"
    using assms(1) by (auto simp: mirrors_def tracked_everywhere_def advanced_events dest!: set_dropWhileD)
qed

text \<open>A connection that keeps the window within the caps is admitted to every index.\<close>

lemma opened_tracked:
  assumes "source_inv s" "configured c s" and room: "roomy c (map conn_of (bs_events s) @ [(ip, port, t)]) fails"
  shows "ce_destination_tracked (opened ip port t s)" "ce_pair_tracked (opened ip port t s)"
    "port \<noteq> None \<Longrightarrow> ce_port_tracked (opened ip port t s)" "capped_events s = s"
proof -
  let ?ws = "map conn_of (bs_events s) @ [(ip, port, t)]"
  have ix: "indexes_exact s" using assms(1) by (simp add: source_inv_def)
  show d: "ce_destination_tracked (opened ip port t s)" unfolding opened_sel
  proof (rule admits_roomy)
    show "index_of sel_destination (bs_events s) (bs_destination_counts s)" using ix by (simp add: indexes_exact_def)
    show "card (fst ` set ?ws) \<le> bs_max_destinations s" using room assms(2) by (simp add: roomy_def configured_def)
  qed (force simp: sel_destination_def conn_of_def split: if_splits)+
  show "ce_pair_tracked (opened ip port t s)" unfolding opened_sel
  proof (rule admits_roomy)
    show "index_of sel_pair (bs_events s) (bs_connections_per_destination s)" using ix by (simp add: indexes_exact_def)
    show "card ((\<lambda>(i, q, u). (i, q)) ` set ?ws) \<le> bs_max_destinations s" using room assms(2) by (simp add: roomy_def configured_def)
  qed (force simp: sel_pair_def conn_of_def split: if_splits)+
  show "ce_port_tracked (opened ip port t s)" if "port \<noteq> None"
  proof -
    obtain q where q: "port = Some q" using \<open>port \<noteq> None\<close> by auto
    let ?ports = "{r. \<exists>i u. (i, Some r, u) \<in> set ?ws}"
    have "admits (bs_max_ports s) q (ports_on s ip)" unfolding ports_on_nested
    proof (rule admits_roomy)
      show "index_of (sel_port_on ip) (bs_events s) (nested_at (bs_ports_per_destination s) ip)"
        using ix by (simp add: indexes_exact_def nested_index_def)
      show "card ?ports \<le> bs_max_ports s" using room assms(2) by (simp add: roomy_def configured_def)
      show "finite ?ports" by (rule finite_subset [of _ "(\<lambda>(i, p, u). the p) ` set ?ws"]) force+
      show "{k. \<exists>e \<in> set (bs_events s). sel_port_on ip e = Some k} \<subseteq> ?ports"
        by (force simp: sel_port_on_def conn_of_def split: if_splits)
      show "q \<in> ?ports" using q by auto
    qed
    then show ?thesis using d q by simp
  qed
  show "capped_events s = s" using room assms(2) by (simp add: capped_events_def roomy_def configured_def)
qed

lemma failed_tracked:
  assumes "source_inv s" "configured c s" "roomy c conns (map fail_of (bs_failures s) @ [(ip, t)])"
  shows "admits (bs_max_destinations s) ip (bs_failures_per_destination s)" "capped_failures s = s"
proof -
  show "admits (bs_max_destinations s) ip (bs_failures_per_destination s)"
  proof (rule admits_roomy)
    show "index_of sel_failed (bs_failures s) (bs_failures_per_destination s)" using assms(1) by (simp add: source_inv_def indexes_exact_def)
    show "card (fst ` set (map fail_of (bs_failures s) @ [(ip, t)])) \<le> bs_max_destinations s"
      using assms(2,3) by (simp add: roomy_def configured_def)
  qed (force simp: sel_failed_def fail_of_def split: if_splits)+
  show "capped_failures s = s" using assms(2,3) by (simp add: capped_failures_def roomy_def configured_def)
qed

lemma step_mirrors:
  assumes c: "detection_config_ok c" and m: "mirrors c t0 xs s" and ch: "chronological t0 (xs @ [x])" and room: "roomy_at c t0 (xs @ [x])"
  shows "\<exists>s'. apply_op x s = Inr s' \<and> mirrors c t0 (xs @ [x]) s'"
proof -
  have f: "follows c t0 xs s" and i: "source_inv s" using m by (auto simp: mirrors_def follows_def)
  have ch': "chronological t0 xs" "clock_of t0 xs \<le> op_time x" using chronological_snoc [OF ch] by auto
  note adv = advanced_mirrors [OF m ch'] and base = advanced_follows [OF f ch']
  obtain s' where s': "apply_op x s = Inr s'" "follows c t0 (xs @ [x]) s'" using step_follows [OF c f ch] by blast
  note win = window_nonneg [OF c]
  have "tracked_everywhere s' \<and> map conn_of (bs_events s') = recent_connections (dt_behavior_window_seconds c) t0 (xs @ [x])
      \<and> map fail_of (bs_failures s') = recent_failed_attempts (dt_behavior_window_seconds c) t0 (xs @ [x])"
  proof (cases x)
    case (BO_OPEN ip port t)
    then have r: "roomy c (map conn_of (bs_events (advanced t s)) @ [(ip, port, t)]) (map fail_of (bs_failures (advanced t s)))"
      using room adv(1,2) win by (simp add: recent_connections_alt recent_failed_alt time_of_def)
    then have "s' = record_connection ip port t (advanced t s)"
      using s'(1) BO_OPEN opened_tracked(4) [OF base(1,2), of ip port t] by (simp add: observe_new_connection_ok(1) [OF i] opened_state_def)
    then show ?thesis
      using BO_OPEN adv win opened_tracked [OF base(1,2), of ip port t] r
      by (auto simp: tracked_everywhere_def recent_connections_alt recent_failed_alt time_of_def conn_of_def)
  next
    case (BO_COMPLETE f)
    show ?thesis
    proof (cases "is_failed_connection_attempt f")
      case True
      then have r: "roomy c (map conn_of (bs_events (advanced (fl_last_seen f) s)))
          (map fail_of (bs_failures (advanced (fl_last_seen f) s)) @ [(fl_destination_ip f, fl_last_seen f)])"
        using room adv(1,2) win BO_COMPLETE by (simp add: recent_connections_alt recent_failed_alt)
      then have "s' = record_failed (fl_destination_ip f) (fl_last_seen f) (advanced (fl_last_seen f) s)"
        using s'(1) BO_COMPLETE True base(1,2) failed_tracked(2)
        by (auto simp: observe_completion_ok(1) [OF i] completed_state_def)
      then show ?thesis
        using BO_COMPLETE True adv win r failed_tracked(1) [of "advanced (fl_last_seen f) s" c] base(1,2)
        by (auto simp: tracked_everywhere_def recent_connections_alt recent_failed_alt fail_of_def)
    next
      case False
      then have "s' = advanced (fl_last_seen f) s"
        using s'(1) BO_COMPLETE by (simp add: observe_completion_ok(1) [OF i] completed_state_def)
      then show ?thesis using BO_COMPLETE False adv by (simp add: recent_connections_alt recent_failed_alt)
    qed
  next
    case (BO_SLOW ip n t)
    then have "s' = slowed_state ip n t s" using s'(1) by (simp add: note_slow_connections_ok(1) [OF i])
    then show ?thesis using BO_SLOW adv by (simp add: tracked_everywhere_def recent_connections_alt recent_failed_alt)
  next
    case (BO_PRUNE t)
    then have "s' = advanced t s" using s'(1) by (simp add: prune_ok(1) [OF i])
    then show ?thesis using BO_PRUNE adv by (simp add: recent_connections_alt recent_failed_alt)
  qed
  then show ?thesis using s' by (simp add: mirrors_def)
qed

lemma run_mirrors:
  assumes "detection_config_ok c" "chronological t0 xs" "\<forall>n. roomy_at c t0 (take n xs)"
  shows "\<exists>s. run_ops xs (configured_state c t0) = Inr s \<and> mirrors c t0 xs s"
  using assms(2,3)
proof (induction xs rule: rev_induct)
  case Nil
  obtain s where "run_ops [] (configured_state c t0) = Inr s" "follows c t0 [] s" using run_follows [OF assms(1) Nil(1)] by blast
  then show ?case
    by (auto simp: mirrors_def tracked_everywhere_def configured_state_def new_source_state_def recent_connections_def recent_failed_attempts_def)
next
  case (snoc x xs)
  have "\<forall>n. roomy_at c t0 (take n xs)"
  proof
    fix n show "roomy_at c t0 (take n xs)" using snoc.prems(2) [rule_format, of "min n (length xs)"] by (simp add: min_def split: if_split_asm)
  qed
  then obtain s where s: "run_ops xs (configured_state c t0) = Inr s" "mirrors c t0 xs s"
    using snoc chronological_snoc by blast
  have "roomy_at c t0 (xs @ [x])" using snoc.prems(2) [rule_format, of "Suc (length xs)"] by simp
  then show ?case using step_mirrors [OF assms(1) s(2) snoc.prems(1)] s(1) by (simp add: run_ops_snoc)
qed

lemma window_complete:
  assumes m: "mirrors c t0 xs s" and c: "detection_config_ok c" and p: "p \<in> windowed_patterns"
    and shown: "window_shows c (recent_connections (dt_behavior_window_seconds c) t0 xs)
           (recent_failed_attempts (dt_behavior_window_seconds c) t0 xs) p"
  shows "p \<in> fst ` set (patterns_of xf c s)"
proof -
  have eq: "recent_connections (dt_behavior_window_seconds c) t0 xs = map conn_of (bs_events s)"
    "recent_failed_attempts (dt_behavior_window_seconds c) t0 xs = map fail_of (bs_failures s)"
    using m by (auto simp: mirrors_def)
  have ix: "indexes_exact s" and tr: "tracked_everywhere s" using m by (auto simp: mirrors_def follows_def source_inv_def)
  have pos: "0 < dt_scanning_port_threshold c" "0 < dt_repeated_connections_threshold c" "0 < dt_repeated_failures_threshold c"
    using c by (auto simp: detection_config_ok_def)
  consider "p = BP_SCANNING" | "p = BP_REPEATED_CONNECTIONS" | "p = BP_DESTINATION_DIVERSITY" | "p = BP_REPEATED_FAILURES"
    using p by (auto simp: windowed_patterns_def)
  then show ?thesis
  proof cases
    case 1
    have "{q. \<exists>t. (ip, Some q, t) \<in> set (map conn_of (bs_events s))} = {q. \<exists>e \<in> set (bs_events s). sel_port_on ip e = Some q}" for ip
      using tr by (force simp: tracked_everywhere_def conn_of_def sel_port_on_def split: if_splits)
    then show ?thesis using shown ix 1 scan_breadth [OF _ pos(1), of s] by (simp add: eq pattern_found indexes_exact_def)
  next
    case 2
    then obtain ip port where "dt_repeated_connections_threshold c
        \<le> length (filter (\<lambda>(i, q, t). i = ip \<and> q = port) (map conn_of (bs_events s)))"
      using shown eq by auto
    also have "\<dots> = hits sel_pair (bs_events s) (ip, port)"
      using tr by (intro hits_eq_filter [symmetric]) (auto simp: tracked_everywhere_def sel_pair_def conn_of_def)
    finally show ?thesis using 2 ix index_max [OF _ pos(2), of sel_pair "bs_events s" "bs_connections_per_destination s"]
      by (auto simp: pattern_found indexes_exact_def max_connections_to_single_destination_def)
  next
    case 3
    have "length (bs_destination_counts s) = card {k. \<exists>e \<in> set (bs_events s). sel_destination e = Some k}"
      using ix by (intro index_length) (simp add: indexes_exact_def)
    also have "{k. \<exists>e \<in> set (bs_events s). sel_destination e = Some k} = fst ` set (map conn_of (bs_events s))"
      using tr by (force simp: tracked_everywhere_def sel_destination_def conn_of_def split: if_splits)
    finally show ?thesis using shown 3 by (simp add: eq pattern_found)
  next
    case 4
    then obtain ip where "dt_repeated_failures_threshold c \<le> length (filter (\<lambda>(i, t). i = ip) (map fail_of (bs_failures s)))"
      using shown eq by auto
    also have "\<dots> = hits sel_failed (bs_failures s) ip"
      using tr by (intro hits_eq_filter [symmetric]) (auto simp: tracked_everywhere_def sel_failed_def fail_of_def)
    finally show ?thesis using 4 ix index_max [OF _ pos(3), of sel_failed "bs_failures s" "bs_failures_per_destination s"]
      by (auto simp: pattern_found indexes_exact_def max_failures_to_single_destination_def)
  qed
qed

text \<open>
  C23: The behaviour patterns report what a source did in the window. After any chronological sequence of new connections,
  completions, slow-connection reports and prunings of a fresh source state, SCANNING, REPEATED\_CONNECTIONS,
  DESTINATION\_DIVERSITY and REPEATED\_FAILURES are reported only when the connections (or failed attempts) of the last
  window really contain so many ports on one destination, connections of one pair, destinations, or failures to one
  destination; and when the window never outgrew the configured caps, they are reported whenever it does.
\<close>

theorem patterns_match_window:
  assumes "detection_config_ok c" "chronological t0 xs" "p \<in> windowed_patterns"
  shows "\<exists>s. run_ops xs (configured_state c t0) = Inr s
    \<and> (p \<in> fst ` set (patterns_of xf c s) \<longrightarrow>
         window_shows c (recent_connections (dt_behavior_window_seconds c) t0 xs)
           (recent_failed_attempts (dt_behavior_window_seconds c) t0 xs) p)
    \<and> ((\<forall>n. roomy c (recent_connections (dt_behavior_window_seconds c) t0 (take n xs))
                  (recent_failed_attempts (dt_behavior_window_seconds c) t0 (take n xs))) \<longrightarrow>
         window_shows c (recent_connections (dt_behavior_window_seconds c) t0 xs)
           (recent_failed_attempts (dt_behavior_window_seconds c) t0 xs) p \<longrightarrow>
         p \<in> fst ` set (patterns_of xf c s))"
proof -
  obtain s where s: "run_ops xs (configured_state c t0) = Inr s" "follows c t0 xs s" using run_follows [OF assms(1,2)] by blast
  have "mirrors c t0 xs s" if "\<forall>n. roomy_at c t0 (take n xs)" using run_mirrors [OF assms(1,2) that] s(1) by auto
  then show ?thesis using s window_sound [OF s(2) assms(1,3)] window_complete [OF _ assms(1,3)] by blast
qed

text \<open>Two connections to different ports of one host within a second, with a scan threshold of two.\<close>

definition example_scan :: "behavior_op list" where
  "example_scan = [BO_OPEN (ipv4 10 0 0 9) (Some 22) 0, BO_OPEN (ipv4 10 0 0 9) (Some 80) 500000]"

definition example_detection :: detection_config where
  "example_detection = default_detection_config\<lparr>dt_scanning_port_threshold := 2\<rparr>"

lemma example_windows:
  "recent_connections 300 0 (take n example_scan) =
     take n [(ipv4 10 0 0 9, Some 22, 0), (ipv4 10 0 0 9, Some 80, 500000)]"
  "recent_failed_attempts 300 0 (take n example_scan) = []"
proof -
  consider "n = 0" | "n = 1" | "n = n - 2 + 2" by linarith
  then show "recent_connections 300 0 (take n example_scan) =
     take n [(ipv4 10 0 0 9, Some 22, 0), (ipv4 10 0 0 9, Some 80, 500000)]"
    "recent_failed_attempts 300 0 (take n example_scan) = []"
    by (cases; simp add: example_scan_def recent_connections_def recent_failed_attempts_def clock_of_def seconds_def take_Cons' )+
qed

lemma card_image_length: "length xs \<le> m \<Longrightarrow> card (f ` set xs) \<le> m"
  using card_length [of "map f xs"] by simp

theorem patterns_match_window_witness:
  "\<exists>s. run_ops example_scan (configured_state example_detection 0) = Inr s
     \<and> BP_SCANNING \<in> fst ` set (patterns_of plain_format example_detection s)"
proof -
  let ?c = example_detection
  let ?ws = "[(ipv4 10 0 0 9, Some (22::int), 0::int), (ipv4 10 0 0 9, Some 80, 500000)]"
  have w: "dt_behavior_window_seconds ?c = 300" by (simp add: example_detection_def default_detection_config_def)
  have ok: "detection_config_ok ?c" by (simp add: example_detection_def detection_config_ok_def default_detection_config_def)
  have ch: "chronological 0 example_scan" by (simp add: chronological_def example_scan_def)
  have all: "recent_connections 300 0 example_scan = ?ws" using example_windows(1) [of 2] by (simp add: example_scan_def)
  have "{p. \<exists>t. (ipv4 10 0 0 9, Some p, t) \<in> set ?ws} = {22, 80}" by auto
  then have "dt_scanning_port_threshold ?c \<le> card {p. \<exists>t. (ipv4 10 0 0 9, Some p, t) \<in> set ?ws}"
    by (simp add: example_detection_def)
  then have shown: "window_shows ?c (recent_connections 300 0 example_scan) (recent_failed_attempts 300 0 example_scan) BP_SCANNING"
    unfolding all window_shows.simps by blast
  have sub: "set (take n ?ws) \<subseteq> set ?ws" for n by (rule set_take_subset)
  have room: "roomy ?c (take n ?ws) []" for n
  proof -
    have small: "length (take n ?ws) \<le> 200" by simp
    have "{p. \<exists>ip t. (ip, Some p, t) \<in> set (take n ?ws)} \<subseteq> {22, 80}" using sub [of n] by fastforce
    then have "card {p. \<exists>ip t. (ip, Some p, t) \<in> set (take n ?ws)} \<le> card {22::int, 80}" by (rule card_mono [rotated]) simp
    then show ?thesis
      using card_image_length [OF small, of fst] card_image_length [OF small, of "\<lambda>(ip, port, t). (ip, port)"] small
      unfolding roomy_def by (simp add: example_detection_def default_detection_config_def)
  qed
  show ?thesis
    using patterns_match_window [OF ok ch, of BP_SCANNING plain_format] shown room
    by (auto simp: w example_windows windowed_patterns_def)
qed

end
