(* ===== verification/Calibration.thy ===== *)
theory Calibration
  imports Prelude "HOL-Library.Multiset"
begin

section \<open>Calibration and operating points\<close>

text \<open>
  \<open>ml/calibration.py\<close>: the isotonic map applied to a score, and the choice of the threshold that flags at most a
  target share of benign rows. \<open>numpy.interp\<close> is the argument \<open>interp\<close> (score, knots, values), \<open>math.nextafter\<close> the
  arguments \<open>down\<close> and \<open>up\<close>; a \<open>ValueError\<close>, and the \<open>IndexError\<close> of a target within
  the tolerance of one, is \<open>None\<close>. Fitting the map calls scikit-learn and is left out.
\<close>

type_synonym interpolation = "real \<Rightarrow> real list \<Rightarrow> real list \<Rightarrow> real"

record isotonic_calibration =
  ic_x :: "real list"
  ic_y :: "real list"

definition new_isotonic_calibration :: "real list \<Rightarrow> real list \<Rightarrow> isotonic_calibration option" where
  "new_isotonic_calibration x y =
     (if length x \<noteq> length y then None
      else if x = [] then None
      else if sort x \<noteq> x then None
      else Some \<lparr>ic_x = x, ic_y = y\<rparr>)"

definition ic_apply :: "interpolation \<Rightarrow> isotonic_calibration \<Rightarrow> real \<Rightarrow> real" where
  "ic_apply interp c score =
     (if length (ic_x c) = 1 then min (max (ic_y c ! 0) 0) 1
      else let value = interp score (ic_x c) (ic_y c) in min (max value 0) 1)"

text \<open>\<open>np.interp\<close> and \<open>np.clip\<close> work element by element; \<open>np.clip(v, 0, 1)\<close> is \<open>min(max(v, 0), 1)\<close>.\<close>

definition np_clip :: "real \<Rightarrow> real" where
  "np_clip v = min 1 (max 0 v)"

definition ic_apply_many :: "interpolation \<Rightarrow> isotonic_calibration \<Rightarrow> real list \<Rightarrow> real list" where
  "ic_apply_many interp c scores =
     (if length (ic_x c) = 1 then map np_clip (replicate (length scores) (ic_y c ! 0))
      else map np_clip (map (\<lambda>s. interp s (ic_x c) (ic_y c)) scores))"

record threshold_choice =
  th_threshold :: real
  th_target_fpr :: real
  th_achieved_fpr :: real
  th_benign_rows :: nat
  th_benign_flagged :: nat

definition allowed_rows :: "real \<Rightarrow> nat \<Rightarrow> nat" where
  "allowed_rows target_fpr rows = nat \<lfloor>target_fpr * real rows + 1 / 10 ^ 12\<rfloor>"

definition threshold_for_fpr :: "(real \<Rightarrow> real) \<Rightarrow> (real \<Rightarrow> real) \<Rightarrow> real list \<Rightarrow> real \<Rightarrow> bool \<Rightarrow> threshold_choice option" where
  "threshold_for_fpr down up benign_scores target_fpr lower_is_attack =
     (if benign_scores = [] then None
      else if \<not> (0 \<le> target_fpr \<and> target_fpr < 1) then None
      else if lower_is_attack \<and> length benign_scores \<le> allowed_rows target_fpr (length benign_scores) then None
      else let ordered = sort benign_scores;
               rows = length ordered;
               allowed = allowed_rows target_fpr rows;
               threshold = (if lower_is_attack
                            then (if allowed \<le> 0 then down (ordered ! 0) else ordered ! allowed)
                            else (if allowed \<le> 0 then up (ordered ! (rows - 1)) else ordered ! (rows - allowed)));
               flagged = (if lower_is_attack then length (filter (\<lambda>s. s < threshold) ordered)
                          else length (filter (\<lambda>s. threshold \<le> s) ordered))
           in Some \<lparr>th_threshold = threshold, th_target_fpr = target_fpr, th_achieved_fpr = real flagged / real rows,
                    th_benign_rows = rows, th_benign_flagged = flagged\<rparr>)"

definition expected_alerts_per_day :: "real \<Rightarrow> real \<Rightarrow> real" where
  "expected_alerts_per_day target_fpr benign_flows_per_day = target_fpr * benign_flows_per_day"

subsection \<open>Properties\<close>

lemma apply_many_map:
  "ic_apply_many interp c scores = map (ic_apply interp c) scores"
proof -
  have clip: "np_clip v = min (max v 0) 1" for v by (simp add: np_clip_def min.commute max.commute)
  have "map (ic_apply interp c) scores = map (\<lambda>s. np_clip (ic_y c ! 0)) scores" if "length (ic_x c) = 1"
    using that by (simp add: ic_apply_def clip)
  then show ?thesis by (auto simp: ic_apply_many_def ic_apply_def clip Let_def map_replicate_const)
qed

lemma calibrated_in_unit: "0 \<le> ic_apply interp c s \<and> ic_apply interp c s \<le> 1"
  by (simp add: ic_apply_def Let_def)

text \<open>How many entries of a sorted list lie below, and at or above, the one at an index.\<close>

lemma count_below:
  assumes "sorted xs" "i < length xs"
  shows "length (filter (\<lambda>s. s < xs ! i) xs) \<le> i"
proof -
  have "filter (\<lambda>s. s < xs ! i) (drop i xs) = []"
    using assms by (auto simp: filter_empty_conv in_set_conv_nth not_less sorted_iff_nth_mono)
  then have "filter (\<lambda>s. s < xs ! i) xs = filter (\<lambda>s. s < xs ! i) (take i xs)"
    by (metis append_Nil2 append_take_drop_id filter_append)
  then show ?thesis by (metis length_filter_le length_take min.bounded_iff)
qed

lemma count_above:
  assumes "sorted xs" "i < length xs"
  shows "length (filter (\<lambda>s. xs ! i \<le> s) xs) = (length xs - i) + length (filter (\<lambda>s. s = xs ! i) (take i xs))"
proof -
  have "filter (\<lambda>s. xs ! i \<le> s) (drop i xs) = drop i xs"
    using assms by (auto simp: filter_id_conv in_set_conv_nth sorted_iff_nth_mono)
  moreover have "filter (\<lambda>s. xs ! i \<le> s) (take i xs) = filter (\<lambda>s. s = xs ! i) (take i xs)"
    using assms by (intro filter_cong) (auto simp: in_set_conv_nth sorted_iff_nth_mono intro: antisym)
  ultimately have "filter (\<lambda>s. xs ! i \<le> s) xs = filter (\<lambda>s. s = xs ! i) (take i xs) @ drop i xs"
    by (metis append_take_drop_id filter_append)
  then show ?thesis by simp
qed

lemma allowed_bound:
  assumes "0 \<le> target" "target < 1 - 1 / 10 ^ 12" "0 < rows"
  shows "allowed_rows target rows < rows" "real (allowed_rows target rows) \<le> target * real rows + 1 / 10 ^ 12"
proof -
  have n: "1 \<le> real rows" using assms(3) by simp
  have "target * real rows + 1 / 10 ^ 12 \<le> target * real rows + real rows * (1 / 10 ^ 12)" using n by simp
  also have "\<dots> = (target + 1 / 10 ^ 12) * real rows" by (simp add: algebra_simps)
  also have "\<dots> < real rows" using assms(2) n by (simp add: mult_less_cancel_right1)
  finally have lt: "target * real rows + 1 / 10 ^ 12 < real rows" .
  have pos: "0 \<le> target * real rows + 1 / 10 ^ 12" using assms(1) by simp
  have "of_int \<lfloor>target * real rows + 1 / 10 ^ 12\<rfloor> \<le> target * real rows + 1 / 10 ^ 12" by (rule of_int_floor_le)
  then show le: "real (allowed_rows target rows) \<le> target * real rows + 1 / 10 ^ 12"
    using pos by (simp add: allowed_rows_def)
  show "allowed_rows target rows < rows" using le lt by linarith
qed

text \<open>
  C35: The anomaly threshold meets its target and is the most permissive one that does. For scores where lower means
  attack, the chosen threshold flags at most the allowed number of benign rows (the target share, up to the tolerance
  of the code), the recorded rate is the real one, and when at least one row is allowed every higher threshold flags
  more rows than allowed.
\<close>

theorem anomaly_operating_point:
  assumes "threshold_for_fpr down up scores target True = Some r" "target < 1 - 1 / 10 ^ 12" "\<And>x. down x < x"
  shows "th_benign_flagged r = length (filter (\<lambda>s. s < th_threshold r) scores)
    \<and> th_achieved_fpr r = real (th_benign_flagged r) / real (length scores)
    \<and> th_benign_flagged r \<le> allowed_rows target (length scores)
    \<and> real (th_benign_flagged r) \<le> target * real (length scores) + 1 / 10 ^ 12
    \<and> (\<forall>t > th_threshold r. 0 < allowed_rows target (length scores) \<longrightarrow>
         allowed_rows target (length scores) < length (filter (\<lambda>s. s < t) scores))"
proof -
  let ?o = "sort scores" and ?a = "allowed_rows target (length scores)"
  have ne: "scores \<noteq> []" and t: "0 \<le> target" using assms(1) by (auto simp: threshold_for_fpr_def split: if_splits)
  have a: "?a < length scores" "real ?a \<le> target * real (length scores) + 1 / 10 ^ 12"
    using allowed_bound [OF t assms(2)] ne by auto
  have len: "length (filter P ?o) = length (filter P scores)" for P
    by (metis mset_filter mset_sort size_mset)
  have r: "th_threshold r = (if ?a = 0 then down (?o ! 0) else ?o ! ?a)"
    "th_benign_flagged r = length (filter (\<lambda>s. s < th_threshold r) ?o)"
    "th_achieved_fpr r = real (th_benign_flagged r) / real (length scores)"
    using assms(1) ne t assms(2) by (auto simp: threshold_for_fpr_def Let_def split: if_splits)
  have flagged: "th_benign_flagged r \<le> ?a"
  proof (cases "?a = 0")
    case True
    have "?o ! 0 \<le> s" if "s \<in> set ?o" for s using that by (metis in_set_conv_nth sorted_nth_mono sorted_sort le0)
    then have "filter (\<lambda>s. s < th_threshold r) ?o = []"
      using True assms(3) r(1) by (auto simp: filter_empty_conv not_less intro: less_imp_le order.strict_trans2)
    then show ?thesis using r(2) True by simp
  next
    case False
    then show ?thesis using count_below [of ?o ?a] a r by simp
  qed
  have more: "?a < length (filter (\<lambda>s. s < t) scores)" if "th_threshold r < t" "0 < ?a" for t
  proof -
    have "filter (\<lambda>s. s < t) (take (Suc ?a) ?o) = take (Suc ?a) ?o"
      unfolding filter_id_conv
    proof
      fix s assume "s \<in> set (take (Suc ?a) ?o)"
      then obtain i where "i \<le> ?a" "s = ?o ! i" using a by (auto simp: in_set_conv_nth less_Suc_eq_le)
      then have "s \<le> ?o ! ?a" using a by (auto intro!: sorted_nth_mono)
      then show "s < t" using that r(1) by simp
    qed
    moreover have "length (filter (\<lambda>s. s < t) (take (Suc ?a) ?o)) \<le> length (filter (\<lambda>s. s < t) ?o)"
      by (metis append_take_drop_id filter_append le_add1 length_append)
    ultimately show ?thesis using a by (simp add: len)
  qed
  show ?thesis using flagged more r a(2) by (auto simp: len)
qed

theorem anomaly_operating_point_witness:
  "\<exists>r. threshold_for_fpr (\<lambda>x. x - 1) (\<lambda>x. x + 1) [3, 1, 2, 4] (1/4) True = Some r
     \<and> th_benign_flagged r \<le> allowed_rows (1/4) 4"
proof -
  have "allowed_rows (1/4) (length [3, 1, 2, 4 :: real]) < length [3, 1, 2, 4 :: real]" by (rule allowed_bound(1)) simp_all
  then obtain r where r: "threshold_for_fpr (\<lambda>x. x - 1) (\<lambda>x. x + 1) [3, 1, 2, 4] (1/4) True = Some r"
    by (simp add: threshold_for_fpr_def Let_def)
  have "th_benign_flagged r \<le> allowed_rows (1/4) (length [3, 1, 2, 4 :: real])"
    by (rule anomaly_operating_point [OF r, THEN conjunct2, THEN conjunct2, THEN conjunct1]) simp_all
  moreover have "length [3, 1, 2, 4 :: real] = 4" by simp
  ultimately show ?thesis using r by metis
qed

text \<open>
  C36: The probability threshold flags the allowed rows and every tie below them. For scores where higher means attack
  and at least one row is allowed, the number of flagged benign rows is the allowed number plus the number of other
  benign rows whose score equals the threshold. Without ties it meets its target; with ties it does not.
\<close>

theorem probability_operating_point:
  assumes "threshold_for_fpr down up scores target False = Some r" "target < 1 - 1 / 10 ^ 12"
    "0 < allowed_rows target (length scores)"
  shows "th_benign_flagged r = allowed_rows target (length scores)
    + length (filter (\<lambda>s. s = th_threshold r) (take (length scores - allowed_rows target (length scores)) (sort scores)))"
proof -
  let ?o = "sort scores" and ?a = "allowed_rows target (length scores)"
  have ne: "scores \<noteq> []" and t: "0 \<le> target" using assms(1) by (auto simp: threshold_for_fpr_def split: if_splits)
  have a: "?a < length scores" using allowed_bound(1) [OF t assms(2)] ne by simp
  have "th_threshold r = ?o ! (length scores - ?a)" "th_benign_flagged r = length (filter (\<lambda>s. th_threshold r \<le> s) ?o)"
    using assms ne t by (auto simp: threshold_for_fpr_def Let_def split: if_splits)
  then show ?thesis using count_above [of ?o "length scores - ?a"] a assms(3) by simp
qed

text \<open>Four equal scores with a target of one row in four: all of them are flagged.\<close>

lemma ties_exceed_target:
  "\<exists>r. threshold_for_fpr down up [1/2, 1/2, 1/2, 1/2] (1/4) False = Some r \<and> th_benign_flagged r = 4 \<and> th_achieved_fpr r = 1"
proof -
  have "\<lfloor>2 + (1 / 1000000000000 :: real)\<rfloor> = 2" "\<lfloor>1 + (1 / 1000000000000 :: real)\<rfloor> = 1" by linarith+
  then show ?thesis by (simp add: threshold_for_fpr_def Let_def allowed_rows_def)
qed

theorem probability_operating_point_witness:
  "\<exists>r. threshold_for_fpr (\<lambda>x. x - 1) (\<lambda>x. x + 1) [1/2, 1/2, 1/2, 1/2] (1/4) False = Some r
     \<and> th_benign_flagged r = 1 + length (filter (\<lambda>s. s = th_threshold r) [1/2, 1/2, 1/2])"
proof -
  have a: "allowed_rows (1/4) 4 = 1"
  proof -
    have "\<lfloor>1 + (1 / 1000000000000 :: real)\<rfloor> = 1" by linarith
    then show ?thesis by (simp add: allowed_rows_def)
  qed
  obtain r where r: "threshold_for_fpr (\<lambda>x. x - 1) (\<lambda>x. x + 1) [1/2, 1/2, 1/2, 1/2] (1/4) False = Some r"
    using ties_exceed_target by blast
  have len: "length [1/2, 1/2, 1/2, 1/2 :: real] = 4" by simp
  have "th_benign_flagged r = 1 + length (filter (\<lambda>s. s = th_threshold r) (take 3 (sort [1/2, 1/2, 1/2, 1/2])))"
    using probability_operating_point [OF r] unfolding len a by simp
  moreover have "take 3 (sort [1/2, 1/2, 1/2, 1/2 :: real]) = [1/2, 1/2, 1/2]" by simp
  ultimately show ?thesis using r by metis
qed

end
