(* ===== verification/Inference.thy ===== *)
theory Inference
  imports Features Calibration Threat_Engine
begin

section \<open>Model inference\<close>

text \<open>
  \<open>ml/inference/\<close>, \<open>detection/known_attack.py\<close> and \<open>detection/anomaly.py\<close>: the checks around a loaded model and the
  evidence made of its output. The booster's \<open>predict\<close> and the forest's \<open>decision_function\<close> are functions of the
  loaded model, from rows of features to what numpy returns; reading the files is the argument of the loaders.
\<close>

record model_metadata =
  md_model_version :: string
  md_feature_schema_version :: string
  md_feature_ordering :: "string list"
  md_class_mapping :: "(string, int) odict"
  md_operating_threshold :: "real option"
  md_calibration_method :: "string option"
  md_calibration_x :: "real list"
  md_calibration_y :: "real list"

definition check_calibration :: "model_metadata \<Rightarrow> bool" where
  "check_calibration m \<longleftrightarrow> length (md_calibration_x m) = length (md_calibration_y m)
     \<and> \<not> (md_calibration_method m = None \<and> md_calibration_x m \<noteq> [])"

definition metadata_ok :: "model_metadata \<Rightarrow> bool" where
  "metadata_ok m \<longleftrightarrow> md_model_version m \<noteq> [] \<and> md_feature_schema_version m \<noteq> [] \<and> md_feature_ordering m \<noteq> []
     \<and> check_calibration m"

text \<open>An array of the shape \<open>(n,)\<close> or \<open>(n, k)\<close>.\<close>

datatype nd_array = ND_VALUES "real list" | ND_ROWS "real list list"

record lightgbm_model =
  lg_predict :: "real list list \<Rightarrow> nd_array"
  lg_metadata :: model_metadata

record isolation_forest_model =
  if_decision_function :: "real list list \<Rightarrow> real list"
  if_metadata :: model_metadata

text \<open>\<open>ModelLoadError\<close>, \<open>ModelInferenceError\<close>, \<open>ValueError\<close> and what is neither (\<open>KeyError\<close>, \<open>IndexError\<close>, \<open>TypeError\<close>).\<close>

datatype inference_error = IE_LOAD | IE_INFERENCE | IE_VALUE | IE_OTHER

subsection \<open>Loading\<close>

definition check_schema_compatibility :: "model_metadata \<Rightarrow> string option \<Rightarrow> inference_error option" where
  "check_schema_compatibility m expected =
     (let version = md_feature_schema_version m
      in if expected \<noteq> None \<and> expected \<noteq> Some version then Some IE_INFERENCE
         else if \<not> supports_schema_version version then Some IE_INFERENCE
         else (case feature_names version of
                 None \<Rightarrow> Some IE_OTHER
               | Some names \<Rightarrow> if md_feature_ordering m \<noteq> names then Some IE_INFERENCE else None))"

text \<open>The sidecar and the artifact are what reading them yields; a failed read is \<open>None\<close>.\<close>

definition load_lightgbm_model :: "model_metadata option \<Rightarrow> (real list list \<Rightarrow> nd_array) option \<Rightarrow> string option
    \<Rightarrow> inference_error + lightgbm_model" where
  "load_lightgbm_model sidecar artifact expected =
     (case sidecar of
        None \<Rightarrow> Inl IE_LOAD
      | Some m \<Rightarrow> (case check_schema_compatibility m expected of
          Some e \<Rightarrow> Inl e
        | None \<Rightarrow> (case artifact of None \<Rightarrow> Inl IE_LOAD | Some f \<Rightarrow> Inr \<lparr>lg_predict = f, lg_metadata = m\<rparr>)))"

definition load_isolation_forest_model :: "model_metadata option \<Rightarrow> (real list list \<Rightarrow> real list) option \<Rightarrow> string option
    \<Rightarrow> inference_error + isolation_forest_model" where
  "load_isolation_forest_model sidecar artifact expected =
     (case sidecar of
        None \<Rightarrow> Inl IE_LOAD
      | Some m \<Rightarrow> (case check_schema_compatibility m expected of
          Some e \<Rightarrow> Inl e
        | None \<Rightarrow> (case artifact of None \<Rightarrow> Inl IE_LOAD | Some f \<Rightarrow> Inr \<lparr>if_decision_function = f, if_metadata = m\<rparr>)))"

subsection \<open>Inference\<close>

definition validate_feature_vector :: "feature_vector \<Rightarrow> model_metadata \<Rightarrow> inference_error option" where
  "validate_feature_vector v m =
     (if fv_schema_version v \<noteq> md_feature_schema_version m then Some IE_INFERENCE
      else if fv_feature_names v \<noteq> md_feature_ordering m then Some IE_INFERENCE
      else None)"

definition apply_calibration :: "interpolation \<Rightarrow> isotonic_calibration \<Rightarrow> nd_array \<Rightarrow> nd_array" where
  "apply_calibration interp c a = (case a of
     ND_VALUES vs \<Rightarrow> ND_VALUES (ic_apply_many interp c vs) | ND_ROWS rs \<Rightarrow> ND_ROWS (map (ic_apply_many interp c) rs))"

definition predict_class_probabilities :: "interpolation \<Rightarrow> lightgbm_model \<Rightarrow> feature_vector \<Rightarrow> inference_error + nd_array" where
  "predict_class_probabilities interp model v =
     (let m = lg_metadata model
      in case validate_feature_vector v m of
           Some e \<Rightarrow> Inl e
         | None \<Rightarrow>
             let vals = lg_predict model [fv_values v]
             in if md_calibration_method m = None then Inr vals
                else if md_calibration_method m \<noteq> Some ''isotonic'' then Inl IE_INFERENCE
                else if 2 < length (md_class_mapping m) then Inl IE_INFERENCE
                else (case new_isotonic_calibration (md_calibration_x m) (md_calibration_y m) of
                        None \<Rightarrow> Inl IE_VALUE
                      | Some c \<Rightarrow> Inr (apply_calibration interp c vals)))"

definition anomaly_score :: "isolation_forest_model \<Rightarrow> feature_vector \<Rightarrow> inference_error + real" where
  "anomaly_score model v =
     (case validate_feature_vector v (if_metadata model) of
        Some e \<Rightarrow> Inl e
      | None \<Rightarrow> (case if_decision_function model [fv_values v] of [] \<Rightarrow> Inl IE_OTHER | s # _ \<Rightarrow> Inr s))"

fun validate_all :: "feature_vector list \<Rightarrow> model_metadata \<Rightarrow> inference_error option" where
  "validate_all [] m = None"
| "validate_all (v # vs) m = (case validate_feature_vector v m of Some e \<Rightarrow> Some e | None \<Rightarrow> validate_all vs m)"

definition anomaly_score_batch :: "isolation_forest_model \<Rightarrow> feature_vector list \<Rightarrow> inference_error + real list" where
  "anomaly_score_batch model vs =
     (if vs = [] then Inr []
      else case validate_all vs (if_metadata model) of
             Some e \<Rightarrow> Inl e
           | None \<Rightarrow> Inr (if_decision_function model (map fv_values vs)))"

subsection \<open>Evidence\<close>

text \<open>The constructors' field constraints; a refusal is a \<open>ValueError\<close>.\<close>

definition new_known_evidence :: "known_evidence \<Rightarrow> inference_error + known_evidence" where
  "new_known_evidence e =
     (if ke_flow_id e \<noteq> [] \<and> ke_predicted_class e \<noteq> [] \<and> 0 \<le> ke_confidence e \<and> ke_confidence e \<le> 1
         \<and> (case ke_operating_threshold e of None \<Rightarrow> True | Some t \<Rightarrow> 0 \<le> t \<and> t \<le> 1)
         \<and> ke_model_version e \<noteq> [] \<and> ke_feature_schema_version e \<noteq> []
      then Inr e else Inl IE_VALUE)"

definition new_anomaly_evidence :: "anomaly_evidence \<Rightarrow> inference_error + anomaly_evidence" where
  "new_anomaly_evidence e =
     (if ae_flow_id e \<noteq> [] \<and> ae_model_version e \<noteq> [] \<and> ae_feature_schema_version e \<noteq> [] then Inr e else Inl IE_VALUE)"

text \<open>\<open>index_to_label\<close>: of two labels with one index the later wins.\<close>

definition index_to_label :: "(string, int) odict \<Rightarrow> int \<Rightarrow> string option" where
  "index_to_label cm i = map_of (rev (map (\<lambda>(label, index). (index, label)) cm)) i"

fun label_row :: "(string, int) odict \<Rightarrow> real list \<Rightarrow> nat list \<Rightarrow> (string, real) odict option" where
  "label_row cm row [] = Some []"
| "label_row cm row (i # is) =
     (case index_to_label cm (int i) of
        None \<Rightarrow> None
      | Some label \<Rightarrow> if length row \<le> i then None
                      else map_option ((#) (label, row ! i)) (label_row cm row is))"

definition class_probabilities :: "(string, int) odict \<Rightarrow> nd_array \<Rightarrow> (string, real) odict option" where
  "class_probabilities cm raw =
     (if 2 < length cm
      then (case raw of ND_ROWS (row # _) \<Rightarrow> label_row cm row [0..<length cm] | _ \<Rightarrow> None)
      else (case (case raw of ND_VALUES (p # _) \<Rightarrow> Some p | ND_ROWS ([p] # _) \<Rightarrow> Some p | _ \<Rightarrow> None) of
              None \<Rightarrow> None
            | Some p \<Rightarrow> (case (index_to_label cm 0, index_to_label cm 1) of
                (Some negative, Some positive) \<Rightarrow> Some (AList.update positive p [(negative, 1 - p)])
              | _ \<Rightarrow> None)))"

text \<open>\<open>max(class_probabilities, key=...)\<close>: the first label with the greatest probability.\<close>

fun best_label :: "string \<times> real \<Rightarrow> (string, real) odict \<Rightarrow> string \<times> real" where
  "best_label b [] = b"
| "best_label b (x # xs) = best_label (if snd b < snd x then x else b) xs"

definition classify_known_attack :: "interpolation \<Rightarrow> lightgbm_model \<Rightarrow> feature_vector \<Rightarrow> datetime \<Rightarrow> inference_error + known_evidence" where
  "classify_known_attack interp model v generated_at =
     (case predict_class_probabilities interp model v of
        Inl e \<Rightarrow> Inl e
      | Inr raw \<Rightarrow> (case class_probabilities (md_class_mapping (lg_metadata model)) raw of
          None \<Rightarrow> Inl IE_OTHER
        | Some [] \<Rightarrow> Inl IE_VALUE
        | Some (x # xs) \<Rightarrow>
            new_known_evidence \<lparr>ke_flow_id = fv_flow_id v, ke_predicted_class = fst (best_label x xs),
              ke_confidence = snd (best_label x xs), ke_class_probabilities = x # xs,
              ke_operating_threshold = md_operating_threshold (lg_metadata model),
              ke_model_version = md_model_version (lg_metadata model),
              ke_feature_schema_version = md_feature_schema_version (lg_metadata model), ke_generated_at = generated_at\<rparr>))"

definition anomaly_of :: "isolation_forest_model \<Rightarrow> real \<Rightarrow> datetime \<Rightarrow> feature_vector \<Rightarrow> real \<Rightarrow> inference_error + anomaly_evidence" where
  "anomaly_of model threshold generated_at v score =
     new_anomaly_evidence \<lparr>ae_flow_id = fv_flow_id v, ae_anomaly_score = score, ae_threshold = threshold,
       ae_is_anomaly = (score < threshold), ae_model_version = md_model_version (if_metadata model),
       ae_feature_schema_version = md_feature_schema_version (if_metadata model), ae_generated_at = generated_at\<rparr>"

definition detect_anomaly :: "isolation_forest_model \<Rightarrow> feature_vector \<Rightarrow> real \<Rightarrow> datetime \<Rightarrow> inference_error + anomaly_evidence" where
  "detect_anomaly model v threshold generated_at =
     (case anomaly_score model v of Inl e \<Rightarrow> Inl e | Inr score \<Rightarrow> anomaly_of model threshold generated_at v score)"

text \<open>\<open>zip(..., strict=True)\<close>: lists of different length raise \<open>ValueError\<close>.\<close>

fun zip_evidence :: "isolation_forest_model \<Rightarrow> real \<Rightarrow> datetime \<Rightarrow> feature_vector list \<Rightarrow> real list \<Rightarrow> inference_error + anomaly_evidence list" where
  "zip_evidence model threshold now [] [] = Inr []"
| "zip_evidence model threshold now (v # vs) (s # ss) =
     (case anomaly_of model threshold now v s of
        Inl e \<Rightarrow> Inl e
      | Inr a \<Rightarrow> (case zip_evidence model threshold now vs ss of Inl e \<Rightarrow> Inl e | Inr as \<Rightarrow> Inr (a # as)))"
| "zip_evidence model threshold now _ _ = Inl IE_VALUE"

definition detect_batch :: "isolation_forest_model \<Rightarrow> feature_vector list \<Rightarrow> real \<Rightarrow> datetime \<Rightarrow> inference_error + anomaly_evidence list" where
  "detect_batch model vs threshold generated_at =
     (case anomaly_score_batch model vs of Inl e \<Rightarrow> Inl e | Inr scores \<Rightarrow> zip_evidence model threshold generated_at vs scores)"

subsection \<open>A batch scores as single rows do\<close>

lemma validate_all_None: "validate_all vs m = None \<longleftrightarrow> (\<forall>v \<in> set vs. validate_feature_vector v m = None)"
  by (induction vs) (auto split: option.splits)

lemma zip_evidence_map:
  "zip_evidence model thr now vs (map f vs) = Inr as \<longleftrightarrow> map (\<lambda>v. anomaly_of model thr now v (f v)) vs = map Inr as"
proof (induction vs arbitrary: as)
  case (Cons v vs)
  show ?case
  proof (cases as)
    case Nil
    then show ?thesis by (auto split: sum.splits)
  next
    case (Cons a as')
    then show ?thesis using Cons.IH [of as'] by (auto split: sum.splits)
  qed
qed auto

text \<open>
  Scoring a batch changes nothing. When the forest scores every row by itself (the documented behaviour of
  \<open>decision_function\<close>), a batch of feature vectors yields a list of evidence exactly when every vector alone yields
  evidence, and then the same evidence in the same order.
\<close>

theorem batch_matches_single:
  assumes "\<And>rows. if_decision_function model rows = map score rows"
  shows "detect_batch model vs threshold now = Inr es \<longleftrightarrow> map (\<lambda>v. detect_anomaly model v threshold now) vs = map Inr es"
proof -
  have single: "detect_anomaly model v threshold now =
      (case validate_feature_vector v (if_metadata model) of Some e \<Rightarrow> Inl e
       | None \<Rightarrow> anomaly_of model threshold now v (score (fv_values v)))" for v
    by (simp add: detect_anomaly_def anomaly_score_def assms split: option.splits)
  show ?thesis
  proof (cases "validate_all vs (if_metadata model)")
    case None
    then have "detect_batch model vs threshold now = zip_evidence model threshold now vs (map (\<lambda>v. score (fv_values v)) vs)"
      by (simp add: detect_batch_def anomaly_score_batch_def assms comp_def)
    moreover have "map (\<lambda>v. detect_anomaly model v threshold now) vs
        = map (\<lambda>v. anomaly_of model threshold now v (score (fv_values v))) vs"
      using None by (auto simp: single validate_all_None)
    ultimately show ?thesis by (simp only: zip_evidence_map)
  next
    case (Some e)
    then have "vs \<noteq> []" by auto
    then have "detect_batch model vs threshold now = Inl e" using Some by (simp add: detect_batch_def anomaly_score_batch_def)
    moreover obtain v e' where "v \<in> set vs" "validate_feature_vector v (if_metadata model) = Some e'"
      using Some validate_all_None [of vs "if_metadata model"] by auto
    then have "v \<in> set vs" "detect_anomaly model v threshold now = Inl e'" by (simp_all add: single)
    then have "Inl e' \<in> set (map (\<lambda>v. detect_anomaly model v threshold now) vs)" by (metis image_eqI set_map)
    then have "map (\<lambda>v. detect_anomaly model v threshold now) vs \<noteq> map Inr es" by (metis ex_map_conv sum.distinct(1) imageE set_map)
    ultimately show ?thesis by simp
  qed
qed

definition example_metadata :: model_metadata where
  "example_metadata = \<lparr>md_model_version = ''1'', md_feature_schema_version = ''s'', md_feature_ordering = [''a''],
     md_class_mapping = [], md_operating_threshold = None, md_calibration_method = None, md_calibration_x = [],
     md_calibration_y = []\<rparr>"

definition example_vector :: feature_vector where
  "example_vector = \<lparr>fv_flow_id = ''f'', fv_schema_version = ''s'', fv_feature_names = [''a''], fv_values = [2], fv_computed_at = 0\<rparr>"

theorem batch_matches_single_witness:
  "\<exists>e. detect_batch \<lparr>if_decision_function = map hd, if_metadata = example_metadata\<rparr> [example_vector] 3 0 = Inr [e] \<and> ae_is_anomaly e"
proof -
  let ?m = "\<lparr>if_decision_function = map hd, if_metadata = example_metadata\<rparr>"
  obtain e where e: "detect_anomaly ?m example_vector 3 0 = Inr e" "ae_is_anomaly e"
    by (simp add: detect_anomaly_def anomaly_score_def validate_feature_vector_def anomaly_of_def new_anomaly_evidence_def
        example_metadata_def example_vector_def)
  then have "detect_batch ?m [example_vector] 3 0 = Inr [e]" using batch_matches_single [of ?m hd "[example_vector]" 3 0 "[e]"] by simp
  then show ?thesis using e by blast
qed

subsection \<open>The schema gate\<close>

lemma extracted_vector:
  "extract_features f version = Inr v \<Longrightarrow> fv_schema_version v = version \<and> feature_names version = Some (fv_feature_names v)"
  by (auto simp: extract_features_def new_feature_vector_def split: option.splits if_splits)

text \<open>
  C26: No model ever sees a vector of another schema. For a model the loader accepted and a vector the extractor produced,
  the per-call check passes exactly when the vector has the version the model was trained on; otherwise classification
  and anomaly detection fail with an inference error whatever the model computes. Either loader, the one of the classifier
  and the one of the forest, returns only models of the version it was asked for.
\<close>

theorem schema_gate:
  assumes "load_lightgbm_model sidecar artifact expected = Inr lg"
    "load_isolation_forest_model sidecar' artifact' expected' = Inr forest"
    "extract_features f version = Inr v"
  shows "(validate_feature_vector v (lg_metadata lg) = None \<longleftrightarrow> version = md_feature_schema_version (lg_metadata lg))
    \<and> (validate_feature_vector v (if_metadata forest) = None \<longleftrightarrow> version = md_feature_schema_version (if_metadata forest))
    \<and> (version \<noteq> md_feature_schema_version (lg_metadata lg) \<longrightarrow> classify_known_attack interp lg v now = Inl IE_INFERENCE)
    \<and> (version \<noteq> md_feature_schema_version (if_metadata forest) \<longrightarrow> detect_anomaly forest v threshold now = Inl IE_INFERENCE)
    \<and> (\<forall>w. expected = Some w \<longrightarrow> md_feature_schema_version (lg_metadata lg) = w)
    \<and> (\<forall>w. expected' = Some w \<longrightarrow> md_feature_schema_version (if_metadata forest) = w)"
proof -
  have v: "fv_schema_version v = version" "feature_names version = Some (fv_feature_names v)"
    using extracted_vector [OF assms(3)] by auto
  have lg: "check_schema_compatibility (lg_metadata lg) expected = None"
    using assms(1) by (auto simp: load_lightgbm_model_def split: option.splits)
  have fo: "check_schema_compatibility (if_metadata forest) expected' = None"
    using assms(2) by (auto simp: load_isolation_forest_model_def split: option.splits)
  have names: "feature_names (md_feature_schema_version m) = Some (md_feature_ordering m)"
    if "check_schema_compatibility m x = None" for m x
    using that by (auto simp: check_schema_compatibility_def Let_def split: if_splits option.splits)
  have gate: "validate_feature_vector v m = (if version = md_feature_schema_version m then None else Some IE_INFERENCE)"
    if "check_schema_compatibility m x = None" for m x
    using v names [OF that] by (auto simp: validate_feature_vector_def)
  show ?thesis
    using gate [OF lg] gate [OF fo] lg fo
    by (auto simp: classify_known_attack_def predict_class_probabilities_def detect_anomaly_def anomaly_score_def
        check_schema_compatibility_def Let_def split: if_splits)
qed

definition example_measured_flow :: flow where
  "example_measured_flow = example_flow\<lparr>fl_payload_stats := Some \<lparr>pl_forward_bytes = 0, pl_backward_bytes = 0,
     pl_min_bytes = 0, pl_max_bytes = 0, pl_mean_bytes = 0, pl_std_bytes = 0\<rparr>\<rparr>"

definition example_legacy_metadata :: model_metadata where
  "example_legacy_metadata =
     example_metadata\<lparr>md_feature_schema_version := LEGACY_SCHEMA_VERSION, md_feature_ordering := map fst FEATURE_TABLE_V2\<rparr>"

theorem schema_gate_witness:
  "\<exists>v. extract_features example_measured_flow SCHEMA_VERSION = Inr v
     \<and> classify_known_attack (\<lambda>s xs ys. s) \<lparr>lg_predict = (\<lambda>rows. ND_VALUES [1]), lg_metadata = example_legacy_metadata\<rparr> v 0
         = Inl IE_INFERENCE"
proof -
  let ?lg = "\<lparr>lg_predict = (\<lambda>rows. ND_VALUES [1]), lg_metadata = example_legacy_metadata\<rparr>"
  have ok: "check_schema_compatibility example_legacy_metadata None = None"
    by (simp add: check_schema_compatibility_def supports_iff schema_names example_legacy_metadata_def)
  have lg: "load_lightgbm_model (Some example_legacy_metadata) (Some (\<lambda>rows. ND_VALUES [1])) None = Inr ?lg"
    using ok by (simp add: load_lightgbm_model_def)
  have fo: "load_isolation_forest_model (Some example_legacy_metadata) (Some (map hd)) None
      = Inr \<lparr>if_decision_function = map hd, if_metadata = example_legacy_metadata\<rparr>"
    using ok by (simp add: load_isolation_forest_model_def)
  have "fl_flow_id example_measured_flow \<noteq> []" by (simp add: example_measured_flow_def example_flow_def)
  then obtain v where v: "extract_features example_measured_flow SCHEMA_VERSION = Inr v"
    by (simp add: extract_features_exact supports_iff) (simp add: example_measured_flow_def)
  have "SCHEMA_VERSION \<noteq> md_feature_schema_version (lg_metadata ?lg)"
    by (simp add: example_legacy_metadata_def SCHEMA_VERSION_def LEGACY_SCHEMA_VERSION_def)
  then show ?thesis using schema_gate [OF lg fo v] v by blast
qed

end
