(* ===== verification/Fair_History.thy ===== *)
theory Fair_History
  imports Prelude
begin

section \<open>A bounded history one source cannot flush\<close>

text \<open>
  \<open>ipc/history.py\<close>: \<open>FairShareHistory\<close>. Items are numbered; a dictionary from numbers to items is the chronological
  list, and a second one from keys to the numbers they own says who holds how much. At capacity the key with the most
  items loses its oldest one. A raise (\<open>max\<close> of nothing, a missing number) is \<open>None\<close>.
\<close>

record ('k, 'a) fair_history =
  fh_maxlen :: nat
  fh_sequence :: nat
  fh_items :: "(nat, 'a) odict"
  fh_by_key :: "('k, nat list) odict"

definition new_fair_history :: "nat \<Rightarrow> ('k, 'a) fair_history option" where
  "new_fair_history maxlen =
     (if maxlen < 1 then None else Some \<lparr>fh_maxlen = maxlen, fh_sequence = 0, fh_items = [], fh_by_key = []\<rparr>)"

text \<open>\<open>max(..., key=lambda k: (len, -first))\<close>: the first entry with the greatest pair.\<close>

definition holds_more :: "'k \<times> nat list \<Rightarrow> 'k \<times> nat list \<Rightarrow> bool" where
  "holds_more x y \<longleftrightarrow> length (snd y) < length (snd x) \<or> length (snd x) = length (snd y) \<and> hd (snd x) < hd (snd y)"

fun largest :: "'k \<times> nat list \<Rightarrow> ('k, nat list) odict \<Rightarrow> 'k \<times> nat list" where
  "largest b [] = b"
| "largest b (x # xs) = largest (if holds_more x b then x else b) xs"

definition evict_one :: "('k, 'a) fair_history \<Rightarrow> ('k, 'a) fair_history option" where
  "evict_one h = (case fh_by_key h of
       [] \<Rightarrow> None
     | x # xs \<Rightarrow>
         let (victim, sequences) = largest x xs
         in (case sequences of
               [] \<Rightarrow> None
             | first # rest \<Rightarrow>
                 if map_of (fh_items h) first = None then None
                 else Some (h\<lparr>fh_items := AList.delete first (fh_items h),
                              fh_by_key := (if rest = [] then AList.delete victim (fh_by_key h)
                                            else AList.update victim rest (fh_by_key h))\<rparr>)))"

definition fh_append :: "'a \<Rightarrow> 'k \<Rightarrow> ('k, 'a) fair_history \<Rightarrow> ('k, 'a) fair_history option" where
  "fh_append item k h =
     (case (if fh_maxlen h \<le> length (fh_items h) then evict_one h else Some h) of
        None \<Rightarrow> None
      | Some h1 \<Rightarrow>
          let n = fh_sequence h1 + 1;
              sequences = (case map_of (fh_by_key h1) k of None \<Rightarrow> [] | Some s \<Rightarrow> s)
          in Some (h1\<lparr>fh_sequence := n, fh_items := AList.update n item (fh_items h1),
                      fh_by_key := AList.update k (sequences @ [n]) (fh_by_key h1)\<rparr>))"

definition fh_list :: "('k, 'a) fair_history \<Rightarrow> 'a list" where
  "fh_list h = map snd (fh_items h)"

subsection \<open>The invariant\<close>

text \<open>Who holds a number, and how many numbers a key holds.\<close>

definition owned :: "('k, 'a) fair_history \<Rightarrow> 'k \<Rightarrow> nat list" where
  "owned h k = (case map_of (fh_by_key h) k of None \<Rightarrow> [] | Some s \<Rightarrow> s)"

definition fair_inv :: "('k, 'a) fair_history \<Rightarrow> bool" where
  "fair_inv h \<longleftrightarrow> 0 < fh_maxlen h \<and> length (fh_items h) \<le> fh_maxlen h
     \<and> sorted_wrt (<) (map fst (fh_items h)) \<and> (\<forall>n \<in> fst ` set (fh_items h). n \<le> fh_sequence h)
     \<and> od_distinct (fh_by_key h) \<and> (\<forall>k. sorted_wrt (<) (owned h k))
     \<and> (\<forall>k. map_of (fh_by_key h) k \<noteq> Some [])
     \<and> (\<forall>n. n \<in> fst ` set (fh_items h) \<longleftrightarrow> (\<exists>k. n \<in> set (owned h k)))
     \<and> (\<forall>k k'. k \<noteq> k' \<longrightarrow> set (owned h k) \<inter> set (owned h k') = {})"

text \<open>The items of one key, in order.\<close>

definition items_of :: "('k, 'a) fair_history \<Rightarrow> 'k \<Rightarrow> 'a list" where
  "items_of h k = map snd (filter (\<lambda>(n, x). n \<in> set (owned h k)) (fh_items h))"

lemma strict_sorted_distinct: "sorted_wrt (<) (xs :: nat list) \<Longrightarrow> distinct xs"
  by (simp add: strict_sorted_iff)

lemma fair_inv_new: "new_fair_history maxlen = Some h \<Longrightarrow> fair_inv h"
  by (auto simp: new_fair_history_def fair_inv_def owned_def split: if_splits)

lemma fair_owned: "fair_inv h \<Longrightarrow> n \<in> fst ` set (fh_items h) \<longleftrightarrow> (\<exists>k. n \<in> set (owned h k))"
  unfolding fair_inv_def by (elim conjE) (erule spec)

lemma fair_sorted: "fair_inv h \<Longrightarrow> sorted_wrt (<) (owned h k)"
  by (simp add: fair_inv_def)

lemma fair_numbers: "fair_inv h \<Longrightarrow> n \<in> fst ` set (fh_items h) \<Longrightarrow> n \<le> fh_sequence h"
  unfolding fair_inv_def by (elim conjE) (erule (1) bspec)

lemma fair_bounds:
  "fair_inv h \<Longrightarrow> 0 < fh_maxlen h" "fair_inv h \<Longrightarrow> length (fh_items h) \<le> fh_maxlen h"
  "fair_inv h \<Longrightarrow> fh_maxlen h \<le> length (fh_items h) \<Longrightarrow> fh_items h \<noteq> []"
  unfolding fair_inv_def by (elim conjE; simp)+

lemma fair_disjoint: "fair_inv h \<Longrightarrow> n \<in> set (owned h k) \<Longrightarrow> n \<in> set (owned h k') \<Longrightarrow> k = k'"
  unfolding fair_inv_def by (elim conjE) (metis disjoint_iff)

lemma largest_mem: "largest b xs \<in> set (b # xs)"
proof (induction b xs rule: largest.induct)
  case (2 b x xs)
  then show ?case by (cases "holds_more x b") auto
qed simp

lemma not_more_trans: "\<not> holds_more x b \<Longrightarrow> holds_more y b \<Longrightarrow> \<not> holds_more x y"
  by (auto simp: holds_more_def)

lemma largest_most: "x \<in> set (b # xs) \<Longrightarrow> \<not> holds_more x (largest b xs)"
proof (induction b xs arbitrary: x rule: largest.induct)
  case (1 b)
  then show ?case by (simp add: holds_more_def)
next
  case (2 b y ys)
  let ?b = "if holds_more y b then y else b"
  consider "x \<in> set (?b # ys)" | "\<not> holds_more x ?b" "x \<in> {b, y}" using 2(2) by (auto simp: holds_more_def)
  then show ?case
  proof cases
    case 1
    then show ?thesis using 2(1) by simp
  next
    case 2
    have "\<not> holds_more ?b (largest ?b ys)" using "2.IH" by simp
    then show ?thesis using 2(1) by (auto simp: holds_more_def)
  qed
qed

text \<open>The key that loses an item when the history is full.\<close>

definition victim :: "('k, 'a) fair_history \<Rightarrow> 'k" where
  "victim h = fst (largest (hd (fh_by_key h)) (tl (fh_by_key h)))"

lemma victim_largest:
  assumes "fair_inv h" "fh_items h \<noteq> []"
  shows "map_of (fh_by_key h) (victim h) = Some (owned h (victim h))" "owned h (victim h) \<noteq> []"
    "largest (hd (fh_by_key h)) (tl (fh_by_key h)) = (victim h, owned h (victim h))" "fh_by_key h \<noteq> []"
    "length (owned h k) < length (owned h (victim h))
       \<or> length (owned h k) = length (owned h (victim h)) \<and> (k = victim h \<or> hd (owned h (victim h)) < hd (owned h k))"
proof -
  obtain n x rest where "fh_items h = (n, x) # rest" using assms(2) by (cases "fh_items h") auto
  then obtain j where j: "n \<in> set (owned h j)" using fair_owned [OF assms(1), of n] by auto
  then have jin: "map_of (fh_by_key h) j = Some (owned h j)" by (cases "map_of (fh_by_key h) j") (auto simp: owned_def)
  then show ne: "fh_by_key h \<noteq> []" by auto
  let ?L = "largest (hd (fh_by_key h)) (tl (fh_by_key h))"
  have d: "od_distinct (fh_by_key h)" using assms(1) by (simp add: fair_inv_def)
  have all: "hd (fh_by_key h) # tl (fh_by_key h) = fh_by_key h" using ne by simp
  have mem: "?L \<in> set (fh_by_key h)" using largest_mem [of "hd (fh_by_key h)" "tl (fh_by_key h)"] all by simp
  then have look: "map_of (fh_by_key h) (victim h) = Some (snd ?L)" using d by (simp add: victim_def)
  then show v: "map_of (fh_by_key h) (victim h) = Some (owned h (victim h))" by (simp add: owned_def)
  show "owned h (victim h) \<noteq> []" using v assms(1) unfolding fair_inv_def by metis
  show L: "?L = (victim h, owned h (victim h))" using look v by (simp add: victim_def prod_eq_iff)
  show "length (owned h k) < length (owned h (victim h))
       \<or> length (owned h k) = length (owned h (victim h)) \<and> (k = victim h \<or> hd (owned h (victim h)) < hd (owned h k))"
  proof (cases "map_of (fh_by_key h) k")
    case None
    then have "owned h k = []" by (simp add: owned_def)
    then show ?thesis using \<open>owned h (victim h) \<noteq> []\<close> by simp
  next
    case (Some s)
    then have s: "owned h k = s" "(k, s) \<in> set (fh_by_key h)" by (auto simp: owned_def dest: map_of_SomeD)
    then have nm: "\<not> holds_more (k, s) (victim h, owned h (victim h))" using largest_most [of "(k, s)"] all L by metis
    have "hd s \<noteq> hd (owned h (victim h))" if "k \<noteq> victim h"
    proof -
      have "s \<noteq> []" using Some assms(1) by (auto simp: fair_inv_def)
      then have "hd s \<in> set (owned h k)" "hd (owned h (victim h)) \<in> set (owned h (victim h))"
        using s \<open>owned h (victim h) \<noteq> []\<close> by auto
      then show ?thesis using fair_disjoint [OF assms(1)] that by metis
    qed
    then have "k = victim h \<or> hd s \<noteq> hd (owned h (victim h))" by blast
    then show ?thesis using nm s by (auto simp: holds_more_def)
  qed
qed

subsection \<open>What evicting and appending do\<close>

definition evicted :: "('k, 'a) fair_history \<Rightarrow> ('k, 'a) fair_history" where
  "evicted h =
     h\<lparr>fh_items := AList.delete (hd (owned h (victim h))) (fh_items h),
       fh_by_key := (if tl (owned h (victim h)) = [] then AList.delete (victim h) (fh_by_key h)
                     else AList.update (victim h) (tl (owned h (victim h))) (fh_by_key h))\<rparr>"

lemma evict_one_ok:
  assumes "fair_inv h" "fh_items h \<noteq> []"
  shows "evict_one h = Some (evicted h)"
proof -
  note v = victim_largest [OF assms]
  obtain x xs where k: "fh_by_key h = x # xs" using v(4) by (cases "fh_by_key h") auto
  obtain first rest where o: "owned h (victim h) = first # rest" using v(2) by (cases "owned h (victim h)") auto
  have "first \<in> fst ` set (fh_items h)" using fair_owned [OF assms(1), of first] o by (metis list.set_intros(1))
  then have "map_of (fh_items h) first \<noteq> None" by (metis map_of_None_iff_key)
  then show ?thesis using v(3) k o by (simp add: evict_one_def evicted_def)
qed

lemma evicted_owned:
  assumes "fair_inv h" "fh_items h \<noteq> []"
  shows "owned (evicted h) k = (if k = victim h then tl (owned h k) else owned h k)"
  by (auto simp: owned_def evicted_def)

lemma evicted_inv:
  assumes i: "fair_inv h" and ne: "fh_items h \<noteq> []"
  shows "fair_inv (evicted h)" "Suc (length (fh_items (evicted h))) = length (fh_items h)"
    "fh_maxlen (evicted h) = fh_maxlen h" "fh_sequence (evicted h) = fh_sequence h"
proof -
  note v = victim_largest [OF assms] and o = evicted_owned [OF assms]
  obtain first rest where f: "owned h (victim h) = first # rest" using v(2) by (cases "owned h (victim h)") auto
  have items: "fh_items (evicted h) = AList.delete first (fh_items h)" using f by (simp add: evicted_def)
  have sorted: "sorted_wrt (<) (map fst (fh_items h))" and od: "od_distinct (fh_items h)"
    using i strict_sorted_distinct by (auto simp: fair_inv_def)
  have keys: "fst ` set (fh_items (evicted h)) = fst ` set (fh_items h) - {first}" by (simp add: items od_fst_delete)
  have first: "first \<in> fst ` set (fh_items h)" using fair_owned [OF i, of first] f by (metis list.set_intros(1))
  show "Suc (length (fh_items (evicted h))) = length (fh_items h)"
    using first ne by (simp add: items length_od_delete [OF od])
  have rest: "first \<notin> set rest" "sorted_wrt (<) rest" using fair_sorted [OF i, of "victim h"] f by auto
  have own: "n \<in> set (owned (evicted h) k) \<longleftrightarrow> n \<in> set (owned h k) \<and> n \<noteq> first" for n k
  proof (cases "k = victim h")
    case True
    then show ?thesis using rest(1) f o [of k] by auto
  next
    case False
    then have "first \<notin> set (owned h k)" using fair_disjoint [OF i, of first k "victim h"] f by auto
    then show ?thesis using False o [of k] by auto
  qed
  have "sorted_wrt (<) (map fst (fh_items (evicted h)))"
    using sorted by (simp add: items delete_keys removeAll_filter_not_eq sorted_wrt_filter)
  moreover have "sorted_wrt (<) (owned (evicted h) k)" for k using fair_sorted [OF i, of k] rest(2) f o [of k] by (cases "k = victim h") simp_all
  moreover have "n \<in> fst ` set (fh_items (evicted h)) \<longleftrightarrow> (\<exists>k. n \<in> set (owned (evicted h) k))" for n
    using fair_owned [OF i, of n] by (auto simp: own keys)
  moreover have "set (owned (evicted h) k) \<inter> set (owned (evicted h) k') = {}" if "k \<noteq> k'" for k k'
    using that own fair_disjoint [OF i] by (metis disjoint_iff)
  moreover have "map_of (fh_by_key (evicted h)) k \<noteq> Some []" for k
    using i by (auto simp: evicted_def fair_inv_def simp del: map_of_eq_Some_iff)
  moreover have "od_distinct (fh_by_key (evicted h))" using i by (auto simp: evicted_def fair_inv_def)
  moreover have "\<forall>n \<in> fst ` set (fh_items (evicted h)). n \<le> fh_sequence h" using i keys by (auto simp: fair_inv_def)
  moreover have "length (fh_items (evicted h)) \<le> fh_maxlen h"
    using i \<open>Suc (length (fh_items (evicted h))) = length (fh_items h)\<close> by (simp add: fair_inv_def)
  moreover have m: "fh_maxlen (evicted h) = fh_maxlen h" "fh_sequence (evicted h) = fh_sequence h" by (simp_all add: evicted_def)
  ultimately show "fair_inv (evicted h)" using i unfolding fair_inv_def by (simp del: map_of_eq_Some_iff)
  show "fh_maxlen (evicted h) = fh_maxlen h" "fh_sequence (evicted h) = fh_sequence h" by (rule m)+
qed

definition pushed :: "'a \<Rightarrow> 'k \<Rightarrow> ('k, 'a) fair_history \<Rightarrow> ('k, 'a) fair_history" where
  "pushed item k h = h\<lparr>fh_sequence := Suc (fh_sequence h), fh_items := fh_items h @ [(Suc (fh_sequence h), item)],
     fh_by_key := AList.update k (owned h k @ [Suc (fh_sequence h)]) (fh_by_key h)\<rparr>"

lemma od_update_absent: "k \<notin> fst ` set d \<Longrightarrow> AList.update k v d = d @ [(k, v)]"
  by (induction d) auto

lemma fresh_number:
  assumes "fair_inv h"
  shows "Suc (fh_sequence h) \<notin> fst ` set (fh_items h)" "Suc (fh_sequence h) \<notin> set (owned h k)"
proof -
  show n: "Suc (fh_sequence h) \<notin> fst ` set (fh_items h)" using fair_numbers [OF assms, of "Suc (fh_sequence h)"] by auto
  show "Suc (fh_sequence h) \<notin> set (owned h k)" using n fair_owned [OF assms] by metis
qed

lemma pushed_owned: "owned (pushed item k h) j = (if j = k then owned h k @ [Suc (fh_sequence h)] else owned h j)"
  by (simp add: owned_def pushed_def)

lemma pushed_inv:
  assumes i: "fair_inv h" and room: "length (fh_items h) < fh_maxlen h"
  shows "fair_inv (pushed item k h)"
proof -
  let ?n = "Suc (fh_sequence h)"
  have small: "\<forall>m \<in> fst ` set (fh_items h). m < ?n" using fair_numbers [OF i] by (simp add: less_Suc_eq_le)
  then have own_small: "m < ?n" if "m \<in> set (owned h j)" for m j using that fair_owned [OF i, of m] by blast
  have "sorted_wrt (<) (map fst (fh_items (pushed item k h)))"
    using i small by (simp add: pushed_def fair_inv_def sorted_wrt_append)
  moreover have "sorted_wrt (<) (owned (pushed item k h) j)" for j
    using fair_sorted [OF i] own_small by (auto simp: pushed_owned sorted_wrt_append)
  moreover have "m \<in> fst ` set (fh_items (pushed item k h)) \<longleftrightarrow> (\<exists>j. m \<in> set (owned (pushed item k h) j))" for m
  proof -
    have "(\<exists>j. m \<in> set (owned (pushed item k h) j)) \<longleftrightarrow> m = ?n \<or> (\<exists>j. m \<in> set (owned h j))"
      by (metis pushed_owned Un_iff empty_iff insert_iff list.set(1) list.simps(15) set_append)
    also have "\<dots> \<longleftrightarrow> m \<in> fst ` set (fh_items (pushed item k h))" unfolding fair_owned [OF i, symmetric] by (auto simp: pushed_def)
    finally show ?thesis by simp
  qed
  moreover have "set (owned (pushed item k h) j) \<inter> set (owned (pushed item k h) j') = {}" if "j \<noteq> j'" for j j'
    using that fair_disjoint [OF i] fresh_number(2) [OF i]
    by (cases "j = k"; cases "j' = k") (simp_all add: pushed_owned disjoint_iff, blast+)
  moreover have "map_of (fh_by_key (pushed item k h)) j \<noteq> Some []" for j
    using i by (auto simp: pushed_def fair_inv_def simp del: map_of_eq_Some_iff)
  moreover have "od_distinct (fh_by_key (pushed item k h))" using i by (auto simp: pushed_def fair_inv_def)
  moreover have "\<forall>m \<in> fst ` set (fh_items (pushed item k h)). m \<le> fh_sequence (pushed item k h)"
    using small by (auto simp: pushed_def)
  moreover have "length (fh_items (pushed item k h)) \<le> fh_maxlen (pushed item k h)" "fh_maxlen (pushed item k h) = fh_maxlen h"
    using room by (simp_all add: pushed_def)
  ultimately show ?thesis using i unfolding fair_inv_def by (simp del: map_of_eq_Some_iff)
qed

definition trimmed :: "('k, 'a) fair_history \<Rightarrow> ('k, 'a) fair_history" where
  "trimmed h = (if fh_maxlen h \<le> length (fh_items h) then evicted h else h)"

lemma trimmed_inv:
  assumes "fair_inv h"
  shows "fair_inv (trimmed h)" "length (fh_items (trimmed h)) < fh_maxlen (trimmed h)" "fh_maxlen (trimmed h) = fh_maxlen h"
    "fh_sequence (trimmed h) = fh_sequence h"
  using evicted_inv [OF assms fair_bounds(3) [OF assms]] fair_bounds(2) [OF assms] assms by (auto simp: trimmed_def)

lemma fh_append_ok:
  assumes "fair_inv h"
  shows "fh_append item k h = Some (pushed item k (trimmed h))" "fair_inv (pushed item k (trimmed h))"
proof -
  note t = trimmed_inv [OF assms]
  have "(if fh_maxlen h \<le> length (fh_items h) then evict_one h else Some h) = Some (trimmed h)"
    using evict_one_ok [OF assms] fair_bounds(3) [OF assms] by (simp add: trimmed_def)
  then show "fh_append item k h = Some (pushed item k (trimmed h))"
    using od_update_absent [OF fresh_number(1) [OF t(1)]] by (simp add: fh_append_def pushed_def owned_def Let_def)
  show "fair_inv (pushed item k (trimmed h))" by (rule pushed_inv [OF t(1,2)])
qed

subsection \<open>Who loses items\<close>

lemma evicted_others:
  assumes "fair_inv h" "fh_items h \<noteq> []" "k \<noteq> victim h"
  shows "items_of (evicted h) k = items_of h k"
proof -
  have o: "owned (evicted h) k = owned h k" using evicted_owned [OF assms(1,2)] assms(3) by simp
  have "hd (owned h (victim h)) \<notin> set (owned h k)"
    using victim_largest(2) [OF assms(1,2)] fair_disjoint [OF assms(1)] assms(3) by (metis list.set_sel(1))
  then have "filter (\<lambda>(n, x). n \<in> set (owned h k)) (AList.delete (hd (owned h (victim h))) (fh_items h))
      = filter (\<lambda>(n, x). n \<in> set (owned h k)) (fh_items h)"
    by (auto simp: AList.delete_eq intro!: filter_cong)
  then show ?thesis using o by (simp add: items_of_def) (simp add: evicted_def)
qed

lemma pushed_others: "k \<noteq> j \<Longrightarrow> fair_inv h \<Longrightarrow> items_of (pushed item j h) k = items_of h k"
proof -
  assume a: "k \<noteq> j" "fair_inv h"
  then have "owned (pushed item j h) k = owned h k" by (simp add: pushed_owned)
  then show ?thesis using fresh_number(2) [OF a(2), of k] by (simp add: items_of_def) (simp add: pushed_def)
qed

lemma pushed_own: "fair_inv h \<Longrightarrow> items_of (pushed item k h) k = items_of h k @ [item]"
proof -
  assume i: "fair_inv h"
  have "filter (\<lambda>(n, x). n \<in> set (owned h k @ [Suc (fh_sequence h)])) (fh_items h) = filter (\<lambda>(n, x). n \<in> set (owned h k)) (fh_items h)"
    using fresh_number(1) [OF i] by (intro filter_cong) (auto simp: image_iff)
  then show ?thesis by (simp add: items_of_def pushed_owned) (simp add: pushed_def)
qed

text \<open>A key with less than an equal share of a full history is never the one that loses an item.\<close>

lemma owned_total:
  assumes "fair_inv h"
  shows "length (fh_items h) = (\<Sum>k \<in> fst ` set (fh_by_key h). length (owned h k))"
proof -
  have un: "fst ` set (fh_items h) = (\<Union>k \<in> fst ` set (fh_by_key h). set (owned h k))"
  proof -
    have "k \<in> fst ` set (fh_by_key h)" if "n \<in> set (owned h k)" for n k
      using that by (cases "map_of (fh_by_key h) k") (auto simp: owned_def simp del: map_of_eq_Some_iff dest: map_of_Some_key)
    then have "(\<exists>k. n \<in> set (owned h k)) \<longleftrightarrow> n \<in> (\<Union>k \<in> fst ` set (fh_by_key h). set (owned h k))" for n by blast
    then show ?thesis using fair_owned [OF assms] by (intro set_eqI) metis
  qed
  have "card (\<Union>k \<in> fst ` set (fh_by_key h). set (owned h k)) = (\<Sum>k \<in> fst ` set (fh_by_key h). card (set (owned h k)))"
    by (rule card_UN_disjoint) (auto dest: fair_disjoint [OF assms])
  also have "\<dots> = (\<Sum>k \<in> fst ` set (fh_by_key h). length (owned h k))"
    using strict_sorted_distinct [OF fair_sorted [OF assms]] by (simp add: distinct_card)
  finally have "card (fst ` set (fh_items h)) = (\<Sum>k \<in> fst ` set (fh_by_key h). length (owned h k))" by (simp add: un)
  moreover have "od_distinct (fh_items h)" using assms strict_sorted_distinct by (auto simp: fair_inv_def)
  ultimately show ?thesis by (metis distinct_card length_map set_map)
qed

lemma small_share_spared:
  assumes "fair_inv h" "fh_items h \<noteq> []" "length (owned h k) * length (fh_by_key h) < length (fh_items h)"
  shows "k \<noteq> victim h"
proof
  assume k: "k = victim h"
  have "length (owned h j) \<le> length (owned h k)" for j using victim_largest(5) [OF assms(1,2), of j] k by auto
  then have "length (fh_items h) \<le> card (fst ` set (fh_by_key h)) * length (owned h k)"
    unfolding owned_total [OF assms(1)] using sum_bounded_above [of "fst ` set (fh_by_key h)" "\<lambda>j. length (owned h j)" "length (owned h k)"] by simp
  moreover have "card (fst ` set (fh_by_key h)) \<le> length (fh_by_key h)" using card_length [of "map fst (fh_by_key h)"] by simp
  ultimately have "length (fh_items h) \<le> length (fh_by_key h) * length (owned h k)" by (meson mult_le_mono1 order_trans)
  then show False using assms(3) by (simp add: mult.commute)
qed

subsection \<open>Floods\<close>

fun fh_appends :: "('a \<times> 'k) list \<Rightarrow> ('k, 'a) fair_history \<Rightarrow> ('k, 'a) fair_history option" where
  "fh_appends [] h = Some h"
| "fh_appends ((item, k) # xs) h = (case fh_append item k h of None \<Rightarrow> None | Some h' \<Rightarrow> fh_appends xs h')"

lemma fh_appends_inv: "fair_inv h \<Longrightarrow> \<exists>h'. fh_appends xs h = Some h' \<and> fair_inv h' \<and> fh_maxlen h' = fh_maxlen h"
proof (induction xs arbitrary: h)
  case (Cons x xs)
  obtain item k where x: "x = (item, k)" by (cases x)
  have "fh_maxlen (pushed item k (trimmed h)) = fh_maxlen h" using trimmed_inv(3) [OF Cons.prems] by (simp add: pushed_def)
  then show ?case using Cons.IH [OF fh_append_ok(2) [OF Cons.prems, of item k]] x by (simp add: fh_append_ok(1) [OF Cons.prems])
qed simp

text \<open>The strictly largest holder pays for its own items.\<close>

definition largest_holder :: "'k \<Rightarrow> ('k, 'a) fair_history \<Rightarrow> bool" where
  "largest_holder k h \<longleftrightarrow> (\<forall>j. j \<noteq> k \<longrightarrow> length (owned h j) < length (owned h k))"

lemma largest_holder_victim:
  assumes "fair_inv h" "fh_items h \<noteq> []" "largest_holder k h"
  shows "victim h = k"
  using victim_largest(5) [OF assms(1,2), of k] assms(3) by (metis largest_holder_def less_asym less_irrefl)

lemma flood_step:
  assumes i: "fair_inv h" and k: "largest_holder k h"
  shows "largest_holder k (pushed item k (trimmed h))" "j \<noteq> k \<Longrightarrow> items_of (pushed item k (trimmed h)) j = items_of h j"
proof -
  note t = trimmed_inv [OF i]
  have v: "victim h = k" if "fh_maxlen h \<le> length (fh_items h)"
    using largest_holder_victim [OF i fair_bounds(3) [OF i that] k] .
  show "j \<noteq> k \<Longrightarrow> items_of (pushed item k (trimmed h)) j = items_of h j"
    using pushed_others [OF _ t(1), of j k item] evicted_others [OF i] fair_bounds(3) [OF i] v by (auto simp: trimmed_def)
  have "length (owned h j) \<le> length (owned (trimmed h) k)" if "j \<noteq> k" for j
    using k that v evicted_owned [OF i fair_bounds(3) [OF i], of k] by (auto simp: trimmed_def largest_holder_def)
  moreover have "owned (trimmed h) j = owned h j" if "j \<noteq> k" for j
    using that v evicted_owned [OF i fair_bounds(3) [OF i], of j] by (auto simp: trimmed_def)
  ultimately show "largest_holder k (pushed item k (trimmed h))" by (simp add: largest_holder_def pushed_owned le_imp_less_Suc)
qed

lemma flood_spares:
  "fair_inv h \<Longrightarrow> largest_holder k h \<Longrightarrow> j \<noteq> k \<Longrightarrow> fh_appends (map (\<lambda>x. (x, k)) xs) h = Some h' \<Longrightarrow> items_of h' j = items_of h j"
proof (induction xs arbitrary: h)
  case (Cons x xs)
  let ?h = "pushed x k (trimmed h)"
  have "fh_appends (map (\<lambda>x. (x, k)) xs) ?h = Some h'" using Cons.prems(4) by (simp add: fh_append_ok(1) [OF Cons.prems(1)])
  then have "items_of h' j = items_of ?h j"
    using Cons.IH [OF fh_append_ok(2) [OF Cons.prems(1)] flood_step(1) [OF Cons.prems(1,2)] Cons.prems(3)] by simp
  then show ?case using flood_step(2) [OF Cons.prems(1,2,3)] by simp
qed simp

lemma share_spared:
  assumes "fair_inv h" "length (owned h j) * length (fh_by_key h) < fh_maxlen h"
  shows "items_of (pushed item k (trimmed h)) j = items_of h j @ (if j = k then [item] else [])"
proof -
  note t = trimmed_inv [OF assms(1)]
  have "items_of (trimmed h) j = items_of h j"
  proof (cases "fh_maxlen h \<le> length (fh_items h)")
    case True
    then have "j \<noteq> victim h" using assms fair_bounds [OF assms(1)] by (intro small_share_spared) auto
    then show ?thesis using True evicted_others [OF assms(1) fair_bounds(3) [OF assms(1) True]] by (simp add: trimmed_def)
  qed (simp add: trimmed_def)
  then show ?thesis using pushed_own [OF t(1)] pushed_others [OF _ t(1)] by auto
qed

text \<open>
  C25: A flood cannot flush the history. From any state the history reached, appending never raises and the number of
  items never exceeds the bound; a key that holds less than an equal share of the bound loses nothing when another item
  is appended; and once one key holds strictly more items than every other, any number of further items of that key
  leaves every other key's items as they were.
\<close>

theorem flood_cannot_flush:
  assumes "new_fair_history maxlen = Some h0" "fh_appends xs h0 = Some h"
  shows "length (fh_items h) \<le> maxlen
    \<and> (\<exists>h'. fh_append item k h = Some h'
         \<and> (\<forall>j. length (owned h j) * length (fh_by_key h) < maxlen \<longrightarrow>
              items_of h' j = items_of h j @ (if j = k then [item] else [])))
    \<and> (largest_holder k h \<longrightarrow> (\<forall>ys j. j \<noteq> k \<longrightarrow>
         (\<exists>h'. fh_appends (map (\<lambda>y. (y, k)) ys) h = Some h' \<and> items_of h' j = items_of h j)))"
proof -
  have i: "fair_inv h" "fh_maxlen h = maxlen"
    using fh_appends_inv [OF fair_inv_new [OF assms(1)], of xs] assms by (auto simp: new_fair_history_def split: if_splits)
  have "\<exists>h'. fh_appends (map (\<lambda>y. (y, k)) ys) h = Some h' \<and> items_of h' j = items_of h j" if "largest_holder k h" "j \<noteq> k" for ys j
    using fh_appends_inv [OF i(1), of "map (\<lambda>y. (y, k)) ys"] flood_spares [OF i(1) that] by blast
  then show ?thesis using fh_append_ok(1) [OF i(1)] share_spared [OF i(1)] fair_bounds(2) [OF i(1)] i(2) by auto
qed

theorem flood_cannot_flush_witness:
  "\<exists>h h'. fh_appends [(10, ''scan''), (20, ''flood''), (30, ''flood'')]
       \<lparr>fh_maxlen = 3, fh_sequence = 0, fh_items = [], fh_by_key = []\<rparr> = Some h
     \<and> fh_appends (map (\<lambda>y. (y, ''flood'')) [40, 50, 60, 70 :: int]) h = Some h' \<and> items_of h' ''scan'' = [10]"
proof -
  let ?start = "\<lparr>fh_maxlen = 3, fh_sequence = 0, fh_items = [], fh_by_key = []\<rparr> :: (string, int) fair_history"
  let ?h = "\<lparr>fh_maxlen = 3, fh_sequence = 3, fh_items = [(1, 10), (2, 20), (3, 30)],
      fh_by_key = [(''scan'', [1]), (''flood'', [2, 3])]\<rparr> :: (string, int) fair_history"
  have new: "new_fair_history 3 = Some ?start" by (simp add: new_fair_history_def)
  have h: "fh_appends [(10, ''scan''), (20, ''flood''), (30, ''flood'')] ?start = Some ?h" by (simp add: fh_append_def Let_def eval_nat_numeral)
  have lh: "largest_holder ''flood'' ?h" by (auto simp: largest_holder_def owned_def)
  have ne: "''scan'' \<noteq> ''flood''" by simp
  have scan: "items_of ?h ''scan'' = [10]" by (simp add: items_of_def owned_def)
  have "\<exists>h'. fh_appends (map (\<lambda>y. (y, ''flood'')) [40, 50, 60, 70]) ?h = Some h' \<and> items_of h' ''scan'' = [10]"
    using flood_cannot_flush [OF new h, where k = "''flood''", THEN conjunct2, THEN conjunct2, rule_format, OF lh ne]
    unfolding scan by blast
  then show ?thesis using h by blast
qed

text \<open>With a single key the history is a plain bounded one: the newest items, oldest first.\<close>

lemma one_key_step:
  assumes "fair_inv h" "fh_by_key h = [(k, map fst (fh_items h))] \<or> fh_by_key h = [] \<and> fh_items h = []"
  shows "fh_list (pushed item k (trimmed h)) = drop (Suc (length (fh_list h)) - fh_maxlen h) (fh_list h @ [item])
    \<and> fh_by_key (pushed item k (trimmed h)) = [(k, map fst (fh_items (pushed item k (trimmed h))))]"
proof (cases "fh_maxlen h \<le> length (fh_items h)")
  case True
  then obtain n x rest where it: "fh_items h = (n, x) # rest" using fair_bounds(3) [OF assms(1)] by (cases "fh_items h") auto
  then have bk: "fh_by_key h = [(k, n # map fst rest)]" using assms(2) by simp
  have len: "fh_maxlen h = Suc (length rest)" using True it fair_bounds(2) [OF assms(1)] by simp
  have v: "victim h = k" "owned h k = n # map fst rest" using bk by (simp_all add: victim_def owned_def)
  have "n \<notin> fst ` set rest" using assms(1) it by (auto simp: fair_inv_def)
  then have "AList.delete n rest = rest" by (simp add: delete_id)
  then show ?thesis using True it bk len v
    by (cases rest) (auto simp: trimmed_def evicted_def pushed_def fh_list_def owned_def)
next
  case False
  then show ?thesis using assms(2) by (auto simp: trimmed_def pushed_def fh_list_def owned_def)
qed

definition one_key :: "'k \<Rightarrow> ('k, 'a) fair_history \<Rightarrow> bool" where
  "one_key k h \<longleftrightarrow> fair_inv h \<and> (fh_by_key h = [(k, map fst (fh_items h))] \<or> fh_by_key h = [] \<and> fh_items h = [])"

lemma one_key_run:
  "one_key k h \<Longrightarrow> fh_appends (map (\<lambda>x. (x, k)) xs) h = Some h' \<Longrightarrow>
     fh_list h' = drop (length (fh_list h @ xs) - fh_maxlen h) (fh_list h @ xs)"
proof (induction xs arbitrary: h)
  case Nil
  then show ?case using fair_bounds(2) [of h] by (simp add: one_key_def fh_list_def)
next
  case (Cons x xs)
  let ?g = "pushed x k (trimmed h)"
  have i: "fair_inv h" using Cons.prems(1) by (simp add: one_key_def)
  have g: "fh_list ?g = drop (Suc (length (fh_list h)) - fh_maxlen h) (fh_list h @ [x])" "one_key k ?g"
    using one_key_step [OF i, of k x] Cons.prems(1) fh_append_ok(2) [OF i] by (auto simp: one_key_def)
  have m: "fh_maxlen ?g = fh_maxlen h" using trimmed_inv(3) [OF i] by (simp add: pushed_def)
  have "fh_list h' = drop (length (fh_list ?g @ xs) - fh_maxlen h) (fh_list ?g @ xs)"
    using Cons.IH [OF g(2)] Cons.prems(2) m by (simp add: fh_append_ok(1) [OF i])
  also have "\<dots> = drop (length (fh_list h @ x # xs) - fh_maxlen h) (fh_list h @ x # xs)"
  proof (cases "length (fh_list h) < fh_maxlen h")
    case False
    then have len: "length (fh_list h) = fh_maxlen h" using fair_bounds(2) [OF i] by (simp add: fh_list_def)
    then show ?thesis using fair_bounds(1) [OF i] g(1) by (cases "fh_list h") (auto simp: len [symmetric])
  qed (use g(1) in simp)
  finally show ?case .
qed

lemma one_key_oldest_first:
  assumes "new_fair_history maxlen = Some h0" "fh_appends (map (\<lambda>x. (x, k)) xs) h0 = Some h"
  shows "fh_list h = drop (length xs - maxlen) xs"
proof -
  have h0: "one_key k h0" "fh_list h0 = []" "fh_maxlen h0 = maxlen"
    using assms(1) fair_inv_new [OF assms(1)] by (auto simp: one_key_def new_fair_history_def fh_list_def split: if_splits)
  then show ?thesis using one_key_run [OF h0(1) assms(2)] by simp
qed

end
