(* ===== verification/Lease_Events.thy ===== *)
theory Lease_Events
  imports Packet_Parser
begin

section \<open>Change notifications of the lease directory\<close>

text \<open>
  \<open>_event_names\<close> of \<open>runtime/lease_sync.py\<close>: the names in a buffer of inotify records, each a header of four 32-bit
  fields (watch, mask, cookie, length of the name; native byte order, little-endian on the supported machines) followed
  by the name padded with zero bytes. The length comes from the buffer, so the loop is a partial function: that it
  returns on every buffer is a theorem. The set of names is the list of names found, in order.
\<close>

definition EVENT_HEADER_SIZE :: nat where
  "EVENT_HEADER_SIZE = 16"

text \<open>The fourth field of the header at an offset, and \<open>rstrip(b"\0")\<close>.\<close>

definition name_length :: "bytes \<Rightarrow> nat \<Rightarrow> nat" where
  "name_length raw offset = big_endian (rev (byte_slice raw (offset + 12) (offset + 16)))"

definition strip_zeros :: "bytes \<Rightarrow> bytes" where
  "strip_zeros name = rev (dropWhile (\<lambda>b. b = 0) (rev name))"

partial_function (option) event_loop :: "bytes \<Rightarrow> nat \<Rightarrow> bytes list \<Rightarrow> bytes list option" where
  "event_loop raw offset names =
     (if offset + EVENT_HEADER_SIZE \<le> length raw
      then let start = offset + EVENT_HEADER_SIZE;
               len = name_length raw offset
           in event_loop raw (start + len) (names @ [strip_zeros (byte_slice raw start (start + len))])
      else Some names)"

declare event_loop.simps [code]

definition event_names :: "bytes \<Rightarrow> bytes list option" where
  "event_names raw = event_loop raw 0 []"

subsection \<open>The loop returns\<close>

lemma event_loop_returns:
  "\<exists>found. event_loop raw offset names = Some (names @ found) \<and> EVENT_HEADER_SIZE * length found \<le> length raw - offset"
proof (induction "length raw - offset" arbitrary: offset names rule: less_induct)
  case less
  show ?case
  proof (cases "offset + EVENT_HEADER_SIZE \<le> length raw")
    case True
    let ?next = "offset + EVENT_HEADER_SIZE + name_length raw offset"
    let ?name = "strip_zeros (byte_slice raw (offset + EVENT_HEADER_SIZE) ?next)"
    have "length raw - ?next < length raw - offset" using True by (simp add: EVENT_HEADER_SIZE_def)
    then obtain found where f: "event_loop raw ?next (names @ [?name]) = Some ((names @ [?name]) @ found)"
      "EVENT_HEADER_SIZE * length found \<le> length raw - ?next" using less by blast
    have "event_loop raw offset names = Some (names @ (?name # found))"
      using True f(1) by (simp add: event_loop.simps [of raw offset] Let_def)
    moreover have "EVENT_HEADER_SIZE * length (?name # found) \<le> length raw - offset"
      using f(2) True by (simp add: EVENT_HEADER_SIZE_def)
    ultimately show ?thesis by blast
  next
    case False
    then show ?thesis by (simp add: event_loop.simps [of raw offset])
  qed
qed

text \<open>
  C37: Reading change notifications ends on every buffer. Whatever bytes the kernel hands over, also lengths that point
  past the end of the buffer, the loop returns, and it has read at most one name per sixteen bytes.
\<close>

theorem event_names_terminates:
  "\<exists>names. event_names raw = Some names \<and> EVENT_HEADER_SIZE * length names \<le> length raw"
  using event_loop_returns [of raw 0 "[]"] by (simp add: event_names_def)

subsection \<open>What it returns\<close>

text \<open>A record as the kernel writes it: the header and the name with its padding.\<close>

definition little_endian :: "nat \<Rightarrow> bytes" where
  "little_endian n = map (\<lambda>i. of_nat (n div 256 ^ i)) [0..<4]"

record inotify_record =
  ir_header :: bytes
  ir_name :: bytes
  ir_padding :: nat

definition encode_record :: "inotify_record \<Rightarrow> bytes" where
  "encode_record r = ir_header r @ little_endian (length (ir_name r) + ir_padding r) @ ir_name r @ replicate (ir_padding r) 0"

definition record_ok :: "inotify_record \<Rightarrow> bool" where
  "record_ok r \<longleftrightarrow> length (ir_header r) = 12 \<and> length (ir_name r) + ir_padding r < 2 ^ 32
     \<and> (ir_name r = [] \<or> last (ir_name r) \<noteq> 0)"

lemma unat_byte_of: "unat (of_nat m :: 8 word) = m mod 256"
  by (simp add: unat_of_nat)

lemma little_endian_value:
  assumes "n < 2 ^ 32"
  shows "big_endian (rev (little_endian n)) = n"
proof -
  have l: "little_endian n = [of_nat n, of_nat (n div 256), of_nat (n div 65536), of_nat (n div 16777216)]"
  proof -
    have "[0..<4] = [0, 1, 2, 3 :: nat]" by (simp add: upt_conv_Cons)
    then show ?thesis by (simp add: little_endian_def)
  qed
  have "n div 16777216 < 256" using assms by (simp add: div_less_iff_less_mult)
  then have "n div 16777216 mod 256 = n div 16777216" by simp
  moreover have "n mod 256 + 256 * (n div 256 mod 256 + 256 * (n div 65536 mod 256 + 256 * (n div 16777216))) = n"
  proof -
    have d: "n div 65536 = n div 256 div 256" "n div 16777216 = n div 256 div 256 div 256"
      by (simp_all add: div_mult2_eq [symmetric])
    have "n div 256 div 256 mod 256 + 256 * (n div 256 div 256 div 256) = n div 256 div 256" by (rule mod_mult_div_eq)
    moreover have "n div 256 mod 256 + 256 * (n div 256 div 256) = n div 256" by (rule mod_mult_div_eq)
    moreover have "n mod 256 + 256 * (n div 256) = n" by (rule mod_mult_div_eq)
    ultimately show ?thesis unfolding d by simp
  qed
  ultimately show ?thesis unfolding l by (simp add: big_endian_def unat_byte_of algebra_simps)
qed

lemma strip_padding: "name = [] \<or> last name \<noteq> 0 \<Longrightarrow> strip_zeros (name @ replicate k 0) = name"
proof -
  assume a: "name = [] \<or> last name \<noteq> 0"
  have "dropWhile (\<lambda>b. b = 0) (replicate k 0 @ rev name) = dropWhile (\<lambda>b. b = 0) (rev name)" by (induction k) auto
  moreover have "dropWhile (\<lambda>b. b = 0) (rev name) = rev name"
    using a by (cases "rev name") (auto simp: hd_rev [symmetric] simp del: hd_rev)
  ultimately show ?thesis by (simp add: strip_zeros_def)
qed

lemma event_loop_record:
  assumes "record_ok r" "raw = before @ encode_record r @ after"
  shows "event_loop raw (length before) names =
    event_loop raw (length (before @ encode_record r)) (names @ [ir_name r])"
proof -
  let ?len = "length (ir_name r) + ir_padding r"
  have h: "length (ir_header r) = 12" "?len < 2 ^ 32" "ir_name r = [] \<or> last (ir_name r) \<noteq> 0" using assms(1) by (auto simp: record_ok_def)
  have four: "length (little_endian n) = 4" for n by (simp add: little_endian_def)
  have "byte_slice raw (length before + 12) (length before + 16) = little_endian ?len"
    using h(1) four by (simp add: assms(2) encode_record_def byte_slice_def)
  then have len: "name_length raw (length before) = ?len" using little_endian_value [OF h(2)] by (simp add: name_length_def)
  have "byte_slice raw (length before + 16) (length before + 16 + ?len) = ir_name r @ replicate (ir_padding r) 0"
    using h(1) four by (simp add: assms(2) encode_record_def byte_slice_def)
  then have name: "strip_zeros (byte_slice raw (length before + 16) (length before + 16 + ?len)) = ir_name r"
    using strip_padding [OF h(3)] by simp
  have size: "length (encode_record r) = 16 + ?len" using h(1) four by (simp add: encode_record_def)
  then have "length before + 16 \<le> length raw" using assms(2) by simp
  then show ?thesis
    using len name size by (subst event_loop.simps) (simp add: EVENT_HEADER_SIZE_def Let_def add.assoc)
qed

lemma event_loop_records:
  "list_all record_ok rs \<Longrightarrow> raw = before @ concat (map encode_record rs) \<Longrightarrow>
     event_loop raw (length before) names = Some (names @ map ir_name rs)"
proof (induction rs arbitrary: before names)
  case Nil
  then show ?case by (subst event_loop.simps) (simp add: EVENT_HEADER_SIZE_def)
next
  case (Cons r rs)
  have "event_loop raw (length before) names = event_loop raw (length (before @ encode_record r)) (names @ [ir_name r])"
    using Cons.prems by (intro event_loop_record [where after = "concat (map encode_record rs)"]) auto
  also have "\<dots> = Some ((names @ [ir_name r]) @ map ir_name rs)" using Cons.prems by (intro Cons.IH) auto
  finally show ?case by simp
qed

lemma event_names_exact: "list_all record_ok rs \<Longrightarrow> event_names (concat (map encode_record rs)) = Some (map ir_name rs)"
  using event_loop_records [of rs _ "[]" "[]"] by (simp add: event_names_def)

end
