(* ===== verification/Spec2Isabelle.thy ===== *)
theory Spec2Isabelle
  imports Policy_Engine Threat_Engine Throttle Generator Validator Bindings Flow_Aggregator Connection_Start Protection
    Escalation D1_History D1_Fitting Packet_Parser Portal_Service
    Behavior_History Inference Fair_History Lease_Events
begin

text \<open>
  A verification of Pirewall (\<open>src/pirewall\<close>), an adaptive firewall for a home network: packets become flows,
  flows and kernel counters become evidence, evidence becomes a decision, a decision becomes a narrow
  temporary rule, and a rule becomes an element of a kernel set with a timeout. The theories model
  that path and the state around it; this theory holds this description only and imports the others.

  \<^bold>\<open>The program's parts and the theories.\<close> In the order in which data passes through the program:

  \<^item> \<open>Prelude\<close>: time (microseconds as integers, \<open>datetime\<close> and \<open>timedelta\<close>), insertion-ordered dictionaries
    (\<open>odict\<close>, association lists with distinct keys), Python's \<open>round\<close>, and the list, option and map lemmas
    every theory uses. \<open>Text\<close> has the string functions of the language the source uses (strip, split, integers,
    hexadecimal), \<open>Ipv4\<close> the \<open>ipaddress\<close> types at their 32 bits with printing and parsing, \<open>Lru\<close> the bounded
    \<open>OrderedDict\<close> that several components share, as a locale \<open>lru_memory\<close> with its interpretations.
  \<^item> \<open>Enums\<close>, \<open>Models\<close>, \<open>Flow_Models\<close>: \<open>core/enums.py\<close> and \<open>core/models/\<close>, each model's field constraints and
    validators as a predicate.
  \<^item> \<open>Packet_Parser\<close>: \<open>capture/parser.py\<close>, Ethernet frames (lists of bytes) to packets, and the TCP payload
    extractor.
  \<^item> \<open>Flow_State\<close>, \<open>Flow_Aggregator\<close>, \<open>Connection_Start\<close>: \<open>flow/\<close>. A flow's key, running statistics,
    counters and closure; the table of open flows with its capacity, its sweeps and its snapshots; the memory
    of connections already counted.
  \<^item> \<open>Bindings\<close>: \<open>core/bindings.py\<close>, the parser of the DHCP server's lease file and the table of
    address/MAC bindings with the changes it reports.
  \<^item> \<open>Features\<close>: \<open>features/\<close>, the two feature schemas and the extraction of a flow's vector.
  \<^item> \<open>Thresholds\<close>: \<open>detection_v2/thresholds.py\<close>, the keys and their text, the priors, the threshold file with its
    hash, percentiles, loading and dumping. \<open>D1_State\<close>: \<open>detection_v2/d1.py\<close>, the bounded windows of connection
    starts, bindings and login failures, what is measured on them and the evidence that fires. \<open>D1_Bounds\<close>
    holds its invariant and its exact evaluation, \<open>D1_Detection\<close> what re-evaluation does to decisions, \<open>D1_History\<close>
    its refinement of the history of connections. \<open>D1_Fitting\<close>: \<open>scripts/train/fit_d1_thresholds.py\<close>, the fit of
    the thresholds to benign traffic.
  \<^item> \<open>Kernel_Poller\<close>: \<open>detection_v2/kernel.py\<close>, the kernel's offenders and counters as evidence. \<open>Escalation\<close>
    joins it to the policy engine.
  \<^item> \<open>Behavior_State\<close>: \<open>detection/behavior.py\<close>, the version 1 behaviour analysis: the windowed state of one source, the
    analyzer that keeps one per source and the patterns it reports; \<open>Behavior_History\<close> compares it with the plain list
    of a source's connections. \<open>Calibration\<close> and \<open>Inference\<close>: \<open>ml/calibration.py\<close>, \<open>ml/inference/\<close>,
    \<open>detection/known_attack.py\<close> and \<open>detection/anomaly.py\<close>, everything around the two learned models, which are functions
    of the loaded model.
  \<^item> \<open>Threat_Engine\<close>: \<open>engine/\<close>, the scores and the version 1 decision. \<open>Policy_Table\<close> and \<open>Policy_Engine\<close>:
    \<open>policy/\<close>, the decision table and the version 2 engine with its per-device history.
  \<^item> \<open>Generator\<close>, \<open>Rate_Limiter\<close>, \<open>Validator\<close>: \<open>firewall/generator.py\<close>, \<open>firewall/rate_limiter.py\<close>,
    \<open>firewall/validator.py\<close>: a decision's candidate rule and both validation chains, stage by stage.
  \<^item> \<open>Sets\<close>, \<open>Fake_Sets\<close>: \<open>core/nft_names.py\<close>, \<open>firewall/sets.py\<close> and \<open>firewall/backend/fake_sets.py\<close>: which sets
    the manager may write and with which elements, and the in-memory kernel sets with timeouts, capacities,
    atomic batches and injected failures. The locale \<open>kernel_sets\<close> states what a set backend promises.
    \<open>Fake_Backend\<close>: \<open>firewall/backend/fake.py\<close>, the version 1 backend.
  \<^item> \<open>Manager\<close>: \<open>firewall/manager.py\<close>, the only component that writes to the kernel. \<open>Lifecycle\<close> has every
    operation of the manager as a step relation with its audit trail, in which the table of the host's own addresses
    and the answers of the MAC resolver may change between operations; \<open>Protection\<close> the invariant that infrastructure
    is not enforced upon.
  \<^item> \<open>Fair_History\<close>: \<open>ipc/history.py\<close>, the bounded history of flows, detections and threats. \<open>Lease_Events\<close>:
    the inotify loop of \<open>runtime/lease_sync.py\<close>.
  \<^item> \<open>Throttle\<close>: \<open>core/throttle.py\<close> and \<open>api/throttle.py\<close>, login lockouts.
  \<^item> \<open>Passwords\<close>: \<open>core/passwords.py\<close>, salted hashes and their verification, with the key derivation as an argument.
    \<open>Portal_Store\<close>: \<open>portal/store.py\<close> and \<open>portal/demo_policy.py\<close>, the captive portal's accounts and their file.
    \<open>Portal_Sessions\<close>: \<open>portal/sessions.py\<close>, the session registry with its indexes by token and by address, and the
    login throttle. \<open>Portal_Service\<close>: \<open>ipc/portal_service.py\<close>, login, keepalive, logout, account administration and
    the sweep, composed of the three, the lease bindings and the firewall manager, whose kernel sets hold the grants.

  \<^bold>\<open>State and operations.\<close> An object is a record with its fields; a method is a function from its arguments
  and the record to its result and the new record. A dictionary whose order matters is an \<open>odict\<close>. An exception
  is a value: \<open>None\<close> or \<open>Inl\<close>. The clock, fresh identifiers (\<open>uuid\<close>), number formatting, the MAC resolver
  and the addresses the kernel reports are arguments. Loops are structural recursion, so the definitions
  are total and need no fuel; the one loop whose step comes from its input (\<open>Lease_Events\<close>) is a partial function that is
  proved to return. Floating point numbers are reals, so statements about scores and statistics hold up to
  rounding. Structures in native byte order are read as little-endian, the order of the machines the program runs on; JSON
  files are the records they encode.

  \<^bold>\<open>What the theorems show.\<close> Learned evidence never enforces, and repeated evidence never acts twice as long as the
  engine's bounded memory reaches back to it, over every interleaving of passes (\<open>Policy_Engine\<close>); which candidates are approved, exactly (\<open>Validator\<close>); an approved rule's element is one
  the kernel layer accepts, ends within the hour and appears with its batch or not at all (\<open>Sets\<close>, \<open>Fake_Sets\<close>);
  a rule reported ACTIVE has its element, and the kill switch leaves none (\<open>Manager\<close>); over every sequence of
  operations the audit trail is complete and retired rules stay retired (\<open>Lifecycle\<close>), and neither the
  configured infrastructure nor an address the host holds throughout is enforced upon (\<open>Protection\<close>; an address
  acquired after a rule was checked is not covered, because approval does not validate again); every frame is parsed or refused by a check, and sent frames are read back
  (\<open>Packet_Parser\<close>); features do not depend on who talks (\<open>Features\<close>); threshold files and names round-trip
  (\<open>Thresholds\<close>); the detectors' memory is bounded, their windows count the history, fitted thresholds stay in
  their bands and traffic above a ceiling is always detected in the windows the fit covered (\<open>D1_Bounds\<close>, \<open>D1_History\<close>, \<open>D1_Fitting\<close>); kernel
  evidence follows the streaks of polls, and looking again at the same facts never escalates (\<open>Kernel_Poller\<close>,
  \<open>Escalation\<close>, \<open>D1_Detection\<close>); the aggregator refines
  a map from conversations to their packets and never raises (\<open>Flow_Aggregator\<close>); lockouts agree with the
  history of failures (\<open>Throttle\<close>); the lease parser and the table mirror the file (\<open>Bindings\<close>); the session registry
  holds one session per address and finds exactly the live ones (\<open>Portal_Sessions\<close>); accounts survive a restart, exactly
  until a write fails, and passwords verify (\<open>Portal_Store\<close>, \<open>Passwords\<close>); the outcome of every login, that a change of credentials ends its
  sessions, and that after a sweep no grant is left without a session (\<open>Portal_Service\<close>); behaviour
  analysis never raises, its counters are exact, and its patterns match what the source did in the window
  (\<open>Behavior_State\<close>, \<open>Behavior_History\<close>); no model sees a vector of another schema, a batch scores as single rows do, and
  which false-positive rate a threshold really has (\<open>Inference\<close>, \<open>Calibration\<close>); a flood cannot flush the history
  (\<open>Fair_History\<close>).

  \<^bold>\<open>Not modelled.\<close> Sockets, threads, subprocesses and files (the rest of \<open>capture/\<close>, \<open>runtime/\<close> and \<open>ipc/\<close>, the nftables
  backends), HTTP and HTML (\<open>api/\<close>, \<open>web/\<close>, the rest of \<open>portal/\<close>), the detection
  coordinator and the TLS inspectors (\<open>detection/\<close>), training (\<open>ml/training\<close>), the Rust crate (\<open>native/\<close>) and the operator's scripts except the threshold fit. Locks are left
  out: an operation is one step.
\<close>

end
